(* ===== verification/Board_Prelude.thy ===== *)
theory Board_Prelude
  imports Main "HOL-Library.Word" "HOL-Library.Monad_Syntax"
begin

unbundle bit_operations_syntax

text \<open>
  Shared vocabulary of the development: the machine integer types of the target (a 32-bit
  Cortex-M4: \<open>int\<close>, \<open>long\<close>, \<open>size_t\<close> and pointers are 32 bits wide), byte memory with checked
  accesses, and the arithmetic of circular buffers that both ring buffers of the firmware use.

  Memory is a list of bytes per object. Every read or write of a C object goes through
  \<open>mem_read\<close> and \<open>mem_write\<close>, which return \<open>None\<close> when the access leaves the object. A model
  function of type \<open>'a option\<close> that returns \<open>None\<close> has therefore left the bounds of an object
  (undefined behaviour in C); a theorem with a \<open>Some\<close> on its right-hand side says in particular
  that this does not happen. A pointer argument that may be \<open>NULL\<close> is an option as well.
\<close>

section \<open>Machine types\<close>

type_synonym u8 = "8 word"
type_synonym u16 = "16 word"
type_synonym u32 = "32 word"
type_synonym bytes = "u8 list"

named_theorems mem_simps \<open>checked memory accesses inside bounds\<close>
named_theorems ring_simps \<open>contents of circular buffers\<close>
named_theorems word_nat \<open>from machine words to natural numbers\<close>

section \<open>Checked memory\<close>

definition mem_read :: "bytes \<Rightarrow> nat \<Rightarrow> nat \<Rightarrow> bytes option" where
  "mem_read m off n = (if off + n \<le> length m then Some (take n (drop off m)) else None)"

definition patch_at :: "'a list \<Rightarrow> nat \<Rightarrow> 'a list \<Rightarrow> 'a list" where
  "patch_at m off xs = take off m @ xs @ drop (off + length xs) m"

definition mem_write :: "bytes \<Rightarrow> nat \<Rightarrow> bytes \<Rightarrow> bytes option" where
  "mem_write m off xs = (if off + length xs \<le> length m then Some (patch_at m off xs) else None)"

text \<open>\<open>memcpy (dst + doff, src + soff, n)\<close> between two distinct objects.\<close>

definition memcpy :: "bytes \<Rightarrow> nat \<Rightarrow> bytes \<Rightarrow> nat \<Rightarrow> nat \<Rightarrow> bytes option" where
  "memcpy dst doff src soff n = do { xs \<leftarrow> mem_read src soff n; mem_write dst doff xs }"

lemma length_patch_at [simp]:
  "off + length xs \<le> length m \<Longrightarrow> length (patch_at m off xs) = length m"
  by (simp add: patch_at_def)

lemma patch_at_Nil [simp]: "patch_at m off [] = m"
  by (simp add: patch_at_def)

lemma patch_at_0: "patch_at m 0 xs = xs @ drop (length xs) m"
  by (simp add: patch_at_def)

lemma nth_patch_at:
  assumes "off + length xs \<le> length m" and "i < length m"
  shows "patch_at m off xs ! i =
    (if off \<le> i \<and> i < off + length xs then xs ! (i - off) else m ! i)"
  using assms by (auto simp: patch_at_def nth_append)

lemma take_patch_at_le: "i \<le> off \<Longrightarrow> off \<le> length m \<Longrightarrow> take i (patch_at m off xs) = take i m"
  by (simp add: patch_at_def)

lemma drop_patch_at_ge:
  assumes "off + length xs \<le> i" and "i \<le> length m"
  shows "drop i (patch_at m off xs) = drop i m"
proof -
  have "length (take off m @ xs) = off + length xs" using assms by simp
  then have "drop i (patch_at m off xs) = drop (i - (off + length xs)) (drop (off + length xs) m)"
    using assms by (simp add: patch_at_def)
  then show ?thesis using assms by simp
qed

lemma patch_at_exact:
  "off + length xs \<le> length m \<Longrightarrow> take (length xs) (drop off (patch_at m off xs)) = xs"
  by (simp add: patch_at_def)

lemma patch_at_append:
  assumes "off + length xs + length ys \<le> length m"
  shows "patch_at (patch_at m off xs) (off + length xs) ys = patch_at m off (xs @ ys)"
  using assms by (simp add: patch_at_def ac_simps)

lemma mem_read_Some [mem_simps]:
  "off + n \<le> length m \<Longrightarrow> mem_read m off n = Some (take n (drop off m))"
  by (simp add: mem_read_def)

lemma mem_write_Some [mem_simps]:
  "off + length xs \<le> length m \<Longrightarrow> mem_write m off xs = Some (patch_at m off xs)"
  by (simp add: mem_write_def)

lemma memcpy_Some [mem_simps]:
  assumes "soff + n \<le> length src" and "doff + n \<le> length dst"
  shows "memcpy dst doff src soff n = Some (patch_at dst doff (take n (drop soff src)))"
  using assms by (simp add: memcpy_def mem_simps)

lemma memcpy_offset:
  "off \<le> length src \<Longrightarrow> memcpy dst doff src (off + s) n = memcpy dst doff (drop off src) s n"
  by (auto simp: memcpy_def mem_read_def add.commute)

text \<open>The last \<open>k\<close> elements of a list, what a queue keeps that overwrites its oldest bytes.\<close>

definition last_n :: "nat \<Rightarrow> 'a list \<Rightarrow> 'a list" where
  "last_n k xs = drop (length xs - k) xs"

lemma last_n_append_short:
  "length ys \<le> k \<Longrightarrow> last_n k (xs @ ys) = drop (length xs - (k - length ys)) xs @ ys"
  by (auto simp: last_n_def)

lemma last_n_append_long: "k \<le> length ys \<Longrightarrow> last_n k (xs @ ys) = last_n k ys"
  by (simp add: last_n_def)

text \<open>The first element of a table with a property, by its index.\<close>

fun find_index :: "('a \<Rightarrow> bool) \<Rightarrow> 'a list \<Rightarrow> nat option" where
  "find_index P [] = None"
| "find_index P (x # xs) = (if P x then Some 0 else map_option Suc (find_index P xs))"

lemma find_index_Some:
  "find_index P xs = Some i \<Longrightarrow> i < length xs \<and> P (xs ! i) \<and> (\<forall>j < i. \<not> P (xs ! j))"
  by (induction xs arbitrary: i) (auto simp: nth_Cons' less_Suc_eq_0_disj split: if_splits)

lemma find_index_None: "find_index P xs = None \<longleftrightarrow> (\<forall>x \<in> set xs. \<not> P x)"
  by (induction xs) auto

section \<open>Words as natural numbers\<close>

lemma unat_add_small [word_nat]:
  fixes x y :: "'a::len word"
  assumes "unat x + unat y < 2 ^ LENGTH('a)"
  shows "unat (x + y) = unat x + unat y"
  using assms by (simp add: unat_add_lem)

lemma unat_minus_le [word_nat]:
  fixes x y :: "'a::len word"
  assumes "unat y \<le> unat x"
  shows "unat (x - y) = unat x - unat y"
  using assms by (simp add: unat_sub word_le_nat_alt)

lemma unat_bound32: "unat (x :: u32) < 4294967296"
  using unsigned_less [of x, where 'a = nat] by simp

lemma unat_of_nat32: "n < 4294967296 \<Longrightarrow> unat (of_nat n :: u32) = n"
  by (simp add: unat_of_nat)

lemma unat_eq_of_nat: "unat (x :: 'a::len word) = n \<Longrightarrow> x = of_nat n"
  by auto

lemma sint_small32:
  assumes "unat (x :: u32) < 2 ^ 31"
  shows "sint x = uint x"
proof -
  have "int (unat x) < int (2 ^ 31)" using assms by (simp only: of_nat_less_iff)
  then have "uint x < 2 ^ 31" by simp
  moreover have "0 \<le> uint x" by simp
  then have "- (2 ^ 31) \<le> uint x" by (rule order_trans [rotated]) simp
  ultimately show ?thesis by (simp add: sint_uint signed_take_bit_int_eq_self)
qed

lemmas word_cmp = word_less_nat_alt word_le_nat_alt

lemma word_neq_0_unat: "(x :: 'a::len word) \<noteq> 0 \<longleftrightarrow> 0 < unat x"
  by (simp add: unat_gt_0)

section \<open>Circular buffers\<close>

text \<open>
  \<open>ring_slice m r k\<close> is the sequence of \<open>k\<close> bytes that start at index \<open>r\<close> of the storage \<open>m\<close>
  and wrap around at its end; \<open>ring_store m w xs\<close> writes \<open>xs\<close> at \<open>w\<close> with the same wrap-around,
  as the two \<open>memcpy\<close> calls of the ring buffers do.
\<close>

definition ring_slice :: "'a list \<Rightarrow> nat \<Rightarrow> nat \<Rightarrow> 'a list" where
  "ring_slice m r k = map (\<lambda>i. m ! ((r + i) mod length m)) [0..<k]"

definition ring_store :: "'a list \<Rightarrow> nat \<Rightarrow> 'a list \<Rightarrow> 'a list" where
  "ring_store m w xs =
     (let n = min (length m - w) (length xs)
      in patch_at (patch_at m w (take n xs)) 0 (drop n xs))"

lemma length_ring_slice [simp]: "length (ring_slice m r k) = k"
  by (simp add: ring_slice_def)

lemma nth_ring_slice: "i < k \<Longrightarrow> ring_slice m r k ! i = m ! ((r + i) mod length m)"
  by (simp add: ring_slice_def)

lemma ring_slice_0 [simp]: "ring_slice m r 0 = []"
  by (simp add: ring_slice_def)

lemma ring_slice_linear [ring_simps]:
  assumes "r + k \<le> length m"
  shows "ring_slice m r k = take k (drop r m)"
  by (rule nth_equalityI) (use assms in \<open>auto simp: ring_slice_def\<close>)

lemma ring_slice_wrap [ring_simps]:
  assumes "r \<le> length m" and "length m < r + k" and "k \<le> length m"
  shows "ring_slice m r k = drop r m @ take (r + k - length m) m"
proof (rule nth_equalityI)
  show "length (ring_slice m r k) = length (drop r m @ take (r + k - length m) m)"
    using assms by simp
next
  fix i assume i: "i < length (ring_slice m r k)"
  show "ring_slice m r k ! i = (drop r m @ take (r + k - length m) m) ! i"
  proof (cases "r + i < length m")
    case True
    then show ?thesis using i by (simp add: ring_slice_def nth_append less_diff_conv add.commute)
  next
    case False
    have "(r + i) mod length m = r + i - length m"
      using False i assms by (simp add: mod_if)
    moreover have "\<not> i < length m - r" using False by simp
    ultimately show ?thesis using i assms
      by (simp add: ring_slice_def nth_append add.commute)
  qed
qed

lemma ring_slice_mod: "ring_slice m (r mod length m) k = ring_slice m r k"
  by (simp add: ring_slice_def mod_add_left_eq)

lemma ring_slice_add: "ring_slice m r (j + k) = ring_slice m r j @ ring_slice m (r + j) k"
  by (rule nth_equalityI) (auto simp: ring_slice_def nth_append add.assoc)

lemma take_ring_slice: "take j (ring_slice m r k) = ring_slice m r (min j k)"
  by (rule nth_equalityI) (auto simp: ring_slice_def)

lemma drop_ring_slice: "drop j (ring_slice m r k) = ring_slice m (r + j) (k - j)"
  by (rule nth_equalityI) (auto simp: ring_slice_def add.assoc)

lemma length_ring_store [simp]:
  "w \<le> length m \<Longrightarrow> length xs \<le> length m \<Longrightarrow> length (ring_store m w xs) = length m"
  by (simp add: ring_store_def Let_def)

lemma nth_ring_store:
  assumes w: "w < length m" and len: "length xs \<le> length m" and i: "i < length m"
  shows "ring_store m w xs ! i =
    (if w \<le> i \<and> i < w + length xs then xs ! (i - w)
     else if i + length m < w + length xs then xs ! (i + length m - w) else m ! i)"
proof (cases "length xs \<le> length m - w")
  case True
  then have "ring_store m w xs = patch_at m w xs"
    by (simp add: ring_store_def Let_def min_def)
  moreover have "\<not> i + length m < w + length xs" using True w by simp
  ultimately show ?thesis using True assms by (simp add: nth_patch_at)
next
  case False
  define n where "n = length m - w"
  have st: "ring_store m w xs = patch_at (patch_at m w (take n xs)) 0 (drop n xs)"
    using False by (simp add: ring_store_def Let_def n_def)
  have l1: "w + length (take n xs) \<le> length m" using False w by (simp add: n_def)
  have l2: "0 + length (drop n xs) \<le> length (patch_at m w (take n xs))"
    using len l1 by simp
  have "ring_store m w xs ! i = (if i < length xs - n then drop n xs ! i
      else patch_at m w (take n xs) ! i)"
    using nth_patch_at [OF l2, of i] l1 i by (simp add: st)
  also have "\<dots> = (if w \<le> i \<and> i < w + length xs then xs ! (i - w)
     else if i + length m < w + length xs then xs ! (i + length m - w) else m ! i)"
    using nth_patch_at [OF l1 i] False w i len
    by (auto simp: n_def add.commute)
  finally show ?thesis .
qed

text \<open>Appending at the write position keeps what is stored and adds the new bytes.\<close>

lemma ring_slice_store:
  assumes r: "r < length m" and cap: "k + length xs \<le> length m"
    and w: "w = (r + k) mod length m"
  shows "ring_slice (ring_store m w xs) r (k + length xs) = ring_slice m r k @ xs"
proof (rule nth_equalityI)
  show "length (ring_slice (ring_store m w xs) r (k + length xs)) = length (ring_slice m r k @ xs)"
    by simp
next
  fix i assume "i < length (ring_slice (ring_store m w xs) r (k + length xs))"
  then have i: "i < k + length xs" by simp
  have mpos: "0 < length m" using r by (rule le_less_trans [OF le0])
  have wl: "w < length m" using w mpos by simp
  have ln: "length xs \<le> length m" using cap by simp
  define j where "j = (r + i) mod length m"
  have jl: "j < length m" using mpos by (simp add: j_def)
  have jv: "j = (if r + i < length m then r + i else r + i - length m)"
    using i cap r by (simp add: j_def mod_if)
  have wv: "w = (if r + k < length m then r + k else r + k - length m)"
    using cap r w by (simp add: mod_if)
  have lhs: "ring_slice (ring_store m w xs) r (k + length xs) ! i = ring_store m w xs ! j"
    using i wl ln by (simp add: nth_ring_slice j_def)
  show "ring_slice (ring_store m w xs) r (k + length xs) ! i = (ring_slice m r k @ xs) ! i"
  proof (cases "i < k")
    case True
    then have "ring_store m w xs ! j = m ! j"
      using nth_ring_store [OF wl ln jl] jv wv r cap by (auto split: if_splits)
    then show ?thesis using True lhs by (simp add: nth_append nth_ring_slice j_def)
  next
    case False
    then have "ring_store m w xs ! j = xs ! (i - k)"
      using nth_ring_store [OF wl ln jl] jv wv r cap i by (auto split: if_splits)
    then show ?thesis using False lhs by (simp add: nth_append)
  qed
qed

text \<open>The two-part copies of the ring buffers, in and out of the storage.\<close>

lemma ring_copy_in:
  assumes "w \<le> length m" and "n \<le> length d" and "n \<le> length m" and "t = min (length m - w) n"
  shows "memcpy m w d 0 t = Some (patch_at m w (take t d))"
    and "memcpy (patch_at m w (take t d)) 0 d t (n - t) = Some (ring_store m w (take n d))"
    and "t = n \<Longrightarrow> patch_at m w (take t d) = ring_store m w (take n d)"
proof -
  have t: "t \<le> n" "w + t \<le> length m" "t \<le> length d" using assms by auto
  then show "memcpy m w d 0 t = Some (patch_at m w (take t d))"
    by (simp add: mem_simps)
  have store: "ring_store m w (take n d) = patch_at (patch_at m w (take t d)) 0 (take (n - t) (drop t d))"
    using assms t by (simp add: ring_store_def Let_def min_absorb1 min_absorb2 drop_take)
  have "length (patch_at m w (take t d)) = length m" using t by simp
  then show "memcpy (patch_at m w (take t d)) 0 d t (n - t) = Some (ring_store m w (take n d))"
    using t assms(2,3) store by (simp add: mem_simps)
  show "t = n \<Longrightarrow> patch_at m w (take t d) = ring_store m w (take n d)"
    using store by simp
qed

lemma ring_copy_out:
  assumes "r < length m" and "n \<le> length d" and "n \<le> length m" and "t = min (length m - r) n"
  shows "memcpy d 0 m r t = Some (patch_at d 0 (take t (drop r m)))"
    and "memcpy (patch_at d 0 (take t (drop r m))) t m 0 (n - t) = Some (patch_at d 0 (ring_slice m r n))"
    and "t = n \<Longrightarrow> patch_at d 0 (take t (drop r m)) = patch_at d 0 (ring_slice m r n)"
proof -
  have t: "t \<le> n" "r + t \<le> length m" "t \<le> length d" using assms by auto
  then show "memcpy d 0 m r t = Some (patch_at d 0 (take t (drop r m)))"
    by (simp add: mem_simps)
  have len: "length (take t (drop r m)) = t" using t by simp
  have slice: "ring_slice m r n = take t (drop r m) @ take (n - t) m"
  proof (cases "r + n \<le> length m")
    case True
    then show ?thesis using assms by (simp add: ring_slice_linear min_def)
  next
    case False
    then have "t = length m - r" and "n - t = r + n - length m" using assms by (auto simp: min_def)
    then show ?thesis using False assms by (simp add: ring_slice_wrap)
  qed
  have "length (patch_at d 0 (take t (drop r m))) = length d" using t by simp
  then have "memcpy (patch_at d 0 (take t (drop r m))) t m 0 (n - t) =
      Some (patch_at (patch_at d 0 (take t (drop r m))) t (take (n - t) m))"
    using t assms(2,3) by (simp add: mem_simps)
  moreover have "patch_at (patch_at d 0 (take t (drop r m))) t (take (n - t) m) =
      patch_at d 0 (take t (drop r m) @ take (n - t) m)"
    using patch_at_append [of 0 "take t (drop r m)" "take (n - t) m" d] len t assms(2,3) by simp
  ultimately show "memcpy (patch_at d 0 (take t (drop r m))) t m 0 (n - t) =
      Some (patch_at d 0 (ring_slice m r n))"
    using slice by simp
  show "t = n \<Longrightarrow> patch_at d 0 (take t (drop r m)) = patch_at d 0 (ring_slice m r n)"
    using slice by simp
qed

text \<open>Moving an index of a ring forward in 32-bit arithmetic.\<close>

lemma unat_ring_step:
  fixes p n s :: u32
  assumes "unat p < unat s" and "unat n \<le> unat s" and "unat s \<le> 2 ^ 31"
  shows "unat (if s \<le> p + n then p + n - s else p + n) = (unat p + unat n) mod unat s"
proof -
  have sum: "unat (p + n) = unat p + unat n"
    by (rule unat_add_small) (use assms in simp)
  show ?thesis
  proof (cases "unat s \<le> unat p + unat n")
    case True
    then have "(unat p + unat n) mod unat s = unat p + unat n - unat s"
      using assms by (simp add: le_mod_geq)
    then show ?thesis using True sum by (simp add: word_le_nat_alt unat_minus_le)
  next
    case False
    then show ?thesis using sum by (simp add: word_le_nat_alt)
  qed
qed

end
