(* ===== verification/Byte_Fifo.thy ===== *)
theory Byte_Fifo
  imports Board_Prelude
begin

text \<open>
  The contract of a bounded byte queue. Two components of the firmware promise it: the LwRB ring
  buffer behind the RS485 receive path (theory \<open>Lwrb\<close>) and the RT-Thread ring buffer behind
  the serial drivers and pipes (theory \<open>Ringbuffer\<close>). A \<open>put\<close> accepts as many leading bytes as
  fit, a \<open>get\<close> delivers the oldest bytes. Sizes are \<open>uint32_t\<close> in both components, so requests
  are below \<open>2 ^ 31\<close> bytes.
\<close>

datatype fifo_op = Put bytes | Get nat

text \<open>
  A client that performs a sequence of operations: \<open>acc\<close> collects the accepted bytes and
  \<open>del\<close> the delivered ones, both in order.
\<close>

fun fifo_run ::
  "('q \<Rightarrow> bytes \<Rightarrow> ('q \<times> nat) option) \<Rightarrow> ('q \<Rightarrow> nat \<Rightarrow> ('q \<times> bytes) option)
   \<Rightarrow> fifo_op list \<Rightarrow> 'q \<Rightarrow> ('q \<times> bytes \<times> bytes) option" where
  "fifo_run put get [] q = Some (q, [], [])"
| "fifo_run put get (Put xs # ops) q = do {
     (q, n) \<leftarrow> put q xs;
     (q, acc, del) \<leftarrow> fifo_run put get ops q;
     Some (q, take n xs @ acc, del) }"
| "fifo_run put get (Get n # ops) q = do {
     (q, ys) \<leftarrow> get q n;
     (q, acc, del) \<leftarrow> fifo_run put get ops q;
     Some (q, acc, ys @ del) }"

text \<open>
  The same client on the specification, a list of at most \<open>cap\<close> bytes: a put accepts exactly the
  bytes there is room for, a get delivers exactly as many of the oldest bytes as there are.
\<close>

fun fifo_spec :: "nat \<Rightarrow> fifo_op list \<Rightarrow> bytes \<Rightarrow> bytes \<times> bytes \<times> bytes" where
  "fifo_spec cap [] c = (c, [], [])"
| "fifo_spec cap (Put xs # ops) c =
     (let a = take (cap - length c) xs; (c', acc, del) = fifo_spec cap ops (c @ a)
      in (c', a @ acc, del))"
| "fifo_spec cap (Get n # ops) c =
     (let (c', acc, del) = fifo_spec cap ops (drop n c) in (c', acc, take n c @ del))"

text \<open>
  First in, first out: what was stored at the start followed by everything accepted is what was
  delivered followed by what is stored at the end.
\<close>

lemma fifo_spec_order: "fifo_spec cap ops c = (c', acc, del) \<Longrightarrow> c @ acc = del @ c'"
proof (induction ops arbitrary: c acc del)
  case (Cons x ops)
  show ?case
  proof (cases x)
    case (Put xs)
    then show ?thesis using Cons.prems Cons.IH [of "c @ take (cap - length c) xs"]
      by (auto simp: Let_def split: prod.splits)
  next
    case (Get n)
    then show ?thesis using Cons.prems Cons.IH [of "drop n c"]
      by (auto simp: Let_def split: prod.splits) (metis append.assoc append_take_drop_id)
  qed
qed simp

fun op_small :: "fifo_op \<Rightarrow> bool" where
  "op_small (Put xs) = (length xs < 2 ^ 31)"
| "op_small (Get n) = (n < 2 ^ 31)"

locale byte_fifo =
  fixes invar :: "'q \<Rightarrow> bool"
    and contents :: "'q \<Rightarrow> bytes"
    and capacity :: "'q \<Rightarrow> nat"
    and put :: "'q \<Rightarrow> bytes \<Rightarrow> ('q \<times> nat) option"
    and get :: "'q \<Rightarrow> nat \<Rightarrow> ('q \<times> bytes) option"
  assumes bounded: "invar q \<Longrightarrow> length (contents q) \<le> capacity q"
    and put_law: "invar q \<Longrightarrow> length xs < 2 ^ 31 \<Longrightarrow>
      \<exists>q'. put q xs = Some (q', min (length xs) (capacity q - length (contents q)))
         \<and> invar q' \<and> capacity q' = capacity q
         \<and> contents q' = contents q @ take (capacity q - length (contents q)) xs"
    and get_law: "invar q \<Longrightarrow> n < 2 ^ 31 \<Longrightarrow>
      \<exists>q'. get q n = Some (q', take n (contents q))
         \<and> invar q' \<and> capacity q' = capacity q \<and> contents q' = drop n (contents q)"
begin

text \<open>Whatever fits is accepted whole and comes back unchanged behind what was stored.\<close>

lemma put_fits:
  assumes "invar q" and "length (contents q) + length xs \<le> capacity q"
    and "length xs < 2 ^ 31"
  shows "\<exists>q'. put q xs = Some (q', length xs) \<and> invar q' \<and> capacity q' = capacity q
    \<and> contents q' = contents q @ xs"
  using put_law [OF assms(1,3)] assms(2) by (auto simp: min_def)

text \<open>Over any sequence of operations the queue refines the specification.\<close>

lemma run_spec:
  assumes "invar q" and "list_all op_small ops"
  shows "\<exists>q' acc del. fifo_run put get ops q = Some (q', acc, del) \<and> invar q'
    \<and> capacity q' = capacity q \<and> fifo_spec (capacity q) ops (contents q) = (contents q', acc, del)"
  using assms
proof (induction ops arbitrary: q)
  case Nil
  then show ?case by simp
next
  case (Cons x ops)
  show ?case
  proof (cases x)
    case (Put xs)
    let ?n = "capacity q - length (contents q)"
    from Cons.prems Put obtain q1 where q1: "put q xs = Some (q1, min (length xs) ?n)" "invar q1"
      "capacity q1 = capacity q" "contents q1 = contents q @ take ?n xs"
      using put_law [of q xs] by auto
    from Cons.IH [OF q1(2)] Cons.prems obtain q' acc del where
      "fifo_run put get ops q1 = Some (q', acc, del)" "invar q'" "capacity q' = capacity q1"
      "fifo_spec (capacity q1) ops (contents q1) = (contents q', acc, del)" by auto
    then show ?thesis using Put q1 by (simp add: min_def)
  next
    case (Get n)
    from Cons.prems Get obtain q1 where q1: "get q n = Some (q1, take n (contents q))" "invar q1"
      "capacity q1 = capacity q" "contents q1 = drop n (contents q)"
      using get_law [of q n] by auto
    from Cons.IH [OF q1(2)] Cons.prems obtain q' acc del where
      "fifo_run put get ops q1 = Some (q', acc, del)" "invar q'" "capacity q' = capacity q1"
      "fifo_spec (capacity q1) ops (contents q1) = (contents q', acc, del)" by auto
    then show ?thesis using Get q1 by simp
  qed
qed

lemma run_fifo:
  assumes "invar q" and "list_all op_small ops"
  shows "\<exists>q' acc del. fifo_run put get ops q = Some (q', acc, del) \<and> invar q'
    \<and> capacity q' = capacity q \<and> contents q @ acc = del @ contents q'"
  using run_spec [OF assms] fifo_spec_order by blast

end

end
