(* ===== verification/Lwrb.thy ===== *)
theory Lwrb
  imports Byte_Fifo
begin

text \<open>
  The LwRB ring buffer (\<open>lwrb/src/lwrb/lwrb.c\<close>, \<open>lwrb_ex.c\<close>), which holds the bytes the RS485
  receive interrupt has taken from the UART. The build defines \<open>LWRB_DISABLE_ATOMIC\<close>, so the
  pointers are plain 32-bit variables; \<open>lwrb_sz_t\<close> is \<open>unsigned long\<close>, a \<open>u32\<close> here. One byte of
  the storage stays free, so that equal pointers mean empty.

  A handle is an option (\<open>None\<close> is \<open>NULL\<close>), the storage pointer of the handle as well. An event
  callback is an opaque function pointer; the calls made to it are recorded in \<open>lw_calls\<close>, and
  callbacks do not touch the buffer. An output parameter is returned as a value, \<open>None\<close> when the
  function leaves it untouched. \<open>uint8_t\<close> truth values are booleans.
\<close>

section \<open>Data\<close>

datatype lwrb_evt_type_t = LWRB_EVT_READ | LWRB_EVT_WRITE | LWRB_EVT_RESET

record lwrb =
  lw_buff :: "bytes option"
  lw_size :: u32
  lw_r_ptr :: u32
  lw_w_ptr :: u32
  lw_evt_fn :: "nat option"
  lw_arg :: "nat option"
  lw_calls :: "(nat \<times> lwrb_evt_type_t \<times> u32) list"

definition LWRB_FLAG_READ_ALL :: u16 where "LWRB_FLAG_READ_ALL = 0x0001"

definition LWRB_FLAG_WRITE_ALL :: u16 where "LWRB_FLAG_WRITE_ALL = 0x0001"

definition BUF_IS_VALID :: "lwrb option \<Rightarrow> bool" where
  "BUF_IS_VALID b = (case b of None \<Rightarrow> False | Some rb \<Rightarrow> lw_buff rb \<noteq> None \<and> 0 < lw_size rb)"

text \<open>The guard \<open>BUF_IS_VALID\<close> together with the storage it makes accessible.\<close>

definition BUF_VIEW :: "lwrb option \<Rightarrow> (lwrb \<times> bytes) option" where
  "BUF_VIEW b = (if BUF_IS_VALID b then Some (the b, the (lw_buff (the b))) else None)"

definition BUF_MIN :: "u32 \<Rightarrow> u32 \<Rightarrow> u32" where
  "BUF_MIN x y = (if x < y then x else y)"

definition BUF_SEND_EVT :: "lwrb \<Rightarrow> lwrb_evt_type_t \<Rightarrow> u32 \<Rightarrow> lwrb" where
  "BUF_SEND_EVT rb evt bp =
     (case lw_evt_fn rb of
        None \<Rightarrow> rb
      | Some f \<Rightarrow> rb\<lparr>lw_calls := lw_calls rb @ [(f, evt, bp)]\<rparr>)"

section \<open>Operations\<close>

definition lwrb_init :: "lwrb option \<Rightarrow> bytes option \<Rightarrow> u32 \<Rightarrow> lwrb option \<times> bool" where
  "lwrb_init b buffdata sz =
     (case b of
        None \<Rightarrow> (None, False)
      | Some rb \<Rightarrow>
          if buffdata = None \<or> sz = 0 then (b, False)
          else (Some (rb\<lparr>lw_evt_fn := None, lw_size := sz, lw_buff := buffdata,
                         lw_w_ptr := 0, lw_r_ptr := 0\<rparr>), True))"

definition lwrb_is_ready :: "lwrb option \<Rightarrow> bool" where
  "lwrb_is_ready b = BUF_IS_VALID b"

definition lwrb_free :: "lwrb option \<Rightarrow> lwrb option" where
  "lwrb_free b = (if BUF_IS_VALID b then map_option (\<lambda>rb. rb\<lparr>lw_buff := None\<rparr>) b else b)"

definition lwrb_set_evt_fn :: "lwrb option \<Rightarrow> nat option \<Rightarrow> lwrb option" where
  "lwrb_set_evt_fn b f = (if BUF_IS_VALID b then map_option (\<lambda>rb. rb\<lparr>lw_evt_fn := f\<rparr>) b else b)"

definition lwrb_set_arg :: "lwrb option \<Rightarrow> nat option \<Rightarrow> lwrb option" where
  "lwrb_set_arg b a = (if BUF_IS_VALID b then map_option (\<lambda>rb. rb\<lparr>lw_arg := a\<rparr>) b else b)"

definition lwrb_get_arg :: "lwrb option \<Rightarrow> nat option" where
  "lwrb_get_arg b = (case b of None \<Rightarrow> None | Some rb \<Rightarrow> lw_arg rb)"

definition lwrb_get_free :: "lwrb option \<Rightarrow> u32" where
  "lwrb_get_free b =
     (case BUF_VIEW b of
        None \<Rightarrow> 0
      | Some (rb, _) \<Rightarrow>
          let w_ptr = lw_w_ptr rb; r_ptr = lw_r_ptr rb;
              sz = (if w_ptr \<ge> r_ptr then lw_size rb - (w_ptr - r_ptr) else r_ptr - w_ptr)
          in sz - 1)"

definition lwrb_get_full :: "lwrb option \<Rightarrow> u32" where
  "lwrb_get_full b =
     (case BUF_VIEW b of
        None \<Rightarrow> 0
      | Some (rb, _) \<Rightarrow>
          let w_ptr = lw_w_ptr rb; r_ptr = lw_r_ptr rb
          in if w_ptr \<ge> r_ptr then w_ptr - r_ptr else lw_size rb - (r_ptr - w_ptr))"

definition lwrb_write_ex ::
  "lwrb option \<Rightarrow> bytes option \<Rightarrow> u32 \<Rightarrow> u16 \<Rightarrow> (lwrb option \<times> u32 option \<times> bool) option" where
  "lwrb_write_ex b data btw flags =
     (case (BUF_VIEW b, data) of
        (Some (rb, mem), Some d) \<Rightarrow>
          if btw = 0 then Some (b, None, False)
          else
            let free = lwrb_get_free b
            in if free = 0 \<or> (free < btw \<and> (flags AND LWRB_FLAG_WRITE_ALL) \<noteq> 0)
               then Some (b, None, False)
               else do {
                 let btw = BUF_MIN free btw;
                 let w_ptr = lw_w_ptr rb;
                 let tocopy = BUF_MIN (lw_size rb - w_ptr) btw;
                 mem \<leftarrow> memcpy mem (unat w_ptr) d 0 (unat tocopy);
                 let w_ptr = w_ptr + tocopy;
                 let btw = btw - tocopy;
                 (mem, w_ptr) \<leftarrow>
                   (if btw > 0 then do { mem \<leftarrow> memcpy mem 0 d (unat tocopy) (unat btw); Some (mem, btw) }
                    else Some (mem, w_ptr));
                 let w_ptr = (if w_ptr \<ge> lw_size rb then 0 else w_ptr);
                 Some (Some (BUF_SEND_EVT (rb\<lparr>lw_buff := Some mem, lw_w_ptr := w_ptr\<rparr>)
                               LWRB_EVT_WRITE (tocopy + btw)),
                       Some (tocopy + btw), True)
               }
      | _ \<Rightarrow> Some (b, None, False))"

definition lwrb_write :: "lwrb option \<Rightarrow> bytes option \<Rightarrow> u32 \<Rightarrow> (lwrb option \<times> u32) option" where
  "lwrb_write b data btw = do {
     (b, written, ok) \<leftarrow> lwrb_write_ex b data btw 0;
     Some (b, if ok then (case written of None \<Rightarrow> 0 | Some n \<Rightarrow> n) else 0) }"

definition lwrb_read_ex ::
  "lwrb option \<Rightarrow> bytes option \<Rightarrow> u32 \<Rightarrow> u16
   \<Rightarrow> (lwrb option \<times> bytes option \<times> u32 option \<times> bool) option" where
  "lwrb_read_ex b data btr flags =
     (case (BUF_VIEW b, data) of
        (Some (rb, mem), Some d) \<Rightarrow>
          if btr = 0 then Some (b, data, None, False)
          else
            let full = lwrb_get_full b
            in if full = 0 \<or> (full < btr \<and> (flags AND LWRB_FLAG_READ_ALL) \<noteq> 0)
               then Some (b, data, None, False)
               else do {
                 let btr = BUF_MIN full btr;
                 let r_ptr = lw_r_ptr rb;
                 let tocopy = BUF_MIN (lw_size rb - r_ptr) btr;
                 d \<leftarrow> memcpy d 0 mem (unat r_ptr) (unat tocopy);
                 let r_ptr = r_ptr + tocopy;
                 let btr = btr - tocopy;
                 (d, r_ptr) \<leftarrow>
                   (if btr > 0 then do { d \<leftarrow> memcpy d (unat tocopy) mem 0 (unat btr); Some (d, btr) }
                    else Some (d, r_ptr));
                 let r_ptr = (if r_ptr \<ge> lw_size rb then 0 else r_ptr);
                 Some (Some (BUF_SEND_EVT (rb\<lparr>lw_r_ptr := r_ptr\<rparr>) LWRB_EVT_READ (tocopy + btr)),
                       Some d, Some (tocopy + btr), True)
               }
      | _ \<Rightarrow> Some (b, data, None, False))"

definition lwrb_read ::
  "lwrb option \<Rightarrow> bytes option \<Rightarrow> u32 \<Rightarrow> (lwrb option \<times> bytes option \<times> u32) option" where
  "lwrb_read b data btr = do {
     (b, d, rd, ok) \<leftarrow> lwrb_read_ex b data btr 0;
     Some (b, d, if ok then (case rd of None \<Rightarrow> 0 | Some n \<Rightarrow> n) else 0) }"

definition lwrb_peek ::
  "lwrb option \<Rightarrow> u32 \<Rightarrow> bytes option \<Rightarrow> u32 \<Rightarrow> (bytes option \<times> u32) option" where
  "lwrb_peek b skip_count data btp =
     (case (BUF_VIEW b, data) of
        (Some (rb, mem), Some d) \<Rightarrow>
          if btp = 0 then Some (data, 0)
          else
            let full = lwrb_get_full b
            in if skip_count \<ge> full then Some (data, 0)
               else do {
                 let r_ptr = lw_r_ptr rb + skip_count;
                 let full = full - skip_count;
                 let r_ptr = (if r_ptr \<ge> lw_size rb then r_ptr - lw_size rb else r_ptr);
                 let btp = BUF_MIN full btp;
                 let tocopy = BUF_MIN (lw_size rb - r_ptr) btp;
                 d \<leftarrow> memcpy d 0 mem (unat r_ptr) (unat tocopy);
                 let btp = btp - tocopy;
                 d \<leftarrow> (if btp > 0 then memcpy d (unat tocopy) mem 0 (unat btp) else Some d);
                 Some (Some d, tocopy + btp)
               }
      | _ \<Rightarrow> Some (data, 0))"

definition lwrb_reset :: "lwrb option \<Rightarrow> lwrb option" where
  "lwrb_reset b =
     (if BUF_IS_VALID b
      then map_option (\<lambda>rb. BUF_SEND_EVT (rb\<lparr>lw_w_ptr := 0, lw_r_ptr := 0\<rparr>) LWRB_EVT_RESET 0) b
      else b)"

text \<open>The address functions return an index into the storage; \<open>None\<close> is \<open>NULL\<close>.\<close>

definition lwrb_get_linear_block_read_address :: "lwrb option \<Rightarrow> u32 option" where
  "lwrb_get_linear_block_read_address b =
     (case BUF_VIEW b of None \<Rightarrow> None | Some (rb, _) \<Rightarrow> Some (lw_r_ptr rb))"

definition lwrb_get_linear_block_read_length :: "lwrb option \<Rightarrow> u32" where
  "lwrb_get_linear_block_read_length b =
     (case BUF_VIEW b of
        None \<Rightarrow> 0
      | Some (rb, _) \<Rightarrow>
          let w_ptr = lw_w_ptr rb; r_ptr = lw_r_ptr rb
          in if w_ptr > r_ptr then w_ptr - r_ptr
             else if r_ptr > w_ptr then lw_size rb - r_ptr
             else 0)"

definition lwrb_skip :: "lwrb option \<Rightarrow> u32 \<Rightarrow> lwrb option \<times> u32" where
  "lwrb_skip b len =
     (case BUF_VIEW b of
        None \<Rightarrow> (b, 0)
      | Some (rb, _) \<Rightarrow>
          if len = 0 then (b, 0)
          else
            let full = lwrb_get_full b;
                len = BUF_MIN len full;
                r_ptr = lw_r_ptr rb + len;
                r_ptr = (if r_ptr \<ge> lw_size rb then r_ptr - lw_size rb else r_ptr)
            in (Some (BUF_SEND_EVT (rb\<lparr>lw_r_ptr := r_ptr\<rparr>) LWRB_EVT_READ len), len))"

definition lwrb_get_linear_block_write_address :: "lwrb option \<Rightarrow> u32 option" where
  "lwrb_get_linear_block_write_address b =
     (case BUF_VIEW b of None \<Rightarrow> None | Some (rb, _) \<Rightarrow> Some (lw_w_ptr rb))"

definition lwrb_get_linear_block_write_length :: "lwrb option \<Rightarrow> u32" where
  "lwrb_get_linear_block_write_length b =
     (case BUF_VIEW b of
        None \<Rightarrow> 0
      | Some (rb, _) \<Rightarrow>
          let w_ptr = lw_w_ptr rb; r_ptr = lw_r_ptr rb
          in if w_ptr \<ge> r_ptr
             then (let len = lw_size rb - w_ptr in if r_ptr = 0 then len - 1 else len)
             else r_ptr - w_ptr - 1)"

definition lwrb_advance :: "lwrb option \<Rightarrow> u32 \<Rightarrow> lwrb option \<times> u32" where
  "lwrb_advance b len =
     (case BUF_VIEW b of
        None \<Rightarrow> (b, 0)
      | Some (rb, _) \<Rightarrow>
          if len = 0 then (b, 0)
          else
            let free = lwrb_get_free b;
                len = BUF_MIN len free;
                w_ptr = lw_w_ptr rb + len;
                w_ptr = (if w_ptr \<ge> lw_size rb then w_ptr - lw_size rb else w_ptr)
            in (Some (BUF_SEND_EVT (rb\<lparr>lw_w_ptr := w_ptr\<rparr>) LWRB_EVT_WRITE len), len))"

text \<open>
  \<open>lwrb_find\<close>: the inner loop compares the needle with the ring from \<open>r_ptr\<close> on. The outer loop
  counts \<open>skip_x\<close> up to \<open>max_x\<close> in 32-bit arithmetic, so it may run forever when \<open>max_x\<close> is the
  largest word; \<open>None\<close> stands for that as well as for an access outside an object.
\<close>

function lwrb_find_match :: "bytes \<Rightarrow> u32 \<Rightarrow> bytes \<Rightarrow> u32 \<Rightarrow> u32 \<Rightarrow> u32 \<Rightarrow> bool option" where
  "lwrb_find_match mem sz needle len idx r_ptr =
     (if idx < len then
        (if unat r_ptr < length mem \<and> unat idx < length needle
         then
           (if mem ! unat r_ptr \<noteq> needle ! unat idx then Some False
            else
              let r_ptr = r_ptr + 1;
                  r_ptr = (if r_ptr \<ge> sz then 0 else r_ptr)
              in lwrb_find_match mem sz needle len (idx + 1) r_ptr)
         else None)
      else Some True)"
  by pat_completeness auto
termination
proof (relation "measure (\<lambda>(mem, sz, needle, len, idx, r_ptr). unat len - unat idx)", goal_cases)
  case 1
  show ?case by simp
next
  case (2 mem sz needle len idx r_ptr x xa)
  have "unat (idx + 1) = unat idx + 1"
    using 2 unat_bound32 [of len] by (simp add: unat_add_small word_less_nat_alt)
  then show ?case using 2 by (simp add: word_less_nat_alt)
qed

partial_function (option) lwrb_find_loop ::
  "bytes \<Rightarrow> u32 \<Rightarrow> bytes \<Rightarrow> u32 \<Rightarrow> u32 \<Rightarrow> u32 \<Rightarrow> u32 \<Rightarrow> (bool \<times> u32) option" where
  "lwrb_find_loop mem sz needle len buff_r_ptr max_x skip_x =
     (if skip_x \<le> max_x then do {
        let r_ptr = buff_r_ptr + skip_x;
        let r_ptr = (if r_ptr \<ge> sz then r_ptr - sz else r_ptr);
        found \<leftarrow> lwrb_find_match mem sz needle len 0 r_ptr;
        if found then Some (True, skip_x)
        else lwrb_find_loop mem sz needle len buff_r_ptr max_x (skip_x + 1)
      }
      else Some (False, 0))"

text \<open>
  The argument and result \<open>found_idx\<close> is the variable behind the pointer, \<open>None\<close> for \<open>NULL\<close>.
\<close>

definition lwrb_find ::
  "lwrb option \<Rightarrow> bytes option \<Rightarrow> u32 \<Rightarrow> u32 \<Rightarrow> u32 option \<Rightarrow> (bool \<times> u32 option) option" where
  "lwrb_find b bts len start_offset found_idx =
     (case (BUF_VIEW b, bts) of
        (Some (rb, mem), Some needle) \<Rightarrow>
          if len = 0 \<or> found_idx = None then Some (False, found_idx)
          else
            let full = lwrb_get_full b
            in if full < len + start_offset then Some (False, Some 0)
               else do {
                 (found, found_idx) \<leftarrow>
                   lwrb_find_loop mem (lw_size rb) needle len (lw_r_ptr rb) (full - len) start_offset;
                 Some (found, Some found_idx)
               }
      | _ \<Rightarrow> Some (False, found_idx))"

section \<open>Extended operations\<close>

definition lwrb_overwrite :: "lwrb option \<Rightarrow> bytes option \<Rightarrow> u32 \<Rightarrow> (lwrb option \<times> u32) option" where
  "lwrb_overwrite b data btw =
     (case (BUF_VIEW b, data) of
        (Some (rb, _), Some d) \<Rightarrow>
          if btw = 0 then Some (b, 0)
          else do {
            let orig_btw = btw;
            let max_cap = lw_size rb - 1;
            (b, d, btw) \<leftarrow>
              (if btw > max_cap
               then (if unat (btw - max_cap) \<le> length d
                     then Some (lwrb_reset b, drop (unat (btw - max_cap)) d, max_cap) else None)
               else
                 let f = lwrb_get_free b
                 in Some (if f < btw then fst (lwrb_skip b (btw - f)) else b, d, btw));
            (b, _) \<leftarrow> lwrb_write b (Some d) btw;
            Some (b, orig_btw)
          }
      | _ \<Rightarrow> Some (b, 0))"

text \<open>
  The loop of \<open>lwrb_move\<close> between two distinct buffers. A pass of length 0 leaves it with 0, any
  other pass shortens what is left, so it ends.
\<close>

function lwrb_move_loop ::
  "lwrb option \<Rightarrow> lwrb option \<Rightarrow> u32 \<Rightarrow> u32 \<Rightarrow> (lwrb option \<times> lwrb option \<times> u32) option" where
  "lwrb_move_loop dest src len_to_copy orig =
     (if len_to_copy > 0 then
        let max_seq_read = lwrb_get_linear_block_read_length src;
            max_seq_write = lwrb_get_linear_block_write_length dest;
            op_len = BUF_MIN len_to_copy (BUF_MIN max_seq_read max_seq_write)
        in (case (BUF_VIEW src, BUF_VIEW dest) of
              (Some (s, smem), Some (d, dmem)) \<Rightarrow>
                (case memcpy dmem (unat (lw_w_ptr d)) smem (unat (lw_r_ptr s)) (unat op_len) of
                   None \<Rightarrow> None
                 | Some dmem \<Rightarrow>
                     let dest = fst (lwrb_advance (Some (d\<lparr>lw_buff := Some dmem\<rparr>)) op_len);
                         src = fst (lwrb_skip src op_len)
                     in if op_len = 0 then Some (dest, src, 0)
                        else lwrb_move_loop dest src (len_to_copy - op_len) orig)
            | _ \<Rightarrow> None)
      else Some (dest, src, orig))"
  by pat_completeness auto
termination
proof (relation "measure (\<lambda>(dest, src, len, orig). unat len)", goal_cases)
  case 1
  show ?case by simp
next
  case (2 dest src len orig a c op)
  then have "unat op \<le> unat len" and "0 < unat op"
    by (auto simp: BUF_MIN_def word_cmp unat_gt_0)
  then show ?case by (simp add: unat_minus_le)
qed

definition lwrb_move :: "lwrb option \<Rightarrow> lwrb option \<Rightarrow> (lwrb option \<times> lwrb option \<times> u32) option" where
  "lwrb_move dest src =
     (if \<not> BUF_IS_VALID dest \<or> \<not> BUF_IS_VALID src then Some (dest, src, 0)
      else
        let src_full = lwrb_get_full src;
            dest_free = lwrb_get_free dest;
            len_to_copy = BUF_MIN src_full dest_free
        in lwrb_move_loop dest src len_to_copy len_to_copy)"

declare lwrb_find_match.simps [simp del] lwrb_move_loop.simps [simp del]

section \<open>Invariant and abstraction\<close>

text \<open>
  A usable buffer: the storage has \<open>size\<close> bytes, both pointers lie inside it, and the size is at
  most \<open>2 ^ 31\<close>, so that a pointer plus a length cannot wrap around 32 bits.
\<close>

definition lwrb_ok :: "lwrb \<Rightarrow> bool" where
  "lwrb_ok rb =
     (case lw_buff rb of
        None \<Rightarrow> False
      | Some mem \<Rightarrow>
          length mem = unat (lw_size rb) \<and> unat (lw_size rb) \<le> 2 ^ 31
          \<and> lw_r_ptr rb < lw_size rb \<and> lw_w_ptr rb < lw_size rb)"

definition lwrb_count :: "lwrb \<Rightarrow> nat" where
  "lwrb_count rb =
     (unat (lw_w_ptr rb) + unat (lw_size rb) - unat (lw_r_ptr rb)) mod unat (lw_size rb)"

definition lwrb_contents :: "lwrb \<Rightarrow> bytes" where
  "lwrb_contents rb =
     (case lw_buff rb of None \<Rightarrow> [] | Some mem \<Rightarrow> ring_slice mem (unat (lw_r_ptr rb)) (lwrb_count rb))"

definition lwrb_capacity :: "lwrb \<Rightarrow> nat" where
  "lwrb_capacity rb = unat (lw_size rb) - 1"

lemma lwrb_okE:
  assumes "lwrb_ok rb"
  obtains mem where "lw_buff rb = Some mem" and "length mem = unat (lw_size rb)"
    and "unat (lw_size rb) \<le> 2 ^ 31" and "unat (lw_r_ptr rb) < unat (lw_size rb)"
    and "unat (lw_w_ptr rb) < unat (lw_size rb)"
  using assms by (auto simp: lwrb_ok_def word_cmp split: option.splits)

lemma lwrb_ok_view:
  "lwrb_ok rb \<Longrightarrow> lw_buff rb = Some mem \<Longrightarrow> BUF_VIEW (Some rb) = Some (rb, mem)"
  by (auto simp: BUF_VIEW_def BUF_IS_VALID_def lwrb_ok_def word_cmp)

lemma lwrb_ok_valid: "lwrb_ok rb \<Longrightarrow> BUF_IS_VALID (Some rb)"
  by (auto simp: BUF_IS_VALID_def lwrb_ok_def word_cmp split: option.splits)

lemma unat_BUF_MIN [simp]: "unat (BUF_MIN x y) = min (unat x) (unat y)"
  by (simp add: BUF_MIN_def word_cmp)

lemma send_evt_simps [simp]:
  "lw_buff (BUF_SEND_EVT rb e n) = lw_buff rb" "lw_size (BUF_SEND_EVT rb e n) = lw_size rb"
  "lw_r_ptr (BUF_SEND_EVT rb e n) = lw_r_ptr rb" "lw_w_ptr (BUF_SEND_EVT rb e n) = lw_w_ptr rb"
  "lw_evt_fn (BUF_SEND_EVT rb e n) = lw_evt_fn rb" "lw_arg (BUF_SEND_EVT rb e n) = lw_arg rb"
  by (simp_all add: BUF_SEND_EVT_def split: option.splits)

lemma send_evt_abs [simp]:
  "lwrb_ok (BUF_SEND_EVT rb e n) = lwrb_ok rb"
  "lwrb_contents (BUF_SEND_EVT rb e n) = lwrb_contents rb"
  "lwrb_capacity (BUF_SEND_EVT rb e n) = lwrb_capacity rb"
  by (simp_all add: lwrb_ok_def lwrb_contents_def lwrb_count_def lwrb_capacity_def
      split: option.splits)

lemma lwrb_count_if:
  assumes "lwrb_ok rb"
  shows "lwrb_count rb =
    (if unat (lw_r_ptr rb) \<le> unat (lw_w_ptr rb) then unat (lw_w_ptr rb) - unat (lw_r_ptr rb)
     else unat (lw_size rb) - (unat (lw_r_ptr rb) - unat (lw_w_ptr rb)))"
  using assms by (elim lwrb_okE) (auto simp: lwrb_count_def le_mod_geq)

lemma lwrb_count_less: "lwrb_ok rb \<Longrightarrow> lwrb_count rb < unat (lw_size rb)"
  by (elim lwrb_okE) (simp add: lwrb_count_def)

lemma lwrb_w_ptr_eq:
  assumes "lwrb_ok rb"
  shows "unat (lw_w_ptr rb) = (unat (lw_r_ptr rb) + lwrb_count rb) mod unat (lw_size rb)"
  using assms by (elim lwrb_okE) (auto simp: lwrb_count_if [OF assms] le_mod_geq)

lemma lwrb_get_full_eq:
  assumes "lwrb_ok rb"
  shows "unat (lwrb_get_full (Some rb)) = lwrb_count rb"
  using assms
  by (elim lwrb_okE)
    (auto simp: lwrb_get_full_def lwrb_ok_view [OF assms] lwrb_count_if [OF assms] Let_def
      word_le_nat_alt unat_minus_le)

lemma lwrb_get_free_eq:
  assumes "lwrb_ok rb"
  shows "unat (lwrb_get_free (Some rb)) = lwrb_capacity rb - lwrb_count rb"
  using assms
  by (elim lwrb_okE)
    (auto simp: lwrb_get_free_def lwrb_ok_view [OF assms] lwrb_count_if [OF assms] Let_def
      lwrb_capacity_def word_le_nat_alt unat_minus_le)

lemma length_lwrb_contents [simp]: "lwrb_ok rb \<Longrightarrow> length (lwrb_contents rb) = lwrb_count rb"
  by (elim lwrb_okE) (simp add: lwrb_contents_def)

text \<open>
  Moving the write pointer by \<open>n\<close> bytes after storing them appends them; moving the read pointer
  by \<open>n\<close> drops the oldest \<open>n\<close> bytes.
\<close>

lemma lwrb_append:
  assumes ok: "lwrb_ok rb" and mem: "lw_buff rb = Some mem"
    and fits: "lwrb_count rb + length xs \<le> lwrb_capacity rb"
    and w': "unat w' = (unat (lw_w_ptr rb) + length xs) mod unat (lw_size rb)"
  defines "rb' \<equiv> rb\<lparr>lw_buff := Some (ring_store mem (unat (lw_w_ptr rb)) xs), lw_w_ptr := w'\<rparr>"
  shows "lwrb_ok rb'" and "lwrb_contents rb' = lwrb_contents rb @ xs"
    and "lwrb_capacity rb' = lwrb_capacity rb"
proof -
  let ?N = "unat (lw_size rb)" and ?r = "unat (lw_r_ptr rb)" and ?k = "lwrb_count rb"
  from ok mem have N: "length mem = ?N" "?N \<le> 2 ^ 31" "?r < ?N" "unat (lw_w_ptr rb) < ?N"
    by (auto elim!: lwrb_okE)
  have k: "?k + length xs < ?N" using fits N by (simp add: lwrb_capacity_def)
  have w: "unat (lw_w_ptr rb) = (?r + ?k) mod ?N" by (rule lwrb_w_ptr_eq [OF ok])
  have w'2: "unat w' = (?r + (?k + length xs)) mod ?N"
    using w' by (simp add: w mod_add_left_eq add.assoc)
  have "unat w' < ?N" using w' N by simp
  then show ok': "lwrb_ok rb'" using N k by (simp add: lwrb_ok_def rb'_def word_cmp)
  have "lwrb_count rb' = (unat w' + ?N - ?r) mod ?N" by (simp add: lwrb_count_def rb'_def)
  also have "\<dots> = ?k + length xs"
  proof (cases "?r + (?k + length xs) < ?N")
    case True
    then show ?thesis using w'2 N by (simp add: le_mod_geq)
  next
    case False
    then have "unat w' = ?r + (?k + length xs) - ?N" using w'2 N k by (simp add: le_mod_geq)
    then show ?thesis using False N k by simp
  qed
  finally have "lwrb_count rb' = ?k + length xs" .
  then show "lwrb_contents rb' = lwrb_contents rb @ xs"
    using ring_slice_store [of ?r mem ?k xs "unat (lw_w_ptr rb)"] N k w mem
    by (simp add: lwrb_contents_def rb'_def)
  show "lwrb_capacity rb' = lwrb_capacity rb" by (simp add: lwrb_capacity_def rb'_def)
qed

lemma lwrb_drop:
  assumes ok: "lwrb_ok rb" and n: "n \<le> lwrb_count rb"
    and r': "unat r' = (unat (lw_r_ptr rb) + n) mod unat (lw_size rb)"
  defines "rb' \<equiv> rb\<lparr>lw_r_ptr := r'\<rparr>"
  shows "lwrb_ok rb'" and "lwrb_contents rb' = drop n (lwrb_contents rb)"
    and "lwrb_capacity rb' = lwrb_capacity rb"
proof -
  let ?N = "unat (lw_size rb)" and ?r = "unat (lw_r_ptr rb)" and ?k = "lwrb_count rb"
  from ok obtain mem where mem: "lw_buff rb = Some mem" and N: "length mem = ?N" "?N \<le> 2 ^ 31"
    "?r < ?N" "unat (lw_w_ptr rb) < ?N"
    by (auto elim!: lwrb_okE)
  have k: "?k < ?N" by (rule lwrb_count_less [OF ok])
  have w: "unat (lw_w_ptr rb) = (?r + ?k) mod ?N" by (rule lwrb_w_ptr_eq [OF ok])
  have lt: "unat r' < ?N" using r' N by simp
  then show ok': "lwrb_ok rb'" using N mem by (simp add: lwrb_ok_def rb'_def word_cmp)
  have step: "unat r' = (if ?r + n < ?N then ?r + n else ?r + n - ?N)"
    using r' N k n by (simp add: le_mod_geq)
  have cnt': "lwrb_count rb' = (if unat r' \<le> unat (lw_w_ptr rb) then unat (lw_w_ptr rb) - unat r'
      else ?N - (unat r' - unat (lw_w_ptr rb)))"
    using lwrb_count_if [OF ok'] by (simp add: rb'_def)
  have cnt: "lwrb_count rb' = ?k - n"
    using lwrb_count_if [OF ok] cnt' step N k n lt by (auto split: if_splits)
  have "ring_slice mem (unat r') (?k - n) = ring_slice mem (?r + n) (?k - n)"
    using r' N ring_slice_mod [of mem "?r + n"] by simp
  then show "lwrb_contents rb' = drop n (lwrb_contents rb)"
    using cnt mem by (simp add: lwrb_contents_def rb'_def drop_ring_slice)
  show "lwrb_capacity rb' = lwrb_capacity rb" by (simp add: lwrb_capacity_def rb'_def)
qed

section \<open>Functional behaviour\<close>

text \<open>The pointer after a two-part copy of \<open>n\<close> bytes of which the first \<open>t\<close> are linear.\<close>

lemma lwrb_two_part_ptr:
  fixes p n s :: u32
  assumes p: "unat p < unat s" and n: "unat n < unat s" and s: "unat s \<le> 2 ^ 31"
  defines "t \<equiv> BUF_MIN (s - p) n"
  defines "q \<equiv> if n - t > 0 then n - t else p + t"
  shows "unat (if q \<ge> s then 0 else q) = (unat p + unat n) mod unat s"
    and "t + (n - t) = n" and "unat t = min (unat s - unat p) (unat n)"
    and "unat (n - t) = unat n - unat t" and "n - t > 0 \<longleftrightarrow> unat t \<noteq> unat n"
proof -
  show t: "unat t = min (unat s - unat p) (unat n)"
    using p by (simp add: t_def unat_minus_le)
  show nt: "unat (n - t) = unat n - unat t" by (rule unat_minus_le) (simp add: t)
  show "t + (n - t) = n" by simp
  show pos: "n - t > 0 \<longleftrightarrow> unat t \<noteq> unat n" using t nt by (auto simp: word_less_nat_alt)
  show "unat (if q \<ge> s then 0 else q) = (unat p + unat n) mod unat s"
  proof (cases "unat t = unat n")
    case True
    then have le: "unat p + unat n \<le> unat s" using t p by linarith
    have "q = p + t" using True pos by (simp add: q_def)
    then have "unat q = unat p + unat n" using True le s by (simp add: unat_add_small)
    then show ?thesis using le p by (auto simp: word_le_nat_alt)
  next
    case False
    then have qe: "q = n - t" and ts: "unat t = unat s - unat p" using pos t by (auto simp: q_def)
    then have "unat q = unat p + unat n - unat s" using nt p by simp
    moreover have "unat s \<le> unat p + unat n" using False ts t p by linarith
    ultimately show ?thesis using n p by (auto simp: word_le_nat_alt le_mod_geq)
  qed
qed

lemma lwrb_write_ex_accept:
  assumes ok: "lwrb_ok rb" and d: "unat btw \<le> length d" and btw: "0 < unat btw"
    and n: "n = min (lwrb_capacity rb - lwrb_count rb) (unat btw)" and "0 < n"
    and all: "flags AND LWRB_FLAG_WRITE_ALL = 0 \<or> n = unat btw"
  obtains rb' where "lwrb_write_ex (Some rb) (Some d) btw flags = Some (Some rb', Some (of_nat n), True)"
    and "lwrb_ok rb'" and "lwrb_contents rb' = lwrb_contents rb @ take n d"
    and "lwrb_capacity rb' = lwrb_capacity rb" and "lw_evt_fn rb' = lw_evt_fn rb"
proof -
  from ok obtain mem where mem: "lw_buff rb = Some mem" and N: "length mem = unat (lw_size rb)"
    "unat (lw_size rb) \<le> 2 ^ 31" "unat (lw_r_ptr rb) < unat (lw_size rb)"
    "unat (lw_w_ptr rb) < unat (lw_size rb)" by (auto elim!: lwrb_okE)
  let ?free = "lwrb_get_free (Some rb)" and ?w = "lw_w_ptr rb"
  let ?b = "BUF_MIN ?free btw"
  let ?t = "BUF_MIN (lw_size rb - ?w) ?b"
  have b: "unat ?b = n" using n by (simp add: lwrb_get_free_eq [OF ok])
  then have bn: "?b = of_nat n" by (rule unat_eq_of_nat)
  have nN: "n < unat (lw_size rb)" using n N by (simp add: lwrb_capacity_def)
  note ptr = lwrb_two_part_ptr [of ?w "lw_size rb" ?b, OF N(4) _ N(2), unfolded b, OF nN]
  let ?q = "if ?b - ?t > 0 then ?b - ?t else ?w + ?t"
  let ?w' = "if ?q \<ge> lw_size rb then 0 else ?q"
  let ?rb' = "rb\<lparr>lw_buff := Some (ring_store mem (unat ?w) (take n d)), lw_w_ptr := ?w'\<rparr>"
  have nd: "n \<le> length d" using n d by linarith
  have copy: "unat ?w \<le> length mem" "n \<le> length d" "n \<le> length mem"
    "unat ?t = min (length mem - unat ?w) n" using N nd nN ptr(3) by auto
  have guard: "\<not> (?free = 0 \<or> (?free < btw \<and> flags AND LWRB_FLAG_WRITE_ALL \<noteq> 0))" "btw \<noteq> 0"
    using all n \<open>0 < n\<close> btw lwrb_get_free_eq [OF ok] by (auto simp: word_less_nat_alt)
  have res: "lwrb_write_ex (Some rb) (Some d) btw flags =
      Some (Some (BUF_SEND_EVT ?rb' LWRB_EVT_WRITE (of_nat n)), Some (of_nat n), True)"
    using guard ring_copy_in [OF copy] ptr(2,4,5)
    by (auto simp: lwrb_write_ex_def lwrb_ok_view [OF ok mem] Let_def bn [symmetric])
  have len: "length (take n d) = n" using copy by simp
  have fits: "lwrb_count rb + length (take n d) \<le> lwrb_capacity rb"
    using n \<open>0 < n\<close> len by linarith
  note app = lwrb_append [OF ok mem fits, unfolded len, OF ptr(1)]
  show thesis by (rule that [OF res]) (use app in simp_all)
qed

lemma lwrb_write_ex_reject:
  assumes "b = None \<or> \<not> BUF_IS_VALID b \<or> data = None \<or> btw = 0 \<or> lwrb_get_free b = 0
    \<or> (lwrb_get_free b < btw \<and> flags AND LWRB_FLAG_WRITE_ALL \<noteq> 0)"
  shows "lwrb_write_ex b data btw flags = Some (b, None, False)"
  using assms by (auto simp: lwrb_write_ex_def BUF_VIEW_def BUF_IS_VALID_def Let_def split: option.splits)

text \<open>\<open>lwrb_write\<close> appends as many leading bytes as fit and returns their number.\<close>

lemma lwrb_write_spec:
  assumes ok: "lwrb_ok rb" and d: "unat btw \<le> length d"
    and n: "n = min (lwrb_capacity rb - lwrb_count rb) (unat btw)"
  obtains rb' where "lwrb_write (Some rb) (Some d) btw = Some (Some rb', of_nat n)"
    and "lwrb_ok rb'" and "lwrb_contents rb' = lwrb_contents rb @ take n d"
    and "lwrb_capacity rb' = lwrb_capacity rb"
proof (cases "n = 0")
  case True
  then have "btw = 0 \<or> lwrb_get_free (Some rb) = 0"
    using lwrb_get_free_eq [OF ok] n by (auto simp: min_def unat_eq_0 split: if_splits)
  then have "lwrb_write_ex (Some rb) (Some d) btw 0 = Some (Some rb, None, False)"
    by (intro lwrb_write_ex_reject) auto
  then show thesis by (intro that [of rb]) (use True ok in \<open>simp_all add: lwrb_write_def\<close>)
next
  case False
  then have pos: "0 < unat btw" "0 < n" using n by auto
  obtain rb' where "lwrb_write_ex (Some rb) (Some d) btw 0 = Some (Some rb', Some (of_nat n), True)"
    and rb': "lwrb_ok rb'" "lwrb_contents rb' = lwrb_contents rb @ take n d"
      "lwrb_capacity rb' = lwrb_capacity rb"
    by (rule lwrb_write_ex_accept [OF ok d pos(1) n pos(2), of 0]) simp_all
  then show thesis by (intro that [of rb'] rb') (simp add: lwrb_write_def)
qed

lemma lwrb_contents_take:
  assumes "lwrb_ok rb" and "lw_buff rb = Some mem" and "n \<le> lwrb_count rb"
  shows "ring_slice mem (unat (lw_r_ptr rb)) n = take n (lwrb_contents rb)"
  using assms by (simp add: lwrb_contents_def take_ring_slice min_absorb1)

lemma lwrb_read_ex_accept:
  assumes ok: "lwrb_ok rb" and btr: "0 < unat btr"
    and n: "n = min (lwrb_count rb) (unat btr)" and "0 < n" and d: "n \<le> length d"
    and all: "flags AND LWRB_FLAG_READ_ALL = 0 \<or> n = unat btr"
  obtains rb' where "lwrb_read_ex (Some rb) (Some d) btr flags =
      Some (Some rb', Some (patch_at d 0 (take n (lwrb_contents rb))), Some (of_nat n), True)"
    and "lwrb_ok rb'" and "lwrb_contents rb' = drop n (lwrb_contents rb)"
    and "lwrb_capacity rb' = lwrb_capacity rb"
proof -
  from ok obtain mem where mem: "lw_buff rb = Some mem" and N: "length mem = unat (lw_size rb)"
    "unat (lw_size rb) \<le> 2 ^ 31" "unat (lw_r_ptr rb) < unat (lw_size rb)"
    "unat (lw_w_ptr rb) < unat (lw_size rb)" by (auto elim!: lwrb_okE)
  let ?full = "lwrb_get_full (Some rb)" and ?r = "lw_r_ptr rb"
  let ?b = "BUF_MIN ?full btr"
  let ?t = "BUF_MIN (lw_size rb - ?r) ?b"
  have b: "unat ?b = n" using n by (simp add: lwrb_get_full_eq [OF ok])
  then have bn: "?b = of_nat n" by (rule unat_eq_of_nat)
  have nc: "n \<le> lwrb_count rb" using n by simp
  have nN: "n < unat (lw_size rb)" using nc lwrb_count_less [OF ok] by simp
  note ptr = lwrb_two_part_ptr [of ?r "lw_size rb" ?b, OF N(3) _ N(2), unfolded b, OF nN]
  let ?q = "if ?b - ?t > 0 then ?b - ?t else ?r + ?t"
  let ?r' = "if ?q \<ge> lw_size rb then 0 else ?q"
  have copy: "unat ?r < length mem" "n \<le> length d" "n \<le> length mem"
    "unat ?t = min (length mem - unat ?r) n" using N d nN ptr(3) by auto
  have guard: "\<not> (?full = 0 \<or> (?full < btr \<and> flags AND LWRB_FLAG_READ_ALL \<noteq> 0))" "btr \<noteq> 0"
    using all n \<open>0 < n\<close> btr lwrb_get_full_eq [OF ok] by (auto simp: word_less_nat_alt)
  have res: "lwrb_read_ex (Some rb) (Some d) btr flags =
      Some (Some (BUF_SEND_EVT (rb\<lparr>lw_r_ptr := ?r'\<rparr>) LWRB_EVT_READ (of_nat n)),
        Some (patch_at d 0 (take n (lwrb_contents rb))), Some (of_nat n), True)"
    unfolding lwrb_contents_take [OF ok mem nc, symmetric]
    using guard ring_copy_out [OF copy] ptr(2,4,5)
    by (auto simp: lwrb_read_ex_def lwrb_ok_view [OF ok mem] Let_def bn [symmetric])
  show thesis by (rule that [OF res]) (use lwrb_drop [OF ok nc ptr(1)] in simp_all)
qed

lemma lwrb_read_ex_reject:
  assumes "b = None \<or> \<not> BUF_IS_VALID b \<or> data = None \<or> btr = 0 \<or> lwrb_get_full b = 0
    \<or> (lwrb_get_full b < btr \<and> flags AND LWRB_FLAG_READ_ALL \<noteq> 0)"
  shows "lwrb_read_ex b data btr flags = Some (b, data, None, False)"
  using assms by (auto simp: lwrb_read_ex_def BUF_VIEW_def BUF_IS_VALID_def Let_def split: option.splits)

text \<open>\<open>lwrb_read\<close> delivers the oldest bytes, as many as are asked for and stored.\<close>

lemma lwrb_read_spec:
  assumes ok: "lwrb_ok rb" and n: "n = min (lwrb_count rb) (unat btr)" and d: "n \<le> length d"
  obtains rb' where "lwrb_read (Some rb) (Some d) btr =
      Some (Some rb', Some (patch_at d 0 (take n (lwrb_contents rb))), of_nat n)"
    and "lwrb_ok rb'" and "lwrb_contents rb' = drop n (lwrb_contents rb)"
    and "lwrb_capacity rb' = lwrb_capacity rb"
proof (cases "n = 0")
  case True
  then have "btr = 0 \<or> lwrb_get_full (Some rb) = 0"
    using lwrb_get_full_eq [OF ok] n by (auto simp: min_def unat_eq_0 split: if_splits)
  then have "lwrb_read_ex (Some rb) (Some d) btr 0 = Some (Some rb, Some d, None, False)"
    by (intro lwrb_read_ex_reject) auto
  then show thesis by (intro that [of rb]) (use True ok in \<open>simp_all add: lwrb_read_def\<close>)
next
  case False
  then have pos: "0 < unat btr" "0 < n" using n by auto
  obtain rb' where "lwrb_read_ex (Some rb) (Some d) btr 0 =
      Some (Some rb', Some (patch_at d 0 (take n (lwrb_contents rb))), Some (of_nat n), True)"
    and rb': "lwrb_ok rb'" "lwrb_contents rb' = drop n (lwrb_contents rb)"
      "lwrb_capacity rb' = lwrb_capacity rb"
    by (rule lwrb_read_ex_accept [OF ok pos(1) n pos(2) d, of 0]) simp_all
  then show thesis by (intro that [of rb'] rb') (simp add: lwrb_read_def)
qed

text \<open>\<open>lwrb_peek\<close> copies from the middle of the contents and leaves the buffer alone.\<close>

lemma lwrb_peek_spec:
  assumes ok: "lwrb_ok rb" and n: "n = min (lwrb_count rb - unat skip_count) (unat btp)"
    and d: "n \<le> length d"
  shows "lwrb_peek (Some rb) skip_count (Some d) btp =
    Some (Some (patch_at d 0 (take n (drop (unat skip_count) (lwrb_contents rb)))), of_nat n)"
proof (cases "n = 0")
  case True
  then have "btp = 0 \<or> skip_count \<ge> lwrb_get_full (Some rb)"
    using lwrb_get_full_eq [OF ok] n
    by (auto simp: min_def unat_eq_0 word_le_nat_alt split: if_splits)
  with ok True show ?thesis
    by (auto elim!: lwrb_okE simp: lwrb_peek_def lwrb_ok_view [OF ok] Let_def)
next
  case False
  from ok obtain mem where mem: "lw_buff rb = Some mem" and N: "length mem = unat (lw_size rb)"
    "unat (lw_size rb) \<le> 2 ^ 31" "unat (lw_r_ptr rb) < unat (lw_size rb)"
    by (auto elim!: lwrb_okE)
  let ?N = "unat (lw_size rb)" and ?s = "unat skip_count"
  have cnt: "lwrb_count rb < ?N" by (rule lwrb_count_less [OF ok])
  have s: "?s < lwrb_count rb" using False n by (simp add: min_def split: if_splits)
  let ?p = "lw_r_ptr rb + skip_count"
  let ?r = "if ?p \<ge> lw_size rb then ?p - lw_size rb else ?p"
  have r: "unat ?r = (unat (lw_r_ptr rb) + ?s) mod ?N"
    by (rule unat_ring_step) (use N s cnt in simp_all)
  let ?b = "BUF_MIN (lwrb_get_full (Some rb) - skip_count) btp"
  let ?t = "BUF_MIN (lw_size rb - ?r) ?b"
  have b: "unat ?b = n" using n s by (simp add: unat_minus_le lwrb_get_full_eq [OF ok])
  then have bn: "?b = of_nat n" by (rule unat_eq_of_nat)
  have nN: "n < ?N" and rN: "unat ?r < ?N" using n cnt N r by simp_all
  note ptr = lwrb_two_part_ptr [of ?r "lw_size rb" ?b, OF rN _ N(2), unfolded b, OF nN]
  have copy: "unat ?r < length mem" "n \<le> length d" "n \<le> length mem"
    "unat ?t = min (length mem - unat ?r) n" using N d nN rN ptr(3) by auto
  have "ring_slice mem (unat ?r) n = ring_slice mem (unat (lw_r_ptr rb) + ?s) n"
    using r N ring_slice_mod [of mem "unat (lw_r_ptr rb) + ?s" n] by simp
  also have "\<dots> = take n (drop ?s (lwrb_contents rb))"
    using n mem by (simp add: lwrb_contents_def drop_ring_slice take_ring_slice)
  finally have slice: "ring_slice mem (unat ?r) n = take n (drop ?s (lwrb_contents rb))" .
  have guard: "btp \<noteq> 0" "\<not> skip_count \<ge> lwrb_get_full (Some rb)"
    using False n s lwrb_get_full_eq [OF ok] by (auto simp: word_le_nat_alt)
  show ?thesis
    using guard ring_copy_out [OF copy] ptr(2,4,5) slice bn
    unfolding lwrb_peek_def lwrb_ok_view [OF ok mem] Let_def
    by (cases "unat ?t = n") simp_all
qed

text \<open>\<open>lwrb_skip\<close> drops the oldest bytes; \<open>lwrb_reset\<close> empties the buffer.\<close>

lemma lwrb_skip_spec:
  assumes ok: "lwrb_ok rb" and n: "n = min (unat len) (lwrb_count rb)"
  obtains rb' where "lwrb_skip (Some rb) len = (Some rb', of_nat n)"
    and "lwrb_ok rb'" and "lwrb_contents rb' = drop n (lwrb_contents rb)"
    and "lwrb_capacity rb' = lwrb_capacity rb"
proof (cases "len = 0")
  case True
  with ok n show thesis
    by (intro that [of rb]) (simp_all add: lwrb_skip_def split: option.splits)
next
  case False
  from ok obtain mem where mem: "lw_buff rb = Some mem" and N: "unat (lw_size rb) \<le> 2 ^ 31"
    "unat (lw_r_ptr rb) < unat (lw_size rb)" by (auto elim!: lwrb_okE)
  let ?l = "BUF_MIN len (lwrb_get_full (Some rb))"
  have l: "unat ?l = n" using n by (simp add: lwrb_get_full_eq [OF ok])
  have nc: "n \<le> lwrb_count rb" using n by simp
  then have nN: "n \<le> unat (lw_size rb)" using lwrb_count_less [OF ok] by simp
  note r = unat_ring_step [of "lw_r_ptr rb" "lw_size rb" ?l, OF N(2) _ N(1), unfolded l, OF nN]
  note d = lwrb_drop [OF ok nc r]
  show thesis
    by (rule that [OF _ d(1) [THEN send_evt_abs(1) [THEN iffD2]]])
      (use False d unat_eq_of_nat [OF l] in
        \<open>simp_all add: lwrb_skip_def lwrb_ok_view [OF ok mem] Let_def\<close>)
qed

lemma lwrb_reset_spec:
  assumes "lwrb_ok rb"
  obtains rb' where "lwrb_reset (Some rb) = Some rb'" and "lwrb_ok rb'" and "lwrb_contents rb' = []"
    and "lwrb_capacity rb' = lwrb_capacity rb"
proof (rule that)
  let ?rb = "rb\<lparr>lw_w_ptr := 0, lw_r_ptr := 0\<rparr>"
  show "lwrb_reset (Some rb) = Some (BUF_SEND_EVT ?rb LWRB_EVT_RESET 0)"
    using lwrb_ok_valid [OF assms] by (simp add: lwrb_reset_def)
  show "lwrb_ok (BUF_SEND_EVT ?rb LWRB_EVT_RESET 0)"
    using assms by (auto simp: lwrb_ok_def word_less_nat_alt split: option.splits)
  show "lwrb_contents (BUF_SEND_EVT ?rb LWRB_EVT_RESET 0) = []"
    by (simp add: lwrb_contents_def lwrb_count_def split: option.splits)
  show "lwrb_capacity (BUF_SEND_EVT ?rb LWRB_EVT_RESET 0) = lwrb_capacity rb"
    by (simp add: lwrb_capacity_def)
qed

text \<open>
  The zero-copy interface: bytes stored directly into the linear free block and announced with
  \<open>lwrb_advance\<close> are appended, and the linear block for reading holds the oldest bytes.
\<close>

lemma lwrb_advance_store:
  assumes ok: "lwrb_ok rb" and mem: "lw_buff rb = Some mem"
    and fits: "lwrb_count rb + length xs \<le> lwrb_capacity rb"
  obtains rb' where "lwrb_advance
      (Some (rb\<lparr>lw_buff := Some (ring_store mem (unat (lw_w_ptr rb)) xs)\<rparr>)) (of_nat (length xs)) =
      (Some rb', of_nat (length xs))"
    and "lwrb_ok rb'" and "lwrb_contents rb' = lwrb_contents rb @ xs"
    and "lwrb_capacity rb' = lwrb_capacity rb"
proof -
  let ?rb1 = "rb\<lparr>lw_buff := Some (ring_store mem (unat (lw_w_ptr rb)) xs)\<rparr>"
  from ok mem have N: "length mem = unat (lw_size rb)" "unat (lw_size rb) \<le> 2 ^ 31"
    "unat (lw_w_ptr rb) < unat (lw_size rb)" by (auto elim!: lwrb_okE)
  have lN: "length xs < unat (lw_size rb)" using fits N by (simp add: lwrb_capacity_def)
  have ok1: "lwrb_ok ?rb1" using ok mem lN N by (simp add: lwrb_ok_def)
  have free: "unat (lwrb_get_free (Some ?rb1)) = lwrb_capacity rb - lwrb_count rb"
    by (simp add: lwrb_get_free_eq [OF ok1] lwrb_capacity_def lwrb_count_def)
  let ?l = "of_nat (length xs) :: u32"
  have l: "unat ?l = length xs" using lN N by (simp add: unat_of_nat32)
  have min_l: "BUF_MIN ?l (lwrb_get_free (Some ?rb1)) = ?l"
    using l free fits by (auto simp: BUF_MIN_def word_less_nat_alt word_unat_eq_iff)
  have lN': "length xs \<le> unat (lw_size rb)" using lN by simp
  note w = unat_ring_step [of "lw_w_ptr rb" "lw_size rb" ?l, OF N(3) _ N(2), unfolded l, OF lN']
  note app = lwrb_append [OF ok mem fits w]
  show thesis
  proof (cases "xs = []")
    case True
    then show thesis
      by (intro that [of rb])
        (use ok mem in \<open>simp_all add: lwrb_advance_def ring_store_def split: option.splits\<close>)
  next
    case False
    then have "?l \<noteq> 0" using l by (metis length_0_conv unat_0)
    then have "lwrb_advance (Some ?rb1) ?l = (Some (BUF_SEND_EVT (rb\<lparr>lw_buff := Some (ring_store mem
        (unat (lw_w_ptr rb)) xs), lw_w_ptr := if lw_size rb \<le> lw_w_ptr rb + ?l
        then lw_w_ptr rb + ?l - lw_size rb else lw_w_ptr rb + ?l\<rparr>) LWRB_EVT_WRITE ?l), ?l)"
      using min_l by (simp add: lwrb_advance_def lwrb_ok_view [OF ok1] Let_def)
    then show thesis by (rule that) (use app in simp_all)
  qed
qed

lemma lwrb_linear_write_length_eq:
  assumes "lwrb_ok rb"
  shows "unat (lwrb_get_linear_block_write_length (Some rb)) =
    min (lwrb_capacity rb - lwrb_count rb) (unat (lw_size rb) - unat (lw_w_ptr rb))"
proof (cases "unat (lw_r_ptr rb)")
  case 0
  with assms show ?thesis
    by (elim lwrb_okE)
      (auto simp: lwrb_get_linear_block_write_length_def lwrb_ok_view [OF assms] Let_def
        lwrb_capacity_def lwrb_count_if [OF assms] word_le_nat_alt unat_minus_le unat_eq_0)
next
  case (Suc k)
  then have "lw_r_ptr rb \<noteq> 0" by auto
  with assms Suc show ?thesis
    by (elim lwrb_okE)
      (auto simp: lwrb_get_linear_block_write_length_def lwrb_ok_view [OF assms] Let_def
        lwrb_capacity_def lwrb_count_if [OF assms] word_le_nat_alt unat_minus_le min_def)
qed

lemma lwrb_linear_read_length_eq:
  assumes "lwrb_ok rb"
  shows "unat (lwrb_get_linear_block_read_length (Some rb)) =
    min (lwrb_count rb) (unat (lw_size rb) - unat (lw_r_ptr rb))"
  using assms
  by (elim lwrb_okE)
    (auto simp: lwrb_get_linear_block_read_length_def lwrb_ok_view [OF assms] Let_def
      lwrb_count_if [OF assms] word_less_nat_alt unat_minus_le)

lemma ring_store_linear:
  "w + length xs \<le> length m \<Longrightarrow> ring_store m w xs = patch_at m w xs"
  by (simp add: ring_store_def Let_def)

lemma lwrb_linear_write_spec:
  assumes ok: "lwrb_ok rb" and mem: "lw_buff rb = Some mem"
    and xs: "length xs \<le> unat (lwrb_get_linear_block_write_length (Some rb))"
  obtains rb' where "mem_write mem (unat (lw_w_ptr rb)) xs = Some (patch_at mem (unat (lw_w_ptr rb)) xs)"
    and "lwrb_advance (Some (rb\<lparr>lw_buff := Some (patch_at mem (unat (lw_w_ptr rb)) xs)\<rparr>))
      (of_nat (length xs)) = (Some rb', of_nat (length xs))"
    and "lwrb_ok rb'" and "lwrb_contents rb' = lwrb_contents rb @ xs"
    and "lwrb_capacity rb' = lwrb_capacity rb"
proof -
  have "length mem = unat (lw_size rb)" "unat (lw_w_ptr rb) < unat (lw_size rb)"
    using ok mem by (auto elim!: lwrb_okE)
  moreover have cnt: "lwrb_count rb < unat (lw_size rb)" by (rule lwrb_count_less [OF ok])
  ultimately have lin: "unat (lw_w_ptr rb) + length xs \<le> length mem"
    and fits: "lwrb_count rb + length xs \<le> lwrb_capacity rb"
    using xs unfolding lwrb_linear_write_length_eq [OF ok] by (auto simp: lwrb_capacity_def)
  obtain rb' where "lwrb_advance
      (Some (rb\<lparr>lw_buff := Some (ring_store mem (unat (lw_w_ptr rb)) xs)\<rparr>)) (of_nat (length xs)) =
      (Some rb', of_nat (length xs))" and rb': "lwrb_ok rb'"
      "lwrb_contents rb' = lwrb_contents rb @ xs" "lwrb_capacity rb' = lwrb_capacity rb"
    by (rule lwrb_advance_store [OF ok mem fits])
  then show thesis
    using lin by (intro that [of rb'] rb') (simp_all add: ring_store_linear mem_simps)
qed

lemma lwrb_linear_read_spec:
  assumes ok: "lwrb_ok rb" and mem: "lw_buff rb = Some mem"
    and n: "n \<le> unat (lwrb_get_linear_block_read_length (Some rb))"
  shows "mem_read mem (unat (lw_r_ptr rb)) n = Some (take n (lwrb_contents rb))"
proof -
  from ok mem have N: "length mem = unat (lw_size rb)" "unat (lw_r_ptr rb) < unat (lw_size rb)"
    by (auto elim!: lwrb_okE)
  have "n \<le> lwrb_count rb" "unat (lw_r_ptr rb) + n \<le> length mem"
    using n N unfolding lwrb_linear_read_length_eq [OF ok] by auto
  then show ?thesis
    using N lwrb_contents_take [OF ok mem] by (simp add: mem_simps flip: ring_slice_linear)
qed

subsection \<open>Search\<close>

lemma lwrb_find_match_eq:
  assumes "length mem = unat sz" and "0 < unat sz" and "unat sz \<le> 2 ^ 31"
    and "unat len \<le> length needle" and "unat idx \<le> unat len"
    and "unat r_ptr = (p + unat idx) mod unat sz"
  shows "lwrb_find_match mem sz needle len idx r_ptr =
    Some (\<forall>j \<in> {unat idx..<unat len}. mem ! ((p + j) mod unat sz) = needle ! j)"
  using assms
proof (induction mem sz needle len idx r_ptr rule: lwrb_find_match.induct)
  case (1 mem sz needle len idx r_ptr)
  show ?case
  proof (cases "idx < len")
    case False
    then show ?thesis
      using 1 by (subst lwrb_find_match.simps) (simp add: word_less_nat_alt)
  next
    case True
    have r: "unat r_ptr < unat sz" using "1.prems" by simp
    have in_mem: "unat r_ptr < length mem" "unat idx < length needle"
      using r "1.prems" True by (simp_all add: word_less_nat_alt)
    have idx: "unat (idx + 1) = unat idx + 1"
      using True unat_bound32 [of len] by (simp add: unat_add_small word_less_nat_alt)
    have range: "{unat idx..<unat len} = insert (unat idx) {unat (idx + 1)..<unat len}"
      using True idx by (auto simp: word_less_nat_alt)
    let ?r = "if sz \<le> r_ptr + 1 then 0 else r_ptr + 1"
    have r1: "unat (r_ptr + 1) = unat r_ptr + 1"
      using r "1.prems"(3) by (simp add: unat_add_small)
    have "unat ?r = (unat r_ptr + 1) mod unat sz"
    proof (cases "unat r_ptr + 1 = unat sz")
      case True
      then show ?thesis using r1 by (simp add: word_le_nat_alt)
    next
      case False
      then show ?thesis using r1 r by (simp add: word_le_nat_alt)
    qed
    then have r': "unat ?r = (p + unat (idx + 1)) mod unat sz"
      using "1.prems"(6) idx by (simp add: mod_Suc_eq)
    show ?thesis
    proof (cases "mem ! unat r_ptr = needle ! unat idx")
      case False
      then show ?thesis
        using True in_mem "1.prems"(6)
        by (subst lwrb_find_match.simps) (auto simp: range simp del: atLeastLessThan_iff)
    next
      case eq: True
      have "lwrb_find_match mem sz needle len (idx + 1) ?r =
        Some (\<forall>j \<in> {unat (idx + 1)..<unat len}. mem ! ((p + j) mod unat sz) = needle ! j)"
        by (rule "1.IH" [OF True]) (use in_mem eq True idx r' "1.prems" in \<open>auto simp: word_less_nat_alt\<close>)
      then show ?thesis
        using True in_mem eq "1.prems"(6)
        by (subst lwrb_find_match.simps) (simp add: range Let_def del: atLeastLessThan_iff)
    qed
  qed
qed

lemma ring_slice_eq_take:
  assumes "0 < length mem" and "L \<le> length needle"
  shows "(\<forall>j \<in> {0..<L}. mem ! ((p + j) mod length mem) = needle ! j) \<longleftrightarrow>
    ring_slice mem p L = take L needle"
proof -
  have "ring_slice mem p L = take L needle \<longleftrightarrow>
      (\<forall>j < L. ring_slice mem p L ! j = take L needle ! j)"
    using assms(2) by (simp only: list_eq_iff_nth_eq length_ring_slice length_take) simp
  also have "\<dots> \<longleftrightarrow> (\<forall>j < L. mem ! ((p + j) mod length mem) = needle ! j)"
    by (simp only: nth_ring_slice nth_take cong: imp_cong)
  finally show ?thesis by auto
qed

lemma lwrb_find_loop_eq:
  assumes ok: "lwrb_ok rb" and mem: "lw_buff rb = Some mem"
    and len: "0 < unat len" "unat len \<le> lwrb_count rb" "unat len \<le> length needle"
    and max: "unat max_x = lwrb_count rb - unat len"
  shows "unat skip_x \<le> lwrb_count rb \<Longrightarrow>
    lwrb_find_loop mem (lw_size rb) needle len (lw_r_ptr rb) max_x skip_x =
    Some (case find (\<lambda>i. take (unat len) (drop i (lwrb_contents rb)) = take (unat len) needle)
            [unat skip_x..<Suc (lwrb_count rb - unat len)] of
            None \<Rightarrow> (False, 0) | Some i \<Rightarrow> (True, of_nat i))"
proof (induction "Suc (lwrb_count rb) - unat skip_x" arbitrary: skip_x rule: less_induct)
  case less
  let ?N = "unat (lw_size rb)" and ?k = "lwrb_count rb" and ?L = "unat len"
  let ?P = "\<lambda>i. take ?L (drop i (lwrb_contents rb)) = take ?L needle"
  from ok mem have N: "length mem = ?N" "?N \<le> 2 ^ 31" "unat (lw_r_ptr rb) < ?N" "?k < ?N"
    using lwrb_count_less [OF ok] by (auto elim!: lwrb_okE)
  show ?case
  proof (cases "skip_x \<le> max_x")
    case False
    then show ?thesis
      using max by (subst lwrb_find_loop.simps) (simp add: word_le_nat_alt)
  next
    case True
    then have le: "unat skip_x \<le> ?k - ?L" using max by (simp add: word_le_nat_alt)
    let ?p = "lw_r_ptr rb + skip_x"
    let ?r = "if lw_size rb \<le> ?p then ?p - lw_size rb else ?p"
    have r: "unat ?r = (unat (lw_r_ptr rb) + unat skip_x) mod ?N"
      by (rule unat_ring_step) (use N le in simp_all)
    have "lwrb_find_match mem (lw_size rb) needle len 0 ?r =
      Some (\<forall>j \<in> {0..<?L}. mem ! ((unat (lw_r_ptr rb) + unat skip_x + j) mod ?N) = needle ! j)"
      by (subst lwrb_find_match_eq [where p = "unat (lw_r_ptr rb) + unat skip_x"])
        (use N r len in simp_all)
    also have "(\<forall>j \<in> {0..<?L}. mem ! ((unat (lw_r_ptr rb) + unat skip_x + j) mod ?N) = needle ! j)
      \<longleftrightarrow> ring_slice mem (unat (lw_r_ptr rb) + unat skip_x) ?L = take ?L needle"
      using ring_slice_eq_take [of mem ?L needle] N len by simp
    also have "ring_slice mem (unat (lw_r_ptr rb) + unat skip_x) ?L =
        take ?L (drop (unat skip_x) (lwrb_contents rb))"
    proof -
      have "min ?L (?k - unat skip_x) = ?L" using le len by simp
      then show ?thesis by (simp add: lwrb_contents_def mem drop_ring_slice take_ring_slice)
    qed
    finally have match: "lwrb_find_match mem (lw_size rb) needle len 0 ?r = Some (?P (unat skip_x))" .
    have upt: "[unat skip_x..<Suc (?k - ?L)] = unat skip_x # [Suc (unat skip_x)..<Suc (?k - ?L)]"
      using le by (simp add: upt_conv_Cons)
    have suc: "unat (skip_x + 1) = Suc (unat skip_x)"
      using le N by (simp add: unat_add_small)
    show ?thesis
    proof (cases "?P (unat skip_x)")
      case True
      with \<open>skip_x \<le> max_x\<close> match show ?thesis
        by (subst lwrb_find_loop.simps) (simp add: upt del: upt_Suc)
    next
      case False
      have "lwrb_find_loop mem (lw_size rb) needle len (lw_r_ptr rb) max_x (skip_x + 1) =
        Some (case find ?P [unat (skip_x + 1)..<Suc (?k - ?L)] of
            None \<Rightarrow> (False, 0) | Some i \<Rightarrow> (True, of_nat i))"
        by (rule less) (use le len suc in simp_all)
      with \<open>skip_x \<le> max_x\<close> match False suc show ?thesis
        by (subst lwrb_find_loop.simps) (simp add: upt del: upt_Suc)
    qed
  qed
qed

text \<open>The search returns the first position at or after the offset where the needle occurs.\<close>

lemma lwrb_find_eq:
  assumes ok: "lwrb_ok rb" and len: "0 < unat len" "unat len \<le> length needle"
    and nowrap: "unat len + unat start_offset < 2 ^ 32"
  shows "lwrb_find (Some rb) (Some needle) len start_offset (Some v) =
    Some (case find (\<lambda>i. take (unat len) (drop i (lwrb_contents rb)) = take (unat len) needle)
            [unat start_offset..<Suc (lwrb_count rb) - unat len] of
            None \<Rightarrow> (False, Some 0) | Some i \<Rightarrow> (True, Some (of_nat i)))"
proof -
  from ok obtain mem where mem: "lw_buff rb = Some mem" by (auto elim!: lwrb_okE)
  have sum: "unat (len + start_offset) = unat len + unat start_offset"
    by (rule unat_add_small) (use nowrap in simp)
  have len0: "len \<noteq> 0" using len by auto
  show ?thesis
  proof (cases "lwrb_count rb < unat len + unat start_offset")
    case True
    then have "[unat start_offset..<Suc (lwrb_count rb) - unat len] = []" by simp
    then show ?thesis using True len0 sum lwrb_get_full_eq [OF ok]
      by (simp add: lwrb_find_def lwrb_ok_view [OF ok mem] word_less_nat_alt Let_def)
  next
    case False
    have "unat (lwrb_get_full (Some rb) - len) = lwrb_count rb - unat len"
      using False lwrb_get_full_eq [OF ok] by (simp add: unat_minus_le)
    note loop = lwrb_find_loop_eq [OF ok mem len(1) _ len(2) this, of start_offset]
    have "Suc (lwrb_count rb) - unat len = Suc (lwrb_count rb - unat len)" using False by simp
    then show ?thesis using False len0 sum lwrb_get_full_eq [OF ok] loop
      by (simp add: lwrb_find_def lwrb_ok_view [OF ok mem] word_less_nat_alt Let_def
          split: option.splits del: upt_Suc)
  qed
qed

subsection \<open>Overwriting and moving\<close>

text \<open>\<open>lwrb_overwrite\<close> keeps the newest bytes of old contents and new data together.\<close>

lemma lwrb_overwrite_spec:
  assumes ok: "lwrb_ok rb" and d: "unat btw \<le> length d" and btw: "0 < unat btw"
  obtains rb' where "lwrb_overwrite (Some rb) (Some d) btw = Some (Some rb', btw)"
    and "lwrb_ok rb'" and "lwrb_capacity rb' = lwrb_capacity rb"
    and "lwrb_contents rb' =
      last_n (lwrb_capacity rb) (lwrb_contents rb @ take (unat btw) d)"
proof -
  let ?cap = "lwrb_capacity rb" and ?k = "lwrb_count rb"
  from ok obtain mem where mem: "lw_buff rb = Some mem" and N: "unat (lw_size rb) \<le> 2 ^ 31"
    "0 < unat (lw_size rb)" by (auto elim!: lwrb_okE)
  have cap: "unat (lw_size rb - 1) = ?cap" using N by (simp add: unat_minus_le lwrb_capacity_def)
  have k: "?k \<le> ?cap" using lwrb_count_less [OF ok] by (simp add: lwrb_capacity_def)
  have btw0: "btw \<noteq> 0" using btw by auto
  show thesis
  proof (cases "?cap < unat btw")
    case True
    let ?o = "unat btw - ?cap"
    have o: "unat (btw - (lw_size rb - 1)) = ?o" using True cap by (simp add: unat_minus_le)
    obtain rb1 where rb1: "lwrb_reset (Some rb) = Some rb1" "lwrb_ok rb1" "lwrb_contents rb1 = []"
      "lwrb_capacity rb1 = ?cap" by (rule lwrb_reset_spec [OF ok])
    have "lwrb_count rb1 = 0" using length_lwrb_contents [OF rb1(2)] rb1(3) by simp
    then have fits: "min (lwrb_capacity rb1 - lwrb_count rb1) (unat (lw_size rb - 1)) = ?cap"
      using rb1(4) cap by simp
    have "unat (lw_size rb - 1) \<le> length (drop ?o d)" using cap d True by simp
    then obtain rb' where rb': "lwrb_write (Some rb1) (Some (drop ?o d)) (lw_size rb - 1) =
        Some (Some rb', of_nat ?cap)" "lwrb_ok rb'"
        "lwrb_contents rb' = take ?cap (drop ?o d)" "lwrb_capacity rb' = ?cap"
      using lwrb_write_spec [OF rb1(2) _ fits [symmetric], of "drop ?o d"] rb1(3,4)
      by (metis append_Nil)
    have "last_n ?cap (lwrb_contents rb @ take (unat btw) d) = take ?cap (drop ?o d)"
      using True d by (simp add: last_n_append_long last_n_def drop_take)
    moreover have "lwrb_overwrite (Some rb) (Some d) btw = Some (Some rb', btw)"
      using btw0 True cap o d rb1(1) rb'(1)
      by (simp add: lwrb_overwrite_def lwrb_ok_view [OF ok mem] Let_def word_less_nat_alt)
    ultimately show thesis using rb' by (intro that [of rb']) simp_all
  next
    case False
    let ?f = "?cap - ?k"
    let ?b1 = "if lwrb_get_free (Some rb) < btw
      then fst (lwrb_skip (Some rb) (btw - lwrb_get_free (Some rb))) else Some rb"
    have f: "unat (lwrb_get_free (Some rb)) = ?f" by (rule lwrb_get_free_eq [OF ok])
    obtain rb1 where rb1: "?b1 = Some rb1" "lwrb_ok rb1" "lwrb_capacity rb1 = ?cap"
      "lwrb_contents rb1 = drop (unat btw - ?f) (lwrb_contents rb)"
    proof (cases "?f < unat btw")
      case True
      have "unat (btw - lwrb_get_free (Some rb)) = unat btw - ?f"
        using True f by (simp add: unat_minus_le)
      then have "min (unat (btw - lwrb_get_free (Some rb))) ?k = unat btw - ?f" using False k by simp
      then show thesis
        by (elim lwrb_skip_spec [OF ok, OF sym]) (use True f in \<open>auto simp: word_less_nat_alt intro: that\<close>)
    next
      case False
      then show thesis using f ok by (intro that [of rb]) (simp_all add: word_less_nat_alt)
    qed
    have "lwrb_count rb1 = ?k - (unat btw - ?f)"
      using length_lwrb_contents [OF rb1(2)] rb1(4) ok by simp
    then have fits: "min (lwrb_capacity rb1 - lwrb_count rb1) (unat btw) = unat btw"
      using rb1(3) False k by simp
    obtain rb' where rb': "lwrb_write (Some rb1) (Some d) btw = Some (Some rb', of_nat (unat btw))"
      "lwrb_ok rb'" "lwrb_contents rb' = lwrb_contents rb1 @ take (unat btw) d"
      "lwrb_capacity rb' = ?cap"
      using lwrb_write_spec [OF rb1(2) d fits [symmetric]] rb1(3) by metis
    have "last_n ?cap (lwrb_contents rb @ take (unat btw) d) =
        drop (unat btw - ?f) (lwrb_contents rb) @ take (unat btw) d"
    proof -
      have "?k - (?cap - unat btw) = unat btw - ?f" using False k by simp
      then show ?thesis using False d ok by (simp add: last_n_append_short)
    qed
    moreover have "lwrb_overwrite (Some rb) (Some d) btw = Some (Some rb', btw)"
      using btw0 False cap rb1(1) rb'(1)
      by (simp add: lwrb_overwrite_def lwrb_ok_view [OF ok mem] Let_def word_less_nat_alt)
    ultimately show thesis using rb' rb1(4) by (intro that [of rb']) simp_all
  qed
qed

text \<open>
  \<open>lwrb_move\<close> moves as many of the oldest bytes as the destination can take, in order, and its
  hard-error exit is never reached.
\<close>

lemma lwrb_move_loop_spec:
  assumes "lwrb_ok d" and "lwrb_ok s" and "unat len \<le> lwrb_count s"
    and "unat len \<le> lwrb_capacity d - lwrb_count d"
  shows "\<exists>d' s'. lwrb_move_loop (Some d) (Some s) len orig = Some (Some d', Some s', orig)
    \<and> lwrb_ok d' \<and> lwrb_ok s'
    \<and> lwrb_capacity d' = lwrb_capacity d \<and> lwrb_capacity s' = lwrb_capacity s
    \<and> lwrb_contents d' = lwrb_contents d @ take (unat len) (lwrb_contents s)
    \<and> lwrb_contents s' = drop (unat len) (lwrb_contents s)"
  using assms
proof (induction "unat len" arbitrary: d s len rule: less_induct)
  case less
  note okd = less.prems(1) and oks = less.prems(2)
  show ?case
  proof (cases "len = 0")
    case True
    then show ?thesis using okd oks by (subst lwrb_move_loop.simps) simp
  next
    case False
    define op where "op = BUF_MIN len (BUF_MIN (lwrb_get_linear_block_read_length (Some s))
      (lwrb_get_linear_block_write_length (Some d)))"
    from okd obtain dmem where dmem: "lw_buff d = Some dmem" and D: "length dmem = unat (lw_size d)"
      "unat (lw_w_ptr d) < unat (lw_size d)" by (auto elim!: lwrb_okE)
    from oks obtain smem where smem: "lw_buff s = Some smem" and S: "length smem = unat (lw_size s)"
      "unat (lw_r_ptr s) < unat (lw_size s)" by (auto elim!: lwrb_okE)
    have len_pos: "0 < unat len" using False by (simp add: unat_gt_0)
    have rlen: "unat op \<le> unat (lwrb_get_linear_block_read_length (Some s))"
      and wlen: "unat op \<le> unat (lwrb_get_linear_block_write_length (Some d))" and nl: "unat op \<le> unat len"
      by (simp_all add: op_def)
    have n_pos: "0 < unat op"
      using len_pos less.prems(3,4) D(2) S(2)
      by (simp add: op_def lwrb_linear_read_length_eq [OF oks] lwrb_linear_write_length_eq [OF okd]
          del: unat_gt_0)
    define xs where "xs = take (unat op) (lwrb_contents s)"
    have lxs: "length xs = unat op" using nl less.prems(3) oks by (simp add: xs_def)
    have rd: "mem_read smem (unat (lw_r_ptr s)) (unat op) = Some xs"
      unfolding xs_def by (rule lwrb_linear_read_spec [OF oks smem rlen])
    obtain d1 where wr: "mem_write dmem (unat (lw_w_ptr d)) xs =
        Some (patch_at dmem (unat (lw_w_ptr d)) xs)"
      and adv: "lwrb_advance (Some (d\<lparr>lw_buff := Some (patch_at dmem (unat (lw_w_ptr d)) xs)\<rparr>)) op =
        (Some d1, op)"
      and d1: "lwrb_ok d1" "lwrb_contents d1 = lwrb_contents d @ xs" "lwrb_capacity d1 = lwrb_capacity d"
      using lwrb_linear_write_spec [OF okd dmem, of xs] wlen lxs
      by (metis unat_eq_of_nat)
    have "unat op = min (unat op) (lwrb_count s)" using nl less.prems(3) by simp
    from lwrb_skip_spec [OF oks this] obtain s1 where sk: "fst (lwrb_skip (Some s) op) = Some s1"
      and s1: "lwrb_ok s1" "lwrb_contents s1 = drop (unat op) (lwrb_contents s)"
        "lwrb_capacity s1 = lwrb_capacity s"
      by (metis fst_conv)
    have op0: "op \<noteq> 0" using n_pos by auto
    have step: "lwrb_move_loop (Some d) (Some s) len orig =
        lwrb_move_loop (Some d1) (Some s1) (len - op) orig"
      using False op0 rd wr adv sk
      by (subst lwrb_move_loop.simps)
        (auto simp: Let_def memcpy_def lwrb_ok_view [OF oks smem] lwrb_ok_view [OF okd dmem]
          word_neq_0_conv op_def [symmetric] simp del: unat_BUF_MIN)
    have sub: "unat (len - op) = unat len - unat op" using nl by (simp add: unat_minus_le)
    have cs: "lwrb_count s1 = lwrb_count s - unat op"
      using length_lwrb_contents [OF s1(1)] s1(2) oks by simp
    have cd: "lwrb_count d1 = lwrb_count d + unat op"
      using length_lwrb_contents [OF d1(1)] d1(2) lxs okd by simp
    have ih: "unat (len - op) < unat len" "unat (len - op) \<le> lwrb_count s1"
      "unat (len - op) \<le> lwrb_capacity d1 - lwrb_count d1"
      using sub n_pos nl less.prems(3,4) cs cd d1(3) by simp_all
    have split: "take (unat len) (lwrb_contents s) =
        xs @ take (unat len - unat op) (drop (unat op) (lwrb_contents s))"
      "drop (unat len) (lwrb_contents s) = drop (unat len - unat op) (drop (unat op) (lwrb_contents s))"
      using nl take_add [of "unat op" "unat len - unat op" "lwrb_contents s"]
      by (simp_all add: xs_def)
    from less.hyps [OF ih(1) d1(1) s1(1) ih(2,3)] show ?thesis
      unfolding step split sub d1(2,3) s1(2,3) append.assoc .
  qed
qed

lemma lwrb_move_spec:
  assumes okd: "lwrb_ok d" and oks: "lwrb_ok s"
    and n: "n = min (lwrb_count s) (lwrb_capacity d - lwrb_count d)"
  shows "\<exists>d' s'. lwrb_move (Some d) (Some s) = Some (Some d', Some s', of_nat n)
    \<and> lwrb_ok d' \<and> lwrb_ok s'
    \<and> lwrb_capacity d' = lwrb_capacity d \<and> lwrb_capacity s' = lwrb_capacity s
    \<and> lwrb_contents d' = lwrb_contents d @ take n (lwrb_contents s)
    \<and> lwrb_contents s' = drop n (lwrb_contents s)"
proof -
  let ?l = "BUF_MIN (lwrb_get_full (Some s)) (lwrb_get_free (Some d))"
  have l: "unat ?l = n" using n by (simp add: lwrb_get_full_eq [OF oks] lwrb_get_free_eq [OF okd])
  have "lwrb_move (Some d) (Some s) = lwrb_move_loop (Some d) (Some s) ?l ?l"
    by (simp add: lwrb_move_def lwrb_ok_valid [OF okd] lwrb_ok_valid [OF oks] Let_def)
  moreover have "?l = of_nat n" by (rule unat_eq_of_nat [OF l])
  moreover have "n \<le> lwrb_count s" "n \<le> lwrb_capacity d - lwrb_count d" using n by simp_all
  ultimately show ?thesis
    using lwrb_move_loop_spec [OF okd oks, of ?l ?l] unfolding l by simp
qed

subsection \<open>Initialisation\<close>

lemma lwrb_init_spec:
  assumes "sz \<noteq> 0" and "length mem = unat sz" and "unat sz \<le> 2 ^ 31"
  obtains rb' where "lwrb_init (Some rb) (Some mem) sz = (Some rb', True)" and "lwrb_ok rb'"
    and "lwrb_contents rb' = []" and "lwrb_capacity rb' = unat sz - 1" and "lw_evt_fn rb' = None"
proof (rule that)
  let ?rb = "rb\<lparr>lw_evt_fn := None, lw_size := sz, lw_buff := Some mem, lw_w_ptr := 0, lw_r_ptr := 0\<rparr>"
  show "lwrb_init (Some rb) (Some mem) sz = (Some ?rb, True)" using assms by (simp add: lwrb_init_def)
  show "lwrb_ok ?rb" using assms by (simp add: lwrb_ok_def word_neq_0_conv)
  show "lwrb_contents ?rb = []" by (simp add: lwrb_contents_def lwrb_count_def)
  show "lwrb_capacity ?rb = unat sz - 1" by (simp add: lwrb_capacity_def)
  show "lw_evt_fn ?rb = None" by simp
qed

section \<open>The queue contract\<close>

text \<open>
  \<open>lwrb_write\<close> and \<open>lwrb_read\<close> as the operations of a byte queue. The reader passes a buffer of
  the length it asks for, filled with zeros before the call.
\<close>

definition lwrb_put :: "lwrb \<Rightarrow> bytes \<Rightarrow> (lwrb \<times> nat) option" where
  "lwrb_put rb xs = do {
     (b, n) \<leftarrow> lwrb_write (Some rb) (Some xs) (of_nat (length xs));
     rb \<leftarrow> b;
     Some (rb, unat n) }"

definition lwrb_get :: "lwrb \<Rightarrow> nat \<Rightarrow> (lwrb \<times> bytes) option" where
  "lwrb_get rb k = do {
     (b, d, n) \<leftarrow> lwrb_read (Some rb) (Some (replicate k 0)) (of_nat k);
     rb \<leftarrow> b;
     d \<leftarrow> d;
     Some (rb, take (unat n) d) }"

lemma lwrb_put_law:
  assumes ok: "lwrb_ok rb" and "length xs < 2 ^ 31"
  shows "\<exists>rb'. lwrb_put rb xs =
      Some (rb', min (length xs) (lwrb_capacity rb - length (lwrb_contents rb)))
    \<and> lwrb_ok rb' \<and> lwrb_capacity rb' = lwrb_capacity rb
    \<and> lwrb_contents rb' = lwrb_contents rb @ take (lwrb_capacity rb - length (lwrb_contents rb)) xs"
proof -
  let ?n = "min (lwrb_capacity rb - lwrb_count rb) (length xs)"
  have l: "unat (of_nat (length xs) :: u32) = length xs" using assms by (simp add: unat_of_nat32)
  obtain rb' where "lwrb_write (Some rb) (Some xs) (of_nat (length xs)) = Some (Some rb', of_nat ?n)"
    "lwrb_ok rb'" "lwrb_contents rb' = lwrb_contents rb @ take ?n xs"
    "lwrb_capacity rb' = lwrb_capacity rb"
    using lwrb_write_spec [OF ok, of "of_nat (length xs)" xs ?n] l by auto
  moreover have "unat (of_nat ?n :: u32) = ?n" using assms by (intro unat_of_nat32) simp
  moreover have "take ?n xs = take (lwrb_capacity rb - lwrb_count rb) xs" by (simp add: min_def)
  ultimately show ?thesis using ok by (simp add: lwrb_put_def min.commute)
qed

lemma lwrb_get_law:
  assumes ok: "lwrb_ok rb" and "k < 2 ^ 31"
  shows "\<exists>rb'. lwrb_get rb k = Some (rb', take k (lwrb_contents rb))
    \<and> lwrb_ok rb' \<and> lwrb_capacity rb' = lwrb_capacity rb
    \<and> lwrb_contents rb' = drop k (lwrb_contents rb)"
proof -
  let ?n = "min (lwrb_count rb) k"
  have k: "unat (of_nat k :: u32) = k" using assms by (simp add: unat_of_nat32)
  obtain rb' where "lwrb_read (Some rb) (Some (replicate k 0)) (of_nat k) =
      Some (Some rb', Some (patch_at (replicate k 0) 0 (take ?n (lwrb_contents rb))), of_nat ?n)"
    "lwrb_ok rb'" "lwrb_contents rb' = drop ?n (lwrb_contents rb)"
    "lwrb_capacity rb' = lwrb_capacity rb"
    using lwrb_read_spec [OF ok, of ?n "of_nat k" "replicate k 0"] k by auto
  moreover have "unat (of_nat ?n :: u32) = ?n" using assms by (intro unat_of_nat32) simp
  moreover have "drop ?n (lwrb_contents rb) = drop k (lwrb_contents rb)"
    "take ?n (lwrb_contents rb) = take k (lwrb_contents rb)"
    using ok by (simp_all add: min_def)
  ultimately show ?thesis using ok by (simp add: lwrb_get_def patch_at_def)
qed

interpretation lwq: byte_fifo lwrb_ok lwrb_contents lwrb_capacity lwrb_put lwrb_get
proof unfold_locales
  show "lwrb_ok q \<Longrightarrow> length (lwrb_contents q) \<le> lwrb_capacity q" for q
    using lwrb_count_less [of q] by (simp add: lwrb_capacity_def)
qed (fact lwrb_put_law, fact lwrb_get_law)

section \<open>Properties\<close>

text \<open>A buffer of eight bytes that holds \<open>[10, 11, 12, 13]\<close> across the end of its storage.\<close>

definition lwrb_example :: lwrb where
  "lwrb_example = \<lparr>lw_buff = Some [12, 13, 0, 0, 0, 0, 10, 11], lw_size = 8, lw_r_ptr = 6,
     lw_w_ptr = 2, lw_evt_fn = Some 1, lw_arg = None, lw_calls = []\<rparr>"

lemma lwrb_example_ok: "lwrb_ok lwrb_example"
  by (simp add: lwrb_ok_def lwrb_example_def)

lemma lwrb_example_contents: "lwrb_contents lwrb_example = [10, 11, 12, 13]"
  by (simp add: lwrb_contents_def lwrb_count_def lwrb_example_def ring_slice_def upt_rec)

lemma lwrb_example_count: "lwrb_count lwrb_example = 4" and lwrb_example_capacity: "lwrb_capacity lwrb_example = 7"
  by (simp_all add: lwrb_count_def lwrb_capacity_def lwrb_example_def)

lemmas lwrb_example_facts =
  lwrb_example_ok lwrb_example_contents lwrb_example_count lwrb_example_capacity

text \<open>
  C1: over any sequence of writes and reads, an LwRB buffer is a first-in first-out queue: no
  access leaves the storage, the invariant and the capacity are kept, and the initial contents
  followed by all accepted bytes equal all delivered bytes followed by the final contents.
\<close>

theorem lwrb_fifo_order:
  assumes "lwrb_ok rb" and "list_all op_small ops"
  shows "\<exists>rb' acc del. fifo_run lwrb_put lwrb_get ops rb = Some (rb', acc, del) \<and> lwrb_ok rb'
    \<and> lwrb_capacity rb' = lwrb_capacity rb \<and> lwrb_contents rb @ acc = del @ lwrb_contents rb'"
  by (rule lwq.run_fifo [OF assms])

theorem lwrb_fifo_order_witness:
  "lwrb_ok lwrb_example \<and> list_all op_small [Put [1, 2, 3, 4], Get 6, Put [5]]
    \<and> (\<exists>rb' acc del. fifo_run lwrb_put lwrb_get [Put [1, 2, 3, 4], Get 6, Put [5]] lwrb_example =
          Some (rb', acc, del)
        \<and> lwrb_ok rb' \<and> [10, 11, 12, 13] @ acc = del @ lwrb_contents rb')"
  using lwrb_fifo_order [of lwrb_example "[Put [1, 2, 3, 4], Get 6, Put [5]]"]
  by (simp add: lwrb_example_facts) blast

text \<open>
  \<open>lwrb_write_ex\<close> on a usable buffer appends exactly the first \<open>min free btw\<close> bytes of the
  data and reports their number; it rejects the call, leaving the buffer as it is, exactly when
  nothing is to be written, the buffer is full, or all bytes are wanted and do not fit. It never
  leaves the storage or the source object.
\<close>

theorem lwrb_write_ex_correct:
  assumes "lwrb_ok rb" and "unat btw \<le> length d"
  defines "free \<equiv> lwrb_capacity rb - length (lwrb_contents rb)"
  defines "n \<equiv> min free (unat btw)"
  shows "if n = 0 \<or> (flags AND LWRB_FLAG_WRITE_ALL \<noteq> 0 \<and> free < unat btw)
    then lwrb_write_ex (Some rb) (Some d) btw flags = Some (Some rb, None, False)
    else \<exists>rb'. lwrb_write_ex (Some rb) (Some d) btw flags = Some (Some rb', Some (of_nat n), True)
      \<and> lwrb_ok rb' \<and> lwrb_capacity rb' = lwrb_capacity rb
      \<and> lwrb_contents rb' = lwrb_contents rb @ take n d"
proof (cases "n = 0 \<or> (flags AND LWRB_FLAG_WRITE_ALL \<noteq> 0 \<and> free < unat btw)")
  case True
  then have "btw = 0 \<or> lwrb_get_free (Some rb) = 0
    \<or> (lwrb_get_free (Some rb) < btw \<and> flags AND LWRB_FLAG_WRITE_ALL \<noteq> 0)"
    using assms(1) lwrb_get_free_eq [of rb]
    by (auto simp: n_def free_def min_def unat_eq_0 word_less_nat_alt split: if_splits)
  then show ?thesis using True by (auto intro: lwrb_write_ex_reject)
next
  case False
  have n: "n = min (lwrb_capacity rb - lwrb_count rb) (unat btw)" using assms(1) by (simp add: n_def free_def)
  have pos: "0 < unat btw" "0 < n" and all: "flags AND LWRB_FLAG_WRITE_ALL = 0 \<or> n = unat btw"
    using False by (auto simp: n_def)
  show ?thesis
    using False lwrb_write_ex_accept [OF assms(1,2) pos(1) n pos(2) all] by (metis (full_types))
qed

theorem lwrb_write_ex_correct_witness:
  "\<exists>rb'. lwrb_write_ex (Some lwrb_example) (Some [1, 2, 3, 4]) 4 0 = Some (Some rb', Some 3, True)
    \<and> lwrb_ok rb' \<and> lwrb_contents rb' = [10, 11, 12, 13, 1, 2, 3]"
  using lwrb_write_ex_correct [of lwrb_example 4 "[1, 2, 3, 4]" 0] by (auto simp: lwrb_example_facts)

text \<open>
  \<open>lwrb_read_ex\<close> on a usable buffer copies exactly the oldest \<open>min full btr\<close> bytes to the
  start of the destination, leaves the rest of the destination alone and removes those bytes; it
  rejects the call without any effect exactly when nothing is asked for, the buffer is empty, or
  all bytes are wanted and fewer are stored.
\<close>

theorem lwrb_read_ex_correct:
  assumes "lwrb_ok rb" and "unat btr \<le> length d"
  defines "full \<equiv> length (lwrb_contents rb)"
  defines "n \<equiv> min full (unat btr)"
  shows "if n = 0 \<or> (flags AND LWRB_FLAG_READ_ALL \<noteq> 0 \<and> full < unat btr)
    then lwrb_read_ex (Some rb) (Some d) btr flags = Some (Some rb, Some d, None, False)
    else \<exists>rb'. lwrb_read_ex (Some rb) (Some d) btr flags =
        Some (Some rb', Some (take n (lwrb_contents rb) @ drop n d), Some (of_nat n), True)
      \<and> lwrb_ok rb' \<and> lwrb_capacity rb' = lwrb_capacity rb
      \<and> lwrb_contents rb' = drop n (lwrb_contents rb)"
proof (cases "n = 0 \<or> (flags AND LWRB_FLAG_READ_ALL \<noteq> 0 \<and> full < unat btr)")
  case True
  then have "btr = 0 \<or> lwrb_get_full (Some rb) = 0
    \<or> (lwrb_get_full (Some rb) < btr \<and> flags AND LWRB_FLAG_READ_ALL \<noteq> 0)"
    using assms(1) lwrb_get_full_eq [of rb]
    by (auto simp: n_def full_def min_def unat_eq_0 word_less_nat_alt split: if_splits)
  then show ?thesis using True by (auto intro: lwrb_read_ex_reject)
next
  case False
  have n: "n = min (lwrb_count rb) (unat btr)" using assms(1) by (simp add: n_def full_def)
  have pos: "0 < unat btr" "0 < n" and all: "flags AND LWRB_FLAG_READ_ALL = 0 \<or> n = unat btr"
    using False by (auto simp: n_def)
  have nd: "n \<le> length d" using assms(2) by (simp add: n_def)
  have "patch_at d 0 (take n (lwrb_contents rb)) = take n (lwrb_contents rb) @ drop n d"
    using n assms(1) by (simp add: patch_at_def)
  then show ?thesis
    using False lwrb_read_ex_accept [OF assms(1) pos(1) n pos(2) nd all] by (metis (full_types))
qed

theorem lwrb_read_ex_correct_witness:
  "\<exists>rb'. lwrb_read_ex (Some lwrb_example) (Some [0, 0, 0]) 3 LWRB_FLAG_READ_ALL =
      Some (Some rb', Some [10, 11, 12], Some 3, True)
    \<and> lwrb_ok rb' \<and> lwrb_contents rb' = [13]"
  using lwrb_read_ex_correct [of lwrb_example 3 "[0, 0, 0]" LWRB_FLAG_READ_ALL]
  by (auto simp: lwrb_example_facts)

text \<open>
  C39: \<open>lwrb_find\<close> terminates, stays inside the storage and the needle, and returns the smallest
  offset at or after \<open>start_offset\<close> at which the needle occurs in the contents, or failure when
  there is none, provided that needle length plus offset do not exceed 32 bits.
\<close>

theorem lwrb_find_first:
  assumes "lwrb_ok rb" and "0 < len" and "unat len \<le> length needle"
    and "unat len + unat start_offset < 2 ^ 32"
  defines "occurs \<equiv> \<lambda>i. unat start_offset \<le> i \<and> i + unat len \<le> length (lwrb_contents rb)
      \<and> take (unat len) (drop i (lwrb_contents rb)) = take (unat len) needle"
  shows "\<exists>r. lwrb_find (Some rb) (Some needle) len start_offset (Some v) = Some r
    \<and> (case r of
         (True, Some i) \<Rightarrow> occurs (unat i) \<and> (\<forall>j < unat i. \<not> occurs j)
       | (False, Some i) \<Rightarrow> i = 0 \<and> (\<forall>j. \<not> occurs j)
       | (_, None) \<Rightarrow> False)"
proof -
  let ?P = "\<lambda>i. take (unat len) (drop i (lwrb_contents rb)) = take (unat len) needle"
  let ?is = "[unat start_offset..<Suc (lwrb_count rb) - unat len]"
  have len: "0 < unat len" using assms(2) by (simp add: word_less_nat_alt)
  have occ: "occurs i \<longleftrightarrow> i \<in> set ?is \<and> ?P i" for i
    using assms(1) by (auto simp: occurs_def)
  note eq = lwrb_find_eq [OF assms(1) len assms(3,4), of v]
  show ?thesis
  proof (cases "find ?P ?is")
    case None
    then have "\<not> occurs j" for j unfolding occ by (auto simp: find_None_iff)
    then show ?thesis using eq None by simp
  next
    case (Some i)
    then obtain k where k: "k < length ?is" "?P (?is ! k)" "i = ?is ! k" "\<forall>j<k. \<not> ?P (?is ! j)"
      by (auto simp: find_Some_iff)
    then have i: "i = unat start_offset + k" "i < Suc (lwrb_count rb) - unat len" by auto
    have small: "unat (of_nat i :: u32) = i"
      using i(2) lwrb_count_less [OF assms(1)] unat_bound32 [of "lw_size rb"]
      by (intro unat_of_nat32) simp
    have "\<not> occurs j" if "j < i" for j
    proof
      assume o: "occurs j"
      then have le: "unat start_offset \<le> j" by (simp add: occurs_def)
      with that i(1) have "j - unat start_offset < k" by linarith
      moreover have "?is ! (j - unat start_offset) = j" using le that i by simp
      ultimately show False using k(4) o unfolding occ by metis
    qed
    moreover have "occurs i" unfolding occ using k i by auto
    ultimately show ?thesis using eq Some small by simp
  qed
qed

theorem lwrb_find_first_witness:
  "lwrb_find (Some lwrb_example) (Some [12, 13]) 2 0 (Some 9) = Some (True, Some 2)
    \<and> (\<exists>r. lwrb_find (Some lwrb_example) (Some [12, 13]) 2 0 (Some 9) = Some r
      \<and> (case r of
           (True, Some i) \<Rightarrow> 0 \<le> unat i \<and> unat i + 2 \<le> 4 \<and> take 2 (drop (unat i) [10, 11, 12, 13::u8]) = [12, 13]
         | (False, Some i) \<Rightarrow> i = 0 | (_, None) \<Rightarrow> False))"
proof -
  have "lwrb_find (Some lwrb_example) (Some [12, 13]) 2 0 (Some 9) = Some (True, Some 2)"
    using lwrb_find_eq [of lwrb_example 2 "[12, 13]" 0 9]
    by (simp add: lwrb_example_facts upt_rec)
  then show ?thesis
    using lwrb_find_first [of lwrb_example 2 "[12, 13]" 0 9] by (simp add: lwrb_example_facts)
qed

text \<open>
  without that proviso the guard of \<open>lwrb_find\<close> can be passed by wrap-around: on an empty
  eight-byte buffer a search for four bytes from offset \<open>2 ^ 32 - 4\<close> reads outside the storage.
\<close>

theorem lwrb_find_guard_wraps:
  "lwrb_find (Some (lwrb_example\<lparr>lw_r_ptr := 0, lw_w_ptr := 0\<rparr>)) (Some [1, 2, 3, 4]) 4 0xFFFFFFFC (Some v) = None"
proof -
  have "lwrb_find_loop [12, 13, 0, 0, 0, 0, 10, 11] 8 [1, 2, 3, 4] 4 0 (0 - 4) 0xFFFFFFFC = None"
    by (subst lwrb_find_loop.simps, subst lwrb_find_match.simps) simp
  then show ?thesis
    by (simp add: lwrb_find_def BUF_VIEW_def BUF_IS_VALID_def lwrb_get_full_def lwrb_example_def Let_def)
qed

text \<open>
  \<open>lwrb_overwrite\<close> always stores: afterwards the buffer holds the newest bytes of the old
  contents followed by the new data, as many as its capacity, and the call reports \<open>btw\<close>.
\<close>

theorem lwrb_overwrite_keeps_newest:
  assumes "lwrb_ok rb" and "0 < btw" and "unat btw \<le> length d"
  shows "\<exists>rb'. lwrb_overwrite (Some rb) (Some d) btw = Some (Some rb', btw) \<and> lwrb_ok rb'
    \<and> lwrb_capacity rb' = lwrb_capacity rb
    \<and> lwrb_contents rb' = last_n (lwrb_capacity rb) (lwrb_contents rb @ take (unat btw) d)"
proof -
  have "0 < unat btw" using assms(2) by (simp add: word_less_nat_alt)
  from lwrb_overwrite_spec [OF assms(1,3) this] show ?thesis by metis
qed

theorem lwrb_overwrite_keeps_newest_witness:
  "\<exists>rb'. lwrb_overwrite (Some lwrb_example) (Some [1, 2, 3, 4, 5]) 5 = Some (Some rb', 5) \<and> lwrb_ok rb'
    \<and> lwrb_contents rb' = [12, 13, 1, 2, 3, 4, 5]"
  using lwrb_overwrite_keeps_newest [of lwrb_example 5 "[1, 2, 3, 4, 5]"]
  by (auto simp: lwrb_example_facts last_n_def)

text \<open>
  C40: \<open>lwrb_move\<close> terminates and moves exactly the oldest \<open>min full free\<close> bytes of the source, in
  order, behind the contents of the destination; no byte is lost or duplicated.
\<close>

theorem lwrb_move_correct:
  assumes "lwrb_ok d" and "lwrb_ok s"
  defines "n \<equiv> min (length (lwrb_contents s)) (lwrb_capacity d - length (lwrb_contents d))"
  shows "\<exists>d' s'. lwrb_move (Some d) (Some s) = Some (Some d', Some s', of_nat n)
    \<and> lwrb_ok d' \<and> lwrb_ok s'
    \<and> lwrb_contents d' = lwrb_contents d @ take n (lwrb_contents s)
    \<and> lwrb_contents s' = drop n (lwrb_contents s)"
  using lwrb_move_spec [OF assms(1,2) refl] assms(1,2) by (auto simp: n_def)

theorem lwrb_move_correct_witness:
  "\<exists>d' s'. lwrb_move (Some lwrb_example) (Some lwrb_example) = Some (Some d', Some s', 3)
    \<and> lwrb_ok d' \<and> lwrb_ok s'
    \<and> lwrb_contents d' = [10, 11, 12, 13, 10, 11, 12] \<and> lwrb_contents s' = [13]"
  using lwrb_move_correct [OF lwrb_example_ok lwrb_example_ok] by (auto simp: lwrb_example_facts)

text \<open>
  the zero-copy write is equivalent to \<open>lwrb_write\<close>: bytes stored through the address and
  length of the linear free block lie inside the storage, and \<open>lwrb_advance\<close> makes the buffer
  hold the same contents as a call of \<open>lwrb_write\<close> with those bytes.
\<close>

theorem lwrb_linear_write_equiv:
  assumes "lwrb_ok rb" and "lw_buff rb = Some mem"
    and "lwrb_get_linear_block_write_address (Some rb) = Some w"
    and "length xs \<le> unat (lwrb_get_linear_block_write_length (Some rb))"
  shows "\<exists>mem' rb1 rb2. mem_write mem (unat w) xs = Some mem'
    \<and> lwrb_advance (Some (rb\<lparr>lw_buff := Some mem'\<rparr>)) (of_nat (length xs)) = (Some rb1, of_nat (length xs))
    \<and> lwrb_write (Some rb) (Some xs) (of_nat (length xs)) = Some (Some rb2, of_nat (length xs))
    \<and> lwrb_ok rb1 \<and> lwrb_ok rb2 \<and> lwrb_contents rb1 = lwrb_contents rb2
    \<and> lwrb_contents rb2 = lwrb_contents rb @ xs"
proof -
  have w: "w = lw_w_ptr rb"
    using assms(3) by (simp add: lwrb_get_linear_block_write_address_def lwrb_ok_view [OF assms(1,2)])
  obtain rb1 where 1: "mem_write mem (unat w) xs = Some (patch_at mem (unat w) xs)"
    "lwrb_advance (Some (rb\<lparr>lw_buff := Some (patch_at mem (unat w) xs)\<rparr>)) (of_nat (length xs)) =
      (Some rb1, of_nat (length xs))" "lwrb_ok rb1" "lwrb_contents rb1 = lwrb_contents rb @ xs"
    unfolding w by (rule lwrb_linear_write_spec [OF assms(1,2,4)])
  have "length xs \<le> lwrb_capacity rb - lwrb_count rb"
    using assms(4) by (simp add: lwrb_linear_write_length_eq [OF assms(1)])
  moreover have l: "unat (of_nat (length xs) :: u32) = length xs"
    using assms(4) unat_bound32 [of "lwrb_get_linear_block_write_length (Some rb)"]
    by (intro unat_of_nat32) simp
  ultimately obtain rb2 where "lwrb_write (Some rb) (Some xs) (of_nat (length xs)) =
      Some (Some rb2, of_nat (length xs))" "lwrb_ok rb2" "lwrb_contents rb2 = lwrb_contents rb @ xs"
    using lwrb_write_spec [OF assms(1), of "of_nat (length xs)" xs "length xs"] by auto
  with 1 show ?thesis by auto
qed

theorem lwrb_linear_write_equiv_witness:
  "\<exists>mem' rb1 rb2. mem_write [12, 13, 0, 0, 0, 0, 10, 11] 2 [7, 8, 9] = Some mem'
    \<and> lwrb_advance (Some (lwrb_example\<lparr>lw_buff := Some mem'\<rparr>)) 3 = (Some rb1, 3)
    \<and> lwrb_write (Some lwrb_example) (Some [7, 8, 9]) 3 = Some (Some rb2, 3)
    \<and> lwrb_contents rb1 = lwrb_contents rb2"
proof -
  have "lwrb_get_linear_block_write_address (Some lwrb_example) = Some 2"
    "unat (lwrb_get_linear_block_write_length (Some lwrb_example)) = 3"
    "lw_buff lwrb_example = Some [12, 13, 0, 0, 0, 0, 10, 11]"
    by (simp_all add: lwrb_get_linear_block_write_address_def lwrb_get_linear_block_write_length_def
        BUF_VIEW_def BUF_IS_VALID_def lwrb_example_def Let_def)
  from lwrb_linear_write_equiv [OF lwrb_example_ok this(3,1), of "[7, 8, 9]"] this(2) show ?thesis
    by simp blast
qed

end
