(* ===== verification/Lwrb_Spsc.thy ===== *)
theory Lwrb_Spsc
  imports Lwrb
begin

text \<open>
  Single producer, single consumer use of an LwRB buffer, as in the RS485 driver: a thread is in
  the middle of \<open>lwrb_read_ex\<close> and the receive interrupt calls \<open>lwrb_write\<close> on the same buffer.
  The read is cut at its accesses to shared state: the load of the pointers for the fill level,
  the first and the second \<open>memcpy\<close>, and the store of the read pointer. The interrupt runs to
  completion between any two of them, any number of times.
\<close>

section \<open>The read in steps\<close>

datatype reader =
    RIdle
  | RLoaded u32 bytes
  | RHalf u32 u32 u32 bytes
  | RCopied u32 u32 bytes

text \<open>
  \<open>RLoaded btr d\<close>: the guards are passed, \<open>btr\<close> is clipped to the fill level. \<open>RHalf tocopy btr
  r_ptr d\<close>: the linear part is copied, \<open>btr\<close> bytes remain. \<open>RCopied r_ptr n d\<close>: all \<open>n\<close> bytes are
  in \<open>d\<close>, \<open>r_ptr\<close> is to be stored.
\<close>

definition reader_load :: "lwrb \<Rightarrow> bytes \<Rightarrow> u32 \<Rightarrow> u16 \<Rightarrow> reader" where
  "reader_load rb d btr flags =
     (if \<not> BUF_IS_VALID (Some rb) \<or> btr = 0 then RIdle
      else
        let full = lwrb_get_full (Some rb)
        in if full = 0 \<or> (full < btr \<and> (flags AND LWRB_FLAG_READ_ALL) \<noteq> 0) then RIdle
           else RLoaded (BUF_MIN full btr) d)"

definition reader_copy1 :: "lwrb \<Rightarrow> u32 \<Rightarrow> bytes \<Rightarrow> reader option" where
  "reader_copy1 rb btr d = do {
     mem \<leftarrow> lw_buff rb;
     let r_ptr = lw_r_ptr rb;
     let tocopy = BUF_MIN (lw_size rb - r_ptr) btr;
     d \<leftarrow> memcpy d 0 mem (unat r_ptr) (unat tocopy);
     Some (RHalf tocopy (btr - tocopy) (r_ptr + tocopy) d) }"

definition reader_copy2 :: "lwrb \<Rightarrow> u32 \<Rightarrow> u32 \<Rightarrow> u32 \<Rightarrow> bytes \<Rightarrow> reader option" where
  "reader_copy2 rb tocopy btr r_ptr d = do {
     mem \<leftarrow> lw_buff rb;
     (d, r_ptr) \<leftarrow>
       (if btr > 0 then do { d \<leftarrow> memcpy d (unat tocopy) mem 0 (unat btr); Some (d, btr) }
        else Some (d, r_ptr));
     Some (RCopied (if r_ptr \<ge> lw_size rb then 0 else r_ptr) (tocopy + btr) d) }"

definition reader_store :: "lwrb \<Rightarrow> u32 \<Rightarrow> u32 \<Rightarrow> lwrb" where
  "reader_store rb r_ptr n = BUF_SEND_EVT (rb\<lparr>lw_r_ptr := r_ptr\<rparr>) LWRB_EVT_READ n"

text \<open>The uninterrupted sequence of these steps is \<open>lwrb_read_ex\<close>.\<close>

definition reader_seq :: "lwrb \<Rightarrow> bytes \<Rightarrow> u32 \<Rightarrow> u16 \<Rightarrow> (lwrb option \<times> bytes option \<times> u32 option \<times> bool) option" where
  "reader_seq rb d btr flags =
     (case reader_load rb d btr flags of
        RLoaded b d0 \<Rightarrow>
          (case reader_copy1 rb b d0 of
             Some (RHalf t b1 r d1) \<Rightarrow>
               (case reader_copy2 rb t b1 r d1 of
                  Some (RCopied r' n d2) \<Rightarrow> Some (Some (reader_store rb r' n), Some d2, Some n, True)
                | _ \<Rightarrow> None)
           | _ \<Rightarrow> None)
      | _ \<Rightarrow> Some (Some rb, Some d, None, False))"

section \<open>Interleaving\<close>

text \<open>
  The state of the system: the buffer, the reader, everything the interrupt got accepted and
  everything the reader has delivered.
\<close>

record spsc =
  sp_rb :: lwrb
  sp_reader :: reader
  sp_acc :: bytes
  sp_del :: bytes

inductive spsc_step :: "spsc \<Rightarrow> spsc \<Rightarrow> bool" where
  isr: "lwrb_write (Some (sp_rb s)) (Some xs) (of_nat (length xs)) = Some (Some rb', n) \<Longrightarrow>
    length xs < 2 ^ 31 \<Longrightarrow>
    spsc_step s (s\<lparr>sp_rb := rb', sp_acc := sp_acc s @ take (unat n) xs\<rparr>)"
| load: "sp_reader s = RIdle \<Longrightarrow> unat btr \<le> length d \<Longrightarrow>
    spsc_step s (s\<lparr>sp_reader := reader_load (sp_rb s) d btr flags\<rparr>)"
| copy1: "sp_reader s = RLoaded btr d \<Longrightarrow> reader_copy1 (sp_rb s) btr d = Some ph \<Longrightarrow>
    spsc_step s (s\<lparr>sp_reader := ph\<rparr>)"
| copy2: "sp_reader s = RHalf t btr r d \<Longrightarrow> reader_copy2 (sp_rb s) t btr r d = Some ph \<Longrightarrow>
    spsc_step s (s\<lparr>sp_reader := ph\<rparr>)"
| store: "sp_reader s = RCopied r n d \<Longrightarrow>
    spsc_step s (s\<lparr>sp_rb := reader_store (sp_rb s) r n, sp_reader := RIdle,
                   sp_del := sp_del s @ take (unat n) d\<rparr>)"

text \<open>A reader step that is due but cannot be taken has left the bounds of an object.\<close>

fun reader_faults :: "spsc \<Rightarrow> bool" where
  "reader_faults s =
     (case sp_reader s of
        RLoaded btr d \<Rightarrow> reader_copy1 (sp_rb s) btr d = None
      | RHalf t btr r d \<Rightarrow> reader_copy2 (sp_rb s) t btr r d = None
      | _ \<Rightarrow> False)"

definition reader_ok :: "lwrb \<Rightarrow> reader \<Rightarrow> bool" where
  "reader_ok rb ph =
     (case ph of
        RIdle \<Rightarrow> True
      | RLoaded btr d \<Rightarrow> unat btr \<le> lwrb_count rb \<and> unat btr \<le> length d
      | RHalf t btr r d \<Rightarrow>
          \<exists>b d0. t = BUF_MIN (lw_size rb - lw_r_ptr rb) b \<and> btr = b - t \<and> r = lw_r_ptr rb + t
            \<and> unat b \<le> lwrb_count rb \<and> unat b \<le> length d0
            \<and> d = patch_at d0 0 (take (unat t) (lwrb_contents rb))
      | RCopied r n d \<Rightarrow>
          unat n \<le> lwrb_count rb \<and> unat r = (unat (lw_r_ptr rb) + unat n) mod unat (lw_size rb)
            \<and> take (unat n) d = take (unat n) (lwrb_contents rb))"

definition spsc_ok :: "spsc \<Rightarrow> bool" where
  "spsc_ok s = (lwrb_ok (sp_rb s) \<and> reader_ok (sp_rb s) (sp_reader s)
     \<and> sp_acc s = sp_del s @ lwrb_contents (sp_rb s))"

inductive_cases spsc_stepE: "spsc_step s s'"

section \<open>Safety of the interleaving\<close>

lemma reader_seq_eq: "lwrb_read_ex (Some rb) (Some d) btr flags = reader_seq rb d btr flags"
  by (auto simp: lwrb_read_ex_def reader_seq_def reader_load_def reader_copy1_def reader_copy2_def
      reader_store_def BUF_VIEW_def BUF_IS_VALID_def Let_def split: option.splits bind_splits)

lemma lwrb_write_frame:
  assumes "lwrb_write (Some rb) (Some xs) btw = Some (Some rb', n)"
  shows "lw_r_ptr rb' = lw_r_ptr rb" and "lw_size rb' = lw_size rb"
  using assms
  by (auto simp: lwrb_write_def lwrb_write_ex_def BUF_VIEW_def Let_def
      split: option.splits bind_splits if_splits)

text \<open>The interrupt only appends: every byte the reader has in view stays where it is.\<close>

lemma reader_ok_mono:
  assumes "reader_ok rb ph" and "lwrb_ok rb" and "lwrb_ok rb'"
    and "lw_r_ptr rb' = lw_r_ptr rb" and "lw_size rb' = lw_size rb"
    and "lwrb_contents rb' = lwrb_contents rb @ ys"
  shows "reader_ok rb' ph"
proof -
  have "lwrb_count rb \<le> lwrb_count rb'"
    using assms(2,3,6) by (metis length_append length_lwrb_contents le_add1)
  moreover have "take k (lwrb_contents rb') = take k (lwrb_contents rb)" if "k \<le> lwrb_count rb" for k
    using assms(2,6) that by simp
  ultimately show ?thesis
    using assms(1,4,5) by (fastforce simp: reader_ok_def split: reader.splits)
qed

lemma reader_copy1_ok:
  assumes ok: "lwrb_ok rb" and b: "unat b \<le> lwrb_count rb" "unat b \<le> length d"
  obtains ph where "reader_copy1 rb b d = Some ph" and "reader_ok rb ph"
proof -
  from ok obtain mem where mem: "lw_buff rb = Some mem" and N: "length mem = unat (lw_size rb)"
    "unat (lw_size rb) \<le> 2 ^ 31" "unat (lw_r_ptr rb) < unat (lw_size rb)" by (auto elim!: lwrb_okE)
  let ?t = "BUF_MIN (lw_size rb - lw_r_ptr rb) b"
  have bN: "unat b < unat (lw_size rb)" using b(1) lwrb_count_less [OF ok] by simp
  have t: "unat ?t = min (length mem - unat (lw_r_ptr rb)) (unat b)"
    using lwrb_two_part_ptr(3) [OF N(3) bN N(2)] N(1) by simp
  have lin: "unat (lw_r_ptr rb) + unat ?t \<le> length mem" "unat ?t \<le> lwrb_count rb"
    using t b N by simp_all
  then have "take (unat ?t) (drop (unat (lw_r_ptr rb)) mem) = take (unat ?t) (lwrb_contents rb)"
    using N lwrb_contents_take [OF ok mem lin(2)] by (simp add: ring_slice_linear del: unat_BUF_MIN)
  moreover have "memcpy d 0 mem (unat (lw_r_ptr rb)) (unat ?t) =
      Some (patch_at d 0 (take (unat ?t) (drop (unat (lw_r_ptr rb)) mem)))"
    by (rule ring_copy_out(1) [OF _ b(2) _ t]) (use N bN in simp_all)
  ultimately show thesis
    using b mem by (intro that [of "RHalf ?t (b - ?t) (lw_r_ptr rb + ?t)
        (patch_at d 0 (take (unat ?t) (lwrb_contents rb)))"])
      (auto simp: reader_copy1_def reader_ok_def Let_def simp del: unat_BUF_MIN)
qed

lemma reader_copy2_ok:
  assumes ok: "lwrb_ok rb" and half: "reader_ok rb (RHalf t b1 r d)"
  obtains ph where "reader_copy2 rb t b1 r d = Some ph" and "reader_ok rb ph"
proof -
  from half obtain b d0 where t: "t = BUF_MIN (lw_size rb - lw_r_ptr rb) b" and b1: "b1 = b - t"
    and r: "r = lw_r_ptr rb + t" and b: "unat b \<le> lwrb_count rb" "unat b \<le> length d0"
    and d: "d = patch_at d0 0 (take (unat t) (lwrb_contents rb))"
    by (auto simp: reader_ok_def)
  from ok obtain mem where mem: "lw_buff rb = Some mem" and N: "length mem = unat (lw_size rb)"
    "unat (lw_size rb) \<le> 2 ^ 31" "unat (lw_r_ptr rb) < unat (lw_size rb)" by (auto elim!: lwrb_okE)
  have bN: "unat b < unat (lw_size rb)" using b(1) lwrb_count_less [OF ok] by simp
  note ptr = lwrb_two_part_ptr [OF N(3) bN N(2), folded t]
  have tm: "unat t = min (length mem - unat (lw_r_ptr rb)) (unat b)" using ptr(3) N by simp
  have lin: "unat (lw_r_ptr rb) + unat t \<le> length mem" "unat t \<le> lwrb_count rb"
    using tm b N by simp_all
  have d': "d = patch_at d0 0 (take (unat t) (drop (unat (lw_r_ptr rb)) mem))"
    using N d lwrb_contents_take [OF ok mem lin(2)] lin(1) by (simp add: ring_slice_linear)
  have copy: "unat (lw_r_ptr rb) < length mem" "unat b \<le> length d0" "unat b \<le> length mem"
    using N b bN by simp_all
  let ?d2 = "patch_at d0 0 (ring_slice mem (unat (lw_r_ptr rb)) (unat b))"
  have "take (unat b) ?d2 = take (unat b) (lwrb_contents rb)"
    using b ok lwrb_contents_take [OF ok mem b(1)] by (simp add: patch_at_def)
  then show thesis
    using ring_copy_out(2,3) [OF copy tm] ptr b mem d' b1 r
    by (intro that [of "RCopied (if lw_size rb \<le> (if b1 > 0 then b1 else r) then 0
        else (if b1 > 0 then b1 else r)) b ?d2"])
      (auto simp: reader_copy2_def reader_ok_def Let_def)
qed

lemma reader_load_ok: "lwrb_ok rb \<Longrightarrow> unat btr \<le> length d \<Longrightarrow> reader_ok rb (reader_load rb d btr flags)"
  by (auto simp: reader_load_def reader_ok_def Let_def lwrb_get_full_eq)

lemma spsc_step_ok:
  assumes "spsc_step s s'" and "spsc_ok s"
  shows "spsc_ok s'"
  using assms
proof (cases rule: spsc_step.cases)
  case (isr xs rb' n)
  from assms(2) have ok: "lwrb_ok (sp_rb s)" by (simp add: spsc_ok_def)
  from lwq.put_law [OF ok isr(3)] isr(2) have "lwrb_ok rb'"
    "lwrb_contents rb' = lwrb_contents (sp_rb s) @ take (unat n) xs"
    by (auto simp: lwrb_put_def take_all min_def split: if_splits)
  then show ?thesis
    using assms(2) ok isr reader_ok_mono [OF _ ok] lwrb_write_frame [OF isr(2)]
    by (simp add: spsc_ok_def)
next
  case (load btr d flags)
  then show ?thesis using assms(2) by (simp add: spsc_ok_def reader_load_ok)
next
  case (copy1 btr d ph)
  with assms(2) show ?thesis
    using reader_copy1_ok [of "sp_rb s" btr d] by (auto simp: spsc_ok_def reader_ok_def)
next
  case (copy2 t btr r d ph)
  with assms(2) show ?thesis
    using reader_copy2_ok [of "sp_rb s" t btr r d] by (auto simp: spsc_ok_def)
next
  case (store r n d)
  with assms(2) have ok: "lwrb_ok (sp_rb s)" and n: "unat n \<le> lwrb_count (sp_rb s)"
    and r: "unat r = (unat (lw_r_ptr (sp_rb s)) + unat n) mod unat (lw_size (sp_rb s))"
    and d: "take (unat n) d = take (unat n) (lwrb_contents (sp_rb s))"
    by (auto simp: spsc_ok_def reader_ok_def)
  show ?thesis
    using lwrb_drop [OF ok n r] d store assms(2)
    by (simp add: spsc_ok_def reader_store_def reader_ok_def)
qed

lemma spsc_ok_no_fault: "spsc_ok s \<Longrightarrow> \<not> reader_faults s"
proof (cases "sp_reader s")
  case (RLoaded b d)
  assume "spsc_ok s"
  with RLoaded show ?thesis
    by (auto simp: spsc_ok_def reader_ok_def elim: reader_copy1_ok [of "sp_rb s" b d])
next
  case (RHalf t b r d)
  assume "spsc_ok s"
  with RHalf have "lwrb_ok (sp_rb s)" "reader_ok (sp_rb s) (RHalf t b r d)"
    by (auto simp: spsc_ok_def)
  from reader_copy2_ok [OF this] RHalf show ?thesis by auto
qed auto

lemma spsc_reachable_ok: "spsc_step\<^sup>*\<^sup>* s s' \<Longrightarrow> spsc_ok s \<Longrightarrow> spsc_ok s'"
  by (induction rule: rtranclp_induct) (auto intro: spsc_step_ok)

section \<open>Property\<close>

text \<open>
  C2: a reader that is interrupted between its accesses by writes of the receive interrupt, at
  any point and any number of times, never leaves an object and delivers exactly the accepted
  bytes in order: what was accepted equals what was delivered followed by what is stored.
\<close>

theorem spsc_interleaving_safe:
  assumes "spsc_step\<^sup>*\<^sup>* \<lparr>sp_rb = rb, sp_reader = RIdle, sp_acc = lwrb_contents rb, sp_del = []\<rparr> s"
    and "lwrb_ok rb"
  shows "\<not> reader_faults s \<and> lwrb_ok (sp_rb s) \<and> sp_acc s = sp_del s @ lwrb_contents (sp_rb s)"
proof -
  have "spsc_ok \<lparr>sp_rb = rb, sp_reader = RIdle, sp_acc = lwrb_contents rb, sp_del = []\<rparr>"
    using assms(2) by (simp add: spsc_ok_def reader_ok_def)
  from spsc_reachable_ok [OF assms(1) this] spsc_ok_no_fault show ?thesis
    by (auto simp: spsc_ok_def simp del: reader_faults.simps)
qed

text \<open>The reader has loaded a fill level of 4 when the interrupt stores two more bytes.\<close>

theorem spsc_interleaving_safe_witness:
  "\<exists>s. spsc_step\<^sup>*\<^sup>* \<lparr>sp_rb = lwrb_example, sp_reader = RIdle, sp_acc = lwrb_contents lwrb_example,
       sp_del = []\<rparr> s
    \<and> sp_reader s = RLoaded 4 [0, 0, 0, 0, 0] \<and> sp_acc s = [10, 11, 12, 13, 1, 2]
    \<and> \<not> reader_faults s \<and> sp_acc s = sp_del s @ lwrb_contents (sp_rb s)"
proof -
  define s0 where "s0 = \<lparr>sp_rb = lwrb_example, sp_reader = RIdle,
    sp_acc = lwrb_contents lwrb_example, sp_del = []\<rparr>"
  define s1 where "s1 = s0\<lparr>sp_reader := reader_load lwrb_example [0, 0, 0, 0, 0] 5 0\<rparr>"
  have fits: "unat (2 :: u32) \<le> length [1, 2 :: u8]"
    "2 = min (lwrb_capacity lwrb_example - lwrb_count lwrb_example) (unat (2 :: u32))"
    by (simp_all add: lwrb_example_facts)
  obtain rb' where "lwrb_write (Some lwrb_example) (Some [1, 2]) 2 = Some (Some rb', of_nat 2)"
    by (rule lwrb_write_spec [OF lwrb_example_ok fits])
  then have w: "lwrb_write (Some lwrb_example) (Some [1, 2]) (of_nat (length [1, 2 :: u8])) =
      Some (Some rb', 2)" by simp
  define s2 where "s2 = s1\<lparr>sp_rb := rb', sp_acc := sp_acc s1 @ take (unat (2 :: u32)) [1, 2]\<rparr>"
  have rb: "sp_rb s0 = lwrb_example" "sp_rb s1 = lwrb_example" "sp_reader s0 = RIdle"
    by (simp_all add: s0_def s1_def)
  have "spsc_step s0 s1"
    unfolding s1_def rb(1) [symmetric] by (rule spsc_step.load) (simp_all add: rb)
  moreover have "spsc_step s1 s2"
    unfolding s2_def by (rule spsc_step.isr) (use w rb in simp_all)
  ultimately have reach: "spsc_step\<^sup>*\<^sup>* s0 s2"
    by (rule converse_rtranclp_into_rtranclp [OF _ r_into_rtranclp])
  have "reader_load lwrb_example [0, 0, 0, 0, 0] 5 0 = RLoaded 4 [0, 0, 0, 0, 0]"
    by (simp add: reader_load_def BUF_IS_VALID_def lwrb_get_full_def BUF_VIEW_def lwrb_example_def
        BUF_MIN_def Let_def)
  then have "sp_reader s2 = RLoaded 4 [0, 0, 0, 0, 0]" "sp_acc s2 = [10, 11, 12, 13, 1, 2]"
    by (simp_all add: s2_def s1_def s0_def lwrb_example_contents)
  with spsc_interleaving_safe [OF reach [unfolded s0_def] lwrb_example_ok] reach show ?thesis
    unfolding s0_def by blast
qed

end
