(* ===== verification/Rt_Align.thy ===== *)
theory Rt_Align
  imports Board_Prelude
begin

text \<open>
  The alignment macros of \<open>rt-thread/include/rtdef.h\<close>, which the ring buffer and the heap use with the alignment of eight
  bytes of this board.
\<close>

unbundle bit_operations_syntax

definition RT_ALIGN :: "u32 \<Rightarrow> u32 \<Rightarrow> u32" where
  "RT_ALIGN sz align = (sz + align - 1) AND NOT (align - 1)"

definition RT_ALIGN_DOWN :: "u32 \<Rightarrow> u32 \<Rightarrow> u32" where
  "RT_ALIGN_DOWN sz align = sz AND NOT (align - 1)"

definition RT_ALIGN_SIZE :: u32 where "RT_ALIGN_SIZE = 8"

lemma and7: "x AND 7 = take_bit 3 (x :: u32)"
  by (simp add: take_bit_eq_mask mask_eq_exp_minus_1)

lemma unat_take3: "unat (take_bit 3 (x :: u32)) = unat x mod 8"
  by (simp only: unsigned_take_bit_eq) (simp add: take_bit_eq_mod)

lemma and7_zero: "(x :: u32) AND 7 = 0 \<longleftrightarrow> 8 dvd unat x"
  by (simp add: and7 word_unat_eq_iff unat_take3 mod_eq_0_iff_dvd)

lemma unat_add_mod8: "unat (x + y :: u32) mod 8 = (unat x + unat y) mod 8"
  by (simp add: unat_word_ariths mod_mod_cancel)

definition round8 :: "nat \<Rightarrow> nat" where
  "round8 n = (n + 7) div 8 * 8"

lemma round8: "8 dvd round8 n" "n \<le> round8 n" "round8 n < n + 8"
  by (auto simp: round8_def)

lemma unat_RT_ALIGN_DOWN: "unat (RT_ALIGN_DOWN x 8) = unat x div 8 * 8"
proof -
  have "x AND NOT (mask 3) = push_bit 3 (drop_bit 3 x)" by (rule bit_word_eqI) (auto simp: bit_simps)
  then have "x AND NOT 7 = push_bit 3 (drop_bit 3 x)" by (simp add: mask_eq_exp_minus_1)
  moreover have "push_bit 3 (drop_bit 3 x) + take_bit 3 x = x" by (simp add: bits_ident)
  then have "push_bit 3 (drop_bit 3 x) = x - take_bit 3 x" by (simp add: algebra_simps)
  moreover have "unat (take_bit 3 x) = unat x mod 8" by (rule unat_take3)
  ultimately have "unat (x AND NOT 7) = unat x - unat x mod 8"
    using unat_minus_le [of "take_bit 3 x" x] by simp
  then show ?thesis by (simp add: RT_ALIGN_DOWN_def minus_mod_eq_div_mult)
qed

lemma RT_ALIGN_eq: "RT_ALIGN x 8 = RT_ALIGN_DOWN (x + 7) 8"
  by (simp add: RT_ALIGN_def RT_ALIGN_DOWN_def add.commute)

lemma unat_RT_ALIGN: "unat x + 7 < 2 ^ 32 \<Longrightarrow> unat (RT_ALIGN x 8) = round8 (unat x)"
  by (simp add: RT_ALIGN_eq unat_RT_ALIGN_DOWN round8_def unat_add_small)

lemma align_down_id: "8 dvd unat x \<Longrightarrow> RT_ALIGN_DOWN x 8 = x"
  by (rule word_unat_eq_iff [THEN iffD2]) (simp add: unat_RT_ALIGN_DOWN)

lemma align_id: "8 dvd unat x \<Longrightarrow> unat x + 7 < 2 ^ 32 \<Longrightarrow> RT_ALIGN x 8 = x"
  by (rule word_unat_eq_iff [THEN iffD2]) (auto simp: unat_RT_ALIGN round8_def)

end
