(* ===== verification/Ringbuffer.thy ===== *)
theory Ringbuffer
  imports Byte_Fifo Rt_Align
begin

text \<open>
  The RT-Thread ring buffer (\<open>rt-thread/components/drivers/ipc/ringbuffer.c\<close> and
  \<open>drivers/include/ipc/ringbuffer.h\<close>) behind the serial drivers, pipes and the AT client. Read and
  write position are 31-bit bit-fields with a mirror bit each; equal positions mean empty when the
  mirrors agree and full when they differ, so the whole storage can be used. The mirror bits are
  booleans here (\<open>~\<close> on a one-bit field is negation). \<open>buffer_size\<close> is the bit pattern of an
  \<open>rt_int32_t\<close>; the comparisons of the code are made on \<open>rt_uint32_t\<close> after the usual conversions.

  A result \<open>None\<close> means that an \<open>RT_ASSERT\<close> failed or an access left an object.
\<close>

section \<open>Data\<close>

record rt_ringbuffer =
  buffer_ptr :: bytes
  read_mirror :: bool
  read_index :: "31 word"
  write_mirror :: bool
  write_index :: "31 word"
  buffer_size :: u32

datatype rt_ringbuffer_state = RT_RINGBUFFER_EMPTY | RT_RINGBUFFER_FULL | RT_RINGBUFFER_HALFFULL

text \<open>Promotion of a 31-bit field and assignment to it.\<close>

definition to_u32 :: "31 word \<Rightarrow> u32" where "to_u32 x = ucast x"

definition to_u31 :: "u32 \<Rightarrow> 31 word" where "to_u31 x = ucast x"

section \<open>Operations\<close>

definition rt_ringbuffer_status :: "rt_ringbuffer \<Rightarrow> rt_ringbuffer_state" where
  "rt_ringbuffer_status rb =
     (if read_index rb = write_index rb
      then (if read_mirror rb = write_mirror rb then RT_RINGBUFFER_EMPTY else RT_RINGBUFFER_FULL)
      else RT_RINGBUFFER_HALFFULL)"

text \<open>\<open>size > 0\<close> is a signed comparison.\<close>

definition rt_ringbuffer_init :: "rt_ringbuffer \<Rightarrow> bytes \<Rightarrow> u32 \<Rightarrow> rt_ringbuffer option" where
  "rt_ringbuffer_init rb pool sz =
     (if sint sz > 0
      then Some (rb\<lparr>read_mirror := False, read_index := 0, write_mirror := False, write_index := 0,
                    buffer_ptr := pool, buffer_size := RT_ALIGN_DOWN sz RT_ALIGN_SIZE\<rparr>)
      else None)"

definition rt_ringbuffer_data_len :: "rt_ringbuffer \<Rightarrow> u32" where
  "rt_ringbuffer_data_len rb =
     (case rt_ringbuffer_status rb of
        RT_RINGBUFFER_EMPTY \<Rightarrow> 0
      | RT_RINGBUFFER_FULL \<Rightarrow> buffer_size rb
      | RT_RINGBUFFER_HALFFULL \<Rightarrow>
          let wi = to_u32 (write_index rb); ri = to_u32 (read_index rb)
          in if wi > ri then wi - ri else buffer_size rb - (ri - wi))"

definition rt_ringbuffer_space_len :: "rt_ringbuffer \<Rightarrow> u32" where
  "rt_ringbuffer_space_len rb = buffer_size rb - rt_ringbuffer_data_len rb"

definition rt_ringbuffer_get_size :: "rt_ringbuffer \<Rightarrow> u32" where
  "rt_ringbuffer_get_size rb = buffer_size rb"

definition rt_ringbuffer_put :: "rt_ringbuffer \<Rightarrow> bytes \<Rightarrow> u32 \<Rightarrow> (rt_ringbuffer \<times> u32) option" where
  "rt_ringbuffer_put rb ptr len =
     (let sz = rt_ringbuffer_space_len rb
      in if sz = 0 then Some (rb, 0)
         else
           let len = (if sz < len then sz else len);
               w = to_u32 (write_index rb)
           in if buffer_size rb - w > len
              then do {
                buf \<leftarrow> memcpy (buffer_ptr rb) (unat w) ptr 0 (unat len);
                Some (rb\<lparr>buffer_ptr := buf, write_index := to_u31 (w + len)\<rparr>, len)
              }
              else do {
                buf \<leftarrow> memcpy (buffer_ptr rb) (unat w) ptr 0 (unat (buffer_size rb - w));
                buf \<leftarrow> memcpy buf 0 ptr (unat (buffer_size rb - w)) (unat (len - (buffer_size rb - w)));
                Some (rb\<lparr>buffer_ptr := buf, write_mirror := \<not> write_mirror rb,
                         write_index := to_u31 (len - (buffer_size rb - w))\<rparr>, len)
              })"

definition rt_ringbuffer_put_force ::
  "rt_ringbuffer \<Rightarrow> bytes \<Rightarrow> u32 \<Rightarrow> (rt_ringbuffer \<times> u32) option" where
  "rt_ringbuffer_put_force rb ptr len =
     (let space_length = rt_ringbuffer_space_len rb;
          (off, len) = (if len > buffer_size rb then (unat (len - buffer_size rb), buffer_size rb)
                        else (0, len));
          w = to_u32 (write_index rb)
      in if buffer_size rb - w > len
         then do {
           buf \<leftarrow> memcpy (buffer_ptr rb) (unat w) ptr off (unat len);
           let rb = rb\<lparr>buffer_ptr := buf, write_index := to_u31 (w + len)\<rparr>;
           let rb = (if len > space_length then rb\<lparr>read_index := write_index rb\<rparr> else rb);
           Some (rb, len)
         }
         else do {
           buf \<leftarrow> memcpy (buffer_ptr rb) (unat w) ptr off (unat (buffer_size rb - w));
           buf \<leftarrow> memcpy buf 0 ptr (off + unat (buffer_size rb - w)) (unat (len - (buffer_size rb - w)));
           let rb = rb\<lparr>buffer_ptr := buf, write_mirror := \<not> write_mirror rb,
                       write_index := to_u31 (len - (buffer_size rb - w))\<rparr>;
           let rb = (if len > space_length then
                       let rb = (if write_index rb \<le> read_index rb
                                 then rb\<lparr>read_mirror := \<not> read_mirror rb\<rparr> else rb)
                       in rb\<lparr>read_index := write_index rb\<rparr>
                     else rb);
           Some (rb, len)
         })"

definition rt_ringbuffer_get ::
  "rt_ringbuffer \<Rightarrow> bytes \<Rightarrow> u32 \<Rightarrow> (rt_ringbuffer \<times> bytes \<times> u32) option" where
  "rt_ringbuffer_get rb ptr len =
     (let sz = rt_ringbuffer_data_len rb
      in if sz = 0 then Some (rb, ptr, 0)
         else
           let len = (if sz < len then sz else len);
               r = to_u32 (read_index rb)
           in if buffer_size rb - r > len
              then do {
                ptr \<leftarrow> memcpy ptr 0 (buffer_ptr rb) (unat r) (unat len);
                Some (rb\<lparr>read_index := to_u31 (r + len)\<rparr>, ptr, len)
              }
              else do {
                ptr \<leftarrow> memcpy ptr 0 (buffer_ptr rb) (unat r) (unat (buffer_size rb - r));
                ptr \<leftarrow> memcpy ptr (unat (buffer_size rb - r)) (buffer_ptr rb) 0
                         (unat (len - (buffer_size rb - r)));
                Some (rb\<lparr>read_mirror := \<not> read_mirror rb,
                         read_index := to_u31 (len - (buffer_size rb - r))\<rparr>, ptr, len)
              })"

text \<open>
  \<open>rt_ringbuffer_peek\<close> hands out a pointer into the storage, here the index it points at
  (\<open>None\<close> is \<open>RT_NULL\<close>), and consumes the linear block behind it.
\<close>

definition rt_ringbuffer_peek :: "rt_ringbuffer \<Rightarrow> rt_ringbuffer \<times> 31 word option \<times> u32" where
  "rt_ringbuffer_peek rb =
     (let sz = rt_ringbuffer_data_len rb
      in if sz = 0 then (rb, None, 0)
         else
           let ptr = read_index rb; r = to_u32 (read_index rb)
           in if buffer_size rb - r > sz
              then (rb\<lparr>read_index := to_u31 (r + sz)\<rparr>, Some ptr, sz)
              else (rb\<lparr>read_mirror := \<not> read_mirror rb, read_index := 0\<rparr>, Some ptr, buffer_size rb - r))"

definition rt_ringbuffer_putchar :: "rt_ringbuffer \<Rightarrow> u8 \<Rightarrow> (rt_ringbuffer \<times> u32) option" where
  "rt_ringbuffer_putchar rb ch =
     (if rt_ringbuffer_space_len rb = 0 then Some (rb, 0)
      else do {
        buf \<leftarrow> mem_write (buffer_ptr rb) (unat (write_index rb)) [ch];
        let rb = rb\<lparr>buffer_ptr := buf\<rparr>;
        Some (if to_u32 (write_index rb) = buffer_size rb - 1
              then rb\<lparr>write_mirror := \<not> write_mirror rb, write_index := 0\<rparr>
              else rb\<lparr>write_index := write_index rb + 1\<rparr>, 1)
      })"

definition rt_ringbuffer_putchar_force :: "rt_ringbuffer \<Rightarrow> u8 \<Rightarrow> (rt_ringbuffer \<times> u32) option" where
  "rt_ringbuffer_putchar_force rb ch =
     (let old_state = rt_ringbuffer_status rb
      in do {
        buf \<leftarrow> mem_write (buffer_ptr rb) (unat (write_index rb)) [ch];
        let rb = rb\<lparr>buffer_ptr := buf\<rparr>;
        if to_u32 (write_index rb) = buffer_size rb - 1
        then (let rb = rb\<lparr>write_mirror := \<not> write_mirror rb, write_index := 0\<rparr>;
                  rb = (if old_state = RT_RINGBUFFER_FULL
                        then rb\<lparr>read_mirror := \<not> read_mirror rb, read_index := write_index rb\<rparr> else rb)
              in Some (rb, 1))
        else (let rb = rb\<lparr>write_index := write_index rb + 1\<rparr>;
                  rb = (if old_state = RT_RINGBUFFER_FULL
                        then rb\<lparr>read_index := write_index rb\<rparr> else rb)
              in Some (rb, 1))
      })"

definition rt_ringbuffer_getchar :: "rt_ringbuffer \<Rightarrow> (rt_ringbuffer \<times> u8 option \<times> u32) option" where
  "rt_ringbuffer_getchar rb =
     (if rt_ringbuffer_data_len rb = 0 then Some (rb, None, 0)
      else do {
        xs \<leftarrow> mem_read (buffer_ptr rb) (unat (read_index rb)) 1;
        Some (if to_u32 (read_index rb) = buffer_size rb - 1
              then rb\<lparr>read_mirror := \<not> read_mirror rb, read_index := 0\<rparr>
              else rb\<lparr>read_index := read_index rb + 1\<rparr>, Some (hd xs), 1)
      })"

definition rt_ringbuffer_reset :: "rt_ringbuffer \<Rightarrow> rt_ringbuffer" where
  "rt_ringbuffer_reset rb =
     rb\<lparr>read_mirror := False, read_index := 0, write_mirror := False, write_index := 0\<rparr>"

text \<open>
  \<open>rt_ringbuffer_create\<close> with the two allocations as arguments: the block for the control
  structure, if there is one, and what the heap returns for a pool of a given size.
\<close>

definition rt_ringbuffer_create ::
  "rt_ringbuffer option \<Rightarrow> (u32 \<Rightarrow> bytes option) \<Rightarrow> u32 \<Rightarrow> rt_ringbuffer option option" where
  "rt_ringbuffer_create malloc_rb malloc_pool sz =
     (if sz > 0 then
        let sz = RT_ALIGN_DOWN sz RT_ALIGN_SIZE
        in (case malloc_rb of
              None \<Rightarrow> Some None
            | Some rb \<Rightarrow>
                (case malloc_pool sz of
                   None \<Rightarrow> Some None
                 | Some pool \<Rightarrow> map_option Some (rt_ringbuffer_init rb pool sz)))
      else None)"

section \<open>Invariant and abstraction\<close>

definition rtrb_ok :: "rt_ringbuffer \<Rightarrow> bool" where
  "rtrb_ok rb = (length (buffer_ptr rb) = unat (buffer_size rb)
     \<and> unat (buffer_size rb) < 2 ^ 31
     \<and> unat (read_index rb) < unat (buffer_size rb) \<and> unat (write_index rb) < unat (buffer_size rb)
     \<and> (if read_mirror rb = write_mirror rb then read_index rb \<le> write_index rb
        else write_index rb \<le> read_index rb))"

definition rtrb_count :: "rt_ringbuffer \<Rightarrow> nat" where
  "rtrb_count rb =
     (if read_mirror rb = write_mirror rb then unat (write_index rb) - unat (read_index rb)
      else unat (buffer_size rb) - unat (read_index rb) + unat (write_index rb))"

definition rtrb_contents :: "rt_ringbuffer \<Rightarrow> bytes" where
  "rtrb_contents rb = ring_slice (buffer_ptr rb) (unat (read_index rb)) (rtrb_count rb)"

definition rtrb_capacity :: "rt_ringbuffer \<Rightarrow> nat" where
  "rtrb_capacity rb = unat (buffer_size rb)"

lemma unat_to_u32 [simp]: "unat (to_u32 x) = unat x"
  using unsigned_less [of x, where 'a = nat]
  by (simp add: to_u32_def unsigned_ucast_eq take_bit_nat_eq_self)

lemma unat_to_u31: "unat x < 2 ^ 31 \<Longrightarrow> unat (to_u31 x) = unat x"
  by (simp add: to_u31_def unsigned_ucast_eq take_bit_nat_eq_self)

lemma to_u32_cmp [simp]:
  "to_u32 x < to_u32 y \<longleftrightarrow> x < y" "to_u32 x \<le> to_u32 y \<longleftrightarrow> x \<le> y"
  by (simp_all add: word_cmp)

lemma rtrb_okD:
  assumes "rtrb_ok rb"
  shows "length (buffer_ptr rb) = unat (buffer_size rb)" and "unat (buffer_size rb) < 2 ^ 31"
    and "unat (read_index rb) < unat (buffer_size rb)"
    and "unat (write_index rb) < unat (buffer_size rb)"
    and "read_mirror rb = write_mirror rb \<longrightarrow> unat (read_index rb) \<le> unat (write_index rb)"
    and "read_mirror rb \<noteq> write_mirror rb \<longrightarrow> unat (write_index rb) \<le> unat (read_index rb)"
  using assms by (auto simp: rtrb_ok_def word_le_nat_alt split: if_splits)

lemma rtrb_count_le: "rtrb_ok rb \<Longrightarrow> rtrb_count rb \<le> unat (buffer_size rb)"
  using rtrb_okD [of rb] by (auto simp: rtrb_count_def)

lemma length_rtrb_contents [simp]: "length (rtrb_contents rb) = rtrb_count rb"
  by (simp add: rtrb_contents_def)

lemma rtrb_w_eq:
  assumes "rtrb_ok rb"
  shows "unat (write_index rb) = (unat (read_index rb) + rtrb_count rb) mod unat (buffer_size rb)"
  using rtrb_okD [OF assms] by (auto simp: rtrb_count_def)

lemma rt_data_len_eq:
  assumes "rtrb_ok rb"
  shows "unat (rt_ringbuffer_data_len rb) = rtrb_count rb"
proof (cases "read_index rb = write_index rb")
  case True
  then show ?thesis
    using rtrb_okD [OF assms]
    by (simp add: rt_ringbuffer_data_len_def rt_ringbuffer_status_def rtrb_count_def)
next
  case False
  then have "unat (read_index rb) \<noteq> unat (write_index rb)" by (simp add: word_unat_eq_iff)
  then show ?thesis
    using False rtrb_okD [OF assms]
    by (auto simp: rt_ringbuffer_data_len_def rt_ringbuffer_status_def rtrb_count_def Let_def
        word_less_nat_alt unat_minus_le)
qed

lemma rt_space_len_eq:
  assumes "rtrb_ok rb"
  shows "unat (rt_ringbuffer_space_len rb) = rtrb_capacity rb - rtrb_count rb"
  using rt_data_len_eq [OF assms] rtrb_count_le [OF assms]
  by (simp add: rt_ringbuffer_space_len_def rtrb_capacity_def unat_minus_le)

text \<open>
  Storing bytes at the write position and moving it appends them; moving the read position drops
  the oldest bytes. A mirror bit flips when its position wraps around.
\<close>

lemma rtrb_append:
  assumes ok: "rtrb_ok rb" and fits: "rtrb_count rb + length xs \<le> rtrb_capacity rb"
    and w': "unat w' = (unat (write_index rb) + length xs) mod unat (buffer_size rb)"
    and m': "m' = (if unat (write_index rb) + length xs < unat (buffer_size rb)
      then write_mirror rb else \<not> write_mirror rb)"
  defines "rb' \<equiv> rb\<lparr>buffer_ptr := ring_store (buffer_ptr rb) (unat (write_index rb)) xs,
    write_mirror := m', write_index := w'\<rparr>"
  shows "rtrb_ok rb'" and "rtrb_contents rb' = rtrb_contents rb @ xs"
    and "rtrb_capacity rb' = rtrb_capacity rb"
proof -
  let ?N = "unat (buffer_size rb)" and ?r = "unat (read_index rb)" and ?w = "unat (write_index rb)"
  note D = rtrb_okD [OF ok]
  have fits': "rtrb_count rb + length xs \<le> ?N" using fits by (simp add: rtrb_capacity_def)
  have w2: "unat w' = (if ?w + length xs < ?N then ?w + length xs else ?w + length xs - ?N)"
    using w' D(4) fits' by (simp add: le_mod_geq)
  have lt: "unat w' < ?N" using w' D(4) by simp
  have mirror: "read_mirror rb = m' \<Longrightarrow> ?r \<le> unat w'" "read_mirror rb \<noteq> m' \<Longrightarrow> unat w' \<le> ?r"
    using w2 m' D(3-6) fits' by (auto simp: rtrb_count_def split: if_splits)
  have len: "length (ring_store (buffer_ptr rb) ?w xs) = ?N" using D fits' by simp
  show ok': "rtrb_ok rb'"
    using D(2,3) lt mirror len by (simp add: rtrb_ok_def rb'_def word_le_nat_alt)
  have "rtrb_count rb' = rtrb_count rb + length xs"
    using w2 m' D(3-6) fits' by (auto simp: rtrb_count_def rb'_def split: if_splits)
  then show "rtrb_contents rb' = rtrb_contents rb @ xs"
    using ring_slice_store [of ?r "buffer_ptr rb" "rtrb_count rb" xs ?w] D(1,3) fits' rtrb_w_eq [OF ok]
    by (simp add: rtrb_contents_def rb'_def)
  show "rtrb_capacity rb' = rtrb_capacity rb" by (simp add: rtrb_capacity_def rb'_def)
qed

lemma rtrb_drop:
  assumes ok: "rtrb_ok rb" and n: "n \<le> rtrb_count rb"
    and r': "unat r' = (unat (read_index rb) + n) mod unat (buffer_size rb)"
    and m': "m' = (if unat (read_index rb) + n < unat (buffer_size rb)
      then read_mirror rb else \<not> read_mirror rb)"
  defines "rb' \<equiv> rb\<lparr>read_mirror := m', read_index := r'\<rparr>"
  shows "rtrb_ok rb'" and "rtrb_contents rb' = drop n (rtrb_contents rb)"
    and "rtrb_capacity rb' = rtrb_capacity rb"
proof -
  let ?N = "unat (buffer_size rb)" and ?r = "unat (read_index rb)" and ?w = "unat (write_index rb)"
  note D = rtrb_okD [OF ok] rtrb_count_le [OF ok]
  have r2: "unat r' = (if ?r + n < ?N then ?r + n else ?r + n - ?N)"
    using r' D n by (simp add: le_mod_geq)
  have lt: "unat r' < ?N" using r' D by simp
  have mirror: "m' = write_mirror rb \<Longrightarrow> unat r' \<le> ?w" "m' \<noteq> write_mirror rb \<Longrightarrow> ?w \<le> unat r'"
    using r2 m' D(3-6) n by (auto simp: rtrb_count_def split: if_splits)
  show "rtrb_ok rb'" using D lt mirror by (simp add: rtrb_ok_def rb'_def word_le_nat_alt)
  have cnt: "rtrb_count rb' = rtrb_count rb - n"
    using r2 m' D(3-6) n by (auto simp: rtrb_count_def rb'_def split: if_splits)
  have "ring_slice (buffer_ptr rb) (unat r') (rtrb_count rb - n) =
      ring_slice (buffer_ptr rb) (?r + n) (rtrb_count rb - n)"
    using r' D(1) ring_slice_mod [of "buffer_ptr rb" "?r + n"] by simp
  then show "rtrb_contents rb' = drop n (rtrb_contents rb)"
    using cnt by (simp add: rtrb_contents_def rb'_def drop_ring_slice)
  show "rtrb_capacity rb' = rtrb_capacity rb" by (simp add: rtrb_capacity_def rb'_def)
qed

lemma rtrb_contents_take:
  "n \<le> rtrb_count rb \<Longrightarrow>
    ring_slice (buffer_ptr rb) (unat (read_index rb)) n = take n (rtrb_contents rb)"
  by (simp add: rtrb_contents_def take_ring_slice min_absorb1)

section \<open>Functional behaviour\<close>

lemma rt_put_spec:
  assumes ok: "rtrb_ok rb" and d: "unat len \<le> length d"
    and n: "n = min (rtrb_capacity rb - rtrb_count rb) (unat len)"
  obtains rb' where "rt_ringbuffer_put rb d len = Some (rb', of_nat n)" and "rtrb_ok rb'"
    and "rtrb_contents rb' = rtrb_contents rb @ take n d"
    and "rtrb_capacity rb' = rtrb_capacity rb"
proof (cases "rt_ringbuffer_space_len rb = 0")
  case True
  then have "n = 0" using n rt_space_len_eq [OF ok] by simp
  then show thesis using True ok by (intro that [of rb]) (simp_all add: rt_ringbuffer_put_def)
next
  case False
  let ?N = "unat (buffer_size rb)" and ?w = "unat (write_index rb)"
  define l where "l = (if rt_ringbuffer_space_len rb < len then rt_ringbuffer_space_len rb else len)"
  have l: "unat l = n" using n rt_space_len_eq [OF ok] by (auto simp: l_def word_less_nat_alt)
  then have ln: "l = of_nat n" by (rule unat_eq_of_nat)
  note D = rtrb_okD [OF ok] rtrb_count_le [OF ok]
  have nd: "n \<le> length d" and nN: "n \<le> ?N" and fits: "rtrb_count rb + n \<le> rtrb_capacity rb"
    using n d D(7) by (auto simp: rtrb_capacity_def)
  have gap: "unat (buffer_size rb - to_u32 (write_index rb)) = ?N - ?w"
    using D(4) by (simp add: unat_minus_le)
  have len: "length (take n d) = n" using nd by simp
  have wle: "?w \<le> length (buffer_ptr rb)" and nle: "n \<le> length (buffer_ptr rb)" using D nN by simp_all
  note copy = ring_copy_in [OF wle nd nle refl]
  show thesis
  proof (cases "n < ?N - ?w")
    case True
    have sum: "unat (to_u32 (write_index rb) + l) = ?w + n"
      using True D(2) l by (simp add: unat_add_small)
    then have w': "unat (to_u31 (to_u32 (write_index rb) + l)) = (?w + n) mod ?N"
      using True D(2) by (simp add: unat_to_u31)
    let ?rb' = "rb\<lparr>buffer_ptr := ring_store (buffer_ptr rb) ?w (take n d),
      write_mirror := write_mirror rb, write_index := to_u31 (to_u32 (write_index rb) + l)\<rparr>"
    have "min (length (buffer_ptr rb) - ?w) n = n" using True D(1) by simp
    then have "rt_ringbuffer_put rb d len = Some (?rb', l)"
      using \<open>rt_ringbuffer_space_len rb \<noteq> 0\<close> True gap l copy(1,3)
      unfolding rt_ringbuffer_put_def Let_def l_def [symmetric]
      by (simp add: word_less_nat_alt)
    moreover have "write_mirror rb = (if ?w + n < ?N then write_mirror rb
        else \<not> write_mirror rb)" using True by simp
    note app = rtrb_append [OF ok, of "take n d", unfolded len, OF fits w' this]
    ultimately show thesis unfolding ln by (rule that)
  next
    case False
    have rest: "unat (l - (buffer_size rb - to_u32 (write_index rb))) = n - (?N - ?w)"
      using False gap l by (simp add: unat_minus_le)
    have w': "unat (to_u31 (l - (buffer_size rb - to_u32 (write_index rb)))) = (?w + n) mod ?N"
    proof -
      have "(?w + n) mod ?N = n - (?N - ?w)" using False D(4) nN by (simp add: le_mod_geq)
      then show ?thesis using rest D(2) nN by (simp add: unat_to_u31)
    qed
    let ?rb' = "rb\<lparr>buffer_ptr := ring_store (buffer_ptr rb) ?w (take n d),
      write_mirror := \<not> write_mirror rb,
      write_index := to_u31 (l - (buffer_size rb - to_u32 (write_index rb)))\<rparr>"
    have "min (length (buffer_ptr rb) - ?w) n = ?N - ?w" using False D(1) by simp
    then have "rt_ringbuffer_put rb d len = Some (?rb', l)"
      using \<open>rt_ringbuffer_space_len rb \<noteq> 0\<close> False gap rest l copy(1,2)
      unfolding rt_ringbuffer_put_def Let_def l_def [symmetric]
      by (simp add: word_less_nat_alt)
    moreover have "(\<not> write_mirror rb) = (if ?w + n < ?N then write_mirror rb
        else \<not> write_mirror rb)" using False by simp
    note app = rtrb_append [OF ok, of "take n d", unfolded len, OF fits w' this]
    ultimately show thesis unfolding ln by (rule that)
  qed
qed

lemma rt_get_spec:
  assumes ok: "rtrb_ok rb" and n: "n = min (rtrb_count rb) (unat len)" and d: "n \<le> length d"
  obtains rb' where "rt_ringbuffer_get rb d len =
      Some (rb', patch_at d 0 (take n (rtrb_contents rb)), of_nat n)" and "rtrb_ok rb'"
    and "rtrb_contents rb' = drop n (rtrb_contents rb)"
    and "rtrb_capacity rb' = rtrb_capacity rb"
proof (cases "rt_ringbuffer_data_len rb = 0")
  case True
  then have "n = 0" using n rt_data_len_eq [OF ok] by simp
  then show thesis using True ok by (intro that [of rb]) (simp_all add: rt_ringbuffer_get_def)
next
  case False
  let ?N = "unat (buffer_size rb)" and ?r = "unat (read_index rb)"
  define l where "l = (if rt_ringbuffer_data_len rb < len then rt_ringbuffer_data_len rb else len)"
  have l: "unat l = n" using n rt_data_len_eq [OF ok] by (auto simp: l_def word_less_nat_alt)
  then have ln: "l = of_nat n" by (rule unat_eq_of_nat)
  note D = rtrb_okD [OF ok] rtrb_count_le [OF ok]
  have nc: "n \<le> rtrb_count rb" using n by simp
  then have nN: "n \<le> ?N" using D(7) by simp
  have gap: "unat (buffer_size rb - to_u32 (read_index rb)) = ?N - ?r"
    using D(3) by (simp add: unat_minus_le)
  have rlt: "?r < length (buffer_ptr rb)" and nle: "n \<le> length (buffer_ptr rb)" using D nN by simp_all
  note copy = ring_copy_out [OF rlt d nle refl, unfolded rtrb_contents_take [OF nc]]
  show thesis
  proof (cases "n < ?N - ?r")
    case True
    have sum: "unat (to_u32 (read_index rb) + l) = ?r + n"
      using True D(2) l by (simp add: unat_add_small)
    then have r': "unat (to_u31 (to_u32 (read_index rb) + l)) = (?r + n) mod ?N"
      using True D(2) by (simp add: unat_to_u31)
    let ?rb' = "rb\<lparr>read_mirror := read_mirror rb, read_index := to_u31 (to_u32 (read_index rb) + l)\<rparr>"
    have "min (length (buffer_ptr rb) - ?r) n = n" using True D(1) by simp
    then have "rt_ringbuffer_get rb d len = Some (?rb', patch_at d 0 (take n (rtrb_contents rb)), l)"
      using False True gap l copy(1,3)
      unfolding rt_ringbuffer_get_def Let_def l_def [symmetric]
      by (simp add: word_less_nat_alt)
    moreover have "read_mirror rb = (if ?r + n < ?N then read_mirror rb else \<not> read_mirror rb)"
      using True by simp
    note rtrb_drop [OF ok nc r' this]
    ultimately show thesis unfolding ln by (rule that)
  next
    case ge: False
    have rest: "unat (l - (buffer_size rb - to_u32 (read_index rb))) = n - (?N - ?r)"
      using ge gap l by (simp add: unat_minus_le)
    have r': "unat (to_u31 (l - (buffer_size rb - to_u32 (read_index rb)))) = (?r + n) mod ?N"
    proof -
      have "(?r + n) mod ?N = n - (?N - ?r)" using ge D(3) nN by (simp add: le_mod_geq)
      then show ?thesis using rest D(2) nN by (simp add: unat_to_u31)
    qed
    let ?rb' = "rb\<lparr>read_mirror := \<not> read_mirror rb,
      read_index := to_u31 (l - (buffer_size rb - to_u32 (read_index rb)))\<rparr>"
    have "min (length (buffer_ptr rb) - ?r) n = ?N - ?r" using ge D(1) by simp
    then have "rt_ringbuffer_get rb d len = Some (?rb', patch_at d 0 (take n (rtrb_contents rb)), l)"
      using False ge gap rest l copy(1,2)
      unfolding rt_ringbuffer_get_def Let_def l_def [symmetric]
      by (simp add: word_less_nat_alt)
    moreover have "(\<not> read_mirror rb) = (if ?r + n < ?N then read_mirror rb else \<not> read_mirror rb)"
      using ge by simp
    note rtrb_drop [OF ok nc r' this]
    ultimately show thesis unfolding ln by (rule that)
  qed
qed

text \<open>The single-byte operations behave as the block operations on one byte.\<close>

lemma last_index_iff:
  assumes "rtrb_ok rb" and "unat i < unat (buffer_size rb)"
  shows "to_u32 i = buffer_size rb - 1 \<longleftrightarrow> unat i + 1 = unat (buffer_size rb)"
proof -
  have "unat (buffer_size rb - 1) = unat (buffer_size rb) - 1"
    using assms(2) by (intro trans [OF unat_minus_le]) simp_all
  then show ?thesis using assms(2) by (auto simp: word_unat_eq_iff)
qed

lemma index_succ:
  fixes i :: "31 word"
  assumes "rtrb_ok rb" and "unat i + 1 < unat (buffer_size rb)"
  shows "unat (i + 1) = (unat i + 1) mod unat (buffer_size rb)"
proof -
  have "unat (buffer_size rb) < 2 ^ 31" by (rule rtrb_okD(2) [OF assms(1)])
  then have "unat (i + 1) = unat i + unat (1 :: 31 word)"
    using assms(2) by (intro unat_add_small) simp
  then show ?thesis using assms(2) by simp
qed

lemma rt_putchar_spec:
  assumes ok: "rtrb_ok rb"
  shows "rtrb_count rb = rtrb_capacity rb \<Longrightarrow> rt_ringbuffer_putchar rb ch = Some (rb, 0)"
    and "rtrb_count rb < rtrb_capacity rb \<Longrightarrow>
      \<exists>rb'. rt_ringbuffer_putchar rb ch = Some (rb', 1) \<and> rtrb_ok rb'
        \<and> rtrb_contents rb' = rtrb_contents rb @ [ch] \<and> rtrb_capacity rb' = rtrb_capacity rb"
proof -
  note sp = rt_space_len_eq [OF ok]
  note D = rtrb_okD [OF ok]
  let ?N = "unat (buffer_size rb)" and ?w = "unat (write_index rb)"
  show "rtrb_count rb = rtrb_capacity rb \<Longrightarrow> rt_ringbuffer_putchar rb ch = Some (rb, 0)"
    using sp by (simp add: rt_ringbuffer_putchar_def unat_eq_0)
  assume lt: "rtrb_count rb < rtrb_capacity rb"
  then have sp0: "rt_ringbuffer_space_len rb \<noteq> 0" and fits: "rtrb_count rb + length [ch] \<le> rtrb_capacity rb"
    using sp by auto
  have st: "mem_write (buffer_ptr rb) ?w [ch] = Some (ring_store (buffer_ptr rb) ?w [ch])"
    using D by (simp add: mem_simps ring_store_def Let_def)
  let ?last = "?w + 1 = ?N"
  define w' where "w' = (if ?last then 0 else write_index rb + 1)"
  define m' where "m' = (if ?last then \<not> write_mirror rb else write_mirror rb)"
  have w: "unat w' = (?w + length [ch]) mod ?N"
    using index_succ [OF ok, of "write_index rb"] D(4) by (auto simp: w'_def)
  have m: "m' = (if ?w + length [ch] < ?N then write_mirror rb else \<not> write_mirror rb)"
    using D(4) by (auto simp: m'_def)
  have "rt_ringbuffer_putchar rb ch = Some (rb\<lparr>buffer_ptr := ring_store (buffer_ptr rb) ?w [ch],
      write_mirror := m', write_index := w'\<rparr>, 1)"
    using sp0 st last_index_iff [OF ok D(4)]
    by (simp add: rt_ringbuffer_putchar_def w'_def m'_def)
  then show "\<exists>rb'. rt_ringbuffer_putchar rb ch = Some (rb', 1) \<and> rtrb_ok rb'
      \<and> rtrb_contents rb' = rtrb_contents rb @ [ch] \<and> rtrb_capacity rb' = rtrb_capacity rb"
    using rtrb_append [OF ok fits w m] by auto
qed

lemma rt_getchar_spec:
  assumes ok: "rtrb_ok rb"
  shows "rtrb_count rb = 0 \<Longrightarrow> rt_ringbuffer_getchar rb = Some (rb, None, 0)"
    and "0 < rtrb_count rb \<Longrightarrow>
      \<exists>rb'. rt_ringbuffer_getchar rb = Some (rb', Some (hd (rtrb_contents rb)), 1) \<and> rtrb_ok rb'
        \<and> rtrb_contents rb' = tl (rtrb_contents rb) \<and> rtrb_capacity rb' = rtrb_capacity rb"
proof -
  note dl = rt_data_len_eq [OF ok]
  note D = rtrb_okD [OF ok]
  let ?N = "unat (buffer_size rb)" and ?r = "unat (read_index rb)"
  show "rtrb_count rb = 0 \<Longrightarrow> rt_ringbuffer_getchar rb = Some (rb, None, 0)"
    using dl by (simp add: rt_ringbuffer_getchar_def unat_eq_0)
  assume pos: "0 < rtrb_count rb"
  then have dl0: "rt_ringbuffer_data_len rb \<noteq> 0" and one: "1 \<le> rtrb_count rb" using dl by auto
  have rd: "mem_read (buffer_ptr rb) ?r 1 = Some (take 1 (rtrb_contents rb))"
    using D rtrb_contents_take [OF one] by (simp add: mem_simps ring_slice_linear)
  have hd: "hd (take 1 (rtrb_contents rb)) = hd (rtrb_contents rb)"
    using pos by (cases "rtrb_contents rb") auto
  let ?last = "?r + 1 = ?N"
  define r' where "r' = (if ?last then 0 else read_index rb + 1)"
  define m' where "m' = (if ?last then \<not> read_mirror rb else read_mirror rb)"
  have r: "unat r' = (?r + 1) mod ?N"
    using index_succ [OF ok, of "read_index rb"] D(3) by (auto simp: r'_def)
  have m: "m' = (if ?r + 1 < ?N then read_mirror rb else \<not> read_mirror rb)"
    using D(3) by (auto simp: m'_def)
  have "rt_ringbuffer_getchar rb = Some (rb\<lparr>read_mirror := m', read_index := r'\<rparr>,
      Some (hd (rtrb_contents rb)), 1)"
    using dl0 rd hd last_index_iff [OF ok D(3)]
    by (simp add: rt_ringbuffer_getchar_def r'_def m'_def)
  then show "\<exists>rb'. rt_ringbuffer_getchar rb = Some (rb', Some (hd (rtrb_contents rb)), 1) \<and> rtrb_ok rb'
      \<and> rtrb_contents rb' = tl (rtrb_contents rb) \<and> rtrb_capacity rb' = rtrb_capacity rb"
    using rtrb_drop [OF ok one r m] by (auto simp: drop_Suc)
qed

text \<open>
  A forced put stores all bytes: it is a put that first drops as many of the oldest bytes as are
  in the way, and of data longer than the buffer only the end is stored.
\<close>

lemma rtrb_drop_append:
  assumes ok: "rtrb_ok rb" and n: "length xs \<le> rtrb_capacity rb"
    and over: "rtrb_capacity rb < rtrb_count rb + length xs"
    and w': "unat w' = (unat (write_index rb) + length xs) mod unat (buffer_size rb)"
    and wm: "wm = (if unat (write_index rb) + length xs < unat (buffer_size rb)
      then write_mirror rb else \<not> write_mirror rb)"
    and rm: "rm = (if unat (write_index rb) + length xs < unat (buffer_size rb)
      then read_mirror rb else if w' \<le> read_index rb then \<not> read_mirror rb else read_mirror rb)"
  defines "rb' \<equiv> rb\<lparr>buffer_ptr := ring_store (buffer_ptr rb) (unat (write_index rb)) xs,
    write_mirror := wm, write_index := w', read_mirror := rm, read_index := w'\<rparr>"
  shows "rtrb_ok rb'" and "rtrb_capacity rb' = rtrb_capacity rb"
    and "rtrb_contents rb' = last_n (rtrb_capacity rb) (rtrb_contents rb @ xs)"
proof -
  let ?N = "unat (buffer_size rb)" and ?r = "unat (read_index rb)" and ?w = "unat (write_index rb)"
  let ?j = "rtrb_count rb + length xs - ?N"
  note D = rtrb_okD [OF ok] rtrb_count_le [OF ok]
  have n': "length xs \<le> ?N" and over': "?N < rtrb_count rb + length xs"
    using n over by (simp_all add: rtrb_capacity_def)
  have j: "?j \<le> rtrb_count rb" using n' by simp
  have w2: "unat w' = (if ?w + length xs < ?N then ?w + length xs else ?w + length xs - ?N)"
    using w' D(4) n' by (simp add: le_mod_geq)
  have rj: "unat w' = (?r + ?j) mod ?N"
  proof -
    have "?r + ?j + ?N = ?r + rtrb_count rb + length xs" using over' by simp
    then have "(?r + ?j) mod ?N = (?r + rtrb_count rb + length xs) mod ?N"
      by (metis mod_add_self2)
    then show ?thesis using w' by (simp add: rtrb_w_eq [OF ok] mod_add_left_eq)
  qed
  have rm': "rm = (if ?r + ?j < ?N then read_mirror rb else \<not> read_mirror rb)"
    using rm w2 D(3-7) n' over'
    by (auto simp: rtrb_count_def word_le_nat_alt split: if_splits)
  note dr = rtrb_drop [OF ok j rj rm']
  let ?d = "rb\<lparr>read_mirror := rm, read_index := w'\<rparr>"
  have cnt: "rtrb_count ?d = rtrb_count rb - ?j"
    using dr(2) by (metis length_drop length_rtrb_contents)
  have fits: "rtrb_count ?d + length xs \<le> rtrb_capacity ?d"
    using cnt over' D(7) n' by (simp add: rtrb_capacity_def)
  have eq: "rb' = ?d\<lparr>buffer_ptr := ring_store (buffer_ptr ?d) (unat (write_index ?d)) xs,
      write_mirror := wm, write_index := w'\<rparr>" by (simp add: rb'_def)
  note app = rtrb_append [OF dr(1) fits, of w' wm, folded eq]
  show "rtrb_ok rb'" and "rtrb_capacity rb' = rtrb_capacity rb"
    using app w' wm dr(3) by simp_all
  have "rtrb_count rb - (?N - length xs) = ?j" using n' over' D(7) by simp
  then show "rtrb_contents rb' = last_n (rtrb_capacity rb) (rtrb_contents rb @ xs)"
    using app w' wm dr(2) n' by (simp add: last_n_append_short rtrb_capacity_def)
qed

lemma rt_put_force_store:
  assumes ok: "rtrb_ok rb" and n: "unat len \<le> rtrb_capacity rb" and d: "unat len \<le> length d"
    and off: "off \<le> length ptr" "d = drop off ptr"
  defines "w \<equiv> to_u32 (write_index rb)"
  defines "w' \<equiv> if buffer_size rb - w > len then to_u31 (w + len) else to_u31 (len - (buffer_size rb - w))"
  shows "buffer_size rb - w > len \<longleftrightarrow> unat (write_index rb) + unat len < unat (buffer_size rb)"
    and "unat w' = (unat (write_index rb) + unat len) mod unat (buffer_size rb)"
    and "buffer_size rb - w > len \<Longrightarrow> memcpy (buffer_ptr rb) (unat w) ptr off (unat len) =
      Some (ring_store (buffer_ptr rb) (unat w) (take (unat len) d))"
    and "\<not> buffer_size rb - w > len \<Longrightarrow> (do {
        buf \<leftarrow> memcpy (buffer_ptr rb) (unat w) ptr off (unat (buffer_size rb - w));
        memcpy buf 0 ptr (off + unat (buffer_size rb - w)) (unat (len - (buffer_size rb - w))) }) =
      Some (ring_store (buffer_ptr rb) (unat w) (take (unat len) d))"
proof -
  let ?N = "unat (buffer_size rb)" and ?w = "unat (write_index rb)"
  note D = rtrb_okD [OF ok]
  have nN: "unat len \<le> ?N" using n by (simp add: rtrb_capacity_def)
  have w: "unat w = ?w" by (simp add: w_def)
  have gap: "unat (buffer_size rb - w) = ?N - ?w" using D(4) by (simp add: unat_minus_le w_def)
  show lt: "buffer_size rb - w > len \<longleftrightarrow> ?w + unat len < ?N"
    using gap by (auto simp: word_less_nat_alt)
  have wle: "?w \<le> length (buffer_ptr rb)" and nle: "unat len \<le> length (buffer_ptr rb)" using D nN by simp_all
  note copy = ring_copy_in [OF wle d nle refl]
  have mo: "memcpy m i ptr off k = memcpy m i d 0 k" "memcpy m i ptr (off + s) k = memcpy m i d s k" for m i s k
    using memcpy_offset [OF off(1), of m i 0 k] memcpy_offset [OF off(1), of m i s k] off(2) by simp_all
  show "unat w' = (?w + unat len) mod ?N"
  proof (cases "?w + unat len < ?N")
    case True
    then have "unat (w + len) = ?w + unat len" using D(2) w by (simp add: unat_add_small)
    then show ?thesis using True lt D(2) by (simp add: w'_def unat_to_u31)
  next
    case False
    then have "unat (len - (buffer_size rb - w)) = ?w + unat len - ?N"
      using gap D(4) by (simp add: unat_minus_le)
    moreover have "?w + unat len - ?N < ?N" using D(4) nN by linarith
    ultimately show ?thesis using False lt D(2) nN by (simp add: w'_def unat_to_u31 le_mod_geq)
  qed
  show "memcpy (buffer_ptr rb) (unat w) ptr off (unat len) =
      Some (ring_store (buffer_ptr rb) (unat w) (take (unat len) d))" if "buffer_size rb - w > len"
  proof -
    have "min (length (buffer_ptr rb) - ?w) (unat len) = unat len" using that lt D(1) by simp
    then show ?thesis using copy(1,3) by (simp add: w mo)
  qed
  show "(do { buf \<leftarrow> memcpy (buffer_ptr rb) (unat w) ptr off (unat (buffer_size rb - w));
        memcpy buf 0 ptr (off + unat (buffer_size rb - w)) (unat (len - (buffer_size rb - w))) }) =
      Some (ring_store (buffer_ptr rb) (unat w) (take (unat len) d))" if "\<not> buffer_size rb - w > len"
  proof -
    have m: "min (length (buffer_ptr rb) - ?w) (unat len) = ?N - ?w" using that lt D(1) by simp
    have "unat (len - (buffer_size rb - w)) = unat len - (?N - ?w)"
      using that lt gap by (simp add: unat_minus_le)
    then show ?thesis using copy(1,2) m by (simp add: w mo gap)
  qed
qed

lemma rt_put_force_spec:
  assumes ok: "rtrb_ok rb" and d: "unat len \<le> length d"
    and n: "n = min (rtrb_capacity rb) (unat len)"
  obtains rb' where "rt_ringbuffer_put_force rb d len = Some (rb', of_nat n)" and "rtrb_ok rb'"
    and "rtrb_contents rb' = last_n (rtrb_capacity rb) (rtrb_contents rb @ take (unat len) d)"
    and "rtrb_capacity rb' = rtrb_capacity rb"
proof -
  let ?N = "unat (buffer_size rb)"
  note D = rtrb_okD [OF ok] rtrb_count_le [OF ok]
  define off l where "off = (if len > buffer_size rb then unat (len - buffer_size rb) else 0)"
    and "l = (if len > buffer_size rb then buffer_size rb else len)"
  have offl: "(if len > buffer_size rb then (unat (len - buffer_size rb), buffer_size rb) else (0, len))
    = (off, l)" by (simp add: off_def l_def)
  have l: "unat l = n" using n by (auto simp: l_def rtrb_capacity_def word_less_nat_alt)
  then have ln: "l = of_nat n" by (rule unat_eq_of_nat)
  have off: "off = unat len - n"
    using n by (auto simp: off_def rtrb_capacity_def word_less_nat_alt unat_minus_le)
  let ?d = "drop off d" and ?x = "take n (drop off d)"
  have nd: "unat l \<le> length ?d" and offd: "off \<le> length d" and nc: "unat l \<le> rtrb_capacity rb"
    using d n l off by auto
  have lx: "length ?x = n" using nd l by simp
  have x: "?x = drop (unat len - n) (take (unat len) d)" using off n by (simp add: drop_take)
  have goal: "last_n (rtrb_capacity rb) (rtrb_contents rb @ ?x) =
      last_n (rtrb_capacity rb) (rtrb_contents rb @ take (unat len) d)"
  proof (cases "n = unat len")
    case True
    then show ?thesis using x by simp
  next
    case False
    then have "n = rtrb_capacity rb" "rtrb_capacity rb \<le> unat len" using n by auto
    then show ?thesis using x lx d by (simp add: last_n_append_long last_n_def)
  qed
  note st = rt_put_force_store [OF ok nc nd offd refl, unfolded l]
  let ?w = "to_u32 (write_index rb)"
  let ?w' = "if buffer_size rb - ?w > l then to_u31 (?w + l) else to_u31 (l - (buffer_size rb - ?w))"
  let ?wm = "if buffer_size rb - ?w > l then write_mirror rb else \<not> write_mirror rb"
  have mirror: "?wm = (if unat (write_index rb) + n < ?N then write_mirror rb else \<not> write_mirror rb)"
    using st(1) by simp
  show thesis
  proof (cases "n \<le> rtrb_capacity rb - rtrb_count rb")
    case True
    then have sp: "\<not> l > rt_ringbuffer_space_len rb"
      using rt_space_len_eq [OF ok] l by (simp add: word_less_nat_alt)
    have fits: "rtrb_count rb + n \<le> rtrb_capacity rb"
      using True D(7) by (simp add: rtrb_capacity_def)
    let ?rb' = "rb\<lparr>buffer_ptr := ring_store (buffer_ptr rb) (unat (write_index rb)) ?x,
      write_mirror := ?wm, write_index := ?w'\<rparr>"
    have res: "rt_ringbuffer_put_force rb d len = Some (?rb', l)"
      using st(3,4) sp l unfolding rt_ringbuffer_put_force_def offl Let_def
      by (cases "buffer_size rb - ?w > l") (auto simp: bind_eq_Some_conv)
    note app = rtrb_append [OF ok, of ?x, unfolded lx, OF fits st(2) mirror]
    have all: "last_n (rtrb_capacity rb) (rtrb_contents rb @ ?x) = rtrb_contents rb @ ?x"
      using fits lx by (simp add: last_n_def)
    show thesis
      by (rule that [of ?rb']) (simp_all only: res ln [symmetric] app goal [symmetric] all)
  next
    case False
    then have sp: "l > rt_ringbuffer_space_len rb"
      using rt_space_len_eq [OF ok] l by (simp add: word_less_nat_alt)
    let ?rm = "if buffer_size rb - ?w > l then read_mirror rb
      else if ?w' \<le> read_index rb then \<not> read_mirror rb else read_mirror rb"
    let ?rb' = "rb\<lparr>buffer_ptr := ring_store (buffer_ptr rb) (unat (write_index rb)) ?x,
      write_mirror := ?wm, write_index := ?w', read_mirror := ?rm, read_index := ?w'\<rparr>"
    have res: "rt_ringbuffer_put_force rb d len = Some (?rb', l)"
      using st(3,4) sp l unfolding rt_ringbuffer_put_force_def offl Let_def
      by (cases "buffer_size rb - ?w > l") (auto simp: bind_eq_Some_conv)
    have over: "length ?x \<le> rtrb_capacity rb" "rtrb_capacity rb < rtrb_count rb + length ?x"
      using nc l lx False by simp_all
    have rmir: "?rm = (if unat (write_index rb) + n < ?N then read_mirror rb
        else if ?w' \<le> read_index rb then \<not> read_mirror rb else read_mirror rb)"
      using st(1) by simp
    note app = rtrb_drop_append [OF ok over, unfolded lx, OF st(2) mirror rmir]
    show thesis
      by (rule that [of ?rb']) (simp_all only: res ln [symmetric] app goal [symmetric])
  qed
qed

lemma rt_putchar_force_spec:
  assumes ok: "rtrb_ok rb"
  shows "\<exists>rb'. rt_ringbuffer_putchar_force rb ch = Some (rb', 1) \<and> rtrb_ok rb'
    \<and> rtrb_contents rb' = last_n (rtrb_capacity rb) (rtrb_contents rb @ [ch])
    \<and> rtrb_capacity rb' = rtrb_capacity rb"
proof -
  note D = rtrb_okD [OF ok] rtrb_count_le [OF ok]
  let ?N = "unat (buffer_size rb)" and ?w = "unat (write_index rb)"
  let ?last = "?w + 1 = ?N"
  define w' where "w' = (if ?last then 0 else write_index rb + 1)"
  define m' where "m' = (if ?last then \<not> write_mirror rb else write_mirror rb)"
  have st: "mem_write (buffer_ptr rb) ?w [ch] = Some (ring_store (buffer_ptr rb) ?w [ch])"
    using D by (simp add: mem_simps ring_store_def Let_def)
  have w: "unat w' = (?w + length [ch]) mod ?N"
    using index_succ [OF ok, of "write_index rb"] D(4) by (auto simp: w'_def)
  have m: "m' = (if ?w + length [ch] < ?N then write_mirror rb else \<not> write_mirror rb)"
    using D(4) by (auto simp: m'_def)
  have full: "rt_ringbuffer_status rb = RT_RINGBUFFER_FULL \<longleftrightarrow> rtrb_count rb = rtrb_capacity rb"
    using D by (auto simp: rt_ringbuffer_status_def rtrb_count_def rtrb_capacity_def word_unat_eq_iff)
  show ?thesis
  proof (cases "rtrb_count rb = rtrb_capacity rb")
    case True
    then have over: "length [ch] \<le> rtrb_capacity rb" "rtrb_capacity rb < rtrb_count rb + length [ch]"
      using D(4) by (simp_all add: rtrb_capacity_def)
    define rm where "rm = (if ?last then \<not> read_mirror rb else read_mirror rb)"
    have rm: "rm = (if ?w + length [ch] < ?N then read_mirror rb
        else if w' \<le> read_index rb then \<not> read_mirror rb else read_mirror rb)"
      using D(4) by (auto simp: rm_def w'_def)
    have "rt_ringbuffer_putchar_force rb ch = Some (rb\<lparr>buffer_ptr := ring_store (buffer_ptr rb) ?w [ch],
        write_mirror := m', write_index := w', read_mirror := rm, read_index := w'\<rparr>, 1)"
      using st full True last_index_iff [OF ok D(4)]
      by (simp add: rt_ringbuffer_putchar_force_def w'_def m'_def rm_def)
    then show ?thesis using rtrb_drop_append [OF ok over w m rm] by blast
  next
    case False
    then have fits: "rtrb_count rb + length [ch] \<le> rtrb_capacity rb"
      using D(7) by (simp add: rtrb_capacity_def)
    have "rt_ringbuffer_putchar_force rb ch = Some (rb\<lparr>buffer_ptr := ring_store (buffer_ptr rb) ?w [ch],
        write_mirror := m', write_index := w'\<rparr>, 1)"
      using st full False last_index_iff [OF ok D(4)]
      by (simp add: rt_ringbuffer_putchar_force_def w'_def m'_def)
    moreover have "last_n (rtrb_capacity rb) (rtrb_contents rb @ [ch]) = rtrb_contents rb @ [ch]"
      using fits by (simp add: last_n_def)
    ultimately show ?thesis using rtrb_append [OF ok fits w m] by metis
  qed
qed

text \<open>\<open>rt_ringbuffer_peek\<close> consumes the linear block it hands out, which holds the oldest bytes.\<close>

lemma rt_peek_spec:
  assumes ok: "rtrb_ok rb"
    and n: "n = min (rtrb_count rb) (unat (buffer_size rb) - unat (read_index rb))"
  shows "rtrb_count rb = 0 \<Longrightarrow> rt_ringbuffer_peek rb = (rb, None, 0)"
    and "0 < rtrb_count rb \<Longrightarrow>
      \<exists>rb'. rt_ringbuffer_peek rb = (rb', Some (read_index rb), of_nat n) \<and> rtrb_ok rb' \<and> 0 < n
        \<and> mem_read (buffer_ptr rb) (unat (read_index rb)) n = Some (take n (rtrb_contents rb))
        \<and> rtrb_contents rb' = drop n (rtrb_contents rb) \<and> rtrb_capacity rb' = rtrb_capacity rb"
proof -
  note dl = rt_data_len_eq [OF ok]
  note D = rtrb_okD [OF ok] rtrb_count_le [OF ok]
  let ?N = "unat (buffer_size rb)" and ?r = "unat (read_index rb)"
  show "rtrb_count rb = 0 \<Longrightarrow> rt_ringbuffer_peek rb = (rb, None, 0)"
    using dl by (simp add: rt_ringbuffer_peek_def unat_eq_0)
  assume pos: "0 < rtrb_count rb"
  then have dl0: "rt_ringbuffer_data_len rb \<noteq> 0" using dl by auto
  have nc: "n \<le> rtrb_count rb" and n0: "0 < n" and lin: "?r + n \<le> ?N" using n pos D(3) by auto
  have rd: "mem_read (buffer_ptr rb) ?r n = Some (take n (rtrb_contents rb))"
    using D lin rtrb_contents_take [OF nc] by (simp add: mem_simps ring_slice_linear)
  have gap: "unat (buffer_size rb - to_u32 (read_index rb)) = ?N - ?r"
    using D(3) by (simp add: unat_minus_le)
  show "\<exists>rb'. rt_ringbuffer_peek rb = (rb', Some (read_index rb), of_nat n) \<and> rtrb_ok rb' \<and> 0 < n
      \<and> mem_read (buffer_ptr rb) (unat (read_index rb)) n = Some (take n (rtrb_contents rb))
      \<and> rtrb_contents rb' = drop n (rtrb_contents rb) \<and> rtrb_capacity rb' = rtrb_capacity rb"
  proof (cases "rtrb_count rb < ?N - ?r")
    case True
    then have len: "rt_ringbuffer_data_len rb = of_nat n" using dl n by (intro unat_eq_of_nat) simp
    have "unat (to_u32 (read_index rb) + rt_ringbuffer_data_len rb) = ?r + n"
      using True D(2) dl n by (simp add: unat_add_small)
    then have r': "unat (to_u31 (to_u32 (read_index rb) + rt_ringbuffer_data_len rb)) = (?r + n) mod ?N"
      using True D(2) n by (simp add: unat_to_u31)
    have m: "read_mirror rb = (if ?r + n < ?N then read_mirror rb else \<not> read_mirror rb)"
      using True n by simp
    have "rt_ringbuffer_peek rb = (rb\<lparr>read_mirror := read_mirror rb,
        read_index := to_u31 (to_u32 (read_index rb) + rt_ringbuffer_data_len rb)\<rparr>,
        Some (read_index rb), rt_ringbuffer_data_len rb)"
      using dl0 True gap dl by (simp add: rt_ringbuffer_peek_def Let_def word_less_nat_alt)
    then show ?thesis using rtrb_drop [OF ok nc r' m] rd n0 len by auto
  next
    case False
    then have nr: "n = ?N - ?r" using n by simp
    then have len: "buffer_size rb - to_u32 (read_index rb) = of_nat n"
      using gap by (intro unat_eq_of_nat) simp
    have r': "unat (0 :: 31 word) = (?r + n) mod ?N" using nr D(3) by simp
    have m: "(\<not> read_mirror rb) = (if ?r + n < ?N then read_mirror rb else \<not> read_mirror rb)"
      using nr D(3) by simp
    have "rt_ringbuffer_peek rb = (rb\<lparr>read_mirror := \<not> read_mirror rb, read_index := 0\<rparr>,
        Some (read_index rb), buffer_size rb - to_u32 (read_index rb))"
      using dl0 False gap dl by (simp add: rt_ringbuffer_peek_def Let_def word_less_nat_alt)
    then show ?thesis using rtrb_drop [OF ok nc r' m] rd n0 len by auto
  qed
qed

lemma rt_init_spec:
  assumes "0 < unat sz" and "8 dvd unat sz" and "unat sz < 2 ^ 31" and "length pool = unat sz"
  shows "\<exists>rb'. rt_ringbuffer_init rb pool sz = Some rb' \<and> rtrb_ok rb' \<and> rtrb_contents rb' = []
    \<and> rtrb_capacity rb' = unat sz"
proof -
  have "unat (RT_ALIGN_DOWN sz RT_ALIGN_SIZE) = unat sz" using assms(2) by (simp add: unat_RT_ALIGN_DOWN RT_ALIGN_SIZE_def)
  moreover have "sint sz > 0"
  proof -
    have "0 < int (unat sz)" using assms(1) by (simp only: of_nat_0_less_iff)
    then show ?thesis unfolding sint_small32 [OF assms(3)] by simp
  qed
  ultimately show ?thesis
    using assms
    by (simp add: rt_ringbuffer_init_def rtrb_ok_def rtrb_contents_def rtrb_count_def rtrb_capacity_def)
qed

section \<open>The queue contract\<close>

definition rtrb_put :: "rt_ringbuffer \<Rightarrow> bytes \<Rightarrow> (rt_ringbuffer \<times> nat) option" where
  "rtrb_put rb xs = do {
     (rb, n) \<leftarrow> rt_ringbuffer_put rb xs (of_nat (length xs));
     Some (rb, unat n) }"

definition rtrb_get :: "rt_ringbuffer \<Rightarrow> nat \<Rightarrow> (rt_ringbuffer \<times> bytes) option" where
  "rtrb_get rb k = do {
     (rb, d, n) \<leftarrow> rt_ringbuffer_get rb (replicate k 0) (of_nat k);
     Some (rb, take (unat n) d) }"

lemma rtrb_put_law:
  assumes ok: "rtrb_ok rb" and "length xs < 2 ^ 31"
  shows "\<exists>rb'. rtrb_put rb xs =
      Some (rb', min (length xs) (rtrb_capacity rb - length (rtrb_contents rb)))
    \<and> rtrb_ok rb' \<and> rtrb_capacity rb' = rtrb_capacity rb
    \<and> rtrb_contents rb' = rtrb_contents rb @ take (rtrb_capacity rb - length (rtrb_contents rb)) xs"
proof -
  let ?n = "min (rtrb_capacity rb - rtrb_count rb) (length xs)"
  have l: "unat (of_nat (length xs) :: u32) = length xs" using assms by (simp add: unat_of_nat32)
  obtain rb' where "rt_ringbuffer_put rb xs (of_nat (length xs)) = Some (rb', of_nat ?n)"
    "rtrb_ok rb'" "rtrb_contents rb' = rtrb_contents rb @ take ?n xs"
    "rtrb_capacity rb' = rtrb_capacity rb"
    using rt_put_spec [OF ok, of "of_nat (length xs)" xs ?n] l by auto
  moreover have "unat (of_nat ?n :: u32) = ?n" using assms by (intro unat_of_nat32) simp
  moreover have "take ?n xs = take (rtrb_capacity rb - rtrb_count rb) xs" by (simp add: min_def)
  ultimately show ?thesis by (simp add: rtrb_put_def min.commute)
qed

lemma rtrb_get_law:
  assumes ok: "rtrb_ok rb" and "k < 2 ^ 31"
  shows "\<exists>rb'. rtrb_get rb k = Some (rb', take k (rtrb_contents rb))
    \<and> rtrb_ok rb' \<and> rtrb_capacity rb' = rtrb_capacity rb
    \<and> rtrb_contents rb' = drop k (rtrb_contents rb)"
proof -
  let ?n = "min (rtrb_count rb) k"
  have k: "unat (of_nat k :: u32) = k" using assms by (simp add: unat_of_nat32)
  obtain rb' where "rt_ringbuffer_get rb (replicate k 0) (of_nat k) =
      Some (rb', patch_at (replicate k 0) 0 (take ?n (rtrb_contents rb)), of_nat ?n)"
    "rtrb_ok rb'" "rtrb_contents rb' = drop ?n (rtrb_contents rb)"
    "rtrb_capacity rb' = rtrb_capacity rb"
    using rt_get_spec [OF ok, of ?n "of_nat k" "replicate k 0"] k by auto
  moreover have "unat (of_nat ?n :: u32) = ?n" using assms by (intro unat_of_nat32) simp
  moreover have "drop ?n (rtrb_contents rb) = drop k (rtrb_contents rb)"
    "take ?n (rtrb_contents rb) = take k (rtrb_contents rb)"
    by (simp_all add: min_def)
  ultimately show ?thesis by (simp add: rtrb_get_def patch_at_def)
qed

interpretation rtq: byte_fifo rtrb_ok rtrb_contents rtrb_capacity rtrb_put rtrb_get
proof unfold_locales
  show "rtrb_ok q \<Longrightarrow> length (rtrb_contents q) \<le> rtrb_capacity q" for q
    using rtrb_count_le [of q] by (simp add: rtrb_capacity_def)
qed (fact rtrb_put_law, fact rtrb_get_law)

section \<open>Properties\<close>

text \<open>A buffer of eight bytes that holds six, wrapped around the end of its storage.\<close>

definition rtrb_example :: rt_ringbuffer where
  "rtrb_example = \<lparr>buffer_ptr = [12, 13, 14, 15, 0, 0, 10, 11], read_mirror = False, read_index = 6,
     write_mirror = True, write_index = 4, buffer_size = 8\<rparr>"

lemma rtrb_example_ok: "rtrb_ok rtrb_example"
  by (simp add: rtrb_ok_def rtrb_example_def)

lemma rtrb_example_contents: "rtrb_contents rtrb_example = [10, 11, 12, 13, 14, 15]"
  by (simp add: rtrb_contents_def rtrb_count_def rtrb_example_def ring_slice_def upt_rec)

lemma rtrb_example_count: "rtrb_count rtrb_example = 6" and rtrb_example_capacity: "rtrb_capacity rtrb_example = 8"
  by (simp_all add: rtrb_count_def rtrb_capacity_def rtrb_example_def)

lemmas rtrb_example_facts =
  rtrb_example_ok rtrb_example_contents rtrb_example_count rtrb_example_capacity

text \<open>
  C13: over any sequence of \<open>rt_ringbuffer_put\<close> and \<open>rt_ringbuffer_get\<close> of less than \<open>2 ^ 31\<close> bytes each
  the RT-Thread ring buffer refines a queue of exactly \<open>buffer_size\<close> bytes: every put accepts all
  the bytes there is room for, up to the last byte of the storage, every get delivers the oldest
  bytes, no access leaves the storage, the index and mirror invariant holds throughout, and no
  accepted byte is lost, duplicated or reordered.
\<close>

theorem rt_ringbuffer_fifo_order:
  assumes "rtrb_ok rb" and "list_all op_small ops"
  shows "\<exists>rb' acc del. fifo_run rtrb_put rtrb_get ops rb = Some (rb', acc, del) \<and> rtrb_ok rb'
    \<and> buffer_size rb' = buffer_size rb
    \<and> fifo_spec (unat (buffer_size rb)) ops (rtrb_contents rb) = (rtrb_contents rb', acc, del)
    \<and> rtrb_contents rb @ acc = del @ rtrb_contents rb'"
proof -
  obtain rb' acc del where r: "fifo_run rtrb_put rtrb_get ops rb = Some (rb', acc, del)" "rtrb_ok rb'"
    "rtrb_capacity rb' = rtrb_capacity rb"
    "fifo_spec (rtrb_capacity rb) ops (rtrb_contents rb) = (rtrb_contents rb', acc, del)"
    using rtq.run_spec [OF assms] by blast
  then show ?thesis using fifo_spec_order [OF r(4)]
    by (intro exI [of _ rb'] exI [of _ acc] exI [of _ del]) (simp add: rtrb_capacity_def word_unat_eq_iff)
qed

theorem rt_ringbuffer_fifo_order_witness:
  "\<exists>rb'. fifo_run rtrb_put rtrb_get [Put [1, 2, 3], Get 4, Put [5]] rtrb_example =
      Some (rb', [1, 2, 5], [10, 11, 12, 13])
    \<and> rtrb_ok rb' \<and> rtrb_contents rb' = [14, 15, 1, 2, 5]"
proof -
  have "buffer_size rtrb_example = 8" by (simp add: rtrb_example_def)
  then show ?thesis
    using rt_ringbuffer_fifo_order [of rtrb_example "[Put [1, 2, 3], Get 4, Put [5]]"]
    by (auto simp: rtrb_example_facts Let_def)
qed

text \<open>
  C23: \<open>rt_ringbuffer_put_force\<close> stores every request: afterwards the buffer holds the newest bytes
  of the old contents followed by the data, up to its size, whether the write wraps around or the
  read position has to move, and it reports the number of bytes copied.
\<close>

theorem rt_ringbuffer_put_force_newest:
  assumes "rtrb_ok rb" and "unat len \<le> length d"
  shows "\<exists>rb'. rt_ringbuffer_put_force rb d len = Some (rb', of_nat (min (rtrb_capacity rb) (unat len)))
    \<and> rtrb_ok rb' \<and> rtrb_capacity rb' = rtrb_capacity rb
    \<and> rtrb_contents rb' = last_n (rtrb_capacity rb) (rtrb_contents rb @ take (unat len) d)"
  using rt_put_force_spec [OF assms refl] by metis

theorem rt_ringbuffer_put_force_newest_witness:
  "\<exists>rb'. rt_ringbuffer_put_force rtrb_example [1, 2, 3, 4, 5] 5 = Some (rb', 5) \<and> rtrb_ok rb'
    \<and> rtrb_contents rb' = [13, 14, 15, 1, 2, 3, 4, 5]"
  using rt_ringbuffer_put_force_newest [of rtrb_example 5 "[1, 2, 3, 4, 5]"]
  by (auto simp: rtrb_example_facts last_n_def)

text \<open>
  the single-byte operations agree with the block operations: \<open>rt_ringbuffer_putchar\<close> appends
  the byte or reports 0 when the buffer is full, \<open>rt_ringbuffer_putchar_force\<close> always appends it
  and gives up the oldest byte when it must, and \<open>rt_ringbuffer_getchar\<close> removes the oldest byte.
\<close>

theorem rt_ringbuffer_single_bytes:
  assumes "rtrb_ok rb"
  shows "(if length (rtrb_contents rb) = rtrb_capacity rb then rt_ringbuffer_putchar rb ch = Some (rb, 0)
      else \<exists>rb'. rt_ringbuffer_putchar rb ch = Some (rb', 1) \<and> rtrb_ok rb'
        \<and> rtrb_contents rb' = rtrb_contents rb @ [ch])
    \<and> (\<exists>rb'. rt_ringbuffer_putchar_force rb ch = Some (rb', 1) \<and> rtrb_ok rb'
        \<and> rtrb_contents rb' = last_n (rtrb_capacity rb) (rtrb_contents rb @ [ch]))
    \<and> (case rtrb_contents rb of
         [] \<Rightarrow> rt_ringbuffer_getchar rb = Some (rb, None, 0)
       | x # xs \<Rightarrow> \<exists>rb'. rt_ringbuffer_getchar rb = Some (rb', Some x, 1) \<and> rtrb_ok rb'
           \<and> rtrb_contents rb' = xs)"
proof (intro conjI)
  show "if length (rtrb_contents rb) = rtrb_capacity rb then rt_ringbuffer_putchar rb ch = Some (rb, 0)
      else \<exists>rb'. rt_ringbuffer_putchar rb ch = Some (rb', 1) \<and> rtrb_ok rb'
        \<and> rtrb_contents rb' = rtrb_contents rb @ [ch]"
    using rt_putchar_spec [OF assms, of ch] rtrb_count_le [OF assms]
    by (auto simp: rtrb_capacity_def)
  show "\<exists>rb'. rt_ringbuffer_putchar_force rb ch = Some (rb', 1) \<and> rtrb_ok rb'
      \<and> rtrb_contents rb' = last_n (rtrb_capacity rb) (rtrb_contents rb @ [ch])"
    using rt_putchar_force_spec [OF assms, of ch] by blast
  show "case rtrb_contents rb of
         [] \<Rightarrow> rt_ringbuffer_getchar rb = Some (rb, None, 0)
       | x # xs \<Rightarrow> \<exists>rb'. rt_ringbuffer_getchar rb = Some (rb', Some x, 1) \<and> rtrb_ok rb'
           \<and> rtrb_contents rb' = xs"
  proof (cases "rtrb_contents rb")
    case Nil
    then have "rtrb_count rb = 0" by (metis length_rtrb_contents list.size(3))
    then show ?thesis using Nil rt_getchar_spec(1) [OF assms] by simp
  next
    case (Cons x xs)
    then have "0 < rtrb_count rb" by (metis length_rtrb_contents length_greater_0_conv list.distinct(1))
    then show ?thesis using Cons rt_getchar_spec(2) [OF assms] by simp blast
  qed
qed

theorem rt_ringbuffer_single_bytes_witness:
  "(\<exists>rb'. rt_ringbuffer_putchar rtrb_example 7 = Some (rb', 1)
      \<and> rtrb_contents rb' = [10, 11, 12, 13, 14, 15, 7])
    \<and> (\<exists>rb'. rt_ringbuffer_getchar rtrb_example = Some (rb', Some 10, 1)
      \<and> rtrb_contents rb' = [11, 12, 13, 14, 15])"
  using rt_ringbuffer_single_bytes [OF rtrb_example_ok, of 7] by (auto simp: rtrb_example_facts)

text \<open>
  A size below the alignment passes the assertion of \<open>rt_ringbuffer_init\<close> and is rounded down to 0.
  Forced single-byte puts then walk through the pool and past its end.
\<close>

lemma rt_ringbuffer_tiny_init:
  "\<exists>rb. rt_ringbuffer_init rtrb_example [0, 0] 2 = Some rb \<and> buffer_size rb = 0
    \<and> (do { (rb, _) \<leftarrow> rt_ringbuffer_putchar_force rb 1;
            (rb, _) \<leftarrow> rt_ringbuffer_putchar_force rb 2;
            rt_ringbuffer_putchar_force rb 3 }) = None"
  by (simp add: rt_ringbuffer_init_def RT_ALIGN_DOWN_def RT_ALIGN_SIZE_def rtrb_example_def
      rt_ringbuffer_putchar_force_def rt_ringbuffer_status_def mem_write_def patch_at_def to_u32_def Let_def)

end
