(* ===== verification/Rt_Errors.thy ===== *)
theory Rt_Errors
  imports Main
begin

text \<open>
  The error codes of the kernel (\<open>rt-thread/include/rtdef.h\<close>) that the semaphore and the RS485
  driver return. In the source they are negated numbers whose values depend on the C library of the
  build.
\<close>

datatype rt_err = RT_EOK | RT_ERROR | RT_ETIMEOUT | RT_EINTR | RT_EINVAL

end
