(* ===== verification/Rs485.thy ===== *)
theory Rs485
  imports Lwrb Rt_Errors
begin

text \<open>
  The RS485 driver of the application (\<open>applications/rs485.c\<close>, \<open>rs485.h\<close>): UART3 with a direction
  pin for the half-duplex transceiver. The receive callback drains the UART into an LwRB buffer and
  releases a semaphore; \<open>rs485_recv\<close> takes the semaphore and reads the buffer; \<open>rs485_send\<close> switches
  the transceiver to transmit, writes, waits for the computed transmission time and switches back.

  The UART device and the pin driver are the environment: their calls are recorded in order in
  \<open>rs_trace\<close>, and the results of the calls that can fail are arguments. The bytes the UART holds
  when the callback runs are an argument of the callback. \<open>int\<close> results are a sum: \<open>Inl\<close> is a
  negative error code, \<open>Inr n\<close> the count \<open>n\<close>.
\<close>

section \<open>Data\<close>

datatype rs485_act =
    Act_close
  | Act_find
  | Act_config u32
  | Act_open
  | Act_set_rx_indicate
  | Act_pin_mode
  | Act_pin bool
  | Act_write bytes
  | Act_us_delay u32
  | Act_mdelay u32

definition RS485_RX_BUF_SIZE :: u32 where "RS485_RX_BUF_SIZE = 512"

definition RS485_FRAME_SIZE :: u16 where "RS485_FRAME_SIZE = 256"

text \<open>
  The file's static variables. \<open>rs485_dev\<close> is open or \<open>RT_NULL\<close>; \<open>rx_sem\<close> is the value of the
  semaphore.
\<close>

record rs485 =
  rs485_dev :: bool
  rs485_baudrate :: u32
  rx_rb :: lwrb
  rx_sem :: nat
  rs_trace :: "rs485_act list"

definition emit :: "rs485_act list \<Rightarrow> rs485 \<Rightarrow> rs485" where
  "emit acts st = st\<lparr>rs_trace := rs_trace st @ acts\<rparr>"

section \<open>Hex strings\<close>

definition hex_char_to_nibble :: "u8 \<Rightarrow> int" where
  "hex_char_to_nibble c =
     (if c \<ge> 0x30 \<and> c \<le> 0x39 then uint c - 0x30
      else if c \<ge> 0x61 \<and> c \<le> 0x66 then uint c - 0x61 + 10
      else if c \<ge> 0x41 \<and> c \<le> 0x46 then uint c - 0x41 + 10
      else -1)"

definition hex_separator :: "u8 \<Rightarrow> bool" where
  "hex_separator c = (c = 0x20 \<or> c = 0x09 \<or> c = 0x2C \<or> c = 0x2D)"

text \<open>
  The string is an object \<open>hex\<close> that holds a terminating 0; \<open>i\<close> is the position of the pointer.
  \<open>hex_skip\<close> is the inner loop over separators.
\<close>

function hex_skip :: "bytes \<Rightarrow> nat \<Rightarrow> nat option" where
  "hex_skip hex i =
     (if i < length hex then (if hex_separator (hex ! i) then hex_skip hex (i + 1) else Some i)
      else None)"
  by pat_completeness auto
termination by (relation "measure (\<lambda>(hex, i). length hex - i)") auto

declare hex_skip.simps [simp del]

lemma hex_skip_ge: "hex_skip hex i = Some j \<Longrightarrow> i \<le> j \<and> j < length hex"
proof (induction hex i rule: hex_skip.induct)
  case (1 hex i)
  then show ?case by (subst (asm) hex_skip.simps) (auto split: if_splits)
qed

function hex_loop :: "bytes \<Rightarrow> bytes \<Rightarrow> nat \<Rightarrow> nat \<Rightarrow> nat \<Rightarrow> (bytes \<times> nat) option" where
  "hex_loop hex out max_len i len =
     (if i < length hex then
        if hex ! i = 0 \<or> \<not> len < max_len then Some (out, len)
        else
          (case hex_skip hex i of
             None \<Rightarrow> None
           | Some i \<Rightarrow>
               if hex ! i = 0 then Some (out, len)
               else if hex_char_to_nibble (hex ! i) < 0 then Some (out, len)
               else if i + 1 < length hex then
                 if hex_char_to_nibble (hex ! (i + 1)) < 0 then Some (out, len)
                 else
                   (case mem_write out len
                      [word_of_int (or (push_bit 4 (hex_char_to_nibble (hex ! i)))
                                       (hex_char_to_nibble (hex ! (i + 1))))] of
                      None \<Rightarrow> None
                    | Some out \<Rightarrow> hex_loop hex out max_len (i + 2) (len + 1))
               else None)
      else None)"
  by pat_completeness auto
termination
  by (relation "measure (\<lambda>(hex, out, max_len, i, len). length hex - i)") (auto dest: hex_skip_ge)

declare hex_loop.simps [simp del]

definition hex_str_to_bytes :: "bytes option \<Rightarrow> bytes option \<Rightarrow> u16 \<Rightarrow> (bytes option \<times> nat) option" where
  "hex_str_to_bytes hex out max_len =
     (case (hex, out) of
        (Some h, Some out') \<Rightarrow>
          if max_len = 0 then Some (out, 0)
          else map_option (\<lambda>(out, n). (Some out, n)) (hex_loop h out' (unat max_len) 0 0)
      | _ \<Rightarrow> Some (out, 0))"

section \<open>Transmission\<close>

definition rs485_dir_tx :: "rs485 \<Rightarrow> rs485" where
  "rs485_dir_tx st = emit [Act_pin True] st"

definition rs485_dir_rx :: "rs485 \<Rightarrow> rs485" where
  "rs485_dir_rx st = emit [Act_pin False] st"

definition rs485_wait_tx_complete :: "u16 \<Rightarrow> u32 \<Rightarrow> rs485 \<Rightarrow> rs485" where
  "rs485_wait_tx_complete len baudrate st =
     (if len = 0 \<or> baudrate = 0 then st
      else
        let total_bits = (ucast len + 1) * 10 :: u32;
            delay_us = (total_bits * 1000000 + baudrate - 1) div baudrate
        in if delay_us < 1000 then emit [Act_us_delay delay_us] st
           else emit [Act_mdelay ((delay_us + 999) div 1000)] st)"

section \<open>Reception\<close>

text \<open>
  The callback reads one byte at a time until the UART has none. A full buffer refuses the byte,
  which is then lost. The semaphore value saturates at \<open>RT_SEM_VALUE_MAX\<close>.
\<close>

fun rx_drain :: "bytes \<Rightarrow> lwrb \<Rightarrow> lwrb option" where
  "rx_drain [] rb = Some rb"
| "rx_drain (ch # chs) rb = do {
     (b, n) \<leftarrow> lwrb_write (Some rb) (Some [ch]) 1;
     rb \<leftarrow> b;
     rx_drain chs rb }"

definition RT_SEM_VALUE_MAX :: nat where "RT_SEM_VALUE_MAX = 65535"

definition rs485_rx_ind :: "bool \<Rightarrow> bytes \<Rightarrow> rs485 \<Rightarrow> (rs485 \<times> rt_err) option" where
  "rs485_rx_ind dev chs st =
     (if \<not> dev then Some (st, RT_ERROR)
      else do {
        rb \<leftarrow> rx_drain chs (rx_rb st);
        Some (st\<lparr>rx_rb := rb, rx_sem := min (rx_sem st + 1) RT_SEM_VALUE_MAX\<rparr>, RT_EOK)
      })"

text \<open>
  Taking the semaphore: a positive value is taken at once. Otherwise the thread waits, and what
  happens first is an argument: the callback runs with the given bytes and wakes the thread (its
  release hands over the token), or the wait ends with an error code.
\<close>

datatype wait = Woken bytes | Wait_error rt_err

definition rs485_sem_take :: "wait \<Rightarrow> rs485 \<Rightarrow> (rs485 \<times> rt_err) option" where
  "rs485_sem_take w st =
     (if rx_sem st > 0 then Some (st\<lparr>rx_sem := rx_sem st - 1\<rparr>, RT_EOK)
      else (case w of
              Woken chs \<Rightarrow> do { rb \<leftarrow> rx_drain chs (rx_rb st); Some (st\<lparr>rx_rb := rb\<rparr>, RT_EOK) }
            | Wait_error e \<Rightarrow> Some (st, e)))"

section \<open>Interface functions\<close>

record rs485_env =
  env_find :: bool
  env_config :: bool
  env_open :: bool

definition rs485_init :: "rs485_env \<Rightarrow> u32 \<Rightarrow> rs485 \<Rightarrow> rs485 \<times> (rt_err + nat)" where
  "rs485_init env baudrate st =
     (let st = (if rs485_dev st then (emit [Act_close] st)\<lparr>rs485_dev := False\<rparr> else st);
          st = emit [Act_find] st
      in if \<not> env_find env then (st\<lparr>rs485_dev := False\<rparr>, Inl RT_ERROR)
         else
           let st = emit [Act_config baudrate] (st\<lparr>rs485_dev := True\<rparr>)
           in if \<not> env_config env then (st\<lparr>rs485_dev := False\<rparr>, Inl RT_ERROR)
              else
                let st = emit [Act_open] st
                in if \<not> env_open env then (st\<lparr>rs485_dev := False\<rparr>, Inl RT_ERROR)
                   else
                     let st = emit [Act_set_rx_indicate, Act_pin_mode] st;
                         st = rs485_dir_rx st;
                         rb = fst (lwrb_init (Some (rx_rb st))
                                (Some (case lw_buff (rx_rb st) of
                                         None \<Rightarrow> replicate (unat RS485_RX_BUF_SIZE) 0 | Some m \<Rightarrow> m))
                                RS485_RX_BUF_SIZE)
                     in (st\<lparr>rx_rb := the rb, rx_sem := 0, rs485_baudrate := baudrate\<rparr>, Inr 0))"

definition rs485_send :: "bytes option \<Rightarrow> u16 \<Rightarrow> rs485 \<Rightarrow> (rs485 \<times> (rt_err + nat)) option" where
  "rs485_send data len st =
     (case data of
        None \<Rightarrow> Some (st, Inl RT_ERROR)
      | Some d \<Rightarrow>
          if \<not> rs485_dev st \<or> len = 0 then Some (st, Inl RT_ERROR)
          else do {
            let st = rs485_dir_tx st;
            xs \<leftarrow> mem_read d 0 (unat len);
            let st = emit [Act_write xs] st;
            let st = rs485_wait_tx_complete len (rs485_baudrate st) st;
            let st = rs485_dir_rx st;
            Some (st, Inr (unat len))
          })"

definition rs485_recv ::
  "bytes option \<Rightarrow> u16 \<Rightarrow> wait \<Rightarrow> rs485 \<Rightarrow> (rs485 \<times> bytes option \<times> (rt_err + nat)) option" where
  "rs485_recv buf max_len w st =
     (if \<not> rs485_dev st \<or> buf = None \<or> max_len = 0 then Some (st, buf, Inl RT_ERROR)
      else do {
        (st, err) \<leftarrow> rs485_sem_take w st;
        if err \<noteq> RT_EOK \<and> err \<noteq> RT_ETIMEOUT then Some (st, buf, Inl RT_ERROR)
        else do {
          (b, buf, n) \<leftarrow> lwrb_read (Some (rx_rb st)) buf (ucast max_len);
          rb \<leftarrow> b;
          Some (st\<lparr>rx_rb := rb\<rparr>, buf, Inr (unat n))
        }
      })"

definition rs485_send_then_recv ::
  "bytes option \<Rightarrow> u16 \<Rightarrow> bytes option \<Rightarrow> u16 \<Rightarrow> wait \<Rightarrow> rs485
   \<Rightarrow> (rs485 \<times> bytes option \<times> (rt_err + nat)) option" where
  "rs485_send_then_recv tx_buf tx_len rx_buf max_rx_len w st = do {
     (st, ret) \<leftarrow> rs485_send tx_buf tx_len st;
     (case ret of
        Inl e \<Rightarrow> Some (st, rx_buf, Inl e)
      | Inr _ \<Rightarrow> rs485_recv rx_buf max_rx_len w st) }"

section \<open>The shell command\<close>

text \<open>
  The arguments are joined with blanks into a zeroed array of 256 characters; the copies are
  bounded by the room that is left. Strings are lists without the terminating 0.
\<close>

definition cat_bounded :: "bytes \<Rightarrow> bytes \<Rightarrow> bytes" where
  "cat_bounded s arg = s @ take (255 - length s) arg"

fun cmd_join :: "bytes list \<Rightarrow> bytes \<Rightarrow> bytes" where
  "cmd_join [] s = s"
| "cmd_join [a] s = cat_bounded s a"
| "cmd_join (a # as) s = cmd_join as (cat_bounded (cat_bounded s a) [0x20])"

datatype cmd_result = Cmd_usage | Cmd_invalid_hex | Cmd_failed bytes rt_err | Cmd_done bytes bytes

definition rs485_send_cmd :: "bytes list \<Rightarrow> wait \<Rightarrow> rs485 \<Rightarrow> (rs485 \<times> cmd_result) option" where
  "rs485_send_cmd args w st =
     (if args = [] then Some (st, Cmd_usage)
      else do {
        let hex_str = cmd_join args [];
        (out, tx_len) \<leftarrow> hex_str_to_bytes (Some (hex_str @ replicate (256 - length hex_str) 0))
                           (Some (replicate (unat RS485_FRAME_SIZE) 0)) RS485_FRAME_SIZE;
        tx_buf \<leftarrow> out;
        if tx_len = 0 then Some (st, Cmd_invalid_hex)
        else do {
          (st, rx, ret) \<leftarrow> rs485_send_then_recv (Some tx_buf) (of_nat tx_len)
                             (Some (replicate (unat RS485_FRAME_SIZE) 0)) RS485_FRAME_SIZE w st;
          rx_buf \<leftarrow> rx;
          Some (st, case ret of
                      Inl e \<Rightarrow> Cmd_failed (take tx_len tx_buf) e
                    | Inr rx_len \<Rightarrow> Cmd_done (take tx_len tx_buf) (take rx_len rx_buf))
        }
      })"

section \<open>Lemmas: hex strings\<close>

text \<open>The output format \<open>" %02X"\<close> of the shell command.\<close>

definition hex_digit :: "int \<Rightarrow> u8" where
  "hex_digit k = (if k < 10 then 0x30 + word_of_int k else 0x41 + word_of_int (k - 10))"

definition hex_byte :: "u8 \<Rightarrow> bytes" where
  "hex_byte b = [0x20, hex_digit (uint b div 16), hex_digit (uint b mod 16)]"

definition hex_print :: "bytes \<Rightarrow> bytes" where
  "hex_print bs = concat (map hex_byte bs)"

lemma nibble_range:
  assumes "0 \<le> k" and "k < 16"
  shows "k = 0 \<or> k = 1 \<or> k = 2 \<or> k = 3 \<or> k = 4 \<or> k = 5 \<or> k = 6 \<or> k = 7 \<or> k = 8
    \<or> k = 9 \<or> k = 10 \<or> k = 11 \<or> k = 12 \<or> k = 13 \<or> k = 14 \<or> k = (15 :: int)"
  using assms by arith

lemma nibble_hex_digit:
  assumes "0 \<le> k" and "k < 16"
  shows "hex_char_to_nibble (hex_digit k) = k" and "hex_digit k \<noteq> 0"
    and "\<not> hex_separator (hex_digit k)"
  using nibble_range [OF assms]
  by (elim disjE; simp add: hex_char_to_nibble_def hex_digit_def hex_separator_def)+

lemma nibbles_byte: "word_of_int (or (push_bit 4 (uint b div 16)) (uint b mod 16)) = (b :: u8)"
proof -
  have "or (push_bit 4 (drop_bit 4 (uint b))) (take_bit 4 (uint b)) = uint b"
    by (rule bit_eqI) (auto simp: bit_simps)
  then have "or (push_bit 4 (uint b div 16)) (uint b mod 16) = uint b"
    by (simp add: drop_bit_eq_div take_bit_eq_mod)
  then show ?thesis by simp
qed

lemma hex_loop_print:
  assumes "len \<le> max_len" and "max_len \<le> length out"
  shows "hex_loop (pre @ hex_print bs @ 0 # rest) out max_len (length pre) len =
    Some (patch_at out len (take (max_len - len) bs), len + min (max_len - len) (length bs))"
  using assms
proof (induction bs arbitrary: pre out len)
  case Nil
  then show ?case by (subst hex_loop.simps) (simp add: hex_print_def)
next
  case (Cons b bs)
  define hex where "hex = pre @ hex_print (b # bs) @ 0 # rest"
  let ?h = "hex_digit (uint b div 16)" and ?l = "hex_digit (uint b mod 16)"
  have hex: "hex = (pre @ [0x20, ?h, ?l]) @ hex_print bs @ 0 # rest"
    by (simp add: hex_def hex_print_def hex_byte_def)
  have nth: "hex ! length pre = 0x20" "hex ! Suc (length pre) = ?h"
    "hex ! Suc (Suc (length pre)) = ?l" "Suc (Suc (length pre)) < length hex"
    by (simp_all add: hex nth_append)
  have range: "0 \<le> uint b div 16" "uint b div 16 < 16" "0 \<le> uint b mod 16" "uint b mod 16 < 16"
    using unsigned_less [of b, where 'a = int] by (simp_all add: pos_imp_zdiv_nonneg_iff)
  note dig = nibble_hex_digit [OF range(1,2)] nibble_hex_digit [OF range(3,4)]
  have "hex_loop hex out max_len (length pre) len =
      Some (patch_at out len (take (max_len - len) (b # bs)), len + min (max_len - len) (length (b # bs)))"
  proof (cases "len < max_len")
    case False
    then have "len = max_len" using Cons.prems by simp
    then show ?thesis using nth by (subst hex_loop.simps) simp
  next
    case True
    have "hex_skip hex (length pre) = hex_skip hex (Suc (length pre))"
      using nth by (subst hex_skip.simps) (simp add: hex_separator_def)
    also have "\<dots> = Some (Suc (length pre))"
      using nth dig(3) by (subst hex_skip.simps) simp
    finally have skip: "hex_skip hex (length pre) = Some (Suc (length pre))" .
    have wr: "mem_write out len [b] = Some (patch_at out len [b])"
      using True Cons.prems by (simp add: mem_simps)
    have ih: "hex_loop ((pre @ [0x20, ?h, ?l]) @ hex_print bs @ 0 # rest) (patch_at out len [b]) max_len
        (length (pre @ [0x20, ?h, ?l])) (Suc len) =
      Some (patch_at (patch_at out len [b]) (Suc len) (take (max_len - Suc len) bs),
        Suc len + min (max_len - Suc len) (length bs))"
      by (rule Cons.IH) (use True Cons.prems in simp_all)
    have patch: "patch_at (patch_at out len [b]) (Suc len) (take (max_len - Suc len) bs) =
        patch_at out len (take (max_len - len) (b # bs))"
    proof -
      have "take (max_len - len) (b # bs) = [b] @ take (max_len - Suc len) bs"
        using True by (simp add: take_Cons' Suc_diff_Suc)
      then show ?thesis
        using patch_at_append [of len "[b]" "take (max_len - Suc len) bs" out] True Cons.prems by simp
    qed
    have "hex_loop hex out max_len (length pre) len =
        hex_loop hex (patch_at out len [b]) max_len (Suc (Suc (Suc (length pre)))) (Suc len)"
      using nth True skip dig wr
      by (subst hex_loop.simps) (simp add: nibbles_byte range(1,3) [THEN leD])
    also have "\<dots> = Some (patch_at out len (take (max_len - len) (b # bs)),
        len + min (max_len - len) (length (b # bs)))"
      using ih [folded hex] patch True by (simp add: Suc_diff_Suc flip: min_Suc_Suc)
    finally show ?thesis .
  qed
  then show ?case unfolding hex_def .
qed

lemma hex_skip_nul:
  assumes "k < length hex" and "hex ! k = 0" and "i \<le> k"
  shows "\<exists>j. hex_skip hex i = Some j \<and> j \<le> k"
  using assms
proof (induction hex i rule: hex_skip.induct)
  case (1 hex i)
  show ?case
  proof (cases "hex_separator (hex ! i)")
    case True
    then have "i \<noteq> k" using "1.prems" by (auto simp: hex_separator_def)
    then show ?thesis using 1 True by (subst hex_skip.simps) simp
  next
    case False
    then show ?thesis using "1.prems" by (subst hex_skip.simps) simp
  qed
qed

text \<open>On any terminated string the parser stays inside the string and the output buffer.\<close>

lemma hex_loop_safe:
  assumes "k < length hex" and "hex ! k = 0" and "i \<le> k" and "len \<le> max_len" and "max_len \<le> length out"
  shows "\<exists>out' n. hex_loop hex out max_len i len = Some (out', n) \<and> len \<le> n \<and> n \<le> max_len
    \<and> length out' = length out \<and> take len out' = take len out \<and> drop n out' = drop n out"
  using assms
proof (induction hex out max_len i len rule: hex_loop.induct)
  case (1 hex out max_len i len)
  obtain j where j: "hex_skip hex i = Some j" "j \<le> k"
    using hex_skip_nul "1.prems"(1-3) by blast
  have zero: "hex_char_to_nibble 0 < 0" by (simp add: hex_char_to_nibble_def)
  show ?case
  proof (cases "hex ! i = 0 \<or> \<not> len < max_len \<or> hex ! j = 0 \<or> hex_char_to_nibble (hex ! j) < 0
      \<or> hex_char_to_nibble (hex ! (j + 1)) < 0")
    case True
    have "j + 1 < length hex" if "hex ! j \<noteq> 0"
      using that j(2) "1.prems"(1,2) by (cases "j = k") auto
    then have "hex_loop hex out max_len i len = Some (out, len)"
      using True j "1.prems" by (subst hex_loop.simps) auto
    then show ?thesis using "1.prems" by simp
  next
    case False
    then have jk: "j < k" using j(2) "1.prems"(2) by (cases "j = k") auto
    then have j2: "j + 2 \<le> k"
      using False "1.prems"(2) zero by (cases "j + 1 = k") auto
    let ?b = "word_of_int (or (push_bit 4 (hex_char_to_nibble (hex ! j)))
      (hex_char_to_nibble (hex ! (j + 1)))) :: u8"
    have wr: "mem_write out len [?b] = Some (patch_at out len [?b])"
      using False "1.prems" by (simp add: mem_simps)
    have "\<exists>out' n. hex_loop hex (patch_at out len [?b]) max_len (j + 2) (len + 1) = Some (out', n)
      \<and> len + 1 \<le> n \<and> n \<le> max_len \<and> length out' = length (patch_at out len [?b])
      \<and> take (len + 1) out' = take (len + 1) (patch_at out len [?b])
      \<and> drop n out' = drop n (patch_at out len [?b])"
      by (rule "1.IH" [OF _ _ j(1) _ _ _ _ wr]) (use False "1.prems" j j2 jk in auto)
    then obtain out' n where ih: "hex_loop hex (patch_at out len [?b]) max_len (j + 2) (len + 1) = Some (out', n)"
      "len + 1 \<le> n" "n \<le> max_len" "length out' = length out"
      "take (len + 1) out' = take (len + 1) (patch_at out len [?b])"
      "drop n out' = drop n (patch_at out len [?b])"
      using False "1.prems" by auto
    have "hex_loop hex out max_len i len = Some (out', n)"
      using False "1.prems" j jk wr ih(1) by (subst hex_loop.simps) simp
    moreover have "take len out' = take len out"
    proof -
      have "take len out' = take len (take (len + 1) out')" by simp
      also have "\<dots> = take len out" unfolding ih(5) using False "1.prems" by (simp add: take_patch_at_le)
      finally show ?thesis .
    qed
    moreover have "drop n out' = drop n out"
      using ih(2,3,6) False "1.prems" by (simp add: drop_patch_at_ge)
    ultimately show ?thesis using ih by auto
  qed
qed

section \<open>Lemmas: reception\<close>

text \<open>Draining byte by byte stores what one large write would store.\<close>

lemma rx_drain_spec:
  assumes "lwrb_ok rb"
  shows "\<exists>rb'. rx_drain chs rb = Some rb' \<and> lwrb_ok rb' \<and> lwrb_capacity rb' = lwrb_capacity rb
    \<and> lwrb_contents rb' = lwrb_contents rb @ take (lwrb_capacity rb - length (lwrb_contents rb)) chs"
  using assms
proof (induction chs arbitrary: rb)
  case Nil
  then show ?case by simp
next
  case (Cons ch chs)
  let ?free = "lwrb_capacity rb - lwrb_count rb"
  define n where "n = min ?free (unat (1 :: u32))"
  obtain rb1 where rb1: "lwrb_write (Some rb) (Some [ch]) 1 = Some (Some rb1, of_nat n)" "lwrb_ok rb1"
    "lwrb_contents rb1 = lwrb_contents rb @ take n [ch]" "lwrb_capacity rb1 = lwrb_capacity rb"
    by (rule lwrb_write_spec [OF Cons.prems, of 1 "[ch]" n]) (simp_all add: n_def)
  obtain rb2 where rb2: "rx_drain chs rb1 = Some rb2" "lwrb_ok rb2" "lwrb_capacity rb2 = lwrb_capacity rb"
    "lwrb_contents rb2 = lwrb_contents rb1 @ take (lwrb_capacity rb - lwrb_count rb1) chs"
    using Cons.IH [OF rb1(2)] rb1(2,4) by auto
  have cnt: "lwrb_count rb1 = lwrb_count rb + length (take n [ch])"
    using rb1(2,3) Cons.prems by (metis length_append length_lwrb_contents)
  have "take n [ch] @ take (lwrb_capacity rb - lwrb_count rb1) chs = take ?free (ch # chs)"
    unfolding cnt n_def diff_diff_left [symmetric] by (cases ?free) simp_all
  then show ?case using rb1 rb2 Cons.prems by simp
qed

lemma emit_simps [simp]:
  "rs485_dev (emit a st) = rs485_dev st" "rs485_baudrate (emit a st) = rs485_baudrate st"
  "rx_rb (emit a st) = rx_rb st" "rx_sem (emit a st) = rx_sem st"
  "rs_trace (emit a st) = rs_trace st @ a"
  by (simp_all add: emit_def)

text \<open>
  The time an action asks to wait, in microseconds, and the time it is sure to wait:
  \<open>rt_thread_mdelay (n)\<close> sleeps for \<open>n\<close> ticks of one millisecond (\<open>RT_TICK_PER_SECOND\<close> is 1000), the
  first of which may end at once because the call comes anywhere inside a tick.
\<close>

fun act_wait_us :: "rs485_act \<Rightarrow> nat" where
  "act_wait_us (Act_us_delay n) = unat n"
| "act_wait_us (Act_mdelay n) = 1000 * unat n"
| "act_wait_us _ = 0"

fun act_min_wait_us :: "rs485_act \<Rightarrow> nat" where
  "act_min_wait_us (Act_us_delay n) = unat n"
| "act_min_wait_us (Act_mdelay n) = 1000 * (unat n - 1)"
| "act_min_wait_us _ = 0"

lemma act_wait_us_le_min: "act_wait_us a \<le> act_min_wait_us a + 1000"
  by (cases a) auto

text \<open>The level of the direction pin after a list of actions; \<open>d\<close> is the level before.\<close>

fun pin_level :: "bool \<Rightarrow> rs485_act list \<Rightarrow> bool" where
  "pin_level d [] = d"
| "pin_level d (Act_pin l # as) = pin_level l as"
| "pin_level d (a # as) = pin_level d as"

lemma unat_scaled:
  assumes "unat (x :: u32) \<le> 429" and "0 < unat (b :: u32)" and "unat b \<le> 4967295"
  shows "unat (x * 10 * 1000000 + b - 1) = unat x * 10 * 1000000 + unat b - 1"
proof -
  have "unat x * unat (10000000 :: u32) < 2 ^ LENGTH(32)" using assms by simp
  then have "unat (x * 10000000) = unat x * unat (10000000 :: u32)" by (simp only: unat_mult_lem)
  then have m: "unat (x * 10 * 1000000) = unat x * 10 * 1000000" by (simp add: mult.assoc)
  then have "unat (x * 10 * 1000000 + b) = unat x * 10 * 1000000 + unat b"
    using assms by (subst unat_add_small) simp_all
  then show ?thesis using assms by (subst unat_minus_le) simp_all
qed

lemma unat_delay_us:
  assumes len: "unat (len :: u16) \<le> 428" and baud: "0 < unat (baud :: u32)" "unat baud \<le> 4967295"
  shows "unat (((ucast len + 1) * 10 * 1000000 + baud - 1) div baud :: u32) =
    ((unat len + 1) * 10 * 1000000 + unat baud - 1) div unat baud"
proof -
  have "unat (ucast len :: u32) = unat len"
    using len by (simp add: unsigned_ucast_eq take_bit_nat_eq_self)
  then have x: "unat (ucast len + 1 :: u32) = unat len + 1" using len by (simp add: unat_add_small)
  then have "unat (ucast len + 1 :: u32) \<le> 429" using len by simp
  from unat_scaled [OF this baud] show ?thesis by (simp only: unat_div x)
qed

text \<open>Rounding up to the resolution of the delay never shortens it.\<close>

lemma ceil_div_ge: "0 < (b :: nat) \<Longrightarrow> a \<le> (a + b - 1) div b * b"
proof -
  assume b: "0 < b"
  have "(a + b - 1) div b * b + (a + b - 1) mod b = a + b - 1" by (rule div_mult_mod_eq)
  moreover have "(a + b - 1) mod b \<le> b - 1" using mod_less_divisor [OF b, of "a + b - 1"] by linarith
  ultimately show ?thesis using b by linarith
qed

text \<open>
  The delay \<open>rs485_wait_tx_complete\<close> computes from its quotient \<open>d\<close> in microseconds: the wait asked for
  is at least \<open>d\<close> and less than a millisecond more.
\<close>

definition tx_wait :: "u32 \<Rightarrow> rs485_act" where
  "tx_wait d = (if d < 1000 then Act_us_delay d else Act_mdelay ((d + 999) div 1000))"

lemma wait_tx_complete_eq:
  "0 < len \<Longrightarrow> 0 < baud \<Longrightarrow> rs485_wait_tx_complete len baud st =
    emit [tx_wait (((ucast len + 1) * 10 * 1000000 + baud - 1) div baud)] st"
  by (auto simp: rs485_wait_tx_complete_def Let_def tx_wait_def)

lemma pin_level_tx_wait: "pin_level l (tx_wait d # as) = pin_level l as"
  by (simp add: tx_wait_def)

lemma act_wait_tx_wait:
  assumes "unat d \<le> 4294967295 - 999"
  shows "unat d \<le> act_wait_us (tx_wait d)" and "act_wait_us (tx_wait d) \<le> unat d + 999"
proof -
  have "unat (d + 999) = unat d + 999" using assms by (simp add: unat_add_small)
  then have ms: "unat ((d + 999) div 1000) = (unat d + 999) div 1000" by (simp add: unat_div)
  show "unat d \<le> act_wait_us (tx_wait d)"
    using ceil_div_ge [of 1000 "unat d"] by (simp add: tx_wait_def ms mult.commute add.commute)
  show "act_wait_us (tx_wait d) \<le> unat d + 999"
    using div_times_less_eq_dividend [of "unat d + 999" 1000]
    by (simp add: tx_wait_def ms mult.commute)
qed

lemma act_min_wait_tx_wait: "unat d < 1000 \<Longrightarrow> act_min_wait_us (tx_wait d) = unat d"
  by (simp add: tx_wait_def word_less_nat_alt)

lemma delay_us_small:
  assumes "unat (len :: u16) \<le> 428" and "0 < unat (b :: u32)" and "unat b \<le> 4967295"
  shows "((unat len + 1) * 10 * 1000000 + unat b - 1) div unat b \<le> 4294967295 - 999"
proof (cases "unat b = 1")
  case False
  then have "2 \<le> unat b" using assms(2) by simp
  then have "((unat len + 1) * 10 * 1000000 + unat b - 1) div unat b \<le>
      ((unat len + 1) * 10 * 1000000 + unat b - 1) div 2" by (rule div_le_mono2 [rotated]) simp
  then show ?thesis using assms by simp
qed (use assms in simp)

lemma wait_tx_trace:
  assumes len: "0 < len" "unat len \<le> 428" and baud: "0 < baud" "unat baud \<le> 4967295"
  obtains a where "rs485_wait_tx_complete len baud st = emit [a] st"
    and "\<forall>l as. pin_level l (a # as) = pin_level l as"
    and "(unat len + 1) * 10 * 1000000 \<le> (act_min_wait_us a + 1000) * unat baud"
    and "unat baud \<le> 10000 \<or> (unat len + 1) * 10 * 1000000 \<le> 999 * unat baud \<Longrightarrow>
      unat len * 10 * 1000000 \<le> act_min_wait_us a * unat baud"
proof -
  define d where "d = (((ucast len + 1) * 10 * 1000000 + baud - 1) div baud :: u32)"
  let ?n = "(unat len + 1) * 10 * 1000000"
  have b: "0 < unat baud" using baud(1) by (simp add: word_less_nat_alt)
  have du: "unat d = (?n + unat baud - 1) div unat baud"
    unfolding d_def by (rule unat_delay_us [OF len(2) b baud(2)])
  have enough: "?n \<le> unat d * unat baud" unfolding du by (rule ceil_div_ge [OF b])
  have "unat d \<le> act_min_wait_us (tx_wait d) + 1000"
    using act_wait_tx_wait(1) [of d] act_wait_us_le_min [of "tx_wait d"]
      delay_us_small [OF len(2) b baud(2)] unfolding du by linarith
  then have w: "?n \<le> (act_min_wait_us (tx_wait d) + 1000) * unat baud"
    by (rule order_trans [OF enough mult_le_mono1])
  have exact: "unat len * 10 * 1000000 \<le> act_min_wait_us (tx_wait d) * unat baud"
    if "unat baud \<le> 10000 \<or> ?n \<le> 999 * unat baud"
  proof (cases "?n \<le> 999 * unat baud")
    case True
    then have "?n + unat baud - 1 < 1000 * unat baud" using b by linarith
    then have "unat d < 1000" unfolding du by (rule less_mult_imp_div_less)
    then show ?thesis using enough by (simp add: act_min_wait_tx_wait)
  next
    case False
    then have "1000 * unat baud \<le> 10 * 1000000" using that by linarith
    then show ?thesis using w by (simp add: algebra_simps)
  qed
  show thesis
    by (rule that [OF wait_tx_complete_eq [OF len(1) baud(1), folded d_def] _ w exact])
      (simp_all add: pin_level_tx_wait)
qed



lemma rs485_send_eq:
  assumes "rs485_dev st" and "0 < len" and "unat len \<le> length d"
    and "\<And>st'. rs485_wait_tx_complete len (rs485_baudrate st) st' = emit [w] st'"
  shows "rs485_send (Some d) len st =
    Some (emit [Act_pin True, Act_write (take (unat len) d), w, Act_pin False] st, Inr (unat len))"
  using assms
  by (simp add: rs485_send_def mem_simps rs485_dir_tx_def rs485_dir_rx_def emit_def word_neq_0_conv)

text \<open>
  Above 10000 baud the one byte added to the length is shorter than the tick that may be missing:
  22 bytes at 115200 baud need 1910 microseconds, and the sleep may end after 1000.
\<close>

lemma rs485_wait_may_be_short:
  "rs485_wait_tx_complete 22 115200 st = emit [Act_mdelay 2] st
    \<and> act_min_wait_us (Act_mdelay 2) * 115200 < 22 * 10 * 1000000"
  by (simp add: rs485_wait_tx_complete_def Let_def)

section \<open>Properties\<close>

definition rs485_example :: rs485 where
  "rs485_example = \<lparr>rs485_dev = True, rs485_baudrate = 9600, rx_rb = lwrb_example, rx_sem = 0, rs_trace = []\<rparr>"

text \<open>
  C19: \<open>rs485_send\<close> drives the bus in the right order and long enough. For at most 428 bytes and
  any baud rate up to 4967295 it raises the direction pin, writes exactly the data, waits, and lowers
  the pin again; nothing else happens on the bus, and the transceiver ends up in receive mode. The
  wait it is sure to make, plus one tick, is at least the time of all bytes and one more (ten bits
  each). Up to 10000 baud, and whenever the wait is below a millisecond and so timed in microseconds,
  the wait alone covers the transmission of all bytes.
\<close>

theorem rs485_send_holds_bus:
  assumes "rs485_dev st" and "0 < len" and "unat len \<le> 428" and "unat len \<le> length d"
    and "0 < rs485_baudrate st" and "unat (rs485_baudrate st) \<le> 4967295"
  shows "\<exists>w. rs485_send (Some d) len st =
      Some (emit [Act_pin True, Act_write (take (unat len) d), w, Act_pin False] st, Inr (unat len))
    \<and> (\<forall>l. \<not> pin_level l [Act_pin True, Act_write (take (unat len) d), w, Act_pin False])
    \<and> (unat len + 1) * 10 * 1000000 \<le> (act_min_wait_us w + 1000) * unat (rs485_baudrate st)
    \<and> (unat (rs485_baudrate st) \<le> 10000
        \<or> (unat len + 1) * 10 * 1000000 \<le> 999 * unat (rs485_baudrate st) \<longrightarrow>
      unat len * 10 * 1000000 \<le> act_min_wait_us w * unat (rs485_baudrate st))"
proof -
  obtain w where w: "\<And>st'. rs485_wait_tx_complete len (rs485_baudrate st) st' = emit [w] st'"
    and p: "\<forall>l as. pin_level l (w # as) = pin_level l as"
    and t: "(unat len + 1) * 10 * 1000000 \<le> (act_min_wait_us w + 1000) * unat (rs485_baudrate st)"
      "unat (rs485_baudrate st) \<le> 10000
        \<or> (unat len + 1) * 10 * 1000000 \<le> 999 * unat (rs485_baudrate st) \<Longrightarrow>
      unat len * 10 * 1000000 \<le> act_min_wait_us w * unat (rs485_baudrate st)"
    by (rule wait_tx_trace [OF assms(2,3,5,6), of st])
      (metis assms(2,5) wait_tx_complete_eq emit_simps(5) same_append_eq list.inject)
  show ?thesis
    using rs485_send_eq [OF assms(1,2,4) w] p t by (intro exI [of _ w]) simp
qed

theorem rs485_send_holds_bus_witness:
  "\<exists>w. rs485_send (Some [1, 3, 0]) 3 rs485_example =
      Some (emit [Act_pin True, Act_write [1, 3, 0], w, Act_pin False] rs485_example, Inr 3)
    \<and> 30000000 \<le> act_min_wait_us w * 9600"
proof -
  have st: "rs485_dev rs485_example" "rs485_baudrate rs485_example = 9600"
    by (simp_all add: rs485_example_def)
  obtain w where "rs485_send (Some [1, 3, 0]) 3 rs485_example =
      Some (emit [Act_pin True, Act_write (take (unat (3 :: u16)) [1, 3, 0]), w, Act_pin False] rs485_example,
        Inr (unat (3 :: u16)))"
    "unat (3 :: u16) * 10 * 1000000 \<le> act_min_wait_us w * unat (rs485_baudrate rs485_example)"
    using rs485_send_holds_bus [of rs485_example 3 "[1, 3, 0]"] st by auto
  then show ?thesis using st by (intro exI [of _ w]) simp
qed



text \<open>
  C24: \<open>hex_str_to_bytes\<close> terminates on every terminated string, never reads behind the terminator
  and never writes outside the first \<open>max_len\<close> bytes of the output; it returns the number of bytes
  stored and leaves the rest of the output alone.
\<close>

theorem hex_str_to_bytes_safe:
  assumes "0 \<in> set hex" and "unat max_len \<le> length out"
  shows "\<exists>out' n. hex_str_to_bytes (Some hex) (Some out) max_len = Some (Some out', n)
    \<and> n \<le> unat max_len \<and> length out' = length out \<and> drop n out' = drop n out"
proof (cases "max_len = 0")
  case True
  then show ?thesis by (simp add: hex_str_to_bytes_def)
next
  case False
  from assms(1) obtain k where "k < length hex" "hex ! k = 0" by (auto simp: in_set_conv_nth)
  from hex_loop_safe [OF this le0 le0 assms(2)] False show ?thesis
    by (auto simp: hex_str_to_bytes_def)
qed

theorem hex_str_to_bytes_safe_witness:
  "\<exists>out' n. hex_str_to_bytes (Some [0x41, 0x2D, 0]) (Some [7, 8]) 2 = Some (Some out', n) \<and> n \<le> 2
    \<and> length out' = length [7, 8 :: u8] \<and> drop n out' = drop n [7, 8]"
  using hex_str_to_bytes_safe [of "[0x41, 0x2D, 0]" 2 "[7, 8]"] by simp

text \<open>
  parsing what the shell command prints gives the bytes back: the hex dump of any byte
  sequence is read as the same sequence, cut at the size of the output buffer.
\<close>

theorem hex_print_roundtrip:
  assumes "unat max_len \<le> length out" and "0 < max_len"
  shows "hex_str_to_bytes (Some (hex_print bs @ [0])) (Some out) max_len =
    Some (Some (patch_at out 0 (take (unat max_len) bs)), min (unat max_len) (length bs))"
  using hex_loop_print [of 0 "unat max_len" out "[]" bs "[]"] assms
  by (simp add: hex_str_to_bytes_def word_neq_0_conv)

theorem hex_print_roundtrip_witness:
  "hex_print [1, 0xAF] = [0x20, 0x30, 0x31, 0x20, 0x41, 0x46]
    \<and> hex_str_to_bytes (Some ([0x20, 0x30, 0x31, 0x20, 0x41, 0x46] @ [0])) (Some [0, 0, 0, 0]) 4 =
      Some (Some [1, 0xAF, 0, 0], 2)"
proof -
  have p: "hex_print [1, 0xAF] = [0x20, 0x30, 0x31, 0x20, 0x41, 0x46]"
    by (simp add: hex_print_def hex_byte_def hex_digit_def)
  then show ?thesis
    using hex_print_roundtrip [of 4 "[0, 0, 0, 0]" "[1, 0xAF]"] by (simp add: patch_at_def)
qed

text \<open>
  what the receive callback takes from the UART is what \<open>rs485_recv\<close> returns: as long as the
  bytes fit, the callback stores them in order behind the earlier ones, and a following receive
  returns the oldest bytes without waiting and leaves the others for the next call.
\<close>

theorem rs485_receive_path:
  assumes "rs485_dev st" and "lwrb_ok (rx_rb st)" and "0 < max_len" and "unat max_len \<le> length buf"
    and "length (lwrb_contents (rx_rb st)) + length chs \<le> lwrb_capacity (rx_rb st)"
  defines "all \<equiv> lwrb_contents (rx_rb st) @ chs"
  defines "n \<equiv> min (unat max_len) (length all)"
  shows "\<exists>st1 st2. rs485_rx_ind True chs st = Some (st1, RT_EOK)
    \<and> rs485_recv (Some buf) max_len w st1 = Some (st2, Some (take n all @ drop n buf), Inr n)
    \<and> lwrb_ok (rx_rb st2) \<and> lwrb_contents (rx_rb st2) = drop n all"
proof -
  obtain rb1 where rb1: "rx_drain chs (rx_rb st) = Some rb1" "lwrb_ok rb1" "lwrb_contents rb1 = all"
    using rx_drain_spec [OF assms(2), of chs] assms(5) by (auto simp: all_def)
  define st1 where "st1 = st\<lparr>rx_rb := rb1, rx_sem := min (rx_sem st + 1) RT_SEM_VALUE_MAX\<rparr>"
  have one: "rs485_rx_ind True chs st = Some (st1, RT_EOK)"
    using rb1(1) by (simp add: rs485_rx_ind_def st1_def)
  have take: "rs485_sem_take w st1 = Some (st1\<lparr>rx_sem := rx_sem st1 - 1\<rparr>, RT_EOK)"
    by (simp add: rs485_sem_take_def st1_def RT_SEM_VALUE_MAX_def)
  have ml: "unat (ucast max_len :: u32) = unat max_len"
    using unsigned_less [of max_len, where 'a = nat]
    by (simp add: unsigned_ucast_eq take_bit_nat_eq_self)
  have cnt: "lwrb_count rb1 = length all" using rb1(2,3) by (metis length_lwrb_contents)
  have n: "n = min (lwrb_count rb1) (unat (ucast max_len :: u32))" "n \<le> length buf"
    using ml cnt assms(4) by (simp_all add: n_def min.commute)
  obtain rb2 where rb2: "lwrb_read (Some rb1) (Some buf) (ucast max_len) =
      Some (Some rb2, Some (patch_at buf 0 (take n all)), of_nat n)" "lwrb_ok rb2"
      "lwrb_contents rb2 = drop n all"
    using lwrb_read_spec [OF rb1(2) n] rb1(3) by metis
  have "unat (of_nat n :: u32) = n"
    using unsigned_less [of max_len, where 'a = nat] by (intro unat_of_nat32) (simp add: n_def)
  moreover have "patch_at buf 0 (take n all) = take n all @ drop n buf" by (simp add: patch_at_def n_def)
  moreover have "rx_rb st1 = rb1" "rs485_dev st1" using assms(1) by (simp_all add: st1_def)
  ultimately have "rs485_recv (Some buf) max_len w st1 =
      Some (st1\<lparr>rx_sem := rx_sem st1 - 1, rx_rb := rb2\<rparr>, Some (take n all @ drop n buf), Inr n)"
    using take rb2(1) assms(3) by (simp add: rs485_recv_def word_neq_0_conv)
  with one rb2 show ?thesis by auto
qed

theorem rs485_receive_path_witness:
  "\<exists>st1 st2. rs485_rx_ind True [1, 2] rs485_example = Some (st1, RT_EOK)
    \<and> rs485_recv (Some (replicate 5 0)) 5 (Wait_error RT_ETIMEOUT) st1 = Some (st2, Some [10, 11, 12, 13, 1], Inr 5)
    \<and> lwrb_contents (rx_rb st2) = [2]"
proof -
  have "rs485_dev rs485_example" "rx_rb rs485_example = lwrb_example" by (simp_all add: rs485_example_def)
  then show ?thesis
    using rs485_receive_path [of rs485_example 5 "replicate 5 0" "[1, 2]" "Wait_error RT_ETIMEOUT"]
    by (auto simp: lwrb_example_facts)
qed

text \<open>
  the semaphore counts callbacks, not bytes, so a receive may return 0 at once although
  nothing has timed out: after two callbacks and one receive that empties the buffer, the next
  receive takes the left-over token and returns 0 whatever would have arrived while it waited.
\<close>

theorem rs485_recv_stale_token:
  assumes "rs485_dev st" and "lwrb_ok (rx_rb st)" and "lwrb_contents (rx_rb st) = []" and "0 < rx_sem st"
    and "0 < max_len"
  shows "rs485_recv (Some buf) max_len w st = Some (st\<lparr>rx_sem := rx_sem st - 1\<rparr>, Some buf, Inr 0)"
proof -
  have "lwrb_count (rx_rb st) = 0" using assms(2,3) by (metis length_lwrb_contents list.size(3))
  then have "lwrb_get_full (Some (rx_rb st)) = 0" using lwrb_get_full_eq [OF assms(2)] by (simp add: unat_eq_0)
  then have "lwrb_read (Some (rx_rb st)) (Some buf) (ucast max_len) = Some (Some (rx_rb st), Some buf, 0)"
    by (simp add: lwrb_read_def lwrb_read_ex_reject)
  then show ?thesis
    using assms by (simp add: rs485_recv_def rs485_sem_take_def word_neq_0_conv)
qed

theorem rs485_recv_stale_token_witness:
  "let rb = the (lwrb_reset (Some lwrb_example));
       st = rs485_example\<lparr>rx_rb := rb, rx_sem := 1\<rparr>
   in rs485_recv (Some [0]) 1 (Woken [5]) st = Some (st\<lparr>rx_sem := 0\<rparr>, Some [0], Inr 0)"
proof -
  obtain rb where rb: "lwrb_reset (Some lwrb_example) = Some rb" "lwrb_ok rb" "lwrb_contents rb = []"
    by (rule lwrb_reset_spec [OF lwrb_example_ok])
  then show ?thesis
    using rs485_recv_stale_token [of "rs485_example\<lparr>rx_rb := rb, rx_sem := 1\<rparr>" 1 "[0]" "Woken [5]"]
    by (simp add: rs485_example_def)
qed

end
