(* ===== verification/Mqtt_Packet.thy ===== *)
theory Mqtt_Packet
  imports Board_Prelude "HOL-Library.Signed_Division"
begin

text \<open>
  The MQTT wire format (\<open>packages/pahomqtt/MQTTPacket/src\<close>): primitives of \<open>MQTTPacket.c\<close>. The
  packets built from them are in theory \<open>Mqtt_Messages\<close>.

  A packet buffer is a byte object; \<open>unsigned char **pptr\<close> is a position in it. A \<open>char *\<close> to a
  string is the part of its object from the pointed-to byte on. C \<open>int\<close> is \<open>int\<close>: all lengths the
  code computes are far from the 32-bit limits under the bounds the theorems state. Division and
  remainder truncate as in C (\<open>sdiv\<close>, \<open>smod\<close>). Plain \<open>char\<close> is unsigned, as on ARM.
\<close>

named_theorems mqtt_write \<open>what the writers append\<close>
named_theorems mqtt_read \<open>what the readers return\<close>

section \<open>Data\<close>

definition MQTTPACKET_BUFFER_TOO_SHORT :: int where "MQTTPACKET_BUFFER_TOO_SHORT = -2"

definition MQTTPACKET_READ_ERROR :: int where "MQTTPACKET_READ_ERROR = -1"

definition MAX_NO_OF_REMAINING_LENGTH_BYTES :: nat where "MAX_NO_OF_REMAINING_LENGTH_BYTES = 4"

definition CONNECT :: u8 where "CONNECT = 1"
definition CONNACK :: u8 where "CONNACK = 2"
definition PUBLISH :: u8 where "PUBLISH = 3"
definition PUBACK :: u8 where "PUBACK = 4"
definition PUBREC :: u8 where "PUBREC = 5"
definition PUBREL :: u8 where "PUBREL = 6"
definition PUBCOMP :: u8 where "PUBCOMP = 7"
definition SUBSCRIBE :: u8 where "SUBSCRIBE = 8"
definition SUBACK :: u8 where "SUBACK = 9"
definition UNSUBSCRIBE :: u8 where "UNSUBSCRIBE = 10"
definition UNSUBACK :: u8 where "UNSUBACK = 11"
definition PINGREQ :: u8 where "PINGREQ = 12"
definition PINGRESP :: u8 where "PINGRESP = 13"
definition DISCONNECT :: u8 where "DISCONNECT = 14"

lemmas msgTypes_defs = CONNECT_def CONNACK_def PUBLISH_def PUBACK_def PUBREC_def PUBREL_def PUBCOMP_def
  SUBSCRIBE_def SUBACK_def UNSUBSCRIBE_def UNSUBACK_def PINGREQ_def PINGRESP_def DISCONNECT_def

text \<open>The bit-fields of the header union: retain, qos, dup, type from the least significant bit.\<close>

definition header_byte :: "u8 \<Rightarrow> u8 \<Rightarrow> u8 \<Rightarrow> u8 \<Rightarrow> u8" where
  "header_byte typ dup qos retain =
     (push_bit 4 (typ AND 15)) OR (push_bit 3 (dup AND 1)) OR (push_bit 1 (qos AND 3)) OR (retain AND 1)"

definition header_type :: "u8 \<Rightarrow> u8" where "header_type b = drop_bit 4 b"
definition header_dup :: "u8 \<Rightarrow> u8" where "header_dup b = drop_bit 3 b AND 1"
definition header_qos :: "u8 \<Rightarrow> u8" where "header_qos b = drop_bit 1 b AND 3"
definition header_retain :: "u8 \<Rightarrow> u8" where "header_retain b = b AND 1"

record MQTTString =
  cstring :: "bytes option"
  lenstring_len :: int
  lenstring_data :: "bytes option"

definition MQTTString_initializer :: MQTTString where
  "MQTTString_initializer = \<lparr>cstring = None, lenstring_len = 0, lenstring_data = None\<rparr>"

section \<open>Remaining length\<close>

function encode_loop :: "bytes \<Rightarrow> nat \<Rightarrow> int \<Rightarrow> nat \<Rightarrow> (bytes \<times> nat) option" where
  "encode_loop buf p len rc =
     (let d = word_of_int (len smod 128) :: u8;
          len = len sdiv 128;
          d = (if len > 0 then d OR 0x80 else d)
      in case mem_write buf (p + rc) [d] of
           None \<Rightarrow> None
         | Some buf \<Rightarrow> if len > 0 then encode_loop buf p len (rc + 1) else Some (buf, rc + 1))"
  by pat_completeness auto
termination
proof (relation "measure (\<lambda>(buf, p, len, rc). nat len)", goal_cases)
  case 1
  show ?case by simp
next
  case (2 buf p len rc d len' d' buf')
  then have "len > 0" by (auto simp: signed_divide_int_def sgn_if split: if_splits)
  then show ?case using 2 by (simp add: signed_divide_int_def sgn_if)
qed

declare encode_loop.simps [simp del]

definition MQTTPacket_encode :: "bytes \<Rightarrow> nat \<Rightarrow> int \<Rightarrow> (bytes \<times> nat) option" where
  "MQTTPacket_encode buf p len = encode_loop buf p len 0"

text \<open>
  Decoding reads from a source: the state of the source \<open>'s\<close> is explicit, a read returns the
  callback's return value and the character. The result is the number of bytes read and the value.
\<close>

function decode_loop ::
  "('s \<Rightarrow> (int \<times> u8 \<times> 's) option) \<Rightarrow> 's \<Rightarrow> nat \<Rightarrow> int \<Rightarrow> int \<Rightarrow> (nat \<times> int \<times> 's) option" where
  "decode_loop getcharfn s len multiplier val =
     (let len = len + 1
      in if len > MAX_NO_OF_REMAINING_LENGTH_BYTES then Some (len, val, s)
         else
           (case getcharfn s of
              None \<Rightarrow> None
            | Some (rc, c, s) \<Rightarrow>
                if rc \<noteq> 1 then Some (len, val, s)
                else
                  let val = val + uint (c AND 127) * multiplier;
                      multiplier = multiplier * 128
                  in if c AND 128 \<noteq> 0 then decode_loop getcharfn s len multiplier val
                     else Some (len, val, s)))"
  by pat_completeness auto
termination
  by (relation "measure (\<lambda>(g, s, len, m, v). MAX_NO_OF_REMAINING_LENGTH_BYTES - len)") auto

declare decode_loop.simps [simp del]

definition MQTTPacket_decode ::
  "('s \<Rightarrow> (int \<times> u8 \<times> 's) option) \<Rightarrow> 's \<Rightarrow> (nat \<times> int \<times> 's) option" where
  "MQTTPacket_decode getcharfn s = decode_loop getcharfn s 0 1 0"

definition MQTTPacket_len :: "int \<Rightarrow> int" where
  "MQTTPacket_len rem_len =
     (let rem_len = rem_len + 1
      in if rem_len < 128 then rem_len + 1
         else if rem_len < 16384 then rem_len + 2
         else if rem_len < 2097151 then rem_len + 3
         else rem_len + 4)"

definition bufchar :: "bytes \<Rightarrow> nat \<Rightarrow> (int \<times> u8 \<times> nat) option" where
  "bufchar buf p = (if p < length buf then Some (1, buf ! p, p + 1) else None)"

definition MQTTPacket_decodeBuf :: "bytes \<Rightarrow> nat \<Rightarrow> (nat \<times> int) option" where
  "MQTTPacket_decodeBuf buf p = do {
     (len, val, _) \<leftarrow> MQTTPacket_decode (bufchar buf) p;
     Some (len, val) }"

section \<open>Characters, integers, strings\<close>

definition readInt :: "bytes \<Rightarrow> nat \<Rightarrow> (int \<times> nat) option" where
  "readInt buf p = do {
     xs \<leftarrow> mem_read buf p 2;
     Some (256 * uint (xs ! 0) + uint (xs ! 1), p + 2) }"

definition readChar :: "bytes \<Rightarrow> nat \<Rightarrow> (u8 \<times> nat) option" where
  "readChar buf p = do { xs \<leftarrow> mem_read buf p 1; Some (xs ! 0, p + 1) }"

type_synonym writer = "bytes \<times> nat"

definition writeChar :: "u8 \<Rightarrow> writer \<Rightarrow> writer option" where
  "writeChar c w = (case w of (buf, p) \<Rightarrow> do { buf \<leftarrow> mem_write buf p [c]; Some (buf, p + 1) })"

definition writeInt :: "int \<Rightarrow> writer \<Rightarrow> writer option" where
  "writeInt anInt w = do {
     w \<leftarrow> writeChar (word_of_int (anInt sdiv 256)) w;
     writeChar (word_of_int (anInt smod 256)) w }"

definition c_strlen :: "bytes \<Rightarrow> nat option" where
  "c_strlen s = (if 0 \<in> set s then Some (length (takeWhile (\<lambda>c. c \<noteq> 0) s)) else None)"

text \<open>\<open>rt_memcpy (*pptr, data, len); *pptr += len\<close>.\<close>

definition write_mem :: "bytes \<Rightarrow> nat \<Rightarrow> writer \<Rightarrow> writer option" where
  "write_mem data n w = (case w of (buf, p) \<Rightarrow> do { buf \<leftarrow> memcpy buf p data 0 n; Some (buf, p + n) })"

definition writeCString :: "bytes \<Rightarrow> writer \<Rightarrow> writer option" where
  "writeCString s w = do {
     len \<leftarrow> c_strlen s;
     w \<leftarrow> writeInt (int len) w;
     write_mem s len w }"

definition getLenStringLen :: "bytes \<Rightarrow> int option" where
  "getLenStringLen ptr = do {
     xs \<leftarrow> mem_read ptr 0 2;
     Some (256 * uint (xs ! 0) + uint (xs ! 1)) }"

definition writeMQTTString :: "MQTTString \<Rightarrow> writer \<Rightarrow> writer option" where
  "writeMQTTString s w =
     (if lenstring_len s > 0 then do {
        w \<leftarrow> writeInt (lenstring_len s) w;
        d \<leftarrow> lenstring_data s;
        write_mem d (nat (lenstring_len s)) w
      }
      else (case cstring s of
              Some c \<Rightarrow> writeCString c w
            | None \<Rightarrow> writeInt 0 w))"

text \<open>
  \<open>readMQTTLenString\<close> returns the string, the new position and the truth value. The length field is
  set and the position moved even when the string does not fit.
\<close>

definition readMQTTLenString :: "MQTTString \<Rightarrow> bytes \<Rightarrow> nat \<Rightarrow> int \<Rightarrow> (MQTTString \<times> nat \<times> bool) option" where
  "readMQTTLenString s buf p enddata =
     (if enddata - int p > 1 then do {
        (len, p) \<leftarrow> readInt buf p;
        if int p + len \<le> enddata
        then Some (s\<lparr>cstring := None, lenstring_len := len, lenstring_data := Some (drop p buf)\<rparr>,
                   p + nat len, True)
        else Some (s\<lparr>cstring := None, lenstring_len := len\<rparr>, p, False)
      }
      else Some (s\<lparr>cstring := None\<rparr>, p, False))"

definition MQTTstrlen :: "MQTTString \<Rightarrow> int option" where
  "MQTTstrlen s =
     (case cstring s of
        Some c \<Rightarrow> map_option int (c_strlen c)
      | None \<Rightarrow> Some (lenstring_len s))"

text \<open>\<open>strncmp\<close> on the first \<open>n\<close> characters stops at a difference or at the end of a string.\<close>

fun c_strncmp_eq :: "bytes \<Rightarrow> bytes \<Rightarrow> nat \<Rightarrow> bool option" where
  "c_strncmp_eq _ _ 0 = Some True"
| "c_strncmp_eq (a # as) (b # bs) (Suc n) =
     (if a \<noteq> b then Some False else if a = 0 then Some True else c_strncmp_eq as bs n)"
| "c_strncmp_eq _ _ (Suc n) = None"

definition MQTTPacket_equals :: "MQTTString \<Rightarrow> bytes \<Rightarrow> bool option" where
  "MQTTPacket_equals a bptr = do {
     (aptr, alen) \<leftarrow> (case cstring a of
        Some c \<Rightarrow> do { n \<leftarrow> c_strlen c; Some (Some c, int n) }
      | None \<Rightarrow> Some (lenstring_data a, lenstring_len a));
     blen \<leftarrow> c_strlen bptr;
     if alen = int blen then do { ap \<leftarrow> aptr; c_strncmp_eq ap bptr (nat alen) }
     else Some False }"

section \<open>Reading a packet\<close>

text \<open>
  \<open>getfn (ptr, n)\<close> asks the source for \<open>n\<close> bytes; it returns the callback's return value and the
  bytes it stored at \<open>ptr\<close>. The result of \<open>MQTTPacket_read\<close> is the buffer and the packet type or -1.
\<close>

definition get_one :: "('s \<Rightarrow> nat \<Rightarrow> int \<times> bytes \<times> 's) \<Rightarrow> 's \<Rightarrow> (int \<times> u8 \<times> 's) option" where
  "get_one getfn s = (case getfn s 1 of (rc, xs, s) \<Rightarrow> Some (rc, (case xs of c # _ \<Rightarrow> c | [] \<Rightarrow> 0), s))"

definition MQTTPacket_read ::
  "bytes \<Rightarrow> int \<Rightarrow> ('s \<Rightarrow> nat \<Rightarrow> int \<times> bytes \<times> 's) \<Rightarrow> 's \<Rightarrow> (bytes \<times> int \<times> 's) option" where
  "MQTTPacket_read buf buflen getfn s = do {
     let (rc, xs, s) = getfn s 1;
     buf \<leftarrow> mem_write buf 0 xs;
     if rc \<noteq> 1 then Some (buf, -1, s)
     else do {
       (_, rem_len, s) \<leftarrow> MQTTPacket_decode (get_one getfn) s;
       (buf, n) \<leftarrow> MQTTPacket_encode buf 1 rem_len;
       let len = 1 + int n;
       if rem_len + len > buflen then Some (buf, -1, s)
       else do {
         let (rc, xs, s) = getfn s (nat rem_len);
         buf \<leftarrow> mem_write buf (nat len) xs;
         if rc \<noteq> rem_len then Some (buf, -1, s)
         else do {
           b \<leftarrow> mem_read buf 0 1;
           Some (buf, uint (header_type (b ! 0)), s)
         }
       }
     }
   }"

section \<open>Wire format of the primitives\<close>

lemma c_div_pos: "0 \<le> (a :: int) \<Longrightarrow> 0 < b \<Longrightarrow> a sdiv b = a div b"
  by (auto simp: signed_divide_int_def sgn_if)

lemma c_mod_pos: "0 \<le> (a :: int) \<Longrightarrow> 0 < b \<Longrightarrow> a smod b = a mod b"
  by (auto simp: signed_modulo_int_def sgn_if)

text \<open>The variable-length integer of the MQTT specification, seven bits per byte.\<close>

fun varint :: "nat \<Rightarrow> bytes" where
  "varint n = (if n < 128 then [of_nat n] else of_nat (n mod 128 + 128) # varint (n div 128))"

declare varint.simps [simp del]

lemma varint_nonempty [simp]: "varint n \<noteq> []"
  by (subst varint.simps) simp

lemma varint_length:
  "n < 128 \<Longrightarrow> length (varint n) = 1"
  "128 \<le> n \<Longrightarrow> n < 16384 \<Longrightarrow> length (varint n) = 2"
  "16384 \<le> n \<Longrightarrow> n < 2097152 \<Longrightarrow> length (varint n) = 3"
  "2097152 \<le> n \<Longrightarrow> n < 268435456 \<Longrightarrow> length (varint n) = 4"
proof -
  have small: "length (varint n) = 1" if "n < 128" for n using that by (subst varint.simps) simp
  have step: "length (varint n) = Suc (length (varint (n div 128)))" if "128 \<le> n" for n
    using that by (subst varint.simps) simp
  show "n < 128 \<Longrightarrow> length (varint n) = 1" by (rule small)
  have two: "length (varint n) = 2" if "128 \<le> n" "n < 16384" for n
    using step [of n] small [of "n div 128"] that by simp
  then show "128 \<le> n \<Longrightarrow> n < 16384 \<Longrightarrow> length (varint n) = 2" by blast
  have three: "length (varint n) = 3" if "16384 \<le> n" "n < 2097152" for n
    using step [of n] two [of "n div 128"] that by simp
  then show "16384 \<le> n \<Longrightarrow> n < 2097152 \<Longrightarrow> length (varint n) = 3" by blast
  show "2097152 \<le> n \<Longrightarrow> n < 268435456 \<Longrightarrow> length (varint n) = 4"
    using step [of n] three [of "n div 128"] by simp
qed

lemma varint_length_le: "n < 268435456 \<Longrightarrow> length (varint n) \<le> 4"
  using varint_length [of n] by linarith

text \<open>The continuation bit.\<close>

lemma low7:
  assumes "n < 128"
  shows "(of_nat n :: u8) AND 0x7F = of_nat n" and "(of_nat n :: u8) AND 0x80 = 0"
    and "uint (of_nat n :: u8) = int n"
proof -
  have "(of_nat n :: u8) AND 0x7F = take_bit 7 (of_nat n)"
    by (simp add: take_bit_eq_mask mask_eq_exp_minus_1)
  also have "\<dots> = of_nat (take_bit 7 n)" by (simp add: take_bit_of_nat)
  finally show low: "(of_nat n :: u8) AND 0x7F = of_nat n" using assms by (simp add: take_bit_nat_eq_self)
  have "(of_nat n :: u8) AND 0x80 = of_nat n AND (0x7F AND 0x80)"
    by (subst low [symmetric]) (simp only: and.assoc)
  then show "(of_nat n :: u8) AND 0x80 = 0" by simp
  show "uint (of_nat n :: u8) = int n" using assms by (simp add: uint_nat unat_of_nat take_bit_nat_eq_self)
qed

lemma high_bit:
  assumes "n < 128"
  shows "(of_nat n OR 0x80 :: u8) = of_nat (n + 128)"
    and "uint (of_nat (n + 128) AND 0x7F :: u8) = int n" and "(of_nat (n + 128) :: u8) AND 0x80 \<noteq> 0"
proof -
  show e: "(of_nat n OR 0x80 :: u8) = of_nat (n + 128)"
    using disjunctive_add_eq_or [OF low7(2) [OF assms]] by simp
  have "(of_nat (n + 128) AND 0x7F :: u8) = (of_nat n AND 0x7F) OR (0x80 AND 0x7F)"
    by (simp only: e [symmetric] bit.conj_disj_distrib2)
  then show "uint (of_nat (n + 128) AND 0x7F :: u8) = int n" using low7 [OF assms] by simp
  have "(of_nat (n + 128) AND 0x80 :: u8) = (of_nat n AND 0x80) OR (0x80 AND 0x80)"
    by (simp only: e [symmetric] bit.conj_disj_distrib2)
  then show "(of_nat (n + 128) :: u8) AND 0x80 \<noteq> 0" using low7(2) [OF assms] by simp
qed

lemma encode_loop_eq:
  assumes "p + rc + length (varint n) \<le> length buf"
  shows "encode_loop buf p (int n) rc = Some (patch_at buf (p + rc) (varint n), rc + length (varint n))"
  using assms
proof (induction n arbitrary: buf rc rule: varint.induct)
  case (1 n)
  have div: "int n sdiv 128 = int (n div 128)" and mod: "int n smod 128 = int (n mod 128)"
    by (simp_all add: c_div_pos c_mod_pos zdiv_int zmod_int)
  have d: "(word_of_int (int n smod 128) :: u8) = of_nat (n mod 128)" by (simp add: mod)
  show ?case
  proof (cases "n < 128")
    case True
    have v: "varint n = [of_nat n]" using True by (subst varint.simps) simp
    then show ?thesis
      using True "1.prems" by (subst encode_loop.simps) (simp add: div d mem_simps Let_def)
  next
    case False
    then have pos: "0 < n div 128" by simp
    have v: "varint n = of_nat (n mod 128 + 128) # varint (n div 128)"
      using False by (subst varint.simps) simp
    let ?buf = "patch_at buf (p + rc) [of_nat (n mod 128 + 128)]"
    have wr: "mem_write buf (p + rc) [of_nat (n mod 128 + 128)] = Some ?buf"
      using "1.prems" v by (simp add: mem_simps)
    have ih: "encode_loop ?buf p (int (n div 128)) (rc + 1) =
        Some (patch_at ?buf (p + (rc + 1)) (varint (n div 128)), rc + 1 + length (varint (n div 128)))"
      by (rule "1.IH" [OF False]) (use "1.prems" v in simp)
    have patch: "patch_at ?buf (p + (rc + 1)) (varint (n div 128)) = patch_at buf (p + rc) (varint n)"
      using patch_at_append [of "p + rc" "[of_nat (n mod 128 + 128)]" "varint (n div 128)" buf]
        "1.prems" v by simp
    show ?thesis
      using pos wr ih patch v high_bit(1) [of "n mod 128"]
      by (subst encode_loop.simps) (simp add: div d Let_def del: of_nat_add)
  qed
qed

lemma decode_loop_eq:
  assumes "drop p buf = varint n @ rest" and "len + length (varint n) \<le> 4"
  shows "decode_loop (bufchar buf) p len mult val =
    Some (len + length (varint n), val + int n * mult, p + length (varint n))"
  using assms
proof (induction n arbitrary: p len mult val rule: varint.induct)
  case (1 n)
  have p: "p < length buf" using "1.prems"(1) by (metis drop_all append_is_Nil_conv not_less varint_nonempty)
  show ?case
  proof (cases "n < 128")
    case True
    have v: "varint n = [of_nat n]" using True by (subst varint.simps) simp
    then have "buf ! p = of_nat n" using "1.prems"(1) p by (metis append_Cons nth_via_drop)
    then show ?thesis
      using p v low7 [OF True] "1.prems"(2)
      by (subst decode_loop.simps) (simp add: bufchar_def MAX_NO_OF_REMAINING_LENGTH_BYTES_def Let_def)
  next
    case False
    have v: "varint n = of_nat (n mod 128 + 128) # varint (n div 128)"
      using False by (subst varint.simps) simp
    then have c: "buf ! p = of_nat (n mod 128 + 128)" and r: "drop (p + 1) buf = varint (n div 128) @ rest"
      using "1.prems"(1) p by (metis append_Cons nth_via_drop, simp add: drop_Suc tl_drop [symmetric])
    have ih: "decode_loop (bufchar buf) (p + 1) (len + 1) (mult * 128) (val + int (n mod 128) * mult) =
        Some (len + 1 + length (varint (n div 128)),
          val + int (n mod 128) * mult + int (n div 128) * (mult * 128), p + 1 + length (varint (n div 128)))"
      by (rule "1.IH" [OF False r]) (use "1.prems"(2) v in simp)
    have "int n = int (n mod 128) + int (n div 128) * 128"
      by (metis add.commute div_mult_mod_eq of_nat_add of_nat_mult of_nat_numeral)
    then have val: "val + int (n mod 128) * mult + int (n div 128) * (mult * 128) = val + int n * mult"
      by (simp add: algebra_simps)
    have len: "Suc len \<le> 4" using "1.prems"(2) v by simp
    show ?thesis
      using p c ih val v high_bit(2,3) [of "n mod 128"] len
      by (subst decode_loop.simps)
        (simp add: bufchar_def MAX_NO_OF_REMAINING_LENGTH_BYTES_def Let_def del: of_nat_add)
  qed
qed

text \<open>
  A writer that has written \<open>xs\<close> from the start of the buffer \<open>buf\<close>. Every primitive appends its
  wire format as long as it fits.
\<close>

definition wstate :: "bytes \<Rightarrow> bytes \<Rightarrow> writer" where
  "wstate buf xs = (patch_at buf 0 xs, length xs)"

definition u16_be :: "nat \<Rightarrow> bytes" where
  "u16_be n = [of_nat (n div 256), of_nat (n mod 256)]"

lemma length_u16_be [simp]: "length (u16_be n) = 2"
  by (simp add: u16_be_def)

lemma patch_at_more:
  "length xs + length ys \<le> length buf \<Longrightarrow>
    patch_at (patch_at buf 0 xs) (length xs) ys = patch_at buf 0 (xs @ ys)"
  using patch_at_append [of 0 xs ys buf] by simp

lemma write_bytes:
  "length xs + length ys \<le> length buf \<Longrightarrow>
    mem_write (patch_at buf 0 xs) (length xs) ys = Some (patch_at buf 0 (xs @ ys))"
  by (simp add: mem_simps patch_at_more)

lemma writeChar_wstate [mqtt_write]:
  "length xs + 1 \<le> length buf \<Longrightarrow> writeChar c (wstate buf xs) = Some (wstate buf (xs @ [c]))"
  using write_bytes [of xs "[c]" buf] by (simp add: writeChar_def wstate_def)

lemma writeInt_wstate [mqtt_write]:
  assumes "length xs + 2 \<le> length buf"
  shows "writeInt (int n) (wstate buf xs) = Some (wstate buf (xs @ u16_be n))"
proof -
  have "int n sdiv 256 = int (n div 256)" "int n smod 256 = int (n mod 256)"
    by (simp_all add: c_div_pos c_mod_pos zdiv_int zmod_int)
  then show ?thesis using assms by (simp add: writeInt_def mqtt_write u16_be_def)
qed

lemma write_mem_wstate [mqtt_write]:
  "length xs + n \<le> length buf \<Longrightarrow> n \<le> length d \<Longrightarrow>
    write_mem d n (wstate buf xs) = Some (wstate buf (xs @ take n d))"
  using write_bytes [of xs "take n d" buf]
  by (simp add: write_mem_def wstate_def memcpy_def mem_simps)

lemma MQTTPacket_encode_wstate:
  "length xs + length (varint n) \<le> length buf \<Longrightarrow>
    MQTTPacket_encode (patch_at buf 0 xs) (length xs) (int n) =
      Some (patch_at buf 0 (xs @ varint n), length (varint n))"
  using encode_loop_eq [of "length xs" 0 n "patch_at buf 0 xs"]
  by (simp add: MQTTPacket_encode_def patch_at_more)

text \<open>The characters an \<open>MQTTString\<close> stands for, when its two representations do not conflict.\<close>

definition mqtt_bytes :: "MQTTString \<Rightarrow> bytes option" where
  "mqtt_bytes s =
     (case cstring s of
        Some c \<Rightarrow>
          if lenstring_len s > 0 then None
          else map_option (\<lambda>n. take n c) (c_strlen c)
      | None \<Rightarrow>
          if lenstring_len s < 0 then None
          else if lenstring_len s = 0 then Some []
          else (case lenstring_data s of
                  None \<Rightarrow> None
                | Some d \<Rightarrow> if nat (lenstring_len s) \<le> length d then Some (take (nat (lenstring_len s)) d)
                            else None))"

lemma c_strlen_le: "c_strlen c = Some n \<Longrightarrow> n < length c"
proof -
  assume a: "c_strlen c = Some n"
  then have n: "n = length (takeWhile (\<lambda>c. c \<noteq> 0) c)" and z: "0 \<in> set c"
    by (simp_all add: c_strlen_def split: if_splits)
  have "takeWhile (\<lambda>c. c \<noteq> 0) c \<noteq> c" using z by (auto simp: takeWhile_eq_all_conv)
  then have "n \<noteq> length c" using n by (metis takeWhile_eq_take take_all order_refl)
  moreover have "n \<le> length c" unfolding n by (rule length_takeWhile_le)
  ultimately show ?thesis by simp
qed

lemma MQTTstrlen_bytes [mqtt_write]:
  "mqtt_bytes s = Some bs \<Longrightarrow> MQTTstrlen s = Some (int (length bs))"
proof (cases "cstring s")
  case None
  moreover assume "mqtt_bytes s = Some bs"
  ultimately show ?thesis by (auto simp: mqtt_bytes_def MQTTstrlen_def split: option.splits if_splits)
next
  case (Some c)
  moreover assume "mqtt_bytes s = Some bs"
  ultimately obtain n where n: "c_strlen c = Some n" "bs = take n c"
    by (auto simp: mqtt_bytes_def split: if_splits)
  then show ?thesis using Some c_strlen_le [OF n(1)] by (simp add: MQTTstrlen_def)
qed

lemma writeMQTTString_wstate [mqtt_write]:
  assumes s: "mqtt_bytes s = Some bs" and fits: "length xs + 2 + length bs \<le> length buf"
  shows "writeMQTTString s (wstate buf xs) = Some (wstate buf (xs @ u16_be (length bs) @ bs))"
proof (cases "cstring s")
  case None
  show ?thesis
  proof (cases "lenstring_len s = 0")
    case True
    then have "bs = []" using s None by (simp add: mqtt_bytes_def)
    then show ?thesis
      using True None fits writeInt_wstate [of xs buf 0] by (simp add: writeMQTTString_def)
  next
    case False
    with s None obtain d where d: "lenstring_data s = Some d" "nat (lenstring_len s) \<le> length d"
      "bs = take (nat (lenstring_len s)) d" and pos: "0 < lenstring_len s"
      by (auto simp: mqtt_bytes_def split: option.splits if_splits)
    have len: "nat (lenstring_len s) = length bs" using d by simp
    then have "lenstring_len s = int (length bs)" "length bs \<le> length d" "take (length bs) d = bs"
      using pos d by auto
    then show ?thesis
      using pos d(1) fits by (simp add: writeMQTTString_def mqtt_write)
  qed
next
  case (Some c)
  with s obtain n where n: "c_strlen c = Some n" "bs = take n c" "lenstring_len s \<le> 0"
    by (auto simp: mqtt_bytes_def split: if_splits)
  then have "length bs = n" using c_strlen_le [of c n] by simp
  then show ?thesis
    using Some n fits c_strlen_le [of c n]
    by (simp add: writeMQTTString_def writeCString_def mqtt_write)
qed

lemma readChar_eq [mqtt_read]: "drop p buf = c # rest \<Longrightarrow> readChar buf p = Some (c, p + 1)"
proof -
  assume a: "drop p buf = c # rest"
  then have "p < length buf" by (metis drop_all list.distinct(1) not_less)
  then show ?thesis using a by (simp add: readChar_def mem_simps)
qed

lemma uint_byte: "n < 256 \<Longrightarrow> uint (of_nat n :: u8) = int n"
  by (simp add: uint_nat unat_of_nat take_bit_nat_eq_self)

lemma readInt_eq [mqtt_read]:
  assumes "drop p buf = u16_be n @ rest" and "n < 65536"
  shows "readInt buf p = Some (int n, p + 2)"
proof -
  have len: "p + 2 \<le> length buf" using arg_cong [OF assms(1), of length] by simp
  have "uint (of_nat (n div 256) :: u8) = int (n div 256)" "uint (of_nat (n mod 256) :: u8) = int (n mod 256)"
    using assms(2) by (simp_all add: uint_byte)
  moreover have "256 * int (n div 256) + int (n mod 256) = int n"
    by (metis mult_div_mod_eq of_nat_add of_nat_mult of_nat_numeral)
  ultimately show ?thesis
    using len assms(1) by (simp add: readInt_def mem_simps u16_be_def numeral_2_eq_2)
qed

lemma drop_add_append: "drop p buf = xs @ ys \<Longrightarrow> drop (p + length xs) buf = ys"
  by (metis add.commute append_eq_conv_conj drop_drop)

lemma readMQTTLenString_eq [mqtt_read]:
  assumes d: "drop p buf = u16_be (length bs) @ bs @ rest" and "length bs < 65536"
    and "int p + 2 + int (length bs) \<le> enddata"
  shows "\<exists>s'. readMQTTLenString s buf p enddata = Some (s', p + 2 + length bs, True)
    \<and> mqtt_bytes s' = Some bs \<and> cstring s' = None \<and> lenstring_len s' = int (length bs)"
proof -
  have "drop (p + 2) buf = bs @ rest" using drop_add_append [OF d] by simp
  then show ?thesis
    using readInt_eq [OF d assms(2)] assms(3)
    by (auto simp: readMQTTLenString_def mqtt_bytes_def)
qed

lemma MQTTPacket_decodeBuf_eq [mqtt_read]:
  assumes "drop p buf = varint n @ rest" and "n < 268435456"
  shows "MQTTPacket_decodeBuf buf p = Some (length (varint n), int n)"
  using decode_loop_eq [OF assms(1), of 0 1 0] varint_length_le [OF assms(2)]
  by (simp add: MQTTPacket_decodeBuf_def MQTTPacket_decode_def)

lemma MQTTPacket_len_ge:
  assumes "n < 268435456"
  shows "int (1 + length (varint n) + n) \<le> MQTTPacket_len (int n)"
proof -
  consider "n < 128" | "128 \<le> n" "n < 16384" | "16384 \<le> n" "n < 2097152" | "2097152 \<le> n" by linarith
  then show ?thesis
    by cases (use varint_length [of n] assms in \<open>simp_all add: MQTTPacket_len_def Let_def\<close>)
qed

end
