(* ===== verification/Mqtt_Messages.thy ===== *)
theory Mqtt_Messages
  imports Mqtt_Packet
begin

text \<open>
  The MQTT control packets of \<open>packages/pahomqtt/MQTTPacket/src\<close>: publish and acknowledgements
  (\<open>MQTTSerializePublish.c\<close>, \<open>MQTTDeserializePublish.c\<close>), connect (\<open>MQTTConnectClient.c\<close>,
  \<open>MQTTConnectServer.c\<close>), subscribe and unsubscribe (\<open>MQTTSubscribeClient.c\<close>,
  \<open>MQTTSubscribeServer.c\<close>, \<open>MQTTUnsubscribeClient.c\<close>, \<open>MQTTUnsubscribeServer.c\<close>).

  A serializer returns the buffer and its \<open>int\<close> result; a deserializer returns its result and the
  output parameters, which it takes with their old values. \<open>None\<close> is an access outside the packet
  buffer, an output array or a string.
\<close>

section \<open>Publish and acknowledgements\<close>

text \<open>\<open>ptr += MQTTPacket_encode (ptr, len)\<close>.\<close>

definition write_len :: "int \<Rightarrow> writer \<Rightarrow> writer option" where
  "write_len len w = (case w of (buf, p) \<Rightarrow> do { (buf, n) \<leftarrow> MQTTPacket_encode buf p len; Some (buf, p + n) })"

text \<open>Conversion of an \<open>int\<close> to \<open>size_t\<close>.\<close>

definition c_size :: "int \<Rightarrow> nat" where
  "c_size n = nat (n mod 2 ^ 32)"

definition packet_result :: "writer \<Rightarrow> bytes \<times> int" where
  "packet_result w = (fst w, int (snd w))"

definition MQTTSerialize_publishLength :: "int \<Rightarrow> MQTTString \<Rightarrow> int \<Rightarrow> int option" where
  "MQTTSerialize_publishLength qos topicName payloadlen = do {
     n \<leftarrow> MQTTstrlen topicName;
     let len = 2 + n + payloadlen;
     Some (if qos > 0 then len + 2 else len) }"

definition MQTTSerialize_publish ::
  "bytes \<Rightarrow> int \<Rightarrow> u8 \<Rightarrow> int \<Rightarrow> u8 \<Rightarrow> u16 \<Rightarrow> MQTTString \<Rightarrow> bytes \<Rightarrow> int \<Rightarrow> (bytes \<times> int) option" where
  "MQTTSerialize_publish buf buflen dup qos retained packetid topicName payload payloadlen = do {
     rem_len \<leftarrow> MQTTSerialize_publishLength qos topicName payloadlen;
     if MQTTPacket_len rem_len > buflen then Some (buf, MQTTPACKET_BUFFER_TOO_SHORT)
     else do {
       w \<leftarrow> writeChar (header_byte PUBLISH dup (word_of_int qos) retained) (buf, 0);
       w \<leftarrow> write_len rem_len w;
       w \<leftarrow> writeMQTTString topicName w;
       w \<leftarrow> (if qos > 0 then writeInt (uint packetid) w else Some w);
       w \<leftarrow> write_mem payload (c_size payloadlen) w;
       Some (packet_result w)
     }
   }"

definition MQTTSerialize_ack :: "bytes \<Rightarrow> int \<Rightarrow> u8 \<Rightarrow> u8 \<Rightarrow> u16 \<Rightarrow> (bytes \<times> int) option" where
  "MQTTSerialize_ack buf buflen typ dup packetid =
     (if buflen < 4 then Some (buf, MQTTPACKET_BUFFER_TOO_SHORT)
      else do {
        w \<leftarrow> writeChar (header_byte typ dup (if typ = PUBREL then 1 else 0) 0) (buf, 0);
        w \<leftarrow> write_len 2 w;
        w \<leftarrow> writeInt (uint packetid) w;
        Some (packet_result w)
      })"

definition MQTTSerialize_puback :: "bytes \<Rightarrow> int \<Rightarrow> u16 \<Rightarrow> (bytes \<times> int) option" where
  "MQTTSerialize_puback buf buflen packetid = MQTTSerialize_ack buf buflen PUBACK 0 packetid"

definition MQTTSerialize_pubrel :: "bytes \<Rightarrow> int \<Rightarrow> u8 \<Rightarrow> u16 \<Rightarrow> (bytes \<times> int) option" where
  "MQTTSerialize_pubrel buf buflen dup packetid = MQTTSerialize_ack buf buflen PUBREL dup packetid"

definition MQTTSerialize_pubcomp :: "bytes \<Rightarrow> int \<Rightarrow> u16 \<Rightarrow> (bytes \<times> int) option" where
  "MQTTSerialize_pubcomp buf buflen packetid = MQTTSerialize_ack buf buflen PUBCOMP 0 packetid"

record publish_out =
  po_dup :: u8
  po_qos :: int
  po_retained :: u8
  po_packetid :: u16
  po_topicName :: MQTTString
  po_payload :: "bytes option"
  po_payloadlen :: int

definition MQTTDeserialize_publish :: "publish_out \<Rightarrow> bytes \<Rightarrow> int \<Rightarrow> (int \<times> publish_out) option" where
  "MQTTDeserialize_publish out buf buflen = do {
     (header, p) \<leftarrow> readChar buf 0;
     if header_type header \<noteq> PUBLISH then Some (0, out)
     else do {
       let out = out\<lparr>po_dup := header_dup header, po_qos := uint (header_qos header),
                     po_retained := header_retain header\<rparr>;
       (n, mylen) \<leftarrow> MQTTPacket_decodeBuf buf p;
       let p = p + n;
       let enddata = int p + mylen;
       (topic, p, ok) \<leftarrow> readMQTTLenString (po_topicName out) buf p enddata;
       let out = out\<lparr>po_topicName := topic\<rparr>;
       if \<not> ok \<or> enddata - int p < 0 then Some (0, out)
       else do {
         (out, p) \<leftarrow> (if po_qos out > 0
                      then do { (i, p) \<leftarrow> readInt buf p; Some (out\<lparr>po_packetid := word_of_int i\<rparr>, p) }
                      else Some (out, p));
         Some (1, out\<lparr>po_payloadlen := enddata - int p, po_payload := Some (drop p buf)\<rparr>)
       }
     }
   }"

record ack_out =
  ao_packettype :: u8
  ao_dup :: u8
  ao_packetid :: u16

definition MQTTDeserialize_ack :: "ack_out \<Rightarrow> bytes \<Rightarrow> int \<Rightarrow> (int \<times> ack_out) option" where
  "MQTTDeserialize_ack out buf buflen = do {
     (header, p) \<leftarrow> readChar buf 0;
     let out = out\<lparr>ao_dup := header_dup header, ao_packettype := header_type header\<rparr>;
     (rc, mylen) \<leftarrow> MQTTPacket_decodeBuf buf p;
     let p = p + rc;
     let enddata = int p + mylen;
     if enddata - int p < 2 then Some (int rc, out)
     else do {
       (i, p) \<leftarrow> readInt buf p;
       Some (1, out\<lparr>ao_packetid := word_of_int i\<rparr>)
     }
   }"

section \<open>Connect\<close>

record MQTTPacket_willOptions =
  will_topicName :: MQTTString
  will_message :: MQTTString
  will_retained :: u8
  will_qos :: u8

record MQTTPacket_connectData =
  MQTTVersion :: u8
  clientID :: MQTTString
  keepAliveInterval :: u16
  cleansession :: u8
  willFlag :: u8
  will :: MQTTPacket_willOptions
  username :: MQTTString
  password :: MQTTString

text \<open>The bit-fields of the connect flags: unused, cleansession, will, willQoS (2), willRetain,
  password, username.\<close>

definition connect_flags :: "u8 \<Rightarrow> u8 \<Rightarrow> u8 \<Rightarrow> u8 \<Rightarrow> u8 \<Rightarrow> u8 \<Rightarrow> u8" where
  "connect_flags clean wil wqos wretain pass user =
     (push_bit 1 (clean AND 1)) OR (push_bit 2 (wil AND 1)) OR (push_bit 3 (wqos AND 3))
     OR (push_bit 5 (wretain AND 1)) OR (push_bit 6 (pass AND 1)) OR (push_bit 7 (user AND 1))"

definition flag_cleansession :: "u8 \<Rightarrow> u8" where "flag_cleansession b = drop_bit 1 b AND 1"
definition flag_will :: "u8 \<Rightarrow> u8" where "flag_will b = drop_bit 2 b AND 1"
definition flag_willQoS :: "u8 \<Rightarrow> u8" where "flag_willQoS b = drop_bit 3 b AND 3"
definition flag_willRetain :: "u8 \<Rightarrow> u8" where "flag_willRetain b = drop_bit 5 b AND 1"
definition flag_password :: "u8 \<Rightarrow> u8" where "flag_password b = drop_bit 6 b AND 1"
definition flag_username :: "u8 \<Rightarrow> u8" where "flag_username b = drop_bit 7 b AND 1"

definition str_present :: "MQTTString \<Rightarrow> bool" where
  "str_present s = (cstring s \<noteq> None \<or> lenstring_data s \<noteq> None)"

definition MQTTSerialize_connectLength :: "MQTTPacket_connectData \<Rightarrow> int option" where
  "MQTTSerialize_connectLength options = do {
     let len = (if MQTTVersion options = 3 then 12 else if MQTTVersion options = 4 then 10 else 0 :: int);
     n \<leftarrow> MQTTstrlen (clientID options);
     let len = len + n + 2;
     len \<leftarrow> (if willFlag options \<noteq> 0
            then do { a \<leftarrow> MQTTstrlen (will_topicName (will options));
                      b \<leftarrow> MQTTstrlen (will_message (will options));
                      Some (len + (a + 2 + b + 2)) }
            else Some len);
     len \<leftarrow> (if str_present (username options)
            then do { a \<leftarrow> MQTTstrlen (username options); Some (len + a + 2) } else Some len);
     (if str_present (password options)
      then do { a \<leftarrow> MQTTstrlen (password options); Some (len + a + 2) } else Some len) }"

definition MQTT_name :: bytes where "MQTT_name = [0x4D, 0x51, 0x54, 0x54, 0]"

definition MQIsdp_name :: bytes where "MQIsdp_name = [0x4D, 0x51, 0x49, 0x73, 0x64, 0x70, 0]"

definition MQTTSerialize_connect :: "bytes \<Rightarrow> int \<Rightarrow> MQTTPacket_connectData \<Rightarrow> (bytes \<times> int) option" where
  "MQTTSerialize_connect buf buflen options = do {
     len \<leftarrow> MQTTSerialize_connectLength options;
     if MQTTPacket_len len > buflen then Some (buf, MQTTPACKET_BUFFER_TOO_SHORT)
     else do {
       w \<leftarrow> writeChar (header_byte CONNECT 0 0 0) (buf, 0);
       w \<leftarrow> write_len len w;
       w \<leftarrow> (if MQTTVersion options = 4
            then do { w \<leftarrow> writeCString MQTT_name w; writeChar 4 w }
            else do { w \<leftarrow> writeCString MQIsdp_name w; writeChar 3 w });
       let wil = willFlag options \<noteq> 0;
       let flags = connect_flags (cleansession options) (if wil then 1 else 0)
                     (if wil then will_qos (will options) else 0)
                     (if wil then will_retained (will options) else 0)
                     (if str_present (password options) then 1 else 0)
                     (if str_present (username options) then 1 else 0);
       w \<leftarrow> writeChar flags w;
       w \<leftarrow> writeInt (uint (keepAliveInterval options)) w;
       w \<leftarrow> writeMQTTString (clientID options) w;
       w \<leftarrow> (if wil
            then do { w \<leftarrow> writeMQTTString (will_topicName (will options)) w;
                      writeMQTTString (will_message (will options)) w }
            else Some w);
       w \<leftarrow> (if str_present (username options) then writeMQTTString (username options) w else Some w);
       w \<leftarrow> (if str_present (password options) then writeMQTTString (password options) w else Some w);
       Some (packet_result w)
     }
   }"

record connack_out =
  ca_sessionPresent :: u8
  ca_rc :: u8

text \<open>The session-present bit-field is the last of the byte, the most significant bit.\<close>

definition MQTTDeserialize_connack :: "connack_out \<Rightarrow> bytes \<Rightarrow> int \<Rightarrow> (int \<times> connack_out) option" where
  "MQTTDeserialize_connack out buf buflen = do {
     (header, p) \<leftarrow> readChar buf 0;
     if header_type header \<noteq> CONNACK then Some (0, out)
     else do {
       (rc, mylen) \<leftarrow> MQTTPacket_decodeBuf buf p;
       let p = p + rc;
       let enddata = int p + mylen;
       if enddata - int p < 2 then Some (int rc, out)
       else do {
         (flags, p) \<leftarrow> readChar buf p;
         (c, p) \<leftarrow> readChar buf p;
         Some (1, out\<lparr>ca_sessionPresent := drop_bit 7 flags, ca_rc := c\<rparr>)
       }
     }
   }"

definition MQTTSerialize_zero :: "bytes \<Rightarrow> int \<Rightarrow> u8 \<Rightarrow> (bytes \<times> int) option" where
  "MQTTSerialize_zero buf buflen packettype =
     (if buflen < 2 then Some (buf, MQTTPACKET_BUFFER_TOO_SHORT)
      else do {
        w \<leftarrow> writeChar (header_byte packettype 0 0 0) (buf, 0);
        w \<leftarrow> write_len 0 w;
        Some (packet_result w)
      })"

definition MQTTSerialize_disconnect :: "bytes \<Rightarrow> int \<Rightarrow> (bytes \<times> int) option" where
  "MQTTSerialize_disconnect buf buflen = MQTTSerialize_zero buf buflen DISCONNECT"

definition MQTTSerialize_pingreq :: "bytes \<Rightarrow> int \<Rightarrow> (bytes \<times> int) option" where
  "MQTTSerialize_pingreq buf buflen = MQTTSerialize_zero buf buflen PINGREQ"

definition MQTTSerialize_connack_string :: "u8 \<Rightarrow> string" where
  "MQTTSerialize_connack_string rc =
     (if rc = 0 then ''MQTT_CONNECTION_ACCEPTED''
      else if rc = 1 then ''MQTT_UNNACCEPTABLE_PROTOCOL''
      else if rc = 2 then ''MQTT_CLIENTID_REJECTED''
      else if rc = 3 then ''MQTT_SERVER_UNAVAILABLE''
      else if rc = 4 then ''MQTT_BAD_USERNAME_OR_PASSWORD''
      else if rc = 5 then ''MQTT_NOT_AUTHORIZED''
      else ''UNKNOWN_ERROR'')"

text \<open>\<open>memcmp (a, b, n) == 0\<close>.\<close>

definition c_memcmp_eq :: "bytes option \<Rightarrow> bytes \<Rightarrow> nat \<Rightarrow> bool option" where
  "c_memcmp_eq a b n =
     (if n = 0 then Some True
      else do { a \<leftarrow> a; xs \<leftarrow> mem_read a 0 n; ys \<leftarrow> mem_read b 0 n; Some (xs = ys) })"

definition MQTTPacket_checkVersion :: "MQTTString \<Rightarrow> int \<Rightarrow> bool option" where
  "MQTTPacket_checkVersion protocol version =
     (if version = 3 then c_memcmp_eq (lenstring_data protocol) MQIsdp_name (c_size (min 6 (lenstring_len protocol)))
      else if version = 4 then c_memcmp_eq (lenstring_data protocol) MQTT_name (c_size (min 4 (lenstring_len protocol)))
      else Some False)"

definition read_will :: "MQTTPacket_connectData \<Rightarrow> u8 \<Rightarrow> bytes \<Rightarrow> nat \<Rightarrow> int
  \<Rightarrow> (MQTTPacket_connectData \<times> nat \<times> bool) option" where
  "read_will data flags buf p enddata =
     (if flag_will flags \<noteq> 0 then do {
        let data = data\<lparr>will := (will data)\<lparr>will_qos := flag_willQoS flags, will_retained := flag_willRetain flags\<rparr>\<rparr>;
        (t, p, ok) \<leftarrow> readMQTTLenString (will_topicName (will data)) buf p enddata;
        let data = data\<lparr>will := (will data)\<lparr>will_topicName := t\<rparr>\<rparr>;
        if \<not> ok then Some (data, p, False)
        else do {
          (m, p, ok) \<leftarrow> readMQTTLenString (will_message (will data)) buf p enddata;
          Some (data\<lparr>will := (will data)\<lparr>will_message := m\<rparr>\<rparr>, p, ok)
        }
      }
      else Some (data, p, True))"

definition read_credentials :: "MQTTPacket_connectData \<Rightarrow> u8 \<Rightarrow> bytes \<Rightarrow> nat \<Rightarrow> int
  \<Rightarrow> (int \<times> MQTTPacket_connectData) option" where
  "read_credentials data flags buf p enddata =
     (if flag_username flags \<noteq> 0 then
        (if enddata - int p < 3 then Some (0, data)
         else do {
           (u, p, ok) \<leftarrow> readMQTTLenString (username data) buf p enddata;
           let data = data\<lparr>username := u\<rparr>;
           if \<not> ok then Some (0, data)
           else if flag_password flags \<noteq> 0 then
             (if enddata - int p < 3 then Some (0, data)
              else do {
                (pw, p, ok) \<leftarrow> readMQTTLenString (password data) buf p enddata;
                Some (if ok then 1 else 0, data\<lparr>password := pw\<rparr>)
              })
           else Some (1, data)
         })
      else if flag_password flags \<noteq> 0 then Some (0, data)
      else Some (1, data))"

definition MQTTDeserialize_connect ::
  "MQTTPacket_connectData \<Rightarrow> bytes \<Rightarrow> int \<Rightarrow> (int \<times> MQTTPacket_connectData) option" where
  "MQTTDeserialize_connect data buf len = do {
     let enddata = len;
     (header, p) \<leftarrow> readChar buf 0;
     if header_type header \<noteq> CONNECT then Some (0, data)
     else do {
       (n, mylen) \<leftarrow> MQTTPacket_decodeBuf buf p;
       let p = p + n;
       (protocol, p, ok) \<leftarrow> readMQTTLenString MQTTString_initializer buf p enddata;
       if \<not> ok \<or> enddata - int p < 0 then Some (0, data)
       else do {
         (v, p) \<leftarrow> readChar buf p;
         known \<leftarrow> MQTTPacket_checkVersion protocol (uint v);
         if \<not> known then Some (0, data)
         else do {
           (flags, p) \<leftarrow> readChar buf p;
           let data = data\<lparr>cleansession := flag_cleansession flags\<rparr>;
           (ka, p) \<leftarrow> readInt buf p;
           let data = data\<lparr>keepAliveInterval := word_of_int ka\<rparr>;
           (cid, p, ok) \<leftarrow> readMQTTLenString (clientID data) buf p enddata;
           let data = data\<lparr>clientID := cid\<rparr>;
           if \<not> ok then Some (0, data)
           else do {
             let data = data\<lparr>willFlag := flag_will flags\<rparr>;
             (data, p, ok) \<leftarrow> read_will data flags buf p enddata;
             if \<not> ok then Some (0, data)
             else read_credentials data flags buf p enddata
           }
         }
       }
     }
   }"

definition MQTTSerialize_connack :: "bytes \<Rightarrow> int \<Rightarrow> u8 \<Rightarrow> u8 \<Rightarrow> (bytes \<times> int) option" where
  "MQTTSerialize_connack buf buflen connack_rc sessionPresent =
     (if buflen < 2 then Some (buf, MQTTPACKET_BUFFER_TOO_SHORT)
      else do {
        w \<leftarrow> writeChar (header_byte CONNACK 0 0 0) (buf, 0);
        w \<leftarrow> write_len 2 w;
        w \<leftarrow> writeChar (push_bit 7 (sessionPresent AND 1)) w;
        w \<leftarrow> writeChar connack_rc w;
        Some (packet_result w)
      })"

section \<open>Subscribe and unsubscribe\<close>

text \<open>The loops over the first \<open>count\<close> entries of the arrays; an index outside an array is \<open>None\<close>.\<close>

fun sub_len :: "nat \<Rightarrow> int \<Rightarrow> MQTTString list \<Rightarrow> int \<Rightarrow> int option" where
  "sub_len 0 extra ts len = Some len"
| "sub_len (Suc n) extra [] len = None"
| "sub_len (Suc n) extra (t # ts) len = do { k \<leftarrow> MQTTstrlen t; sub_len n extra ts (len + (2 + k + extra)) }"

definition MQTTSerialize_subscribeLength :: "int \<Rightarrow> MQTTString list \<Rightarrow> int option" where
  "MQTTSerialize_subscribeLength count topicFilters = sub_len (nat count) 1 topicFilters 2"

fun write_filters :: "nat \<Rightarrow> MQTTString list \<Rightarrow> int list \<Rightarrow> writer \<Rightarrow> writer option" where
  "write_filters 0 ts qs w = Some w"
| "write_filters (Suc n) (t # ts) (q # qs) w = do {
     w \<leftarrow> writeMQTTString t w;
     w \<leftarrow> writeChar (word_of_int q) w;
     write_filters n ts qs w }"
| "write_filters (Suc n) _ _ w = None"

definition MQTTSerialize_subscribe ::
  "bytes \<Rightarrow> int \<Rightarrow> u8 \<Rightarrow> u16 \<Rightarrow> int \<Rightarrow> MQTTString list \<Rightarrow> int list \<Rightarrow> (bytes \<times> int) option" where
  "MQTTSerialize_subscribe buf buflen dup packetid count topicFilters requestedQoSs = do {
     rem_len \<leftarrow> MQTTSerialize_subscribeLength count topicFilters;
     if MQTTPacket_len rem_len > buflen then Some (buf, MQTTPACKET_BUFFER_TOO_SHORT)
     else do {
       w \<leftarrow> writeChar (header_byte SUBSCRIBE dup 1 0) (buf, 0);
       w \<leftarrow> write_len rem_len w;
       w \<leftarrow> writeInt (uint packetid) w;
       w \<leftarrow> write_filters (nat count) topicFilters requestedQoSs w;
       Some (packet_result w)
     }
   }"

record suback_out =
  so_packetid :: u16
  so_count :: int
  so_grantedQoSs :: "int list"

text \<open>\<open>array[(*count)++] = c\<close>.\<close>

definition array_store :: "'a list \<Rightarrow> int \<Rightarrow> 'a \<Rightarrow> 'a list option" where
  "array_store xs i x = (if 0 \<le> i \<and> nat i < length xs then Some (xs[nat i := x]) else None)"

function suback_loop :: "bytes \<Rightarrow> nat \<Rightarrow> int \<Rightarrow> int \<Rightarrow> suback_out \<Rightarrow> (int \<times> suback_out) option" where
  "suback_loop buf p enddata maxcount out =
     (if int p < enddata then
        (if so_count out > maxcount then Some (-1, out)
         else
           (case readChar buf p of
              None \<Rightarrow> None
            | Some (c, _) \<Rightarrow>
                (case array_store (so_grantedQoSs out) (so_count out) (uint c) of
                   None \<Rightarrow> None
                 | Some qs \<Rightarrow>
                     suback_loop buf (p + 1) enddata maxcount
                       (out\<lparr>so_grantedQoSs := qs, so_count := so_count out + 1\<rparr>))))
      else Some (1, out))"
  by pat_completeness auto
termination by (relation "measure (\<lambda>(buf, p, enddata, maxcount, out). nat (enddata - int p))") auto

declare suback_loop.simps [simp del]

definition MQTTDeserialize_suback :: "suback_out \<Rightarrow> int \<Rightarrow> bytes \<Rightarrow> int \<Rightarrow> (int \<times> suback_out) option" where
  "MQTTDeserialize_suback out maxcount buf buflen = do {
     (header, p) \<leftarrow> readChar buf 0;
     if header_type header \<noteq> SUBACK then Some (0, out)
     else do {
       (rc, mylen) \<leftarrow> MQTTPacket_decodeBuf buf p;
       let p = p + rc;
       let enddata = int p + mylen;
       if enddata - int p < 2 then Some (int rc, out)
       else do {
         (i, p) \<leftarrow> readInt buf p;
         suback_loop buf p enddata maxcount (out\<lparr>so_packetid := word_of_int i, so_count := 0\<rparr>)
       }
     }
   }"

record subscribe_out =
  sb_dup :: u8
  sb_packetid :: u16
  sb_count :: nat
  sb_topicFilters :: "MQTTString list"
  sb_requestedQoSs :: "int list"

text \<open>
  The loop of \<open>MQTTDeserialize_subscribe\<close>. The string is read into \<open>topicFilters[*count]\<close> in place;
  \<open>maxcount\<close> is not looked at. On a malformed entry the result is \<open>rc\<close>, the length of the remaining
  length field. The guard on the position makes the recursion visibly decrease: a successful read
  moves it by at least two.
\<close>

function subscribe_loop :: "int \<Rightarrow> bytes \<Rightarrow> nat \<Rightarrow> int \<Rightarrow> subscribe_out \<Rightarrow> (int \<times> subscribe_out) option" where
  "subscribe_loop rc buf p enddata out =
     (if int p < enddata then
        (if sb_count out < length (sb_topicFilters out) then
           (case readMQTTLenString (sb_topicFilters out ! sb_count out) buf p enddata of
              None \<Rightarrow> None
            | Some (s, p', ok) \<Rightarrow>
                let out = out\<lparr>sb_topicFilters := (sb_topicFilters out)[sb_count out := s]\<rparr>
                in if \<not> ok then Some (rc, out)
                   else if int p' \<ge> enddata then Some (rc, out)
                   else
                     (case readChar buf p' of
                        None \<Rightarrow> None
                      | Some (c, _) \<Rightarrow>
                          (case array_store (sb_requestedQoSs out) (int (sb_count out)) (uint c) of
                             None \<Rightarrow> None
                           | Some qs \<Rightarrow>
                               if p \<le> p'
                               then subscribe_loop rc buf (p' + 1) enddata
                                      (out\<lparr>sb_requestedQoSs := qs, sb_count := sb_count out + 1\<rparr>)
                               else None)))
         else None)
      else Some (1, out))"
  by pat_completeness auto
termination by (relation "measure (\<lambda>(rc, buf, p, enddata, out). nat (enddata - int p))") auto

declare subscribe_loop.simps [simp del]

definition MQTTDeserialize_subscribe ::
  "subscribe_out \<Rightarrow> int \<Rightarrow> bytes \<Rightarrow> int \<Rightarrow> (int \<times> subscribe_out) option" where
  "MQTTDeserialize_subscribe out maxcount buf buflen = do {
     (header, p) \<leftarrow> readChar buf 0;
     if header_type header \<noteq> SUBSCRIBE then Some (-1, out)
     else do {
       let out = out\<lparr>sb_dup := header_dup header\<rparr>;
       (rc, mylen) \<leftarrow> MQTTPacket_decodeBuf buf p;
       let p = p + rc;
       let enddata = int p + mylen;
       (i, p) \<leftarrow> readInt buf p;
       subscribe_loop (int rc) buf p enddata (out\<lparr>sb_packetid := word_of_int i, sb_count := 0\<rparr>)
     }
   }"

fun write_codes :: "nat \<Rightarrow> int list \<Rightarrow> writer \<Rightarrow> writer option" where
  "write_codes 0 qs w = Some w"
| "write_codes (Suc n) (q # qs) w = do { w \<leftarrow> writeChar (word_of_int q) w; write_codes n qs w }"
| "write_codes (Suc n) [] w = None"

definition MQTTSerialize_suback :: "bytes \<Rightarrow> int \<Rightarrow> u16 \<Rightarrow> int \<Rightarrow> int list \<Rightarrow> (bytes \<times> int) option" where
  "MQTTSerialize_suback buf buflen packetid count grantedQoSs =
     (if buflen < 2 + count then Some (buf, MQTTPACKET_BUFFER_TOO_SHORT)
      else do {
        w \<leftarrow> writeChar (header_byte SUBACK 0 0 0) (buf, 0);
        w \<leftarrow> write_len (2 + count) w;
        w \<leftarrow> writeInt (uint packetid) w;
        w \<leftarrow> write_codes (nat count) grantedQoSs w;
        Some (packet_result w)
      })"

definition MQTTSerialize_unsubscribeLength :: "int \<Rightarrow> MQTTString list \<Rightarrow> int option" where
  "MQTTSerialize_unsubscribeLength count topicFilters = sub_len (nat count) 0 topicFilters 2"

fun write_topics :: "nat \<Rightarrow> MQTTString list \<Rightarrow> writer \<Rightarrow> writer option" where
  "write_topics 0 ts w = Some w"
| "write_topics (Suc n) (t # ts) w = do { w \<leftarrow> writeMQTTString t w; write_topics n ts w }"
| "write_topics (Suc n) [] w = None"

definition MQTTSerialize_unsubscribe ::
  "bytes \<Rightarrow> int \<Rightarrow> u8 \<Rightarrow> u16 \<Rightarrow> int \<Rightarrow> MQTTString list \<Rightarrow> (bytes \<times> int) option" where
  "MQTTSerialize_unsubscribe buf buflen dup packetid count topicFilters = do {
     rem_len \<leftarrow> MQTTSerialize_unsubscribeLength count topicFilters;
     if MQTTPacket_len rem_len > buflen then Some (buf, MQTTPACKET_BUFFER_TOO_SHORT)
     else do {
       w \<leftarrow> writeChar (header_byte UNSUBSCRIBE dup 1 0) (buf, 0);
       w \<leftarrow> write_len rem_len w;
       w \<leftarrow> writeInt (uint packetid) w;
       w \<leftarrow> write_topics (nat count) topicFilters w;
       Some (packet_result w)
     }
   }"

definition MQTTDeserialize_unsuback :: "u16 \<Rightarrow> bytes \<Rightarrow> int \<Rightarrow> (int \<times> u16) option" where
  "MQTTDeserialize_unsuback packetid buf buflen = do {
     (rc, out) \<leftarrow> MQTTDeserialize_ack \<lparr>ao_packettype = 0, ao_dup = 0, ao_packetid = packetid\<rparr> buf buflen;
     Some (if ao_packettype out = UNSUBACK then 1 else rc, ao_packetid out) }"

record unsubscribe_out =
  us_dup :: u8
  us_packetid :: u16
  us_count :: nat
  us_topicFilters :: "MQTTString list"

function unsubscribe_loop :: "int \<Rightarrow> bytes \<Rightarrow> nat \<Rightarrow> int \<Rightarrow> unsubscribe_out \<Rightarrow> (int \<times> unsubscribe_out) option" where
  "unsubscribe_loop rc buf p enddata out =
     (if int p < enddata then
        (if us_count out < length (us_topicFilters out) then
           (case readMQTTLenString (us_topicFilters out ! us_count out) buf p enddata of
              None \<Rightarrow> None
            | Some (s, p', ok) \<Rightarrow>
                let out = out\<lparr>us_topicFilters := (us_topicFilters out)[us_count out := s]\<rparr>
                in if \<not> ok then Some (rc, out)
                   else if p < p'
                   then unsubscribe_loop rc buf p' enddata (out\<lparr>us_count := us_count out + 1\<rparr>)
                   else None)
         else None)
      else Some (1, out))"
  by pat_completeness auto
termination by (relation "measure (\<lambda>(rc, buf, p, enddata, out). nat (enddata - int p))") auto

declare unsubscribe_loop.simps [simp del]

definition MQTTDeserialize_unsubscribe ::
  "unsubscribe_out \<Rightarrow> int \<Rightarrow> bytes \<Rightarrow> int \<Rightarrow> (int \<times> unsubscribe_out) option" where
  "MQTTDeserialize_unsubscribe out maxcount buf buflen = do {
     (header, p) \<leftarrow> readChar buf 0;
     if header_type header \<noteq> UNSUBSCRIBE then Some (0, out)
     else do {
       let out = out\<lparr>us_dup := header_dup header\<rparr>;
       (rc, mylen) \<leftarrow> MQTTPacket_decodeBuf buf p;
       let p = p + rc;
       let enddata = int p + mylen;
       (i, p) \<leftarrow> readInt buf p;
       unsubscribe_loop (int rc) buf p enddata (out\<lparr>us_packetid := word_of_int i, us_count := 0\<rparr>)
     }
   }"

definition MQTTSerialize_unsuback :: "bytes \<Rightarrow> int \<Rightarrow> u16 \<Rightarrow> (bytes \<times> int) option" where
  "MQTTSerialize_unsuback buf buflen packetid =
     (if buflen < 2 then Some (buf, MQTTPACKET_BUFFER_TOO_SHORT)
      else do {
        w \<leftarrow> writeChar (header_byte UNSUBACK 0 0 0) (buf, 0);
        w \<leftarrow> write_len 2 w;
        w \<leftarrow> writeInt (uint packetid) w;
        Some (packet_result w)
      })"

section \<open>Wire format\<close>

lemma writer_start: "(buf, 0) = wstate buf []"
  by (simp add: wstate_def)

lemma write_len_wstate [mqtt_write]:
  "length xs + length (varint n) \<le> length buf \<Longrightarrow>
    write_len (int n) (wstate buf xs) = Some (wstate buf (xs @ varint n))"
  using MQTTPacket_encode_wstate [of xs n buf] by (simp add: write_len_def wstate_def)

lemma packet_result_wstate [simp]: "packet_result (wstate buf xs) = (patch_at buf 0 xs, int (length xs))"
  by (simp add: packet_result_def wstate_def)

lemma uint_u16: "uint (x :: u16) = int (unat x)"
  by simp

lemma unat_u16_less: "unat (x :: u16) < 65536"
  using unsigned_less [of x, where 'a = nat] by simp

lemma bit_times_2: "bit (x * 2 :: u8) n \<longleftrightarrow> n < 8 \<and> n \<noteq> 0 \<and> bit x (n - 1)"
  using bit_double_iff [of x n] by (simp add: mult.commute possible_bit_word)

text \<open>The bit-fields of the header byte are independent of each other.\<close>

lemma header_fields:
  "header_type (header_byte typ dup qos retain) = typ AND 15"
  "header_dup (header_byte typ dup qos retain) = dup AND 1"
  "header_qos (header_byte typ dup qos retain) = qos AND 3"
  "header_retain (header_byte typ dup qos retain) = retain AND 1"
proof -
  have mask: "(15 :: u8) = mask 4" "(3 :: u8) = mask 2" "(1 :: u8) = mask 1"
    by (simp_all add: mask_eq_exp_minus_1)
  show "header_type (header_byte typ dup qos retain) = typ AND 15"
    unfolding header_type_def header_byte_def mask
    by (rule bit_word_eqI) (auto simp: bit_simps bit_times_2)
  show "header_dup (header_byte typ dup qos retain) = dup AND 1"
    unfolding header_dup_def header_byte_def mask
    by (rule bit_word_eqI) (auto simp: bit_simps bit_times_2)
  show "header_qos (header_byte typ dup qos retain) = qos AND 3"
    unfolding header_qos_def header_byte_def mask
    by (rule bit_word_eqI) (auto simp: bit_simps bit_times_2)
  show "header_retain (header_byte typ dup qos retain) = retain AND 1"
    unfolding header_retain_def header_byte_def mask
    by (rule bit_word_eqI) (auto simp: bit_simps bit_times_2)
qed

subsection \<open>Publish\<close>

text \<open>The packet as the MQTT specification lays it out.\<close>

definition publish_body :: "nat \<Rightarrow> u16 \<Rightarrow> bytes \<Rightarrow> bytes \<Rightarrow> bytes" where
  "publish_body qos pid topic payload =
     u16_be (length topic) @ topic @ (if qos > 0 then u16_be (unat pid) else []) @ payload"

definition publish_packet :: "u8 \<Rightarrow> nat \<Rightarrow> u8 \<Rightarrow> u16 \<Rightarrow> bytes \<Rightarrow> bytes \<Rightarrow> bytes" where
  "publish_packet dup qos retained pid topic payload =
     header_byte PUBLISH dup (of_nat qos) retained
       # varint (length (publish_body qos pid topic payload)) @ publish_body qos pid topic payload"

lemma c_size_of_nat: "n < 4294967296 \<Longrightarrow> c_size (int n) = n"
  by (simp add: c_size_def)

lemma publish_length_eq:
  "mqtt_bytes topic = Some t \<Longrightarrow>
    MQTTSerialize_publishLength (int qos) topic (int (length payload)) =
      Some (int (length (publish_body qos pid t payload)))"
  by (simp add: MQTTSerialize_publishLength_def mqtt_write publish_body_def)

text \<open>A packet of body \<open>body\<close> fits wherever \<open>MQTTPacket_len\<close> says so.\<close>

lemma packet_fits:
  assumes "length body < 268435456" and "MQTTPacket_len (int (length body)) \<le> buflen"
    and "buflen \<le> int (length buf)"
  shows "1 + length (varint (length body)) + length body \<le> length buf"
  using MQTTPacket_len_ge [OF assms(1)] assms(2,3) by linarith

lemma serialize_publish_eq:
  assumes t: "mqtt_bytes topic = Some t" and body: "length (publish_body qos pid t payload) < 268435456"
    and len: "MQTTPacket_len (int (length (publish_body qos pid t payload))) \<le> buflen"
    and buf: "buflen \<le> int (length buf)"
  shows "MQTTSerialize_publish buf buflen dup (int qos) retained pid topic payload (int (length payload)) =
    Some (patch_at buf 0 (publish_packet dup qos retained pid t payload),
      int (length (publish_packet dup qos retained pid t payload)))"
proof -
  let ?body = "publish_body qos pid t payload"
  note fits = packet_fits [OF body len buf]
  have lb: "length ?body = 2 + length t + (if qos > 0 then 2 else 0) + length payload"
    by (simp add: publish_body_def)
  have pl: "c_size (int (length payload)) = length payload" using body lb by (intro c_size_of_nat) simp
  let ?h = "[header_byte PUBLISH dup (of_nat qos) retained] @ varint (length ?body)"
  have "MQTTSerialize_publish buf buflen dup (int qos) retained pid topic payload (int (length payload)) =
      do { w \<leftarrow> writeMQTTString topic (wstate buf ?h);
           w \<leftarrow> (if qos > 0 then writeInt (uint pid) w else Some w);
           w \<leftarrow> write_mem payload (length payload) w;
           Some (packet_result w) }"
    using len fits
    by (simp add: MQTTSerialize_publish_def publish_length_eq [OF t, where pid = pid] not_less
        writer_start mqtt_write pl)
  also have "\<dots> = Some (packet_result (wstate buf (?h @ ?body)))"
  proof (cases "qos > 0")
    case True
    then show ?thesis using fits lb by (simp add: mqtt_write t uint_u16 publish_body_def del: of_nat_unat)
  next
    case False
    then show ?thesis using fits lb by (simp add: mqtt_write t publish_body_def)
  qed
  finally show ?thesis by (simp add: publish_packet_def)
qed

lemma uint_qos:
  assumes "qos < 4"
  shows "uint (of_nat qos AND 3 :: u8) = int qos"
proof -
  have "qos = 0 \<or> qos = 1 \<or> qos = 2 \<or> qos = 3" using assms by linarith
  then show ?thesis by auto
qed

lemma deserialize_publish_eq:
  assumes qos: "qos < 4" and t: "length t < 65536"
    and body: "length (publish_body qos pid t payload) < 268435456"
    and buf: "buf = publish_packet dup qos retained pid t payload @ rest"
  shows "\<exists>out'. MQTTDeserialize_publish out buf buflen = Some (1, out')
    \<and> po_dup out' = dup AND 1 \<and> po_qos out' = int qos \<and> po_retained out' = retained AND 1
    \<and> (qos > 0 \<longrightarrow> po_packetid out' = pid) \<and> mqtt_bytes (po_topicName out') = Some t
    \<and> po_payloadlen out' = int (length payload) \<and> po_payload out' = Some (payload @ rest)"
proof -
  let ?body = "publish_body qos pid t payload"
  let ?h = "header_byte PUBLISH dup (of_nat qos) retained" and ?v = "varint (length ?body)"
  let ?id = "if qos > 0 then u16_be (unat pid) else []"
  have buf': "buf = ?h # ?v @ ?body @ rest" using buf by (simp add: publish_packet_def)
  then have d0: "drop 0 buf = ?h # ?v @ ?body @ rest" and d1: "drop 1 buf = ?v @ ?body @ rest" by simp_all
  let ?p = "1 + length ?v"
  have dp: "drop ?p buf = u16_be (length t) @ t @ ?id @ payload @ rest"
    using drop_add_append [OF d1] by (simp add: publish_body_def)
  have fin: "int ?p + 2 + int (length t) \<le> int ?p + int (length ?body)" by (simp add: publish_body_def)
  obtain s where s: "readMQTTLenString (po_topicName (out\<lparr>po_dup := dup AND 1, po_qos := uint (of_nat qos AND 3 :: u8),
      po_retained := retained AND 1\<rparr>)) buf ?p (int ?p + int (length ?body)) = Some (s, ?p + 2 + length t, True)"
    "mqtt_bytes s = Some t"
    using readMQTTLenString_eq [OF dp t fin] by blast
  have dq: "drop (?p + 2 + length t) buf = ?id @ payload @ rest"
    using drop_add_append [of ?p buf "u16_be (length t) @ t" "?id @ payload @ rest"] dp by (simp add: add.assoc)
  note q = uint_qos [OF qos]
  note hd = header_fields [of PUBLISH dup "of_nat qos" retained]
  have ty: "header_type ?h = PUBLISH" using hd(1) by (simp add: PUBLISH_def)
  show ?thesis
  proof (cases "qos > 0")
    case True
    have "readInt buf (?p + 2 + length t) = Some (int (unat pid), ?p + 2 + length t + 2)"
      using dq True by (intro readInt_eq) (simp_all add: unat_u16_less)
    moreover have "drop (?p + 2 + length t + 2) buf = payload @ rest"
      using drop_add_append [of "?p + 2 + length t" buf "u16_be (unat pid)"] dq True by simp
    ultimately show ?thesis
      using True s q hd ty readChar_eq [OF d0] MQTTPacket_decodeBuf_eq [OF d1 body]
      by (simp add: MQTTDeserialize_publish_def publish_body_def)
  next
    case False
    then show ?thesis
      using s q hd ty readChar_eq [OF d0] MQTTPacket_decodeBuf_eq [OF d1 body] dq
      by (simp add: MQTTDeserialize_publish_def publish_body_def)
  qed
qed

subsection \<open>Acknowledgements\<close>

lemma varint_small: "n < 128 \<Longrightarrow> varint n = [of_nat n]"
  by (subst varint.simps) simp

lemma write_len_small [mqtt_write]:
  "n < 128 \<Longrightarrow> length xs + 1 \<le> length buf \<Longrightarrow>
    write_len (int n) (wstate buf xs) = Some (wstate buf (xs @ [of_nat n]))"
  using write_len_wstate [of xs n buf] by (simp add: varint_small)

lemmas write_len_2 = write_len_small [of 2, simplified]
lemmas write_len_0 = write_len_small [of 0, simplified]

definition ack_packet :: "u8 \<Rightarrow> u8 \<Rightarrow> u16 \<Rightarrow> bytes" where
  "ack_packet typ dup pid =
     [header_byte typ dup (if typ = PUBREL then 1 else 0) 0, 2] @ u16_be (unat pid)"

lemma serialize_ack_eq:
  assumes "4 \<le> length buf" and "4 \<le> buflen"
  shows "MQTTSerialize_ack buf buflen typ dup pid = Some (patch_at buf 0 (ack_packet typ dup pid), 4)"
  using assms
  by (simp add: MQTTSerialize_ack_def writer_start mqtt_write write_len_2 uint_u16 ack_packet_def
      del: of_nat_unat)

lemma deserialize_ack_eq:
  assumes "buf = ack_packet typ dup pid @ rest"
  shows "MQTTDeserialize_ack out buf buflen =
    Some (1, \<lparr>ao_packettype = typ AND 15, ao_dup = dup AND 1, ao_packetid = pid\<rparr>)"
proof -
  let ?h = "header_byte typ dup (if typ = PUBREL then 1 else 0) 0"
  have d: "drop 0 buf = ?h # varint 2 @ u16_be (unat pid) @ rest"
    "drop 1 buf = varint 2 @ u16_be (unat pid) @ rest" "drop 2 buf = u16_be (unat pid) @ rest"
    using assms by (simp_all add: ack_packet_def varint_small)
  have "MQTTPacket_decodeBuf buf 1 = Some (1, 2)"
    using MQTTPacket_decodeBuf_eq [OF d(2)] by (simp add: varint_small)
  moreover have "readInt buf (1 + 1) = Some (int (unat pid), 4)"
    using readInt_eq [OF d(3) unat_u16_less] by (simp add: numeral_2_eq_2 [symmetric])
  ultimately show ?thesis
    using readChar_eq [OF d(1)] header_fields [of "typ" dup "if typ = PUBREL then 1 else 0" 0]
    by (cases out) (simp add: MQTTDeserialize_ack_def)
qed

subsection \<open>Subscribe\<close>

definition filter_wire :: "bytes \<times> u8 \<Rightarrow> bytes" where
  "filter_wire f = u16_be (length (fst f)) @ fst f @ [snd f]"

definition filters_wire :: "(bytes \<times> u8) list \<Rightarrow> bytes" where
  "filters_wire fs = concat (map filter_wire fs)"

lemma filters_wire_simps [simp]:
  "filters_wire [] = []" "filters_wire (f # fs) = filter_wire f @ filters_wire fs"
  by (simp_all add: filters_wire_def)

lemma length_filter_wire [simp]: "length (filter_wire f) = length (fst f) + 3"
  by (simp add: filter_wire_def)

definition represent :: "MQTTString list \<Rightarrow> bytes list \<Rightarrow> bool" where
  "represent ss ts = (map mqtt_bytes ss = map Some ts)"

lemma represent_simps [simp]:
  "represent [] []"
  "represent ss (t # ts) \<longleftrightarrow> (\<exists>s ss'. ss = s # ss' \<and> mqtt_bytes s = Some t \<and> represent ss' ts)"
  by (auto simp: represent_def Cons_eq_map_conv)

lemma sub_len_eq:
  "represent ss (map fst fs) \<Longrightarrow>
    sub_len (length fs) 1 ss len = Some (len + int (length (filters_wire fs)))"
  by (induction fs arbitrary: ss len) (auto simp: mqtt_write)

lemma write_filters_eq:
  "represent ss (map fst fs) \<Longrightarrow> length xs + length (filters_wire fs) \<le> length buf \<Longrightarrow>
    write_filters (length fs) ss (map (uint \<circ> snd) fs) (wstate buf xs) =
      Some (wstate buf (xs @ filters_wire fs))"
proof (induction fs arbitrary: ss xs)
  case Nil
  then show ?case by simp
next
  case (Cons f fs)
  then obtain s ss' where ss: "ss = s # ss'" "mqtt_bytes s = Some (fst f)" "represent ss' (map fst fs)"
    by auto
  have "writeMQTTString s (wstate buf xs) = Some (wstate buf (xs @ u16_be (length (fst f)) @ fst f))"
    using Cons.prems ss by (intro writeMQTTString_wstate) simp_all
  then show ?case
    using Cons.IH [of ss' "xs @ filter_wire f"] Cons.prems ss
    by (simp add: writeChar_wstate filter_wire_def)
qed

definition subscribe_body :: "u16 \<Rightarrow> (bytes \<times> u8) list \<Rightarrow> bytes" where
  "subscribe_body pid fs = u16_be (unat pid) @ filters_wire fs"

definition subscribe_packet :: "u8 \<Rightarrow> u16 \<Rightarrow> (bytes \<times> u8) list \<Rightarrow> bytes" where
  "subscribe_packet dup pid fs =
     header_byte SUBSCRIBE dup 1 0 # varint (length (subscribe_body pid fs)) @ subscribe_body pid fs"

lemma serialize_subscribe_eq:
  assumes ss: "represent ss (map fst fs)" and body: "length (subscribe_body pid fs) < 268435456"
    and len: "MQTTPacket_len (int (length (subscribe_body pid fs))) \<le> buflen"
    and buf: "buflen \<le> int (length buf)"
  shows "MQTTSerialize_subscribe buf buflen dup pid (int (length fs)) ss (map (uint \<circ> snd) fs) =
    Some (patch_at buf 0 (subscribe_packet dup pid fs), int (length (subscribe_packet dup pid fs)))"
proof -
  note fits = packet_fits [OF body len buf]
  have rem: "MQTTSerialize_subscribeLength (int (length fs)) ss = Some (int (length (subscribe_body pid fs)))"
    using sub_len_eq [OF ss, of 2] by (simp add: MQTTSerialize_subscribeLength_def subscribe_body_def)
  let ?h = "[header_byte SUBSCRIBE dup 1 0] @ varint (length (subscribe_body pid fs))"
  have "MQTTSerialize_subscribe buf buflen dup pid (int (length fs)) ss (map (uint \<circ> snd) fs) =
      do { w \<leftarrow> writeInt (int (unat pid)) (wstate buf ?h);
           w \<leftarrow> write_filters (length fs) ss (map (uint \<circ> snd) fs) w;
           Some (packet_result w) }"
    using len fits by (simp add: MQTTSerialize_subscribe_def rem not_less writer_start mqtt_write)
  also have "\<dots> = Some (packet_result (wstate buf (?h @ subscribe_body pid fs)))"
    using fits write_filters_eq [OF ss, of "?h @ u16_be (unat pid)" buf]
    by (simp add: writeInt_wstate subscribe_body_def del: of_nat_unat)
  finally show ?thesis by (simp add: subscribe_packet_def)
qed

text \<open>What a receiver with large enough arrays reads.\<close>

lemma subscribe_loop_eq:
  assumes "drop p buf = filters_wire fs @ rest" and "enddata = int p + int (length (filters_wire fs))"
    and "list_all (\<lambda>f. length (fst f) < 65536) fs"
    and "sb_count out + length fs \<le> length (sb_topicFilters out)"
    and "sb_count out + length fs \<le> length (sb_requestedQoSs out)"
  shows "\<exists>out'. subscribe_loop rc buf p enddata out = Some (1, out')
    \<and> sb_dup out' = sb_dup out \<and> sb_packetid out' = sb_packetid out
    \<and> sb_count out' = sb_count out + length fs
    \<and> take (sb_count out) (sb_topicFilters out') = take (sb_count out) (sb_topicFilters out)
    \<and> take (sb_count out) (sb_requestedQoSs out') = take (sb_count out) (sb_requestedQoSs out)
    \<and> represent (take (length fs) (drop (sb_count out) (sb_topicFilters out'))) (map fst fs)
    \<and> take (length fs) (drop (sb_count out) (sb_requestedQoSs out')) = map (uint \<circ> snd) fs"
  using assms
proof (induction fs arbitrary: p out)
  case Nil
  then show ?case by (subst subscribe_loop.simps) (simp add: represent_def)
next
  case (Cons f fs)
  let ?k = "sb_count out" and ?t = "fst f"
  have d: "drop p buf = u16_be (length ?t) @ ?t @ snd f # filters_wire fs @ rest"
    using Cons.prems(1) by (simp add: filter_wire_def)
  have lt: "int p < enddata" "?k < length (sb_topicFilters out)" "?k < length (sb_requestedQoSs out)"
    using Cons.prems by simp_all
  obtain s where s: "readMQTTLenString (sb_topicFilters out ! ?k) buf p enddata =
      Some (s, p + 2 + length ?t, True)" "mqtt_bytes s = Some ?t"
  proof -
    have "length ?t < 65536" "int p + 2 + int (length ?t) \<le> enddata" using Cons.prems(2,3) by simp_all
    from readMQTTLenString_eq [OF d this, of "sb_topicFilters out ! ?k"] show thesis using that by blast
  qed
  have d2: "drop (p + 2 + length ?t) buf = snd f # filters_wire fs @ rest"
    using drop_add_append [of p buf "u16_be (length ?t) @ ?t"] d by (simp add: add.assoc)
  then have d3: "drop (p + 2 + length ?t + 1) buf = filters_wire fs @ rest"
    using drop_add_append [of "p + 2 + length ?t" buf "[snd f]"] by simp
  let ?out = "out\<lparr>sb_topicFilters := (sb_topicFilters out)[?k := s],
    sb_requestedQoSs := (sb_requestedQoSs out)[?k := uint (snd f)], sb_count := ?k + 1\<rparr>"
  have step: "subscribe_loop rc buf p enddata out = subscribe_loop rc buf (p + 2 + length ?t + 1) enddata ?out"
    using lt s(1) readChar_eq [OF d2] Cons.prems(2)
    by (subst subscribe_loop.simps) (simp add: array_store_def Let_def)
  have "\<exists>out'. subscribe_loop rc buf (p + 2 + length ?t + 1) enddata ?out = Some (1, out')
    \<and> sb_dup out' = sb_dup ?out \<and> sb_packetid out' = sb_packetid ?out
    \<and> sb_count out' = sb_count ?out + length fs
    \<and> take (sb_count ?out) (sb_topicFilters out') = take (sb_count ?out) (sb_topicFilters ?out)
    \<and> take (sb_count ?out) (sb_requestedQoSs out') = take (sb_count ?out) (sb_requestedQoSs ?out)
    \<and> represent (take (length fs) (drop (sb_count ?out) (sb_topicFilters out'))) (map fst fs)
    \<and> take (length fs) (drop (sb_count ?out) (sb_requestedQoSs out')) = map (uint \<circ> snd) fs"
    by (rule Cons.IH) (use d3 Cons.prems in simp_all)
  then obtain out' where o: "subscribe_loop rc buf p enddata out = Some (1, out')"
    "sb_dup out' = sb_dup out" "sb_packetid out' = sb_packetid out" "sb_count out' = ?k + length (f # fs)"
    and tk: "take (Suc ?k) (sb_topicFilters out') = take (Suc ?k) ((sb_topicFilters out)[?k := s])"
      "take (Suc ?k) (sb_requestedQoSs out') = take (Suc ?k) ((sb_requestedQoSs out)[?k := uint (snd f)])"
    and rest: "represent (take (length fs) (drop (Suc ?k) (sb_topicFilters out'))) (map fst fs)"
      "take (length fs) (drop (Suc ?k) (sb_requestedQoSs out')) = map (uint \<circ> snd) fs"
    unfolding step by auto
  have split: "take ?k ys = take ?k xs \<and> take (Suc n) (drop ?k ys) = x # take n (drop (Suc ?k) ys)"
    if "take (Suc ?k) ys = take (Suc ?k) (xs[?k := x])" "?k < length xs" for xs ys n and x :: 'b
  proof -
    have "Suc ?k \<le> length ys" using arg_cong [OF that(1), of length] that(2) by simp
    moreover have "ys ! ?k = x" using arg_cong [OF that(1), of "\<lambda>zs. zs ! ?k"] that(2) by simp
    moreover have "take ?k ys = take ?k xs"
      using arg_cong [OF that(1), of "take ?k"] that(2) by simp
    ultimately show ?thesis by (simp add: Cons_nth_drop_Suc [symmetric])
  qed
  show ?case
    using o rest s(2) split [OF tk(1) lt(2)] split [OF tk(2) lt(3)] by auto
qed

lemma deserialize_subscribe_eq:
  assumes body: "length (subscribe_body pid fs) < 268435456"
    and small: "list_all (\<lambda>f. length (fst f) < 65536) fs"
    and room: "length fs \<le> length (sb_topicFilters out)" "length fs \<le> length (sb_requestedQoSs out)"
    and buf: "buf = subscribe_packet dup pid fs @ rest"
  shows "\<exists>out'. MQTTDeserialize_subscribe out maxcount buf buflen = Some (1, out')
    \<and> sb_dup out' = dup AND 1 \<and> sb_packetid out' = pid \<and> sb_count out' = length fs
    \<and> represent (take (length fs) (sb_topicFilters out')) (map fst fs)
    \<and> take (length fs) (sb_requestedQoSs out') = map (uint \<circ> snd) fs"
proof -
  let ?h = "header_byte SUBSCRIBE dup 1 0" and ?v = "varint (length (subscribe_body pid fs))"
  have d0: "drop 0 buf = ?h # ?v @ subscribe_body pid fs @ rest"
    and d1: "drop 1 buf = ?v @ subscribe_body pid fs @ rest"
    using buf by (simp_all add: subscribe_packet_def)
  let ?p = "1 + length ?v"
  have d2: "drop ?p buf = u16_be (unat pid) @ filters_wire fs @ rest"
    using drop_add_append [OF d1] by (simp add: subscribe_body_def)
  have d3: "drop (?p + 2) buf = filters_wire fs @ rest" using drop_add_append [OF d2] by simp
  let ?out = "out\<lparr>sb_dup := dup AND 1, sb_packetid := pid, sb_count := 0\<rparr>"
  have fin: "int ?p + int (length (subscribe_body pid fs)) = int (?p + 2) + int (length (filters_wire fs))"
    by (simp add: subscribe_body_def)
  have loop: "\<exists>out'. subscribe_loop rc buf (?p + 2) (int ?p + int (length (subscribe_body pid fs))) ?out = Some (1, out')
    \<and> sb_dup out' = dup AND 1 \<and> sb_packetid out' = pid \<and> sb_count out' = length fs
    \<and> represent (take (length fs) (sb_topicFilters out')) (map fst fs)
    \<and> take (length fs) (sb_requestedQoSs out') = map (uint \<circ> snd) fs" for rc
    using subscribe_loop_eq [OF d3 fin small, of ?out rc] room by simp
  have "header_type ?h = SUBSCRIBE" "header_dup ?h = dup AND 1"
    by (simp_all add: header_fields SUBSCRIBE_def)
  then show ?thesis
    using readChar_eq [OF d0] MQTTPacket_decodeBuf_eq [OF d1 body] readInt_eq [OF d2 unat_u16_less] loop
    by (simp add: MQTTDeserialize_subscribe_def)
qed

subsection \<open>Suback\<close>

lemma write_codes_eq:
  "length xs + length cs \<le> length buf \<Longrightarrow>
    write_codes (length cs) (map uint cs) (wstate buf xs) = Some (wstate buf (xs @ cs))"
  by (induction cs arbitrary: xs) (simp_all add: writeChar_wstate)

definition suback_packet :: "u16 \<Rightarrow> bytes \<Rightarrow> bytes" where
  "suback_packet pid cs = header_byte SUBACK 0 0 0 # varint (2 + length cs) @ u16_be (unat pid) @ cs"

lemma serialize_suback_eq:
  assumes "int (2 + length cs) \<le> buflen" and "length (suback_packet pid cs) \<le> length buf"
  shows "MQTTSerialize_suback buf buflen pid (int (length cs)) (map uint cs) =
    Some (patch_at buf 0 (suback_packet pid cs), int (length (suback_packet pid cs)))"
proof -
  let ?h = "[header_byte SUBACK 0 0 0] @ varint (2 + length cs)"
  have "write_len (2 + int (length cs)) (wstate buf [header_byte SUBACK 0 0 0]) = Some (wstate buf ?h)"
    using assms(2) write_len_wstate [of "[header_byte SUBACK 0 0 0]" "2 + length cs" buf]
    by (simp add: suback_packet_def)
  moreover have "writeInt (uint pid) (wstate buf ?h) = Some (wstate buf (?h @ u16_be (unat pid)))"
    using assms(2) writeInt_wstate [of ?h buf "unat pid"] by (simp add: suback_packet_def)
  moreover have "write_codes (length cs) (map uint cs) (wstate buf (?h @ u16_be (unat pid))) =
      Some (wstate buf (?h @ u16_be (unat pid) @ cs))"
    using assms(2) write_codes_eq [of "?h @ u16_be (unat pid)" cs buf] by (simp add: suback_packet_def)
  moreover have "writeChar (header_byte SUBACK 0 0 0) (wstate buf []) = Some (wstate buf [header_byte SUBACK 0 0 0])"
    using assms(2) writeChar_wstate [of "[]" buf] by (simp add: suback_packet_def)
  ultimately show ?thesis
    using assms(1) by (simp add: MQTTSerialize_suback_def writer_start suback_packet_def)
qed

lemma suback_loop_eq:
  assumes "drop p buf = cs @ rest" and "enddata = int p + int (length cs)" and "0 \<le> so_count out"
    and "so_count out + int (length cs) \<le> maxcount"
    and "so_count out + int (length cs) \<le> int (length (so_grantedQoSs out))"
  shows "\<exists>out'. suback_loop buf p enddata maxcount out = Some (1, out')
    \<and> so_packetid out' = so_packetid out \<and> so_count out' = so_count out + int (length cs)
    \<and> so_grantedQoSs out' = patch_at (so_grantedQoSs out) (nat (so_count out)) (map uint cs)"
  using assms
proof (induction cs arbitrary: p out)
  case Nil
  then show ?case by (subst suback_loop.simps) simp
next
  case (Cons c cs)
  let ?k = "nat (so_count out)"
  have k: "?k < length (so_grantedQoSs out)" "so_count out \<le> maxcount" "int p < enddata"
    using Cons.prems by simp_all
  have d: "drop p buf = c # cs @ rest" and d1: "drop (p + 1) buf = cs @ rest"
    using Cons.prems(1) drop_add_append [of p buf "[c]" "cs @ rest"] by simp_all
  let ?out = "out\<lparr>so_grantedQoSs := (so_grantedQoSs out)[?k := uint c], so_count := so_count out + 1\<rparr>"
  have step: "suback_loop buf p enddata maxcount out = suback_loop buf (p + 1) enddata maxcount ?out"
    using k Cons.prems(3) readChar_eq [OF d]
    by (subst suback_loop.simps) (simp add: array_store_def)
  have "\<exists>out'. suback_loop buf (p + 1) enddata maxcount ?out = Some (1, out')
    \<and> so_packetid out' = so_packetid ?out \<and> so_count out' = so_count ?out + int (length cs)
    \<and> so_grantedQoSs out' = patch_at (so_grantedQoSs ?out) (nat (so_count ?out)) (map uint cs)"
    by (rule Cons.IH) (use d1 Cons.prems in simp_all)
  moreover have "patch_at ((so_grantedQoSs out)[?k := uint c]) (nat (so_count out + 1)) (map uint cs) =
      patch_at (so_grantedQoSs out) ?k (map uint (c # cs))"
  proof -
    have "(so_grantedQoSs out)[?k := uint c] = patch_at (so_grantedQoSs out) ?k [uint c]"
      using k(1) by (simp add: patch_at_def upd_conv_take_nth_drop)
    moreover have "nat (so_count out + 1) = ?k + length [uint c]" using Cons.prems(3) by simp
    ultimately show ?thesis
      using patch_at_append [of ?k "[uint c]" "map uint cs" "so_grantedQoSs out"] Cons.prems(3,5) by simp
  qed
  ultimately show ?case unfolding step using Cons.prems(3) by (auto simp: add.commute)
qed

lemma deserialize_suback_eq:
  assumes "int (length cs) \<le> maxcount" and "length cs \<le> length (so_grantedQoSs out)"
    and "length cs < 268435454" and buf: "buf = suback_packet pid cs @ rest"
  shows "\<exists>out'. MQTTDeserialize_suback out maxcount buf buflen = Some (1, out')
    \<and> so_packetid out' = pid \<and> so_count out' = int (length cs)
    \<and> take (length cs) (so_grantedQoSs out') = map uint cs"
proof -
  let ?h = "header_byte SUBACK 0 0 0" and ?v = "varint (2 + length cs)"
  have d0: "drop 0 buf = ?h # ?v @ u16_be (unat pid) @ cs @ rest"
    and d1: "drop 1 buf = ?v @ u16_be (unat pid) @ cs @ rest"
    using buf by (simp_all add: suback_packet_def)
  let ?p = "1 + length ?v"
  have d2: "drop ?p buf = u16_be (unat pid) @ cs @ rest" using drop_add_append [OF d1] by simp
  have d3: "drop (?p + 2) buf = cs @ rest" using drop_add_append [OF d2] by simp
  let ?out = "out\<lparr>so_packetid := pid, so_count := 0\<rparr>"
  have fin: "int ?p + int (2 + length cs) = int (?p + 2) + int (length cs)" by simp
  obtain out' where "suback_loop buf (?p + 2) (int ?p + int (2 + length cs)) maxcount ?out = Some (1, out')"
    "so_packetid out' = pid" "so_count out' = int (length cs)"
    "so_grantedQoSs out' = patch_at (so_grantedQoSs out) 0 (map uint cs)"
    using suback_loop_eq [OF d3 fin, of ?out maxcount] assms(1,2) by auto
  moreover have "take (length cs) (patch_at (so_grantedQoSs out) 0 (map uint cs)) = map uint cs"
    by (simp add: patch_at_def)
  moreover have "header_type ?h = SUBACK" by (simp add: header_fields SUBACK_def)
  moreover have "2 + length cs < 268435456" using assms(3) by simp
  note MQTTPacket_decodeBuf_eq [OF d1 this]
  ultimately show ?thesis
    using readChar_eq [OF d0] readInt_eq [OF d2 unat_u16_less] by (simp add: MQTTDeserialize_suback_def)
qed

subsection \<open>Connect\<close>

definition str_wire :: "bytes \<Rightarrow> bytes" where
  "str_wire x = u16_be (length x) @ x"

lemma length_str_wire [simp]: "length (str_wire x) = length x + 2"
  by (simp add: str_wire_def)

definition opt_wire :: "bool \<Rightarrow> bytes \<Rightarrow> bytes" where
  "opt_wire c x = (if c then str_wire x else [])"

text \<open>The strings of connect options: client id, will topic, will message, user name, password.\<close>

definition connect_strings :: "MQTTPacket_connectData \<Rightarrow> bytes \<Rightarrow> bytes \<Rightarrow> bytes \<Rightarrow> bytes \<Rightarrow> bytes \<Rightarrow> bool" where
  "connect_strings c cid wt wm us pw =
     (mqtt_bytes (clientID c) = Some cid
      \<and> (willFlag c \<noteq> 0 \<longrightarrow> mqtt_bytes (will_topicName (will c)) = Some wt
          \<and> mqtt_bytes (will_message (will c)) = Some wm)
      \<and> (str_present (username c) \<longrightarrow> mqtt_bytes (username c) = Some us)
      \<and> (str_present (password c) \<longrightarrow> mqtt_bytes (password c) = Some pw))"

definition connect_name :: "MQTTPacket_connectData \<Rightarrow> bytes" where
  "connect_name c =
     (if MQTTVersion c = 4 then u16_be 4 @ [0x4D, 0x51, 0x54, 0x54] @ [4]
      else u16_be 6 @ [0x4D, 0x51, 0x49, 0x73, 0x64, 0x70] @ [3])"

definition connect_flag_byte :: "MQTTPacket_connectData \<Rightarrow> u8" where
  "connect_flag_byte c =
     connect_flags (cleansession c) (if willFlag c \<noteq> 0 then 1 else 0)
       (if willFlag c \<noteq> 0 then will_qos (will c) else 0)
       (if willFlag c \<noteq> 0 then will_retained (will c) else 0)
       (if str_present (password c) then 1 else 0) (if str_present (username c) then 1 else 0)"

definition connect_body :: "MQTTPacket_connectData \<Rightarrow> bytes \<Rightarrow> bytes \<Rightarrow> bytes \<Rightarrow> bytes \<Rightarrow> bytes \<Rightarrow> bytes" where
  "connect_body c cid wt wm us pw =
     connect_name c @ [connect_flag_byte c] @ u16_be (unat (keepAliveInterval c)) @ str_wire cid
       @ opt_wire (willFlag c \<noteq> 0) wt @ opt_wire (willFlag c \<noteq> 0) wm
       @ opt_wire (str_present (username c)) us @ opt_wire (str_present (password c)) pw"

definition connect_packet :: "MQTTPacket_connectData \<Rightarrow> bytes \<Rightarrow> bytes \<Rightarrow> bytes \<Rightarrow> bytes \<Rightarrow> bytes \<Rightarrow> bytes" where
  "connect_packet c cid wt wm us pw =
     header_byte CONNECT 0 0 0 # varint (length (connect_body c cid wt wm us pw))
       @ connect_body c cid wt wm us pw"

lemma connect_length_eq:
  assumes "connect_strings c cid wt wm us pw" and "MQTTVersion c = 3 \<or> MQTTVersion c = 4"
  shows "MQTTSerialize_connectLength c = Some (int (length (connect_body c cid wt wm us pw)))"
  using assms
  by (auto simp: MQTTSerialize_connectLength_def connect_strings_def connect_body_def connect_name_def
      opt_wire_def mqtt_write)

lemma writeMQTTString_str [mqtt_write]:
  "mqtt_bytes s = Some bs \<Longrightarrow> length xs + length (str_wire bs) \<le> length buf \<Longrightarrow>
    writeMQTTString s (wstate buf xs) = Some (wstate buf (xs @ str_wire bs))"
  using writeMQTTString_wstate [of s bs xs buf] by (simp add: str_wire_def)

lemma write_opt_str:
  "(c \<longrightarrow> mqtt_bytes s = Some bs) \<Longrightarrow> length xs + length (opt_wire c bs) \<le> length buf \<Longrightarrow>
    (if c then writeMQTTString s (wstate buf xs) else Some (wstate buf xs)) =
      Some (wstate buf (xs @ opt_wire c bs))"
  by (auto simp: opt_wire_def writeMQTTString_str)

lemma write_name:
  "length xs + length (connect_name c) \<le> length buf \<Longrightarrow>
    (if MQTTVersion c = 4
     then do { w \<leftarrow> writeCString MQTT_name (wstate buf xs); writeChar 4 w }
     else do { w \<leftarrow> writeCString MQIsdp_name (wstate buf xs); writeChar 3 w }) =
      Some (wstate buf (xs @ connect_name c))"
proof (cases "MQTTVersion c = 4")
  case True
  moreover assume "length xs + length (connect_name c) \<le> length buf"
  moreover have "c_strlen MQTT_name = Some 4" by (simp add: c_strlen_def MQTT_name_def)
  ultimately show ?thesis
    by (simp add: writeCString_def connect_name_def writeChar_wstate write_mem_wstate
        writeInt_wstate [of _ _ 4, simplified] MQTT_name_def)
next
  case False
  moreover assume "length xs + length (connect_name c) \<le> length buf"
  moreover have "c_strlen MQIsdp_name = Some 6" by (simp add: c_strlen_def MQIsdp_name_def)
  ultimately show ?thesis
    by (simp add: writeCString_def connect_name_def writeChar_wstate write_mem_wstate
        writeInt_wstate [of _ _ 6, simplified] MQIsdp_name_def)
qed

lemma serialize_connect_eq:
  assumes s: "connect_strings c cid wt wm us pw" and v: "MQTTVersion c = 3 \<or> MQTTVersion c = 4"
    and body: "length (connect_body c cid wt wm us pw) < 268435456"
    and len: "MQTTPacket_len (int (length (connect_body c cid wt wm us pw))) \<le> buflen"
    and buf: "buflen \<le> int (length buf)"
  shows "MQTTSerialize_connect buf buflen c =
    Some (patch_at buf 0 (connect_packet c cid wt wm us pw), int (length (connect_packet c cid wt wm us pw)))"
proof -
  let ?body = "connect_body c cid wt wm us pw"
  let ?W = "willFlag c \<noteq> 0" and ?U = "str_present (username c)" and ?P = "str_present (password c)"
  note fits = packet_fits [OF body len buf]
  define h where "h = [header_byte CONNECT 0 0 0] @ varint (length ?body)"
  define n where "n = connect_name c"
  define k where "k = [connect_flag_byte c] @ u16_be (unat (keepAliveInterval c)) @ str_wire cid"
  have b: "?body = n @ k @ opt_wire ?W wt @ opt_wire ?W wm @ opt_wire ?U us @ opt_wire ?P pw"
    by (simp add: connect_body_def n_def k_def)
  have room: "length h + length ?body \<le> length buf" using fits by (simp add: h_def)
  have s': "mqtt_bytes (clientID c) = Some cid" "?W \<longrightarrow> mqtt_bytes (will_topicName (will c)) = Some wt"
    "?W \<longrightarrow> mqtt_bytes (will_message (will c)) = Some wm" "?U \<longrightarrow> mqtt_bytes (username c) = Some us"
    "?P \<longrightarrow> mqtt_bytes (password c) = Some pw"
    using s by (auto simp: connect_strings_def)
  have "MQTTSerialize_connect buf buflen c = do {
      w \<leftarrow> (if MQTTVersion c = 4
           then do { w \<leftarrow> writeCString MQTT_name (wstate buf h); writeChar 4 w }
           else do { w \<leftarrow> writeCString MQIsdp_name (wstate buf h); writeChar 3 w });
      w \<leftarrow> writeChar (connect_flag_byte c) w;
      w \<leftarrow> writeInt (int (unat (keepAliveInterval c))) w;
      w \<leftarrow> writeMQTTString (clientID c) w;
      w \<leftarrow> (if ?W then do { w \<leftarrow> writeMQTTString (will_topicName (will c)) w;
                      writeMQTTString (will_message (will c)) w } else Some w);
      w \<leftarrow> (if ?U then writeMQTTString (username c) w else Some w);
      w \<leftarrow> (if ?P then writeMQTTString (password c) w else Some w);
      Some (packet_result w) }"
    using len fits
    by (simp add: MQTTSerialize_connect_def connect_length_eq [OF s v] not_less writer_start mqtt_write
        h_def connect_flag_byte_def Let_def)
  also have "(if MQTTVersion c = 4
           then do { w \<leftarrow> writeCString MQTT_name (wstate buf h); writeChar 4 w }
           else do { w \<leftarrow> writeCString MQIsdp_name (wstate buf h); writeChar 3 w }) = Some (wstate buf (h @ n))"
    unfolding n_def by (rule write_name) (use room b in \<open>simp add: n_def\<close>)
  also have "(do { w \<leftarrow> Some (wstate buf (h @ n));
      w \<leftarrow> writeChar (connect_flag_byte c) w;
      w \<leftarrow> writeInt (int (unat (keepAliveInterval c))) w;
      w \<leftarrow> writeMQTTString (clientID c) w;
      w \<leftarrow> (if ?W then do { w \<leftarrow> writeMQTTString (will_topicName (will c)) w;
                      writeMQTTString (will_message (will c)) w } else Some w);
      w \<leftarrow> (if ?U then writeMQTTString (username c) w else Some w);
      w \<leftarrow> (if ?P then writeMQTTString (password c) w else Some w);
      Some (packet_result w) }) = (do {
      w \<leftarrow> (if ?W then do { w \<leftarrow> writeMQTTString (will_topicName (will c)) (wstate buf (h @ n @ k));
                      writeMQTTString (will_message (will c)) w } else Some (wstate buf (h @ n @ k)));
      w \<leftarrow> (if ?U then writeMQTTString (username c) w else Some w);
      w \<leftarrow> (if ?P then writeMQTTString (password c) w else Some w);
      Some (packet_result w) })"
    using room b s'(1)
    by (simp add: writeChar_wstate writeInt_wstate writeMQTTString_str k_def del: of_nat_unat)
  also have "(if ?W then do { w \<leftarrow> writeMQTTString (will_topicName (will c)) (wstate buf (h @ n @ k));
                      writeMQTTString (will_message (will c)) w } else Some (wstate buf (h @ n @ k))) =
      Some (wstate buf (h @ n @ k @ opt_wire ?W wt @ opt_wire ?W wm))"
    using room b s'(2,3) by (auto simp: opt_wire_def writeMQTTString_str)
  also have "(do { w \<leftarrow> Some (wstate buf (h @ n @ k @ opt_wire ?W wt @ opt_wire ?W wm));
      w \<leftarrow> (if ?U then writeMQTTString (username c) w else Some w);
      w \<leftarrow> (if ?P then writeMQTTString (password c) w else Some w);
      Some (packet_result w) }) = Some (packet_result (wstate buf (h @ ?body)))"
    using room b write_opt_str [OF s'(4), of "h @ n @ k @ opt_wire ?W wt @ opt_wire ?W wm" buf]
      write_opt_str [OF s'(5), of "h @ n @ k @ opt_wire ?W wt @ opt_wire ?W wm @ opt_wire ?U us" buf]
    by simp
  finally show ?thesis by (simp add: connect_packet_def h_def)
qed

text \<open>A string read from the wire points at its characters in the packet.\<close>

definition wire_string :: "MQTTString \<Rightarrow> bytes \<Rightarrow> bytes \<Rightarrow> MQTTString" where
  "wire_string s x rest =
     s\<lparr>cstring := None, lenstring_len := int (length x), lenstring_data := Some (x @ rest)\<rparr>"

lemma mqtt_bytes_wire_string [simp]: "mqtt_bytes (wire_string s x rest) = Some x"
  by (simp add: mqtt_bytes_def wire_string_def)

lemma read_str:
  assumes "drop p buf = str_wire x @ rest" and "length x < 65536" and "int (p + length (str_wire x)) \<le> enddata"
  shows "readMQTTLenString s buf p enddata = Some (wire_string s x rest, p + length (str_wire x), True)"
proof -
  have d: "drop p buf = u16_be (length x) @ x @ rest" using assms(1) by (simp add: str_wire_def)
  have "drop (p + 2) buf = x @ rest" using drop_add_append [OF d] by simp
  then show ?thesis
    using readInt_eq [OF d assms(2)] assms(3)
    by (simp add: readMQTTLenString_def wire_string_def)
qed

lemma field1: "drop_bit k (b :: u8) AND 1 = of_bool (bit b k)"
  by (simp add: and_one_eq mod_2_eq_odd bit_iff_odd_drop_bit)

lemma field2: "drop_bit k (b :: u8) AND 3 = of_bool (bit b k) + 2 * of_bool (bit b (k + 1))"
proof -
  have m: "(3 :: u8) = mask 2" by (simp add: mask_eq_exp_minus_1)
  have "drop_bit k b AND 3 = take_bit 2 (drop_bit k b)" by (simp add: m take_bit_eq_mask)
  also have "\<dots> = of_bool (odd (drop_bit k b)) + 2 * take_bit 1 (drop_bit (Suc k) b)"
    using take_bit_Suc [of 1 "drop_bit k b"]
    by (simp add: mod_2_eq_odd drop_bit_Suc numeral_2_eq_2 drop_bit_half)
  finally show ?thesis
    by (simp add: bit_iff_odd_drop_bit mod_2_eq_odd)
qed

lemma bit_3: "bit (3 :: u8) n \<longleftrightarrow> n < 2"
proof -
  have m: "(3 :: u8) = mask 2" by (simp add: mask_eq_exp_minus_1)
  show ?thesis unfolding m by (auto simp: bit_mask_iff possible_bit_word)
qed

lemma connect_flags_bits:
  "bit (connect_flags cl wi wq wr pa us) 1 = bit cl 0" "bit (connect_flags cl wi wq wr pa us) 2 = bit wi 0"
  "bit (connect_flags cl wi wq wr pa us) 3 = bit wq 0" "bit (connect_flags cl wi wq wr pa us) 4 = bit wq 1"
  "bit (connect_flags cl wi wq wr pa us) 5 = bit wr 0" "bit (connect_flags cl wi wq wr pa us) 6 = bit pa 0"
  "bit (connect_flags cl wi wq wr pa us) 7 = bit us 0"
  by (simp_all add: connect_flags_def bit_or_iff bit_push_bit_iff bit_and_iff bit_1_iff
        bit_3 bit_times_2 possible_bit_word)

lemma connect_flag_fields:
  "flag_cleansession (connect_flags cl wi wq wr pa us) = cl AND 1"
  "flag_will (connect_flags cl wi wq wr pa us) = wi AND 1"
  "flag_willQoS (connect_flags cl wi wq wr pa us) = wq AND 3"
  "flag_willRetain (connect_flags cl wi wq wr pa us) = wr AND 1"
  "flag_password (connect_flags cl wi wq wr pa us) = pa AND 1"
  "flag_username (connect_flags cl wi wq wr pa us) = us AND 1"
  using field1 [of 0 cl] field1 [of 0 wi] field2 [of 0 wq] field1 [of 0 wr] field1 [of 0 pa] field1 [of 0 us]
  by (simp_all add: flag_cleansession_def flag_will_def flag_willQoS_def flag_willRetain_def
        flag_password_def flag_username_def field1 field2 connect_flags_bits
        connect_flags_bits(1) [unfolded One_nat_def])

lemma connect_flag_byte_fields:
  "flag_cleansession (connect_flag_byte c) = cleansession c AND 1"
  "flag_will (connect_flag_byte c) = (if willFlag c \<noteq> 0 then 1 else 0)"
  "willFlag c \<noteq> 0 \<Longrightarrow> flag_willQoS (connect_flag_byte c) = will_qos (will c) AND 3"
  "willFlag c \<noteq> 0 \<Longrightarrow> flag_willRetain (connect_flag_byte c) = will_retained (will c) AND 1"
  "flag_password (connect_flag_byte c) = (if str_present (password c) then 1 else 0)"
  "flag_username (connect_flag_byte c) = (if str_present (username c) then 1 else 0)"
  by (simp_all add: connect_flag_byte_def connect_flag_fields)

lemma read_will_eq:
  assumes d: "drop p buf = opt_wire W wt @ opt_wire W wm @ rest"
    and W: "W \<longleftrightarrow> flag_will flags \<noteq> 0"
    and small: "W \<longrightarrow> length wt < 65536 \<and> length wm < 65536"
    and fin: "int (p + length (opt_wire W wt @ opt_wire W wm)) \<le> enddata"
  shows "\<exists>dat'. read_will dat flags buf p enddata = Some (dat', p + length (opt_wire W wt @ opt_wire W wm), True)
    \<and> clientID dat' = clientID dat \<and> keepAliveInterval dat' = keepAliveInterval dat
    \<and> cleansession dat' = cleansession dat \<and> willFlag dat' = willFlag dat
    \<and> username dat' = username dat \<and> password dat' = password dat \<and> MQTTVersion dat' = MQTTVersion dat
    \<and> (W \<longrightarrow> will_qos (will dat') = flag_willQoS flags \<and> will_retained (will dat') = flag_willRetain flags
        \<and> mqtt_bytes (will_topicName (will dat')) = Some wt \<and> mqtt_bytes (will_message (will dat')) = Some wm)"
proof (cases W)
  case False
  then show ?thesis using W by (simp add: read_will_def opt_wire_def)
next
  case True
  have d1: "drop p buf = str_wire wt @ str_wire wm @ rest" using d True by (simp add: opt_wire_def)
  have d2: "drop (p + length (str_wire wt)) buf = str_wire wm @ rest" by (rule drop_add_append [OF d1])
  have e1: "int (p + length (str_wire wt)) \<le> enddata"
    and e2: "int (p + length (str_wire wt) + length (str_wire wm)) \<le> enddata"
    using fin True by (simp_all add: opt_wire_def)
  have sm: "length wt < 65536" "length wm < 65536" using small True by simp_all
  show ?thesis
    using True W read_str [OF d1 sm(1) e1] read_str [OF d2 sm(2) e2]
    by (simp add: read_will_def opt_wire_def add.assoc)
qed

text \<open>
  Which credentials the reader accepts: the user name may be empty only when a password follows it,
  and a password may not be empty or come without a user name.
\<close>

definition credentials_ok :: "bool \<Rightarrow> bool \<Rightarrow> bytes \<Rightarrow> bytes \<Rightarrow> bool" where
  "credentials_ok U P us pw \<longleftrightarrow> (U \<longrightarrow> us \<noteq> [] \<or> P) \<and> (P \<longrightarrow> U \<and> pw \<noteq> [])"

lemma read_credentials_eq:
  assumes d: "drop p buf = opt_wire U us @ opt_wire P pw @ rest"
    and U: "U \<longleftrightarrow> flag_username flags \<noteq> 0" and P: "P \<longleftrightarrow> flag_password flags \<noteq> 0"
    and small: "U \<longrightarrow> length us < 65536" "P \<longrightarrow> length pw < 65536"
    and fin: "enddata = int (p + length (opt_wire U us @ opt_wire P pw))"
  shows "\<exists>dat'. read_credentials dat flags buf p enddata = Some (if credentials_ok U P us pw then 1 else 0, dat')
    \<and> clientID dat' = clientID dat \<and> keepAliveInterval dat' = keepAliveInterval dat
    \<and> cleansession dat' = cleansession dat \<and> willFlag dat' = willFlag dat \<and> will dat' = will dat
    \<and> MQTTVersion dat' = MQTTVersion dat
    \<and> (credentials_ok U P us pw \<longrightarrow>
        (U \<longrightarrow> mqtt_bytes (username dat') = Some us) \<and> (P \<longrightarrow> mqtt_bytes (password dat') = Some pw))"
proof (cases U)
  case False
  then show ?thesis using U P by (simp add: read_credentials_def credentials_ok_def)
next
  case True
  have d1: "drop p buf = str_wire us @ opt_wire P pw @ rest" using d True by (simp add: opt_wire_def)
  have e1: "int (p + length (str_wire us)) \<le> enddata" using fin True by (simp add: opt_wire_def)
  have sm: "length us < 65536" using small(1) True by simp
  note r1 = read_str [OF d1 sm e1]
  show ?thesis
  proof (cases P)
    case False
    have "enddata - int p < 3 \<longleftrightarrow> us = []" using fin True False by (cases us) (simp_all add: opt_wire_def)
    then show ?thesis
      using True False U P r1 by (auto simp: read_credentials_def credentials_ok_def)
  next
    case P': True
    have d2: "drop (p + length (str_wire us)) buf = str_wire pw @ rest"
      using drop_add_append [OF d1] P' by (simp add: opt_wire_def)
    have e2: "int (p + length (str_wire us) + length (str_wire pw)) = enddata"
      using fin True P' by (simp add: opt_wire_def)
    have sm2: "length pw < 65536" using small(2) P' by simp
    have g1: "\<not> enddata - int p < 3" using e2 unfolding length_str_wire by linarith
    have g2: "enddata - int (p + length (str_wire us)) < 3 \<longleftrightarrow> pw = []"
      using e2 by (cases pw) (simp_all add: length_str_wire)
    show ?thesis
      using True U P P' g1 g2 r1 read_str [OF d2 sm2 eq_refl [OF e2]]
      by (auto simp: read_credentials_def credentials_ok_def simp del: length_str_wire)
  qed
qed

lemma read_name:
  assumes d: "drop p buf = connect_name c @ rest" and fin: "int (p + length (connect_name c)) \<le> enddata"
  shows "\<exists>s v. readMQTTLenString MQTTString_initializer buf p enddata
        = Some (s, p + length (connect_name c) - 1, True)
     \<and> readChar buf (p + length (connect_name c) - 1) = Some (v, p + length (connect_name c))
     \<and> MQTTPacket_checkVersion s (uint v) = Some True"
proof -
  define nm :: bytes where "nm = (if MQTTVersion c = 4 then MQTT_name else MQIsdp_name)"
  define x where "x = butlast nm"
  define v :: u8 where "v = (if MQTTVersion c = 4 then 4 else 3)"
  have n: "connect_name c = str_wire x @ [v]"
    by (simp add: connect_name_def str_wire_def x_def nm_def v_def MQTT_name_def MQIsdp_name_def eval_nat_numeral)
  have d1: "drop p buf = str_wire x @ [v] @ rest" using d n by simp
  have d2: "drop (p + length (str_wire x)) buf = v # rest" using drop_add_append [OF d1] by simp
  have sm: "length x < 65536" by (simp add: x_def nm_def MQTT_name_def MQIsdp_name_def)
  have e1: "int (p + length (str_wire x)) \<le> enddata" using fin n by simp
  have "MQTTPacket_checkVersion (wire_string MQTTString_initializer x ([v] @ rest)) (uint v) = Some True"
    by (simp add: MQTTPacket_checkVersion_def wire_string_def x_def nm_def v_def c_memcmp_eq_def c_size_def
        mem_read_def MQTT_name_def MQIsdp_name_def)
  then show ?thesis
    using read_str [OF d1 sm e1, of MQTTString_initializer] readChar_eq [OF d2] n
    by (auto simp del: length_str_wire)
qed

text \<open>What a server that reads a connect packet finds in it.\<close>

definition connect_received :: "MQTTPacket_connectData \<Rightarrow> bytes \<Rightarrow> bytes \<Rightarrow> bytes \<Rightarrow> bytes \<Rightarrow> bytes
  \<Rightarrow> MQTTPacket_connectData \<Rightarrow> bool" where
  "connect_received c cid wt wm us pw dat =
     (cleansession dat = cleansession c AND 1 \<and> keepAliveInterval dat = keepAliveInterval c
      \<and> mqtt_bytes (clientID dat) = Some cid \<and> (willFlag dat \<noteq> 0 \<longleftrightarrow> willFlag c \<noteq> 0)
      \<and> (willFlag c \<noteq> 0 \<longrightarrow> will_qos (will dat) = will_qos (will c) AND 3
          \<and> will_retained (will dat) = will_retained (will c) AND 1
          \<and> mqtt_bytes (will_topicName (will dat)) = Some wt
          \<and> mqtt_bytes (will_message (will dat)) = Some wm)
      \<and> (str_present (username c) \<longrightarrow> mqtt_bytes (username dat) = Some us)
      \<and> (str_present (password c) \<longrightarrow> mqtt_bytes (password dat) = Some pw))"

definition connect_wellformed :: "MQTTPacket_connectData \<Rightarrow> bytes \<Rightarrow> bytes \<Rightarrow> bytes \<Rightarrow> bytes \<Rightarrow> bytes \<Rightarrow> bool" where
  "connect_wellformed c cid wt wm us pw =
     ((MQTTVersion c = 3 \<or> MQTTVersion c = 4) \<and> connect_strings c cid wt wm us pw
      \<and> length cid < 65536 \<and> (willFlag c \<noteq> 0 \<longrightarrow> length wt < 65536 \<and> length wm < 65536)
      \<and> (str_present (username c) \<longrightarrow> length us < 65536)
      \<and> (str_present (password c) \<longrightarrow> length pw < 65536))"

lemma deserialize_connect_eq:
  assumes d: "buf = connect_packet c cid wt wm us pw @ rest"
    and wf: "connect_wellformed c cid wt wm us pw"
    and len: "len = int (length (connect_packet c cid wt wm us pw))"
    and small: "length (connect_body c cid wt wm us pw) < 268435456"
    and ok: "ok = credentials_ok (str_present (username c)) (str_present (password c)) us pw"
  shows "\<exists>dat'. MQTTDeserialize_connect dat buf len = Some (if ok then 1 else 0, dat')
    \<and> MQTTVersion dat' = MQTTVersion dat \<and> (ok \<longrightarrow> connect_received c cid wt wm us pw dat')"
proof -
  let ?W = "willFlag c \<noteq> 0" and ?U = "str_present (username c)" and ?P = "str_present (password c)"
  let ?f = "connect_flag_byte c"
  define body where "body = connect_body c cid wt wm us pw"
  define wl where "wl = opt_wire ?W wt @ opt_wire ?W wm"
  define cr where "cr = opt_wire ?U us @ opt_wire ?P pw"
  define p1 where "p1 = 1 + length (varint (length body))"
  define p2 where "p2 = p1 + length (connect_name c)"
  define p5 where "p5 = p2 + 3 + length (str_wire cid)"
  have b: "body = connect_name c @ ?f # u16_be (unat (keepAliveInterval c)) @ str_wire cid @ wl @ cr"
    by (simp add: body_def connect_body_def wl_def cr_def)
  have pk: "buf = header_byte CONNECT 0 0 0 # varint (length body) @ body @ rest"
    using d by (simp add: connect_packet_def body_def)
  have d1: "drop 1 buf = varint (length body) @ body @ rest" by (simp add: pk)
  have dn: "drop p1 buf = connect_name c @ ?f # u16_be (unat (keepAliveInterval c)) @ str_wire cid @ wl @ cr @ rest"
    using drop_add_append [OF d1] b by (simp add: p1_def)
  have df: "drop p2 buf = ?f # u16_be (unat (keepAliveInterval c)) @ str_wire cid @ wl @ cr @ rest"
    unfolding p2_def by (rule drop_add_append [OF dn])
  have dk: "drop (p2 + 1) buf = u16_be (unat (keepAliveInterval c)) @ str_wire cid @ wl @ cr @ rest"
    using drop_add_append [of p2 buf "[?f]"] df by simp
  have dc: "drop (p2 + 3) buf = str_wire cid @ wl @ cr @ rest"
    using drop_add_append [OF dk] by (simp add: eval_nat_numeral)
  have dw: "drop p5 buf = opt_wire ?W wt @ opt_wire ?W wm @ cr @ rest"
    unfolding p5_def using drop_add_append [OF dc] by (simp add: wl_def)
  have dr: "drop (p5 + length wl) buf = opt_wire ?U us @ opt_wire ?P pw @ rest"
    using drop_add_append [of p5 buf wl "cr @ rest"] dw by (simp add: wl_def cr_def)
  have total: "len = int (p5 + length wl + length cr)"
    using len b by (simp add: connect_packet_def body_def [symmetric] p5_def p2_def p1_def)
  have e: "int (p1 + length (connect_name c)) \<le> len" "int (p2 + 3 + length (str_wire cid)) \<le> len"
    "int (p5 + length (opt_wire ?W wt @ opt_wire ?W wm)) \<le> len"
    and fin: "len = int (p5 + length wl + length (opt_wire ?U us @ opt_wire ?P pw))"
    using total by (simp_all add: p5_def p2_def wl_def [symmetric] cr_def [symmetric])
  have wf': "length cid < 65536" "?W \<longrightarrow> length wt < 65536 \<and> length wm < 65536"
    "?U \<longrightarrow> length us < 65536" "?P \<longrightarrow> length pw < 65536"
    using wf by (auto simp: connect_wellformed_def)
  have fl: "?W \<longleftrightarrow> flag_will ?f \<noteq> 0" "?U \<longleftrightarrow> flag_username ?f \<noteq> 0" "?P \<longleftrightarrow> flag_password ?f \<noteq> 0"
    by (simp_all add: connect_flag_byte_fields)
  obtain s v where nm: "readMQTTLenString MQTTString_initializer buf p1 len = Some (s, p2 - 1, True)"
    "readChar buf (p2 - 1) = Some (v, p2)" "MQTTPacket_checkVersion s (uint v) = Some True"
    using read_name [OF dn e(1)] unfolding p2_def by blast
  define dat1 where "dat1 = dat\<lparr>cleansession := flag_cleansession ?f, keepAliveInterval := keepAliveInterval c,
    clientID := wire_string (clientID dat) cid (wl @ cr @ rest), willFlag := flag_will ?f\<rparr>"
  obtain dat2 where r2: "read_will dat1 ?f buf p5 len = Some (dat2, p5 + length wl, True)"
    and k2: "clientID dat2 = clientID dat1" "keepAliveInterval dat2 = keepAliveInterval dat1"
      "cleansession dat2 = cleansession dat1" "willFlag dat2 = willFlag dat1" "MQTTVersion dat2 = MQTTVersion dat1"
      "?W \<longrightarrow> will_qos (will dat2) = flag_willQoS ?f \<and> will_retained (will dat2) = flag_willRetain ?f
        \<and> mqtt_bytes (will_topicName (will dat2)) = Some wt \<and> mqtt_bytes (will_message (will dat2)) = Some wm"
    using read_will_eq [OF dw fl(1) wf'(2) e(3), of dat1] unfolding wl_def by blast
  obtain dat3 where r3: "read_credentials dat2 ?f buf (p5 + length wl) len = Some (if ok then 1 else 0, dat3)"
    and k3: "clientID dat3 = clientID dat2" "keepAliveInterval dat3 = keepAliveInterval dat2"
      "cleansession dat3 = cleansession dat2" "willFlag dat3 = willFlag dat2" "will dat3 = will dat2"
      "MQTTVersion dat3 = MQTTVersion dat2"
      "ok \<longrightarrow> (?U \<longrightarrow> mqtt_bytes (username dat3) = Some us) \<and> (?P \<longrightarrow> mqtt_bytes (password dat3) = Some pw)"
    using read_credentials_eq [OF dr fl(2,3) wf'(3,4) fin, of dat2] unfolding ok by blast
  have small': "length body < 268435456" using small by (simp add: body_def)
  have ka: "word_of_int (int (unat (keepAliveInterval c))) = keepAliveInterval c" by simp
  have h: "header_type (header_byte CONNECT 0 0 0) = CONNECT" by (simp add: header_fields CONNECT_def)
  have pos: "Suc (length (varint (length body))) = p1" "Suc (Suc (Suc p2)) = p2 + 3"
    by (simp_all add: p1_def)
  have rd: "readChar buf 0 = Some (header_byte CONNECT 0 0 0, Suc 0)"
    using readChar_eq [of 0 buf] pk by simp
  have dec: "MQTTPacket_decodeBuf buf (Suc 0) = Some (length (varint (length body)), int (length body))"
    using MQTTPacket_decodeBuf_eq [OF d1 small'] by simp
  have rf: "readChar buf p2 = Some (?f, Suc p2)" using readChar_eq [OF df] by simp
  have rk: "readInt buf (Suc p2) = Some (uint (keepAliveInterval c), Suc (Suc (Suc p2)))"
    using readInt_eq [OF dk unat_u16_less] by simp
  have rc: "readMQTTLenString (clientID dat) buf (p2 + 3) len
      = Some (wire_string (clientID dat) cid (wl @ cr @ rest), p5, True)"
    using read_str [OF dc wf'(1) e(2), of "clientID dat"] unfolding p5_def .
  have guard: "\<not> len < int (p2 - Suc 0)" using e(1) unfolding p2_def by simp
  have "MQTTDeserialize_connect dat buf len = Some (if ok then 1 else 0, dat3)"
    using r2 [unfolded dat1_def] nm guard
    by (simp add: MQTTDeserialize_connect_def rd h dec pos rf rk rc r3)
  moreover have "ok \<longrightarrow> connect_received c cid wt wm us pw dat3"
    using k2 k3 by (auto simp: connect_received_def dat1_def connect_flag_byte_fields)
  moreover have "MQTTVersion dat3 = MQTTVersion dat" using k2(5) k3(6) by (simp add: dat1_def)
  ultimately show ?thesis by blast
qed

end
