(* ===== verification/Mqtt_Roundtrip.thy ===== *)
theory Mqtt_Roundtrip
  imports Mqtt_Messages
begin

text \<open>
  What the MQTT codec guarantees between its two ends: every packet the serializers produce is read
  back by the deserializers, the serializers stay inside the buffer they are given, and the places
  where the size checks of the code do not ensure this.
\<close>

text \<open>A C string as an \<open>MQTTString\<close>.\<close>

definition c_string :: "bytes \<Rightarrow> MQTTString" where
  "c_string t = MQTTString_initializer\<lparr>cstring := Some (t @ [0])\<rparr>"

lemma mqtt_bytes_c_string [simp]: "0 \<notin> set t \<Longrightarrow> mqtt_bytes (c_string t) = Some t"
proof -
  assume "0 \<notin> set t"
  then have "takeWhile (\<lambda>c. c \<noteq> 0) (t @ [0]) = t" by (induction t) auto
  then show ?thesis by (simp add: c_string_def mqtt_bytes_def MQTTString_initializer_def c_strlen_def)
qed

lemma str_present_c_string [simp]: "str_present (c_string t)"
  by (simp add: str_present_def c_string_def)

section \<open>Remaining length\<close>

text \<open>
  C29. For every remaining length the protocol allows (below \<open>2^28\<close>), \<open>MQTTPacket_encode\<close> writes
  between one and four bytes, touches nothing after them, and \<open>MQTTPacket_decodeBuf\<close> reads the same
  number of bytes back and returns the same value.
\<close>

theorem mqtt_remaining_length_roundtrip:
  assumes "n < 268435456" and "p + 4 \<le> length buf"
  shows "\<exists>buf' k. MQTTPacket_encode buf p (int n) = Some (buf', k) \<and> 1 \<le> k \<and> k \<le> 4
    \<and> length buf' = length buf \<and> take p buf' = take p buf \<and> drop (p + k) buf' = drop (p + k) buf
    \<and> MQTTPacket_decodeBuf buf' p = Some (k, int n)"
proof -
  let ?v = "varint n"
  have k: "1 \<le> length ?v" "length ?v \<le> 4"
    using varint_length_le [OF assms(1)] varint_nonempty [of n] by (simp_all add: Suc_le_eq)
  have room: "p + length ?v \<le> length buf" using k assms(2) by simp
  have enc: "MQTTPacket_encode buf p (int n) = Some (patch_at buf p ?v, length ?v)"
    using encode_loop_eq [of p 0 n buf] room by (simp add: MQTTPacket_encode_def)
  have "drop p (patch_at buf p ?v) = ?v @ drop (p + length ?v) buf" using room by (simp add: patch_at_def)
  note dec = MQTTPacket_decodeBuf_eq [OF this assms(1)]
  have "length (patch_at buf p ?v) = length buf" "take p (patch_at buf p ?v) = take p buf"
    "drop (p + length ?v) (patch_at buf p ?v) = drop (p + length ?v) buf"
    using room by (simp_all add: take_patch_at_le drop_patch_at_ge)
  with enc dec k show ?thesis by blast
qed

theorem mqtt_remaining_length_roundtrip_witness:
  "\<exists>buf' k. MQTTPacket_encode (replicate 6 7) 1 (int 321) = Some (buf', k) \<and> 1 \<le> k \<and> k \<le> 4
    \<and> length buf' = 6 \<and> take 1 buf' = take 1 (replicate 6 7) \<and> drop (1 + k) buf' = drop (1 + k) (replicate 6 7)
    \<and> MQTTPacket_decodeBuf buf' 1 = Some (k, int 321)"
  using mqtt_remaining_length_roundtrip [of 321 1 "replicate 6 7"] by simp

section \<open>Publish\<close>

text \<open>
  C26. \<open>MQTTSerialize_publish\<close> never writes outside a buffer of at least \<open>buflen\<close> bytes: it either
  reports \<open>MQTTPACKET_BUFFER_TOO_SHORT\<close> and leaves the buffer as it was, or returns the length of the
  packet, at most \<open>buflen\<close>, and leaves everything after the packet as it was.
\<close>

theorem mqtt_publish_stays_in_buffer:
  assumes "mqtt_bytes topic = Some t" and "2 + length t + 2 + length payload < 268435456"
    and "buflen \<le> int (length buf)"
  shows "MQTTSerialize_publish buf buflen dup (int qos) retained pid topic payload (int (length payload))
      = Some (buf, MQTTPACKET_BUFFER_TOO_SHORT)
    \<or> (\<exists>buf' n. MQTTSerialize_publish buf buflen dup (int qos) retained pid topic payload (int (length payload))
          = Some (buf', int n)
        \<and> int n \<le> buflen \<and> length buf' = length buf \<and> drop n buf' = drop n buf)"
proof (cases "MQTTPacket_len (int (length (publish_body qos pid t payload))) \<le> buflen")
  case True
  let ?pk = "publish_packet dup qos retained pid t payload"
  have b: "length (publish_body qos pid t payload) < 268435456" using assms(2) by (auto simp: publish_body_def)
  have fits: "int (length ?pk) \<le> buflen"
    using MQTTPacket_len_ge [OF b] True by (simp add: publish_packet_def)
  then have "length ?pk \<le> length buf" using assms(3) by linarith
  then show ?thesis
    using serialize_publish_eq [OF assms(1) b True assms(3), of dup retained] fits
    by (auto simp: patch_at_0)
next
  case False
  moreover have "MQTTSerialize_publishLength (int qos) topic (int (length payload))
      = Some (int (length (publish_body qos pid t payload)))"
    using assms(1) by (simp add: MQTTSerialize_publishLength_def publish_body_def mqtt_write)
  ultimately show ?thesis by (simp add: MQTTSerialize_publish_def)
qed

theorem mqtt_publish_stays_in_buffer_witness:
  "MQTTSerialize_publish (replicate 12 0) 12 0 (int 1) 0 7
      (c_string [97]) [1, 2] (int (length [1, 2 :: u8]))
      = Some (replicate 12 0, MQTTPACKET_BUFFER_TOO_SHORT)
    \<or> (\<exists>buf' n. MQTTSerialize_publish (replicate 12 0) 12 0 (int 1) 0 7
      (c_string [97]) [1, 2] (int (length [1, 2 :: u8]))
          = Some (buf', int n)
        \<and> int n \<le> 12 \<and> length buf' = length (replicate 12 (0 :: u8)) \<and> drop n buf' = drop n (replicate 12 0))"
  by (rule mqtt_publish_stays_in_buffer [where t = "[97]"])
     simp_all

text \<open>
  C11. Publish round trip: when the packet fits, \<open>MQTTSerialize_publish\<close> followed by
  \<open>MQTTDeserialize_publish\<close> on the same buffer succeeds and yields the same duplicate flag, QoS,
  retained flag, packet id (for QoS above 0), topic, and payload.
\<close>

theorem mqtt_publish_roundtrip:
  assumes "mqtt_bytes topic = Some t" and "qos < 4" and "length t < 65536"
    and "length (publish_body qos pid t payload) < 268435456"
    and "MQTTPacket_len (int (length (publish_body qos pid t payload))) \<le> buflen"
    and "buflen \<le> int (length buf)"
  shows "\<exists>buf' n out'. MQTTSerialize_publish buf buflen dup (int qos) retained pid topic payload (int (length payload))
      = Some (buf', n)
    \<and> MQTTDeserialize_publish out buf' n = Some (1, out')
    \<and> po_dup out' = dup AND 1 \<and> po_qos out' = int qos \<and> po_retained out' = retained AND 1
    \<and> (qos > 0 \<longrightarrow> po_packetid out' = pid) \<and> mqtt_bytes (po_topicName out') = Some t
    \<and> po_payloadlen out' = int (length payload)
    \<and> (\<exists>rest. po_payload out' = Some (payload @ rest))"
proof -
  let ?pk = "publish_packet dup qos retained pid t payload"
  have "length ?pk \<le> length buf"
    using packet_fits [OF assms(4-6)] by (simp add: publish_packet_def)
  have "patch_at buf 0 ?pk = ?pk @ drop (length ?pk) buf" by (rule patch_at_0)
  with serialize_publish_eq [OF assms(1,4-6), of dup retained]
    deserialize_publish_eq [OF assms(2-4), of "patch_at buf 0 ?pk" dup retained _ out "int (length ?pk)"]
  show ?thesis by blast
qed

theorem mqtt_publish_roundtrip_witness:
  "\<exists>buf' n out'. MQTTSerialize_publish (replicate 16 0) 16 0 (int 1) 1 7
      (c_string [97, 98]) [1, 2] (int (length [1, 2 :: u8])) = Some (buf', n)
    \<and> MQTTDeserialize_publish \<lparr>po_dup = 0, po_qos = 0, po_retained = 0, po_packetid = 0,
        po_topicName = MQTTString_initializer, po_payload = None, po_payloadlen = 0\<rparr> buf' n = Some (1, out')
    \<and> po_qos out' = 1 \<and> po_retained out' = 1 \<and> po_packetid out' = 7
    \<and> mqtt_bytes (po_topicName out') = Some [97, 98] \<and> po_payloadlen out' = 2"
  using mqtt_publish_roundtrip [of "c_string [97, 98]" "[97, 98]" 1 7 "[1, 2]" 16
    "replicate 16 0" 0 1 "\<lparr>po_dup = 0, po_qos = 0, po_retained = 0, po_packetid = 0,
        po_topicName = MQTTString_initializer, po_payload = None, po_payloadlen = 0\<rparr>"]
  by (simp add: publish_body_def MQTTPacket_len_def) blast

text \<open>
  C30. A publish packet of QoS 1 or 2 whose topic fills the remaining length is accepted: the packet id
  is taken from the two bytes after the packet and the reported payload length is -2.
\<close>

theorem mqtt_publish_negative_payload:
  assumes "0 < qos" and "qos < 4" and "length t < 65536"
    and "buf = header_byte PUBLISH 0 (of_nat qos) 0 # varint (2 + length t) @ u16_be (length t) @ t @ [x, y] @ rest"
  shows "\<exists>out'. MQTTDeserialize_publish out buf (int (1 + length (varint (2 + length t)) + 2 + length t)) = Some (1, out')
    \<and> po_payloadlen out' = -2 \<and> po_packetid out' = word_of_int (256 * uint x + uint y)"
proof -
  let ?h = "header_byte PUBLISH 0 (of_nat qos) 0" and ?v = "varint (2 + length t)"
  define p where "p = 1 + length ?v"
  have d0: "drop 0 buf = ?h # ?v @ u16_be (length t) @ t @ [x, y] @ rest" using assms(4) by simp
  have d1: "drop 1 buf = ?v @ u16_be (length t) @ t @ [x, y] @ rest" using assms(4) by simp
  have d2: "drop p buf = str_wire t @ [x, y] @ rest"
    using drop_add_append [OF d1] by (simp add: p_def str_wire_def)
  have d3: "drop (p + length (str_wire t)) buf = [x, y] @ rest" by (rule drop_add_append [OF d2])
  define q where "q = p + length (str_wire t)"
  have dq: "drop q buf = [x, y] @ rest" using d3 by (simp only: q_def)
  have "length buf - q = 2 + length rest" using arg_cong [OF dq, of length] by simp
  then have "q + 2 \<le> length buf" by linarith
  then have id: "readInt buf q = Some (256 * uint x + uint y, q + 2)"
    using dq by (simp add: readInt_def mem_read_def)
  have s: "readMQTTLenString s buf p (int q) = Some (wire_string s t ([x, y] @ rest), q, True)" for s
    unfolding q_def by (rule read_str [OF d2 assms(3)]) simp
  have e: "int (Suc (length ?v)) + int (2 + length t) = int q" by (simp add: q_def p_def)
  have dec: "MQTTPacket_decodeBuf buf (Suc 0) = Some (length ?v, int (2 + length t))"
    using MQTTPacket_decodeBuf_eq [OF d1] assms(3) by simp
  have hd: "header_type ?h = PUBLISH" "0 < uint (header_qos ?h)"
    using header_fields [of PUBLISH 0 "of_nat qos" 0] uint_qos [OF assms(2)] assms(1) by (simp_all add: PUBLISH_def)
  show ?thesis
    using s [of "po_topicName out"] hd id
    by (simp add: MQTTDeserialize_publish_def readChar_eq [OF d0, simplified] dec e [simplified] p_def [symmetric, simplified])
qed

theorem mqtt_publish_negative_payload_witness:
  "\<exists>out'. MQTTDeserialize_publish \<lparr>po_dup = 0, po_qos = 0, po_retained = 0, po_packetid = 0,
        po_topicName = MQTTString_initializer, po_payload = None, po_payloadlen = 0\<rparr>
      (header_byte PUBLISH 0 (of_nat 1) 0 # varint (2 + length [97 :: u8]) @ u16_be (length [97 :: u8])
        @ [97] @ [1, 2] @ []) (int (1 + length (varint (2 + length [97 :: u8])) + 2 + length [97 :: u8])) = Some (1, out')
    \<and> po_payloadlen out' = -2 \<and> po_packetid out' = word_of_int (256 * uint (1 :: u8) + uint (2 :: u8))"
  by (rule mqtt_publish_negative_payload [where qos = 1]) simp_all

section \<open>Acknowledgements\<close>

text \<open>
  The acknowledgements of the publish flows, \<open>MQTTSerialize_puback\<close>, \<open>MQTTSerialize_pubrel\<close> and
  \<open>MQTTSerialize_pubcomp\<close>, refuse a buffer below four bytes without touching it, and otherwise write
  four bytes that \<open>MQTTDeserialize_ack\<close> reads back as the same type, duplicate flag and packet id.
\<close>

theorem mqtt_ack_roundtrip:
  assumes "buflen \<le> int (length buf)"
    and "ser = MQTTSerialize_puback buf buflen pid \<and> ty = PUBACK \<and> dup = 0
       \<or> ser = MQTTSerialize_pubrel buf buflen dup pid \<and> ty = PUBREL
       \<or> ser = MQTTSerialize_pubcomp buf buflen pid \<and> ty = PUBCOMP \<and> dup = 0"
  shows "if buflen < 4 then ser = Some (buf, MQTTPACKET_BUFFER_TOO_SHORT)
    else \<exists>buf'. ser = Some (buf', 4) \<and> length buf' = length buf \<and> drop 4 buf' = drop 4 buf
      \<and> MQTTDeserialize_ack out buf' 4 =
          Some (1, \<lparr>ao_packettype = ty, ao_dup = dup AND 1, ao_packetid = pid\<rparr>)"
proof -
  have ser: "ser = MQTTSerialize_ack buf buflen ty dup pid" and ty: "ty AND 15 = ty"
    using assms(2)
    by (auto simp: MQTTSerialize_puback_def MQTTSerialize_pubrel_def MQTTSerialize_pubcomp_def
        PUBACK_def PUBREL_def PUBCOMP_def)
  show ?thesis
  proof (cases "buflen < 4")
    case True
    then show ?thesis by (simp add: ser MQTTSerialize_ack_def)
  next
    case False
    then have l: "4 \<le> length buf" "4 \<le> buflen" using assms(1) by linarith+
    have a: "length (ack_packet ty dup pid) = 4" by (simp add: ack_packet_def)
    with l have p: "patch_at buf 0 (ack_packet ty dup pid) = ack_packet ty dup pid @ drop 4 buf"
      by (simp add: patch_at_0)
    show ?thesis
      using False serialize_ack_eq [OF l, of ty dup pid] deserialize_ack_eq [OF p, of out 4] ty l a
      by (simp add: ser p)
  qed
qed

theorem mqtt_ack_roundtrip_witness:
  "\<exists>buf'. MQTTSerialize_pubrel (replicate 6 0) 6 1 500 = Some (buf', 4)
     \<and> length buf' = length (replicate 6 (0 :: u8)) \<and> drop 4 buf' = drop 4 (replicate 6 0)
     \<and> MQTTDeserialize_ack \<lparr>ao_packettype = 0, ao_dup = 0, ao_packetid = 0\<rparr> buf' 4 =
         Some (1, \<lparr>ao_packettype = PUBREL, ao_dup = 1 AND 1, ao_packetid = 500\<rparr>)"
  using mqtt_ack_roundtrip [of 6 "replicate 6 0" "MQTTSerialize_pubrel (replicate 6 0) 6 1 500" 500 PUBREL 1
    "\<lparr>ao_packettype = 0, ao_dup = 0, ao_packetid = 0\<rparr>"]
  by simp

section \<open>Connect\<close>

text \<open>
  C27. Connect round trip: for a protocol version 3 or 4 and strings of less than 65536 bytes,
  \<open>MQTTSerialize_connect\<close> succeeds, and \<open>MQTTDeserialize_connect\<close> on the packet returns 1 exactly when
  an empty user name is followed by a password, and a password is not empty and comes with a user
  name. It then yields the same clean session flag, keep-alive interval, client id, will (flag, QoS,
  retained, topic, message), user name and password. The protocol version of the packet is checked
  but not delivered: that field of the result stays as it was.
\<close>

theorem mqtt_connect_roundtrip:
  assumes "connect_wellformed c cid wt wm us pw"
    and "length (connect_body c cid wt wm us pw) < 268435456"
    and "MQTTPacket_len (int (length (connect_body c cid wt wm us pw))) \<le> buflen"
    and "buflen \<le> int (length buf)"
    and "ok = credentials_ok (str_present (username c)) (str_present (password c)) us pw"
  shows "\<exists>buf' n dat'. MQTTSerialize_connect buf buflen c = Some (buf', n) \<and> n \<le> buflen
    \<and> MQTTDeserialize_connect dat buf' n = Some (if ok then 1 else 0, dat')
    \<and> MQTTVersion dat' = MQTTVersion dat \<and> (ok \<longrightarrow> connect_received c cid wt wm us pw dat')"
proof -
  let ?pk = "connect_packet c cid wt wm us pw"
  have s: "connect_strings c cid wt wm us pw" "MQTTVersion c = 3 \<or> MQTTVersion c = 4"
    using assms(1) by (simp_all add: connect_wellformed_def)
  have "length ?pk \<le> length buf"
    using packet_fits [OF assms(2-4)] by (simp add: connect_packet_def)
  have p: "patch_at buf 0 ?pk = ?pk @ drop (length ?pk) buf" by (rule patch_at_0)
  have "int (length ?pk) \<le> buflen"
    using MQTTPacket_len_ge [OF assms(2)] assms(3) by (simp add: connect_packet_def)
  with serialize_connect_eq [OF s assms(2-4)]
    deserialize_connect_eq [OF p assms(1) refl assms(2,5), of dat]
  show ?thesis by blast
qed

definition example_connect :: "bytes \<Rightarrow> MQTTPacket_connectData" where
  "example_connect us = \<lparr>MQTTVersion = 4, clientID = c_string [98], keepAliveInterval = 60, cleansession = 1,
     willFlag = 1, will = \<lparr>will_topicName = c_string [116], will_message = c_string [109],
       will_retained = 0, will_qos = 1\<rparr>,
     username = c_string us, password = (if us = [] then MQTTString_initializer else c_string [112])\<rparr>"

text \<open>A user name with a password comes back; an empty user name alone makes a packet that is refused.\<close>

theorem mqtt_connect_roundtrip_witness:
  "(\<exists>buf' n dat'. MQTTSerialize_connect (replicate 40 0) 40 (example_connect [117]) = Some (buf', n) \<and> n \<le> 40
    \<and> MQTTDeserialize_connect (example_connect [117]) buf' n = Some (1, dat')
    \<and> connect_received (example_connect [117]) [98] [116] [109] [117] [112] dat')
   \<and> (\<exists>buf' n dat'. MQTTSerialize_connect (replicate 40 0) 40 (example_connect []) = Some (buf', n) \<and> n \<le> 40
    \<and> MQTTDeserialize_connect (example_connect []) buf' n = Some (0, dat'))"
proof -
  have wf: "connect_wellformed (example_connect [117]) [98] [116] [109] [117] [112]"
    "connect_wellformed (example_connect []) [98] [116] [109] [] []"
    by (simp_all add: example_connect_def connect_wellformed_def connect_strings_def MQTTString_initializer_def str_present_def)
  have len: "length (connect_body (example_connect [117]) [98] [116] [109] [117] [112]) \<le> 30"
    "length (connect_body (example_connect []) [98] [116] [109] [] []) \<le> 30"
    by (simp_all add: example_connect_def connect_body_def connect_name_def opt_wire_def MQTTString_initializer_def)
  have "\<exists>buf' n dat'. MQTTSerialize_connect (replicate 40 0) 40 (example_connect us) = Some (buf', n) \<and> n \<le> 40
    \<and> MQTTDeserialize_connect (example_connect us) buf' n =
        Some (if credentials_ok (str_present (username (example_connect us))) (str_present (password (example_connect us))) us pw
          then 1 else 0, dat')
    \<and> MQTTVersion dat' = MQTTVersion (example_connect us)
    \<and> (credentials_ok (str_present (username (example_connect us))) (str_present (password (example_connect us))) us pw
        \<longrightarrow> connect_received (example_connect us) [98] [116] [109] us pw dat')"
    if "connect_wellformed (example_connect us) [98] [116] [109] us pw"
      "length (connect_body (example_connect us) [98] [116] [109] us pw) \<le> 30" for us pw
    by (rule mqtt_connect_roundtrip [OF that(1)]) (use that(2) in \<open>auto simp: MQTTPacket_len_def\<close>)
  note r = this [OF wf(1) len(1)] this [OF wf(2) len(2)]
  have ok: "credentials_ok (str_present (username (example_connect [117]))) (str_present (password (example_connect [117]))) [117] [112]"
    "\<not> credentials_ok (str_present (username (example_connect []))) (str_present (password (example_connect []))) [] []"
    by (simp_all add: credentials_ok_def example_connect_def MQTTString_initializer_def str_present_def c_string_def)
  show ?thesis using r ok by auto
qed

section \<open>Subscribe\<close>

text \<open>
  C28. Subscribe round trip: the topic filters and QoS values a client serializes with
  \<open>MQTTSerialize_subscribe\<close> are read back by \<open>MQTTDeserialize_subscribe\<close> in the same number and order,
  with the same packet id, when the output arrays of the caller are long enough.
\<close>

theorem mqtt_subscribe_roundtrip:
  assumes "represent ss (map fst fs)" and "list_all (\<lambda>f. length (fst f) < 65536) fs"
    and "length (subscribe_body pid fs) < 268435456"
    and "MQTTPacket_len (int (length (subscribe_body pid fs))) \<le> buflen"
    and "buflen \<le> int (length buf)"
    and "length fs \<le> length (sb_topicFilters out)" and "length fs \<le> length (sb_requestedQoSs out)"
  shows "\<exists>buf' n out'.
    MQTTSerialize_subscribe buf buflen dup pid (int (length fs)) ss (map (uint \<circ> snd) fs) = Some (buf', n)
    \<and> n \<le> buflen \<and> MQTTDeserialize_subscribe out maxcount buf' n = Some (1, out')
    \<and> sb_dup out' = dup AND 1 \<and> sb_packetid out' = pid \<and> sb_count out' = length fs
    \<and> represent (take (length fs) (sb_topicFilters out')) (map fst fs)
    \<and> take (length fs) (sb_requestedQoSs out') = map (uint \<circ> snd) fs"
proof -
  let ?pk = "subscribe_packet dup pid fs"
  have "length ?pk \<le> length buf"
    using packet_fits [OF assms(3-5)] by (simp add: subscribe_packet_def)
  have p: "patch_at buf 0 ?pk = ?pk @ drop (length ?pk) buf" by (rule patch_at_0)
  have "int (length ?pk) \<le> buflen"
    using MQTTPacket_len_ge [OF assms(3)] assms(4) by (simp add: subscribe_packet_def)
  with serialize_subscribe_eq [OF assms(1,3-5), of dup]
    deserialize_subscribe_eq [OF assms(3,2,6,7) p, of maxcount "int (length ?pk)"]
  show ?thesis by blast
qed

theorem mqtt_subscribe_roundtrip_witness:
  "\<exists>buf' n out'.
    MQTTSerialize_subscribe (replicate 20 0) 20 0 9 (int (length [([97], 1), ([98, 99], 2 :: u8)]))
      [c_string [97], c_string [98, 99]] (map (uint \<circ> snd) [([97 :: u8], 1), ([98, 99], 2 :: u8)]) = Some (buf', n)
    \<and> n \<le> 20 \<and> MQTTDeserialize_subscribe \<lparr>sb_dup = 0, sb_packetid = 0, sb_count = 0,
        sb_topicFilters = replicate 2 MQTTString_initializer, sb_requestedQoSs = [0, 0]\<rparr> 2 buf' n = Some (1, out')
    \<and> sb_packetid out' = 9 \<and> sb_count out' = 2"
  using mqtt_subscribe_roundtrip [of "[c_string [97], c_string [98, 99]]" "[([97], 1), ([98, 99], 2)]" 9 20
    "replicate 20 0" "\<lparr>sb_dup = 0, sb_packetid = 0, sb_count = 0,
        sb_topicFilters = replicate 2 MQTTString_initializer, sb_requestedQoSs = [0, 0]\<rparr>" 0 2]
  by (simp add: represent_def subscribe_body_def filters_wire_def filter_wire_def MQTTPacket_len_def
      numeral_2_eq_2 [symmetric]) blast

section \<open>Suback\<close>

text \<open>
  Suback round trip: with room for the whole packet, the return codes a server serializes with
  \<open>MQTTSerialize_suback\<close> are read back by \<open>MQTTDeserialize_suback\<close> with the packet id, in the same
  number and order, for every \<open>maxcount\<close> at least their number.
\<close>

theorem mqtt_suback_roundtrip:
  assumes "length (suback_packet pid cs) \<le> length buf" and "length cs < 268435454"
    and "int (length cs) \<le> maxcount" and "length cs \<le> length (so_grantedQoSs out)"
  shows "\<exists>buf' n out'.
    MQTTSerialize_suback buf (int (length buf)) pid (int (length cs)) (map uint cs) = Some (buf', n)
    \<and> MQTTDeserialize_suback out maxcount buf' n = Some (1, out')
    \<and> so_packetid out' = pid \<and> so_count out' = int (length cs)
    \<and> take (length cs) (so_grantedQoSs out') = map uint cs"
proof -
  let ?pk = "suback_packet pid cs"
  have p: "patch_at buf 0 ?pk = ?pk @ drop (length ?pk) buf" by (rule patch_at_0)
  have "int (2 + length cs) \<le> int (length buf)" using assms(1) by (simp add: suback_packet_def)
  with serialize_suback_eq [OF this assms(1)]
    deserialize_suback_eq [OF assms(3,4,2) p, of "int (length ?pk)"]
  show ?thesis by blast
qed

theorem mqtt_suback_roundtrip_witness:
  "\<exists>buf' n out'.
    MQTTSerialize_suback (replicate 7 0) (int (length (replicate 7 (0 :: u8)))) 3 (int (length [1, 128 :: u8]))
      (map uint [1, 128 :: u8]) = Some (buf', n)
    \<and> MQTTDeserialize_suback \<lparr>so_packetid = 0, so_count = 0, so_grantedQoSs = [0, 0]\<rparr> 2 buf' n = Some (1, out')
    \<and> so_packetid out' = 3 \<and> so_count out' = int (length [1, 128 :: u8])
    \<and> take (length [1, 128 :: u8]) (so_grantedQoSs out') = map uint [1, 128 :: u8]"
  by (rule mqtt_suback_roundtrip) (simp_all add: suback_packet_def varint_small)

lemma write_codes_overrun:
  assumes "length xs \<le> length buf" and "length buf < length xs + length cs"
  shows "write_codes (length cs) (map uint (cs :: bytes)) (wstate buf xs) = None"
  using assms
proof (induction cs arbitrary: xs)
  case Nil
  then show ?case by simp
next
  case (Cons c cs)
  show ?case
  proof (cases "length xs = length buf")
    case True
    then show ?thesis by (simp add: writeChar_def wstate_def mem_write_def)
  next
    case False
    then have "writeChar c (wstate buf xs) = Some (wstate buf (xs @ [c]))"
      using Cons.prems by (intro writeChar_wstate) simp
    moreover have "write_codes (length cs) (map uint cs) (wstate buf (xs @ [c])) = None"
      using Cons.prems False by (intro Cons.IH) simp_all
    ultimately show ?thesis by simp
  qed
qed

text \<open>
  The size check of \<open>MQTTSerialize_suback\<close> is two bytes short: in a buffer that passes the check
  (\<open>2 + count\<close> bytes) but is smaller than the packet (\<open>4 + count\<close> bytes), it writes past the end.
\<close>

theorem mqtt_suback_overrun:
  assumes "4 \<le> length buf" and "length cs < 126"
    and "2 + length cs \<le> length buf" and "length buf < 4 + length cs"
  shows "MQTTSerialize_suback buf (int (length buf)) pid (int (length cs)) (map uint (cs :: bytes)) = None"
proof -
  let ?h = "[header_byte SUBACK 0 0 0, of_nat (2 + length cs)]"
  have "write_len (int (2 + length cs)) (wstate buf [header_byte SUBACK 0 0 0]) = Some (wstate buf ?h)"
    using assms(1,2) write_len_small [of "2 + length cs" "[header_byte SUBACK 0 0 0]" buf] by simp
  moreover have "writeChar (header_byte SUBACK 0 0 0) (wstate buf []) = Some (wstate buf [header_byte SUBACK 0 0 0])"
    using assms(1) writeChar_wstate [of "[]" buf] by simp
  moreover have "writeInt (uint pid) (wstate buf ?h) = Some (wstate buf (?h @ u16_be (unat pid)))"
    using assms(1) writeInt_wstate [of ?h buf "unat pid"] by simp
  moreover have "write_codes (length cs) (map uint cs) (wstate buf (?h @ u16_be (unat pid))) = None"
    using assms(1,4) by (intro write_codes_overrun) simp_all
  ultimately show ?thesis
    using assms(3) by (simp add: MQTTSerialize_suback_def writer_start)
qed

theorem mqtt_suback_overrun_witness:
  "MQTTSerialize_suback (replicate 4 0) (int (length (replicate 4 (0 :: u8)))) 3 (int (length [1, 2 :: u8]))
     (map uint [1, 2 :: u8]) = None"
  by (rule mqtt_suback_overrun) simp_all

lemma suback_loop_overrun:
  assumes "drop p buf = cs @ rest" and "enddata = int p + int (length cs)" and "0 \<le> so_count out"
    and "so_count out \<le> maxcount" and "maxcount < so_count out + int (length cs)"
    and "int (length (so_grantedQoSs out)) = maxcount"
  shows "suback_loop buf p enddata maxcount out = None"
  using assms
proof (induction cs arbitrary: p out)
  case Nil
  then show ?case by simp
next
  case (Cons c cs)
  have d: "drop p buf = c # cs @ rest" and d1: "drop (p + 1) buf = cs @ rest"
    using Cons.prems(1) drop_add_append [of p buf "[c]" "cs @ rest"] by simp_all
  have k: "int p < enddata" using Cons.prems by simp
  show ?case
  proof (cases "so_count out = maxcount")
    case True
    then show ?thesis
      using k Cons.prems(3,6) readChar_eq [OF d] by (subst suback_loop.simps) (auto simp: array_store_def)
  next
    case False
    let ?k = "nat (so_count out)"
    let ?out = "out\<lparr>so_grantedQoSs := (so_grantedQoSs out)[?k := uint c], so_count := so_count out + 1\<rparr>"
    have "suback_loop buf p enddata maxcount out = suback_loop buf (p + 1) enddata maxcount ?out"
      using k False Cons.prems(3,4,6) readChar_eq [OF d]
      by (subst suback_loop.simps) (auto simp: array_store_def)
    also have "\<dots> = None" by (rule Cons.IH) (use d1 False Cons.prems in simp_all)
    finally show ?thesis .
  qed
qed

text \<open>
  C31. The bound of \<open>MQTTDeserialize_suback\<close> is off by one: a packet with more than \<open>maxcount\<close> return
  codes makes it store an entry past the end of an array of \<open>maxcount\<close> entries instead of returning -1.
\<close>

theorem mqtt_suback_off_by_one:
  assumes "length cs < 268435454" and "int (length (so_grantedQoSs out)) = maxcount"
    and "maxcount < int (length cs)" and "buf = suback_packet pid cs @ rest"
  shows "MQTTDeserialize_suback out maxcount buf buflen = None"
proof -
  let ?h = "header_byte SUBACK 0 0 0" and ?v = "varint (2 + length cs)"
  have d0: "drop 0 buf = ?h # ?v @ u16_be (unat pid) @ cs @ rest"
    and d1: "drop 1 buf = ?v @ u16_be (unat pid) @ cs @ rest"
    using assms(4) by (simp_all add: suback_packet_def)
  let ?p = "1 + length ?v"
  have d2: "drop ?p buf = u16_be (unat pid) @ cs @ rest" using drop_add_append [OF d1] by simp
  have d3: "drop (?p + 2) buf = cs @ rest" using drop_add_append [OF d2] by simp
  have "suback_loop buf (?p + 2) (int ?p + int (2 + length cs)) maxcount (out\<lparr>so_packetid := pid, so_count := 0\<rparr>) = None"
    by (rule suback_loop_overrun [OF d3]) (use assms(2,3) in simp_all)
  moreover have "header_type ?h = SUBACK" by (simp add: header_fields SUBACK_def)
  moreover have "2 + length cs < 268435456" using assms(1) by simp
  note MQTTPacket_decodeBuf_eq [OF d1 this]
  ultimately show ?thesis
    using readChar_eq [OF d0] readInt_eq [OF d2 unat_u16_less] by (simp add: MQTTDeserialize_suback_def)
qed

theorem mqtt_suback_off_by_one_witness:
  "MQTTDeserialize_suback \<lparr>so_packetid = 0, so_count = 0, so_grantedQoSs = [0]\<rparr> 1
     (suback_packet 3 [1, 2] @ []) 6 = None"
  by (rule mqtt_suback_off_by_one [where cs = "[1, 2]" and pid = 3 and rest = "[]"]) simp_all

end
