(* ===== verification/Mqtt_Transport.thy ===== *)
theory Mqtt_Transport
  imports Mqtt_Roundtrip
begin

text \<open>
  Reading packets from a transport: the blocking reader \<open>MQTTPacket_read\<close> and the resumable,
  non-blocking one, \<open>MQTTPacket_readnb\<close> with its state machine in \<open>MQTTTransport\<close>
  (\<open>packages/pahomqtt/MQTTPacket/src/MQTTPacket.c\<close>).

  The receive callback \<open>getfn\<close> is supplied by the application. It is a parameter: from a state of the
  transport and the number of bytes asked for, it gives its return value, the bytes it stored and the
  new state. \<open>MQTTPacket.h\<close> documents its results: -1 for an error, 0 for "call again", or the number of
  bytes read. The hypothesis \<open>nb_source\<close> is this contract without errors; \<open>nb_ready\<close> adds that it never
  says "call again" while data is pending, \<open>nb_polled\<close> that it does so finitely often.
\<close>

type_synonym 's getfn = "'s \<Rightarrow> nat \<Rightarrow> int \<times> bytes \<times> 's"

record MQTTTransport =
  tr_multiplier :: int
  tr_rem_len :: int
  tr_len :: int
  tr_state :: int

section \<open>The non-blocking reader\<close>

function decodenb_loop :: "'s getfn \<Rightarrow> MQTTTransport \<Rightarrow> 's \<Rightarrow> (int \<times> MQTTTransport \<times> 's) option" where
  "decodenb_loop getfn trp s =
     (let trp = trp\<lparr>tr_len := tr_len trp + 1\<rparr>
      in if tr_len trp > int MAX_NO_OF_REMAINING_LENGTH_BYTES then Some (MQTTPACKET_READ_ERROR, trp, s)
         else
           (case getfn s 1 of (frc, xs, s) \<Rightarrow>
              if frc = -1 then Some (MQTTPACKET_READ_ERROR, trp, s)
              else if frc = 0 then Some (0, trp, s)
              else
                (case xs of
                   [] \<Rightarrow> None
                 | c # _ \<Rightarrow>
                     let trp = trp\<lparr>tr_rem_len := tr_rem_len trp + uint (c AND 127) * tr_multiplier trp,
                                   tr_multiplier := tr_multiplier trp * 128\<rparr>
                     in if c AND 128 \<noteq> 0 then decodenb_loop getfn trp s else Some (tr_len trp, trp, s))))"
  by pat_completeness auto
termination by (relation "measure (\<lambda>(g, trp, s). nat (int MAX_NO_OF_REMAINING_LENGTH_BYTES - tr_len trp))") auto

declare decodenb_loop.simps [simp del]

definition MQTTPacket_decodenb :: "'s getfn \<Rightarrow> MQTTTransport \<Rightarrow> 's \<Rightarrow> (int \<times> MQTTTransport \<times> 's) option" where
  "MQTTPacket_decodenb getfn trp s =
     (let trp = (if tr_len trp = 0 then trp\<lparr>tr_multiplier := 1, tr_rem_len := 0\<rparr> else trp)
      in decodenb_loop getfn trp s)"

text \<open>The three cases of the \<open>switch\<close>, each falling through to the next. The result is the return
  value, the buffer, the transport record and the state of the transport.\<close>

definition readnb_body ::
  "bytes \<Rightarrow> 's getfn \<Rightarrow> MQTTTransport \<Rightarrow> 's \<Rightarrow> (int \<times> bytes \<times> MQTTTransport \<times> 's) option" where
  "readnb_body buf getfn trp s = do {
     let (frc, xs, s) = getfn s (c_size (tr_rem_len trp));
     buf \<leftarrow> mem_write buf (nat (tr_len trp)) xs;
     if frc = -1 then Some (-1, buf, trp\<lparr>tr_state := 0\<rparr>, s)
     else if frc = 0 then Some (0, buf, trp, s)
     else do {
       let trp = trp\<lparr>tr_rem_len := tr_rem_len trp - frc, tr_len := tr_len trp + frc\<rparr>;
       if tr_rem_len trp \<noteq> 0 then Some (0, buf, trp, s)
       else do {
         b \<leftarrow> mem_read buf 0 1;
         Some (uint (header_type (b ! 0)), buf, trp\<lparr>tr_state := 0\<rparr>, s)
       }
     }
   }"

definition readnb_length ::
  "bytes \<Rightarrow> int \<Rightarrow> 's getfn \<Rightarrow> MQTTTransport \<Rightarrow> 's \<Rightarrow> (int \<times> bytes \<times> MQTTTransport \<times> 's) option" where
  "readnb_length buf buflen getfn trp s = do {
     (frc, trp, s) \<leftarrow> MQTTPacket_decodenb getfn trp s;
     if frc = MQTTPACKET_READ_ERROR then Some (-1, buf, trp\<lparr>tr_state := 0\<rparr>, s)
     else if frc = 0 then Some (0, buf, trp, s)
     else do {
       (buf, n) \<leftarrow> MQTTPacket_encode buf 1 (tr_rem_len trp);
       let trp = trp\<lparr>tr_len := 1 + int n\<rparr>;
       if tr_rem_len trp + tr_len trp > buflen then Some (-1, buf, trp\<lparr>tr_state := 0\<rparr>, s)
       else readnb_body buf getfn (trp\<lparr>tr_state := tr_state trp + 1\<rparr>) s
     }
   }"

definition MQTTPacket_readnb ::
  "bytes \<Rightarrow> int \<Rightarrow> 's getfn \<Rightarrow> MQTTTransport \<Rightarrow> 's \<Rightarrow> (int \<times> bytes \<times> MQTTTransport \<times> 's) option" where
  "MQTTPacket_readnb buf buflen getfn trp s =
     (if tr_state trp = 1 then readnb_length buf buflen getfn trp s
      else if tr_state trp = 2 then readnb_body buf getfn trp s
      else do {
        let trp = trp\<lparr>tr_state := 0\<rparr>;
        let (frc, xs, s) = getfn s 1;
        buf \<leftarrow> mem_write buf 0 xs;
        if frc = -1 then Some (-1, buf, trp\<lparr>tr_state := 0\<rparr>, s)
        else if frc = 0 then Some (0, buf, trp, s)
        else readnb_length buf buflen getfn (trp\<lparr>tr_len := 0, tr_state := tr_state trp + 1\<rparr>) s
      })"

text \<open>Calling again as long as the reader says so, at most \<open>k + 1\<close> calls.\<close>

fun readnb_poll ::
  "nat \<Rightarrow> bytes \<Rightarrow> int \<Rightarrow> 's getfn \<Rightarrow> MQTTTransport \<Rightarrow> 's \<Rightarrow> (int \<times> bytes \<times> MQTTTransport \<times> 's) option" where
  "readnb_poll 0 buf buflen getfn trp s = MQTTPacket_readnb buf buflen getfn trp s"
| "readnb_poll (Suc k) buf buflen getfn trp s =
     (case MQTTPacket_readnb buf buflen getfn trp s of
        None \<Rightarrow> None
      | Some (rc, buf, trp, s) \<Rightarrow>
          if rc = 0 then readnb_poll k buf buflen getfn trp s else Some (rc, buf, trp, s))"

section \<open>The contract of the receive callback\<close>

definition nb_source :: "'s getfn \<Rightarrow> ('s \<Rightarrow> bytes) \<Rightarrow> bool" where
  "nb_source getfn pending =
     (\<forall>s n. case getfn s n of (frc, xs, s') \<Rightarrow>
        frc = int (length xs) \<and> length xs \<le> n \<and> pending s = xs @ pending s')"

definition nb_ready :: "'s getfn \<Rightarrow> ('s \<Rightarrow> bytes) \<Rightarrow> bool" where
  "nb_ready getfn pending =
     (nb_source getfn pending
      \<and> (\<forall>s n. 0 < n \<and> pending s \<noteq> [] \<longrightarrow> fst (getfn s n) \<noteq> 0))"

text \<open>
  A source that may say "call again" at any time while data is pending, at most \<open>quiet s\<close> times from
  the state \<open>s\<close>, except at positions where between \<open>lo\<close> and \<open>hi\<close> bytes are pending.
\<close>

definition nb_polled :: "'s getfn \<Rightarrow> ('s \<Rightarrow> bytes) \<Rightarrow> ('s \<Rightarrow> nat) \<Rightarrow> nat \<Rightarrow> nat \<Rightarrow> bool" where
  "nb_polled getfn pending quiet lo hi =
     (nb_source getfn pending
      \<and> (\<forall>s n. 0 < n \<and> pending s \<noteq> [] \<longrightarrow>
           (case getfn s n of (frc, xs, s') \<Rightarrow>
              if frc = 0 then quiet s' < quiet s \<and> \<not> (lo < length (pending s) \<and> length (pending s) < hi)
              else quiet s' \<le> quiet s)))"

lemma nb_ready_polled: "nb_ready getfn pending \<Longrightarrow> nb_polled getfn pending (\<lambda>_. 0) lo hi"
  by (fastforce simp: nb_ready_def nb_polled_def split: prod.splits)

lemma nb_polled_get:
  assumes "nb_polled getfn pending quiet lo hi" and "0 < n" and "pending s \<noteq> []"
  obtains (again) s' where "getfn s n = (0, [], s')" and "pending s' = pending s" and "quiet s' < quiet s"
      and "\<not> (lo < length (pending s) \<and> length (pending s) < hi)"
    | (bytes) xs s' where "getfn s n = (int (length xs), xs, s')" and "xs \<noteq> []" and "length xs \<le> n"
      and "pending s = xs @ pending s'" and "quiet s' \<le> quiet s"
proof -
  obtain frc xs s' where g: "getfn s n = (frc, xs, s')" by (cases "getfn s n")
  then have c: "frc = int (length xs)" "length xs \<le> n" "pending s = xs @ pending s'"
    using assms(1) by (auto simp: nb_polled_def nb_source_def dest!: spec [of _ s] spec [of _ n])
  have q: "if frc = 0 then quiet s' < quiet s \<and> \<not> (lo < length (pending s) \<and> length (pending s) < hi) else quiet s' \<le> quiet s"
    using assms g by (auto simp: nb_polled_def dest!: spec [of _ s] spec [of _ n])
  show thesis
  proof (cases "xs = []")
    case True
    then show thesis using g c q again by simp
  next
    case False
    then show thesis using g c q bytes by simp
  qed
qed

lemma nb_polled_get1:
  assumes "nb_polled getfn pending quiet lo hi" and "pending s = c # r" and "lo \<le> length r" and "length r + 1 < hi"
  obtains s' where "getfn s 1 = (1, [c], s')" and "pending s' = r" and "quiet s' \<le> quiet s"
proof -
  have ne: "pending s \<noteq> []" using assms(2) by simp
  from assms(1) zero_less_one ne show thesis
  proof (cases rule: nb_polled_get)
    case (bytes xs s')
    then have "xs = [c] \<and> pending s' = r" using assms(2) by (cases xs) auto
    then show thesis using bytes that by auto
  qed (use assms in auto)
qed

lemma decodenb_loop_eq:
  assumes polled: "nb_polled getfn pending quiet lo hi" and lo: "lo \<le> length rest"
    and "length (varint n @ rest) < hi" and "pending s = varint n @ rest" and "tr_len trp + int (length (varint n)) \<le> 4" and "0 \<le> tr_len trp"
  shows "\<exists>s'. decodenb_loop getfn trp s =
      Some (tr_len trp + int (length (varint n)),
        trp\<lparr>tr_len := tr_len trp + int (length (varint n)), tr_rem_len := tr_rem_len trp + int n * tr_multiplier trp,
          tr_multiplier := tr_multiplier trp * 128 ^ length (varint n)\<rparr>, s')
    \<and> pending s' = rest \<and> quiet s' \<le> quiet s"
  using assms(3-)
proof (induction n arbitrary: s trp rule: varint.induct)
  case (1 n)
  show ?case
  proof (cases "n < 128")
    case True
    have v: "varint n = [of_nat n]" using True by (subst varint.simps) simp
    with "1.prems"(1,2) have p: "pending s = of_nat n # rest" "length rest + 1 < hi" by simp_all
    obtain s' where "getfn s 1 = (1, [of_nat n], s')" "pending s' = rest" "quiet s' \<le> quiet s"
      by (rule nb_polled_get1 [OF polled p(1) lo p(2)])
    then show ?thesis
      using v low7 [OF True] "1.prems"(3)
      by (subst decodenb_loop.simps) (simp add: MAX_NO_OF_REMAINING_LENGTH_BYTES_def Let_def mult.commute)
  next
    case False
    let ?c = "of_nat (n mod 128 + 128) :: u8"
    have v: "varint n = ?c # varint (n div 128)" using False by (subst varint.simps) simp
    then have p: "pending s = ?c # varint (n div 128) @ rest" "lo \<le> length (varint (n div 128) @ rest)"
      "length (varint (n div 128) @ rest) + 1 < hi" using "1.prems"(1,2) lo by simp_all
    obtain s1 where g: "getfn s 1 = (1, [?c], s1)" "pending s1 = varint (n div 128) @ rest" and q: "quiet s1 \<le> quiet s"
      by (rule nb_polled_get1 [OF polled p])
    let ?trp = "trp\<lparr>tr_len := tr_len trp + 1, tr_rem_len := tr_rem_len trp + int (n mod 128) * tr_multiplier trp,
      tr_multiplier := tr_multiplier trp * 128\<rparr>"
    have "\<exists>s'. decodenb_loop getfn ?trp s1 =
      Some (tr_len ?trp + int (length (varint (n div 128))),
        ?trp\<lparr>tr_len := tr_len ?trp + int (length (varint (n div 128))),
          tr_rem_len := tr_rem_len ?trp + int (n div 128) * tr_multiplier ?trp,
          tr_multiplier := tr_multiplier ?trp * 128 ^ length (varint (n div 128))\<rparr>, s')
      \<and> pending s' = rest \<and> quiet s' \<le> quiet s1"
      by (rule "1.IH" [OF False _ g(2)]) (use "1.prems"(1,3,4) v in simp_all)
    moreover have "decodenb_loop getfn trp s = decodenb_loop getfn ?trp s1"
      using g(1) high_bit(2,3) [of "n mod 128"] "1.prems"(3) v
      by (subst decodenb_loop.simps) (simp add: MAX_NO_OF_REMAINING_LENGTH_BYTES_def Let_def del: of_nat_add)
    moreover have "int n = int (n mod 128) + int (n div 128) * 128"
      by (metis add.commute div_mult_mod_eq of_nat_add of_nat_mult of_nat_numeral)
    then have "tr_rem_len trp + int (n mod 128) * tr_multiplier trp + int (n div 128) * (tr_multiplier trp * 128)
        = tr_rem_len trp + int n * tr_multiplier trp"
      by (simp add: algebra_simps)
    ultimately show ?thesis using v q by (auto simp: ac_simps intro: order_trans)
  qed
qed

section \<open>Progress\<close>

definition body_pending :: "bytes \<Rightarrow> bytes \<Rightarrow> ('s \<Rightarrow> bytes) \<Rightarrow> bytes \<Rightarrow> MQTTTransport \<Rightarrow> 's \<Rightarrow> bool" where
  "body_pending pk rest pending buf trp s =
     (tr_state trp = 2 \<and> 0 < tr_rem_len trp \<and> 1 \<le> tr_len trp
      \<and> tr_len trp + tr_rem_len trp = int (length pk) \<and> length pk \<le> length buf
      \<and> take (nat (tr_len trp)) buf = take (nat (tr_len trp)) pk
      \<and> pending s = drop (nat (tr_len trp)) pk @ rest)"

definition packet_done :: "bytes \<Rightarrow> bytes \<Rightarrow> ('s \<Rightarrow> bytes) \<Rightarrow> int \<Rightarrow> bytes \<Rightarrow> MQTTTransport \<Rightarrow> 's \<Rightarrow> bool" where
  "packet_done pk rest pending rc buf trp s =
     (rc = uint (header_type (pk ! 0)) \<and> take (length pk) buf = pk \<and> pending s = rest \<and> tr_state trp = 0)"

lemma readnb_body_step:
  assumes polled: "nb_polled getfn pending quiet lo hi" and inv: "body_pending pk rest pending buf trp s"
    and small: "length pk < 2 ^ 32"
  shows "\<exists>rc buf' trp' s'. readnb_body buf getfn trp s = Some (rc, buf', trp', s') \<and> length buf' = length buf
    \<and> (rc = 0 \<and> body_pending pk rest pending buf' trp' s' 
         \<and> tr_rem_len trp' + int (quiet s') < tr_rem_len trp + int (quiet s)
       \<or> packet_done pk rest pending rc buf' trp' s')"
proof -
  define k m where "k = nat (tr_len trp)" and "m = nat (tr_rem_len trp)"
  have km: "tr_len trp = int k" "tr_rem_len trp = int m" "0 < m" "1 \<le> k" "k + m = length pk" "length pk \<le> length buf"
    and b: "take k buf = take k pk" and pend: "pending s = drop k pk @ rest"
    using inv by (auto simp: body_pending_def k_def m_def)
  have c: "c_size (int m) = m" using small km by (intro c_size_of_nat) simp
  have "pending s \<noteq> []" using pend km by simp
  from nb_polled_get [OF polled km(3) this] consider
      (again) s' where "getfn s m = (0, [], s')" "pending s' = pending s" "quiet s' < quiet s"
    | (bytes) xs s' where "getfn s m = (int (length xs), xs, s')" "xs \<noteq> []" "length xs \<le> m"
      "pending s = xs @ pending s'" "quiet s' \<le> quiet s" by metis
  then show ?thesis
  proof cases
    case again
    have "k \<le> length buf" using km by linarith
    then have "readnb_body buf getfn trp s = Some (0, buf, trp, s')"
      using again(1) km(1,2) c by (simp add: readnb_body_def mem_write_def patch_at_def)
    then show ?thesis using again(2,3) inv by (simp add: body_pending_def)
  next
    case g: (bytes xs s')
    have dk: "drop k pk @ rest = xs @ pending s'" using g(4) pend by simp
    have xs: "xs = take (length xs) (drop k pk)"
      using arg_cong [OF dk, of "take (length xs)"] g(3) km(5) by simp
    have rest: "pending s' = drop (k + length xs) pk @ rest"
      using arg_cong [OF dk, of "drop (length xs)"] g(3) km(5) by (simp add: add.commute)
    let ?buf = "patch_at buf k xs"
    have room: "k + length xs \<le> length buf" using g(3) km by linarith
    have nb: "take (k + length xs) ?buf = take (k + length xs) pk"
      using room b xs km(5) by (simp add: patch_at_def take_add)
    have call: "readnb_body buf getfn trp s =
        (let trp = trp\<lparr>tr_rem_len := int m - int (length xs), tr_len := int k + int (length xs)\<rparr>
         in if tr_rem_len trp \<noteq> 0 then Some (0, ?buf, trp, s')
            else do { b \<leftarrow> mem_read ?buf 0 1; Some (uint (header_type (b ! 0)), ?buf, trp\<lparr>tr_state := 0\<rparr>, s') })"
      using g(1,2) room km(1,2) c by (simp add: readnb_body_def mem_simps Let_def)
    show ?thesis
    proof (cases "length xs = m")
      case True
      have full: "take (length pk) ?buf = pk" using nb True km(5) by simp
      have "pk \<noteq> []" using km(3,5) by auto
      then have "?buf ! 0 = pk ! 0" using full nth_take [of 0 "length pk" ?buf] by simp
      moreover have "mem_read ?buf 0 1 = Some [?buf ! 0]"
        using km(4,6) km(5) room by (cases ?buf) (auto simp: mem_read_def patch_at_def)
      ultimately show ?thesis
        using call True full rest room km(5) by (simp add: packet_done_def)
    next
      case False
      then have lt: "length xs < m" using g(3) by simp
      then have "body_pending pk rest pending ?buf
          (trp\<lparr>tr_rem_len := int m - int (length xs), tr_len := int k + int (length xs)\<rparr>) s'"
        using inv nb rest km room by (simp add: body_pending_def nat_add_distrib)
      moreover have "0 < length xs" using g(2) by simp
      then have "int m - int (length xs) + int (quiet s') < int m + int (quiet s)" using g(5) by linarith
      ultimately show ?thesis using call lt km(2) room by simp
    qed
  qed
qed

lemma readnb_poll_body:
  assumes polled: "nb_polled getfn pending quiet lo hi" and "length pk < 2 ^ 32" and "header_type (pk ! 0) \<noteq> 0"
    and "body_pending pk rest pending buf trp s" and "tr_rem_len trp + int (quiet s) \<le> int k + 1"
  shows "\<exists>rc buf' trp' s'. readnb_poll k buf buflen getfn trp s = Some (rc, buf', trp', s')
    \<and> length buf' = length buf \<and> packet_done pk rest pending rc buf' trp' s'"
  using assms(4,5)
proof (induction k arbitrary: buf trp s)
  case 0
  have call: "MQTTPacket_readnb buf buflen getfn trp s = readnb_body buf getfn trp s"
    using "0.prems"(1) by (simp add: MQTTPacket_readnb_def body_pending_def)
  from readnb_body_step [OF polled "0.prems"(1) assms(2)]
  obtain rc buf' trp' s' where st: "readnb_body buf getfn trp s = Some (rc, buf', trp', s')" "length buf' = length buf"
    "rc = 0 \<and> body_pending pk rest pending buf' trp' s' \<and> tr_rem_len trp' + int (quiet s') < tr_rem_len trp + int (quiet s)
       \<or> packet_done pk rest pending rc buf' trp' s'"
    by blast
  then have "packet_done pk rest pending rc buf' trp' s'" using "0.prems"(2) by (auto simp: body_pending_def)
  with st call show ?case by simp
next
  case (Suc k)
  have call: "MQTTPacket_readnb buf buflen getfn trp s = readnb_body buf getfn trp s"
    using Suc.prems(1) by (simp add: MQTTPacket_readnb_def body_pending_def)
  from readnb_body_step [OF polled Suc.prems(1) assms(2)]
  obtain rc buf' trp' s' where st: "readnb_body buf getfn trp s = Some (rc, buf', trp', s')" "length buf' = length buf"
    "rc = 0 \<and> body_pending pk rest pending buf' trp' s' \<and> tr_rem_len trp' + int (quiet s') < tr_rem_len trp + int (quiet s)
       \<or> packet_done pk rest pending rc buf' trp' s'"
    by blast
  show ?case
  proof (cases "packet_done pk rest pending rc buf' trp' s'")
    case True
    then have "rc \<noteq> 0" using assms(3) by (auto simp: packet_done_def uint_0_iff)
    then show ?thesis using st(1,2) call True by simp
  next
    case False
    then have n: "rc = 0" "body_pending pk rest pending buf' trp' s'" "tr_rem_len trp' + int (quiet s') \<le> int k + 1"
      using st(3) Suc.prems(2) by auto
    from Suc.IH [OF n(2,3)] show ?thesis using st(1,2) call n(1) by simp
  qed
qed

text \<open>
  The first call finds nothing and changes nothing, or it gets through the header and the length and
  asks for the body.
\<close>

lemma readnb_first:
  assumes polled: "nb_polled getfn pending quiet (length (body @ rest)) (length (pk @ rest))"
    and st: "tr_state trp \<noteq> 1" "tr_state trp \<noteq> 2"
    and pk: "pk = h # varint (length body) @ body" and body: "length body < 268435456"
    and pend: "pending s = pk @ rest" and len: "int (length pk) \<le> buflen" "buflen \<le> int (length buf)"
  shows "(\<exists>s'. getfn s 1 = (0, [], s') \<and> MQTTPacket_readnb buf buflen getfn trp s = Some (0, buf, trp\<lparr>tr_state := 0\<rparr>, s')
      \<and> pending s' = pending s \<and> quiet s' < quiet s)
    \<or> (\<exists>buf1 trp1 s1. MQTTPacket_readnb buf buflen getfn trp s = readnb_body buf1 getfn trp1 s1
      \<and> length buf1 = length buf \<and> take (1 + length (varint (length body))) buf1 = h # varint (length body)
      \<and> tr_state trp1 = 2 \<and> tr_len trp1 = 1 + int (length (varint (length body)))
      \<and> tr_rem_len trp1 = int (length body) \<and> pending s1 = body @ rest \<and> quiet s1 \<le> quiet s)"
proof -
  let ?v = "varint (length body)"
  have p: "pending s = h # ?v @ body @ rest" using pend pk by simp
  then have ne: "pending s \<noteq> []" by simp
  from polled zero_less_one ne show ?thesis
  proof (cases rule: nb_polled_get)
    case (again s')
    then have "MQTTPacket_readnb buf buflen getfn trp s = Some (0, buf, trp\<lparr>tr_state := 0\<rparr>, s')"
      using st by (simp add: MQTTPacket_readnb_def mem_write_def patch_at_def)
    then show ?thesis using again by blast
  next
    case (bytes xs s0)
    then have g0: "getfn s 1 = (1, [h], s0)" and p0: "pending s0 = ?v @ body @ rest"
      using p by (cases xs; simp)+
    define trp0 where "trp0 = trp\<lparr>tr_len := 0, tr_state := 1, tr_multiplier := 1, tr_rem_len := 0\<rparr>"
    have v4: "tr_len trp0 + int (length ?v) \<le> 4" "0 \<le> tr_len trp0"
      using varint_length_le [OF body] by (simp_all add: trp0_def)
    have hi: "length (?v @ body @ rest) < length (pk @ rest)" using pk by simp
    from decodenb_loop_eq [OF polled _ hi p0 v4] obtain s1 where
      d: "decodenb_loop getfn trp0 s0 = Some (int (length ?v), trp0\<lparr>tr_len := int (length ?v),
        tr_rem_len := int (length body), tr_multiplier := 128 ^ length ?v\<rparr>, s1)" and p1: "pending s1 = body @ rest"
      and q1: "quiet s1 \<le> quiet s0"
      by (auto simp: trp0_def)
    have vpos: "0 < length ?v" by simp
    have fit: "1 + length ?v + length body \<le> length buf" using len pk by simp
    let ?b0 = "patch_at buf 0 [h]" and ?b1 = "patch_at buf 0 ([h] @ ?v)"
    have enc: "MQTTPacket_encode ?b0 1 (int (length body)) = Some (?b1, length ?v)"
      using MQTTPacket_encode_wstate [of "[h]" "length body" buf] fit by simp
    have w0: "mem_write buf 0 [h] = Some ?b0" using fit by (simp add: mem_simps)
    let ?trp1 = "trp0\<lparr>tr_rem_len := int (length body), tr_multiplier := 128 ^ length ?v,
      tr_len := 1 + int (length ?v), tr_state := 2\<rparr>"
    have state: "tr_state trp0 = 1" by (simp add: trp0_def)
    have "MQTTPacket_readnb buf buflen getfn trp s = readnb_body ?b1 getfn ?trp1 s1"
      using st g0 w0 d enc vpos len(1) pk state
      by (simp add: MQTTPacket_readnb_def readnb_length_def MQTTPacket_decodenb_def trp0_def [symmetric]
          MQTTPACKET_READ_ERROR_def Let_def)
    moreover have "length ?b1 = length buf" "take (1 + length ?v) ?b1 = h # ?v"
      using fit by (simp_all add: patch_at_0)
    ultimately show ?thesis
      using p1 q1 bytes(5) by (intro disjI2 exI [of _ ?b1] exI [of _ ?trp1] exI [of _ s1]) simp
  qed
qed

lemma readnb_poll_start:
  assumes polled: "nb_polled getfn pending quiet (length (body @ rest)) (length (pk @ rest))"
    and pk: "pk = h # varint (length body) @ body" "body \<noteq> []" "length body < 268435456" "header_type h \<noteq> 0"
    and len: "int (length pk) \<le> buflen" "buflen \<le> int (length buf)"
    and st: "tr_state trp \<noteq> 1" "tr_state trp \<noteq> 2" "pending s = pk @ rest" "length body + quiet s \<le> k"
  shows "\<exists>buf' trp' s'. readnb_poll k buf buflen getfn trp s = Some (uint (header_type h), buf', trp', s')
    \<and> length buf' = length buf \<and> take (length pk) buf' = pk \<and> pending s' = rest \<and> tr_state trp' = 0"
  using st
proof (induction k arbitrary: trp s)
  case 0
  then show ?case using pk(2) by simp
next
  case (Suc k)
  have small: "length pk < 2 ^ 32" and h0: "pk ! 0 = h"
    using pk(1,3) varint_length_le [OF pk(3)] by simp_all
  from readnb_first [OF polled Suc.prems(1,2) pk(1,3) Suc.prems(3) len] consider
      (again) s' where "MQTTPacket_readnb buf buflen getfn trp s = Some (0, buf, trp\<lparr>tr_state := 0\<rparr>, s')"
        "pending s' = pending s" "quiet s' < quiet s"
    | (body) buf1 trp1 s1 where "MQTTPacket_readnb buf buflen getfn trp s = readnb_body buf1 getfn trp1 s1"
        "length buf1 = length buf" "take (1 + length (varint (length body))) buf1 = h # varint (length body)"
        "tr_state trp1 = 2" "tr_len trp1 = 1 + int (length (varint (length body)))"
        "tr_rem_len trp1 = int (length body)" "pending s1 = body @ rest" "quiet s1 \<le> quiet s" by blast
  then show ?case
  proof cases
    case again
    then show ?thesis using Suc.IH [of "trp\<lparr>tr_state := 0\<rparr>" s'] Suc.prems by simp
  next
    case body
    have inv: "body_pending pk rest pending buf1 trp1 s1"
      using body pk len by (simp add: body_pending_def nat_add_distrib)
    from readnb_body_step [OF polled inv small] obtain rc buf2 trp2 s2 where
      st: "readnb_body buf1 getfn trp1 s1 = Some (rc, buf2, trp2, s2)" "length buf2 = length buf1"
        "rc = 0 \<and> body_pending pk rest pending buf2 trp2 s2 \<and> tr_rem_len trp2 + int (quiet s2) < tr_rem_len trp1 + int (quiet s1)
         \<or> packet_done pk rest pending rc buf2 trp2 s2"
      by blast
    show ?thesis
    proof (cases "packet_done pk rest pending rc buf2 trp2 s2")
      case True
      then have "rc \<noteq> 0" using pk(4) h0 by (auto simp: packet_done_def uint_0_iff)
      then show ?thesis using True body(1,2) st(1,2) h0 by (simp add: packet_done_def)
    next
      case False
      then have n: "rc = 0" "body_pending pk rest pending buf2 trp2 s2" "tr_rem_len trp2 + int (quiet s2) \<le> int k + 1"
        using st(3) body(6,8) Suc.prems(4) by auto
      from readnb_poll_body [OF polled small _ n(2,3), of buflen] show ?thesis
        using body(1,2) st(1,2) n(1) h0 pk(4) by (auto simp: packet_done_def)
    qed
  qed
qed

text \<open>
  C12. \<open>MQTTPacket_readnb\<close> reassembles a packet with a non-empty body that arrives in arbitrary pieces.
  The transport reports no error and may answer "call again" any finite number of times before the
  header byte and anywhere in the body, but not between the header byte and the end of the length.
  After at most one call per body byte, one per such answer and one more, the reader returns the
  packet type, with exactly the packet in the buffer, the transport positioned after it, and its
  state machine back at the start.
\<close>

theorem mqtt_readnb_completes:
  assumes "nb_polled getfn pending quiet (length (body @ rest)) (length (pk @ rest))"
    and "tr_state trp \<noteq> 1" and "tr_state trp \<noteq> 2"
    and "pk = h # varint (length body) @ body" and "body \<noteq> []" and "length body < 268435456"
    and "header_type h \<noteq> 0" and "pending s = pk @ rest"
    and "int (length pk) \<le> buflen" and "buflen \<le> int (length buf)"
  shows "\<exists>buf' trp' s'. readnb_poll (length body + quiet s) buf buflen getfn trp s
      = Some (uint (header_type h), buf', trp', s')
    \<and> length buf' = length buf \<and> take (length pk) buf' = pk \<and> pending s' = rest \<and> tr_state trp' = 0"
  by (rule readnb_poll_start [OF assms(1,4-7,9,10,2,3,8) order_refl])

text \<open>
  A transport that delivers one byte per call, and one that also says "call again" where its schedule
  has a \<open>True\<close>, except when four bytes are left.
\<close>

definition dribble :: "bytes getfn" where
  "dribble s n = (if n = 0 \<or> s = [] then (0, [], s) else (1, [hd s], tl s))"

lemma dribble_ready: "nb_ready dribble id"
  by (auto simp: nb_ready_def nb_source_def dribble_def)

definition sleepy :: "(bool list \<times> bytes) getfn" where
  "sleepy s n =
     (case s of (bs, xs) \<Rightarrow>
        if n = 0 \<or> xs = [] then (0, [], s)
        else if bs \<noteq> [] \<and> hd bs \<and> length xs \<noteq> 4 then (0, [], (tl bs, xs))
        else (1, [hd xs], (tl bs, tl xs)))"

lemma sleepy_polled: "nb_polled sleepy snd (\<lambda>s. length (filter id (fst s))) 3 5"
proof -
  have "length (filter id (tl bs)) \<le> length (filter id bs)" for bs by (cases bs) auto
  moreover have "bs \<noteq> [] \<Longrightarrow> hd bs \<Longrightarrow> length (filter id (tl bs)) < length (filter id bs)" for bs by (cases bs) auto
  ultimately show ?thesis by (auto simp: nb_polled_def nb_source_def sleepy_def)
qed

theorem mqtt_readnb_completes_witness:
  "\<exists>buf' trp' s'. readnb_poll 5 (replicate 8 0) 8 sleepy
      \<lparr>tr_multiplier = 0, tr_rem_len = 0, tr_len = 0, tr_state = 0\<rparr>
      ([True, False, False, True, False, True], [0x40, 2, 0, 9, 7]) = Some (uint (header_type 0x40), buf', trp', s')
    \<and> take 4 buf' = [0x40, 2, 0, 9] \<and> snd s' = [7] \<and> tr_state trp' = 0"
proof -
  have "nb_polled sleepy snd (\<lambda>s. length (filter id (fst s))) (length ([0, 9 :: u8] @ [7 :: u8])) (length ([0x40, 2, 0, 9 :: u8] @ [7]))"
    using sleepy_polled by (simp add: eval_nat_numeral)
  note p = this
  let ?s = "([True, False, False, True, False, True], [0x40, 2, 0, 9, 7 :: u8])"
  have e: "[0x40, 2, 0, 9 :: u8] = 0x40 # varint (length [0, 9 :: u8]) @ [0, 9]" by (simp add: varint_small)
  have n: "length [0, 9 :: u8] + length (filter id (fst ?s)) = 5" and l: "length [0x40, 2, 0, 9 :: u8] = 4" by simp_all
  have "\<exists>buf' trp' s'. readnb_poll (length [0, 9 :: u8] + length (filter id (fst ?s))) (replicate 8 0) 8 sleepy
      \<lparr>tr_multiplier = 0, tr_rem_len = 0, tr_len = 0, tr_state = 0\<rparr> ?s = Some (uint (header_type 0x40), buf', trp', s')
    \<and> length buf' = length (replicate 8 (0 :: u8)) \<and> take (length [0x40, 2, 0, 9 :: u8]) buf' = [0x40, 2, 0, 9]
    \<and> snd s' = [7] \<and> tr_state trp' = 0"
    by (rule mqtt_readnb_completes [OF p _ _ e]) (simp_all add: header_type_def)
  then show ?thesis unfolding n l by blast
qed

section \<open>Where the non-blocking reader does not resume\<close>

text \<open>
  A packet without body (a ping response, \<open>[0xD0, 0]\<close>) is never completed: the reader asks the
  transport for zero bytes, takes the answer 0 as "call again", and says so for ever.
\<close>

theorem mqtt_readnb_empty_body_stuck:
  assumes "nb_ready getfn pending" and "tr_state trp \<noteq> 1" and "tr_state trp \<noteq> 2"
    and "pending s = [h, 0] @ rest" and "2 \<le> buflen" and "buflen \<le> int (length buf)"
  shows "\<exists>buf' trp' s'. readnb_poll k buf buflen getfn trp s = Some (0, buf', trp', s')
    \<and> tr_state trp' = 2 \<and> pending s' = rest"
proof -
  have again: "\<exists>s'. readnb_poll k buf buflen getfn trp s = Some (0, buf, trp, s') \<and> pending s' = pending s"
    if "tr_state trp = 2" "tr_rem_len trp = 0" "nat (tr_len trp) \<le> length buf" for k buf trp s
  proof -
    have call: "\<exists>s'. MQTTPacket_readnb buf buflen getfn trp s = Some (0, buf, trp, s') \<and> pending s' = pending s" for s
    proof -
      obtain frc xs s' where g: "getfn s 0 = (frc, xs, s')" by (cases "getfn s 0")
      then have "frc = 0 \<and> xs = [] \<and> pending s' = pending s"
        using assms(1) by (auto simp: nb_ready_def nb_source_def dest!: spec [of _ s] spec [of _ 0])
      with g that show ?thesis by (simp add: MQTTPacket_readnb_def readnb_body_def c_size_def mem_write_def)
    qed
    show ?thesis
    proof (induction k arbitrary: s)
      case 0
      show ?case using call by simp
    next
      case (Suc k)
      from call [of s] obtain s1 where s1: "MQTTPacket_readnb buf buflen getfn trp s = Some (0, buf, trp, s1)"
        "pending s1 = pending s" by blast
      with Suc.IH [of s1] show ?case by simp
    qed
  qed
  have pk: "[h, 0] = h # varint (length ([] :: bytes)) @ []" by (simp add: varint_small)
  obtain buf1 trp1 s1 where c: "MQTTPacket_readnb buf buflen getfn trp s = readnb_body buf1 getfn trp1 s1"
    and f: "length buf1 = length buf" "tr_state trp1 = 2" "tr_len trp1 = 2" "tr_rem_len trp1 = 0" "pending s1 = rest"
    using readnb_first [OF nb_ready_polled [OF assms(1)] assms(2,3) pk _ assms(4) _ assms(6)] assms(5)
    by (auto simp: varint_small)
  then have r: "readnb_poll k buf buflen getfn trp s = readnb_poll k buf1 buflen getfn trp1 s1" for k
    by (cases k) (simp_all add: MQTTPacket_readnb_def)
  from again [of trp1 buf1 k s1] show ?thesis using f assms(5,6) by (auto simp: r)
qed

theorem mqtt_readnb_empty_body_stuck_witness:
  "\<exists>buf' trp' s'. readnb_poll 1000 (replicate 8 0) 8 dribble
      \<lparr>tr_multiplier = 0, tr_rem_len = 0, tr_len = 0, tr_state = 0\<rparr> ([0xD0, 0] @ [7]) = Some (0, buf', trp', s')
    \<and> tr_state trp' = 2 \<and> id s' = [7]"
  by (rule mqtt_readnb_empty_body_stuck [OF dribble_ready]) simp_all

lemma decodenb_quiet:
  assumes "getfn s 1 = (0, [], s)" and "tr_len trp < 4"
  shows "decodenb_loop getfn trp s = Some (0, trp\<lparr>tr_len := tr_len trp + 1\<rparr>, s)"
  using assms by (subst decodenb_loop.simps) (simp add: MAX_NO_OF_REMAINING_LENGTH_BYTES_def Let_def)

lemma decodenb_full:
  assumes "4 \<le> tr_len trp"
  shows "decodenb_loop getfn trp s = Some (-1, trp\<lparr>tr_len := tr_len trp + 1\<rparr>, s)"
  using assms
  by (subst decodenb_loop.simps)
    (simp add: MAX_NO_OF_REMAINING_LENGTH_BYTES_def MQTTPACKET_READ_ERROR_def Let_def)

lemma readnb_quiet:
  assumes "getfn s 1 = (0, [], s)" and "tr_state trp = 1" and "tr_len trp < 4"
  shows "MQTTPacket_readnb buf buflen getfn trp s =
      Some (0, buf, (if tr_len trp = 0 then trp\<lparr>tr_multiplier := 1, tr_rem_len := 0\<rparr> else trp)
        \<lparr>tr_len := tr_len trp + 1\<rparr>, s)"
  using assms decodenb_quiet [of getfn s trp] decodenb_quiet [of getfn s "trp\<lparr>tr_multiplier := 1, tr_rem_len := 0\<rparr>"]
  by (simp add: MQTTPacket_readnb_def readnb_length_def MQTTPacket_decodenb_def MQTTPACKET_READ_ERROR_def)

lemma readnb_full:
  assumes "tr_state trp = 1" and "4 \<le> tr_len trp"
  shows "MQTTPacket_readnb buf buflen getfn trp s =
      Some (-1, buf, trp\<lparr>tr_len := tr_len trp + 1, tr_state := 0\<rparr>, s)"
  using assms decodenb_full [of trp getfn s]
  by (simp add: MQTTPacket_readnb_def readnb_length_def MQTTPacket_decodenb_def MQTTPACKET_READ_ERROR_def)

text \<open>
  Between the header and the length the reader gives up on a transport that is merely quiet: each
  call that finds nothing counts as one of the four bytes a length may have. Four calls answer "call
  again", the fifth returns -1 and forgets the header byte that had been consumed.
\<close>

theorem mqtt_readnb_quiet_length_error:
  assumes "getfn s 1 = (0, [], s)" and "tr_state trp = 1" and "tr_len trp = 0"
  shows "(\<exists>trp'. readnb_poll 3 buf buflen getfn trp s = Some (0, buf, trp', s) \<and> tr_state trp' = 1)
    \<and> (\<exists>trp'. readnb_poll 4 buf buflen getfn trp s = Some (-1, buf, trp', s) \<and> tr_state trp' = 0)"
  using assms by (simp add: eval_nat_numeral readnb_quiet readnb_full)

theorem mqtt_readnb_quiet_length_error_witness:
  "(\<exists>trp'. readnb_poll 3 [0xD0, 0] 2 dribble \<lparr>tr_multiplier = 0, tr_rem_len = 0, tr_len = 0, tr_state = 1\<rparr> [] =
     Some (0, [0xD0, 0], trp', []) \<and> tr_state trp' = 1)
   \<and> (\<exists>trp'. readnb_poll 4 [0xD0, 0] 2 dribble \<lparr>tr_multiplier = 0, tr_rem_len = 0, tr_len = 0, tr_state = 1\<rparr> [] =
     Some (-1, [0xD0, 0], trp', []) \<and> tr_state trp' = 0)"
  by (rule mqtt_readnb_quiet_length_error) (simp_all add: dribble_def)

section \<open>The blocking reader\<close>

text \<open>A callback that blocks until it has all the bytes it was asked for.\<close>

definition blocking_source :: "'s getfn \<Rightarrow> ('s \<Rightarrow> bytes) \<Rightarrow> bool" where
  "blocking_source getfn pending =
     (\<forall>s n. n \<le> length (pending s) \<longrightarrow>
        (case getfn s n of (rc, xs, s') \<Rightarrow>
           rc = int n \<and> xs = take n (pending s) \<and> pending s' = drop n (pending s)))"

lemma blocking_get:
  assumes "blocking_source getfn pending" and "pending s = xs @ r"
  obtains s' where "getfn s (length xs) = (int (length xs), xs, s')" and "pending s' = r"
proof -
  obtain rc ys s' where "getfn s (length xs) = (rc, ys, s')" by (cases "getfn s (length xs)")
  then show thesis
    using assms that by (auto simp: blocking_source_def dest!: spec [of _ s] spec [of _ "length xs"])
qed

lemma decode_loop_get_one:
  assumes src: "blocking_source getfn pending"
    and "pending s = varint n @ rest" and "len + length (varint n) \<le> 4"
  shows "\<exists>s'. decode_loop (get_one getfn) s len mult val =
      Some (len + length (varint n), val + int n * mult, s') \<and> pending s' = rest"
  using assms(2-)
proof (induction n arbitrary: s len mult val rule: varint.induct)
  case (1 n)
  obtain c vs where cv: "varint n = c # vs" by (cases "varint n") auto
  then have "pending s = [c] @ vs @ rest" using "1.prems"(1) by simp
  then obtain s1 where "getfn s 1 = (1, [c], s1)" and p1: "pending s1 = vs @ rest"
    using blocking_get [OF src, of s "[c]" "vs @ rest"] by auto
  then have g: "get_one getfn s = Some (1, c, s1)" by (simp add: get_one_def)
  show ?case
  proof (cases "n < 128")
    case True
    have v: "varint n = [of_nat n]" using True by (subst varint.simps) simp
    then have "c = of_nat n" "vs = []" using cv by simp_all
    then show ?thesis
      using g p1 v low7 [OF True] "1.prems"(2)
      by (subst decode_loop.simps) (simp add: MAX_NO_OF_REMAINING_LENGTH_BYTES_def Let_def)
  next
    case False
    have v: "varint n = of_nat (n mod 128 + 128) # varint (n div 128)" using False by (subst varint.simps) simp
    have c: "c = of_nat (n mod 128 + 128)" and vs: "vs = varint (n div 128)" using cv v by simp_all
    have ih: "\<exists>s'. decode_loop (get_one getfn) s1 (len + 1) (mult * 128) (val + int (n mod 128) * mult) =
        Some (len + 1 + length (varint (n div 128)),
          val + int (n mod 128) * mult + int (n div 128) * (mult * 128), s') \<and> pending s' = rest"
      by (rule "1.IH" [OF False p1 [unfolded vs]]) (use "1.prems"(2) v in simp)
    have "int n = int (n mod 128) + int (n div 128) * 128"
      by (metis add.commute div_mult_mod_eq of_nat_add of_nat_mult of_nat_numeral)
    then have val: "val + int (n mod 128) * mult + int (n div 128) * (mult * 128) = val + int n * mult"
      by (simp add: algebra_simps)
    show ?thesis
      using g c ih [unfolded val] v high_bit(2,3) [of "n mod 128"] "1.prems"(2)
      by (subst decode_loop.simps)
        (simp add: MAX_NO_OF_REMAINING_LENGTH_BYTES_def Let_def del: of_nat_add)
  qed
qed

text \<open>
  C22. The framing of \<open>MQTTPacket_read\<close>: on a transport that starts with a packet that fits, it returns
  the packet type, the buffer starts with exactly that packet, nothing behind it is touched, and
  exactly the packet has been consumed, so that the next call reads the next packet.
\<close>

theorem mqtt_read_framing:
  assumes "blocking_source getfn pending" and "length body < 268435456"
    and "pk = h # varint (length body) @ body" and "pending s = pk @ rest"
    and "int (length pk) \<le> buflen" and "buflen \<le> int (length buf)"
  shows "\<exists>s'. MQTTPacket_read buf buflen getfn s = Some (patch_at buf 0 pk, uint (header_type h), s')
    \<and> pending s' = rest"
proof -
  let ?v = "varint (length body)"
  have p: "pending s = [h] @ ?v @ body @ rest" using assms(3,4) by simp
  obtain s0 where g0: "getfn s 1 = (1, [h], s0)" "pending s0 = ?v @ body @ rest"
    using blocking_get [OF assms(1) p] by auto
  from decode_loop_get_one [OF assms(1) g0(2), of 0 1 0] varint_length_le [OF assms(2)]
  obtain s1 where d: "MQTTPacket_decode (get_one getfn) s0 = Some (length ?v, int (length body), s1)"
    and p1: "pending s1 = body @ rest"
    by (auto simp: MQTTPacket_decode_def)
  obtain s2 where g2: "getfn s1 (length body) = (int (length body), body, s2)" "pending s2 = rest"
    using blocking_get [OF assms(1) p1] by blast
  have fit: "1 + length ?v + length body \<le> length buf" using assms(3,5,6) by simp
  have w0: "mem_write buf 0 [h] = Some (patch_at buf 0 [h])" using fit by (simp add: mem_simps)
  have enc: "MQTTPacket_encode (patch_at buf 0 [h]) 1 (int (length body)) = Some (patch_at buf 0 ([h] @ ?v), length ?v)"
    using MQTTPacket_encode_wstate [of "[h]" "length body" buf] fit by simp
  have w2: "mem_write (patch_at buf 0 ([h] @ ?v)) (1 + length ?v) body = Some (patch_at buf 0 pk)"
    using fit assms(3) patch_at_append [of 0 "[h] @ ?v" body buf] by (simp add: mem_simps)
  have n: "nat (1 + int (length ?v)) = 1 + length ?v" by simp
  have "mem_read (patch_at buf 0 pk) 0 1 = Some [h]"
    using fit assms(3) by (simp add: mem_read_def patch_at_def)
  then show ?thesis
    using g0(1) w0 d enc g2 w2 assms(3,5) n by (simp add: MQTTPacket_read_def)
qed

definition byte_stream :: "bytes getfn" where
  "byte_stream s n = (int (min n (length s)), take n s, drop n s)"

lemma byte_stream_blocking: "blocking_source byte_stream id"
  by (simp add: blocking_source_def byte_stream_def)

theorem mqtt_read_framing_witness:
  "\<exists>s'. MQTTPacket_read (replicate 8 0) 8 byte_stream ((0x40 # varint (length [0, 9 :: u8]) @ [0, 9]) @ [0xD0, 0]) =
      Some (patch_at (replicate 8 0) 0 (0x40 # varint (length [0, 9 :: u8]) @ [0, 9]), uint (header_type 0x40), s')
    \<and> id s' = [0xD0, 0]"
  by (rule mqtt_read_framing [OF byte_stream_blocking, where body = "[0, 9]"]) (simp_all add: varint_small)

end
