(* ===== verification/Fal.thy ===== *)
theory Fal
  imports Board_Prelude
begin

text \<open>
  The flash abstraction layer (\<open>rt-thread/components/fal\<close>): the table of flash devices (\<open>fal_flash.c\<close>), the table
  of partitions with its cache of devices (\<open>fal_partition.c\<close>) and the initialisation (\<open>fal.c\<close>). The board selects
  \<open>FAL_PART_HAS_TABLE_CFG\<close>, so that the partition table is the constant of \<open>fal_cfg.h\<close>, and \<open>FAL_DEBUG\<close>, so
  that a failed assertion loops forever; it is \<open>None\<close> here, as is an access outside a table. The drivers of the
  devices are the record \<open>fal_ops\<close>, a parameter of every operation; theories \<open>Fal_Port\<close> and \<open>Efm_Flash\<close> supply
  the two drivers of the board. Devices and partitions are designated by their index in the table, \<open>size_t\<close> is a
  natural number, and log output is left out.
\<close>

section \<open>Devices and partitions\<close>

record fal_flash_dev =
  dev_name :: string
  dev_addr :: u32
  dev_len :: u32
  blk_size :: u32
  write_gran :: nat

record 's fal_ops =
  op_init :: "(fal_flash_dev \<Rightarrow> 's \<Rightarrow> int \<times> fal_flash_dev \<times> 's) option"
  op_read :: "fal_flash_dev \<Rightarrow> u32 \<Rightarrow> bytes \<Rightarrow> nat \<Rightarrow> 's \<Rightarrow> (int \<times> bytes \<times> 's) option"
  op_write :: "fal_flash_dev \<Rightarrow> u32 \<Rightarrow> bytes \<Rightarrow> nat \<Rightarrow> 's \<Rightarrow> (int \<times> 's) option"
  op_erase :: "fal_flash_dev \<Rightarrow> u32 \<Rightarrow> nat \<Rightarrow> 's \<Rightarrow> (int \<times> 's) option"

record fal_partition =
  magic_word :: u32
  part_name :: string
  flash_name :: string
  part_offset :: u32
  part_len :: u32

record 's fal =
  device_table :: "fal_flash_dev list"
  flash_init_ok :: bool
  partition_table :: "fal_partition list"
  partition_table_len :: nat
  part_flash_cache :: "nat option list"
  part_init_ok :: bool
  fal_init_ok :: bool
  world :: 's

definition FAL_PART_MAGIC_WORD :: u32 where "FAL_PART_MAGIC_WORD = 0x45503130"
definition FAL_DEV_NAME_MAX :: nat where "FAL_DEV_NAME_MAX = 24"

section \<open>Flash devices\<close>

fun init_devices :: "'s fal_ops list \<Rightarrow> fal_flash_dev list \<Rightarrow> 's \<Rightarrow> fal_flash_dev list \<times> 's" where
  "init_devices (ops # opss) (d # ds) w =
     (case (case op_init ops of None \<Rightarrow> (0, d, w) | Some init \<Rightarrow> init d w) of (_, d, w) \<Rightarrow>
        (case init_devices opss ds w of (ds, w) \<Rightarrow> (d # ds, w)))"
| "init_devices _ ds w = (ds, w)"

definition fal_flash_init :: "'s fal_ops list \<Rightarrow> 's fal \<Rightarrow> int \<times> 's fal" where
  "fal_flash_init drv f =
     (if flash_init_ok f then (0, f)
      else (case init_devices drv (device_table f) (world f) of (ds, w) \<Rightarrow>
              (0, f\<lparr>device_table := ds, world := w, flash_init_ok := True\<rparr>)))"

text \<open>\<open>strncmp (name, device_table[i]->name, FAL_DEV_NAME_MAX)\<close> on strings without embedded zeros.\<close>

definition fal_flash_device_find :: "'s fal \<Rightarrow> string \<Rightarrow> nat option option" where
  "fal_flash_device_find f name =
     (if \<not> flash_init_ok f then None
      else Some (find_index (\<lambda>d. take FAL_DEV_NAME_MAX name = take FAL_DEV_NAME_MAX (dev_name d)) (device_table f)))"

section \<open>Partitions\<close>

fun check_part_loop :: "'s fal \<Rightarrow> fal_partition list \<Rightarrow> nat \<Rightarrow> nat \<Rightarrow> (int \<times> 's fal) option" where
  "check_part_loop f table i 0 = Some (0, f)"
| "check_part_loop f table i (Suc n) =
     (if i \<ge> length table then None
      else
        (case fal_flash_device_find f (flash_name (table ! i)) of
           None \<Rightarrow> None
         | Some None \<Rightarrow> check_part_loop f table (i + 1) n
         | Some (Some d) \<Rightarrow>
             if sint (part_offset (table ! i)) \<ge> sint (dev_len (device_table f ! d))
             then Some (- 1, f\<lparr>partition_table_len := 0\<rparr>)
             else if i \<ge> length (part_flash_cache f) then None
             else check_part_loop (f\<lparr>part_flash_cache := (part_flash_cache f)[i := Some d]\<rparr>) table (i + 1) n))"

definition check_and_update_part_cache :: "'s fal \<Rightarrow> fal_partition list \<Rightarrow> nat \<Rightarrow> (int \<times> 's fal) option" where
  "check_and_update_part_cache f table len = check_part_loop f table 0 len"

definition fal_partition_check :: "'s fal \<Rightarrow> (int \<times> 's fal) option" where
  "fal_partition_check f =
     (case check_and_update_part_cache f (partition_table f) (partition_table_len f) of
        None \<Rightarrow> None
      | Some (r, f) \<Rightarrow>
          let f = (if r \<noteq> 0 then f else f\<lparr>part_init_ok := True\<rparr>)
          in Some (int (partition_table_len f), f))"

definition fal_partition_init :: "fal_partition list \<Rightarrow> 's fal \<Rightarrow> (int \<times> 's fal) option" where
  "fal_partition_init partition_table_def f =
     (if part_init_ok f then Some (int (partition_table_len f), f)
      else fal_partition_check
        (f\<lparr>partition_table := partition_table_def, partition_table_len := length partition_table_def\<rparr>))"

definition fal_partition_find :: "'s fal \<Rightarrow> string \<Rightarrow> nat option" where
  "fal_partition_find f name =
     (if \<not> part_init_ok f then None
      else find_index (\<lambda>p. name = part_name p) (take (partition_table_len f) (partition_table f)))"

definition flash_device_find_by_part :: "'s fal \<Rightarrow> nat \<Rightarrow> nat option option" where
  "flash_device_find_by_part f part =
     (if part < partition_table_len f \<and> part < length (part_flash_cache f)
      then Some (part_flash_cache f ! part) else None)"

definition fal_get_partition_table :: "'s fal \<Rightarrow> (fal_partition list \<times> nat) option" where
  "fal_get_partition_table f =
     (if \<not> part_init_ok f then None else Some (partition_table f, partition_table_len f))"

definition fal_set_partition_table_temp :: "fal_partition list \<Rightarrow> nat \<Rightarrow> 's fal \<Rightarrow> 's fal option" where
  "fal_set_partition_table_temp table len f =
     (if \<not> part_init_ok f then Some f
      else
        (case check_and_update_part_cache f table len of
           None \<Rightarrow> None
         | Some (_, f) \<Rightarrow> Some (f\<lparr>partition_table_len := len, partition_table := table\<rparr>)))"

text \<open>The bound check is an unsigned addition of 32 bits.\<close>

definition fal_partition_read ::
  "'s fal_ops list \<Rightarrow> nat \<Rightarrow> u32 \<Rightarrow> bytes \<Rightarrow> nat \<Rightarrow> 's fal \<Rightarrow> (int \<times> bytes \<times> 's fal) option" where
  "fal_partition_read drv part addr buf sz f =
     (if part \<ge> length (partition_table f) then None
      else
        (let p = partition_table f ! part
         in if addr + of_nat sz > part_len p then Some (- 1, buf, f)
            else
              (case flash_device_find_by_part f part of
                 None \<Rightarrow> None
               | Some None \<Rightarrow> Some (- 1, buf, f)
               | Some (Some d) \<Rightarrow>
                   (case op_read (drv ! d) (device_table f ! d) (part_offset p + addr) buf sz (world f) of
                      None \<Rightarrow> None
                    | Some (ret, buf, w) \<Rightarrow> Some (ret, buf, f\<lparr>world := w\<rparr>)))))"

definition fal_partition_write ::
  "'s fal_ops list \<Rightarrow> nat \<Rightarrow> u32 \<Rightarrow> bytes \<Rightarrow> nat \<Rightarrow> 's fal \<Rightarrow> (int \<times> 's fal) option" where
  "fal_partition_write drv part addr buf sz f =
     (if part \<ge> length (partition_table f) then None
      else
        (let p = partition_table f ! part
         in if addr + of_nat sz > part_len p then Some (- 1, f)
            else
              (case flash_device_find_by_part f part of
                 None \<Rightarrow> None
               | Some None \<Rightarrow> Some (- 1, f)
               | Some (Some d) \<Rightarrow>
                   (case op_write (drv ! d) (device_table f ! d) (part_offset p + addr) buf sz (world f) of
                      None \<Rightarrow> None
                    | Some (ret, w) \<Rightarrow> Some (ret, f\<lparr>world := w\<rparr>)))))"

definition fal_partition_erase ::
  "'s fal_ops list \<Rightarrow> nat \<Rightarrow> u32 \<Rightarrow> nat \<Rightarrow> 's fal \<Rightarrow> (int \<times> 's fal) option" where
  "fal_partition_erase drv part addr sz f =
     (if part \<ge> length (partition_table f) then None
      else
        (let p = partition_table f ! part
         in if addr + of_nat sz > part_len p then Some (- 1, f)
            else
              (case flash_device_find_by_part f part of
                 None \<Rightarrow> None
               | Some None \<Rightarrow> Some (- 1, f)
               | Some (Some d) \<Rightarrow>
                   (case op_erase (drv ! d) (device_table f ! d) (part_offset p + addr) sz (world f) of
                      None \<Rightarrow> None
                    | Some (ret, w) \<Rightarrow> Some (ret, f\<lparr>world := w\<rparr>)))))"

definition fal_partition_erase_all :: "'s fal_ops list \<Rightarrow> nat \<Rightarrow> 's fal \<Rightarrow> (int \<times> 's fal) option" where
  "fal_partition_erase_all drv part f =
     (if part \<ge> length (partition_table f) then None
      else fal_partition_erase drv part 0 (unat (part_len (partition_table f ! part))) f)"

section \<open>Initialisation\<close>

definition fal_init :: "'s fal_ops list \<Rightarrow> fal_partition list \<Rightarrow> 's fal \<Rightarrow> (int \<times> 's fal) option" where
  "fal_init drv partition_table_def f =
     (case fal_flash_init drv f of (r, f) \<Rightarrow>
        (case (if r < 0 then Some (r, f) else fal_partition_init partition_table_def f) of
           None \<Rightarrow> None
         | Some (r, f) \<Rightarrow>
             if r > 0 \<and> \<not> fal_init_ok f then Some (r, f\<lparr>fal_init_ok := True\<rparr>)
             else if r \<le> 0 then Some (r, f\<lparr>fal_init_ok := False\<rparr>)
             else Some (r, f)))"

definition fal_init_check :: "'s fal \<Rightarrow> int" where
  "fal_init_check f = (if fal_init_ok f then 1 else 0)"

section \<open>The tables of the board\<close>

definition fal_part_table :: "fal_partition list" where
  "fal_part_table =
     [\<lparr>magic_word = FAL_PART_MAGIC_WORD, part_name = ''app'', flash_name = ''onchip_flash'',
        part_offset = 0, part_len = 512 * 1024\<rparr>,
      \<lparr>magic_word = FAL_PART_MAGIC_WORD, part_name = ''fdb_kvdb1'', flash_name = ''norflash0'',
        part_offset = 0, part_len = 4096 * 4\<rparr>,
      \<lparr>magic_word = FAL_PART_MAGIC_WORD, part_name = ''download'', flash_name = ''norflash0'',
        part_offset = 4096 * 4, part_len = 1024 * 256\<rparr>]"

definition hc32_onchip_flash :: fal_flash_dev where
  "hc32_onchip_flash =
     \<lparr>dev_name = ''onchip_flash'', dev_addr = 0, dev_len = 512 * 1024, blk_size = 8 * 1024, write_gran = 4\<rparr>"

definition ext_nor_flash0 :: fal_flash_dev where
  "ext_nor_flash0 =
     \<lparr>dev_name = ''norflash0'', dev_addr = 0, dev_len = 4 * 1024 * 1024, blk_size = 4096, write_gran = 1\<rparr>"

definition fal_flash_dev_table :: "fal_flash_dev list" where
  "fal_flash_dev_table = [hc32_onchip_flash, ext_nor_flash0]"

definition fal_boot :: "'s \<Rightarrow> 's fal" where
  "fal_boot w =
     \<lparr>device_table = fal_flash_dev_table, flash_init_ok = False, partition_table = [], partition_table_len = 0,
      part_flash_cache = replicate (length fal_part_table) None, part_init_ok = False, fal_init_ok = False, world = w\<rparr>"

end
