(* ===== verification/Nor_Flash.thy ===== *)
theory Nor_Flash
  imports Board_Prelude
begin

text \<open>
  What the storage stack relies on of a NOR flash: bytes are read as they are, programming can only
  clear bits, and erasing sets all bits of a block. The serial flash driver implements these
  operations (theory \<open>Sfud\<close>); the flash abstraction layer and the key-value database use them.
\<close>

unbundle bit_operations_syntax

definition nor_program :: "bytes \<Rightarrow> nat \<Rightarrow> bytes \<Rightarrow> bytes" where
  "nor_program m a xs = patch_at m a (map2 (AND) (take (length xs) (drop a m)) xs)"

definition nor_erase :: "bytes \<Rightarrow> nat \<Rightarrow> nat \<Rightarrow> bytes" where
  "nor_erase m a n = patch_at m a (replicate n 0xFF)"

lemma length_nor_program [simp]: "a + length xs \<le> length m \<Longrightarrow> length (nor_program m a xs) = length m"
  by (simp add: nor_program_def)

lemma length_nor_erase [simp]: "a + n \<le> length m \<Longrightarrow> length (nor_erase m a n) = length m"
  by (simp add: nor_erase_def)

lemma nor_program_Nil [simp]: "nor_program m a [] = m"
  by (simp add: nor_program_def)

lemma nth_nor_program:
  assumes "a + length xs \<le> length m" and "i < length m"
  shows "nor_program m a xs ! i =
    (if a \<le> i \<and> i < a + length xs then m ! i AND xs ! (i - a) else m ! i)"
  using assms by (auto simp: nor_program_def nth_patch_at)

lemma nth_nor_erase:
  assumes "a + n \<le> length m" and "i < length m"
  shows "nor_erase m a n ! i = (if a \<le> i \<and> i < a + n then 0xFF else m ! i)"
  using assms by (auto simp: nor_erase_def nth_patch_at)

lemma nor_program_append:
  assumes "a + length xs + length ys \<le> length m"
  shows "nor_program (nor_program m a xs) (a + length xs) ys = nor_program m a (xs @ ys)"
proof (rule nth_equalityI)
  show "length (nor_program (nor_program m a xs) (a + length xs) ys) = length (nor_program m a (xs @ ys))"
    using assms by simp
next
  fix i
  assume "i < length (nor_program (nor_program m a xs) (a + length xs) ys)"
  then show "nor_program (nor_program m a xs) (a + length xs) ys ! i = nor_program m a (xs @ ys) ! i"
    using assms by (auto simp: nth_nor_program nth_append)
qed

lemma nor_erase_append:
  assumes "a + n + k \<le> length m"
  shows "nor_erase (nor_erase m a n) (a + n) k = nor_erase m a (n + k)"
proof (rule nth_equalityI)
  show "length (nor_erase (nor_erase m a n) (a + n) k) = length (nor_erase m a (n + k))"
    using assms by simp
next
  fix i
  assume "i < length (nor_erase (nor_erase m a n) (a + n) k)"
  then show "nor_erase (nor_erase m a n) (a + n) k ! i = nor_erase m a (n + k) ! i"
    using assms by (auto simp: nth_nor_erase)
qed

text \<open>Programming erased bytes stores the data.\<close>

lemma and_FF [simp]: "(0xFF :: u8) AND x = x" "x AND (0xFF :: u8) = x"
proof -
  have "(0xFF :: u8) = - 1" by simp
  then show "(0xFF :: u8) AND x = x" "x AND (0xFF :: u8) = x" by (metis and.left_neutral, metis and.right_neutral)
qed

lemma nor_program_erased:
  assumes "a + length xs \<le> length m" and "\<And>i. a \<le> i \<Longrightarrow> i < a + length xs \<Longrightarrow> m ! i = 0xFF"
  shows "nor_program m a xs = patch_at m a xs"
proof (rule nth_equalityI)
  show "length (nor_program m a xs) = length (patch_at m a xs)" using assms(1) by simp
next
  fix i
  assume "i < length (nor_program m a xs)"
  then show "nor_program m a xs ! i = patch_at m a xs ! i"
    using assms by (auto simp: nth_nor_program nth_patch_at)
qed

text \<open>Reading a slice behind, before or inside a programmed range.\<close>

lemma slice_nor_program_disjoint:
  assumes "a + length xs \<le> length m" and "b + n \<le> a \<or> a + length xs \<le> b" and "b + n \<le> length m"
  shows "take n (drop b (nor_program m a xs)) = take n (drop b m)"
proof (rule nth_equalityI)
  show "length (take n (drop b (nor_program m a xs))) = length (take n (drop b m))" using assms by simp
next
  fix i
  assume "i < length (take n (drop b (nor_program m a xs)))"
  then show "take n (drop b (nor_program m a xs)) ! i = take n (drop b m) ! i"
    using assms by (auto simp: nth_nor_program)
qed

lemma slice_nor_program_inside:
  assumes "a + length xs \<le> n" and "b + n \<le> length m"
  shows "take n (drop b (nor_program m (b + a) xs)) = nor_program (take n (drop b m)) a xs"
proof (rule nth_equalityI)
  show "length (take n (drop b (nor_program m (b + a) xs))) = length (nor_program (take n (drop b m)) a xs)"
    using assms by simp
next
  fix i
  assume "i < length (take n (drop b (nor_program m (b + a) xs)))"
  then show "take n (drop b (nor_program m (b + a) xs)) ! i = nor_program (take n (drop b m)) a xs ! i"
    using assms by (auto simp: nth_nor_program)
qed

lemma slice_nor_erase_inside:
  assumes "a + k \<le> n" and "b + n \<le> length m"
  shows "take n (drop b (nor_erase m (b + a) k)) = nor_erase (take n (drop b m)) a k"
proof (rule nth_equalityI)
  show "length (take n (drop b (nor_erase m (b + a) k))) = length (nor_erase (take n (drop b m)) a k)"
    using assms by simp
next
  fix i
  assume "i < length (take n (drop b (nor_erase m (b + a) k)))"
  then show "take n (drop b (nor_erase m (b + a) k)) ! i = nor_erase (take n (drop b m)) a k ! i"
    using assms by (auto simp: nth_nor_erase)
qed

lemma slice_nor_erase_disjoint:
  assumes "a + k \<le> length m" and "b + n \<le> a \<or> a + k \<le> b" and "b + n \<le> length m"
  shows "take n (drop b (nor_erase m a k)) = take n (drop b m)"
proof (rule nth_equalityI)
  show "length (take n (drop b (nor_erase m a k))) = length (take n (drop b m))" using assms by simp
next
  fix i
  assume "i < length (take n (drop b (nor_erase m a k)))"
  then show "take n (drop b (nor_erase m a k)) ! i = take n (drop b m) ! i"
    using assms by (auto simp: nth_nor_erase)
qed

end
