(* ===== verification/Sfud.thy ===== *)
theory Sfud
  imports Nor_Flash
begin

text \<open>
  The serial flash driver: \<open>sfud.c\<close> and \<open>sfud_sfdp.c\<close> of \<open>rt-thread/components/drivers/spi/sfud/src\<close>
  and the flash port of the board, \<open>board/ports/fal/fal_flash_sfud_port.c\<close>.

  The SPI transfer function \<open>spi.wr\<close> is a function pointer of the driver and a parameter of the
  model: from the state of bus and chip, the bytes to send and the number of bytes to receive, it gives
  the error code, the received bytes and the new state. Locking the bus and log messages are left out.
  The \<open>SFUD_ASSERT\<close>s are empty in this build. \<open>None\<close> is undefined behaviour: a division by a zero
  erase size or a shift out of range.
\<close>

datatype sfud_err =
    SFUD_SUCCESS | SFUD_ERR_NOT_FOUND | SFUD_ERR_WRITE | SFUD_ERR_READ | SFUD_ERR_TIMEOUT
  | SFUD_ERR_ADDR_OUT_OF_BOUND

type_synonym 's spi_wr = "'s \<Rightarrow> bytes \<Rightarrow> nat \<Rightarrow> sfud_err \<times> bytes \<times> 's"

record sfud_flash_chip =
  mf_id :: u8
  type_id :: u8
  capacity_id :: u8
  capacity :: u32
  write_mode :: u16
  erase_gran :: u32
  erase_gran_cmd :: u8

record sfud_sfdp =
  sfdp_available :: bool
  sfdp_major_rev :: u8
  sfdp_minor_rev :: u8
  sfdp_write_gran :: nat
  sfdp_erase_4k :: bool
  sfdp_erase_4k_cmd :: u8
  sfdp_sr_is_non_vola :: bool
  sfdp_vola_sr_we_cmd :: u8
  sfdp_addr_3_byte :: bool
  sfdp_addr_4_byte :: bool
  sfdp_capacity :: u32
  sfdp_eraser :: "(u32 \<times> u8) list"

record sfud_flash =
  chip :: sfud_flash_chip
  init_ok :: bool
  addr_in_4_byte :: bool
  retry_times :: nat
  sfdp :: sfud_sfdp

definition SFUD_WM_PAGE_256B :: u16 where "SFUD_WM_PAGE_256B = 1"
definition SFUD_WM_BYTE :: u16 where "SFUD_WM_BYTE = 2"
definition SFUD_WM_AAI :: u16 where "SFUD_WM_AAI = 4"
definition SFUD_WM_DUAL_BUFFER :: u16 where "SFUD_WM_DUAL_BUFFER = 8"
definition SFUD_CMD_WRITE_ENABLE :: u8 where "SFUD_CMD_WRITE_ENABLE = 0x06"
definition SFUD_CMD_WRITE_DISABLE :: u8 where "SFUD_CMD_WRITE_DISABLE = 0x04"
definition SFUD_CMD_READ_STATUS_REGISTER :: u8 where "SFUD_CMD_READ_STATUS_REGISTER = 0x05"
definition SFUD_VOLATILE_SR_WRITE_ENABLE :: u8 where "SFUD_VOLATILE_SR_WRITE_ENABLE = 0x50"
definition SFUD_CMD_WRITE_STATUS_REGISTER :: u8 where "SFUD_CMD_WRITE_STATUS_REGISTER = 0x01"
definition SFUD_CMD_PAGE_PROGRAM :: u8 where "SFUD_CMD_PAGE_PROGRAM = 0x02"
definition SFUD_CMD_AAI_WORD_PROGRAM :: u8 where "SFUD_CMD_AAI_WORD_PROGRAM = 0xAD"
definition SFUD_CMD_ERASE_CHIP :: u8 where "SFUD_CMD_ERASE_CHIP = 0xC7"
definition SFUD_CMD_READ_DATA :: u8 where "SFUD_CMD_READ_DATA = 0x03"
definition SFUD_CMD_JEDEC_ID :: u8 where "SFUD_CMD_JEDEC_ID = 0x9F"
definition SFUD_CMD_READ_SFDP_REGISTER :: u8 where "SFUD_CMD_READ_SFDP_REGISTER = 0x5A"
definition SFUD_CMD_ENABLE_RESET :: u8 where "SFUD_CMD_ENABLE_RESET = 0x66"
definition SFUD_CMD_RESET :: u8 where "SFUD_CMD_RESET = 0x99"
definition SFUD_CMD_ENTER_4B_ADDRESS_MODE :: u8 where "SFUD_CMD_ENTER_4B_ADDRESS_MODE = 0xB7"
definition SFUD_CMD_EXIT_4B_ADDRESS_MODE :: u8 where "SFUD_CMD_EXIT_4B_ADDRESS_MODE = 0xE9"
definition SFUD_DUMMY_DATA :: u8 where "SFUD_DUMMY_DATA = 0xFF"
definition SFUD_STATUS_REGISTER_BUSY :: u8 where "SFUD_STATUS_REGISTER_BUSY = 1"
definition SFUD_STATUS_REGISTER_WEL :: u8 where "SFUD_STATUS_REGISTER_WEL = 2"
definition SFUD_SFDP_ERASE_TYPE_MAX_NUM :: nat where "SFUD_SFDP_ERASE_TYPE_MAX_NUM = 4"
definition SMALLEST_ERASER_INDEX :: nat where "SMALLEST_ERASER_INDEX = 0"

section \<open>Status, write enable, addresses\<close>

definition sfud_read_status :: "'s spi_wr \<Rightarrow> 's \<Rightarrow> sfud_err \<times> u8 \<times> 's" where
  "sfud_read_status wr s =
     (case wr s [SFUD_CMD_READ_STATUS_REGISTER] 1 of (r, xs, s) \<Rightarrow>
        (r, (case xs of x # _ \<Rightarrow> x | [] \<Rightarrow> 0), s))"

fun wait_busy_loop :: "'s spi_wr \<Rightarrow> nat \<Rightarrow> 's \<Rightarrow> sfud_err \<times> 's" where
  "wait_busy_loop wr retry s =
     (case sfud_read_status wr s of (r, st, s) \<Rightarrow>
        if r = SFUD_SUCCESS \<and> st AND SFUD_STATUS_REGISTER_BUSY = 0 then (r, s)
        else (case retry of 0 \<Rightarrow> (SFUD_ERR_TIMEOUT, s) | Suc k \<Rightarrow> wait_busy_loop wr k s))"

declare wait_busy_loop.simps [simp del]

definition wait_busy :: "sfud_flash \<Rightarrow> 's spi_wr \<Rightarrow> 's \<Rightarrow> sfud_err \<times> 's" where
  "wait_busy flash wr s = wait_busy_loop wr (retry_times flash) s"

definition set_write_enabled :: "'s spi_wr \<Rightarrow> bool \<Rightarrow> 's \<Rightarrow> sfud_err \<times> 's" where
  "set_write_enabled wr enabled s =
     (case wr s [if enabled then SFUD_CMD_WRITE_ENABLE else SFUD_CMD_WRITE_DISABLE] 0 of (r, _, s) \<Rightarrow>
        if r \<noteq> SFUD_SUCCESS then (r, s)
        else
          (case sfud_read_status wr s of (r, st, s) \<Rightarrow>
             if r \<noteq> SFUD_SUCCESS then (r, s)
             else if enabled \<and> st AND SFUD_STATUS_REGISTER_WEL = 0 then (SFUD_ERR_WRITE, s)
             else if \<not> enabled \<and> st AND SFUD_STATUS_REGISTER_WEL \<noteq> 0 then (SFUD_ERR_WRITE, s)
             else (r, s)))"

definition make_address_byte_array :: "sfud_flash \<Rightarrow> u32 \<Rightarrow> bytes" where
  "make_address_byte_array flash addr =
     (let len = (if addr_in_4_byte flash then 4 else 3)
      in map (\<lambda>i. ucast (drop_bit ((len - (i + 1)) * 8) addr AND 0xFF)) [0..<len])"

section \<open>Read, erase\<close>

definition sfud_read :: "sfud_flash \<Rightarrow> 's spi_wr \<Rightarrow> u32 \<Rightarrow> nat \<Rightarrow> 's \<Rightarrow> sfud_err \<times> bytes \<times> 's" where
  "sfud_read flash wr addr sz s =
     (if addr + of_nat sz > capacity (chip flash) then (SFUD_ERR_ADDR_OUT_OF_BOUND, [], s)
      else
        (case wait_busy flash wr s of (r, s) \<Rightarrow>
           if r = SFUD_SUCCESS
           then wr s (SFUD_CMD_READ_DATA # make_address_byte_array flash addr) sz
           else (r, [], s)))"

definition sfud_chip_erase :: "sfud_flash \<Rightarrow> 's spi_wr \<Rightarrow> 's \<Rightarrow> sfud_err \<times> 's" where
  "sfud_chip_erase flash wr s =
     (case (case set_write_enabled wr True s of (r, s) \<Rightarrow>
              if r \<noteq> SFUD_SUCCESS then (r, s)
              else
                (case wr s (if write_mode (chip flash) AND SFUD_WM_DUAL_BUFFER \<noteq> 0
                            then [SFUD_CMD_ERASE_CHIP, 0x94, 0x80, 0x9A] else [SFUD_CMD_ERASE_CHIP]) 0 of
                   (r, _, s) \<Rightarrow> if r \<noteq> SFUD_SUCCESS then (r, s) else wait_busy flash wr s)) of
        (r, s) \<Rightarrow> (r, snd (set_write_enabled wr False s)))"

text \<open>The largest eraser that fits, searched from the end of the table.\<close>

fun eraser_search :: "(u32 \<times> u8) list \<Rightarrow> u32 \<Rightarrow> nat \<Rightarrow> nat \<Rightarrow> nat" where
  "eraser_search es addr erase_size i =
     (if fst (es ! i) \<noteq> 0 \<and> unat (fst (es ! i)) \<le> erase_size \<and> addr mod fst (es ! i) = 0 then i
      else (case i of 0 \<Rightarrow> SMALLEST_ERASER_INDEX | Suc k \<Rightarrow> eraser_search es addr erase_size k))"

declare eraser_search.simps [simp del]

definition sfud_sfdp_get_suitable_eraser :: "sfud_flash \<Rightarrow> u32 \<Rightarrow> nat \<Rightarrow> nat option" where
  "sfud_sfdp_get_suitable_eraser flash addr erase_size =
     (let es = sfdp_eraser (sfdp flash)
      in if fst (es ! SMALLEST_ERASER_INDEX) = 0 then None
         else if addr mod fst (es ! SMALLEST_ERASER_INDEX) \<noteq> 0 then Some SMALLEST_ERASER_INDEX
         else Some (eraser_search es addr erase_size (SFUD_SFDP_ERASE_TYPE_MAX_NUM - 1)))"

definition cur_eraser :: "sfud_flash \<Rightarrow> u32 \<Rightarrow> nat \<Rightarrow> (u32 \<times> u8) option" where
  "cur_eraser flash addr sz =
     (if sfdp_available (sfdp flash)
      then map_option (\<lambda>i. sfdp_eraser (sfdp flash) ! i) (sfud_sfdp_get_suitable_eraser flash addr sz)
      else Some (erase_gran (chip flash), erase_gran_cmd (chip flash)))"

function sfud_erase_loop :: "sfud_flash \<Rightarrow> 's spi_wr \<Rightarrow> u32 \<Rightarrow> nat \<Rightarrow> 's \<Rightarrow> (sfud_err \<times> 's) option" where
  "sfud_erase_loop flash wr addr sz s =
     (if sz = 0 then Some (SFUD_SUCCESS, s)
      else
        (case cur_eraser flash addr sz of
           None \<Rightarrow> None
         | Some (es, cmd) \<Rightarrow>
             (case set_write_enabled wr True s of (r, s) \<Rightarrow>
                if r \<noteq> SFUD_SUCCESS then Some (r, s)
                else
                  (case wr s (cmd # make_address_byte_array flash addr) 0 of (r, _, s) \<Rightarrow>
                     if r \<noteq> SFUD_SUCCESS then Some (r, s)
                     else
                       (case wait_busy flash wr s of (r, s) \<Rightarrow>
                          if r \<noteq> SFUD_SUCCESS then Some (r, s)
                          else if es = 0 then None
                          else
                            (let k = (if addr mod es \<noteq> 0 then unat es - unat addr mod unat es else unat es)
                             in if k < sz then sfud_erase_loop flash wr (addr + of_nat k) (sz - k) s
                                else Some (r, s)))))))"
  by pat_completeness auto
termination
  by (relation "measure (\<lambda>(flash, wr, addr, sz, s). sz)")
    (auto simp: unat_gt_0 intro!: diff_less split: if_splits)

declare sfud_erase_loop.simps [simp del]

definition sfud_erase :: "sfud_flash \<Rightarrow> 's spi_wr \<Rightarrow> u32 \<Rightarrow> nat \<Rightarrow> 's \<Rightarrow> (sfud_err \<times> 's) option" where
  "sfud_erase flash wr addr sz s =
     (if addr + of_nat sz > capacity (chip flash) then Some (SFUD_ERR_ADDR_OUT_OF_BOUND, s)
      else if addr = 0 \<and> of_nat sz = capacity (chip flash) then Some (sfud_chip_erase flash wr s)
      else
        (case sfud_erase_loop flash wr addr sz s of
           None \<Rightarrow> None
         | Some (r, s) \<Rightarrow> Some (r, snd (set_write_enabled wr False s))))"

section \<open>Write\<close>

function page_write_loop ::
  "sfud_flash \<Rightarrow> 's spi_wr \<Rightarrow> u32 \<Rightarrow> nat \<Rightarrow> nat \<Rightarrow> bytes \<Rightarrow> 's \<Rightarrow> (sfud_err \<times> 's) option" where
  "page_write_loop flash wr addr sz write_gran data s =
     (if sz = 0 then Some (SFUD_SUCCESS, s)
      else
        (case set_write_enabled wr True s of (r, s) \<Rightarrow>
           if r \<noteq> SFUD_SUCCESS then Some (r, s)
           else if write_gran = 0 then None
           else
             (let data_size =
                (if unat addr mod write_gran \<noteq> 0
                 then (if sz > write_gran - unat addr mod write_gran
                       then write_gran - unat addr mod write_gran else sz)
                 else (if sz > write_gran then write_gran else sz))
              in case mem_read data 0 data_size of
                   None \<Rightarrow> None
                 | Some xs \<Rightarrow>
                     (case wr s (SFUD_CMD_PAGE_PROGRAM # make_address_byte_array flash addr @ xs) 0 of (r, _, s) \<Rightarrow>
                        if r \<noteq> SFUD_SUCCESS then Some (r, s)
                        else
                          (case wait_busy flash wr s of (r, s) \<Rightarrow>
                             if r \<noteq> SFUD_SUCCESS then Some (r, s)
                             else page_write_loop flash wr (addr + of_nat data_size) (sz - data_size)
                                    write_gran (drop data_size data) s)))))"
  by pat_completeness auto
termination
  by (relation "measure (\<lambda>(flash, wr, addr, sz, gran, data, s). sz)") (auto split: if_splits)

declare page_write_loop.simps [simp del]

definition page256_or_1_byte_write ::
  "sfud_flash \<Rightarrow> 's spi_wr \<Rightarrow> u32 \<Rightarrow> nat \<Rightarrow> nat \<Rightarrow> bytes \<Rightarrow> 's \<Rightarrow> (sfud_err \<times> 's) option" where
  "page256_or_1_byte_write flash wr addr sz write_gran data s =
     (if addr + of_nat sz > capacity (chip flash) then Some (SFUD_ERR_ADDR_OUT_OF_BOUND, s)
      else
        (case page_write_loop flash wr addr sz write_gran data s of
           None \<Rightarrow> None
         | Some (r, s) \<Rightarrow> Some (r, snd (set_write_enabled wr False s))))"

text \<open>The word loop of the auto address increment mode. It returns the remaining size and data.\<close>

fun aai_loop :: "sfud_flash \<Rightarrow> 's spi_wr \<Rightarrow> u32 \<Rightarrow> nat \<Rightarrow> bool \<Rightarrow> bytes \<Rightarrow> 's
  \<Rightarrow> (sfud_err \<times> u32 \<times> nat \<times> bytes \<times> 's) option" where
  "aai_loop flash wr addr sz first_write data s =
     (if sz \<ge> 2 then
        (case mem_read data 0 2 of
           None \<Rightarrow> None
         | Some xs \<Rightarrow>
             (case wr s (SFUD_CMD_AAI_WORD_PROGRAM
                         # (if first_write then make_address_byte_array flash addr @ xs else xs)) 0 of (r, _, s) \<Rightarrow>
                if r \<noteq> SFUD_SUCCESS then Some (r, addr, sz, data, s)
                else
                  (case wait_busy flash wr s of (r, s) \<Rightarrow>
                     if r \<noteq> SFUD_SUCCESS then Some (r, addr, sz, data, s)
                     else aai_loop flash wr (addr + 2) (sz - 2) False (drop 2 data) s)))
      else Some (SFUD_SUCCESS, addr, sz, data, s))"

declare aai_loop.simps [simp del]

definition aai_words :: "sfud_flash \<Rightarrow> 's spi_wr \<Rightarrow> u32 \<Rightarrow> nat \<Rightarrow> bytes \<Rightarrow> 's \<Rightarrow> (sfud_err \<times> 's) option" where
  "aai_words flash wr addr sz data s =
     (case set_write_enabled wr True s of (r, s) \<Rightarrow>
        if r \<noteq> SFUD_SUCCESS then Some (r, s)
        else
          (case aai_loop flash wr addr sz True data s of
             None \<Rightarrow> None
           | Some (r, addr, sz, data, s) \<Rightarrow>
               if r \<noteq> SFUD_SUCCESS then Some (r, s)
               else
                 (case set_write_enabled wr False s of (r, s) \<Rightarrow>
                    if r = SFUD_SUCCESS \<and> sz = 1 then page256_or_1_byte_write flash wr addr 1 1 data s
                    else Some (r, s))))"

definition aai_write :: "sfud_flash \<Rightarrow> 's spi_wr \<Rightarrow> u32 \<Rightarrow> nat \<Rightarrow> bytes \<Rightarrow> 's \<Rightarrow> (sfud_err \<times> 's) option" where
  "aai_write flash wr addr sz data s =
     (if addr + of_nat sz > capacity (chip flash) then Some (SFUD_ERR_ADDR_OUT_OF_BOUND, s)
      else
        (case (if addr mod 2 \<noteq> 0
               then (case page256_or_1_byte_write flash wr addr 1 1 data s of
                       None \<Rightarrow> None
                     | Some (r, s) \<Rightarrow>
                         if r \<noteq> SFUD_SUCCESS then Some (r, s)
                         else aai_words flash wr (addr + 1) ((sz + 2 ^ 32 - 1) mod 2 ^ 32) (drop 1 data) s)
               else aai_words flash wr addr sz data s) of
           None \<Rightarrow> None
         | Some (r, s) \<Rightarrow> Some (r, if r \<noteq> SFUD_SUCCESS then snd (set_write_enabled wr False s) else s)))"

definition sfud_write :: "sfud_flash \<Rightarrow> 's spi_wr \<Rightarrow> u32 \<Rightarrow> nat \<Rightarrow> bytes \<Rightarrow> 's \<Rightarrow> (sfud_err \<times> 's) option" where
  "sfud_write flash wr addr sz data s =
     (if write_mode (chip flash) AND SFUD_WM_PAGE_256B \<noteq> 0
      then page256_or_1_byte_write flash wr addr sz 256 data s
      else if write_mode (chip flash) AND SFUD_WM_AAI \<noteq> 0 then aai_write flash wr addr sz data s
      else Some (SFUD_SUCCESS, s))"

definition sfud_erase_write :: "sfud_flash \<Rightarrow> 's spi_wr \<Rightarrow> u32 \<Rightarrow> nat \<Rightarrow> bytes \<Rightarrow> 's \<Rightarrow> (sfud_err \<times> 's) option" where
  "sfud_erase_write flash wr addr sz data s =
     (case sfud_erase flash wr addr sz s of
        None \<Rightarrow> None
      | Some (r, s) \<Rightarrow> if r = SFUD_SUCCESS then sfud_write flash wr addr sz data s else Some (r, s))"

section \<open>Discovery of the chip\<close>

definition reset :: "sfud_flash \<Rightarrow> 's spi_wr \<Rightarrow> 's \<Rightarrow> sfud_err \<times> 's" where
  "reset flash wr s =
     (case wr s [SFUD_CMD_ENABLE_RESET] 0 of (r, _, s) \<Rightarrow>
        if r \<noteq> SFUD_SUCCESS then (r, s)
        else
          (case wait_busy flash wr s of (_, s) \<Rightarrow>
             (case wr s [SFUD_CMD_RESET] 0 of (r, _, s) \<Rightarrow>
                if r = SFUD_SUCCESS then wait_busy flash wr s else (r, s))))"

definition read_jedec_id :: "sfud_flash \<Rightarrow> 's spi_wr \<Rightarrow> 's \<Rightarrow> (sfud_err \<times> sfud_flash \<times> 's) option" where
  "read_jedec_id flash wr s =
     (case wr s [SFUD_CMD_JEDEC_ID] 3 of (r, xs, s) \<Rightarrow>
        if r = SFUD_SUCCESS
        then (if length xs = 3
              then Some (r, flash\<lparr>chip := (chip flash)\<lparr>mf_id := xs ! 0, type_id := xs ! 1, capacity_id := xs ! 2\<rparr>\<rparr>, s)
              else None)
        else Some (r, flash, s))"

definition set_4_byte_address_mode :: "sfud_flash \<Rightarrow> 's spi_wr \<Rightarrow> bool \<Rightarrow> 's \<Rightarrow> sfud_err \<times> sfud_flash \<times> 's" where
  "set_4_byte_address_mode flash wr enabled s =
     (case set_write_enabled wr True s of (r, s) \<Rightarrow>
        if r \<noteq> SFUD_SUCCESS then (r, flash, s)
        else
          (case wr s [if enabled then SFUD_CMD_ENTER_4B_ADDRESS_MODE else SFUD_CMD_EXIT_4B_ADDRESS_MODE] 0 of
             (r, _, s) \<Rightarrow>
               (r, if r = SFUD_SUCCESS then flash\<lparr>addr_in_4_byte := enabled\<rparr> else flash, s)))"

definition sfud_write_status :: "'s spi_wr \<Rightarrow> bool \<Rightarrow> u8 \<Rightarrow> 's \<Rightarrow> sfud_err \<times> 's" where
  "sfud_write_status wr is_volatile status s =
     (case (if is_volatile then (case wr s [SFUD_VOLATILE_SR_WRITE_ENABLE] 0 of (r, _, s) \<Rightarrow> (r, s))
            else set_write_enabled wr True s) of (r, s) \<Rightarrow>
        if r = SFUD_SUCCESS
        then (case wr s [SFUD_CMD_WRITE_STATUS_REGISTER, status] 0 of (r, _, s) \<Rightarrow> (r, s))
        else (r, s))"

subsection \<open>Serial flash discoverable parameters\<close>

definition read_sfdp_data :: "'s spi_wr \<Rightarrow> u32 \<Rightarrow> nat \<Rightarrow> 's \<Rightarrow> sfud_err \<times> bytes \<times> 's" where
  "read_sfdp_data wr addr n s =
     wr s [SFUD_CMD_READ_SFDP_REGISTER, ucast (drop_bit 16 addr AND 0xFF), ucast (drop_bit 8 addr AND 0xFF),
           ucast (addr AND 0xFF), SFUD_DUMMY_DATA] n"

definition SUPPORT_MAX_SFDP_MAJOR_REV :: u8 where "SUPPORT_MAX_SFDP_MAJOR_REV = 1"
definition BASIC_TABLE_LEN :: nat where "BASIC_TABLE_LEN = 9"

definition read_sfdp_header :: "sfud_flash \<Rightarrow> 's spi_wr \<Rightarrow> 's \<Rightarrow> (bool \<times> sfud_flash \<times> 's) option" where
  "read_sfdp_header flash wr s =
     (let flash = flash\<lparr>sfdp := (sfdp flash)\<lparr>sfdp_available := False\<rparr>\<rparr>
      in case read_sfdp_data wr 0 8 s of (r, header, s) \<Rightarrow>
           if r \<noteq> SFUD_SUCCESS then Some (False, flash, s)
           else if length header \<noteq> 8 then None
           else if take 4 header \<noteq> [0x53, 0x46, 0x44, 0x50] then Some (False, flash, s)
           else
             let flash = flash\<lparr>sfdp := (sfdp flash)\<lparr>sfdp_minor_rev := header ! 4, sfdp_major_rev := header ! 5\<rparr>\<rparr>
             in Some (sfdp_major_rev (sfdp flash) \<le> SUPPORT_MAX_SFDP_MAJOR_REV, flash, s))"

text \<open>The table pointer of the basic parameter header.\<close>

definition read_basic_header :: "'s spi_wr \<Rightarrow> 's \<Rightarrow> (bool \<times> u32 \<times> 's) option" where
  "read_basic_header wr s =
     (case read_sfdp_data wr 8 8 s of (r, header, s) \<Rightarrow>
        if r \<noteq> SFUD_SUCCESS then Some (False, 0, s)
        else if length header \<noteq> 8 then None
        else
          let ptp = ucast (header ! 4) OR push_bit 8 (ucast (header ! 5)) OR push_bit 16 (ucast (header ! 6)) :: u32
          in if header ! 2 > SUPPORT_MAX_SFDP_MAJOR_REV then Some (False, ptp, s)
             else if unat (header ! 3) < BASIC_TABLE_LEN then Some (False, ptp, s)
             else Some (True, ptp, s))"

text \<open>The erase types of the table, moved to the front; the shift must stay below 32.\<close>

fun collect_erasers :: "bytes \<Rightarrow> nat list \<Rightarrow> nat \<Rightarrow> (u32 \<times> u8) list \<Rightarrow> (u32 \<times> u8) list option" where
  "collect_erasers tab [] j es = Some es"
| "collect_erasers tab (i # is) j es =
     (if tab ! (28 + 2 * i) \<noteq> 0
      then (if unat (tab ! (28 + 2 * i)) \<ge> 32 then None
            else collect_erasers tab is (j + 1)
                   (es[j := (push_bit (unat (tab ! (28 + 2 * i))) 1, tab ! (28 + 2 * i + 1))]))
      else collect_erasers tab is j es)"

definition sort_swap :: "nat \<Rightarrow> (u32 \<times> u8) list \<Rightarrow> nat \<Rightarrow> (u32 \<times> u8) list" where
  "sort_swap i es j =
     (if fst (es ! j) \<noteq> 0 \<and> fst (es ! i) > fst (es ! j) then es[i := es ! j, j := es ! i] else es)"

definition sort_row :: "(u32 \<times> u8) list \<Rightarrow> nat \<Rightarrow> (u32 \<times> u8) list" where
  "sort_row es i =
     (if fst (es ! i) \<noteq> 0 then foldl (sort_swap i) es [i + 1..<SFUD_SFDP_ERASE_TYPE_MAX_NUM] else es)"

definition sort_erasers :: "(u32 \<times> u8) list \<Rightarrow> (u32 \<times> u8) list" where
  "sort_erasers es = foldl sort_row es [0..<SFUD_SFDP_ERASE_TYPE_MAX_NUM]"

text \<open>The capacity in bytes. The size is given in bits, or as an exponent above \<open>2^31\<close> bits.\<close>

definition table_capacity :: "bytes \<Rightarrow> u32 option option" where
  "table_capacity tab =
     (let t = push_bit 24 (ucast (tab ! 7)) OR push_bit 16 (ucast (tab ! 6)) OR push_bit 8 (ucast (tab ! 5))
              OR ucast (tab ! 4) :: u32
      in if tab ! 7 AND 0x80 = 0 then Some (Some (1 + drop_bit 3 t))
         else
           let t = t AND 0x7FFFFFFF
           in if t > 35 then Some None
              else if t < 3 \<or> t = 35 then None
              else Some (Some (push_bit (unat t - 3) 1)))"

definition read_basic_table :: "sfud_flash \<Rightarrow> 's spi_wr \<Rightarrow> u32 \<Rightarrow> 's \<Rightarrow> (bool \<times> sfud_flash \<times> 's) option" where
  "read_basic_table flash wr table_addr s =
     (case read_sfdp_data wr table_addr (BASIC_TABLE_LEN * 4) s of (r, tab, s) \<Rightarrow>
        if r \<noteq> SFUD_SUCCESS then Some (False, flash, s)
        else if length tab \<noteq> BASIC_TABLE_LEN * 4 then None
        else
          let p = (sfdp flash)\<lparr>sfdp_erase_4k_cmd := tab ! 1\<rparr>;
              k = tab ! 0 AND 3
          in if k \<noteq> 1 \<and> k \<noteq> 3 then Some (False, flash\<lparr>sfdp := p\<rparr>, s)
             else
               let p = p\<lparr>sfdp_erase_4k := (k = 1), sfdp_write_gran := (if tab ! 0 AND 4 = 0 then 1 else 256)\<rparr>;
                   p = (if tab ! 0 AND 8 = 0 then p\<lparr>sfdp_sr_is_non_vola := True\<rparr>
                        else p\<lparr>sfdp_sr_is_non_vola := False,
                               sfdp_vola_sr_we_cmd := (if tab ! 0 AND 16 = 0 then SFUD_VOLATILE_SR_WRITE_ENABLE
                                                       else SFUD_CMD_WRITE_ENABLE)\<rparr>);
                   w = drop_bit 1 (tab ! 2 AND 6);
                   p = p\<lparr>sfdp_addr_3_byte := (w = 0 \<or> w = 1), sfdp_addr_4_byte := (w = 1 \<or> w = 2)\<rparr>
               in if w = 3 then Some (False, flash\<lparr>sfdp := p\<rparr>, s)
                  else
                    (case table_capacity tab of
                       None \<Rightarrow> None
                     | Some None \<Rightarrow> Some (False, flash\<lparr>sfdp := p\<lparr>sfdp_capacity := 0\<rparr>\<rparr>, s)
                     | Some (Some c) \<Rightarrow>
                         (case collect_erasers tab [0..<SFUD_SFDP_ERASE_TYPE_MAX_NUM] 0 (sfdp_eraser p) of
                            None \<Rightarrow> None
                          | Some es \<Rightarrow>
                              Some (True, flash\<lparr>sfdp := p\<lparr>sfdp_capacity := c, sfdp_eraser := sort_erasers es,
                                                         sfdp_available := True\<rparr>\<rparr>, s))))"

definition sfud_read_sfdp :: "sfud_flash \<Rightarrow> 's spi_wr \<Rightarrow> 's \<Rightarrow> (bool \<times> sfud_flash \<times> 's) option" where
  "sfud_read_sfdp flash wr s =
     (case read_sfdp_header flash wr s of
        None \<Rightarrow> None
      | Some (ok, flash, s) \<Rightarrow>
          if \<not> ok then Some (False, flash, s)
          else
            (case read_basic_header wr s of
               None \<Rightarrow> None
             | Some (ok, ptp, s) \<Rightarrow> if \<not> ok then Some (False, flash, s) else read_basic_table flash wr ptp s))"

subsection \<open>Initialisation\<close>

definition chip_info :: "u8 \<Rightarrow> u8 \<Rightarrow> u8 \<Rightarrow> u32 \<Rightarrow> u16 \<Rightarrow> u32 \<Rightarrow> u8 \<Rightarrow> sfud_flash_chip" where
  "chip_info mf ty cp cap wm gran cmd =
     \<lparr>mf_id = mf, type_id = ty, capacity_id = cp, capacity = cap, write_mode = wm, erase_gran = gran,
      erase_gran_cmd = cmd\<rparr>"

definition flash_chip_table :: "(string \<times> sfud_flash_chip) list" where
  "flash_chip_table =
    [(''AT45DB161E'', chip_info 0x1F 0x26 0x00 2097152 (SFUD_WM_BYTE OR SFUD_WM_DUAL_BUFFER) 512 0x81),
     (''W25Q40BV'', chip_info 0xEF 0x40 0x13 524288 (SFUD_WM_PAGE_256B) 4096 0x20),
     (''W25X40CL'', chip_info 0xEF 0x30 0x13 524288 (SFUD_WM_PAGE_256B) 4096 0x20),
     (''W25X16AV'', chip_info 0xEF 0x30 0x15 2097152 (SFUD_WM_PAGE_256B) 4096 0x20),
     (''W25Q16BV'', chip_info 0xEF 0x40 0x15 2097152 (SFUD_WM_PAGE_256B) 4096 0x20),
     (''W25Q32BV'', chip_info 0xEF 0x40 0x16 4194304 (SFUD_WM_PAGE_256B) 4096 0x20),
     (''W25Q64CV'', chip_info 0xEF 0x40 0x17 8388608 (SFUD_WM_PAGE_256B) 4096 0x20),
     (''W25Q64DW'', chip_info 0xEF 0x60 0x17 8388608 (SFUD_WM_PAGE_256B) 4096 0x20),
     (''W25Q128BV'', chip_info 0xEF 0x40 0x18 16777216 (SFUD_WM_PAGE_256B) 4096 0x20),
     (''W25Q256FV'', chip_info 0xEF 0x40 0x19 33554432 (SFUD_WM_PAGE_256B) 4096 0x20),
     (''SST25VF080B'', chip_info 0xBF 0x25 0x8E 1048576 (SFUD_WM_BYTE OR SFUD_WM_AAI) 4096 0x20),
     (''SST25VF016B'', chip_info 0xBF 0x25 0x41 2097152 (SFUD_WM_BYTE OR SFUD_WM_AAI) 4096 0x20),
     (''M25P32'', chip_info 0x20 0x20 0x16 4194304 (SFUD_WM_PAGE_256B) 65536 0xD8),
     (''M25P80'', chip_info 0x20 0x20 0x14 1048576 (SFUD_WM_PAGE_256B) 65536 0xD8),
     (''M25P40'', chip_info 0x20 0x20 0x13 524288 (SFUD_WM_PAGE_256B) 65536 0xD8),
     (''EN25Q32B'', chip_info 0x1C 0x30 0x16 4194304 (SFUD_WM_PAGE_256B) 4096 0x20),
     (''GD25Q64B'', chip_info 0xC8 0x40 0x17 8388608 (SFUD_WM_PAGE_256B) 4096 0x20),
     (''GD25Q16B'', chip_info 0xC8 0x40 0x15 2097152 (SFUD_WM_PAGE_256B) 4096 0x20),
     (''GD25Q32C'', chip_info 0xC8 0x40 0x16 4194304 (SFUD_WM_PAGE_256B) 4096 0x20),
     (''S25FL216K'', chip_info 0x01 0x40 0x15 2097152 (SFUD_WM_PAGE_256B) 4096 0x20),
     (''S25FL032P'', chip_info 0x01 0x02 0x15 4194304 (SFUD_WM_PAGE_256B) 4096 0x20),
     (''A25L080'', chip_info 0x37 0x30 0x14 1048576 (SFUD_WM_PAGE_256B) 4096 0x20),
     (''F25L004'', chip_info 0x8C 0x20 0x13 524288 (SFUD_WM_BYTE OR SFUD_WM_AAI) 4096 0x20),
     (''PCT25VF016B'', chip_info 0xBF 0x25 0x41 2097152 (SFUD_WM_BYTE OR SFUD_WM_AAI) 4096 0x20),
     (''NM25Q128EVB'', chip_info 0x52 0x21 0x18 16777216 (SFUD_WM_PAGE_256B) 4096 0x20)]"

definition chip_unknown :: "sfud_flash_chip \<Rightarrow> bool" where
  "chip_unknown c \<longleftrightarrow> capacity c = 0 \<or> write_mode c = 0 \<or> erase_gran c = 0 \<or> erase_gran_cmd c = 0"

text \<open>The smallest eraser becomes the erase granularity.\<close>

definition chip_from_sfdp :: "sfud_sfdp \<Rightarrow> sfud_flash_chip \<Rightarrow> sfud_flash_chip" where
  "chip_from_sfdp p c =
     (let (g, cmd) = foldl (\<lambda>(g, cmd) i. if fst (sfdp_eraser p ! i) \<noteq> 0 \<and> g > fst (sfdp_eraser p ! i)
                                          then sfdp_eraser p ! i else (g, cmd))
                       (sfdp_eraser p ! 0) [1..<SFUD_SFDP_ERASE_TYPE_MAX_NUM]
      in c\<lparr>capacity := sfdp_capacity p,
           write_mode := (if sfdp_write_gran p = 1 then SFUD_WM_BYTE else SFUD_WM_PAGE_256B),
           erase_gran := g, erase_gran_cmd := cmd\<rparr>)"

definition chip_from_table :: "sfud_flash_chip \<Rightarrow> sfud_flash_chip" where
  "chip_from_table c =
     (case find (\<lambda>(_, d). mf_id d = mf_id c \<and> type_id d = type_id c \<and> capacity_id d = capacity_id c)
             flash_chip_table of
        None \<Rightarrow> c
      | Some (_, d) \<Rightarrow> c\<lparr>capacity := capacity d, write_mode := write_mode d, erase_gran := erase_gran d,
                         erase_gran_cmd := erase_gran_cmd d\<rparr>)"

definition identify_chip :: "sfud_flash \<Rightarrow> 's spi_wr \<Rightarrow> 's \<Rightarrow> (sfud_err \<times> sfud_flash \<times> 's) option" where
  "identify_chip flash wr s =
     (if \<not> chip_unknown (chip flash) then Some (SFUD_SUCCESS, flash, s)
      else
        (case read_jedec_id flash wr s of
           None \<Rightarrow> None
         | Some (r, flash, s) \<Rightarrow>
             if r \<noteq> SFUD_SUCCESS then Some (r, flash, s)
             else
               (case sfud_read_sfdp flash wr s of
                  None \<Rightarrow> None
                | Some (ok, flash, s) \<Rightarrow>
                    Some (SFUD_SUCCESS,
                      flash\<lparr>chip := (if ok then chip_from_sfdp (sfdp flash) (chip flash)
                                     else chip_from_table (chip flash))\<rparr>, s))))"

text \<open>\<open>sfud_spi_port_init\<close> of \<open>spi_flash_sfud.c\<close> installs the transfer function and the retry count.\<close>

definition sfud_spi_port_init :: "sfud_flash \<Rightarrow> sfud_flash" where
  "sfud_spi_port_init flash = flash\<lparr>retry_times := 60 * 10000\<rparr>"

definition hardware_init :: "sfud_flash \<Rightarrow> 's spi_wr \<Rightarrow> 's \<Rightarrow> (sfud_err \<times> sfud_flash \<times> 's) option" where
  "hardware_init flash wr s =
     (case identify_chip (sfud_spi_port_init flash) wr s of
        None \<Rightarrow> None
      | Some (r, flash, s) \<Rightarrow>
          if r \<noteq> SFUD_SUCCESS then Some (r, flash, s)
          else if chip_unknown (chip flash) then Some (SFUD_ERR_NOT_FOUND, flash, s)
          else
            (case reset flash wr s of (r, s) \<Rightarrow>
               if r \<noteq> SFUD_SUCCESS then Some (r, flash, s)
               else
                 (case (if write_mode (chip flash) AND SFUD_WM_AAI \<noteq> 0 then sfud_write_status wr True 0 s
                        else if mf_id (chip flash) = 0xC2 \<and> type_id (chip flash) = 0x20 \<and> capacity_id (chip flash) = 0x16
                        then sfud_write_status wr False 0 s
                        else (r, s)) of (r, s) \<Rightarrow>
                    if r \<noteq> SFUD_SUCCESS then Some (r, flash, s)
                    else if capacity (chip flash) > 0x1000000
                    then Some (set_4_byte_address_mode flash wr True s)
                    else Some (r, flash\<lparr>addr_in_4_byte := False\<rparr>, s))))"

definition sfud_device_init :: "sfud_flash \<Rightarrow> 's spi_wr \<Rightarrow> 's \<Rightarrow> (sfud_err \<times> sfud_flash \<times> 's) option" where
  "sfud_device_init flash wr s =
     (case hardware_init flash wr s of
        None \<Rightarrow> None
      | Some (r, flash, s) \<Rightarrow> Some (r, flash\<lparr>init_ok := (r = SFUD_SUCCESS)\<rparr>, s))"

end
