(* ===== verification/Sfud_Refinement.thy ===== *)
theory Sfud_Refinement
  imports Sfud
begin

text \<open>
  The serial flash driver implements a NOR flash: on a chip that behaves as its data sheet says,
  \<open>sfud_read\<close>, \<open>sfud_write\<close> and \<open>sfud_erase\<close> are the operations of theory \<open>Nor_Flash\<close> on the memory of
  the chip. The chip is the hypothesis \<open>spi_nor\<close> about the transfer function; a simulated chip shows
  that it can hold.
\<close>

section \<open>The chip\<close>

definition erase_types :: "sfud_flash \<Rightarrow> (u32 \<times> u8) set" where
  "erase_types flash =
     (if sfdp_available (sfdp flash) then {e \<in> set (sfdp_eraser (sfdp flash)). fst e \<noteq> 0}
      else {(erase_gran (chip flash), erase_gran_cmd (chip flash))})"

text \<open>
  The commands the driver sends, as the data sheet of a chip describes them. \<open>busy\<close> is the number of
  status polls until the chip has finished, at most \<open>lim\<close> after any command.
\<close>

definition nor_status :: "'s spi_wr \<Rightarrow> ('s \<Rightarrow> bytes) \<Rightarrow> ('s \<Rightarrow> bool) \<Rightarrow> ('s \<Rightarrow> nat) \<Rightarrow> bool" where
  "nor_status wr mem wel busy =
     (\<forall>s. \<exists>x s'. wr s [SFUD_CMD_READ_STATUS_REGISTER] 1 = (SFUD_SUCCESS, [x], s')
        \<and> (x AND SFUD_STATUS_REGISTER_BUSY = 0 \<longleftrightarrow> busy s = 0) \<and> (x AND SFUD_STATUS_REGISTER_WEL \<noteq> 0 \<longleftrightarrow> wel s)
        \<and> mem s' = mem s \<and> wel s' = wel s \<and> busy s' = busy s - 1)"

definition nor_latch :: "'s spi_wr \<Rightarrow> ('s \<Rightarrow> bytes) \<Rightarrow> ('s \<Rightarrow> bool) \<Rightarrow> ('s \<Rightarrow> nat) \<Rightarrow> bool" where
  "nor_latch wr mem wel busy =
     (\<forall>s on. busy s = 0 \<longrightarrow>
        (\<exists>xs s'. wr s [if on then SFUD_CMD_WRITE_ENABLE else SFUD_CMD_WRITE_DISABLE] 0 = (SFUD_SUCCESS, xs, s')
           \<and> mem s' = mem s \<and> wel s' = on \<and> busy s' = 0))"

definition nor_reads :: "sfud_flash \<Rightarrow> 's spi_wr \<Rightarrow> ('s \<Rightarrow> bytes) \<Rightarrow> ('s \<Rightarrow> nat) \<Rightarrow> bool" where
  "nor_reads flash wr mem busy =
     (\<forall>s a n. busy s = 0 \<and> unat a + n \<le> length (mem s) \<longrightarrow>
        (\<exists>s'. wr s (SFUD_CMD_READ_DATA # make_address_byte_array flash a) n
             = (SFUD_SUCCESS, take n (drop (unat a) (mem s)), s')
           \<and> mem s' = mem s \<and> busy s' = 0))"

definition nor_programs :: "sfud_flash \<Rightarrow> 's spi_wr \<Rightarrow> ('s \<Rightarrow> bytes) \<Rightarrow> ('s \<Rightarrow> bool) \<Rightarrow> ('s \<Rightarrow> nat) \<Rightarrow> nat \<Rightarrow> bool" where
  "nor_programs flash wr mem wel busy lim =
     (\<forall>s a xs. busy s = 0 \<and> wel s \<and> xs \<noteq> [] \<and> unat a mod 256 + length xs \<le> 256
          \<and> unat a + length xs \<le> length (mem s) \<longrightarrow>
        (\<exists>ys s'. wr s (SFUD_CMD_PAGE_PROGRAM # make_address_byte_array flash a @ xs) 0 = (SFUD_SUCCESS, ys, s')
           \<and> mem s' = nor_program (mem s) (unat a) xs \<and> busy s' \<le> lim))"

definition nor_erases :: "sfud_flash \<Rightarrow> 's spi_wr \<Rightarrow> ('s \<Rightarrow> bytes) \<Rightarrow> ('s \<Rightarrow> bool) \<Rightarrow> ('s \<Rightarrow> nat) \<Rightarrow> nat \<Rightarrow> bool" where
  "nor_erases flash wr mem wel busy lim =
     ((\<forall>s a e cmd. busy s = 0 \<and> wel s \<and> (e, cmd) \<in> erase_types flash
          \<and> unat a - unat a mod unat e + unat e \<le> length (mem s) \<longrightarrow>
        (\<exists>ys s'. wr s (cmd # make_address_byte_array flash a) 0 = (SFUD_SUCCESS, ys, s')
           \<and> mem s' = nor_erase (mem s) (unat a - unat a mod unat e) (unat e) \<and> busy s' \<le> lim))
      \<and> (\<forall>s. busy s = 0 \<and> wel s \<longrightarrow>
        (\<exists>ys s'. wr s [SFUD_CMD_ERASE_CHIP] 0 = (SFUD_SUCCESS, ys, s')
           \<and> mem s' = nor_erase (mem s) 0 (length (mem s)) \<and> busy s' \<le> lim)))"

definition spi_nor :: "sfud_flash \<Rightarrow> 's spi_wr \<Rightarrow> ('s \<Rightarrow> bytes) \<Rightarrow> ('s \<Rightarrow> bool) \<Rightarrow> ('s \<Rightarrow> nat) \<Rightarrow> bool" where
  "spi_nor flash wr mem wel busy =
     (nor_status wr mem wel busy \<and> nor_latch wr mem wel busy \<and> nor_reads flash wr mem busy
      \<and> nor_programs flash wr mem wel busy (retry_times flash)
      \<and> nor_erases flash wr mem wel busy (retry_times flash))"

section \<open>Polling and the write enable latch\<close>

lemma read_status_nor:
  assumes "nor_status wr mem wel busy"
  obtains x s' where "sfud_read_status wr s = (SFUD_SUCCESS, x, s')"
    and "x AND SFUD_STATUS_REGISTER_BUSY = 0 \<longleftrightarrow> busy s = 0"
    and "x AND SFUD_STATUS_REGISTER_WEL \<noteq> 0 \<longleftrightarrow> wel s"
    and "mem s' = mem s" and "wel s' = wel s" and "busy s' = busy s - 1"
proof -
  obtain x s' where r: "wr s [SFUD_CMD_READ_STATUS_REGISTER] 1 = (SFUD_SUCCESS, [x], s')"
    and f: "x AND SFUD_STATUS_REGISTER_BUSY = 0 \<longleftrightarrow> busy s = 0" "x AND SFUD_STATUS_REGISTER_WEL \<noteq> 0 \<longleftrightarrow> wel s"
      "mem s' = mem s" "wel s' = wel s" "busy s' = busy s - 1"
    using assms unfolding nor_status_def by blast
  from r have "sfud_read_status wr s = (SFUD_SUCCESS, x, s')" by (simp add: sfud_read_status_def)
  from this f show thesis by (rule that)
qed

lemma wait_busy_loop_ok:
  assumes "nor_status wr mem wel busy" and "busy s \<le> k"
  shows "\<exists>s'. wait_busy_loop wr k s = (SFUD_SUCCESS, s') \<and> mem s' = mem s \<and> wel s' = wel s \<and> busy s' = 0"
  using assms(2)
proof (induction k arbitrary: s)
  case 0
  obtain x s' where "sfud_read_status wr s = (SFUD_SUCCESS, x, s')" "x AND SFUD_STATUS_REGISTER_BUSY = 0 \<longleftrightarrow> busy s = 0"
    "mem s' = mem s" "wel s' = wel s" "busy s' = busy s - 1"
    by (rule read_status_nor [OF assms(1), of s])
  with 0 show ?case by (subst wait_busy_loop.simps) simp
next
  case (Suc k)
  obtain x s' where r: "sfud_read_status wr s = (SFUD_SUCCESS, x, s')"
    "x AND SFUD_STATUS_REGISTER_BUSY = 0 \<longleftrightarrow> busy s = 0" "mem s' = mem s" "wel s' = wel s" "busy s' = busy s - 1"
    by (rule read_status_nor [OF assms(1), of s])
  show ?case
  proof (cases "busy s = 0")
    case True
    with r show ?thesis by (subst wait_busy_loop.simps) simp
  next
    case False
    then have "wait_busy_loop wr (Suc k) s = wait_busy_loop wr k s'"
      using r(1,2) by (subst wait_busy_loop.simps) simp
    with Suc.IH [of s'] Suc.prems r show ?thesis by simp
  qed
qed

lemma wait_busy_ok:
  assumes "spi_nor flash wr mem wel busy" and "busy s \<le> retry_times flash"
  obtains s' where "wait_busy flash wr s = (SFUD_SUCCESS, s')" and "mem s' = mem s" and "wel s' = wel s" and "busy s' = 0"
  using wait_busy_loop_ok [of wr mem wel busy s "retry_times flash"] assms by (auto simp: wait_busy_def spi_nor_def)

lemma set_write_enabled_ok:
  assumes "spi_nor flash wr mem wel busy" and "busy s = 0"
  obtains s' where "set_write_enabled wr on s = (SFUD_SUCCESS, s')" and "mem s' = mem s" and "wel s' = on" and "busy s' = 0"
proof -
  obtain xs s1 where l: "wr s [if on then SFUD_CMD_WRITE_ENABLE else SFUD_CMD_WRITE_DISABLE] 0 = (SFUD_SUCCESS, xs, s1)"
    "mem s1 = mem s" "wel s1 = on" "busy s1 = 0"
    using assms unfolding spi_nor_def nor_latch_def by blast
  obtain x s' where "sfud_read_status wr s1 = (SFUD_SUCCESS, x, s')"
    "x AND SFUD_STATUS_REGISTER_BUSY = 0 \<longleftrightarrow> busy s1 = 0" "x AND SFUD_STATUS_REGISTER_WEL \<noteq> 0 \<longleftrightarrow> wel s1"
    "mem s' = mem s1" "wel s' = wel s1" "busy s' = busy s1 - 1"
    by (rule read_status_nor [of wr mem wel busy s1]) (use assms(1) in \<open>simp_all add: spi_nor_def\<close>)
  with l that show thesis by (auto simp: set_write_enabled_def)
qed

section \<open>The operations\<close>

lemma unat_add_nat:
  assumes "unat (a :: u32) + n < 2 ^ 32"
  shows "unat (a + of_nat n) = unat a + n"
  using assms by (simp add: unat_word_ariths unat_of_nat take_bit_nat_eq_self)

lemma in_capacity:
  assumes "unat a + n \<le> unat cap"
  shows "\<not> a + of_nat n > (cap :: u32)"
proof -
  have "unat a + n < 2 ^ 32" using assms unsigned_less [of cap, where 'a = nat] by simp
  then show ?thesis using assms unat_add_nat [of a n] by (simp add: word_less_nat_alt)
qed

lemma nor_read_cmd:
  assumes "spi_nor flash wr mem wel busy" and "busy s = 0" and "unat a + n \<le> length (mem s)"
  obtains s' where "wr s (SFUD_CMD_READ_DATA # make_address_byte_array flash a) n
      = (SFUD_SUCCESS, take n (drop (unat a) (mem s)), s')" and "mem s' = mem s" and "busy s' = 0"
  using assms unfolding spi_nor_def nor_reads_def by blast

lemma nor_program_cmd:
  assumes "spi_nor flash wr mem wel busy" and "busy s = 0" and "wel s" and "xs \<noteq> []"
    and "unat a mod 256 + length xs \<le> 256" and "unat a + length xs \<le> length (mem s)"
  obtains ys s' where "wr s (SFUD_CMD_PAGE_PROGRAM # make_address_byte_array flash a @ xs) 0 = (SFUD_SUCCESS, ys, s')"
    and "mem s' = nor_program (mem s) (unat a) xs" and "busy s' \<le> retry_times flash"
  using assms unfolding spi_nor_def nor_programs_def by blast

lemma nor_erase_cmd:
  assumes "spi_nor flash wr mem wel busy" and "busy s = 0" and "wel s" and "(e, cmd) \<in> erase_types flash"
    and "unat a mod unat e = 0" and "unat a + unat e \<le> length (mem s)"
  obtains ys s' where "wr s (cmd # make_address_byte_array flash a) 0 = (SFUD_SUCCESS, ys, s')"
    and "mem s' = nor_erase (mem s) (unat a) (unat e)" and "busy s' \<le> retry_times flash"
proof -
  have "unat a - unat a mod unat e = unat a" using assms(5) by simp
  with assms have "\<exists>ys s'. wr s (cmd # make_address_byte_array flash a) 0 = (SFUD_SUCCESS, ys, s')
      \<and> mem s' = nor_erase (mem s) (unat a) (unat e) \<and> busy s' \<le> retry_times flash"
    unfolding spi_nor_def nor_erases_def by metis
  with that show thesis by blast
qed

lemma nor_erase_chip_cmd:
  assumes "spi_nor flash wr mem wel busy" and "busy s = 0" and "wel s"
  obtains ys s' where "wr s [SFUD_CMD_ERASE_CHIP] 0 = (SFUD_SUCCESS, ys, s')"
    and "mem s' = nor_erase (mem s) 0 (length (mem s))" and "busy s' \<le> retry_times flash"
  using assms unfolding spi_nor_def nor_erases_def by blast

lemma sfud_read_ok:
  assumes chip: "spi_nor flash wr mem wel busy" and "busy s \<le> retry_times flash"
    and cap: "length (mem s) = unat (capacity (chip flash))" and "unat a + n \<le> length (mem s)"
  shows "\<exists>s'. sfud_read flash wr a n s = (SFUD_SUCCESS, take n (drop (unat a) (mem s)), s') \<and> mem s' = mem s \<and> busy s' = 0"
proof -
  obtain s1 where w: "wait_busy flash wr s = (SFUD_SUCCESS, s1)" "mem s1 = mem s" "busy s1 = 0"
    by (rule wait_busy_ok [OF chip assms(2)])
  have "unat a + n \<le> length (mem s1)" using assms(4) w(2) by simp
  with chip w(3) obtain s2 where "wr s1 (SFUD_CMD_READ_DATA # make_address_byte_array flash a) n
      = (SFUD_SUCCESS, take n (drop (unat a) (mem s1)), s2)" "mem s2 = mem s1" "busy s2 = 0"
    by (rule nor_read_cmd)
  then show ?thesis
    using w assms(3,4) in_capacity [of a n "capacity (chip flash)"] by (auto simp: sfud_read_def)
qed

text \<open>One page, and then all of them: no page program command crosses a page boundary.\<close>

lemma page_write_loop_ok:
  assumes chip: "spi_nor flash wr mem wel busy"
    and "busy s = 0" and "unat a + sz \<le> length (mem s)" and "length (mem s) < 2 ^ 32" and "sz \<le> length data"
  shows "\<exists>s'. page_write_loop flash wr a sz 256 data s = Some (SFUD_SUCCESS, s')
    \<and> mem s' = nor_program (mem s) (unat a) (take sz data) \<and> busy s' = 0"
  using assms(2-)
proof (induction sz arbitrary: a data s rule: less_induct)
  case (less sz)
  show ?case
  proof (cases "sz = 0")
    case True
    with less.prems show ?thesis by (subst page_write_loop.simps) simp
  next
    case False
    define n where "n = min sz (256 - unat a mod 256)"
    have n: "0 < n" "n \<le> sz" "unat a mod 256 + n \<le> 256" using False by (auto simp: n_def)
    have ds: "(if unat a mod 256 \<noteq> 0 then (if sz > 256 - unat a mod 256 then 256 - unat a mod 256 else sz)
        else (if sz > 256 then 256 else sz)) = n"
      by (simp add: n_def min_def)
    let ?xs = "take n data"
    have xs: "length ?xs = n" "mem_read data 0 n = Some ?xs"
      using n(2) less.prems(4) by (simp_all add: mem_read_def)
    obtain s1 where w: "set_write_enabled wr True s = (SFUD_SUCCESS, s1)" "mem s1 = mem s" "wel s1 = True" "busy s1 = 0"
      by (rule set_write_enabled_ok [OF chip less.prems(1)])
    have "?xs \<noteq> []" using xs(1) n(1) by (metis less_irrefl list.size(3))
    then obtain ys s2 where p: "wr s1 (SFUD_CMD_PAGE_PROGRAM # make_address_byte_array flash a @ ?xs) 0 = (SFUD_SUCCESS, ys, s2)"
      "mem s2 = nor_program (mem s1) (unat a) ?xs" "busy s2 \<le> retry_times flash"
      using nor_program_cmd [OF chip w(4), of ?xs a] w(2,3) xs(1) n less.prems(2) by auto
    obtain s3 where b: "wait_busy flash wr s2 = (SFUD_SUCCESS, s3)" "mem s3 = mem s2" "busy s3 = 0"
      by (rule wait_busy_ok [OF chip p(3)])
    have m3: "mem s3 = nor_program (mem s) (unat a) ?xs" using b(2) p(2) w(2) by simp
    have l3: "length (mem s3) = length (mem s)" unfolding m3 using xs(1) n(2) less.prems(2) by simp
    have a': "unat (a + of_nat n) = unat a + n" using unat_add_nat [of a n] n(2) less.prems(2,3) by simp
    have step: "page_write_loop flash wr a sz 256 data s =
        page_write_loop flash wr (a + of_nat n) (sz - n) 256 (drop n data) s3"
      using False w(1) p(1) b(1) xs(2) by (subst page_write_loop.simps, unfold ds) (simp add: Let_def)
    have "\<exists>s'. page_write_loop flash wr (a + of_nat n) (sz - n) 256 (drop n data) s3 = Some (SFUD_SUCCESS, s')
        \<and> mem s' = nor_program (mem s3) (unat (a + of_nat n)) (take (sz - n) (drop n data)) \<and> busy s' = 0"
      by (rule less.IH) (use n b(3) less.prems l3 a' in simp_all)
    moreover have "nor_program (mem s3) (unat a + n) (take (sz - n) (drop n data)) =
        nor_program (mem s) (unat a) (take sz data)"
      using nor_program_append [of "unat a" ?xs "take (sz - n) (drop n data)" "mem s"] xs(1) n(2) less.prems(2,4)
      by (simp add: m3 take_add [symmetric])
    ultimately show ?thesis by (simp add: step a')
  qed
qed

lemma sfud_write_ok:
  assumes chip: "spi_nor flash wr mem wel busy" and "busy s = 0"
    and cap: "length (mem s) = unat (capacity (chip flash))"
    and "write_mode (chip flash) AND SFUD_WM_PAGE_256B \<noteq> 0" and "unat a + length data \<le> length (mem s)"
  shows "\<exists>s'. sfud_write flash wr a (length data) data s = Some (SFUD_SUCCESS, s')
    \<and> mem s' = nor_program (mem s) (unat a) data \<and> busy s' = 0"
proof -
  have "length (mem s) < 2 ^ 32" using cap unsigned_less [of "capacity (chip flash)", where 'a = nat] by simp
  from page_write_loop_ok [OF chip assms(2,5) this order_refl]
  obtain s1 where l: "page_write_loop flash wr a (length data) 256 data s = Some (SFUD_SUCCESS, s1)"
    "mem s1 = nor_program (mem s) (unat a) data" "busy s1 = 0" by auto
  obtain s2 where "set_write_enabled wr False s1 = (SFUD_SUCCESS, s2)" "mem s2 = mem s1" "busy s2 = 0"
    by (rule set_write_enabled_ok [OF chip l(3), of False])
  with l assms(4) in_capacity [of a "length data"] assms(5) cap show ?thesis
    by (simp add: sfud_write_def page256_or_1_byte_write_def)
qed

text \<open>
  Erasing: the sizes of the chip's erasers are multiples of the smallest one. \<open>read_basic_table\<close> stores
  powers of two and sorts them.
\<close>

definition smallest_eraser :: "sfud_flash \<Rightarrow> u32" where
  "smallest_eraser flash =
     (if sfdp_available (sfdp flash) then fst (sfdp_eraser (sfdp flash) ! SMALLEST_ERASER_INDEX) else erase_gran (chip flash))"

definition erasers_ok :: "sfud_flash \<Rightarrow> bool" where
  "erasers_ok flash =
     (smallest_eraser flash \<noteq> 0
      \<and> (sfdp_available (sfdp flash) \<longrightarrow>
           length (sfdp_eraser (sfdp flash)) = SFUD_SFDP_ERASE_TYPE_MAX_NUM
           \<and> list_all (\<lambda>e. unat (smallest_eraser flash) dvd unat (fst e)) (sfdp_eraser (sfdp flash))))"

lemma eraser_search_ok:
  assumes "\<forall>j \<le> i. P (es ! j)" and "fst (es ! 0) \<noteq> 0" "unat (fst (es ! 0)) \<le> n" "a mod fst (es ! 0) = 0"
  shows "case es ! eraser_search es a n i of (e, cmd) \<Rightarrow> e \<noteq> 0 \<and> unat e \<le> n \<and> a mod e = 0 \<and> P (e, cmd)"
  using assms(1)
proof (induction i)
  case 0
  with assms(2-) show ?case
    by (cases "es ! 0", subst eraser_search.simps) (simp add: SMALLEST_ERASER_INDEX_def)
next
  case (Suc i)
  then have IH: "case es ! eraser_search es a n i of (e, cmd) \<Rightarrow> e \<noteq> 0 \<and> unat e \<le> n \<and> a mod e = 0 \<and> P (e, cmd)" by simp
  show ?case
  proof (cases "fst (es ! Suc i) \<noteq> 0 \<and> unat (fst (es ! Suc i)) \<le> n \<and> a mod fst (es ! Suc i) = 0")
    case True
    then have "eraser_search es a n (Suc i) = Suc i" by (subst eraser_search.simps) simp
    moreover have "P (es ! Suc i)" using Suc.prems by simp
    ultimately show ?thesis using True by (cases "es ! Suc i") simp
  next
    case False
    then have "eraser_search es a n (Suc i) = eraser_search es a n i"
      by (subst eraser_search.simps) (simp only: if_False nat.case)
    with IH show ?thesis by simp
  qed
qed

lemma mod_word_0: "a mod e = 0 \<longleftrightarrow> unat a mod unat (e :: u32) = 0"
  by (metis unat_0_iff unat_mod)

lemma cur_eraser_ok:
  assumes ok: "erasers_ok flash" and g: "g = unat (smallest_eraser flash)"
    and "g dvd unat a" and "g dvd sz" and "0 < sz"
  obtains e cmd where "cur_eraser flash a sz = Some (e, cmd)" and "(e, cmd) \<in> erase_types flash"
    and "e \<noteq> 0" and "unat e \<le> sz" and "unat a mod unat e = 0" and "g dvd unat e"
proof (cases "sfdp_available (sfdp flash)")
  case True
  define es where "es = sfdp_eraser (sfdp flash)"
  have es: "length es = 4" "\<forall>e \<in> set es. g dvd unat (fst e)" "fst (es ! 0) \<noteq> 0" "g = unat (fst (es ! 0))"
    using ok True unfolding g erasers_ok_def smallest_eraser_def
    by (auto simp: es_def list_all_iff SMALLEST_ERASER_INDEX_def SFUD_SFDP_ERASE_TYPE_MAX_NUM_def)
  have gsz: "g \<le> sz" using assms(4,5) by (simp add: dvd_imp_le)
  have ga: "a mod fst (es ! 0) = 0" using assms(3) es(4) by (simp add: mod_word_0)
  have "\<forall>j \<le> 3. es ! j \<in> set es" using es(1) by simp
  from eraser_search_ok [OF this es(3) _ ga] gsz es(4)
  have "case es ! eraser_search es a sz 3 of (e, cmd) \<Rightarrow> e \<noteq> 0 \<and> unat e \<le> sz \<and> a mod e = 0 \<and> (e, cmd) \<in> set es"
    by simp
  then obtain e cmd where e: "es ! eraser_search es a sz 3 = (e, cmd)" "e \<noteq> 0" "unat e \<le> sz" "a mod e = 0" "(e, cmd) \<in> set es"
    by (auto split: prod.splits)
  have "cur_eraser flash a sz = Some (e, cmd)"
    using True es(3) ga e(1)
    by (simp add: cur_eraser_def sfud_sfdp_get_suitable_eraser_def es_def Let_def SMALLEST_ERASER_INDEX_def
        SFUD_SFDP_ERASE_TYPE_MAX_NUM_def)
  moreover have "(e, cmd) \<in> erase_types flash" using True e(2,5) by (simp add: erase_types_def es_def)
  moreover have "g dvd unat e" using es(2) e(5) by force
  moreover have "unat a mod unat e = 0" using e(4) by (simp only: mod_word_0)
  ultimately show thesis using e(2,3) that [of e cmd] by simp
next
  case False
  have "g \<le> sz" using assms(4,5) by (simp add: dvd_imp_le)
  with False ok assms(3) show thesis
    by (intro that [of "erase_gran (chip flash)" "erase_gran_cmd (chip flash)"])
      (auto simp: cur_eraser_def erase_types_def erasers_ok_def g smallest_eraser_def)
qed

lemma sfud_erase_loop_ok:
  assumes chip: "spi_nor flash wr mem wel busy" and ok: "erasers_ok flash" and g: "g = unat (smallest_eraser flash)"
    and "busy s = 0" and "unat a + sz \<le> length (mem s)" and "length (mem s) < 2 ^ 32" and "g dvd unat a" and "g dvd sz"
  shows "\<exists>s'. sfud_erase_loop flash wr a sz s = Some (SFUD_SUCCESS, s')
    \<and> mem s' = nor_erase (mem s) (unat a) sz \<and> busy s' = 0"
  using assms(4-)
proof (induction sz arbitrary: a s rule: less_induct)
  case (less sz)
  show ?case
  proof (cases "sz = 0")
    case True
    with less.prems show ?thesis by (subst sfud_erase_loop.simps) (simp add: nor_erase_def)
  next
    case False
    then have "0 < sz" by simp
    with ok g less.prems(4,5) obtain e cmd where e: "cur_eraser flash a sz = Some (e, cmd)" "(e, cmd) \<in> erase_types flash"
      "e \<noteq> 0" "unat e \<le> sz" "unat a mod unat e = 0" "g dvd unat e"
      by (rule cur_eraser_ok)
    have k: "0 < unat e" "\<not> a mod e \<noteq> 0" using e(3,5) by (simp_all add: mod_word_0 unat_gt_0)
    obtain s1 where w: "set_write_enabled wr True s = (SFUD_SUCCESS, s1)" "mem s1 = mem s" "wel s1 = True" "busy s1 = 0"
      by (rule set_write_enabled_ok [OF chip less.prems(1)])
    have "unat a + unat e \<le> length (mem s1)" using e(4) less.prems(2) w(2) by simp
    with chip w(4) obtain ys s2 where p: "wr s1 (cmd # make_address_byte_array flash a) 0 = (SFUD_SUCCESS, ys, s2)"
      "mem s2 = nor_erase (mem s1) (unat a) (unat e)" "busy s2 \<le> retry_times flash"
      using nor_erase_cmd [OF chip w(4) _ e(2,5)] w(3) by metis
    obtain s3 where b: "wait_busy flash wr s2 = (SFUD_SUCCESS, s3)" "mem s3 = mem s2" "busy s3 = 0"
      by (rule wait_busy_ok [OF chip p(3)])
    have m3: "mem s3 = nor_erase (mem s) (unat a) (unat e)" using b(2) p(2) w(2) by simp
    show ?thesis
    proof (cases "unat e < sz")
      case True
      have l3: "length (mem s3) = length (mem s)" unfolding m3 using e(4) less.prems(2) by simp
      have a': "unat (a + of_nat (unat e)) = unat a + unat e"
        by (rule unat_add_nat) (use e(4) less.prems(2,3) in simp)
      have "sfud_erase_loop flash wr a sz s = sfud_erase_loop flash wr (a + of_nat (unat e)) (sz - unat e) s3"
        using False e(1,3) k(2) w(1) p(1) b(1) True by (subst sfud_erase_loop.simps) (simp add: Let_def)
      moreover have "\<exists>s'. sfud_erase_loop flash wr (a + of_nat (unat e)) (sz - unat e) s3 = Some (SFUD_SUCCESS, s')
          \<and> mem s' = nor_erase (mem s3) (unat (a + of_nat (unat e))) (sz - unat e) \<and> busy s' = 0"
        by (rule less.IH) (use k(1) e(4,6) b(3) less.prems l3 a' in \<open>simp_all add: dvd_diff_nat\<close>)
      moreover have "nor_erase (mem s3) (unat a + unat e) (sz - unat e) = nor_erase (mem s) (unat a) sz"
        using nor_erase_append [of "unat a" "unat e" "sz - unat e" "mem s"] e(4) less.prems(2) by (simp add: m3)
      ultimately show ?thesis by (simp only: a')
    next
      case eq: False
      then have "sfud_erase_loop flash wr a sz s = Some (SFUD_SUCCESS, s3)"
        using False e(1,3) k(2) w(1) p(1) b(1) by (subst sfud_erase_loop.simps) (simp add: Let_def)
      with eq e(4) m3 b(3) show ?thesis by simp
    qed
  qed
qed

lemma sfud_chip_erase_ok:
  assumes chip: "spi_nor flash wr mem wel busy" and "busy s = 0" and "write_mode (chip flash) AND SFUD_WM_DUAL_BUFFER = 0"
  shows "\<exists>s'. sfud_chip_erase flash wr s = (SFUD_SUCCESS, s') \<and> mem s' = nor_erase (mem s) 0 (length (mem s)) \<and> busy s' = 0"
proof -
  obtain s1 where w: "set_write_enabled wr True s = (SFUD_SUCCESS, s1)" "mem s1 = mem s" "wel s1 = True" "busy s1 = 0"
    by (rule set_write_enabled_ok [OF chip assms(2)])
  then have "wel s1" by simp
  with chip w(4) obtain ys s2 where p: "wr s1 [SFUD_CMD_ERASE_CHIP] 0 = (SFUD_SUCCESS, ys, s2)"
    "mem s2 = nor_erase (mem s1) 0 (length (mem s1))" "busy s2 \<le> retry_times flash"
    by (rule nor_erase_chip_cmd)
  obtain s3 where b: "wait_busy flash wr s2 = (SFUD_SUCCESS, s3)" "mem s3 = mem s2" "busy s3 = 0"
    by (rule wait_busy_ok [OF chip p(3)])
  obtain s4 where "set_write_enabled wr False s3 = (SFUD_SUCCESS, s4)" "mem s4 = mem s3" "busy s4 = 0"
    by (rule set_write_enabled_ok [OF chip b(3), of False])
  with w p b assms(3) show ?thesis by (simp add: sfud_chip_erase_def)
qed

lemma sfud_erase_ok:
  assumes chip: "spi_nor flash wr mem wel busy" and ok: "erasers_ok flash" and "busy s = 0"
    and dual: "write_mode (chip flash) AND SFUD_WM_DUAL_BUFFER = 0"
    and cap: "length (mem s) = unat (capacity (chip flash))" and "unat a + sz \<le> length (mem s)"
    and "unat (smallest_eraser flash) dvd unat a" and "unat (smallest_eraser flash) dvd sz"
  shows "\<exists>s'. sfud_erase flash wr a sz s = Some (SFUD_SUCCESS, s') \<and> mem s' = nor_erase (mem s) (unat a) sz \<and> busy s' = 0"
proof (cases "a = 0 \<and> of_nat sz = capacity (chip flash)")
  case True
  have "sz < 2 ^ 32" using assms(6) cap unsigned_less [of "capacity (chip flash)", where 'a = nat] by simp
  then have "unat (of_nat sz :: u32) = sz" by (simp add: unat_of_nat take_bit_nat_eq_self)
  with True cap have "sz = length (mem s)" by simp
  with sfud_chip_erase_ok [OF chip assms(3) dual] True show ?thesis by (auto simp: sfud_erase_def)
next
  case False
  have "length (mem s) < 2 ^ 32" using cap unsigned_less [of "capacity (chip flash)", where 'a = nat] by simp
  from sfud_erase_loop_ok [OF chip ok refl assms(3,6) this assms(7,8)]
  obtain s1 where l: "sfud_erase_loop flash wr a sz s = Some (SFUD_SUCCESS, s1)"
    "mem s1 = nor_erase (mem s) (unat a) sz" "busy s1 = 0" by auto
  obtain s2 where "set_write_enabled wr False s1 = (SFUD_SUCCESS, s2)" "mem s2 = mem s1" "busy s2 = 0"
    by (rule set_write_enabled_ok [OF chip l(3), of False])
  with l False in_capacity [of a sz] assms(6) cap show ?thesis
    by (auto simp: sfud_erase_def)
qed

section \<open>A simulated chip\<close>

text \<open>
  A chip with four address bytes, one eraser and a busy period of two polls. It shows that the
  hypotheses about the chip can hold.
\<close>

record sim_chip =
  sim_mem :: bytes
  sim_wel :: bool
  sim_busy :: nat

definition sim_flash :: "u32 \<Rightarrow> u32 \<Rightarrow> sfud_flash" where
  "sim_flash cap gran =
     \<lparr>chip = \<lparr>mf_id = 0xEF, type_id = 0x40, capacity_id = 0x17, capacity = cap, write_mode = SFUD_WM_PAGE_256B,
        erase_gran = gran, erase_gran_cmd = 0x20\<rparr>,
      init_ok = True, addr_in_4_byte = True, retry_times = 2,
      sfdp = \<lparr>sfdp_available = False, sfdp_major_rev = 0, sfdp_minor_rev = 0, sfdp_write_gran = 0, sfdp_erase_4k = False,
        sfdp_erase_4k_cmd = 0, sfdp_sr_is_non_vola = False, sfdp_vola_sr_we_cmd = 0, sfdp_addr_3_byte = False,
        sfdp_addr_4_byte = False, sfdp_capacity = 0, sfdp_eraser = []\<rparr>\<rparr>"

definition sim_addr :: "u8 \<Rightarrow> u8 \<Rightarrow> u8 \<Rightarrow> u8 \<Rightarrow> nat" where
  "sim_addr b3 b2 b1 b0 = unat b3 * 2 ^ 24 + unat b2 * 2 ^ 16 + unat b1 * 2 ^ 8 + unat b0"

definition sim_status :: "sim_chip \<Rightarrow> u8" where
  "sim_status s = (if sim_busy s = 0 then 0 else 1) OR (if sim_wel s then 2 else 0)"

fun sim_wr :: "nat \<Rightarrow> sim_chip spi_wr" where
  "sim_wr gran s [c] n =
     (if c = SFUD_CMD_READ_STATUS_REGISTER then (SFUD_SUCCESS, [sim_status s], s\<lparr>sim_busy := sim_busy s - 1\<rparr>)
      else if sim_busy s \<noteq> 0 then (SFUD_ERR_READ, [], s)
      else if c = SFUD_CMD_WRITE_ENABLE then (SFUD_SUCCESS, [], s\<lparr>sim_wel := True\<rparr>)
      else if c = SFUD_CMD_WRITE_DISABLE then (SFUD_SUCCESS, [], s\<lparr>sim_wel := False\<rparr>)
      else if c = SFUD_CMD_ERASE_CHIP \<and> sim_wel s
      then (SFUD_SUCCESS, [], \<lparr>sim_mem = nor_erase (sim_mem s) 0 (length (sim_mem s)), sim_wel = False, sim_busy = 2\<rparr>)
      else (SFUD_ERR_READ, [], s))"
| "sim_wr gran s (c # b3 # b2 # b1 # b0 # xs) n =
     (let a = sim_addr b3 b2 b1 b0
      in if sim_busy s \<noteq> 0 then (SFUD_ERR_READ, [], s)
         else if c = SFUD_CMD_READ_DATA then (SFUD_SUCCESS, take n (drop a (sim_mem s)), s)
         else if c = SFUD_CMD_PAGE_PROGRAM \<and> sim_wel s
         then (SFUD_SUCCESS, [], \<lparr>sim_mem = nor_program (sim_mem s) a xs, sim_wel = False, sim_busy = 2\<rparr>)
         else if c = 0x20 \<and> sim_wel s
         then (SFUD_SUCCESS, [], \<lparr>sim_mem = nor_erase (sim_mem s) (a - a mod gran) gran, sim_wel = False, sim_busy = 2\<rparr>)
         else (SFUD_ERR_READ, [], s))"
| "sim_wr gran s cmd n = (SFUD_ERR_READ, [], s)"

lemma sim_flash_simps [simp]:
  "chip (sim_flash cap gran) = \<lparr>mf_id = 0xEF, type_id = 0x40, capacity_id = 0x17, capacity = cap,
     write_mode = SFUD_WM_PAGE_256B, erase_gran = gran, erase_gran_cmd = 0x20\<rparr>"
  "retry_times (sim_flash cap gran) = 2" "addr_in_4_byte (sim_flash cap gran)" "init_ok (sim_flash cap gran)"
  "\<not> sfdp_available (sfdp (sim_flash cap gran))"
  by (simp_all add: sim_flash_def)

lemma sim_address:
  obtains b3 b2 b1 b0 where "make_address_byte_array (sim_flash cap gran) a = [b3, b2, b1, b0]"
    and "sim_addr b3 b2 b1 b0 = unat a"
proof -
  define b where "b k = (ucast (drop_bit (8 * k) a AND 0xFF) :: u8)" for k
  have b: "unat (b k) = unat a div 2 ^ (8 * k) mod 256" for k
  proof -
    have "drop_bit (8 * k) a AND 0xFF = take_bit 8 (drop_bit (8 * k) a)"
      by (simp add: take_bit_eq_mask mask_eq_exp_minus_1)
    then have "unat (b k) = take_bit 8 (drop_bit (8 * k) (unat a))"
      using unsigned_less [of a, where 'a = nat]
      by (simp add: b_def unsigned_ucast_eq unsigned_take_bit_eq unsigned_drop_bit_eq take_bit_nat_eq_self)
    then show ?thesis by (simp add: drop_bit_eq_div take_bit_eq_mod)
  qed
  have "make_address_byte_array (sim_flash cap gran) a = [b 3, b 2, b 1, b 0]"
    by (simp add: make_address_byte_array_def b_def eval_nat_numeral)
  moreover have "sim_addr (b 3) (b 2) (b 1) (b 0) = unat a"
  proof -
    have "unat a div 16777216 * 256 + unat a div 65536 mod 256 = unat a div 65536"
      using div_mult_mod_eq [of "unat a div 65536" 256] by (simp add: div_mult2_eq [symmetric])
    moreover have "unat a div 65536 * 256 + unat a div 256 mod 256 = unat a div 256"
      using div_mult_mod_eq [of "unat a div 256" 256] by (simp add: div_mult2_eq [symmetric])
    moreover have "unat a div 256 * 256 + unat a mod 256 = unat a" by (rule div_mult_mod_eq)
    ultimately have "unat a div 16777216 * 16777216 + unat a div 65536 mod 256 * 65536
        + unat a div 256 mod 256 * 256 + unat a mod 256 = unat a" by linarith
    moreover have "unat a div 16777216 mod 256 = unat a div 16777216"
      using unsigned_less [of a, where 'a = nat] by simp
    ultimately show ?thesis unfolding sim_addr_def b by simp
  qed
  ultimately show thesis by (rule that)
qed

lemma sim_chip_nor: "spi_nor (sim_flash cap gran) (sim_wr (unat gran)) sim_mem sim_wel sim_busy"
proof -
  have "nor_status (sim_wr (unat gran)) sim_mem sim_wel sim_busy"
    by (auto simp: nor_status_def sim_status_def SFUD_STATUS_REGISTER_BUSY_def SFUD_STATUS_REGISTER_WEL_def)
  moreover have "nor_latch (sim_wr (unat gran)) sim_mem sim_wel sim_busy"
    by (auto simp: nor_latch_def SFUD_CMD_WRITE_ENABLE_def SFUD_CMD_WRITE_DISABLE_def SFUD_CMD_READ_STATUS_REGISTER_def)
  moreover have "nor_reads (sim_flash cap gran) (sim_wr (unat gran)) sim_mem sim_busy"
    unfolding nor_reads_def
  proof (intro allI impI)
    fix s :: sim_chip and a :: u32 and n
    assume "sim_busy s = 0 \<and> unat a + n \<le> length (sim_mem s)"
    then show "\<exists>s'. sim_wr (unat gran) s (SFUD_CMD_READ_DATA # make_address_byte_array (sim_flash cap gran) a) n =
        (SFUD_SUCCESS, take n (drop (unat a) (sim_mem s)), s') \<and> sim_mem s' = sim_mem s \<and> sim_busy s' = 0"
      by - (rule sim_address [of cap gran a], simp add: Let_def)
  qed
  moreover have "nor_programs (sim_flash cap gran) (sim_wr (unat gran)) sim_mem sim_wel sim_busy 2"
    unfolding nor_programs_def
  proof (intro allI impI)
    fix s :: sim_chip and a :: u32 and xs :: bytes
    assume "sim_busy s = 0 \<and> sim_wel s \<and> xs \<noteq> [] \<and> unat a mod 256 + length xs \<le> 256 \<and> unat a + length xs \<le> length (sim_mem s)"
    then show "\<exists>ys s'. sim_wr (unat gran) s (SFUD_CMD_PAGE_PROGRAM # make_address_byte_array (sim_flash cap gran) a @ xs) 0 =
        (SFUD_SUCCESS, ys, s') \<and> sim_mem s' = nor_program (sim_mem s) (unat a) xs \<and> sim_busy s' \<le> 2"
      by - (rule sim_address [of cap gran a], simp add: Let_def SFUD_CMD_PAGE_PROGRAM_def SFUD_CMD_READ_DATA_def)
  qed
  moreover have "nor_erases (sim_flash cap gran) (sim_wr (unat gran)) sim_mem sim_wel sim_busy 2"
    unfolding nor_erases_def
  proof (intro conjI allI impI)
    fix s :: sim_chip and a e :: u32 and cmd
    assume "sim_busy s = 0 \<and> sim_wel s \<and> (e, cmd) \<in> erase_types (sim_flash cap gran)
      \<and> unat a - unat a mod unat e + unat e \<le> length (sim_mem s)"
    then show "\<exists>ys s'. sim_wr (unat gran) s (cmd # make_address_byte_array (sim_flash cap gran) a) 0 = (SFUD_SUCCESS, ys, s')
        \<and> sim_mem s' = nor_erase (sim_mem s) (unat a - unat a mod unat e) (unat e) \<and> sim_busy s' \<le> 2"
      by - (rule sim_address [of cap gran a],
        simp add: erase_types_def Let_def SFUD_CMD_PAGE_PROGRAM_def SFUD_CMD_READ_DATA_def)
  next
    fix s :: sim_chip
    assume "sim_busy s = 0 \<and> sim_wel s"
    then show "\<exists>ys s'. sim_wr (unat gran) s [SFUD_CMD_ERASE_CHIP] 0 = (SFUD_SUCCESS, ys, s')
        \<and> sim_mem s' = nor_erase (sim_mem s) 0 (length (sim_mem s)) \<and> sim_busy s' \<le> 2"
      by (simp add: SFUD_CMD_ERASE_CHIP_def SFUD_CMD_WRITE_ENABLE_def SFUD_CMD_WRITE_DISABLE_def
          SFUD_CMD_READ_STATUS_REGISTER_def)
  qed
  ultimately show ?thesis by (simp add: spi_nor_def)
qed

section \<open>The refinement\<close>

text \<open>
  C9: The driver implements a NOR flash. On a page-programmable chip that behaves as its data sheet says, every
  read inside the capacity returns the memory, every write programs exactly the given bytes at the given address
  whatever pages they cross, and every erase of whole blocks erases exactly that range; each of them returns
  success with the chip idle again.
\<close>

theorem sfud_refines_nor:
  assumes "spi_nor flash wr mem wel busy" and "erasers_ok flash" and "busy s = 0"
    and "length (mem s) = unat (capacity (chip flash))"
    and "write_mode (chip flash) AND SFUD_WM_PAGE_256B \<noteq> 0" and "write_mode (chip flash) AND SFUD_WM_DUAL_BUFFER = 0"
  shows "(\<forall>a n. unat a + n \<le> length (mem s) \<longrightarrow>
      (\<exists>s'. sfud_read flash wr a n s = (SFUD_SUCCESS, take n (drop (unat a) (mem s)), s') \<and> mem s' = mem s \<and> busy s' = 0))
    \<and> (\<forall>a data. unat a + length data \<le> length (mem s) \<longrightarrow>
      (\<exists>s'. sfud_write flash wr a (length data) data s = Some (SFUD_SUCCESS, s')
        \<and> mem s' = nor_program (mem s) (unat a) data \<and> busy s' = 0))
    \<and> (\<forall>a n. unat a + n \<le> length (mem s) \<and> unat (smallest_eraser flash) dvd unat a
        \<and> unat (smallest_eraser flash) dvd n \<longrightarrow>
      (\<exists>s'. sfud_erase flash wr a n s = Some (SFUD_SUCCESS, s') \<and> mem s' = nor_erase (mem s) (unat a) n \<and> busy s' = 0))"
  using assms sfud_read_ok [OF assms(1) _ assms(4)] sfud_write_ok [OF assms(1,3,4,5)]
    sfud_erase_ok [OF assms(1,2,3,6,4)] by simp

theorem sfud_refines_nor_witness:
  "\<exists>s'. sfud_erase (sim_flash 32 16) (sim_wr 16) 16 16 \<lparr>sim_mem = replicate 32 0xA5, sim_wel = False, sim_busy = 0\<rparr>
      = Some (SFUD_SUCCESS, s') \<and> sim_mem s' = replicate 16 0xA5 @ replicate 16 0xFF \<and> sim_busy s' = 0"
proof -
  define s where "s = \<lparr>sim_mem = replicate 32 (0xA5 :: u8), sim_wel = False, sim_busy = 0\<rparr>"
  have "erasers_ok (sim_flash 32 16)" by (simp add: erasers_ok_def smallest_eraser_def)
  from sfud_refines_nor [OF sim_chip_nor this, of s, simplified]
  have "\<forall>a n. unat a + n \<le> 32 \<and> unat (smallest_eraser (sim_flash 32 16)) dvd unat a
        \<and> unat (smallest_eraser (sim_flash 32 16)) dvd n \<longrightarrow>
      (\<exists>s'. sfud_erase (sim_flash 32 16) (sim_wr 16) a n s = Some (SFUD_SUCCESS, s')
        \<and> sim_mem s' = nor_erase (sim_mem s) (unat a) n \<and> sim_busy s' = 0)"
    by (simp add: s_def SFUD_WM_PAGE_256B_def SFUD_WM_DUAL_BUFFER_def)
  from this [rule_format, of 16 16]
  have "\<exists>s'. sfud_erase (sim_flash 32 16) (sim_wr 16) 16 16 s = Some (SFUD_SUCCESS, s')
      \<and> sim_mem s' = nor_erase (sim_mem s) 16 16 \<and> sim_busy s' = 0"
    by (simp add: smallest_eraser_def)
  moreover have "nor_erase (sim_mem s) 16 16 = replicate 16 0xA5 @ replicate 16 0xFF"
    by (simp add: s_def nor_erase_def patch_at_def eval_nat_numeral)
  ultimately show ?thesis by (simp add: s_def)
qed

text \<open>
  Writing to a byte-programmable chip does nothing and reports success. \<open>hardware_init\<close> sets
  \<open>SFUD_WM_BYTE\<close> as the only mode of a chip whose SFDP table says its write granularity is one byte, and \<open>sfud_write\<close>
  has no branch for it: no command is sent, whatever the data, and even for an address outside the chip.
\<close>

theorem sfud_write_byte_mode_noop:
  assumes "write_mode (chip flash) = SFUD_WM_BYTE"
  shows "sfud_write flash wr a n data s = Some (SFUD_SUCCESS, s)"
  using assms by (simp add: sfud_write_def SFUD_WM_BYTE_def SFUD_WM_PAGE_256B_def SFUD_WM_AAI_def)

theorem sfud_write_byte_mode_noop_witness:
  "sfud_write (sim_flash 32 16 \<lparr>chip := chip (sim_flash 32 16) \<lparr>write_mode := SFUD_WM_BYTE\<rparr>\<rparr>) (sim_wr 16) 0 2 [1, 2]
     \<lparr>sim_mem = replicate 32 0xFF, sim_wel = False, sim_busy = 0\<rparr>
   = Some (SFUD_SUCCESS, \<lparr>sim_mem = replicate 32 0xFF, sim_wel = False, sim_busy = 0\<rparr>)"
  by (rule sfud_write_byte_mode_noop) simp

end
