(* ===== verification/Le_Words.thy ===== *)
theory Le_Words
  imports Board_Prelude
begin

text \<open>
  Words in memory: the target is little endian, so the four bytes of a \<open>uint32_t\<close> are stored with the least
  significant one first. Used for the structures that the database and the flash drivers keep in flash.
\<close>

unbundle bit_operations_syntax

definition le32 :: "u32 \<Rightarrow> bytes" where
  "le32 w = [ucast w, ucast (drop_bit 8 w), ucast (drop_bit 16 w), ucast (drop_bit 24 w)]"

fun of_le32 :: "bytes \<Rightarrow> u32" where
  "of_le32 (a # b # c # d # _) =
     ucast a OR push_bit 8 (ucast b) OR push_bit 16 (ucast c) OR push_bit 24 (ucast d)"
| "of_le32 _ = 0"

lemma length_le32 [simp]: "length (le32 w) = 4"
  by (simp add: le32_def)

lemma of_le32_le32: "of_le32 (le32 w) = w"
proof (rule bit_word_eqI)
  fix n
  assume "n < LENGTH(32)"
  then have n: "n < 32" by simp
  show "bit (of_le32 (le32 w)) n = bit w n"
    by (cases "n < 8"; cases "n < 16"; cases "n < 24")
      (use n in \<open>auto simp: le32_def bit_or_iff bit_push_bit_iff bit_ucast_iff bit_drop_bit_eq\<close>)
qed

lemma le32_of_le32: "le32 (of_le32 [a, b, c, d]) = [a, b, c, d]"
proof -
  have "ucast (of_le32 [a, b, c, d]) = a"
    by (rule bit_word_eqI) (auto simp: bit_or_iff bit_push_bit_iff bit_ucast_iff)
  moreover have "ucast (drop_bit 8 (of_le32 [a, b, c, d])) = b"
    by (rule bit_word_eqI) (auto simp: bit_or_iff bit_push_bit_iff bit_ucast_iff bit_drop_bit_eq bit_imp_le_length dest: bit_imp_le_length)
  moreover have "ucast (drop_bit 16 (of_le32 [a, b, c, d])) = c"
    by (rule bit_word_eqI) (auto simp: bit_or_iff bit_push_bit_iff bit_ucast_iff bit_drop_bit_eq dest: bit_imp_le_length)
  moreover have "ucast (drop_bit 24 (of_le32 [a, b, c, d])) = d"
    by (rule bit_word_eqI) (auto simp: bit_or_iff bit_push_bit_iff bit_ucast_iff bit_drop_bit_eq dest: bit_imp_le_length)
  ultimately show ?thesis by (simp only: le32_def)
qed

lemma le32_of_le32_list:
  assumes "length xs = 4"
  shows "le32 (of_le32 xs) = xs"
proof -
  obtain a b c d where "xs = [a, b, c, d]" using assms by (auto simp: numeral_eq_Suc length_Suc_conv)
  then show ?thesis by (simp only: le32_of_le32)
qed

lemma of_le32_append: "length xs = 4 \<Longrightarrow> of_le32 (xs @ ys) = of_le32 xs"
  by (auto simp: numeral_eq_Suc length_Suc_conv)

end
