(* ===== verification/Efm_Flash.thy ===== *)
theory Efm_Flash
  imports Le_Words Nor_Flash
begin

text \<open>
  The on-chip flash: the driver library's flash controller functions (\<open>hc32_ll_efm.c\<close>: wait for a flag, read,
  program, erase a sector) and the board's driver on top of them (\<open>drv_flash_f4.c\<close>: read, write and erase by
  address, and the operations for the flash abstraction layer). The controller is a parameter \<open>H\<close>: a store to a flash
  address in the current program/erase mode, a load, a poll of the ready flag, clearing status flags. The mode and
  cache bits the functions set and the write protection of the registers (\<open>FAPRT\<close>, which the start-up code of the board
  takes off with \<open>EFM_REG_Unlock\<close> in \<open>LL_PERIPH_WE\<close>) are fields of the state. The build defines \<open>__DEBUG\<close>, so a failed
  \<open>DDL_ASSERT\<close> loops forever; this is the result \<open>None\<close>, as is an access outside a buffer. The hypothesis \<open>efm_nor\<close> says what the
  reference manual says of the controller.
\<close>

section \<open>The controller\<close>

record 'h efm_ctl =
  hw_store :: "bool \<Rightarrow> u32 \<Rightarrow> u32 \<Rightarrow> u32 \<Rightarrow> 'h \<Rightarrow> 'h"
  hw_load :: "u32 \<Rightarrow> 'h \<Rightarrow> u8"
  hw_ready :: "'h \<Rightarrow> bool \<times> 'h"
  hw_clear :: "u32 \<Rightarrow> 'h \<Rightarrow> 'h"

record 'h efm =
  efm_unlocked :: bool
  efm_pemode :: bool
  efm_pemod :: u32
  efm_cache :: u32
  efm_hw :: 'h

definition EFM_MD_READONLY :: u32 where "EFM_MD_READONLY = 0x00"
definition EFM_MD_PGM_SINGLE :: u32 where "EFM_MD_PGM_SINGLE = 0x10"
definition EFM_MD_ERASE_SECTOR :: u32 where "EFM_MD_ERASE_SECTOR = 0x40"
definition EFM_FLAG_OPTEND :: u32 where "EFM_FLAG_OPTEND = 0x10"
definition EFM_FLAG_ALL :: u32 where "EFM_FLAG_ALL = 0x13F"
definition EFM_END_ADDR :: u32 where "EFM_END_ADDR = 0x0007FFFF"
definition EFM_OTP_START_ADDR :: u32 where "EFM_OTP_START_ADDR = 0x03000C00"
definition EFM_OTP_END_ADDR :: u32 where "EFM_OTP_END_ADDR = 0x03000FFB"
definition EFM_SECURITY_START_ADDR :: u32 where "EFM_SECURITY_START_ADDR = 0x0317FFE0"
definition EFM_SECURITY_END_ADDR :: u32 where "EFM_SECURITY_END_ADDR = 0x0317FFFF"
definition SECTOR_SIZE :: u32 where "SECTOR_SIZE = 0x2000"
definition HC32_FLASH_END_ADDRESS :: u32 where "HC32_FLASH_END_ADDRESS = 0 + 512 * 1024"
definition LL_OK :: int where "LL_OK = 0"
definition LL_ERR_NOT_RDY :: int where "LL_ERR_NOT_RDY = -5"
definition LL_ERR_TIMEOUT :: int where "LL_ERR_TIMEOUT = -8"

text \<open>The project builds with the C library of the ARM compiler, where \<open>EINVAL\<close> is 5.\<close>

definition RT_ERROR :: int where "RT_ERROR = 255"
definition RT_EINVAL :: int where "RT_EINVAL = 5"

section \<open>Functions of the driver library\<close>

definition IS_EFM_ADDR :: "u32 \<Rightarrow> bool" where
  "IS_EFM_ADDR x = (x \<le> EFM_END_ADDR \<or> EFM_OTP_START_ADDR \<le> x \<and> x \<le> EFM_OTP_END_ADDR
     \<or> EFM_SECURITY_START_ADDR \<le> x \<and> x \<le> EFM_SECURITY_END_ADDR)"

definition IS_EFM_ERASE_ADDR :: "u32 \<Rightarrow> bool" where
  "IS_EFM_ERASE_ADDR x = (x \<le> EFM_END_ADDR)"

definition IS_ADDR_ALIGN_WORD :: "u32 \<Rightarrow> bool" where
  "IS_ADDR_ALIGN_WORD x = (0 = x AND 0x3)"

text \<open>The two keys written to \<open>FAPRT\<close>, and the key that locks it again.\<close>

definition EFM_REG_Unlock :: "'h efm \<Rightarrow> 'h efm" where
  "EFM_REG_Unlock e = e\<lparr>efm_unlocked := True\<rparr>"

definition EFM_REG_Lock :: "'h efm \<Rightarrow> 'h efm" where
  "EFM_REG_Lock e = e\<lparr>efm_unlocked := False\<rparr>"

fun EFM_WaitFlag :: "'h efm_ctl \<Rightarrow> nat \<Rightarrow> 'h efm \<Rightarrow> int \<times> 'h efm" where
  "EFM_WaitFlag H time e =
     (case hw_ready H (efm_hw e) of (rdy, h) \<Rightarrow>
        if rdy then (LL_OK, e\<lparr>efm_hw := h\<rparr>)
        else (case time of 0 \<Rightarrow> (LL_ERR_TIMEOUT, e\<lparr>efm_hw := h\<rparr>) | Suc k \<Rightarrow> EFM_WaitFlag H k (e\<lparr>efm_hw := h\<rparr>)))"

declare EFM_WaitFlag.simps [simp del]

definition EFM_ClearStatus :: "'h efm_ctl \<Rightarrow> u32 \<Rightarrow> 'h efm \<Rightarrow> 'h efm option" where
  "EFM_ClearStatus H flag e =
     (if efm_unlocked e \<and> flag OR EFM_FLAG_ALL = EFM_FLAG_ALL then Some (e\<lparr>efm_hw := hw_clear H flag (efm_hw e)\<rparr>) else None)"

definition efm_store :: "'h efm_ctl \<Rightarrow> u32 \<Rightarrow> u32 \<Rightarrow> 'h efm \<Rightarrow> 'h efm" where
  "efm_store H a d e = e\<lparr>efm_hw := hw_store H (efm_pemode e) (efm_pemod e) a d (efm_hw e)\<rparr>"

text \<open>The buffer is the caller's object; on a timeout it is left as it is.\<close>

definition EFM_ReadByte :: "'h efm_ctl \<Rightarrow> nat \<Rightarrow> u32 \<Rightarrow> bytes \<Rightarrow> nat \<Rightarrow> 'h efm \<Rightarrow> (int \<times> bytes \<times> 'h efm) option" where
  "EFM_ReadByte H hclk addr buf n e =
     (if \<not> IS_EFM_ADDR addr \<or> \<not> IS_EFM_ADDR (addr + of_nat n - 1) then None
      else
        (case EFM_WaitFlag H (hclk div 20000) e of (r, e) \<Rightarrow>
           if r = LL_OK
           then do {
             buf \<leftarrow> mem_write buf 0 (map (\<lambda>i. hw_load H (addr + of_nat i) (efm_hw e)) [0..<n]);
             Some (LL_OK, buf, e) }
           else Some (LL_ERR_NOT_RDY, buf, e)))"

text \<open>One word: the store, the wait for the ready flag, the end-of-operation flag.\<close>

definition efm_pgm_word :: "'h efm_ctl \<Rightarrow> nat \<Rightarrow> u32 \<Rightarrow> u32 \<Rightarrow> int \<Rightarrow> 'h efm \<Rightarrow> (int \<times> 'h efm) option" where
  "efm_pgm_word H hclk addr w ret e =
     (case EFM_WaitFlag H (hclk div 20000) (efm_store H addr w e) of (r, e) \<Rightarrow> do {
        e \<leftarrow> EFM_ClearStatus H EFM_FLAG_OPTEND e;
        Some (if r = LL_ERR_TIMEOUT then LL_ERR_NOT_RDY else ret, e) })"

fun efm_pgm_words :: "'h efm_ctl \<Rightarrow> nat \<Rightarrow> nat \<Rightarrow> u32 \<Rightarrow> bytes \<Rightarrow> nat \<Rightarrow> int \<Rightarrow> 'h efm \<Rightarrow> (int \<times> 'h efm) option" where
  "efm_pgm_words H hclk 0 addr buf off ret e = Some (ret, e)"
| "efm_pgm_words H hclk (Suc n) addr buf off ret e = do {
     xs \<leftarrow> mem_read buf off 4;
     (ret, e) \<leftarrow> efm_pgm_word H hclk addr (of_le32 xs) ret e;
     efm_pgm_words H hclk n (addr + 4) buf (off + 4) ret e }"

definition EFM_Program :: "'h efm_ctl \<Rightarrow> nat \<Rightarrow> u32 \<Rightarrow> bytes \<Rightarrow> nat \<Rightarrow> nat \<Rightarrow> 'h efm \<Rightarrow> (int \<times> 'h efm) option" where
  "EFM_Program H hclk addr buf off len e =
     (if \<not> efm_unlocked e \<or> \<not> efm_pemode e \<or> \<not> IS_EFM_ADDR addr \<or> \<not> IS_EFM_ADDR (addr + of_nat len - 1)
         \<or> \<not> IS_ADDR_ALIGN_WORD addr
      then None
      else do {
        e \<leftarrow> EFM_ClearStatus H EFM_FLAG_ALL e;
        let tmp = efm_cache e;
        let e = e\<lparr>efm_cache := 0\<rparr>;
        let e = e\<lparr>efm_pemod := EFM_MD_PGM_SINGLE\<rparr>;
        let n = len div 4;
        (ret, e) \<leftarrow> efm_pgm_words H hclk n addr buf off LL_OK e;
        (ret, e) \<leftarrow> (if len mod 4 \<noteq> 0
                     then do {
                       xs \<leftarrow> mem_read buf (off + 4 * n) 4;
                       efm_pgm_word H hclk (addr + of_nat (4 * n))
                         (of_le32 xs OR push_bit (len mod 4 * 8) 0xFFFFFFFF) ret e }
                     else Some (ret, e));
        Some (ret, e\<lparr>efm_pemod := EFM_MD_READONLY, efm_cache := tmp\<rparr>) })"

definition EFM_SectorErase :: "'h efm_ctl \<Rightarrow> nat \<Rightarrow> u32 \<Rightarrow> 'h efm \<Rightarrow> (int \<times> 'h efm) option" where
  "EFM_SectorErase H hclk addr e =
     (if \<not> IS_EFM_ERASE_ADDR addr \<or> \<not> IS_ADDR_ALIGN_WORD addr \<or> \<not> efm_unlocked e \<or> \<not> efm_pemode e then None
      else do {
        e \<leftarrow> EFM_ClearStatus H EFM_FLAG_ALL e;
        let tmp = efm_cache e;
        let e = e\<lparr>efm_cache := 0\<rparr>;
        let e = e\<lparr>efm_pemod := EFM_MD_ERASE_SECTOR\<rparr>;
        let (r, e) = EFM_WaitFlag H (hclk div 50) (efm_store H addr 0 e);
        e \<leftarrow> EFM_ClearStatus H EFM_FLAG_OPTEND e;
        Some (if r = LL_ERR_TIMEOUT then LL_ERR_NOT_RDY else LL_OK,
              e\<lparr>efm_pemod := EFM_MD_READONLY, efm_cache := tmp\<rparr>) })"

definition EFM_FWMC_Cmd :: "bool \<Rightarrow> 'h efm \<Rightarrow> 'h efm" where
  "EFM_FWMC_Cmd on e = e\<lparr>efm_pemode := on\<rparr>"

section \<open>The driver of the board\<close>

definition GetSectorNum :: "u32 \<Rightarrow> nat \<Rightarrow> u32" where
  "GetSectorNum addr sz =
     (let firstSector = addr div SECTOR_SIZE;
          temp = addr + of_nat sz;
          lastSector = temp div SECTOR_SIZE;
          lastSector = (if temp mod SECTOR_SIZE \<noteq> 0 then lastSector + 1 else lastSector)
      in lastSector - firstSector + 1)"

definition hc32_flash_read :: "'h efm_ctl \<Rightarrow> nat \<Rightarrow> u32 \<Rightarrow> bytes \<Rightarrow> nat \<Rightarrow> 'h efm \<Rightarrow> (int \<times> bytes \<times> 'h efm) option" where
  "hc32_flash_read H hclk addr buf sz e =
     (if addr + of_nat sz > HC32_FLASH_END_ADDRESS then Some (- 1, buf, e)
      else
        (case EFM_ReadByte H hclk addr buf sz e of
           None \<Rightarrow> None
         | Some (r, buf, e) \<Rightarrow> Some (if r \<noteq> LL_OK then - RT_ERROR else int sz, buf, e)))"

text \<open>
  A write that ends inside its first word, and the rest. The word buffer \<open>u8MemBuf\<close> is filled with the \<open>index\<close>
  bytes in front of the data.
\<close>

definition hc32_write_in_word :: "'h efm_ctl \<Rightarrow> nat \<Rightarrow> u32 \<Rightarrow> nat \<Rightarrow> bytes \<Rightarrow> nat \<Rightarrow> 'h efm \<Rightarrow> (int \<times> 'h efm) option" where
  "hc32_write_in_word H hclk newAddr index buf sz e =
     (case EFM_ReadByte H hclk (newAddr - 4) (replicate 4 0xFF) index e of
        None \<Rightarrow> None
      | Some (r, u8MemBuf, e) \<Rightarrow>
          if r = LL_OK
          then
            (case memcpy u8MemBuf index buf 0 sz of
               None \<Rightarrow> None
             | Some u8MemBuf \<Rightarrow>
                 (case EFM_Program H hclk (newAddr - 4) u8MemBuf 0 4 e of
                    None \<Rightarrow> None
                  | Some (r, e) \<Rightarrow> Some (if r = LL_OK then 0 else - RT_ERROR, e)))
          else Some (- RT_ERROR, e))"

definition hc32_flash_write :: "'h efm_ctl \<Rightarrow> nat \<Rightarrow> u32 \<Rightarrow> bytes \<Rightarrow> nat \<Rightarrow> 'h efm \<Rightarrow> (int \<times> 'h efm) option" where
  "hc32_flash_write H hclk addr buf sz e =
     (if addr + of_nat sz > HC32_FLASH_END_ADDRESS then Some (- RT_EINVAL, e)
      else if sz < 1 then Some (- RT_EINVAL, e)
      else
        (let e = EFM_FWMC_Cmd True e;
             newAddr = (if addr mod 4 \<noteq> 0 then (addr div 4 + 1) * 4 else addr);
             offsetVal = unat (newAddr - addr);
             sz' = (if addr mod 4 \<noteq> 0 \<and> offsetVal < sz then sz - offsetVal else sz)
         in case (if addr mod 4 \<noteq> 0 \<and> offsetVal \<ge> sz
                  then hc32_write_in_word H hclk newAddr (4 - offsetVal) buf sz e
                  else
                    (case EFM_Program H hclk newAddr buf offsetVal sz' e of
                       None \<Rightarrow> None
                     | Some (r, e) \<Rightarrow> Some (if r \<noteq> LL_OK then - RT_ERROR else 0, e))) of
              None \<Rightarrow> None
            | Some (result, e) \<Rightarrow>
                let e = EFM_FWMC_Cmd False e
                in Some (if result \<noteq> 0 then result else int sz', e)))"

fun hc32_erase_sectors :: "'h efm_ctl \<Rightarrow> nat \<Rightarrow> nat \<Rightarrow> u32 \<Rightarrow> 'h efm \<Rightarrow> (int \<times> 'h efm) option" where
  "hc32_erase_sectors H hclk 0 u32Addr e = Some (0, e)"
| "hc32_erase_sectors H hclk (Suc n) u32Addr e = do {
     (r, e) \<leftarrow> EFM_SectorErase H hclk u32Addr e;
     if r \<noteq> LL_OK then Some (- RT_ERROR, e) else hc32_erase_sectors H hclk n (u32Addr + SECTOR_SIZE) e }"

definition hc32_flash_erase :: "'h efm_ctl \<Rightarrow> nat \<Rightarrow> u32 \<Rightarrow> nat \<Rightarrow> 'h efm \<Rightarrow> (int \<times> 'h efm) option" where
  "hc32_flash_erase H hclk addr sz e =
     (if addr + of_nat sz > HC32_FLASH_END_ADDRESS then Some (- RT_EINVAL, e)
      else if sz < 1 then Some (- RT_EINVAL, e)
      else do {
        (result, e) \<leftarrow> hc32_erase_sectors H hclk (unat (GetSectorNum addr sz)) addr (EFM_FWMC_Cmd True e);
        let e = EFM_FWMC_Cmd False e;
        if result \<noteq> 0 then Some (result, e) else Some (int sz, e) })"

section \<open>The controller as the manual describes it\<close>

text \<open>\<open>busy\<close> is the number of polls until the ready flag is set; it stays below the driver's time limits.\<close>

definition efm_polls :: "'h efm_ctl \<Rightarrow> ('h \<Rightarrow> bytes) \<Rightarrow> ('h \<Rightarrow> nat) \<Rightarrow> bool" where
  "efm_polls H mem busy =
     ((\<forall>h. \<exists>h'. hw_ready H h = (busy h = 0, h') \<and> mem h' = mem h \<and> busy h' = busy h - 1)
      \<and> (\<forall>h f. mem (hw_clear H f h) = mem h \<and> busy (hw_clear H f h) = busy h)
      \<and> (\<forall>h a. busy h = 0 \<and> unat a < length (mem h) \<longrightarrow> hw_load H a h = mem h ! unat a))"

definition efm_programs :: "'h efm_ctl \<Rightarrow> nat \<Rightarrow> ('h \<Rightarrow> bytes) \<Rightarrow> ('h \<Rightarrow> nat) \<Rightarrow> bool" where
  "efm_programs H hclk mem busy =
     (\<forall>h a d. busy h = 0 \<and> 4 dvd unat a \<and> unat a + 4 \<le> length (mem h) \<longrightarrow>
        mem (hw_store H True EFM_MD_PGM_SINGLE a d h) = nor_program (mem h) (unat a) (le32 d)
        \<and> busy (hw_store H True EFM_MD_PGM_SINGLE a d h) \<le> hclk div 20000)"

definition efm_erases :: "'h efm_ctl \<Rightarrow> nat \<Rightarrow> ('h \<Rightarrow> bytes) \<Rightarrow> ('h \<Rightarrow> nat) \<Rightarrow> bool" where
  "efm_erases H hclk mem busy =
     (\<forall>h a d. busy h = 0 \<and> unat a < length (mem h) \<longrightarrow>
        mem (hw_store H True EFM_MD_ERASE_SECTOR a d h) = nor_erase (mem h) (unat a - unat a mod 8192) 8192
        \<and> busy (hw_store H True EFM_MD_ERASE_SECTOR a d h) \<le> hclk div 50)"

definition efm_nor :: "'h efm_ctl \<Rightarrow> nat \<Rightarrow> ('h \<Rightarrow> bytes) \<Rightarrow> ('h \<Rightarrow> nat) \<Rightarrow> bool" where
  "efm_nor H hclk mem busy = (efm_polls H mem busy \<and> efm_programs H hclk mem busy \<and> efm_erases H hclk mem busy)"

text \<open>The driver's state with an idle, unlocked controller and this flash contents.\<close>

definition efm_idle :: "('h \<Rightarrow> bytes) \<Rightarrow> ('h \<Rightarrow> nat) \<Rightarrow> bytes \<Rightarrow> 'h efm \<Rightarrow> bool" where
  "efm_idle mem busy m e = (efm_unlocked e \<and> mem (efm_hw e) = m \<and> busy (efm_hw e) = 0)"

lemma efm_idle_simps [simp]:
  "efm_idle mem busy m (e\<lparr>efm_pemode := b\<rparr>) = efm_idle mem busy m e"
  "efm_idle mem busy m (e\<lparr>efm_pemod := w\<rparr>) = efm_idle mem busy m e"
  "efm_idle mem busy m (e\<lparr>efm_cache := w\<rparr>) = efm_idle mem busy m e"
  by (simp_all add: efm_idle_def)

lemma EFM_WaitFlag_ok:
  assumes "efm_polls H mem busy" and "busy (efm_hw e) \<le> k"
  shows "\<exists>h. EFM_WaitFlag H k e = (LL_OK, e\<lparr>efm_hw := h\<rparr>) \<and> mem h = mem (efm_hw e) \<and> busy h = 0"
  using assms(2)
proof (induction k arbitrary: e)
  case 0
  obtain h where "hw_ready H (efm_hw e) = (busy (efm_hw e) = 0, h)" "mem h = mem (efm_hw e)" "busy h = busy (efm_hw e) - 1"
    using assms(1) unfolding efm_polls_def by blast
  with 0 show ?case by (intro exI [of _ h], subst EFM_WaitFlag.simps) simp
next
  case (Suc k)
  obtain h where h: "hw_ready H (efm_hw e) = (busy (efm_hw e) = 0, h)" "mem h = mem (efm_hw e)" "busy h = busy (efm_hw e) - 1"
    using assms(1) unfolding efm_polls_def by blast
  show ?case
  proof (cases "busy (efm_hw e) = 0")
    case True
    with h show ?thesis by (intro exI [of _ h], subst EFM_WaitFlag.simps) simp
  next
    case False
    then have "EFM_WaitFlag H (Suc k) e = EFM_WaitFlag H k (e\<lparr>efm_hw := h\<rparr>)"
      using h(1) by (subst EFM_WaitFlag.simps) simp
    with Suc.IH [of "e\<lparr>efm_hw := h\<rparr>"] Suc.prems h show ?thesis by simp
  qed
qed

lemma EFM_ClearStatus_ok:
  assumes "efm_polls H mem busy" and "efm_idle mem busy m e" and "f = EFM_FLAG_ALL \<or> f = EFM_FLAG_OPTEND"
  obtains h where "EFM_ClearStatus H f e = Some (e\<lparr>efm_hw := h\<rparr>)" "efm_idle mem busy m (e\<lparr>efm_hw := h\<rparr>)"
proof -
  have "f OR EFM_FLAG_ALL = EFM_FLAG_ALL" using assms(3) by (auto simp: EFM_FLAG_ALL_def EFM_FLAG_OPTEND_def)
  then show ?thesis
    using that assms(1,2) by (simp add: EFM_ClearStatus_def efm_idle_def efm_polls_def)
qed

lemma IS_EFM_ADDR_range:
  assumes "unat a + n \<le> 524288" and "0 < n"
  shows "IS_EFM_ADDR a" and "IS_EFM_ADDR (a + of_nat n - 1)"
proof -
  have "unat (a + of_nat n) = unat a + n" using assms(1) by (simp add: unat_word_ariths unat_of_nat)
  then have "unat (a + of_nat n - 1) = unat a + n - 1"
    using unat_minus_le [of 1 "a + of_nat n"] assms(2) by simp
  moreover have "unat a + n - 1 \<le> 524287" "unat a \<le> 524287" using assms by linarith+
  ultimately show "IS_EFM_ADDR a" "IS_EFM_ADDR (a + of_nat n - 1)"
    by (simp_all add: IS_EFM_ADDR_def EFM_END_ADDR_def word_le_nat_alt)
qed

lemma IS_ADDR_ALIGN_WORD_dvd: "IS_ADDR_ALIGN_WORD a \<longleftrightarrow> 4 dvd unat a"
proof -
  have "a AND 3 = a mod 4" using take_bit_eq_mod [of 2 a] take_bit_eq_mask [of 2 a] by (simp add: mask_eq_exp_minus_1)
  moreover have "a mod 4 = 0 \<longleftrightarrow> unat (a mod 4) = 0" by (simp only: unat_0_iff)
  ultimately show ?thesis by (auto simp: IS_ADDR_ALIGN_WORD_def unat_mod dvd_eq_mod_eq_0)
qed

lemma EFM_ReadByte_ok:
  assumes "efm_polls H mem busy" and "efm_idle mem busy m e" and "unat a + n \<le> length m" and "n \<le> length buf"
    and "length m = 512 * 1024" and "0 < n"
  shows "\<exists>e'. EFM_ReadByte H hclk a buf n e = Some (LL_OK, patch_at buf 0 (take n (drop (unat a) m)), e')
    \<and> efm_idle mem busy m e' \<and> efm_pemode e' = efm_pemode e"
proof -
  from EFM_WaitFlag_ok [OF assms(1), of e "hclk div 20000"] assms(2)
  obtain h where h: "EFM_WaitFlag H (hclk div 20000) e = (LL_OK, e\<lparr>efm_hw := h\<rparr>)" "mem h = m" "busy h = 0"
    by (auto simp: efm_idle_def)
  have "hw_load H (a + of_nat i) h = m ! (unat a + i)" if "i < n" for i
  proof -
    have "unat (a + of_nat i) = unat a + i"
      using that assms(3,5) by (simp add: unat_word_ariths unat_of_nat take_bit_nat_eq_self)
    with that assms(1,3) h show ?thesis by (simp add: efm_polls_def)
  qed
  then have "map (\<lambda>i. hw_load H (a + of_nat i) h) [0..<n] = take n (drop (unat a) m)"
    using assms(3) by (intro nth_equalityI) auto
  with h assms IS_EFM_ADDR_range [of a n] show ?thesis by (auto simp: EFM_ReadByte_def efm_idle_def mem_simps)
qed

lemma efm_pgm_word_ok:
  assumes "efm_nor H hclk mem busy" and "efm_idle mem busy m e" and "efm_pemode e" and "efm_pemod e = EFM_MD_PGM_SINGLE"
    and "4 dvd unat a" and "unat a + 4 \<le> length m"
  shows "\<exists>e'. efm_pgm_word H hclk a d ret e = Some (ret, e') \<and> efm_idle mem busy (nor_program m (unat a) (le32 d)) e'
    \<and> efm_pemode e' \<and> efm_pemod e' = EFM_MD_PGM_SINGLE \<and> efm_cache e' = efm_cache e"
proof -
  define h where "h = hw_store H True EFM_MD_PGM_SINGLE a d (efm_hw e)"
  have h: "mem h = nor_program m (unat a) (le32 d)" "busy h \<le> hclk div 20000"
    using assms unfolding h_def efm_nor_def efm_programs_def efm_idle_def by auto
  have p: "efm_polls H mem busy" using assms(1) by (simp add: efm_nor_def)
  from EFM_WaitFlag_ok [OF p, of "efm_store H a d e" "hclk div 20000"] h
  obtain h' where w: "EFM_WaitFlag H (hclk div 20000) (efm_store H a d e) = (LL_OK, (efm_store H a d e)\<lparr>efm_hw := h'\<rparr>)"
    "mem h' = mem h" "busy h' = 0"
    using assms(3,4) by (auto simp: efm_store_def h_def)
  define e1 where "e1 = (efm_store H a d e)\<lparr>efm_hw := h'\<rparr>"
  have "efm_idle mem busy (nor_program m (unat a) (le32 d)) e1"
    using assms(2) w h by (simp add: e1_def efm_idle_def efm_store_def)
  from EFM_ClearStatus_ok [OF p this, of EFM_FLAG_OPTEND]
  obtain h'' where "EFM_ClearStatus H EFM_FLAG_OPTEND e1 = Some (e1\<lparr>efm_hw := h''\<rparr>)"
    "efm_idle mem busy (nor_program m (unat a) (le32 d)) (e1\<lparr>efm_hw := h''\<rparr>)" by blast
  then show ?thesis using w(1) assms(3,4)
    by (auto simp: efm_pgm_word_def e1_def efm_store_def LL_OK_def LL_ERR_TIMEOUT_def)
qed

lemma efm_pgm_words_ok:
  assumes "efm_nor H hclk mem busy" and "efm_idle mem busy m e" and "efm_pemode e" and "efm_pemod e = EFM_MD_PGM_SINGLE"
    and "4 dvd unat a" and "unat a + 4 * n \<le> length m" and "length m < 2 ^ 32" and "off + 4 * n \<le> length buf"
  shows "\<exists>e'. efm_pgm_words H hclk n a buf off ret e = Some (ret, e')
    \<and> efm_idle mem busy (nor_program m (unat a) (take (4 * n) (drop off buf))) e'
    \<and> efm_pemode e' \<and> efm_pemod e' = EFM_MD_PGM_SINGLE \<and> efm_cache e' = efm_cache e"
  using assms(2-)
proof (induction n arbitrary: a m off e)
  case 0
  then show ?case by simp
next
  case (Suc n)
  let ?xs = "take 4 (drop off buf)"
  have xs: "length ?xs = 4" "mem_read buf off 4 = Some ?xs" using Suc.prems(7) by (simp_all add: mem_read_def)
  have "unat a + 4 \<le> length m" using Suc.prems(5) by simp
  from efm_pgm_word_ok [OF assms(1) Suc.prems(1,2,3,4) this]
  obtain e1 where e1: "efm_pgm_word H hclk a (of_le32 ?xs) ret e = Some (ret, e1)"
    "efm_idle mem busy (nor_program m (unat a) ?xs) e1" "efm_pemode e1" "efm_pemod e1 = EFM_MD_PGM_SINGLE"
    "efm_cache e1 = efm_cache e"
    using xs(1) le32_of_le32_list by metis
  have a': "unat (a + 4) = unat a + 4"
    using Suc.prems(5,6) by (simp add: unat_word_ariths)
  have l: "length (nor_program m (unat a) ?xs) = length m" using xs(1) Suc.prems(5) by simp
  have "\<exists>e'. efm_pgm_words H hclk n (a + 4) buf (off + 4) ret e1 = Some (ret, e')
    \<and> efm_idle mem busy (nor_program (nor_program m (unat a) ?xs) (unat (a + 4)) (take (4 * n) (drop (off + 4) buf))) e'
    \<and> efm_pemode e' \<and> efm_pemod e' = EFM_MD_PGM_SINGLE \<and> efm_cache e' = efm_cache e1"
    by (rule Suc.IH [OF e1(2,3,4)]) (use Suc.prems a' l in auto)
  moreover have "nor_program (nor_program m (unat a) ?xs) (unat a + 4) (take (4 * n) (drop (off + 4) buf))
      = nor_program m (unat a) (take (4 * Suc n) (drop off buf))"
    using nor_program_append [of "unat a" ?xs "take (4 * n) (drop (off + 4) buf)" m] xs(1) Suc.prems(5,7)
    by (simp add: take_add add.commute [of off])
  ultimately show ?case using xs(2) e1(1,5) by (simp add: a')
qed

lemma EFM_Program_ok:
  assumes "efm_nor H hclk mem busy" and "efm_idle mem busy m e" and "efm_pemode e"
    and "4 dvd unat a" and "4 dvd n" and "unat a + n \<le> length m" and "length m = 512 * 1024" and "off + n \<le> length buf"
    and "0 < n"
  shows "\<exists>e'. EFM_Program H hclk a buf off n e = Some (LL_OK, e')
    \<and> efm_idle mem busy (nor_program m (unat a) (take n (drop off buf))) e' \<and> efm_pemode e'"
proof -
  have p: "efm_polls H mem busy" using assms(1) by (simp add: efm_nor_def)
  obtain k where k: "n = 4 * k" using assms(5) by (rule dvdE)
  obtain h where h: "EFM_ClearStatus H EFM_FLAG_ALL e = Some (e\<lparr>efm_hw := h\<rparr>)" "efm_idle mem busy m (e\<lparr>efm_hw := h\<rparr>)"
    using EFM_ClearStatus_ok [OF p assms(2)] by blast
  define e1 where "e1 = e\<lparr>efm_hw := h, efm_cache := 0, efm_pemod := EFM_MD_PGM_SINGLE\<rparr>"
  have "efm_idle mem busy m e1" "efm_pemode e1" "efm_pemod e1 = EFM_MD_PGM_SINGLE"
    using h(2) assms(3) by (simp_all add: e1_def efm_idle_def)
  from efm_pgm_words_ok [OF assms(1) this assms(4), of k off buf LL_OK] assms(6,7,8) k
  obtain e2 where e2: "efm_pgm_words H hclk k a buf off LL_OK e1 = Some (LL_OK, e2)"
    "efm_idle mem busy (nor_program m (unat a) (take n (drop off buf))) e2" "efm_pemode e2"
    by auto
  have "efm_unlocked e" using assms(2) by (simp add: efm_idle_def)
  with assms IS_EFM_ADDR_range [of a n] k h(1) e2 show ?thesis
    by (simp add: EFM_Program_def Let_def e1_def IS_ADDR_ALIGN_WORD_dvd)
qed

lemma EFM_SectorErase_ok:
  assumes "efm_nor H hclk mem busy" and "efm_idle mem busy m e" and "efm_pemode e" and "unat a < length m"
    and "length m = 512 * 1024" and "4 dvd unat a"
  shows "\<exists>e'. EFM_SectorErase H hclk a e = Some (LL_OK, e')
    \<and> efm_idle mem busy (nor_erase m (unat a - unat a mod 8192) 8192) e' \<and> efm_pemode e'"
proof -
  have p: "efm_polls H mem busy" using assms(1) by (simp add: efm_nor_def)
  obtain h0 where h0: "EFM_ClearStatus H EFM_FLAG_ALL e = Some (e\<lparr>efm_hw := h0\<rparr>)" "efm_idle mem busy m (e\<lparr>efm_hw := h0\<rparr>)"
    using EFM_ClearStatus_ok [OF p assms(2)] by blast
  define e1 where "e1 = e\<lparr>efm_hw := h0, efm_cache := 0, efm_pemod := EFM_MD_ERASE_SECTOR\<rparr>"
  define h where "h = hw_store H True EFM_MD_ERASE_SECTOR a 0 h0"
  let ?m = "nor_erase m (unat a - unat a mod 8192) 8192"
  have h: "mem h = ?m" "busy h \<le> hclk div 50"
    using assms(1,4) h0(2) unfolding h_def efm_nor_def efm_erases_def efm_idle_def by auto
  have s: "efm_store H a 0 e1 = e1\<lparr>efm_hw := h\<rparr>" using assms(3) by (simp add: efm_store_def h_def e1_def)
  from EFM_WaitFlag_ok [OF p, of "e1\<lparr>efm_hw := h\<rparr>" "hclk div 50"] h
  obtain h' where w: "EFM_WaitFlag H (hclk div 50) (e1\<lparr>efm_hw := h\<rparr>) = (LL_OK, e1\<lparr>efm_hw := h'\<rparr>)" "mem h' = mem h" "busy h' = 0"
    by auto
  have "efm_idle mem busy ?m (e1\<lparr>efm_hw := h'\<rparr>)" using w h h0(2) by (simp add: e1_def efm_idle_def)
  from EFM_ClearStatus_ok [OF p this, of EFM_FLAG_OPTEND]
  obtain h'' where c: "EFM_ClearStatus H EFM_FLAG_OPTEND (e1\<lparr>efm_hw := h'\<rparr>) = Some (e1\<lparr>efm_hw := h''\<rparr>)"
    "efm_idle mem busy ?m (e1\<lparr>efm_hw := h''\<rparr>)" by auto
  define e' where "e' = e1\<lparr>efm_hw := h'', efm_pemod := EFM_MD_READONLY, efm_cache := efm_cache e\<rparr>"
  have "efm_unlocked e" using assms(2) by (simp add: efm_idle_def)
  moreover have "IS_EFM_ERASE_ADDR a" using assms(4,5) by (simp add: IS_EFM_ERASE_ADDR_def EFM_END_ADDR_def word_le_nat_alt)
  ultimately have "EFM_SectorErase H hclk a e = Some (LL_OK, e')"
    using h0(1) w(1) c(1) assms(3,6) s
    by (simp add: EFM_SectorErase_def Let_def e1_def IS_ADDR_ALIGN_WORD_dvd e'_def LL_OK_def LL_ERR_TIMEOUT_def)
  moreover have "efm_idle mem busy ?m e'" "efm_pemode e'" using c(2) assms(3) by (simp_all add: e'_def e1_def efm_idle_def)
  ultimately show ?thesis by blast
qed

text \<open>The erase loop over sectors inside the flash, followed by more of them.\<close>

lemma hc32_erase_sectors_ok:
  assumes "efm_nor H hclk mem busy" and "efm_idle mem busy m e" and "efm_pemode e" and "8192 dvd unat a"
    and "unat a + 8192 * n \<le> length m" and "length m = 512 * 1024"
  shows "\<exists>e'. hc32_erase_sectors H hclk (n + k) a e = hc32_erase_sectors H hclk k (a + of_nat (8192 * n)) e'
    \<and> efm_idle mem busy (nor_erase m (unat a) (8192 * n)) e' \<and> efm_pemode e'"
  using assms(2-)
proof (induction n arbitrary: a m e)
  case 0
  then show ?case by (auto simp: nor_erase_def)
next
  case (Suc n)
  have "unat a < length m" "4 dvd unat a" using Suc.prems(3,4) by (simp, auto elim!: dvdE)
  from EFM_SectorErase_ok [OF assms(1) Suc.prems(1,2) this(1) Suc.prems(5) this(2)] Suc.prems(3)
  obtain e1 where e1: "EFM_SectorErase H hclk a e = Some (LL_OK, e1)" "efm_idle mem busy (nor_erase m (unat a) 8192) e1"
    "efm_pemode e1" by (auto simp: dvd_eq_mod_eq_0)
  have l: "length (nor_erase m (unat a) 8192) = length m" using Suc.prems(4) by simp
  have c: "hc32_erase_sectors H hclk (Suc n + k) a e = hc32_erase_sectors H hclk (n + k) (a + SECTOR_SIZE) e1"
    using e1(1) by simp
  have a': "unat (a + SECTOR_SIZE) = unat a + 8192"
    using Suc.prems(4,5) by (simp add: unat_word_ariths SECTOR_SIZE_def)
  have "\<exists>e'. hc32_erase_sectors H hclk (n + k) (a + SECTOR_SIZE) e1
        = hc32_erase_sectors H hclk k (a + SECTOR_SIZE + of_nat (8192 * n)) e'
      \<and> efm_idle mem busy (nor_erase (nor_erase m (unat a) 8192) (unat (a + SECTOR_SIZE)) (8192 * n)) e' \<and> efm_pemode e'"
    by (rule Suc.IH [OF e1(2,3)]) (use Suc.prems a' l in auto)
  moreover have "a + SECTOR_SIZE + of_nat (8192 * n) = a + of_nat (8192 * Suc n)" by (simp add: SECTOR_SIZE_def)
  ultimately show ?case
    using c nor_erase_append [of "unat a" 8192 "8192 * n" m] Suc.prems(4) by (simp add: a' add.assoc)
qed

section \<open>A simulated controller\<close>

type_synonym sim_efm = "bytes \<times> nat"

definition sim_efm_ctl :: "sim_efm efm_ctl" where
  "sim_efm_ctl =
     \<lparr>hw_store = (\<lambda>pemode mode a d (m, b).
        if pemode \<and> mode = EFM_MD_PGM_SINGLE then (nor_program m (unat a) (le32 d), 2)
        else if pemode \<and> mode = EFM_MD_ERASE_SECTOR then (nor_erase m (unat a - unat a mod 8192) 8192, 2)
        else (m, b)),
      hw_load = (\<lambda>a (m, b). m ! unat a),
      hw_ready = (\<lambda>(m, b). (b = 0, (m, b - 1))),
      hw_clear = (\<lambda>f h. h)\<rparr>"

lemma sim_efm_nor: "efm_nor sim_efm_ctl 16000000 fst snd"
  by (auto simp: efm_nor_def efm_polls_def efm_programs_def efm_erases_def sim_efm_ctl_def
      EFM_MD_PGM_SINGLE_def EFM_MD_ERASE_SECTOR_def)

definition sim_efm_of :: "bytes \<Rightarrow> sim_efm efm" where
  "sim_efm_of m = EFM_REG_Unlock \<lparr>efm_unlocked = False, efm_pemode = False, efm_pemod = EFM_MD_READONLY, efm_cache = 0, efm_hw = (m, 0)\<rparr>"

lemma sim_efm_idle: "efm_idle fst snd m (sim_efm_of m)"
  by (simp add: efm_idle_def sim_efm_of_def EFM_REG_Unlock_def)

section \<open>Properties of the on-chip driver\<close>

lemma hc32_in_range: "unat a + n \<le> 524288 \<Longrightarrow> \<not> a + of_nat n > HC32_FLASH_END_ADDRESS"
  by (simp add: HC32_FLASH_END_ADDRESS_def word_less_nat_alt unat_word_ariths unat_of_nat)

lemma GetSectorNum_aligned:
  assumes "8192 dvd unat a" and "8192 dvd n" and "unat a + n < 2 ^ 32"
  shows "unat (GetSectorNum a n) = n div 8192 + 1"
proof -
  obtain i k where ik: "unat a = 8192 * i" "n = 8192 * k" using assms(1,2) by (auto elim!: dvdE)
  have t: "unat (a + of_nat n) = 8192 * (i + k)"
    using assms(3) ik by (simp add: unat_word_ariths unat_of_nat take_bit_nat_eq_self)
  have ks: "i + k < 2 ^ 19" using assms(3) ik by simp
  have "unat ((a + of_nat n) mod SECTOR_SIZE) = 0" by (simp add: unat_mod t SECTOR_SIZE_def)
  then have m: "(a + of_nat n) mod SECTOR_SIZE = 0" by (simp only: unat_0_iff)
  have d: "unat ((a + of_nat n) div SECTOR_SIZE) = i + k" "unat (a div SECTOR_SIZE) = i"
    using t ik(1) by (simp_all add: unat_div SECTOR_SIZE_def)
  have "unat ((a + of_nat n) div SECTOR_SIZE - a div SECTOR_SIZE) = k"
    using unat_minus_le [of "a div SECTOR_SIZE" "(a + of_nat n) div SECTOR_SIZE"] d by simp
  then have "unat ((a + of_nat n) div SECTOR_SIZE - a div SECTOR_SIZE + 1) = k + 1"
    using ks by (subst unat_add_small) simp_all
  then show ?thesis using m ik by (simp add: GetSectorNum_def Let_def)
qed

text \<open>
  C33: Erasing whole sectors of the on-chip flash goes one sector further than asked for, because \<open>GetSectorNum\<close> rounds
  the end up to a sector and then adds one. If the range ends before the end of the flash, the sector behind it is erased as
  well and the call reports success with the size that was asked for. If the range ends at the end of the flash, the address of the
  extra sector fails an assertion of \<open>EFM_SectorErase\<close>, and the call never returns.
\<close>

theorem onchip_erase_one_too_many:
  assumes "efm_nor H hclk mem busy" and "efm_idle mem busy m e" and "length m = 512 * 1024"
    and "8192 dvd unat addr" and "8192 dvd sz" and "0 < sz" and "unat addr + sz \<le> length m"
  shows "(unat addr + sz < length m \<longrightarrow> (\<exists>e'. hc32_flash_erase H hclk addr sz e = Some (int sz, e')
      \<and> efm_idle mem busy (nor_erase m (unat addr) (sz + 8192)) e'))
    \<and> (unat addr + sz = length m \<longrightarrow> hc32_flash_erase H hclk addr sz e = None)"
proof -
  have s: "unat (GetSectorNum addr sz) = sz div 8192 + 1"
    by (rule GetSectorNum_aligned) (use assms in auto)
  have n: "8192 * (sz div 8192) = sz" using assms(5) by auto
  have e: "efm_idle mem busy m (EFM_FWMC_Cmd True e)" "efm_pemode (EFM_FWMC_Cmd True e)"
    using assms(2) by (simp_all add: EFM_FWMC_Cmd_def efm_idle_def)
  note loop = hc32_erase_sectors_ok [OF assms(1) e assms(4) _ assms(3)]
  have "\<exists>e'. hc32_flash_erase H hclk addr sz e = Some (int sz, e') \<and> efm_idle mem busy (nor_erase m (unat addr) (sz + 8192)) e'"
    if "unat addr + sz < length m"
  proof -
    have "8192 dvd length m - (unat addr + sz)" using assms(3-5) by (intro dvd_diff_nat) auto
    then have "8192 \<le> length m - (unat addr + sz)" using that by (intro dvd_imp_le) auto
    then have "unat addr + 8192 * (sz div 8192 + 1) \<le> length m" using n that by simp
    from loop [OF this, of 0] obtain e' where
      "hc32_erase_sectors H hclk (sz div 8192 + 1) addr (EFM_FWMC_Cmd True e) = Some (0, e')"
      "efm_idle mem busy (nor_erase m (unat addr) (sz + 8192)) e'"
      using n by (auto simp: algebra_simps)
    then show ?thesis
      using assms(3,6,7) s hc32_in_range [of addr sz] by (simp add: hc32_flash_erase_def EFM_FWMC_Cmd_def efm_idle_def)
  qed
  moreover have "hc32_flash_erase H hclk addr sz e = None" if f: "unat addr + sz = length m"
  proof -
    obtain e' where "hc32_erase_sectors H hclk (sz div 8192 + 1) addr (EFM_FWMC_Cmd True e)
        = hc32_erase_sectors H hclk 1 (addr + of_nat sz) e'"
      using loop [of "sz div 8192" 1] assms(7) n by auto
    moreover have "unat (addr + of_nat sz) = 524288"
      using f assms(3) by (simp add: unat_word_ariths unat_of_nat)
    then have "\<not> IS_EFM_ERASE_ADDR (addr + of_nat sz)" by (simp add: IS_EFM_ERASE_ADDR_def EFM_END_ADDR_def word_le_nat_alt)
    ultimately show ?thesis
      using assms(3,6,7) s hc32_in_range [of addr sz] by (simp add: hc32_flash_erase_def EFM_SectorErase_def)
  qed
  ultimately show ?thesis by blast
qed

theorem onchip_erase_one_too_many_witness:
  "(\<exists>e'. hc32_flash_erase sim_efm_ctl 16000000 0 8192 (sim_efm_of (replicate (512 * 1024) 0xA5)) = Some (8192, e')
     \<and> efm_idle fst snd (nor_erase (replicate (512 * 1024) 0xA5) 0 16384) e')
   \<and> hc32_flash_erase sim_efm_ctl 16000000 0x7E000 8192 (sim_efm_of (replicate (512 * 1024) 0xA5)) = None"
  using onchip_erase_one_too_many [OF sim_efm_nor sim_efm_idle, of "replicate (512 * 1024) 0xA5" 0 8192]
    onchip_erase_one_too_many [OF sim_efm_nor sim_efm_idle, of "replicate (512 * 1024) 0xA5" "0x7E000" 8192] by simp

lemma unat_next_word:
  assumes "unat a mod 4 \<noteq> 0" and "unat a + n \<le> 524288" and "4 - unat a mod 4 < n"
  shows "unat ((a div 4 + 1) * 4 :: u32) = unat a - unat a mod 4 + 4"
    and "unat ((a div 4 + 1) * 4 - a :: u32) = 4 - unat a mod 4"
proof -
  have "unat (a div 4 + 1 :: u32) = unat a div 4 + 1"
    using assms(2,3) by (subst unat_add_small) (simp_all add: unat_div)
  then have "unat ((a div 4 + 1) * 4 :: u32) = (unat a div 4 + 1) * 4"
    using assms(2,3) by (simp add: unat_word_ariths)
  moreover have "(unat a div 4 + 1) * 4 = unat a - unat a mod 4 + 4"
    by (simp add: minus_mod_eq_div_mult)
  ultimately show u: "unat ((a div 4 + 1) * 4 :: u32) = unat a - unat a mod 4 + 4" by simp
  show "unat ((a div 4 + 1) * 4 - a :: u32) = 4 - unat a mod 4"
    using unat_minus_le [of a "(a div 4 + 1) * 4"] u mod_less_eq_dividend [of "unat a" 4]
      mod_less_divisor [of 4 "unat a"] by simp
qed

lemma hc32_flash_write_aligned:
  assumes "efm_nor H hclk mem busy" and "efm_idle mem busy m e" and "length m = 512 * 1024"
    and "4 dvd unat addr" and "4 dvd length data" and "data \<noteq> []" and "unat addr + length data \<le> length m"
  shows "\<exists>e'. hc32_flash_write H hclk addr data (length data) e = Some (int (length data), e')
    \<and> efm_idle mem busy (nor_program m (unat addr) data) e'"
proof -
  have "unat (addr mod 4) = 0" using assms(4) by (simp add: unat_mod dvd_eq_mod_eq_0)
  then have a: "addr mod 4 = 0" by (simp only: unat_0_iff)
  have "efm_idle mem busy m (EFM_FWMC_Cmd True e)" "efm_pemode (EFM_FWMC_Cmd True e)"
    using assms(2) by (simp_all add: EFM_FWMC_Cmd_def efm_idle_def)
  from EFM_Program_ok [OF assms(1) this assms(4,5,7,3), of 0 data]
  obtain e' where "EFM_Program H hclk addr data 0 (length data) (EFM_FWMC_Cmd True e) = Some (LL_OK, e')"
    "efm_idle mem busy (nor_program m (unat addr) data) e'"
    using assms(6) by auto
  then show ?thesis
    using a assms(3,6,7) hc32_in_range [of addr "length data"]
    by (simp add: hc32_flash_write_def Let_def EFM_FWMC_Cmd_def efm_idle_def)
qed

lemma hc32_flash_read_ok:
  assumes "efm_nor H hclk mem busy" and "efm_idle mem busy m e" and "length m = 512 * 1024"
    and "unat addr + n \<le> length m" and "n \<le> length buf" and "0 < n"
  shows "\<exists>e'. hc32_flash_read H hclk addr buf n e = Some (int n, patch_at buf 0 (take n (drop (unat addr) m)), e')
    \<and> efm_idle mem busy m e'"
  using EFM_ReadByte_ok [OF _ assms(2,4,5,3,6), of H hclk] assms(1,3,4) hc32_in_range [of addr n]
  by (auto simp: hc32_flash_read_def efm_nor_def)

text \<open>
  C32: What is written to erased words of the on-chip flash is read back: with the registers of the controller unlocked, as
  the start-up code of the board leaves them, a write of whole words to a word-aligned, erased range passes all assertions and
  returns its size, and a following read of the same range returns its size and exactly the data.
\<close>

theorem onchip_write_read:
  assumes "efm_nor H hclk mem busy" and "efm_idle mem busy m e" and "length m = 512 * 1024"
    and "4 dvd unat addr" and "4 dvd length data" and "data \<noteq> []" and "unat addr + length data \<le> length m"
    and "take (length data) (drop (unat addr) m) = replicate (length data) 0xFF" and "length buf = length data"
  shows "\<exists>e1 e2. hc32_flash_write H hclk addr data (length data) e = Some (int (length data), e1)
    \<and> hc32_flash_read H hclk addr buf (length data) e1 = Some (int (length data), data, e2)"
proof -
  obtain e1 where e1: "hc32_flash_write H hclk addr data (length data) e = Some (int (length data), e1)"
    "efm_idle mem busy (nor_program m (unat addr) data) e1"
    using hc32_flash_write_aligned [OF assms(1-7)] by blast
  have "m ! i = 0xFF" if "unat addr \<le> i" "i < unat addr + length data" for i
  proof -
    have "take (length data) (drop (unat addr) m) ! (i - unat addr) = 0xFF" using that by (simp add: assms(8))
    with that assms(7) show ?thesis by simp
  qed
  then have "nor_program m (unat addr) data = patch_at m (unat addr) data"
    using assms(7) by (intro nor_program_erased) auto
  then have "take (length data) (drop (unat addr) (nor_program m (unat addr) data)) = data"
    using assms(7) by (simp add: patch_at_exact)
  moreover have "length (nor_program m (unat addr) data) = 512 * 1024" using assms(3,7) by simp
  ultimately show ?thesis
    using hc32_flash_read_ok [OF assms(1) e1(2), of addr "length data" buf] assms(3,6,7,9) e1(1)
    by (auto simp: patch_at_def)
qed

theorem onchip_write_read_witness:
  "\<exists>e1 e2. hc32_flash_write sim_efm_ctl 16000000 8192 [1, 2, 3, 4] 4 (sim_efm_of (replicate (512 * 1024) 0xFF)) = Some (4, e1)
     \<and> hc32_flash_read sim_efm_ctl 16000000 8192 [0, 0, 0, 0] 4 e1 = Some (4, [1, 2, 3, 4], e2)"
proof -
  have l: "length [1, 2, 3, 4 :: u8] = 4" by simp
  show ?thesis
    using onchip_write_read [OF sim_efm_nor sim_efm_idle,
        of "replicate (512 * 1024) 0xFF" 8192 "[1, 2, 3, 4]" "[0, 0, 0, 0]", unfolded l] by simp
qed

text \<open>
  A write that starts inside a word and goes beyond it drops its first bytes. The driver moves on to the next word
  boundary and programs the rest of the data there; the bytes in front of the boundary are never programmed, and
  the size it returns is the size of the rest.
\<close>

theorem onchip_write_drops_prefix:
  assumes "efm_nor H hclk mem busy" and "efm_idle mem busy m e" and "length m = 512 * 1024"
    and "k = 4 - unat addr mod 4" and "unat addr mod 4 \<noteq> 0" and "k < length data" and "4 dvd length data - k"
    and "unat addr + length data \<le> length m"
  shows "\<exists>e'. hc32_flash_write H hclk addr data (length data) e = Some (int (length data - k), e')
    \<and> efm_idle mem busy (nor_program m (unat addr + k) (drop k data)) e'"
proof -
  have na: "unat ((addr div 4 + 1) * 4) = unat addr + k" "unat ((addr div 4 + 1) * 4 - addr) = k"
    using unat_next_word [of addr "length data"] assms(3-6,8) by simp_all
  have "unat (addr mod 4) \<noteq> 0" using assms(5) by (simp add: unat_mod)
  then have a: "addr mod 4 \<noteq> 0" by (simp only: unat_0_iff not_False_eq_True)
  have d: "4 dvd unat ((addr div 4 + 1) * 4)" unfolding na assms(4) by presburger
  have "efm_idle mem busy m (EFM_FWMC_Cmd True e)" "efm_pemode (EFM_FWMC_Cmd True e)"
    using assms(2) by (simp_all add: EFM_FWMC_Cmd_def efm_idle_def)
  from EFM_Program_ok [OF assms(1) this d assms(7) _ assms(3), of k data]
  obtain e' where "EFM_Program H hclk ((addr div 4 + 1) * 4) data k (length data - k) (EFM_FWMC_Cmd True e) = Some (LL_OK, e')"
    "efm_idle mem busy (nor_program m (unat addr + k) (drop k data)) e'"
    using assms(3,6,8) na by auto
  then show ?thesis
    using a assms(3,6,8) na hc32_in_range [of addr "length data"]
    by (auto simp: hc32_flash_write_def Let_def EFM_FWMC_Cmd_def efm_idle_def)
qed

theorem onchip_write_drops_prefix_witness:
  "\<exists>e'. hc32_flash_write sim_efm_ctl 16000000 8194 [1, 2, 3, 4, 5, 6] 6 (sim_efm_of (replicate (512 * 1024) 0xFF)) = Some (4, e')
     \<and> efm_idle fst snd (nor_program (replicate (512 * 1024) 0xFF) 8196 [3, 4, 5, 6]) e'"
proof -
  have l: "length [1, 2, 3, 4, 5, 6 :: u8] = 6" by simp
  show ?thesis
    using onchip_write_drops_prefix [OF sim_efm_nor sim_efm_idle,
        of "replicate (512 * 1024) 0xFF" 2 8194 "[1, 2, 3, 4, 5, 6]", unfolded l] by simp
qed

end
