(* ===== verification/Fal_Port.thy ===== *)
theory Fal_Port
  imports Fal Sfud_Refinement Efm_Flash
begin

text \<open>
  The two flash devices of the board under the flash abstraction layer: the serial NOR flash
  (\<open>board/ports/fal/fal_flash_sfud_port.c\<close>, on the serial flash driver) and the on-chip flash (the operations at the
  end of \<open>drv_flash_f4.c\<close>). The first group of theorems goes through all layers: a partition of the serial flash is a
  NOR flash of its own, and operations on one partition leave the other one alone.
\<close>

section \<open>The ports\<close>

text \<open>
  \<open>probed\<close> is what \<open>rt_sfud_flash_find_by_dev_name\<close> finds in the kernel's device list, the flash that
  \<open>rt_sfud_flash_probe\<close> has registered there.
\<close>

record ('n, 'h) flash_world =
  spi :: 'n
  probed :: "sfud_flash option"
  sfud_dev :: "sfud_flash option"
  onchip :: "'h efm"

definition nor_port_init :: "fal_flash_dev \<Rightarrow> ('n, 'h) flash_world \<Rightarrow> int \<times> fal_flash_dev \<times> ('n, 'h) flash_world" where
  "nor_port_init d w =
     (let w = w\<lparr>sfud_dev := probed w\<rparr>
      in case sfud_dev w of
           None \<Rightarrow> (- 1, d, w)
         | Some flash \<Rightarrow> (0, d\<lparr>blk_size := erase_gran (chip flash), dev_len := capacity (chip flash)\<rparr>, w))"

definition nor_port_read ::
  "'n spi_wr \<Rightarrow> fal_flash_dev \<Rightarrow> u32 \<Rightarrow> bytes \<Rightarrow> nat \<Rightarrow> ('n, 'h) flash_world \<Rightarrow> (int \<times> bytes \<times> ('n, 'h) flash_world) option" where
  "nor_port_read wr d offset buf sz w =
     (case sfud_dev w of
        None \<Rightarrow> None
      | Some flash \<Rightarrow>
          if \<not> init_ok flash then None
          else
            (case sfud_read flash wr (dev_addr d + offset) sz (spi w) of (_, xs, s) \<Rightarrow>
               (case mem_write buf 0 xs of
                  None \<Rightarrow> None
                | Some buf \<Rightarrow> Some (int sz, buf, w\<lparr>spi := s\<rparr>))))"

definition nor_port_write ::
  "'n spi_wr \<Rightarrow> fal_flash_dev \<Rightarrow> u32 \<Rightarrow> bytes \<Rightarrow> nat \<Rightarrow> ('n, 'h) flash_world \<Rightarrow> (int \<times> ('n, 'h) flash_world) option" where
  "nor_port_write wr d offset buf sz w =
     (case sfud_dev w of
        None \<Rightarrow> None
      | Some flash \<Rightarrow>
          if \<not> init_ok flash then None
          else
            (case sfud_write flash wr (dev_addr d + offset) sz buf (spi w) of
               None \<Rightarrow> None
             | Some (r, s) \<Rightarrow> Some (if r \<noteq> SFUD_SUCCESS then - 1 else int sz, w\<lparr>spi := s\<rparr>)))"

definition nor_port_erase ::
  "'n spi_wr \<Rightarrow> fal_flash_dev \<Rightarrow> u32 \<Rightarrow> nat \<Rightarrow> ('n, 'h) flash_world \<Rightarrow> (int \<times> ('n, 'h) flash_world) option" where
  "nor_port_erase wr d offset sz w =
     (case sfud_dev w of
        None \<Rightarrow> None
      | Some flash \<Rightarrow>
          if \<not> init_ok flash then None
          else
            (case sfud_erase flash wr (dev_addr d + offset) sz (spi w) of
               None \<Rightarrow> None
             | Some (r, s) \<Rightarrow> Some (if r \<noteq> SFUD_SUCCESS then - 1 else int sz, w\<lparr>spi := s\<rparr>)))"

definition fal_flash_read ::
  "'h efm_ctl \<Rightarrow> nat \<Rightarrow> fal_flash_dev \<Rightarrow> u32 \<Rightarrow> bytes \<Rightarrow> nat \<Rightarrow> ('n, 'h) flash_world \<Rightarrow> (int \<times> bytes \<times> ('n, 'h) flash_world) option" where
  "fal_flash_read H hclk d offset buf sz w =
     map_option (\<lambda>(r, buf, e). (r, buf, w\<lparr>onchip := e\<rparr>)) (hc32_flash_read H hclk (dev_addr d + offset) buf sz (onchip w))"

definition fal_flash_write ::
  "'h efm_ctl \<Rightarrow> nat \<Rightarrow> fal_flash_dev \<Rightarrow> u32 \<Rightarrow> bytes \<Rightarrow> nat \<Rightarrow> ('n, 'h) flash_world \<Rightarrow> (int \<times> ('n, 'h) flash_world) option" where
  "fal_flash_write H hclk d offset buf sz w =
     map_option (\<lambda>(r, e). (r, w\<lparr>onchip := e\<rparr>)) (hc32_flash_write H hclk (dev_addr d + offset) buf sz (onchip w))"

definition fal_flash_erase ::
  "'h efm_ctl \<Rightarrow> nat \<Rightarrow> fal_flash_dev \<Rightarrow> u32 \<Rightarrow> nat \<Rightarrow> ('n, 'h) flash_world \<Rightarrow> (int \<times> ('n, 'h) flash_world) option" where
  "fal_flash_erase H hclk d offset sz w =
     map_option (\<lambda>(r, e). (r, w\<lparr>onchip := e\<rparr>)) (hc32_flash_erase H hclk (dev_addr d + offset) sz (onchip w))"

definition board_drivers :: "'n spi_wr \<Rightarrow> 'h efm_ctl \<Rightarrow> nat \<Rightarrow> ('n, 'h) flash_world fal_ops list" where
  "board_drivers wr H hclk =
     [\<lparr>op_init = None, op_read = fal_flash_read H hclk, op_write = fal_flash_write H hclk, op_erase = fal_flash_erase H hclk\<rparr>,
      \<lparr>op_init = Some nor_port_init, op_read = nor_port_read wr, op_write = nor_port_write wr, op_erase = nor_port_erase wr\<rparr>]"

section \<open>Initialisation of the board's tables\<close>

definition nor_capacity_ok :: "sfud_flash \<Rightarrow> bool" where
  "nor_capacity_ok flash = (278528 \<le> unat (capacity (chip flash)) \<and> unat (capacity (chip flash)) < 2 ^ 31)"

text \<open>What the initialisation leaves behind: the tables and the cache of devices.\<close>

definition board_tables :: "sfud_flash \<Rightarrow> ('n, 'h) flash_world fal \<Rightarrow> bool" where
  "board_tables flash f =
     (flash_init_ok f \<and> part_init_ok f \<and> partition_table f = fal_part_table \<and> partition_table_len f = 3
      \<and> part_flash_cache f = [Some 0, Some 1, Some 1] \<and> length (device_table f) = 2
      \<and> dev_addr (device_table f ! 0) = 0 \<and> dev_addr (device_table f ! 1) = 0
      \<and> sfud_dev (world f) = Some flash)"

text \<open>
  Initialisation of the flash abstraction layer on this board: with a probed serial flash that is large enough
  for the partition table, \<open>fal_init\<close> reports the three partitions, marks the layer as initialised, finds each
  partition under its name, ties each to its own device and takes over the capacity of the chip.
\<close>

theorem fal_init_board:
  assumes "probed w = Some flash" and "nor_capacity_ok flash"
  shows "\<exists>f. fal_init (board_drivers wr H hclk) fal_part_table (fal_boot w) = Some (3, f)
    \<and> fal_init_check f = 1 \<and> board_tables flash f
    \<and> dev_len (device_table f ! 1) = capacity (chip flash)
    \<and> fal_partition_find f ''app'' = Some 0 \<and> fal_partition_find f ''fdb_kvdb1'' = Some 1
    \<and> fal_partition_find f ''download'' = Some 2 \<and> world f = w\<lparr>sfud_dev := Some flash\<rparr>"
proof -
  have c: "sint (capacity (chip flash)) = int (unat (capacity (chip flash)))"
    using assms(2) sint_small32 [of "capacity (chip flash)"] by (simp add: nor_capacity_ok_def)
  define d where "d = ext_nor_flash0\<lparr>blk_size := erase_gran (chip flash), dev_len := capacity (chip flash)\<rparr>"
  define f1 where "f1 = (fal_boot w)\<lparr>device_table := [hc32_onchip_flash, d], world := w\<lparr>sfud_dev := Some flash\<rparr>, flash_init_ok := True\<rparr>"
  have i: "fal_flash_init (board_drivers wr H hclk) (fal_boot w) = (0, f1)"
    using assms(1) by (simp add: fal_flash_init_def fal_boot_def fal_flash_dev_table_def board_drivers_def nor_port_init_def
        d_def f1_def ext_nor_flash0_def)
  define f2 where "f2 = f1\<lparr>partition_table := fal_part_table, partition_table_len := 3\<rparr>"
  define f3 where "f3 = f2\<lparr>part_flash_cache := [Some 0, Some 1, Some 1]\<rparr>"
  have f: "fal_flash_device_find g ''onchip_flash'' = Some (Some 0)" "fal_flash_device_find g ''norflash0'' = Some (Some 1)"
    if "device_table g = [hc32_onchip_flash, d]" "flash_init_ok g" for g :: "('a, 'b) flash_world fal"
    using that by (simp_all add: fal_flash_device_find_def hc32_onchip_flash_def d_def ext_nor_flash0_def FAL_DEV_NAME_MAX_def)
  have l: "sint (dev_len d) = int (unat (capacity (chip flash)))" "sint (dev_len hc32_onchip_flash) = 524288"
    using c by (simp_all add: d_def hc32_onchip_flash_def)
  have "int 278528 \<le> int (unat (capacity (chip flash)))"
    using assms(2) by (simp only: nor_capacity_ok_def of_nat_le_iff)
  then have u: "\<not> uint (capacity (chip flash)) \<le> 16384" "\<not> uint (capacity (chip flash)) \<le> 0" by simp_all
  have k: "check_and_update_part_cache f2 fal_part_table 3 = Some (0, f3)"
    using l u
    by (simp add: check_and_update_part_cache_def numeral_3_eq_3 fal_part_table_def f f2_def f1_def fal_boot_def f3_def)
  have "fal_partition_init fal_part_table f1 = Some (3, f3\<lparr>part_init_ok := True\<rparr>)"
  proof -
    have g: "f1\<lparr>partition_table := fal_part_table, partition_table_len := length fal_part_table\<rparr> = f2"
      by (simp add: f2_def fal_part_table_def)
    have "\<not> part_init_ok f1" "partition_table f2 = fal_part_table" "partition_table_len f2 = 3" "partition_table_len f3 = 3"
      by (simp_all add: f1_def f2_def f3_def fal_boot_def)
    with k show ?thesis unfolding fal_partition_init_def fal_partition_check_def Let_def g by simp
  qed
  then have "fal_init (board_drivers wr H hclk) fal_part_table (fal_boot w) =
      Some (3, f3\<lparr>part_init_ok := True, fal_init_ok := True\<rparr>)"
    using i by (simp add: fal_init_def f3_def f2_def f1_def fal_boot_def)
  then show ?thesis
    by (auto simp: board_tables_def fal_init_check_def f3_def f2_def f1_def fal_boot_def fal_partition_find_def fal_part_table_def
        d_def ext_nor_flash0_def hc32_onchip_flash_def numeral_3_eq_3)
qed

section \<open>A partition of the serial flash\<close>

definition nor_chip_ok ::
  "sfud_flash \<Rightarrow> 'n spi_wr \<Rightarrow> ('n \<Rightarrow> bytes) \<Rightarrow> ('n \<Rightarrow> bool) \<Rightarrow> ('n \<Rightarrow> nat) \<Rightarrow> bool" where
  "nor_chip_ok flash wr mem wel busy =
     (spi_nor flash wr mem wel busy \<and> erasers_ok flash \<and> unat (smallest_eraser flash) dvd 4096
      \<and> write_mode (chip flash) AND SFUD_WM_PAGE_256B \<noteq> 0 \<and> write_mode (chip flash) AND SFUD_WM_DUAL_BUFFER = 0
      \<and> init_ok flash \<and> nor_capacity_ok flash)"

definition board_idle ::
  "sfud_flash \<Rightarrow> ('n \<Rightarrow> bytes) \<Rightarrow> ('n \<Rightarrow> nat) \<Rightarrow> bytes \<Rightarrow> ('n, 'h) flash_world fal \<Rightarrow> bool" where
  "board_idle flash mem busy m f =
     (board_tables flash f \<and> mem (spi (world f)) = m \<and> busy (spi (world f)) = 0
      \<and> length m = unat (capacity (chip flash)))"

definition part_start :: "nat \<Rightarrow> nat" where
  "part_start part = unat (part_offset (fal_part_table ! part))"

definition part_size :: "nat \<Rightarrow> nat" where
  "part_size part = unat (part_len (fal_part_table ! part))"

definition part_contents :: "nat \<Rightarrow> bytes \<Rightarrow> bytes" where
  "part_contents part m = take (part_size part) (drop (part_start part) m)"

text \<open>The partitions \<open>fdb_kvdb1\<close> and \<open>download\<close> are those of the serial flash.\<close>

definition nor_parts :: "nat set" where
  "nor_parts = {1, 2}"

lemma nor_part_layout:
  assumes "part \<in> nor_parts"
  shows "part < length fal_part_table" "fal_part_table ! part = \<lparr>magic_word = FAL_PART_MAGIC_WORD,
      part_name = part_name (fal_part_table ! part), flash_name = ''norflash0'',
      part_offset = of_nat (part_start part), part_len = of_nat (part_size part)\<rparr>"
    "part_start part + part_size part \<le> 278528"
    "[Some 0, Some 1, Some (1 :: nat)] ! part = Some 1" "4096 dvd part_start part"
  using assms by (auto simp: nor_parts_def fal_part_table_def part_start_def part_size_def)

lemma nor_parts_disjoint:
  assumes "part \<in> nor_parts" and "q \<in> nor_parts" and "q \<noteq> part"
  shows "part_start q + part_size q \<le> part_start part \<or> part_start part + part_size part \<le> part_start q"
  using assms by (auto simp: nor_parts_def fal_part_table_def part_start_def part_size_def)

text \<open>The address arithmetic of an access inside a partition.\<close>

lemma part_access:
  assumes "part \<in> nor_parts" and "unat a + n \<le> part_size part"
  shows "\<not> a + of_nat n > part_len (fal_part_table ! part)"
    and "unat (part_offset (fal_part_table ! part) + a) = part_start part + unat a"
proof -
  have b: "part_start part + part_size part \<le> 278528" by (rule nor_part_layout(3) [OF assms(1)])
  have "unat (a + of_nat n) = unat a + n" using assms(2) b by (simp add: unat_word_ariths unat_of_nat)
  then show "\<not> a + of_nat n > part_len (fal_part_table ! part)"
    using assms(2) by (simp add: part_size_def word_less_nat_alt)
  show "unat (part_offset (fal_part_table ! part) + a) = part_start part + unat a"
    using assms(2) b by (simp add: part_start_def unat_word_ariths)
qed

lemma board_tables_spi [simp]:
  "board_tables flash (f\<lparr>world := (world f)\<lparr>spi := s\<rparr>\<rparr>) = board_tables flash f"
  by (simp add: board_tables_def)

lemma board_find [simp]:
  assumes "board_tables flash f" and "part \<in> nor_parts"
  shows "flash_device_find_by_part f part = Some (Some 1)"
  using assms by (auto simp: board_tables_def flash_device_find_by_part_def nor_parts_def)

lemma part_contents_program:
  assumes "part \<in> nor_parts" and "278528 \<le> length m" and "a + length xs \<le> part_size part"
  shows "part_contents part (nor_program m (part_start part + a) xs) = nor_program (part_contents part m) a xs"
    and "q \<in> nor_parts \<Longrightarrow> q \<noteq> part \<Longrightarrow> part_contents q (nor_program m (part_start part + a) xs) = part_contents q m"
  using slice_nor_program_inside [of a xs "part_size part" "part_start part" m] nor_part_layout(3) [OF assms(1)]
    slice_nor_program_disjoint [of "part_start part + a" xs m "part_start q" "part_size q"] nor_part_layout(3) [of q]
    nor_parts_disjoint [OF assms(1), of q] assms(2,3)
  by (auto simp: part_contents_def)

lemma part_contents_erase:
  assumes "part \<in> nor_parts" and "278528 \<le> length m" and "a + n \<le> part_size part"
  shows "part_contents part (nor_erase m (part_start part + a) n) = nor_erase (part_contents part m) a n"
    and "q \<in> nor_parts \<Longrightarrow> q \<noteq> part \<Longrightarrow> part_contents q (nor_erase m (part_start part + a) n) = part_contents q m"
  using slice_nor_erase_inside [of a n "part_size part" "part_start part" m] nor_part_layout(3) [OF assms(1)]
    slice_nor_erase_disjoint [of "part_start part + a" n m "part_start q" "part_size q"] nor_part_layout(3) [of q]
    nor_parts_disjoint [OF assms(1), of q] assms(2,3)
  by (auto simp: part_contents_def)

lemma fal_partition_read_nor:
  assumes chip: "nor_chip_ok flash wr mem wel busy" and f: "board_idle flash mem busy m f" and part: "part \<in> nor_parts"
    and n: "unat a + n \<le> part_size part" and buf: "n \<le> length buf"
  shows "\<exists>f'. fal_partition_read (board_drivers wr H hclk) part a buf n f
      = Some (int n, patch_at buf 0 (take n (drop (unat a) (part_contents part m))), f') \<and> board_idle flash mem busy m f'"
proof -
  have len: "278528 \<le> length m" using chip f by (simp add: nor_chip_ok_def nor_capacity_ok_def board_idle_def)
  have tab: "board_tables flash f" using f by (simp add: board_idle_def)
  have r: "unat (part_offset (fal_part_table ! part) + a) + n \<le> length (mem (spi (world f)))"
    using part_access(2) [OF part n] n nor_part_layout(3) [OF part] len f by (simp add: board_idle_def)
  from sfud_read_ok [of flash wr mem wel busy "spi (world f)", OF _ _ _ r] chip f
  obtain s where s: "sfud_read flash wr (part_offset (fal_part_table ! part) + a) n (spi (world f))
      = (SFUD_SUCCESS, take n (drop (part_start part + unat a) m), s)" "mem s = m" "busy s = 0"
    using part_access(2) [OF part n] by (auto simp: nor_chip_ok_def board_idle_def)
  have "take n (drop (part_start part + unat a) m) = take n (drop (unat a) (part_contents part m))"
    using n by (simp add: part_contents_def drop_take add.commute)
  with s tab have "fal_partition_read (board_drivers wr H hclk) part a buf n f
      = Some (int n, patch_at buf 0 (take n (drop (unat a) (part_contents part m))), f\<lparr>world := (world f)\<lparr>spi := s\<rparr>\<rparr>)"
    using part_access(1) [OF part n] nor_part_layout(1) [OF part] part buf chip
    by (simp add: fal_partition_read_def Let_def board_drivers_def nor_port_read_def mem_write_def board_tables_def
        board_find [OF tab part] nor_chip_ok_def)
  then show ?thesis using s f by (auto simp: board_idle_def)
qed

lemma fal_partition_write_nor:
  assumes chip: "nor_chip_ok flash wr mem wel busy" and f: "board_idle flash mem busy m f" and part: "part \<in> nor_parts"
    and n: "unat a + length data \<le> part_size part"
  shows "\<exists>f'. fal_partition_write (board_drivers wr H hclk) part a data (length data) f = Some (int (length data), f')
    \<and> board_idle flash mem busy (nor_program m (part_start part + unat a) data) f'"
proof -
  have len: "278528 \<le> length m" using chip f by (simp add: nor_chip_ok_def nor_capacity_ok_def board_idle_def)
  have tab: "board_tables flash f" using f by (simp add: board_idle_def)
  have r: "unat (part_offset (fal_part_table ! part) + a) + length data \<le> length (mem (spi (world f)))"
    using part_access(2) [OF part n] n nor_part_layout(3) [OF part] len f by (simp add: board_idle_def)
  from sfud_write_ok [of flash wr mem wel busy "spi (world f)", OF _ _ _ _ r] chip f
  obtain s where s: "sfud_write flash wr (part_offset (fal_part_table ! part) + a) (length data) data (spi (world f))
      = Some (SFUD_SUCCESS, s)" "mem s = nor_program m (part_start part + unat a) data" "busy s = 0"
    using part_access(2) [OF part n] by (auto simp: nor_chip_ok_def board_idle_def)
  have "fal_partition_write (board_drivers wr H hclk) part a data (length data) f
      = Some (int (length data), f\<lparr>world := (world f)\<lparr>spi := s\<rparr>\<rparr>)"
    using part_access(1) [OF part n] nor_part_layout(1) [OF part] part chip s(1) tab
    by (simp add: fal_partition_write_def Let_def board_drivers_def nor_port_write_def board_tables_def
        board_find [OF tab part] nor_chip_ok_def)
  moreover have "length (nor_program m (part_start part + unat a) data) = length m"
    using n nor_part_layout(3) [OF part] len by simp
  ultimately show ?thesis using s f by (auto simp: board_idle_def)
qed

lemma fal_partition_erase_nor:
  assumes chip: "nor_chip_ok flash wr mem wel busy" and f: "board_idle flash mem busy m f" and part: "part \<in> nor_parts"
    and n: "unat a + n \<le> part_size part" and al: "4096 dvd unat a" "4096 dvd n"
  shows "\<exists>f'. fal_partition_erase (board_drivers wr H hclk) part a n f = Some (int n, f')
    \<and> board_idle flash mem busy (nor_erase m (part_start part + unat a) n) f'"
proof -
  have len: "278528 \<le> length m" using chip f by (simp add: nor_chip_ok_def nor_capacity_ok_def board_idle_def)
  have tab: "board_tables flash f" using f by (simp add: board_idle_def)
  have r: "unat (part_offset (fal_part_table ! part) + a) + n \<le> length (mem (spi (world f)))"
    using part_access(2) [OF part n] n nor_part_layout(3) [OF part] len f by (simp add: board_idle_def)
  have g: "unat (smallest_eraser flash) dvd 4096" using chip by (simp add: nor_chip_ok_def)
  have "4096 dvd part_start part + unat a" using nor_part_layout(5) [OF part] al(1) by simp
  with g al(2) have d: "unat (smallest_eraser flash) dvd part_start part + unat a" "unat (smallest_eraser flash) dvd n"
    by (auto intro: dvd_trans)
  from sfud_erase_ok [of flash wr mem wel busy "spi (world f)", OF _ _ _ _ _ r] chip f d
  obtain s where s: "sfud_erase flash wr (part_offset (fal_part_table ! part) + a) n (spi (world f))
      = Some (SFUD_SUCCESS, s)" "mem s = nor_erase m (part_start part + unat a) n" "busy s = 0"
    using part_access(2) [OF part n] by (auto simp: nor_chip_ok_def board_idle_def)
  have "fal_partition_erase (board_drivers wr H hclk) part a n f = Some (int n, f\<lparr>world := (world f)\<lparr>spi := s\<rparr>\<rparr>)"
    using part_access(1) [OF part n] nor_part_layout(1) [OF part] part chip s(1) tab
    by (simp add: fal_partition_erase_def Let_def board_drivers_def nor_port_erase_def board_tables_def
        board_find [OF tab part] nor_chip_ok_def)
  moreover have "length (nor_erase m (part_start part + unat a) n) = length m"
    using n nor_part_layout(3) [OF part] len by simp
  ultimately show ?thesis using s f by (auto simp: board_idle_def)
qed

text \<open>
  C8: A partition of the serial flash is a NOR flash of its own, through all layers down to the commands on the bus.
  Reading returns a slice of the partition's contents, writing programs the data there, erasing whole blocks erases them,
  each returns the size, and neither writing nor erasing changes a byte of the other partition.
\<close>

theorem fal_partition_refines_nor:
  assumes "nor_chip_ok flash wr mem wel busy" and "board_idle flash mem busy m f" and "part \<in> nor_parts"
    and "unat a + length data \<le> part_size part"
  shows "(\<exists>f'. fal_partition_read (board_drivers wr H hclk) part a (replicate (length data) 0) (length data) f
        = Some (int (length data), take (length data) (drop (unat a) (part_contents part m)), f') \<and> board_idle flash mem busy m f')
    \<and> (\<exists>f' m'. fal_partition_write (board_drivers wr H hclk) part a data (length data) f = Some (int (length data), f')
        \<and> board_idle flash mem busy m' f' \<and> part_contents part m' = nor_program (part_contents part m) (unat a) data
        \<and> (\<forall>q. q \<in> nor_parts \<and> q \<noteq> part \<longrightarrow> part_contents q m' = part_contents q m))
    \<and> (4096 dvd unat a \<and> 4096 dvd length data \<longrightarrow>
      (\<exists>f' m'. fal_partition_erase (board_drivers wr H hclk) part a (length data) f = Some (int (length data), f')
        \<and> board_idle flash mem busy m' f' \<and> part_contents part m' = nor_erase (part_contents part m) (unat a) (length data)
        \<and> (\<forall>q. q \<in> nor_parts \<and> q \<noteq> part \<longrightarrow> part_contents q m' = part_contents q m)))"
proof (intro conjI impI)
  have len: "278528 \<le> length m" using assms(1,2) by (simp add: nor_chip_ok_def nor_capacity_ok_def board_idle_def)
  have "part_size part \<le> length (part_contents part m)"
    using len nor_part_layout(3) [OF assms(3)] by (simp add: part_contents_def)
  then show "\<exists>f'. fal_partition_read (board_drivers wr H hclk) part a (replicate (length data) 0) (length data) f
        = Some (int (length data), take (length data) (drop (unat a) (part_contents part m)), f') \<and> board_idle flash mem busy m f'"
    using fal_partition_read_nor [OF assms, of "replicate (length data) 0"] assms(4) by (simp add: patch_at_def)
  show "\<exists>f' m'. fal_partition_write (board_drivers wr H hclk) part a data (length data) f = Some (int (length data), f')
        \<and> board_idle flash mem busy m' f' \<and> part_contents part m' = nor_program (part_contents part m) (unat a) data
        \<and> (\<forall>q. q \<in> nor_parts \<and> q \<noteq> part \<longrightarrow> part_contents q m' = part_contents q m)"
    using fal_partition_write_nor [OF assms] part_contents_program [OF assms(3) len assms(4)] by blast
  show "\<exists>f' m'. fal_partition_erase (board_drivers wr H hclk) part a (length data) f = Some (int (length data), f')
        \<and> board_idle flash mem busy m' f' \<and> part_contents part m' = nor_erase (part_contents part m) (unat a) (length data)
        \<and> (\<forall>q. q \<in> nor_parts \<and> q \<noteq> part \<longrightarrow> part_contents q m' = part_contents q m)"
    if "4096 dvd unat a \<and> 4096 dvd length data"
    using fal_partition_erase_nor [OF assms] that part_contents_erase [OF assms(3) len assms(4)] by blast
qed

text \<open>The board with the simulated chips, initialised.\<close>

definition sim_board :: "bytes \<Rightarrow> (sim_chip, sim_efm) flash_world fal" where
  "sim_board m =
     \<lparr>device_table = fal_flash_dev_table, flash_init_ok = True, partition_table = fal_part_table, partition_table_len = 3,
      part_flash_cache = [Some 0, Some 1, Some 1], part_init_ok = True, fal_init_ok = True,
      world = \<lparr>spi = \<lparr>sim_mem = m, sim_wel = False, sim_busy = 0\<rparr>, probed = Some (sim_flash 0x80000 4096),
        sfud_dev = Some (sim_flash 0x80000 4096), onchip = sim_efm_of []\<rparr>\<rparr>"

lemma sim_board_ok:
  "nor_chip_ok (sim_flash 0x80000 4096) (sim_wr 4096) sim_mem sim_wel sim_busy"
  "length m = 0x80000 \<Longrightarrow> board_idle (sim_flash 0x80000 4096) sim_mem sim_busy m (sim_board m)"
  using sim_chip_nor [of "0x80000" 4096]
  by (simp_all add: nor_chip_ok_def erasers_ok_def smallest_eraser_def nor_capacity_ok_def SFUD_WM_PAGE_256B_def
      SFUD_WM_DUAL_BUFFER_def board_idle_def board_tables_def sim_board_def fal_flash_dev_table_def ext_nor_flash0_def
      hc32_onchip_flash_def)

theorem fal_partition_refines_nor_witness:
  "\<exists>f' m'. fal_partition_write (board_drivers (sim_wr 4096) sim_efm_ctl 16000000) 2 8 [1, 2, 3] (length [1, 2, 3 :: u8])
        (sim_board (replicate 0x80000 0xFF)) = Some (int (length [1, 2, 3 :: u8]), f')
     \<and> board_idle (sim_flash 0x80000 4096) sim_mem sim_busy m' f'
     \<and> part_contents 2 m' = nor_program (part_contents 2 (replicate 0x80000 0xFF)) (unat (8 :: u32)) [1, 2, 3]
     \<and> (\<forall>q. q \<in> nor_parts \<and> q \<noteq> 2 \<longrightarrow> part_contents q m' = part_contents q (replicate 0x80000 0xFF))"
proof -
  have "2 \<in> nor_parts" "unat (8 :: u32) + length [1, 2, 3 :: u8] \<le> part_size 2"
    by (simp_all add: nor_parts_def part_size_def fal_part_table_def)
  from fal_partition_refines_nor [OF sim_board_ok(1) sim_board_ok(2) this, of "replicate 0x80000 0xFF" sim_efm_ctl 16000000]
  show ?thesis by (simp only: length_replicate)
qed

text \<open>
  C34: Bounds of the flash abstraction layer: an access whose end, the sum of address and size taken modulo 2^32 as the
  code takes it, lies behind the end of the partition is refused by every operation, with any driver, and touches neither the
  buffer nor the devices. This is every access that ends behind its partition and below 2^32; one that ends beyond 2^32 may pass.
\<close>

theorem fal_out_of_bounds_refused:
  assumes "part < length (partition_table f)"
    and "unat (part_len (partition_table f ! part)) < (unat a + n) mod 2 ^ 32"
  shows "fal_partition_read drv part a buf n f = Some (- 1, buf, f)
    \<and> fal_partition_write drv part a data n f = Some (- 1, f) \<and> fal_partition_erase drv part a n f = Some (- 1, f)"
proof -
  have "unat (a + of_nat n) = (unat a + n) mod 2 ^ 32" by (simp add: unat_word_ariths unat_of_nat mod_add_right_eq)
  with assms show ?thesis
    by (simp add: fal_partition_read_def fal_partition_write_def fal_partition_erase_def Let_def word_less_nat_alt)
qed

theorem fal_out_of_bounds_refused_witness:
  "fal_partition_write (board_drivers (sim_wr 4096) sim_efm_ctl 16000000) 1 16380 [1, 2, 3, 4, 5] 5 (sim_board [])
     = Some (- 1, sim_board [])"
  using fal_out_of_bounds_refused [of 1 "sim_board []" 16380 5 _ _ "[1, 2, 3, 4, 5]"]
  by (simp add: sim_board_def fal_part_table_def)

text \<open>
  C35: The bound check can be passed around. The sum of address and size is taken in 32 bits: an address just below
  2^32 with a size that brings the sum back to a small number is accepted, and the access starts in front of
  the partition. A write to \<open>download\<close> at 0xFFFFFFF0 programs the last 16 bytes of the key-value database's partition.
\<close>

theorem fal_bound_check_wraps:
  assumes chip: "nor_chip_ok flash wr mem wel busy" and f: "board_idle flash mem busy m f" and "length data = 32"
  shows "\<exists>f'. fal_partition_write (board_drivers wr H hclk) 2 0xFFFFFFF0 data 32 f = Some (32, f')
    \<and> board_idle flash mem busy (nor_program m (part_start 1 + part_size 1 - 16) data) f'"
proof -
  have len: "278528 \<le> length m" using chip f by (simp add: nor_chip_ok_def nor_capacity_ok_def board_idle_def)
  have tab: "board_tables flash f" using f by (simp add: board_idle_def)
  have r: "unat (16368 :: u32) + length data \<le> length (mem (spi (world f)))"
    using len f assms(3) by (simp add: board_idle_def)
  from sfud_write_ok [of flash wr mem wel busy "spi (world f)", OF _ _ _ _ r] chip f assms(3)
  obtain s where s: "sfud_write flash wr 16368 32 data (spi (world f)) = Some (SFUD_SUCCESS, s)"
    "mem s = nor_program m 16368 data" "busy s = 0"
    by (auto simp: nor_chip_ok_def board_idle_def)
  have p: "2 \<in> nor_parts" "part_start 1 + part_size 1 - 16 = 16368"
    by (simp_all add: nor_parts_def part_start_def part_size_def fal_part_table_def)
  have w: "(4294983664 :: u32) = 16368" by simp
  have "fal_partition_write (board_drivers wr H hclk) 2 0xFFFFFFF0 data 32 f = Some (32, f\<lparr>world := (world f)\<lparr>spi := s\<rparr>\<rparr>)"
    using chip s(1) tab
    by (simp add: fal_partition_write_def Let_def board_drivers_def nor_port_write_def board_tables_def
        board_find [OF tab p(1)] nor_chip_ok_def fal_part_table_def w)
  moreover have "length (nor_program m 16368 data) = length m" using len assms(3) by simp
  ultimately show ?thesis using s f unfolding p(2) by (auto simp: board_idle_def)
qed

theorem fal_bound_check_wraps_witness:
  "\<exists>f'. fal_partition_write (board_drivers (sim_wr 4096) sim_efm_ctl 16000000) 2 0xFFFFFFF0 (replicate 32 0) 32
       (sim_board (replicate 0x80000 0xFF)) = Some (32, f')
     \<and> board_idle (sim_flash 0x80000 4096) sim_mem sim_busy
         (nor_program (replicate 0x80000 0xFF) (part_start 1 + part_size 1 - 16) (replicate 32 0)) f'"
  by (rule fal_bound_check_wraps [OF sim_board_ok(1) sim_board_ok(2)]) simp_all

text \<open>
  A missing serial flash goes unnoticed until the first access. The result of the device's \<open>init\<close> is ignored, so
  \<open>fal_init\<close> reports three partitions and success although no chip was probed; the first read, write or erase of a
  partition on it then runs into the failed assertion of the port, an endless loop.
\<close>

theorem fal_init_without_chip:
  assumes "probed w = None"
  shows "\<exists>f. fal_init (board_drivers wr H hclk) fal_part_table (fal_boot w) = Some (3, f) \<and> fal_init_check f = 1
    \<and> fal_partition_find f ''fdb_kvdb1'' = Some 1
    \<and> fal_partition_read (board_drivers wr H hclk) 1 0 buf 4 f = None
    \<and> fal_partition_write (board_drivers wr H hclk) 1 0 buf 4 f = None
    \<and> fal_partition_erase (board_drivers wr H hclk) 1 0 4096 f = None"
proof -
  have "fal_init (board_drivers wr H hclk) fal_part_table (fal_boot w) =
      Some (3, (fal_boot w)\<lparr>flash_init_ok := True, partition_table := fal_part_table, partition_table_len := 3,
        part_flash_cache := [Some 0, Some 1, Some 1], part_init_ok := True, fal_init_ok := True,
        world := w\<lparr>sfud_dev := None\<rparr>\<rparr>)"
    using assms
    by (simp add: fal_init_def fal_flash_init_def fal_boot_def fal_flash_dev_table_def board_drivers_def nor_port_init_def
        hc32_onchip_flash_def ext_nor_flash0_def fal_partition_init_def fal_partition_check_def check_and_update_part_cache_def fal_part_table_def
        fal_flash_device_find_def FAL_DEV_NAME_MAX_def Let_def numeral_3_eq_3)
  then show ?thesis
    by (simp add: fal_init_check_def fal_partition_find_def fal_part_table_def fal_partition_read_def
        fal_partition_write_def fal_partition_erase_def flash_device_find_by_part_def board_drivers_def Let_def
        nor_port_read_def nor_port_write_def nor_port_erase_def)
qed

theorem fal_init_without_chip_witness:
  "\<exists>f. fal_init (board_drivers (sim_wr 4096) sim_efm_ctl 16000000) fal_part_table
       (fal_boot ((world (sim_board []))\<lparr>probed := None\<rparr>)) = Some (3, f)
     \<and> fal_partition_read (board_drivers (sim_wr 4096) sim_efm_ctl 16000000) 1 0 [] 4 f = None"
  using fal_init_without_chip [of "(world (sim_board []))\<lparr>probed := None\<rparr>" "sim_wr 4096" sim_efm_ctl 16000000 "[]"]
  by auto

theorem fal_init_board_witness:
  "\<exists>f. fal_init (board_drivers (sim_wr 4096) sim_efm_ctl 16000000) fal_part_table (fal_boot (world (sim_board []))) = Some (3, f)
     \<and> fal_partition_find f ''fdb_kvdb1'' = Some 1"
  using fal_init_board [of "world (sim_board [])" "sim_flash 0x80000 4096" "sim_wr 4096" sim_efm_ctl 16000000]
  by (auto simp: sim_board_def nor_capacity_ok_def)

end
