(* ===== verification/Fdb_Utils.thy ===== *)
theory Fdb_Utils
  imports Le_Words Nor_Flash
begin

text \<open>
  FlashDB, the helpers of \<open>fdb_utils.c\<close> and \<open>fdb_low_lvl.h\<close> in this build (\<open>FDB_WRITE_GRAN\<close> 1, FAL mode): the CRC, the
  status bits in flash, the search for the erased tail of a sector, blobs, and the access to the partition. The
  partition is its contents with the operations of theory \<open>Nor_Flash\<close>; theory \<open>Fal_Port\<close> shows that the flash abstraction
  layer and the drivers below it implement these operations. The list \<open>log\<close> of the operations that changed the
  flash is bookkeeping for the theorems about power failures and has no counterpart in the code. Addresses and sizes are
  natural numbers; the few 32-bit subtractions that can wrap around are written with \<open>sub32\<close>.
\<close>

unbundle bit_operations_syntax

section \<open>CRC32\<close>

definition crc32_table :: "u32 list" where
  "crc32_table =
     [0x00000000, 0x77073096, 0xee0e612c, 0x990951ba, 0x076dc419, 0x706af48f, 0xe963a535, 0x9e6495a3,
      0x0edb8832, 0x79dcb8a4, 0xe0d5e91e, 0x97d2d988, 0x09b64c2b, 0x7eb17cbd, 0xe7b82d07, 0x90bf1d91,
      0x1db71064, 0x6ab020f2, 0xf3b97148, 0x84be41de, 0x1adad47d, 0x6ddde4eb, 0xf4d4b551, 0x83d385c7,
      0x136c9856, 0x646ba8c0, 0xfd62f97a, 0x8a65c9ec, 0x14015c4f, 0x63066cd9, 0xfa0f3d63, 0x8d080df5,
      0x3b6e20c8, 0x4c69105e, 0xd56041e4, 0xa2677172, 0x3c03e4d1, 0x4b04d447, 0xd20d85fd, 0xa50ab56b,
      0x35b5a8fa, 0x42b2986c, 0xdbbbc9d6, 0xacbcf940, 0x32d86ce3, 0x45df5c75, 0xdcd60dcf, 0xabd13d59,
      0x26d930ac, 0x51de003a, 0xc8d75180, 0xbfd06116, 0x21b4f4b5, 0x56b3c423, 0xcfba9599, 0xb8bda50f,
      0x2802b89e, 0x5f058808, 0xc60cd9b2, 0xb10be924, 0x2f6f7c87, 0x58684c11, 0xc1611dab, 0xb6662d3d,
      0x76dc4190, 0x01db7106, 0x98d220bc, 0xefd5102a, 0x71b18589, 0x06b6b51f, 0x9fbfe4a5, 0xe8b8d433,
      0x7807c9a2, 0x0f00f934, 0x9609a88e, 0xe10e9818, 0x7f6a0dbb, 0x086d3d2d, 0x91646c97, 0xe6635c01,
      0x6b6b51f4, 0x1c6c6162, 0x856530d8, 0xf262004e, 0x6c0695ed, 0x1b01a57b, 0x8208f4c1, 0xf50fc457,
      0x65b0d9c6, 0x12b7e950, 0x8bbeb8ea, 0xfcb9887c, 0x62dd1ddf, 0x15da2d49, 0x8cd37cf3, 0xfbd44c65,
      0x4db26158, 0x3ab551ce, 0xa3bc0074, 0xd4bb30e2, 0x4adfa541, 0x3dd895d7, 0xa4d1c46d, 0xd3d6f4fb,
      0x4369e96a, 0x346ed9fc, 0xad678846, 0xda60b8d0, 0x44042d73, 0x33031de5, 0xaa0a4c5f, 0xdd0d7cc9,
      0x5005713c, 0x270241aa, 0xbe0b1010, 0xc90c2086, 0x5768b525, 0x206f85b3, 0xb966d409, 0xce61e49f,
      0x5edef90e, 0x29d9c998, 0xb0d09822, 0xc7d7a8b4, 0x59b33d17, 0x2eb40d81, 0xb7bd5c3b, 0xc0ba6cad,
      0xedb88320, 0x9abfb3b6, 0x03b6e20c, 0x74b1d29a, 0xead54739, 0x9dd277af, 0x04db2615, 0x73dc1683,
      0xe3630b12, 0x94643b84, 0x0d6d6a3e, 0x7a6a5aa8, 0xe40ecf0b, 0x9309ff9d, 0x0a00ae27, 0x7d079eb1,
      0xf00f9344, 0x8708a3d2, 0x1e01f268, 0x6906c2fe, 0xf762575d, 0x806567cb, 0x196c3671, 0x6e6b06e7,
      0xfed41b76, 0x89d32be0, 0x10da7a5a, 0x67dd4acc, 0xf9b9df6f, 0x8ebeeff9, 0x17b7be43, 0x60b08ed5,
      0xd6d6a3e8, 0xa1d1937e, 0x38d8c2c4, 0x4fdff252, 0xd1bb67f1, 0xa6bc5767, 0x3fb506dd, 0x48b2364b,
      0xd80d2bda, 0xaf0a1b4c, 0x36034af6, 0x41047a60, 0xdf60efc3, 0xa867df55, 0x316e8eef, 0x4669be79,
      0xcb61b38c, 0xbc66831a, 0x256fd2a0, 0x5268e236, 0xcc0c7795, 0xbb0b4703, 0x220216b9, 0x5505262f,
      0xc5ba3bbe, 0xb2bd0b28, 0x2bb45a92, 0x5cb36a04, 0xc2d7ffa7, 0xb5d0cf31, 0x2cd99e8b, 0x5bdeae1d,
      0x9b64c2b0, 0xec63f226, 0x756aa39c, 0x026d930a, 0x9c0906a9, 0xeb0e363f, 0x72076785, 0x05005713,
      0x95bf4a82, 0xe2b87a14, 0x7bb12bae, 0x0cb61b38, 0x92d28e9b, 0xe5d5be0d, 0x7cdcefb7, 0x0bdbdf21,
      0x86d3d2d4, 0xf1d4e242, 0x68ddb3f8, 0x1fda836e, 0x81be16cd, 0xf6b9265b, 0x6fb077e1, 0x18b74777,
      0x88085ae6, 0xff0f6a70, 0x66063bca, 0x11010b5c, 0x8f659eff, 0xf862ae69, 0x616bffd3, 0x166ccf45,
      0xa00ae278, 0xd70dd2ee, 0x4e048354, 0x3903b3c2, 0xa7672661, 0xd06016f7, 0x4969474d, 0x3e6e77db,
      0xaed16a4a, 0xd9d65adc, 0x40df0b66, 0x37d83bf0, 0xa9bcae53, 0xdebb9ec5, 0x47b2cf7f, 0x30b5ffe9,
      0xbdbdf21c, 0xcabac28a, 0x53b39330, 0x24b4a3a6, 0xbad03605, 0xcdd70693, 0x54de5729, 0x23d967bf,
      0xb3667a2e, 0xc4614ab8, 0x5d681b02, 0x2a6f2b94, 0xb40bbe37, 0xc30c8ea1, 0x5a05df1b, 0x2d02ef8d]"

definition crc32_step :: "u32 \<Rightarrow> u8 \<Rightarrow> u32" where
  "crc32_step crc b = crc32_table ! unat ((crc XOR ucast b) AND 0xFF) XOR drop_bit 8 crc"

definition fdb_calc_crc32 :: "u32 \<Rightarrow> bytes \<Rightarrow> u32" where
  "fdb_calc_crc32 crc buf = foldl crc32_step (crc XOR 0xFFFFFFFF) buf XOR 0xFFFFFFFF"

section \<open>The partition\<close>

datatype fdb_err =
    FDB_NO_ERR | FDB_ERASE_ERR | FDB_READ_ERR | FDB_WRITE_ERR | FDB_PART_NOT_FOUND | FDB_KV_NAME_ERR
  | FDB_KV_NAME_EXIST | FDB_SAVED_FULL | FDB_INIT_FAILED

datatype flash_op = Program nat bytes | Erase nat nat

record flash_part =
  cells :: bytes
  log :: "flash_op list"

definition FDB_BYTE_ERASED :: u8 where "FDB_BYTE_ERASED = 0xFF"
definition FDB_BYTE_WRITTEN :: u8 where "FDB_BYTE_WRITTEN = 0x00"
definition FDB_DATA_UNUSED :: nat where "FDB_DATA_UNUSED = 0xFFFFFFFF"
definition FAILED_ADDR :: nat where "FAILED_ADDR = 0xFFFFFFFF"
definition FDB_WRITE_GRAN :: nat where "FDB_WRITE_GRAN = 1"

definition FDB_ALIGN :: "nat \<Rightarrow> nat \<Rightarrow> nat" where
  "FDB_ALIGN sz align = (sz + align - 1) - ((sz + align - 1) mod align)"

definition FDB_WG_ALIGN :: "nat \<Rightarrow> nat" where
  "FDB_WG_ALIGN sz = FDB_ALIGN sz ((FDB_WRITE_GRAN + 7) div 8)"

definition FDB_ALIGN_DOWN :: "nat \<Rightarrow> nat \<Rightarrow> nat" where
  "FDB_ALIGN_DOWN sz align = sz div align * align"

definition FDB_WG_ALIGN_DOWN :: "nat \<Rightarrow> nat" where
  "FDB_WG_ALIGN_DOWN sz = FDB_ALIGN_DOWN sz ((FDB_WRITE_GRAN + 7) div 8)"

definition FDB_STATUS_TABLE_SIZE :: "nat \<Rightarrow> nat" where
  "FDB_STATUS_TABLE_SIZE status_number = (status_number * FDB_WRITE_GRAN + 7) div 8"

definition sub32 :: "nat \<Rightarrow> nat \<Rightarrow> nat" where
  "sub32 a b = (a + 2 ^ 32 - b) mod 2 ^ 32"

text \<open>
  \<open>None\<close> is a read error: the buffer keeps what it had. The bounds are those of the partition; in the
  32-bit sum of \<open>fal_partition_read\<close> an address near \<open>2 ^ 32\<close> would pass the check, which no
  operation on a well-formed database asks for.
\<close>

definition fdb_flash_read :: "flash_part \<Rightarrow> nat \<Rightarrow> nat \<Rightarrow> bytes option" where
  "fdb_flash_read f addr n = mem_read (cells f) addr n"

definition fdb_flash_erase :: "flash_part \<Rightarrow> nat \<Rightarrow> nat \<Rightarrow> fdb_err \<times> flash_part" where
  "fdb_flash_erase f addr n =
     (if addr + n > length (cells f) then (FDB_ERASE_ERR, f)
      else (FDB_NO_ERR, f\<lparr>cells := nor_erase (cells f) addr n, log := log f @ [Erase addr n]\<rparr>))"

definition fdb_flash_write :: "flash_part \<Rightarrow> nat \<Rightarrow> bytes \<Rightarrow> fdb_err \<times> flash_part" where
  "fdb_flash_write f addr buf =
     (if addr + length buf > length (cells f) then (FDB_WRITE_ERR, f)
      else (FDB_NO_ERR, f\<lparr>cells := nor_program (cells f) addr buf, log := log f @ [Program addr buf]\<rparr>))"

definition fdb_flash_write_align :: "flash_part \<Rightarrow> nat \<Rightarrow> bytes \<Rightarrow> fdb_err \<times> flash_part" where
  "fdb_flash_write_align f addr buf =
     (let n = FDB_WG_ALIGN_DOWN (length buf);
          (result, f) = (if n > 0 then fdb_flash_write f addr (take n buf) else (FDB_NO_ERR, f))
      in if result = FDB_NO_ERR \<and> length buf - n \<noteq> 0
         then fdb_flash_write f (addr + n) (take 1 (drop n buf @ [FDB_BYTE_ERASED]))
         else (result, f))"

section \<open>Status tables\<close>

text \<open>The index of the byte that changes, \<open>None\<close> for the first status, and the table.\<close>

definition fdb_set_status :: "nat \<Rightarrow> nat \<Rightarrow> nat option \<times> bytes" where
  "fdb_set_status status_num status_index =
     (let status_table = replicate (FDB_STATUS_TABLE_SIZE status_num) FDB_BYTE_ERASED
      in if status_index > 0
         then (let byte_index = (status_index - 1) div 8
               in (Some byte_index,
                   status_table[byte_index := status_table ! byte_index AND drop_bit (status_index mod 8) 0xFF]))
         else (None, status_table))"

fun get_status_loop :: "bytes \<Rightarrow> nat \<Rightarrow> nat \<Rightarrow> nat" where
  "get_status_loop status_table 0 i = i"
| "get_status_loop status_table (Suc n) i =
     (if status_table ! (n div 8) AND drop_bit (n mod 8) 0x80 = 0 then i else get_status_loop status_table n (i + 1))"

definition fdb_get_status :: "bytes \<Rightarrow> nat \<Rightarrow> nat" where
  "fdb_get_status status_table status_num = (status_num - 1) - get_status_loop status_table (status_num - 1) 0"

definition fdb_write_status :: "flash_part \<Rightarrow> nat \<Rightarrow> nat \<Rightarrow> nat \<Rightarrow> (fdb_err \<times> flash_part) option" where
  "fdb_write_status f addr status_num status_index =
     (if status_index \<ge> status_num then None
      else
        (case fdb_set_status status_num status_index of
           (None, _) \<Rightarrow> Some (FDB_NO_ERR, f)
         | (Some byte_index, status_table) \<Rightarrow>
             Some (fdb_flash_write f (addr + byte_index) [status_table ! byte_index])))"

text \<open>The result of the read is not checked; after a failed read the table is what was on the caller's stack.\<close>

definition fdb_read_status :: "flash_part \<Rightarrow> nat \<Rightarrow> nat \<Rightarrow> nat option" where
  "fdb_read_status f addr total_num =
     map_option (\<lambda>status_table. fdb_get_status status_table total_num)
       (fdb_flash_read f addr (FDB_STATUS_TABLE_SIZE total_num))"

section \<open>The erased tail\<close>

fun ff_scan :: "bytes \<Rightarrow> nat \<Rightarrow> u8 \<Rightarrow> nat \<Rightarrow> u8 \<times> nat" where
  "ff_scan [] start last_data addr = (last_data, addr)"
| "ff_scan (b # buf) start last_data addr =
     ff_scan buf (start + 1) b (if last_data \<noteq> FDB_BYTE_ERASED \<and> b = FDB_BYTE_ERASED then start else addr)"

function ff_loop :: "flash_part \<Rightarrow> nat \<Rightarrow> nat \<Rightarrow> u8 \<Rightarrow> nat \<Rightarrow> (u8 \<times> nat) option" where
  "ff_loop f start fin last_data addr =
     (if start < fin
      then
        (case fdb_flash_read f start (if start + 32 < fin then 32 else fin - start) of
           None \<Rightarrow> None
         | Some buf \<Rightarrow> (case ff_scan buf start last_data addr of (last_data, addr) \<Rightarrow> ff_loop f (start + 32) fin last_data addr))
      else Some (last_data, addr))"
  by pat_completeness auto
termination
  by (relation "measure (\<lambda>(f, start, fin, last_data, addr). fin - start)") auto

declare ff_loop.simps [simp del]

definition fdb_continue_ff_addr :: "flash_part \<Rightarrow> nat \<Rightarrow> nat \<Rightarrow> nat option" where
  "fdb_continue_ff_addr f start fin =
     (case ff_loop f start fin FDB_BYTE_WRITTEN start of
        None \<Rightarrow> None
      | Some (last_data, addr) \<Rightarrow> Some (if last_data = FDB_BYTE_ERASED then FDB_WG_ALIGN addr else fin))"

section \<open>Blobs\<close>

record fdb_blob =
  blob_buf :: "bytes option"
  blob_size :: nat
  saved_meta_addr :: nat
  saved_addr :: nat
  saved_len :: nat

definition fdb_blob_make :: "fdb_blob \<Rightarrow> bytes option \<Rightarrow> nat \<Rightarrow> fdb_blob" where
  "fdb_blob_make blob value_buf buf_len = blob\<lparr>blob_buf := value_buf, blob_size := buf_len\<rparr>"

definition fdb_blob_read :: "flash_part \<Rightarrow> fdb_blob \<Rightarrow> (nat \<times> fdb_blob) option" where
  "fdb_blob_read f blob =
     (let read_len = (if blob_size blob > saved_len blob then saved_len blob else blob_size blob)
      in case fdb_flash_read f (saved_addr blob) read_len of
           None \<Rightarrow> Some (0, blob)
         | Some xs \<Rightarrow>
             (case blob_buf blob of
                None \<Rightarrow> None
              | Some buf \<Rightarrow> map_option (\<lambda>buf. (read_len, blob\<lparr>blob_buf := Some buf\<rparr>)) (mem_write buf 0 xs)))"

section \<open>The CRC is the CRC-32 of IEEE 802.3\<close>

text \<open>Its definition bit by bit: the polynomial 0x04C11DB7 in reflected form.\<close>

fun crc32_bit :: "u32 \<Rightarrow> u32" where
  "crc32_bit c = (if c AND 1 \<noteq> 0 then drop_bit 1 c XOR 0xEDB88320 else drop_bit 1 c)"

definition crc32_byte :: "u32 \<Rightarrow> u8 \<Rightarrow> u32" where
  "crc32_byte crc b = (crc32_bit ^^ 8) (crc XOR ucast b)"

definition crc32_ieee :: "bytes \<Rightarrow> u32" where
  "crc32_ieee xs = foldl crc32_byte 0xFFFFFFFF xs XOR 0xFFFFFFFF"

lemma crc32_bits8: "(crc32_bit ^^ 8) c = crc32_bit (crc32_bit (crc32_bit (crc32_bit (crc32_bit (crc32_bit (crc32_bit (crc32_bit c)))))))"
  by (simp add: eval_nat_numeral)

fun crc32_rows :: "u32 \<Rightarrow> u32 list \<Rightarrow> bool" where
  "crc32_rows i [] = True"
| "crc32_rows i (v # vs) = ((crc32_bit ^^ 8) i = v \<and> crc32_rows (i + 1) vs)"

lemma crc32_table_rows: "crc32_rows 0 crc32_table"
  unfolding crc32_table_def by (simp add: crc32_bits8)

lemma length_crc32_table: "length crc32_table = 256"
  unfolding crc32_table_def by simp

lemma crc32_rows_nth: "crc32_rows i vs \<Longrightarrow> j < length vs \<Longrightarrow> vs ! j = (crc32_bit ^^ 8) (i + of_nat j)"
  by (induction i vs arbitrary: j rule: crc32_rows.induct) (auto simp: nth_Cons' algebra_simps)

lemma crc32_table_nth: "j < 256 \<Longrightarrow> crc32_table ! j = (crc32_bit ^^ 8) (of_nat j)"
  using crc32_rows_nth [OF crc32_table_rows] by (simp add: length_crc32_table)

lemma crc32_bit_alt: "crc32_bit c = drop_bit 1 c XOR (if bit c 0 then 0xEDB88320 else 0)"
  by (simp add: and_one_eq bit_0 odd_iff_mod_2_eq_one)

declare crc32_bit.simps [simp del]

lemma crc32_bit_xor: "crc32_bit (a XOR b) = crc32_bit a XOR crc32_bit b"
  unfolding crc32_bit_alt by (auto simp: drop_bit_xor bit_xor_iff ac_simps)

lemma crc32_bits_xor: "(crc32_bit ^^ n) (a XOR b) = (crc32_bit ^^ n) a XOR (crc32_bit ^^ n) b"
  by (induction n) (simp_all add: crc32_bit_xor)

lemma crc32_bits_zero: "take_bit n c = 0 \<Longrightarrow> (crc32_bit ^^ n) c = drop_bit n c"
proof (induction n arbitrary: c)
  case 0
  then show ?case by simp
next
  case (Suc n)
  have "\<not> bit (take_bit (Suc n) c) 0" unfolding Suc.prems by simp
  then have "\<not> bit c 0" by (simp add: bit_take_bit_iff)
  then have s: "crc32_bit c = drop_bit 1 c" by (simp add: crc32_bit_alt)
  have "take_bit n (drop_bit 1 c) = drop_bit 1 (take_bit (Suc n) c)"
    by (simp add: drop_bit_take_bit)
  then have "take_bit n (drop_bit 1 c) = 0" using Suc.prems by simp
  from Suc.IH [OF this] have "(crc32_bit ^^ n) (crc32_bit c) = drop_bit (Suc n) c" by (simp add: s)
  then show ?case by (simp only: funpow_Suc_right o_apply)
qed

lemma crc32_step_byte: "crc32_step crc b = crc32_byte crc b"
proof -
  define x where "x = crc XOR ucast b"
  have m: "x AND 0xFF = take_bit 8 x" by (simp add: take_bit_eq_mask mask_eq_exp_minus_1)
  define h where "h = x XOR (x AND 0xFF)"
  have x: "x = (x AND 0xFF) XOR h" by (rule bit_word_eqI) (auto simp: h_def bit_xor_iff)
  have hb: "bit h n \<longleftrightarrow> bit x n \<and> 8 \<le> n" for n
    unfolding h_def m by (auto simp: bit_xor_iff bit_take_bit_iff)
  have "take_bit 8 h = 0"
    by (rule bit_word_eqI) (auto simp: bit_take_bit_iff hb)
  then have "(crc32_bit ^^ 8) h = drop_bit 8 h" by (rule crc32_bits_zero)
  moreover have "drop_bit 8 h = drop_bit 8 crc"
    by (rule bit_word_eqI) (auto simp: bit_drop_bit_eq hb x_def bit_xor_iff bit_ucast_iff dest: bit_imp_le_length)
  moreover have "unat (x AND 0xFF) < 256"
  proof -
    have "unat (x AND 0xFF) = take_bit 8 (unat x)" unfolding m by (simp add: unsigned_take_bit_eq)
    then show ?thesis using take_bit_nat_less_exp [of 8 "unat x"] by simp
  qed
  then have "crc32_table ! unat (x AND 0xFF) = (crc32_bit ^^ 8) (x AND 0xFF)"
    using crc32_table_nth by simp
  moreover have "(crc32_bit ^^ 8) x = (crc32_bit ^^ 8) (x AND 0xFF) XOR (crc32_bit ^^ 8) h"
    by (simp only: crc32_bits_xor [symmetric] x [symmetric])
  ultimately show ?thesis unfolding crc32_step_def crc32_byte_def x_def [symmetric] by simp
qed

lemma fdb_calc_crc32_append: "fdb_calc_crc32 (fdb_calc_crc32 c xs) ys = fdb_calc_crc32 c (xs @ ys)"
  by (simp add: fdb_calc_crc32_def xor.assoc)

lemma fdb_calc_crc32_Nil [simp]: "fdb_calc_crc32 c [] = c"
  by (simp add: fdb_calc_crc32_def xor.assoc)

lemma xor_right_inj: "(a :: 'a::len word) XOR b = a XOR c \<longleftrightarrow> b = c"
  by (metis xor.assoc xor_self_eq xor.left_neutral)

lemma xor_left_inj: "(b :: 'a::len word) XOR a = c XOR a \<longleftrightarrow> b = c"
  by (metis xor.commute xor_right_inj)

lemma crc32_bit_inj: "crc32_bit a = crc32_bit b \<Longrightarrow> a = b"
proof -
  assume eq: "crc32_bit a = crc32_bit b"
  have p: "bit (0xEDB88320 :: u32) 31" by simp
  have "bit (crc32_bit c) 31 \<longleftrightarrow> bit c 0" for c
    using bit_imp_le_length [of c 32] p by (auto simp: crc32_bit_alt bit_xor_iff bit_drop_bit_eq)
  then have z: "bit a 0 \<longleftrightarrow> bit b 0" using eq by metis
  then have "drop_bit 1 a = drop_bit 1 b" using eq by (auto simp: crc32_bit_alt xor_left_inj)
  then have "bit a (Suc n) \<longleftrightarrow> bit b (Suc n)" for n
    using bit_drop_bit_eq [of 1 a] bit_drop_bit_eq [of 1 b] by (metis comp_apply plus_1_eq_Suc)
  with z show "a = b" by (intro bit_word_eqI) (metis not0_implies_Suc)
qed

lemma crc32_bits_inj: "(crc32_bit ^^ n) a = (crc32_bit ^^ n) b \<Longrightarrow> a = b"
  by (induction n) (auto dest: crc32_bit_inj)

lemma crc32_byte_inj: "crc32_byte a x = crc32_byte b x \<Longrightarrow> a = b"
  unfolding crc32_byte_def by (drule crc32_bits_inj) (metis xor_right_inj xor.commute)

lemma crc32_byte_inj2: "crc32_byte a x = crc32_byte a y \<Longrightarrow> x = y"
proof -
  assume "crc32_byte a x = crc32_byte a y"
  then have "(ucast x :: u32) = ucast y"
    unfolding crc32_byte_def by (auto dest!: crc32_bits_inj simp: xor_right_inj)
  then have "unat (ucast x :: u32) = unat (ucast y :: u32)" by simp
  moreover have "unat (ucast z :: u32) = unat z" for z :: u8
    using unsigned_less [of z, where 'a = nat] by (simp add: unsigned_ucast_eq take_bit_nat_eq_self)
  ultimately show "x = y" by (simp add: word_unat_eq_iff)
qed

lemma crc32_bytes_inj: "foldl crc32_byte a xs = foldl crc32_byte b xs \<Longrightarrow> a = b"
  by (induction xs arbitrary: a b) (auto dest: crc32_byte_inj)

lemma fdb_calc_crc32_ieee: "fdb_calc_crc32 0 xs = crc32_ieee xs"
  by (simp add: fdb_calc_crc32_def crc32_ieee_def crc32_step_byte [abs_def])

lemma crc32_single_byte:
  assumes "x \<noteq> y"
  shows "fdb_calc_crc32 c (xs @ x # ys) \<noteq> fdb_calc_crc32 c (xs @ y # ys)"
proof
  assume "fdb_calc_crc32 c (xs @ x # ys) = fdb_calc_crc32 c (xs @ y # ys)"
  then have "foldl crc32_byte (crc32_byte (foldl crc32_byte (c XOR 0xFFFFFFFF) xs) x) ys =
      foldl crc32_byte (crc32_byte (foldl crc32_byte (c XOR 0xFFFFFFFF) xs) y) ys"
    by (simp add: fdb_calc_crc32_def crc32_step_byte [abs_def]) (metis xor_right_inj xor.commute)
  with assms show False by (auto dest!: crc32_bytes_inj crc32_byte_inj2)
qed

section \<open>Status bytes\<close>

definition status_byte :: "nat \<Rightarrow> u8" where
  "status_byte i = drop_bit i 0xFF"

lemma bit_status_byte: "bit (status_byte i) n \<longleftrightarrow> i + n < 8"
proof -
  have "status_byte i = drop_bit i (mask 8)" by (simp add: status_byte_def mask_eq_exp_minus_1)
  moreover have "bit (mask 8 :: u8) k \<longleftrightarrow> k < 8" for k
    using bit_mask_iff [of 8 k, where 'a = u8] bit_imp_le_length [of "mask 8 :: u8" k] by auto
  ultimately show ?thesis by (simp only: bit_drop_bit_eq o_apply)
qed

lemma and_status_byte: "status_byte i AND status_byte j = status_byte (max i j)"
  by (rule bit_word_eqI) (auto simp: bit_and_iff bit_status_byte)

lemma set_status_byte:
  assumes "i < n" and "n \<le> 8"
  shows "fdb_set_status n i = (if i = 0 then None else Some 0, [status_byte i])"
proof -
  have "FDB_STATUS_TABLE_SIZE n = 1" using assms by (simp add: FDB_STATUS_TABLE_SIZE_def FDB_WRITE_GRAN_def)
  moreover have "(i - 1) div 8 = 0" "i mod 8 = i" using assms by simp_all
  ultimately show ?thesis by (simp add: fdb_set_status_def FDB_BYTE_ERASED_def status_byte_def Let_def)
qed

lemma get_status_byte_loop:
  assumes "i \<le> m" and "m \<le> 7"
  shows "get_status_loop [status_byte i] m k = k + (m - i)"
  using assms
proof (induction m arbitrary: k)
  case 0
  then show ?case by simp
next
  case (Suc m)
  have "m \<in> {0, 1, 2, 3, 4, 5, 6}" using Suc.prems by auto
  moreover have "i \<in> {0, 1, 2, 3, 4, 5, 6, 7}" using Suc.prems by auto
  ultimately have "status_byte i AND drop_bit m 0x80 = 0 \<longleftrightarrow> m < i"
    by (auto simp: status_byte_def)
  moreover have "m div 8 = 0" "m mod 8 = m" using Suc.prems by simp_all
  ultimately show ?case using Suc by (cases "i = Suc m") auto
qed

lemma get_status_byte:
  assumes "i < n" and "n \<le> 8"
  shows "fdb_get_status [status_byte i] n = i"
  using get_status_byte_loop [of i "n - 1" 0] assms by (simp add: fdb_get_status_def)

section \<open>The search for the erased tail\<close>

lemma ff_scan_append:
  "ff_scan (xs @ ys) s l a = (case ff_scan xs s l a of (l, a) \<Rightarrow> ff_scan ys (s + length xs) l a)"
  by (induction xs arbitrary: s l a) simp_all

lemma ff_loop_scan:
  assumes "fin \<le> length (cells f)" and "start \<le> fin"
  shows "ff_loop f start fin l a = Some (ff_scan (take (fin - start) (drop start (cells f))) start l a)"
  using assms
proof (induction "fin - start" arbitrary: start l a rule: less_induct)
  case less
  show ?case
  proof (cases "start < fin")
    case False
    then show ?thesis by (subst ff_loop.simps) simp
  next
    case True
    define n where "n = (if start + 32 < fin then 32 else fin - start)"
    let ?xs = "take n (drop start (cells f))"
    have n: "start + n \<le> fin" "0 < n" using True by (auto simp: n_def)
    have r: "fdb_flash_read f start n = Some ?xs"
      using n less.prems by (simp add: fdb_flash_read_def mem_read_def)
    obtain l' a' where s: "ff_scan ?xs start l a = (l', a')" by force
    have step: "ff_loop f start fin l a = ff_loop f (start + 32) fin l' a'"
      using True r s by (subst ff_loop.simps) (simp add: n_def [symmetric])
    show ?thesis
    proof (cases "start + 32 < fin")
      case True
      then have "n = 32" by (simp add: n_def)
      have "ff_loop f (start + 32) fin l' a' =
          Some (ff_scan (take (fin - (start + 32)) (drop (start + 32) (cells f))) (start + 32) l' a')"
        by (rule less.hyps) (use True less.prems in auto)
      moreover have "take (fin - start) (drop start (cells f)) =
          ?xs @ take (fin - (start + 32)) (drop (start + 32) (cells f))"
        using True \<open>n = 32\<close> take_add [of 32 "fin - (start + 32)" "drop start (cells f)"] by (simp add: add.commute)
      moreover have "length ?xs = 32" using n less.prems \<open>n = 32\<close> by simp
      ultimately show ?thesis using s step by (simp add: ff_scan_append)
    next
      case False
      then have "n = fin - start" by (simp add: n_def)
      moreover have "ff_loop f (start + 32) fin l' a' = Some (l', a')" using False by (subst ff_loop.simps) simp
      ultimately show ?thesis using s step by simp
    qed
  qed
qed

lemma ff_scan_tail:
  assumes "ff_scan xs s FDB_BYTE_WRITTEN s = (l, a)"
  shows "l = (if xs = [] then FDB_BYTE_WRITTEN else last xs)
    \<and> (l = FDB_BYTE_ERASED \<longrightarrow> s \<le> a \<and> a < s + length xs
         \<and> (\<forall>i. a - s \<le> i \<and> i < length xs \<longrightarrow> xs ! i = FDB_BYTE_ERASED) \<and> (a = s \<or> xs ! (a - s - 1) \<noteq> FDB_BYTE_ERASED))"
  using assms
proof (induction xs arbitrary: l a rule: rev_induct)
  case Nil
  then show ?case by (auto simp: FDB_BYTE_WRITTEN_def FDB_BYTE_ERASED_def)
next
  case (snoc b xs)
  obtain l' a' where s: "ff_scan xs s FDB_BYTE_WRITTEN s = (l', a')" by force
  have IH: "l' = (if xs = [] then FDB_BYTE_WRITTEN else last xs)"
    "l' = FDB_BYTE_ERASED \<Longrightarrow> s \<le> a' \<and> a' < s + length xs
         \<and> (\<forall>i. a' - s \<le> i \<and> i < length xs \<longrightarrow> xs ! i = FDB_BYTE_ERASED) \<and> (a' = s \<or> xs ! (a' - s - 1) \<noteq> FDB_BYTE_ERASED)"
    using snoc.IH [OF s] by auto
  have la: "l = b" "a = (if l' \<noteq> FDB_BYTE_ERASED \<and> b = FDB_BYTE_ERASED then s + length xs else a')"
    using snoc.prems s by (auto simp: ff_scan_append)
  show ?case
  proof (cases "l' = FDB_BYTE_ERASED")
    case True
    with IH(2) la show ?thesis by (auto simp: nth_append)
  next
    case False
    with IH(1) la show ?thesis
      by (auto simp: nth_append last_conv_nth split: if_splits)
  qed
qed

section \<open>Properties\<close>

lemma FDB_WG_ALIGN_id [simp]: "FDB_WG_ALIGN n = n"
  by (simp add: FDB_WG_ALIGN_def FDB_ALIGN_def FDB_WRITE_GRAN_def)

lemma FDB_WG_ALIGN_DOWN_id [simp]: "FDB_WG_ALIGN_DOWN n = n"
  by (simp add: FDB_WG_ALIGN_DOWN_def FDB_ALIGN_DOWN_def FDB_WRITE_GRAN_def)

text \<open>
  C20: The checksum of the database is the CRC-32 of IEEE 802.3: the byte-wise computation with the table of 256 entries
  gives, for every message and also when it is fed in pieces, what the bit-wise definition gives.
\<close>

theorem fdb_crc32_ieee: "fdb_calc_crc32 (fdb_calc_crc32 0 xs) ys = crc32_ieee (xs @ ys)"
  unfolding fdb_calc_crc32_append by (rule fdb_calc_crc32_ieee)

text \<open>
  C21: The checksum sees every error that is confined to one byte: messages that differ in exactly one byte have
  different checksums, whatever the start value.
\<close>

theorem fdb_crc32_detects_byte_error:
  assumes "length xs = length ys" and "i < length xs" and "xs ! i \<noteq> ys ! i"
    and "\<forall>j. j < length xs \<and> j \<noteq> i \<longrightarrow> xs ! j = ys ! j"
  shows "fdb_calc_crc32 c xs \<noteq> fdb_calc_crc32 c ys"
proof -
  have "take i xs = take i ys" "drop (Suc i) xs = drop (Suc i) ys"
    using assms by (auto intro!: nth_equalityI)
  moreover have "xs = take i xs @ xs ! i # drop (Suc i) xs" "ys = take i ys @ ys ! i # drop (Suc i) ys"
    using assms(1,2) by (simp_all add: id_take_nth_drop)
  ultimately show ?thesis using crc32_single_byte [OF assms(3)] by metis
qed

theorem fdb_crc32_detects_byte_error_witness: "fdb_calc_crc32 0 [1, 2, 3] \<noteq> fdb_calc_crc32 0 [1, 7, 3]"
  by (rule fdb_crc32_detects_byte_error [of _ _ 1]) (auto simp: less_Suc_eq)

text \<open>
  Status values only move forward, and are read back. Writing status \<open>j\<close> where the flash holds status \<open>i\<close> succeeds
  and leaves the larger of the two, since a program operation only clears bits; no interrupted or repeated write can
  bring an earlier status back.
\<close>

theorem fdb_status_forward:
  assumes "i < n" and "j < n" and "n \<le> 8" and "addr < length (cells f)" and "cells f ! addr = status_byte i"
  shows "\<exists>f'. fdb_write_status f addr n j = Some (FDB_NO_ERR, f') \<and> fdb_read_status f' addr n = Some (max i j)
    \<and> (\<forall>k. k < length (cells f) \<and> k \<noteq> addr \<longrightarrow> cells f' ! k = cells f ! k)"
proof -
  have ts: "FDB_STATUS_TABLE_SIZE n = 1" using assms(1,3) by (simp add: FDB_STATUS_TABLE_SIZE_def FDB_WRITE_GRAN_def)
  have rd: "fdb_read_status g addr n = Some (fdb_get_status [cells g ! addr] n)" if "addr < length (cells g)" for g
    using that ts by (simp add: fdb_read_status_def fdb_flash_read_def mem_read_def take_Suc_conv_app_nth hd_drop_conv_nth take_Suc)
  show ?thesis
  proof (cases "j = 0")
    case True
    then show ?thesis
      using assms rd [of f] set_status_byte [of 0 n] get_status_byte [of i n] by (simp add: fdb_write_status_def)
  next
    case False
    define f' where "f' = f\<lparr>cells := nor_program (cells f) addr [status_byte j], log := log f @ [Program addr [status_byte j]]\<rparr>"
    have c: "cells f' ! addr = status_byte (max i j)" "length (cells f') = length (cells f)"
      using assms(4,5) by (simp_all add: f'_def nth_nor_program and_status_byte)
    have "fdb_write_status f addr n j = Some (FDB_NO_ERR, f')"
      using False assms(2,3,4) set_status_byte [of j n] by (simp add: fdb_write_status_def fdb_flash_write_def f'_def)
    moreover have "fdb_read_status f' addr n = Some (max i j)"
      using rd [of f'] c assms(1,2,3,4) get_status_byte [of "max i j" n] by simp
    ultimately show ?thesis using assms(4) by (auto simp: f'_def nth_nor_program)
  qed
qed

theorem fdb_status_forward_witness:
  "\<exists>f'. fdb_write_status \<lparr>cells = [0x7F], log = []\<rparr> 0 6 2 = Some (FDB_NO_ERR, f') \<and> fdb_read_status f' 0 6 = Some (max 1 2)"
  using fdb_status_forward [of 1 6 2 0 "\<lparr>cells = [0x7F], log = []\<rparr>"] by (auto simp: status_byte_def)

text \<open>
  The search for the end of the data finds the erased tail: the address it returns lies in the given range,
  everything from there to the end is erased, and it is the first such address.
\<close>

theorem fdb_continue_ff_correct:
  assumes "start \<le> fin" and "fin \<le> length (cells f)"
  shows "\<exists>r. fdb_continue_ff_addr f start fin = Some r \<and> start \<le> r \<and> r \<le> fin
    \<and> (\<forall>i. r \<le> i \<and> i < fin \<longrightarrow> cells f ! i = FDB_BYTE_ERASED) \<and> (r = start \<or> cells f ! (r - 1) \<noteq> FDB_BYTE_ERASED)"
proof -
  define xs where "xs = take (fin - start) (drop start (cells f))"
  have len: "length xs = fin - start" using assms by (simp add: xs_def)
  have nth: "xs ! k = cells f ! (start + k)" if "k < fin - start" for k using that assms by (simp add: xs_def)
  obtain l a where s: "ff_scan xs start FDB_BYTE_WRITTEN start = (l, a)" by force
  have r: "fdb_continue_ff_addr f start fin = Some (if l = FDB_BYTE_ERASED then a else fin)"
    using ff_loop_scan [OF assms(2,1), of FDB_BYTE_WRITTEN start] s by (simp add: fdb_continue_ff_addr_def xs_def)
  note t = ff_scan_tail [OF s]
  show ?thesis
  proof (cases "l = FDB_BYTE_ERASED")
    case True
    with t have a: "start \<le> a" "a < start + length xs"
      and e: "\<And>i. a - start \<le> i \<Longrightarrow> i < length xs \<Longrightarrow> xs ! i = FDB_BYTE_ERASED"
      and p: "a = start \<or> xs ! (a - start - 1) \<noteq> FDB_BYTE_ERASED" by blast+
    have "cells f ! i = FDB_BYTE_ERASED" if "a \<le> i" "i < fin" for i
      using e [of "i - start"] nth [of "i - start"] that a(1) len by simp
    moreover have "a = start \<or> cells f ! (a - 1) \<noteq> FDB_BYTE_ERASED"
      using p nth [of "a - start - 1"] a len by auto
    ultimately show ?thesis using r True a len by auto
  next
    case False
    have "fin = start \<or> cells f ! (fin - 1) \<noteq> FDB_BYTE_ERASED"
    proof (cases "xs = []")
      case True
      with len assms show ?thesis by simp
    next
      case ne: False
      with t False have "last xs \<noteq> FDB_BYTE_ERASED" by simp
      moreover have "0 < fin - start" using ne len by (cases xs) auto
      moreover have "start + (fin - start - 1) = fin - 1" using \<open>0 < fin - start\<close> by simp
      ultimately show ?thesis using ne nth [of "fin - start - 1"] len by (simp add: last_conv_nth)
    qed
    with r False assms show ?thesis by auto
  qed
qed

theorem fdb_continue_ff_correct_witness:
  "\<exists>r. fdb_continue_ff_addr \<lparr>cells = [1, 0xFF, 2, 0xFF, 0xFF], log = []\<rparr> 0 5 = Some r \<and> r \<le> 5"
  using fdb_continue_ff_correct [of 0 5 "\<lparr>cells = [1, 0xFF, 2, 0xFF, 0xFF], log = []\<rparr>"] by auto

end
