(* ===== verification/Fdb_Kvdb.thy ===== *)
theory Fdb_Kvdb
  imports Fdb_Utils
begin

text \<open>
  The key-value database of FlashDB (\<open>fdb_kvdb.c\<close>, and \<open>fdb.c\<close>) with both caches, as it is compiled for this board: one
  status bit per write, FAL mode, no automatic update. The database lives in sectors of \<open>sec_size\<close> bytes, each with
  a header and a sequence of records (status byte, magic word, length, CRC, name and value). The parameters that
  initialisation fixes are the record \<open>fdb_cfg\<close>, everything else is the state \<open>fdb_kvdb\<close>. Keys are C strings without
  their terminating zero. \<open>None\<close> stands for a failed assertion, for an access outside a buffer and for the use of a
  buffer that a failed read has left uninitialised. The lock functions and log output are left out. Structures that
  are uninitialised on the C stack are arguments here.
\<close>

unbundle bit_operations_syntax

section \<open>Constants and data\<close>

definition SECTOR_MAGIC_WORD :: u32 where "SECTOR_MAGIC_WORD = 0x30424446"
definition KV_MAGIC_WORD :: u32 where "KV_MAGIC_WORD = 0x3030564B"
definition SECTOR_NOT_COMBINED :: u32 where "SECTOR_NOT_COMBINED = 0xFFFFFFFF"
definition SECTOR_COMBINED :: u32 where "SECTOR_COMBINED = 0x00000000"
definition FDB_KV_NAME_MAX :: nat where "FDB_KV_NAME_MAX = 64"
definition FDB_KV_CACHE_TABLE_SIZE :: nat where "FDB_KV_CACHE_TABLE_SIZE = 64"
definition FDB_SECTOR_CACHE_TABLE_SIZE :: nat where "FDB_SECTOR_CACHE_TABLE_SIZE = 8"
definition FDB_GC_EMPTY_SEC_THRESHOLD :: nat where "FDB_GC_EMPTY_SEC_THRESHOLD = 1"
definition FDB_STR_KV_VALUE_MAX_SIZE :: nat where "FDB_STR_KV_VALUE_MAX_SIZE = 128"
definition SECTOR_HDR_DATA_SIZE :: nat where "SECTOR_HDR_DATA_SIZE = FDB_WG_ALIGN 16"
definition SECTOR_DIRTY_OFFSET :: nat where "SECTOR_DIRTY_OFFSET = 1"
definition KV_HDR_DATA_SIZE :: nat where "KV_HDR_DATA_SIZE = FDB_WG_ALIGN 24"
definition KV_MAGIC_OFFSET :: nat where "KV_MAGIC_OFFSET = 4"
definition FDB_SEC_REMAIN_THRESHOLD :: nat where "FDB_SEC_REMAIN_THRESHOLD = KV_HDR_DATA_SIZE + FDB_KV_NAME_MAX"

definition FDB_KV_STATUS_NUM :: nat where "FDB_KV_STATUS_NUM = 6"
definition FDB_KV_UNUSED :: nat where "FDB_KV_UNUSED = 0"
definition FDB_KV_PRE_WRITE :: nat where "FDB_KV_PRE_WRITE = 1"
definition FDB_KV_WRITE :: nat where "FDB_KV_WRITE = 2"
definition FDB_KV_PRE_DELETE :: nat where "FDB_KV_PRE_DELETE = 3"
definition FDB_KV_DELETED :: nat where "FDB_KV_DELETED = 4"
definition FDB_KV_ERR_HDR :: nat where "FDB_KV_ERR_HDR = 5"
definition FDB_SECTOR_STORE_STATUS_NUM :: nat where "FDB_SECTOR_STORE_STATUS_NUM = 4"
definition FDB_SECTOR_STORE_UNUSED :: nat where "FDB_SECTOR_STORE_UNUSED = 0"
definition FDB_SECTOR_STORE_EMPTY :: nat where "FDB_SECTOR_STORE_EMPTY = 1"
definition FDB_SECTOR_STORE_USING :: nat where "FDB_SECTOR_STORE_USING = 2"
definition FDB_SECTOR_STORE_FULL :: nat where "FDB_SECTOR_STORE_FULL = 3"
definition FDB_SECTOR_DIRTY_STATUS_NUM :: nat where "FDB_SECTOR_DIRTY_STATUS_NUM = 4"
definition FDB_SECTOR_DIRTY_UNUSED :: nat where "FDB_SECTOR_DIRTY_UNUSED = 0"
definition FDB_SECTOR_DIRTY_FALSE :: nat where "FDB_SECTOR_DIRTY_FALSE = 1"
definition FDB_SECTOR_DIRTY_TRUE :: nat where "FDB_SECTOR_DIRTY_TRUE = 2"
definition FDB_SECTOR_DIRTY_GC :: nat where "FDB_SECTOR_DIRTY_GC = 3"

lemmas kvdb_consts =
  FDB_KV_NAME_MAX_def FDB_KV_CACHE_TABLE_SIZE_def FDB_SECTOR_CACHE_TABLE_SIZE_def FDB_GC_EMPTY_SEC_THRESHOLD_def
  SECTOR_HDR_DATA_SIZE_def SECTOR_DIRTY_OFFSET_def KV_HDR_DATA_SIZE_def KV_MAGIC_OFFSET_def FDB_SEC_REMAIN_THRESHOLD_def
  FDB_KV_STATUS_NUM_def FDB_KV_UNUSED_def FDB_KV_PRE_WRITE_def FDB_KV_WRITE_def FDB_KV_PRE_DELETE_def FDB_KV_DELETED_def
  FDB_KV_ERR_HDR_def FDB_SECTOR_STORE_STATUS_NUM_def FDB_SECTOR_STORE_UNUSED_def FDB_SECTOR_STORE_EMPTY_def
  FDB_SECTOR_STORE_USING_def FDB_SECTOR_STORE_FULL_def FDB_SECTOR_DIRTY_STATUS_NUM_def FDB_SECTOR_DIRTY_UNUSED_def
  FDB_SECTOR_DIRTY_FALSE_def FDB_SECTOR_DIRTY_TRUE_def FDB_SECTOR_DIRTY_GC_def FAILED_ADDR_def FDB_DATA_UNUSED_def

record fdb_kv =
  kv_status :: nat
  crc_is_ok :: bool
  name_len :: nat
  kv_len :: nat
  value_len :: nat
  kv_name :: bytes
  addr_start :: nat
  addr_value :: nat

record kvdb_sec_info =
  check_ok :: bool
  store_status :: nat
  dirty_status :: nat
  sec_addr :: nat
  sec_magic :: u32
  combined :: u32
  remain :: nat
  empty_kv :: nat

record kv_cache_node =
  name_crc :: u16
  active :: nat
  cache_addr :: nat

record fdb_default_kv_node =
  def_key :: bytes
  def_value :: bytes
  def_value_len :: nat

record fdb_cfg =
  sec_size :: nat
  max_size :: nat
  not_formatable :: bool

record fdb_kvdb =
  flash :: flash_part
  oldest_addr :: nat
  db_init_ok :: bool
  default_kvs :: "fdb_default_kv_node list"
  gc_request :: bool
  in_recovery_check :: bool
  cur_kv :: fdb_kv
  cur_sector :: kvdb_sec_info
  last_is_complete_del :: bool
  kv_cache_table :: "kv_cache_node list"
  sector_cache_table :: "kvdb_sec_info list"

text \<open>The status is written through the cache-free helper; its result is paired with the database.\<close>

definition db_write_status :: "nat \<Rightarrow> nat \<Rightarrow> nat \<Rightarrow> fdb_kvdb \<Rightarrow> (fdb_err \<times> fdb_kvdb) option" where
  "db_write_status addr status_num status_index db =
     map_option (\<lambda>(r, f). (r, db\<lparr>flash := f\<rparr>)) (fdb_write_status (flash db) addr status_num status_index)"

definition db_flash_write :: "nat \<Rightarrow> bytes \<Rightarrow> fdb_kvdb \<Rightarrow> fdb_err \<times> fdb_kvdb" where
  "db_flash_write addr buf db = (case fdb_flash_write (flash db) addr buf of (r, f) \<Rightarrow> (r, db\<lparr>flash := f\<rparr>))"

section \<open>Caches\<close>

definition update_sector_cache :: "kvdb_sec_info \<Rightarrow> fdb_kvdb \<Rightarrow> fdb_kvdb" where
  "update_sector_cache sector db =
     (let tab = sector_cache_table db
      in case find_index (\<lambda>s. sec_addr s = sec_addr sector) tab of
           Some i \<Rightarrow>
             db\<lparr>sector_cache_table := tab[i := (if check_ok sector then sector else (tab ! i)\<lparr>sec_addr := FDB_DATA_UNUSED\<rparr>)]\<rparr>
         | None \<Rightarrow>
             (case filter (\<lambda>i. sec_addr (tab ! i) = FDB_DATA_UNUSED) (rev [0..<length tab]) of
                [] \<Rightarrow> db
              | i # _ \<Rightarrow> if check_ok sector then db\<lparr>sector_cache_table := tab[i := sector]\<rparr> else db))"

definition get_sector_from_cache :: "fdb_kvdb \<Rightarrow> nat \<Rightarrow> nat option" where
  "get_sector_from_cache db addr = find_index (\<lambda>s. sec_addr s = addr) (sector_cache_table db)"

definition update_sector_empty_addr_cache :: "fdb_cfg \<Rightarrow> nat \<Rightarrow> nat \<Rightarrow> fdb_kvdb \<Rightarrow> fdb_kvdb" where
  "update_sector_empty_addr_cache cfg addr empty_addr db =
     (case get_sector_from_cache db addr of
        None \<Rightarrow> db
      | Some i \<Rightarrow>
          db\<lparr>sector_cache_table := (sector_cache_table db)[i := (sector_cache_table db ! i)
               \<lparr>empty_kv := empty_addr, remain := sub32 (sec_size cfg) (sub32 empty_addr (sec_addr (sector_cache_table db ! i)))\<rparr>]\<rparr>)"

definition update_sector_status_store_cache :: "nat \<Rightarrow> nat \<Rightarrow> fdb_kvdb \<Rightarrow> fdb_kvdb" where
  "update_sector_status_store_cache addr status db =
     (case get_sector_from_cache db addr of
        None \<Rightarrow> db
      | Some i \<Rightarrow>
          db\<lparr>sector_cache_table := (sector_cache_table db)[i := (sector_cache_table db ! i)\<lparr>store_status := status\<rparr>]\<rparr>)"

definition key_crc :: "bytes \<Rightarrow> u16" where
  "key_crc name = ucast (drop_bit 16 (fdb_calc_crc32 0 name))"

text \<open>
  The scan over the table: whether an entry was updated, the table, the first free entry and the entry with the least
  activity (the table size when there is none).
\<close>

fun kv_cache_loop ::
  "u16 \<Rightarrow> nat \<Rightarrow> kv_cache_node list \<Rightarrow> nat \<Rightarrow> nat \<Rightarrow> nat \<Rightarrow> nat \<Rightarrow> bool \<times> kv_cache_node list \<times> nat \<times> nat" where
  "kv_cache_loop crc addr [] i e mi ma = (False, [], e, mi)"
| "kv_cache_loop crc addr (n # ns) i e mi ma =
     (if addr \<noteq> FDB_DATA_UNUSED
      then
        (if name_crc n = crc then (True, n\<lparr>cache_addr := addr\<rparr> # ns, e, mi)
         else if cache_addr n = FDB_DATA_UNUSED \<and> e = FDB_KV_CACHE_TABLE_SIZE
         then (case kv_cache_loop crc addr ns (i + 1) i mi ma of (d, ns, e, mi) \<Rightarrow> (d, n # ns, e, mi))
         else if cache_addr n \<noteq> FDB_DATA_UNUSED
         then (let n = n\<lparr>active := active n - 1\<rparr>;
                   (mi, ma) = (if active n < ma then (i, active n) else (mi, ma))
               in case kv_cache_loop crc addr ns (i + 1) e mi ma of (d, ns, e, mi) \<Rightarrow> (d, n # ns, e, mi))
         else (case kv_cache_loop crc addr ns (i + 1) e mi ma of (d, ns, e, mi) \<Rightarrow> (d, n # ns, e, mi)))
      else if name_crc n = crc then (True, n\<lparr>cache_addr := FDB_DATA_UNUSED, active := 0\<rparr> # ns, e, mi)
      else (case kv_cache_loop crc addr ns (i + 1) e mi ma of (d, ns, e, mi) \<Rightarrow> (d, n # ns, e, mi)))"

definition update_kv_cache :: "bytes \<Rightarrow> nat \<Rightarrow> fdb_kvdb \<Rightarrow> fdb_kvdb" where
  "update_kv_cache name addr db =
     (case kv_cache_loop (key_crc name) addr (kv_cache_table db) 0 FDB_KV_CACHE_TABLE_SIZE FDB_KV_CACHE_TABLE_SIZE 0xFFFF of
        (d, tab, e, mi) \<Rightarrow>
          let new = \<lparr>name_crc = key_crc name, active = FDB_KV_CACHE_TABLE_SIZE, cache_addr = addr\<rparr>
          in db\<lparr>kv_cache_table :=
               (if d then tab
                else if e < FDB_KV_CACHE_TABLE_SIZE then tab[e := new]
                else if mi < FDB_KV_CACHE_TABLE_SIZE then tab[mi := new]
                else tab)\<rparr>)"

text \<open>\<open>strncmp (a, b, n) == 0\<close> on two buffers; \<open>None\<close> when it runs over the end of one.\<close>

fun strncmp_eq :: "bytes \<Rightarrow> bytes \<Rightarrow> nat \<Rightarrow> bool option" where
  "strncmp_eq a b 0 = Some True"
| "strncmp_eq (a # as) (b # bs) (Suc n) =
     (if a \<noteq> b then Some False else if a = 0 then Some True else strncmp_eq as bs n)"
| "strncmp_eq _ _ (Suc n) = None"

text \<open>A failed read leaves the zeros of the buffer.\<close>

definition read_saved_name :: "fdb_kvdb \<Rightarrow> nat \<Rightarrow> bytes" where
  "read_saved_name db addr =
     (case fdb_flash_read (flash db) (addr + KV_HDR_DATA_SIZE) FDB_KV_NAME_MAX of
        None \<Rightarrow> replicate FDB_KV_NAME_MAX 0
      | Some xs \<Rightarrow> xs)"

fun kv_cache_find :: "fdb_kvdb \<Rightarrow> bytes \<Rightarrow> u16 \<Rightarrow> kv_cache_node list \<Rightarrow> nat \<Rightarrow> nat option option" where
  "kv_cache_find db name crc [] i = Some None"
| "kv_cache_find db name crc (n # ns) i =
     (if cache_addr n \<noteq> FDB_DATA_UNUSED \<and> name_crc n = crc
      then do {
        same \<leftarrow> strncmp_eq (name @ [0]) (read_saved_name db (cache_addr n)) (length name);
        if same then Some (Some i) else kv_cache_find db name crc ns (i + 1) }
      else kv_cache_find db name crc ns (i + 1))"

definition get_kv_from_cache :: "bytes \<Rightarrow> fdb_kvdb \<Rightarrow> (nat option \<times> fdb_kvdb) option" where
  "get_kv_from_cache name db =
     (case kv_cache_find db name (key_crc name) (kv_cache_table db) 0 of
        None \<Rightarrow> None
      | Some None \<Rightarrow> Some (None, db)
      | Some (Some i) \<Rightarrow>
          let n = kv_cache_table db ! i;
              a = (if active n \<ge> 0xFFFF - FDB_KV_CACHE_TABLE_SIZE then 0xFFFF else active n + FDB_KV_CACHE_TABLE_SIZE)
          in Some (Some (cache_addr n), db\<lparr>kv_cache_table := (kv_cache_table db)[i := n\<lparr>active := a\<rparr>]\<rparr>))"

section \<open>Finding records\<close>

definition magic_at :: "bytes \<Rightarrow> nat \<Rightarrow> u32" where
  "magic_at buf i = of_le32 (drop i buf)"

function find_next_loop :: "flash_part \<Rightarrow> nat \<Rightarrow> nat \<Rightarrow> nat \<Rightarrow> nat" where
  "find_next_loop f start fin start_bak =
     (if start < fin \<and> start + 32 < fin
      then
        (case fdb_flash_read f start 32 of
           None \<Rightarrow> FAILED_ADDR
         | Some buf \<Rightarrow>
             (case filter (\<lambda>i. start + i < fin \<and> magic_at buf i = KV_MAGIC_WORD \<and> sub32 (start + i) KV_MAGIC_OFFSET \<ge> start_bak)
                     [0..<28] of
                i # _ \<Rightarrow> sub32 (start + i) KV_MAGIC_OFFSET
              | [] \<Rightarrow> find_next_loop f (start + 28) fin start_bak))
      else FAILED_ADDR)"
  by pat_completeness auto
termination
  by (relation "measure (\<lambda>(f, start, fin, start_bak). fin - start)") auto

declare find_next_loop.simps [simp del]

definition find_next_kv_addr :: "fdb_cfg \<Rightarrow> fdb_kvdb \<Rightarrow> nat \<Rightarrow> nat \<Rightarrow> nat" where
  "find_next_kv_addr cfg db start fin =
     (case get_sector_from_cache db (FDB_ALIGN_DOWN start (sec_size cfg)) of
        Some i \<Rightarrow> if start = empty_kv (sector_cache_table db ! i) then FAILED_ADDR else find_next_loop (flash db) start fin start
      | None \<Rightarrow> find_next_loop (flash db) start fin start)"

definition get_next_kv_addr :: "fdb_cfg \<Rightarrow> fdb_kvdb \<Rightarrow> kvdb_sec_info \<Rightarrow> fdb_kv \<Rightarrow> nat" where
  "get_next_kv_addr cfg db sector pre_kv =
     (if store_status sector = FDB_SECTOR_STORE_EMPTY then FAILED_ADDR
      else if addr_start pre_kv = FAILED_ADDR then sec_addr sector + SECTOR_HDR_DATA_SIZE
      else if addr_start pre_kv \<le> sec_addr sector + sec_size cfg
      then
        (let addr = (if crc_is_ok pre_kv then addr_start pre_kv + kv_len pre_kv else addr_start pre_kv + FDB_WG_ALIGN 1);
             addr = find_next_kv_addr cfg db addr (sec_addr sector + sec_size cfg - SECTOR_HDR_DATA_SIZE)
         in if addr = FAILED_ADDR \<or> addr > sec_addr sector + sec_size cfg \<or> kv_len pre_kv = 0 then FAILED_ADDR else addr)
      else FAILED_ADDR)"

section \<open>Reading a record\<close>

text \<open>The fields of the header, by their offsets.\<close>

definition hdr_len :: "bytes \<Rightarrow> nat" where "hdr_len h = unat (of_le32 (drop 8 h))"
definition hdr_crc32 :: "bytes \<Rightarrow> u32" where "hdr_crc32 h = of_le32 (drop 12 h)"
definition hdr_name_len :: "bytes \<Rightarrow> nat" where "hdr_name_len h = unat (h ! 16)"
definition hdr_value_len :: "bytes \<Rightarrow> nat" where "hdr_value_len h = unat (of_le32 (drop 20 h))"

text \<open>
  Reading into the local array \<open>buf\<close> without looking at the result: after an error the array has what the read before
  left in it, and is uninitialised (\<open>None\<close>) when there was none.
\<close>

definition read_buf :: "flash_part \<Rightarrow> nat \<Rightarrow> nat \<Rightarrow> bytes option \<Rightarrow> bytes option" where
  "read_buf f addr n buf = (case fdb_flash_read f addr n of Some xs \<Rightarrow> Some xs | None \<Rightarrow> buf)"

function kv_crc_loop :: "flash_part \<Rightarrow> nat \<Rightarrow> nat \<Rightarrow> nat \<Rightarrow> bytes option \<Rightarrow> u32 \<Rightarrow> u32 option" where
  "kv_crc_loop f addr len crc_data_len buf crc =
     (if len < crc_data_len
      then
        (let sz = (if len + 32 < crc_data_len then 32 else crc_data_len - len)
         in case read_buf f (addr + len) (FDB_WG_ALIGN sz) buf of
              None \<Rightarrow> None
            | Some buf \<Rightarrow> kv_crc_loop f addr (len + sz) crc_data_len (Some buf) (fdb_calc_crc32 crc (take sz buf)))
      else Some crc)"
  by pat_completeness auto
termination
  by (relation "measure (\<lambda>(f, addr, len, crc_data_len, buf, crc). crc_data_len - len)")
    (auto simp: Let_def split: if_splits)

declare kv_crc_loop.simps [simp del]

text \<open>The name goes into the array \<open>name\<close> of \<open>FDB_KV_NAME_MAX\<close> bytes; the result of the read is not checked.\<close>

definition load_name :: "flash_part \<Rightarrow> nat \<Rightarrow> nat \<Rightarrow> bytes \<Rightarrow> bytes option" where
  "load_name f addr n name =
     (case fdb_flash_read f addr (FDB_WG_ALIGN n) of
        None \<Rightarrow> Some name
      | Some xs \<Rightarrow> mem_write name 0 xs)"

definition read_kv :: "fdb_cfg \<Rightarrow> fdb_kv \<Rightarrow> fdb_kvdb \<Rightarrow> (fdb_err \<times> fdb_kv \<times> fdb_kvdb) option" where
  "read_kv cfg kv db = do {
     hdr \<leftarrow> fdb_flash_read (flash db) (addr_start kv) 24;
     let kv = kv\<lparr>kv_status := fdb_get_status (take 1 hdr) FDB_KV_STATUS_NUM, kv_len := hdr_len hdr\<rparr>;
     if kv_len kv = 0xFFFFFFFF \<or> kv_len kv > max_size cfg \<or> kv_len kv < KV_HDR_DATA_SIZE
     then do {
       (_, db) \<leftarrow> (if kv_status kv \<noteq> FDB_KV_ERR_HDR
                  then db_write_status (addr_start kv) FDB_KV_STATUS_NUM FDB_KV_ERR_HDR db
                  else Some (FDB_NO_ERR, db));
       Some (FDB_READ_ERR, kv\<lparr>kv_len := KV_HDR_DATA_SIZE, kv_status := FDB_KV_ERR_HDR, crc_is_ok := False\<rparr>, db) }
     else do {
       let crc = fdb_calc_crc32 0 (take 4 (drop 16 hdr));
       let crc = fdb_calc_crc32 crc (take 4 (drop 20 hdr));
       crc \<leftarrow> kv_crc_loop (flash db) (addr_start kv + KV_HDR_DATA_SIZE) 0 (kv_len kv - KV_HDR_DATA_SIZE) None crc;
       if crc \<noteq> hdr_crc32 hdr
       then do {
         name \<leftarrow> load_name (flash db) (addr_start kv + KV_HDR_DATA_SIZE)
                  (if hdr_name_len hdr > FDB_KV_NAME_MAX then FDB_KV_NAME_MAX else hdr_name_len hdr) (kv_name kv);
         Some (FDB_READ_ERR, kv\<lparr>crc_is_ok := False, kv_name := name\<rparr>, db) }
       else do {
         name \<leftarrow> load_name (flash db) (addr_start kv + KV_HDR_DATA_SIZE) (hdr_name_len hdr) (kv_name kv);
         name \<leftarrow> mem_write name (if hdr_name_len hdr \<ge> FDB_KV_NAME_MAX then FDB_KV_NAME_MAX - 1 else hdr_name_len hdr) [0];
         Some (FDB_NO_ERR,
               kv\<lparr>crc_is_ok := True, kv_name := name,
                  addr_value := addr_start kv + KV_HDR_DATA_SIZE + FDB_WG_ALIGN (hdr_name_len hdr),
                  value_len := hdr_value_len hdr, name_len := hdr_name_len hdr\<rparr>, db) } } }"

text \<open>Every step of a walk over the records of a sector goes forward inside the sector.\<close>

lemma read_kv_addr_start:
  assumes "read_kv cfg kv db = Some (r, kv', db')"
  shows "addr_start kv' = addr_start kv"
  using assms by (auto simp: read_kv_def Let_def split: if_splits Option.bind_splits prod.splits)

lemma read_kv_len:
  assumes "read_kv cfg kv db = Some (r, kv', db')"
  shows "0 < kv_len kv'"
  using assms
  by (auto simp: read_kv_def Let_def KV_HDR_DATA_SIZE_def FDB_WG_ALIGN_id split: if_splits Option.bind_splits prod.splits)

lemma find_next_loop_ge:
  "find_next_loop f start fin bak = FAILED_ADDR \<or> bak \<le> find_next_loop f start fin bak"
proof (induction f start fin bak rule: find_next_loop.induct)
  case (1 f start fin bak)
  then show ?case
    by (subst (1 2) find_next_loop.simps)
      (auto split: option.splits list.splits dest!: filter_eq_ConsD simp del: filter_False)
qed

lemma find_next_kv_addr_ge:
  "find_next_kv_addr cfg db start fin = FAILED_ADDR \<or> start \<le> find_next_kv_addr cfg db start fin"
  using find_next_loop_ge [of "flash db" start fin start] by (auto simp: find_next_kv_addr_def split: option.splits)

lemma get_next_kv_addr_forward:
  assumes a: "get_next_kv_addr cfg db sector kv = a" and "a \<noteq> FAILED_ADDR" and "addr_start kv \<noteq> FAILED_ADDR"
    and "0 < kv_len kv"
  shows "addr_start kv < a \<and> a \<le> sec_addr sector + sec_size cfg"
proof -
  define start where "start = (if crc_is_ok kv then addr_start kv + kv_len kv else addr_start kv + FDB_WG_ALIGN 1)"
  have "addr_start kv < start" using assms by (simp add: start_def)
  moreover have "a = find_next_kv_addr cfg db start (sec_addr sector + sec_size cfg - SECTOR_HDR_DATA_SIZE)
      \<and> a \<le> sec_addr sector + sec_size cfg"
    using assms by (auto simp: get_next_kv_addr_def start_def [symmetric] Let_def split: if_splits)
  ultimately show ?thesis
    using find_next_kv_addr_ge [of cfg db start] assms(2) by (metis dual_order.strict_trans1)
qed

end
