(* ===== verification/Fdb_Kvdb_Ops.thy ===== *)
theory Fdb_Kvdb_Ops
  imports Fdb_Kvdb
begin

text \<open>
  The walks over records and sectors, and the operations of the key-value database that use them: lookup, allocation,
  creation, deletion, garbage collection, recovery, initialisation and the iterator (\<open>fdb_kvdb.c\<close>, \<open>fdb.c\<close>).

  The loops of the source over the records of a sector and over the sectors of the database are the functions
  \<open>kv_walk\<close> and \<open>sector_walk\<close>; the loop's body is an argument. Both always end, so they have no fuel. The retry loop
  of the recovery may run forever and is a partial function. A callback that gets pointers to variables of its caller
  takes and returns their values.
\<close>

unbundle bit_operations_syntax

section \<open>Walking over records and sectors\<close>

text \<open>
  The body gets the result of \<open>read_kv\<close> and the record, and says whether to stop. The result says whether it has
  stopped the walk.
\<close>

function kv_walk ::
  "fdb_cfg \<Rightarrow> kvdb_sec_info \<Rightarrow> (fdb_err \<Rightarrow> fdb_kv \<Rightarrow> 'x \<Rightarrow> fdb_kvdb \<Rightarrow> (bool \<times> 'x \<times> fdb_kvdb) option) \<Rightarrow>
   fdb_kv \<Rightarrow> 'x \<Rightarrow> fdb_kvdb \<Rightarrow> (bool \<times> fdb_kv \<times> 'x \<times> fdb_kvdb) option" where
  "kv_walk cfg sector body kv x db =
     (case read_kv cfg kv db of
        None \<Rightarrow> None
      | Some (r, kv1, db1) \<Rightarrow>
          (case body r kv1 x db1 of
             None \<Rightarrow> None
           | Some (stop, x2, db2) \<Rightarrow>
               if stop then Some (True, kv1, x2, db2)
               else if get_next_kv_addr cfg db2 sector kv1 = FAILED_ADDR
               then Some (False, kv1\<lparr>addr_start := FAILED_ADDR\<rparr>, x2, db2)
               else kv_walk cfg sector body (kv1\<lparr>addr_start := get_next_kv_addr cfg db2 sector kv1\<rparr>) x2 db2))"
  by pat_completeness auto
termination
proof (relation "measure (\<lambda>(cfg, sector, body, kv, x, db).
    if addr_start kv = FAILED_ADDR then sec_size cfg + 1 else sec_addr sector + sec_size cfg + 1 - addr_start kv)",
    goal_cases)
  case 1
  then show ?case by simp
next
  case (2 cfg sector body kv x db p r q kv1 db1 p' stop q' x2 db2)
  then have rd: "read_kv cfg kv db = Some (r, kv1, db1)" and ne: "get_next_kv_addr cfg db2 sector kv1 \<noteq> FAILED_ADDR"
    by simp_all
  note st = read_kv_addr_start [OF rd] read_kv_len [OF rd]
  show ?case
  proof (cases "addr_start kv = FAILED_ADDR")
    case True
    then have "get_next_kv_addr cfg db2 sector kv1 = sec_addr sector + SECTOR_HDR_DATA_SIZE"
      using ne st by (simp add: get_next_kv_addr_def split: if_splits)
    with True ne show ?thesis by (simp add: SECTOR_HDR_DATA_SIZE_def)
  next
    case False
    with get_next_kv_addr_forward [OF refl ne] st ne show ?thesis by simp linarith
  qed
qed

declare kv_walk.simps [simp del]

definition get_next_sector_addr :: "fdb_cfg \<Rightarrow> kvdb_sec_info \<Rightarrow> nat \<Rightarrow> nat" where
  "get_next_sector_addr cfg pre_sec traversed_len =
     (let cur_block_size = (if combined pre_sec = SECTOR_NOT_COMBINED then sec_size cfg
                            else (unat (combined pre_sec) * sec_size cfg) mod 2 ^ 32)
      in if traversed_len + cur_block_size \<le> max_size cfg
         then (if sec_addr pre_sec + cur_block_size < max_size cfg then sec_addr pre_sec + cur_block_size else 0)
         else FAILED_ADDR)"

text \<open>
  With a sector size of zero the source divides by zero. \<open>max_size\<close> is below \<open>FAILED_ADDR\<close> whenever the partition
  is.
\<close>

function sector_walk ::
  "fdb_cfg \<Rightarrow> (nat \<Rightarrow> kvdb_sec_info \<Rightarrow> 'x \<Rightarrow> fdb_kvdb \<Rightarrow> (bool \<times> kvdb_sec_info \<times> 'x \<times> fdb_kvdb) option) \<Rightarrow>
   nat \<Rightarrow> nat \<Rightarrow> kvdb_sec_info \<Rightarrow> 'x \<Rightarrow> fdb_kvdb \<Rightarrow> (bool \<times> kvdb_sec_info \<times> 'x \<times> fdb_kvdb) option" where
  "sector_walk cfg body addr traversed_len sector x db =
     (if sec_size cfg = 0 then None
      else
        (case body addr sector x db of
           None \<Rightarrow> None
         | Some (stop, sector1, x1, db1) \<Rightarrow>
             if stop then Some (True, sector1, x1, db1)
             else if get_next_sector_addr cfg sector1 (traversed_len + sec_size cfg) = FAILED_ADDR
             then Some (False, sector1, x1, db1)
             else sector_walk cfg body (get_next_sector_addr cfg sector1 (traversed_len + sec_size cfg))
                    (traversed_len + sec_size cfg) sector1 x1 db1))"
  by pat_completeness auto
termination
  by (relation "measure (\<lambda>(cfg, body, addr, traversed_len, sector, x, db). max_size cfg + 1 - traversed_len)")
    (auto simp: get_next_sector_addr_def Let_def split: if_splits)

declare sector_walk.simps [simp del]

text \<open>
  A local \<open>struct fdb_kv\<close> or \<open>struct kvdb_sec_info\<close> of which every field is written before it is read.
\<close>

definition kv_zero :: fdb_kv where
  "kv_zero = \<lparr>kv_status = FDB_KV_UNUSED, crc_is_ok = False, name_len = 0, kv_len = 0, value_len = 0,
     kv_name = replicate FDB_KV_NAME_MAX 0, addr_start = 0, addr_value = 0\<rparr>"

definition sec_zero :: kvdb_sec_info where
  "sec_zero = \<lparr>check_ok = False, store_status = FDB_SECTOR_STORE_UNUSED, dirty_status = FDB_SECTOR_DIRTY_UNUSED,
     sec_addr = 0, sec_magic = 0, combined = 0, remain = 0, empty_kv = 0\<rparr>"

section \<open>Sector information\<close>

definition add32 :: "nat \<Rightarrow> nat \<Rightarrow> nat" where
  "add32 a b = (a + b) mod 2 ^ 32"

text \<open>The loop over the records of a sector in use: the result and the sector's fields are its variables.\<close>

definition sector_info_body ::
  "fdb_err \<Rightarrow> fdb_kv \<Rightarrow> fdb_err \<times> kvdb_sec_info \<Rightarrow> fdb_kvdb \<Rightarrow> (bool \<times> (fdb_err \<times> kvdb_sec_info) \<times> fdb_kvdb) option" where
  "sector_info_body r kv x db =
     (case x of (result, sector) \<Rightarrow>
        if \<not> crc_is_ok kv \<and> kv_status kv \<noteq> FDB_KV_PRE_WRITE \<and> kv_status kv \<noteq> FDB_KV_ERR_HDR
        then Some (True, (FDB_READ_ERR, sector\<lparr>remain := 0\<rparr>), db)
        else Some (False, (result, sector\<lparr>empty_kv := add32 (empty_kv sector) (kv_len kv),
                                          remain := sub32 (remain sector) (kv_len kv)\<rparr>), db))"

definition read_using_sector :: "fdb_cfg \<Rightarrow> kvdb_sec_info \<Rightarrow> fdb_kvdb \<Rightarrow> (fdb_err \<times> kvdb_sec_info \<times> fdb_kvdb) option" where
  "read_using_sector cfg sector db = do {
     let sector = sector\<lparr>remain := sub32 (sec_size cfg) SECTOR_HDR_DATA_SIZE\<rparr>;
     (_, _, (result, sector), db) \<leftarrow>
       kv_walk cfg sector sector_info_body (kv_zero\<lparr>addr_start := sec_addr sector + SECTOR_HDR_DATA_SIZE\<rparr>)
         (FDB_NO_ERR, sector) db;
     ff_addr \<leftarrow> fdb_continue_ff_addr (flash db) (empty_kv sector) (sec_addr sector + sec_size cfg);
     let sector = (if empty_kv sector \<noteq> ff_addr
                   then sector\<lparr>empty_kv := ff_addr, remain := sub32 (sec_size cfg) (sub32 ff_addr (sec_addr sector))\<rparr>
                   else sector);
     Some (result, sector, db) }"

text \<open>The fields that come from the sector header.\<close>

definition sec_hdr_info :: "nat \<Rightarrow> bytes \<Rightarrow> kvdb_sec_info \<Rightarrow> kvdb_sec_info" where
  "sec_hdr_info addr hdr sector =
     (let magic = of_le32 (drop 4 hdr);
          comb = of_le32 (drop 8 hdr)
      in if magic \<noteq> SECTOR_MAGIC_WORD \<or> (comb \<noteq> SECTOR_NOT_COMBINED \<and> comb \<noteq> SECTOR_COMBINED)
         then sector\<lparr>check_ok := False, store_status := FDB_SECTOR_STORE_UNUSED, dirty_status := FDB_SECTOR_DIRTY_UNUSED,
                     sec_addr := addr, sec_magic := magic, combined := SECTOR_NOT_COMBINED\<rparr>
         else sector\<lparr>check_ok := True, store_status := fdb_get_status (take 1 hdr) FDB_SECTOR_STORE_STATUS_NUM,
                     dirty_status := fdb_get_status (take 1 (drop 1 hdr)) FDB_SECTOR_DIRTY_STATUS_NUM,
                     sec_addr := addr, sec_magic := magic, combined := comb\<rparr>)"

text \<open>The space that is left in a sector.\<close>

definition traverse_sector :: "fdb_cfg \<Rightarrow> kvdb_sec_info \<Rightarrow> fdb_kvdb \<Rightarrow> (fdb_err \<times> kvdb_sec_info \<times> fdb_kvdb) option" where
  "traverse_sector cfg sector db =
     (let sector = sector\<lparr>remain := 0, empty_kv := sec_addr sector + SECTOR_HDR_DATA_SIZE\<rparr>
      in if store_status sector = FDB_SECTOR_STORE_EMPTY
         then Some (FDB_NO_ERR, sector\<lparr>remain := sub32 (sec_size cfg) SECTOR_HDR_DATA_SIZE\<rparr>, db)
         else if store_status sector = FDB_SECTOR_STORE_USING then read_using_sector cfg sector db
         else Some (FDB_NO_ERR, sector, db))"

definition read_sector_info ::
  "fdb_cfg \<Rightarrow> nat \<Rightarrow> kvdb_sec_info \<Rightarrow> bool \<Rightarrow> fdb_kvdb \<Rightarrow> (fdb_err \<times> kvdb_sec_info \<times> fdb_kvdb) option" where
  "read_sector_info cfg addr sector traversal db =
     (if sec_size cfg = 0 \<or> addr mod sec_size cfg \<noteq> 0 then None
      else
        (case (case get_sector_from_cache db addr of
                 None \<Rightarrow> None
               | Some i \<Rightarrow> if \<not> traversal \<or> empty_kv (sector_cache_table db ! i) \<noteq> FAILED_ADDR
                           then Some (sector_cache_table db ! i) else None) of
           Some s \<Rightarrow> Some (FDB_NO_ERR, s, db)
         | None \<Rightarrow>
             let hdr = (case fdb_flash_read (flash db) addr 16 of None \<Rightarrow> replicate 16 0 | Some h \<Rightarrow> h);
                 sector = sec_hdr_info addr hdr sector
             in if \<not> check_ok sector then Some (FDB_INIT_FAILED, sector, db)
                else if traversal
                then do {
                  (result, sector, db) \<leftarrow> traverse_sector cfg sector db;
                  Some (result, sector, update_sector_cache sector db) }
                else if get_sector_from_cache db addr = None
                then (let sector = sector\<lparr>empty_kv := FAILED_ADDR, remain := 0\<rparr>
                      in Some (FDB_NO_ERR, sector, update_sector_cache sector db))
                else Some (FDB_NO_ERR, sector, db)))"

section \<open>Iterating\<close>

text \<open>
  The variables of \<open>kv_iterator\<close> that live across sectors: the caller's \<open>kv\<close> and the callback's arguments.
  \<open>NULL\<close> is never passed as the callback.
\<close>

definition kv_iter_body ::
  "fdb_cfg \<Rightarrow> (fdb_kv \<Rightarrow> 'x \<Rightarrow> fdb_kvdb \<Rightarrow> (bool \<times> 'x \<times> fdb_kvdb) option) \<Rightarrow>
   nat \<Rightarrow> kvdb_sec_info \<Rightarrow> fdb_kv \<times> 'x \<Rightarrow> fdb_kvdb \<Rightarrow> (bool \<times> kvdb_sec_info \<times> (fdb_kv \<times> 'x) \<times> fdb_kvdb) option" where
  "kv_iter_body cfg callback addr sector kx db = do {
     (r, sector, db) \<leftarrow> read_sector_info cfg addr sector False db;
     if r \<noteq> FDB_NO_ERR then Some (False, sector, kx, db)
     else if store_status sector = FDB_SECTOR_STORE_USING \<or> store_status sector = FDB_SECTOR_STORE_FULL
     then do {
       (stop, kv, x, db) \<leftarrow> kv_walk cfg sector (\<lambda>_. callback)
                             ((fst kx)\<lparr>addr_start := sec_addr sector + SECTOR_HDR_DATA_SIZE\<rparr>) (snd kx) db;
       Some (stop, sector, (kv, x), db) }
     else Some (False, sector, kx, db) }"

definition kv_iterator ::
  "fdb_cfg \<Rightarrow> fdb_kv \<Rightarrow> 'x \<Rightarrow> (fdb_kv \<Rightarrow> 'x \<Rightarrow> fdb_kvdb \<Rightarrow> (bool \<times> 'x \<times> fdb_kvdb) option) \<Rightarrow>
   fdb_kvdb \<Rightarrow> (fdb_kv \<times> 'x \<times> fdb_kvdb) option" where
  "kv_iterator cfg kv x callback db =
     map_option (\<lambda>(_, _, (kv, x), db). (kv, x, db))
       (sector_walk cfg (kv_iter_body cfg callback) (oldest_addr db) 0 sec_zero (kv, x) db)"

definition sector_iter_body ::
  "fdb_cfg \<Rightarrow> nat \<Rightarrow> (kvdb_sec_info \<Rightarrow> 'x \<Rightarrow> fdb_kvdb \<Rightarrow> (bool \<times> 'x \<times> fdb_kvdb) option) \<Rightarrow> bool \<Rightarrow>
   nat \<Rightarrow> kvdb_sec_info \<Rightarrow> 'x \<Rightarrow> fdb_kvdb \<Rightarrow> (bool \<times> kvdb_sec_info \<times> 'x \<times> fdb_kvdb) option" where
  "sector_iter_body cfg status callback traversal_kv addr sector x db = do {
     (_, sector, db) \<leftarrow> read_sector_info cfg addr sector False db;
     if status = FDB_SECTOR_STORE_UNUSED \<or> status = store_status sector
     then do {
       (_, sector, db) \<leftarrow> (if traversal_kv then read_sector_info cfg addr sector True db else Some (FDB_NO_ERR, sector, db));
       (stop, x, db) \<leftarrow> callback sector x db;
       Some (stop, sector, x, db) }
     else Some (False, sector, x, db) }"

definition sector_iterator ::
  "fdb_cfg \<Rightarrow> kvdb_sec_info \<Rightarrow> nat \<Rightarrow> 'x \<Rightarrow> (kvdb_sec_info \<Rightarrow> 'x \<Rightarrow> fdb_kvdb \<Rightarrow> (bool \<times> 'x \<times> fdb_kvdb) option) \<Rightarrow> bool \<Rightarrow>
   fdb_kvdb \<Rightarrow> (kvdb_sec_info \<times> 'x \<times> fdb_kvdb) option" where
  "sector_iterator cfg sector status x callback traversal_kv db =
     map_option snd (sector_walk cfg (sector_iter_body cfg status callback traversal_kv) (oldest_addr db) 0 sector x db)"

section \<open>Lookup\<close>

definition find_kv_cb :: "bytes \<Rightarrow> fdb_kv \<Rightarrow> bool \<Rightarrow> fdb_kvdb \<Rightarrow> (bool \<times> bool \<times> fdb_kvdb) option" where
  "find_kv_cb key kv find_ok db =
     (if length key \<noteq> name_len kv then Some (False, find_ok, db)
      else if crc_is_ok kv \<and> kv_status kv = FDB_KV_WRITE
      then do {
        same \<leftarrow> strncmp_eq (kv_name kv) (key @ [0]) (length key);
        Some (if same then (True, True, db) else (False, find_ok, db)) }
      else Some (False, find_ok, db))"

definition find_kv_no_cache :: "fdb_cfg \<Rightarrow> bytes \<Rightarrow> fdb_kv \<Rightarrow> fdb_kvdb \<Rightarrow> (bool \<times> fdb_kv \<times> fdb_kvdb) option" where
  "find_kv_no_cache cfg key kv db =
     map_option (\<lambda>(kv, find_ok, db). (find_ok, kv, db)) (kv_iterator cfg kv False (find_kv_cb key) db)"

definition find_kv :: "fdb_cfg \<Rightarrow> bytes \<Rightarrow> fdb_kv \<Rightarrow> fdb_kvdb \<Rightarrow> (bool \<times> fdb_kv \<times> fdb_kvdb) option" where
  "find_kv cfg key kv db = do {
     (hit, db) \<leftarrow> get_kv_from_cache key db;
     case hit of
       Some addr \<Rightarrow> do {
         (_, kv, db) \<leftarrow> read_kv cfg (kv\<lparr>addr_start := addr\<rparr>) db;
         Some (True, kv, db) }
     | None \<Rightarrow> do {
         (find_ok, kv, db) \<leftarrow> find_kv_no_cache cfg key kv db;
         Some (find_ok, kv, if find_ok then update_kv_cache key (addr_start kv) db else db) } }"

definition fdb_is_str :: "bytes \<Rightarrow> bool" where
  "fdb_is_str value = list_all (\<lambda>b. 32 \<le> unat b \<and> unat b < 127) value"

text \<open>
  The argument \<open>kv\<close> is what the local structure has when the function is entered: a cache hit on a damaged record
  leaves its length and address as they are.
\<close>

definition get_kv ::
  "fdb_cfg \<Rightarrow> fdb_kv \<Rightarrow> bytes \<Rightarrow> bytes option \<Rightarrow> nat \<Rightarrow> fdb_kvdb \<Rightarrow> (nat \<times> bytes option \<times> nat \<times> fdb_kvdb) option" where
  "get_kv cfg kv key value_buf buf_len db = do {
     (found, kv, db) \<leftarrow> find_kv cfg key kv db;
     if found
     then do {
       let read_len = (if buf_len > value_len kv then value_len kv else buf_len);
       value_buf \<leftarrow> (case value_buf of
                       None \<Rightarrow> Some None
                     | Some buf \<Rightarrow>
                         (case fdb_flash_read (flash db) (addr_value kv) read_len of
                            None \<Rightarrow> Some (Some buf)
                          | Some xs \<Rightarrow> map_option Some (mem_write buf 0 xs)));
       Some (read_len, value_buf, value_len kv, db) }
     else Some (0, value_buf, 0, db) }"

definition fdb_kv_get_obj :: "fdb_cfg \<Rightarrow> bytes \<Rightarrow> fdb_kv \<Rightarrow> fdb_kvdb \<Rightarrow> (bool \<times> fdb_kv \<times> fdb_kvdb) option" where
  "fdb_kv_get_obj cfg key kv db = (if \<not> db_init_ok db then Some (False, kv, db) else find_kv cfg key kv db)"

definition fdb_kv_to_blob :: "fdb_kv \<Rightarrow> fdb_blob \<Rightarrow> fdb_blob" where
  "fdb_kv_to_blob kv blob = blob\<lparr>saved_meta_addr := addr_start kv, saved_addr := addr_value kv, saved_len := value_len kv\<rparr>"

definition fdb_kv_get_blob :: "fdb_cfg \<Rightarrow> fdb_kv \<Rightarrow> bytes \<Rightarrow> fdb_blob \<Rightarrow> fdb_kvdb \<Rightarrow> (nat \<times> fdb_blob \<times> fdb_kvdb) option" where
  "fdb_kv_get_blob cfg kv key blob db =
     (if \<not> db_init_ok db then Some (0, blob, db)
      else do {
        (read_len, buf, len, db) \<leftarrow> get_kv cfg kv key (blob_buf blob) (blob_size blob) db;
        Some (read_len, blob\<lparr>blob_buf := buf, saved_len := len\<rparr>, db) })"

text \<open>
  The static array \<open>value\<close> is an argument and a result; the other result is the string it holds, \<open>None\<close> for \<open>NULL\<close>.
\<close>

definition fdb_kv_get :: "fdb_cfg \<Rightarrow> fdb_kv \<Rightarrow> bytes \<Rightarrow> bytes \<Rightarrow> fdb_kvdb \<Rightarrow> (bytes option \<times> bytes \<times> fdb_kvdb) option" where
  "fdb_kv_get cfg kv key value db = do {
     let blob = \<lparr>blob_buf = None, blob_size = 0, saved_meta_addr = 0, saved_addr = 0, saved_len = 0\<rparr>;
     (get_size, blob, db) \<leftarrow> fdb_kv_get_blob cfg kv key (fdb_blob_make blob (Some value) FDB_STR_KV_VALUE_MAX_SIZE) db;
     let value = the (blob_buf blob);
     if get_size > 0 \<and> fdb_is_str (take get_size value)
     then do {
       value \<leftarrow> mem_write value get_size [0];
       Some (Some (take get_size value), value, db) }
     else Some (None, value, db) }"

end
