(* ===== verification/Fdb_Kvdb_Write.thy ===== *)
theory Fdb_Kvdb_Write
  imports Fdb_Kvdb_Ops
begin

text \<open>
  The operations of the key-value database that write: formatting, allocation, creation, deletion and moving of
  records, garbage collection, recovery, initialisation, and the iterator and the check of the public interface
  (\<open>fdb_kvdb.c\<close>, \<open>fdb.c\<close>).
\<close>

unbundle bit_operations_syntax

section \<open>Sectors\<close>

definition sector_hdr :: "u32 \<Rightarrow> bytes" where
  "sector_hdr combined_value =
     snd (fdb_set_status FDB_SECTOR_STORE_STATUS_NUM FDB_SECTOR_STORE_EMPTY) @
     snd (fdb_set_status FDB_SECTOR_DIRTY_STATUS_NUM FDB_SECTOR_DIRTY_FALSE) @
     replicate 2 FDB_BYTE_ERASED @ le32 SECTOR_MAGIC_WORD @ le32 combined_value @ le32 (of_nat FDB_DATA_UNUSED)"

definition format_sector :: "fdb_cfg \<Rightarrow> nat \<Rightarrow> u32 \<Rightarrow> fdb_kvdb \<Rightarrow> (fdb_err \<times> fdb_kvdb) option" where
  "format_sector cfg addr combined_value db =
     (if sec_size cfg = 0 \<or> addr mod sec_size cfg \<noteq> 0 then None
      else
        (case fdb_flash_erase (flash db) addr (sec_size cfg) of
           (result, f) \<Rightarrow>
             let db = db\<lparr>flash := f\<rparr>
             in if result \<noteq> FDB_NO_ERR then Some (result, db)
                else
                  (case db_flash_write addr (sector_hdr combined_value) db of
                     (result, db) \<Rightarrow>
                       Some (result,
                             update_sector_cache (sec_zero\<lparr>sec_addr := addr, check_ok := False, empty_kv := FAILED_ADDR\<rparr>) db))))"

text \<open>The flag \<open>is_full\<close> is an argument and a result; where the source passes \<open>NULL\<close> the result is dropped.\<close>

definition update_sec_status ::
  "kvdb_sec_info \<Rightarrow> nat \<Rightarrow> bool \<Rightarrow> fdb_kvdb \<Rightarrow> (fdb_err \<times> bool \<times> fdb_kvdb) option" where
  "update_sec_status sector new_kv_len is_full db =
     (if store_status sector = FDB_SECTOR_STORE_EMPTY
      then do {
        (result, db) \<leftarrow> db_write_status (sec_addr sector) FDB_SECTOR_STORE_STATUS_NUM FDB_SECTOR_STORE_USING db;
        Some (result, is_full, update_sector_status_store_cache (sec_addr sector) FDB_SECTOR_STORE_USING db) }
      else if store_status sector = FDB_SECTOR_STORE_USING
      then
        (if remain sector < FDB_SEC_REMAIN_THRESHOLD \<or> sub32 (remain sector) new_kv_len < FDB_SEC_REMAIN_THRESHOLD
         then do {
           (result, db) \<leftarrow> db_write_status (sec_addr sector) FDB_SECTOR_STORE_STATUS_NUM FDB_SECTOR_STORE_FULL db;
           Some (result, True, update_sector_status_store_cache (sec_addr sector) FDB_SECTOR_STORE_FULL db) }
         else Some (FDB_NO_ERR, False, db))
      else Some (FDB_NO_ERR, is_full, db))"

section \<open>Allocation\<close>

definition sector_statistics_cb ::
  "kvdb_sec_info \<Rightarrow> nat \<times> nat \<Rightarrow> fdb_kvdb \<Rightarrow> (bool \<times> (nat \<times> nat) \<times> fdb_kvdb) option" where
  "sector_statistics_cb sector x db =
     (case x of (empty_sector, using_sector) \<Rightarrow>
        Some (False,
              (if check_ok sector \<and> store_status sector = FDB_SECTOR_STORE_EMPTY then (empty_sector + 1, using_sector)
               else if check_ok sector \<and> store_status sector = FDB_SECTOR_STORE_USING then (empty_sector, using_sector + 1)
               else (empty_sector, using_sector)), db))"

definition alloc_kv_cb :: "nat \<Rightarrow> kvdb_sec_info \<Rightarrow> nat \<Rightarrow> fdb_kvdb \<Rightarrow> (bool \<times> nat \<times> fdb_kvdb) option" where
  "alloc_kv_cb kv_size sector free_kv db =
     Some (if check_ok sector \<and> remain sector > add32 kv_size FDB_SEC_REMAIN_THRESHOLD
              \<and> (dirty_status sector = FDB_SECTOR_DIRTY_FALSE
                 \<or> (dirty_status sector = FDB_SECTOR_DIRTY_TRUE \<and> \<not> gc_request db))
           then (True, empty_kv sector, db) else (False, free_kv, db))"

definition alloc_kv :: "fdb_cfg \<Rightarrow> kvdb_sec_info \<Rightarrow> nat \<Rightarrow> fdb_kvdb \<Rightarrow> (nat \<times> kvdb_sec_info \<times> fdb_kvdb) option" where
  "alloc_kv cfg sector kv_size db = do {
     (sector, (empty_sector, using_sector), db) \<leftarrow>
       sector_iterator cfg sector FDB_SECTOR_STORE_UNUSED (0, 0) sector_statistics_cb False db;
     (sector, free_kv, db) \<leftarrow>
       (if using_sector > 0
        then sector_iterator cfg sector FDB_SECTOR_STORE_USING FAILED_ADDR (alloc_kv_cb kv_size) True db
        else Some (sector, FAILED_ADDR, db));
     if empty_sector > 0 \<and> free_kv = FAILED_ADDR
     then
       (if empty_sector > FDB_GC_EMPTY_SEC_THRESHOLD \<or> gc_request db
        then do {
          (sector, free_kv, db) \<leftarrow> sector_iterator cfg sector FDB_SECTOR_STORE_EMPTY free_kv (alloc_kv_cb kv_size) True db;
          Some (free_kv, sector, db) }
        else Some (free_kv, sector, db\<lparr>gc_request := True\<rparr>))
     else Some (free_kv, sector, db) }"

section \<open>Deleting and moving a record\<close>

text \<open>The end of \<open>del_kv\<close>: the sector of the record is marked dirty.\<close>

definition mark_dirty :: "fdb_cfg \<Rightarrow> nat \<Rightarrow> fdb_err \<Rightarrow> fdb_kvdb \<Rightarrow> (fdb_err \<times> fdb_kvdb) option" where
  "mark_dirty cfg start result db =
     (let sector = FDB_ALIGN_DOWN start (sec_size cfg);
          dirty_status_addr = sector + SECTOR_DIRTY_OFFSET
      in if result \<noteq> FDB_NO_ERR then Some (result, db)
         else do {
           dirty \<leftarrow> fdb_read_status (flash db) dirty_status_addr FDB_SECTOR_DIRTY_STATUS_NUM;
           if dirty = FDB_SECTOR_DIRTY_FALSE
           then do {
             (result, db) \<leftarrow> db_write_status dirty_status_addr FDB_SECTOR_DIRTY_STATUS_NUM FDB_SECTOR_DIRTY_TRUE db;
             Some (result,
                   case get_sector_from_cache db sector of
                     None \<Rightarrow> db
                   | Some i \<Rightarrow>
                       db\<lparr>sector_cache_table := (sector_cache_table db)
                            [i := (sector_cache_table db ! i)\<lparr>dirty_status := FDB_SECTOR_DIRTY_TRUE\<rparr>]\<rparr>) }
           else Some (result, db) })"

definition del_found_kv :: "fdb_cfg \<Rightarrow> bytes option \<Rightarrow> fdb_kv \<Rightarrow> bool \<Rightarrow> fdb_kvdb \<Rightarrow> (fdb_err \<times> fdb_kvdb) option" where
  "del_found_kv cfg key old_kv complete_del db = do {
     (result, db) \<leftarrow>
       (if \<not> complete_del
        then do {
          (result, db) \<leftarrow> db_write_status (addr_start old_kv) FDB_KV_STATUS_NUM FDB_KV_PRE_DELETE db;
          Some (result, db\<lparr>last_is_complete_del := True\<rparr>) }
        else do {
          (result, db) \<leftarrow> db_write_status (addr_start old_kv) FDB_KV_STATUS_NUM FDB_KV_DELETED db;
          db \<leftarrow> (if \<not> last_is_complete_del db \<and> result = FDB_NO_ERR
                then (case key of
                        Some k \<Rightarrow> Some (update_kv_cache k FDB_DATA_UNUSED db)
                      | None \<Rightarrow> map_option (\<lambda>n. update_kv_cache n FDB_DATA_UNUSED db)
                                  (mem_read (kv_name old_kv) 0 (name_len old_kv)))
                else Some db);
          Some (result, db\<lparr>last_is_complete_del := False\<rparr>) });
     mark_dirty cfg (addr_start old_kv) result db }"

definition del_kv :: "fdb_cfg \<Rightarrow> bytes option \<Rightarrow> fdb_kv option \<Rightarrow> bool \<Rightarrow> fdb_kvdb \<Rightarrow> (fdb_err \<times> fdb_kvdb) option" where
  "del_kv cfg key old_kv complete_del db =
     (case old_kv of
        Some kv \<Rightarrow> del_found_kv cfg key kv complete_del db
      | None \<Rightarrow> do {
          k \<leftarrow> key;
          (found, kv, db) \<leftarrow> find_kv cfg k kv_zero db;
          if found then del_found_kv cfg key kv complete_del db else Some (FDB_KV_NAME_ERR, db) })"

function move_loop :: "nat \<Rightarrow> nat \<Rightarrow> nat \<Rightarrow> nat \<Rightarrow> bytes option \<Rightarrow> fdb_err \<Rightarrow> fdb_kvdb \<Rightarrow> (fdb_err \<times> fdb_kvdb) option" where
  "move_loop src dst len n buf result db =
     (if len < n
      then
        (let sz = (if len + 32 < n then 32 else n - len)
         in case read_buf (flash db) (src + len) (FDB_WG_ALIGN sz) buf of
              None \<Rightarrow> None
            | Some buf \<Rightarrow>
                (case db_flash_write (dst + len) (take sz buf) db of
                   (result, db) \<Rightarrow> move_loop src dst (len + sz) n (Some buf) result db))
      else Some (result, db))"
  by pat_completeness auto
termination
  by (relation "measure (\<lambda>(src, dst, len, n, buf, result, db). n - len)") (auto simp: Let_def split: if_splits)

declare move_loop.simps [simp del]

definition move_to :: "fdb_cfg \<Rightarrow> fdb_kv \<Rightarrow> kvdb_sec_info \<Rightarrow> nat \<Rightarrow> fdb_kvdb \<Rightarrow> (fdb_err \<times> fdb_kvdb) option" where
  "move_to cfg kv sector kv_addr db = do {
     (_, _, db) \<leftarrow> update_sec_status sector (kv_len kv) False db;
     (_, db) \<leftarrow> db_write_status kv_addr FDB_KV_STATUS_NUM FDB_KV_PRE_WRITE db;
     (result, db) \<leftarrow> move_loop (addr_start kv + KV_MAGIC_OFFSET) (kv_addr + KV_MAGIC_OFFSET) 0 (kv_len kv - KV_MAGIC_OFFSET)
                       None FDB_NO_ERR db;
     (_, db) \<leftarrow> db_write_status kv_addr FDB_KV_STATUS_NUM FDB_KV_WRITE db;
     let db = update_sector_empty_addr_cache cfg (FDB_ALIGN_DOWN kv_addr (sec_size cfg))
                (kv_addr + KV_HDR_DATA_SIZE + FDB_WG_ALIGN (name_len kv) + FDB_WG_ALIGN (value_len kv)) db;
     name \<leftarrow> mem_read (kv_name kv) 0 (name_len kv);
     Some (result, update_kv_cache name kv_addr db) }"

definition move_kv :: "fdb_cfg \<Rightarrow> fdb_kv \<Rightarrow> fdb_kvdb \<Rightarrow> (fdb_err \<times> fdb_kvdb) option" where
  "move_kv cfg kv db = do {
     (_, db) \<leftarrow> (if kv_status kv = FDB_KV_WRITE then del_kv cfg None (Some kv) False db else Some (FDB_NO_ERR, db));
     (kv_addr, sector, db) \<leftarrow> alloc_kv cfg sec_zero (kv_len kv) db;
     if kv_addr = FAILED_ADDR then Some (FDB_SAVED_FULL, db)
     else do {
       (created, db) \<leftarrow>
         (if in_recovery_check db \<and> kv_status kv = FDB_KV_PRE_DELETE
          then do {
            name \<leftarrow> mem_read (kv_name kv) 0 (name_len kv);
            (found, _, db) \<leftarrow> find_kv_no_cache cfg (takeWhile (\<lambda>b. b \<noteq> 0) name) kv_zero db;
            Some (found, db) }
          else Some (False, db));
       (result, db) \<leftarrow> (if created then Some (FDB_NO_ERR, db) else move_to cfg kv sector kv_addr db);
       (_, db) \<leftarrow> del_kv cfg None (Some kv) True db;
       Some (result, db) } }"

section \<open>Garbage collection\<close>

definition gc_check_cb :: "kvdb_sec_info \<Rightarrow> nat \<times> nat \<Rightarrow> fdb_kvdb \<Rightarrow> (bool \<times> (nat \<times> nat) \<times> fdb_kvdb) option" where
  "gc_check_cb sector x db =
     Some (False, if check_ok sector then (fst x + 1, sec_addr sector) else x, db)"

definition gc_move_body :: "fdb_cfg \<Rightarrow> fdb_err \<Rightarrow> fdb_kv \<Rightarrow> unit \<Rightarrow> fdb_kvdb \<Rightarrow> (bool \<times> unit \<times> fdb_kvdb) option" where
  "gc_move_body cfg r kv x db =
     (if crc_is_ok kv \<and> (kv_status kv = FDB_KV_WRITE \<or> kv_status kv = FDB_KV_PRE_DELETE)
      then map_option (\<lambda>(_, db). (False, (), db)) (move_kv cfg kv db)
      else Some (False, (), db))"

definition do_gc :: "fdb_cfg \<Rightarrow> nat \<Rightarrow> kvdb_sec_info \<Rightarrow> nat \<Rightarrow> fdb_kvdb \<Rightarrow> (bool \<times> nat \<times> fdb_kvdb) option" where
  "do_gc cfg setting_free_size sector last_gc_sec_addr db =
     (if check_ok sector \<and> (dirty_status sector = FDB_SECTOR_DIRTY_TRUE \<or> dirty_status sector = FDB_SECTOR_DIRTY_GC)
      then do {
        (_, db) \<leftarrow> db_write_status (sec_addr sector + SECTOR_DIRTY_OFFSET) FDB_SECTOR_DIRTY_STATUS_NUM FDB_SECTOR_DIRTY_GC db;
        (_, _, _, db) \<leftarrow> kv_walk cfg sector (gc_move_body cfg)
                           (kv_zero\<lparr>addr_start := sec_addr sector + SECTOR_HDR_DATA_SIZE\<rparr>) () db;
        (_, db) \<leftarrow> format_sector cfg (sec_addr sector) SECTOR_NOT_COMBINED db;
        let db = db\<lparr>oldest_addr := get_next_sector_addr cfg sector 0\<rparr>;
        (r, last_gc_sector, db) \<leftarrow> read_sector_info cfg last_gc_sec_addr sec_zero True db;
        Some (r = FDB_NO_ERR \<and> remain last_gc_sector > setting_free_size, sec_addr sector, db) }
      else Some (False, last_gc_sec_addr, db))"

definition gc_collect_by_free_size :: "fdb_cfg \<Rightarrow> nat \<Rightarrow> fdb_kvdb \<Rightarrow> fdb_kvdb option" where
  "gc_collect_by_free_size cfg free_size db = do {
     (sector, (empty_sec_num, empty_sec_addr), db) \<leftarrow>
       sector_iterator cfg sec_zero FDB_SECTOR_STORE_EMPTY (0, 0) gc_check_cb False db;
     db \<leftarrow> (if empty_sec_num \<le> FDB_GC_EMPTY_SEC_THRESHOLD
           then do {
             (_, _, db) \<leftarrow> sector_iterator cfg sector FDB_SECTOR_STORE_UNUSED empty_sec_addr (do_gc cfg free_size) False db;
             Some db }
           else Some db);
     Some (db\<lparr>gc_request := False\<rparr>) }"

definition gc_collect :: "fdb_cfg \<Rightarrow> fdb_kvdb \<Rightarrow> fdb_kvdb option" where
  "gc_collect cfg db = gc_collect_by_free_size cfg (max_size cfg) db"

definition new_kv :: "fdb_cfg \<Rightarrow> kvdb_sec_info \<Rightarrow> nat \<Rightarrow> fdb_kvdb \<Rightarrow> (nat \<times> kvdb_sec_info \<times> fdb_kvdb) option" where
  "new_kv cfg sector kv_size db = do {
     (free_kv, sector, db) \<leftarrow> alloc_kv cfg sector kv_size db;
     if free_kv = FAILED_ADDR \<and> gc_request db
     then do {
       db \<leftarrow> gc_collect_by_free_size cfg kv_size db;
       (free_kv, sector, db) \<leftarrow> alloc_kv cfg sector kv_size db;
       Some (free_kv, sector, if free_kv = FAILED_ADDR then db\<lparr>gc_request := False\<rparr> else db) }
     else Some (free_kv, sector, db) }"

definition new_kv_ex :: "fdb_cfg \<Rightarrow> kvdb_sec_info \<Rightarrow> nat \<Rightarrow> nat \<Rightarrow> fdb_kvdb \<Rightarrow> (nat \<times> kvdb_sec_info \<times> fdb_kvdb) option" where
  "new_kv_ex cfg sector key_len buf_len db =
     new_kv cfg sector (add32 KV_HDR_DATA_SIZE (add32 (FDB_WG_ALIGN key_len) (FDB_WG_ALIGN buf_len))) db"

section \<open>Creating a record\<close>

text \<open>
  The part of the header after the status and its padding: magic word, length, CRC, name length with three bytes of
  padding, value length.
\<close>

definition kv_hdr_crc :: "bytes \<Rightarrow> bytes \<Rightarrow> u32" where
  "kv_hdr_crc key val =
     (let crc = fdb_calc_crc32 0 (of_nat (length key) # replicate 3 FDB_BYTE_ERASED);
          crc = fdb_calc_crc32 crc (le32 (of_nat (length val)));
          crc = fdb_calc_crc32 crc key;
          crc = foldl (\<lambda>crc _. fdb_calc_crc32 crc [FDB_BYTE_ERASED]) crc [0..<FDB_WG_ALIGN (length key) - length key];
          crc = fdb_calc_crc32 crc val
      in foldl (\<lambda>crc _. fdb_calc_crc32 crc [FDB_BYTE_ERASED]) crc [0..<FDB_WG_ALIGN (length val) - length val])"

definition kv_hdr_tail :: "nat \<Rightarrow> bytes \<Rightarrow> bytes \<Rightarrow> bytes" where
  "kv_hdr_tail len key val =
     le32 KV_MAGIC_WORD @ le32 (of_nat len) @ le32 (kv_hdr_crc key val) @
     (of_nat (length key) # replicate 3 FDB_BYTE_ERASED) @ le32 (of_nat (length val))"

definition write_kv_hdr :: "nat \<Rightarrow> bytes \<Rightarrow> fdb_kvdb \<Rightarrow> (fdb_err \<times> fdb_kvdb) option" where
  "write_kv_hdr addr hdr_tail db = do {
     (result, db) \<leftarrow> db_write_status addr FDB_KV_STATUS_NUM FDB_KV_PRE_WRITE db;
     Some (if result \<noteq> FDB_NO_ERR then (result, db) else db_flash_write (addr + KV_MAGIC_OFFSET) hdr_tail db) }"

definition db_write_align :: "nat \<Rightarrow> bytes \<Rightarrow> fdb_kvdb \<Rightarrow> fdb_err \<times> fdb_kvdb" where
  "db_write_align addr buf db = (case fdb_flash_write_align (flash db) addr buf of (r, f) \<Rightarrow> (r, db\<lparr>flash := f\<rparr>))"

text \<open>Writing the record at its address, after the space is found and the sector's status is updated.\<close>

definition write_record ::
  "fdb_cfg \<Rightarrow> nat \<Rightarrow> bool \<Rightarrow> nat \<Rightarrow> nat \<Rightarrow> bytes \<Rightarrow> bytes \<Rightarrow> fdb_kvdb \<Rightarrow> (fdb_err \<times> fdb_kvdb) option" where
  "write_record cfg sector_addr is_full kv_addr len key val db = do {
     (result, db) \<leftarrow> write_kv_hdr kv_addr (kv_hdr_tail len key val) db;
     if result \<noteq> FDB_NO_ERR then Some (result, db)
     else do {
       let (result, db) = db_write_align (kv_addr + KV_HDR_DATA_SIZE) key db;
       let db = (if is_full then db
                 else update_sector_empty_addr_cache cfg sector_addr
                        (kv_addr + KV_HDR_DATA_SIZE + FDB_WG_ALIGN (length key) + FDB_WG_ALIGN (length val)) db);
       let db = update_kv_cache key kv_addr db;
       let (result, db) = (if result = FDB_NO_ERR
                           then db_write_align (kv_addr + KV_HDR_DATA_SIZE + FDB_WG_ALIGN (length key)) val db
                           else (result, db));
       (result, db) \<leftarrow> (if result = FDB_NO_ERR then db_write_status kv_addr FDB_KV_STATUS_NUM FDB_KV_WRITE db
                        else Some (result, db));
       Some (result, if result = FDB_NO_ERR \<and> is_full then db\<lparr>gc_request := True\<rparr> else db) } }"

text \<open>\<open>value\<close> points to the object \<open>value\<close>, of which \<open>len\<close> bytes are read.\<close>

definition create_kv_blob ::
  "fdb_cfg \<Rightarrow> kvdb_sec_info \<Rightarrow> bytes \<Rightarrow> bytes \<Rightarrow> nat \<Rightarrow> fdb_kvdb \<Rightarrow> (fdb_err \<times> kvdb_sec_info \<times> fdb_kvdb) option" where
  "create_kv_blob cfg sector key value len db =
     (let hdr_len = add32 KV_HDR_DATA_SIZE (add32 (FDB_WG_ALIGN (length key)) (FDB_WG_ALIGN len))
      in if length key > FDB_KV_NAME_MAX then Some (FDB_KV_NAME_ERR, sector, db)
         else if hdr_len > sub32 (sec_size cfg) SECTOR_HDR_DATA_SIZE then Some (FDB_SAVED_FULL, sector, db)
         else do {
           (kv_addr, sector, db) \<leftarrow>
             (if empty_kv sector \<noteq> FAILED_ADDR then Some (empty_kv sector, sector, db) else new_kv cfg sector hdr_len db);
           if kv_addr = FAILED_ADDR then Some (FDB_SAVED_FULL, sector, db)
           else do {
             (result, is_full, db) \<leftarrow> update_sec_status sector hdr_len False db;
             if result \<noteq> FDB_NO_ERR then Some (result, sector, db)
             else do {
               val \<leftarrow> mem_read value 0 len;
               (result, db) \<leftarrow> write_record cfg (sec_addr sector) is_full kv_addr hdr_len key val db;
               Some (result, sector, db) } } })"

section \<open>Setting and deleting\<close>

definition fdb_kv_del :: "fdb_cfg \<Rightarrow> bytes \<Rightarrow> fdb_kvdb \<Rightarrow> (fdb_err \<times> fdb_kvdb) option" where
  "fdb_kv_del cfg key db =
     (if \<not> db_init_ok db then Some (FDB_INIT_FAILED, db) else del_kv cfg (Some key) None True db)"

definition set_kv :: "fdb_cfg \<Rightarrow> bytes \<Rightarrow> bytes option \<Rightarrow> nat \<Rightarrow> fdb_kvdb \<Rightarrow> (fdb_err \<times> fdb_kvdb) option" where
  "set_kv cfg key value_buf buf_len db =
     (case value_buf of
        None \<Rightarrow> del_kv cfg (Some key) None True db
      | Some value \<Rightarrow> do {
          (addr, sector, db) \<leftarrow> new_kv_ex cfg (cur_sector db) (length key) buf_len db;
          let db = db\<lparr>cur_sector := sector\<rparr>;
          if addr = FAILED_ADDR then Some (FDB_SAVED_FULL, db)
          else do {
            (kv_is_found, kv, db) \<leftarrow> find_kv cfg key (cur_kv db) db;
            let db = db\<lparr>cur_kv := kv\<rparr>;
            (result, db) \<leftarrow> (if kv_is_found then del_kv cfg (Some key) (Some kv) False db else Some (FDB_NO_ERR, db));
            (result, db) \<leftarrow>
              (if result = FDB_NO_ERR
               then do {
                 (result, sector, db) \<leftarrow> create_kv_blob cfg (cur_sector db) key value buf_len db;
                 Some (result, db\<lparr>cur_sector := sector\<rparr>) }
               else Some (result, db));
            (result, db) \<leftarrow> (if kv_is_found \<and> result = FDB_NO_ERR then del_kv cfg (Some key) (Some (cur_kv db)) True db
                             else Some (result, db));
            db \<leftarrow> (if gc_request db
                  then gc_collect_by_free_size cfg
                         (add32 KV_HDR_DATA_SIZE (add32 (FDB_WG_ALIGN (length key)) (FDB_WG_ALIGN buf_len))) db
                  else Some db);
            Some (result, db) } })"

definition fdb_kv_set_blob :: "fdb_cfg \<Rightarrow> bytes \<Rightarrow> fdb_blob \<Rightarrow> fdb_kvdb \<Rightarrow> (fdb_err \<times> fdb_kvdb) option" where
  "fdb_kv_set_blob cfg key blob db =
     (if \<not> db_init_ok db then Some (FDB_INIT_FAILED, db) else set_kv cfg key (blob_buf blob) (blob_size blob) db)"

definition fdb_kv_set :: "fdb_cfg \<Rightarrow> bytes \<Rightarrow> bytes option \<Rightarrow> fdb_kvdb \<Rightarrow> (fdb_err \<times> fdb_kvdb) option" where
  "fdb_kv_set cfg key value db =
     (case value of
        Some v \<Rightarrow>
          fdb_kv_set_blob cfg key
            (fdb_blob_make \<lparr>blob_buf = None, blob_size = 0, saved_meta_addr = 0, saved_addr = 0, saved_len = 0\<rparr>
               (Some v) (length v)) db
      | None \<Rightarrow> fdb_kv_del cfg key db)"

section \<open>Defaults\<close>

function format_all :: "fdb_cfg \<Rightarrow> nat \<Rightarrow> fdb_kvdb \<Rightarrow> (fdb_err \<times> fdb_kvdb) option" where
  "format_all cfg addr db =
     (if addr < max_size cfg \<and> sec_size cfg \<noteq> 0
      then
        (case format_sector cfg addr SECTOR_NOT_COMBINED db of
           None \<Rightarrow> None
         | Some (result, db) \<Rightarrow> if result \<noteq> FDB_NO_ERR then Some (result, db) else format_all cfg (addr + sec_size cfg) db)
      else if addr < max_size cfg then None
      else Some (FDB_NO_ERR, db))"
  by pat_completeness auto
termination
  by (relation "measure (\<lambda>(cfg, addr, db). max_size cfg - addr)") auto

declare format_all.simps [simp del]

text \<open>\<open>strlen\<close>; \<open>None\<close> when the object has no terminating zero.\<close>

definition c_strlen :: "bytes \<Rightarrow> nat option" where
  "c_strlen s = find_index (\<lambda>b. b = 0) s"

fun create_defaults :: "fdb_cfg \<Rightarrow> fdb_default_kv_node list \<Rightarrow> kvdb_sec_info \<Rightarrow> fdb_kvdb \<Rightarrow> fdb_kvdb option" where
  "create_defaults cfg [] sector db = Some db"
| "create_defaults cfg (d # ds) sector db = do {
     value_len \<leftarrow> (if def_value_len d = 0 then c_strlen (def_value d) else Some (def_value_len d));
     (_, sector, db) \<leftarrow> create_kv_blob cfg (sector\<lparr>empty_kv := FAILED_ADDR\<rparr>) (def_key d) (def_value d) value_len db;
     create_defaults cfg ds sector db }"

definition fdb_kv_set_default :: "fdb_cfg \<Rightarrow> fdb_kvdb \<Rightarrow> (fdb_err \<times> fdb_kvdb) option" where
  "fdb_kv_set_default cfg db = do {
     let db = db\<lparr>kv_cache_table := map (\<lambda>n. n\<lparr>cache_addr := FDB_DATA_UNUSED\<rparr>) (kv_cache_table db)\<rparr>;
     (result, db) \<leftarrow> format_all cfg 0 db;
     db \<leftarrow> (if result = FDB_NO_ERR then create_defaults cfg (default_kvs db) sec_zero db else Some db);
     Some (result, db\<lparr>oldest_addr := 0\<rparr>) }"

text \<open>Printing all records, without the output: what the callback computes is the size in use.\<close>

definition print_kv_cb :: "fdb_kv \<Rightarrow> nat \<Rightarrow> fdb_kvdb \<Rightarrow> (bool \<times> nat \<times> fdb_kvdb) option" where
  "print_kv_cb kv using_size db = Some (False, if crc_is_ok kv then add32 using_size (kv_len kv) else using_size, db)"

definition fdb_kv_print :: "fdb_cfg \<Rightarrow> fdb_kvdb \<Rightarrow> fdb_kvdb option" where
  "fdb_kv_print cfg db =
     (if \<not> db_init_ok db then Some db
      else map_option (\<lambda>(_, _, db). db) (kv_iterator cfg kv_zero 0 print_kv_cb db))"

section \<open>Recovery and initialisation\<close>

definition check_oldest_addr_cb :: "kvdb_sec_info \<Rightarrow> nat \<times> nat \<Rightarrow> fdb_kvdb \<Rightarrow> (bool \<times> (nat \<times> nat) \<times> fdb_kvdb) option" where
  "check_oldest_addr_cb sector x db =
     (case x of (sector_oldest_addr, last_sector_status) \<Rightarrow>
        Some (False,
              (if last_sector_status = FDB_SECTOR_STORE_EMPTY
                  \<and> (store_status sector = FDB_SECTOR_STORE_FULL \<or> store_status sector = FDB_SECTOR_STORE_USING)
               then sec_addr sector else sector_oldest_addr, store_status sector), db))"

definition check_sec_hdr_cb :: "fdb_cfg \<Rightarrow> kvdb_sec_info \<Rightarrow> nat \<Rightarrow> fdb_kvdb \<Rightarrow> (bool \<times> nat \<times> fdb_kvdb) option" where
  "check_sec_hdr_cb cfg sector failed_count db =
     (if \<not> check_ok sector
      then
        (if not_formatable cfg then Some (True, failed_count + 1, db)
         else do {
           (_, db) \<leftarrow> format_sector cfg (sec_addr sector) SECTOR_NOT_COMBINED db;
           Some (False, failed_count + 1, db) })
      else Some (False, failed_count, db))"

definition check_and_recovery_gc_cb :: "fdb_cfg \<Rightarrow> kvdb_sec_info \<Rightarrow> unit \<Rightarrow> fdb_kvdb \<Rightarrow> (bool \<times> unit \<times> fdb_kvdb) option" where
  "check_and_recovery_gc_cb cfg sector x db =
     (if check_ok sector \<and> dirty_status sector = FDB_SECTOR_DIRTY_GC
      then map_option (\<lambda>db. (False, (), db)) (gc_collect cfg (db\<lparr>gc_request := True\<rparr>))
      else Some (False, (), db))"

definition check_and_recovery_kv_cb :: "fdb_cfg \<Rightarrow> fdb_kv \<Rightarrow> unit \<Rightarrow> fdb_kvdb \<Rightarrow> (bool \<times> unit \<times> fdb_kvdb) option" where
  "check_and_recovery_kv_cb cfg kv x db =
     (if crc_is_ok kv \<and> kv_status kv = FDB_KV_PRE_DELETE
      then do {
        (r, db) \<leftarrow> move_kv cfg kv db;
        Some (r \<noteq> FDB_NO_ERR, (), db) }
      else if kv_status kv = FDB_KV_PRE_WRITE
      then do {
        (_, db) \<leftarrow> db_write_status (addr_start kv) FDB_KV_STATUS_NUM FDB_KV_ERR_HDR db;
        Some (True, (), db) }
      else if crc_is_ok kv \<and> kv_status kv = FDB_KV_WRITE
      then do {
        name \<leftarrow> mem_read (kv_name kv) 0 (name_len kv);
        Some (False, (), update_kv_cache name (addr_start kv) db) }
      else Some (False, (), db))"

text \<open>The loop of \<open>goto __retry\<close>; \<open>None\<close> also stands for its running forever.\<close>

partial_function (option) recovery_loop :: "fdb_cfg \<Rightarrow> fdb_kv \<Rightarrow> fdb_kvdb \<Rightarrow> fdb_kvdb option" where
  "recovery_loop cfg kv db = do {
     (kv, _, db) \<leftarrow> kv_iterator cfg kv () (check_and_recovery_kv_cb cfg) db;
     if gc_request db
     then do {
       db \<leftarrow> gc_collect cfg db;
       recovery_loop cfg kv db }
     else Some db }"

definition fdb_kv_load :: "fdb_cfg \<Rightarrow> fdb_kvdb \<Rightarrow> (fdb_err \<times> fdb_kvdb) option" where
  "fdb_kv_load cfg db = do {
     let db = db\<lparr>in_recovery_check := True\<rparr>;
     (sector, check_failed_count, db) \<leftarrow> sector_iterator cfg sec_zero FDB_SECTOR_STORE_UNUSED 0 (check_sec_hdr_cb cfg) False db;
     if not_formatable cfg \<and> check_failed_count > 0 then Some (FDB_READ_ERR, db)
     else do {
       db \<leftarrow> (if check_failed_count = max_size cfg div sec_size cfg
             then map_option snd (fdb_kv_set_default cfg db) else Some db);
       (_, _, db) \<leftarrow> sector_iterator cfg sector FDB_SECTOR_STORE_UNUSED () (check_and_recovery_gc_cb cfg) False db;
       db \<leftarrow> recovery_loop cfg kv_zero db;
       Some (FDB_NO_ERR, db\<lparr>in_recovery_check := False\<rparr>) } }"

text \<open>
  The block size and the length of the partition that FAL finds, \<open>None\<close> when there is no partition of that name. A
  zero block size, and a zero sector size in the checks, are divisions by zero.
\<close>

definition fdb_init_ex :: "(nat \<times> nat) option \<Rightarrow> bool \<Rightarrow> fdb_cfg \<Rightarrow> (fdb_err \<times> fdb_cfg) option" where
  "fdb_init_ex part already_ok cfg =
     (if already_ok then Some (FDB_NO_ERR, cfg)
      else
        (case part of
           None \<Rightarrow> Some (FDB_PART_NOT_FOUND, cfg)
         | Some (block_size, len) \<Rightarrow>
             if sec_size cfg \<noteq> 0 \<and> block_size = 0 then None
             else if sec_size cfg \<noteq> 0 \<and> sec_size cfg mod block_size \<noteq> 0 then Some (FDB_INIT_FAILED, cfg)
             else
               (let cfg = cfg\<lparr>sec_size := if sec_size cfg = 0 then block_size else sec_size cfg, max_size := len\<rparr>
                in if (of_nat (sec_size cfg) :: u32) AND (of_nat (sec_size cfg) - 1) \<noteq> 0 \<or> sec_size cfg = 0 then None
                   else if max_size cfg mod sec_size cfg \<noteq> 0 then Some (FDB_INIT_FAILED, cfg)
                   else if max_size cfg div sec_size cfg < 2 then Some (FDB_INIT_FAILED, cfg)
                   else Some (FDB_NO_ERR, cfg))))"

definition fdb_init_finish :: "fdb_err \<Rightarrow> fdb_kvdb \<Rightarrow> fdb_kvdb" where
  "fdb_init_finish result db = (if result = FDB_NO_ERR then db\<lparr>db_init_ok := True\<rparr> else db)"

definition fdb_deinit :: "fdb_kvdb \<Rightarrow> fdb_kvdb" where
  "fdb_deinit db = db\<lparr>db_init_ok := False\<rparr>"

definition clear_caches :: "fdb_kvdb \<Rightarrow> fdb_kvdb" where
  "clear_caches db =
     db\<lparr>sector_cache_table :=
           map (\<lambda>s. s\<lparr>check_ok := False, empty_kv := FAILED_ADDR, sec_addr := FDB_DATA_UNUSED\<rparr>) (sector_cache_table db),
        kv_cache_table := map (\<lambda>n. n\<lparr>cache_addr := FDB_DATA_UNUSED\<rparr>) (kv_cache_table db)\<rparr>"

definition fdb_kvdb_init ::
  "(nat \<times> nat) option \<Rightarrow> fdb_default_kv_node list option \<Rightarrow> fdb_cfg \<Rightarrow> fdb_kvdb \<Rightarrow> (fdb_err \<times> fdb_cfg \<times> fdb_kvdb) option" where
  "fdb_kvdb_init part default_kv cfg db = do {
     (result, cfg) \<leftarrow> fdb_init_ex part (db_init_ok db) cfg;
     if result \<noteq> FDB_NO_ERR then Some (result, cfg, fdb_init_finish result db)
     else do {
       let db = db\<lparr>gc_request := False, in_recovery_check := False,
                   default_kvs := (case default_kv of Some d \<Rightarrow> d | None \<Rightarrow> []), oldest_addr := 0\<rparr>;
       (_, (sector_oldest_addr, _), db) \<leftarrow>
         sector_iterator cfg sec_zero FDB_SECTOR_STORE_UNUSED (0, FDB_SECTOR_STORE_UNUSED) check_oldest_addr_cb False db;
       let db = db\<lparr>oldest_addr := sector_oldest_addr\<rparr>;
       if \<not> (FDB_GC_EMPTY_SEC_THRESHOLD > 0 \<and> FDB_GC_EMPTY_SEC_THRESHOLD < max_size cfg div sec_size cfg) then None
       else do {
         (result, db) \<leftarrow> fdb_kv_load cfg (clear_caches db);
         Some (result, cfg, fdb_init_finish result db) } } }"

definition fdb_kvdb_deinit :: "fdb_kvdb \<Rightarrow> fdb_err \<times> fdb_kvdb" where
  "fdb_kvdb_deinit db = (FDB_NO_ERR, fdb_deinit db)"

datatype kvdb_cmd = CTRL_SET_SEC_SIZE nat | CTRL_GET_SEC_SIZE | CTRL_SET_LOCK | CTRL_SET_UNLOCK
  | CTRL_SET_FILE_MODE bool | CTRL_SET_MAX_SIZE nat | CTRL_SET_NOT_FORMAT bool

text \<open>The value written through \<open>arg\<close> and the configuration. File mode is not compiled in.\<close>

fun fdb_kvdb_control :: "kvdb_cmd \<Rightarrow> fdb_kvdb \<Rightarrow> fdb_cfg \<Rightarrow> (nat option \<times> fdb_cfg) option" where
  "fdb_kvdb_control (CTRL_SET_SEC_SIZE n) db cfg = (if db_init_ok db then None else Some (None, cfg\<lparr>sec_size := n\<rparr>))"
| "fdb_kvdb_control CTRL_GET_SEC_SIZE db cfg = Some (Some (sec_size cfg), cfg)"
| "fdb_kvdb_control (CTRL_SET_NOT_FORMAT b) db cfg = (if db_init_ok db then None else Some (None, cfg\<lparr>not_formatable := b\<rparr>))"
| "fdb_kvdb_control _ db cfg = Some (None, cfg)"

section \<open>The iterator and the check\<close>

record fdb_kv_iterator =
  curr_kv :: fdb_kv
  iterated_cnt :: nat
  iterated_obj_bytes :: nat
  iterated_value_bytes :: nat
  sector_addr :: nat
  traversed_len :: nat

definition fdb_kv_iterator_init :: "fdb_kvdb \<Rightarrow> fdb_kv_iterator \<Rightarrow> fdb_kv_iterator" where
  "fdb_kv_iterator_init db itr =
     itr\<lparr>curr_kv := (curr_kv itr)\<lparr>addr_start := 0\<rparr>, iterated_cnt := 0, iterated_obj_bytes := 0, iterated_value_bytes := 0,
         traversed_len := 0, sector_addr := oldest_addr db\<rparr>"

definition iterate_cb :: "fdb_err \<Rightarrow> fdb_kv \<Rightarrow> unit \<Rightarrow> fdb_kvdb \<Rightarrow> (bool \<times> unit \<times> fdb_kvdb) option" where
  "iterate_cb r kv x db = Some (kv_status kv = FDB_KV_WRITE \<and> crc_is_ok kv, (), db)"

text \<open>The records that remain in the current sector: the one found, if any.\<close>

definition iterate_sector ::
  "fdb_cfg \<Rightarrow> kvdb_sec_info \<Rightarrow> fdb_kv \<Rightarrow> fdb_kvdb \<Rightarrow> (bool \<times> fdb_kv \<times> fdb_kvdb) option" where
  "iterate_sector cfg sector kv db =
     (let start = (if addr_start kv = 0 then sec_addr sector + SECTOR_HDR_DATA_SIZE else get_next_kv_addr cfg db sector kv)
      in if addr_start kv \<noteq> 0 \<and> start = FAILED_ADDR then Some (False, kv, db)
         else do {
           (stop, kv, _, db) \<leftarrow> kv_walk cfg sector iterate_cb (kv\<lparr>addr_start := start\<rparr>) () db;
           Some (stop, kv, db) })"

function fdb_kv_iterate ::
  "fdb_cfg \<Rightarrow> kvdb_sec_info \<Rightarrow> fdb_kv_iterator \<Rightarrow> fdb_kvdb \<Rightarrow> (bool \<times> fdb_kv_iterator \<times> fdb_kvdb) option" where
  "fdb_kv_iterate cfg sector itr db =
     (if sec_size cfg = 0 then None
      else
        (case read_sector_info cfg (sector_addr itr) sector False db of
           None \<Rightarrow> None
         | Some (r, sector1, db1) \<Rightarrow>
             (case (if r = FDB_NO_ERR
                       \<and> (store_status sector1 = FDB_SECTOR_STORE_USING \<or> store_status sector1 = FDB_SECTOR_STORE_FULL)
                    then iterate_sector cfg sector1 (curr_kv itr) db1
                    else Some (False, curr_kv itr, db1)) of
                None \<Rightarrow> None
              | Some (found, kv, db2) \<Rightarrow>
                  if found
                  then Some (True,
                             itr\<lparr>curr_kv := kv, iterated_cnt := add32 (iterated_cnt itr) 1,
                                 iterated_obj_bytes := add32 (iterated_obj_bytes itr) (kv_len kv),
                                 iterated_value_bytes := add32 (iterated_value_bytes itr) (value_len kv)\<rparr>, db2)
                  else if get_next_sector_addr cfg sector1 (traversed_len itr + sec_size cfg) = FAILED_ADDR
                  then Some (False,
                             itr\<lparr>curr_kv := kv\<lparr>addr_start := 0\<rparr>, traversed_len := traversed_len itr + sec_size cfg,
                                 sector_addr := FAILED_ADDR\<rparr>, db2)
                  else fdb_kv_iterate cfg sector1
                         (itr\<lparr>curr_kv := kv\<lparr>addr_start := 0\<rparr>, traversed_len := traversed_len itr + sec_size cfg,
                              sector_addr := get_next_sector_addr cfg sector1 (traversed_len itr + sec_size cfg)\<rparr>) db2)))"
  by pat_completeness auto
termination
  by (relation "measure (\<lambda>(cfg, sector, itr, db). max_size cfg + 1 - traversed_len itr)")
    (auto simp: get_next_sector_addr_def Let_def split: if_splits)

declare fdb_kv_iterate.simps [simp del]

definition check_kv_body :: "fdb_err \<Rightarrow> fdb_kv \<Rightarrow> fdb_err \<Rightarrow> fdb_kvdb \<Rightarrow> (bool \<times> fdb_err \<times> fdb_kvdb) option" where
  "check_kv_body r kv x db = Some (r \<noteq> FDB_NO_ERR, r, db)"

definition check_sector_body ::
  "fdb_cfg \<Rightarrow> nat \<Rightarrow> kvdb_sec_info \<Rightarrow> fdb_kv \<times> fdb_err \<Rightarrow> fdb_kvdb \<Rightarrow>
   (bool \<times> kvdb_sec_info \<times> (fdb_kv \<times> fdb_err) \<times> fdb_kvdb) option" where
  "check_sector_body cfg addr sector x db = do {
     (result, sector, db) \<leftarrow> read_sector_info cfg addr sector False db;
     if result = FDB_NO_ERR
        \<and> (store_status sector = FDB_SECTOR_STORE_USING \<or> store_status sector = FDB_SECTOR_STORE_FULL)
     then do {
       (_, kv, result, db) \<leftarrow>
         kv_walk cfg sector check_kv_body ((fst x)\<lparr>addr_start := sec_addr sector + SECTOR_HDR_DATA_SIZE\<rparr>) result db;
       Some (result \<noteq> FDB_NO_ERR, sector, (kv, result), db) }
     else Some (result \<noteq> FDB_NO_ERR, sector, (fst x, result), db) }"

definition fdb_kvdb_check :: "fdb_cfg \<Rightarrow> fdb_kvdb \<Rightarrow> (fdb_err \<times> fdb_kvdb) option" where
  "fdb_kvdb_check cfg db =
     (if \<not> db_init_ok db then Some (FDB_INIT_FAILED, db)
      else map_option (\<lambda>(_, _, (_, result), db). (result, db))
             (sector_walk cfg (check_sector_body cfg) (oldest_addr db) 0 sec_zero (kv_zero, FDB_NO_ERR) db))"

end
