(* ===== verification/Fdb_Flash_Ops.thy ===== *)
theory Fdb_Flash_Ops
  imports Fdb_Utils
begin

text \<open>
  The operations that the database performs on its partition, as a sequence: what a sequence leaves in flash, and
  what a power failure at any moment of it leaves. Used by the proofs about the key-value database.
\<close>

unbundle bit_operations_syntax

section \<open>Bytes at an address\<close>

definition stored :: "bytes \<Rightarrow> nat \<Rightarrow> bytes \<Rightarrow> bool" where
  "stored m a xs \<longleftrightarrow> a + length xs \<le> length m \<and> take (length xs) (drop a m) = xs"

lemma stored_nth: "stored m a xs \<longleftrightarrow> a + length xs \<le> length m \<and> (\<forall>i < length xs. m ! (a + i) = xs ! i)"
proof -
  have "take (length xs) (drop a m) = xs \<longleftrightarrow> (\<forall>i < length xs. m ! (a + i) = xs ! i)" if "a + length xs \<le> length m"
    using that by (auto simp: list_eq_iff_nth_eq)
  then show ?thesis by (auto simp: stored_def)
qed

lemma stored_append: "stored m a (xs @ ys) \<longleftrightarrow> stored m a xs \<and> stored m (a + length xs) ys"
  (is "?l \<longleftrightarrow> ?r")
proof
  assume ?l
  then show ?r
    unfolding stored_nth by (auto simp: nth_append add.assoc dest: spec [of _ "_ + length xs"])
next
  assume ?r
  moreover have "m ! (a + i) = ys ! (i - length xs)"
    if "length xs \<le> i" "i < length xs + length ys" "\<forall>i < length ys. m ! (a + length xs + i) = ys ! i" for i
    using that(3) [rule_format, of "i - length xs"] that(1,2) by simp
  ultimately show ?l by (auto simp: stored_nth nth_append)
qed

lemma stored_Nil [simp]: "stored m a [] \<longleftrightarrow> a \<le> length m"
  by (simp add: stored_def)

lemma stored_Cons: "stored m a (x # xs) \<longleftrightarrow> a < length m \<and> m ! a = x \<and> stored m (Suc a) xs"
proof -
  have "stored m a [x] \<longleftrightarrow> a < length m \<and> m ! a = x" by (auto simp: stored_nth)
  then show ?thesis using stored_append [of m a "[x]" xs] by simp
qed

lemma stored_replicate_part:
  assumes "stored m a (replicate n x)" and "k + j \<le> n"
  shows "stored m (a + k) (replicate j x)"
  using assms by (simp add: stored_nth add.assoc)

lemma stored_read:
  assumes "stored (cells f) a xs" and "n = length xs"
  shows "fdb_flash_read f a n = Some xs"
  using assms by (simp add: stored_def fdb_flash_read_def mem_read_def)

lemma stored_program_other:
  assumes "stored m a xs" and "b + length ys \<le> length m" and "b + length ys \<le> a \<or> a + length xs \<le> b"
  shows "stored (nor_program m b ys) a xs"
  using assms by (auto simp: stored_nth nth_nor_program)

lemma stored_program:
  assumes "stored m a xs" and "length ys = length xs"
  shows "stored (nor_program m a ys) a (map2 (AND) xs ys)"
  using assms by (auto simp: stored_nth nth_nor_program)

lemma stored_program_erased:
  assumes "stored m a (replicate (length ys) 0xFF)"
  shows "stored (nor_program m a ys) a ys"
  using assms by (auto simp: stored_nth nth_nor_program)

text \<open>Filling erased flash from the front.\<close>

lemma stored_fill:
  assumes "stored m a (xs @ replicate n 0xFF)" and "b = a + length xs" and "length ys \<le> n"
  shows "stored (nor_program m b ys) a (xs @ ys @ replicate (n - length ys) 0xFF)"
proof -
  have m: "stored m a xs" "stored m b (replicate n 0xFF)" using assms by (simp_all add: stored_append)
  then have len: "b + n \<le> length m" by (simp add: stored_def)
  have "stored (nor_program m b ys) a xs" using m(1) len assms(2,3) by (intro stored_program_other) auto
  moreover have "stored (nor_program m b ys) b ys"
    using stored_replicate_part [OF m(2), of 0 "length ys"] assms(3) by (intro stored_program_erased) simp
  moreover have "stored (nor_program m b ys) (b + length ys) (replicate (n - length ys) 0xFF)"
    using stored_replicate_part [OF m(2), of "length ys" "n - length ys"] len assms(3) by (intro stored_program_other) auto
  ultimately show ?thesis using assms(2) by (simp add: stored_append)
qed

section \<open>Sequences of flash operations and power failures\<close>

fun apply_op :: "flash_op \<Rightarrow> bytes \<Rightarrow> bytes" where
  "apply_op (Program a xs) m = nor_program m a xs"
| "apply_op (Erase a n) m = nor_erase m a n"

definition replay :: "flash_op list \<Rightarrow> bytes \<Rightarrow> bytes" where
  "replay ops m = fold apply_op ops m"

definition performed :: "flash_op list \<Rightarrow> flash_part \<Rightarrow> flash_part" where
  "performed ops f = f\<lparr>cells := replay ops (cells f), log := log f @ ops\<rparr>"

lemma replay_simps [simp]: "replay [] m = m" "replay (op # ops) m = replay ops (apply_op op m)"
  by (simp_all add: replay_def)

lemma replay_append [simp]: "replay (xs @ ys) m = replay ys (replay xs m)"
  by (simp add: replay_def)

lemma performed_performed [simp]: "performed ys (performed xs f) = performed (xs @ ys) f"
  by (simp add: performed_def)

lemma performed_Nil [simp]: "performed [] f = f"
  by (simp add: performed_def)

lemma cells_performed [simp]: "cells (performed ops f) = replay ops (cells f)"
  by (simp add: performed_def)

fun op_fits :: "nat \<Rightarrow> flash_op \<Rightarrow> bool" where
  "op_fits n (Program a xs) \<longleftrightarrow> a + length xs \<le> n"
| "op_fits n (Erase a k) \<longleftrightarrow> a + k \<le> n"

lemma length_replay: "list_all (op_fits (length m)) ops \<Longrightarrow> length (replay ops m) = length m"
proof (induction ops arbitrary: m)
  case Nil
  then show ?case by simp
next
  case (Cons op ops)
  then have "length (apply_op op m) = length m" by (cases op) auto
  with Cons show ?case by simp
qed

text \<open>
  What an operation leaves behind that is interrupted by a power failure: programming has cleared some of the bits that
  it was to clear; erasing leaves any contents.
\<close>

fun torn :: "flash_op \<Rightarrow> bytes \<Rightarrow> bytes \<Rightarrow> bool" where
  "torn (Program a xs) m c \<longleftrightarrow>
     length c = length m
     \<and> (\<forall>i < length m. if a \<le> i \<and> i < a + length xs
                      then c ! i AND m ! i = c ! i \<and> (m ! i AND xs ! (i - a)) AND c ! i = (m ! i AND xs ! (i - a))
                      else c ! i = m ! i)"
| "torn (Erase a n) m c \<longleftrightarrow> length c = length m \<and> (\<forall>i < length m. \<not> (a \<le> i \<and> i < a + n) \<longrightarrow> c ! i = m ! i)"

text \<open>The contents after a power failure at any time during a sequence of operations.\<close>

inductive crash :: "flash_op list \<Rightarrow> bytes \<Rightarrow> bytes \<Rightarrow> bool" where
  crash_now: "crash ops m m"
| crash_torn: "torn op m c \<Longrightarrow> crash (op # ops) m c"
| crash_later: "crash ops (apply_op op m) c \<Longrightarrow> crash (op # ops) m c"

inductive_cases crash_NilE [elim!]: "crash [] m c"
inductive_cases crash_ConsE: "crash (op # ops) m c"

lemma crash_Nil [simp]: "crash [] m c \<longleftrightarrow> c = m"
  by (auto intro: crash.intros)

lemma crash_append:
  assumes "crash (xs @ ys) m c"
  shows "crash xs m c \<or> crash ys (replay xs m) c"
  using assms
proof (induction xs arbitrary: m)
  case Nil
  then show ?case by simp
next
  case (Cons op xs)
  from Cons.prems show ?case
    by (auto elim!: crash_ConsE intro: crash.intros dest!: Cons.IH simp del: append_Cons simp: append_Cons [symmetric])
      (auto intro: crash.intros dest!: Cons.IH elim: crash_ConsE)
qed

text \<open>Bytes that no operation of the sequence touches keep their values.\<close>

fun op_spares :: "nat \<Rightarrow> flash_op \<Rightarrow> bool" where
  "op_spares i (Program a xs) \<longleftrightarrow> i < a \<or> a + length xs \<le> i"
| "op_spares i (Erase a n) \<longleftrightarrow> i < a \<or> a + n \<le> i"

lemma torn_spares:
  assumes "torn op m c" and "op_spares i op" and "i < length m"
  shows "c ! i = m ! i"
  using assms by (cases op) auto

lemma apply_op_spares:
  assumes "op_fits (length m) op" and "op_spares i op" and "i < length m"
  shows "apply_op op m ! i = m ! i"
  using assms by (cases op) (auto simp: nth_nor_program nth_nor_erase)

lemma length_apply_op [simp]: "op_fits (length m) op \<Longrightarrow> length (apply_op op m) = length m"
  by (cases op) auto

lemma length_torn: "torn op m c \<Longrightarrow> length c = length m"
  by (cases op) auto

lemma crash_length:
  assumes "crash ops m c" and "list_all (op_fits (length m)) ops"
  shows "length c = length m"
  using assms by (induction rule: crash.induct) (auto simp: length_torn)

lemma crash_spares:
  assumes "crash ops m c" and "list_all (op_fits (length m)) ops" and "list_all (op_spares i) ops" and "i < length m"
  shows "c ! i = m ! i"
  using assms by (induction rule: crash.induct) (auto simp: torn_spares apply_op_spares)

lemma crash_replay: "crash ops m (replay ops m)"
  by (induction ops arbitrary: m) (auto intro: crash.intros)

lemma replay_spares:
  assumes "list_all (op_fits (length m)) ops" and "list_all (op_spares i) ops" and "i < length m"
  shows "replay ops m ! i = m ! i"
  by (rule crash_spares [OF crash_replay assms])

lemma crash_stored:
  assumes "crash ops m c" and "list_all (op_fits (length m)) ops" and "stored m a xs"
    and "\<And>i. a \<le> i \<Longrightarrow> i < a + length xs \<Longrightarrow> list_all (op_spares i) ops"
  shows "stored c a xs"
  using assms crash_length [OF assms(1,2)] crash_spares [OF assms(1,2)] by (auto simp: stored_nth)

lemmas replay_stored = crash_stored [OF crash_replay]

text \<open>One step of a status byte clears one bit, so that a power failure cannot leave anything in between.\<close>

lemma status_byte_between:
  assumes "b AND status_byte i = b" and "status_byte (Suc i) AND b = status_byte (Suc i)"
  shows "b = status_byte i \<or> b = status_byte (Suc i)"
proof (cases "bit b (7 - i) \<and> i < 8")
  case True
  have "b = status_byte i"
  proof (rule bit_word_eqI)
    fix n
    have 1: "bit b n \<Longrightarrow> bit (status_byte i) n" using arg_cong [OF assms(1), of "\<lambda>w. bit w n"] by (auto simp: bit_and_iff)
    have 2: "bit (status_byte (Suc i)) n \<Longrightarrow> bit b n" using arg_cong [OF assms(2), of "\<lambda>w. bit w n"] by (auto simp: bit_and_iff)
    show "bit b n = bit (status_byte i) n" using 1 2 True by (cases "n = 7 - i") (auto simp: bit_status_byte)
  qed
  then show ?thesis ..
next
  case False
  have "b = status_byte (Suc i)"
  proof (rule bit_word_eqI)
    fix n
    have 1: "bit b n \<Longrightarrow> bit (status_byte i) n" using arg_cong [OF assms(1), of "\<lambda>w. bit w n"] by (auto simp: bit_and_iff)
    have 2: "bit (status_byte (Suc i)) n \<Longrightarrow> bit b n" using arg_cong [OF assms(2), of "\<lambda>w. bit w n"] by (auto simp: bit_and_iff)
    show "bit b n = bit (status_byte (Suc i)) n" using 1 2 False by (cases "n = 7 - i") (auto simp: bit_status_byte)
  qed
  then show ?thesis ..
qed

lemma torn_status:
  assumes "torn (Program a [status_byte (Suc i)]) m c" and "a < length m" and "m ! a = status_byte i"
  shows "c ! a = status_byte i \<or> c ! a = status_byte (Suc i)"
proof (rule status_byte_between)
  show "c ! a AND status_byte i = c ! a" using assms by (auto dest: spec [of _ a])
  show "status_byte (Suc i) AND c ! a = status_byte (Suc i)"
    using assms by (auto simp: and_status_byte dest: spec [of _ a])
qed

end
