(* ===== verification/Fdb_Kvdb_Record.thy ===== *)
theory Fdb_Kvdb_Record
  imports Fdb_Kvdb_Write Fdb_Flash_Ops
begin

text \<open>
  One record of the key-value database: its layout in flash, what \<open>read_kv\<close> makes of it, and how it is created and
  deleted, including what a power failure in the middle of these operations leaves behind.
\<close>

unbundle bit_operations_syntax

section \<open>Arithmetic without wrap-around\<close>

lemma sub32_le: "b \<le> a \<Longrightarrow> a < 2 ^ 32 \<Longrightarrow> sub32 a b = a - b"
proof -
  assume "b \<le> a" "a < 2 ^ 32"
  then have "a + 2 ^ 32 - b = (a - b) + 2 ^ 32" by simp
  then show "sub32 a b = a - b" using \<open>a < 2 ^ 32\<close> by (simp only: sub32_def mod_add_self2) simp
qed

lemma add32_less: "a + b < 2 ^ 32 \<Longrightarrow> add32 a b = a + b"
  by (simp add: add32_def)

section \<open>The record in flash\<close>

definition kv_size :: "bytes \<Rightarrow> bytes \<Rightarrow> nat" where
  "kv_size key val = 24 + length key + length val"

definition kv_record :: "nat \<Rightarrow> bytes \<Rightarrow> bytes \<Rightarrow> bytes" where
  "kv_record status key val =
     status_byte status # replicate 3 FDB_BYTE_ERASED @ kv_hdr_tail (kv_size key val) key val @ key @ val"

lemma length_kv_hdr_tail [simp]: "length (kv_hdr_tail len key val) = 20"
  by (simp add: kv_hdr_tail_def)

lemma length_kv_record [simp]: "length (kv_record st key val) = kv_size key val"
  by (simp add: kv_record_def kv_size_def)

lemma kv_hdr_crc_flat:
  "kv_hdr_crc key val =
     fdb_calc_crc32 0 ((of_nat (length key) # replicate 3 FDB_BYTE_ERASED) @ le32 (of_nat (length val)) @ key @ val)"
  by (simp add: kv_hdr_crc_def Let_def fdb_calc_crc32_append del: replicate.simps)

lemma kv_crc_loop_eq:
  assumes "addr + n \<le> length (cells f)" and "len \<le> n"
  shows "kv_crc_loop f addr len n buf crc = Some (fdb_calc_crc32 crc (take (n - len) (drop (addr + len) (cells f))))"
  using assms
proof (induction "n - len" arbitrary: len buf crc rule: less_induct)
  case less
  show ?case
  proof (cases "len < n")
    case False
    then show ?thesis by (subst kv_crc_loop.simps) (simp add: fdb_calc_crc32_Nil)
  next
    case True
    define sz where "sz = (if len + 32 < n then 32 else n - len)"
    let ?xs = "take sz (drop (addr + len) (cells f))"
    have sz: "len + sz \<le> n" "0 < sz" using True by (auto simp: sz_def)
    have "fdb_flash_read f (addr + len) sz = Some ?xs" using sz less.prems by (simp add: fdb_flash_read_def mem_read_def)
    then have "kv_crc_loop f addr len n buf crc = kv_crc_loop f addr (len + sz) n (Some ?xs) (fdb_calc_crc32 crc ?xs)"
      using True by (subst kv_crc_loop.simps) (simp add: Let_def sz_def [symmetric] read_buf_def)
    also have "\<dots> = Some (fdb_calc_crc32 (fdb_calc_crc32 crc ?xs) (take (n - (len + sz)) (drop (addr + (len + sz)) (cells f))))"
      by (rule less.hyps) (use sz less.prems in auto)
    also have "take (n - len) (drop (addr + len) (cells f)) = ?xs @ take (n - (len + sz)) (drop (addr + (len + sz)) (cells f))"
      using sz take_add [of sz "n - (len + sz)" "drop (addr + len) (cells f)"] by (simp add: ac_simps)
    ultimately show ?thesis by (simp add: fdb_calc_crc32_append)
  qed
qed

text \<open>The header fields of a record.\<close>

lemma hdr_of_record:
  assumes "h = status_byte st # replicate 3 FDB_BYTE_ERASED @ kv_hdr_tail len key val" and "len < 2 ^ 32"
    and "length key < 256" and "length val < 2 ^ 32"
  shows "take 1 h = [status_byte st]" and "hdr_len h = len" and "hdr_crc32 h = kv_hdr_crc key val"
    and "hdr_name_len h = length key" and "hdr_value_len h = length val"
    and "take 4 (drop 16 h) = of_nat (length key) # replicate 3 FDB_BYTE_ERASED"
    and "take 4 (drop 20 h) = le32 (of_nat (length val))"
proof -
  have d8: "drop 8 h = le32 (of_nat len) @ le32 (kv_hdr_crc key val) @ (of_nat (length key) # replicate 3 FDB_BYTE_ERASED)
      @ le32 (of_nat (length val))"
    and d12: "drop 12 h = le32 (kv_hdr_crc key val) @ (of_nat (length key) # replicate 3 FDB_BYTE_ERASED)
      @ le32 (of_nat (length val))"
    and d16: "drop 16 h = (of_nat (length key) # replicate 3 FDB_BYTE_ERASED) @ le32 (of_nat (length val))"
    and d20: "drop 20 h = le32 (of_nat (length val))"
    unfolding assms(1) by (simp_all add: kv_hdr_tail_def eval_nat_numeral le32_def)
  show "take 1 h = [status_byte st]" using assms(1) by simp
  show "hdr_len h = len" using assms(2) by (simp add: hdr_len_def d8 of_le32_append of_le32_le32 unat_of_nat)
  show "hdr_crc32 h = kv_hdr_crc key val" by (simp add: hdr_crc32_def d12 of_le32_append of_le32_le32)
  have "h ! 16 = of_nat (length key)" using nth_via_drop [OF d16 [simplified]] by simp
  then show "hdr_name_len h = length key" using assms(3) by (simp add: hdr_name_len_def unat_of_nat)
  show "hdr_value_len h = length val" using assms(4) by (simp add: hdr_value_len_def d20 of_le32_le32 unat_of_nat)
  show "take 4 (drop 16 h) = of_nat (length key) # replicate 3 FDB_BYTE_ERASED" by (simp add: d16)
  show "take 4 (drop 20 h) = le32 (of_nat (length val))" by (simp add: d20)
qed

lemma kv_record_split:
  "stored m a (kv_record st key val) \<longleftrightarrow>
     stored m a (status_byte st # replicate 3 FDB_BYTE_ERASED @ kv_hdr_tail (kv_size key val) key val)
     \<and> stored m (a + 24) key \<and> stored m (a + 24 + length key) val"
proof -
  have "kv_record st key val =
      (status_byte st # replicate 3 FDB_BYTE_ERASED @ kv_hdr_tail (kv_size key val) key val) @ key @ val"
    by (simp add: kv_record_def)
  then show ?thesis by (simp add: stored_append del: append_Cons append.assoc)
qed

definition kv_of_record :: "fdb_kv \<Rightarrow> nat \<Rightarrow> bytes \<Rightarrow> bytes \<Rightarrow> fdb_kv" where
  "kv_of_record kv st key val =
     kv\<lparr>kv_status := st, kv_len := kv_size key val, crc_is_ok := True,
        kv_name := patch_at (patch_at (kv_name kv) 0 key) (length key) [0],
        addr_value := addr_start kv + 24 + length key, value_len := length val, name_len := length key\<rparr>"

lemma read_kv_record:
  assumes rec: "stored (cells (flash db)) (addr_start kv) (kv_record st key val)"
    and st: "st < FDB_KV_STATUS_NUM" and key: "length key < 64" and name: "length (kv_name kv) = 64"
    and sz: "kv_size key val \<le> max_size cfg" "max_size cfg < 2 ^ 32 - 1"
  shows "read_kv cfg kv db = Some (FDB_NO_ERR, kv_of_record kv st key val, db)"
proof -
  define h where "h = status_byte st # replicate 3 FDB_BYTE_ERASED @ kv_hdr_tail (kv_size key val) key val"
  have parts: "stored (cells (flash db)) (addr_start kv) h" "stored (cells (flash db)) (addr_start kv + 24) key"
    "stored (cells (flash db)) (addr_start kv + 24) (key @ val)"
    using rec by (simp_all add: kv_record_split h_def stored_append)
  have "kv_size key val < 2 ^ 32" "length key < 256" "length val < 2 ^ 32" using sz key by (simp_all add: kv_size_def)
  note hdr = hdr_of_record [OF h_def this]
  have rd: "fdb_flash_read (flash db) (addr_start kv) 24 = Some h" by (rule stored_read [OF parts(1)]) (simp add: h_def)
  have st8: "fdb_get_status [status_byte st] FDB_KV_STATUS_NUM = st"
    by (rule get_status_byte) (use st in \<open>simp_all add: FDB_KV_STATUS_NUM_def\<close>)
  have crc: "kv_crc_loop (flash db) (addr_start kv + 24) 0 (length key + length val) None c = Some (fdb_calc_crc32 c (key @ val))" for c
    using parts(3) by (subst kv_crc_loop_eq) (simp_all add: stored_def)
  have nm: "load_name (flash db) (addr_start kv + 24) (length key) (kv_name kv) = Some (patch_at (kv_name kv) 0 key)"
    using key name by (simp add: load_name_def stored_read [OF parts(2)] mem_write_def)
  have n0: "mem_write (patch_at (kv_name kv) 0 key) (length key) [0] = Some (patch_at (patch_at (kv_name kv) 0 key) (length key) [0])"
    using key name by (simp add: mem_write_def)
  have c: "fdb_calc_crc32 (fdb_calc_crc32 (fdb_calc_crc32 0 (of_nat (length key) # replicate 3 FDB_BYTE_ERASED))
      (le32 (of_nat (length val)))) (key @ val) = kv_hdr_crc key val"
    by (simp add: kv_hdr_crc_flat fdb_calc_crc32_append del: replicate.simps)
  have len: "kv_size key val - 24 = length key + length val" by (simp add: kv_size_def)
  show ?thesis
    using sz key kv_size_def [of key val]
    by (simp add: read_kv_def rd hdr hdr(1) [simplified] st8 KV_HDR_DATA_SIZE_def FDB_KV_NAME_MAX_def Let_def crc len c nm n0
      kv_of_record_def)
qed

section \<open>Writing a record\<close>

definition write_ops :: "nat \<Rightarrow> bytes \<Rightarrow> flash_op list" where
  "write_ops a xs = (if xs = [] then [] else [Program a xs])"

definition record_ops :: "nat \<Rightarrow> bytes \<Rightarrow> bytes \<Rightarrow> flash_op list" where
  "record_ops a key val =
     [Program a [status_byte FDB_KV_PRE_WRITE], Program (a + 4) (kv_hdr_tail (kv_size key val) key val)] @
     write_ops (a + 24) key @ write_ops (a + 24 + length key) val @ [Program a [status_byte FDB_KV_WRITE]]"

lemma db_write_status_eq:
  assumes "0 < i" and "i < n" and "n \<le> 8" and "a < length (cells (flash db))"
  shows "db_write_status a n i db = Some (FDB_NO_ERR, db\<lparr>flash := performed [Program a [status_byte i]] (flash db)\<rparr>)"
  using assms by (simp add: db_write_status_def fdb_write_status_def set_status_byte fdb_flash_write_def performed_def)

lemma db_flash_write_eq:
  assumes "a + length xs \<le> length (cells (flash db))"
  shows "db_flash_write a xs db = (FDB_NO_ERR, db\<lparr>flash := performed [Program a xs] (flash db)\<rparr>)"
  using assms by (simp add: db_flash_write_def fdb_flash_write_def performed_def)

lemma db_write_align_eq:
  assumes "a + length xs \<le> length (cells (flash db))"
  shows "db_write_align a xs db = (FDB_NO_ERR, db\<lparr>flash := performed (write_ops a xs) (flash db)\<rparr>)"
  using assms by (auto simp: db_write_align_def fdb_flash_write_align_def fdb_flash_write_def performed_def write_ops_def Let_def)

text \<open>The caches and the flash are independent.\<close>

lemma flash_update_kv_cache [simp]: "flash (update_kv_cache name addr db) = flash db"
  by (simp add: update_kv_cache_def Let_def split: prod.splits)

lemma update_kv_cache_flash: "update_kv_cache name addr (db\<lparr>flash := f\<rparr>) = (update_kv_cache name addr db)\<lparr>flash := f\<rparr>"
  by (simp add: update_kv_cache_def Let_def split: prod.splits)

lemma flash_update_empty_addr [simp]: "flash (update_sector_empty_addr_cache cfg addr e db) = flash db"
  by (simp add: update_sector_empty_addr_cache_def split: option.splits)

lemma update_empty_addr_flash:
  "update_sector_empty_addr_cache cfg addr e (db\<lparr>flash := f\<rparr>) = (update_sector_empty_addr_cache cfg addr e db)\<lparr>flash := f\<rparr>"
  by (simp add: update_sector_empty_addr_cache_def get_sector_from_cache_def split: option.splits)

lemma gc_request_caches [simp]:
  "gc_request (update_kv_cache name addr db) = gc_request db"
  "gc_request (update_sector_empty_addr_cache cfg addr' e db) = gc_request db"
  by (simp_all add: update_kv_cache_def update_sector_empty_addr_cache_def Let_def split: prod.splits option.splits)

text \<open>What \<open>write_record\<close> does to the caches.\<close>

definition record_caches :: "fdb_cfg \<Rightarrow> nat \<Rightarrow> bool \<Rightarrow> nat \<Rightarrow> bytes \<Rightarrow> bytes \<Rightarrow> fdb_kvdb \<Rightarrow> fdb_kvdb" where
  "record_caches cfg sa is_full a key val db =
     update_kv_cache key a (if is_full then db else update_sector_empty_addr_cache cfg sa (a + kv_size key val) db)"

lemma write_record_eq:
  assumes "a + kv_size key val \<le> length (cells (flash db))"
  shows "write_record cfg sa is_full a (kv_size key val) key val db =
    Some (FDB_NO_ERR, (record_caches cfg sa is_full a key val db)
      \<lparr>flash := performed (record_ops a key val) (flash db), gc_request := is_full \<or> gc_request db\<rparr>)"
proof -
  define m where "m = cells (flash db)"
  have fits: "a + 24 + length key + length val \<le> length m" using assms by (simp add: kv_size_def m_def)
  have len: "length (replay (write_ops b xs) m') = length m'" if "b + length xs \<le> length m'" for b xs m'
    using that by (auto simp: write_ops_def)
  have gc: "gc_request (record_caches cfg sa is_full a key val db) = gc_request db"
    by (simp add: record_caches_def)
  show ?thesis
    using fits gc
    by (simp add: write_record_def write_kv_hdr_def db_write_status_eq db_flash_write_eq db_write_align_eq len
      kvdb_consts m_def [symmetric] record_caches_def update_kv_cache_flash update_empty_addr_flash record_ops_def
      kv_size_def add.assoc)
qed

lemma record_ops_fits:
  "a + kv_size key val \<le> n \<Longrightarrow> list_all (op_fits n) (record_ops a key val)"
  by (simp add: record_ops_def write_ops_def kv_size_def)

lemma record_ops_spares:
  "i < a \<or> a + kv_size key val \<le> i \<Longrightarrow> list_all (op_spares i) (record_ops a key val)"
  by (auto simp: record_ops_def write_ops_def kv_size_def)

text \<open>A step of a record's status, complete or interrupted.\<close>

lemma status_step:
  assumes "stored m a (kv_record st key val)" and "crash [Program a [status_byte (Suc st)]] m c"
  shows "stored c a (kv_record st key val) \<or> stored c a (kv_record (Suc st) key val)"
proof -
  define body where "body = replicate 3 FDB_BYTE_ERASED @ kv_hdr_tail (kv_size key val) key val @ key @ val"
  have rec: "kv_record st' key val = status_byte st' # body" for st' by (simp add: kv_record_def body_def)
  have m: "a < length m" "m ! a = status_byte st" "stored m (Suc a) body"
    using assms(1) by (simp_all add: rec stored_Cons)
  have fits: "list_all (op_fits (length m)) [Program a [status_byte (Suc st)]]" using m by simp
  have "stored c (Suc a) body" by (rule crash_stored [OF assms(2) fits m(3)]) auto
  moreover have "a < length c" using crash_length [OF assms(2) fits] m by simp
  moreover have "c ! a = status_byte st \<or> c ! a = status_byte (Suc st)"
    using assms(2)
  proof (rule crash_ConsE)
    assume "torn (Program a [status_byte (Suc st)]) m c"
    from torn_status [OF this m(1,2)] show ?thesis .
  next
    assume "crash [] (apply_op (Program a [status_byte (Suc st)]) m) c"
    then show ?thesis using m by (simp add: nth_nor_program and_status_byte)
  qed (use m in simp)
  ultimately show ?thesis by (auto simp: rec stored_Cons)
qed

lemma status_step_done:
  assumes "stored m a (kv_record st key val)" and "st \<le> st'"
  shows "stored (nor_program m a [status_byte st']) a (kv_record st' key val)"
proof -
  define body where "body = replicate 3 FDB_BYTE_ERASED @ kv_hdr_tail (kv_size key val) key val @ key @ val"
  have rec: "kv_record st' key val = status_byte st' # body" for st' by (simp add: kv_record_def body_def)
  have m: "a < length m" "m ! a = status_byte st" "stored m (Suc a) body"
    using assms(1) by (simp_all add: rec stored_Cons)
  moreover have "stored (nor_program m a [status_byte st']) (Suc a) body" using m by (intro stored_program_other) auto
  ultimately show ?thesis using assms(2) by (simp add: rec stored_Cons nth_nor_program and_status_byte max_def)
qed

text \<open>Writing the record into erased flash, and what a power failure in between leaves.\<close>

lemma status_byte_0: "status_byte 0 = 0xFF"
  by (simp add: status_byte_def)

lemma write_ops_fill:
  assumes "stored m a (xs @ replicate n 0xFF)" and "b = a + length xs" and "length ys \<le> n"
  shows "stored (replay (write_ops b ys) m) a (xs @ ys @ replicate (n - length ys) 0xFF)"
  using stored_fill [OF assms] assms(1) by (auto simp: write_ops_def)

lemma record_written:
  assumes er: "stored m a (replicate (kv_size key val) 0xFF)"
    and pre: "ops = [Program a [status_byte FDB_KV_PRE_WRITE], Program (a + 4) (kv_hdr_tail (kv_size key val) key val)] @
     write_ops (a + 24) key @ write_ops (a + 24 + length key) val"
  shows "stored (replay ops m) a (kv_record FDB_KV_PRE_WRITE key val)"
proof -
  define t where "t = kv_hdr_tail (kv_size key val) key val"
  let ?s = "[status_byte FDB_KV_PRE_WRITE]"
  have lt: "length t = 20" by (simp add: t_def)
  have "stored m a ([] @ replicate (24 + length key + length val) 0xFF)" using er by (simp add: kv_size_def)
  from stored_fill [OF this, of a ?s]
  have "stored (nor_program m a ?s) a (?s @ replicate (3 + (20 + length key + length val)) 0xFF)" by (simp add: add.assoc)
  then have "stored (nor_program m a ?s) a ((?s @ replicate 3 0xFF) @ replicate (20 + length key + length val) 0xFF)"
    by (simp only: replicate_add append.assoc)
  from stored_fill [OF this, of "a + 4" t] lt
  have "stored (nor_program (nor_program m a ?s) (a + 4) t) a ((?s @ replicate 3 0xFF @ t) @ replicate (length key + length val) 0xFF)"
    by simp
  from write_ops_fill [OF this, of "a + 24" key] lt
  have "stored (replay (write_ops (a + 24) key) (nor_program (nor_program m a ?s) (a + 4) t)) a
      ((?s @ replicate 3 0xFF @ t @ key) @ replicate (length val) 0xFF)"
    by simp
  from write_ops_fill [OF this, of "a + 24 + length key" val] lt
  show ?thesis by (simp add: pre t_def kv_record_def FDB_BYTE_ERASED_def)
qed

text \<open>
  Until the last operation is done nothing of the record is visible; a power failure during the last one leaves the
  complete record, with or without its new status.
\<close>

lemma record_crash:
  assumes er: "stored m a (replicate (kv_size key val) 0xFF)" and c: "crash (record_ops a key val) m c"
  shows "c ! a = status_byte FDB_KV_UNUSED \<or> c ! a = status_byte FDB_KV_PRE_WRITE
    \<or> stored c a (kv_record FDB_KV_WRITE key val)"
proof -
  define mid where "mid = Program (a + 4) (kv_hdr_tail (kv_size key val) key val) # write_ops (a + 24) key @
      write_ops (a + 24 + length key) val"
  define m1 where "m1 = nor_program m a [status_byte FDB_KV_PRE_WRITE]"
  have len: "a + (24 + length key + length val) \<le> length m" using er by (simp add: stored_def kv_size_def)
  have ma: "m ! a = status_byte FDB_KV_UNUSED"
    using stored_replicate_part [OF er, of 0 1]
    by (simp add: stored_Cons kv_size_def status_byte_0 FDB_KV_UNUSED_def)
  have m1a: "m1 ! a = status_byte FDB_KV_PRE_WRITE" and lm1: "length m1 = length m"
    using len ma by (simp_all add: m1_def nth_nor_program and_status_byte FDB_KV_UNUSED_def FDB_KV_PRE_WRITE_def)
  have ops: "record_ops a key val =
      ([Program a [status_byte FDB_KV_PRE_WRITE]] @ mid) @ [Program a [status_byte (Suc FDB_KV_PRE_WRITE)]]"
    by (simp add: record_ops_def mid_def FDB_KV_PRE_WRITE_def FDB_KV_WRITE_def numeral_2_eq_2)
  have rec: "stored (replay ([Program a [status_byte FDB_KV_PRE_WRITE]] @ mid) m) a (kv_record FDB_KV_PRE_WRITE key val)"
    by (rule record_written [OF er]) (simp add: mid_def)
  from crash_append [OF c [unfolded ops]] show ?thesis
  proof
    assume "crash ([Program a [status_byte FDB_KV_PRE_WRITE]] @ mid) m c"
    from crash_append [OF this] show ?thesis
    proof
      assume "crash [Program a [status_byte FDB_KV_PRE_WRITE]] m c"
      then show ?thesis
        using torn_status [of a FDB_KV_UNUSED m c] len ma m1a
        by (auto elim!: crash_ConsE simp: m1_def FDB_KV_UNUSED_def FDB_KV_PRE_WRITE_def simp del: torn.simps)
    next
      assume "crash mid (replay [Program a [status_byte FDB_KV_PRE_WRITE]] m) c"
      then have "c ! a = m1 ! a"
        by (intro crash_spares) (use len lm1 in \<open>auto simp: m1_def [symmetric] mid_def write_ops_def\<close>)
      with m1a show ?thesis by simp
    qed
  next
    assume "crash [Program a [status_byte (Suc FDB_KV_PRE_WRITE)]] (replay ([Program a [status_byte FDB_KV_PRE_WRITE]] @ mid) m) c"
    from status_step [OF rec this] show ?thesis
      by (auto simp: kv_record_def stored_Cons FDB_KV_PRE_WRITE_def FDB_KV_WRITE_def numeral_2_eq_2)
  qed
qed

lemma record_done:
  assumes "stored m a (replicate (kv_size key val) 0xFF)"
  shows "stored (replay (record_ops a key val) m) a (kv_record FDB_KV_WRITE key val)"
  using status_step_done [OF record_written [OF assms refl], of FDB_KV_WRITE]
  by (simp add: record_ops_def FDB_KV_PRE_WRITE_def FDB_KV_WRITE_def)

end
