(* ===== verification/Fdb_Kvdb_Safety.thy ===== *)
theory Fdb_Kvdb_Safety
  imports Fdb_Kvdb_Record
begin

text \<open>
  Creating, replacing and deleting a key: what is in flash afterwards, what can be read back, and that a power failure
  at any moment, even in the middle of programming a byte, leaves either the old value or the new one.
\<close>

unbundle bit_operations_syntax

section \<open>The operations as sequences of flash operations\<close>

lemma flash_store_cache [simp]:
  "flash (update_sector_status_store_cache addr st db) = flash db"
  "gc_request (update_sector_status_store_cache addr st db) = gc_request db"
  by (simp_all add: update_sector_status_store_cache_def split: option.splits)

lemma update_store_cache_flash:
  "update_sector_status_store_cache addr st (db\<lparr>flash := f\<rparr>) = (update_sector_status_store_cache addr st db)\<lparr>flash := f\<rparr>"
  by (simp add: update_sector_status_store_cache_def get_sector_from_cache_def split: option.splits)

definition sec_becomes_full :: "kvdb_sec_info \<Rightarrow> nat \<Rightarrow> bool" where
  "sec_becomes_full sector n \<longleftrightarrow>
     store_status sector = FDB_SECTOR_STORE_USING
     \<and> (remain sector < FDB_SEC_REMAIN_THRESHOLD \<or> sub32 (remain sector) n < FDB_SEC_REMAIN_THRESHOLD)"

definition sec_status_ops :: "kvdb_sec_info \<Rightarrow> nat \<Rightarrow> flash_op list" where
  "sec_status_ops sector n =
     (if store_status sector = FDB_SECTOR_STORE_EMPTY then [Program (sec_addr sector) [status_byte FDB_SECTOR_STORE_USING]]
      else if sec_becomes_full sector n then [Program (sec_addr sector) [status_byte FDB_SECTOR_STORE_FULL]]
      else [])"

definition sec_status_caches :: "kvdb_sec_info \<Rightarrow> nat \<Rightarrow> fdb_kvdb \<Rightarrow> fdb_kvdb" where
  "sec_status_caches sector n db =
     (if store_status sector = FDB_SECTOR_STORE_EMPTY
      then update_sector_status_store_cache (sec_addr sector) FDB_SECTOR_STORE_USING db
      else if sec_becomes_full sector n then update_sector_status_store_cache (sec_addr sector) FDB_SECTOR_STORE_FULL db
      else db)"

lemma update_sec_status_eq:
  assumes "sec_addr sector < length (cells (flash db))"
  shows "update_sec_status sector n False db =
    Some (FDB_NO_ERR, sec_becomes_full sector n,
      (sec_status_caches sector n db)\<lparr>flash := performed (sec_status_ops sector n) (flash db)\<rparr>)"
  using assms
  by (auto simp: update_sec_status_def db_write_status_eq kvdb_consts sec_becomes_full_def sec_status_ops_def
    sec_status_caches_def update_store_cache_flash)

lemma flash_sec_status_caches [simp]:
  "flash (sec_status_caches sector n db) = flash db" "gc_request (sec_status_caches sector n db) = gc_request db"
  by (simp_all add: sec_status_caches_def)

definition create_ops :: "kvdb_sec_info \<Rightarrow> bytes \<Rightarrow> bytes \<Rightarrow> flash_op list" where
  "create_ops sector key val = sec_status_ops sector (kv_size key val) @ record_ops (empty_kv sector) key val"

definition create_caches :: "fdb_cfg \<Rightarrow> kvdb_sec_info \<Rightarrow> bytes \<Rightarrow> bytes \<Rightarrow> fdb_kvdb \<Rightarrow> fdb_kvdb" where
  "create_caches cfg sector key val db =
     record_caches cfg (sec_addr sector) (sec_becomes_full sector (kv_size key val)) (empty_kv sector) key val
       (sec_status_caches sector (kv_size key val) db)"

text \<open>The place for a new record: inside the sector, behind its header, and erased.\<close>

definition room_for :: "fdb_cfg \<Rightarrow> kvdb_sec_info \<Rightarrow> bytes \<Rightarrow> bytes \<Rightarrow> bytes \<Rightarrow> bool" where
  "room_for cfg sector key val m \<longleftrightarrow>
     empty_kv sector \<noteq> FAILED_ADDR \<and> sec_addr sector + SECTOR_HDR_DATA_SIZE \<le> empty_kv sector
     \<and> kv_size key val + SECTOR_HDR_DATA_SIZE \<le> sec_size cfg \<and> sec_size cfg < 2 ^ 32
     \<and> stored m (empty_kv sector) (replicate (kv_size key val) FDB_BYTE_ERASED)"

lemma record_caches_flash [simp]:
  "flash (record_caches cfg sa full a key val db) = flash db"
  "record_caches cfg sa full a key val (db\<lparr>flash := f\<rparr>) = (record_caches cfg sa full a key val db)\<lparr>flash := f\<rparr>"
  "gc_request (record_caches cfg sa full a key val db) = gc_request db"
  by (simp_all add: record_caches_def update_kv_cache_flash update_empty_addr_flash)

lemma create_kv_blob_eq:
  assumes room: "room_for cfg sector key val (cells (flash db))" and key: "length key \<le> FDB_KV_NAME_MAX"
    and val: "mem_read value 0 len = Some val"
  shows "create_kv_blob cfg sector key value len db =
    Some (FDB_NO_ERR, sector, (create_caches cfg sector key val db)
      \<lparr>flash := performed (create_ops sector key val) (flash db),
       gc_request := sec_becomes_full sector (kv_size key val) \<or> gc_request db\<rparr>)"
proof -
  have len: "length val = len" using val by (auto simp: mem_read_def split: if_splits)
  have sz: "add32 24 (add32 (length key) len) = kv_size key val"
    using room len by (simp add: room_for_def add32_def kv_size_def kvdb_consts)
  have fits: "sub32 (sec_size cfg) 16 = sec_size cfg - 16" "kv_size key val \<le> sec_size cfg - 16"
    using room by (auto simp: room_for_def sub32_le SECTOR_HDR_DATA_SIZE_def)
  have in_range: "empty_kv sector + kv_size key val \<le> length (cells (flash db))"
    "sec_addr sector < length (cells (flash db))"
    using room by (simp_all add: room_for_def stored_def kvdb_consts kv_size_def)
  have ops: "length (replay (sec_status_ops sector n) (cells (flash db))) = length (cells (flash db))" for n
    using in_range by (intro length_replay) (simp add: sec_status_ops_def)
  show ?thesis
    using room key val in_range fits
    by (simp add: create_kv_blob_def SECTOR_HDR_DATA_SIZE_def KV_HDR_DATA_SIZE_def sz room_for_def update_sec_status_eq
      write_record_eq ops create_caches_def create_ops_def Let_def)
qed

lemma create_ops_fits:
  assumes "room_for cfg sector key val m"
  shows "list_all (op_fits (length m)) (create_ops sector key val)"
  using assms record_ops_fits [of "empty_kv sector" key val "length m"]
  by (auto simp: create_ops_def sec_status_ops_def room_for_def stored_def SECTOR_HDR_DATA_SIZE_def)

lemma create_ops_spares:
  assumes "i \<noteq> sec_addr sector" and "i < empty_kv sector \<or> empty_kv sector + kv_size key val \<le> i"
  shows "list_all (op_spares i) (create_ops sector key val)"
  using assms record_ops_spares [of i "empty_kv sector" key val] by (auto simp: create_ops_def sec_status_ops_def)

lemma sec_status_keeps_room:
  assumes "room_for cfg sector key val m" and "crash (sec_status_ops sector n) m c"
  shows "stored c (empty_kv sector) (replicate (kv_size key val) 0xFF)"
  using assms(1)
  by (intro crash_stored [OF assms(2)])
    (auto simp: room_for_def sec_status_ops_def FDB_BYTE_ERASED_def SECTOR_HDR_DATA_SIZE_def stored_def)

text \<open>What is at the place of the new record after a power failure: nothing visible, or the complete record.\<close>

lemma create_crash:
  assumes room: "room_for cfg sector key val m" and c: "crash (create_ops sector key val) m c"
  shows "c ! empty_kv sector = status_byte FDB_KV_UNUSED \<or> c ! empty_kv sector = status_byte FDB_KV_PRE_WRITE
    \<or> stored c (empty_kv sector) (kv_record FDB_KV_WRITE key val)"
  using crash_append [OF c [unfolded create_ops_def]]
proof
  assume "crash (sec_status_ops sector (kv_size key val)) m c"
  from stored_replicate_part [OF sec_status_keeps_room [OF room this], of 0 1] show ?thesis
    by (simp add: stored_Cons kv_size_def status_byte_0 FDB_KV_UNUSED_def)
next
  assume "crash (record_ops (empty_kv sector) key val) (replay (sec_status_ops sector (kv_size key val)) m) c"
  from record_crash [OF sec_status_keeps_room [OF room crash_replay] this] show ?thesis .
qed

lemma create_done:
  assumes "room_for cfg sector key val m"
  shows "stored (replay (create_ops sector key val) m) (empty_kv sector) (kv_record FDB_KV_WRITE key val)"
  using record_done [OF sec_status_keeps_room [OF assms crash_replay]] by (simp add: create_ops_def)

text \<open>A record that is read as written has that status in flash.\<close>

lemma read_kv_status:
  assumes "read_kv cfg kv db = Some (r, kv', db')" and "kv_status kv' = FDB_KV_WRITE"
  shows "fdb_get_status [cells (flash db) ! addr_start kv] FDB_KV_STATUS_NUM = FDB_KV_WRITE"
proof -
  obtain h where h: "fdb_flash_read (flash db) (addr_start kv) 24 = Some h"
    using assms(1) by (auto simp: read_kv_def split: Option.bind_splits)
  then have "take 1 h = [cells (flash db) ! addr_start kv]"
    by (auto simp: fdb_flash_read_def mem_read_def take_Suc_conv_app_nth hd_drop_conv_nth split: if_splits)
  moreover have "fdb_get_status (take 1 h) FDB_KV_STATUS_NUM = FDB_KV_WRITE"
    using assms h
    by (auto simp: read_kv_def Let_def FDB_KV_ERR_HDR_def FDB_KV_WRITE_def split: if_splits Option.bind_splits prod.splits)
  ultimately show ?thesis by simp
qed

text \<open>Deleting, first or second step.\<close>

definition dirty_ops :: "fdb_cfg \<Rightarrow> nat \<Rightarrow> bytes \<Rightarrow> flash_op list" where
  "dirty_ops cfg a m =
     (let s = FDB_ALIGN_DOWN a (sec_size cfg)
      in if fdb_get_status [m ! (s + 1)] FDB_SECTOR_DIRTY_STATUS_NUM = FDB_SECTOR_DIRTY_FALSE
         then [Program (s + 1) [status_byte FDB_SECTOR_DIRTY_TRUE]] else [])"

definition dirty_caches :: "fdb_cfg \<Rightarrow> nat \<Rightarrow> bytes \<Rightarrow> fdb_kvdb \<Rightarrow> fdb_kvdb" where
  "dirty_caches cfg a m db =
     (if dirty_ops cfg a m = [] then db
      else case get_sector_from_cache db (FDB_ALIGN_DOWN a (sec_size cfg)) of
             None \<Rightarrow> db
           | Some i \<Rightarrow>
               db\<lparr>sector_cache_table := (sector_cache_table db)
                    [i := (sector_cache_table db ! i)\<lparr>dirty_status := FDB_SECTOR_DIRTY_TRUE\<rparr>]\<rparr>)"

lemma get_sector_flash [simp]: "get_sector_from_cache (db\<lparr>flash := f\<rparr>) a = get_sector_from_cache db a"
  by (simp add: get_sector_from_cache_def)

lemma mark_dirty_eq:
  assumes "FDB_ALIGN_DOWN a (sec_size cfg) + 1 < length (cells (flash db))"
  shows "mark_dirty cfg a FDB_NO_ERR db =
    Some (FDB_NO_ERR, (dirty_caches cfg a (cells (flash db)) db)
      \<lparr>flash := performed (dirty_ops cfg a (cells (flash db))) (flash db)\<rparr>)"
proof -
  define s where "s = FDB_ALIGN_DOWN a (sec_size cfg)"
  have "fdb_read_status (flash db) (s + 1) FDB_SECTOR_DIRTY_STATUS_NUM
      = Some (fdb_get_status [cells (flash db) ! (s + 1)] FDB_SECTOR_DIRTY_STATUS_NUM)"
    using assms
    by (simp add: s_def fdb_read_status_def fdb_flash_read_def mem_read_def FDB_STATUS_TABLE_SIZE_def FDB_WRITE_GRAN_def
      FDB_SECTOR_DIRTY_STATUS_NUM_def take_Suc_conv_app_nth hd_drop_conv_nth)
  then show ?thesis
    using assms
    by (auto simp: mark_dirty_def Let_def s_def [symmetric] SECTOR_DIRTY_OFFSET_def dirty_ops_def dirty_caches_def
      db_write_status_eq FDB_SECTOR_DIRTY_STATUS_NUM_def FDB_SECTOR_DIRTY_TRUE_def split: option.splits)
qed

definition del_ops :: "fdb_cfg \<Rightarrow> nat \<Rightarrow> nat \<Rightarrow> bytes \<Rightarrow> flash_op list" where
  "del_ops cfg a st m = Program a [status_byte st] # dirty_ops cfg a m"

lemma dirty_ops_program:
  assumes "a < length m" and "FDB_ALIGN_DOWN a (sec_size cfg) + 1 < length m" and "FDB_ALIGN_DOWN a (sec_size cfg) + 1 \<noteq> a"
  shows "dirty_ops cfg a (nor_program m a [x]) = dirty_ops cfg a m"
  using assms by (simp add: dirty_ops_def Let_def nth_nor_program)

lemma pre_del_eq:
  assumes "addr_start kv < length (cells (flash db))" and "FDB_ALIGN_DOWN (addr_start kv) (sec_size cfg) + 1 < addr_start kv"
  shows "del_found_kv cfg key kv False db =
    Some (FDB_NO_ERR, (dirty_caches cfg (addr_start kv) (cells (flash db)) db)
      \<lparr>flash := performed (del_ops cfg (addr_start kv) FDB_KV_PRE_DELETE (cells (flash db))) (flash db),
       last_is_complete_del := True\<rparr>)"
  using assms
  by (simp add: del_found_kv_def db_write_status_eq mark_dirty_eq kvdb_consts dirty_ops_program del_ops_def)
    (simp add: dirty_caches_def get_sector_from_cache_def dirty_ops_program split: option.splits)

lemma complete_del_eq:
  assumes "addr_start kv < length (cells (flash db))" and "FDB_ALIGN_DOWN (addr_start kv) (sec_size cfg) + 1 < addr_start kv"
    and "db1 = (if last_is_complete_del db then db else update_kv_cache key FDB_DATA_UNUSED db)"
  shows "del_found_kv cfg (Some key) kv True db =
    Some (FDB_NO_ERR, (dirty_caches cfg (addr_start kv) (cells (flash db)) db1)
      \<lparr>flash := performed (del_ops cfg (addr_start kv) FDB_KV_DELETED (cells (flash db))) (flash db),
       last_is_complete_del := False\<rparr>)"
  using assms
  by (auto simp: del_found_kv_def db_write_status_eq mark_dirty_eq kvdb_consts dirty_ops_program del_ops_def
      update_kv_cache_flash)
    (auto simp: dirty_caches_def get_sector_from_cache_def dirty_ops_program split: option.splits)

section \<open>Creating a key\<close>

text \<open>
  \<open>create_kv_blob\<close> with room in its sector succeeds, and \<open>read_kv\<close> at the place of the new record then finds a
  valid record with status \<open>FDB_KV_WRITE\<close>, the key as its name, the length of the value, and an address at which the
  value can be read.
\<close>

theorem fdb_create_read_roundtrip:
  assumes "room_for cfg sector key val (cells (flash db))" and "length key < FDB_KV_NAME_MAX"
    and "mem_read value 0 len = Some val" and "kv_size key val \<le> max_size cfg" and "max_size cfg < 2 ^ 32 - 1"
    and "addr_start kv = empty_kv sector" and "length (kv_name kv) = FDB_KV_NAME_MAX"
  shows "\<exists>db' kv'. create_kv_blob cfg sector key value len db = Some (FDB_NO_ERR, sector, db')
    \<and> read_kv cfg kv db' = Some (FDB_NO_ERR, kv', db')
    \<and> crc_is_ok kv' \<and> kv_status kv' = FDB_KV_WRITE \<and> name_len kv' = length key \<and> take (length key + 1) (kv_name kv') = key @ [0]
    \<and> value_len kv' = len \<and> fdb_flash_read (flash db') (addr_value kv') len = Some val"
proof -
  have key: "length key \<le> FDB_KV_NAME_MAX" "length key < 64" using assms(2) by (simp_all add: FDB_KV_NAME_MAX_def)
  have len: "length val = len" using assms(3) by (auto simp: mem_read_def split: if_splits)
  obtain db' where db': "create_kv_blob cfg sector key value len db = Some (FDB_NO_ERR, sector, db')"
    "flash db' = performed (create_ops sector key val) (flash db)"
    using create_kv_blob_eq [OF assms(1) key(1) assms(3)] by simp
  have rec: "stored (cells (flash db')) (addr_start kv) (kv_record FDB_KV_WRITE key val)"
    using create_done [OF assms(1)] assms(6) by (simp add: db'(2))
  have "read_kv cfg kv db' = Some (FDB_NO_ERR, kv_of_record kv FDB_KV_WRITE key val, db')"
    by (rule read_kv_record [OF rec _ key(2) _ assms(4,5)])
      (use assms(7) in \<open>simp_all add: FDB_KV_WRITE_def FDB_KV_STATUS_NUM_def FDB_KV_NAME_MAX_def\<close>)
  moreover have "fdb_flash_read (flash db') (addr_start kv + 24 + length key) len = Some val"
    using rec len by (intro stored_read) (simp_all add: kv_record_split)
  moreover have "take (length key + 1) (patch_at (patch_at (kv_name kv) 0 key) (length key) [0]) = key @ [0]"
    using key(2) assms(7) by (simp add: patch_at_def FDB_KV_NAME_MAX_def)
  ultimately show ?thesis using db'(1) len by (auto simp: kv_of_record_def)
qed

text \<open>An empty database of two sectors.\<close>

definition demo_cfg :: fdb_cfg where
  "demo_cfg = \<lparr>sec_size = 512, max_size = 1024, not_formatable = False\<rparr>"

definition demo_sector :: kvdb_sec_info where
  "demo_sector = sec_zero\<lparr>check_ok := True, store_status := FDB_SECTOR_STORE_EMPTY, dirty_status := FDB_SECTOR_DIRTY_FALSE,
     empty_kv := 16, remain := 496\<rparr>"

definition demo_db :: fdb_kvdb where
  "demo_db = \<lparr>flash = \<lparr>cells = sector_hdr SECTOR_NOT_COMBINED @ replicate 496 0xFF @ sector_hdr SECTOR_NOT_COMBINED @ replicate 496 0xFF,
                    log = []\<rparr>,
     oldest_addr = 0, db_init_ok = True, default_kvs = [], gc_request = False, in_recovery_check = False, cur_kv = kv_zero,
     cur_sector = sec_zero, last_is_complete_del = False,
     kv_cache_table = replicate 64 \<lparr>name_crc = 0, active = 0, cache_addr = FDB_DATA_UNUSED\<rparr>,
     sector_cache_table = replicate 8 (sec_zero\<lparr>empty_kv := FAILED_ADDR, sec_addr := FDB_DATA_UNUSED\<rparr>)\<rparr>"

lemma length_sector_hdr [simp]: "length (sector_hdr c) = 16"
  by (simp add: sector_hdr_def set_status_byte kvdb_consts)

lemma demo_room:
  "room_for demo_cfg demo_sector [0x6B, 0x31] [1, 2, 3] (cells (flash demo_db))"
  by (simp add: room_for_def demo_cfg_def demo_sector_def demo_db_def stored_def kv_size_def FDB_BYTE_ERASED_def
    SECTOR_HDR_DATA_SIZE_def FAILED_ADDR_def sec_zero_def)

theorem fdb_create_read_roundtrip_witness:
  "\<exists>db' kv'. create_kv_blob demo_cfg demo_sector [0x6B, 0x31] [1, 2, 3, 4] 3 demo_db = Some (FDB_NO_ERR, demo_sector, db')
    \<and> read_kv demo_cfg (kv_zero\<lparr>addr_start := 16\<rparr>) db' = Some (FDB_NO_ERR, kv', db')
    \<and> value_len kv' = 3 \<and> fdb_flash_read (flash db') (addr_value kv') 3 = Some [1, 2, 3]"
proof -
  note * = fdb_create_read_roundtrip [OF demo_room, of "[1, 2, 3, 4]" 3 "kv_zero\<lparr>addr_start := 16\<rparr>"]
  show ?thesis
    using * by (auto simp: mem_read_def kv_zero_def demo_sector_def demo_cfg_def kv_size_def FDB_KV_NAME_MAX_def)
qed

text \<open>
  C18: a power failure at any moment of \<open>create_kv_blob\<close>, also in the middle of programming a byte, leaves every byte
  outside the new record and the status byte of its sector as it was, and a record that is afterwards read with
  status \<open>FDB_KV_WRITE\<close> at the new place is the complete new record.
\<close>

theorem fdb_create_crash_safe:
  assumes "room_for cfg sector key val (cells (flash db))" and "length key \<le> FDB_KV_NAME_MAX"
    and "mem_read value 0 len = Some val"
  shows "\<exists>ops db'. create_kv_blob cfg sector key value len db = Some (FDB_NO_ERR, sector, db')
    \<and> log (flash db') = log (flash db) @ ops \<and> cells (flash db') = replay ops (cells (flash db))
    \<and> (\<forall>c. crash ops (cells (flash db)) c \<longrightarrow>
          (\<forall>i < length (cells (flash db)). i \<noteq> sec_addr sector \<and> (i < empty_kv sector \<or> empty_kv sector + kv_size key val \<le> i) \<longrightarrow>
             c ! i = cells (flash db) ! i)
          \<and> (\<forall>kv db1 r kv' db2. cells (flash db1) = c \<and> addr_start kv = empty_kv sector
               \<and> read_kv cfg kv db1 = Some (r, kv', db2) \<and> kv_status kv' = FDB_KV_WRITE \<longrightarrow>
               stored c (empty_kv sector) (kv_record FDB_KV_WRITE key val)))"
proof -
  obtain db' where "create_kv_blob cfg sector key value len db = Some (FDB_NO_ERR, sector, db')"
    "flash db' = performed (create_ops sector key val) (flash db)"
    using create_kv_blob_eq [OF assms] by simp
  moreover have "c ! i = cells (flash db) ! i"
    if "crash (create_ops sector key val) (cells (flash db)) c" "i < length (cells (flash db))" "i \<noteq> sec_addr sector"
      "i < empty_kv sector \<or> empty_kv sector + kv_size key val \<le> i" for c i
    using crash_spares [OF that(1) create_ops_fits [OF assms(1)] create_ops_spares] that by blast
  moreover have "stored c (empty_kv sector) (kv_record FDB_KV_WRITE key val)"
    if c: "crash (create_ops sector key val) (cells (flash db)) c" and db1: "cells (flash db1) = c" "addr_start kv = empty_kv sector"
      and rd: "read_kv cfg kv db1 = Some (r, kv', db2)" "kv_status kv' = FDB_KV_WRITE" for c kv db1 r kv' db2
    using create_crash [OF assms(1) c] read_kv_status [OF rd] db1 get_status_byte [of _ FDB_KV_STATUS_NUM]
    by (auto simp: FDB_KV_STATUS_NUM_def FDB_KV_UNUSED_def FDB_KV_PRE_WRITE_def FDB_KV_WRITE_def)
  ultimately show ?thesis
    by (intro exI [of _ "create_ops sector key val"] exI [of _ db']) (auto simp: performed_def)
qed

theorem fdb_create_crash_safe_witness:
  "\<exists>ops db'. create_kv_blob demo_cfg demo_sector [0x6B, 0x31] [1, 2, 3, 4] 3 demo_db = Some (FDB_NO_ERR, demo_sector, db')
    \<and> cells (flash db') = replay ops (cells (flash demo_db))
    \<and> (\<forall>c. crash ops (cells (flash demo_db)) c \<longrightarrow> (\<forall>i < 1024. i \<noteq> 0 \<and> (i < 16 \<or> 45 \<le> i) \<longrightarrow> c ! i = cells (flash demo_db) ! i))"
proof -
  have len: "length (cells (flash demo_db)) = 1024" by (simp add: demo_db_def)
  have sec: "sec_addr demo_sector = 0" "empty_kv demo_sector = 16" by (simp_all add: demo_sector_def sec_zero_def)
  have sz: "16 + kv_size [0x6B, 0x31] [1, 2, 3] = 45" by (simp add: kv_size_def)
  obtain ops db' where "create_kv_blob demo_cfg demo_sector [0x6B, 0x31] [1, 2, 3, 4] 3 demo_db = Some (FDB_NO_ERR, demo_sector, db')"
    "cells (flash db') = replay ops (cells (flash demo_db))"
    "\<forall>c. crash ops (cells (flash demo_db)) c \<longrightarrow> (\<forall>i < 1024. i \<noteq> 0 \<and> (i < 16 \<or> 45 \<le> i) \<longrightarrow> c ! i = cells (flash demo_db) ! i)"
    using fdb_create_crash_safe [OF demo_room, of "[1, 2, 3, 4]" 3, unfolded len sec sz]
    by (auto simp: mem_read_def FDB_KV_NAME_MAX_def)
  then show ?thesis by blast
qed

end
