(* ===== verification/Fdb_Kvdb_Layout.thy ===== *)
theory Fdb_Kvdb_Layout
  imports Fdb_Kvdb_Safety
begin

text \<open>
  A well-formed database in flash: every sector has a header, then its records one behind the other, then erased
  bytes. On such a database the walks over records and sectors visit exactly the records, in order, read nothing but
  valid records, and write nothing.
\<close>

unbundle bit_operations_syntax

section \<open>Sectors and their contents\<close>

type_synonym kv_rec = "nat \<times> bytes \<times> bytes"

record kv_sect =
  sct_store :: nat
  sct_dirty :: nat
  sct_recs :: "kv_rec list"

definition enc_rec :: "kv_rec \<Rightarrow> bytes" where
  "enc_rec r = (case r of (st, key, val) \<Rightarrow> kv_record st key val)"

definition rec_size :: "kv_rec \<Rightarrow> nat" where
  "rec_size r = (case r of (st, key, val) \<Rightarrow> kv_size key val)"

definition recs_size :: "kv_rec list \<Rightarrow> nat" where
  "recs_size recs = sum_list (map rec_size recs)"

definition enc_recs :: "kv_rec list \<Rightarrow> bytes" where
  "enc_recs recs = concat (map enc_rec recs)"

definition sect_hdr :: "nat \<Rightarrow> nat \<Rightarrow> bytes" where
  "sect_hdr store dirty =
     status_byte store # status_byte dirty # replicate 2 0xFF @
     le32 SECTOR_MAGIC_WORD @ le32 SECTOR_NOT_COMBINED @ le32 0xFFFFFFFF"

definition sect_bytes :: "fdb_cfg \<Rightarrow> kv_sect \<Rightarrow> bytes" where
  "sect_bytes cfg S =
     sect_hdr (sct_store S) (sct_dirty S) @ enc_recs (sct_recs S) @
     replicate (sec_size cfg - 16 - recs_size (sct_recs S)) 0xFF"

definition wf_rec :: "kv_rec \<Rightarrow> bool" where
  "wf_rec r = (case r of (st, key, val) \<Rightarrow>
     st \<in> {FDB_KV_WRITE, FDB_KV_PRE_DELETE, FDB_KV_DELETED} \<and> length key < FDB_KV_NAME_MAX \<and> 0 \<notin> set key)"

definition wf_sect :: "fdb_cfg \<Rightarrow> kv_sect \<Rightarrow> bool" where
  "wf_sect cfg S \<longleftrightarrow>
     sct_store S \<in> {FDB_SECTOR_STORE_EMPTY, FDB_SECTOR_STORE_USING}
     \<and> sct_dirty S \<in> {FDB_SECTOR_DIRTY_FALSE, FDB_SECTOR_DIRTY_TRUE, FDB_SECTOR_DIRTY_GC}
     \<and> (sct_store S = FDB_SECTOR_STORE_EMPTY \<longleftrightarrow> sct_recs S = [])
     \<and> list_all wf_rec (sct_recs S)
     \<and> 16 + recs_size (sct_recs S) + FDB_SEC_REMAIN_THRESHOLD < sec_size cfg"

lemma enc_recs_simps [simp]:
  "enc_recs [] = []" "enc_recs (r # rs) = enc_rec r @ enc_recs rs" "enc_recs (rs @ rs') = enc_recs rs @ enc_recs rs'"
  by (simp_all add: enc_recs_def)

lemma recs_size_simps [simp]:
  "recs_size [] = 0" "recs_size (r # rs) = rec_size r + recs_size rs" "recs_size (rs @ rs') = recs_size rs + recs_size rs'"
  by (simp_all add: recs_size_def)

lemma length_enc_rec [simp]: "length (enc_rec r) = rec_size r"
  by (simp add: enc_rec_def rec_size_def split: prod.splits)

lemma length_enc_recs [simp]: "length (enc_recs recs) = recs_size recs"
  by (induction recs) simp_all

lemma length_sect_hdr [simp]: "length (sect_hdr st d) = 16"
  by (simp add: sect_hdr_def)

lemma length_sect_bytes: "wf_sect cfg S \<Longrightarrow> length (sect_bytes cfg S) = sec_size cfg"
  by (simp add: sect_bytes_def wf_sect_def)

lemma stored_rec:
  assumes "stored m s (sect_bytes cfg S)" and "sct_recs S = pre @ r # post"
  shows "stored m (s + 16 + recs_size pre) (enc_rec r)"
  using assms by (simp add: sect_bytes_def stored_append add.assoc)

lemma stored_tail:
  assumes "stored m s (sect_bytes cfg S)"
  shows "stored m (s + 16 + recs_size (sct_recs S)) (replicate (sec_size cfg - 16 - recs_size (sct_recs S)) 0xFF)"
  using assms by (simp add: sect_bytes_def stored_append add.assoc)

section \<open>From one record to the next\<close>

lemma of_le32_eq_iff: "of_le32 (a # b # c # d # xs) = w \<longleftrightarrow> [a, b, c, d] = le32 w"
proof
  assume "of_le32 (a # b # c # d # xs) = w"
  then have "of_le32 [a, b, c, d] = w" by simp
  then show "[a, b, c, d] = le32 w" using le32_of_le32 [of a b c d] by simp
next
  assume "[a, b, c, d] = le32 w"
  then have "of_le32 [a, b, c, d] = w" by (simp only: of_le32_le32)
  then show "of_le32 (a # b # c # d # xs) = w" by simp
qed

lemma le32_magic: "le32 KV_MAGIC_WORD = [0x4B, 0x56, 0x30, 0x30]"
  by (simp add: le32_def KV_MAGIC_WORD_def)

lemma find_next_hit:
  assumes "stored (cells f) a (kv_record st key val)" and "a + 32 < fin" and "fin \<le> length (cells f)" and "length (cells f) < 2 ^ 32"
  shows "find_next_loop f a fin a = a"
proof -
  define buf where "buf = take 32 (drop a (cells f))"
  have rd: "fdb_flash_read f a 32 = Some buf" using assms by (simp add: fdb_flash_read_def mem_read_def buf_def)
  have "take (kv_size key val) (drop a (cells f)) = kv_record st key val" using assms(1) by (simp add: stored_def)
  then have "take 8 (kv_record st key val) = take 8 (take (kv_size key val) (drop a (cells f)))" by simp
  then have "take 8 buf = take 8 (kv_record st key val)" by (simp add: buf_def kv_size_def min_def)
  also have "\<dots> = [status_byte st, 0xFF, 0xFF, 0xFF, 0x4B, 0x56, 0x30, 0x30]"
    by (simp add: kv_record_def kv_hdr_tail_def le32_magic FDB_BYTE_ERASED_def eval_nat_numeral(2,3))
  finally have "buf = [status_byte st, 0xFF, 0xFF, 0xFF, 0x4B, 0x56, 0x30, 0x30] @ drop 8 buf"
    by (metis append_take_drop_id)
  then obtain t where buf: "buf = status_byte st # 0xFF # 0xFF # 0xFF # 0x4B # 0x56 # 0x30 # 0x30 # t" by simp
  have no: "magic_at buf i \<noteq> KV_MAGIC_WORD" if "i < 4" for i
  proof -
    have "i \<in> {0, 1, 2, 3}" using that by auto
    then show ?thesis by (auto simp: magic_at_def buf of_le32_eq_iff le32_magic simp del: of_le32.simps)
  qed
  have yes: "magic_at buf 4 = KV_MAGIC_WORD"
    by (simp add: magic_at_def buf of_le32_eq_iff le32_magic del: of_le32.simps)
  have sub: "sub32 (a + 4) KV_MAGIC_OFFSET = a"
    using assms by (simp add: sub32_le KV_MAGIC_OFFSET_def)
  define P where "P i \<longleftrightarrow> a + i < fin \<and> magic_at buf i = KV_MAGIC_WORD \<and> sub32 (a + i) KV_MAGIC_OFFSET \<ge> a" for i
  have "[0..<28] = [0..<4] @ 4 # [5..<28]" by (simp add: upt_rec)
  moreover have "filter P [0..<4] = []" using no by (auto simp: P_def filter_empty_conv)
  moreover have "P 4" using yes sub assms(2) by (simp add: P_def)
  ultimately have "filter P [0..<28] = 4 # filter P [5..<28]" by (simp only: filter_append filter.simps append.simps if_True)
  then show ?thesis
    using assms(2) rd sub by (subst find_next_loop.simps) (simp add: P_def [abs_def])
qed

lemma find_next_erased:
  assumes "\<And>i. a \<le> i \<Longrightarrow> i < fin \<Longrightarrow> cells f ! i = 0xFF" and "fin \<le> length (cells f)"
  shows "find_next_loop f a fin bak = FAILED_ADDR"
  using assms
proof (induction f a fin bak rule: find_next_loop.induct)
  case (1 f a fin bak)
  show ?case
  proof (cases "a + 32 < fin")
    case False
    then show ?thesis by (subst find_next_loop.simps) simp
  next
    case True
    have "take 32 (drop a (cells f)) = replicate 32 0xFF"
      by (rule nth_equalityI) (use True 1(2,3) in auto)
    then have rd: "fdb_flash_read f a 32 = Some (replicate 32 0xFF)"
      using True 1(3) by (simp add: fdb_flash_read_def mem_read_def)
    have "magic_at (replicate 32 0xFF) i \<noteq> KV_MAGIC_WORD" if "i < 28" for i
    proof -
      have "32 - i = Suc (Suc (Suc (Suc (28 - i))))" using that by simp
      then show ?thesis
        by (simp only: magic_at_def drop_replicate replicate.simps of_le32_eq_iff le32_magic) simp
    qed
    then have no: "filter (\<lambda>i. a + i < fin \<and> magic_at (replicate 32 0xFF) i = KV_MAGIC_WORD
        \<and> sub32 (a + i) KV_MAGIC_OFFSET \<ge> bak) [0..<28] = []"
      by (simp add: filter_empty_conv)
    have "find_next_loop f (a + 28) fin bak = FAILED_ADDR"
      by (rule "1.IH" [OF _ rd no]) (use True 1(2,3) in auto)
    then show ?thesis using True rd no by (subst find_next_loop.simps) simp
  qed
qed

text \<open>The cached information of the sector at \<open>s\<close>, if there is any, knows where its records end.\<close>

definition cache_knows_end :: "fdb_kvdb \<Rightarrow> nat \<Rightarrow> nat \<Rightarrow> bool" where
  "cache_knows_end db s e \<longleftrightarrow>
     (case get_sector_from_cache db s of None \<Rightarrow> True | Some i \<Rightarrow> empty_kv (sector_cache_table db ! i) \<in> {FAILED_ADDR, e})"

definition sect_at :: "fdb_cfg \<Rightarrow> fdb_kvdb \<Rightarrow> nat \<Rightarrow> kv_sect \<Rightarrow> bool" where
  "sect_at cfg db s S \<longleftrightarrow>
     wf_sect cfg S \<and> s mod sec_size cfg = 0 \<and> stored (cells (flash db)) s (sect_bytes cfg S)
     \<and> length (cells (flash db)) \<le> max_size cfg \<and> max_size cfg < 2 ^ 32 - 1
     \<and> cache_knows_end db s (s + 16 + recs_size (sct_recs S))"

lemma align_down_sector:
  assumes "s mod n = 0" and "s \<le> a" and "a < s + n"
  shows "FDB_ALIGN_DOWN a n = s"
proof -
  obtain k where k: "s = n * k" using assms(1) by (auto simp: mod_eq_0_iff_dvd dvd_def)
  then have "a div n = k" using assms by (intro div_nat_eqI) (auto simp: mult.commute)
  then show ?thesis by (simp add: FDB_ALIGN_DOWN_def k)
qed

lemma sect_at_bounds:
  assumes "sect_at cfg db s S"
  shows "s + sec_size cfg \<le> length (cells (flash db))" "s + sec_size cfg < 2 ^ 32 - 1"
    "16 + recs_size (sct_recs S) + 88 < sec_size cfg" "length (cells (flash db)) < 2 ^ 32"
proof -
  show "s + sec_size cfg \<le> length (cells (flash db))"
    using assms length_sect_bytes [of cfg S] by (auto simp: sect_at_def stored_def)
  with assms show "s + sec_size cfg < 2 ^ 32 - 1" by (simp add: sect_at_def)
  show "16 + recs_size (sct_recs S) + 88 < sec_size cfg" using assms by (simp add: sect_at_def wf_sect_def kvdb_consts)
  show "length (cells (flash db)) < 2 ^ 32" using assms by (simp add: sect_at_def)
qed

lemma get_next_kv_addr_layout:
  assumes sec: "sect_at cfg db s S" and recs: "sct_recs S = pre @ r # post"
    and sector: "sec_addr sector = s" "store_status sector \<noteq> FDB_SECTOR_STORE_EMPTY"
    and kv: "addr_start kv = s + 16 + recs_size pre" "crc_is_ok kv" "kv_len kv = rec_size r"
  shows "get_next_kv_addr cfg db sector kv = (if post = [] then FAILED_ADDR else s + 16 + recs_size (pre @ [r]))"
proof -
  note b = sect_at_bounds [OF sec]
  define a where "a = s + 16 + recs_size (pre @ [r])"
  define fin where "fin = s + sec_size cfg - 16"
  have pos: "0 < rec_size r" by (cases r) (simp add: rec_size_def kv_size_def)
  have a: "addr_start kv + kv_len kv = a" using kv by (simp add: a_def)
  have al: "FDB_ALIGN_DOWN a (sec_size cfg) = s"
    using sec b recs by (intro align_down_sector) (auto simp: sect_at_def a_def)
  have find: "find_next_kv_addr cfg db a fin = (if post = [] then FAILED_ADDR else a)"
  proof (cases post)
    case Nil
    have tail: "stored (cells (flash db)) a (replicate (sec_size cfg - 16 - recs_size (sct_recs S)) 0xFF)"
      using stored_tail [of "cells (flash db)" s cfg S] sec recs Nil by (simp add: sect_at_def a_def)
    have erased: "cells (flash db) ! i = 0xFF" if "a \<le> i" "i < fin" for i
    proof -
      have "i - a < sec_size cfg - 16 - recs_size (sct_recs S)" using that b recs Nil by (simp add: a_def fin_def)
      with tail have "cells (flash db) ! (a + (i - a)) = 0xFF" unfolding stored_nth by simp
      with that show ?thesis by simp
    qed
    have "find_next_loop (flash db) a fin a = FAILED_ADDR"
      by (rule find_next_erased [OF erased]) (use b in \<open>simp_all add: fin_def\<close>)
    with Nil show ?thesis by (simp add: find_next_kv_addr_def split: option.splits)
  next
    case (Cons r' post')
    have "stored (cells (flash db)) a (enc_rec r')"
      using stored_rec [of "cells (flash db)" s cfg S "pre @ [r]" r' post'] sec recs Cons by (simp add: sect_at_def a_def)
    then have "find_next_loop (flash db) a fin a = a"
      using b recs Cons by (cases r') (auto intro!: find_next_hit simp: enc_rec_def a_def fin_def)
    moreover have "a \<noteq> s + 16 + recs_size (sct_recs S)"
      using recs Cons by (cases r') (simp add: a_def rec_size_def kv_size_def)
    moreover have "a \<noteq> FAILED_ADDR" using b recs by (simp add: a_def FAILED_ADDR_def)
    ultimately show ?thesis
      using sec Cons al by (auto simp: find_next_kv_addr_def sect_at_def cache_knows_end_def split: option.splits)
  qed
  have "a \<le> s + sec_size cfg" "a \<noteq> FAILED_ADDR" "addr_start kv \<noteq> FAILED_ADDR" "addr_start kv \<le> s + sec_size cfg"
    using b recs kv by (simp_all add: a_def FAILED_ADDR_def)
  then show ?thesis
    unfolding a_def [symmetric]
    using sector kv(2) find pos kv(3)
    by (simp add: get_next_kv_addr_def Let_def SECTOR_HDR_DATA_SIZE_def fin_def [symmetric] a [unfolded kv(3)])
qed

section \<open>Walking over the records of a sector\<close>

text \<open>A loop over records that reads the database only, with \<open>a\<close> the address of the first record.\<close>

fun rec_scan ::
  "(fdb_kv \<Rightarrow> 'x \<Rightarrow> (bool \<times> 'x) option) \<Rightarrow> nat \<Rightarrow> fdb_kv \<Rightarrow> kv_rec list \<Rightarrow> 'x \<Rightarrow> (bool \<times> fdb_kv \<times> 'x) option" where
  "rec_scan b a kv [] x = Some (False, kv\<lparr>addr_start := FAILED_ADDR\<rparr>, x)"
| "rec_scan b a kv ((st, key, val) # rs) x =
     (let kv = kv_of_record (kv\<lparr>addr_start := a\<rparr>) st key val
      in case b kv x of
           None \<Rightarrow> None
         | Some (stop, x) \<Rightarrow> if stop then Some (True, kv, x) else rec_scan b (a + kv_size key val) kv rs x)"

lemma kv_of_record_simps [simp]:
  "addr_start (kv_of_record kv st key val) = addr_start kv"
  "crc_is_ok (kv_of_record kv st key val)"
  "kv_len (kv_of_record kv st key val) = kv_size key val"
  "kv_status (kv_of_record kv st key val) = st"
  "name_len (kv_of_record kv st key val) = length key"
  "value_len (kv_of_record kv st key val) = length val"
  "addr_value (kv_of_record kv st key val) = addr_start kv + 24 + length key"
  by (simp_all add: kv_of_record_def)

lemma kv_name_of_record:
  assumes "length (kv_name kv) = 64" and "length key < 64"
  shows "length (kv_name (kv_of_record kv st key val)) = 64"
  using assms by (simp add: kv_of_record_def)

lemma wf_rec_split:
  assumes "wf_sect cfg S" and "sct_recs S = pre @ (st, key, val) # post"
  shows "st < FDB_KV_STATUS_NUM" "length key < 64" "0 \<notin> set key" "kv_size key val < sec_size cfg"
  using assms by (auto simp: wf_sect_def wf_rec_def rec_size_def kvdb_consts)

lemma read_kv_layout:
  assumes sec: "sect_at cfg db s S" and recs: "sct_recs S = pre @ (st, key, val) # post"
    and kv: "addr_start kv = s + 16 + recs_size pre" "length (kv_name kv) = 64"
  shows "read_kv cfg kv db = Some (FDB_NO_ERR, kv_of_record kv st key val, db)"
proof (rule read_kv_record)
  have wf: "wf_sect cfg S" using sec by (simp add: sect_at_def)
  show "stored (cells (flash db)) (addr_start kv) (kv_record st key val)"
    using stored_rec [of "cells (flash db)" s cfg S, OF _ recs] sec kv by (simp add: sect_at_def enc_rec_def)
  show "st < FDB_KV_STATUS_NUM" "length key < 64" using wf_rec_split [OF wf recs] by simp_all
  show "length (kv_name kv) = 64" by (rule kv(2))
  show "kv_size key val \<le> max_size cfg" "max_size cfg < 2 ^ 32 - 1"
    using wf_rec_split(4) [OF wf recs] sect_at_bounds(1) [OF sec] sec by (simp_all add: sect_at_def)
qed

lemma kv_walk_scan:
  assumes sec: "sect_at cfg db s S" and recs: "sct_recs S = pre @ rs" "rs \<noteq> []"
    and sector: "sec_addr sector = s" "store_status sector \<noteq> FDB_SECTOR_STORE_EMPTY"
    and kv: "addr_start kv = s + 16 + recs_size pre" "length (kv_name kv) = 64"
    and body: "\<And>kv x. body FDB_NO_ERR kv x db = map_option (\<lambda>(stop, x). (stop, x, db)) (b kv x)"
  shows "kv_walk cfg sector body kv x db =
    map_option (\<lambda>(stop, kv, x). (stop, kv, x, db)) (rec_scan b (s + 16 + recs_size pre) kv rs x)"
  using recs kv
proof (induction rs arbitrary: pre kv x)
  case Nil
  then show ?case by simp
next
  case (Cons r rs)
  obtain st key val where r: "r = (st, key, val)" by (cases r)
  define kv' where "kv' = kv_of_record kv st key val"
  have wf: "wf_sect cfg S" using sec by (simp add: sect_at_def)
  have recs': "sct_recs S = pre @ (st, key, val) # rs" using Cons.prems(1) r by simp
  have rd: "read_kv cfg kv db = Some (FDB_NO_ERR, kv', db)"
    unfolding kv'_def by (rule read_kv_layout [OF sec recs' Cons.prems(3,4)])
  have nx: "get_next_kv_addr cfg db sector kv' = (if rs = [] then FAILED_ADDR else s + 16 + recs_size (pre @ [(st, key, val)]))"
    by (rule get_next_kv_addr_layout [OF sec recs' sector]) (simp_all add: kv'_def Cons.prems(3) rec_size_def)
  have e: "kv\<lparr>addr_start := s + 16 + recs_size pre\<rparr> = kv" using Cons.prems(3) by simp
  have step: "s + 16 + recs_size (pre @ [(st, key, val)]) = s + 16 + recs_size pre + kv_size key val"
    by (simp add: rec_size_def)
  have scan: "rec_scan b (s + 16 + recs_size pre) kv (r # rs) x =
      (case b kv' x of
         None \<Rightarrow> None
       | Some (stop, x) \<Rightarrow> if stop then Some (True, kv', x)
           else rec_scan b (s + 16 + recs_size (pre @ [(st, key, val)])) kv' rs x)"
    unfolding r rec_scan.simps Let_def e kv'_def [symmetric] step ..
  show ?case
  proof (cases "b kv' x")
    case None
    then show ?thesis by (subst kv_walk.simps) (simp add: rd body scan)
  next
    case (Some p)
    obtain stop x' where p: "p = (stop, x')" by (cases p)
    show ?thesis
    proof (cases "stop \<or> rs = []")
      case True
      then show ?thesis using Some p nx by (subst kv_walk.simps) (auto simp add: rd body scan)
    next
      case False
      let ?kv2 = "kv'\<lparr>addr_start := s + 16 + recs_size (pre @ [(st, key, val)])\<rparr>"
      have ne: "s + 16 + recs_size (pre @ [(st, key, val)]) \<noteq> FAILED_ADDR"
        using sect_at_bounds [OF sec] recs' by (simp add: FAILED_ADDR_def)
      have "length (kv_name ?kv2) = 64"
        using kv_name_of_record [OF Cons.prems(4) wf_rec_split(2) [OF wf recs']] by (simp add: kv'_def)
      then have "kv_walk cfg sector body ?kv2 x' db = map_option (\<lambda>(stop, kv, x). (stop, kv, x, db))
          (rec_scan b (s + 16 + recs_size (pre @ [(st, key, val)])) ?kv2 rs x')"
        using False recs' by (intro Cons.IH) simp_all
      moreover have "rec_scan b a2 (kv'\<lparr>addr_start := a3\<rparr>) rs x' = rec_scan b a2 kv' rs x'" for a2 a3
        by (cases rs) (auto simp: Let_def)
      ultimately show ?thesis
        using False Some p nx ne
        by (subst kv_walk.simps) (simp add: rd body scan)
    qed
  qed
qed

end
