(* ===== verification/Fdb_Kvdb_Sectors.thy ===== *)
theory Fdb_Kvdb_Sectors
  imports Fdb_Kvdb_Layout
begin

text \<open>
  The whole database: all sectors are well formed and the sector cache agrees with flash. Reading the information of a
  sector then gives what is in flash, whether it comes from the cache or not, and keeps the cache correct.
\<close>

unbundle bit_operations_syntax

section \<open>The database and its sector cache\<close>

definition layout :: "fdb_cfg \<Rightarrow> kv_sect list \<Rightarrow> bytes \<Rightarrow> bool" where
  "layout cfg L m \<longleftrightarrow>
     length m = max_size cfg \<and> max_size cfg = length L * sec_size cfg \<and> max_size cfg < 2 ^ 32 - 1 \<and> 2 \<le> length L
     \<and> (\<forall>i < length L. wf_sect cfg (L ! i) \<and> stored m (i * sec_size cfg) (sect_bytes cfg (L ! i)))"

definition info_of :: "fdb_cfg \<Rightarrow> nat \<Rightarrow> kv_sect \<Rightarrow> kvdb_sec_info \<Rightarrow> bool" where
  "info_of cfg s S e \<longleftrightarrow>
     check_ok e \<and> store_status e = sct_store S \<and> dirty_status e = sct_dirty S \<and> sec_addr e = s
     \<and> combined e = SECTOR_NOT_COMBINED
     \<and> (empty_kv e = FAILED_ADDR \<and> remain e = 0
        \<or> empty_kv e = s + 16 + recs_size (sct_recs S) \<and> remain e = sec_size cfg - 16 - recs_size (sct_recs S))"

definition sec_cache_ok :: "fdb_cfg \<Rightarrow> kv_sect list \<Rightarrow> kvdb_sec_info list \<Rightarrow> bool" where
  "sec_cache_ok cfg L tab \<longleftrightarrow>
     length tab = FDB_SECTOR_CACHE_TABLE_SIZE
     \<and> (\<forall>j < length tab. sec_addr (tab ! j) \<noteq> FDB_DATA_UNUSED \<longrightarrow>
          (\<exists>i < length L. info_of cfg (i * sec_size cfg) (L ! i) (tab ! j)))
     \<and> (\<forall>j k. j < k \<and> k < length tab \<and> sec_addr (tab ! j) = sec_addr (tab ! k) \<longrightarrow> sec_addr (tab ! j) = FDB_DATA_UNUSED)"

definition repr :: "fdb_cfg \<Rightarrow> kv_sect list \<Rightarrow> fdb_kvdb \<Rightarrow> bool" where
  "repr cfg L db \<longleftrightarrow>
     layout cfg L (cells (flash db)) \<and> sec_cache_ok cfg L (sector_cache_table db)
     \<and> oldest_addr db mod sec_size cfg = 0 \<and> oldest_addr db < max_size cfg"

lemma sector_end: "i < n \<Longrightarrow> i * k + k \<le> n * (k :: nat)"
  by (metis Suc_leI add.commute mult_Suc mult_le_mono1)

lemma layout_sec_size:
  assumes "layout cfg L m"
  shows "104 < sec_size cfg" and "sec_size cfg < 2 ^ 32"
proof -
  have "0 < length L" using assms by (auto simp: layout_def)
  then have "wf_sect cfg (L ! 0)" using assms by (simp add: layout_def)
  then show "104 < sec_size cfg" by (simp add: wf_sect_def kvdb_consts)
  have "length L * sec_size cfg < 2 ^ 32 - 1" using assms by (simp add: layout_def)
  with sector_end [OF \<open>0 < length L\<close>, of "sec_size cfg"] show "sec_size cfg < 2 ^ 32" by linarith
qed

lemma sec_cache_lookup:
  assumes "sec_cache_ok cfg L (sector_cache_table db)" and "i < length L" and "0 < sec_size cfg" and "length L * sec_size cfg < 2 ^ 32 - 1"
    and "get_sector_from_cache db (i * sec_size cfg) = Some j"
  shows "j < length (sector_cache_table db)" "info_of cfg (i * sec_size cfg) (L ! i) (sector_cache_table db ! j)"
proof -
  have j: "j < length (sector_cache_table db)" "sec_addr (sector_cache_table db ! j) = i * sec_size cfg"
    using assms(5) by (auto simp: get_sector_from_cache_def dest: find_index_Some)
  then show "j < length (sector_cache_table db)" by simp
  have "i * sec_size cfg \<noteq> FDB_DATA_UNUSED" using sector_end [OF assms(2), of "sec_size cfg"] assms(4) by (simp add: FDB_DATA_UNUSED_def)
  with j assms(1) obtain i' where i': "i' < length L" "info_of cfg (i' * sec_size cfg) (L ! i') (sector_cache_table db ! j)"
    by (auto simp: sec_cache_ok_def)
  then have "i' * sec_size cfg = i * sec_size cfg" using j(2) by (metis info_of_def)
  then show "info_of cfg (i * sec_size cfg) (L ! i) (sector_cache_table db ! j)"
    using i' assms(3) by auto
qed

lemma repr_sect_at:
  assumes "repr cfg L db" and "i < length L"
  shows "sect_at cfg db (i * sec_size cfg) (L ! i)"
proof -
  have ly: "layout cfg L (cells (flash db))" and ca: "sec_cache_ok cfg L (sector_cache_table db)"
    using assms(1) by (simp_all add: repr_def)
  have b: "length L * sec_size cfg < 2 ^ 32 - 1" using ly by (simp add: layout_def)
  have "0 < sec_size cfg" using layout_sec_size [OF ly] by simp
  then have "cache_knows_end db (i * sec_size cfg) (i * sec_size cfg + 16 + recs_size (sct_recs (L ! i)))"
    using sec_cache_lookup(2) [OF ca assms(2) _ b]
    by (auto simp: cache_knows_end_def info_of_def split: option.splits)
  then show ?thesis using ly assms(2) by (simp add: sect_at_def layout_def)
qed

text \<open>Putting correct information into the cache.\<close>

lemma sec_cache_set:
  assumes ok: "sec_cache_ok cfg L tab" and j: "j < length tab"
    and e: "i < length L" "info_of cfg (i * sec_size cfg) (L ! i) e"
    and new: "\<And>k. k < length tab \<Longrightarrow> k \<noteq> j \<Longrightarrow> sec_addr (tab ! k) \<noteq> sec_addr e"
  shows "sec_cache_ok cfg L (tab[j := e])"
proof -
  have "length tab = FDB_SECTOR_CACHE_TABLE_SIZE" using ok by (simp add: sec_cache_ok_def)
  with new have "sec_addr e \<noteq> sec_addr (tab ! k)" if "k < FDB_SECTOR_CACHE_TABLE_SIZE" "k \<noteq> j" for k
    using that by metis
  with assms show ?thesis by (auto simp: sec_cache_ok_def nth_list_update)
qed

lemma update_sector_cache_ok:
  assumes ok: "sec_cache_ok cfg L (sector_cache_table db)"
    and e: "i < length L" "info_of cfg (i * sec_size cfg) (L ! i) e"
    and b: "length L * sec_size cfg < 2 ^ 32 - 1"
  shows "\<exists>tab. update_sector_cache e db = db\<lparr>sector_cache_table := tab\<rparr> \<and> sec_cache_ok cfg L tab"
proof (cases "find_index (\<lambda>s. sec_addr s = sec_addr e) (sector_cache_table db)")
  case (Some j)
  have j: "j < length (sector_cache_table db)" "sec_addr (sector_cache_table db ! j) = sec_addr e"
    using find_index_Some [OF Some] by simp_all
  have "sec_addr e \<noteq> FDB_DATA_UNUSED"
    using e b sector_end [of i "length L" "sec_size cfg"] by (simp add: info_of_def FDB_DATA_UNUSED_def)
  then have "sec_addr (sector_cache_table db ! k) \<noteq> sec_addr e" if "k < length (sector_cache_table db)" "k \<noteq> j" for k
    using ok j that by (metis linorder_neqE_nat sec_cache_ok_def)
  from sec_cache_set [OF ok j(1) e this] show ?thesis
    using Some e by (auto simp: update_sector_cache_def Let_def info_of_def)
next
  case None
  have new: "sec_addr (sector_cache_table db ! k) \<noteq> sec_addr e" if "k < length (sector_cache_table db)" for k
    using None that by (auto simp: find_index_None)
  show ?thesis
  proof (cases "filter (\<lambda>i. sec_addr (sector_cache_table db ! i) = FDB_DATA_UNUSED) (rev [0..<length (sector_cache_table db)])")
    case Nil
    then show ?thesis
      using None ok by (intro exI [of _ "sector_cache_table db"]) (simp add: update_sector_cache_def Let_def)
  next
    case (Cons j js)
    then have "j \<in> set (filter (\<lambda>i. sec_addr (sector_cache_table db ! i) = FDB_DATA_UNUSED) (rev [0..<length (sector_cache_table db)]))"
      by simp
    then have "j < length (sector_cache_table db)" by simp
    from sec_cache_set [OF ok this e] new show ?thesis
      using None Cons e by (auto simp: update_sector_cache_def Let_def info_of_def)
  qed
qed

section \<open>Reading the information of a sector\<close>

lemma sect_hdr_fields:
  assumes "store < FDB_SECTOR_STORE_STATUS_NUM" and "dirty < FDB_SECTOR_DIRTY_STATUS_NUM" and "h = sect_hdr store dirty"
  shows "of_le32 (drop 4 h) = SECTOR_MAGIC_WORD" "of_le32 (drop 8 h) = SECTOR_NOT_COMBINED"
    "fdb_get_status (take 1 h) FDB_SECTOR_STORE_STATUS_NUM = store"
    "fdb_get_status (take 1 (drop 1 h)) FDB_SECTOR_DIRTY_STATUS_NUM = dirty"
proof -
  have "drop 4 h = le32 SECTOR_MAGIC_WORD @ le32 SECTOR_NOT_COMBINED @ le32 0xFFFFFFFF"
    "drop 8 h = le32 SECTOR_NOT_COMBINED @ le32 0xFFFFFFFF"
    unfolding assms(3) by (simp_all add: sect_hdr_def eval_nat_numeral(2,3))
  then show "of_le32 (drop 4 h) = SECTOR_MAGIC_WORD" "of_le32 (drop 8 h) = SECTOR_NOT_COMBINED"
    by (simp_all add: of_le32_append of_le32_le32)
  show "fdb_get_status (take 1 h) FDB_SECTOR_STORE_STATUS_NUM = store"
    "fdb_get_status (take 1 (drop 1 h)) FDB_SECTOR_DIRTY_STATUS_NUM = dirty"
    using assms by (simp_all add: sect_hdr_def get_status_byte kvdb_consts)
qed

text \<open>The loop over the records adds up their lengths.\<close>

lemma info_scan:
  assumes "e + recs_size rs < 2 ^ 32" and "recs_size rs \<le> r" and "r < 2 ^ 32" and "list_all wf_rec rs"
    and "b = (\<lambda>kv x. map_option (\<lambda>(stop, x, _). (stop, x)) (sector_info_body FDB_NO_ERR kv x db))"
  shows "\<exists>kv'. rec_scan b a kv rs (res, sector\<lparr>empty_kv := e, remain := r\<rparr>) =
    Some (False, kv', (res, sector\<lparr>empty_kv := e + recs_size rs, remain := r - recs_size rs\<rparr>))"
  using assms(1-4)
proof (induction rs arbitrary: a kv e r)
  case Nil
  then show ?case by simp
next
  case (Cons rc rs)
  obtain st key val where rc: "rc = (st, key, val)" by (cases rc)
  let ?kv = "kv_of_record (kv\<lparr>addr_start := a\<rparr>) st key val"
  have b: "b ?kv (res, sector\<lparr>empty_kv := e, remain := r\<rparr>) =
      Some (False, (res, sector\<lparr>empty_kv := e + kv_size key val, remain := r - kv_size key val\<rparr>))"
    using Cons.prems by (simp add: assms(5) sector_info_body_def add32_less sub32_le rc rec_size_def)
  have side: "e + kv_size key val + recs_size rs < 2 ^ 32" "recs_size rs \<le> r - kv_size key val"
    "r - kv_size key val < 2 ^ 32" "list_all wf_rec rs"
    using Cons.prems by (simp_all add: rc rec_size_def less_imp_diff_less)
  obtain kv' where "rec_scan b (a + kv_size key val) ?kv rs
      (res, sector\<lparr>empty_kv := e + kv_size key val, remain := r - kv_size key val\<rparr>) =
    Some (False, kv', (res, sector\<lparr>empty_kv := e + kv_size key val + recs_size rs, remain := r - kv_size key val - recs_size rs\<rparr>))"
    using Cons.IH [OF side] by blast
  with b show ?case by (simp add: rc rec_size_def add.assoc Let_def)
qed

lemma ff_scan_erased: "ff_scan (replicate n 0xFF) s FDB_BYTE_ERASED a = (FDB_BYTE_ERASED, a)"
  by (induction n arbitrary: s) (simp_all add: FDB_BYTE_ERASED_def)

lemma continue_ff_erased:
  assumes "stored (cells f) a (replicate n 0xFF)" and "0 < n" and "fin = a + n"
  shows "fdb_continue_ff_addr f a fin = Some a"
proof -
  have "fin \<le> length (cells f)" "take (fin - a) (drop a (cells f)) = replicate n 0xFF"
    using assms by (simp_all add: stored_def)
  moreover have "ff_scan (replicate n 0xFF) a FDB_BYTE_WRITTEN a = (FDB_BYTE_ERASED, a)"
    using assms(2) ff_scan_erased [of "n - 1" "a + 1" a]
    by (cases n) (simp_all add: FDB_BYTE_WRITTEN_def FDB_BYTE_ERASED_def)
  ultimately show ?thesis using assms(3) by (simp add: fdb_continue_ff_addr_def ff_loop_scan)
qed

lemma read_using_sector_eq:
  assumes sec: "sect_at cfg db s S" and st: "sct_store S = FDB_SECTOR_STORE_USING"
    and sector: "sec_addr sector = s" "store_status sector = FDB_SECTOR_STORE_USING" "empty_kv sector = s + 16"
  shows "read_using_sector cfg sector db =
    Some (FDB_NO_ERR, sector\<lparr>empty_kv := s + 16 + recs_size (sct_recs S), remain := sec_size cfg - 16 - recs_size (sct_recs S)\<rparr>, db)"
proof -
  note bd = sect_at_bounds [OF sec]
  define b where "b = (\<lambda>kv x. map_option (\<lambda>(stop, x, _). (stop, x)) (sector_info_body FDB_NO_ERR kv x db))"
  have wf: "list_all wf_rec (sct_recs S)" "sct_recs S \<noteq> []"
    using sec st by (auto simp: sect_at_def wf_sect_def FDB_SECTOR_STORE_EMPTY_def FDB_SECTOR_STORE_USING_def)
  let ?sec = "sector\<lparr>empty_kv := s + 16, remain := sec_size cfg - 16\<rparr>"
  have s0: "sector\<lparr>remain := sec_size cfg - 16\<rparr> = ?sec" using sector by simp
  have s16: "sub32 (sec_size cfg) 16 = sec_size cfg - 16" using bd by (simp add: sub32_le)
  obtain kv' where scan: "rec_scan b (s + 16) (kv_zero\<lparr>addr_start := s + 16\<rparr>) (sct_recs S) (FDB_NO_ERR, ?sec) =
      Some (False, kv', (FDB_NO_ERR, sector\<lparr>empty_kv := s + 16 + recs_size (sct_recs S),
        remain := sec_size cfg - 16 - recs_size (sct_recs S)\<rparr>))"
    using info_scan [OF _ _ _ wf(1) b_def, of "s + 16" "sec_size cfg - 16"] bd by fastforce
  have "kv_walk cfg ?sec sector_info_body (kv_zero\<lparr>addr_start := s + 16\<rparr>) (FDB_NO_ERR, ?sec) db =
      map_option (\<lambda>(stop, kv, x). (stop, kv, x, db))
        (rec_scan b (s + 16 + recs_size []) (kv_zero\<lparr>addr_start := s + 16\<rparr>) (sct_recs S) (FDB_NO_ERR, ?sec))"
  proof (rule kv_walk_scan [OF sec])
    show "sector_info_body FDB_NO_ERR kv x db = map_option (\<lambda>(stop, x). (stop, x, db)) (b kv x)" for kv x
      by (simp add: b_def sector_info_body_def split: prod.splits)
  qed (use wf sector in \<open>simp_all add: kv_zero_def FDB_KV_NAME_MAX_def FDB_SECTOR_STORE_EMPTY_def FDB_SECTOR_STORE_USING_def\<close>)
  moreover have "fdb_continue_ff_addr (flash db) (s + 16 + recs_size (sct_recs S)) (s + sec_size cfg) =
      Some (s + 16 + recs_size (sct_recs S))"
    by (rule continue_ff_erased [OF stored_tail]) (use sec bd in \<open>auto simp: sect_at_def\<close>)
  ultimately show ?thesis
    using sector scan by (simp add: read_using_sector_def s16 s0 SECTOR_HDR_DATA_SIZE_def Let_def)
qed

text \<open>The information that is read from flash when the cache does not have it.\<close>

definition hdr_info :: "nat \<Rightarrow> kv_sect \<Rightarrow> kvdb_sec_info \<Rightarrow> kvdb_sec_info" where
  "hdr_info s S sector =
     sector\<lparr>check_ok := True, store_status := sct_store S, dirty_status := sct_dirty S, sec_addr := s,
            sec_magic := SECTOR_MAGIC_WORD, combined := SECTOR_NOT_COMBINED\<rparr>"

lemma read_hdr:
  assumes "sect_at cfg db s S"
  shows "fdb_flash_read (flash db) s 16 = Some (sect_hdr (sct_store S) (sct_dirty S))"
  by (rule stored_read) (use assms in \<open>simp_all add: sect_at_def sect_bytes_def stored_append\<close>)

lemma wf_sect_status:
  assumes "wf_sect cfg S"
  shows "sct_store S < FDB_SECTOR_STORE_STATUS_NUM" "sct_dirty S < FDB_SECTOR_DIRTY_STATUS_NUM"
  using assms by (auto simp: wf_sect_def kvdb_consts)

lemma traverse_sector_eq:
  assumes sec: "sect_at cfg db s S"
  shows "traverse_sector cfg (hdr_info s S sector) db =
    Some (FDB_NO_ERR, (hdr_info s S sector)\<lparr>empty_kv := s + 16 + recs_size (sct_recs S),
      remain := sec_size cfg - 16 - recs_size (sct_recs S)\<rparr>, db)"
proof -
  have wf: "wf_sect cfg S" using sec by (simp add: sect_at_def)
  have s16: "sub32 (sec_size cfg) 16 = sec_size cfg - 16" using sect_at_bounds [OF sec] by (simp add: sub32_le)
  have st: "sct_store S = FDB_SECTOR_STORE_EMPTY \<and> sct_recs S = [] \<or> sct_store S = FDB_SECTOR_STORE_USING"
    using wf by (auto simp: wf_sect_def)
  have "read_using_sector cfg ((hdr_info s S sector)\<lparr>remain := 0, empty_kv := s + 16\<rparr>) db =
      Some (FDB_NO_ERR, (hdr_info s S sector)\<lparr>empty_kv := s + 16 + recs_size (sct_recs S),
        remain := sec_size cfg - 16 - recs_size (sct_recs S)\<rparr>, db)"
    if "sct_store S = FDB_SECTOR_STORE_USING"
    using read_using_sector_eq [OF sec that, of "(hdr_info s S sector)\<lparr>remain := 0, empty_kv := s + 16\<rparr>"] that
    by (simp add: hdr_info_def)
  with st s16 show ?thesis
    by (auto simp: traverse_sector_def hdr_info_def Let_def SECTOR_HDR_DATA_SIZE_def FDB_SECTOR_STORE_EMPTY_def
      FDB_SECTOR_STORE_USING_def)
qed

lemma read_sector_info_flash:
  assumes sec: "sect_at cfg db s S"
    and miss: "case get_sector_from_cache db s of
                 None \<Rightarrow> True | Some j \<Rightarrow> traversal \<and> empty_kv (sector_cache_table db ! j) = FAILED_ADDR"
  shows "read_sector_info cfg s sector traversal db =
    (let e = (if traversal
              then (hdr_info s S sector)\<lparr>empty_kv := s + 16 + recs_size (sct_recs S),
                     remain := sec_size cfg - 16 - recs_size (sct_recs S)\<rparr>
              else (hdr_info s S sector)\<lparr>empty_kv := FAILED_ADDR, remain := 0\<rparr>)
     in Some (FDB_NO_ERR, e, update_sector_cache e db))"
proof -
  have wf: "wf_sect cfg S" and s: "s mod sec_size cfg = 0" using sec by (simp_all add: sect_at_def)
  note bd = sect_at_bounds [OF sec]
  have hdr: "sec_hdr_info s (sect_hdr (sct_store S) (sct_dirty S)) sector = hdr_info s S sector"
    using sect_hdr_fields [OF wf_sect_status [OF wf] refl] by (simp add: sec_hdr_info_def hdr_info_def Let_def)
  have cached: "(case get_sector_from_cache db s of None \<Rightarrow> None
      | Some i \<Rightarrow> if \<not> traversal \<or> empty_kv (sector_cache_table db ! i) \<noteq> FAILED_ADDR then Some (sector_cache_table db ! i) else None) = None"
    using miss by (auto split: option.splits)
  have fresh: "\<not> traversal \<Longrightarrow> get_sector_from_cache db s = None" using miss by (auto split: option.splits)
  have ok: "check_ok (hdr_info s S sector)" by (simp add: hdr_info_def)
  show ?thesis
    unfolding read_sector_info_def cached
    using s bd(3) fresh
    by (cases traversal) (simp_all add: read_hdr [OF sec] hdr ok traverse_sector_eq [OF sec] Let_def)
qed

lemma read_sector_info_repr:
  assumes repr: "repr cfg L db" and i: "i < length L"
  shows "\<exists>e tab. read_sector_info cfg (i * sec_size cfg) sector traversal db = Some (FDB_NO_ERR, e, db\<lparr>sector_cache_table := tab\<rparr>)
    \<and> info_of cfg (i * sec_size cfg) (L ! i) e \<and> (traversal \<longrightarrow> empty_kv e \<noteq> FAILED_ADDR) \<and> sec_cache_ok cfg L tab"
proof -
  define s where "s = i * sec_size cfg"
  have ly: "layout cfg L (cells (flash db))" and ca: "sec_cache_ok cfg L (sector_cache_table db)"
    using repr by (simp_all add: repr_def)
  have b: "length L * sec_size cfg < 2 ^ 32 - 1" using ly by (simp add: layout_def)
  have pos: "0 < sec_size cfg" using layout_sec_size [OF ly] by simp
  note sec = repr_sect_at [OF repr i, folded s_def]
  show ?thesis
  proof (cases "case get_sector_from_cache db s of
                 None \<Rightarrow> True | Some j \<Rightarrow> traversal \<and> empty_kv (sector_cache_table db ! j) = FAILED_ADDR")
    case True
    define e where "e = (if traversal
              then (hdr_info s (L ! i) sector)\<lparr>empty_kv := s + 16 + recs_size (sct_recs (L ! i)),
                     remain := sec_size cfg - 16 - recs_size (sct_recs (L ! i))\<rparr>
              else (hdr_info s (L ! i) sector)\<lparr>empty_kv := FAILED_ADDR, remain := 0\<rparr>)"
    have rd: "read_sector_info cfg s sector traversal db = Some (FDB_NO_ERR, e, update_sector_cache e db)"
      using read_sector_info_flash [OF sec True] by (simp add: e_def Let_def)
    have e: "info_of cfg s (L ! i) e" by (simp add: e_def info_of_def hdr_info_def)
    moreover have "traversal \<longrightarrow> empty_kv e \<noteq> FAILED_ADDR"
      using sect_at_bounds [OF sec] by (simp add: e_def FAILED_ADDR_def)
    moreover obtain tab where "update_sector_cache e db = db\<lparr>sector_cache_table := tab\<rparr>" "sec_cache_ok cfg L tab"
      using update_sector_cache_ok [OF ca i e [unfolded s_def] b] by blast
    ultimately show ?thesis
      using rd unfolding s_def by (intro exI [of _ e] exI [of _ tab]) simp
  next
    case False
    then obtain j where j: "get_sector_from_cache db s = Some j"
      "\<not> traversal \<or> empty_kv (sector_cache_table db ! j) \<noteq> FAILED_ADDR"
      by (auto split: option.splits)
    have "info_of cfg s (L ! i) (sector_cache_table db ! j)"
      using sec_cache_lookup(2) [OF ca i pos b] j(1) by (simp add: s_def)
    moreover have "read_sector_info cfg s sector traversal db =
        Some (FDB_NO_ERR, sector_cache_table db ! j, db\<lparr>sector_cache_table := sector_cache_table db\<rparr>)"
      using j pos by (simp add: read_sector_info_def s_def)
    ultimately show ?thesis
      using ca j(2) unfolding s_def
      by (intro exI [of _ "sector_cache_table db ! j"] exI [of _ "sector_cache_table db"]) simp
  qed
qed

end
