(* ===== verification/Fdb_Kvdb_Find.thy ===== *)
theory Fdb_Kvdb_Find
  imports Fdb_Kvdb_Sectors
begin

text \<open>
  The walk over all sectors, starting at the oldest one, and the search for a key: on a well-formed database it finds
  the visible record of the key if there is one, and changes nothing but the sector cache.
\<close>

unbundle bit_operations_syntax

section \<open>Walking over the sectors\<close>

fun idx_scan :: "(nat \<Rightarrow> 'x \<Rightarrow> bool \<times> 'x) \<Rightarrow> nat list \<Rightarrow> 'x \<Rightarrow> bool \<times> 'x" where
  "idx_scan g [] x = (False, x)"
| "idx_scan g (i # js) x = (case g i x of (stop, x) \<Rightarrow> if stop then (True, x) else idx_scan g js x)"

lemma get_next_sector_index:
  assumes "sec_addr e = i * sec_size cfg" and "combined e = SECTOR_NOT_COMBINED" and "i < n" and "k < n"
    and "max_size cfg = n * sec_size cfg" and "0 < sec_size cfg" and "max_size cfg < 2 ^ 32 - 1"
  shows "get_next_sector_addr cfg e (k * sec_size cfg + sec_size cfg) =
    (if Suc k < n then (Suc i mod n) * sec_size cfg else FAILED_ADDR)"
proof -
  have "k * sec_size cfg + sec_size cfg + sec_size cfg \<le> n * sec_size cfg \<longleftrightarrow> Suc k < n"
  proof -
    have "k * sec_size cfg + sec_size cfg + sec_size cfg = (k + 2) * sec_size cfg" by simp
    then show ?thesis using assms(6) by (simp del: add_mult_distrib add_2_eq_Suc add_2_eq_Suc') auto
  qed
  moreover have "i * sec_size cfg + sec_size cfg < n * sec_size cfg \<longleftrightarrow> Suc i < n"
  proof -
    have "i * sec_size cfg + sec_size cfg = Suc i * sec_size cfg" by simp
    then show ?thesis using assms(6) by (simp only: mult_less_cancel2) simp
  qed
  moreover have "Suc i mod n = (if Suc i < n then Suc i else 0)" using assms(3) by (auto simp: mod_Suc)
  ultimately show ?thesis using assms by (simp add: get_next_sector_addr_def Let_def add.commute)
qed

lemma sector_walk_scan:
  assumes ly: "layout cfg L (cells (flash db))" and n: "n = length L"
    and body: "\<And>j sector x tab. j < n \<Longrightarrow> P x \<Longrightarrow> sec_cache_ok cfg L tab \<Longrightarrow>
      \<exists>e tab'. body (j * sec_size cfg) sector x (db\<lparr>sector_cache_table := tab\<rparr>) =
          Some (fst (g j x), e, snd (g j x), db\<lparr>sector_cache_table := tab'\<rparr>)
        \<and> info_of cfg (j * sec_size cfg) (L ! j) e \<and> sec_cache_ok cfg L tab'
        \<and> (if fst (g j x) then Q j e (snd (g j x)) else P (snd (g j x)))"
    and i: "i < n" and k: "k < n" and tab: "sec_cache_ok cfg L tab" and x: "P x"
  shows "\<exists>e tab'. sector_walk cfg body (i * sec_size cfg) (k * sec_size cfg) sector x (db\<lparr>sector_cache_table := tab\<rparr>) =
      (case idx_scan g (map (\<lambda>j. (i + j) mod n) [0..<n - k]) x of
         (stop, x') \<Rightarrow> Some (stop, e, x', db\<lparr>sector_cache_table := tab'\<rparr>))
    \<and> sec_cache_ok cfg L tab'
    \<and> (fst (idx_scan g (map (\<lambda>j. (i + j) mod n) [0..<n - k]) x) \<longrightarrow>
        (\<exists>j < n. info_of cfg (j * sec_size cfg) (L ! j) e
           \<and> Q j e (snd (idx_scan g (map (\<lambda>j. (i + j) mod n) [0..<n - k]) x))))"
  using i k tab x
proof (induction "n - k" arbitrary: i k sector x tab)
  case 0
  then show ?case by simp
next
  case (Suc m)
  have sz: "0 < sec_size cfg" using layout_sec_size [OF ly] by simp
  have mx: "max_size cfg = n * sec_size cfg" "max_size cfg < 2 ^ 32 - 1" using ly n by (simp_all add: layout_def)
  obtain e tab' where b: "body (i * sec_size cfg) sector x (db\<lparr>sector_cache_table := tab\<rparr>) =
        Some (fst (g i x), e, snd (g i x), db\<lparr>sector_cache_table := tab'\<rparr>)"
    and e: "info_of cfg (i * sec_size cfg) (L ! i) e" and tab': "sec_cache_ok cfg L tab'"
    and q: "if fst (g i x) then Q i e (snd (g i x)) else P (snd (g i x))"
    using body [OF Suc.prems(1,4,3)] by blast
  have nk: "n - k = Suc m" "m = n - Suc k" using Suc.hyps(2) by simp_all
  have order: "map (\<lambda>j. (i + j) mod n) [0..<n - k] = i # map (\<lambda>j. (Suc i mod n + j) mod n) [0..<n - Suc k]"
    unfolding nk(1) nk(2) [symmetric] using Suc.prems(1)
    by (simp add: upt_rec [of 0 "Suc m"] map_Suc_upt [symmetric] mod_simps del: upt_Suc)
  have nx: "get_next_sector_addr cfg e (k * sec_size cfg + sec_size cfg) =
      (if Suc k < n then (Suc i mod n) * sec_size cfg else FAILED_ADDR)"
    by (rule get_next_sector_index) (use e Suc.prems sz mx in \<open>simp_all add: info_of_def\<close>)
  show ?case
  proof (cases "fst (g i x)")
    case True
    then show ?thesis
      using b sz tab' e q Suc.prems(1) unfolding order
      by (subst sector_walk.simps) (auto simp: case_prod_beta)
  next
    case False
    show ?thesis
    proof (cases "Suc k < n")
      case True
      have ne: "Suc i mod n * sec_size cfg \<noteq> FAILED_ADDR"
        using sector_end [of "Suc i mod n" n "sec_size cfg"] Suc.prems(1) mx by (simp add: FAILED_ADDR_def)
      have "Suc i mod n < n" using Suc.prems(1) by simp
      from Suc.hyps(1) [OF nk(2) this True tab', of "snd (g i x)" e] q False show ?thesis
        using False True b sz nx ne unfolding order
        by (subst sector_walk.simps) (simp add: case_prod_beta add.commute)
    next
      case False
      then have "n - Suc k = 0" by simp
      then show ?thesis
        using False \<open>\<not> fst (g i x)\<close> b sz nx tab' unfolding order
        by (subst sector_walk.simps) (auto simp add: case_prod_beta)
    qed
  qed
qed

text \<open>A walk that is not stopped has visited every sector.\<close>

lemma idx_scan_all:
  assumes "\<not> fst (idx_scan g js x)" and "P x" and "\<And>j x. j \<in> set js \<Longrightarrow> P x \<Longrightarrow> \<not> fst (g j x) \<Longrightarrow> P (snd (g j x))"
  shows "P (snd (idx_scan g js x)) \<and> (\<forall>j \<in> set js. \<exists>x. P x \<and> \<not> fst (g j x))"
  using assms
proof (induction js arbitrary: x)
  case Nil
  then show ?case by simp
next
  case (Cons i js)
  have ng: "\<not> fst (g i x)" "idx_scan g (i # js) x = idx_scan g js (snd (g i x))"
    using Cons.prems(1) by (auto simp: case_prod_beta split: if_splits)
  have "P (snd (g i x))" using Cons.prems(2,3) ng(1) by simp
  with Cons.IH [of "snd (g i x)"] Cons.prems ng show ?case by auto
qed

lemma walk_order:
  assumes "i < n"
  shows "set (map (\<lambda>j. (i + j) mod n) [0..<n]) = {0..<n}"
proof
  show "set (map (\<lambda>j. (i + j) mod n) [0..<n]) \<subseteq> {0..<n}" using assms by auto
  show "{0..<n} \<subseteq> set (map (\<lambda>j. (i + j) mod n) [0..<n])"
  proof
    fix j
    assume "j \<in> {0..<n}"
    then have j: "j < n" by simp
    define k where "k = (if i \<le> j then j - i else n + j - i)"
    have "i + k = j \<or> i + k = j + n" using assms by (auto simp: k_def)
    then have "(i + k) mod n = j" using j by auto
    moreover have "k < n" using j assms by (auto simp: k_def)
    ultimately have "j \<in> (\<lambda>j. (i + j) mod n) ` {0..<n}" by force
    then show "j \<in> set (map (\<lambda>j. (i + j) mod n) [0..<n])" by simp
  qed
qed

text \<open>The index of the oldest sector.\<close>

lemma repr_oldest:
  assumes "repr cfg L db"
  obtains i where "i < length L" "oldest_addr db = i * sec_size cfg"
proof (rule that)
  show e: "oldest_addr db = oldest_addr db div sec_size cfg * sec_size cfg"
    using assms by (simp add: repr_def dvd_div_mult_self mod_eq_0_iff_dvd)
  have "oldest_addr db < length L * sec_size cfg" using assms by (simp add: repr_def layout_def)
  then show "oldest_addr db div sec_size cfg < length L" by (simp add: less_mult_imp_div_less)
qed

text \<open>The walk from the oldest sector over the whole database.\<close>

lemma sector_walk_repr:
  assumes repr: "repr cfg L db" and x: "P x"
    and body: "\<And>j sector x tab. j < length L \<Longrightarrow> P x \<Longrightarrow> sec_cache_ok cfg L tab \<Longrightarrow>
      \<exists>e tab'. body (j * sec_size cfg) sector x (db\<lparr>sector_cache_table := tab\<rparr>) =
          Some (fst (g j x), e, snd (g j x), db\<lparr>sector_cache_table := tab'\<rparr>)
        \<and> info_of cfg (j * sec_size cfg) (L ! j) e \<and> sec_cache_ok cfg L tab'
        \<and> (if fst (g j x) then Q j e (snd (g j x)) else P (snd (g j x)))"
  shows "\<exists>stop e x' tab. sector_walk cfg body (oldest_addr db) 0 sector x db = Some (stop, e, x', db\<lparr>sector_cache_table := tab\<rparr>)
    \<and> sec_cache_ok cfg L tab
    \<and> (if stop then \<exists>j < length L. info_of cfg (j * sec_size cfg) (L ! j) e \<and> Q j e x'
       else P x' \<and> (\<forall>j < length L. \<exists>x. P x \<and> \<not> fst (g j x)))"
proof -
  have ly: "layout cfg L (cells (flash db))" and tab0: "sec_cache_ok cfg L (sector_cache_table db)"
    using repr by (simp_all add: repr_def)
  obtain i where i: "i < length L" "oldest_addr db = i * sec_size cfg" using repr_oldest [OF repr] .
  have n: "0 < length L" using i(1) by linarith
  define S where "S = idx_scan g (map (\<lambda>j. (i + j) mod length L) [0..<length L]) x"
  have "\<exists>e tab. sector_walk cfg body (i * sec_size cfg) (0 * sec_size cfg) sector x (db\<lparr>sector_cache_table := sector_cache_table db\<rparr>) =
        (case idx_scan g (map (\<lambda>j. (i + j) mod length L) [0..<length L - 0]) x of
           (stop, x') \<Rightarrow> Some (stop, e, x', db\<lparr>sector_cache_table := tab\<rparr>))
      \<and> sec_cache_ok cfg L tab
      \<and> (fst (idx_scan g (map (\<lambda>j. (i + j) mod length L) [0..<length L - 0]) x) \<longrightarrow>
          (\<exists>j < length L. info_of cfg (j * sec_size cfg) (L ! j) e
             \<and> Q j e (snd (idx_scan g (map (\<lambda>j. (i + j) mod length L) [0..<length L - 0]) x))))"
    by (rule sector_walk_scan [where P = P and g = g and Q = Q, OF ly refl])
      (use body i(1) n tab0 x in blast)+
  then obtain e tab where walk: "sector_walk cfg body (oldest_addr db) 0 sector x db = Some (fst S, e, snd S, db\<lparr>sector_cache_table := tab\<rparr>)"
    and tab: "sec_cache_ok cfg L tab" and q: "fst S \<Longrightarrow> \<exists>j < length L. info_of cfg (j * sec_size cfg) (L ! j) e \<and> Q j e (snd S)"
    unfolding S_def by (simp add: i(2) case_prod_beta) blast
  have "P (snd S) \<and> (\<forall>j < length L. \<exists>x. P x \<and> \<not> fst (g j x))" if "\<not> fst S"
  proof -
    have "P (snd (g j x))" if "j \<in> set (map (\<lambda>j. (i + j) mod length L) [0..<length L])" "P x" "\<not> fst (g j x)" for j x
      using body [OF _ that(2) tab0, of j] that(1,3) unfolding walk_order [OF i(1)] by auto
    from idx_scan_all [OF that [unfolded S_def] x this] show ?thesis unfolding walk_order [OF i(1)] S_def by auto
  qed
  with walk tab q show ?thesis by (intro exI [of _ "fst S"] exI [of _ e] exI [of _ "snd S"] exI [of _ tab]) auto
qed

section \<open>The visible records\<close>

text \<open>The first visible record of a key among the records from address \<open>a\<close>: its address and value.\<close>

fun find_rec :: "bytes \<Rightarrow> nat \<Rightarrow> kv_rec list \<Rightarrow> (nat \<times> bytes) option" where
  "find_rec key a [] = None"
| "find_rec key a ((st, k, v) # rs) =
     (if st = FDB_KV_WRITE \<and> k = key then Some (a, v) else find_rec key (a + kv_size k v) rs)"

definition visible :: "fdb_cfg \<Rightarrow> kv_sect list \<Rightarrow> bytes \<Rightarrow> nat \<Rightarrow> bytes \<Rightarrow> bool" where
  "visible cfg L key a v \<longleftrightarrow>
     (\<exists>i < length L. \<exists>pre post. sct_recs (L ! i) = pre @ (FDB_KV_WRITE, key, v) # post
        \<and> a = i * sec_size cfg + 16 + recs_size pre)"

lemma find_rec_Some:
  "find_rec key a rs = Some (b, v) \<Longrightarrow> \<exists>pre post. rs = pre @ (FDB_KV_WRITE, key, v) # post \<and> b = a + recs_size pre"
proof (induction rs arbitrary: a)
  case Nil
  then show ?case by simp
next
  case (Cons r rs)
  obtain st k w where r: "r = (st, k, w)" by (cases r)
  show ?case
  proof (cases "st = FDB_KV_WRITE \<and> k = key")
    case True
    with Cons.prems r show ?thesis by (intro exI [of _ "[]"] exI [of _ rs]) simp
  next
    case False
    with Cons.prems r have "find_rec key (a + kv_size k w) rs = Some (b, v)" by auto
    from Cons.IH [OF this] obtain pre post where "rs = pre @ (FDB_KV_WRITE, key, v) # post" "b = a + kv_size k w + recs_size pre"
      by blast
    with r show ?thesis by (intro exI [of _ "r # pre"] exI [of _ post]) (simp add: rec_size_def)
  qed
qed

lemma find_rec_None: "find_rec key a rs = None \<longleftrightarrow> (\<forall>v. (FDB_KV_WRITE, key, v) \<notin> set rs)"
  by (induction rs arbitrary: a) (auto split: if_splits)

section \<open>Searching a sector\<close>

lemma strncmp_eq_iff:
  assumes "length k = length key" and "0 \<notin> set k"
  shows "strncmp_eq (k @ xs) (key @ ys) (length key) = Some (k = key)"
  using assms by (induction k key rule: list_induct2) auto

lemma kv_name_prefix:
  assumes "length (kv_name kv) = 64" and "length k < 64"
  shows "kv_name (kv_of_record kv st k v) = k @ 0 # drop (length k + 1) (kv_name kv)"
  using assms by (simp add: kv_of_record_def patch_at_def)

definition find_body :: "fdb_kvdb \<Rightarrow> bytes \<Rightarrow> fdb_kv \<Rightarrow> bool \<Rightarrow> (bool \<times> bool) option" where
  "find_body db key kv x = map_option (\<lambda>(stop, x, _). (stop, x)) (find_kv_cb key kv x db)"

lemma find_body_record:
  assumes "length (kv_name kv) = 64" and "wf_rec (st, k, v)"
  shows "find_body db key (kv_of_record kv st k v) x =
    Some (if st = FDB_KV_WRITE \<and> k = key then (True, True) else (False, x))"
proof -
  have k: "length k < 64" "0 \<notin> set k" using assms(2) by (simp_all add: wf_rec_def FDB_KV_NAME_MAX_def)
  show ?thesis
  proof (cases "length key = length k")
    case True
    have same: "strncmp_eq (kv_name (kv_of_record kv st k v)) (key @ [0]) (length key) = Some (k = key)"
      unfolding kv_name_prefix [OF assms(1) k(1)] by (rule strncmp_eq_iff) (use k True in simp_all)
    have "find_kv_cb key (kv_of_record kv st k v) x db =
        Some (if st = FDB_KV_WRITE \<and> k = key then (True, True, db) else (False, x, db))"
      unfolding find_kv_cb_def same using True by simp
    then show ?thesis by (simp add: find_body_def)
  next
    case False
    then have "k \<noteq> key" by metis
    then show ?thesis using False by (simp add: find_body_def find_kv_cb_def)
  qed
qed

text \<open>What the search leaves in \<open>kv\<close> when it has found a record of \<open>key\<close> at \<open>a\<close> with value \<open>v\<close>.\<close>

definition kv_is :: "fdb_kv \<Rightarrow> bytes \<Rightarrow> nat \<Rightarrow> bytes \<Rightarrow> bool" where
  "kv_is kv key a v \<longleftrightarrow>
     addr_start kv = a \<and> crc_is_ok kv \<and> kv_status kv = FDB_KV_WRITE \<and> name_len kv = length key \<and> take (length key) (kv_name kv) = key
     \<and> kv_len kv = kv_size key v \<and> value_len kv = length v \<and> addr_value kv = a + 24 + length key"

lemma find_scan:
  assumes "list_all wf_rec rs" and "length (kv_name kv) = 64"
  shows "\<exists>kv'. rec_scan (find_body db key) a kv rs False = Some (find_rec key a rs \<noteq> None, kv', find_rec key a rs \<noteq> None)
    \<and> length (kv_name kv') = 64 \<and> (\<forall>b v. find_rec key a rs = Some (b, v) \<longrightarrow> kv_is kv' key b v)"
  using assms
proof (induction rs arbitrary: a kv)
  case Nil
  then show ?case by simp
next
  case (Cons r rs)
  obtain st k v where r: "r = (st, k, v)" by (cases r)
  define kv1 where "kv1 = kv_of_record (kv\<lparr>addr_start := a\<rparr>) st k v"
  have wf: "wf_rec (st, k, v)" "length k < 64" using Cons.prems(1) r by (simp_all add: wf_rec_def FDB_KV_NAME_MAX_def)
  have len: "length (kv_name kv1) = 64" using Cons.prems(2) wf(2) by (simp add: kv1_def kv_name_of_record)
  have b: "find_body db key kv1 False = Some (if st = FDB_KV_WRITE \<and> k = key then (True, True) else (False, False))"
    unfolding kv1_def by (rule find_body_record) (use Cons.prems wf in simp_all)
  show ?case
  proof (cases "st = FDB_KV_WRITE \<and> k = key")
    case True
    then have "kv_is kv1 key a v"
      using Cons.prems(2) wf(2) kv_name_prefix [of "kv\<lparr>addr_start := a\<rparr>" k st v] by (simp add: kv_is_def kv1_def)
    then show ?thesis using True b len r by (simp add: kv1_def Let_def)
  next
    case False
    obtain kv' where "rec_scan (find_body db key) (a + kv_size k v) kv1 rs False =
        Some (find_rec key (a + kv_size k v) rs \<noteq> None, kv', find_rec key (a + kv_size k v) rs \<noteq> None)"
      "length (kv_name kv') = 64" "\<forall>b w. find_rec key (a + kv_size k v) rs = Some (b, w) \<longrightarrow> kv_is kv' key b w"
      using Cons.IH [OF _ len, of "a + kv_size k v"] Cons.prems(1) by (metis list.pred_inject(2))
    moreover have "find_rec key a (r # rs) = find_rec key (a + kv_size k v) rs" using False r by auto
    moreover have "rec_scan (find_body db key) a kv (r # rs) False = rec_scan (find_body db key) (a + kv_size k v) kv1 rs False"
    proof -
      have "find_body db key kv1 False = Some (False, False)" unfolding b using False by auto
      then show ?thesis by (simp add: r kv1_def Let_def)
    qed
    ultimately show ?thesis by (intro exI [of _ kv']) simp
  qed
qed

lemma kv_walk_find:
  assumes sec: "sect_at cfg db s S" and st: "sct_store S = FDB_SECTOR_STORE_USING"
    and sector: "sec_addr sector = s" "store_status sector = FDB_SECTOR_STORE_USING" and kv: "length (kv_name kv) = 64"
  shows "\<exists>kv'. kv_walk cfg sector (\<lambda>_. find_kv_cb key) (kv\<lparr>addr_start := s + 16\<rparr>) False db =
      Some (find_rec key (s + 16) (sct_recs S) \<noteq> None, kv', find_rec key (s + 16) (sct_recs S) \<noteq> None, db)
    \<and> length (kv_name kv') = 64 \<and> (\<forall>b v. find_rec key (s + 16) (sct_recs S) = Some (b, v) \<longrightarrow> kv_is kv' key b v)"
proof -
  have wf: "list_all wf_rec (sct_recs S)" "sct_recs S \<noteq> []"
    using sec st by (auto simp: sect_at_def wf_sect_def FDB_SECTOR_STORE_EMPTY_def FDB_SECTOR_STORE_USING_def)
  let ?kv = "kv\<lparr>addr_start := s + 16\<rparr>"
  have len: "length (kv_name ?kv) = 64" using kv by simp
  have "kv_walk cfg sector (\<lambda>_. find_kv_cb key) ?kv False db = map_option (\<lambda>(stop, kv, x). (stop, kv, x, db))
      (rec_scan (find_body db key) (s + 16 + recs_size []) ?kv (sct_recs S) False)"
  proof (rule kv_walk_scan [OF sec])
    show "find_kv_cb key kv x db = map_option (\<lambda>(stop, x). (stop, x, db)) (find_body db key kv x)" for kv x
      by (auto simp: find_body_def find_kv_cb_def split: Option.bind_splits)
  qed (use wf sector kv in \<open>simp_all add: FDB_SECTOR_STORE_EMPTY_def FDB_SECTOR_STORE_USING_def\<close>)
  moreover obtain kv' where "rec_scan (find_body db key) (s + 16) ?kv (sct_recs S) False =
      Some (find_rec key (s + 16) (sct_recs S) \<noteq> None, kv', find_rec key (s + 16) (sct_recs S) \<noteq> None)"
    "length (kv_name kv') = 64" "\<forall>b v. find_rec key (s + 16) (sct_recs S) = Some (b, v) \<longrightarrow> kv_is kv' key b v"
    using find_scan [OF wf(1) len, of db key "s + 16"] by blast
  ultimately show ?thesis by (intro exI [of _ kv']) simp
qed

section \<open>Searching the database\<close>

text \<open>What the search does in one sector.\<close>

definition find_step :: "fdb_cfg \<Rightarrow> kv_sect list \<Rightarrow> fdb_kvdb \<Rightarrow> bytes \<Rightarrow> nat \<Rightarrow> fdb_kv \<times> bool \<Rightarrow> bool \<times> fdb_kv \<times> bool" where
  "find_step cfg L db key j kx =
     (if sct_store (L ! j) = FDB_SECTOR_STORE_USING
      then the (rec_scan (find_body db key) (j * sec_size cfg + 16) ((fst kx)\<lparr>addr_start := j * sec_size cfg + 16\<rparr>)
             (sct_recs (L ! j)) (snd kx))
      else (False, kx))"

definition sect_find :: "fdb_cfg \<Rightarrow> kv_sect list \<Rightarrow> bytes \<Rightarrow> nat \<Rightarrow> (nat \<times> bytes) option" where
  "sect_find cfg L key j = find_rec key (j * sec_size cfg + 16) (sct_recs (L ! j))"

lemma find_kv_cb_body: "find_kv_cb key kv x db = map_option (\<lambda>(stop, x). (stop, x, db)) (find_body db' key kv x)"
  by (auto simp: find_body_def find_kv_cb_def split: Option.bind_splits)

lemma find_body_db: "find_body db key = find_body db' key"
  by (intro ext) (auto simp: find_body_def find_kv_cb_def split: Option.bind_splits)

lemma find_iter_body:
  assumes repr: "repr cfg L db" and j: "j < length L" and kv: "length (kv_name kv) = 64"
  shows "\<exists>e tab kv'. kv_iter_body cfg (find_kv_cb key) (j * sec_size cfg) sector (kv, False) db =
      Some (sect_find cfg L key j \<noteq> None, e, (kv', sect_find cfg L key j \<noteq> None), db\<lparr>sector_cache_table := tab\<rparr>)
    \<and> find_step cfg L db key j (kv, False) = (sect_find cfg L key j \<noteq> None, kv', sect_find cfg L key j \<noteq> None)
    \<and> info_of cfg (j * sec_size cfg) (L ! j) e \<and> sec_cache_ok cfg L tab \<and> length (kv_name kv') = 64
    \<and> (\<forall>b v. sect_find cfg L key j = Some (b, v) \<longrightarrow> kv_is kv' key b v)"
proof -
  define s where "s = j * sec_size cfg"
  obtain e tab where rd: "read_sector_info cfg s sector False db = Some (FDB_NO_ERR, e, db\<lparr>sector_cache_table := tab\<rparr>)"
    and e: "info_of cfg s (L ! j) e" and tab: "sec_cache_ok cfg L tab"
    using read_sector_info_repr [OF repr j, of sector False] by (auto simp: s_def)
  let ?db = "db\<lparr>sector_cache_table := tab\<rparr>"
  have repr': "repr cfg L ?db" using repr tab by (simp add: repr_def)
  note sec = repr_sect_at [OF repr' j, folded s_def]
  have st: "store_status e = sct_store (L ! j)" "sec_addr e = s" using e by (simp_all add: info_of_def)
  have wf: "wf_sect cfg (L ! j)" using sec by (simp add: sect_at_def)
  show ?thesis
  proof (cases "sct_store (L ! j) = FDB_SECTOR_STORE_USING")
    case True
    obtain kv' where w: "kv_walk cfg e (\<lambda>_. find_kv_cb key) (kv\<lparr>addr_start := s + 16\<rparr>) False ?db =
        Some (sect_find cfg L key j \<noteq> None, kv', sect_find cfg L key j \<noteq> None, ?db)"
      and kv': "length (kv_name kv') = 64" "\<forall>b v. sect_find cfg L key j = Some (b, v) \<longrightarrow> kv_is kv' key b v"
      using kv_walk_find [OF sec True st(2) st(1) [unfolded True] kv, of key] by (auto simp: sect_find_def s_def)
    have "list_all wf_rec (sct_recs (L ! j))" using wf by (simp add: wf_sect_def)
    moreover have "length (kv_name (kv\<lparr>addr_start := s + 16\<rparr>)) = 64" using kv by simp
    ultimately obtain kv2 where sc: "rec_scan (find_body ?db key) (s + 16) (kv\<lparr>addr_start := s + 16\<rparr>) (sct_recs (L ! j)) False =
        Some (sect_find cfg L key j \<noteq> None, kv2, sect_find cfg L key j \<noteq> None)"
      using find_scan [of "sct_recs (L ! j)" "kv\<lparr>addr_start := s + 16\<rparr>" ?db key "s + 16"] by (auto simp: sect_find_def s_def)
    have walk: "kv_walk cfg e (\<lambda>_. find_kv_cb key) (kv\<lparr>addr_start := s + 16\<rparr>) False ?db =
        map_option (\<lambda>(stop, kv, x). (stop, kv, x, ?db))
          (rec_scan (find_body ?db key) (s + 16 + recs_size []) (kv\<lparr>addr_start := s + 16\<rparr>) (sct_recs (L ! j)) False)"
      by (rule kv_walk_scan [OF sec])
        (use wf True st kv in \<open>auto simp: wf_sect_def FDB_SECTOR_STORE_EMPTY_def FDB_SECTOR_STORE_USING_def
          intro: find_kv_cb_body\<close>)
    have "kv2 = kv'" using w walk sc by simp
    then have "find_step cfg L db key j (kv, False) = (sect_find cfg L key j \<noteq> None, kv', sect_find cfg L key j \<noteq> None)"
      using sc True by (simp add: find_step_def s_def find_body_db [of db key ?db])
    moreover have "kv_iter_body cfg (find_kv_cb key) s sector (kv, False) db =
        Some (sect_find cfg L key j \<noteq> None, e, (kv', sect_find cfg L key j \<noteq> None), ?db)"
      using w True st by (simp add: kv_iter_body_def rd SECTOR_HDR_DATA_SIZE_def)
    ultimately show ?thesis using e tab kv' unfolding s_def by blast
  next
    case False
    then have "sct_recs (L ! j) = []" "sct_store (L ! j) = FDB_SECTOR_STORE_EMPTY" using wf by (auto simp: wf_sect_def)
    then have "sect_find cfg L key j = None" "kv_iter_body cfg (find_kv_cb key) s sector (kv, False) db = Some (False, e, (kv, False), ?db)"
      using st by (simp_all add: sect_find_def kv_iter_body_def rd FDB_SECTOR_STORE_EMPTY_def FDB_SECTOR_STORE_USING_def
        FDB_SECTOR_STORE_FULL_def)
    then show ?thesis using False e tab kv unfolding s_def by (simp add: find_step_def) blast
  qed
qed

lemma find_step_db: "find_step cfg L db key = find_step cfg L db' key"
  unfolding find_step_def find_body_db [of db key db'] ..

lemma sect_find_visible:
  assumes "sect_find cfg L key j = Some (a, v)" and "j < length L"
  shows "visible cfg L key a v"
  using find_rec_Some [OF assms(1) [unfolded sect_find_def]] assms(2) by (auto simp: visible_def)

lemma visible_sect_find:
  assumes "visible cfg L key a v"
  shows "\<exists>j < length L. sect_find cfg L key j \<noteq> None"
proof -
  obtain j pre post where "j < length L" "sct_recs (L ! j) = pre @ (FDB_KV_WRITE, key, v) # post"
    using assms by (auto simp: visible_def)
  then have "sect_find cfg L key j \<noteq> None" unfolding sect_find_def find_rec_None by auto
  with \<open>j < length L\<close> show ?thesis by blast
qed

lemma find_kv_no_cache_repr:
  assumes repr: "repr cfg L db" and kv: "length (kv_name kv) = 64"
  shows "\<exists>found kv' tab. find_kv_no_cache cfg key kv db = Some (found, kv', db\<lparr>sector_cache_table := tab\<rparr>)
    \<and> sec_cache_ok cfg L tab \<and> length (kv_name kv') = 64
    \<and> (if found then \<exists>a v. visible cfg L key a v \<and> kv_is kv' key a v else \<forall>a v. \<not> visible cfg L key a v)"
proof -
  define g where "g = find_step cfg L db key"
  define P :: "fdb_kv \<times> bool \<Rightarrow> bool" where "P kx \<longleftrightarrow> length (kv_name (fst kx)) = 64 \<and> \<not> snd kx" for kx
  define Q :: "nat \<Rightarrow> kvdb_sec_info \<Rightarrow> fdb_kv \<times> bool \<Rightarrow> bool" where
    "Q j e kx \<longleftrightarrow> snd kx \<and> length (kv_name (fst kx)) = 64 \<and> (\<exists>a v. visible cfg L key a v \<and> kv_is (fst kx) key a v)" for j e kx
  have step: "\<exists>e tab'. kv_iter_body cfg (find_kv_cb key) (j * sec_size cfg) sector kx (db\<lparr>sector_cache_table := tab\<rparr>) =
        Some (fst (g j kx), e, snd (g j kx), db\<lparr>sector_cache_table := tab'\<rparr>)
      \<and> info_of cfg (j * sec_size cfg) (L ! j) e \<and> sec_cache_ok cfg L tab'
      \<and> (if fst (g j kx) then Q j e (snd (g j kx)) else P (snd (g j kx)))
      \<and> fst (g j kx) = (sect_find cfg L key j \<noteq> None)"
    if j: "j < length L" and px: "P kx" and tab: "sec_cache_ok cfg L tab" for j sector kx tab
  proof -
    have repr': "repr cfg L (db\<lparr>sector_cache_table := tab\<rparr>)" using repr tab by (simp add: repr_def)
    obtain kv1 where kx: "kx = (kv1, False)" "length (kv_name kv1) = 64" using px by (cases kx) (simp add: P_def)
    obtain e tab' kv' where b: "kv_iter_body cfg (find_kv_cb key) (j * sec_size cfg) sector kx (db\<lparr>sector_cache_table := tab\<rparr>) =
        Some (sect_find cfg L key j \<noteq> None, e, (kv', sect_find cfg L key j \<noteq> None), db\<lparr>sector_cache_table := tab'\<rparr>)"
      and gj: "g j kx = (sect_find cfg L key j \<noteq> None, kv', sect_find cfg L key j \<noteq> None)"
      and e: "info_of cfg (j * sec_size cfg) (L ! j) e" "sec_cache_ok cfg L tab'" "length (kv_name kv') = 64"
      and f: "\<forall>b v. sect_find cfg L key j = Some (b, v) \<longrightarrow> kv_is kv' key b v"
      using find_iter_body [OF repr' j kx(2), of key sector] kx(1)
      unfolding g_def find_step_db [of cfg L db key "db\<lparr>sector_cache_table := tab\<rparr>"] by auto
    have "if fst (g j kx) then Q j e (snd (g j kx)) else P (snd (g j kx))"
      using e(3) f sect_find_visible [OF _ j, of cfg key] by (auto simp: gj Q_def P_def) blast
    then show ?thesis using b e(1,2) by (intro exI [of _ e] exI [of _ tab']) (simp add: gj del: not_None_eq)
  qed
  have P0: "P (kv, False)" using kv by (simp add: P_def)
  have "\<exists>stop e kx tab. sector_walk cfg (kv_iter_body cfg (find_kv_cb key)) (oldest_addr db) 0 sec_zero (kv, False) db =
        Some (stop, e, kx, db\<lparr>sector_cache_table := tab\<rparr>)
      \<and> sec_cache_ok cfg L tab
      \<and> (if stop then \<exists>j < length L. info_of cfg (j * sec_size cfg) (L ! j) e \<and> Q j e kx
         else P kx \<and> (\<forall>j < length L. \<exists>x. P x \<and> \<not> fst (g j x)))"
    by (rule sector_walk_repr [where P = P and g = g and Q = Q, OF repr P0]) (use step in blast)
  then obtain stop e kx tab where walk: "sector_walk cfg (kv_iter_body cfg (find_kv_cb key)) (oldest_addr db) 0 sec_zero (kv, False) db =
        Some (stop, e, kx, db\<lparr>sector_cache_table := tab\<rparr>)" and tab: "sec_cache_ok cfg L tab"
      and r: "if stop then \<exists>j < length L. info_of cfg (j * sec_size cfg) (L ! j) e \<and> Q j e kx
         else P kx \<and> (\<forall>j < length L. \<exists>x. P x \<and> \<not> fst (g j x))"
    by blast
  have res: "find_kv_no_cache cfg key kv db = Some (snd kx, fst kx, db\<lparr>sector_cache_table := tab\<rparr>)"
    by (simp add: find_kv_no_cache_def kv_iterator_def walk case_prod_beta)
  show ?thesis
  proof (cases stop)
    case True
    with r show ?thesis using res tab by (auto simp: Q_def)
  next
    case False
    have tab0: "sec_cache_ok cfg L (sector_cache_table db)" using repr by (simp add: repr_def)
    have "sect_find cfg L key j = None" if "j < length L" for j
      using r False step [OF that _ tab0] that by (metis (full_types))
    then have "\<not> visible cfg L key a v" for a v using visible_sect_find by fastforce
    then show ?thesis using res tab False r by (auto simp: P_def)
  qed
qed

end
