(* ===== verification/Fdb_Kvdb_Cache.thy ===== *)
theory Fdb_Kvdb_Cache
  imports Fdb_Kvdb_Find
begin

text \<open>
  The cache of record addresses, as a map from the 16-bit checksum of a key to the address of its record: what
  \<open>update_kv_cache\<close> stores is what \<open>get_kv_from_cache\<close> finds, and other entries are kept or evicted, never changed.
\<close>

section \<open>The table as a map\<close>

definition same_crc :: "u16 \<Rightarrow> kv_cache_node \<Rightarrow> bool" where
  "same_crc crc n \<longleftrightarrow> name_crc n = crc"

definition cache_map :: "kv_cache_node list \<Rightarrow> u16 \<Rightarrow> nat option" where
  "cache_map tab crc =
     (case find_index (same_crc crc) tab of
        None \<Rightarrow> None
      | Some i \<Rightarrow> if cache_addr (tab ! i) = FDB_DATA_UNUSED then None else Some (cache_addr (tab ! i)))"

text \<open>Only the first entry with a checksum can be in use.\<close>

definition kv_tab_ok :: "kv_cache_node list \<Rightarrow> bool" where
  "kv_tab_ok tab \<longleftrightarrow>
     length tab = FDB_KV_CACHE_TABLE_SIZE \<and> list_all (\<lambda>n. active n \<le> 0xFFFF) tab
     \<and> (\<forall>i j. i < j \<and> j < length tab \<and> name_crc (tab ! i) = name_crc (tab ! j) \<longrightarrow> cache_addr (tab ! j) = FDB_DATA_UNUSED)"

definition entries :: "kv_cache_node list \<Rightarrow> (u16 \<times> nat) list" where
  "entries tab = map (\<lambda>n. (name_crc n, cache_addr n)) tab"

lemma length_entries [simp]: "length (entries tab) = length tab"
  by (simp add: entries_def)

lemma nth_entries: "i < length tab \<Longrightarrow> entries tab ! i = (name_crc (tab ! i), cache_addr (tab ! i))"
  by (simp add: entries_def)

lemma entries_Cons [simp]: "entries (n # ns) = (name_crc n, cache_addr n) # entries ns"
  by (simp add: entries_def)

lemma entries_update [simp]: "entries (tab[i := n]) = (entries tab)[i := (name_crc n, cache_addr n)]"
  by (simp add: entries_def map_update)

lemma find_index_entries: "find_index (same_crc crc) tab = find_index (\<lambda>p. fst p = crc) (entries tab)"
  by (induction tab) (simp_all add: same_crc_def entries_def)

lemma cache_map_entries:
  assumes "entries tab = entries tab'"
  shows "cache_map tab = cache_map tab'"
proof
  fix crc
  have "cache_addr (tab ! i) = cache_addr (tab' ! i)" if "i < length tab" for i
    using assms that by (metis length_entries nth_entries prod.inject)
  moreover have "find_index (same_crc crc) tab = find_index (same_crc crc) tab'"
    using assms by (simp add: find_index_entries)
  ultimately show "cache_map tab crc = cache_map tab' crc"
    using find_index_Some [of "same_crc crc" tab] by (auto simp: cache_map_def split: option.splits)
qed

lemma kv_tab_ok_entries:
  assumes "kv_tab_ok tab" and "entries tab' = entries tab" and "list_all (\<lambda>n. active n \<le> 0xFFFF) tab'"
  shows "kv_tab_ok tab'"
proof -
  have len: "length tab' = length tab" using assms(2) by (metis length_entries)
  have "name_crc (tab' ! i) = name_crc (tab ! i) \<and> cache_addr (tab' ! i) = cache_addr (tab ! i)" if "i < length tab" for i
    using assms(2) that len by (metis nth_entries prod.inject)
  then show ?thesis using assms(1,3) len by (auto simp: kv_tab_ok_def)
qed

text \<open>Setting one entry: \<open>i\<close> is the first with that checksum, or there is none.\<close>

lemma find_index_cong:
  "length xs = length ys \<Longrightarrow> (\<And>i. i < length xs \<Longrightarrow> P (xs ! i) = Q (ys ! i)) \<Longrightarrow> find_index P xs = find_index Q ys"
proof (induction xs ys rule: list_induct2)
  case Nil
  then show ?case by simp
next
  case (Cons x xs y ys)
  have "P x = Q y" using Cons.prems [of 0] by simp
  moreover have "find_index P xs = find_index Q ys"
  proof (rule Cons.IH)
    show "P (xs ! i) = Q (ys ! i)" if "i < length xs" for i using Cons.prems [of "Suc i"] that by simp
  qed
  ultimately show ?case by simp
qed

lemma find_index_unique:
  assumes "i < length xs" and "P (xs ! i)" and "\<And>j. j < i \<Longrightarrow> \<not> P (xs ! j)"
  shows "find_index P xs = Some i"
proof (cases "find_index P xs")
  case None
  then show ?thesis using assms by (auto simp: find_index_None)
next
  case (Some k)
  from find_index_Some [OF this] assms show ?thesis
    by (metis Some linorder_neqE_nat)
qed

lemma kv_tab_set:
  assumes ok: "kv_tab_ok tab" and i: "i < length tab" and n: "name_crc n = crc" "active n \<le> 0xFFFF"
    and first: "find_index (same_crc crc) tab = Some i \<or> find_index (same_crc crc) tab = None"
  shows "kv_tab_ok (tab[i := n])"
    and "cache_map (tab[i := n]) crc = (if cache_addr n = FDB_DATA_UNUSED then None else Some (cache_addr n))"
    and "c \<noteq> crc \<Longrightarrow> cache_map (tab[i := n]) c \<in> {cache_map tab c, None}"
    and "c \<noteq> crc \<Longrightarrow> name_crc (tab ! i) = crc \<Longrightarrow> cache_map (tab[i := n]) c = cache_map tab c"
proof -
  have before: "name_crc (tab ! j) \<noteq> crc" if "j < i" for j
    using first find_index_Some [of "same_crc crc" tab i] i that by (auto simp: find_index_None same_crc_def)
  have after: "cache_addr (tab ! j) = FDB_DATA_UNUSED" if "i < j" "j < length tab" "name_crc (tab ! j) = crc" for j
    using first
  proof
    assume "find_index (same_crc crc) tab = Some i"
    then have "name_crc (tab ! i) = crc" by (auto simp: same_crc_def dest: find_index_Some)
    with ok that show ?thesis by (simp add: kv_tab_ok_def)
  next
    assume "find_index (same_crc crc) tab = None"
    with that show ?thesis by (simp add: find_index_None same_crc_def)
  qed
  show "kv_tab_ok (tab[i := n])"
    using ok i n before after by (auto simp: kv_tab_ok_def nth_list_update list_all_length)
  have "find_index (same_crc crc) (tab[i := n]) = Some i"
    by (rule find_index_unique) (use i n before in \<open>auto simp: same_crc_def nth_list_update\<close>)
  then show "cache_map (tab[i := n]) crc = (if cache_addr n = FDB_DATA_UNUSED then None else Some (cache_addr n))"
    using i by (simp add: cache_map_def)
  show same: "cache_map (tab[i := n]) c = cache_map tab c" if "c \<noteq> crc" "name_crc (tab ! i) = crc"
  proof -
    have "find_index (same_crc c) (tab[i := n]) = find_index (same_crc c) tab"
      by (rule find_index_cong) (use i n that in \<open>auto simp: same_crc_def nth_list_update\<close>)
    moreover have "find_index (same_crc c) tab \<noteq> Some i"
      using that by (auto simp: same_crc_def dest!: find_index_Some)
    ultimately show ?thesis by (auto simp: cache_map_def split: option.splits)
  qed
  show "cache_map (tab[i := n]) c \<in> {cache_map tab c, None}" if c: "c \<noteq> crc"
  proof (cases "find_index (same_crc c) (tab[i := n])")
    case None
    then show ?thesis by (simp add: cache_map_def)
  next
    case (Some k)
    from find_index_Some [OF this] have k: "k < length tab" "name_crc (tab[i := n] ! k) = c"
      "\<And>j. j < k \<Longrightarrow> name_crc (tab[i := n] ! j) \<noteq> c"
      by (auto simp: same_crc_def)
    then have "k \<noteq> i" using c n by auto
    then have tk: "tab[i := n] ! k = tab ! k" by simp
    show ?thesis
    proof (cases "find_index (same_crc c) tab = Some k")
      case True
      then show ?thesis using Some tk by (simp add: cache_map_def)
    next
      case False
      have "\<exists>j < k. name_crc (tab ! j) = c"
        using False find_index_unique [of k tab "same_crc c"] k(1,2) tk by (auto simp: same_crc_def)
      then have "cache_addr (tab ! k) = FDB_DATA_UNUSED" using ok k tk by (auto simp: kv_tab_ok_def)
      then show ?thesis using Some tk by (simp add: cache_map_def)
    qed
  qed
qed

section \<open>Storing an address\<close>

lemma kv_cache_loop_miss:
  assumes "name_crc n \<noteq> crc"
  shows "\<exists>n' \<in> {n, n\<lparr>active := active n - 1\<rparr>}. \<exists>e1 \<in> {e, i}. \<exists>mi1 \<in> {mi, i}. \<exists>ma1.
    kv_cache_loop crc addr (n # ns) i e mi ma =
      (case kv_cache_loop crc addr ns (i + 1) e1 mi1 ma1 of (d, ns, e, mi) \<Rightarrow> (d, n' # ns, e, mi))"
proof (cases "addr \<noteq> FDB_DATA_UNUSED \<and> cache_addr n \<noteq> FDB_DATA_UNUSED")
  case True
  with assms show ?thesis
    by - (rule bexI [of _ "n\<lparr>active := active n - 1\<rparr>"], rule bexI [of _ e], rule bexI [of _ "if active n - 1 < ma then i else mi"],
        rule exI [of _ "if active n - 1 < ma then active n - 1 else ma"], simp_all add: Let_def split: prod.split)
next
  case False
  with assms show ?thesis
    by - (rule bexI [of _ n], rule bexI [of _ "if addr \<noteq> FDB_DATA_UNUSED \<and> e = FDB_KV_CACHE_TABLE_SIZE then i else e"],
        rule bexI [of _ mi], rule exI [of _ ma], auto split: prod.split)
qed

lemma kv_cache_loop_spec:
  assumes "kv_cache_loop crc addr ns i e mi ma = (d, ns', e', mi')"
    and "list_all (\<lambda>n. active n \<le> 0xFFFF) ns"
  shows "list_all (\<lambda>n. active n \<le> 0xFFFF) ns'"
    and "d = (find_index (same_crc crc) ns \<noteq> None)"
    and "entries ns' = (case find_index (same_crc crc) ns of None \<Rightarrow> entries ns | Some k \<Rightarrow> (entries ns)[k := (crc, addr)])"
    and "e' \<noteq> e \<Longrightarrow> i \<le> e' \<and> e' < i + length ns"
    and "mi' \<noteq> mi \<Longrightarrow> i \<le> mi' \<and> mi' < i + length ns"
  using assms
proof (induction ns arbitrary: i e mi ma d ns' e' mi')
  case Nil
  {
    case 1 then show ?case by simp
  next
    case 2 then show ?case by simp
  next
    case 3 then show ?case by auto
  next
    case 4 then show ?case by simp
  next
    case 5 then show ?case by simp
  }
next
  case (Cons n ns)
  have hit: "name_crc n = crc \<Longrightarrow> find_index (same_crc crc) (n # ns) = Some 0"
    and miss: "name_crc n \<noteq> crc \<Longrightarrow> find_index (same_crc crc) (n # ns) = map_option Suc (find_index (same_crc crc) ns)"
    by (simp_all add: same_crc_def)
  have stepped: "\<exists>n' ns1 e1 mi1 ma1. name_crc n' = name_crc n \<and> cache_addr n' = cache_addr n \<and> active n' \<le> 0xFFFF
      \<and> kv_cache_loop crc addr ns (i + 1) e1 mi1 ma1 = (d, ns1, e', mi') \<and> ns' = n' # ns1
      \<and> e1 \<in> {e, i} \<and> mi1 \<in> {mi, i}"
    if loop: "kv_cache_loop crc addr (n # ns) i e mi ma = (d, ns', e', mi')" and le: "active n \<le> 0xFFFF" and ne: "name_crc n \<noteq> crc"
    for d ns' e' mi' i e mi ma
  proof -
    obtain n' e1 mi1 ma1 where n': "n' \<in> {n, n\<lparr>active := active n - 1\<rparr>}" and st: "e1 \<in> {e, i}" "mi1 \<in> {mi, i}"
      and eq: "kv_cache_loop crc addr (n # ns) i e mi ma =
        (case kv_cache_loop crc addr ns (i + 1) e1 mi1 ma1 of (d, ns, e, mi) \<Rightarrow> (d, n' # ns, e, mi))"
      using kv_cache_loop_miss [OF ne] by metis
    obtain ns1 where "kv_cache_loop crc addr ns (i + 1) e1 mi1 ma1 = (d, ns1, e', mi')" "ns' = n' # ns1"
      using loop unfolding eq by (auto split: prod.splits)
    moreover have "name_crc n' = name_crc n \<and> cache_addr n' = cache_addr n \<and> active n' \<le> 0xFFFF" using n' le by auto
    ultimately show ?thesis using st by blast
  qed
  {
    case 1
    show ?case
    proof (cases "name_crc n = crc")
      case True
      then show ?thesis using 1 by (auto split: if_splits)
    next
      case False
      with 1 stepped [OF 1(1)] obtain n' ns1 e1 mi1 ma1 where "active n' \<le> 0xFFFF" "ns' = n' # ns1"
        "kv_cache_loop crc addr ns (i + 1) e1 mi1 ma1 = (d, ns1, e', mi')" by auto
      with Cons.IH(1) 1(2) show ?thesis by auto
    qed
  next
    case 2
    show ?case
    proof (cases "name_crc n = crc")
      case True
      then show ?thesis using 2 hit by (auto split: if_splits)
    next
      case False
      with 2 stepped [OF 2(1)] obtain ns1 e1 mi1 ma1 where
        "kv_cache_loop crc addr ns (i + 1) e1 mi1 ma1 = (d, ns1, e', mi')" by auto
      with Cons.IH(2) 2(2) miss [OF False] show ?thesis by auto
    qed
  next
    case 3
    show ?case
    proof (cases "name_crc n = crc")
      case True
      then show ?thesis using 3 hit by (auto split: if_splits)
    next
      case False
      with 3 stepped [OF 3(1)] obtain n' ns1 e1 mi1 ma1 where "name_crc n' = name_crc n" "cache_addr n' = cache_addr n" "ns' = n' # ns1"
        "kv_cache_loop crc addr ns (i + 1) e1 mi1 ma1 = (d, ns1, e', mi')" by auto
      with Cons.IH(3) 3(2) miss [OF False] show ?thesis by (auto split: option.splits)
    qed
  next
    case 4
    show ?case
    proof (cases "name_crc n = crc")
      case True
      then show ?thesis using 4 by (auto split: if_splits)
    next
      case False
      with 4 stepped [OF 4(2)] obtain ns1 e1 mi1 ma1 where e1: "e1 \<in> {e, i}"
        and rec: "kv_cache_loop crc addr ns (i + 1) e1 mi1 ma1 = (d, ns1, e', mi')" by auto
      have "e' \<noteq> e1 \<Longrightarrow> i + 1 \<le> e' \<and> e' < i + 1 + length ns"
        by (rule Cons.IH(4) [OF _ rec]) (use 4(3) in simp_all)
      then show ?thesis using e1 4(1) by (cases "e' = e1") auto
    qed
  next
    case 5
    show ?case
    proof (cases "name_crc n = crc")
      case True
      then show ?thesis using 5 by (auto split: if_splits)
    next
      case False
      with 5 stepped [OF 5(2)] obtain ns1 e1 mi1 ma1 where e1: "mi1 \<in> {mi, i}"
        and rec: "kv_cache_loop crc addr ns (i + 1) e1 mi1 ma1 = (d, ns1, e', mi')" by auto
      have "mi' \<noteq> mi1 \<Longrightarrow> i + 1 \<le> mi' \<and> mi' < i + 1 + length ns"
        by (rule Cons.IH(5) [OF _ rec]) (use 5(3) in simp_all)
      then show ?thesis using e1 5(1) by (cases "mi' = mi1") auto
    qed
  }
qed

lemma kv_cache_loop_slot:
  assumes "kv_cache_loop crc addr ns i FDB_KV_CACHE_TABLE_SIZE mi ma = (False, ns', FDB_KV_CACHE_TABLE_SIZE, mi')"
    and "list_all (\<lambda>n. active n \<le> 0xFFFF) ns" and "addr \<noteq> FDB_DATA_UNUSED"
    and "ns \<noteq> [] \<and> ma = 0xFFFF \<or> mi < FDB_KV_CACHE_TABLE_SIZE" and "i + length ns \<le> FDB_KV_CACHE_TABLE_SIZE"
  shows "mi' < FDB_KV_CACHE_TABLE_SIZE"
  using assms
proof (induction ns arbitrary: i mi ma ns')
  case Nil
  then show ?case by simp
next
  case (Cons n ns)
  have miss: "name_crc n \<noteq> crc" using Cons.prems(1,3) by (auto split: if_splits)
  have used: "cache_addr n \<noteq> FDB_DATA_UNUSED"
  proof
    assume u: "cache_addr n = FDB_DATA_UNUSED"
    then obtain ns1 where "kv_cache_loop crc addr ns (i + 1) i mi ma = (False, ns1, FDB_KV_CACHE_TABLE_SIZE, mi')"
      using Cons.prems(1,3) miss by (auto split: prod.splits)
    from kv_cache_loop_spec(4) [OF this] Cons.prems(2,5) show False by auto
  qed
  define mi1 ma1 where "mi1 = (if active n - 1 < ma then i else mi)" and "ma1 = (if active n - 1 < ma then active n - 1 else ma)"
  obtain ns1 where r: "kv_cache_loop crc addr ns (i + 1) FDB_KV_CACHE_TABLE_SIZE mi1 ma1 = (False, ns1, FDB_KV_CACHE_TABLE_SIZE, mi')"
    using Cons.prems(1,3) miss used by (auto simp: Let_def mi1_def ma1_def split: if_splits prod.splits)
  have "mi1 < FDB_KV_CACHE_TABLE_SIZE"
    using Cons.prems(2,4,5) by (auto simp: mi1_def)
  then show ?case using Cons.IH [OF r] Cons.prems(2,3,5) by simp
qed

definition after_update :: "kv_cache_node list \<Rightarrow> kv_cache_node list \<Rightarrow> u16 \<Rightarrow> nat option \<Rightarrow> bool" where
  "after_update tab tab' crc a \<longleftrightarrow>
     kv_tab_ok tab' \<and> cache_map tab' crc = a \<and> (\<forall>c. c \<noteq> crc \<longrightarrow> cache_map tab' c \<in> {cache_map tab c, None})"

lemma update_kv_cache_map:
  assumes ok: "kv_tab_ok (kv_cache_table db)"
  shows "\<exists>tab. update_kv_cache name addr db = db\<lparr>kv_cache_table := tab\<rparr>
    \<and> after_update (kv_cache_table db) tab (key_crc name) (if addr = FDB_DATA_UNUSED then None else Some addr)"
proof -
  define crc where "crc = key_crc name"
  define new where "new = \<lparr>name_crc = crc, active = FDB_KV_CACHE_TABLE_SIZE, cache_addr = addr\<rparr>"
  let ?t = "kv_cache_table db"
  obtain d t e mi where loop: "kv_cache_loop crc addr ?t 0 FDB_KV_CACHE_TABLE_SIZE FDB_KV_CACHE_TABLE_SIZE 0xFFFF = (d, t, e, mi)"
    by (metis prod_cases4)
  have act: "list_all (\<lambda>n. active n \<le> 0xFFFF) ?t" and len: "length ?t = FDB_KV_CACHE_TABLE_SIZE"
    using ok by (simp_all add: kv_tab_ok_def)
  note spec = kv_cache_loop_spec [OF loop act]
  have upd: "update_kv_cache name addr db = db\<lparr>kv_cache_table :=
      (if d then t else if e < FDB_KV_CACHE_TABLE_SIZE then t[e := new] else if mi < FDB_KV_CACHE_TABLE_SIZE then t[mi := new] else t)\<rparr>"
    using loop by (simp add: update_kv_cache_def crc_def new_def)
  show ?thesis
  proof (cases "find_index (same_crc crc) ?t")
    case (Some k)
    then have k: "k < length ?t" "name_crc (?t ! k) = crc" by (auto simp: same_crc_def dest!: find_index_Some)
    define n where "n = (?t ! k)\<lparr>cache_addr := addr, active := 0\<rparr>"
    have n: "name_crc n = crc" "active n \<le> 0xFFFF" "cache_addr n = addr" using k by (simp_all add: n_def)
    have same: "entries t = entries (?t[k := n])" using spec(3) Some n by simp
    note set = kv_tab_set [OF ok k(1) n(1,2), OF disjI1, OF Some]
    have "kv_tab_ok t" by (rule kv_tab_ok_entries [OF set(1) same spec(1)])
    moreover have "cache_map t = cache_map (?t[k := n])" by (rule cache_map_entries [OF same])
    ultimately have "after_update ?t t crc (if addr = FDB_DATA_UNUSED then None else Some addr)"
      using set(2,4) k(2) n(3) by (simp add: after_update_def)
    then show ?thesis using upd spec(2) Some by (auto simp: crc_def)
  next
    case None
    have same: "entries t = entries ?t" and nd: "\<not> d" using spec(2,3) None by simp_all
    have okt: "kv_tab_ok t" by (rule kv_tab_ok_entries [OF ok same spec(1)])
    have mapt: "cache_map t = cache_map ?t" by (rule cache_map_entries [OF same])
    have nonet: "find_index (same_crc crc) t = None" using None same by (simp add: find_index_entries)
    have n: "name_crc new = crc" "active new \<le> 0xFFFF" "cache_addr new = addr" by (simp_all add: new_def kvdb_consts)
    have put: "after_update ?t (t[s := new]) crc (if addr = FDB_DATA_UNUSED then None else Some addr)" if "s < FDB_KV_CACHE_TABLE_SIZE" for s
    proof -
      have "s < length t" using okt that by (simp add: kv_tab_ok_def)
      note set = kv_tab_set [OF okt this n(1,2), OF disjI2, OF nonet]
      show ?thesis using set(1-3) n(3) by (auto simp: after_update_def mapt)
    qed
    show ?thesis
    proof (cases "e < FDB_KV_CACHE_TABLE_SIZE \<or> mi < FDB_KV_CACHE_TABLE_SIZE")
      case True
      then show ?thesis using put upd nd by (auto simp: crc_def)
    next
      case False
      have "e = FDB_KV_CACHE_TABLE_SIZE" using spec(4) False len by fastforce
      then have "addr = FDB_DATA_UNUSED"
        using kv_cache_loop_slot [of crc addr ?t 0 _ "0xFFFF" t mi] loop nd act len False by (fastforce simp: kvdb_consts)
      moreover have "cache_map ?t crc = None" using None by (simp add: cache_map_def)
      ultimately have "after_update ?t t crc (if addr = FDB_DATA_UNUSED then None else Some addr)"
        using okt by (simp add: after_update_def mapt)
      then show ?thesis using upd nd False by (auto simp: crc_def)
    qed
  qed
qed

section \<open>Looking an address up\<close>

lemma kv_cache_find_unused:
  "\<forall>n \<in> set tab. name_crc n = crc \<longrightarrow> cache_addr n = FDB_DATA_UNUSED \<Longrightarrow> kv_cache_find db name crc tab i = Some None"
  by (induction tab arbitrary: i) auto

lemma kv_cache_find_map:
  assumes "\<forall>i j. i < j \<and> j < length tab \<and> name_crc (tab ! i) = name_crc (tab ! j) \<longrightarrow> cache_addr (tab ! j) = FDB_DATA_UNUSED"
  shows "kv_cache_find db name crc tab i =
    (case cache_map tab crc of
       None \<Rightarrow> Some None
     | Some a \<Rightarrow> map_option (\<lambda>same. if same then Some (i + the (find_index (same_crc crc) tab)) else None)
                  (strncmp_eq (name @ [0]) (read_saved_name db a) (length name)))"
  using assms
proof (induction tab arbitrary: i)
  case Nil
  then show ?case by (simp add: cache_map_def)
next
  case (Cons n ns)
  have rest: "\<forall>i j. i < j \<and> j < length ns \<and> name_crc (ns ! i) = name_crc (ns ! j) \<longrightarrow> cache_addr (ns ! j) = FDB_DATA_UNUSED"
  proof (intro allI impI)
    fix i j
    assume "i < j \<and> j < length ns \<and> name_crc (ns ! i) = name_crc (ns ! j)"
    then show "cache_addr (ns ! j) = FDB_DATA_UNUSED" using Cons.prems [rule_format, of "Suc i" "Suc j"] by simp
  qed
  show ?case
  proof (cases "name_crc n = crc")
    case True
    have "cache_addr (ns ! j) = FDB_DATA_UNUSED" if "j < length ns" "name_crc (ns ! j) = crc" for j
      using Cons.prems [rule_format, of 0 "Suc j"] that True by simp
    then have "\<forall>m \<in> set ns. name_crc m = crc \<longrightarrow> cache_addr m = FDB_DATA_UNUSED" by (auto simp: in_set_conv_nth)
    from kv_cache_find_unused [OF this] show ?thesis
      using True
      by (cases "strncmp_eq (name @ [0]) (read_saved_name db (cache_addr n)) (length name)")
        (auto simp: cache_map_def same_crc_def)
  next
    case False
    then have "cache_map (n # ns) crc = cache_map ns crc"
      "find_index (same_crc crc) (n # ns) = map_option Suc (find_index (same_crc crc) ns)"
      by (auto simp: cache_map_def same_crc_def split: option.splits)
    moreover have "cache_map ns crc \<noteq> None \<Longrightarrow> find_index (same_crc crc) ns \<noteq> None"
      by (auto simp: cache_map_def split: option.splits)
    ultimately show ?thesis
      using False Cons.IH [OF rest, of "Suc i"] by (auto split: option.splits intro!: option.map_cong)
  qed
qed

lemma get_kv_from_cache_map:
  assumes ok: "kv_tab_ok (kv_cache_table db)"
  shows "cache_map (kv_cache_table db) (key_crc name) = None \<Longrightarrow> get_kv_from_cache name db = Some (None, db)"
    and "cache_map (kv_cache_table db) (key_crc name) = Some a \<Longrightarrow>
      strncmp_eq (name @ [0]) (read_saved_name db a) (length name) = Some False \<Longrightarrow> get_kv_from_cache name db = Some (None, db)"
    and "cache_map (kv_cache_table db) (key_crc name) = Some a \<Longrightarrow>
      strncmp_eq (name @ [0]) (read_saved_name db a) (length name) = Some True \<Longrightarrow>
      \<exists>tab. get_kv_from_cache name db = Some (Some a, db\<lparr>kv_cache_table := tab\<rparr>)
        \<and> kv_tab_ok tab \<and> cache_map tab = cache_map (kv_cache_table db)"
proof -
  define crc where "crc = key_crc name"
  define tab where "tab = kv_cache_table db"
  have "\<forall>i j. i < j \<and> j < length tab \<and> name_crc (tab ! i) = name_crc (tab ! j) \<longrightarrow> cache_addr (tab ! j) = FDB_DATA_UNUSED"
    using ok unfolding kv_tab_ok_def tab_def by blast
  note find = kv_cache_find_map [OF this, of db name crc 0]
  show "cache_map (kv_cache_table db) (key_crc name) = None \<Longrightarrow> get_kv_from_cache name db = Some (None, db)"
    using find by (simp add: get_kv_from_cache_def tab_def crc_def)
  show "cache_map (kv_cache_table db) (key_crc name) = Some a \<Longrightarrow>
      strncmp_eq (name @ [0]) (read_saved_name db a) (length name) = Some False \<Longrightarrow> get_kv_from_cache name db = Some (None, db)"
    using find by (simp add: get_kv_from_cache_def tab_def crc_def)
  assume hit: "cache_map (kv_cache_table db) (key_crc name) = Some a"
    and same: "strncmp_eq (name @ [0]) (read_saved_name db a) (length name) = Some True"
  from hit obtain k where k: "find_index (same_crc crc) tab = Some k" "cache_addr (tab ! k) = a"
    by (auto simp: cache_map_def tab_def crc_def split: option.splits if_splits)
  have k': "k < length tab" using find_index_Some [OF k(1)] by simp
  have found: "kv_cache_find db name crc tab 0 = Some (Some k)"
    using find hit same k(1) by (simp add: tab_def [symmetric] crc_def [symmetric])
  define x where "x = (if active (tab ! k) \<ge> 0xFFFF - FDB_KV_CACHE_TABLE_SIZE then 0xFFFF else active (tab ! k) + FDB_KV_CACHE_TABLE_SIZE)"
  have x: "x \<le> 0xFFFF" by (simp add: x_def FDB_KV_CACHE_TABLE_SIZE_def)
  have get: "get_kv_from_cache name db = Some (Some a, db\<lparr>kv_cache_table := tab[k := (tab ! k)\<lparr>active := x\<rparr>]\<rparr>)"
    using found k(2) by (simp add: get_kv_from_cache_def tab_def crc_def Let_def x_def)
  have same: "entries (tab[k := (tab ! k)\<lparr>active := x\<rparr>]) = entries tab"
    using k' by (simp add: nth_entries [symmetric])
  have "list_all (\<lambda>n. active n \<le> 0xFFFF) (tab[k := (tab ! k)\<lparr>active := x\<rparr>])"
    using ok x k' by (auto simp: kv_tab_ok_def tab_def list_all_length nth_list_update)
  from kv_tab_ok_entries [OF ok [folded tab_def] same this] cache_map_entries [OF same] get
  show "\<exists>tab. get_kv_from_cache name db = Some (Some a, db\<lparr>kv_cache_table := tab\<rparr>)
        \<and> kv_tab_ok tab \<and> cache_map tab = cache_map (kv_cache_table db)"
    by (auto simp: tab_def)
qed

end
