(* ===== verification/Fdb_Kvdb_Alloc.thy ===== *)
theory Fdb_Kvdb_Alloc
  imports Fdb_Kvdb_Cache "HOL-Library.Multiset"
begin

text \<open>
  Allocation on a well-formed database: \<open>alloc_kv\<close> returns the end of the records of a sector with enough room, and
  fails only when no sector in use has room and there is no spare empty sector.
\<close>

section \<open>One step of the iteration over sectors\<close>

lemma sector_iter_body_repr:
  assumes repr: "repr cfg L db" and j: "j < length L"
  shows "\<exists>e tab. sector_iter_body cfg status callback traversal (j * sec_size cfg) sector x db =
      (if status = FDB_SECTOR_STORE_UNUSED \<or> status = sct_store (L ! j)
       then map_option (\<lambda>(stop, x, db). (stop, e, x, db)) (callback e x (db\<lparr>sector_cache_table := tab\<rparr>))
       else Some (False, e, x, db\<lparr>sector_cache_table := tab\<rparr>))
    \<and> info_of cfg (j * sec_size cfg) (L ! j) e \<and> sec_cache_ok cfg L tab
    \<and> (traversal \<and> (status = FDB_SECTOR_STORE_UNUSED \<or> status = sct_store (L ! j)) \<longrightarrow> empty_kv e \<noteq> FAILED_ADDR)"
proof -
  define s where "s = j * sec_size cfg"
  obtain e tab where rd: "read_sector_info cfg s sector False db = Some (FDB_NO_ERR, e, db\<lparr>sector_cache_table := tab\<rparr>)"
    and e: "info_of cfg s (L ! j) e" "sec_cache_ok cfg L tab"
    using read_sector_info_repr [OF repr j, of sector False] by (auto simp: s_def)
  have st: "store_status e = sct_store (L ! j)" using e by (simp add: info_of_def)
  show ?thesis
  proof (cases "traversal \<and> (status = FDB_SECTOR_STORE_UNUSED \<or> status = sct_store (L ! j))")
    case True
    have "repr cfg L (db\<lparr>sector_cache_table := tab\<rparr>)" using repr e by (simp add: repr_def)
    from read_sector_info_repr [OF this j, of e True] obtain e' tab' where
      rd': "read_sector_info cfg s e True (db\<lparr>sector_cache_table := tab\<rparr>) = Some (FDB_NO_ERR, e', db\<lparr>sector_cache_table := tab'\<rparr>)"
      and e': "info_of cfg s (L ! j) e'" "empty_kv e' \<noteq> FAILED_ADDR" "sec_cache_ok cfg L tab'"
      by (auto simp: s_def)
    show ?thesis
      using True rd rd' e' st unfolding s_def [symmetric]
      by (intro exI [of _ e'] exI [of _ tab'])
        (cases "callback e' x (db\<lparr>sector_cache_table := tab'\<rparr>)", auto simp: sector_iter_body_def)
  next
    case False
    show ?thesis
      using False rd e st unfolding s_def [symmetric]
      by (intro exI [of _ e] exI [of _ tab])
        (cases "callback e x (db\<lparr>sector_cache_table := tab\<rparr>)", auto simp: sector_iter_body_def)
  qed
qed

lemma sector_iter_body_tab:
  assumes repr: "repr cfg L db" and tab: "sec_cache_ok cfg L tab" and j: "j < length L"
  obtains e tab' where "sector_iter_body cfg status callback traversal (j * sec_size cfg) sector x (db\<lparr>sector_cache_table := tab\<rparr>) =
      (if status = FDB_SECTOR_STORE_UNUSED \<or> status = sct_store (L ! j)
       then map_option (\<lambda>(stop, x, db). (stop, e, x, db)) (callback e x (db\<lparr>sector_cache_table := tab'\<rparr>))
       else Some (False, e, x, db\<lparr>sector_cache_table := tab'\<rparr>))"
    and "info_of cfg (j * sec_size cfg) (L ! j) e" and "sec_cache_ok cfg L tab'"
    and "traversal \<Longrightarrow> status = FDB_SECTOR_STORE_UNUSED \<or> status = sct_store (L ! j) \<Longrightarrow> empty_kv e \<noteq> FAILED_ADDR"
proof -
  have "repr cfg L (db\<lparr>sector_cache_table := tab\<rparr>)" using repr tab by (simp add: repr_def)
  note step = sector_iter_body_repr [OF this j, of status callback traversal sector x]
  have twice: "db\<lparr>sector_cache_table := tab, sector_cache_table := t\<rparr> = db\<lparr>sector_cache_table := t\<rparr>" for t by simp
  show thesis using step [unfolded twice] that by blast
qed

section \<open>Counting the sectors\<close>

definition n_store :: "kv_sect list \<Rightarrow> nat \<Rightarrow> nat" where
  "n_store L st = length (filter (\<lambda>S. sct_store S = st) L)"

lemma walk_order_mset:
  assumes "i < n"
  shows "mset (map (\<lambda>j. (i + j) mod n) [0..<n]) = mset [0..<n]"
proof (rule set_eq_iff_mset_eq_distinct [THEN iffD1])
  show "set (map (\<lambda>j. (i + j) mod n) [0..<n]) = set [0..<n]" using walk_order [OF assms] by simp
  have "card (set (map (\<lambda>j. (i + j) mod n) [0..<n])) = n" unfolding walk_order [OF assms] by simp
  then show "distinct (map (\<lambda>j. (i + j) mod n) [0..<n])" by (intro card_distinct) simp
  show "distinct [0..<n]" by simp
qed

definition count_step :: "kv_sect list \<Rightarrow> nat \<Rightarrow> nat \<times> nat \<Rightarrow> bool \<times> nat \<times> nat" where
  "count_step L j x =
     (False, if sct_store (L ! j) = FDB_SECTOR_STORE_EMPTY then (fst x + 1, snd x)
             else if sct_store (L ! j) = FDB_SECTOR_STORE_USING then (fst x, snd x + 1) else x)"

lemma count_scan:
  "idx_scan (count_step L) js x =
     (False, fst x + length (filter (\<lambda>j. sct_store (L ! j) = FDB_SECTOR_STORE_EMPTY) js),
      snd x + length (filter (\<lambda>j. sct_store (L ! j) = FDB_SECTOR_STORE_USING) js))"
  by (induction js arbitrary: x) (auto simp: count_step_def FDB_SECTOR_STORE_EMPTY_def FDB_SECTOR_STORE_USING_def)

lemma statistics_cb_info:
  "info_of cfg s (L ! j) e \<Longrightarrow> sector_statistics_cb e x db = Some (fst (count_step L j x), snd (count_step L j x), db)"
  by (cases x) (simp add: sector_statistics_cb_def count_step_def info_of_def)

lemma n_store_index: "length (filter (\<lambda>j. sct_store (L ! j) = st) [0..<length L]) = n_store L st"
proof -
  have "filter (\<lambda>S. sct_store S = st) (map ((!) L) [0..<length L]) = map ((!) L) (filter (\<lambda>j. sct_store (L ! j) = st) [0..<length L])"
    by (simp add: filter_map o_def)
  then show ?thesis by (simp add: n_store_def map_nth)
qed

lemma statistics_repr:
  assumes repr: "repr cfg L db"
  shows "\<exists>e tab. sector_iterator cfg sector FDB_SECTOR_STORE_UNUSED (0, 0) sector_statistics_cb False db =
      Some (e, (n_store L FDB_SECTOR_STORE_EMPTY, n_store L FDB_SECTOR_STORE_USING), db\<lparr>sector_cache_table := tab\<rparr>)
    \<and> sec_cache_ok cfg L tab"
proof -
  have ly: "layout cfg L (cells (flash db))" and tab0: "sec_cache_ok cfg L (sector_cache_table db)"
    using repr by (simp_all add: repr_def)
  obtain i where i: "i < length L" "oldest_addr db = i * sec_size cfg" using repr_oldest [OF repr] .
  have n: "0 < length L" using i(1) by linarith
  have order: "length (filter P (map (\<lambda>j. (i + j) mod length L) [0..<length L])) = length (filter P [0..<length L])" for P
    using walk_order_mset [OF i(1)] by (metis mset_filter size_mset)
  have count: "idx_scan (count_step L) (map (\<lambda>j. (i + j) mod length L) [0..<length L]) (0, 0) =
      (False, n_store L FDB_SECTOR_STORE_EMPTY, n_store L FDB_SECTOR_STORE_USING)"
    unfolding count_scan order n_store_index by simp
  have "\<exists>e tab. sector_walk cfg (sector_iter_body cfg FDB_SECTOR_STORE_UNUSED sector_statistics_cb False) (i * sec_size cfg)
        (0 * sec_size cfg) sector (0, 0) (db\<lparr>sector_cache_table := sector_cache_table db\<rparr>) =
        (case idx_scan (count_step L) (map (\<lambda>j. (i + j) mod length L) [0..<length L - 0]) (0, 0) of
           (stop, x') \<Rightarrow> Some (stop, e, x', db\<lparr>sector_cache_table := tab\<rparr>))
      \<and> sec_cache_ok cfg L tab
      \<and> (fst (idx_scan (count_step L) (map (\<lambda>j. (i + j) mod length L) [0..<length L - 0]) (0, 0)) \<longrightarrow>
          (\<exists>j < length L. info_of cfg (j * sec_size cfg) (L ! j) e
             \<and> (\<lambda>_ _ _. True) j e (snd (idx_scan (count_step L) (map (\<lambda>j. (i + j) mod length L) [0..<length L - 0]) (0, 0)))))"
  proof (rule sector_walk_scan [where P = "\<lambda>_. True" and g = "count_step L" and Q = "\<lambda>_ _ _. True", OF ly refl])
    fix j sector and x :: "nat \<times> nat" and tab
    assume j: "j < length L" and tab: "sec_cache_ok cfg L tab"
    obtain e tab' where "sector_iter_body cfg FDB_SECTOR_STORE_UNUSED sector_statistics_cb False (j * sec_size cfg) sector x
          (db\<lparr>sector_cache_table := tab\<rparr>) =
          map_option (\<lambda>(stop, x, db). (stop, e, x, db)) (sector_statistics_cb e x (db\<lparr>sector_cache_table := tab'\<rparr>))"
      and e: "info_of cfg (j * sec_size cfg) (L ! j) e" "sec_cache_ok cfg L tab'"
      by (rule sector_iter_body_tab [OF repr tab j, of FDB_SECTOR_STORE_UNUSED sector_statistics_cb False sector x]) simp
    then have "sector_iter_body cfg FDB_SECTOR_STORE_UNUSED sector_statistics_cb False (j * sec_size cfg) sector x
          (db\<lparr>sector_cache_table := tab\<rparr>) = Some (fst (count_step L j x), e, snd (count_step L j x), db\<lparr>sector_cache_table := tab'\<rparr>)"
      by (simp add: statistics_cb_info)
    then show "\<exists>e tab'. sector_iter_body cfg FDB_SECTOR_STORE_UNUSED sector_statistics_cb False (j * sec_size cfg) sector x
          (db\<lparr>sector_cache_table := tab\<rparr>) =
          Some (fst (count_step L j x), e, snd (count_step L j x), db\<lparr>sector_cache_table := tab'\<rparr>)
        \<and> info_of cfg (j * sec_size cfg) (L ! j) e \<and> sec_cache_ok cfg L tab'
        \<and> (if fst (count_step L j x) then True else True)"
      using e by auto
  qed (use i(1) n tab0 in simp_all)
  then obtain e tab where "sector_walk cfg (sector_iter_body cfg FDB_SECTOR_STORE_UNUSED sector_statistics_cb False) (oldest_addr db) 0
        sector (0, 0) db =
        Some (False, e, (n_store L FDB_SECTOR_STORE_EMPTY, n_store L FDB_SECTOR_STORE_USING), db\<lparr>sector_cache_table := tab\<rparr>)"
    "sec_cache_ok cfg L tab"
    unfolding i(2) by (auto simp: count)
  then show ?thesis by (auto simp: sector_iterator_def)
qed

section \<open>The search for room\<close>

definition usable :: "fdb_cfg \<Rightarrow> kv_sect list \<Rightarrow> bool \<Rightarrow> nat \<Rightarrow> nat \<Rightarrow> nat \<Rightarrow> bool" where
  "usable cfg L gc n st j \<longleftrightarrow>
     sct_store (L ! j) = st \<and> n + FDB_SEC_REMAIN_THRESHOLD < sec_size cfg - 16 - recs_size (sct_recs (L ! j))
     \<and> (sct_dirty (L ! j) = FDB_SECTOR_DIRTY_FALSE \<or> sct_dirty (L ! j) = FDB_SECTOR_DIRTY_TRUE \<and> \<not> gc)"

definition some_usable :: "fdb_cfg \<Rightarrow> kv_sect list \<Rightarrow> bool \<Rightarrow> nat \<Rightarrow> nat \<Rightarrow> bool" where
  "some_usable cfg L gc n st \<longleftrightarrow> (\<exists>j < length L. usable cfg L gc n st j)"

text \<open>The place that an allocation of \<open>n\<close> bytes returns: the end of the records of sector \<open>j\<close>.\<close>

definition place :: "fdb_cfg \<Rightarrow> kv_sect list \<Rightarrow> nat \<Rightarrow> nat \<Rightarrow> kvdb_sec_info \<Rightarrow> bool" where
  "place cfg L n j e \<longleftrightarrow>
     j < length L \<and> sec_addr e = j * sec_size cfg \<and> store_status e = sct_store (L ! j)
     \<and> empty_kv e = j * sec_size cfg + 16 + recs_size (sct_recs (L ! j))
     \<and> remain e = sec_size cfg - 16 - recs_size (sct_recs (L ! j)) \<and> n + FDB_SEC_REMAIN_THRESHOLD < remain e"

definition alloc_step :: "fdb_cfg \<Rightarrow> kv_sect list \<Rightarrow> bool \<Rightarrow> nat \<Rightarrow> nat \<Rightarrow> nat \<Rightarrow> nat \<Rightarrow> bool \<times> nat" where
  "alloc_step cfg L gc n st j x =
     (if usable cfg L gc n st j then (True, j * sec_size cfg + 16 + recs_size (sct_recs (L ! j))) else (False, x))"

lemma alloc_iter_repr:
  assumes repr: "repr cfg L db" and n: "n + FDB_SEC_REMAIN_THRESHOLD < 2 ^ 32" and st: "st \<noteq> FDB_SECTOR_STORE_UNUSED"
  shows "\<exists>e a tab. sector_iterator cfg sector st FAILED_ADDR (alloc_kv_cb n) True db = Some (e, a, db\<lparr>sector_cache_table := tab\<rparr>)
    \<and> sec_cache_ok cfg L tab
    \<and> (if some_usable cfg L (gc_request db) n st then (\<exists>j. place cfg L n j e) \<and> a = empty_kv e else a = FAILED_ADDR)"
proof -
  define g where "g = alloc_step cfg L (gc_request db) n st"
  define Q where "Q j e a \<longleftrightarrow> place cfg L n j e \<and> a = empty_kv e \<and> usable cfg L (gc_request db) n st j" for j e a
  have "\<exists>stop e x' tab. sector_walk cfg (sector_iter_body cfg st (alloc_kv_cb n) True) (oldest_addr db) 0 sector FAILED_ADDR db =
        Some (stop, e, x', db\<lparr>sector_cache_table := tab\<rparr>)
      \<and> sec_cache_ok cfg L tab
      \<and> (if stop then \<exists>j < length L. info_of cfg (j * sec_size cfg) (L ! j) e \<and> Q j e x'
         else (\<lambda>x. x = FAILED_ADDR) x' \<and> (\<forall>j < length L. \<exists>x. (\<lambda>x. x = FAILED_ADDR) x \<and> \<not> fst (g j x)))"
  proof (rule sector_walk_repr [where P = "\<lambda>x. x = FAILED_ADDR" and g = g and Q = Q, OF repr refl])
    fix j sector x tab
    assume j: "j < length L" and x: "x = FAILED_ADDR" and tab: "sec_cache_ok cfg L tab"
    obtain e tab' where
      b: "sector_iter_body cfg st (alloc_kv_cb n) True (j * sec_size cfg) sector x (db\<lparr>sector_cache_table := tab\<rparr>) =
        (if st = sct_store (L ! j)
         then map_option (\<lambda>(stop, x, db). (stop, e, x, db)) (alloc_kv_cb n e x (db\<lparr>sector_cache_table := tab'\<rparr>))
         else Some (False, e, x, db\<lparr>sector_cache_table := tab'\<rparr>))"
      and e: "info_of cfg (j * sec_size cfg) (L ! j) e" "sec_cache_ok cfg L tab'"
      and ne: "st = sct_store (L ! j) \<Longrightarrow> empty_kv e \<noteq> FAILED_ADDR"
      by (rule sector_iter_body_tab [OF repr tab j, of st "alloc_kv_cb n" True sector x]) (use st in simp)
    have add: "add32 n FDB_SEC_REMAIN_THRESHOLD = n + FDB_SEC_REMAIN_THRESHOLD" using n by (simp add: add32_less)
    have known: "empty_kv e = j * sec_size cfg + 16 + recs_size (sct_recs (L ! j)) \<and> remain e = sec_size cfg - 16 - recs_size (sct_recs (L ! j))"
      if "st = sct_store (L ! j)" using e(1) ne [OF that] by (auto simp: info_of_def)
    have "sector_iter_body cfg st (alloc_kv_cb n) True (j * sec_size cfg) sector x (db\<lparr>sector_cache_table := tab\<rparr>) =
        Some (fst (g j x), e, snd (g j x), db\<lparr>sector_cache_table := tab'\<rparr>)"
      using b e(1) known by (auto simp: g_def alloc_step_def usable_def alloc_kv_cb_def add info_of_def)
    moreover have "if fst (g j x) then Q j e (snd (g j x)) else snd (g j x) = FAILED_ADDR"
      using known e(1) j x by (auto simp: g_def alloc_step_def Q_def place_def usable_def info_of_def)
    ultimately show "\<exists>e tab'. sector_iter_body cfg st (alloc_kv_cb n) True (j * sec_size cfg) sector x (db\<lparr>sector_cache_table := tab\<rparr>) =
          Some (fst (g j x), e, snd (g j x), db\<lparr>sector_cache_table := tab'\<rparr>)
        \<and> info_of cfg (j * sec_size cfg) (L ! j) e \<and> sec_cache_ok cfg L tab'
        \<and> (if fst (g j x) then Q j e (snd (g j x)) else snd (g j x) = FAILED_ADDR)"
      using e by blast
  qed
  then obtain stop e a tab where walk: "sector_walk cfg (sector_iter_body cfg st (alloc_kv_cb n) True) (oldest_addr db) 0 sector FAILED_ADDR db =
        Some (stop, e, a, db\<lparr>sector_cache_table := tab\<rparr>)" and tab: "sec_cache_ok cfg L tab"
    and r: "if stop then \<exists>j < length L. info_of cfg (j * sec_size cfg) (L ! j) e \<and> Q j e a
         else a = FAILED_ADDR \<and> (\<forall>j < length L. \<exists>x. x = FAILED_ADDR \<and> \<not> fst (g j x))"
    by auto
  have "if some_usable cfg L (gc_request db) n st then (\<exists>j. place cfg L n j e) \<and> a = empty_kv e else a = FAILED_ADDR"
    using r by (auto simp: some_usable_def Q_def g_def alloc_step_def split: if_splits)
  then show ?thesis
    using walk tab by (intro exI [of _ e] exI [of _ a] exI [of _ tab]) (simp add: sector_iterator_def)
qed

text \<open>When a database has room for \<open>n\<close> bytes without garbage collection.\<close>

definition has_room :: "fdb_cfg \<Rightarrow> kv_sect list \<Rightarrow> bool \<Rightarrow> nat \<Rightarrow> bool" where
  "has_room cfg L gc n \<longleftrightarrow>
     some_usable cfg L gc n FDB_SECTOR_STORE_USING
     \<or> (n_store L FDB_SECTOR_STORE_EMPTY > FDB_GC_EMPTY_SEC_THRESHOLD \<or> gc) \<and> some_usable cfg L gc n FDB_SECTOR_STORE_EMPTY"

lemma usable_n_store: "some_usable cfg L gc n st \<Longrightarrow> 0 < n_store L st"
  by (auto simp: some_usable_def n_store_def usable_def filter_empty_conv)

lemma alloc_kv_repr:
  assumes repr: "repr cfg L db" and n: "n + FDB_SEC_REMAIN_THRESHOLD < 2 ^ 32"
  shows "\<exists>e a tab db'. alloc_kv cfg sector n db = Some (a, e, db') \<and> sec_cache_ok cfg L tab
    \<and> (if has_room cfg L (gc_request db) n then db' = db\<lparr>sector_cache_table := tab\<rparr> \<and> (\<exists>j. place cfg L n j e) \<and> a = empty_kv e
       else a = FAILED_ADDR \<and> db' \<in> {db\<lparr>sector_cache_table := tab\<rparr>, db\<lparr>sector_cache_table := tab, gc_request := True\<rparr>})"
proof -
  obtain e0 tab0 where s: "sector_iterator cfg sector FDB_SECTOR_STORE_UNUSED (0, 0) sector_statistics_cb False db =
      Some (e0, (n_store L FDB_SECTOR_STORE_EMPTY, n_store L FDB_SECTOR_STORE_USING), db\<lparr>sector_cache_table := tab0\<rparr>)"
    "sec_cache_ok cfg L tab0"
    using statistics_repr [OF repr] by blast
  have ne: "FDB_SECTOR_STORE_EMPTY \<noteq> FDB_SECTOR_STORE_UNUSED" "FDB_SECTOR_STORE_USING \<noteq> FDB_SECTOR_STORE_UNUSED"
    by (simp_all add: FDB_SECTOR_STORE_EMPTY_def FDB_SECTOR_STORE_USING_def FDB_SECTOR_STORE_UNUSED_def)
  define U where "U = some_usable cfg L (gc_request db) n"
  have repr0: "repr cfg L (db\<lparr>sector_cache_table := tab0\<rparr>)" using repr s by (simp add: repr_def)
  obtain e1 a1 tab1 where u: "(if n_store L FDB_SECTOR_STORE_USING > 0
        then sector_iterator cfg e0 FDB_SECTOR_STORE_USING FAILED_ADDR (alloc_kv_cb n) True (db\<lparr>sector_cache_table := tab0\<rparr>)
        else Some (e0, FAILED_ADDR, db\<lparr>sector_cache_table := tab0\<rparr>)) = Some (e1, a1, db\<lparr>sector_cache_table := tab1\<rparr>)"
    "sec_cache_ok cfg L tab1"
    "if U FDB_SECTOR_STORE_USING then (\<exists>j. place cfg L n j e1) \<and> a1 = empty_kv e1 else a1 = FAILED_ADDR"
  proof (cases "n_store L FDB_SECTOR_STORE_USING > 0")
    case True
    obtain e a tab where "sector_iterator cfg e0 FDB_SECTOR_STORE_USING FAILED_ADDR (alloc_kv_cb n) True (db\<lparr>sector_cache_table := tab0\<rparr>) =
        Some (e, a, db\<lparr>sector_cache_table := tab\<rparr>)" "sec_cache_ok cfg L tab"
      "if U FDB_SECTOR_STORE_USING then (\<exists>j. place cfg L n j e) \<and> a = empty_kv e else a = FAILED_ADDR"
      using alloc_iter_repr [OF repr0 n ne(2), of e0] unfolding U_def by auto
    then show ?thesis using True by (intro that) simp_all
  next
    case False
    then have "\<not> U FDB_SECTOR_STORE_USING"
      using usable_n_store [of cfg L "gc_request db" n FDB_SECTOR_STORE_USING] by (auto simp: U_def)
    then show ?thesis using False s(2) by (intro that) simp_all
  qed
  have far: "empty_kv e \<noteq> FAILED_ADDR" if "place cfg L n j e" for j e
    using that sect_at_bounds(2,3) [OF repr_sect_at [OF repr, of j]] by (auto simp: place_def FAILED_ADDR_def)
  show ?thesis
  proof (cases "U FDB_SECTOR_STORE_USING")
    case True
    then have "a1 \<noteq> FAILED_ADDR" using u(3) far by auto
    then have "alloc_kv cfg sector n db = Some (a1, e1, db\<lparr>sector_cache_table := tab1\<rparr>)" using s u(1) by (simp add: alloc_kv_def)
    moreover have "has_room cfg L (gc_request db) n" using True by (simp add: has_room_def U_def)
    ultimately show ?thesis using True u(2,3) by auto
  next
    case False
    then have a1: "a1 = FAILED_ADDR" using u(3) by simp
    have repr1: "repr cfg L (db\<lparr>sector_cache_table := tab1\<rparr>)" using repr u by (simp add: repr_def)
    obtain e2 a2 tab2 where v: "sector_iterator cfg e1 FDB_SECTOR_STORE_EMPTY FAILED_ADDR (alloc_kv_cb n) True
        (db\<lparr>sector_cache_table := tab1\<rparr>) = Some (e2, a2, db\<lparr>sector_cache_table := tab2\<rparr>)"
      "sec_cache_ok cfg L tab2"
      "if U FDB_SECTOR_STORE_EMPTY then (\<exists>j. place cfg L n j e2) \<and> a2 = empty_kv e2 else a2 = FAILED_ADDR"
      using alloc_iter_repr [OF repr1 n ne(1), of e1] unfolding U_def by auto
    have room: "has_room cfg L (gc_request db) n \<longleftrightarrow>
        (n_store L FDB_SECTOR_STORE_EMPTY > FDB_GC_EMPTY_SEC_THRESHOLD \<or> gc_request db) \<and> U FDB_SECTOR_STORE_EMPTY"
      using False by (simp add: has_room_def U_def)
    have alloc: "alloc_kv cfg sector n db =
        (if n_store L FDB_SECTOR_STORE_EMPTY > 0
         then if n_store L FDB_SECTOR_STORE_EMPTY > FDB_GC_EMPTY_SEC_THRESHOLD \<or> gc_request db
              then Some (a2, e2, db\<lparr>sector_cache_table := tab2\<rparr>)
              else Some (FAILED_ADDR, e1, db\<lparr>sector_cache_table := tab1, gc_request := True\<rparr>)
         else Some (FAILED_ADDR, e1, db\<lparr>sector_cache_table := tab1\<rparr>))"
      using s u(1) v(1) a1 by (simp add: alloc_kv_def)
    have none: "n_store L FDB_SECTOR_STORE_EMPTY = 0 \<Longrightarrow> \<not> U FDB_SECTOR_STORE_EMPTY"
      using usable_n_store [of cfg L "gc_request db" n FDB_SECTOR_STORE_EMPTY] by (auto simp: U_def)
    consider (empty) "n_store L FDB_SECTOR_STORE_EMPTY = 0"
      | (few) "n_store L FDB_SECTOR_STORE_EMPTY > 0" "\<not> (n_store L FDB_SECTOR_STORE_EMPTY > FDB_GC_EMPTY_SEC_THRESHOLD \<or> gc_request db)"
      | (many) "n_store L FDB_SECTOR_STORE_EMPTY > 0" "n_store L FDB_SECTOR_STORE_EMPTY > FDB_GC_EMPTY_SEC_THRESHOLD \<or> gc_request db"
      by blast
    then show ?thesis
    proof cases
      case empty
      then show ?thesis using alloc none u(2) room by auto
    next
      case few
      then have "\<not> has_room cfg L (gc_request db) n" using room by blast
      then show ?thesis using alloc few u(2) by (simp del: not_less) blast
    next
      case many
      show ?thesis
      proof (cases "U FDB_SECTOR_STORE_EMPTY")
        case True
        then have "has_room cfg L (gc_request db) n" using room many by blast
        then show ?thesis using alloc many v(2,3) True by auto
      next
        case False
        then have "\<not> has_room cfg L (gc_request db) n" using room by blast
        then show ?thesis using alloc many v(2,3) False by auto
      qed
    qed
  qed
qed

end
