(* ===== verification/Fdb_Kvdb_Change.thy ===== *)
theory Fdb_Kvdb_Change
  imports Fdb_Kvdb_Alloc
begin

text \<open>
  What creating a record and changing the status of a record do to a well-formed database: one sector of the layout
  changes, and the sector cache follows.
\<close>

unbundle bit_operations_syntax

section \<open>Changing one sector\<close>

lemma layout_change:
  assumes ly: "layout cfg L m" and j: "j < length L" and wf: "wf_sect cfg S" and len: "length m' = length m"
    and S: "stored m' (j * sec_size cfg) (sect_bytes cfg S)"
    and same: "\<And>i. i < length m \<Longrightarrow> i < j * sec_size cfg \<or> j * sec_size cfg + sec_size cfg \<le> i \<Longrightarrow> m' ! i = m ! i"
  shows "layout cfg (L[j := S]) m'"
proof -
  have "stored m' (i * sec_size cfg) (sect_bytes cfg (L ! i))" if i: "i < length L" "i \<noteq> j" for i
  proof -
    have st: "stored m (i * sec_size cfg) (sect_bytes cfg (L ! i))" "length (sect_bytes cfg (L ! i)) = sec_size cfg"
      using ly i by (auto simp: layout_def length_sect_bytes)
    have "i * sec_size cfg + k < j * sec_size cfg \<or> j * sec_size cfg + sec_size cfg \<le> i * sec_size cfg + k" if "k < sec_size cfg" for k
    proof (cases "i < j")
      case True
      then show ?thesis using sector_end [of i j "sec_size cfg"] that by simp
    next
      case False
      then show ?thesis using sector_end [of j i "sec_size cfg"] i(2) by simp
    qed
    then show ?thesis using st same len by (auto simp: stored_nth)
  qed
  then show ?thesis using ly j wf len S by (auto simp: layout_def nth_list_update)
qed

text \<open>Updating the entry of one sector in the sector cache.\<close>

definition sec_tab_upd :: "nat \<Rightarrow> (kvdb_sec_info \<Rightarrow> kvdb_sec_info) \<Rightarrow> kvdb_sec_info list \<Rightarrow> kvdb_sec_info list" where
  "sec_tab_upd s f tab =
     (case find_index (\<lambda>e. sec_addr e = s) tab of None \<Rightarrow> tab | Some i \<Rightarrow> tab[i := f (tab ! i)])"

lemma sec_cache_change:
  assumes ok: "sec_cache_ok cfg L tab" and j: "j < length L" and b: "length L * sec_size cfg < 2 ^ 32 - 1" "0 < sec_size cfg"
    and f: "\<And>e. info_of cfg (j * sec_size cfg) (L ! j) e \<Longrightarrow> info_of cfg (j * sec_size cfg) S (f e)"
  shows "sec_cache_ok cfg (L[j := S]) (sec_tab_upd (j * sec_size cfg) f tab)"
proof -
  define s where "s = j * sec_size cfg"
  have s: "s \<noteq> FDB_DATA_UNUSED" using sector_end [OF j, of "sec_size cfg"] b by (simp add: s_def FDB_DATA_UNUSED_def)
  have info: "info_of cfg s (L ! j) e" if e: "e \<in> set tab" "sec_addr e = s" for e
  proof -
    from e(1) obtain k where "k < length tab" "e = tab ! k" by (auto simp: in_set_conv_nth)
    then obtain i where i: "i < length L" "info_of cfg (i * sec_size cfg) (L ! i) e"
      using ok e(2) s by (auto simp: sec_cache_ok_def)
    then have "i * sec_size cfg = j * sec_size cfg" using e(2) by (metis info_of_def s_def)
    then show ?thesis using i b(2) by (auto simp: s_def)
  qed
  have other: "\<exists>i < length L. info_of cfg (i * sec_size cfg) (L[j := S] ! i) e"
    if e: "e \<in> set tab" "sec_addr e \<noteq> s" "sec_addr e \<noteq> FDB_DATA_UNUSED" for e
  proof -
    from e(1) obtain k where "k < length tab" "e = tab ! k" by (auto simp: in_set_conv_nth)
    then obtain i where i: "i < length L" "info_of cfg (i * sec_size cfg) (L ! i) e"
      using ok e(3) by (auto simp: sec_cache_ok_def)
    then have "i \<noteq> j" using e(2) by (auto simp: info_of_def s_def)
    then show ?thesis using i by auto
  qed
  show ?thesis
  proof (cases "find_index (\<lambda>e. sec_addr e = s) tab")
    case None
    then have "sec_addr e \<noteq> s" if "e \<in> set tab" for e using that by (simp add: find_index_None)
    then show ?thesis using ok other None by (auto simp: sec_tab_upd_def sec_cache_ok_def s_def [symmetric])
  next
    case (Some k)
    have k: "k < length tab" "sec_addr (tab ! k) = s" using find_index_Some [OF Some] by simp_all
    have new: "info_of cfg s S (f (tab ! k))" using f info [of "tab ! k"] k by (simp add: s_def)
    have one: "sec_addr (tab ! k') \<noteq> s" if "k' < length tab" "k' \<noteq> k" for k'
      using ok k that s by (metis linorder_neqE_nat sec_cache_ok_def)
    have a: "sec_addr (f (tab ! k)) = s" using new by (simp add: info_of_def)
    have "\<exists>i < length L. info_of cfg (i * sec_size cfg) (L[j := S] ! i) (tab[k := f (tab ! k)] ! k')"
      if "k' < length tab" "sec_addr (tab[k := f (tab ! k)] ! k') \<noteq> FDB_DATA_UNUSED" for k'
    proof (cases "k' = k")
      case True
      then show ?thesis using new j k(1) by (intro exI [of _ j]) (simp add: s_def)
    next
      case False
      then show ?thesis using other [of "tab ! k'"] one [OF that(1)] that by auto
    qed
    moreover have "sec_addr (tab[k := f (tab ! k)] ! x) = sec_addr (tab ! x)" if "x < length tab" for x
      using a k that by (cases "x = k") simp_all
    ultimately have "sec_cache_ok cfg (L[j := S]) (tab[k := f (tab ! k)])"
      using ok unfolding sec_cache_ok_def by (metis (no_types, lifting) length_list_update less_trans)
    then show ?thesis using Some by (simp add: sec_tab_upd_def s_def [symmetric])
  qed
qed

lemma sec_tab_upd_twice:
  assumes "\<And>e. sec_addr (f e) = sec_addr e"
  shows "sec_tab_upd s g (sec_tab_upd s f tab) = sec_tab_upd s (g \<circ> f) tab"
proof (cases "find_index (\<lambda>e. sec_addr e = s) tab")
  case None
  then show ?thesis by (simp add: sec_tab_upd_def)
next
  case (Some i)
  then have i: "i < length tab" by (auto dest: find_index_Some)
  have "find_index (\<lambda>e. sec_addr e = s) (tab[i := f (tab ! i)]) = find_index (\<lambda>e. sec_addr e = s) tab"
    by (rule find_index_cong) (use i assms in \<open>auto simp: nth_list_update\<close>)
  then show ?thesis using Some i by (simp add: sec_tab_upd_def)
qed

lemma sec_tab_upd_id [simp]: "sec_tab_upd s (\<lambda>e. e) tab = tab"
  by (simp add: sec_tab_upd_def split: option.splits)

lemma store_cache_tab:
  "update_sector_status_store_cache s st db =
     db\<lparr>sector_cache_table := sec_tab_upd s (\<lambda>e. e\<lparr>store_status := st\<rparr>) (sector_cache_table db)\<rparr>"
  by (simp add: update_sector_status_store_cache_def get_sector_from_cache_def sec_tab_upd_def split: option.splits)

lemma empty_cache_tab:
  "update_sector_empty_addr_cache cfg s a db =
     db\<lparr>sector_cache_table := sec_tab_upd s (\<lambda>e. e\<lparr>empty_kv := a, remain := sub32 (sec_size cfg) (sub32 a (sec_addr e))\<rparr>)
          (sector_cache_table db)\<rparr>"
  by (simp add: update_sector_empty_addr_cache_def get_sector_from_cache_def sec_tab_upd_def split: option.splits)

lemma dirty_cache_tab:
  "dirty_caches cfg a m db =
     db\<lparr>sector_cache_table :=
          (if dirty_ops cfg a m = [] then sector_cache_table db
           else sec_tab_upd (FDB_ALIGN_DOWN a (sec_size cfg)) (\<lambda>e. e\<lparr>dirty_status := FDB_SECTOR_DIRTY_TRUE\<rparr>) (sector_cache_table db))\<rparr>"
  by (simp add: dirty_caches_def get_sector_from_cache_def sec_tab_upd_def split: option.splits)

section \<open>Creating a record\<close>

definition with_record :: "kv_sect \<Rightarrow> bytes \<Rightarrow> bytes \<Rightarrow> kv_sect" where
  "with_record S key val = S\<lparr>sct_store := FDB_SECTOR_STORE_USING, sct_recs := sct_recs S @ [(FDB_KV_WRITE, key, val)]\<rparr>"

lemma place_room:
  assumes repr: "repr cfg L db" and pl: "place cfg L (kv_size key val) j sector"
  shows "room_for cfg sector key val (cells (flash db))" "\<not> sec_becomes_full sector (kv_size key val)"
proof -
  have j: "j < length L" using pl by (simp add: place_def)
  note sec = repr_sect_at [OF repr j]
  note bounds = sect_at_bounds [OF sec]
  have ly: "layout cfg L (cells (flash db))" using repr by (simp add: repr_def)
  have "stored (cells (flash db)) (j * sec_size cfg + 16 + recs_size (sct_recs (L ! j)))
      (replicate (sec_size cfg - 16 - recs_size (sct_recs (L ! j))) 0xFF)"
    using sec by (intro stored_tail) (simp add: sect_at_def)
  from stored_replicate_part [OF this, of 0 "kv_size key val"] show "room_for cfg sector key val (cells (flash db))"
    using pl bounds layout_sec_size(2) [OF ly]
    by (auto simp: room_for_def place_def kvdb_consts FAILED_ADDR_def FDB_BYTE_ERASED_def)
  have "remain sector < 2 ^ 32" using pl layout_sec_size(2) [OF ly] by (simp add: place_def)
  then show "\<not> sec_becomes_full sector (kv_size key val)"
    using pl by (auto simp: sec_becomes_full_def place_def sub32_le kvdb_consts)
qed

lemma with_record_wf:
  assumes "wf_sect cfg (L ! j)" and "place cfg L (kv_size key val) j sector" and "length key < 64" "0 \<notin> set key"
  shows "wf_sect cfg (with_record (L ! j) key val)"
  using assms by (auto simp: wf_sect_def with_record_def place_def wf_rec_def rec_size_def kvdb_consts)

lemma with_record_stored:
  assumes repr: "repr cfg L db" and pl: "place cfg L (kv_size key val) j sector"
  shows "stored (replay (create_ops sector key val) (cells (flash db))) (j * sec_size cfg) (sect_bytes cfg (with_record (L ! j) key val))"
proof -
  define m where "m = cells (flash db)"
  define s where "s = j * sec_size cfg"
  define S where "S = L ! j"
  define n where "n = kv_size key val"
  have j: "j < length L" using pl by (simp add: place_def)
  note sec = repr_sect_at [OF repr j, folded s_def S_def]
  have wf: "wf_sect cfg S" and st: "stored m s (sect_bytes cfg S)" using sec by (simp_all add: sect_at_def m_def)
  have e: "sec_addr sector = s" "store_status sector = sct_store S" "empty_kv sector = s + 16 + recs_size (sct_recs S)"
    "n + 88 < sec_size cfg - 16 - recs_size (sct_recs S)"
    using pl by (auto simp: place_def s_def S_def n_def kvdb_consts)
  note room = place_room(1) [OF repr pl, folded m_def]
  note full = place_room(2) [OF repr pl]
  note fits = create_ops_fits [OF room]
  define m' where "m' = replay (create_ops sector key val) m"
  have len: "length m' = length m" unfolding m'_def by (rule length_replay [OF fits])
  have spare: "m' ! i = m ! i" if "i < length m" "i \<noteq> s" "i < s + 16 + recs_size (sct_recs S) \<or> s + 16 + recs_size (sct_recs S) + n \<le> i" for i
    unfolding m'_def
    by (rule replay_spares [OF fits create_ops_spares]) (use that e in \<open>simp_all add: n_def\<close>)
  have keep: "stored m' a xs" if "stored m a xs" "s < a"
    "a + length xs \<le> s + 16 + recs_size (sct_recs S) \<or> s + 16 + recs_size (sct_recs S) + n \<le> a" for a xs
    using that spare len unfolding stored_nth by auto
  have new: "stored m' (s + 16 + recs_size (sct_recs S)) (kv_record FDB_KV_WRITE key val)"
    using create_done [OF room] e by (simp add: m'_def)
  have "m ! s = status_byte (sct_store S)" "stored m (Suc s) (tl (sect_hdr (sct_store S) (sct_dirty S)))" "s < length m"
    using st by (simp_all add: sect_bytes_def stored_append stored_Cons sect_hdr_def)
  note hdr = this
  have m's: "m' ! s = status_byte FDB_SECTOR_STORE_USING"
  proof -
    have ops: "create_ops sector key val = sec_status_ops sector n @ record_ops (empty_kv sector) key val"
      by (simp add: create_ops_def n_def)
    have fits1: "list_all (op_fits (length m)) (sec_status_ops sector n)" using fits by (simp add: ops)
    have len1: "length (replay (sec_status_ops sector n) m) = length m" by (rule length_replay [OF fits1])
    have "m' ! s = replay (sec_status_ops sector n) m ! s"
      unfolding m'_def ops replay_append
      by (rule replay_spares) (use fits e hdr(3) record_ops_spares [of s "empty_kv sector" key val] in \<open>simp_all add: ops len1\<close>)
    also have "\<dots> = status_byte FDB_SECTOR_STORE_USING"
      using hdr wf e full
      by (auto simp: sec_status_ops_def n_def nth_nor_program wf_sect_def and_status_byte FDB_SECTOR_STORE_EMPTY_def FDB_SECTOR_STORE_USING_def numeral_2_eq_2)
    finally show ?thesis .
  qed
  have "stored m' s (sect_hdr FDB_SECTOR_STORE_USING (sct_dirty S))"
    using m's hdr(3) len keep [OF hdr(2)] by (simp add: sect_hdr_def stored_Cons)
  moreover have "stored m' (s + 16) (enc_recs (sct_recs S))"
    using st by (intro keep) (simp_all add: sect_bytes_def stored_append)
  moreover have "stored m' (s + 16 + recs_size (sct_recs S) + n) (replicate (sec_size cfg - 16 - (recs_size (sct_recs S) + n)) 0xFF)"
  proof (rule keep)
    show "stored m (s + 16 + recs_size (sct_recs S) + n) (replicate (sec_size cfg - 16 - (recs_size (sct_recs S) + n)) 0xFF)"
      using stored_replicate_part [OF stored_tail [OF st], of n "sec_size cfg - 16 - (recs_size (sct_recs S) + n)"] e(4) by simp
  qed simp_all
  ultimately show ?thesis
    using new unfolding m_def [symmetric] m'_def [symmetric] s_def [symmetric] S_def [symmetric]
    by (simp add: sect_bytes_def with_record_def stored_append rec_size_def enc_rec_def n_def add.assoc)
qed

lemma create_kv_blob_repr:
  assumes repr: "repr cfg L db" and pl: "place cfg L (kv_size key val) j sector" and key: "length key < 64" "0 \<notin> set key"
    and val: "mem_read value 0 len = Some val" and tab: "kv_tab_ok (kv_cache_table db)"
  shows "\<exists>stab ktab. create_kv_blob cfg sector key value len db = Some (FDB_NO_ERR, sector,
        db\<lparr>flash := performed (create_ops sector key val) (flash db), kv_cache_table := ktab, sector_cache_table := stab\<rparr>)
    \<and> repr cfg (L[j := with_record (L ! j) key val])
        (db\<lparr>flash := performed (create_ops sector key val) (flash db), kv_cache_table := ktab, sector_cache_table := stab\<rparr>)
    \<and> after_update (kv_cache_table db) ktab (key_crc key) (Some (empty_kv sector))"
proof -
  define s where "s = j * sec_size cfg"
  define n where "n = kv_size key val"
  have j: "j < length L" using pl by (simp add: place_def)
  have ly: "layout cfg L (cells (flash db))" and ca: "sec_cache_ok cfg L (sector_cache_table db)"
    and old: "oldest_addr db mod sec_size cfg = 0" "oldest_addr db < max_size cfg"
    using repr by (simp_all add: repr_def)
  note sec = repr_sect_at [OF repr j]
  have b: "length L * sec_size cfg < 2 ^ 32 - 1" using ly by (simp add: layout_def)
  have pos: "0 < sec_size cfg" "sec_size cfg < 2 ^ 32" using layout_sec_size [OF ly] by simp_all
  note room = place_room(1) [OF repr pl]
  note full = place_room(2) [OF repr pl]
  have e: "sec_addr sector = s" "store_status sector = sct_store (L ! j)" "empty_kv sector = s + 16 + recs_size (sct_recs (L ! j))"
    "n + 88 < sec_size cfg - 16 - recs_size (sct_recs (L ! j))"
    using pl by (auto simp: place_def s_def n_def kvdb_consts)
  define a where "a = empty_kv sector"
  define f :: "kvdb_sec_info \<Rightarrow> kvdb_sec_info" where "f = (\<lambda>e. e\<lparr>empty_kv := a + n, remain := sub32 (sec_size cfg) (sub32 (a + n) (sec_addr e))\<rparr>) \<circ>
      (\<lambda>e. if sct_store (L ! j) = FDB_SECTOR_STORE_EMPTY then e\<lparr>store_status := FDB_SECTOR_STORE_USING\<rparr> else e)"
  define stab where "stab = sec_tab_upd s f (sector_cache_table db)"
  have far: "a \<noteq> FDB_DATA_UNUSED"
    using room by (simp add: room_for_def a_def FAILED_ADDR_def FDB_DATA_UNUSED_def)
  obtain ktab where kt: "update_kv_cache key a db = db\<lparr>kv_cache_table := ktab\<rparr>"
    "after_update (kv_cache_table db) ktab (key_crc key) (Some a)"
    using update_kv_cache_map [OF tab, of key a] far by auto
  have kt': "update_kv_cache key a (db\<lparr>sector_cache_table := t\<rparr>) = db\<lparr>kv_cache_table := ktab, sector_cache_table := t\<rparr>" for t
  proof -
    have "update_kv_cache key a (db\<lparr>sector_cache_table := t\<rparr>) = (update_kv_cache key a db)\<lparr>sector_cache_table := t\<rparr>"
      by (simp add: update_kv_cache_def Let_def split: prod.splits)
    then show ?thesis by (simp add: kt(1))
  qed
  have "create_caches cfg sector key val db = db\<lparr>kv_cache_table := ktab, sector_cache_table := stab\<rparr>"
    using full e(1,2)
    by (simp add: create_caches_def sec_status_caches_def record_caches_def n_def [symmetric] a_def [symmetric] store_cache_tab
      empty_cache_tab sec_tab_upd_twice kt' stab_def f_def comp_def)
  then have create: "create_kv_blob cfg sector key value len db = Some (FDB_NO_ERR, sector,
        db\<lparr>flash := performed (create_ops sector key val) (flash db), kv_cache_table := ktab, sector_cache_table := stab\<rparr>)"
    using create_kv_blob_eq [OF room _ val] key(1) full by (simp add: FDB_KV_NAME_MAX_def n_def)
  have sub: "sub32 (a + n) s = 16 + recs_size (sct_recs (L ! j)) + n"
    "sub32 (sec_size cfg) (16 + recs_size (sct_recs (L ! j)) + n) = sec_size cfg - (16 + recs_size (sct_recs (L ! j)) + n)"
    using e pos sect_at_bounds [OF sec] by (simp_all add: a_def s_def [symmetric] sub32_le)
  have info: "info_of cfg s (with_record (L ! j) key val) (f e)" if "info_of cfg s (L ! j) e" for e
    using that sub e(3) repr_sect_at [OF repr j]
    by (auto simp: info_of_def f_def with_record_def a_def n_def rec_size_def sect_at_def wf_sect_def)
  have "sec_cache_ok cfg (L[j := with_record (L ! j) key val]) stab"
    unfolding stab_def s_def by (rule sec_cache_change [OF ca j b pos(1)]) (use info in \<open>simp add: s_def\<close>)
  moreover have "layout cfg (L[j := with_record (L ! j) key val]) (replay (create_ops sector key val) (cells (flash db)))"
  proof (rule layout_change [OF ly j])
    show "wf_sect cfg (with_record (L ! j) key val)"
      by (rule with_record_wf [OF _ pl key]) (use sec in \<open>simp add: sect_at_def\<close>)
    show "length (replay (create_ops sector key val) (cells (flash db))) = length (cells (flash db))"
      by (rule length_replay [OF create_ops_fits [OF room]])
    show "stored (replay (create_ops sector key val) (cells (flash db))) (j * sec_size cfg) (sect_bytes cfg (with_record (L ! j) key val))"
      by (rule with_record_stored [OF repr pl])
    show "replay (create_ops sector key val) (cells (flash db)) ! i = cells (flash db) ! i"
      if "i < length (cells (flash db))" "i < j * sec_size cfg \<or> j * sec_size cfg + sec_size cfg \<le> i" for i
      by (rule replay_spares [OF create_ops_fits [OF room] create_ops_spares])
        (use that e pos in \<open>auto simp: s_def n_def\<close>)
  qed
  ultimately have "repr cfg (L[j := with_record (L ! j) key val])
        (db\<lparr>flash := performed (create_ops sector key val) (flash db), kv_cache_table := ktab, sector_cache_table := stab\<rparr>)"
    using old by (simp add: repr_def)
  with create kt(2) show ?thesis unfolding a_def by blast
qed

section \<open>Changing the status of a record\<close>

definition dirtied :: "nat \<Rightarrow> nat" where
  "dirtied d = (if d = FDB_SECTOR_DIRTY_FALSE then FDB_SECTOR_DIRTY_TRUE else d)"

definition with_status :: "kv_sect \<Rightarrow> kv_rec list \<Rightarrow> kv_rec \<Rightarrow> kv_rec list \<Rightarrow> kv_sect" where
  "with_status S pre r post = S\<lparr>sct_dirty := dirtied (sct_dirty S), sct_recs := pre @ r # post\<rparr>"

lemma rec_sector:
  assumes sec: "sect_at cfg db s S" and recs: "sct_recs S = pre @ (st, key, val) # post" and a: "a = s + 16 + recs_size pre"
  shows "FDB_ALIGN_DOWN a (sec_size cfg) = s" "a + kv_size key val \<le> s + sec_size cfg"
    "dirty_ops cfg a (cells (flash db)) =
       (if sct_dirty S = FDB_SECTOR_DIRTY_FALSE then [Program (s + 1) [status_byte FDB_SECTOR_DIRTY_TRUE]] else [])"
proof -
  note bounds = sect_at_bounds [OF sec]
  have sz: "recs_size pre + kv_size key val \<le> recs_size (sct_recs S)" by (simp add: recs rec_size_def)
  show al: "FDB_ALIGN_DOWN a (sec_size cfg) = s"
    by (rule align_down_sector) (use sec a sz bounds(3) in \<open>simp_all add: sect_at_def\<close>)
  show "a + kv_size key val \<le> s + sec_size cfg" using a sz bounds(3) by simp
  have m: "cells (flash db) ! (s + 1) = status_byte (sct_dirty S)"
    using sec by (simp add: sect_at_def sect_bytes_def sect_hdr_def stored_Cons)
  have "fdb_get_status [status_byte (sct_dirty S)] FDB_SECTOR_DIRTY_STATUS_NUM = sct_dirty S"
    by (rule get_status_byte) (use sec in \<open>auto simp: sect_at_def wf_sect_def kvdb_consts\<close>)
  then show "dirty_ops cfg a (cells (flash db)) =
       (if sct_dirty S = FDB_SECTOR_DIRTY_FALSE then [Program (s + 1) [status_byte FDB_SECTOR_DIRTY_TRUE]] else [])"
    unfolding dirty_ops_def al Let_def m by simp
qed

lemma with_status_stored:
  assumes sec: "sect_at cfg db s S" and recs: "sct_recs S = pre @ (st, key, val) # post" and a: "a = s + 16 + recs_size pre"
    and st: "st \<le> st'"
  shows "stored (replay (del_ops cfg a st' (cells (flash db))) (cells (flash db))) s (sect_bytes cfg (with_status S pre (st', key, val) post))"
    and "list_all (op_fits (length (cells (flash db)))) (del_ops cfg a st' (cells (flash db)))"
    and "i \<noteq> a \<Longrightarrow> i \<noteq> s + 1 \<Longrightarrow> list_all (op_spares i) (del_ops cfg a st' (cells (flash db)))"
proof -
  define m where "m = cells (flash db)"
  note bounds = sect_at_bounds [OF sec, folded m_def]
  note rec = rec_sector [OF sec recs a, folded m_def]
  have sz: "recs_size (sct_recs S) = recs_size pre + kv_size key val + recs_size post" by (simp add: recs rec_size_def)
  have st0: "stored m s (sect_bytes cfg S)" using sec by (simp add: sect_at_def m_def)
  have parts: "stored m s (sect_hdr (sct_store S) (sct_dirty S))" "stored m (s + 16) (enc_recs pre)" "stored m a (kv_record st key val)"
    "stored m (a + kv_size key val) (enc_recs post @ replicate (sec_size cfg - 16 - recs_size (sct_recs S)) 0xFF)"
    using st0 by (simp_all add: sect_bytes_def recs stored_append enc_rec_def rec_size_def a add.assoc)
  have am: "a < length m" "s + 1 < length m" "s + 1 < a" using rec(2) bounds(1,3) by (simp_all add: kv_size_def a)
  show fits: "list_all (op_fits (length (cells (flash db)))) (del_ops cfg a st' (cells (flash db)))"
    using am unfolding m_def [symmetric] by (simp add: del_ops_def rec(3))
  show spares: "list_all (op_spares i) (del_ops cfg a st' (cells (flash db)))" if "i \<noteq> a" "i \<noteq> s + 1" for i
    using that unfolding m_def [symmetric] by (auto simp: del_ops_def rec(3))
  define m1 where "m1 = nor_program m a [status_byte st']"
  define m2 where "m2 = replay (dirty_ops cfg a m) m1"
  have l1: "length m1 = length m" using am by (simp add: m1_def)
  have l2: "length m2 = length m" using am l1 by (simp add: m2_def rec(3))
  have same2: "stored m2 b xs" if "stored m1 b xs" "s + 2 \<le> b" for b xs
    using that am l1 by (auto simp: m2_def rec(3) intro: stored_program_other)
  have keep: "stored m2 b xs" if "stored m b xs" "s + 2 \<le> b" "b + length xs \<le> a \<or> a < b" for b xs
    using that am by (intro same2) (auto simp: m1_def intro: stored_program_other)
  have "stored m2 a (kv_record st' key val)"
    using status_step_done [OF parts(3) st] am by (intro same2) (simp_all add: m1_def)
  moreover have "stored m2 (s + 16) (enc_recs pre)" using parts(2) by (rule keep) (simp_all add: a)
  moreover have "stored m2 (a + kv_size key val) (enc_recs post @ replicate (sec_size cfg - 16 - recs_size (sct_recs S)) 0xFF)"
    using parts(4) by (rule keep) (simp_all add: a kv_size_def)
  moreover have "stored m2 s (sect_hdr (sct_store S) (dirtied (sct_dirty S)))"
  proof -
    have h: "m ! s = status_byte (sct_store S)" "m ! (s + 1) = status_byte (sct_dirty S)"
      "stored m (s + 2) (drop 2 (sect_hdr (sct_store S) (sct_dirty S)))"
      using parts(1) by (simp_all add: sect_hdr_def stored_Cons)
    have "stored m2 (s + 2) (drop 2 (sect_hdr (sct_store S) (sct_dirty S)))" using h(3) by (rule keep) (simp_all add: a)
    moreover have "m2 ! s = status_byte (sct_store S)" "m2 ! (s + 1) = status_byte (dirtied (sct_dirty S))"
      using h(1,2) am l1
      by (auto simp: m2_def rec(3) m1_def nth_nor_program dirtied_def and_status_byte FDB_SECTOR_DIRTY_FALSE_def
        FDB_SECTOR_DIRTY_TRUE_def numeral_2_eq_2)
    ultimately show ?thesis using am l2 by (simp add: sect_hdr_def stored_Cons)
  qed
  ultimately have "stored m2 s (sect_bytes cfg (with_status S pre (st', key, val) post))"
    using sz by (simp add: sect_bytes_def with_status_def stored_append enc_rec_def rec_size_def a add.assoc)
  then show "stored (replay (del_ops cfg a st' (cells (flash db))) (cells (flash db))) s (sect_bytes cfg (with_status S pre (st', key, val) post))"
    by (simp add: del_ops_def m2_def m1_def m_def)
qed

lemma status_repr:
  assumes repr: "repr cfg L db" and j: "j < length L" and recs: "sct_recs (L ! j) = pre @ (st, key, val) # post"
    and a: "a = j * sec_size cfg + 16 + recs_size pre" and st: "st \<le> st'" "st' \<in> {FDB_KV_WRITE, FDB_KV_PRE_DELETE, FDB_KV_DELETED}"
  shows "repr cfg (L[j := with_status (L ! j) pre (st', key, val) post])
    ((dirty_caches cfg a (cells (flash db)) db)\<lparr>flash := performed (del_ops cfg a st' (cells (flash db))) (flash db)\<rparr>)"
proof -
  have ly: "layout cfg L (cells (flash db))" and ca: "sec_cache_ok cfg L (sector_cache_table db)"
    and old: "oldest_addr db mod sec_size cfg = 0" "oldest_addr db < max_size cfg"
    using repr by (simp_all add: repr_def)
  note sec = repr_sect_at [OF repr j]
  have b: "length L * sec_size cfg < 2 ^ 32 - 1" using ly by (simp add: layout_def)
  have pos: "0 < sec_size cfg" using layout_sec_size [OF ly] by simp
  note rec = rec_sector [OF sec recs a]
  note chg = with_status_stored [OF sec recs a st(1)]
  have wf: "wf_sect cfg (L ! j)" using sec by (simp add: sect_at_def)
  have wf': "wf_sect cfg (with_status (L ! j) pre (st', key, val) post)"
    using wf st(2) by (auto simp: wf_sect_def with_status_def recs wf_rec_def rec_size_def dirtied_def)
  have "sec_cache_ok cfg (L[j := with_status (L ! j) pre (st', key, val) post])
      (sec_tab_upd (j * sec_size cfg) (\<lambda>e. if dirty_ops cfg a (cells (flash db)) = [] then e else e\<lparr>dirty_status := FDB_SECTOR_DIRTY_TRUE\<rparr>)
        (sector_cache_table db))"
    by (rule sec_cache_change [OF ca j b pos]) (auto simp: info_of_def with_status_def rec(3) dirtied_def recs rec_size_def)
  then have "sec_cache_ok cfg (L[j := with_status (L ! j) pre (st', key, val) post])
      (sector_cache_table (dirty_caches cfg a (cells (flash db)) db))"
    by (cases "dirty_ops cfg a (cells (flash db)) = []") (simp_all add: dirty_cache_tab rec(1))
  moreover have "layout cfg (L[j := with_status (L ! j) pre (st', key, val) post])
      (replay (del_ops cfg a st' (cells (flash db))) (cells (flash db)))"
  proof (rule layout_change [OF ly j wf'])
    show "length (replay (del_ops cfg a st' (cells (flash db))) (cells (flash db))) = length (cells (flash db))"
      by (rule length_replay [OF chg(2)])
    show "stored (replay (del_ops cfg a st' (cells (flash db))) (cells (flash db))) (j * sec_size cfg)
        (sect_bytes cfg (with_status (L ! j) pre (st', key, val) post))"
      by (rule chg(1))
    show "replay (del_ops cfg a st' (cells (flash db))) (cells (flash db)) ! i = cells (flash db) ! i"
      if "i < length (cells (flash db))" "i < j * sec_size cfg \<or> j * sec_size cfg + sec_size cfg \<le> i" for i
      by (rule replay_spares [OF chg(2) chg(3)])
        (use that a rec(2) sect_at_bounds(3) [OF sec] in \<open>auto simp: kv_size_def\<close>)
  qed
  ultimately show ?thesis using old by (simp add: repr_def dirty_cache_tab)
qed

end
