(* ===== verification/Fdb_Kvdb_Map.thy ===== *)
theory Fdb_Kvdb_Map
  imports Fdb_Kvdb_Change
begin

text \<open>
  The key-value database as a map from keys to values: what \<open>fdb_kv_get_blob\<close>, \<open>fdb_kv_set_blob\<close> and \<open>fdb_kv_del\<close> do
  to the records that are visible.
\<close>

section \<open>The records and their addresses\<close>

definition addr_of :: "fdb_cfg \<Rightarrow> kv_sect list \<Rightarrow> nat \<Rightarrow> nat \<Rightarrow> nat" where
  "addr_of cfg L i k = i * sec_size cfg + 16 + recs_size (take k (sct_recs (L ! i)))"

definition rec_at :: "fdb_cfg \<Rightarrow> kv_sect list \<Rightarrow> nat \<Rightarrow> kv_rec \<Rightarrow> bool" where
  "rec_at cfg L a r \<longleftrightarrow> (\<exists>i < length L. \<exists>k < length (sct_recs (L ! i)). sct_recs (L ! i) ! k = r \<and> a = addr_of cfg L i k)"

lemma rec_atI:
  "i < length L \<Longrightarrow> k < length (sct_recs (L ! i)) \<Longrightarrow> sct_recs (L ! i) ! k = r \<Longrightarrow> a = addr_of cfg L i k \<Longrightarrow> rec_at cfg L a r"
  by (auto simp: rec_at_def)

lemma visible_rec_at: "visible cfg L key a v \<longleftrightarrow> rec_at cfg L a (FDB_KV_WRITE, key, v)"
proof
  assume "visible cfg L key a v"
  then obtain i pre post where "i < length L" "sct_recs (L ! i) = pre @ (FDB_KV_WRITE, key, v) # post"
    "a = i * sec_size cfg + 16 + recs_size pre"
    by (auto simp: visible_def)
  then show "rec_at cfg L a (FDB_KV_WRITE, key, v)"
    by (intro rec_atI [of i _ "length pre"]) (simp_all add: addr_of_def)
next
  assume "rec_at cfg L a (FDB_KV_WRITE, key, v)"
  then obtain i k where i: "i < length L" "k < length (sct_recs (L ! i))" "sct_recs (L ! i) ! k = (FDB_KV_WRITE, key, v)"
    "a = addr_of cfg L i k"
    by (auto simp: rec_at_def)
  then show "visible cfg L key a v"
    unfolding visible_def addr_of_def using id_take_nth_drop [OF i(2)]
    by (intro exI [of _ i] exI [of _ "take k (sct_recs (L ! i))"] exI [of _ "drop (Suc k) (sct_recs (L ! i))"] conjI) simp_all
qed

lemma recs_size_take_less: "k < k' \<Longrightarrow> k < length rs \<Longrightarrow> recs_size (take k rs) < recs_size (take k' rs)"
proof (induction rs arbitrary: k k')
  case Nil
  then show ?case by simp
next
  case (Cons r rs)
  have "0 < rec_size r" by (simp add: rec_size_def kv_size_def split: prod.splits)
  then show ?case using Cons by (cases k; cases k') simp_all
qed

lemma recs_size_take_le: "recs_size (take k rs) \<le> recs_size rs"
  by (metis append_take_drop_id le_add1 recs_size_simps(3))

lemma addr_bounds:
  assumes ly: "layout cfg L m" and i: "i < length L" and k: "k < length (sct_recs (L ! i))"
  shows "i * sec_size cfg + 16 \<le> addr_of cfg L i k" "addr_of cfg L i k + rec_size (sct_recs (L ! i) ! k) + 88 < i * sec_size cfg + sec_size cfg"
proof -
  show "i * sec_size cfg + 16 \<le> addr_of cfg L i k" by (simp add: addr_of_def)
  have "16 + recs_size (sct_recs (L ! i)) + 88 < sec_size cfg" using ly i by (simp add: layout_def wf_sect_def kvdb_consts)
  moreover have "recs_size (take k (sct_recs (L ! i))) + rec_size (sct_recs (L ! i) ! k) \<le> recs_size (sct_recs (L ! i))"
    using recs_size_take_le [of "Suc k" "sct_recs (L ! i)"] k by (simp add: take_Suc_conv_app_nth)
  ultimately show "addr_of cfg L i k + rec_size (sct_recs (L ! i) ! k) + 88 < i * sec_size cfg + sec_size cfg"
    by (simp add: addr_of_def)
qed

lemma addr_inj:
  assumes ly: "layout cfg L m" and i: "i < length L" "k < length (sct_recs (L ! i))" and i': "i' < length L" "k' < length (sct_recs (L ! i'))"
    and eq: "addr_of cfg L i k = addr_of cfg L i' k'"
  shows "i = i'" "k = k'"
proof -
  note b = addr_bounds [OF ly i] addr_bounds [OF ly i']
  have "addr_of cfg L i k div sec_size cfg = i" using b(1,2) by (intro div_nat_eqI) (simp_all add: mult.commute)
  moreover have "addr_of cfg L i' k' div sec_size cfg = i'" using b(3,4) by (intro div_nat_eqI) (simp_all add: mult.commute)
  ultimately show ii: "i = i'" using eq by simp
  then have "recs_size (take k (sct_recs (L ! i))) = recs_size (take k' (sct_recs (L ! i)))" using eq by (simp add: addr_of_def)
  then show "k = k'"
    using recs_size_take_less [of k k' "sct_recs (L ! i)"] recs_size_take_less [of k' k "sct_recs (L ! i)"] i i' ii
    by (metis less_irrefl linorder_neqE_nat)
qed

lemma rec_at_inj: "layout cfg L m \<Longrightarrow> rec_at cfg L a r \<Longrightarrow> rec_at cfg L a r' \<Longrightarrow> r = r'"
  unfolding rec_at_def using addr_inj by metis

text \<open>The records after one of them has changed its status.\<close>

lemma rec_at_status:
  assumes ly: "layout cfg L m" and j: "j < length L" and k0: "k0 < length (sct_recs (L ! j))" and sz: "rec_size r0 = rec_size (sct_recs (L ! j) ! k0)"
    and S: "sct_recs S = (sct_recs (L ! j))[k0 := r0]"
  shows "rec_at cfg (L[j := S]) a r \<longleftrightarrow> (if a = addr_of cfg L j k0 then r = r0 else rec_at cfg L a r)"
proof -
  have sizes: "map rec_size ((sct_recs (L ! j))[k0 := r0]) = map rec_size (sct_recs (L ! j))"
    by (rule nth_equalityI) (use k0 sz in \<open>auto simp: nth_list_update\<close>)
  have same: "addr_of cfg (L[j := S]) i k = addr_of cfg L i k" for i k
  proof (cases "i = j")
    case True
    then show ?thesis using j S arg_cong [OF sizes, of "\<lambda>xs. sum_list (take k xs)"] by (simp add: addr_of_def recs_size_def take_map)
  next
    case False
    then show ?thesis by (simp add: addr_of_def)
  qed
  have nth: "length (sct_recs (L[j := S] ! i)) = length (sct_recs (L ! i))"
    "sct_recs (L[j := S] ! i) ! k = (if i = j \<and> k = k0 then r0 else sct_recs (L ! i) ! k)" if "i < length L" for i k
    using that S j k0 by (cases "i = j"; auto simp: nth_list_update)+
  show ?thesis
  proof
    assume "rec_at cfg (L[j := S]) a r"
    then obtain i k where i: "i < length L" "k < length (sct_recs (L ! i))" "a = addr_of cfg L i k"
      "r = (if i = j \<and> k = k0 then r0 else sct_recs (L ! i) ! k)"
      by (auto simp: rec_at_def same nth)
    then show "if a = addr_of cfg L j k0 then r = r0 else rec_at cfg L a r"
      using addr_inj [OF ly i(1,2) j k0] by (auto simp: rec_at_def split: if_splits)
  next
    assume r: "if a = addr_of cfg L j k0 then r = r0 else rec_at cfg L a r"
    show "rec_at cfg (L[j := S]) a r"
    proof (cases "a = addr_of cfg L j k0")
      case True
      then show ?thesis using r j k0 by (intro rec_atI [of j _ k0]) (simp_all add: same S)
    next
      case False
      then obtain i k where i: "i < length L" "k < length (sct_recs (L ! i))" "a = addr_of cfg L i k" "sct_recs (L ! i) ! k = r"
        using r by (auto simp: rec_at_def)
      then show ?thesis using False by (intro rec_atI [of i _ k]) (auto simp: same nth)
    qed
  qed
qed

text \<open>The records after one has been appended to a sector.\<close>

lemma rec_at_create:
  assumes j: "j < length L" and S: "sct_recs S = sct_recs (L ! j) @ [r0]"
  shows "rec_at cfg (L[j := S]) a r \<longleftrightarrow> rec_at cfg L a r \<or> a = j * sec_size cfg + 16 + recs_size (sct_recs (L ! j)) \<and> r = r0"
proof -
  have old: "k < length (sct_recs (L ! i)) \<Longrightarrow> k < length (sct_recs (L[j := S] ! i)) \<and> sct_recs (L[j := S] ! i) ! k = sct_recs (L ! i) ! k
      \<and> addr_of cfg (L[j := S]) i k = addr_of cfg L i k" if "i < length L" for i k
    using that S j by (cases "i = j") (simp_all add: addr_of_def nth_append)
  have new: "length (sct_recs (L ! j)) < length (sct_recs (L[j := S] ! j))" "sct_recs (L[j := S] ! j) ! length (sct_recs (L ! j)) = r0"
    "addr_of cfg (L[j := S]) j (length (sct_recs (L ! j))) = j * sec_size cfg + 16 + recs_size (sct_recs (L ! j))"
    using S j by (simp_all add: addr_of_def)
  show ?thesis
  proof
    assume "rec_at cfg (L[j := S]) a r"
    then obtain i k where i: "i < length L" "k < length (sct_recs (L[j := S] ! i))" "sct_recs (L[j := S] ! i) ! k = r"
      "a = addr_of cfg (L[j := S]) i k"
      by (auto simp: rec_at_def)
    show "rec_at cfg L a r \<or> a = j * sec_size cfg + 16 + recs_size (sct_recs (L ! j)) \<and> r = r0"
    proof (cases "k < length (sct_recs (L ! i))")
      case True
      then show ?thesis using i old [OF i(1) True] by (auto simp: rec_at_def)
    next
      case False
      then have "i = j" "k = length (sct_recs (L ! j))" using i(1,2) S j by (auto simp: nth_list_update split: if_splits)
      then show ?thesis using i new by simp
    qed
  next
    assume "rec_at cfg L a r \<or> a = j * sec_size cfg + 16 + recs_size (sct_recs (L ! j)) \<and> r = r0"
    then show "rec_at cfg (L[j := S]) a r"
    proof
      assume "rec_at cfg L a r"
      then obtain i k where i: "i < length L" "k < length (sct_recs (L ! i))" "sct_recs (L ! i) ! k = r" "a = addr_of cfg L i k"
        by (auto simp: rec_at_def)
      then show ?thesis
        using old [OF i(1,2)] by (intro rec_atI [of i _ k]) simp_all
    next
      assume "a = j * sec_size cfg + 16 + recs_size (sct_recs (L ! j)) \<and> r = r0"
      then show ?thesis
        using new j by (intro rec_atI [of j _ "length (sct_recs (L ! j))"]) simp_all
    qed
  qed
qed

section \<open>The contents\<close>

definition live :: "kv_sect list \<Rightarrow> (bytes \<times> bytes) list" where
  "live L = map snd (filter (\<lambda>r. fst r = FDB_KV_WRITE) (concat (map sct_recs L)))"

definition contents :: "kv_sect list \<Rightarrow> bytes \<rightharpoonup> bytes" where
  "contents L = map_of (live L)"

definition uniq :: "fdb_cfg \<Rightarrow> kv_sect list \<Rightarrow> bool" where
  "uniq cfg L \<longleftrightarrow> (\<forall>k a v a' v'. visible cfg L k a v \<and> visible cfg L k a' v' \<longrightarrow> a = a')"

lemma live_visible: "(k, v) \<in> set (live L) \<longleftrightarrow> (\<exists>a. visible cfg L k a v)"
proof -
  have "(k, v) \<in> set (live L) \<longleftrightarrow> (\<exists>S \<in> set L. (FDB_KV_WRITE, k, v) \<in> set (sct_recs S))"
    by (force simp: live_def)
  also have "\<dots> \<longleftrightarrow> (\<exists>a. visible cfg L k a v)"
    unfolding visible_rec_at rec_at_def by (metis in_set_conv_nth)
  finally show ?thesis .
qed

lemma contents_visible:
  assumes "layout cfg L m" and "uniq cfg L"
  shows "contents L k = Some v \<longleftrightarrow> (\<exists>a. visible cfg L k a v)"
proof
  assume "contents L k = Some v"
  then show "\<exists>a. visible cfg L k a v" unfolding contents_def by (metis map_of_SomeD live_visible)
next
  assume "\<exists>a. visible cfg L k a v"
  then obtain a where a: "visible cfg L k a v" ..
  then have "k \<in> fst ` set (live L)" using live_visible [of k v L cfg] by force
  then obtain v' where v': "contents L k = Some v'" by (auto simp: contents_def dest: weak_map_of_SomeI)
  then obtain a' where a': "visible cfg L k a' v'" unfolding contents_def by (metis map_of_SomeD live_visible)
  then have "a' = a" using a assms(2) by (metis uniq_def)
  then have "v' = v" using a a' rec_at_inj [OF assms(1)] unfolding visible_rec_at by blast
  with v' show "contents L k = Some v" by simp
qed

lemma contents_none:
  assumes "layout cfg L m" and "uniq cfg L"
  shows "contents L k = None \<longleftrightarrow> (\<forall>a v. \<not> visible cfg L k a v)"
  using contents_visible [OF assms] by (metis not_Some_eq)

section \<open>The invariant\<close>

text \<open>
  The address cache compares only a 16-bit checksum and a prefix of the stored bytes, so keys are taken from a set \<open>K\<close> on
  which the checksum is injective.
\<close>

definition key_set :: "bytes set \<Rightarrow> bool" where
  "key_set K \<longleftrightarrow> inj_on key_crc K \<and> (\<forall>k \<in> K. length k < FDB_KV_NAME_MAX \<and> 0 \<notin> set k)"

definition cache_sound :: "fdb_cfg \<Rightarrow> kv_sect list \<Rightarrow> u16 set \<Rightarrow> kv_cache_node list \<Rightarrow> bool" where
  "cache_sound cfg L X tab \<longleftrightarrow>
     kv_tab_ok tab \<and> (\<forall>crc a. crc \<notin> X \<and> cache_map tab crc = Some a \<longrightarrow> (\<exists>k v. visible cfg L k a v \<and> key_crc k = crc))"

definition kv_state :: "bytes set \<Rightarrow> u16 set \<Rightarrow> fdb_cfg \<Rightarrow> kv_sect list \<Rightarrow> fdb_kvdb \<Rightarrow> bool" where
  "kv_state K X cfg L db \<longleftrightarrow>
     repr cfg L db \<and> cache_sound cfg L X (kv_cache_table db) \<and> uniq cfg L \<and> key_set K \<and> (\<forall>k a v. visible cfg L k a v \<longrightarrow> k \<in> K)"

text \<open>No replacement is half-way.\<close>

definition settled :: "fdb_cfg \<Rightarrow> kv_sect list \<Rightarrow> bool" where
  "settled cfg L \<longleftrightarrow> (\<forall>a k v. \<not> rec_at cfg L a (FDB_KV_PRE_DELETE, k, v))"

definition kv_inv :: "bytes set \<Rightarrow> fdb_cfg \<Rightarrow> kv_sect list \<Rightarrow> fdb_kvdb \<Rightarrow> bool" where
  "kv_inv K cfg L db \<longleftrightarrow>
     kv_state K {} cfg L db \<and> settled cfg L \<and> db_init_ok db \<and> \<not> gc_request db \<and> \<not> last_is_complete_del db \<and> length (kv_name (cur_kv db)) = FDB_KV_NAME_MAX"

lemma kv_state_layout: "kv_state K X cfg L db \<Longrightarrow> layout cfg L (cells (flash db))"
  by (simp add: kv_state_def repr_def)

lemma visible_stored:
  assumes repr: "repr cfg L db" and vis: "visible cfg L key a v"
  shows "stored (cells (flash db)) a (kv_record FDB_KV_WRITE key v)" "a + 88 \<le> length (cells (flash db))" "length key < 64" "0 \<notin> set key"
    "length (kv_name kv) = 64 \<Longrightarrow>
       read_kv cfg (kv\<lparr>addr_start := a\<rparr>) db = Some (FDB_NO_ERR, kv_of_record (kv\<lparr>addr_start := a\<rparr>) FDB_KV_WRITE key v, db)"
    "a \<noteq> FDB_DATA_UNUSED"
proof -
  obtain i pre post where i: "i < length L" and recs: "sct_recs (L ! i) = pre @ (FDB_KV_WRITE, key, v) # post"
    and a: "a = i * sec_size cfg + 16 + recs_size pre"
    using vis by (auto simp: visible_def)
  note sec = repr_sect_at [OF repr i]
  have wf: "wf_sect cfg (L ! i)" using sec by (simp add: sect_at_def)
  show "stored (cells (flash db)) a (kv_record FDB_KV_WRITE key v)"
    using stored_rec [of "cells (flash db)" "i * sec_size cfg" cfg "L ! i", OF _ recs] sec by (simp add: sect_at_def enc_rec_def a)
  show "a + 88 \<le> length (cells (flash db))" "a \<noteq> FDB_DATA_UNUSED"
    using sect_at_bounds [OF sec] by (simp_all add: a recs FDB_DATA_UNUSED_def)
  show "length key < 64" "0 \<notin> set key" using wf_rec_split [OF wf recs] by simp_all
  show "read_kv cfg (kv\<lparr>addr_start := a\<rparr>) db = Some (FDB_NO_ERR, kv_of_record (kv\<lparr>addr_start := a\<rparr>) FDB_KV_WRITE key v, db)"
    if "length (kv_name kv) = 64"
    by (rule read_kv_layout [OF sec recs]) (use that in \<open>simp_all add: a\<close>)
qed

section \<open>Finding a key\<close>

lemma saved_name_hit:
  assumes repr: "repr cfg L db" and vis: "visible cfg L key a v"
  shows "strncmp_eq (key @ [0]) (read_saved_name db a) (length key) = Some True"
proof -
  define m where "m = cells (flash db)"
  note st = visible_stored(1,2,3,4) [OF repr vis, folded m_def]
  have name: "read_saved_name db a = take 64 (drop (a + 24) m)"
    using st(2) by (simp add: read_saved_name_def fdb_flash_read_def mem_read_def m_def FDB_KV_NAME_MAX_def KV_HDR_DATA_SIZE_def)
  have "stored m (a + 24) key" using st(1) by (simp add: kv_record_split)
  then have "take (length key) (drop (a + 24) m) = key" by (simp add: stored_def)
  then have "take (length key) (take 64 (drop (a + 24) m)) = key" using st(3) by (simp add: min_def)
  then have "read_saved_name db a = key @ drop (length key) (take 64 (drop (a + 24) m))"
    unfolding name by (metis append_take_drop_id)
  then show ?thesis using strncmp_eq_iff [OF refl st(4)] by simp
qed

lemma kv_is_of_record:
  assumes "length (kv_name kv) = 64" and "length key < 64"
  shows "kv_is (kv_of_record (kv\<lparr>addr_start := a\<rparr>) FDB_KV_WRITE key v) key a v"
  using kv_name_prefix [of "kv\<lparr>addr_start := a\<rparr>" key FDB_KV_WRITE v] assms by (simp add: kv_is_def)

lemma after_update_sound:
  assumes "cache_sound cfg L X tab" and "after_update tab tab' crc (Some a)" and "visible cfg L k a v" and "key_crc k = crc"
  shows "cache_sound cfg L (X - {crc}) tab'"
proof -
  have "\<exists>k v. visible cfg L k b v \<and> key_crc k = c" if c: "c \<notin> X - {crc}" "cache_map tab' c = Some b" for c b
  proof (cases "c = crc")
    case True
    then show ?thesis using assms(2-4) c by (auto simp: after_update_def)
  next
    case False
    then have "cache_map tab' c \<in> {cache_map tab c, None}" using assms(2) by (simp add: after_update_def)
    then show ?thesis using assms(1) c False by (auto simp: cache_sound_def)
  qed
  then show ?thesis using assms(2) by (auto simp: cache_sound_def after_update_def)
qed

lemma find_kv_state:
  assumes inv: "kv_state K {} cfg L db" and key: "key \<in> K" and kv: "length (kv_name kv) = 64"
  shows "\<exists>found kv' ktab stab. find_kv cfg key kv db = Some (found, kv', db\<lparr>kv_cache_table := ktab, sector_cache_table := stab\<rparr>)
    \<and> kv_state K {} cfg L (db\<lparr>kv_cache_table := ktab, sector_cache_table := stab\<rparr>) \<and> length (kv_name kv') = 64
    \<and> (if found then \<exists>a v. visible cfg L key a v \<and> kv_is kv' key a v else \<forall>a v. \<not> visible cfg L key a v)"
proof (cases "cache_map (kv_cache_table db) (key_crc key)")
  case (Some a)
  have repr: "repr cfg L db" and tab: "kv_tab_ok (kv_cache_table db)" using inv by (simp_all add: kv_state_def cache_sound_def)
  obtain k v where k: "visible cfg L k a v" "key_crc k = key_crc key"
    using inv Some unfolding kv_state_def cache_sound_def by blast
  then have "k = key" using inv key unfolding kv_state_def key_set_def inj_on_def by blast
  with k have vis: "visible cfg L key a v" by simp
  obtain ktab where get: "get_kv_from_cache key db = Some (Some a, db\<lparr>kv_cache_table := ktab\<rparr>)"
    and ktab: "kv_tab_ok ktab" "cache_map ktab = cache_map (kv_cache_table db)"
    using get_kv_from_cache_map(3) [OF tab Some saved_name_hit [OF repr vis]] by blast
  have repr': "repr cfg L (db\<lparr>kv_cache_table := ktab\<rparr>)" using repr by (simp add: repr_def)
  define kv' where "kv' = kv_of_record (kv\<lparr>addr_start := a\<rparr>) FDB_KV_WRITE key v"
  have "find_kv cfg key kv db = Some (True, kv', db\<lparr>kv_cache_table := ktab, sector_cache_table := sector_cache_table db\<rparr>)"
    using get visible_stored(5) [OF repr' vis kv] by (simp add: find_kv_def kv'_def)
  moreover have "length (kv_name kv') = 64"
    unfolding kv'_def by (rule kv_name_of_record) (use kv visible_stored(3) [OF repr vis] in simp_all)
  moreover have "kv_is kv' key a v" unfolding kv'_def by (rule kv_is_of_record [OF kv visible_stored(3) [OF repr vis]])
  moreover have "kv_state K {} cfg L (db\<lparr>kv_cache_table := ktab, sector_cache_table := sector_cache_table db\<rparr>)"
    using inv ktab by (simp add: kv_state_def cache_sound_def repr_def)
  ultimately show ?thesis using vis by (intro exI [of _ True] exI [of _ kv'] exI [of _ ktab] exI [of _ "sector_cache_table db"]) auto
next
  case None
  have repr: "repr cfg L db" and tab: "kv_tab_ok (kv_cache_table db)" using inv by (simp_all add: kv_state_def cache_sound_def)
  have get: "get_kv_from_cache key db = Some (None, db)" by (rule get_kv_from_cache_map(1) [OF tab None])
  obtain found kv' stab where find: "find_kv_no_cache cfg key kv db = Some (found, kv', db\<lparr>sector_cache_table := stab\<rparr>)"
    and stab: "sec_cache_ok cfg L stab" and kv': "length (kv_name kv') = 64"
    and r: "if found then \<exists>a v. visible cfg L key a v \<and> kv_is kv' key a v else \<forall>a v. \<not> visible cfg L key a v"
    using find_kv_no_cache_repr [OF repr kv, of key] by blast
  show ?thesis
  proof (cases found)
    case False
    have "find_kv cfg key kv db = Some (False, kv', db\<lparr>kv_cache_table := kv_cache_table db, sector_cache_table := stab\<rparr>)"
      using get find False by (simp add: find_kv_def)
    moreover have "kv_state K {} cfg L (db\<lparr>kv_cache_table := kv_cache_table db, sector_cache_table := stab\<rparr>)"
      using inv stab by (simp add: kv_state_def repr_def)
    ultimately show ?thesis
      using kv' r False by (intro exI [of _ False] exI [of _ kv'] exI [of _ "kv_cache_table db"] exI [of _ stab]) simp
  next
    case True
    with r obtain a v where vis: "visible cfg L key a v" and kvis: "kv_is kv' key a v" by auto
    have a: "addr_start kv' = a" using kvis by (simp add: kv_is_def)
    have tab': "kv_tab_ok (kv_cache_table (db\<lparr>sector_cache_table := stab\<rparr>))" using tab by simp
    obtain ktab where upd: "update_kv_cache key a (db\<lparr>sector_cache_table := stab\<rparr>) = db\<lparr>sector_cache_table := stab, kv_cache_table := ktab\<rparr>"
      and after: "after_update (kv_cache_table db) ktab (key_crc key) (Some a)"
      using update_kv_cache_map [OF tab', of key a] visible_stored(6) [OF repr vis] by auto
    have "find_kv cfg key kv db = Some (True, kv', db\<lparr>kv_cache_table := ktab, sector_cache_table := stab\<rparr>)"
      using get find True upd by (simp add: find_kv_def a)
    moreover have "kv_state K {} cfg L (db\<lparr>kv_cache_table := ktab, sector_cache_table := stab\<rparr>)"
      using inv stab after_update_sound [OF _ after vis refl, of "{}"] by (auto simp: kv_state_def repr_def)
    ultimately show ?thesis
      using kv' vis kvis by (intro exI [of _ True] exI [of _ kv'] exI [of _ ktab] exI [of _ stab]) auto
  qed
qed

section \<open>Reading a value\<close>

lemma get_kv_state:
  assumes inv: "kv_state K {} cfg L db" and key: "key \<in> K" and kv: "length (kv_name kv) = 64" and n: "n \<le> length buf"
  shows "\<exists>ktab stab. get_kv cfg kv key (Some buf) n db =
      (case contents L key of
         None \<Rightarrow> Some (0, Some buf, 0, db\<lparr>kv_cache_table := ktab, sector_cache_table := stab\<rparr>)
       | Some v \<Rightarrow> Some (min n (length v), Some (patch_at buf 0 (take n v)), length v,
                      db\<lparr>kv_cache_table := ktab, sector_cache_table := stab\<rparr>))
    \<and> kv_state K {} cfg L (db\<lparr>kv_cache_table := ktab, sector_cache_table := stab\<rparr>)"
proof -
  obtain found kv' ktab stab where find: "find_kv cfg key kv db = Some (found, kv', db\<lparr>kv_cache_table := ktab, sector_cache_table := stab\<rparr>)"
    and st: "kv_state K {} cfg L (db\<lparr>kv_cache_table := ktab, sector_cache_table := stab\<rparr>)"
    and r: "if found then \<exists>a v. visible cfg L key a v \<and> kv_is kv' key a v else \<forall>a v. \<not> visible cfg L key a v"
    using find_kv_state [OF inv key kv] by blast
  have repr: "repr cfg L db" and u: "uniq cfg L" using inv by (simp_all add: kv_state_def)
  note ly = kv_state_layout [OF inv]
  show ?thesis
  proof (cases found)
    case False
    then have "contents L key = None" using r contents_none [OF ly u] by simp
    then show ?thesis using find False st by (intro exI [of _ ktab] exI [of _ stab]) (simp add: get_kv_def)
  next
    case True
    with r obtain a v where vis: "visible cfg L key a v" and kvis: "kv_is kv' key a v" by auto
    have c: "contents L key = Some v" using vis contents_visible [OF ly u] by blast
    have f: "value_len kv' = length v" "addr_value kv' = a + 24 + length key" using kvis by (simp_all add: kv_is_def)
    have "stored (cells (flash db)) (a + 24 + length key) v" using visible_stored(1) [OF repr vis] by (simp add: kv_record_split)
    then have "stored (cells (flash db)) (a + 24 + length key) (take n v)"
      by (metis append_take_drop_id stored_append)
    then have rd: "fdb_flash_read (flash db) (a + 24 + length key) (min n (length v)) = Some (take n v)"
      by (rule stored_read) (simp add: min.commute)
    have "get_kv cfg kv key (Some buf) n db = Some (min n (length v), Some (patch_at buf 0 (take n v)), length v,
        db\<lparr>kv_cache_table := ktab, sector_cache_table := stab\<rparr>)"
      using find True rd n f by (cases "length v < n") (simp_all add: get_kv_def Let_def mem_write_def min_def)
    then show ?thesis using st c by (intro exI [of _ ktab] exI [of _ stab]) simp
  qed
qed

section \<open>Changing the contents\<close>

lemma contents_replace:
  assumes ly: "layout cfg L m" "layout cfg L' m'" and u: "uniq cfg L"
    and vis: "\<And>k b w. visible cfg L' k b w \<longleftrightarrow> k \<noteq> key \<and> visible cfg L k b w \<or> k = key \<and> b = a \<and> w = val"
  shows "uniq cfg L'" "contents L' = (contents L)(key \<mapsto> val)"
proof -
  show u': "uniq cfg L'" using u unfolding uniq_def vis by blast
  show "contents L' = (contents L)(key \<mapsto> val)"
  proof
    fix k
    show "contents L' k = ((contents L)(key \<mapsto> val)) k"
    proof (cases "k = key")
      case True
      then show ?thesis using contents_visible [OF ly(2) u', of key val] vis by auto
    next
      case False
      then have "contents L' k = Some w \<longleftrightarrow> contents L k = Some w" for w
        unfolding contents_visible [OF ly(2) u'] contents_visible [OF ly(1) u] by (simp add: vis)
      then show ?thesis using False by (cases "contents L k"; cases "contents L' k") auto
    qed
  qed
qed

lemma contents_remove:
  assumes ly: "layout cfg L m" "layout cfg L' m'" and u: "uniq cfg L"
    and vis: "\<And>k b w. visible cfg L' k b w \<longleftrightarrow> k \<noteq> key \<and> visible cfg L k b w"
  shows "uniq cfg L'" "contents L' = (contents L)(key := None)"
proof -
  show u': "uniq cfg L'" using u unfolding uniq_def vis by blast
  show "contents L' = (contents L)(key := None)"
  proof
    fix k
    have "contents L' k = Some w \<longleftrightarrow> k \<noteq> key \<and> contents L k = Some w" for w
      unfolding contents_visible [OF ly(2) u'] contents_visible [OF ly(1) u] by (simp add: vis)
    then show "contents L' k = ((contents L)(key := None)) k" by (cases "contents L k"; cases "contents L' k") auto
  qed
qed

text \<open>How much the sectors may have changed: at most \<open>c\<close> bytes of records more in each, and no garbage collection.\<close>

definition grows :: "kv_sect list \<Rightarrow> kv_sect list \<Rightarrow> nat \<Rightarrow> bool" where
  "grows L L' c \<longleftrightarrow>
     length L' = length L
     \<and> (\<forall>i < length L. (sct_store (L ! i) = FDB_SECTOR_STORE_USING \<longrightarrow> sct_store (L' ! i) = FDB_SECTOR_STORE_USING)
          \<and> recs_size (sct_recs (L' ! i)) \<le> recs_size (sct_recs (L ! i)) + c
          \<and> (sct_dirty (L' ! i) = FDB_SECTOR_DIRTY_GC \<longrightarrow> sct_dirty (L ! i) = FDB_SECTOR_DIRTY_GC))"

lemma grows_refl [simp]: "grows L L 0"
  by (simp add: grows_def)

lemma grows_trans:
  assumes "grows L1 L2 c" and "grows L2 L3 d"
  shows "grows L1 L3 (c + d)"
proof -
  have "recs_size (sct_recs (L3 ! i)) \<le> recs_size (sct_recs (L1 ! i)) + (c + d)" if "i < length L1" for i
  proof -
    have "recs_size (sct_recs (L2 ! i)) \<le> recs_size (sct_recs (L1 ! i)) + c" using assms(1) that by (simp add: grows_def)
    moreover have "recs_size (sct_recs (L3 ! i)) \<le> recs_size (sct_recs (L2 ! i)) + d" using assms that by (simp add: grows_def)
    ultimately show ?thesis by simp
  qed
  then show ?thesis using assms by (simp add: grows_def)
qed

text \<open>Changing the status of a record, seen from the records.\<close>

lemma status_rec_at:
  assumes repr: "repr cfg L db" and r: "rec_at cfg L a (st, key, v)" and st: "st \<le> st'" "st' \<in> {FDB_KV_WRITE, FDB_KV_PRE_DELETE, FDB_KV_DELETED}"
  obtains L' where "repr cfg L' ((dirty_caches cfg a (cells (flash db)) db)\<lparr>flash := performed (del_ops cfg a st' (cells (flash db))) (flash db)\<rparr>)"
    and "\<And>b r. rec_at cfg L' b r \<longleftrightarrow> (if b = a then r = (st', key, v) else rec_at cfg L b r)"
    and "\<And>n j e. place cfg L n j e \<Longrightarrow> place cfg L' n j e"
    and "grows L L' 0" and "a < length (cells (flash db))" and "FDB_ALIGN_DOWN a (sec_size cfg) + 1 < a"
proof -
  obtain j k where j: "j < length L" and k: "k < length (sct_recs (L ! j))" and rk: "sct_recs (L ! j) ! k = (st, key, v)"
    and a: "a = addr_of cfg L j k"
    using r by (auto simp: rec_at_def)
  define pre where "pre = take k (sct_recs (L ! j))"
  define post where "post = drop (Suc k) (sct_recs (L ! j))"
  have recs: "sct_recs (L ! j) = pre @ (st, key, v) # post" using id_take_nth_drop [OF k] rk by (simp add: pre_def post_def)
  have a': "a = j * sec_size cfg + 16 + recs_size pre" by (simp add: a addr_of_def pre_def)
  define S where "S = with_status (L ! j) pre (st', key, v) post"
  have Srecs: "sct_recs S = (sct_recs (L ! j))[k := (st', key, v)]"
    using k by (simp add: S_def with_status_def pre_def post_def upd_conv_take_nth_drop)
  have ly: "layout cfg L (cells (flash db))" using repr by (simp add: repr_def)
  have "rec_at cfg (L[j := S]) b r \<longleftrightarrow> (if b = a then r = (st', key, v) else rec_at cfg L b r)" for b r
    unfolding a by (rule rec_at_status [OF ly j k _ Srecs]) (simp add: rk rec_size_def)
  moreover have "place cfg (L[j := S]) n i e" if "place cfg L n i e" for n i e
    using that j by (cases "i = j") (auto simp: place_def S_def with_status_def recs rec_size_def)
  moreover have "grows L (L[j := S]) 0"
    using j by (auto simp: grows_def nth_list_update S_def with_status_def recs rec_size_def dirtied_def kvdb_consts)
  moreover have "repr cfg (L[j := S]) ((dirty_caches cfg a (cells (flash db)) db)\<lparr>flash := performed (del_ops cfg a st' (cells (flash db))) (flash db)\<rparr>)"
    unfolding S_def by (rule status_repr [OF repr j recs a' st])
  moreover note rec = rec_sector [OF repr_sect_at [OF repr j] recs a']
  moreover have "a < length (cells (flash db))"
    using rec(2) sect_at_bounds(1) [OF repr_sect_at [OF repr j]] by (simp add: kv_size_def)
  moreover have "FDB_ALIGN_DOWN a (sec_size cfg) + 1 < a" using rec(1) a' by simp
  ultimately show thesis using that by blast
qed

lemma new_kv_ex_repr:
  assumes repr: "repr cfg L db" and gc: "\<not> gc_request db" and room: "has_room cfg L False (kv_size key val)"
  shows "\<exists>e stab j. new_kv_ex cfg sector (length key) (length val) db = Some (empty_kv e, e, db\<lparr>sector_cache_table := stab\<rparr>)
    \<and> sec_cache_ok cfg L stab \<and> place cfg L (kv_size key val) j e \<and> empty_kv e \<noteq> FAILED_ADDR"
proof -
  have ly: "layout cfg L (cells (flash db))" using repr by (simp add: repr_def)
  have "kv_size key val + 88 < sec_size cfg"
    using room by (auto simp: has_room_def some_usable_def usable_def kvdb_consts)
  with layout_sec_size(2) [OF ly] have n: "kv_size key val + FDB_SEC_REMAIN_THRESHOLD < 2 ^ 32" by (simp add: kvdb_consts)
  have sz: "add32 KV_HDR_DATA_SIZE (add32 (FDB_WG_ALIGN (length key)) (FDB_WG_ALIGN (length val))) = kv_size key val"
    using n by (simp add: add32_def kv_size_def kvdb_consts)
  obtain e stab j where "alloc_kv cfg sector (kv_size key val) db = Some (empty_kv e, e, db\<lparr>sector_cache_table := stab\<rparr>)"
    and tab: "sec_cache_ok cfg L stab" and pl: "place cfg L (kv_size key val) j e"
    using alloc_kv_repr [OF repr n, of sector] gc room by auto
  moreover have "empty_kv e \<noteq> FAILED_ADDR" using place_room(1) [OF repr pl] by (simp add: room_for_def)
  ultimately show ?thesis unfolding new_kv_ex_def sz new_kv_def by auto
qed

section \<open>Setting and deleting a key\<close>

lemma kv_state_fields [simp]:
  "kv_state K X cfg L (db\<lparr>cur_sector := e\<rparr>) = kv_state K X cfg L db"
  "kv_state K X cfg L (db\<lparr>cur_kv := kv\<rparr>) = kv_state K X cfg L db"
  "kv_state K X cfg L (db\<lparr>last_is_complete_del := b\<rparr>) = kv_state K X cfg L db"
  by (simp_all add: kv_state_def repr_def)

text \<open>The first deletion step of a visible record: it is no longer visible, and only the cache entry of its key is stale.\<close>

lemma pre_del_state:
  assumes st: "kv_state K {} cfg L db" and vis: "visible cfg L key a v" and kv: "addr_start kv = a"
  obtains L1 stab where "del_found_kv cfg (Some key) kv False db = Some (FDB_NO_ERR,
        db\<lparr>flash := performed (del_ops cfg a FDB_KV_PRE_DELETE (cells (flash db))) (flash db), sector_cache_table := stab,
           last_is_complete_del := True\<rparr>)"
    and "kv_state K {key_crc key} cfg L1 (db\<lparr>flash := performed (del_ops cfg a FDB_KV_PRE_DELETE (cells (flash db))) (flash db),
           sector_cache_table := stab\<rparr>)"
    and "\<And>b r. rec_at cfg L1 b r \<longleftrightarrow> (if b = a then r = (FDB_KV_PRE_DELETE, key, v) else rec_at cfg L b r)"
    and "\<And>n j e. place cfg L n j e \<Longrightarrow> place cfg L1 n j e" and "grows L L1 0"
proof -
  have repr: "repr cfg L db" and sound: "cache_sound cfg L {} (kv_cache_table db)" and u: "uniq cfg L"
    using st by (simp_all add: kv_state_def)
  note ly = kv_state_layout [OF st]
  have r: "rec_at cfg L a (FDB_KV_WRITE, key, v)" using vis by (simp add: visible_rec_at)
  have le: "FDB_KV_WRITE \<le> FDB_KV_PRE_DELETE" by (simp add: kvdb_consts)
  define stab where "stab = sector_cache_table (dirty_caches cfg a (cells (flash db)) db)"
  define f where "f = performed (del_ops cfg a FDB_KV_PRE_DELETE (cells (flash db))) (flash db)"
  have dc: "dirty_caches cfg a (cells (flash db)) db = db\<lparr>sector_cache_table := stab\<rparr>" by (simp add: stab_def dirty_cache_tab)
  obtain L1 where repr0: "repr cfg L1 ((dirty_caches cfg a (cells (flash db)) db)\<lparr>flash := f\<rparr>)"
    and rec1: "\<And>b r. rec_at cfg L1 b r \<longleftrightarrow> (if b = a then r = (FDB_KV_PRE_DELETE, key, v) else rec_at cfg L b r)"
    and pl: "\<And>n j e. place cfg L n j e \<Longrightarrow> place cfg L1 n j e" and grows: "grows L L1 0"
    and a: "a < length (cells (flash db))" "FDB_ALIGN_DOWN a (sec_size cfg) + 1 < a"
    unfolding f_def by (rule status_rec_at [OF repr r le]) simp_all
  have repr1: "repr cfg L1 (db\<lparr>flash := f, sector_cache_table := stab\<rparr>)" using repr0 by (simp add: dc repr_def)
  have del: "del_found_kv cfg (Some key) kv False db = Some (FDB_NO_ERR, db\<lparr>flash := f, sector_cache_table := stab, last_is_complete_del := True\<rparr>)"
    using pre_del_eq [of kv db cfg "Some key"] a kv by (simp add: dc f_def)
  have vis1: "visible cfg L1 k b w \<longleftrightarrow> visible cfg L k b w \<and> b \<noteq> a" for k b w
    by (auto simp: visible_rec_at rec1 kvdb_consts)
  have "\<exists>k w. visible cfg L1 k b w \<and> key_crc k = c" if c: "c \<noteq> key_crc key" "cache_map (kv_cache_table db) c = Some b" for c b
  proof -
    obtain k w where k: "visible cfg L k b w" "key_crc k = c" using sound c(2) unfolding cache_sound_def by blast
    then have "b \<noteq> a" using c(1) r rec_at_inj [OF ly] unfolding visible_rec_at by blast
    then show ?thesis using k vis1 by blast
  qed
  then have "cache_sound cfg L1 {key_crc key} (kv_cache_table db)" using sound by (auto simp: cache_sound_def)
  moreover have "uniq cfg L1" using u unfolding uniq_def vis1 by blast
  ultimately have "kv_state K {key_crc key} cfg L1 (db\<lparr>flash := f, sector_cache_table := stab\<rparr>)"
    using st repr1 unfolding kv_state_def vis1 by simp blast
  from that [OF del [unfolded f_def] this [unfolded f_def] rec1 pl grows] show thesis .
qed

text \<open>Creating the record of a key that has no visible record.\<close>

lemma create_state:
  assumes st: "kv_state K X cfg L db" and pl: "place cfg L (kv_size key val) j e" and key: "key \<in> K"
    and X: "X \<subseteq> {key_crc key}" and no: "\<And>a v. \<not> visible cfg L key a v" and val: "mem_read value 0 len = Some val"
  obtains L' ktab stab where "create_kv_blob cfg e key value len db = Some (FDB_NO_ERR, e,
        db\<lparr>flash := performed (create_ops e key val) (flash db), kv_cache_table := ktab, sector_cache_table := stab\<rparr>)"
    and "kv_state K {} cfg L' (db\<lparr>flash := performed (create_ops e key val) (flash db), kv_cache_table := ktab, sector_cache_table := stab\<rparr>)"
    and "\<And>b r. rec_at cfg L' b r \<longleftrightarrow> rec_at cfg L b r \<or> b = empty_kv e \<and> r = (FDB_KV_WRITE, key, val)"
    and "grows L L' (kv_size key val)" and "j < length L" and "sct_store (L' ! j) = FDB_SECTOR_STORE_USING"
proof -
  have repr: "repr cfg L db" and sound: "cache_sound cfg L X (kv_cache_table db)" and u: "uniq cfg L"
    and tab: "kv_tab_ok (kv_cache_table db)" and K: "length key < 64" "0 \<notin> set key"
    using st key by (auto simp: kv_state_def cache_sound_def key_set_def kvdb_consts)
  define f where "f = performed (create_ops e key val) (flash db)"
  define L' where "L' = L[j := with_record (L ! j) key val]"
  obtain stab ktab where cr: "create_kv_blob cfg e key value len db =
        Some (FDB_NO_ERR, e, db\<lparr>flash := f, kv_cache_table := ktab, sector_cache_table := stab\<rparr>)"
    and repr': "repr cfg L' (db\<lparr>flash := f, kv_cache_table := ktab, sector_cache_table := stab\<rparr>)"
    and after: "after_update (kv_cache_table db) ktab (key_crc key) (Some (empty_kv e))"
    using create_kv_blob_repr [OF repr pl K val tab] unfolding f_def L'_def by blast
  have j: "j < length L" "empty_kv e = j * sec_size cfg + 16 + recs_size (sct_recs (L ! j))" using pl by (simp_all add: place_def)
  have rec: "rec_at cfg L' b r \<longleftrightarrow> rec_at cfg L b r \<or> b = empty_kv e \<and> r = (FDB_KV_WRITE, key, val)" for b r
    unfolding L'_def j(2) by (rule rec_at_create [OF j(1)]) (simp add: with_record_def)
  have vis: "visible cfg L' k b w \<longleftrightarrow> visible cfg L k b w \<or> k = key \<and> b = empty_kv e \<and> w = val" for k b w
    by (auto simp: visible_rec_at rec)
  have "cache_sound cfg L' X (kv_cache_table db)" using sound unfolding cache_sound_def vis by blast
  then have "cache_sound cfg L' (X - {key_crc key}) ktab"
    by (rule after_update_sound [OF _ after _ refl, where v = val]) (simp add: vis)
  moreover have "X - {key_crc key} = {}" using X by blast
  moreover have "uniq cfg L'" using u no unfolding uniq_def vis by blast
  ultimately have "kv_state K {} cfg L' (db\<lparr>flash := f, kv_cache_table := ktab, sector_cache_table := stab\<rparr>)"
    using st repr' key unfolding kv_state_def vis by simp
  moreover have "grows L L' (kv_size key val)" "sct_store (L' ! j) = FDB_SECTOR_STORE_USING"
    using j(1) by (auto simp: grows_def L'_def nth_list_update with_record_def rec_size_def)
  ultimately show thesis using that cr rec j(1) unfolding f_def by blast
qed

text \<open>The last deletion step, of a record that is visible or was made invisible before.\<close>

lemma complete_del_state:
  assumes st: "kv_state K {} cfg L db" and r: "rec_at cfg L a (s, key, v)" and s: "s \<in> {FDB_KV_WRITE, FDB_KV_PRE_DELETE}"
    and kv: "addr_start kv = a" and last: "last_is_complete_del db \<longleftrightarrow> s = FDB_KV_PRE_DELETE"
  obtains L' ktab stab where "del_found_kv cfg (Some key) kv True db = Some (FDB_NO_ERR,
        db\<lparr>flash := performed (del_ops cfg a FDB_KV_DELETED (cells (flash db))) (flash db), kv_cache_table := ktab,
           sector_cache_table := stab, last_is_complete_del := False\<rparr>)"
    and "kv_state K {} cfg L' (db\<lparr>flash := performed (del_ops cfg a FDB_KV_DELETED (cells (flash db))) (flash db), kv_cache_table := ktab,
           sector_cache_table := stab\<rparr>)"
    and "\<And>b r. rec_at cfg L' b r \<longleftrightarrow> (if b = a then r = (FDB_KV_DELETED, key, v) else rec_at cfg L b r)" and "grows L L' 0"
proof -
  have repr: "repr cfg L db" and sound: "cache_sound cfg L {} (kv_cache_table db)" and u: "uniq cfg L"
    and tab: "kv_tab_ok (kv_cache_table db)"
    using st by (simp_all add: kv_state_def cache_sound_def)
  note ly = kv_state_layout [OF st]
  have le: "s \<le> FDB_KV_DELETED" using s by (auto simp: kvdb_consts)
  define stab where "stab = sector_cache_table (dirty_caches cfg a (cells (flash db)) db)"
  define f where "f = performed (del_ops cfg a FDB_KV_DELETED (cells (flash db))) (flash db)"
  obtain ktab where kt: "(if last_is_complete_del db then db else update_kv_cache key FDB_DATA_UNUSED db) = db\<lparr>kv_cache_table := ktab\<rparr>"
    and after: "if last_is_complete_del db then ktab = kv_cache_table db else after_update (kv_cache_table db) ktab (key_crc key) None"
    using update_kv_cache_map [OF tab, of key FDB_DATA_UNUSED] by (cases "last_is_complete_del db") auto
  have dc: "dirty_caches cfg a (cells (flash db)) db = db\<lparr>sector_cache_table := stab\<rparr>"
    "dirty_caches cfg a (cells (flash db)) (db\<lparr>kv_cache_table := ktab\<rparr>) = db\<lparr>kv_cache_table := ktab, sector_cache_table := stab\<rparr>"
    by (simp_all add: stab_def dirty_cache_tab)
  obtain L' where repr0: "repr cfg L' ((dirty_caches cfg a (cells (flash db)) db)\<lparr>flash := f\<rparr>)"
    and rec: "\<And>b r. rec_at cfg L' b r \<longleftrightarrow> (if b = a then r = (FDB_KV_DELETED, key, v) else rec_at cfg L b r)" and grows: "grows L L' 0"
    and a: "a < length (cells (flash db))" "FDB_ALIGN_DOWN a (sec_size cfg) + 1 < a"
    unfolding f_def by (rule status_rec_at [OF repr r le]) simp_all
  have repr': "repr cfg L' (db\<lparr>flash := f, kv_cache_table := ktab, sector_cache_table := stab\<rparr>)" using repr0 by (simp add: dc repr_def)
  have del: "del_found_kv cfg (Some key) kv True db =
      Some (FDB_NO_ERR, db\<lparr>flash := f, kv_cache_table := ktab, sector_cache_table := stab, last_is_complete_del := False\<rparr>)"
    using complete_del_eq [of kv db cfg _ key, OF _ _ kt [symmetric]] a kv by (simp add: dc f_def)
  have vis: "visible cfg L' k b w \<longleftrightarrow> visible cfg L k b w \<and> b \<noteq> a" for k b w
    by (auto simp: visible_rec_at rec kvdb_consts)
  have "cache_sound cfg L' {} ktab"
  proof -
    have "\<exists>k w. visible cfg L' k b w \<and> key_crc k = c" if c: "cache_map ktab c = Some b" for c b
    proof -
      have cb: "cache_map (kv_cache_table db) c = Some b \<and> (s = FDB_KV_WRITE \<longrightarrow> c \<noteq> key_crc key)"
      proof (cases "last_is_complete_del db")
        case True
        then show ?thesis using after c last by (simp add: kvdb_consts)
      next
        case False
        then have af: "after_update (kv_cache_table db) ktab (key_crc key) None" using after by simp
        then have "c \<noteq> key_crc key" using c by (auto simp: after_update_def)
        then show ?thesis using af c by (fastforce simp: after_update_def)
      qed
      obtain k w where k: "visible cfg L k b w" "key_crc k = c" using sound cb unfolding cache_sound_def by blast
      have "b \<noteq> a"
      proof
        assume "b = a"
        then have "(s, key, v) = (FDB_KV_WRITE, k, w)" using r k(1) rec_at_inj [OF ly] unfolding visible_rec_at by blast
        then show False using cb k(2) by simp
      qed
      then show ?thesis using k vis by blast
    qed
    moreover have "kv_tab_ok ktab" using after tab by (auto simp: after_update_def split: if_splits)
    ultimately show ?thesis by (simp add: cache_sound_def)
  qed
  moreover have "uniq cfg L'" using u unfolding uniq_def vis by blast
  ultimately have "kv_state K {} cfg L' (db\<lparr>flash := f, kv_cache_table := ktab, sector_cache_table := stab\<rparr>)"
    using st repr' unfolding kv_state_def vis by simp blast
  from that [OF del [unfolded f_def] this [unfolded f_def] rec grows] show thesis .
qed

lemma only_one:
  assumes "layout cfg L m" and "uniq cfg L" and "visible cfg L key a v" and "visible cfg L k b w"
  shows "b = a \<longleftrightarrow> k = key"
  using assms(2-4) rec_at_inj [OF assms(1), of a] unfolding uniq_def visible_rec_at by blast

text \<open>Setting a key for which there is room.  When the key exists, these are the flash operations.\<close>

definition replace_ops :: "fdb_cfg \<Rightarrow> nat \<Rightarrow> kvdb_sec_info \<Rightarrow> bytes \<Rightarrow> bytes \<Rightarrow> bytes \<Rightarrow> flash_op list" where
  "replace_ops cfg a e key val m =
     (let pre = del_ops cfg a FDB_KV_PRE_DELETE m @ create_ops e key val
      in pre @ del_ops cfg a FDB_KV_DELETED (replay pre m))"

lemma set_kv_state:
  assumes inv: "kv_inv K cfg L db" and key: "key \<in> K" and val: "mem_read value 0 len = Some val"
    and room: "has_room cfg L False (kv_size key val)"
  shows "\<exists>L' db'. set_kv cfg key (Some value) len db = Some (FDB_NO_ERR, db') \<and> kv_inv K cfg L' db'
    \<and> contents L' = (contents L)(key \<mapsto> val) \<and> grows L L' (kv_size key val)
    \<and> (\<exists>j < length L'. sct_store (L' ! j) = FDB_SECTOR_STORE_USING)
    \<and> (\<forall>a v. visible cfg L key a v \<longrightarrow> (\<exists>j e. place cfg L (kv_size key val) j e
          \<and> flash db' = performed (replace_ops cfg a e key val (cells (flash db))) (flash db)))"
proof -
  have st: "kv_state K {} cfg L db" and flags: "db_init_ok db" "\<not> gc_request db" "\<not> last_is_complete_del db"
    and name: "length (kv_name (cur_kv db)) = 64" and settled: "settled cfg L"
    using inv by (simp_all add: kv_inv_def kvdb_consts)
  have repr: "repr cfg L db" and u: "uniq cfg L" using st by (simp_all add: kv_state_def)
  note ly = kv_state_layout [OF st]
  have len: "length val = len" using val by (auto simp: mem_read_def split: if_splits)
  obtain e t0 j where new: "new_kv_ex cfg (cur_sector db) (length key) len db = Some (empty_kv e, e, db\<lparr>sector_cache_table := t0\<rparr>)"
    and t0: "sec_cache_ok cfg L t0" and pl: "place cfg L (kv_size key val) j e" and ok: "empty_kv e \<noteq> FAILED_ADDR"
    using new_kv_ex_repr [OF repr flags(2) room] len by blast
  define db1 where "db1 = db\<lparr>sector_cache_table := t0, cur_sector := e\<rparr>"
  have st1: "kv_state K {} cfg L db1" using st t0 by (simp add: db1_def kv_state_def repr_def)
  have name1: "length (kv_name (cur_kv db1)) = 64" using name by (simp add: db1_def)
  obtain found kv ktab stab where find: "find_kv cfg key (cur_kv db1) db1 = Some (found, kv, db1\<lparr>kv_cache_table := ktab, sector_cache_table := stab\<rparr>)"
    and st2: "kv_state K {} cfg L (db1\<lparr>kv_cache_table := ktab, sector_cache_table := stab\<rparr>)" and kv: "length (kv_name kv) = 64"
    and r: "if found then \<exists>a v. visible cfg L key a v \<and> kv_is kv key a v else \<forall>a v. \<not> visible cfg L key a v"
    using find_kv_state [OF st1 key name1] by blast
  have find': "find_kv cfg key (cur_kv db) db1 = Some (found, kv, db1\<lparr>kv_cache_table := ktab, sector_cache_table := stab\<rparr>)"
    using find by (simp add: db1_def)
  define db2 where "db2 = db1\<lparr>kv_cache_table := ktab, sector_cache_table := stab, cur_kv := kv\<rparr>"
  have st2: "kv_state K {} cfg L db2" using st2 by (simp add: db2_def)
  have f2: "cur_sector db2 = e" "cur_kv db2 = kv" "\<not> gc_request db2" "db_init_ok db2" "\<not> last_is_complete_del db2"
    using flags by (simp_all add: db2_def db1_def)
  have c1: "cur_sector db1 = e" by (simp add: db1_def)
  have nogc: "set_kv cfg key (Some value) len db = Some (FDB_NO_ERR, db')"
    if "(if found then del_kv cfg (Some key) (Some kv) False db2 else Some (FDB_NO_ERR, db2)) = Some (FDB_NO_ERR, db3)"
      "cur_sector db3 = e" "create_kv_blob cfg e key value len db3 = Some (FDB_NO_ERR, e, db4)"
      "(if found then del_kv cfg (Some key) (Some (cur_kv db4)) True (db4\<lparr>cur_sector := e\<rparr>) else Some (FDB_NO_ERR, db4\<lparr>cur_sector := e\<rparr>)) =
         Some (FDB_NO_ERR, db')" "\<not> gc_request db'" for db3 db4 db'
    using that new ok find' c1
    by (cases found) (simp_all add: set_kv_def db1_def [symmetric] db2_def [symmetric])
  show ?thesis
  proof (cases found)
    case False
    with r have no: "\<not> visible cfg L key a v" for a v by simp
    obtain L' kt' t' where cr: "create_kv_blob cfg e key value len db2 = Some (FDB_NO_ERR, e,
          db2\<lparr>flash := performed (create_ops e key val) (flash db2), kv_cache_table := kt', sector_cache_table := t'\<rparr>)"
      and st4: "kv_state K {} cfg L' (db2\<lparr>flash := performed (create_ops e key val) (flash db2), kv_cache_table := kt', sector_cache_table := t'\<rparr>)"
      and rec: "\<And>b r. rec_at cfg L' b r \<longleftrightarrow> rec_at cfg L b r \<or> b = empty_kv e \<and> r = (FDB_KV_WRITE, key, val)"
      and grows: "grows L L' (kv_size key val)" "j < length L" "sct_store (L' ! j) = FDB_SECTOR_STORE_USING"
      by (rule create_state [OF st2 pl key _ no val]) auto
    let ?db4 = "db2\<lparr>flash := performed (create_ops e key val) (flash db2), kv_cache_table := kt', sector_cache_table := t'\<rparr>"
    have set: "set_kv cfg key (Some value) len db = Some (FDB_NO_ERR, ?db4\<lparr>cur_sector := e\<rparr>)"
      by (rule nogc [of db2 ?db4]) (use False cr f2 in simp_all)
    have "settled cfg L'" using settled by (simp add: settled_def rec kvdb_consts)
    then have inv': "kv_inv K cfg L' (?db4\<lparr>cur_sector := e\<rparr>)" using st4 f2 kv by (simp add: kv_inv_def kvdb_consts)
    have vis: "visible cfg L' k b w \<longleftrightarrow> k \<noteq> key \<and> visible cfg L k b w \<or> k = key \<and> b = empty_kv e \<and> w = val" for k b w
      using no by (auto simp: visible_rec_at rec)
    have "contents L' = (contents L)(key \<mapsto> val)"
      by (rule contents_replace(2) [OF ly kv_state_layout [OF st4] u vis])
    moreover have "j < length L'" using grows by (simp add: grows_def)
    ultimately show ?thesis using set inv' grows no by blast
  next
    case True
    with r obtain a v where old: "visible cfg L key a v" and a: "addr_start kv = a" by (auto simp: kv_is_def)
    obtain L1 t1 where del: "del_found_kv cfg (Some key) kv False db2 = Some (FDB_NO_ERR,
          db2\<lparr>flash := performed (del_ops cfg a FDB_KV_PRE_DELETE (cells (flash db2))) (flash db2), sector_cache_table := t1,
             last_is_complete_del := True\<rparr>)"
      and st3: "kv_state K {key_crc key} cfg L1 (db2\<lparr>flash := performed (del_ops cfg a FDB_KV_PRE_DELETE (cells (flash db2))) (flash db2),
             sector_cache_table := t1\<rparr>)"
      and rec1: "\<And>b r. rec_at cfg L1 b r \<longleftrightarrow> (if b = a then r = (FDB_KV_PRE_DELETE, key, v) else rec_at cfg L b r)"
      and pl1: "\<And>n j e. place cfg L n j e \<Longrightarrow> place cfg L1 n j e" and grows1: "grows L L1 0"
      by (rule pre_del_state [OF st2 old a]) blast
    define db3 where "db3 = db2\<lparr>flash := performed (del_ops cfg a FDB_KV_PRE_DELETE (cells (flash db2))) (flash db2), sector_cache_table := t1,
             last_is_complete_del := True\<rparr>"
    have st3: "kv_state K {key_crc key} cfg L1 db3" using st3 by (simp add: db3_def)
    have "visible cfg L1 k b w \<longleftrightarrow> visible cfg L k b w \<and> b \<noteq> a" for k b w by (auto simp: visible_rec_at rec1 kvdb_consts)
    then have no: "\<not> visible cfg L1 key b w" for b w using only_one [OF ly u old] by blast
    obtain L2 kt' t' where cr: "create_kv_blob cfg e key value len db3 = Some (FDB_NO_ERR, e,
          db3\<lparr>flash := performed (create_ops e key val) (flash db3), kv_cache_table := kt', sector_cache_table := t'\<rparr>)"
      and st4: "kv_state K {} cfg L2 (db3\<lparr>flash := performed (create_ops e key val) (flash db3), kv_cache_table := kt', sector_cache_table := t'\<rparr>)"
      and rec2: "\<And>b r. rec_at cfg L2 b r \<longleftrightarrow> rec_at cfg L1 b r \<or> b = empty_kv e \<and> r = (FDB_KV_WRITE, key, val)"
      and grows2: "grows L1 L2 (kv_size key val)" "j < length L1" "sct_store (L2 ! j) = FDB_SECTOR_STORE_USING"
      by (rule create_state [OF st3 pl1 [OF pl] key _ no val]) auto
    let ?db4 = "db3\<lparr>flash := performed (create_ops e key val) (flash db3), kv_cache_table := kt', sector_cache_table := t'\<rparr>"
    define db4 where "db4 = ?db4\<lparr>cur_sector := e\<rparr>"
    have st4': "kv_state K {} cfg L2 db4" using st4 by (simp add: db4_def)
    have r2: "rec_at cfg L2 a (FDB_KV_PRE_DELETE, key, v)" by (simp add: rec2 rec1)
    have last: "last_is_complete_del db4 \<longleftrightarrow> FDB_KV_PRE_DELETE = FDB_KV_PRE_DELETE" by (simp add: db4_def db3_def)
    obtain L3 kt3 t3 where del2: "del_found_kv cfg (Some key) kv True db4 = Some (FDB_NO_ERR,
          db4\<lparr>flash := performed (del_ops cfg a FDB_KV_DELETED (cells (flash db4))) (flash db4), kv_cache_table := kt3,
             sector_cache_table := t3, last_is_complete_del := False\<rparr>)"
      and st5: "kv_state K {} cfg L3 (db4\<lparr>flash := performed (del_ops cfg a FDB_KV_DELETED (cells (flash db4))) (flash db4),
             kv_cache_table := kt3, sector_cache_table := t3\<rparr>)"
      and rec3: "\<And>b r. rec_at cfg L3 b r \<longleftrightarrow> (if b = a then r = (FDB_KV_DELETED, key, v) else rec_at cfg L2 b r)"
      and grows3: "grows L2 L3 0"
      by (rule complete_del_state [OF st4' r2 _ a last]) auto
    let ?db5 = "db4\<lparr>flash := performed (del_ops cfg a FDB_KV_DELETED (cells (flash db4))) (flash db4), kv_cache_table := kt3,
             sector_cache_table := t3, last_is_complete_del := False\<rparr>"
    have f4: "cur_kv ?db4 = kv" "cur_sector db3 = e" "\<not> gc_request db4" "db_init_ok db4" "cur_kv db4 = kv"
      using f2 by (simp_all add: db4_def db3_def)
    have set: "set_kv cfg key (Some value) len db = Some (FDB_NO_ERR, ?db5)"
      by (rule nogc [of db3 ?db4]) (use True cr f4 del del2 in \<open>simp_all add: del_kv_def db3_def [symmetric] db4_def [symmetric]\<close>)
    have "settled cfg L3" using settled by (auto simp: settled_def rec1 rec2 rec3 kvdb_consts)
    then have inv': "kv_inv K cfg L3 ?db5" using st5 f4 kv by (simp add: kv_inv_def kvdb_consts)
    have "empty_kv e \<noteq> a"
    proof
      assume "empty_kv e = a"
      then have "rec_at cfg L2 a (FDB_KV_WRITE, key, val)" by (simp add: rec2)
      from rec_at_inj [OF kv_state_layout [OF st4'] r2 this] show False by (simp add: kvdb_consts)
    qed
    then have "visible cfg L3 k b w \<longleftrightarrow> visible cfg L k b w \<and> b \<noteq> a \<or> k = key \<and> b = empty_kv e \<and> w = val" for k b w
      by (auto simp: visible_rec_at rec1 rec2 rec3 kvdb_consts)
    then have vis: "visible cfg L3 k b w \<longleftrightarrow> k \<noteq> key \<and> visible cfg L k b w \<or> k = key \<and> b = empty_kv e \<and> w = val" for k b w
      using only_one [OF ly u old] by blast
    have "contents L3 = (contents L)(key \<mapsto> val)"
      by (rule contents_replace(2) [OF ly kv_state_layout [OF st5] u vis])
    moreover have "grows L L3 (kv_size key val)" using grows_trans [OF grows_trans [OF grows1 grows2(1)] grows3] by simp
    moreover have "j < length L3" "sct_store (L3 ! j) = FDB_SECTOR_STORE_USING" using grows2 grows3 by (auto simp: grows_def)
    moreover have "flash ?db5 = performed (replace_ops cfg a e key val (cells (flash db))) (flash db)"
      by (simp add: db4_def db3_def db2_def db1_def replace_ops_def)
    ultimately show ?thesis using set inv' pl only_one [OF ly u old] by blast
  qed
qed

lemma del_kv_state:
  assumes inv: "kv_inv K cfg L db" and key: "key \<in> K"
  shows "\<exists>L' db'. del_kv cfg (Some key) None True db =
      Some (if contents L key = None then FDB_KV_NAME_ERR else FDB_NO_ERR, db') \<and> kv_inv K cfg L' db'
    \<and> contents L' = (contents L)(key := None) \<and> grows L L' 0"
proof -
  have st: "kv_state K {} cfg L db" and flags: "db_init_ok db" "\<not> gc_request db" "\<not> last_is_complete_del db"
    and name: "length (kv_name (cur_kv db)) = 64" and settled: "settled cfg L"
    using inv by (simp_all add: kv_inv_def kvdb_consts)
  have u: "uniq cfg L" using st by (simp_all add: kv_state_def)
  note ly = kv_state_layout [OF st]
  have z: "length (kv_name kv_zero) = 64" by (simp add: kv_zero_def kvdb_consts)
  obtain found kv ktab stab where find: "find_kv cfg key kv_zero db = Some (found, kv, db\<lparr>kv_cache_table := ktab, sector_cache_table := stab\<rparr>)"
    and st2: "kv_state K {} cfg L (db\<lparr>kv_cache_table := ktab, sector_cache_table := stab\<rparr>)"
    and r: "if found then \<exists>a v. visible cfg L key a v \<and> kv_is kv key a v else \<forall>a v. \<not> visible cfg L key a v"
    using find_kv_state [OF st key z] by blast
  define db2 where "db2 = db\<lparr>kv_cache_table := ktab, sector_cache_table := stab\<rparr>"
  note st2 = st2 [folded db2_def] and find = find [folded db2_def]
  have f2: "\<not> gc_request db2" "db_init_ok db2" "\<not> last_is_complete_del db2" "cur_kv db2 = cur_kv db"
    using flags by (simp_all add: db2_def)
  show ?thesis
  proof (cases found)
    case False
    then have c: "contents L key = None" using r contents_none [OF ly u] by simp
    then have "contents L = (contents L)(key := None)" by (simp add: fun_upd_idem)
    moreover have "kv_inv K cfg L db2" using st2 settled f2 name by (simp add: kv_inv_def kvdb_consts)
    ultimately show ?thesis using find False c by (intro exI [of _ L] exI [of _ db2]) (simp add: del_kv_def)
  next
    case True
    with r obtain a v where old: "visible cfg L key a v" and a: "addr_start kv = a" by (auto simp: kv_is_def)
    have rw: "rec_at cfg L a (FDB_KV_WRITE, key, v)" using old by (simp add: visible_rec_at)
    have last: "last_is_complete_del db2 \<longleftrightarrow> FDB_KV_WRITE = FDB_KV_PRE_DELETE" using f2 by (simp add: kvdb_consts)
    obtain L3 kt3 t3 where del: "del_found_kv cfg (Some key) kv True db2 = Some (FDB_NO_ERR,
          db2\<lparr>flash := performed (del_ops cfg a FDB_KV_DELETED (cells (flash db2))) (flash db2), kv_cache_table := kt3,
             sector_cache_table := t3, last_is_complete_del := False\<rparr>)"
      and st5: "kv_state K {} cfg L3 (db2\<lparr>flash := performed (del_ops cfg a FDB_KV_DELETED (cells (flash db2))) (flash db2),
             kv_cache_table := kt3, sector_cache_table := t3\<rparr>)"
      and rec3: "\<And>b r. rec_at cfg L3 b r \<longleftrightarrow> (if b = a then r = (FDB_KV_DELETED, key, v) else rec_at cfg L b r)"
      and grows: "grows L L3 0"
      by (rule complete_del_state [OF st2 rw _ a last]) auto
    let ?db5 = "db2\<lparr>flash := performed (del_ops cfg a FDB_KV_DELETED (cells (flash db2))) (flash db2), kv_cache_table := kt3,
             sector_cache_table := t3, last_is_complete_del := False\<rparr>"
    have "settled cfg L3" using settled by (auto simp: settled_def rec3 kvdb_consts)
    then have inv': "kv_inv K cfg L3 ?db5" using st5 f2 name by (simp add: kv_inv_def kvdb_consts)
    have "visible cfg L3 k b w \<longleftrightarrow> visible cfg L k b w \<and> b \<noteq> a" for k b w by (auto simp: visible_rec_at rec3 kvdb_consts)
    then have vis: "visible cfg L3 k b w \<longleftrightarrow> k \<noteq> key \<and> visible cfg L k b w" for k b w using only_one [OF ly u old] by blast
    have "contents L3 = (contents L)(key := None)"
      by (rule contents_remove(2) [OF ly kv_state_layout [OF st5] u vis])
    moreover have "contents L key \<noteq> None" using old contents_none [OF ly u] by blast
    ultimately show ?thesis using find True del inv' grows by (intro exI [of _ L3] exI [of _ ?db5]) (simp add: del_kv_def)
  qed
qed

end
