(* ===== verification/Fdb_Kvdb_Store.thy ===== *)
theory Fdb_Kvdb_Store
  imports Fdb_Kvdb_Map
begin

text \<open>
  The database as its clients see it: formatting gives an empty map, and every sequence of reads, writes and deletions
  that fits into one sector behaves as on a map.  The interface is a locale, interpreted on the operations of the
  database.
\<close>

unbundle bit_operations_syntax

section \<open>Formatting\<close>

definition blank :: kv_sect where
  "blank = \<lparr>sct_store = FDB_SECTOR_STORE_EMPTY, sct_dirty = FDB_SECTOR_DIRTY_FALSE, sct_recs = []\<rparr>"

definition format_ops :: "fdb_cfg \<Rightarrow> nat \<Rightarrow> flash_op list" where
  "format_ops cfg s = [Erase s (sec_size cfg), Program s (sector_hdr SECTOR_NOT_COMBINED)]"

definition forget :: "nat \<Rightarrow> kvdb_sec_info list \<Rightarrow> kvdb_sec_info list" where
  "forget s tab = sec_tab_upd s (\<lambda>e. e\<lparr>sec_addr := FDB_DATA_UNUSED\<rparr>) tab"

lemma sector_hdr_blank: "sector_hdr SECTOR_NOT_COMBINED = sect_hdr FDB_SECTOR_STORE_EMPTY FDB_SECTOR_DIRTY_FALSE"
  by (simp add: sector_hdr_def sect_hdr_def set_status_byte kvdb_consts FDB_BYTE_ERASED_def FDB_DATA_UNUSED_def numeral_2_eq_2)

lemma format_sector_eq:
  assumes "s mod sec_size cfg = 0" and "16 \<le> sec_size cfg" and "s + sec_size cfg \<le> length (cells (flash db))"
  shows "format_sector cfg s SECTOR_NOT_COMBINED db = Some (FDB_NO_ERR,
      db\<lparr>flash := performed (format_ops cfg s) (flash db), sector_cache_table := forget s (sector_cache_table db)\<rparr>)"
proof -
  have cache: "update_sector_cache (sec_zero\<lparr>sec_addr := s, check_ok := False, empty_kv := FAILED_ADDR\<rparr>) db' =
      db'\<lparr>sector_cache_table := forget s (sector_cache_table db')\<rparr>" for db'
    by (auto simp: update_sector_cache_def Let_def forget_def sec_tab_upd_def split: option.splits list.splits)
  have "sec_size cfg \<noteq> 0" using assms(2) by simp
  then show ?thesis
    using assms
    by (simp add: format_sector_def fdb_flash_erase_def db_flash_write_def fdb_flash_write_def cache format_ops_def performed_def
      replay_def)
qed

lemma format_stored:
  assumes "104 < sec_size cfg" and "s + sec_size cfg \<le> length m"
  shows "stored (replay (format_ops cfg s) m) s (sect_bytes cfg blank)"
    and "list_all (op_fits (length m)) (format_ops cfg s)"
    and "i < s \<or> s + sec_size cfg \<le> i \<Longrightarrow> list_all (op_spares i) (format_ops cfg s)"
proof -
  have "stored (nor_erase m s (sec_size cfg)) s ([] @ replicate (sec_size cfg) 0xFF)"
    using assms by (auto simp: stored_nth nth_nor_erase)
  from stored_fill [OF this, of s "sector_hdr SECTOR_NOT_COMBINED"] assms
  show "stored (replay (format_ops cfg s) m) s (sect_bytes cfg blank)"
    by (simp add: format_ops_def sect_bytes_def blank_def sector_hdr_blank)
  show "list_all (op_fits (length m)) (format_ops cfg s)" using assms by (simp add: format_ops_def)
  show "i < s \<or> s + sec_size cfg \<le> i \<Longrightarrow> list_all (op_spares i) (format_ops cfg s)" using assms(1) by (auto simp: format_ops_def)
qed

lemma blank_wf: "104 < sec_size cfg \<Longrightarrow> wf_sect cfg blank"
  by (simp add: wf_sect_def blank_def kvdb_consts)

text \<open>Formatting all sectors.\<close>

definition format_all_ops :: "fdb_cfg \<Rightarrow> nat list \<Rightarrow> flash_op list" where
  "format_all_ops cfg js = concat (map (\<lambda>j. format_ops cfg (j * sec_size cfg)) js)"

definition forget_all :: "fdb_cfg \<Rightarrow> nat list \<Rightarrow> kvdb_sec_info list \<Rightarrow> kvdb_sec_info list" where
  "forget_all cfg js tab = foldl (\<lambda>t j. forget (j * sec_size cfg) t) tab js"

lemma format_all_eq:
  assumes "max_size cfg = n * sec_size cfg" and "length (cells (flash db)) = max_size cfg" and "104 < sec_size cfg" and "i \<le> n"
  shows "format_all cfg (i * sec_size cfg) db = Some (FDB_NO_ERR,
      db\<lparr>flash := performed (format_all_ops cfg [i..<n]) (flash db), sector_cache_table := forget_all cfg [i..<n] (sector_cache_table db)\<rparr>)"
  using assms
proof (induction "n - i" arbitrary: i db)
  case 0
  then show ?case by (subst format_all.simps) (simp add: format_all_ops_def forget_all_def)
next
  case (Suc k)
  have i: "i < n" "k = n - Suc i" using Suc.hyps(2) by simp_all
  define s where "s = i * sec_size cfg"
  have fits: "s + sec_size cfg \<le> length (cells (flash db))" using sector_end [OF i(1), of "sec_size cfg"] Suc.prems by (simp add: s_def)
  define db1 where "db1 = db\<lparr>flash := performed (format_ops cfg s) (flash db), sector_cache_table := forget s (sector_cache_table db)\<rparr>"
  have f: "format_sector cfg s SECTOR_NOT_COMBINED db = Some (FDB_NO_ERR, db1)"
    unfolding db1_def by (rule format_sector_eq) (use Suc.prems fits in \<open>simp_all add: s_def\<close>)
  have l: "length (cells (flash db1)) = max_size cfg"
    using length_replay [OF format_stored(2) [OF Suc.prems(3) fits]] Suc.prems(2) by (simp add: db1_def)
  have "s < max_size cfg" using i(1) Suc.prems(1,3) by (simp add: s_def)
  then have "format_all cfg s db = format_all cfg (Suc i * sec_size cfg) db1"
    using f Suc.prems(3) by (subst format_all.simps) (simp add: s_def add.commute)
  also have "\<dots> = Some (FDB_NO_ERR, db1\<lparr>flash := performed (format_all_ops cfg [Suc i..<n]) (flash db1),
      sector_cache_table := forget_all cfg [Suc i..<n] (sector_cache_table db1)\<rparr>)"
    by (rule Suc.hyps(1)) (use i Suc.prems l in simp_all)
  finally show ?case
    using i(1) by (simp add: s_def db1_def format_all_ops_def forget_all_def upt_conv_Cons)
qed

lemma format_all_ops_fits:
  assumes "length m = n * sec_size cfg" and "104 < sec_size cfg" and "\<forall>j \<in> set js. j < n"
  shows "list_all (op_fits (length m)) (format_all_ops cfg js)"
proof -
  have "list_all (op_fits (length m)) (format_ops cfg (j * sec_size cfg))" if "j < n" for j
    using sector_end [OF that, of "sec_size cfg"] assms(1,2) by (simp add: format_ops_def)
  then show ?thesis using assms(3) unfolding format_all_ops_def by (induction js) simp_all
qed

lemma format_all_stored:
  assumes "length m = n * sec_size cfg" and "104 < sec_size cfg" and "\<forall>j \<in> set js. j < n" and "i \<in> set js"
  shows "stored (replay (format_all_ops cfg js) m) (i * sec_size cfg) (sect_bytes cfg blank)"
  using assms
proof (induction js rule: rev_induct)
  case Nil
  then show ?case by simp
next
  case (snoc j js)
  define m1 where "m1 = replay (format_all_ops cfg js) m"
  have fits: "list_all (op_fits (length m)) (format_all_ops cfg js)" by (rule format_all_ops_fits) (use snoc.prems in auto)
  have l1: "length m1 = length m" unfolding m1_def by (rule length_replay [OF fits])
  have j: "j * sec_size cfg + sec_size cfg \<le> length m1" using sector_end [of j n "sec_size cfg"] snoc.prems l1 by simp
  have eq: "replay (format_all_ops cfg (js @ [j])) m = replay (format_ops cfg (j * sec_size cfg)) m1"
    by (simp add: format_all_ops_def m1_def)
  show ?case
  proof (cases "i = j")
    case True
    then show ?thesis unfolding eq using format_stored(1) [OF snoc.prems(2) j] by simp
  next
    case False
    have st: "stored m1 (i * sec_size cfg) (sect_bytes cfg blank)"
      unfolding m1_def by (rule snoc.IH) (use snoc.prems False in auto)
    have len: "length (sect_bytes cfg blank) = sec_size cfg" by (rule length_sect_bytes [OF blank_wf [OF snoc.prems(2)]])
    have "i * sec_size cfg + sec_size cfg \<le> j * sec_size cfg \<or> j * sec_size cfg + sec_size cfg \<le> i * sec_size cfg"
      using False sector_end [of i j "sec_size cfg"] sector_end [of j i "sec_size cfg"] by (meson linorder_neqE_nat)
    then show ?thesis unfolding eq
      by (intro replay_stored [OF format_stored(2) [OF snoc.prems(2) j] st] format_stored(3) [OF snoc.prems(2) j])
        (auto simp: len)
  qed
qed

text \<open>The sector cache forgets every sector.\<close>

definition sec_addrs_ok :: "nat set \<Rightarrow> kvdb_sec_info list \<Rightarrow> bool" where
  "sec_addrs_ok A tab \<longleftrightarrow>
     length tab = FDB_SECTOR_CACHE_TABLE_SIZE \<and> (\<forall>e \<in> set tab. sec_addr e \<in> insert FDB_DATA_UNUSED A)
     \<and> (\<forall>j k. j < k \<and> k < length tab \<and> sec_addr (tab ! j) = sec_addr (tab ! k) \<longrightarrow> sec_addr (tab ! j) = FDB_DATA_UNUSED)"

lemma forget_ok:
  assumes ok: "sec_addrs_ok A tab" and s: "s \<noteq> FDB_DATA_UNUSED"
  shows "sec_addrs_ok (A - {s}) (forget s tab)"
proof (cases "find_index (\<lambda>e. sec_addr e = s) tab")
  case None
  then have "sec_addr e \<noteq> s" if "e \<in> set tab" for e using that by (simp add: find_index_None)
  then show ?thesis using ok None by (auto simp: forget_def sec_tab_upd_def sec_addrs_ok_def)
next
  case (Some i)
  have i: "i < length tab" "sec_addr (tab ! i) = s" using find_index_Some [OF Some] by simp_all
  define tab' where "tab' = tab[i := (tab ! i)\<lparr>sec_addr := FDB_DATA_UNUSED\<rparr>]"
  have ltab: "length tab' = length tab" by (simp add: tab'_def)
  have nth: "sec_addr (tab' ! k) = (if k = i then FDB_DATA_UNUSED else sec_addr (tab ! k))" if "k < length tab" for k
    using i that by (simp add: tab'_def)
  have other: "sec_addr (tab ! k) \<noteq> s" if "k < length tab" "k \<noteq> i" for k
    using ok i that s by (metis linorder_neqE_nat sec_addrs_ok_def)
  have "sec_addr (tab' ! k) \<in> insert FDB_DATA_UNUSED (A - {s})" if "k < length tab" for k
    using ok other that by (auto simp: nth sec_addrs_ok_def)
  then have "\<forall>e \<in> set tab'. sec_addr e \<in> insert FDB_DATA_UNUSED (A - {s})" 
    using ltab by (metis in_set_conv_nth)
  moreover have "sec_addr (tab' ! j) = FDB_DATA_UNUSED" if "j < k" "k < length tab'" "sec_addr (tab' ! j) = sec_addr (tab' ! k)" for j k
    using that ok ltab by (auto simp: nth sec_addrs_ok_def split: if_splits)
  moreover have "length tab' = FDB_SECTOR_CACHE_TABLE_SIZE" using ok by (simp add: tab'_def sec_addrs_ok_def)
  ultimately have "sec_addrs_ok (A - {s}) tab'" unfolding sec_addrs_ok_def by blast
  then show ?thesis using Some by (simp add: forget_def sec_tab_upd_def tab'_def)
qed

lemma forget_all_ok:
  assumes "sec_addrs_ok A tab" and "\<forall>j \<in> set js. j * sec_size cfg \<noteq> FDB_DATA_UNUSED"
  shows "sec_addrs_ok (A - (\<lambda>j. j * sec_size cfg) ` set js) (forget_all cfg js tab)"
  using assms
proof (induction js arbitrary: A tab)
  case Nil
  then show ?case by (simp add: forget_all_def)
next
  case (Cons j js)
  have "sec_addrs_ok (A - {j * sec_size cfg} - (\<lambda>j. j * sec_size cfg) ` set js) (forget_all cfg js (forget (j * sec_size cfg) tab))"
    by (rule Cons.IH) (use Cons.prems forget_ok in auto)
  then show ?case by (simp add: forget_all_def Diff_insert2 [symmetric] insert_commute)
qed

lemma forgotten_cache_ok: "sec_addrs_ok {} tab \<Longrightarrow> sec_cache_ok cfg L tab"
  by (auto simp: sec_addrs_ok_def sec_cache_ok_def)

section \<open>Room\<close>

text \<open>\<open>n\<close> bytes of records have been written since the database was formatted.\<close>

definition room_inv :: "kv_sect list \<Rightarrow> nat \<Rightarrow> bool" where
  "room_inv L n \<longleftrightarrow>
     (\<forall>i < length L. sct_dirty (L ! i) \<noteq> FDB_SECTOR_DIRTY_GC \<and> recs_size (sct_recs (L ! i)) \<le> n)
     \<and> ((\<exists>j < length L. sct_store (L ! j) = FDB_SECTOR_STORE_USING) \<or> n_store L FDB_SECTOR_STORE_EMPTY = length L)"

lemma room_inv_room:
  assumes ly: "layout cfg L m" and r: "room_inv L n" and fits: "n + c + 104 < sec_size cfg"
  shows "has_room cfg L False c"
proof -
  have dirty: "sct_dirty (L ! i) = FDB_SECTOR_DIRTY_FALSE \<or> sct_dirty (L ! i) = FDB_SECTOR_DIRTY_TRUE" if "i < length L" for i
    using ly r that by (auto simp: layout_def wf_sect_def room_inv_def)
  have sz: "c + FDB_SEC_REMAIN_THRESHOLD < sec_size cfg - 16 - recs_size (sct_recs (L ! i))" if "i < length L" for i
    using r that fits by (auto simp: room_inv_def kvdb_consts)
  have two: "2 \<le> length L" using ly by (simp add: layout_def)
  consider j where "j < length L" "sct_store (L ! j) = FDB_SECTOR_STORE_USING" | "n_store L FDB_SECTOR_STORE_EMPTY = length L"
    using r by (auto simp: room_inv_def)
  then show ?thesis
  proof cases
    case 1
    then show ?thesis using dirty sz by (auto simp: has_room_def some_usable_def usable_def)
  next
    case 2
    have "0 < length L" using two by linarith
    moreover have "sct_store (L ! 0) = FDB_SECTOR_STORE_EMPTY"
    proof (rule ccontr)
      assume "sct_store (L ! 0) \<noteq> FDB_SECTOR_STORE_EMPTY"
      with length_filter_less [of "L ! 0" L "\<lambda>S. sct_store S = FDB_SECTOR_STORE_EMPTY"] \<open>0 < length L\<close> 2
      show False by (simp add: n_store_def)
    qed
    ultimately have "usable cfg L False c FDB_SECTOR_STORE_EMPTY 0" using dirty sz by (simp add: usable_def)
    then show ?thesis using 2 two \<open>0 < length L\<close> by (auto simp: has_room_def some_usable_def kvdb_consts)
  qed
qed

lemma room_inv_layout:
  assumes ly: "layout cfg L m" and dirty: "\<forall>i < length L. sct_dirty (L ! i) \<noteq> FDB_SECTOR_DIRTY_GC"
  shows "room_inv L (sec_size cfg)"
proof (cases "\<exists>j < length L. sct_store (L ! j) = FDB_SECTOR_STORE_USING")
  case True
  then show ?thesis using assms by (auto simp: room_inv_def layout_def wf_sect_def)
next
  case False
  then have "sct_store S = FDB_SECTOR_STORE_EMPTY" if "S \<in> set L" for S
    using ly that by (auto simp: layout_def wf_sect_def in_set_conv_nth)
  then have "n_store L FDB_SECTOR_STORE_EMPTY = length L" by (simp add: n_store_def)
  then show ?thesis using assms by (auto simp: room_inv_def layout_def wf_sect_def)
qed

lemma room_inv_grows:
  assumes "room_inv L n" and "grows L L' c" and "(\<exists>j < length L'. sct_store (L' ! j) = FDB_SECTOR_STORE_USING)"
  shows "room_inv L' (n + c)"
proof -
  have "recs_size (sct_recs (L' ! i)) \<le> n + c" if "i < length L" for i
  proof -
    have "recs_size (sct_recs (L' ! i)) \<le> recs_size (sct_recs (L ! i)) + c" using assms(2) that by (simp add: grows_def)
    moreover have "recs_size (sct_recs (L ! i)) \<le> n" using assms(1) that by (simp add: room_inv_def)
    ultimately show ?thesis by simp
  qed
  then show ?thesis using assms by (auto simp: room_inv_def grows_def)
qed

section \<open>The default records\<close>

text \<open>The value of a default: its length is stated, or is that of a string.\<close>

definition def_len :: "fdb_default_kv_node \<Rightarrow> nat option" where
  "def_len d = (if def_value_len d = 0 then c_strlen (def_value d) else Some (def_value_len d))"

definition def_bytes :: "fdb_default_kv_node \<Rightarrow> bytes" where
  "def_bytes d = take (the (def_len d)) (def_value d)"

definition def_ok :: "fdb_default_kv_node \<Rightarrow> bool" where
  "def_ok d \<longleftrightarrow> (\<exists>n. def_len d = Some n \<and> n \<le> length (def_value d))"

definition defs_size :: "fdb_default_kv_node list \<Rightarrow> nat" where
  "defs_size ds = sum_list (map (\<lambda>d. kv_size (def_key d) (def_bytes d)) ds)"

lemma create_new_state:
  assumes st: "kv_state K {} cfg L db" and gc: "\<not> gc_request db" and room: "has_room cfg L False (kv_size key val)" and key: "key \<in> K"
    and no: "\<And>a v. \<not> visible cfg L key a v" and val: "mem_read value 0 len = Some val" and sec: "empty_kv sector = FAILED_ADDR"
  obtains L' e f ktab stab where "create_kv_blob cfg sector key value len db =
      Some (FDB_NO_ERR, e, db\<lparr>flash := f, kv_cache_table := ktab, sector_cache_table := stab\<rparr>)"
    and "kv_state K {} cfg L' (db\<lparr>flash := f, kv_cache_table := ktab, sector_cache_table := stab\<rparr>)"
    and "contents L' = (contents L)(key \<mapsto> val)"
    and "grows L L' (kv_size key val)" and "\<exists>j < length L'. sct_store (L' ! j) = FDB_SECTOR_STORE_USING"
    and "settled cfg L \<Longrightarrow> settled cfg L'"
proof -
  have repr: "repr cfg L db" and u: "uniq cfg L" using st by (simp_all add: kv_state_def)
  have len: "length val = len" using val by (auto simp: mem_read_def split: if_splits)
  obtain e t0 j where new: "new_kv_ex cfg sector (length key) (length val) db = Some (empty_kv e, e, db\<lparr>sector_cache_table := t0\<rparr>)"
    and t0: "sec_cache_ok cfg L t0" and pl: "place cfg L (kv_size key val) j e" and ok: "empty_kv e \<noteq> FAILED_ADDR"
    using new_kv_ex_repr [OF repr gc room] by blast
  define db1 where "db1 = db\<lparr>sector_cache_table := t0\<rparr>"
  have st1: "kv_state K {} cfg L db1" using st t0 by (simp add: db1_def kv_state_def repr_def)
  have alloc: "create_kv_blob cfg sector key value len db = create_kv_blob cfg e key value len db1"
    if "create_kv_blob cfg e key value len db1 = Some (FDB_NO_ERR, e, db2)" for db2
    using that new [unfolded new_kv_ex_def] sec ok len
    by (auto simp: create_kv_blob_def Let_def db1_def [symmetric] split: if_splits)
  obtain L' ktab stab where cr: "create_kv_blob cfg e key value len db1 = Some (FDB_NO_ERR, e,
        db1\<lparr>flash := performed (create_ops e key val) (flash db1), kv_cache_table := ktab, sector_cache_table := stab\<rparr>)"
    and st2: "kv_state K {} cfg L' (db1\<lparr>flash := performed (create_ops e key val) (flash db1), kv_cache_table := ktab, sector_cache_table := stab\<rparr>)"
    and rec: "\<And>b r. rec_at cfg L' b r \<longleftrightarrow> rec_at cfg L b r \<or> b = empty_kv e \<and> r = (FDB_KV_WRITE, key, val)"
    and grows: "grows L L' (kv_size key val)" "j < length L" "sct_store (L' ! j) = FDB_SECTOR_STORE_USING"
    by (rule create_state [OF st1 pl key _ no val]) auto
  have vis: "visible cfg L' k b w \<longleftrightarrow> k \<noteq> key \<and> visible cfg L k b w \<or> k = key \<and> b = empty_kv e \<and> w = val" for k b w
    using no by (auto simp: visible_rec_at rec)
  have "contents L' = (contents L)(key \<mapsto> val)"
    by (rule contents_replace(2) [OF kv_state_layout [OF st] kv_state_layout [OF st2] u vis])
  moreover have "\<exists>j < length L'. sct_store (L' ! j) = FDB_SECTOR_STORE_USING" using grows by (auto simp: grows_def)
  moreover have "create_kv_blob cfg sector key value len db = Some (FDB_NO_ERR, e,
      db\<lparr>flash := performed (create_ops e key val) (flash db), kv_cache_table := ktab, sector_cache_table := stab\<rparr>)"
    using alloc [OF cr] cr by (simp add: db1_def)
  moreover have "kv_state K {} cfg L' (db\<lparr>flash := performed (create_ops e key val) (flash db), kv_cache_table := ktab, sector_cache_table := stab\<rparr>)"
    using st2 by (simp add: db1_def)
  moreover have "settled cfg L'" if "settled cfg L" using that by (simp add: settled_def rec kvdb_consts)
  ultimately show thesis
    by (intro that) (use grows in simp_all)
qed

lemma create_defaults_state:
  assumes "kv_state K {} cfg L db" and "\<not> gc_request db" and "room_inv L n" and "n + defs_size ds + 104 < sec_size cfg"
    and "\<forall>d \<in> set ds. def_key d \<in> K \<and> def_ok d" and "distinct (map def_key ds)" and "\<forall>d \<in> set ds. contents L (def_key d) = None"
  shows "\<exists>L' f ktab stab. create_defaults cfg ds sector db = Some (db\<lparr>flash := f, kv_cache_table := ktab, sector_cache_table := stab\<rparr>)
    \<and> kv_state K {} cfg L' (db\<lparr>flash := f, kv_cache_table := ktab, sector_cache_table := stab\<rparr>)
    \<and> contents L' = contents L ++ map_of (map (\<lambda>d. (def_key d, def_bytes d)) ds) \<and> room_inv L' (n + defs_size ds) \<and> (settled cfg L \<longrightarrow> settled cfg L')"
  using assms
proof (induction ds arbitrary: L db n sector)
  case Nil
  then show ?case
    by (intro exI [of _ L] exI [of _ "flash db"] exI [of _ "kv_cache_table db"] exI [of _ "sector_cache_table db"]) (simp add: defs_size_def)
next
  case (Cons d ds)
  obtain len where len: "def_len d = Some len" "len \<le> length (def_value d)" using Cons.prems(5) by (auto simp: def_ok_def)
  define val where "val = def_bytes d"
  have rd: "mem_read (def_value d) 0 len = Some val" using len by (simp add: mem_read_def val_def def_bytes_def)
  have sz: "defs_size (d # ds) = kv_size (def_key d) val + defs_size ds" by (simp add: defs_size_def val_def)
  have room: "has_room cfg L False (kv_size (def_key d) val)"
    by (rule room_inv_room [OF kv_state_layout [OF Cons.prems(1)] Cons.prems(3)]) (use Cons.prems(4) sz in simp)
  have u: "uniq cfg L" using Cons.prems(1) by (simp add: kv_state_def)
  have no: "\<not> visible cfg L (def_key d) a v" for a v
    using Cons.prems(7) contents_none [OF kv_state_layout [OF Cons.prems(1)] u] by simp
  obtain L1 e f1 k1 s1 where cr: "create_kv_blob cfg (sector\<lparr>empty_kv := FAILED_ADDR\<rparr>) (def_key d) (def_value d) len db =
      Some (FDB_NO_ERR, e, db\<lparr>flash := f1, kv_cache_table := k1, sector_cache_table := s1\<rparr>)"
    and st1: "kv_state K {} cfg L1 (db\<lparr>flash := f1, kv_cache_table := k1, sector_cache_table := s1\<rparr>)"
    and c1: "contents L1 = (contents L)(def_key d \<mapsto> val)"
    and g1: "grows L L1 (kv_size (def_key d) val)" "\<exists>j < length L1. sct_store (L1 ! j) = FDB_SECTOR_STORE_USING"
    and settled: "settled cfg L \<Longrightarrow> settled cfg L1"
    by (rule create_new_state [OF Cons.prems(1,2) room _ no rd, of "sector\<lparr>empty_kv := FAILED_ADDR\<rparr>"]) (use Cons.prems(5) in auto)
  have fresh: "\<forall>x \<in> set ds. contents L1 (def_key x) = None"
  proof
    fix x
    assume x: "x \<in> set ds"
    then have "def_key x \<in> def_key ` set ds" by simp
    then have "def_key x \<noteq> def_key d" using Cons.prems(6) by auto
    then show "contents L1 (def_key x) = None" using Cons.prems(7) x by (simp add: c1)
  qed
  have "\<exists>L' f ktab stab. create_defaults cfg ds e (db\<lparr>flash := f1, kv_cache_table := k1, sector_cache_table := s1\<rparr>) =
        Some (db\<lparr>flash := f1, kv_cache_table := k1, sector_cache_table := s1, flash := f, kv_cache_table := ktab, sector_cache_table := stab\<rparr>)
      \<and> kv_state K {} cfg L' (db\<lparr>flash := f1, kv_cache_table := k1, sector_cache_table := s1, flash := f, kv_cache_table := ktab, sector_cache_table := stab\<rparr>)
      \<and> contents L' = contents L1 ++ map_of (map (\<lambda>d. (def_key d, def_bytes d)) ds)
      \<and> room_inv L' (n + kv_size (def_key d) val + defs_size ds) \<and> (settled cfg L1 \<longrightarrow> settled cfg L')"
    by (rule Cons.IH [OF st1 _ room_inv_grows [OF Cons.prems(3) g1] _ _ _ fresh]) (use Cons.prems(2,4-6) sz in simp_all)
  then obtain L' f ktab stab where rest: "create_defaults cfg ds e (db\<lparr>flash := f1, kv_cache_table := k1, sector_cache_table := s1\<rparr>) =
        Some (db\<lparr>flash := f, kv_cache_table := ktab, sector_cache_table := stab\<rparr>)"
    "kv_state K {} cfg L' (db\<lparr>flash := f, kv_cache_table := ktab, sector_cache_table := stab\<rparr>)"
    and c2: "contents L' = contents L1 ++ map_of (map (\<lambda>d. (def_key d, def_bytes d)) ds)"
    and "room_inv L' (n + kv_size (def_key d) val + defs_size ds)" "settled cfg L1 \<longrightarrow> settled cfg L'"
    by auto
  moreover have "contents L' = contents L ++ map_of (map (\<lambda>d. (def_key d, def_bytes d)) (d # ds))"
  proof -
    have "def_key d \<notin> dom (map_of (map (\<lambda>d. (def_key d, def_bytes d)) ds))"
      using Cons.prems(6) by (simp add: dom_map_of_conv_image_fst image_image)
    from map_add_upd_left [OF this] show ?thesis unfolding c2 c1 by (simp add: val_def)
  qed
  moreover have "create_defaults cfg (d # ds) sector db = Some (db\<lparr>flash := f, kv_cache_table := ktab, sector_cache_table := stab\<rparr>)"
    using cr rest len(1) by (simp add: def_len_def)
  ultimately show ?case using settled unfolding sz add.assoc by blast
qed

lemma blank_contents: "contents (replicate n blank) = Map.empty"
  by (simp add: contents_def live_def blank_def concat_replicate_trivial)

lemma blank_visible: "\<not> visible cfg (replicate n blank) k a v"
  by (auto simp: visible_def blank_def)

lemma blank_settled: "settled cfg (replicate n blank)"
  by (auto simp: settled_def rec_at_def blank_def)

lemma blank_room: "0 < n \<Longrightarrow> room_inv (replicate n blank) 0"
  by (simp add: room_inv_def n_store_def blank_def kvdb_consts)

text \<open>What \<open>fdb_kv_set_default\<close> needs: the sizes of the partition and well-formed cache tables.\<close>

definition formattable :: "fdb_cfg \<Rightarrow> nat \<Rightarrow> fdb_kvdb \<Rightarrow> bool" where
  "formattable cfg n db \<longleftrightarrow>
     length (cells (flash db)) = max_size cfg \<and> max_size cfg = n * sec_size cfg \<and> max_size cfg < 2 ^ 32 - 1 \<and> 2 \<le> n \<and> 104 < sec_size cfg
     \<and> sec_addrs_ok ((\<lambda>j. j * sec_size cfg) ` {0..<n}) (sector_cache_table db)
     \<and> length (kv_cache_table db) = FDB_KV_CACHE_TABLE_SIZE \<and> list_all (\<lambda>e. active e \<le> 0xFFFF) (kv_cache_table db)
     \<and> oldest_addr db mod sec_size cfg = 0 \<and> oldest_addr db < max_size cfg"

lemma set_default_state:
  assumes fm: "formattable cfg n db" and K: "key_set K" and gc: "\<not> gc_request db"
    and ds: "\<forall>d \<in> set (default_kvs db). def_key d \<in> K \<and> def_ok d" "distinct (map def_key (default_kvs db))"
    and fits: "defs_size (default_kvs db) + 104 < sec_size cfg"
  shows "\<exists>L f ktab stab. fdb_kv_set_default cfg db =
      Some (FDB_NO_ERR, db\<lparr>flash := f, kv_cache_table := ktab, sector_cache_table := stab, oldest_addr := 0\<rparr>)
    \<and> kv_state K {} cfg L (db\<lparr>flash := f, kv_cache_table := ktab, sector_cache_table := stab, oldest_addr := 0\<rparr>)
    \<and> contents L = map_of (map (\<lambda>d. (def_key d, def_bytes d)) (default_kvs db)) \<and> room_inv L (defs_size (default_kvs db))
    \<and> settled cfg L"
proof -
  have sz: "max_size cfg = n * sec_size cfg" "length (cells (flash db)) = max_size cfg" "104 < sec_size cfg" "2 \<le> n"
    "max_size cfg < 2 ^ 32 - 1"
    using fm by (simp_all add: formattable_def)
  define kt where "kt = map (\<lambda>e. e\<lparr>cache_addr := FDB_DATA_UNUSED\<rparr>) (kv_cache_table db)"
  define db1 where "db1 = db\<lparr>flash := performed (format_all_ops cfg [0..<n]) (flash db), kv_cache_table := kt,
      sector_cache_table := forget_all cfg [0..<n] (sector_cache_table db)\<rparr>"
  have "format_all cfg (0 * sec_size cfg) (db\<lparr>kv_cache_table := kt\<rparr>) = Some (FDB_NO_ERR,
      db\<lparr>kv_cache_table := kt, flash := performed (format_all_ops cfg [0..<n]) (flash (db\<lparr>kv_cache_table := kt\<rparr>)),
        sector_cache_table := forget_all cfg [0..<n] (sector_cache_table (db\<lparr>kv_cache_table := kt\<rparr>))\<rparr>)"
    by (rule format_all_eq) (use sz in simp_all)
  then have fa: "format_all cfg 0 (db\<lparr>kv_cache_table := kt\<rparr>) = Some (FDB_NO_ERR, db1)" by (simp add: db1_def)
  define L0 where "L0 = replicate n blank"
  have len: "length (replay (format_all_ops cfg [0..<n]) (cells (flash db))) = length (cells (flash db))"
    by (intro length_replay format_all_ops_fits) (use sz in auto)
  have ly: "layout cfg L0 (cells (flash db1))"
    using sz len format_all_stored [of "cells (flash db)" n cfg "[0..<n]"] blank_wf [OF sz(3)]
    by (auto simp: layout_def L0_def db1_def)
  have "sec_addrs_ok ((\<lambda>j. j * sec_size cfg) ` {0..<n} - (\<lambda>j. j * sec_size cfg) ` set [0..<n]) (forget_all cfg [0..<n] (sector_cache_table db))"
  proof (rule forget_all_ok)
    show "sec_addrs_ok ((\<lambda>j. j * sec_size cfg) ` {0..<n}) (sector_cache_table db)" using fm by (simp add: formattable_def)
    show "\<forall>j \<in> set [0..<n]. j * sec_size cfg \<noteq> FDB_DATA_UNUSED"
      using sector_end [of _ n "sec_size cfg"] sz by (fastforce simp: FDB_DATA_UNUSED_def)
  qed
  then have "sec_cache_ok cfg L0 (sector_cache_table db1)" by (intro forgotten_cache_ok) (simp add: db1_def)
  then have repr: "repr cfg L0 db1" using ly fm by (simp add: repr_def formattable_def db1_def)
  have "cache_map kt crc = None" for crc
    using find_index_Some [of "same_crc crc" kt] by (auto simp: cache_map_def kt_def split: option.splits)
  moreover have "kv_tab_ok kt" using fm by (auto simp: kv_tab_ok_def kt_def formattable_def list_all_length)
  ultimately have "cache_sound cfg L0 {} kt" by (simp add: cache_sound_def)
  then have st1: "kv_state K {} cfg L0 db1"
    using repr K by (simp add: kv_state_def uniq_def L0_def blank_visible db1_def)
  have "\<exists>L' f ktab stab. create_defaults cfg (default_kvs db) sec_zero db1 = Some (db1\<lparr>flash := f, kv_cache_table := ktab, sector_cache_table := stab\<rparr>)
    \<and> kv_state K {} cfg L' (db1\<lparr>flash := f, kv_cache_table := ktab, sector_cache_table := stab\<rparr>)
    \<and> contents L' = contents L0 ++ map_of (map (\<lambda>d. (def_key d, def_bytes d)) (default_kvs db)) \<and> room_inv L' (0 + defs_size (default_kvs db))
    \<and> (settled cfg L0 \<longrightarrow> settled cfg L')"
    by (rule create_defaults_state [OF st1]) (use gc ds fits sz(4) blank_room [of n] in \<open>auto simp: db1_def L0_def blank_contents\<close>)
  then obtain L f ktab stab where cd: "create_defaults cfg (default_kvs db) sec_zero db1 =
      Some (db\<lparr>flash := f, kv_cache_table := ktab, sector_cache_table := stab\<rparr>)"
    and st: "kv_state K {} cfg L (db\<lparr>flash := f, kv_cache_table := ktab, sector_cache_table := stab\<rparr>)"
    and c: "contents L = map_of (map (\<lambda>d. (def_key d, def_bytes d)) (default_kvs db))" "room_inv L (defs_size (default_kvs db))" "settled cfg L"
    by (auto simp: db1_def L0_def blank_contents blank_settled)
  have dk: "default_kvs db1 = default_kvs db" by (simp add: db1_def)
  have "fdb_kv_set_default cfg db = Some (FDB_NO_ERR, db\<lparr>flash := f, kv_cache_table := ktab, sector_cache_table := stab, oldest_addr := 0\<rparr>)"
    using fa cd dk by (simp add: fdb_kv_set_default_def kt_def [symmetric])
  moreover have "kv_state K {} cfg L (db\<lparr>flash := f, kv_cache_table := ktab, sector_cache_table := stab, oldest_addr := 0\<rparr>)"
    using st sz by (auto simp: kv_state_def repr_def)
  ultimately show ?thesis using c by blast
qed

section \<open>The interface of the store\<close>

datatype kv_cmd = KGet bytes | KSet bytes bytes | KDel bytes

fun cmd_key :: "kv_cmd \<Rightarrow> bytes" where
  "cmd_key (KGet k) = k"
| "cmd_key (KSet k v) = k"
| "cmd_key (KDel k) = k"

fun cmd_cost :: "(bytes \<Rightarrow> bytes \<Rightarrow> nat) \<Rightarrow> kv_cmd \<Rightarrow> nat" where
  "cmd_cost cost (KSet k v) = cost k v"
| "cmd_cost cost _ = 0"

text \<open>A sequence of commands on a store, with the values read, and on a map.  A key that is absent reads as no bytes.\<close>

fun kv_run ::
  "(bytes \<Rightarrow> 's \<Rightarrow> (bytes \<times> 's) option) \<Rightarrow> (bytes \<Rightarrow> bytes \<Rightarrow> 's \<Rightarrow> 's option) \<Rightarrow> (bytes \<Rightarrow> 's \<Rightarrow> 's option) \<Rightarrow>
   kv_cmd list \<Rightarrow> 's \<Rightarrow> (bytes list \<times> 's) option" where
  "kv_run get put del [] s = Some ([], s)"
| "kv_run get put del (KGet k # cmds) s = do {
     (v, s) \<leftarrow> get k s;
     (vs, s) \<leftarrow> kv_run get put del cmds s;
     Some (v # vs, s) }"
| "kv_run get put del (KSet k v # cmds) s = do { s \<leftarrow> put k v s; kv_run get put del cmds s }"
| "kv_run get put del (KDel k # cmds) s = do { s \<leftarrow> del k s; kv_run get put del cmds s }"

definition value_or_empty :: "bytes option \<Rightarrow> bytes" where
  "value_or_empty x = (case x of None \<Rightarrow> [] | Some v \<Rightarrow> v)"

fun map_run :: "kv_cmd list \<Rightarrow> (bytes \<rightharpoonup> bytes) \<Rightarrow> bytes list \<times> (bytes \<rightharpoonup> bytes)" where
  "map_run [] m = ([], m)"
| "map_run (KGet k # cmds) m = (case map_run cmds m of (vs, m') \<Rightarrow> (value_or_empty (m k) # vs, m'))"
| "map_run (KSet k v # cmds) m = map_run cmds (m(k \<mapsto> v))"
| "map_run (KDel k # cmds) m = map_run cmds (m(k := None))"

locale kv_store =
  fixes rel :: "'s \<Rightarrow> (bytes \<rightharpoonup> bytes) \<Rightarrow> nat \<Rightarrow> bool"
    and get :: "bytes \<Rightarrow> 's \<Rightarrow> (bytes \<times> 's) option"
    and put :: "bytes \<Rightarrow> bytes \<Rightarrow> 's \<Rightarrow> 's option"
    and del :: "bytes \<Rightarrow> 's \<Rightarrow> 's option"
    and keys :: "bytes set" and cost :: "bytes \<Rightarrow> bytes \<Rightarrow> nat" and budget :: nat
  assumes get_law: "rel s m n \<Longrightarrow> k \<in> keys \<Longrightarrow> \<exists>s'. get k s = Some (value_or_empty (m k), s') \<and> rel s' m n"
    and put_law: "rel s m n \<Longrightarrow> k \<in> keys \<Longrightarrow> n + cost k v \<le> budget \<Longrightarrow> \<exists>s'. put k v s = Some s' \<and> rel s' (m(k \<mapsto> v)) (n + cost k v)"
    and del_law: "rel s m n \<Longrightarrow> k \<in> keys \<Longrightarrow> \<exists>s'. del k s = Some s' \<and> rel s' (m(k := None)) n"
begin

lemma run_refines:
  assumes "rel s m n" and "\<forall>c \<in> set cmds. cmd_key c \<in> keys" and "n + sum_list (map (cmd_cost cost) cmds) \<le> budget"
  shows "\<exists>s'. kv_run get put del cmds s = Some (fst (map_run cmds m), s')
    \<and> rel s' (snd (map_run cmds m)) (n + sum_list (map (cmd_cost cost) cmds))"
  using assms
proof (induction cmds arbitrary: s m n)
  case Nil
  then show ?case by simp
next
  case (Cons c cmds)
  show ?case
  proof (cases c)
    case (KGet k)
    obtain s1 where s1: "get k s = Some (value_or_empty (m k), s1)" "rel s1 m n" using get_law [OF Cons.prems(1)] Cons.prems(2) KGet by auto
    obtain s2 where "kv_run get put del cmds s1 = Some (fst (map_run cmds m), s2)"
      "rel s2 (snd (map_run cmds m)) (n + sum_list (map (cmd_cost cost) cmds))"
      using Cons.IH [OF s1(2)] Cons.prems(2,3) KGet by auto
    then show ?thesis using KGet s1(1) by (cases "map_run cmds m") simp
  next
    case (KSet k v)
    have rest: "\<forall>c \<in> set cmds. cmd_key c \<in> keys" "n + cost k v + sum_list (map (cmd_cost cost) cmds) \<le> budget"
      using Cons.prems(2,3) KSet by simp_all
    have "n + cost k v \<le> budget" "k \<in> keys" using Cons.prems(2,3) KSet by simp_all
    then obtain s1 where s1: "put k v s = Some s1" "rel s1 (m(k \<mapsto> v)) (n + cost k v)" using put_law [OF Cons.prems(1)] by blast
    obtain s2 where "kv_run get put del cmds s1 = Some (fst (map_run cmds (m(k \<mapsto> v))), s2)"
      "rel s2 (snd (map_run cmds (m(k \<mapsto> v)))) (n + cost k v + sum_list (map (cmd_cost cost) cmds))"
      using Cons.IH [OF s1(2) rest] by blast
    then show ?thesis using KSet s1(1) by (simp add: add.assoc)
  next
    case (KDel k)
    have rest: "\<forall>c \<in> set cmds. cmd_key c \<in> keys" "n + sum_list (map (cmd_cost cost) cmds) \<le> budget"
      using Cons.prems(2,3) KDel by simp_all
    obtain s1 where s1: "del k s = Some s1" "rel s1 (m(k := None)) n" using del_law [OF Cons.prems(1)] Cons.prems(2) KDel by auto
    obtain s2 where "kv_run get put del cmds s1 = Some (fst (map_run cmds (m(k := None))), s2)"
      "rel s2 (snd (map_run cmds (m(k := None)))) (n + sum_list (map (cmd_cost cost) cmds))"
      using Cons.IH [OF s1(2) rest] by blast
    then show ?thesis using KDel s1(1) by simp
  qed
qed

end

text \<open>The operations of the database, as a client with a buffer of one sector calls them.\<close>

definition a_blob :: "bytes \<Rightarrow> nat \<Rightarrow> fdb_blob" where
  "a_blob buf n =
     fdb_blob_make \<lparr>blob_buf = None, blob_size = 0, saved_meta_addr = 0, saved_addr = 0, saved_len = 0\<rparr> (Some buf) n"

definition store_get :: "fdb_cfg \<Rightarrow> fdb_kv \<Rightarrow> bytes \<Rightarrow> fdb_kvdb \<Rightarrow> (bytes \<times> fdb_kvdb) option" where
  "store_get cfg kv key db = do {
     (n, blob, db) \<leftarrow> fdb_kv_get_blob cfg kv key (a_blob (replicate (sec_size cfg) 0) (sec_size cfg)) db;
     Some (take n (the (blob_buf blob)), db) }"

definition store_put :: "fdb_cfg \<Rightarrow> bytes \<Rightarrow> bytes \<Rightarrow> fdb_kvdb \<Rightarrow> fdb_kvdb option" where
  "store_put cfg key val db = do {
     (r, db) \<leftarrow> fdb_kv_set_blob cfg key (a_blob val (length val)) db;
     if r = FDB_NO_ERR then Some db else None }"

definition store_del :: "fdb_cfg \<Rightarrow> bytes \<Rightarrow> fdb_kvdb \<Rightarrow> fdb_kvdb option" where
  "store_del cfg key db = do {
     (r, db) \<leftarrow> fdb_kv_del cfg key db;
     if r = FDB_NO_ERR \<or> r = FDB_KV_NAME_ERR then Some db else None }"

definition store_rel :: "bytes set \<Rightarrow> fdb_cfg \<Rightarrow> fdb_kv \<Rightarrow> fdb_kvdb \<Rightarrow> (bytes \<rightharpoonup> bytes) \<Rightarrow> nat \<Rightarrow> bool" where
  "store_rel K cfg kv db m n \<longleftrightarrow>
     length (kv_name kv) = FDB_KV_NAME_MAX \<and> (\<exists>L. kv_inv K cfg L db \<and> contents L = m \<and> room_inv L n)"

lemma value_short:
  assumes "kv_state K X cfg L db" and "contents L key = Some v"
  shows "length v < sec_size cfg"
proof -
  have ly: "layout cfg L (cells (flash db))" and u: "uniq cfg L" and repr: "repr cfg L db"
    using assms(1) by (simp_all add: kv_state_def repr_def)
  obtain a where "visible cfg L key a v" using assms(2) contents_visible [OF ly u] by blast
  then obtain i pre post where i: "i < length L" and recs: "sct_recs (L ! i) = pre @ (FDB_KV_WRITE, key, v) # post"
    by (auto simp: visible_def)
  have "wf_sect cfg (L ! i)" using ly i by (simp add: layout_def)
  from wf_rec_split(4) [OF this recs] show ?thesis by (simp add: kv_size_def)
qed

lemma store_room:
  assumes "store_rel K cfg kv db m n" and "n + kv_size k v \<le> sec_size cfg - 105"
  shows "\<exists>L. kv_inv K cfg L db \<and> contents L = m \<and> room_inv L n \<and> has_room cfg L False (kv_size k v)"
proof -
  obtain L where L: "kv_inv K cfg L db" "contents L = m" "room_inv L n" using assms(1) by (auto simp: store_rel_def)
  then have ly: "layout cfg L (cells (flash db))" by (simp add: kv_inv_def kv_state_def repr_def)
  have "has_room cfg L False (kv_size k v)"
    by (rule room_inv_room [OF ly L(3)]) (use assms(2) in \<open>simp add: kv_size_def\<close>)
  with L show ?thesis by blast
qed

lemma set_blob_law:
  assumes "store_rel K cfg kv db m n" and "k \<in> K" and "mem_read buf 0 len = Some v" and "n + kv_size k v \<le> sec_size cfg - 105"
  shows "\<exists>db'. fdb_kv_set_blob cfg k (a_blob buf len) db = Some (FDB_NO_ERR, db') \<and> store_rel K cfg kv db' (m(k \<mapsto> v)) (n + kv_size k v)"
proof -
  obtain L where inv: "kv_inv K cfg L db" and L: "contents L = m" "room_inv L n" "has_room cfg L False (kv_size k v)"
    using store_room [OF assms(1,4)] by blast
  obtain L' db' where "set_kv cfg k (Some buf) len db = Some (FDB_NO_ERR, db')" "kv_inv K cfg L' db'"
    "contents L' = m(k \<mapsto> v)" "grows L L' (kv_size k v)" "\<exists>j < length L'. sct_store (L' ! j) = FDB_SECTOR_STORE_USING"
    using set_kv_state [OF inv assms(2,3) L(3)] L(1) by auto
  moreover from this have "room_inv L' (n + kv_size k v)" using room_inv_grows [OF L(2)] by blast
  moreover have "db_init_ok db" "length (kv_name kv) = FDB_KV_NAME_MAX" using inv assms(1) by (simp_all add: kv_inv_def store_rel_def)
  ultimately show ?thesis by (auto simp: fdb_kv_set_blob_def a_blob_def fdb_blob_make_def store_rel_def)
qed

lemma get_blob_law:
  assumes "store_rel K cfg kv db m n" and "k \<in> K" and "len \<le> length buf"
  shows "\<exists>db' blob. fdb_kv_get_blob cfg kv k (a_blob buf len) db = Some (min len (length (value_or_empty (m k))), blob, db')
    \<and> blob_buf blob = Some (patch_at buf 0 (take len (value_or_empty (m k)))) \<and> saved_len blob = length (value_or_empty (m k))
    \<and> store_rel K cfg kv db' m n"
proof -
  obtain L where inv: "kv_inv K cfg L db" and L: "contents L = m" "room_inv L n" and kv: "length (kv_name kv) = 64"
    using assms(1) by (auto simp: store_rel_def kvdb_consts)
  have st: "kv_state K {} cfg L db" and ok: "db_init_ok db" using inv by (simp_all add: kv_inv_def)
  obtain kt t where get: "get_kv cfg kv k (Some buf) len db =
      (case contents L k of
         None \<Rightarrow> Some (0, Some buf, 0, db\<lparr>kv_cache_table := kt, sector_cache_table := t\<rparr>)
       | Some v \<Rightarrow> Some (min len (length v), Some (patch_at buf 0 (take len v)), length v,
                      db\<lparr>kv_cache_table := kt, sector_cache_table := t\<rparr>))"
    and st': "kv_state K {} cfg L (db\<lparr>kv_cache_table := kt, sector_cache_table := t\<rparr>)"
    using get_kv_state [OF st assms(2) kv assms(3)] by auto
  have "store_rel K cfg kv (db\<lparr>kv_cache_table := kt, sector_cache_table := t\<rparr>) m n"
    using st' inv L kv by (auto simp: store_rel_def kv_inv_def kvdb_consts)
  then show ?thesis
    using get ok L(1)
    by (cases "contents L k") (auto simp: fdb_kv_get_blob_def a_blob_def fdb_blob_make_def value_or_empty_def patch_at_def)
qed

lemma store_get_law:
  assumes "store_rel K cfg kv db m n" and "k \<in> K"
  shows "\<exists>db'. store_get cfg kv k db = Some (value_or_empty (m k), db') \<and> store_rel K cfg kv db' m n"
proof -
  have short: "length (value_or_empty (m k)) \<le> sec_size cfg"
    using assms(1) value_short by (fastforce simp: store_rel_def kv_inv_def value_or_empty_def split: option.splits)
  show ?thesis
    using get_blob_law [OF assms, of "sec_size cfg" "replicate (sec_size cfg) 0"] short
    by (auto simp: store_get_def patch_at_def min_absorb2)
qed

lemma store_put_law:
  assumes "store_rel K cfg kv db m n" and "k \<in> K" and "n + kv_size k v \<le> sec_size cfg - 105"
  shows "\<exists>db'. store_put cfg k v db = Some db' \<and> store_rel K cfg kv db' (m(k \<mapsto> v)) (n + kv_size k v)"
proof -
  have "mem_read v 0 (length v) = Some v" by (simp add: mem_read_def)
  from set_blob_law [OF assms(1,2) this assms(3)] show ?thesis by (auto simp: store_put_def)
qed

lemma store_del_law:
  assumes "store_rel K cfg kv db m n" and "k \<in> K"
  shows "\<exists>db'. store_del cfg k db = Some db' \<and> store_rel K cfg kv db' (m(k := None)) n"
proof -
  obtain L where inv: "kv_inv K cfg L db" and L: "contents L = m" "room_inv L n" and kv: "length (kv_name kv) = 64"
    using assms(1) by (auto simp: store_rel_def kvdb_consts)
  have ok: "db_init_ok db" using inv by (simp add: kv_inv_def)
  obtain L' db' where d: "del_kv cfg (Some k) None True db = Some (if contents L k = None then FDB_KV_NAME_ERR else FDB_NO_ERR, db')"
    "kv_inv K cfg L' db'" "contents L' = m(k := None)" "grows L L' 0"
    using del_kv_state [OF inv assms(2)] L(1) by auto
  have "room_inv L' n"
  proof (cases "\<exists>j < length L'. sct_store (L' ! j) = FDB_SECTOR_STORE_USING")
    case True
    then show ?thesis using room_inv_grows [OF L(2) d(4)] by simp
  next
    case False
    have "\<forall>S \<in> set L'. sct_store S = FDB_SECTOR_STORE_EMPTY"
    proof
      fix S
      assume "S \<in> set L'"
      then obtain i where i: "i < length L'" "S = L' ! i" by (auto simp: in_set_conv_nth)
      then have "wf_sect cfg S" using d(2) by (auto simp: kv_inv_def kv_state_def repr_def layout_def)
      then show "sct_store S = FDB_SECTOR_STORE_EMPTY" using False i by (auto simp: wf_sect_def)
    qed
    then have "n_store L' FDB_SECTOR_STORE_EMPTY = length L'" by (simp add: n_store_def)
    moreover have "recs_size (sct_recs (L' ! i)) \<le> n \<and> sct_dirty (L' ! i) \<noteq> FDB_SECTOR_DIRTY_GC" if "i < length L'" for i
      using L(2) d(4) that by (fastforce simp: room_inv_def grows_def)
    ultimately show ?thesis by (simp add: room_inv_def)
  qed
  then show ?thesis using d ok kv L by (auto simp: store_del_def fdb_kv_del_def store_rel_def kvdb_consts split: if_splits)
qed

interpretation fdb_store: kv_store "store_rel K cfg kv" "store_get cfg kv" "store_put cfg" "store_del cfg" K kv_size "sec_size cfg - 105"
  for K cfg kv
  by unfold_locales (rule store_get_law store_put_law store_del_law; assumption)+

end
