(* ===== verification/Fdb_Kvdb_Load.thy ===== *)
theory Fdb_Kvdb_Load
  imports Fdb_Kvdb_Store
begin

text \<open>
  The database after a restart: \<open>fdb_kvdb_init\<close> on a handle that is all zero finds in flash the contents that were there
  before, writes nothing, and fills the caches.
\<close>

section \<open>Sectors that need no repair\<close>

lemma sector_iterator_quiet:
  assumes repr: "repr cfg L db"
    and quiet: "\<And>j e db'. j < length L \<Longrightarrow> info_of cfg (j * sec_size cfg) (L ! j) e \<Longrightarrow> cb e x db' = Some (False, x, db')"
  shows "\<exists>e tab. sector_iterator cfg sector FDB_SECTOR_STORE_UNUSED x cb False db = Some (e, x, db\<lparr>sector_cache_table := tab\<rparr>)
    \<and> sec_cache_ok cfg L tab"
proof -
  have "\<exists>stop e x' tab. sector_walk cfg (sector_iter_body cfg FDB_SECTOR_STORE_UNUSED cb False) (oldest_addr db) 0 sector x db =
        Some (stop, e, x', db\<lparr>sector_cache_table := tab\<rparr>)
      \<and> sec_cache_ok cfg L tab
      \<and> (if stop then \<exists>j < length L. info_of cfg (j * sec_size cfg) (L ! j) e \<and> False
         else x' = x \<and> (\<forall>j < length L. \<exists>y. y = x \<and> \<not> fst (False, y)))"
  proof (rule sector_walk_repr [where P = "\<lambda>y. y = x" and g = "\<lambda>_ y. (False, y)" and Q = "\<lambda>_ _ _. False", OF repr refl])
    fix j sector y tab
    assume j: "j < length L" and y: "y = x" and tab: "sec_cache_ok cfg L tab"
    obtain e tab' where "sector_iter_body cfg FDB_SECTOR_STORE_UNUSED cb False (j * sec_size cfg) sector y (db\<lparr>sector_cache_table := tab\<rparr>) =
          map_option (\<lambda>(stop, x, db). (stop, e, x, db)) (cb e y (db\<lparr>sector_cache_table := tab'\<rparr>))"
      and e: "info_of cfg (j * sec_size cfg) (L ! j) e" "sec_cache_ok cfg L tab'"
      by (rule sector_iter_body_tab [OF repr tab j, of FDB_SECTOR_STORE_UNUSED cb False sector y]) simp
    then show "\<exists>e tab'. sector_iter_body cfg FDB_SECTOR_STORE_UNUSED cb False (j * sec_size cfg) sector y (db\<lparr>sector_cache_table := tab\<rparr>) =
          Some (fst (False, y), e, snd (False, y), db\<lparr>sector_cache_table := tab'\<rparr>)
        \<and> info_of cfg (j * sec_size cfg) (L ! j) e \<and> sec_cache_ok cfg L tab'
        \<and> (if fst (False, y) then False else snd (False, y) = x)"
      using quiet [OF j e(1)] y by auto
  qed
  then show ?thesis by (auto simp: sector_iterator_def split: if_splits)
qed

section \<open>Records that need no repair\<close>

lemma sect_at_kv_cache [simp]: "sect_at cfg (db\<lparr>kv_cache_table := t\<rparr>) s S = sect_at cfg db s S"
  by (simp add: sect_at_def cache_knows_end_def get_sector_from_cache_def split: option.split)

text \<open>A walk over the records of a sector that changes nothing but the key cache.\<close>

lemma kv_walk_tab:
  assumes sec: "sect_at cfg db s S" and recs: "sct_recs S = pre @ rs" "rs \<noteq> []"
    and sector: "sec_addr sector = s" "store_status sector \<noteq> FDB_SECTOR_STORE_EMPTY"
    and kv: "addr_start kv = s + 16 + recs_size pre" "length (kv_name kv) = 64"
    and body: "\<And>p st key val q kv t. sct_recs S = p @ (st, key, val) # q \<Longrightarrow> addr_start kv = s + 16 + recs_size p \<Longrightarrow>
        length (kv_name kv) = 64 \<Longrightarrow> P t \<Longrightarrow>
        \<exists>t'. body FDB_NO_ERR (kv_of_record kv st key val) x (db\<lparr>kv_cache_table := t\<rparr>) = Some (False, x, db\<lparr>kv_cache_table := t'\<rparr>) \<and> P t'"
    and P: "P t"
  shows "\<exists>kv' t'. kv_walk cfg sector body kv x (db\<lparr>kv_cache_table := t\<rparr>) = Some (False, kv', x, db\<lparr>kv_cache_table := t'\<rparr>)
    \<and> P t' \<and> length (kv_name kv') = 64"
  using recs kv P
proof (induction rs arbitrary: pre kv t)
  case Nil
  then show ?case by simp
next
  case (Cons r rs)
  obtain st key val where r: "r = (st, key, val)" by (cases r)
  define kv' where "kv' = kv_of_record kv st key val"
  have wf: "wf_sect cfg S" using sec by (simp add: sect_at_def)
  have recs': "sct_recs S = pre @ (st, key, val) # rs" using Cons.prems(1) r by simp
  have sec': "sect_at cfg (db\<lparr>kv_cache_table := t\<rparr>) s S" for t using sec by simp
  have rd: "read_kv cfg kv (db\<lparr>kv_cache_table := t\<rparr>) = Some (FDB_NO_ERR, kv', db\<lparr>kv_cache_table := t\<rparr>)"
    unfolding kv'_def by (rule read_kv_layout [OF sec' recs' Cons.prems(3,4)])
  obtain t1 where b: "body FDB_NO_ERR kv' x (db\<lparr>kv_cache_table := t\<rparr>) = Some (False, x, db\<lparr>kv_cache_table := t1\<rparr>)" and t1: "P t1"
    using body [OF recs' Cons.prems(3,4,5)] by (auto simp: kv'_def)
  have nx: "get_next_kv_addr cfg (db\<lparr>kv_cache_table := t1\<rparr>) sector kv' =
      (if rs = [] then FAILED_ADDR else s + 16 + recs_size (pre @ [(st, key, val)]))"
    by (rule get_next_kv_addr_layout [OF sec' recs' sector]) (simp_all add: kv'_def Cons.prems(3) rec_size_def)
  have name: "length (kv_name kv') = 64"
    using kv_name_of_record [OF Cons.prems(4) wf_rec_split(2) [OF wf recs']] by (simp add: kv'_def)
  show ?case
  proof (cases "rs = []")
    case True
    then show ?thesis using nx name t1 by (subst kv_walk.simps) (auto simp add: rd b)
  next
    case False
    let ?kv2 = "kv'\<lparr>addr_start := s + 16 + recs_size (pre @ [(st, key, val)])\<rparr>"
    have ne: "s + 16 + recs_size (pre @ [(st, key, val)]) \<noteq> FAILED_ADDR"
      using sect_at_bounds [OF sec] recs' by (simp add: FAILED_ADDR_def)
    have "\<exists>kv' t'. kv_walk cfg sector body ?kv2 x (db\<lparr>kv_cache_table := t1\<rparr>) = Some (False, kv', x, db\<lparr>kv_cache_table := t'\<rparr>)
        \<and> P t' \<and> length (kv_name kv') = 64"
      by (rule Cons.IH [of "pre @ [(st, key, val)]"]) (use False recs' name t1 in simp_all)
    then show ?thesis using False nx ne by (subst kv_walk.simps) (simp add: rd b)
  qed
qed

text \<open>The recovery of one sector when no replacement is half-way: the cache gets the visible records.\<close>

lemma recovery_cb_state:
  assumes sound: "cache_sound cfg L {} t" and r: "rec_at cfg L (addr_start kv) (st, key, val)" and settled: "settled cfg L"
    and st: "st \<in> {FDB_KV_WRITE, FDB_KV_PRE_DELETE, FDB_KV_DELETED}" and kv: "length (kv_name kv) = 64" "length key < 64"
    and a: "addr_start kv \<noteq> FDB_DATA_UNUSED"
  shows "\<exists>t'. check_and_recovery_kv_cb cfg (kv_of_record kv st key val) () (db\<lparr>kv_cache_table := t\<rparr>) =
      Some (False, (), db\<lparr>kv_cache_table := t'\<rparr>) \<and> cache_sound cfg L {} t'"
proof (cases "st = FDB_KV_WRITE")
  case True
  have tab: "kv_tab_ok (kv_cache_table (db\<lparr>kv_cache_table := t\<rparr>))" using sound by (simp add: cache_sound_def)
  obtain t' where upd: "update_kv_cache key (addr_start kv) (db\<lparr>kv_cache_table := t\<rparr>) = db\<lparr>kv_cache_table := t'\<rparr>"
    and after: "after_update t t' (key_crc key) (Some (addr_start kv))"
    using update_kv_cache_map [OF tab, of key "addr_start kv"] a by auto
  have "visible cfg L key (addr_start kv) val" using r True by (simp add: visible_rec_at)
  from after_update_sound [OF sound after this refl] have "cache_sound cfg L {} t'" by simp
  moreover have "mem_read (kv_name (kv_of_record kv st key val)) 0 (length key) = Some key"
    using kv by (simp add: kv_name_prefix mem_read_def)
  ultimately show ?thesis using True upd by (intro exI [of _ t']) (simp add: check_and_recovery_kv_cb_def kvdb_consts)
next
  case False
  then have "st = FDB_KV_DELETED" using st r settled by (auto simp: settled_def)
  then show ?thesis using sound by (intro exI [of _ t]) (simp add: check_and_recovery_kv_cb_def kvdb_consts)
qed


lemma recovery_iter_body:
  assumes repr: "repr cfg L db" and j: "j < length L" and settled: "settled cfg L" and kv: "length (kv_name kv) = 64"
    and sound: "cache_sound cfg L {} t"
  shows "\<exists>e kv' tab t'. kv_iter_body cfg (check_and_recovery_kv_cb cfg) (j * sec_size cfg) sector (kv, ()) (db\<lparr>kv_cache_table := t\<rparr>) =
      Some (False, e, (kv', ()), db\<lparr>kv_cache_table := t', sector_cache_table := tab\<rparr>)
    \<and> info_of cfg (j * sec_size cfg) (L ! j) e \<and> sec_cache_ok cfg L tab \<and> length (kv_name kv') = 64 \<and> cache_sound cfg L {} t'"
proof -
  define s where "s = j * sec_size cfg"
  have repr0: "repr cfg L (db\<lparr>kv_cache_table := t\<rparr>)" using repr by (simp add: repr_def)
  obtain e tab where rd: "read_sector_info cfg s sector False (db\<lparr>kv_cache_table := t\<rparr>) =
        Some (FDB_NO_ERR, e, db\<lparr>kv_cache_table := t, sector_cache_table := tab\<rparr>)"
    and e: "info_of cfg s (L ! j) e" and tab: "sec_cache_ok cfg L tab"
    using read_sector_info_repr [OF repr0 j, of sector False] by (auto simp: s_def)
  define db1 where "db1 = db\<lparr>sector_cache_table := tab\<rparr>"
  have repr1: "repr cfg L db1" using repr tab by (simp add: repr_def db1_def)
  note sec = repr_sect_at [OF repr1 j, folded s_def]
  have wf: "wf_sect cfg (L ! j)" using sec by (simp add: sect_at_def)
  have st: "store_status e = sct_store (L ! j)" "sec_addr e = s" using e by (simp_all add: info_of_def)
  have d1: "db\<lparr>kv_cache_table := t, sector_cache_table := tab\<rparr> = db1\<lparr>kv_cache_table := t\<rparr>" for t by (simp add: db1_def)
  show ?thesis
  proof (cases "sct_store (L ! j) = FDB_SECTOR_STORE_USING")
    case True
    have recs: "sct_recs (L ! j) \<noteq> []" using wf True by (auto simp: wf_sect_def kvdb_consts)
    have "\<exists>kv' t'. kv_walk cfg e (\<lambda>_. check_and_recovery_kv_cb cfg) (kv\<lparr>addr_start := s + 16\<rparr>) () (db1\<lparr>kv_cache_table := t\<rparr>) =
          Some (False, kv', (), db1\<lparr>kv_cache_table := t'\<rparr>) \<and> cache_sound cfg L {} t' \<and> length (kv_name kv') = 64"
    proof (rule kv_walk_tab [where pre = "[]" and P = "cache_sound cfg L {}", OF sec _ recs st(2)])
      fix p st key val q and kv :: fdb_kv and t
      assume rec: "sct_recs (L ! j) = p @ (st, key, val) # q" and kv: "addr_start kv = s + 16 + recs_size p" "length (kv_name kv) = 64"
        and sound: "cache_sound cfg L {} t"
      have "rec_at cfg L (addr_start kv) (st, key, val)"
        using j rec kv(1) by (intro rec_atI [of j _ "length p"]) (simp_all add: addr_of_def s_def)
      moreover have "st \<in> {FDB_KV_WRITE, FDB_KV_PRE_DELETE, FDB_KV_DELETED}" using wf rec by (simp add: wf_sect_def wf_rec_def)
      moreover have "addr_start kv \<noteq> FDB_DATA_UNUSED"
        using sect_at_bounds [OF sec] rec kv(1) by (simp add: FDB_DATA_UNUSED_def)
      ultimately show "\<exists>t'. check_and_recovery_kv_cb cfg (kv_of_record kv st key val) () (db1\<lparr>kv_cache_table := t\<rparr>) =
          Some (False, (), db1\<lparr>kv_cache_table := t'\<rparr>) \<and> cache_sound cfg L {} t'"
        using recovery_cb_state [OF sound _ settled _ kv(2) wf_rec_split(2) [OF wf rec]] by blast
    qed (use True st kv sound in \<open>simp_all add: kvdb_consts\<close>)
    then obtain kv' t' where "kv_walk cfg e (\<lambda>_. check_and_recovery_kv_cb cfg) (kv\<lparr>addr_start := s + 16\<rparr>) () (db1\<lparr>kv_cache_table := t\<rparr>) =
          Some (False, kv', (), db1\<lparr>kv_cache_table := t'\<rparr>)" "cache_sound cfg L {} t'" "length (kv_name kv') = 64" by blast
    then show ?thesis
      using True st rd e tab unfolding s_def [symmetric]
      by (intro exI [of _ e] exI [of _ kv'] exI [of _ tab] exI [of _ t'])
        (simp add: kv_iter_body_def d1 SECTOR_HDR_DATA_SIZE_def)
  next
    case False
    then have "sct_store (L ! j) = FDB_SECTOR_STORE_EMPTY" using wf by (auto simp: wf_sect_def)
    then show ?thesis
      using st rd e tab kv sound unfolding s_def [symmetric]
      by (intro exI [of _ e] exI [of _ kv] exI [of _ tab] exI [of _ t]) (simp add: kv_iter_body_def kvdb_consts)
  qed
qed


text \<open>The walk over all sectors with both caches changing.\<close>

lemma sector_walk_tabs:
  assumes ly: "layout cfg L (cells (flash db))" and n: "n = length L"
    and body: "\<And>j sector x tab t. j < n \<Longrightarrow> P x t \<Longrightarrow> sec_cache_ok cfg L tab \<Longrightarrow>
      \<exists>e x' tab' t'. body (j * sec_size cfg) sector x (db\<lparr>kv_cache_table := t, sector_cache_table := tab\<rparr>) =
          Some (False, e, x', db\<lparr>kv_cache_table := t', sector_cache_table := tab'\<rparr>)
        \<and> info_of cfg (j * sec_size cfg) (L ! j) e \<and> sec_cache_ok cfg L tab' \<and> P x' t'"
    and i: "i < n" and k: "k < n" and tab: "sec_cache_ok cfg L tab" and x: "P x t"
  shows "\<exists>e x' tab' t'. sector_walk cfg body (i * sec_size cfg) (k * sec_size cfg) sector x
        (db\<lparr>kv_cache_table := t, sector_cache_table := tab\<rparr>) =
      Some (False, e, x', db\<lparr>kv_cache_table := t', sector_cache_table := tab'\<rparr>) \<and> sec_cache_ok cfg L tab' \<and> P x' t'"
  using i k tab x
proof (induction "n - k" arbitrary: i k sector x tab t)
  case 0
  then show ?case by simp
next
  case (Suc m)
  have sz: "0 < sec_size cfg" using layout_sec_size [OF ly] by simp
  have mx: "max_size cfg = n * sec_size cfg" "max_size cfg < 2 ^ 32 - 1" using ly n by (simp_all add: layout_def)
  obtain e x1 tab1 t1 where b: "body (i * sec_size cfg) sector x (db\<lparr>kv_cache_table := t, sector_cache_table := tab\<rparr>) =
        Some (False, e, x1, db\<lparr>kv_cache_table := t1, sector_cache_table := tab1\<rparr>)"
    and e: "info_of cfg (i * sec_size cfg) (L ! i) e" and tab1: "sec_cache_ok cfg L tab1" and p: "P x1 t1"
    using body [OF Suc.prems(1,4,3)] by blast
  have nx: "get_next_sector_addr cfg e (k * sec_size cfg + sec_size cfg) =
      (if Suc k < n then (Suc i mod n) * sec_size cfg else FAILED_ADDR)"
    by (rule get_next_sector_index) (use e Suc.prems sz mx in \<open>simp_all add: info_of_def\<close>)
  show ?case
  proof (cases "Suc k < n")
    case True
    have ne: "Suc i mod n * sec_size cfg \<noteq> FAILED_ADDR"
      using sector_end [of "Suc i mod n" n "sec_size cfg"] Suc.prems(1) mx by (simp add: FAILED_ADDR_def)
    have "Suc i mod n < n" "m = n - Suc k" using Suc.prems(1) Suc.hyps(2) by simp_all
    from Suc.hyps(1) [OF this(2,1) True tab1 p, of e] show ?thesis
      using True b sz nx ne by (subst sector_walk.simps) (simp add: add.commute)
  next
    case False
    show ?thesis
      by (intro exI [of _ e] exI [of _ x1] exI [of _ tab1] exI [of _ t1])
        (use False b sz nx tab1 p in \<open>subst sector_walk.simps, simp\<close>)
  qed
qed

lemma recovery_state:
  assumes st: "kv_state K {} cfg L db" and settled: "settled cfg L" and gc: "\<not> gc_request db" and kv: "length (kv_name kv) = 64"
  shows "\<exists>t tab. recovery_loop cfg kv db = Some (db\<lparr>kv_cache_table := t, sector_cache_table := tab\<rparr>)
    \<and> kv_state K {} cfg L (db\<lparr>kv_cache_table := t, sector_cache_table := tab\<rparr>)"
proof -
  have repr: "repr cfg L db" and sound: "cache_sound cfg L {} (kv_cache_table db)" using st by (simp_all add: kv_state_def)
  note ly = kv_state_layout [OF st]
  have tab0: "sec_cache_ok cfg L (sector_cache_table db)" using repr by (simp add: repr_def)
  obtain i where i: "i < length L" "oldest_addr db = i * sec_size cfg" using repr_oldest [OF repr] .
  define P :: "fdb_kv \<times> unit \<Rightarrow> kv_cache_node list \<Rightarrow> bool" where "P x t \<longleftrightarrow> length (kv_name (fst x)) = 64 \<and> cache_sound cfg L {} t" for x t
  have "\<exists>e x' tab' t'. sector_walk cfg (kv_iter_body cfg (check_and_recovery_kv_cb cfg)) (i * sec_size cfg) (0 * sec_size cfg) sec_zero (kv, ())
        (db\<lparr>kv_cache_table := kv_cache_table db, sector_cache_table := sector_cache_table db\<rparr>) =
      Some (False, e, x', db\<lparr>kv_cache_table := t', sector_cache_table := tab'\<rparr>) \<and> sec_cache_ok cfg L tab' \<and> P x' t'"
  proof (rule sector_walk_tabs [where P = P, OF ly refl _ i(1)])
    fix j sector x tab t
    assume j: "j < length L" and p: "P x t" and tab: "sec_cache_ok cfg L tab"
    have x: "x = (fst x, ())" "length (kv_name (fst x)) = 64" "cache_sound cfg L {} t" using p by (simp_all add: P_def prod_eq_iff)
    have "repr cfg L (db\<lparr>sector_cache_table := tab\<rparr>)" using repr tab by (simp add: repr_def)
    from recovery_iter_body [OF this j settled x(2,3), of sector]
    obtain e kv' tab' t' where "kv_iter_body cfg (check_and_recovery_kv_cb cfg) (j * sec_size cfg) sector (fst x, ())
        (db\<lparr>sector_cache_table := tab, kv_cache_table := t\<rparr>) =
        Some (False, e, (kv', ()), db\<lparr>sector_cache_table := tab, kv_cache_table := t', sector_cache_table := tab'\<rparr>)"
      "info_of cfg (j * sec_size cfg) (L ! j) e" "sec_cache_ok cfg L tab'" "length (kv_name kv') = 64" "cache_sound cfg L {} t'"
      by blast
    moreover have "db\<lparr>sector_cache_table := tab, kv_cache_table := t\<rparr> = db\<lparr>kv_cache_table := t, sector_cache_table := tab\<rparr>" by simp
    ultimately show "\<exists>e x' tab' t'. kv_iter_body cfg (check_and_recovery_kv_cb cfg) (j * sec_size cfg) sector x
          (db\<lparr>kv_cache_table := t, sector_cache_table := tab\<rparr>) =
          Some (False, e, x', db\<lparr>kv_cache_table := t', sector_cache_table := tab'\<rparr>)
        \<and> info_of cfg (j * sec_size cfg) (L ! j) e \<and> sec_cache_ok cfg L tab' \<and> P x' t'"
      using x(1) by (intro exI [of _ e] exI [of _ "(kv', ())"] exI [of _ tab'] exI [of _ t']) (simp add: P_def)
  qed (use i(1) tab0 kv sound in \<open>auto simp: P_def\<close>)
  then obtain e x' tab t where "sector_walk cfg (kv_iter_body cfg (check_and_recovery_kv_cb cfg)) (i * sec_size cfg) 0 sec_zero (kv, ()) db =
      Some (False, e, x', db\<lparr>kv_cache_table := t, sector_cache_table := tab\<rparr>)" and x': "sec_cache_ok cfg L tab" "P x' t"
    by auto
  then have "kv_iterator cfg kv () (check_and_recovery_kv_cb cfg) db = Some (fst x', (), db\<lparr>kv_cache_table := t, sector_cache_table := tab\<rparr>)"
    by (simp add: kv_iterator_def i(2) case_prod_beta)
  with x' show ?thesis
    using gc st by (intro exI [of _ t] exI [of _ tab], subst recovery_loop.simps) (simp add: kv_state_def repr_def P_def)
qed


section \<open>Initialisation\<close>

lemma kv_state_recovery [simp]: "kv_state K X cfg L (db\<lparr>in_recovery_check := b\<rparr>) = kv_state K X cfg L db"
  by (simp add: kv_state_def repr_def)

lemma load_state:
  assumes st: "kv_state K {} cfg L db" and settled: "settled cfg L" and gc: "\<not> gc_request db"
    and dirty: "\<forall>i < length L. sct_dirty (L ! i) \<noteq> FDB_SECTOR_DIRTY_GC"
  shows "\<exists>t tab. fdb_kv_load cfg db = Some (FDB_NO_ERR, db\<lparr>kv_cache_table := t, sector_cache_table := tab, in_recovery_check := False\<rparr>)
    \<and> kv_state K {} cfg L (db\<lparr>kv_cache_table := t, sector_cache_table := tab\<rparr>)"
proof -
  define db0 where "db0 = db\<lparr>in_recovery_check := True\<rparr>"
  have st0: "kv_state K {} cfg L db0" using st by (simp add: db0_def)
  have repr0: "repr cfg L db0" using st0 by (simp add: kv_state_def)
  note ly = kv_state_layout [OF st]
  obtain e1 t1 where it1: "sector_iterator cfg sec_zero FDB_SECTOR_STORE_UNUSED 0 (check_sec_hdr_cb cfg) False db0 =
      Some (e1, 0, db0\<lparr>sector_cache_table := t1\<rparr>)" and t1: "sec_cache_ok cfg L t1"
    using sector_iterator_quiet [OF repr0, of "check_sec_hdr_cb cfg" 0 sec_zero] by (auto simp: check_sec_hdr_cb_def info_of_def)
  define db1 where "db1 = db0\<lparr>sector_cache_table := t1\<rparr>"
  have repr1: "repr cfg L db1" using repr0 t1 by (simp add: repr_def db1_def)
  obtain e2 t2 where it2: "sector_iterator cfg e1 FDB_SECTOR_STORE_UNUSED () (check_and_recovery_gc_cb cfg) False db1 =
      Some (e2, (), db1\<lparr>sector_cache_table := t2\<rparr>)" and t2: "sec_cache_ok cfg L t2"
    using sector_iterator_quiet [OF repr1, of "check_and_recovery_gc_cb cfg" "()" e1] dirty
    by (auto simp: check_and_recovery_gc_cb_def info_of_def)
  define db2 where "db2 = db1\<lparr>sector_cache_table := t2\<rparr>"
  have st2: "kv_state K {} cfg L db2" using st0 t2 by (simp add: kv_state_def repr_def db2_def db1_def)
  have "\<not> gc_request db2" using gc by (simp add: db2_def db1_def db0_def)
  then obtain t tab where rl: "recovery_loop cfg kv_zero db2 = Some (db2\<lparr>kv_cache_table := t, sector_cache_table := tab\<rparr>)"
    and st3: "kv_state K {} cfg L (db2\<lparr>kv_cache_table := t, sector_cache_table := tab\<rparr>)"
    using recovery_state [OF st2 settled, of kv_zero] by (auto simp: kv_zero_def kvdb_consts)
  have "max_size cfg div sec_size cfg = length L" "L \<noteq> []" using ly layout_sec_size(1) [OF ly] by (auto simp: layout_def)
  then have "fdb_kv_load cfg db = Some (FDB_NO_ERR, db2\<lparr>kv_cache_table := t, sector_cache_table := tab, in_recovery_check := False\<rparr>)"
    using it1 it2 rl by (simp add: fdb_kv_load_def db0_def [symmetric] db1_def [symmetric] db2_def [symmetric])
  moreover have "db2\<lparr>kv_cache_table := t, sector_cache_table := tab, in_recovery_check := False\<rparr> =
      db\<lparr>kv_cache_table := t, sector_cache_table := tab, in_recovery_check := False\<rparr>"
    by (simp add: db2_def db1_def db0_def)
  moreover have "kv_state K {} cfg L (db\<lparr>kv_cache_table := t, sector_cache_table := tab\<rparr>)"
    using st3 by (simp add: kv_state_def repr_def db2_def db1_def db0_def)
  ultimately show ?thesis by auto
qed

text \<open>
  The search for the oldest sector goes through a sector cache that is all zero: every lookup of the first sector finds an
  entry for address 0 that says the sector is 0 sectors long, so that the walk stays at the first sector and the oldest
  address is 0, whatever is in flash.
\<close>

lemma oldest_walk_zero:
  assumes "0 < sec_size cfg" and hit: "get_sector_from_cache db 0 = Some i" "sector_cache_table db ! i = sec_zero"
  shows "sector_walk cfg (sector_iter_body cfg FDB_SECTOR_STORE_UNUSED check_oldest_addr_cb False) 0 n sector (0, l) db =
    Some (False, sec_zero, (0, FDB_SECTOR_STORE_UNUSED), db)"
proof (induction "max_size cfg + 1 - n" arbitrary: n sector l rule: less_induct)
  case less
  have b: "sector_iter_body cfg FDB_SECTOR_STORE_UNUSED check_oldest_addr_cb False 0 sector (0, l) db =
      Some (False, sec_zero, (0, FDB_SECTOR_STORE_UNUSED), db)"
    using assms by (simp add: sector_iter_body_def read_sector_info_def check_oldest_addr_cb_def sec_zero_def kvdb_consts)
  have nx: "get_next_sector_addr cfg sec_zero (n + sec_size cfg) = (if n + sec_size cfg \<le> max_size cfg then 0 else FAILED_ADDR)"
    by (simp add: get_next_sector_addr_def sec_zero_def SECTOR_NOT_COMBINED_def)
  show ?case
  proof (cases "n + sec_size cfg \<le> max_size cfg")
    case True
    then show ?thesis
      using assms(1) b nx less [of "n + sec_size cfg" sec_zero FDB_SECTOR_STORE_UNUSED]
      by (subst sector_walk.simps) (simp add: FAILED_ADDR_def)
  next
    case False
    then show ?thesis using assms(1) b nx by (subst sector_walk.simps) simp
  qed
qed

text \<open>A handle as a program with static storage passes it: all fields zero.\<close>

definition fresh_handle :: "fdb_kvdb \<Rightarrow> bool" where
  "fresh_handle db \<longleftrightarrow>
     \<not> db_init_ok db \<and> \<not> last_is_complete_del db \<and> cur_kv db = kv_zero
     \<and> sector_cache_table db = replicate FDB_SECTOR_CACHE_TABLE_SIZE sec_zero
     \<and> kv_cache_table db = replicate FDB_KV_CACHE_TABLE_SIZE \<lparr>name_crc = 0, active = 0, cache_addr = 0\<rparr>"

lemma cleared_state:
  assumes ly: "layout cfg L (cells (flash db))" and "key_set K" and "uniq cfg L" and "\<forall>k a v. visible cfg L k a v \<longrightarrow> k \<in> K"
    and "fresh_handle db" and "oldest_addr db = 0"
  shows "kv_state K {} cfg L (clear_caches db)"
proof -
  define db0 where "db0 = clear_caches db"
  have "sec_addrs_ok {} (sector_cache_table db0)"
    using assms(5) by (simp add: db0_def clear_caches_def fresh_handle_def sec_addrs_ok_def kvdb_consts)
  then have "sec_cache_ok cfg L (sector_cache_table db0)" by (rule forgotten_cache_ok)
  moreover have "0 < max_size cfg" using ly layout_sec_size(1) [OF ly] by (auto simp: layout_def)
  ultimately have "repr cfg L db0" using ly assms(6) by (simp add: repr_def db0_def clear_caches_def)
  moreover have "cache_map (kv_cache_table db0) crc = None" for crc
    using assms(5) find_index_Some [of "same_crc crc" "kv_cache_table db0"]
    by (auto simp: cache_map_def db0_def clear_caches_def fresh_handle_def split: option.splits)
  moreover have "kv_tab_ok (kv_cache_table db0)"
    using assms(5) by (simp add: kv_tab_ok_def db0_def clear_caches_def fresh_handle_def list_all_length kvdb_consts)
  ultimately show ?thesis using assms(2-4) unfolding db0_def [symmetric] by (simp add: kv_state_def cache_sound_def)
qed

lemma init_state:
  assumes ex: "fdb_init_ex part False cfg0 = Some (FDB_NO_ERR, cfg)" and fresh: "fresh_handle db"
    and ly: "layout cfg L (cells (flash db))" and K: "key_set K" and u: "uniq cfg L" and vis: "\<forall>k a v. visible cfg L k a v \<longrightarrow> k \<in> K"
    and settled: "settled cfg L" and dirty: "\<forall>i < length L. sct_dirty (L ! i) \<noteq> FDB_SECTOR_DIRTY_GC"
  shows "\<exists>db'. fdb_kvdb_init part ds cfg0 db = Some (FDB_NO_ERR, cfg, db') \<and> kv_inv K cfg L db' \<and> flash db' = flash db"
proof -
  have sz: "0 < sec_size cfg" "max_size cfg div sec_size cfg = length L" "2 \<le> length L"
    using ly layout_sec_size(1) [OF ly] by (simp_all add: layout_def)
  define db1 where "db1 = db\<lparr>gc_request := False, in_recovery_check := False,
                   default_kvs := (case ds of Some d \<Rightarrow> d | None \<Rightarrow> []), oldest_addr := 0\<rparr>"
  have ft: "sector_cache_table db1 = replicate 8 sec_zero" "fresh_handle db1" "oldest_addr db1 = 0"
    using fresh by (simp_all add: db1_def fresh_handle_def kvdb_consts)
  have "sec_addr sec_zero = 0" by (simp add: sec_zero_def)
  then have "get_sector_from_cache db1 0 = Some 0" "sector_cache_table db1 ! 0 = sec_zero"
    by (simp_all add: get_sector_from_cache_def ft(1) numeral_eq_Suc)
  from oldest_walk_zero [OF sz(1) this]
  have it: "sector_iterator cfg sec_zero FDB_SECTOR_STORE_UNUSED (0, FDB_SECTOR_STORE_UNUSED) check_oldest_addr_cb False db1 =
      Some (sec_zero, (0, FDB_SECTOR_STORE_UNUSED), db1)"
    by (simp add: sector_iterator_def ft(3))
  have "db1\<lparr>oldest_addr := 0\<rparr> = db1" by (simp add: db1_def)
  moreover have "kv_state K {} cfg L (clear_caches db1)"
    by (rule cleared_state) (use ly K u vis ft in \<open>simp_all add: db1_def\<close>)
  moreover have "\<not> gc_request (clear_caches db1)" by (simp add: clear_caches_def db1_def)
  ultimately obtain t tab where load: "fdb_kv_load cfg (clear_caches db1) =
        Some (FDB_NO_ERR, (clear_caches db1)\<lparr>kv_cache_table := t, sector_cache_table := tab, in_recovery_check := False\<rparr>)"
    and st: "kv_state K {} cfg L ((clear_caches db1)\<lparr>kv_cache_table := t, sector_cache_table := tab\<rparr>)"
    using load_state [OF _ settled _ dirty] by blast
  define db2 where "db2 = (clear_caches db1)\<lparr>kv_cache_table := t, sector_cache_table := tab, in_recovery_check := False, db_init_ok := True\<rparr>"
  have "fdb_kvdb_init part ds cfg0 db = Some (FDB_NO_ERR, cfg, db2)"
    using ex fresh it load sz \<open>db1\<lparr>oldest_addr := 0\<rparr> = db1\<close>
    by (simp add: fdb_kvdb_init_def fresh_handle_def db1_def [symmetric] fdb_init_finish_def kvdb_consts db2_def)
  moreover have "kv_inv K cfg L db2"
    using st settled fresh by (simp add: kv_inv_def kv_state_def repr_def db2_def clear_caches_def db1_def fresh_handle_def kv_zero_def)
  moreover have "flash db2 = flash db" by (simp add: db2_def clear_caches_def db1_def)
  ultimately show ?thesis by blast
qed

lemma store_restart:
  assumes rel: "store_rel K cfg kv db m n" and fl: "flash db0 = flash db" and fresh: "fresh_handle db0"
    and ex: "fdb_init_ex part False cfg0 = Some (FDB_NO_ERR, cfg)"
  shows "\<exists>db'. fdb_kvdb_init part ds cfg0 db0 = Some (FDB_NO_ERR, cfg, db') \<and> store_rel K cfg kv db' m n \<and> flash db' = flash db"
proof -
  obtain L where L: "kv_inv K cfg L db" "contents L = m" "room_inv L n" and kv: "length (kv_name kv) = FDB_KV_NAME_MAX"
    using rel by (auto simp: store_rel_def)
  have st: "kv_state K {} cfg L db" and settled: "settled cfg L" using L(1) by (simp_all add: kv_inv_def)
  obtain db' where "fdb_kvdb_init part ds cfg0 db0 = Some (FDB_NO_ERR, cfg, db')" "kv_inv K cfg L db'" "flash db' = flash db"
    using init_state [OF ex fresh _ _ _ _ settled, of K ds] st L(3) fl
    by (auto simp: kv_state_def repr_def room_inv_def)
  then show ?thesis using L kv by (auto simp: store_rel_def)
qed

end
