(* ===== verification/Fdb_Kvdb_Main.thy ===== *)
theory Fdb_Kvdb_Main
  imports Fdb_Kvdb_Load
begin

text \<open>
  The main properties of the key-value database: it refines a map, and a power failure while a value is replaced leaves
  the old value or the new one.
\<close>

section \<open>Power failures while a value is replaced\<close>

lemma layout_stored_rec:
  assumes ly: "layout cfg L m" and r: "rec_at cfg L a (st, key, v)"
  shows "stored m a (kv_record st key v)"
proof -
  obtain i k where i: "i < length L" "k < length (sct_recs (L ! i))" "sct_recs (L ! i) ! k = (st, key, v)" "a = addr_of cfg L i k"
    using r by (auto simp: rec_at_def)
  have st: "stored m (i * sec_size cfg) (sect_bytes cfg (L ! i))" using ly i(1) by (simp add: layout_def)
  have recs: "sct_recs (L ! i) = take k (sct_recs (L ! i)) @ (st, key, v) # drop (Suc k) (sct_recs (L ! i))"
    using id_take_nth_drop [OF i(2)] i(3) by simp
  from stored_rec [OF st recs] show ?thesis using i(4) by (simp add: addr_of_def enc_rec_def)
qed

text \<open>Two records do not overlap, and no record overlaps the header or the free space of a sector.\<close>

lemma rec_disjoint:
  assumes ly: "layout cfg L m" and r: "rec_at cfg L a r" and r': "rec_at cfg L b r'" and ne: "a \<noteq> b"
  shows "a + rec_size r \<le> b \<or> b + rec_size r' \<le> a"
proof -
  obtain i k where i: "i < length L" "k < length (sct_recs (L ! i))" "sct_recs (L ! i) ! k = r" "a = addr_of cfg L i k"
    using r by (auto simp: rec_at_def)
  obtain j l where j: "j < length L" "l < length (sct_recs (L ! j))" "sct_recs (L ! j) ! l = r'" "b = addr_of cfg L j l"
    using r' by (auto simp: rec_at_def)
  note b = addr_bounds [OF ly i(1,2)] addr_bounds [OF ly j(1,2)]
  have step: "addr_of cfg L i k1 + rec_size (sct_recs (L ! i) ! k1) \<le> addr_of cfg L i k2"
    if "k1 < k2" "k1 < length (sct_recs (L ! i))" for i k1 k2
  proof -
    have "recs_size (take (Suc k1) (sct_recs (L ! i))) \<le> recs_size (take k2 (sct_recs (L ! i)))"
      using recs_size_take_le [of "Suc k1" "take k2 (sct_recs (L ! i))"] that by (simp add: min_def)
    then show ?thesis using that by (simp add: addr_of_def take_Suc_conv_app_nth)
  qed
  show ?thesis
  proof (cases i j rule: linorder_cases)
    case less
    then show ?thesis using sector_end [OF less, of "sec_size cfg"] b i j by simp
  next
    case greater
    then show ?thesis using sector_end [OF greater, of "sec_size cfg"] b i j by simp
  next
    case equal
    then have "k \<noteq> l" using ne i j by auto
    then show ?thesis using step [of k l i] step [of l k i] i j equal by (cases k l rule: linorder_cases) auto
  qed
qed

lemma rec_in_sector:
  assumes ly: "layout cfg L m" and r: "rec_at cfg L a r" and j: "j < length L"
  shows "a + rec_size r \<le> j * sec_size cfg \<or> j * sec_size cfg + 16 \<le> a"
    and "a + rec_size r \<le> j * sec_size cfg + 16 + recs_size (sct_recs (L ! j)) \<or> j * sec_size cfg + sec_size cfg \<le> a"
proof -
  obtain i k where i: "i < length L" "k < length (sct_recs (L ! i))" "sct_recs (L ! i) ! k = r" "a = addr_of cfg L i k"
    using r by (auto simp: rec_at_def)
  note b = addr_bounds [OF ly i(1,2)]
  have last: "a + rec_size r \<le> i * sec_size cfg + 16 + recs_size (sct_recs (L ! i))"
    using recs_size_take_le [of "Suc k" "sct_recs (L ! i)"] i by (simp add: addr_of_def take_Suc_conv_app_nth)
  show "a + rec_size r \<le> j * sec_size cfg \<or> j * sec_size cfg + 16 \<le> a"
    using b i sector_end [of i j "sec_size cfg"] sector_end [of j i "sec_size cfg"] by (cases i j rule: linorder_cases) auto
  show "a + rec_size r \<le> j * sec_size cfg + 16 + recs_size (sct_recs (L ! j)) \<or> j * sec_size cfg + sec_size cfg \<le> a"
    using b i last sector_end [of i j "sec_size cfg"] sector_end [of j i "sec_size cfg"] by (cases i j rule: linorder_cases) auto
qed

text \<open>The bytes of a record that the operations do not touch.\<close>

lemma spared_rec:
  assumes ly: "layout cfg L m" and r: "rec_at cfg L b (st, k, w)" and x: "b \<le> x" "x < b + kv_size k w"
  shows "rec_at cfg L a r \<Longrightarrow> a \<noteq> b \<Longrightarrow> list_all (op_spares x) (del_ops cfg a st' m')"
    and "place cfg L (kv_size key val) j e \<Longrightarrow> list_all (op_spares x) (create_ops e key val)"
proof -
  have sz: "rec_size (st, k, w) = kv_size k w" by (simp add: rec_size_def)
  show "list_all (op_spares x) (del_ops cfg a st' m')" if a: "rec_at cfg L a r" and ne: "a \<noteq> b"
  proof -
    have pos: "0 < rec_size r" by (simp add: rec_size_def kv_size_def split: prod.splits)
    have "x \<noteq> a" using rec_disjoint [OF ly a r ne] x pos sz by auto
    moreover obtain i l where i: "i < length L" "l < length (sct_recs (L ! i))" "sct_recs (L ! i) ! l = r" "a = addr_of cfg L i l"
      using a by (auto simp: rec_at_def)
    have "FDB_ALIGN_DOWN a (sec_size cfg) = i * sec_size cfg"
      by (rule align_down_sector) (use addr_bounds [OF ly i(1,2)] i in auto)
    moreover have "x \<noteq> i * sec_size cfg + 1" using rec_in_sector(1) [OF ly r i(1)] x sz by auto
    ultimately show ?thesis by (auto simp: del_ops_def dirty_ops_def Let_def)
  qed
  show "list_all (op_spares x) (create_ops e key val)" if pl: "place cfg L (kv_size key val) j e"
  proof (rule create_ops_spares)
    have j: "j < length L" "sec_addr e = j * sec_size cfg" "empty_kv e = j * sec_size cfg + 16 + recs_size (sct_recs (L ! j))"
      "kv_size key val + 88 < sec_size cfg - 16 - recs_size (sct_recs (L ! j))"
      using pl by (auto simp: place_def kvdb_consts)
    show "x \<noteq> sec_addr e" using rec_in_sector(1) [OF ly r j(1)] x sz j by auto
    show "x < empty_kv e \<or> empty_kv e + kv_size key val \<le> x" using rec_in_sector(2) [OF ly r j(1)] x sz j by auto
  qed
qed

lemma replace_crash:
  assumes repr: "repr cfg L db" and vis: "visible cfg L key a v" and pl: "place cfg L (kv_size key val) j e"
    and c: "crash (replace_ops cfg a e key val (cells (flash db))) (cells (flash db)) c"
  shows "stored c a (kv_record FDB_KV_WRITE key v) \<or> stored c a (kv_record FDB_KV_PRE_DELETE key v)
      \<or> stored c (empty_kv e) (kv_record FDB_KV_WRITE key val)"
    and "visible cfg L k b w \<Longrightarrow> b \<noteq> a \<Longrightarrow> stored c b (kv_record FDB_KV_WRITE k w)"
proof -
  define m where "m = cells (flash db)"
  have ly: "layout cfg L m" using repr by (simp add: repr_def m_def)
  have r: "rec_at cfg L a (FDB_KV_WRITE, key, v)" using vis by (simp add: visible_rec_at)
  have le: "FDB_KV_WRITE \<le> FDB_KV_PRE_DELETE" by (simp add: kvdb_consts)
  define pre where "pre = del_ops cfg a FDB_KV_PRE_DELETE m"
  define cr where "cr = create_ops e key val"
  obtain L1 where repr1: "repr cfg L1 ((dirty_caches cfg a m db)\<lparr>flash := performed pre (flash db)\<rparr>)"
    and rec1: "\<And>b r. rec_at cfg L1 b r \<longleftrightarrow> (if b = a then r = (FDB_KV_PRE_DELETE, key, v) else rec_at cfg L b r)"
    and pl1: "place cfg L1 (kv_size key val) j e" and a: "a < length m" "FDB_ALIGN_DOWN a (sec_size cfg) + 1 < a"
    unfolding pre_def m_def by (rule status_rec_at [OF repr r le]) (use pl in auto)
  define m1 where "m1 = replay pre m"
  have ly1: "layout cfg L1 m1" using repr1 by (simp add: repr_def m1_def m_def)
  have room: "room_for cfg e key val m1" using place_room(1) [OF repr1 pl1] by (simp add: m1_def m_def)
  have dfits: "list_all (op_fits n) (del_ops cfg a st' m')" if "a < n" for st' m' n
    using that a(2) by (auto simp: del_ops_def dirty_ops_def Let_def)
  have fits: "list_all (op_fits (length m)) pre" "list_all (op_fits (length m1)) cr"
    using dfits [OF a(1)] create_ops_fits [OF room] by (simp_all add: pre_def cr_def)
  have l1: "length m1 = length m" unfolding m1_def by (rule length_replay [OF fits(1)])
  define m2 where "m2 = replay cr m1"
  have l2: "length m2 = length m" unfolding m2_def using length_replay [OF fits(2)] l1 by simp
  have r1: "rec_at cfg L1 a (FDB_KV_PRE_DELETE, key, v)" by (simp add: rec1)
  have ops: "replace_ops cfg a e key val m = pre @ cr @ del_ops cfg a FDB_KV_DELETED m2"
    by (simp add: replace_ops_def Let_def pre_def cr_def m2_def m1_def)
  have fits3: "list_all (op_fits (length m2)) (del_ops cfg a FDB_KV_DELETED m2)" using dfits a(1) l2 by simp
  have cases: "crash pre m c \<or> crash cr m1 c \<or> crash (del_ops cfg a FDB_KV_DELETED m2) m2 c"
    using c unfolding m_def [symmetric] ops by (metis crash_append m1_def m2_def)
  have pre_del: "stored c a (kv_record FDB_KV_WRITE key v) \<or> stored c a (kv_record FDB_KV_PRE_DELETE key v)" if c1: "crash pre m c"
  proof -
    have st: "stored m a (kv_record FDB_KV_WRITE key v)" by (rule layout_stored_rec [OF ly r])
    define q where "q = Program a [status_byte (Suc FDB_KV_WRITE)]"
    have pq: "pre = [q] @ dirty_ops cfg a m" by (simp add: pre_def del_ops_def q_def kvdb_consts numeral_3_eq_3 numeral_2_eq_2)
    have sq: "Suc FDB_KV_WRITE = FDB_KV_PRE_DELETE" by (simp add: kvdb_consts)
    from crash_append [OF c1 [unfolded pq]] show ?thesis
    proof
      assume "crash [q] m c"
      from status_step [OF st this [unfolded q_def]] show ?thesis unfolding sq .
    next
      assume c2: "crash (dirty_ops cfg a m) (replay [q] m) c"
      have st': "stored (replay [q] m) a (kv_record FDB_KV_PRE_DELETE key v)"
        using status_step_done [OF st, of FDB_KV_PRE_DELETE] by (simp add: q_def sq) (simp add: kvdb_consts)
      have "stored c a (kv_record FDB_KV_PRE_DELETE key v)"
        by (rule crash_stored [OF c2 _ st']) (use a in \<open>auto simp: dirty_ops_def Let_def q_def\<close>)
      then show ?thesis ..
    qed
  qed
  from cases show "stored c a (kv_record FDB_KV_WRITE key v) \<or> stored c a (kv_record FDB_KV_PRE_DELETE key v)
      \<or> stored c (empty_kv e) (kv_record FDB_KV_WRITE key val)"
  proof (elim disjE)
    assume "crash pre m c"
    with pre_del show ?thesis by blast
  next
    assume c2: "crash cr m1 c"
    have "stored c a (kv_record FDB_KV_PRE_DELETE key v)"
      by (rule crash_stored [OF c2 fits(2) layout_stored_rec [OF ly1 r1]])
        (use spared_rec(2) [OF ly1 r1 _ _ pl1] in \<open>simp add: cr_def\<close>)
    then show ?thesis by blast
  next
    assume c3: "crash (del_ops cfg a FDB_KV_DELETED m2) m2 c"
    have st: "stored m2 (empty_kv e) (kv_record FDB_KV_WRITE key val)"
      using create_done [OF room] by (simp add: m2_def cr_def)
    have "list_all (op_spares x) (del_ops cfg a FDB_KV_DELETED m2)" if "empty_kv e \<le> x" "x < empty_kv e + kv_size key val" for x
    proof -
      have j: "j < length L1" "empty_kv e = j * sec_size cfg + 16 + recs_size (sct_recs (L1 ! j))"
        "kv_size key val + 88 < sec_size cfg - 16 - recs_size (sct_recs (L1 ! j))"
        using pl1 by (auto simp: place_def kvdb_consts)
      obtain i l where i: "i < length L1" "l < length (sct_recs (L1 ! i))" "a = addr_of cfg L1 i l"
        using r1 by (auto simp: rec_at_def)
      have al: "FDB_ALIGN_DOWN a (sec_size cfg) = i * sec_size cfg"
        by (rule align_down_sector) (use addr_bounds [OF ly1 i(1,2)] i in auto)
      have "x \<noteq> a" using rec_in_sector(2) [OF ly1 r1 j(1)] that j by (auto simp: rec_size_def kv_size_def)
      moreover have "x \<noteq> i * sec_size cfg + 1"
        using that j sector_end [of i j "sec_size cfg"] sector_end [of j i "sec_size cfg"] by (cases i j rule: linorder_cases) auto
      ultimately show ?thesis by (auto simp: del_ops_def dirty_ops_def Let_def al)
    qed
    then have "stored c (empty_kv e) (kv_record FDB_KV_WRITE key val)"
      by (intro crash_stored [OF c3 fits3 st]) simp
    then show ?thesis by blast
  qed
  show "stored c b (kv_record FDB_KV_WRITE k w)" if b: "visible cfg L k b w" "b \<noteq> a"
  proof -
    have rb: "rec_at cfg L b (FDB_KV_WRITE, k, w)" "rec_at cfg L1 b (FDB_KV_WRITE, k, w)" using b by (simp_all add: visible_rec_at rec1)
    have s0: "stored m b (kv_record FDB_KV_WRITE k w)" by (rule layout_stored_rec [OF ly rb(1)])
    have s1: "stored m1 b (kv_record FDB_KV_WRITE k w)" by (rule layout_stored_rec [OF ly1 rb(2)])
    have s2: "stored m2 b (kv_record FDB_KV_WRITE k w)" unfolding m2_def
      by (rule replay_stored [OF fits(2) s1]) (use spared_rec(2) [OF ly1 rb(2) _ _ pl1] in \<open>simp add: cr_def\<close>)
    from cases show ?thesis
    proof (elim disjE)
      assume "crash pre m c"
      then show ?thesis
        by (rule crash_stored [OF _ fits(1) s0]) (use spared_rec(1) [OF ly rb(1) _ _ r] b(2) in \<open>simp add: pre_def\<close>)
    next
      assume "crash cr m1 c"
      then show ?thesis
        by (rule crash_stored [OF _ fits(2) s1]) (use spared_rec(2) [OF ly1 rb(2) _ _ pl1] in \<open>simp add: cr_def\<close>)
    next
      assume "crash (del_ops cfg a FDB_KV_DELETED m2) m2 c"
      then show ?thesis
        by (rule crash_stored [OF _ fits3 s2]) (use spared_rec(1) [OF ly1 rb(2) _ _ r1] b(2) in simp)
    qed
  qed
qed

section \<open>A small database\<close>

abbreviation key1 :: bytes where "key1 \<equiv> [0x6B, 0x31]"

lemma demo_layout: "layout demo_cfg [blank, blank] (cells (flash demo_db))"
proof -
  have sz: "sec_size demo_cfg = 512" "max_size demo_cfg = 1024" by (simp_all add: demo_cfg_def)
  have wf: "wf_sect demo_cfg blank" by (rule blank_wf) (simp add: sz)
  have b: "sect_bytes demo_cfg blank = sector_hdr SECTOR_NOT_COMBINED @ replicate 496 0xFF"
    by (simp add: sect_bytes_def blank_def sector_hdr_blank sz)
  have "stored (cells (flash demo_db)) 0 (sect_bytes demo_cfg blank)" "stored (cells (flash demo_db)) 512 (sect_bytes demo_cfg blank)"
    by (simp_all add: b demo_db_def stored_def)
  then show ?thesis using wf by (auto simp: layout_def sz demo_db_def less_Suc_eq)
qed

lemma demo_keys_inv:
  assumes "key_set K"
  shows "kv_inv K demo_cfg [blank, blank] demo_db"
proof -
  have L: "[blank, blank] = replicate 2 blank" by (simp add: numeral_2_eq_2)
  have novis: "\<not> visible demo_cfg [blank, blank] k a v" for k a v unfolding L by (rule blank_visible)
  have "sec_cache_ok demo_cfg [blank, blank] (sector_cache_table demo_db)"
    by (rule forgotten_cache_ok) (simp add: sec_addrs_ok_def demo_db_def kvdb_consts)
  then have repr: "repr demo_cfg [blank, blank] demo_db"
    using demo_layout by (simp add: repr_def demo_db_def demo_cfg_def)
  have "cache_map (kv_cache_table demo_db) crc = None" for crc
    using find_index_Some [of "same_crc crc" "kv_cache_table demo_db"] by (auto simp: cache_map_def demo_db_def split: option.splits)
  moreover have "kv_tab_ok (kv_cache_table demo_db)" by (simp add: kv_tab_ok_def demo_db_def list_all_length kvdb_consts)
  ultimately have "cache_sound demo_cfg [blank, blank] {} (kv_cache_table demo_db)" by (simp add: cache_sound_def)
  then have "kv_state K {} demo_cfg [blank, blank] demo_db" using repr novis assms by (simp add: kv_state_def uniq_def)
  then show ?thesis using blank_settled [of demo_cfg 2] by (simp add: kv_inv_def demo_db_def kv_zero_def numeral_2_eq_2)
qed

lemma demo_inv: "kv_inv {key1} demo_cfg [blank, blank] demo_db"
  by (rule demo_keys_inv) (simp add: key_set_def FDB_KV_NAME_MAX_def)

lemma demo_room_inv: "room_inv [blank, blank] 0"
  using blank_room [of 2] by (simp add: numeral_2_eq_2)

section \<open>The database is a map\<close>

text \<open>
  C17: writing a value with \<open>fdb_kv_set_blob\<close> on a well-formed database that has room for the record succeeds, keeps the
  database well-formed, and changes its contents in exactly that key; the garbage collector is not needed, and neither
  are the caches: the contents are what is in flash.
\<close>

theorem fdb_set_refines_map:
  assumes "kv_inv K cfg L db" and "key \<in> K" and "mem_read value 0 len = Some val" and "has_room cfg L False (kv_size key val)"
  shows "\<exists>L' db'. fdb_kv_set_blob cfg key (a_blob value len) db = Some (FDB_NO_ERR, db') \<and> kv_inv K cfg L' db'
    \<and> contents L' = (contents L)(key \<mapsto> val)"
  using set_kv_state [OF assms] assms(1) by (auto simp: fdb_kv_set_blob_def a_blob_def fdb_blob_make_def kv_inv_def)

lemma demo_has_room: "has_room demo_cfg [blank, blank] False (kv_size key1 [1, 2, 3])"
  by (rule room_inv_room [OF demo_layout demo_room_inv]) (simp add: demo_cfg_def kv_size_def)

theorem fdb_set_refines_map_witness:
  "\<exists>L' db'. fdb_kv_set_blob demo_cfg key1 (a_blob [1, 2, 3, 4] 3) demo_db = Some (FDB_NO_ERR, db')
    \<and> kv_inv {key1} demo_cfg L' db' \<and> contents L' = [key1 \<mapsto> [1, 2, 3]]"
proof -
  have c: "contents [blank, blank] = Map.empty" using blank_contents [of 2] by (simp add: numeral_2_eq_2)
  have rd: "mem_read [1, 2, 3, 4 :: u8] 0 3 = Some [1, 2, 3]" by (simp add: mem_read_def)
  from fdb_set_refines_map [OF demo_inv _ rd demo_has_room, unfolded c] show ?thesis by simp
qed

text \<open>
  C7: replacing the value of a key is safe against power failures: \<open>fdb_kv_set_blob\<close> succeeds with a sequence of flash
  operations such that a power failure at any moment, also in the middle of programming a byte, leaves in flash the
  complete record of the old value (visible, or with the mark that recovery takes back) or the complete visible record
  of the new value, and the records of all other keys.
\<close>

theorem fdb_replace_crash_safe:
  assumes "kv_inv K cfg L db" and "key \<in> K" and "mem_read value 0 len = Some val" and "has_room cfg L False (kv_size key val)"
    and "visible cfg L key a v"
  shows "\<exists>ops db' e. fdb_kv_set_blob cfg key (a_blob value len) db = Some (FDB_NO_ERR, db')
    \<and> flash db' = performed ops (flash db)
    \<and> (\<forall>c. crash ops (cells (flash db)) c \<longrightarrow>
          (stored c a (kv_record FDB_KV_WRITE key v) \<or> stored c a (kv_record FDB_KV_PRE_DELETE key v)
             \<or> stored c e (kv_record FDB_KV_WRITE key val))
          \<and> (\<forall>k b w. visible cfg L k b w \<and> k \<noteq> key \<longrightarrow> stored c b (kv_record FDB_KV_WRITE k w)))"
proof -
  have st: "kv_state K {} cfg L db" and ok: "db_init_ok db" using assms(1) by (simp_all add: kv_inv_def)
  have repr: "repr cfg L db" and u: "uniq cfg L" using st by (simp_all add: kv_state_def)
  obtain db' j e where set: "set_kv cfg key (Some value) len db = Some (FDB_NO_ERR, db')" and pl: "place cfg L (kv_size key val) j e"
    and f: "flash db' = performed (replace_ops cfg a e key val (cells (flash db))) (flash db)"
    using set_kv_state [OF assms(1-4)] assms(5) by blast
  have "b \<noteq> a" if "visible cfg L k b w" "k \<noteq> key" for k b w
    using only_one [OF kv_state_layout [OF st] u assms(5)] that by blast
  then show ?thesis
    using set ok f replace_crash [OF repr assms(5) pl]
    by (intro exI [of _ "replace_ops cfg a e key val (cells (flash db))"] exI [of _ db'] exI [of _ "empty_kv e"])
      (auto simp: fdb_kv_set_blob_def a_blob_def fdb_blob_make_def)
qed

theorem fdb_replace_crash_safe_witness:
  "\<exists>db1 a ops db2 e. fdb_kv_set_blob demo_cfg key1 (a_blob [1, 2, 3] 3) demo_db = Some (FDB_NO_ERR, db1)
    \<and> fdb_kv_set_blob demo_cfg key1 (a_blob [7] 1) db1 = Some (FDB_NO_ERR, db2) \<and> flash db2 = performed ops (flash db1)
    \<and> (\<forall>c. crash ops (cells (flash db1)) c \<longrightarrow>
          stored c a (kv_record FDB_KV_WRITE key1 [1, 2, 3]) \<or> stored c a (kv_record FDB_KV_PRE_DELETE key1 [1, 2, 3])
          \<or> stored c e (kv_record FDB_KV_WRITE key1 [7]))"
proof -
  have rd: "mem_read [1, 2, 3 :: u8] 0 3 = Some [1, 2, 3]" "mem_read [7 :: u8] 0 1 = Some [7]" by (simp_all add: mem_read_def)
  have ok: "db_init_ok demo_db" by (simp add: demo_db_def)
  obtain L1 db1 where set1: "set_kv demo_cfg key1 (Some [1, 2, 3]) 3 demo_db = Some (FDB_NO_ERR, db1)"
    and inv1: "kv_inv {key1} demo_cfg L1 db1" and c1: "contents L1 = (contents [blank, blank])(key1 \<mapsto> [1, 2, 3])"
    and g1: "grows [blank, blank] L1 (kv_size key1 [1, 2, 3])" "\<exists>j < length L1. sct_store (L1 ! j) = FDB_SECTOR_STORE_USING"
    using set_kv_state [OF demo_inv _ rd(1) demo_has_room] by auto
  have st1: "kv_state {key1} {} demo_cfg L1 db1" using inv1 by (simp add: kv_inv_def)
  have "uniq demo_cfg L1" using st1 by (simp add: kv_state_def)
  then obtain a where vis: "visible demo_cfg L1 key1 a [1, 2, 3]"
    using contents_visible [OF kv_state_layout [OF st1], of key1 "[1, 2, 3]"] c1 by auto
  have "has_room demo_cfg L1 False (kv_size key1 [7])"
    by (rule room_inv_room [OF kv_state_layout [OF st1] room_inv_grows [OF demo_room_inv g1]]) (simp add: demo_cfg_def kv_size_def)
  from fdb_replace_crash_safe [OF inv1 _ rd(2) this vis]
  obtain ops db2 e where "fdb_kv_set_blob demo_cfg key1 (a_blob [7] 1) db1 = Some (FDB_NO_ERR, db2)" "flash db2 = performed ops (flash db1)"
    "\<forall>c. crash ops (cells (flash db1)) c \<longrightarrow>
          stored c a (kv_record FDB_KV_WRITE key1 [1, 2, 3]) \<or> stored c a (kv_record FDB_KV_PRE_DELETE key1 [1, 2, 3])
          \<or> stored c e (kv_record FDB_KV_WRITE key1 [7])"
    by blast
  moreover have "fdb_kv_set_blob demo_cfg key1 (a_blob [1, 2, 3] 3) demo_db = Some (FDB_NO_ERR, db1)"
    using set1 ok by (simp add: fdb_kv_set_blob_def a_blob_def fdb_blob_make_def)
  ultimately show ?thesis by blast
qed

text \<open>
  C4: whatever is in flash, after \<open>fdb_kv_set_default\<close> every sequence of \<open>fdb_kv_get_blob\<close>, \<open>fdb_kv_set_blob\<close> and
  \<open>fdb_kv_del\<close> calls whose records fit into one sector runs without an error and reads exactly what the same sequence
  reads from a map that starts with the default values.  The keys are shorter than the name buffer, have no zero byte, and
  differ in the 16-bit checksum by which the address cache tells them apart.
\<close>

theorem fdb_history_refines_map:
  assumes "formattable cfg n db" and "key_set K" and "db_init_ok db" and "\<not> gc_request db" and "\<not> last_is_complete_del db"
    and "length (kv_name (cur_kv db)) = FDB_KV_NAME_MAX" and "length (kv_name kv) = FDB_KV_NAME_MAX"
    and "\<forall>d \<in> set (default_kvs db). def_key d \<in> K \<and> def_ok d" and "distinct (map def_key (default_kvs db))"
    and "\<forall>c \<in> set cmds. cmd_key c \<in> K"
    and "defs_size (default_kvs db) + sum_list (map (cmd_cost kv_size) cmds) + 104 < sec_size cfg"
  shows "\<exists>db0 db'. fdb_kv_set_default cfg db = Some (FDB_NO_ERR, db0)
    \<and> kv_run (store_get cfg kv) (store_put cfg) (store_del cfg) cmds db0 =
        Some (fst (map_run cmds (map_of (map (\<lambda>d. (def_key d, def_bytes d)) (default_kvs db)))), db')"
proof -
  have fits: "defs_size (default_kvs db) + 104 < sec_size cfg" using assms(11) by simp
  obtain L f ktab stab where def: "fdb_kv_set_default cfg db =
      Some (FDB_NO_ERR, db\<lparr>flash := f, kv_cache_table := ktab, sector_cache_table := stab, oldest_addr := 0\<rparr>)"
    and st: "kv_state K {} cfg L (db\<lparr>flash := f, kv_cache_table := ktab, sector_cache_table := stab, oldest_addr := 0\<rparr>)"
    and c: "contents L = map_of (map (\<lambda>d. (def_key d, def_bytes d)) (default_kvs db))" "room_inv L (defs_size (default_kvs db))" "settled cfg L"
    using set_default_state [OF assms(1,2,4,8,9) fits] by blast
  define db0 where "db0 = db\<lparr>flash := f, kv_cache_table := ktab, sector_cache_table := stab, oldest_addr := 0\<rparr>"
  have "kv_inv K cfg L db0" using st c(3) assms(3-6) by (simp add: kv_inv_def db0_def)
  then have rel: "store_rel K cfg kv db0 (map_of (map (\<lambda>d. (def_key d, def_bytes d)) (default_kvs db))) (defs_size (default_kvs db))"
    using c assms(7) by (auto simp: store_rel_def)
  have "defs_size (default_kvs db) + sum_list (map (cmd_cost kv_size) cmds) \<le> sec_size cfg - 105" using assms(11) by simp
  from fdb_store.run_refines [OF rel assms(10) this] show ?thesis using def unfolding db0_def by blast
qed

theorem fdb_history_refines_map_witness:
  "\<exists>db0 db'. fdb_kv_set_default demo_cfg demo_db = Some (FDB_NO_ERR, db0)
    \<and> kv_run (store_get demo_cfg kv_zero) (store_put demo_cfg) (store_del demo_cfg)
        [KSet key1 [1, 2, 3], KGet key1, KSet key1 [9], KGet key1, KDel key1, KGet key1] db0 = Some ([[1, 2, 3], [9], []], db')"
proof -
  have "formattable demo_cfg 2 demo_db"
    by (simp add: formattable_def demo_cfg_def demo_db_def sec_addrs_ok_def kvdb_consts list_all_length)
  moreover have "key_set {key1}" by (simp add: key_set_def FDB_KV_NAME_MAX_def)
  ultimately show ?thesis
    using fdb_history_refines_map [of demo_cfg 2 demo_db "{key1}" kv_zero
        "[KSet key1 [1, 2, 3], KGet key1, KSet key1 [9], KGet key1, KDel key1, KGet key1]"]
    by (simp add: demo_db_def kv_zero_def demo_cfg_def defs_size_def kv_size_def value_or_empty_def)
qed


text \<open>
  C5: the database survives a restart: on the flash of a well-formed database in which no garbage collection is under way,
  \<open>fdb_kvdb_init\<close> with a handle that is all zero succeeds, writes nothing, and every key then reads as before.
\<close>

theorem fdb_survives_restart:
  assumes "kv_inv K cfg L db" and "\<forall>i < length L. sct_dirty (L ! i) \<noteq> FDB_SECTOR_DIRTY_GC" and "flash db0 = flash db"
    and "fresh_handle db0" and "fdb_init_ex part False cfg0 = Some (FDB_NO_ERR, cfg)"
  shows "\<exists>db'. fdb_kvdb_init part ds cfg0 db0 = Some (FDB_NO_ERR, cfg, db') \<and> flash db' = flash db \<and> kv_inv K cfg L db'
    \<and> (\<forall>key \<in> K. \<exists>db''. store_get cfg kv_zero key db' = Some (value_or_empty (contents L key), db''))"
proof -
  have st: "kv_state K {} cfg L db" and settled: "settled cfg L" using assms(1) by (simp_all add: kv_inv_def)
  obtain db' where db': "fdb_kvdb_init part ds cfg0 db0 = Some (FDB_NO_ERR, cfg, db')" "kv_inv K cfg L db'" "flash db' = flash db"
    using init_state [OF assms(5,4) _ _ _ _ settled assms(2), of K ds] st assms(3) by (auto simp: kv_state_def repr_def)
  have "layout cfg L (cells (flash db'))" using db'(2) by (simp add: kv_inv_def kv_state_def repr_def)
  then have "store_rel K cfg kv_zero db' (contents L) (sec_size cfg)"
    using room_inv_layout [OF _ assms(2)] db'(2) by (auto simp: store_rel_def kv_zero_def)
  then have "\<exists>db''. store_get cfg kv_zero key db' = Some (value_or_empty (contents L key), db'')" if "key \<in> K" for key
    using store_get_law that by blast
  with db' show ?thesis by blast
qed

lemma fresh_demo: "fresh_handle (demo_db\<lparr>db_init_ok := False, sector_cache_table := replicate 8 sec_zero,
    kv_cache_table := replicate 64 \<lparr>name_crc = 0, active = 0, cache_addr = 0\<rparr>\<rparr>)"
  by (simp add: fresh_handle_def demo_db_def kvdb_consts)

theorem fdb_survives_restart_witness:
  "\<exists>db1 db2 db3. fdb_kv_set_blob demo_cfg key1 (a_blob [1, 2, 3] 3) demo_db = Some (FDB_NO_ERR, db1)
    \<and> fdb_kvdb_init (Some (512, 1024)) None \<lparr>sec_size = 512, max_size = 0, not_formatable = False\<rparr>
        (demo_db\<lparr>db_init_ok := False, sector_cache_table := replicate 8 sec_zero,
          kv_cache_table := replicate 64 \<lparr>name_crc = 0, active = 0, cache_addr = 0\<rparr>, flash := flash db1\<rparr>) = Some (FDB_NO_ERR, demo_cfg, db2)
    \<and> store_get demo_cfg kv_zero key1 db2 = Some ([1, 2, 3], db3)"
proof -
  have rd: "mem_read [1, 2, 3 :: u8] 0 3 = Some [1, 2, 3]" by (simp add: mem_read_def)
  obtain L1 db1 where set1: "set_kv demo_cfg key1 (Some [1, 2, 3]) 3 demo_db = Some (FDB_NO_ERR, db1)"
    and inv1: "kv_inv {key1} demo_cfg L1 db1" and c1: "contents L1 = (contents [blank, blank])(key1 \<mapsto> [1, 2, 3])"
    and g1: "grows [blank, blank] L1 (kv_size key1 [1, 2, 3])" "\<exists>j < length L1. sct_store (L1 ! j) = FDB_SECTOR_STORE_USING"
    using set_kv_state [OF demo_inv _ rd demo_has_room] by auto
  have dirty: "\<forall>i < length L1. sct_dirty (L1 ! i) \<noteq> FDB_SECTOR_DIRTY_GC" using room_inv_grows [OF demo_room_inv g1] by (simp add: room_inv_def)
  let ?db0 = "demo_db\<lparr>db_init_ok := False, sector_cache_table := replicate 8 sec_zero,
          kv_cache_table := replicate 64 \<lparr>name_crc = 0, active = 0, cache_addr = 0\<rparr>, flash := flash db1\<rparr>"
  have fresh: "fresh_handle ?db0" using fresh_demo by (simp add: fresh_handle_def)
  have ex: "fdb_init_ex (Some (512, 1024)) False \<lparr>sec_size = 512, max_size = 0, not_formatable = False\<rparr> = Some (FDB_NO_ERR, demo_cfg)"
    by (simp add: fdb_init_ex_def demo_cfg_def)
  have set: "fdb_kv_set_blob demo_cfg key1 (a_blob [1, 2, 3] 3) demo_db = Some (FDB_NO_ERR, db1)"
    using set1 by (simp add: fdb_kv_set_blob_def a_blob_def fdb_blob_make_def demo_db_def)
  have "value_or_empty (contents L1 key1) = [1, 2, 3]" by (simp add: c1 value_or_empty_def)
  then show ?thesis using fdb_survives_restart [OF inv1 dirty _ fresh ex, of None] set by auto
qed

end
