(* ===== verification/C_Strings.thy ===== *)
theory C_Strings
  imports Le_Words
begin

text \<open>
  What the code uses of the C library on strings and numbers: strings in byte objects, \<open>strncpy\<close>, the format \<open>%d\<close> and
  \<open>strtol\<close> with base 10. \<open>int\<close> and \<open>long\<close> have 32 bits.
\<close>

section \<open>Strings\<close>

text \<open>The string that starts an object; \<open>None\<close> when there is no terminating zero in it.\<close>

definition c_str :: "bytes \<Rightarrow> bytes option" where
  "c_str buf = (if 0 \<in> set buf then Some (takeWhile (\<lambda>b. b \<noteq> 0) buf) else None)"

text \<open>\<open>strncpy (dst, src, n)\<close>: at most \<open>n\<close> bytes of the string, and zeros up to \<open>n\<close> bytes.\<close>

definition strncpy :: "bytes \<Rightarrow> bytes \<Rightarrow> nat \<Rightarrow> bytes option" where
  "strncpy dst str n = mem_write dst 0 (take n (str @ replicate n 0))"

lemma c_str_append: "0 \<notin> set str \<Longrightarrow> c_str (str @ 0 # rest) = Some str"
  by (induction str) (auto simp: c_str_def)

section \<open>Numbers\<close>

function nat_digits :: "nat \<Rightarrow> bytes" where
  "nat_digits n = (if n < 10 then [of_nat (48 + n)] else nat_digits (n div 10) @ [of_nat (48 + n mod 10)])"
  by pat_completeness auto
termination by (relation "measure id") auto

declare nat_digits.simps [simp del]

definition fmt_d :: "int \<Rightarrow> bytes" where
  "fmt_d i = (if i < 0 then 45 # nat_digits (nat (- i)) else nat_digits (nat i))"

definition c_isspace :: "u8 \<Rightarrow> bool" where
  "c_isspace b \<longleftrightarrow> b = 32 \<or> (9 \<le> b \<and> b \<le> 13)"

definition c_isdigit :: "u8 \<Rightarrow> bool" where
  "c_isdigit b \<longleftrightarrow> 48 \<le> b \<and> b \<le> 57"

definition digits_value :: "bytes \<Rightarrow> nat" where
  "digits_value ds = foldl (\<lambda>v d. v * 10 + (unat d - 48)) 0 ds"

text \<open>
  The value of \<open>strtol\<close>, whether \<open>errno\<close> is set to \<open>ERANGE\<close>, and what is left behind \<open>*end\<close>; without a digit nothing is
  converted and \<open>*end\<close> is the start of the string.
\<close>

definition strtol10 :: "bytes \<Rightarrow> int \<times> bool \<times> bytes" where
  "strtol10 str =
     (let s = dropWhile c_isspace str;
          neg = (s \<noteq> [] \<and> hd s = 45);
          s = (if s \<noteq> [] \<and> (hd s = 45 \<or> hd s = 43) then tl s else s);
          ds = takeWhile c_isdigit s;
          v = (if neg then - int (digits_value ds) else int (digits_value ds))
      in if ds = [] then (0, False, str)
         else if v < - (2 ^ 31) then (- (2 ^ 31), True, dropWhile c_isdigit s)
         else if 2 ^ 31 \<le> v then (2 ^ 31 - 1, True, dropWhile c_isdigit s)
         else (v, False, dropWhile c_isdigit s))"

lemma digit_unat:
  assumes "k < 10"
  shows "unat (of_nat (48 + k) :: u8) = 48 + k"
  using assms by (simp only: unat_of_nat) simp

lemma nat_digits_digit: "b \<in> set (nat_digits n) \<Longrightarrow> c_isdigit b"
proof (induction n rule: nat_digits.induct)
  case (1 n)
  have d: "c_isdigit (of_nat (48 + k))" if "k < 10" for k
    using digit_unat [OF that] that by (simp add: c_isdigit_def word_le_nat_alt)
  show ?case
  proof (cases "n < 10")
    case True
    then show ?thesis using 1(2) d by (subst (asm) nat_digits.simps) simp
  next
    case False
    then have "b \<in> set (nat_digits (n div 10)) \<or> b = of_nat (48 + n mod 10)" using 1(2) by (subst (asm) nat_digits.simps) auto
    then show ?thesis using 1(1) [OF False] d [of "n mod 10"] by auto
  qed
qed

lemma nat_digits_value: "digits_value (nat_digits n) = n"
proof (induction n rule: nat_digits.induct)
  case (1 n)
  have d: "unat (of_nat (48 + k) :: u8) - 48 = k" if "k < 10" for k
    using digit_unat [OF that] by simp
  show ?case
  proof (cases "n < 10")
    case True
    then show ?thesis using d by (subst nat_digits.simps) (simp add: digits_value_def)
  next
    case False
    have "digits_value (nat_digits n) = digits_value (nat_digits (n div 10)) * 10 + n mod 10"
      using False d [of "n mod 10"] by (subst nat_digits.simps) (simp add: digits_value_def)
    then show ?thesis using 1 [OF False] by simp
  qed
qed

lemma nat_digits_ne [simp]: "nat_digits n \<noteq> []"
  by (subst nat_digits.simps) simp

lemma length_nat_digits: "n < 10 ^ k \<Longrightarrow> 0 < k \<Longrightarrow> length (nat_digits n) \<le> k"
proof (induction n arbitrary: k rule: nat_digits.induct)
  case (1 n)
  show ?case
  proof (cases "n < 10")
    case True
    then show ?thesis using 1(3) by (subst nat_digits.simps) simp
  next
    case False
    obtain k' where k: "k = Suc k'" using 1(3) by (cases k) auto
    then have "n div 10 < 10 ^ k'" using 1(2) by (simp add: less_mult_imp_div_less mult.commute)
    moreover have "0 < k'" using 1(2) False k by (cases k') auto
    ultimately have "length (nat_digits (n div 10)) \<le> k'" by (rule 1(1) [OF False])
    then show ?thesis using False k by (subst nat_digits.simps) simp
  qed
qed

lemma digits_split:
  assumes "\<forall>b \<in> set ds. c_isdigit b"
  shows "takeWhile c_isdigit ds = ds" "dropWhile c_isdigit ds = []"
  using assms by (simp_all add: takeWhile_eq_all_conv dropWhile_eq_Nil_conv)

text \<open>Every 32-bit integer survives \<open>%d\<close> and \<open>strtol\<close>.\<close>

lemma strtol10_fmt_d:
  assumes "- (2 ^ 31) \<le> i" and "i < 2 ^ 31"
  shows "strtol10 (fmt_d i) = (i, False, [])"
proof -
  have not_space: "\<not> c_isspace b" "b \<noteq> 45" "b \<noteq> 43" if "c_isdigit b" for b
    using that by (auto simp: c_isspace_def c_isdigit_def word_le_nat_alt)
  have ds: "takeWhile c_isdigit (nat_digits n) = nat_digits n" "dropWhile c_isdigit (nat_digits n) = []" for n
    using digits_split [of "nat_digits n"] nat_digits_digit by auto
  show ?thesis
  proof (cases "i < 0")
    case True
    have "\<not> c_isspace 45" by (simp add: c_isspace_def word_le_nat_alt)
    then show ?thesis
      using True assms by (simp add: fmt_d_def strtol10_def Let_def ds nat_digits_value)
  next
    case False
    obtain b bs where b: "nat_digits (nat i) = b # bs" by (cases "nat_digits (nat i)") auto
    then have "c_isdigit b" using nat_digits_digit [of b "nat i"] by simp
    note nb = not_space [OF this]
    have "dropWhile c_isspace (nat_digits (nat i)) = nat_digits (nat i)" "hd (nat_digits (nat i)) = b" using nb b by simp_all
    then show ?thesis
      using False assms nb by (simp add: fmt_d_def strtol10_def Let_def ds nat_digits_value)
  qed
qed

lemma fmt_d_chars: "b \<in> set (fmt_d i) \<Longrightarrow> c_isdigit b \<or> b = 45"
  using nat_digits_digit by (auto simp: fmt_d_def split: if_splits)

lemma length_fmt_d:
  assumes "- (2 ^ 31) \<le> i" and "i < 2 ^ 31"
  shows "length (fmt_d i) \<le> 11" "fmt_d i \<noteq> []"
proof -
  have "nat i < 10 ^ 10" "nat (- i) < 10 ^ 10" using assms by simp_all
  then show "length (fmt_d i) \<le> 11"
    using length_nat_digits [of "nat i" 10] length_nat_digits [of "nat (- i)" 10] by (simp add: fmt_d_def)
  show "fmt_d i \<noteq> []" by (simp add: fmt_d_def)
qed

end
