(* ===== verification/Flash_Param.thy ===== *)
theory Flash_Param
  imports Fdb_Kvdb_Main C_Strings
begin

text \<open>
  The parameter manager \<open>flash_param.c\<close>: a table of parameters, each with a default value, a variable in RAM, and a
  record in the key-value database.

  Variables and default values are byte objects, and a pointer is the number of the object, so that two parameters, or a
  default value and a variable, may be the same object. A copy of an object onto itself leaves it as it is. The manager
  is the state and never \<open>NULL\<close>; every other pointer argument may be. The format \<open>%.9g\<close>, \<open>strtof\<close> and what the
  stack holds when FlashDB looks up a key are in a record of the environment.
\<close>

section \<open>Parameters and the manager\<close>

definition PARAM_TYPE_INT :: nat where "PARAM_TYPE_INT = 0"
definition PARAM_TYPE_FLOAT :: nat where "PARAM_TYPE_FLOAT = 1"
definition PARAM_TYPE_STR :: nat where "PARAM_TYPE_STR = 2"
definition PARAM_TYPE_BLOB :: nat where "PARAM_TYPE_BLOB = 3"
definition PARAM_GROUP_SYSTEM :: nat where "PARAM_GROUP_SYSTEM = 0"
definition PARAM_GROUP_COMM :: nat where "PARAM_GROUP_COMM = 1"
definition PARAM_GROUP_DI :: nat where "PARAM_GROUP_DI = 2"
definition PARAM_GROUP_DO :: nat where "PARAM_GROUP_DO = 3"
definition PARAM_GROUP_DO_TIME :: nat where "PARAM_GROUP_DO_TIME = 4"

lemmas param_consts = PARAM_TYPE_INT_def PARAM_TYPE_FLOAT_def PARAM_TYPE_STR_def PARAM_TYPE_BLOB_def

record param_item =
  it_key :: "bytes option"
  it_def_val :: "nat option"
  it_def_size :: nat
  it_type :: nat
  it_ram_ptr :: "nat option"
  it_ram_size :: nat
  it_group :: nat
  it_desc :: "bytes option"

record param_mgr =
  m_kvdb :: fdb_kvdb
  m_cfg :: fdb_cfg
  m_items :: "param_item list"
  m_def_nodes :: "(bytes \<times> nat option \<times> nat) list option"
  m_init_ok :: bool
  m_lock :: bool
  m_unlock :: bool

text \<open>
  The manager with the objects of the program, the static buffer of \<open>fdb_kv_get\<close>, and the history of the calls of the
  lock functions and of the accesses to the database and to parameter variables.
\<close>

datatype param_event = PLock | PUnlock | PAccess

record param_world =
  pw_mgr :: param_mgr
  objs :: "nat \<Rightarrow> bytes"
  str_value :: bytes
  ptrace :: "param_event list"

record param_env =
  fmt_g9 :: "bytes \<Rightarrow> bytes"
  strtof :: "bytes \<Rightarrow> bytes \<times> bool \<times> bytes"
  stack_kv :: fdb_kv

abbreviation pw_db :: "param_world \<Rightarrow> fdb_kvdb" where "pw_db w \<equiv> m_kvdb (pw_mgr w)"
abbreviation pw_cfg :: "param_world \<Rightarrow> fdb_cfg" where "pw_cfg w \<equiv> m_cfg (pw_mgr w)"

definition with_db :: "fdb_kvdb \<Rightarrow> param_world \<Rightarrow> param_world" where
  "with_db db w = w\<lparr>pw_mgr := (pw_mgr w)\<lparr>m_kvdb := db\<rparr>, ptrace := ptrace w @ [PAccess]\<rparr>"

section \<open>Objects\<close>

text \<open>Reads and writes of objects are both recorded as accesses.\<close>

definition touch :: "param_world \<Rightarrow> param_world" where
  "touch w = w\<lparr>ptrace := ptrace w @ [PAccess]\<rparr>"

definition obj_read :: "nat option \<Rightarrow> nat \<Rightarrow> param_world \<Rightarrow> (bytes \<times> param_world) option" where
  "obj_read p n w = (case p of None \<Rightarrow> None | Some i \<Rightarrow> map_option (\<lambda>xs. (xs, touch w)) (mem_read (objs w i) 0 n))"

definition obj_write :: "nat option \<Rightarrow> nat \<Rightarrow> bytes \<Rightarrow> param_world \<Rightarrow> param_world option" where
  "obj_write p off xs w =
     (case p of
        None \<Rightarrow> None
      | Some i \<Rightarrow> map_option (\<lambda>ys. w\<lparr>objs := (objs w)(i := ys), ptrace := ptrace w @ [PAccess]\<rparr>) (mem_write (objs w i) off xs))"

definition obj_copy :: "nat option \<Rightarrow> nat option \<Rightarrow> nat \<Rightarrow> param_world \<Rightarrow> param_world option" where
  "obj_copy dst src n w = do { (xs, w) \<leftarrow> obj_read src n w; obj_write dst 0 xs w }"

definition obj_str :: "nat option \<Rightarrow> param_world \<Rightarrow> (bytes \<times> param_world) option" where
  "obj_str p w = (case p of None \<Rightarrow> None | Some i \<Rightarrow> map_option (\<lambda>str. (str, touch w)) (c_str (objs w i)))"

text \<open>\<open>strncpy\<close> of a string to an object, and the zero that every caller puts behind it.\<close>

definition obj_strncpy :: "nat option \<Rightarrow> bytes \<Rightarrow> nat \<Rightarrow> param_world \<Rightarrow> param_world option" where
  "obj_strncpy dst str ram_size w = do {
     w \<leftarrow> obj_write dst 0 (take (ram_size - 1) (str @ replicate (ram_size - 1) 0)) w;
     obj_write dst (ram_size - 1) [0] w }"

section \<open>Values in the database\<close>

definition int_to_str :: "nat option \<Rightarrow> nat \<Rightarrow> param_world \<Rightarrow> (bytes \<times> param_world) option" where
  "int_to_str val buf_sz w = do {
     (xs, w) \<leftarrow> obj_read val 4 w;
     Some (take (buf_sz - 1) (fmt_d (sint (of_le32 xs))), w) }"

text \<open>The converted value, \<open>None\<close> for the result -1.\<close>

definition int_from_str :: "bytes \<Rightarrow> bytes option" where
  "int_from_str str =
     (case strtol10 str of (v, erange, rest) \<Rightarrow>
        if erange \<or> rest = str \<or> rest \<noteq> [] then None else Some (le32 (word_of_int v)))"

definition float_to_str :: "param_env \<Rightarrow> nat option \<Rightarrow> nat \<Rightarrow> param_world \<Rightarrow> (bytes \<times> param_world) option" where
  "float_to_str env val buf_sz w = do {
     (xs, w) \<leftarrow> obj_read val 4 w;
     Some (take (buf_sz - 1) (fmt_g9 env xs), w) }"

definition float_from_str :: "param_env \<Rightarrow> bytes \<Rightarrow> bytes option" where
  "float_from_str env str =
     (case strtof env str of (v, erange, rest) \<Rightarrow>
        if erange \<or> rest = str \<or> rest \<noteq> [] then None else Some v)"

text \<open>The calls of FlashDB on the manager's database.\<close>

definition db_get_str :: "param_env \<Rightarrow> bytes \<Rightarrow> param_world \<Rightarrow> (bytes option \<times> param_world) option" where
  "db_get_str env key w = do {
     (s, value, db) \<leftarrow> fdb_kv_get (pw_cfg w) (stack_kv env) key (str_value w) (pw_db w);
     Some (s, with_db db (w\<lparr>str_value := value\<rparr>)) }"

definition db_set_str :: "bytes \<Rightarrow> bytes \<Rightarrow> param_world \<Rightarrow> (fdb_err \<times> param_world) option" where
  "db_set_str key str w = do {
     (r, db) \<leftarrow> fdb_kv_set (pw_cfg w) key (Some str) (pw_db w);
     Some (r, with_db db w) }"

definition int_db_write :: "bytes \<Rightarrow> nat option \<Rightarrow> param_world \<Rightarrow> (fdb_err \<times> param_world) option" where
  "int_db_write key val w = do {
     (buf, w) \<leftarrow> int_to_str val 32 w;
     db_set_str key buf w }"

text \<open>The result says whether the read has failed (-1).\<close>

definition int_db_read :: "param_env \<Rightarrow> bytes \<Rightarrow> nat option \<Rightarrow> param_world \<Rightarrow> (bool \<times> param_world) option" where
  "int_db_read env key val w = do {
     (s, w) \<leftarrow> db_get_str env key w;
     case s of
       None \<Rightarrow> Some (True, w)
     | Some str \<Rightarrow>
         (case int_from_str str of
            None \<Rightarrow> Some (True, w)
          | Some v \<Rightarrow> do { w \<leftarrow> obj_write val 0 v w; Some (False, w) }) }"

definition float_db_write :: "param_env \<Rightarrow> bytes \<Rightarrow> nat option \<Rightarrow> param_world \<Rightarrow> (fdb_err \<times> param_world) option" where
  "float_db_write env key val w = do {
     (buf, w) \<leftarrow> float_to_str env val 32 w;
     db_set_str key buf w }"

definition float_db_read :: "param_env \<Rightarrow> bytes \<Rightarrow> nat option \<Rightarrow> param_world \<Rightarrow> (bool \<times> param_world) option" where
  "float_db_read env key val w = do {
     (s, w) \<leftarrow> db_get_str env key w;
     case s of
       None \<Rightarrow> Some (True, w)
     | Some str \<Rightarrow>
         (case float_from_str env str of
            None \<Rightarrow> Some (True, w)
          | Some v \<Rightarrow> do { w \<leftarrow> obj_write val 0 v w; Some (False, w) }) }"

definition str_db_write :: "bytes \<Rightarrow> nat option \<Rightarrow> param_world \<Rightarrow> (fdb_err \<times> param_world) option" where
  "str_db_write key val w = do {
     (str, w) \<leftarrow> obj_str val w;
     db_set_str key str w }"

definition str_db_read :: "param_env \<Rightarrow> bytes \<Rightarrow> nat option \<Rightarrow> nat \<Rightarrow> param_world \<Rightarrow> (bool \<times> param_world) option" where
  "str_db_read env key val n w = do {
     (s, w) \<leftarrow> db_get_str env key w;
     case s of
       None \<Rightarrow> Some (True, w)
     | Some str \<Rightarrow> do { w \<leftarrow> obj_strncpy val str n w; Some (False, w) } }"

definition blob_db_write :: "bytes \<Rightarrow> nat option \<Rightarrow> nat \<Rightarrow> param_world \<Rightarrow> (fdb_err \<times> param_world) option" where
  "blob_db_write key val n w =
     (case val of
        None \<Rightarrow> None
      | Some i \<Rightarrow> do {
          (r, db) \<leftarrow> fdb_kv_set_blob (pw_cfg w) key (a_blob (objs w i) n) (pw_db w);
          Some (r, with_db db w) })"

text \<open>FlashDB reads into the object. On a database that is not initialised it leaves \<open>blob.saved.len\<close> uninitialised.\<close>

definition blob_db_read :: "param_env \<Rightarrow> bytes \<Rightarrow> nat option \<Rightarrow> nat \<Rightarrow> param_world \<Rightarrow> (bool \<times> param_world) option" where
  "blob_db_read env key val n w =
     (case val of
        None \<Rightarrow> None
      | Some i \<Rightarrow>
          if \<not> db_init_ok (pw_db w) then None
          else do {
            (_, blob, db) \<leftarrow> fdb_kv_get_blob (pw_cfg w) (stack_kv env) key (a_blob (objs w i) n) (pw_db w);
            buf \<leftarrow> blob_buf blob;
            Some (\<not> 0 < saved_len blob, with_db db (w\<lparr>objs := (objs w)(i := buf)\<rparr>)) })"

section \<open>One parameter\<close>

definition find_item :: "bytes \<Rightarrow> param_world \<Rightarrow> param_item option" where
  "find_item key w = find (\<lambda>it. it_key it = Some key) (m_items (pw_mgr w))"

text \<open>The default value goes to the database, and to the variable if that has succeeded; both callers have this switch.\<close>

definition reset_one_locked :: "param_env \<Rightarrow> param_item \<Rightarrow> param_world \<Rightarrow> (int \<times> param_world) option" where
  "reset_one_locked env it w =
     (case it_key it of
        None \<Rightarrow> None
      | Some key \<Rightarrow>
          if it_type it = PARAM_TYPE_INT
          then do {
            (r, w) \<leftarrow> int_db_write key (it_def_val it) w;
            if r \<noteq> FDB_NO_ERR then Some (- 1, w)
            else do { w \<leftarrow> obj_copy (it_ram_ptr it) (it_def_val it) 4 w; Some (0, w) } }
          else if it_type it = PARAM_TYPE_FLOAT
          then do {
            (r, w) \<leftarrow> float_db_write env key (it_def_val it) w;
            if r \<noteq> FDB_NO_ERR then Some (- 1, w)
            else do { w \<leftarrow> obj_copy (it_ram_ptr it) (it_def_val it) 4 w; Some (0, w) } }
          else if it_type it = PARAM_TYPE_STR
          then do {
            (r, w) \<leftarrow> str_db_write key (it_def_val it) w;
            if r \<noteq> FDB_NO_ERR then Some (- 1, w)
            else do {
              (str, w) \<leftarrow> obj_str (it_def_val it) w;
              w \<leftarrow> obj_strncpy (it_ram_ptr it) str (it_ram_size it) w;
              Some (0, w) } }
          else if it_type it = PARAM_TYPE_BLOB
          then do {
            (r, w) \<leftarrow> blob_db_write key (it_def_val it) (it_def_size it) w;
            if r \<noteq> FDB_NO_ERR then Some (- 1, w)
            else do {
              w \<leftarrow> obj_write (it_ram_ptr it) 0 (replicate (it_ram_size it) 0) w;
              w \<leftarrow> obj_copy (it_ram_ptr it) (it_def_val it)
                    (if it_def_size it < it_ram_size it then it_def_size it else it_ram_size it) w;
              Some (0, w) } }
          else Some (- 1, w))"

definition read_one :: "param_env \<Rightarrow> param_item \<Rightarrow> param_world \<Rightarrow> (bool \<times> param_world) option" where
  "read_one env it w =
     (case it_key it of
        None \<Rightarrow> None
      | Some key \<Rightarrow>
          if it_type it = PARAM_TYPE_INT then int_db_read env key (it_ram_ptr it) w
          else if it_type it = PARAM_TYPE_FLOAT then float_db_read env key (it_ram_ptr it) w
          else if it_type it = PARAM_TYPE_STR then str_db_read env key (it_ram_ptr it) (it_ram_size it) w
          else if it_type it = PARAM_TYPE_BLOB then blob_db_read env key (it_ram_ptr it) (it_ram_size it) w
          else Some (True, w))"

definition sync_one :: "param_env \<Rightarrow> param_item \<Rightarrow> param_world \<Rightarrow> (int \<times> param_world) option" where
  "sync_one env it w = do {
     (failed, w) \<leftarrow> read_one env it w;
     if failed then reset_one_locked env it w else Some (0, w) }"

text \<open>The result is that of the last call that has failed; the loop does not stop at it.\<close>

fun for_items ::
  "(param_item \<Rightarrow> param_world \<Rightarrow> (int \<times> param_world) option) \<Rightarrow> (param_item \<Rightarrow> bool) \<Rightarrow>
   param_item list \<Rightarrow> int \<Rightarrow> param_world \<Rightarrow> (int \<times> param_world) option" where
  "for_items f sel [] ret w = Some (ret, w)"
| "for_items f sel (it # its) ret w =
     (if sel it
      then do { (r, w) \<leftarrow> f it w; for_items f sel its (if r \<noteq> 0 then - 1 else ret) w }
      else for_items f sel its ret w)"

section \<open>Initialisation\<close>

definition item_valid :: "param_item \<Rightarrow> bool" where
  "item_valid it \<longleftrightarrow>
     it_key it \<noteq> None \<and> it_ram_ptr it \<noteq> None \<and> it_type it \<le> PARAM_TYPE_BLOB
     \<and> (if it_type it = PARAM_TYPE_INT \<or> it_type it = PARAM_TYPE_FLOAT then 4 \<le> it_ram_size it
        else it_ram_size it \<noteq> 0 \<and> it_def_val it \<noteq> None)"

definition zero_kvdb :: "flash_part \<Rightarrow> fdb_kvdb" where
  "zero_kvdb f = \<lparr>flash = f, oldest_addr = 0, db_init_ok = False, default_kvs = [], gc_request = False,
     in_recovery_check = False, cur_kv = kv_zero, cur_sector = sec_zero, last_is_complete_del = False,
     kv_cache_table = replicate FDB_KV_CACHE_TABLE_SIZE \<lparr>name_crc = 0, active = 0, cache_addr = 0\<rparr>,
     sector_cache_table = replicate FDB_SECTOR_CACHE_TABLE_SIZE sec_zero\<rparr>"

definition zero_mgr :: "flash_part \<Rightarrow> param_mgr" where
  "zero_mgr f = \<lparr>m_kvdb = zero_kvdb f, m_cfg = \<lparr>sec_size = 0, max_size = 0, not_formatable = False\<rparr>, m_items = [],
     m_def_nodes = None, m_init_ok = False, m_lock = False, m_unlock = False\<rparr>"

text \<open>FlashDB has pointers to the default values: what it reads is what the objects hold at the time of the call.\<close>

definition def_nodes_now :: "param_world \<Rightarrow> fdb_default_kv_node list" where
  "def_nodes_now w =
     (case m_def_nodes (pw_mgr w) of
        None \<Rightarrow> []
      | Some ns \<Rightarrow> map (\<lambda>(k, p, n). \<lparr>def_key = k, def_value = (case p of None \<Rightarrow> [] | Some i \<Rightarrow> objs w i), def_value_len = n\<rparr>) ns)"

definition control_sizes :: "nat \<Rightarrow> nat \<Rightarrow> param_world \<Rightarrow> param_world option" where
  "control_sizes ssize msize w = do {
     cfg \<leftarrow> (if 0 < ssize then map_option snd (fdb_kvdb_control (CTRL_SET_SEC_SIZE ssize) (pw_db w) (pw_cfg w)) else Some (pw_cfg w));
     cfg \<leftarrow> (if 0 < msize then map_option snd (fdb_kvdb_control (CTRL_SET_MAX_SIZE msize) (pw_db w) cfg) else Some cfg);
     Some (w\<lparr>pw_mgr := (pw_mgr w)\<lparr>m_cfg := cfg\<rparr>\<rparr>) }"

definition mgr_kvdb_init :: "(nat \<times> nat) option \<Rightarrow> param_world \<Rightarrow> (fdb_err \<times> param_world) option" where
  "mgr_kvdb_init part w = do {
     (r, cfg, db) \<leftarrow> fdb_kvdb_init part (Some (def_nodes_now w)) (pw_cfg w) (pw_db w);
     let w = with_db db w;
     Some (r, w\<lparr>pw_mgr := (pw_mgr w)\<lparr>m_cfg := cfg\<rparr>\<rparr>) }"

definition mgr_kvdb_deinit :: "param_world \<Rightarrow> param_world" where
  "mgr_kvdb_deinit w = with_db (snd (fdb_kvdb_deinit (pw_db w))) w"

definition free_nodes :: "param_world \<Rightarrow> param_world" where
  "free_nodes w = w\<lparr>pw_mgr := (pw_mgr w)\<lparr>m_def_nodes := None\<rparr>\<rparr>"

fun init_sync :: "param_env \<Rightarrow> param_item list \<Rightarrow> param_world \<Rightarrow> (int \<times> param_world) option" where
  "init_sync env [] w = Some (0, w\<lparr>pw_mgr := (pw_mgr w)\<lparr>m_init_ok := True\<rparr>\<rparr>)"
| "init_sync env (it # its) w = do {
     (r, w) \<leftarrow> sync_one env it w;
     if r \<noteq> 0 then Some (- 1, free_nodes (mgr_kvdb_deinit w)) else init_sync env its w }"

text \<open>
  The first argument is the partition that FlashDB finds under the path, the second whether \<open>rt_malloc\<close> has memory. The
  file mode is not compiled in.
\<close>

definition flash_param_init ::
  "param_env \<Rightarrow> (nat \<times> nat) option \<Rightarrow> bool \<Rightarrow> nat \<Rightarrow> nat \<Rightarrow> param_item list option \<Rightarrow> bool \<Rightarrow> bool \<Rightarrow>
   param_world \<Rightarrow> (int \<times> param_world) option" where
  "flash_param_init env part mem ssize msize items lock unlock w =
     (case items of
        None \<Rightarrow> Some (- 1, w)
      | Some its \<Rightarrow>
          if its = [] then Some (- 1, w)
          else if lock \<noteq> unlock then Some (- 1, w)
          else if \<not> list_all item_valid its then Some (- 1, w)
          else if \<not> distinct (map it_key its) then Some (- 1, w)
          else
            let w = w\<lparr>pw_mgr := (zero_mgr (flash (pw_db w)))\<lparr>m_items := its\<rparr>\<rparr>
            in if \<not> mem then Some (- 1, w)
               else do {
                 let w = w\<lparr>pw_mgr := (pw_mgr w)\<lparr>m_def_nodes :=
                             Some (map (\<lambda>it. (the (it_key it), it_def_val it, it_def_size it)) its)\<rparr>\<rparr>;
                 w \<leftarrow> control_sizes ssize msize w;
                 (err, w) \<leftarrow> mgr_kvdb_init part w;
                 if err \<noteq> FDB_NO_ERR then Some (- 1, free_nodes w)
                 else init_sync env its (w\<lparr>pw_mgr := (pw_mgr w)\<lparr>m_lock := lock, m_unlock := unlock\<rparr>\<rparr>) })"

definition flash_param_deinit :: "param_world \<Rightarrow> int \<times> param_world" where
  "flash_param_deinit w =
     (if \<not> m_init_ok (pw_mgr w) then (- 1, w)
      else
        let w = free_nodes (mgr_kvdb_deinit w)
        in (0, w\<lparr>pw_mgr := (pw_mgr w)\<lparr>m_init_ok := False\<rparr>\<rparr>))"

section \<open>The interface\<close>

definition mgr_lock :: "param_world \<Rightarrow> param_world" where
  "mgr_lock w = (if m_lock (pw_mgr w) then w\<lparr>ptrace := ptrace w @ [PLock]\<rparr> else w)"

definition mgr_unlock :: "param_world \<Rightarrow> param_world" where
  "mgr_unlock w = (if m_unlock (pw_mgr w) then w\<lparr>ptrace := ptrace w @ [PUnlock]\<rparr> else w)"

definition set_one :: "param_env \<Rightarrow> bytes \<Rightarrow> param_item \<Rightarrow> nat option \<Rightarrow> param_world \<Rightarrow> (int \<times> param_world) option" where
  "set_one env key it val w =
     (if it_type it = PARAM_TYPE_INT
      then do {
        (r, w) \<leftarrow> int_db_write key val w;
        if r \<noteq> FDB_NO_ERR then Some (- 1, w)
        else do { w \<leftarrow> obj_copy (it_ram_ptr it) val 4 w; Some (0, w) } }
      else if it_type it = PARAM_TYPE_FLOAT
      then do {
        (r, w) \<leftarrow> float_db_write env key val w;
        if r \<noteq> FDB_NO_ERR then Some (- 1, w)
        else do { w \<leftarrow> obj_copy (it_ram_ptr it) val 4 w; Some (0, w) } }
      else if it_type it = PARAM_TYPE_STR
      then do {
        (r, w) \<leftarrow> str_db_write key val w;
        if r \<noteq> FDB_NO_ERR then Some (- 1, w)
        else do {
          (str, w) \<leftarrow> obj_str val w;
          w \<leftarrow> obj_strncpy (it_ram_ptr it) str (it_ram_size it) w;
          Some (0, w) } }
      else if it_type it = PARAM_TYPE_BLOB
      then do {
        let copy_sz = (if it_ram_size it < it_def_size it then it_ram_size it else it_def_size it);
        (r, w) \<leftarrow> blob_db_write key val copy_sz w;
        if r \<noteq> FDB_NO_ERR then Some (- 1, w)
        else do {
          w \<leftarrow> obj_write (it_ram_ptr it) 0 (replicate (it_ram_size it) 0) w;
          w \<leftarrow> obj_copy (it_ram_ptr it) val copy_sz w;
          Some (0, w) } }
      else Some (- 1, w))"

definition flash_param_set ::
  "param_env \<Rightarrow> bytes option \<Rightarrow> nat option \<Rightarrow> param_world \<Rightarrow> (int \<times> param_world) option" where
  "flash_param_set env key val w =
     (case key of
        None \<Rightarrow> Some (- 1, w)
      | Some k \<Rightarrow>
          if \<not> m_init_ok (pw_mgr w) \<or> val = None then Some (- 1, w)
          else
            (case find_item k w of
               None \<Rightarrow> Some (- 1, w)
             | Some it \<Rightarrow> do {
                 (ret, w) \<leftarrow> set_one env k it val (mgr_lock w);
                 Some (ret, mgr_unlock w) }))"

definition flash_param_set_blob ::
  "bytes option \<Rightarrow> nat option \<Rightarrow> nat \<Rightarrow> param_world \<Rightarrow> (int \<times> param_world) option" where
  "flash_param_set_blob key val val_len w =
     (case key of
        None \<Rightarrow> Some (- 1, w)
      | Some k \<Rightarrow>
          if \<not> m_init_ok (pw_mgr w) \<or> val = None \<or> val_len = 0 then Some (- 1, w)
          else
            (case find_item k w of
               None \<Rightarrow> Some (- 1, w)
             | Some it \<Rightarrow>
                 if it_type it \<noteq> PARAM_TYPE_BLOB then Some (- 1, w)
                 else if val_len > it_ram_size it then Some (- 1, w)
                 else do {
                   (r, w) \<leftarrow> blob_db_write k val val_len (mgr_lock w);
                   (ret, w) \<leftarrow>
                     (if r \<noteq> FDB_NO_ERR then Some (- 1, w)
                      else do {
                        w \<leftarrow> obj_copy (it_ram_ptr it) val val_len w;
                        w \<leftarrow> (if val_len < it_ram_size it
                             then obj_write (it_ram_ptr it) val_len (replicate (it_ram_size it - val_len) 0) w
                             else Some w);
                        Some (0, w) });
                   Some (ret, mgr_unlock w) }))"

text \<open>The buffer is an object; the argument and result \<open>len\<close> is the variable behind the pointer, \<open>None\<close> for \<open>NULL\<close>.\<close>

definition flash_param_get ::
  "bytes option \<Rightarrow> nat option \<Rightarrow> nat option \<Rightarrow> param_world \<Rightarrow> (int \<times> nat option \<times> param_world) option" where
  "flash_param_get key buf len w =
     (case (key, len) of
        (Some k, Some n) \<Rightarrow>
          if \<not> m_init_ok (pw_mgr w) \<or> buf = None then Some (- 1, len, w)
          else
            (case find_item k w of
               None \<Rightarrow> Some (- 1, len, w)
             | Some it \<Rightarrow>
                 let w = mgr_lock w
                 in if n < it_ram_size it then Some (- 1, Some (it_ram_size it), mgr_unlock w)
                    else do {
                      w \<leftarrow> obj_copy buf (it_ram_ptr it) (it_ram_size it) w;
                      Some (0, Some (it_ram_size it), mgr_unlock w) })
      | _ \<Rightarrow> Some (- 1, len, w))"

definition flash_param_reset :: "param_env \<Rightarrow> bytes option \<Rightarrow> param_world \<Rightarrow> (int \<times> param_world) option" where
  "flash_param_reset env key w =
     (case key of
        None \<Rightarrow> Some (- 1, w)
      | Some k \<Rightarrow>
          if \<not> m_init_ok (pw_mgr w) then Some (- 1, w)
          else
            (case find_item k w of
               None \<Rightarrow> Some (- 1, w)
             | Some it \<Rightarrow> do {
                 (ret, w) \<leftarrow> reset_one_locked env it (mgr_lock w);
                 Some (ret, mgr_unlock w) }))"

definition flash_param_group_reset :: "param_env \<Rightarrow> nat \<Rightarrow> param_world \<Rightarrow> (int \<times> param_world) option" where
  "flash_param_group_reset env grp w =
     (if \<not> m_init_ok (pw_mgr w) then Some (- 1, w)
      else do {
        (ret, w) \<leftarrow> for_items (reset_one_locked env) (\<lambda>it. it_group it = grp) (m_items (pw_mgr w)) 0 (mgr_lock w);
        Some (ret, mgr_unlock w) })"

text \<open>The result of \<open>fdb_kv_set_default\<close> is not looked at.\<close>

definition mgr_set_default :: "param_world \<Rightarrow> param_world option" where
  "mgr_set_default w = do {
     (_, db) \<leftarrow> fdb_kv_set_default (pw_cfg w) ((pw_db w)\<lparr>default_kvs := def_nodes_now w\<rparr>);
     Some (with_db db w) }"

definition flash_param_reset_all :: "param_env \<Rightarrow> param_world \<Rightarrow> (int \<times> param_world) option" where
  "flash_param_reset_all env w =
     (if \<not> m_init_ok (pw_mgr w) then Some (- 1, w)
      else do {
        w \<leftarrow> mgr_set_default (mgr_lock w);
        (ret, w) \<leftarrow> for_items (sync_one env) (\<lambda>_. True) (m_items (pw_mgr w)) 0 w;
        Some (ret, mgr_unlock w) })"

text \<open>The callback is \<open>None\<close> for \<open>NULL\<close>; it may change the objects and, against the warning, the manager.\<close>

definition flash_param_foreach ::
  "nat \<Rightarrow> (param_item \<Rightarrow> param_world \<Rightarrow> param_world option) option \<Rightarrow> param_world \<Rightarrow> param_world option" where
  "flash_param_foreach grp cb w =
     (case cb of
        None \<Rightarrow> Some w
      | Some f \<Rightarrow> do {
          (_, w) \<leftarrow> for_items (\<lambda>it w. map_option (\<lambda>w. (0, w)) (f it w)) (\<lambda>it. it_group it = grp) (m_items (pw_mgr w)) 0
                     (mgr_lock w);
          Some (mgr_unlock w) })"

section \<open>Printing\<close>

definition txt_bytes :: "string \<Rightarrow> bytes" where
  "txt_bytes s = map of_char s"

text \<open>
  The value of a parameter as \<open>flash_param_print\<close> and \<open>flash_param_print_group\<close> write it to a buffer of 128 bytes. Of a
  binary object only the size is printed, so its variable is not read.
\<close>

definition item_text :: "param_env \<Rightarrow> param_item \<Rightarrow> param_world \<Rightarrow> (bytes \<times> param_world) option" where
  "item_text env it w =
     (if it_type it = PARAM_TYPE_INT then int_to_str (it_ram_ptr it) 128 w
      else if it_type it = PARAM_TYPE_FLOAT then float_to_str env (it_ram_ptr it) 128 w
      else if it_type it = PARAM_TYPE_STR then do { (str, w) \<leftarrow> obj_str (it_ram_ptr it) w; Some (take 127 str, w) }
      else if it_type it = PARAM_TYPE_BLOB
      then Some (take 127 (txt_bytes ''<blob:'' @ fmt_d (int (it_ram_size it)) @ txt_bytes '' bytes>''), w)
      else Some (txt_bytes ''<unknown>'', w))"

record param_line =
  ln_index :: nat
  ln_key :: bytes
  ln_value :: bytes
  ln_group :: nat
  ln_desc :: bytes

fun item_lines ::
  "param_env \<Rightarrow> (param_item \<Rightarrow> bool) \<Rightarrow> nat \<Rightarrow> param_item list \<Rightarrow> param_world \<Rightarrow> (param_line list \<times> param_world) option" where
  "item_lines env sel i [] w = Some ([], w)"
| "item_lines env sel i (it # its) w =
     (if \<not> sel it then item_lines env sel (i + 1) its w
      else
        (case it_key it of
           None \<Rightarrow> None
         | Some key \<Rightarrow> do {
             (txt, w) \<leftarrow> item_text env it w;
             (lines, w) \<leftarrow> item_lines env sel (i + 1) its w;
             Some (\<lparr>ln_index = i, ln_key = key, ln_value = txt, ln_group = it_group it,
                    ln_desc = (case it_desc it of None \<Rightarrow> [] | Some d \<Rightarrow> d)\<rparr> # lines, w) }))"

definition flash_param_print :: "param_env \<Rightarrow> param_world \<Rightarrow> (param_line list \<times> param_world) option" where
  "flash_param_print env w =
     (if \<not> m_init_ok (pw_mgr w) then Some ([], w)
      else do {
        (lines, w) \<leftarrow> item_lines env (\<lambda>_. True) 0 (m_items (pw_mgr w)) (mgr_lock w);
        db \<leftarrow> fdb_kv_print (pw_cfg w) (pw_db w);
        Some (lines, mgr_unlock (with_db db w)) })"

definition flash_param_print_group :: "param_env \<Rightarrow> nat \<Rightarrow> param_world \<Rightarrow> (param_line list \<times> param_world) option" where
  "flash_param_print_group env grp w =
     (if \<not> m_init_ok (pw_mgr w) then Some ([], w)
      else do {
        (lines, w) \<leftarrow> item_lines env (\<lambda>it. it_group it = grp) 0 (m_items (pw_mgr w)) (mgr_lock w);
        Some (lines, mgr_unlock w) })"

end
