(* ===== verification/Flash_Param_Laws.thy ===== *)
theory Flash_Param_Laws
  imports Flash_Param
begin

text \<open>
  What the parameter manager does to the database, seen as a map, and to the variables: the calls of FlashDB, the reads and
  writes of one parameter of each type, and the lock discipline of the interface.
\<close>

section \<open>What every operation keeps\<close>

text \<open>The manager stays as it is except for the database, and the history grows by accesses only.\<close>

definition frame :: "param_world \<Rightarrow> param_world \<Rightarrow> bool" where
  "frame w w' \<longleftrightarrow> (\<exists>db. pw_mgr w' = (pw_mgr w)\<lparr>m_kvdb := db\<rparr>) \<and> (\<exists>j. ptrace w' = ptrace w @ replicate j PAccess)"

lemma frame_refl [simp]: "frame w w"
  by (auto simp: frame_def intro: exI [of _ "m_kvdb (pw_mgr w)"] exI [of _ 0])

lemma frame_trans:
  assumes "frame w w1" and "frame w1 w2"
  shows "frame w w2"
proof -
  obtain j1 j2 where "ptrace w1 = ptrace w @ replicate j1 PAccess" "ptrace w2 = ptrace w1 @ replicate j2 PAccess"
    using assms by (auto simp: frame_def)
  then have "ptrace w2 = ptrace w @ replicate (j1 + j2) PAccess" by (simp add: replicate_add)
  then show ?thesis using assms by (auto simp: frame_def)
qed

lemma frame_access:
  "frame w (w\<lparr>pw_mgr := (pw_mgr w)\<lparr>m_kvdb := db\<rparr>, str_value := sv, ptrace := ptrace w @ [PAccess]\<rparr>)"
  "frame w (with_db db w)" "frame w (with_db db (w\<lparr>str_value := sv\<rparr>))" "frame w (with_db db (w\<lparr>objs := os\<rparr>))"
  "frame w (w\<lparr>objs := os, ptrace := ptrace w @ [PAccess]\<rparr>)" "frame w (touch w)"
  by (auto simp: frame_def with_db_def touch_def intro: exI [of _ "m_kvdb (pw_mgr w)"] exI [of _ 1])

definition keeps :: "param_world \<Rightarrow> ('x \<times> param_world) option \<Rightarrow> bool" where
  "keeps w r \<longleftrightarrow> (\<forall>x w'. r = Some (x, w') \<longrightarrow> frame w w')"

definition keeps1 :: "param_world \<Rightarrow> param_world option \<Rightarrow> bool" where
  "keeps1 w r \<longleftrightarrow> (\<forall>w'. r = Some w' \<longrightarrow> frame w w')"

named_theorems keeps_rules

lemma keeps_ret [keeps_rules]: "keeps w (Some (x, w))" "keeps w None" "keeps1 w (Some w)" "keeps1 w None"
  by (auto simp: keeps_def keeps1_def)

lemma keeps_bind [keeps_rules]:
  assumes "keeps w r" and "\<And>x w1. keeps w1 (f x w1)"
  shows "keeps w (Option.bind r (\<lambda>(x, w1). f x w1))"
  using assms by (cases r) (auto simp: keeps_def intro: frame_trans)

lemma keeps1_bind [keeps_rules]:
  assumes "keeps w r" and "\<And>x w1. keeps1 w1 (f x w1)"
  shows "keeps1 w (Option.bind r (\<lambda>(x, w1). f x w1))"
  using assms by (cases r) (auto simp: keeps_def keeps1_def intro: frame_trans)

lemma keeps_bind1 [keeps_rules]:
  assumes "keeps1 w r" and "\<And>w1. keeps w1 (f w1)"
  shows "keeps w (Option.bind r f)"
  using assms by (cases r) (auto simp: keeps_def keeps1_def intro: frame_trans)

lemma keeps1_bind1 [keeps_rules]:
  assumes "keeps1 w r" and "\<And>w1. keeps1 w1 (f w1)"
  shows "keeps1 w (Option.bind r f)"
  using assms by (cases r) (auto simp: keeps1_def intro: frame_trans)

lemma keeps_if [keeps_rules]:
  "(b \<Longrightarrow> keeps w r) \<Longrightarrow> (\<not> b \<Longrightarrow> keeps w s) \<Longrightarrow> keeps w (if b then r else s)"
  "(b \<Longrightarrow> keeps1 w r') \<Longrightarrow> (\<not> b \<Longrightarrow> keeps1 w s') \<Longrightarrow> keeps1 w (if b then r' else s')"
  by simp_all

lemma keeps_option [keeps_rules]:
  "keeps w r \<Longrightarrow> (\<And>x. keeps w (f x)) \<Longrightarrow> keeps w (case o1 of None \<Rightarrow> r | Some x \<Rightarrow> f x)"
  by (simp split: option.split)

lemma keeps_read [keeps_rules]:
  "keeps w (obj_read p n w)" "keeps w (obj_str p w)" "keeps w (int_to_str p n w)" "keeps w (float_to_str env p n w)"
proof -
  show rd: "keeps w (obj_read p n w)" for n
    by (auto simp: keeps_def obj_read_def frame_access split: option.splits)
  show "keeps w (obj_str p w)" by (auto simp: keeps_def obj_str_def frame_access split: option.splits)
  show "keeps w (int_to_str p n w)" "keeps w (float_to_str env p n w)"
    unfolding int_to_str_def float_to_str_def by (intro keeps_rules rd)+
qed

lemma keeps_obj [keeps_rules]:
  "keeps1 w (obj_write p off xs w)" "keeps1 w (obj_copy p q n w)" "keeps1 w (obj_strncpy p str n w)"
proof -
  show wr: "keeps1 w (obj_write p off xs w)" for p off xs w
    by (auto simp: keeps1_def obj_write_def frame_access split: option.splits)
  show "keeps1 w (obj_copy p q n w)" unfolding obj_copy_def by (intro keeps_rules wr)
  show "keeps1 w (obj_strncpy p str n w)" unfolding obj_strncpy_def by (intro keeps_rules wr)
qed

lemma keeps_db [keeps_rules]:
  "keeps w (db_get_str env k w)" "keeps w (db_set_str k str w)" "keeps w (blob_db_write k val n w)" "keeps w (blob_db_read env k val n w)"
  by (auto simp: keeps_def db_get_str_def db_set_str_def blob_db_write_def blob_db_read_def frame_access bind_eq_Some_conv split: option.splits if_splits)

lemma keeps_one [keeps_rules]:
  "keeps w (reset_one_locked env it w)" "keeps w (read_one env it w)" "keeps w (sync_one env it w)" "keeps w (set_one env k it val w)"
proof -
  show reset: "keeps w (reset_one_locked env it w)" for w
    unfolding reset_one_locked_def int_db_write_def float_db_write_def str_db_write_def by (intro keeps_rules)
  show read: "keeps w (read_one env it w)" for w
    unfolding read_one_def int_db_read_def float_db_read_def str_db_read_def by (intro keeps_rules)
  show "keeps w (sync_one env it w)" unfolding sync_one_def by (intro keeps_rules reset read)
  show "keeps w (set_one env k it val w)"
    unfolding set_one_def int_db_write_def float_db_write_def str_db_write_def Let_def by (intro keeps_rules)
qed

lemma keeps_for_items [keeps_rules]:
  assumes "\<And>it w. keeps w (f it w)"
  shows "keeps w (for_items f sel its ret w)"
proof (induction its arbitrary: ret w)
  case Nil
  then show ?case by (simp add: keeps_rules)
next
  case (Cons it its)
  then show ?case by (auto intro!: keeps_rules assms)
qed

lemma keeps_lines [keeps_rules]: "keeps w (item_lines env sel i its w)"
proof (induction its arbitrary: i w)
  case Nil
  then show ?case by (simp add: keeps_rules)
next
  case (Cons it its)
  have "keeps w (item_text env it w)" for w unfolding item_text_def by (intro keeps_rules)
  then show ?case using Cons by (auto intro!: keeps_rules split: option.split)
qed

section \<open>Locking\<close>

text \<open>The calls of a client on an initialised manager, one after the other.\<close>

datatype param_call = PSet "bytes option" "nat option" | PSetBlob "bytes option" "nat option" nat
  | PGet "bytes option" "nat option" "nat option" | PReset "bytes option" | PGroupReset nat | PResetAll
  | PPrint | PPrintGroup nat

fun param_step :: "param_env \<Rightarrow> param_call \<Rightarrow> param_world \<Rightarrow> param_world option" where
  "param_step env (PSet k p) w = map_option snd (flash_param_set env k p w)"
| "param_step env (PSetBlob k p n) w = map_option snd (flash_param_set_blob k p n w)"
| "param_step env (PGet k p n) w = map_option (\<lambda>(_, _, w). w) (flash_param_get k p n w)"
| "param_step env (PReset k) w = map_option snd (flash_param_reset env k w)"
| "param_step env (PGroupReset g) w = map_option snd (flash_param_group_reset env g w)"
| "param_step env PResetAll w = map_option snd (flash_param_reset_all env w)"
| "param_step env PPrint w = map_option snd (flash_param_print env w)"
| "param_step env (PPrintGroup g) w = map_option snd (flash_param_print_group env g w)"

fun param_run :: "param_env \<Rightarrow> param_call list \<Rightarrow> param_world \<Rightarrow> param_world option" where
  "param_run env [] w = Some w"
| "param_run env (c # cs) w = do { w \<leftarrow> param_step env c w; param_run env cs w }"

text \<open>
  Whether the lock is held after some events, \<open>None\<close> for a history that takes a lock that is held, releases one that is
  not, or has an access without the lock.
\<close>

fun lock_scan :: "bool \<Rightarrow> param_event list \<Rightarrow> bool option" where
  "lock_scan held [] = Some held"
| "lock_scan held (PLock # es) = (if held then None else lock_scan True es)"
| "lock_scan held (PUnlock # es) = (if held then lock_scan False es else None)"
| "lock_scan held (PAccess # es) = (if held then lock_scan held es else None)"

lemma lock_scan_append:
  "lock_scan b (xs @ ys) = (case lock_scan b xs of None \<Rightarrow> None | Some c \<Rightarrow> lock_scan c ys)"
  by (induction b xs rule: lock_scan.induct) auto

lemma lock_scan_accesses: "lock_scan True (replicate j PAccess) = Some True"
  by (induction j) auto

definition locks_ok :: "param_world \<Rightarrow> bool" where
  "locks_ok w \<longleftrightarrow> m_lock (pw_mgr w) \<and> m_unlock (pw_mgr w) \<and> lock_scan False (ptrace w) = Some False"

text \<open>A call is one critical section or does nothing, and leaves the manager as it is except for the database.\<close>

definition step_ok :: "param_world \<Rightarrow> param_world \<Rightarrow> bool" where
  "step_ok w w' \<longleftrightarrow> (\<exists>db. pw_mgr w' = (pw_mgr w)\<lparr>m_kvdb := db\<rparr>) \<and> (locks_ok w \<longrightarrow> locks_ok w')"

lemma step_ok_refl: "step_ok w w"
  by (auto simp: step_ok_def intro: exI [of _ "m_kvdb (pw_mgr w)"])

lemma step_ok_trans: "step_ok w w1 \<Longrightarrow> step_ok w1 w2 \<Longrightarrow> step_ok w w2"
  by (auto simp: step_ok_def)

lemma section_ok:
  assumes "keeps (mgr_lock w) (Some (x, w1))"
  shows "step_ok w (mgr_unlock w1)"
proof -
  obtain j db where w1: "pw_mgr w1 = (pw_mgr (mgr_lock w))\<lparr>m_kvdb := db\<rparr>" "ptrace w1 = ptrace (mgr_lock w) @ replicate j PAccess"
    using assms by (auto simp: keeps_def frame_def)
  have "locks_ok (mgr_unlock w1)" if "locks_ok w"
    using that w1 by (simp add: locks_ok_def mgr_unlock_def mgr_lock_def lock_scan_append lock_scan_accesses)
  then show ?thesis using w1(1) by (auto simp: step_ok_def mgr_unlock_def mgr_lock_def)
qed

lemma section_result:
  assumes "keeps (mgr_lock w) r" and "Option.bind r (\<lambda>(x, w1). Some (x, mgr_unlock w1)) = Some (y, w')"
  shows "step_ok w w'"
  using assms section_ok by (cases r) auto

lemma mgr_set_default_keeps [keeps_rules]: "keeps1 w (mgr_set_default w)"
  by (auto simp: keeps1_def mgr_set_default_def frame_access bind_eq_Some_conv)

lemma param_step_ok:
  assumes "param_step env c w = Some w'"
  shows "step_ok w w'"
proof (cases c)
  case (PSet k p)
  then show ?thesis
    using assms section_result [OF keeps_one(4)] step_ok_refl
    by (auto simp: flash_param_set_def split: option.splits if_splits)
next
  case (PSetBlob k p n)
  have "keeps (mgr_lock w) (Option.bind (blob_db_write key p n (mgr_lock w)) (\<lambda>(r, w).
      if r \<noteq> FDB_NO_ERR then Some (- 1 :: int, w)
      else do {
        w \<leftarrow> obj_copy (it_ram_ptr it) p n w;
        w \<leftarrow> (if n < it_ram_size it then obj_write (it_ram_ptr it) n (replicate (it_ram_size it - n) 0) w else Some w);
        Some (0, w) }))" for key it
    by (intro keeps_rules)
  from section_result [OF this] show ?thesis
    using PSetBlob assms step_ok_refl
    by (auto simp: flash_param_set_blob_def bind_assoc case_prod_unfold split: option.splits if_splits)
next
  case (PGet k p n)
  have "step_ok w (mgr_unlock (mgr_lock w))" using section_ok [OF keeps_ret(1)] .
  moreover have "step_ok w (mgr_unlock w1)" if "obj_copy q r m (mgr_lock w) = Some w1" for q r m w1
    using section_ok [of w "()" w1] keeps_obj(2) [of "mgr_lock w" q r m] that by (simp add: keeps_def keeps1_def)
  ultimately show ?thesis
    using PGet assms step_ok_refl by (auto simp: flash_param_get_def Let_def bind_eq_Some_conv split: option.splits if_splits)
next
  case (PReset k)
  then show ?thesis
    using assms section_result [OF keeps_one(1)] step_ok_refl
    by (auto simp: flash_param_reset_def split: option.splits if_splits)
next
  case (PGroupReset g)
  then show ?thesis
    using assms section_result [OF keeps_for_items [OF keeps_one(1)]] step_ok_refl
    by (auto simp: flash_param_group_reset_def split: option.splits if_splits)
next
  case PResetAll
  have "keeps (mgr_lock w) (Option.bind (mgr_set_default (mgr_lock w)) (\<lambda>w. for_items (sync_one env) (\<lambda>_. True) (m_items (pw_mgr w)) 0 w))"
    by (intro keeps_rules)
  from section_result [OF this] show ?thesis
    using PResetAll assms step_ok_refl by (auto simp: flash_param_reset_all_def bind_assoc split: option.splits if_splits)
next
  case PPrint
  have "keeps (mgr_lock w) (Option.bind (item_lines env (\<lambda>_. True) 0 (m_items (pw_mgr w)) (mgr_lock w)) (\<lambda>(lines, w). do {
      db \<leftarrow> fdb_kv_print (pw_cfg w) (pw_db w); Some (lines, with_db db w) }))"
    by (intro keeps_bind keeps_lines) (auto simp: keeps_def frame_access bind_eq_Some_conv)
  from section_result [OF this] show ?thesis
    using PPrint assms step_ok_refl by (auto simp: flash_param_print_def bind_assoc case_prod_unfold split: if_splits)
next
  case (PPrintGroup g)
  then show ?thesis
    using assms section_result [OF keeps_lines] step_ok_refl by (auto simp: flash_param_print_group_def split: if_splits)
qed

lemma param_run_ok: "param_run env cs w = Some w' \<Longrightarrow> step_ok w w'"
proof (induction cs arbitrary: w)
  case Nil
  then show ?case using step_ok_refl by simp
next
  case (Cons c cs)
  then show ?case by (auto simp: bind_eq_Some_conv intro: step_ok_trans dest: param_step_ok)
qed

section \<open>The database and the variables\<close>

text \<open>
  The database is the map \<open>m\<close> and has used \<open>n\<close> bytes of its budget; the static buffer of \<open>fdb_kv_get\<close> has its size.
\<close>

definition mgr_rel :: "bytes set \<Rightarrow> param_env \<Rightarrow> param_world \<Rightarrow> (bytes \<rightharpoonup> bytes) \<Rightarrow> nat \<Rightarrow> bool" where
  "mgr_rel K env w m n \<longleftrightarrow> store_rel K (pw_cfg w) (stack_kv env) (pw_db w) m n \<and> length (str_value w) = FDB_STR_KV_VALUE_MAX_SIZE + 1"

text \<open>The string that \<open>fdb_kv_get\<close> makes of a record: at most 128 bytes, and none if it is empty or not printable.\<close>

definition str_of :: "bytes option \<Rightarrow> bytes option" where
  "str_of x = (let s = take FDB_STR_KV_VALUE_MAX_SIZE (value_or_empty x) in if s \<noteq> [] \<and> fdb_is_str s then Some s else None)"

lemma mgr_rel_objs [simp]: "mgr_rel K env (w\<lparr>objs := os\<rparr>) = mgr_rel K env w" "mgr_rel K env (w\<lparr>ptrace := t\<rparr>) = mgr_rel K env w"
  by (auto simp: mgr_rel_def fun_eq_iff)

lemma touch_simps [simp]:
  "mgr_rel K env (touch w) = mgr_rel K env w" "objs (touch w) = objs w" "pw_mgr (touch w) = pw_mgr w"
  by (simp_all add: touch_def)

lemma mgr_rel_lock [simp]: "mgr_rel K env (mgr_lock w) = mgr_rel K env w" "mgr_rel K env (mgr_unlock w) = mgr_rel K env w"
  by (auto simp: mgr_rel_def mgr_lock_def mgr_unlock_def fun_eq_iff)

lemma objs_lock [simp]: "objs (mgr_lock w) = objs w" "objs (mgr_unlock w) = objs w"
  by (simp_all add: mgr_lock_def mgr_unlock_def)

lemma pw_cfg_lock [simp]: "pw_cfg (mgr_lock w) = pw_cfg w" "pw_cfg (mgr_unlock w) = pw_cfg w"
  by (simp_all add: mgr_lock_def mgr_unlock_def)

lemma frame_cfg: "frame w w' \<Longrightarrow> pw_cfg w' = pw_cfg w"
  by (auto simp: frame_def)

lemma db_get_str_law:
  assumes "mgr_rel K env w m n" and "k \<in> K"
  shows "\<exists>w'. db_get_str env k w = Some (str_of (m k), w') \<and> mgr_rel K env w' m n \<and> objs w' = objs w"
proof -
  let ?v = "value_or_empty (m k)"
  have len: "128 \<le> length (str_value w)" and rel: "store_rel K (pw_cfg w) (stack_kv env) (pw_db w) m n"
    using assms(1) by (simp_all add: mgr_rel_def FDB_STR_KV_VALUE_MAX_SIZE_def)
  obtain db' blob where get: "fdb_kv_get_blob (pw_cfg w) (stack_kv env) k (a_blob (str_value w) 128) (pw_db w) = Some (min 128 (length ?v), blob, db')"
    and blob: "blob_buf blob = Some (patch_at (str_value w) 0 (take 128 ?v))" and rel': "store_rel K (pw_cfg w) (stack_kv env) db' m n"
    using get_blob_law [OF rel assms(2) len] by blast
  define val where "val = patch_at (str_value w) 0 (take 128 ?v)"
  have lv: "length val = 129" using assms(1) by (simp add: val_def mgr_rel_def FDB_STR_KV_VALUE_MAX_SIZE_def patch_at_def)
  have tk: "take (min 128 (length ?v)) val = take 128 ?v" by (simp add: val_def patch_at_def min_def)
  show ?thesis
  proof (cases "take 128 ?v \<noteq> [] \<and> fdb_is_str (take 128 ?v)")
    case True
    then have "0 < min 128 (length ?v)" by auto
    moreover have "mem_write val (min 128 (length ?v)) [0] = Some (patch_at val (min 128 (length ?v)) [0])"
      using lv by (simp add: mem_write_def)
    moreover have "take (min 128 (length ?v)) (patch_at val (min 128 (length ?v)) [0]) = take 128 ?v"
      using tk lv by (simp add: patch_at_def min_def)
    moreover have "length (patch_at val (min 128 (length ?v)) [0]) = 129" using lv by (simp add: patch_at_def)
    ultimately show ?thesis
      using True get blob rel' tk unfolding db_get_str_def fdb_kv_get_def
      by (simp add: a_blob_def [symmetric] str_of_def FDB_STR_KV_VALUE_MAX_SIZE_def Let_def with_db_def mgr_rel_def val_def [symmetric] a_blob_def fdb_blob_make_def)
  next
    case False
    then show ?thesis
      using get blob rel' tk lv unfolding db_get_str_def fdb_kv_get_def
      by (auto simp: str_of_def FDB_STR_KV_VALUE_MAX_SIZE_def Let_def with_db_def mgr_rel_def val_def [symmetric] a_blob_def fdb_blob_make_def)
  qed
qed

lemma db_set_str_law:
  assumes "mgr_rel K env w m n" and "k \<in> K" and "n + kv_size k str \<le> sec_size (pw_cfg w) - 105"
  shows "\<exists>w'. db_set_str k str w = Some (FDB_NO_ERR, w') \<and> mgr_rel K env w' (m(k \<mapsto> str)) (n + kv_size k str) \<and> objs w' = objs w"
proof -
  have rel: "store_rel K (pw_cfg w) (stack_kv env) (pw_db w) m n" using assms(1) by (simp add: mgr_rel_def)
  have "mem_read str 0 (length str) = Some str" by (simp add: mem_read_def)
  from set_blob_law [OF rel assms(2) this assms(3)] obtain db' where
    "fdb_kv_set_blob (pw_cfg w) k (a_blob str (length str)) (pw_db w) = Some (FDB_NO_ERR, db')"
    "store_rel K (pw_cfg w) (stack_kv env) db' (m(k \<mapsto> str)) (n + kv_size k str)" by blast
  then show ?thesis
    using assms(1) by (auto simp: db_set_str_def fdb_kv_set_def a_blob_def with_db_def mgr_rel_def)
qed

lemma blob_db_write_law:
  assumes "mgr_rel K env w m n" and "k \<in> K" and "mem_read (objs w i) 0 len = Some v" and "n + kv_size k v \<le> sec_size (pw_cfg w) - 105"
  shows "\<exists>w'. blob_db_write k (Some i) len w = Some (FDB_NO_ERR, w') \<and> mgr_rel K env w' (m(k \<mapsto> v)) (n + kv_size k v) \<and> objs w' = objs w"
proof -
  have rel: "store_rel K (pw_cfg w) (stack_kv env) (pw_db w) m n" using assms(1) by (simp add: mgr_rel_def)
  from set_blob_law [OF rel assms(2-4)] show ?thesis
    using assms(1) by (auto simp: blob_db_write_def with_db_def mgr_rel_def)
qed

lemma blob_db_read_law:
  assumes "mgr_rel K env w m n" and "k \<in> K" and "len \<le> length (objs w i)"
  shows "\<exists>w'. blob_db_read env k (Some i) len w = Some (value_or_empty (m k) = [], w') \<and> mgr_rel K env w' m n
    \<and> objs w' = (objs w)(i := patch_at (objs w i) 0 (take len (value_or_empty (m k))))"
proof -
  have rel: "store_rel K (pw_cfg w) (stack_kv env) (pw_db w) m n" using assms(1) by (simp add: mgr_rel_def)
  then have "db_init_ok (pw_db w)" by (auto simp: store_rel_def kv_inv_def)
  then show ?thesis
    using get_blob_law [OF rel assms(2,3)] assms(1) by (auto simp: blob_db_read_def with_db_def mgr_rel_def)
qed


section \<open>One parameter\<close>

text \<open>
  What is stored in the database for a value object, and what the variable holds after it: \<open>len\<close> is the number of bytes of
  a binary object.
\<close>

definition stored_value :: "param_env \<Rightarrow> nat \<Rightarrow> nat \<Rightarrow> bytes \<Rightarrow> bytes option" where
  "stored_value env ty len xs =
     (if ty = PARAM_TYPE_INT then map_option (\<lambda>ys. fmt_d (sint (of_le32 ys))) (mem_read xs 0 4)
      else if ty = PARAM_TYPE_FLOAT then map_option (\<lambda>ys. take 31 (fmt_g9 env ys)) (mem_read xs 0 4)
      else if ty = PARAM_TYPE_STR then c_str xs
      else mem_read xs 0 len)"

definition padded :: "nat \<Rightarrow> bytes \<Rightarrow> bytes" where
  "padded rs str = take (rs - 1) (str @ replicate (rs - 1) 0) @ [0]"

definition var_value :: "nat \<Rightarrow> nat \<Rightarrow> nat \<Rightarrow> bytes \<Rightarrow> bytes" where
  "var_value ty rs len xs =
     (if ty = PARAM_TYPE_INT \<or> ty = PARAM_TYPE_FLOAT then take 4 xs
      else if ty = PARAM_TYPE_STR then padded rs (takeWhile (\<lambda>b. b \<noteq> 0) xs)
      else take len xs @ replicate (rs - len) 0)"

text \<open>Setting and resetting a parameter are the same writes of different values.\<close>

definition write_one ::
  "param_env \<Rightarrow> bytes \<Rightarrow> param_item \<Rightarrow> nat option \<Rightarrow> nat \<Rightarrow> nat \<Rightarrow> param_world \<Rightarrow> (int \<times> param_world) option" where
  "write_one env key it val len copy_sz w =
     (if it_type it = PARAM_TYPE_INT
      then do {
        (r, w) \<leftarrow> int_db_write key val w;
        if r \<noteq> FDB_NO_ERR then Some (- 1, w)
        else do { w \<leftarrow> obj_copy (it_ram_ptr it) val 4 w; Some (0, w) } }
      else if it_type it = PARAM_TYPE_FLOAT
      then do {
        (r, w) \<leftarrow> float_db_write env key val w;
        if r \<noteq> FDB_NO_ERR then Some (- 1, w)
        else do { w \<leftarrow> obj_copy (it_ram_ptr it) val 4 w; Some (0, w) } }
      else if it_type it = PARAM_TYPE_STR
      then do {
        (r, w) \<leftarrow> str_db_write key val w;
        if r \<noteq> FDB_NO_ERR then Some (- 1, w)
        else do {
          (str, w) \<leftarrow> obj_str val w;
          w \<leftarrow> obj_strncpy (it_ram_ptr it) str (it_ram_size it) w;
          Some (0, w) } }
      else if it_type it = PARAM_TYPE_BLOB
      then do {
        (r, w) \<leftarrow> blob_db_write key val len w;
        if r \<noteq> FDB_NO_ERR then Some (- 1, w)
        else do {
          w \<leftarrow> obj_write (it_ram_ptr it) 0 (replicate (it_ram_size it) 0) w;
          w \<leftarrow> obj_copy (it_ram_ptr it) val copy_sz w;
          Some (0, w) } }
      else Some (- 1, w))"

lemma set_one_write:
  "set_one env key it val w = write_one env key it val (min (it_ram_size it) (it_def_size it)) (min (it_ram_size it) (it_def_size it)) w"
proof -
  have "(if it_ram_size it < it_def_size it then it_ram_size it else it_def_size it) = min (it_ram_size it) (it_def_size it)" by auto
  then show ?thesis unfolding set_one_def write_one_def Let_def by presburger
qed

lemma reset_one_write:
  assumes "it_key it = Some key"
  shows "reset_one_locked env it w = write_one env key it (it_def_val it) (it_def_size it) (min (it_ram_size it) (it_def_size it)) w"
proof -
  have "(if it_def_size it < it_ram_size it then it_def_size it else it_ram_size it) = min (it_ram_size it) (it_def_size it)" by auto
  with assms show ?thesis unfolding reset_one_locked_def write_one_def assms option.case by presburger
qed

lemma obj_write_law:
  assumes "off + length xs \<le> length (objs w i)"
  shows "\<exists>w'. obj_write (Some i) off xs w = Some w' \<and> objs w' = (objs w)(i := patch_at (objs w i) off xs) \<and> mgr_rel K env w' = mgr_rel K env w"
  using assms by (simp add: obj_write_def mem_write_def)

lemma obj_strncpy_law:
  assumes "0 < rs" and "rs \<le> length (objs w i)"
  shows "\<exists>w'. obj_strncpy (Some i) str rs w = Some w' \<and> objs w' = (objs w)(i := patch_at (objs w i) 0 (padded rs str))
    \<and> mgr_rel K env w' = mgr_rel K env w"
proof -
  define xs where "xs = take (rs - 1) (str @ replicate (rs - 1) 0)"
  have len: "length xs = rs - 1" by (simp add: xs_def)
  have "0 + length xs \<le> length (objs w i)" using len assms by simp
  then obtain w1 where w1: "obj_write (Some i) 0 xs w = Some w1" "objs w1 = (objs w)(i := patch_at (objs w i) 0 xs)"
    "mgr_rel K env w1 = mgr_rel K env w"
    using obj_write_law [of 0 xs w i K env] by blast
  have "rs - 1 + length [0 :: u8] \<le> length (objs w1 i)" using w1(2) assms len by (simp add: patch_at_0)
  then obtain w2 where w2: "obj_write (Some i) (rs - 1) [0] w1 = Some w2" "objs w2 = (objs w1)(i := patch_at (objs w1 i) (rs - 1) [0])"
    "mgr_rel K env w2 = mgr_rel K env w1"
    using obj_write_law [of "rs - 1" "[0]" w1 i K env] by blast
  have "patch_at (patch_at (objs w i) 0 xs) (0 + length xs) [0] = patch_at (objs w i) 0 (xs @ [0])"
    by (rule patch_at_append) (use assms len in simp)
  then have "patch_at (patch_at (objs w i) 0 xs) (rs - 1) [0] = patch_at (objs w i) 0 (padded rs str)"
    unfolding padded_def xs_def [symmetric] by (simp add: len)
  then show ?thesis using w1 w2 unfolding obj_strncpy_def xs_def by simp
qed

lemma obj_copy_law:
  assumes "len \<le> length (objs w i)" and "len \<le> length (objs w j)"
  shows "\<exists>w'. obj_copy (Some i) (Some j) len w = Some w' \<and> objs w' = (objs w)(i := patch_at (objs w i) 0 (take len (objs w j)))
    \<and> mgr_rel K env w' = mgr_rel K env w"
  using obj_write_law [of 0 "take len (objs w j)" "touch w" i K env] assms by (auto simp: obj_copy_def obj_read_def mem_read_def)

lemma write_num_law:
  assumes rel: "mgr_rel K env w m n" and key: "key \<in> K" and room: "4 \<le> length (objs w i)" "4 \<le> length (objs w j)"
    and budget: "n + kv_size key str \<le> sec_size (pw_cfg w) - 105"
  shows "\<exists>w'. do { (r, w) \<leftarrow> db_set_str key str w;
                   if r \<noteq> FDB_NO_ERR then Some (- 1 :: int, w)
                   else do { w \<leftarrow> obj_copy (Some i) (Some j) 4 w; Some (0, w) } } = Some (0, w')
    \<and> mgr_rel K env w' (m(key \<mapsto> str)) (n + kv_size key str) \<and> objs w' = (objs w)(i := patch_at (objs w i) 0 (take 4 (objs w j)))"
proof -
  obtain w1 where w1: "db_set_str key str w = Some (FDB_NO_ERR, w1)" "mgr_rel K env w1 (m(key \<mapsto> str)) (n + kv_size key str)" "objs w1 = objs w"
    using db_set_str_law [OF rel key budget] by blast
  then show ?thesis using obj_copy_law [of 4 w1 i j K env] room by auto
qed

text \<open>Writing a parameter of any type succeeds, changes its record and its variable, and nothing else.\<close>

lemma write_one_law:
  assumes rel: "mgr_rel K env w m n" and key: "key \<in> K" and valid: "item_valid it" and i: "it_ram_ptr it = Some i"
    and room: "it_ram_size it \<le> length (objs w i)" and copy: "copy_sz \<le> it_ram_size it" "copy_sz \<le> len"
    and val: "stored_value env (it_type it) len (objs w j) = Some str" and apart: "i \<noteq> j \<or> it_type it \<noteq> PARAM_TYPE_BLOB"
    and budget: "n + kv_size key str \<le> sec_size (pw_cfg w) - 105"
  shows "\<exists>w'. write_one env key it (Some j) len copy_sz w = Some (0, w') \<and> mgr_rel K env w' (m(key \<mapsto> str)) (n + kv_size key str)
    \<and> objs w' = (objs w)(i := patch_at (objs w i) 0 (var_value (it_type it) (it_ram_size it) copy_sz (objs w j)))"
proof -
  consider (num) "it_type it \<le> 1" | (str) "it_type it = 2" | (blob) "it_type it = 3"
    using valid by (fastforce simp: item_valid_def param_consts)
  then show ?thesis
  proof cases
    case num
    have sz: "4 \<le> length (objs w i)" "4 \<le> length (objs w j)"
      using num valid room val by (auto simp: item_valid_def param_consts stored_value_def mem_read_def le_Suc_eq split: if_splits)
    have "take 31 (fmt_d (sint x)) = fmt_d (sint x)" for x :: u32
      using length_fmt_d [of "sint x"] sint_greater_eq [of x] sint_less [of x] by simp
    then have "(if it_type it = 0 then int_to_str (Some j) 32 w else float_to_str env (Some j) 32 w) = Some (str, touch w)"
      using num val by (auto simp: int_to_str_def float_to_str_def stored_value_def param_consts obj_read_def le_Suc_eq split: option.splits)
    then show ?thesis
      using write_num_law [of K env "touch w" m n key i j str] rel key sz budget num unfolding write_one_def i
      by (auto simp: int_db_write_def float_db_write_def param_consts var_value_def le_Suc_eq)
  next
    case str
    have st: "obj_str (Some j) v = Some (str, touch v)" if "objs v = objs w" for v
      using val str that by (auto simp: stored_value_def param_consts obj_str_def)
    have tw: "takeWhile (\<lambda>b. b \<noteq> 0) (objs w j) = str"
      using val str by (auto simp: stored_value_def param_consts c_str_def split: if_splits)
    have rel': "mgr_rel K env (touch w) m n" and budget': "n + kv_size key str \<le> sec_size (pw_cfg (touch w)) - 105"
      using rel budget by simp_all
    obtain w1 where w1: "db_set_str key str (touch w) = Some (FDB_NO_ERR, w1)" "mgr_rel K env w1 (m(key \<mapsto> str)) (n + kv_size key str)" "objs w1 = objs w"
      using db_set_str_law [OF rel' key budget'] by auto
    have "0 < it_ram_size it" "it_ram_size it \<le> length (objs (touch w1) i)"
      using valid str room w1(3) by (auto simp: item_valid_def param_consts)
    from obj_strncpy_law [OF this, of str K env] w1 st [OF refl] st [OF w1(3)] tw str i show ?thesis
      by (auto simp: write_one_def str_db_write_def param_consts var_value_def)
  next
    case blob
    have st: "mem_read (objs w j) 0 len = Some str" using val blob by (simp add: stored_value_def param_consts)
    then have lj: "copy_sz \<le> length (objs w j)" using copy by (auto simp: mem_read_def split: if_splits)
    obtain w1 where w1: "blob_db_write key (Some j) len w = Some (FDB_NO_ERR, w1)"
      "mgr_rel K env w1 (m(key \<mapsto> str)) (n + kv_size key str)" "objs w1 = objs w"
      using blob_db_write_law [OF rel key st budget] by blast
    obtain w2 where w2: "obj_write (Some i) 0 (replicate (it_ram_size it) 0) w1 = Some w2" "mgr_rel K env w2 = mgr_rel K env w1"
      "objs w2 = (objs w)(i := patch_at (objs w i) 0 (replicate (it_ram_size it) 0))"
      using obj_write_law [of 0 "replicate (it_ram_size it) 0" w1 i K env] room w1(3) by auto
    obtain w3 where w3: "obj_copy (Some i) (Some j) copy_sz w2 = Some w3" "mgr_rel K env w3 = mgr_rel K env w2"
      "objs w3 = (objs w2)(i := patch_at (objs w2 i) 0 (take copy_sz (objs w2 j)))"
      using obj_copy_law [of copy_sz w2 i j K env] w2(3) room copy lj apart blob by (auto simp: param_consts)
    have "i \<noteq> j" using apart blob by (simp add: param_consts)
    then have "objs w3 = (objs w)(i := patch_at (objs w i) 0 (take copy_sz (objs w j) @ replicate (it_ram_size it - copy_sz) 0))"
      using w3(3) w2(3) copy lj by (simp add: patch_at_0)
    then show ?thesis using w1 w2 w3 i blob by (simp add: write_one_def param_consts var_value_def)
  qed
qed


text \<open>What reading a parameter from the database puts into its variable; \<open>None\<close> when the read fails.\<close>

definition loaded_value :: "param_env \<Rightarrow> nat \<Rightarrow> nat \<Rightarrow> bytes option \<Rightarrow> bytes option" where
  "loaded_value env ty rs x =
     (if ty = PARAM_TYPE_INT then Option.bind (str_of x) int_from_str
      else if ty = PARAM_TYPE_FLOAT then Option.bind (str_of x) (float_from_str env)
      else if ty = PARAM_TYPE_STR then map_option (padded rs) (str_of x)
      else if value_or_empty x = [] then None else Some (take rs (value_or_empty x)))"

definition floats_ok :: "param_env \<Rightarrow> bool" where
  "floats_ok env \<longleftrightarrow> (\<forall>s. length (fst (strtof env s)) = 4)"

lemma from_str_length:
  "int_from_str s = Some v \<Longrightarrow> length v = 4" "floats_ok env \<Longrightarrow> float_from_str env s = Some v \<Longrightarrow> length v = 4"
  by (auto simp: int_from_str_def float_from_str_def floats_ok_def split: prod.splits if_splits) (metis fst_conv)

lemma read_num_law:
  assumes rel: "mgr_rel K env w m n" and key: "key \<in> K" and room: "4 \<le> length (objs w i)" and len: "\<And>s v. f s = Some v \<Longrightarrow> length v = 4"
  shows "\<exists>w'. do { (s, w) \<leftarrow> db_get_str env key w;
                   case s of
                     None \<Rightarrow> Some (True, w)
                   | Some str \<Rightarrow> (case f str of None \<Rightarrow> Some (True, w)
                                 | Some v \<Rightarrow> do { w \<leftarrow> obj_write (Some i) 0 v w; Some (False, w) }) }
      = Some (Option.bind (str_of (m key)) f = None, w') \<and> mgr_rel K env w' m n
    \<and> objs w' = (objs w)(i := (case Option.bind (str_of (m key)) f of None \<Rightarrow> objs w i | Some xs \<Rightarrow> patch_at (objs w i) 0 xs))"
proof -
  obtain w1 where w1: "db_get_str env key w = Some (str_of (m key), w1)" "mgr_rel K env w1 m n" "objs w1 = objs w"
    using db_get_str_law [OF rel key] by blast
  show ?thesis
  proof (cases "Option.bind (str_of (m key)) f")
    case None
    then show ?thesis using w1 by (cases "str_of (m key)") auto
  next
    case (Some v)
    then obtain s where "str_of (m key) = Some s" "f s = Some v" by (auto simp: bind_eq_Some_conv)
    moreover have "0 + length v \<le> length (objs w1 i)" using len \<open>f s = Some v\<close> room w1(3) by simp
    ultimately show ?thesis using w1 obj_write_law [of 0 v w1 i K env] by auto
  qed
qed

lemma read_one_law:
  assumes rel: "mgr_rel K env w m n" and key: "it_key it = Some key" "key \<in> K" and valid: "item_valid it" and i: "it_ram_ptr it = Some i"
    and room: "it_ram_size it \<le> length (objs w i)" and fl: "floats_ok env"
  shows "\<exists>w'. read_one env it w = Some (loaded_value env (it_type it) (it_ram_size it) (m key) = None, w') \<and> mgr_rel K env w' m n
    \<and> objs w' = (objs w)(i := (case loaded_value env (it_type it) (it_ram_size it) (m key) of
                                 None \<Rightarrow> objs w i | Some xs \<Rightarrow> patch_at (objs w i) 0 xs))"
proof -
  consider (num) "it_type it \<le> 1" | (str) "it_type it = 2" | (blob) "it_type it = 3"
    using valid by (fastforce simp: item_valid_def param_consts)
  then show ?thesis
  proof cases
    case num
    have sz: "4 \<le> length (objs w i)" using num valid room by (auto simp: item_valid_def param_consts le_Suc_eq split: if_splits)
    show ?thesis
      using num read_num_law [OF rel key(2) sz, of int_from_str] read_num_law [OF rel key(2) sz, of "float_from_str env"]
        from_str_length fl key i
      by (auto simp: read_one_def int_db_read_def float_db_read_def loaded_value_def param_consts le_Suc_eq)
  next
    case str
    obtain w1 where w1: "db_get_str env key w = Some (str_of (m key), w1)" "mgr_rel K env w1 m n" "objs w1 = objs w"
      using db_get_str_law [OF rel key(2)] by blast
    have sz: "0 < it_ram_size it" "it_ram_size it \<le> length (objs w1 i)" using valid str room w1(3) by (auto simp: item_valid_def param_consts)
    show ?thesis
    proof (cases "str_of (m key)")
      case None
      then show ?thesis using w1 str key i by (auto simp: read_one_def str_db_read_def loaded_value_def param_consts)
    next
      case (Some s)
      then show ?thesis using w1 str key i obj_strncpy_law [OF sz, of s K env]
        by (auto simp: read_one_def str_db_read_def loaded_value_def param_consts)
    qed
  next
    case blob
    then show ?thesis
      using blob_db_read_law [OF rel key(2) room] key i by (auto simp: read_one_def loaded_value_def param_consts)
  qed
qed

text \<open>
  Synchronising a parameter: the variable gets the value of the database when that can be read, and otherwise the default
  value goes to the database and to the variable.
\<close>

lemma sync_one_loaded:
  assumes rel: "mgr_rel K env w m n" and key: "it_key it = Some key" "key \<in> K" and valid: "item_valid it" and i: "it_ram_ptr it = Some i"
    and room: "it_ram_size it \<le> length (objs w i)" and fl: "floats_ok env"
    and v: "loaded_value env (it_type it) (it_ram_size it) (m key) = Some xs"
  shows "\<exists>w'. sync_one env it w = Some (0, w') \<and> mgr_rel K env w' m n \<and> objs w' = (objs w)(i := patch_at (objs w i) 0 xs)"
  using read_one_law [OF assms(1-7)] v by (auto simp: sync_one_def)

lemma reset_one_law:
  assumes rel: "mgr_rel K env w m n" and key: "it_key it = Some key" "key \<in> K" and valid: "item_valid it" and i: "it_ram_ptr it = Some i"
    and room: "it_ram_size it \<le> length (objs w i)" and j: "it_def_val it = Some j"
    and val: "stored_value env (it_type it) (it_def_size it) (objs w j) = Some str" and apart: "i \<noteq> j \<or> it_type it \<noteq> PARAM_TYPE_BLOB"
    and budget: "n + kv_size key str \<le> sec_size (pw_cfg w) - 105"
  shows "\<exists>w'. reset_one_locked env it w = Some (0, w') \<and> mgr_rel K env w' (m(key \<mapsto> str)) (n + kv_size key str)
    \<and> objs w' = (objs w)(i := patch_at (objs w i) 0
        (var_value (it_type it) (it_ram_size it) (min (it_ram_size it) (it_def_size it)) (objs w j)))"
  unfolding reset_one_write [OF key(1)] j
  by (rule write_one_law [OF rel key(2) valid i room _ _ val apart budget]) simp_all

lemma sync_one_default:
  assumes rel: "mgr_rel K env w m n" and key: "it_key it = Some key" "key \<in> K" and valid: "item_valid it" and i: "it_ram_ptr it = Some i"
    and room: "it_ram_size it \<le> length (objs w i)" and fl: "floats_ok env"
    and v: "loaded_value env (it_type it) (it_ram_size it) (m key) = None" and j: "it_def_val it = Some j"
    and val: "stored_value env (it_type it) (it_def_size it) (objs w j) = Some str" and apart: "i \<noteq> j \<or> it_type it \<noteq> PARAM_TYPE_BLOB"
    and budget: "n + kv_size key str \<le> sec_size (pw_cfg w) - 105"
  shows "\<exists>w'. sync_one env it w = Some (0, w') \<and> mgr_rel K env w' (m(key \<mapsto> str)) (n + kv_size key str)
    \<and> objs w' = (objs w)(i := patch_at (objs w i) 0
        (var_value (it_type it) (it_ram_size it) (min (it_ram_size it) (it_def_size it)) (objs w j)))"
proof -
  obtain w1 where w1: "read_one env it w = Some (True, w1)" "mgr_rel K env w1 m n" "objs w1 = objs w"
    using read_one_law [OF assms(1-7)] v by auto
  have "frame w w1" using keeps_one(2) [of w env it] w1(1) unfolding keeps_def by blast
  then have "pw_cfg w1 = pw_cfg w" by (rule frame_cfg)
  then show ?thesis
    using reset_one_law [OF w1(2) key valid i, unfolded w1(3), OF room j val apart] budget w1(1) by (simp add: sync_one_def)
qed

text \<open>The bytes of a variable that come back from the database.\<close>

definition kept_value :: "nat \<Rightarrow> nat \<Rightarrow> nat \<Rightarrow> bytes \<Rightarrow> bytes" where
  "kept_value ty rs len xs =
     (if ty = PARAM_TYPE_INT \<or> ty = PARAM_TYPE_FLOAT then take 4 xs
      else if ty = PARAM_TYPE_STR then padded rs (takeWhile (\<lambda>b. b \<noteq> 0) xs)
      else take len xs)"

text \<open>What is stored can be read back: always for integers, and for the other types under the conditions that follow.\<close>

definition restorable :: "param_env \<Rightarrow> nat \<Rightarrow> nat \<Rightarrow> bytes \<Rightarrow> bool" where
  "restorable env ty len xs \<longleftrightarrow>
     (if ty = PARAM_TYPE_INT then 4 \<le> length xs
      else if ty = PARAM_TYPE_FLOAT then 4 \<le> length xs \<and> fmt_g9 env (take 4 xs) \<noteq> [] \<and> fdb_is_str (fmt_g9 env (take 4 xs))
        \<and> length (fmt_g9 env (take 4 xs)) < 32 \<and> strtof env (fmt_g9 env (take 4 xs)) = (take 4 xs, False, [])
      else if ty = PARAM_TYPE_STR then 0 \<in> set xs \<and> (let s = takeWhile (\<lambda>b. b \<noteq> 0) xs in s \<noteq> [] \<and> fdb_is_str s \<and> length s \<le> 128)
      else 0 < len \<and> len \<le> length xs)"

text \<open>The bytes of a variable that are its value, and when they come back whole.\<close>

definition value_size :: "param_item \<Rightarrow> nat" where
  "value_size it = (if it_type it = PARAM_TYPE_INT \<or> it_type it = PARAM_TYPE_FLOAT then 4 else it_ram_size it)"

lemma kept_whole:
  assumes "item_valid it" and "restorable env (it_type it) (min (it_ram_size it) (it_def_size it)) xs"
    and "it_type it \<noteq> PARAM_TYPE_BLOB \<or> it_ram_size it \<le> it_def_size it"
  shows "var_value (it_type it) (it_ram_size it) (min (it_ram_size it) (it_def_size it)) xs
      = kept_value (it_type it) (it_ram_size it) (min (it_ram_size it) (it_def_size it)) xs"
    and "length (kept_value (it_type it) (it_ram_size it) (min (it_ram_size it) (it_def_size it)) xs) = value_size it"
  using assms by (auto simp: var_value_def kept_value_def value_size_def restorable_def item_valid_def padded_def param_consts)

lemma fdb_is_str_fmt_d: "fdb_is_str (fmt_d i)"
proof -
  have "32 \<le> unat b \<and> unat b < 127" if "b \<in> set (fmt_d i)" for b
    using fmt_d_chars [OF that] by (auto simp: c_isdigit_def word_le_nat_alt)
  then show ?thesis by (simp add: fdb_is_str_def list_all_iff)
qed

lemma int_from_fmt_d:
  fixes x :: u32
  shows "int_from_str (fmt_d (sint x)) = Some (le32 x)"
  using strtol10_fmt_d [of "sint x"] length_fmt_d [of "sint x"] sint_greater_eq [of x] sint_less [of x]
  by (auto simp: int_from_str_def)

lemma loaded_stored:
  assumes "restorable env ty len xs" and "len \<le> rs"
  shows "\<exists>str. stored_value env ty len xs = Some str \<and>
    loaded_value env ty rs (Some str) = Some (kept_value ty rs len xs)"
proof -
  consider (int) "ty = 0" | (float) "ty = 1" | (str) "ty = 2" | (blob) "2 < ty" by linarith
  then show ?thesis
  proof cases
    case int
    define x where "x = of_le32 (take 4 xs)"
    have len4: "4 \<le> length xs" using assms int by (simp add: restorable_def param_consts)
    then have st: "stored_value env ty len xs = Some (fmt_d (sint x))"
      using int by (simp add: stored_value_def param_consts mem_read_def x_def)
    have "take 128 (fmt_d (sint x)) = fmt_d (sint x)" "fmt_d (sint x) \<noteq> []"
      using length_fmt_d [of "sint x"] sint_greater_eq [of x] sint_less [of x] by simp_all
    then have "str_of (Some (fmt_d (sint x))) = Some (fmt_d (sint x))"
      by (simp add: str_of_def FDB_STR_KV_VALUE_MAX_SIZE_def value_or_empty_def fdb_is_str_fmt_d)
    then show ?thesis using st int le32_of_le32_list [of "take 4 xs"] len4
      by (simp add: loaded_value_def kept_value_def param_consts int_from_fmt_d x_def)
  next
    case float
    then show ?thesis
      using assms by (auto simp: restorable_def stored_value_def loaded_value_def kept_value_def param_consts mem_read_def str_of_def
          FDB_STR_KV_VALUE_MAX_SIZE_def value_or_empty_def float_from_str_def)
  next
    case str
    then show ?thesis
      using assms by (auto simp: restorable_def stored_value_def loaded_value_def kept_value_def param_consts c_str_def str_of_def Let_def
          FDB_STR_KV_VALUE_MAX_SIZE_def value_or_empty_def)
  next
    case blob
    then show ?thesis
      using assms by (auto simp: restorable_def stored_value_def loaded_value_def kept_value_def param_consts mem_read_def value_or_empty_def)
  qed
qed

end
