(* ===== verification/Flash_Param_Main.thy ===== *)
theory Flash_Param_Main
  imports Flash_Param_Laws
begin

text \<open>
  The parameter manager as a whole: what setting a parameter does, what is there after a restart, and how the calls use the
  lock.
\<close>

section \<open>Restart\<close>

text \<open>Synchronising all parameters of a table whose values can be read.\<close>

definition var_ok :: "bytes set \<Rightarrow> param_world \<Rightarrow> param_item \<Rightarrow> bool" where
  "var_ok K w it \<longleftrightarrow>
     item_valid it \<and> the (it_key it) \<in> K \<and> it_ram_size it \<le> length (objs w (the (it_ram_ptr it)))"

abbreviation it_loaded :: "param_env \<Rightarrow> (bytes \<rightharpoonup> bytes) \<Rightarrow> param_item \<Rightarrow> bytes option" where
  "it_loaded env m it \<equiv> loaded_value env (it_type it) (it_ram_size it) (m (the (it_key it)))"

lemma init_sync_law:
  assumes "mgr_rel K env w m n" and "floats_ok env" and "\<forall>it \<in> set its. var_ok K w it \<and> it_loaded env m it \<noteq> None"
    and "distinct (map it_ram_ptr its)"
  shows "\<exists>w'. init_sync env its w = Some (0, w') \<and> mgr_rel K env w' m n \<and> m_init_ok (pw_mgr w')
    \<and> objs w' = (\<lambda>i. case find (\<lambda>it. it_ram_ptr it = Some i) its of
                       None \<Rightarrow> objs w i | Some it \<Rightarrow> patch_at (objs w i) 0 (the (it_loaded env m it)))"
  using assms
proof (induction its arbitrary: w)
  case Nil
  then show ?case by (simp add: mgr_rel_def)
next
  case (Cons it its)
  obtain key i where it: "it_key it = Some key" "key \<in> K" "item_valid it" "it_ram_ptr it = Some i" "it_ram_size it \<le> length (objs w i)"
    using Cons.prems(3) by (auto simp: var_ok_def item_valid_def)
  obtain xs where xs: "loaded_value env (it_type it) (it_ram_size it) (m key) = Some xs" using Cons.prems(3) it(1) by auto
  obtain w1 where w1: "sync_one env it w = Some (0, w1)" "mgr_rel K env w1 m n" "objs w1 = (objs w)(i := patch_at (objs w i) 0 xs)"
    using sync_one_loaded [OF Cons.prems(1) it Cons.prems(2) xs] by blast
  have other: "it_ram_ptr x \<noteq> Some i" if "x \<in> set its" for x
  proof -
    have "it_ram_ptr x \<in> it_ram_ptr ` set its" using that by simp
    then show ?thesis using Cons.prems(4) it(4) by auto
  qed
  have "var_ok K w1 x" if x: "x \<in> set its" for x
  proof -
    have "var_ok K w x" using Cons.prems(3) x by simp
    moreover from this obtain k where "it_ram_ptr x = Some k" by (auto simp: var_ok_def item_valid_def)
    moreover have "k \<noteq> i" using other [OF x] calculation(2) by simp
    ultimately show ?thesis by (simp add: var_ok_def w1(3))
  qed
  then obtain w' where w': "init_sync env its w1 = Some (0, w')" "mgr_rel K env w' m n" "m_init_ok (pw_mgr w')"
    and o': "objs w' = (\<lambda>i. case find (\<lambda>it. it_ram_ptr it = Some i) its of
                       None \<Rightarrow> objs w1 i | Some it \<Rightarrow> patch_at (objs w1 i) 0 (the (it_loaded env m it)))"
    using Cons.IH [OF w1(2)] Cons.prems by auto
  have "find (\<lambda>it. it_ram_ptr it = Some i) its = None" using other by (simp add: find_None_iff)
  then have "objs w' = (\<lambda>i. case find (\<lambda>it. it_ram_ptr it = Some i) (it # its) of
                       None \<Rightarrow> objs w i | Some it \<Rightarrow> patch_at (objs w i) 0 (the (it_loaded env m it)))"
    unfolding o' using xs it(1,4) w1(3) by (auto simp: fun_eq_iff split: option.splits)
  then show ?case using w1(1) w' by simp
qed

text \<open>The manager's initialisation on a flash that an earlier run has left.\<close>

lemma fresh_zero: "fresh_handle (zero_kvdb f)"
  by (simp add: fresh_handle_def zero_kvdb_def)

lemma param_init_restart:
  assumes rel: "store_rel K cfg (stack_kv env) db m n" and fl: "flash (pw_db w) = flash db"
    and ex: "fdb_init_ex part False \<lparr>sec_size = ss, max_size = 0, not_formatable = False\<rparr> = Some (FDB_NO_ERR, cfg)"
    and its: "its \<noteq> []" "list_all item_valid its" "distinct (map it_key its)" "distinct (map it_ram_ptr its)" "floats_ok env"
    and vars: "\<forall>it \<in> set its. var_ok K w it \<and> it_loaded env m it \<noteq> None" and buf: "length (str_value w) = FDB_STR_KV_VALUE_MAX_SIZE + 1"
  shows "\<exists>w'. flash_param_init env part True ss ms (Some its) lock lock w = Some (0, w') \<and> mgr_rel K env w' m n \<and> m_init_ok (pw_mgr w')
    \<and> objs w' = (\<lambda>i. case find (\<lambda>it. it_ram_ptr it = Some i) its of
                       None \<Rightarrow> objs w i | Some it \<Rightarrow> patch_at (objs w i) 0 (the (it_loaded env m it)))"
proof -
  define w1 where "w1 = w\<lparr>pw_mgr := (zero_mgr (flash (pw_db w)))\<lparr>m_items := its,
      m_def_nodes := Some (map (\<lambda>it. (the (it_key it), it_def_val it, it_def_size it)) its)\<rparr>\<rparr>"
  define w2 where "w2 = w1\<lparr>pw_mgr := (pw_mgr w1)\<lparr>m_cfg := \<lparr>sec_size = ss, max_size = 0, not_formatable = False\<rparr>\<rparr>\<rparr>"
  have c: "control_sizes ss ms w1 = Some w2"
    by (cases "0 < ss"; cases "0 < ms") (simp_all add: control_sizes_def w1_def w2_def zero_mgr_def zero_kvdb_def)
  have z: "pw_db w2 = zero_kvdb (flash db)" "pw_cfg w2 = \<lparr>sec_size = ss, max_size = 0, not_formatable = False\<rparr>"
    using fl by (simp_all add: w2_def w1_def zero_mgr_def)
  have "flash (zero_kvdb (flash db)) = flash db" by (simp add: zero_kvdb_def)
  then obtain db' where db': "fdb_kvdb_init part (Some (def_nodes_now w2)) (pw_cfg w2) (pw_db w2) = Some (FDB_NO_ERR, cfg, db')"
    "store_rel K cfg (stack_kv env) db' m n"
    using store_restart [OF rel _ fresh_zero ex, of "flash db" "Some (def_nodes_now w2)"] unfolding z by blast
  define w3 where "w3 = (with_db db' w2)\<lparr>pw_mgr := (pw_mgr (with_db db' w2))\<lparr>m_cfg := cfg, m_lock := lock, m_unlock := lock\<rparr>\<rparr>"
  have rel3: "mgr_rel K env w3 m n" using db'(2) buf by (simp add: mgr_rel_def w3_def with_db_def w2_def w1_def)
  have o3: "objs w3 = objs w" by (simp add: w3_def with_db_def w2_def w1_def)
  have "\<forall>it \<in> set its. var_ok K w3 it \<and> it_loaded env m it \<noteq> None" using vars by (simp add: var_ok_def o3)
  note sync = init_sync_law [OF rel3 its(5) this its(4), unfolded o3]
  have "flash_param_init env part True ss ms (Some its) lock lock w = init_sync env its w3"
    using its c db'(1)
    by (simp add: flash_param_init_def Let_def w1_def [symmetric] mgr_kvdb_init_def w3_def)
  then show ?thesis using sync by simp
qed

section \<open>Properties\<close>

lemma find_item_key: "find_item key w = Some it \<Longrightarrow> it_key it = Some key \<and> it \<in> set (m_items (pw_mgr w))"
  by (auto simp: find_item_def find_Some_iff)

lemma find_unique:
  assumes "distinct (map f xs)" and "x \<in> set xs"
  shows "find (\<lambda>y. f y = f x) xs = Some x"
  using assms
proof (induction xs)
  case Nil
  then show ?case by simp
next
  case (Cons y ys)
  show ?case
  proof (cases "x = y")
    case False
    then have "x \<in> set ys" using Cons.prems(2) by simp
    then have "f x \<in> f ` set ys" by simp
    then have "f y \<noteq> f x" using Cons.prems(1) by auto
    then show ?thesis using Cons \<open>x \<in> set ys\<close> by simp
  qed simp
qed

lemma param_set_law:
  assumes "mgr_rel K env w m n" and "m_init_ok (pw_mgr w)" and "find_item key w = Some it" and "var_ok K w it"
    and "it_ram_ptr it = Some i" and "i \<noteq> j \<or> it_type it \<noteq> PARAM_TYPE_BLOB"
    and "stored_value env (it_type it) (min (it_ram_size it) (it_def_size it)) (objs w j) = Some str"
    and "n + kv_size key str \<le> sec_size (pw_cfg w) - 105"
  shows "\<exists>w'. flash_param_set env (Some key) (Some j) w = Some (0, w') \<and> mgr_rel K env w' (m(key \<mapsto> str)) (n + kv_size key str)
    \<and> objs w' = (objs w)(i := patch_at (objs w i) 0
        (var_value (it_type it) (it_ram_size it) (min (it_ram_size it) (it_def_size it)) (objs w j)))
    \<and> pw_cfg w' = pw_cfg w"
proof -
  let ?c = "min (it_ram_size it) (it_def_size it)"
  have it: "key \<in> K" "item_valid it" "it_ram_size it \<le> length (objs (mgr_lock w) i)"
    using assms(4,5) find_item_key [OF assms(3)] by (simp_all add: var_ok_def)
  have rel: "mgr_rel K env (mgr_lock w) m n" using assms(1) by simp
  obtain w1 where w1: "set_one env key it (Some j) (mgr_lock w) = Some (0, w1)" "mgr_rel K env w1 (m(key \<mapsto> str)) (n + kv_size key str)"
    "objs w1 = (objs w)(i := patch_at (objs w i) 0 (var_value (it_type it) (it_ram_size it) ?c (objs w j)))"
    using write_one_law [OF rel it(1,2) assms(5) it(3), of ?c ?c j str] assms(6-8) by (auto simp: set_one_write)
  have "frame (mgr_lock w) w1" using keeps_one(4) [of "mgr_lock w" env key it "Some j"] w1(1) unfolding keeps_def by blast
  then have "pw_cfg w1 = pw_cfg w" by (simp add: frame_cfg)
  then show ?thesis using w1 assms(2,3) by (simp add: flash_param_set_def)
qed

section \<open>A small manager\<close>

definition demo_item :: param_item where
  "demo_item = \<lparr>it_key = Some key1, it_def_val = Some 2, it_def_size = 4, it_type = PARAM_TYPE_INT, it_ram_ptr = Some 0,
     it_ram_size = 4, it_group = PARAM_GROUP_COMM, it_desc = None\<rparr>"

definition demo_text :: param_item where
  "demo_text = \<lparr>it_key = Some key1, it_def_val = Some 3, it_def_size = 2, it_type = PARAM_TYPE_STR, it_ram_ptr = Some 0,
     it_ram_size = 4, it_group = PARAM_GROUP_COMM, it_desc = None\<rparr>"

text \<open>A parameter of four bytes of any type.\<close>

definition demo_param :: "nat \<Rightarrow> param_item" where
  "demo_param ty = \<lparr>it_key = Some key1, it_def_val = Some 2, it_def_size = 4, it_type = ty, it_ram_ptr = Some 0,
     it_ram_size = 4, it_group = PARAM_GROUP_COMM, it_desc = None\<rparr>"

definition demo_world :: "param_item list \<Rightarrow> param_world" where
  "demo_world its =
     \<lparr>pw_mgr = \<lparr>m_kvdb = demo_db, m_cfg = demo_cfg, m_items = its, m_def_nodes = None, m_init_ok = True, m_lock = True,
                m_unlock = True\<rparr>,
      objs = (\<lambda>i. if i = 0 then [0, 0, 0, 0] else if i = 1 then le32 115200 else if i = 3 then [0x61, 0x62, 0]
                   else if i = 4 then le32 0x3FC00000 else [0xC3, 0xA9, 0, 0]),
      str_value = replicate 129 0, ptrace = []\<rparr>"

text \<open>Two floating-point numbers, 1.5 and 0, are enough for an environment.\<close>

definition demo_env :: param_env where
  "demo_env =
     \<lparr>fmt_g9 = (\<lambda>xs. if xs = le32 0x3FC00000 then [49, 46, 53] else [48]),
      strtof = (\<lambda>s. (if s = [49, 46, 53] then le32 0x3FC00000 else le32 0, False, [])), stack_kv = kv_zero\<rparr>"

lemma demo_floats: "floats_ok demo_env"
  by (simp add: floats_ok_def demo_env_def)

lemma demo_mgr_rel: "mgr_rel {key1} demo_env (demo_world its) Map.empty 0"
proof -
  have "contents [blank, blank] = Map.empty" using blank_contents [of 2] by (simp add: numeral_2_eq_2)
  then have "store_rel {key1} demo_cfg kv_zero demo_db Map.empty 0"
    using demo_inv demo_room_inv by (auto simp: store_rel_def kv_zero_def)
  then show ?thesis by (simp add: mgr_rel_def demo_world_def demo_env_def FDB_STR_KV_VALUE_MAX_SIZE_def)
qed

lemma demo_var_ok: "var_ok {key1} (demo_world its) demo_item" "var_ok {key1} (demo_world its) demo_text"
  by (simp_all add: var_ok_def item_valid_def demo_item_def demo_text_def demo_world_def param_consts)

lemma demo_simps:
  "find_item key1 (demo_world [demo_item]) = Some demo_item" "find_item key1 (demo_world [demo_text]) = Some demo_text"
  "m_init_ok (pw_mgr (demo_world its))" "pw_cfg (demo_world its) = demo_cfg" "sec_size demo_cfg = 512"
  "m_items (pw_mgr (demo_world its)) = its" "it_ram_ptr demo_item = Some 0" "it_ram_ptr demo_text = Some 0"
  "objs (demo_world its) 0 = [0, 0, 0, 0]" "objs (demo_world its) 1 = le32 115200"
  "objs (demo_world its) (Suc 0) = le32 115200"
  by (simp_all add: find_item_def demo_item_def demo_text_def demo_world_def demo_cfg_def)

lemma fmt_115200: "fmt_d (sint (of_le32 (le32 115200))) = [49, 49, 53, 50, 48, 48]"
  by (simp add: of_le32_le32) (simp add: fmt_d_def nat_digits.simps)

section \<open>Properties\<close>

text \<open>
  C14: \<open>flash_param_set\<close> on a parameter of the table writes the value to the database and to the variable and changes
  nothing else: the record of the key gets the text of a number, the string, or the first bytes of a binary object, and the
  variable the value, padded with zeros.
\<close>

theorem param_set_refines:
  assumes "mgr_rel K env w m n" and "m_init_ok (pw_mgr w)" and "find_item key w = Some it" and "var_ok K w it"
    and "it_ram_ptr it = Some i" and "i \<noteq> j \<or> it_type it \<noteq> PARAM_TYPE_BLOB"
    and "stored_value env (it_type it) (min (it_ram_size it) (it_def_size it)) (objs w j) = Some str"
    and "n + kv_size key str \<le> sec_size (pw_cfg w) - 105"
  shows "\<exists>w'. flash_param_set env (Some key) (Some j) w = Some (0, w') \<and> mgr_rel K env w' (m(key \<mapsto> str)) (n + kv_size key str)
    \<and> objs w' = (objs w)(i := patch_at (objs w i) 0
        (var_value (it_type it) (it_ram_size it) (min (it_ram_size it) (it_def_size it)) (objs w j)))"
  using param_set_law [OF assms] by blast

theorem param_set_refines_witness:
  "\<exists>w'. flash_param_set demo_env (Some key1) (Some 1) (demo_world [demo_item]) = Some (0, w')
    \<and> mgr_rel {key1} demo_env w' [key1 \<mapsto> [49, 49, 53, 50, 48, 48]] 32 \<and> objs w' 0 = le32 115200"
proof -
  have "stored_value demo_env (it_type demo_item) (min (it_ram_size demo_item) (it_def_size demo_item)) (objs (demo_world [demo_item]) 1) =
      Some [49, 49, 53, 50, 48, 48]"
    by (simp add: stored_value_def demo_item_def demo_world_def mem_read_def fmt_115200)
  from param_set_refines [OF demo_mgr_rel demo_simps(3,1) demo_var_ok(1) demo_simps(7) _ this] show ?thesis
    by (auto simp: demo_simps kv_size_def demo_item_def param_consts var_value_def patch_at_0)
qed

text \<open>
  C6: a parameter that was set is there after a restart: whatever the RAM holds then, \<open>flash_param_init\<close> with the same
  table on the same flash succeeds and gives the variable its value. The conditions: an integer always comes back; a string
  when it is not empty, printable and at most 128 characters long; a floating-point number when \<open>strtof\<close> reads what \<open>%.9g\<close>
  has printed; a binary object when it is not empty. Every other parameter of the table can be read from the database. The
  value comes back whole, as it was in the variable before, except that of a binary object whose default is shorter than
  its variable only the bytes that were stored come back, and the rest of the variable stays as the RAM has it.
\<close>

theorem param_survives_restart:
  assumes "mgr_rel K env w m n" and "m_init_ok (pw_mgr w)" and "find_item key w = Some it" and "var_ok K w it"
    and "it_ram_ptr it = Some i" and "i \<noteq> j \<or> it_type it \<noteq> PARAM_TYPE_BLOB"
    and "restorable env (it_type it) (min (it_ram_size it) (it_def_size it)) (objs w j)"
    and "stored_value env (it_type it) (min (it_ram_size it) (it_def_size it)) (objs w j) = Some str"
    and "n + kv_size key str \<le> sec_size (pw_cfg w) - 105"
    and "its = m_items (pw_mgr w)" and "list_all item_valid its" and "distinct (map it_key its)" and "distinct (map it_ram_ptr its)"
    and "floats_ok env" and "\<forall>x \<in> set its. x \<noteq> it \<longrightarrow> it_loaded env m x \<noteq> None"
    and "fdb_init_ex part False \<lparr>sec_size = ss, max_size = 0, not_formatable = False\<rparr> = Some (FDB_NO_ERR, pw_cfg w)"
  shows "\<exists>w1. flash_param_set env (Some key) (Some j) w = Some (0, w1)
    \<and> (\<forall>w2. flash (pw_db w2) = flash (pw_db w1) \<and> (\<forall>x \<in> set its. var_ok K w2 x) \<and> length (str_value w2) = FDB_STR_KV_VALUE_MAX_SIZE + 1 \<longrightarrow>
         (\<exists>w3. flash_param_init env part True ss ms (Some its) lock lock w2 = Some (0, w3) \<and> m_init_ok (pw_mgr w3)
           \<and> objs w3 i = patch_at (objs w2 i) 0 (kept_value (it_type it) (it_ram_size it) (min (it_ram_size it) (it_def_size it)) (objs w j))
           \<and> (it_type it \<noteq> PARAM_TYPE_BLOB \<or> it_ram_size it \<le> it_def_size it \<longrightarrow>
               take (value_size it) (objs w3 i) = take (value_size it) (objs w1 i))))"
proof -
  let ?c = "min (it_ram_size it) (it_def_size it)"
  have it: "it_key it = Some key" "it \<in> set its" using find_item_key [OF assms(3)] assms(10) by simp_all
  obtain w1 where set: "flash_param_set env (Some key) (Some j) w = Some (0, w1)" and rel1: "mgr_rel K env w1 (m(key \<mapsto> str)) (n + kv_size key str)"
    and os: "objs w1 = (objs w)(i := patch_at (objs w i) 0 (var_value (it_type it) (it_ram_size it) ?c (objs w j)))"
    and cfg: "pw_cfg w1 = pw_cfg w"
    using param_set_law [OF assms(1-6,8,9)] by blast
  have valid: "item_valid it" using assms(4) by (simp add: var_ok_def)
  have loaded: "it_loaded env (m(key \<mapsto> str)) it = Some (kept_value (it_type it) (it_ram_size it) ?c (objs w j))"
    using loaded_stored [OF assms(7), of "it_ram_size it"] assms(8) it(1) by auto
  have others: "it_loaded env (m(key \<mapsto> str)) x \<noteq> None" if x: "x \<in> set its" for x
  proof (cases "x = it")
    case True
    then show ?thesis using loaded by simp
  next
    case False
    have "it_key x \<noteq> Some key"
      using find_unique [OF assms(12) it(2)] find_unique [OF assms(12) x] it(1) False by auto
    moreover have "it_key x \<noteq> None" using assms(11) x by (auto simp: list_all_iff item_valid_def)
    ultimately have "the (it_key x) \<noteq> key" by auto
    then show ?thesis using assms(15) x False by simp
  qed
  have "\<exists>w3. flash_param_init env part True ss ms (Some its) lock lock w2 = Some (0, w3) \<and> m_init_ok (pw_mgr w3)
      \<and> objs w3 i = patch_at (objs w2 i) 0 (kept_value (it_type it) (it_ram_size it) ?c (objs w j))
      \<and> (it_type it \<noteq> PARAM_TYPE_BLOB \<or> it_ram_size it \<le> it_def_size it \<longrightarrow> take (value_size it) (objs w3 i) = take (value_size it) (objs w1 i))"
    if w2: "flash (pw_db w2) = flash (pw_db w1)" "\<forall>x \<in> set its. var_ok K w2 x" "length (str_value w2) = FDB_STR_KV_VALUE_MAX_SIZE + 1" for w2
  proof -
    have rel: "store_rel K (pw_cfg w) (stack_kv env) (pw_db w1) (m(key \<mapsto> str)) (n + kv_size key str)"
      using rel1 cfg by (simp add: mgr_rel_def)
    have ne: "its \<noteq> []" using it(2) by auto
    have vars: "\<forall>x \<in> set its. var_ok K w2 x \<and> it_loaded env (m(key \<mapsto> str)) x \<noteq> None" using w2(2) others by blast
    have "find (\<lambda>x. it_ram_ptr x = Some i) its = Some it" using find_unique [OF assms(13) it(2)] assms(5) by simp
    then obtain w3 where w3: "flash_param_init env part True ss ms (Some its) lock lock w2 = Some (0, w3)" "m_init_ok (pw_mgr w3)"
      "objs w3 i = patch_at (objs w2 i) 0 (kept_value (it_type it) (it_ram_size it) ?c (objs w j))"
      using param_init_restart [OF rel w2(1) assms(16) ne assms(11-14) vars w2(3), of ms lock] loaded by auto
    moreover have "take (value_size it) (objs w3 i) = take (value_size it) (objs w1 i)"
      if "it_type it \<noteq> PARAM_TYPE_BLOB \<or> it_ram_size it \<le> it_def_size it"
      using kept_whole [OF valid assms(7) that] w3(3) os by (simp add: patch_at_0)
    ultimately show ?thesis by blast
  qed
  then show ?thesis using set by blast
qed

definition demo_kept :: "nat \<Rightarrow> nat \<Rightarrow> bytes \<Rightarrow> bool" where
  "demo_kept ty j v \<longleftrightarrow>
     (\<exists>w1. flash_param_set demo_env (Some key1) (Some j) (demo_world [demo_param ty]) = Some (0, w1)
       \<and> (\<forall>w2. flash (pw_db w2) = flash (pw_db w1) \<and> length (str_value w2) = FDB_STR_KV_VALUE_MAX_SIZE + 1 \<and> length (objs w2 0) = 4 \<longrightarrow>
            (\<exists>w3. flash_param_init demo_env (Some (512, 1024)) True 512 0 (Some [demo_param ty]) True True w2 = Some (0, w3)
              \<and> objs w3 0 = v)))"

lemma demo_param_simps:
  "it_key (demo_param ty) = Some key1" "it_type (demo_param ty) = ty" "it_ram_ptr (demo_param ty) = Some 0" "it_ram_size (demo_param ty) = 4"
  "it_def_size (demo_param ty) = 4" "find_item key1 (demo_world [demo_param ty]) = Some (demo_param ty)"
  by (simp_all add: demo_param_def find_item_def demo_world_def)

lemma demo_param_valid: "ty \<le> 3 \<Longrightarrow> item_valid (demo_param ty)"
  by (simp add: item_valid_def demo_param_def param_consts)

theorem param_survives_restart_witness:
  "demo_kept PARAM_TYPE_INT 1 (le32 115200) \<and> demo_kept PARAM_TYPE_FLOAT 4 (le32 0x3FC00000)
    \<and> demo_kept PARAM_TYPE_STR 3 [0x61, 0x62, 0, 0] \<and> demo_kept PARAM_TYPE_BLOB 2 [0xC3, 0xA9, 0, 0]"
proof -
  have gen: "demo_kept ty j v" if ty: "ty \<le> 3" and j: "j \<noteq> 0" and re: "restorable demo_env ty 4 (objs (demo_world [demo_param ty]) j)"
    and st: "stored_value demo_env ty 4 (objs (demo_world [demo_param ty]) j) = Some str" "length str \<le> 8"
    and k: "kept_value ty 4 4 (objs (demo_world [demo_param ty]) j) = v" "length v = 4" for ty j v str
  proof -
    have v: "item_valid (demo_param ty)" using ty by (rule demo_param_valid)
    have ok: "var_ok {key1} w (demo_param ty) \<longleftrightarrow> 4 \<le> length (objs w 0)" for w
      using v by (simp add: var_ok_def demo_param_simps)
    have ex: "fdb_init_ex (Some (512, 1024)) False \<lparr>sec_size = 512, max_size = 0, not_formatable = False\<rparr> = Some (FDB_NO_ERR, demo_cfg)"
      by (simp add: fdb_init_ex_def demo_cfg_def)
    have room: "0 + kv_size key1 str \<le> 512 - 105" using st(2) by (simp add: kv_size_def)
    from param_survives_restart [of "{key1}" demo_env "demo_world [demo_param ty]" Map.empty 0 key1 "demo_param ty" 0 j str "[demo_param ty]"
        "Some (512, 1024)" 512 0 True]
    obtain w1 where "flash_param_set demo_env (Some key1) (Some j) (demo_world [demo_param ty]) = Some (0, w1)"
      "\<forall>w2. flash (pw_db w2) = flash (pw_db w1) \<and> 4 \<le> length (objs w2 0) \<and> length (str_value w2) = FDB_STR_KV_VALUE_MAX_SIZE + 1 \<longrightarrow>
        (\<exists>w3. flash_param_init demo_env (Some (512, 1024)) True 512 0 (Some [demo_param ty]) True True w2 = Some (0, w3)
          \<and> m_init_ok (pw_mgr w3) \<and> objs w3 0 = patch_at (objs w2 0) 0 v
          \<and> take (value_size (demo_param ty)) (objs w3 0) = take (value_size (demo_param ty)) (objs w1 0))"
      using demo_mgr_rel demo_floats v j re st(1) k(1) ex room by (auto simp: demo_simps demo_param_simps ok)
    then show ?thesis using k(2) unfolding demo_kept_def by (intro exI [of _ w1]) (fastforce simp: patch_at_0)
  qed
  have i: "demo_kept PARAM_TYPE_INT 1 (le32 115200)"
    by (rule gen [where str = "[49, 49, 53, 50, 48, 48]"])
      (simp_all add: demo_simps restorable_def stored_value_def kept_value_def param_consts mem_read_def fmt_115200)
  have f: "demo_kept PARAM_TYPE_FLOAT 4 (le32 0x3FC00000)"
    by (rule gen [where str = "[49, 46, 53]"])
      (simp_all add: demo_world_def demo_env_def restorable_def stored_value_def kept_value_def param_consts mem_read_def fdb_is_str_def)
  have s: "demo_kept PARAM_TYPE_STR 3 [0x61, 0x62, 0, 0]"
    by (rule gen [where str = "[0x61, 0x62]"])
      (simp_all add: demo_world_def restorable_def stored_value_def kept_value_def param_consts c_str_def fdb_is_str_def padded_def)
  have "demo_kept PARAM_TYPE_BLOB 2 [0xC3, 0xA9, 0, 0]"
    by (rule gen [where str = "[0xC3, 0xA9, 0, 0]"])
      (simp_all add: demo_world_def restorable_def stored_value_def kept_value_def param_consts mem_read_def)
  with i f s show ?thesis by blast
qed


text \<open>
  C15: whatever sequence of \<open>flash_param_set\<close>, \<open>flash_param_set_blob\<close>, \<open>flash_param_get\<close>, \<open>flash_param_reset\<close>,
  \<open>flash_param_group_reset\<close>, \<open>flash_param_reset_all\<close>, \<open>flash_param_print\<close> and \<open>flash_param_print_group\<close> a client calls on a
  manager with a lock, every call of the database and every read and write of a variable happens while the lock is held, the
  lock is never taken twice or released when it is not held, and it is free after each call.
\<close>

theorem param_calls_locked:
  assumes "m_lock (pw_mgr w)" and "m_unlock (pw_mgr w)" and "ptrace w = []" and "param_run env cs w = Some w'"
  shows "lock_scan False (ptrace w') = Some False"
  using param_run_ok [OF assms(4)] assms(1-3) by (simp add: step_ok_def locks_ok_def)

lemma demo_run:
  obtains w' j where "param_run demo_env [PSet (Some key1) (Some 1), PPrintGroup PARAM_GROUP_COMM] (demo_world [demo_item]) = Some w'"
    and "ptrace w' = PLock # replicate j PAccess @ [PUnlock, PLock, PAccess, PUnlock]"
proof -
  let ?w = "demo_world [demo_item]"
  have st: "stored_value demo_env (it_type demo_item) (min (it_ram_size demo_item) (it_def_size demo_item)) (objs ?w 1) =
      Some [49, 49, 53, 50, 48, 48]"
    by (simp add: stored_value_def demo_item_def demo_world_def mem_read_def fmt_115200)
  obtain w1 where set: "flash_param_set demo_env (Some key1) (Some 1) ?w = Some (0, w1)"
    and os: "objs w1 0 = le32 115200"
    using param_set_law [OF demo_mgr_rel demo_simps(3,1) demo_var_ok(1) demo_simps(7) _ st]
    by (auto simp: demo_simps kv_size_def demo_item_def param_consts var_value_def patch_at_0)
  obtain w0 where w0: "set_one demo_env key1 demo_item (Some 1) (mgr_lock ?w) = Some (0, w0)" "w1 = mgr_unlock w0"
    using set by (auto simp: flash_param_set_def demo_simps bind_eq_Some_conv)
  have "frame (mgr_lock ?w) w0"
    using keeps_one(4) [of "mgr_lock ?w" demo_env key1 demo_item "Some 1"] w0(1) unfolding keeps_def by blast
  then obtain j db where w1: "ptrace w1 = PLock # replicate j PAccess @ [PUnlock]" "pw_mgr w1 = (pw_mgr ?w)\<lparr>m_kvdb := db\<rparr>"
    by (auto simp: w0(2) mgr_unlock_def frame_def mgr_lock_def demo_world_def)
  have pr: "param_step demo_env (PPrintGroup PARAM_GROUP_COMM) w1 = Some (mgr_unlock (touch (mgr_lock w1)))"
    using w1(2) os
    by (simp add: flash_param_print_group_def demo_world_def demo_item_def item_text_def int_to_str_def obj_read_def mem_read_def param_consts
        mgr_lock_def)
  have "param_run demo_env [PSet (Some key1) (Some 1), PPrintGroup PARAM_GROUP_COMM] ?w = Some (mgr_unlock (touch (mgr_lock w1)))"
    using set pr by auto
  moreover have "ptrace (mgr_unlock (touch (mgr_lock w1))) = PLock # replicate j PAccess @ [PUnlock, PLock, PAccess, PUnlock]"
    using w1 by (simp add: mgr_lock_def mgr_unlock_def touch_def demo_world_def)
  ultimately show thesis by (rule that)
qed

theorem param_calls_locked_witness:
  "\<exists>w' j. param_run demo_env [PSet (Some key1) (Some 1), PPrintGroup PARAM_GROUP_COMM] (demo_world [demo_item]) = Some w'
    \<and> ptrace w' = PLock # replicate j PAccess @ [PUnlock, PLock, PAccess, PUnlock] \<and> lock_scan False (ptrace w') = Some False"
proof -
  obtain w' j where run: "param_run demo_env [PSet (Some key1) (Some 1), PPrintGroup PARAM_GROUP_COMM] (demo_world [demo_item]) = Some w'"
    "ptrace w' = PLock # replicate j PAccess @ [PUnlock, PLock, PAccess, PUnlock]" by (rule demo_run)
  have "lock_scan False (ptrace w') = Some False"
    by (rule param_calls_locked [OF _ _ _ run(1)]) (simp_all add: demo_world_def)
  then show ?thesis using run by blast
qed


text \<open>The manager's own notion of a well-typed table.\<close>

definition typed_mgr :: "param_mgr \<Rightarrow> bool" where
  "typed_mgr mgr \<longleftrightarrow>
     m_init_ok mgr \<and> m_lock mgr = m_unlock mgr \<and> distinct (map it_key (m_items mgr))
     \<and> (\<forall>it \<in> set (m_items mgr). it_key it \<noteq> None \<and> it_ram_ptr it \<noteq> None
          \<and> it_type it \<in> {PARAM_TYPE_INT, PARAM_TYPE_FLOAT, PARAM_TYPE_STR, PARAM_TYPE_BLOB}
          \<and> (it_type it \<in> {PARAM_TYPE_INT, PARAM_TYPE_FLOAT} \<longrightarrow> 4 \<le> it_ram_size it)
          \<and> (it_type it \<in> {PARAM_TYPE_STR, PARAM_TYPE_BLOB} \<longrightarrow> 0 < it_ram_size it \<and> it_def_val it \<noteq> None))"

lemma item_valid_types:
  assumes "item_valid it"
  shows "it_key it \<noteq> None" "it_ram_ptr it \<noteq> None" "it_type it \<in> {PARAM_TYPE_INT, PARAM_TYPE_FLOAT, PARAM_TYPE_STR, PARAM_TYPE_BLOB}"
    "it_type it \<in> {PARAM_TYPE_INT, PARAM_TYPE_FLOAT} \<longrightarrow> 4 \<le> it_ram_size it"
    "it_type it \<in> {PARAM_TYPE_STR, PARAM_TYPE_BLOB} \<longrightarrow> 0 < it_ram_size it \<and> it_def_val it \<noteq> None"
  using assms by (auto simp: item_valid_def param_consts)

lemma init_sync_mgr:
  assumes "init_sync env its w = Some (0, w')"
  shows "\<exists>db. pw_mgr w' = (pw_mgr w)\<lparr>m_kvdb := db, m_init_ok := True\<rparr>"
  using assms
proof (induction its arbitrary: w)
  case Nil
  then show ?case by (auto intro: exI [of _ "m_kvdb (pw_mgr w)"])
next
  case (Cons it its)
  obtain r w1 where w1: "sync_one env it w = Some (r, w1)" "r = 0" "init_sync env its w1 = Some (0, w')"
    using Cons.prems by (auto simp: bind_eq_Some_conv split: if_splits)
  have "frame w w1" using keeps_one(3) [of w env it] w1(1) unfolding keeps_def by blast
  then show ?case using Cons.IH [OF w1(3)] by (auto simp: frame_def)
qed

text \<open>
  C16: when \<open>flash_param_init\<close> returns 0, the table of the manager is well-typed, and it stays so through every sequence of
  calls: each parameter has one of the four types, a key that no other has, a variable with room for a value of its type,
  and, for strings and binary objects, a default value; lock and unlock come as a pair.
\<close>

theorem param_table_typed:
  assumes "flash_param_init env part mem ss ms items lock unlock w = Some (0, w1)" and "param_run env cs w1 = Some w2"
  shows "typed_mgr (pw_mgr w2) \<and> items = Some (m_items (pw_mgr w2)) \<and> lock = m_lock (pw_mgr w2)"
proof -
  obtain its where its: "items = Some its" "lock = unlock" "list_all item_valid its" "distinct (map it_key its)"
    using assms(1) by (auto simp: flash_param_init_def Let_def split: option.splits if_splits)
  obtain w' where w': "init_sync env its w' = Some (0, w1)" "m_items (pw_mgr w') = its" "m_lock (pw_mgr w') = lock" "m_unlock (pw_mgr w') = lock"
    using assms(1) its
    by (fastforce simp: flash_param_init_def Let_def bind_eq_Some_conv control_sizes_def mgr_kvdb_init_def with_db_def split: if_splits)
  then have "m_items (pw_mgr w1) = its" "m_init_ok (pw_mgr w1)" "m_lock (pw_mgr w1) = lock" "m_unlock (pw_mgr w1) = lock"
    using init_sync_mgr [OF w'(1)] by auto
  then have "m_items (pw_mgr w2) = its" "m_init_ok (pw_mgr w2)" "m_lock (pw_mgr w2) = lock" "m_unlock (pw_mgr w2) = lock"
    using param_run_ok [OF assms(2)] by (auto simp: step_ok_def)
  then show ?thesis using its item_valid_types unfolding typed_mgr_def list_all_iff by auto
qed

theorem param_table_typed_witness:
  "\<exists>w1 w2 w3. flash_param_set demo_env (Some key1) (Some 1) (demo_world [demo_item]) = Some (0, w1)
    \<and> flash_param_init demo_env (Some (512, 1024)) True 512 0 (Some [demo_item]) True True (w1\<lparr>ptrace := []\<rparr>) = Some (0, w2)
    \<and> param_run demo_env [PGet (Some key1) (Some 5) None] w2 = Some w3 \<and> typed_mgr (pw_mgr w3)"
proof -
  have st: "stored_value demo_env (it_type demo_item) (min (it_ram_size demo_item) (it_def_size demo_item)) (objs (demo_world [demo_item]) 1) =
      Some [49, 49, 53, 50, 48, 48]"
    by (simp add: stored_value_def demo_item_def demo_world_def mem_read_def fmt_115200)
  have "\<exists>s. stored_value demo_env 0 4 (le32 115200) = Some s \<and> loaded_value demo_env 0 4 (Some s) = Some (kept_value 0 4 4 (le32 115200))"
    by (rule loaded_stored) (simp_all add: restorable_def param_consts)
  then have loaded: "loaded_value demo_env (it_type demo_item) (it_ram_size demo_item) (Some [49, 49, 53, 50, 48, 48]) \<noteq> None"
    using st by (auto simp: demo_item_def demo_simps PARAM_TYPE_INT_def)
  obtain w1 where set: "flash_param_set demo_env (Some key1) (Some 1) (demo_world [demo_item]) = Some (0, w1)"
    and rel: "mgr_rel {key1} demo_env w1 [key1 \<mapsto> [49, 49, 53, 50, 48, 48]] 32" and cfg: "pw_cfg w1 = demo_cfg"
    and os: "objs w1 = (objs (demo_world [demo_item]))(0 := patch_at [0, 0, 0, 0] 0
        (var_value (it_type demo_item) (it_ram_size demo_item) (min (it_ram_size demo_item) (it_def_size demo_item)) (le32 115200)))"
    using param_set_law [OF demo_mgr_rel demo_simps(3,1) demo_var_ok(1) demo_simps(7) _ st] by (auto simp: demo_simps kv_size_def)
  have srel: "store_rel {key1} demo_cfg (stack_kv demo_env) (pw_db w1) [key1 \<mapsto> [49, 49, 53, 50, 48, 48]] 32"
    using rel cfg by (simp add: mgr_rel_def)
  have ex: "fdb_init_ex (Some (512, 1024)) False \<lparr>sec_size = 512, max_size = 0, not_formatable = False\<rparr> = Some (FDB_NO_ERR, demo_cfg)"
    by (simp add: fdb_init_ex_def demo_cfg_def)
  have v: "item_valid demo_item" using demo_var_ok(1) [of "[]"] by (simp add: var_ok_def)
  have vars: "var_ok {key1} w1 demo_item"
    using v by (simp add: var_ok_def os demo_item_def patch_at_0 var_value_def param_consts)
  obtain w2 where init: "flash_param_init demo_env (Some (512, 1024)) True 512 0 (Some [demo_item]) True True (w1\<lparr>ptrace := []\<rparr>) = Some (0, w2)"
    using param_init_restart [OF srel _ ex, of "w1\<lparr>ptrace := []\<rparr>" "[demo_item]" 0 True] v vars loaded rel demo_floats
    by (auto simp: mgr_rel_def var_ok_def demo_item_def)
  have run: "param_run demo_env [PGet (Some key1) (Some 5) None] w2 = Some w2" by (simp add: flash_param_get_def)
  from param_table_typed [OF init run] set init run show ?thesis by blast
qed


text \<open>
  C36: a string that is empty or has a character outside printable ASCII among its first 128, such as any text in UTF-8, is
  accepted by \<open>flash_param_set\<close> and lost at the next synchronisation, which puts the default value into the database and
  into the variable.
\<close>

theorem param_text_lost:
  assumes "mgr_rel K env w m n" and "m_init_ok (pw_mgr w)" and "find_item key w = Some it" and "var_ok K w it"
    and "it_type it = PARAM_TYPE_STR" and "it_ram_ptr it = Some i" and "it_def_val it = Some d" and "i \<noteq> d"
    and "c_str (objs w j) = Some str" and "str = [] \<or> \<not> fdb_is_str (take 128 str)" and "c_str (objs w d) = Some def_str"
    and "n + kv_size key str + kv_size key def_str \<le> sec_size (pw_cfg w) - 105" and "floats_ok env"
  shows "\<exists>w1 w2. flash_param_set env (Some key) (Some j) w = Some (0, w1) \<and> sync_one env it w1 = Some (0, w2)
    \<and> mgr_rel K env w2 (m(key \<mapsto> def_str)) (n + kv_size key str + kv_size key def_str)
    \<and> take (it_ram_size it) (objs w2 i) = padded (it_ram_size it) def_str"
proof -
  let ?c = "min (it_ram_size it) (it_def_size it)"
  have it: "it_key it = Some key" "key \<in> K" "item_valid it" "it_ram_size it \<le> length (objs w i)"
    using find_item_key [OF assms(3)] assms(4,6) by (simp_all add: var_ok_def)
  have st: "stored_value env (it_type it) ?c (objs w j) = Some str" using assms(5,9) by (simp add: stored_value_def param_consts)
  have budget: "n + kv_size key str \<le> sec_size (pw_cfg w) - 105" using assms(12) by simp
  have nb: "i \<noteq> j \<or> it_type it \<noteq> PARAM_TYPE_BLOB" using assms(5) by (simp add: param_consts)
  obtain w1 where w1: "flash_param_set env (Some key) (Some j) w = Some (0, w1)" "mgr_rel K env w1 (m(key \<mapsto> str)) (n + kv_size key str)"
    "objs w1 = (objs w)(i := patch_at (objs w i) 0 (var_value (it_type it) (it_ram_size it) ?c (objs w j)))" "pw_cfg w1 = pw_cfg w"
    using param_set_law [OF assms(1-4,6) nb st budget] by blast
  have pos: "0 < it_ram_size it" using it(3) assms(5) by (simp add: item_valid_def param_consts)
  have len: "length (padded (it_ram_size it) s) = it_ram_size it" for s using pos by (simp add: padded_def)
  have vv: "var_value (it_type it) (it_ram_size it) c xs = padded (it_ram_size it) (takeWhile (\<lambda>b. b \<noteq> 0) xs)" for c xs
    using assms(5) by (simp add: var_value_def param_consts)
  have room: "it_ram_size it \<le> length (objs w1 i)" using it(4) by (simp add: w1(3) vv len)
  have lost: "loaded_value env (it_type it) (it_ram_size it) ((m(key \<mapsto> str)) key) = None"
    using assms(5,10) by (auto simp: loaded_value_def param_consts str_of_def value_or_empty_def FDB_STR_KV_VALUE_MAX_SIZE_def)
  have def: "stored_value env (it_type it) (it_def_size it) (objs w1 d) = Some def_str"
    using assms(5,8,11) by (simp add: stored_value_def param_consts w1(3))
  have "n + kv_size key str + kv_size key def_str \<le> sec_size (pw_cfg w1) - 105" using assms(12) w1(4) by simp
  note sync = sync_one_default [OF w1(2) it(1-3) assms(6) room assms(13) lost assms(7) def disjI1 [OF assms(8)] this]
  obtain w2 where w2: "sync_one env it w1 = Some (0, w2)" "mgr_rel K env w2 (m(key \<mapsto> def_str)) (n + kv_size key str + kv_size key def_str)"
    "objs w2 = (objs w1)(i := patch_at (objs w1 i) 0 (var_value (it_type it) (it_ram_size it) ?c (objs w1 d)))"
    using sync [unfolded fun_upd_upd] by blast
  have "takeWhile (\<lambda>b. b \<noteq> 0) (objs w1 d) = def_str" using assms(8,11) by (auto simp: w1(3) c_str_def split: if_splits)
  then have "take (it_ram_size it) (objs w2 i) = padded (it_ram_size it) def_str" by (simp add: w2(3) vv patch_at_0 len)
  with w1(1) w2(1,2) show ?thesis by blast
qed

theorem param_text_lost_witness:
  "\<exists>w1 w2. flash_param_set demo_env (Some key1) (Some 2) (demo_world [demo_text]) = Some (0, w1)
    \<and> sync_one demo_env demo_text w1 = Some (0, w2) \<and> take 4 (objs w2 0) = [0x61, 0x62, 0, 0]"
proof -
  have "c_str (objs (demo_world [demo_text]) 2) = Some [0xC3, 0xA9]" "c_str (objs (demo_world [demo_text]) 3) = Some [0x61, 0x62]"
    by (simp_all add: c_str_def demo_world_def)
  moreover have "\<not> fdb_is_str (take 128 [0xC3, 0xA9])" by (simp add: fdb_is_str_def)
  moreover have "floats_ok demo_env" by (simp add: floats_ok_def demo_env_def)
  moreover have "it_type demo_text = PARAM_TYPE_STR" "it_def_val demo_text = Some 3" "it_ram_size demo_text = 4"
    by (simp_all add: demo_text_def)
  moreover have "padded 4 [0x61, 0x62] = [0x61, 0x62, 0, 0]" by (simp add: padded_def)
  ultimately show ?thesis
    using param_text_lost [OF demo_mgr_rel demo_simps(3,2) demo_var_ok(2) _ demo_simps(8), of 3 2 "[0xC3, 0xA9]" "[0x61, 0x62]"]
    by (auto simp: demo_simps kv_size_def)
qed

end
