(* ===== verification/Params.thy ===== *)
theory Params
  imports Flash_Param_Main
begin

text \<open>
  The parameters of the board (\<open>params.c\<close>): the table, the variables and default values behind its pointers, and the
  initialisation.
\<close>

section \<open>The table\<close>

text \<open>The objects 0 to 6 are the variables, 7 to 12 the default values that the macros make.\<close>

definition PARAM_INT :: "string \<Rightarrow> nat \<Rightarrow> nat \<Rightarrow> nat \<Rightarrow> string \<Rightarrow> param_item" where
  "PARAM_INT key def_obj ram_var grp desc =
     \<lparr>it_key = Some (txt_bytes key), it_def_val = Some def_obj, it_def_size = 4, it_type = PARAM_TYPE_INT,
      it_ram_ptr = Some ram_var, it_ram_size = 4, it_group = grp, it_desc = Some (txt_bytes desc)\<rparr>"

definition PARAM_STR :: "string \<Rightarrow> nat \<Rightarrow> nat \<Rightarrow> nat \<Rightarrow> nat \<Rightarrow> nat \<Rightarrow> string \<Rightarrow> param_item" where
  "PARAM_STR key def_obj def_sizeof ram_buf max_len grp desc =
     \<lparr>it_key = Some (txt_bytes key), it_def_val = Some def_obj, it_def_size = (if def_sizeof > 1 then def_sizeof - 1 else 0),
      it_type = PARAM_TYPE_STR, it_ram_ptr = Some ram_buf, it_ram_size = max_len, it_group = grp,
      it_desc = Some (txt_bytes desc)\<rparr>"

definition PARAM_BLOB :: "string \<Rightarrow> nat \<Rightarrow> nat \<Rightarrow> nat \<Rightarrow> nat \<Rightarrow> nat \<Rightarrow> string \<Rightarrow> param_item" where
  "PARAM_BLOB key def_obj def_sz ram_var ram_sz grp desc =
     \<lparr>it_key = Some (txt_bytes key), it_def_val = Some def_obj, it_def_size = def_sz, it_type = PARAM_TYPE_BLOB,
      it_ram_ptr = Some ram_var, it_ram_size = ram_sz, it_group = grp, it_desc = Some (txt_bytes desc)\<rparr>"

definition g_items :: "param_item list" where
  "g_items =
     [PARAM_STR ''SN'' 7 21 0 32 PARAM_GROUP_SYSTEM ''serial number'',
      PARAM_STR ''SN2'' 8 21 1 32 PARAM_GROUP_SYSTEM ''serial2 number'',
      PARAM_INT ''rs485_1_baud'' 9 2 PARAM_GROUP_COMM ''RS485-1 baudrate'',
      PARAM_INT ''rs485_2_baud'' 10 3 PARAM_GROUP_COMM ''RS485-2 baudrate'',
      PARAM_INT ''di1_trigger_level'' 11 4 PARAM_GROUP_DI ''DI1 trigger level'',
      PARAM_INT ''do1_level'' 12 5 PARAM_GROUP_DO ''DO1 output level'',
      PARAM_BLOB ''do_time1'' 6 4 6 4 PARAM_GROUP_DO_TIME ''DO1 timer config (type)'']"

text \<open>The objects when the program starts.\<close>

definition g_objs :: "nat \<Rightarrow> bytes" where
  "g_objs i =
     (if i < 2 then replicate 32 0
      else if i < 7 then replicate 4 0
      else if i < 9 then txt_bytes ''01234567890123456789'' @ [0]
      else if i < 11 then le32 115200
      else if i = 11 then le32 0
      else if i = 12 then le32 2
      else [])"

text \<open>
  The argument \<open>mutex\<close> is whether \<open>rt_mutex_create\<close> succeeds; the state has whether \<open>mgr_mutex\<close> is not \<open>NULL\<close> and
  whether the mutex is still there. The project is built with the C library (\<open>RT_USING_LIBC\<close>), where \<open>RT_ERROR\<close> is 255.
\<close>

record params_state =
  pa_world :: param_world
  mgr_mutex :: bool
  mutex_alive :: bool

definition fdb_kvdc_params ::
  "param_env \<Rightarrow> (nat \<times> nat) option \<Rightarrow> bool \<Rightarrow> bool \<Rightarrow> params_state \<Rightarrow> (int \<times> param_line list \<times> params_state) option" where
  "fdb_kvdc_params env part mutex mem s =
     (let s = s\<lparr>mgr_mutex := mutex, mutex_alive := mutex\<rparr>
      in if \<not> mutex then Some (- 255, [], s)
         else do {
           (ret, w) \<leftarrow> flash_param_init env part mem 4096 (4096 * 4) (Some g_items) True True (pa_world s);
           if ret \<noteq> 0 then Some (- 255, [], s\<lparr>pa_world := w, mutex_alive := False\<rparr>)
           else do {
             (lines, w) \<leftarrow> flash_param_print env w;
             Some (0, lines, s\<lparr>pa_world := w\<rparr>) } })"

section \<open>The table is accepted\<close>

lemma g_items_valid: "list_all item_valid g_items" "distinct (map it_key g_items)"
  by (simp_all add: g_items_def item_valid_def PARAM_INT_def PARAM_STR_def PARAM_BLOB_def param_consts txt_bytes_def)

definition g_keys :: "bytes set" where
  "g_keys = (\<lambda>it. the (it_key it)) ` set g_items"

lemma g_key_set: "key_set g_keys"
  by code_simp


section \<open>A default value that is the variable itself\<close>

lemma reset_aliased:
  assumes rel: "mgr_rel K env w m n" and key: "it_key it = Some key" "key \<in> K" and ty: "it_type it = PARAM_TYPE_BLOB"
    and i: "it_ram_ptr it = Some i" "it_def_val it = Some i" and len: "it_def_size it = it_ram_size it" "length (objs w i) = it_ram_size it"
    and budget: "n + kv_size key (objs w i) \<le> sec_size (pw_cfg w) - 105"
  shows "\<exists>w'. reset_one_locked env it w = Some (0, w') \<and> mgr_rel K env w' (m(key \<mapsto> objs w i)) (n + kv_size key (objs w i))
    \<and> objs w' = (objs w)(i := replicate (it_ram_size it) 0)"
proof -
  have rd: "mem_read (objs w i) 0 (it_ram_size it) = Some (objs w i)" using len by (simp add: mem_read_def)
  obtain w1 where w1: "blob_db_write key (Some i) (it_ram_size it) w = Some (FDB_NO_ERR, w1)"
    "mgr_rel K env w1 (m(key \<mapsto> objs w i)) (n + kv_size key (objs w i))" "objs w1 = objs w"
    using blob_db_write_law [OF rel key(2) rd budget] by blast
  obtain w2 where w2: "obj_write (Some i) 0 (replicate (it_ram_size it) 0) w1 = Some w2" "mgr_rel K env w2 = mgr_rel K env w1"
    "objs w2 = (objs w)(i := replicate (it_ram_size it) 0)"
    using obj_write_law [of 0 "replicate (it_ram_size it) 0" w1 i K env] len w1(3) by (auto simp: patch_at_0)
  obtain w3 where w3: "obj_copy (Some i) (Some i) (it_ram_size it) w2 = Some w3" "mgr_rel K env w3 = mgr_rel K env w2" "objs w3 = objs w2"
    using obj_copy_law [of "it_ram_size it" w2 i i K env] by (auto simp: w2(3) patch_at_0)
  show ?thesis
    using w1 w2 w3 key ty i len unfolding reset_one_write [OF key(1)] write_one_def i ty len by (simp add: param_consts)
qed

text \<open>
  C37: the table gives the parameter \<open>do_time1\<close> its own variable as default value: \<open>flash_param_reset\<close> on it returns 0,
  writes the current value to the database, and clears the variable, so that after the next restart the old value is back.
\<close>

theorem board_do_time1_reset:
  assumes "mgr_rel g_keys env w m n" and "m_init_ok (pw_mgr w)" and "m_items (pw_mgr w) = g_items" and "length (objs w 6) = 4"
    and "n + 36 \<le> sec_size (pw_cfg w) - 105"
  shows "\<exists>w'. flash_param_reset env (Some (txt_bytes ''do_time1'')) w = Some (0, w')
    \<and> mgr_rel g_keys env w' (m(txt_bytes ''do_time1'' \<mapsto> objs w 6)) (n + 36) \<and> objs w' = (objs w)(6 := [0, 0, 0, 0])"
proof -
  let ?k = "txt_bytes ''do_time1''"
  let ?it = "PARAM_BLOB ''do_time1'' 6 4 6 4 PARAM_GROUP_DO_TIME ''DO1 timer config (type)''"
  have f: "find_item ?k w = Some ?it"
    using assms(3) by (simp add: find_item_def g_items_def PARAM_INT_def PARAM_STR_def PARAM_BLOB_def txt_bytes_def)
  have it: "it_key ?it = Some ?k" "it_type ?it = PARAM_TYPE_BLOB" "it_ram_ptr ?it = Some 6" "it_def_val ?it = Some 6" "it_def_size ?it = 4"
    "it_ram_size ?it = 4"
    by (simp_all add: PARAM_BLOB_def)
  have k: "?k \<in> g_keys" by (simp add: g_keys_def g_items_def it)
  have sz: "kv_size ?k (objs w 6) = 36" using assms(4) by (simp add: kv_size_def txt_bytes_def)
  have "\<exists>w'. reset_one_locked env ?it (mgr_lock w) = Some (0, w') \<and> mgr_rel g_keys env w' (m(?k \<mapsto> objs (mgr_lock w) 6)) (n + kv_size ?k (objs (mgr_lock w) 6))
    \<and> objs w' = (objs (mgr_lock w))(6 := replicate (it_ram_size ?it) 0)"
    by (rule reset_aliased [OF _ it(1) k it(2-4)]) (use assms it sz in simp_all)
  then obtain w' where w': "reset_one_locked env ?it (mgr_lock w) = Some (0, w')" "mgr_rel g_keys env w' (m(?k \<mapsto> objs w 6)) (n + 36)"
    "objs w' = (objs w)(6 := replicate 4 0)"
    using sz it(6) by auto
  have "replicate 4 (0 :: u8) = [0, 0, 0, 0]" by (simp add: numeral_eq_Suc)
  then show ?thesis using f w' assms(2) by (simp add: flash_param_reset_def)
qed

theorem board_do_time1_reset_witness:
  "\<exists>w'. flash_param_reset demo_env (Some (txt_bytes ''do_time1'')) ((demo_world g_items)\<lparr>objs := g_objs(6 := [1, 2, 3, 4])\<rparr>) = Some (0, w')
    \<and> mgr_rel g_keys demo_env w' [txt_bytes ''do_time1'' \<mapsto> [1, 2, 3, 4]] 36 \<and> objs w' 6 = [0, 0, 0, 0]"
proof -
  have "contents [blank, blank] = Map.empty" using blank_contents [of 2] by (simp add: numeral_2_eq_2)
  then have "store_rel g_keys demo_cfg kv_zero demo_db Map.empty 0"
    using demo_keys_inv [OF g_key_set] demo_room_inv by (auto simp: store_rel_def kv_zero_def)
  then have "mgr_rel g_keys demo_env ((demo_world g_items)\<lparr>objs := g_objs(6 := [1, 2, 3, 4])\<rparr>) Map.empty 0"
    by (simp add: mgr_rel_def demo_world_def demo_env_def FDB_STR_KV_VALUE_MAX_SIZE_def)
  from board_do_time1_reset [OF this] show ?thesis by (auto simp: demo_simps demo_world_def demo_cfg_def)
qed

end
