(* ===== verification/Small_Mem.thy ===== *)
theory Small_Mem
  imports Le_Words Rt_Align
begin

text \<open>
  The memory allocator of the kernel, \<open>rt-thread/src/mem.c\<close>, which is the heap of the firmware, and the functions
  of \<open>rt-thread/src/kservice.c\<close> that call it. The heap is the byte array between \<open>heap_ptr\<close> and the end of
  its last item; the headers of the blocks are read and written in it as little-endian words, next to the data of
  the callers. Addresses and sizes are 32-bit words, \<open>RT_NULL\<close> is \<open>None\<close>, and a failed \<open>RT_ASSERT\<close> or an access outside
  the heap is the result \<open>None\<close> of the whole function. \<open>RT_USING_MEMTRACE\<close> is not defined in this build.
\<close>

unbundle bit_operations_syntax

section \<open>Macros and structures\<close>

text \<open>An item has three words, the structure of the allocator 56 bytes: 20 of the kernel object, nine words.\<close>

definition MIN_SIZE :: u32 where "MIN_SIZE = 12"
definition MIN_SIZE_ALIGNED :: u32 where "MIN_SIZE_ALIGNED = RT_ALIGN MIN_SIZE RT_ALIGN_SIZE"
definition SIZEOF_STRUCT_MEM :: u32 where "SIZEOF_STRUCT_MEM = RT_ALIGN 12 RT_ALIGN_SIZE"
definition SIZEOF_SMALL_MEM :: u32 where "SIZEOF_SMALL_MEM = 56"

definition MEM_MASK :: u32 where "MEM_MASK = NOT 0 - 1"
definition MEM_USED :: "u32 \<Rightarrow> u32" where "MEM_USED a = a AND MEM_MASK OR 1"
definition MEM_FREED :: "u32 \<Rightarrow> u32" where "MEM_FREED a = a AND MEM_MASK OR 0"

text \<open>The structure with its own address, and with the bytes it manages. \<open>is_object\<close>: the kernel object is registered.\<close>

record rt_small_mem =
  self_addr :: u32
  is_object :: bool
  mem_address :: u32
  mem_total :: u32
  mem_used :: u32
  mem_max :: u32
  heap_ptr :: u32
  heap_end :: u32
  lfree :: u32
  mem_size_aligned :: u32
  heap :: bytes

definition get32 :: "rt_small_mem \<Rightarrow> u32 \<Rightarrow> u32 option" where
  "get32 m a = map_option of_le32 (mem_read (heap m) (unat (a - heap_ptr m)) 4)"

definition put32 :: "rt_small_mem \<Rightarrow> u32 \<Rightarrow> u32 \<Rightarrow> rt_small_mem option" where
  "put32 m a w = map_option (\<lambda>h. m\<lparr>heap := h\<rparr>) (mem_write (heap m) (unat (a - heap_ptr m)) (le32 w))"

text \<open>The fields of \<open>struct rt_small_mem_item\<close>: \<open>pool_ptr\<close>, \<open>next\<close> and \<open>prev\<close>.\<close>

definition get_pool :: "rt_small_mem \<Rightarrow> u32 \<Rightarrow> u32 option" where "get_pool m mem = get32 m mem"
definition get_next :: "rt_small_mem \<Rightarrow> u32 \<Rightarrow> u32 option" where "get_next m mem = get32 m (mem + 4)"
definition get_prev :: "rt_small_mem \<Rightarrow> u32 \<Rightarrow> u32 option" where "get_prev m mem = get32 m (mem + 8)"
definition set_pool :: "u32 \<Rightarrow> u32 \<Rightarrow> rt_small_mem \<Rightarrow> rt_small_mem option" where "set_pool mem w m = put32 m mem w"
definition set_next :: "u32 \<Rightarrow> u32 \<Rightarrow> rt_small_mem \<Rightarrow> rt_small_mem option" where "set_next mem w m = put32 m (mem + 4) w"
definition set_prev :: "u32 \<Rightarrow> u32 \<Rightarrow> rt_small_mem \<Rightarrow> rt_small_mem option" where "set_prev mem w m = put32 m (mem + 8) w"

definition MEM_ISUSED :: "rt_small_mem \<Rightarrow> u32 \<Rightarrow> bool option" where
  "MEM_ISUSED m mem = map_option (\<lambda>p. p AND NOT MEM_MASK \<noteq> 0) (get_pool m mem)"

definition MEM_POOL :: "rt_small_mem \<Rightarrow> u32 \<Rightarrow> u32 option" where
  "MEM_POOL m mem = map_option (\<lambda>p. p AND MEM_MASK) (get_pool m mem)"

definition item_at :: "rt_small_mem \<Rightarrow> u32 \<Rightarrow> u32" where "item_at m ptr = heap_ptr m + ptr"

section \<open>Operations\<close>

definition plug_forward :: "u32 \<Rightarrow> rt_small_mem \<Rightarrow> rt_small_mem option" where
  "plug_forward mem m = do {
     nx \<leftarrow> get_next m mem;
     let nmem = item_at m nx;
     used \<leftarrow> (if mem = nmem then Some True else MEM_ISUSED m nmem);
     if \<not> used \<and> nmem \<noteq> heap_end m
     then do {
       let m = (if lfree m = nmem then m\<lparr>lfree := mem\<rparr> else m);
       m \<leftarrow> set_pool nmem 0 m;
       nn \<leftarrow> get_next m nmem;
       m \<leftarrow> set_next mem nn m;
       nn \<leftarrow> get_next m nmem;
       set_prev (item_at m nn) (mem - heap_ptr m) m }
     else Some m }"

definition plug_backward :: "u32 \<Rightarrow> rt_small_mem \<Rightarrow> rt_small_mem option" where
  "plug_backward mem m = do {
     pv \<leftarrow> get_prev m mem;
     let pmem = item_at m pv;
     used \<leftarrow> (if pmem = mem then Some True else MEM_ISUSED m pmem);
     if \<not> used
     then do {
       let m = (if lfree m = mem then m\<lparr>lfree := pmem\<rparr> else m);
       m \<leftarrow> set_pool mem 0 m;
       nx \<leftarrow> get_next m mem;
       m \<leftarrow> set_next pmem nx m;
       nx \<leftarrow> get_next m mem;
       set_prev (item_at m nx) (pmem - heap_ptr m) m }
     else Some m }"

definition plug_holes :: "u32 \<Rightarrow> rt_small_mem \<Rightarrow> rt_small_mem option" where
  "plug_holes mem m =
     (if heap_ptr m \<le> mem \<and> mem < heap_end m
      then do { m \<leftarrow> plug_forward mem m; plug_backward mem m }
      else None)"

text \<open>\<open>ram\<close>: the memory from \<open>begin_addr\<close> on.\<close>

definition rt_smem_init :: "u32 \<Rightarrow> u32 \<Rightarrow> bytes \<Rightarrow> rt_small_mem option option" where
  "rt_smem_init begin_addr sz ram =
     (let small_mem = RT_ALIGN begin_addr RT_ALIGN_SIZE;
          start_addr = small_mem + SIZEOF_SMALL_MEM;
          begin_align = RT_ALIGN start_addr RT_ALIGN_SIZE;
          end_align = RT_ALIGN_DOWN (begin_addr + sz) RT_ALIGN_SIZE
      in if end_align > 2 * SIZEOF_STRUCT_MEM \<and> end_align - 2 * SIZEOF_STRUCT_MEM \<ge> start_addr
         then do {
           let mem_size = end_align - begin_align - 2 * SIZEOF_STRUCT_MEM;
           h \<leftarrow> mem_read ram (unat (begin_align - begin_addr)) (unat (end_align - begin_align));
           let m = \<lparr>self_addr = small_mem, is_object = True, mem_address = begin_align, mem_total = mem_size,
             mem_used = 0, mem_max = 0, heap_ptr = begin_align, heap_end = 0, lfree = 0,
             mem_size_aligned = mem_size, heap = h\<rparr>;
           let mem = heap_ptr m;
           m \<leftarrow> set_pool mem (MEM_FREED small_mem) m;
           m \<leftarrow> set_next mem (mem_size + SIZEOF_STRUCT_MEM) m;
           m \<leftarrow> set_prev mem 0 m;
           nx \<leftarrow> get_next m mem;
           let m = m\<lparr>heap_end := item_at m nx\<rparr>;
           m \<leftarrow> set_pool (heap_end m) (MEM_USED small_mem) m;
           m \<leftarrow> set_next (heap_end m) (mem_size + SIZEOF_STRUCT_MEM) m;
           m \<leftarrow> set_prev (heap_end m) (mem_size + SIZEOF_STRUCT_MEM) m;
           Some (Some (m\<lparr>lfree := heap_ptr m\<rparr>)) }
         else Some None)"

definition rt_smem_detach :: "rt_small_mem \<Rightarrow> rt_small_mem option" where
  "rt_smem_detach m = (if is_object m then Some (m\<lparr>is_object := False\<rparr>) else None)"

text \<open>Cutting an item in two: the second one starts at \<open>ptr2\<close> and is free.\<close>

definition split_item :: "u32 \<Rightarrow> u32 \<Rightarrow> u32 \<Rightarrow> rt_small_mem \<Rightarrow> rt_small_mem option" where
  "split_item mem ptr ptr2 m = do {
     let mem2 = item_at m ptr2;
     m \<leftarrow> set_pool mem2 (MEM_FREED (self_addr m)) m;
     nx \<leftarrow> get_next m mem;
     m \<leftarrow> set_next mem2 nx m;
     m \<leftarrow> set_prev mem2 ptr m;
     m \<leftarrow> set_next mem ptr2 m;
     nx2 \<leftarrow> get_next m mem2;
     if nx2 \<noteq> mem_size_aligned m + SIZEOF_STRUCT_MEM then set_prev (item_at m nx2) ptr2 m else Some m }"

definition add_used :: "u32 \<Rightarrow> rt_small_mem \<Rightarrow> rt_small_mem" where
  "add_used n m =
     (let m = m\<lparr>mem_used := mem_used m + n\<rparr>
      in if mem_max m < mem_used m then m\<lparr>mem_max := mem_used m\<rparr> else m)"

partial_function (option) lfree_loop :: "rt_small_mem \<Rightarrow> rt_small_mem option" where
  "lfree_loop m = do {
     used \<leftarrow> MEM_ISUSED m (lfree m);
     if used \<and> lfree m \<noteq> heap_end m
     then do { nx \<leftarrow> get_next m (lfree m); lfree_loop (m\<lparr>lfree := item_at m nx\<rparr>) }
     else Some m }"

declare lfree_loop.simps [code]

definition alloc_item :: "u32 \<Rightarrow> u32 \<Rightarrow> rt_small_mem \<Rightarrow> (rt_small_mem \<times> u32) option" where
  "alloc_item sz ptr m = do {
     let mem = item_at m ptr;
     nx \<leftarrow> get_next m mem;
     m \<leftarrow> (if nx - (ptr + SIZEOF_STRUCT_MEM) \<ge> sz + SIZEOF_STRUCT_MEM + MIN_SIZE_ALIGNED
           then map_option (add_used (sz + SIZEOF_STRUCT_MEM)) (split_item mem ptr (ptr + SIZEOF_STRUCT_MEM + sz) m)
           else Some (add_used (nx - (mem - heap_ptr m)) m));
     m \<leftarrow> set_pool mem (MEM_USED (self_addr m)) m;
     m \<leftarrow> (if mem = lfree m
           then do {
             m \<leftarrow> lfree_loop m;
             used \<leftarrow> MEM_ISUSED m (lfree m);
             if lfree m = heap_end m \<or> \<not> used then Some m else None }
           else Some m);
     if mem + SIZEOF_STRUCT_MEM + sz \<le> heap_end m \<and> (mem + SIZEOF_STRUCT_MEM) mod RT_ALIGN_SIZE = 0
        \<and> mem AND (RT_ALIGN_SIZE - 1) = 0
     then Some (m, mem + SIZEOF_STRUCT_MEM) else None }"

partial_function (option) alloc_loop :: "u32 \<Rightarrow> u32 \<Rightarrow> rt_small_mem \<Rightarrow> (rt_small_mem \<times> u32 option) option" where
  "alloc_loop sz ptr m =
     (if ptr \<le> mem_size_aligned m - sz
      then do {
        let mem = item_at m ptr;
        used \<leftarrow> MEM_ISUSED m mem;
        nx \<leftarrow> get_next m mem;
        if \<not> used \<and> nx - (ptr + SIZEOF_STRUCT_MEM) \<ge> sz
        then do { (m, a) \<leftarrow> alloc_item sz ptr m; Some (m, Some a) }
        else alloc_loop sz nx m }
      else Some (m, None))"

declare alloc_loop.simps [code]

definition rt_smem_alloc :: "u32 \<Rightarrow> rt_small_mem \<Rightarrow> (rt_small_mem \<times> u32 option) option" where
  "rt_smem_alloc sz m =
     (if sz = 0 then Some (m, None)
      else if \<not> is_object m then None
      else
        (let sz = RT_ALIGN sz RT_ALIGN_SIZE;
             sz = (if sz < MIN_SIZE_ALIGNED then MIN_SIZE_ALIGNED else sz)
         in if sz > mem_size_aligned m then Some (m, None)
            else alloc_loop sz (lfree m - heap_ptr m) m))"

definition rt_smem_free :: "u32 option \<Rightarrow> rt_small_mem \<Rightarrow> rt_small_mem option" where
  "rt_smem_free rmem m =
     (case rmem of
        None \<Rightarrow> Some m
      | Some a \<Rightarrow>
          if a AND (RT_ALIGN_SIZE - 1) \<noteq> 0 then None
          else do {
            let mem = a - SIZEOF_STRUCT_MEM;
            pool \<leftarrow> MEM_POOL m mem;
            used \<leftarrow> MEM_ISUSED m mem;
            if pool \<noteq> self_addr m \<or> pool = 0 \<or> \<not> used \<or> \<not> is_object m \<or> \<not> (heap_ptr m \<le> a \<and> a < heap_end m) then None
            else do {
              nx \<leftarrow> get_next m mem;
              pool' \<leftarrow> MEM_POOL m (item_at m nx);
              if pool' \<noteq> self_addr m then None
              else do {
                m \<leftarrow> set_pool mem (MEM_FREED (self_addr m)) m;
                let m = (if mem < lfree m then m\<lparr>lfree := mem\<rparr> else m);
                nx \<leftarrow> get_next m mem;
                plug_holes mem (m\<lparr>mem_used := mem_used m - (nx - (mem - heap_ptr m))\<rparr>) } } })"

definition rt_smem_realloc :: "u32 option \<Rightarrow> u32 \<Rightarrow> rt_small_mem \<Rightarrow> (rt_small_mem \<times> u32 option) option" where
  "rt_smem_realloc rmem newsize m =
     (if \<not> is_object m then None
      else
        (let newsize = RT_ALIGN newsize RT_ALIGN_SIZE
         in if newsize > mem_size_aligned m then Some (m, None)
            else if newsize = 0 then do { m \<leftarrow> rt_smem_free rmem m; Some (m, None) }
            else (case rmem of
              None \<Rightarrow> rt_smem_alloc newsize m
            | Some a \<Rightarrow>
                if a AND (RT_ALIGN_SIZE - 1) \<noteq> 0 \<or> \<not> (heap_ptr m \<le> a \<and> a < heap_end m) then None
                else do {
                  let mem = a - SIZEOF_STRUCT_MEM;
                  let ptr = mem - heap_ptr m;
                  nx \<leftarrow> get_next m mem;
                  let sz = nx - ptr - SIZEOF_STRUCT_MEM;
                  if sz = newsize then Some (m, Some a)
                  else if newsize + SIZEOF_STRUCT_MEM + MIN_SIZE < sz
                  then do {
                    let m = m\<lparr>mem_used := mem_used m - (sz - newsize)\<rparr>;
                    let ptr2 = ptr + SIZEOF_STRUCT_MEM + newsize;
                    m \<leftarrow> split_item mem ptr ptr2 m;
                    let mem2 = item_at m ptr2;
                    let m = (if mem2 < lfree m then m\<lparr>lfree := mem2\<rparr> else m);
                    m \<leftarrow> plug_holes mem2 m;
                    Some (m, Some a) }
                  else do {
                    (m, nmem) \<leftarrow> rt_smem_alloc newsize m;
                    (case nmem of
                       None \<Rightarrow> Some (m, None)
                     | Some b \<Rightarrow> do {
                         xs \<leftarrow> mem_read (heap m) (unat (a - heap_ptr m)) (unat (if sz < newsize then sz else newsize));
                         h \<leftarrow> mem_write (heap m) (unat (b - heap_ptr m)) xs;
                         m \<leftarrow> rt_smem_free (Some a) (m\<lparr>heap := h\<rparr>);
                         Some (m, Some b) }) } })))"

section \<open>The system heap\<close>

text \<open>
  The functions of the kernel service call the allocator with the mutex of the heap held, so that the calls follow one
  another. No source of the board installs the hooks.
\<close>

definition rt_system_heap_init :: "u32 \<Rightarrow> u32 \<Rightarrow> bytes \<Rightarrow> rt_small_mem option option" where
  "rt_system_heap_init begin_addr end_addr ram =
     (let begin_align = RT_ALIGN begin_addr RT_ALIGN_SIZE;
          end_align = RT_ALIGN_DOWN end_addr RT_ALIGN_SIZE
      in if end_align > begin_align
         then rt_smem_init begin_align (end_align - begin_align) (drop (unat (begin_align - begin_addr)) ram)
         else None)"

definition rt_malloc :: "u32 \<Rightarrow> rt_small_mem \<Rightarrow> (rt_small_mem \<times> u32 option) option" where
  "rt_malloc sz m = rt_smem_alloc sz m"

definition rt_realloc :: "u32 option \<Rightarrow> u32 \<Rightarrow> rt_small_mem \<Rightarrow> (rt_small_mem \<times> u32 option) option" where
  "rt_realloc p newsize m = rt_smem_realloc p newsize m"

definition rt_calloc :: "u32 \<Rightarrow> u32 \<Rightarrow> rt_small_mem \<Rightarrow> (rt_small_mem \<times> u32 option) option" where
  "rt_calloc cnt sz m = do {
     (m, p) \<leftarrow> rt_malloc (cnt * sz) m;
     (case p of
        None \<Rightarrow> Some (m, None)
      | Some a \<Rightarrow> do {
          h \<leftarrow> mem_write (heap m) (unat (a - heap_ptr m)) (replicate (unat (cnt * sz)) 0);
          Some (m\<lparr>heap := h\<rparr>, Some a) }) }"

definition rt_free :: "u32 option \<Rightarrow> rt_small_mem \<Rightarrow> rt_small_mem option" where
  "rt_free p m = (if p = None then Some m else rt_smem_free p m)"

definition rt_memory_info :: "rt_small_mem \<Rightarrow> u32 \<times> u32 \<times> u32" where
  "rt_memory_info m = (mem_total m, mem_used m, mem_max m)"

definition rt_malloc_align :: "u32 \<Rightarrow> u32 \<Rightarrow> rt_small_mem \<Rightarrow> (rt_small_mem \<times> u32 option) option" where
  "rt_malloc_align sz align m = do {
     let align = (align + 3) AND NOT 3;
     let align_size = ((sz + 3) AND NOT 3) + align;
     (m, p) \<leftarrow> rt_malloc align_size m;
     (case p of
        None \<Rightarrow> Some (m, None)
      | Some a \<Rightarrow> do {
          let align_ptr = (if a AND (align - 1) = 0 then a + align else (a + (align - 1)) AND NOT (align - 1));
          m \<leftarrow> put32 m (align_ptr - 4) a;
          Some (m, Some align_ptr) }) }"

definition rt_free_align :: "u32 option \<Rightarrow> rt_small_mem \<Rightarrow> rt_small_mem option" where
  "rt_free_align p m =
     (case p of
        None \<Rightarrow> Some m
      | Some a \<Rightarrow> do { real \<leftarrow> get32 m (a - 4); rt_free (if real = 0 then None else Some real) m })"

end
