(* ===== verification/Small_Mem_Laws.thy ===== *)
theory Small_Mem_Laws
  imports Small_Mem
begin

text \<open>
  What the headers in the heap mean: a list of blocks, \<open>Used\<close> with the bytes of its owner or \<open>Free\<close>. The theory has
  the invariant \<open>smem_inv\<close> that ties the byte array to such a list, and the effect of every operation on the list.
\<close>

unbundle bit_operations_syntax

section \<open>Words in the heap\<close>

definition word_at :: "bytes \<Rightarrow> nat \<Rightarrow> u32" where
  "word_at h p = of_le32 (take 4 (drop p h))"

definition hput :: "bytes \<Rightarrow> nat \<Rightarrow> u32 \<Rightarrow> bytes" where
  "hput h p w = patch_at h p (le32 w)"

lemma length_hput [simp]: "p + 4 \<le> length h \<Longrightarrow> length (hput h p w) = length h"
  by (simp add: hput_def)

lemma slice_patch:
  assumes "p + length xs \<le> length h" and "q + n \<le> p \<or> p + length xs \<le> q"
  shows "take n (drop q (patch_at h p xs)) = take n (drop q h)"
proof (rule nth_equalityI)
  show "length (take n (drop q (patch_at h p xs))) = length (take n (drop q h))" using assms by simp
next
  fix i
  assume "i < length (take n (drop q (patch_at h p xs)))"
  then have i: "i < n" "q + i < length h" using assms by auto
  then show "take n (drop q (patch_at h p xs)) ! i = take n (drop q h) ! i"
    using assms nth_patch_at [OF assms(1), of "q + i"] by auto
qed

lemma slice_hput:
  "p + 4 \<le> length h \<Longrightarrow> q + n \<le> p \<or> p + 4 \<le> q \<Longrightarrow> take n (drop q (hput h p w)) = take n (drop q h)"
  unfolding hput_def by (rule slice_patch) simp_all

lemma word_at_hput:
  assumes "p + 4 \<le> length h"
  shows "word_at (hput h p w) p = w" and "q + 4 \<le> p \<or> p + 4 \<le> q \<Longrightarrow> word_at (hput h p w) q = word_at h q"
proof -
  have "take 4 (drop p (hput h p w)) = le32 w" using assms patch_at_exact [of p "le32 w" h] by (simp add: hput_def)
  then show "word_at (hput h p w) p = w" by (simp add: word_at_def of_le32_le32)
  show "word_at (hput h p w) q = word_at h q" if "q + 4 \<le> p \<or> p + 4 \<le> q"
    using slice_hput [OF assms that] by (simp add: word_at_def)
qed

text \<open>Accesses at the address of an offset.\<close>

abbreviation addr :: "rt_small_mem \<Rightarrow> nat \<Rightarrow> u32" where
  "addr m p \<equiv> heap_ptr m + of_nat p"

lemma get32_addr:
  assumes "p + 4 \<le> length (heap m)" and "length (heap m) < 2 ^ 32"
  shows "get32 m (addr m p) = Some (word_at (heap m) p)"
  using assms by (simp add: get32_def unat_of_nat32 mem_simps word_at_def)

lemma put32_addr:
  assumes "p + 4 \<le> length (heap m)" and "length (heap m) < 2 ^ 32"
  shows "put32 m (addr m p) w = Some (m\<lparr>heap := hput (heap m) p w\<rparr>)"
  using assms by (simp add: put32_def unat_of_nat32 mem_simps hput_def)

lemma field_access:
  assumes "p + 12 \<le> length (heap m)" and "length (heap m) < 2 ^ 32"
  shows "get_pool m (addr m p) = Some (word_at (heap m) p)"
    and "get_next m (addr m p) = Some (word_at (heap m) (p + 4))"
    and "get_prev m (addr m p) = Some (word_at (heap m) (p + 8))"
    and "set_pool (addr m p) w m = Some (m\<lparr>heap := hput (heap m) p w\<rparr>)"
    and "set_next (addr m p) w m = Some (m\<lparr>heap := hput (heap m) (p + 4) w\<rparr>)"
    and "set_prev (addr m p) w m = Some (m\<lparr>heap := hput (heap m) (p + 8) w\<rparr>)"
  using assms get32_addr [of p m] get32_addr [of "p + 4" m] get32_addr [of "p + 8" m]
    put32_addr [of p m w] put32_addr [of "p + 4" m w] put32_addr [of "p + 8" m w]
  by (simp_all add: get_pool_def get_next_def get_prev_def set_pool_def set_next_def set_prev_def ac_simps)

lemma smem_consts [simp]:
  "RT_ALIGN_SIZE = 8" "MIN_SIZE = 12" "MIN_SIZE_ALIGNED = 16" "SIZEOF_STRUCT_MEM = 16" "SIZEOF_SMALL_MEM = 56"
  by (simp_all add: RT_ALIGN_SIZE_def MIN_SIZE_def MIN_SIZE_ALIGNED_def SIZEOF_STRUCT_MEM_def SIZEOF_SMALL_MEM_def RT_ALIGN_def)

section \<open>Blocks\<close>

datatype block = Used bytes | Free nat

fun blen :: "block \<Rightarrow> nat" where
  "blen (Used d) = length d"
| "blen (Free n) = n"

fun is_free :: "block \<Rightarrow> bool" where
  "is_free (Used _) = False"
| "is_free (Free _) = True"

definition extent :: "block list \<Rightarrow> nat" where
  "extent bs = sum_list (map (\<lambda>b. 16 + blen b) bs)"

lemma extent_simps [simp]:
  "extent [] = 0" "extent (b # bs) = 16 + blen b + extent bs" "extent (xs @ ys) = extent xs + extent ys"
  by (simp_all add: extent_def)

definition used_size :: "block list \<Rightarrow> nat" where
  "used_size bs = extent (filter (\<lambda>b. \<not> is_free b) bs)"

lemma used_size_simps [simp]:
  "used_size [] = 0" "used_size (Used d # bs) = 16 + length d + used_size bs" "used_size (Free n # bs) = used_size bs"
  "used_size (xs @ ys) = used_size xs + used_size ys"
  by (simp_all add: used_size_def)

lemma used_size_le: "used_size bs \<le> extent bs"
proof (induction bs)
  case (Cons b bs)
  then show ?case by (cases b) simp_all
qed simp

text \<open>The offset of the first free block, or the end of the list.\<close>

definition free_off :: "block list \<Rightarrow> nat" where
  "free_off bs = extent (takeWhile (\<lambda>b. \<not> is_free b) bs)"

lemma free_off_simps [simp]:
  "free_off [] = 0" "free_off (Used d # bs) = 16 + length d + free_off bs" "free_off (Free n # bs) = 0"
  by (simp_all add: free_off_def)

lemma free_off_append:
  "free_off (xs @ ys) = (if \<exists>b \<in> set xs. is_free b then free_off xs else extent xs + free_off ys)"
  by (induction xs) (auto simp: free_off_def)

lemma free_off_le: "free_off bs \<le> extent bs"
proof (induction bs)
  case (Cons b bs)
  then show ?case by (cases b) simp_all
qed simp

lemma free_off_less: "\<exists>b \<in> set bs. is_free b \<Longrightarrow> free_off bs < extent bs"
proof (induction bs)
  case (Cons b bs)
  then show ?case by (cases b) auto
qed simp

fun tag :: "u32 \<Rightarrow> block \<Rightarrow> u32" where
  "tag s (Used _) = MEM_USED s"
| "tag s (Free _) = MEM_FREED s"

fun data_at :: "bytes \<Rightarrow> nat \<Rightarrow> block \<Rightarrow> bool" where
  "data_at h p (Used d) \<longleftrightarrow> take (length d) (drop p h) = d"
| "data_at h p (Free _) \<longleftrightarrow> True"

text \<open>\<open>lay h s p q bs\<close>: the blocks start at offset \<open>p\<close>, the item before them is at \<open>q\<close>.\<close>

fun lay :: "bytes \<Rightarrow> u32 \<Rightarrow> nat \<Rightarrow> nat \<Rightarrow> block list \<Rightarrow> bool" where
  "lay h s p q [] \<longleftrightarrow> True"
| "lay h s p q (b # bs) \<longleftrightarrow>
     word_at h p = tag s b \<and> word_at h (p + 4) = of_nat (p + 16 + blen b) \<and> word_at h (p + 8) = of_nat q
     \<and> data_at h (p + 16) b \<and> lay h s (p + 16 + blen b) p bs"

fun last_off :: "nat \<Rightarrow> nat \<Rightarrow> block list \<Rightarrow> nat" where
  "last_off p q [] = q"
| "last_off p q (b # bs) = last_off (p + 16 + blen b) p bs"

lemma last_off_snoc [simp]: "last_off p q (xs @ [b]) = p + extent xs"
  by (induction xs arbitrary: p q) simp_all

lemma lay_append [simp]:
  "lay h s p q (xs @ ys) \<longleftrightarrow> lay h s p q xs \<and> lay h s (p + extent xs) (last_off p q xs) ys"
  by (induction xs arbitrary: p q) (auto simp: add.assoc)

lemma last_off_append [simp]: "last_off p q (xs @ ys) = last_off (p + extent xs) (last_off p q xs) ys"
  by (induction xs arbitrary: p q) (auto simp: add.assoc)

lemma lay_patch:
  assumes "a + length ws \<le> length h" and "a + length ws \<le> p \<or> p + extent bs \<le> a"
  shows "lay (patch_at h a ws) s p q bs = lay h s p q bs"
  using assms(2)
proof (induction bs arbitrary: p q)
  case (Cons b bs)
  have w: "word_at (patch_at h a ws) r = word_at h r" if "r + 4 \<le> a \<or> a + length ws \<le> r" for r
    using slice_patch [OF assms(1) that] by (simp add: word_at_def)
  have "data_at (patch_at h a ws) (p + 16) b = data_at h (p + 16) b"
  proof (cases b)
    case (Used d)
    then show ?thesis using Cons.prems slice_patch [OF assms(1), of "p + 16" "length d"] by auto
  qed simp
  moreover have "lay (patch_at h a ws) s (p + 16 + blen b) p bs = lay h s (p + 16 + blen b) p bs"
    using Cons.prems by (intro Cons.IH) auto
  moreover have "word_at (patch_at h a ws) p = word_at h p" "word_at (patch_at h a ws) (p + 4) = word_at h (p + 4)"
    "word_at (patch_at h a ws) (p + 8) = word_at h (p + 8)" using Cons.prems by (auto intro!: w)
  ultimately show ?case by simp
qed simp

lemma lay_hput:
  "a + 4 \<le> length h \<Longrightarrow> a + 4 \<le> p \<or> p + extent bs \<le> a \<Longrightarrow> lay (hput h a w) s p q bs = lay h s p q bs"
  unfolding hput_def by (rule lay_patch) simp_all

lemma data_at_hput:
  "a + 4 \<le> length h \<Longrightarrow> a + 4 \<le> p \<or> p + blen b \<le> a \<Longrightarrow> data_at (hput h a w) p b = data_at h p b"
  by (cases b) (auto simp: slice_hput)

text \<open>The \<open>prev\<close> field of the block at the front of a list, if there is one.\<close>

lemma lay_prev:
  assumes "p + 12 \<le> length h" and "lay h s p q bs"
  shows "lay (hput h (p + 8) (of_nat v)) s p v bs"
proof (cases bs)
  case (Cons b cs)
  then show ?thesis using assms by (auto simp: word_at_hput lay_hput data_at_hput)
qed simp

section \<open>Invariants\<close>

lemma tag_bits: "tag s b AND NOT MEM_MASK \<noteq> 0 \<longleftrightarrow> \<not> is_free b" "tag s b AND MEM_MASK = s AND MEM_MASK"
proof -
  have 1: "NOT MEM_MASK = (1 :: u32)" by (simp add: MEM_MASK_def)
  have a: "(x AND MEM_MASK OR 1) AND 1 = (1 :: u32)" for x
    by (rule bit_word_eqI) (auto simp: bit_simps)
  have b: "(x AND MEM_MASK) AND 1 = (0 :: u32)" for x
    by (rule bit_word_eqI) (auto simp: bit_simps 1 [symmetric])
  show "tag s b AND NOT MEM_MASK \<noteq> 0 \<longleftrightarrow> \<not> is_free b"
    unfolding 1 by (cases b) (simp_all add: a b MEM_USED_def MEM_FREED_def)
  have "(x AND MEM_MASK OR 1) AND MEM_MASK = x AND MEM_MASK" for x
    by (rule bit_word_eqI) (auto simp: bit_simps 1 [symmetric])
  then show "tag s b AND MEM_MASK = s AND MEM_MASK"
    by (cases b) (simp_all add: MEM_USED_def MEM_FREED_def)
qed

text \<open>The blocks are in the heap and \<open>lfree\<close> is the first free one.\<close>

definition core :: "rt_small_mem \<Rightarrow> block list \<Rightarrow> bool" where
  "core m bs \<longleftrightarrow>
     is_object m \<and> self_addr m \<noteq> 0 \<and> self_addr m AND MEM_MASK = self_addr m \<and> heap_ptr m AND 7 = 0
     \<and> unat (heap_ptr m) + length (heap m) < 2 ^ 32
     \<and> length (heap m) = extent bs + 16 \<and> unat (mem_size_aligned m) + 16 = extent bs \<and> heap_end m = addr m (extent bs)
     \<and> lay (heap m) (self_addr m) 0 0 bs \<and> word_at (heap m) (extent bs) = MEM_USED (self_addr m)
     \<and> lfree m = addr m (free_off bs) \<and> (\<forall>b \<in> set bs. 8 dvd blen b \<and> 0 < blen b)"

text \<open>In addition no two free blocks are neighbours, and the used bytes are counted.\<close>

definition no_adj :: "block list \<Rightarrow> bool" where
  "no_adj bs \<longleftrightarrow> successively (\<lambda>a b. \<not> (is_free a \<and> is_free b)) bs"

definition counted :: "rt_small_mem \<Rightarrow> block list \<Rightarrow> bool" where
  "counted m bs \<longleftrightarrow> unat (mem_used m) = used_size bs \<and> mem_used m \<le> mem_max m"

definition smem_inv :: "rt_small_mem \<Rightarrow> block list \<Rightarrow> bool" where
  "smem_inv m bs \<longleftrightarrow> core m bs \<and> no_adj bs \<and> counted m bs"

text \<open>The fields that no operation changes.\<close>

definition same_heap :: "rt_small_mem \<Rightarrow> rt_small_mem \<Rightarrow> bool" where
  "same_heap m m' \<longleftrightarrow>
     heap_ptr m' = heap_ptr m \<and> heap_end m' = heap_end m \<and> self_addr m' = self_addr m \<and> is_object m' = is_object m
     \<and> mem_size_aligned m' = mem_size_aligned m \<and> mem_total m' = mem_total m \<and> mem_address m' = mem_address m"

lemma same_heap_trans: "same_heap a b \<Longrightarrow> same_heap b c \<Longrightarrow> same_heap a c"
  by (simp add: same_heap_def)

lemma same_heap_updates [simp]:
  "same_heap m m" "same_heap m (m\<lparr>heap := h\<rparr>)" "same_heap m (m\<lparr>lfree := a\<rparr>)" "same_heap m (m\<lparr>mem_used := u\<rparr>)"
  "same_heap m (m\<lparr>mem_max := u\<rparr>)"
  by (simp_all add: same_heap_def)

lemma core_small: "core m bs \<Longrightarrow> length (heap m) < 2 ^ 32"
  by (simp add: core_def)

lemma core_item:
  assumes "core m bs" and "p \<le> extent bs"
  shows "p + 12 \<le> length (heap m)"
  using assms by (simp add: core_def)

lemma core_block:
  assumes "core m (xs @ b # ys)"
  shows "word_at (heap m) (extent xs) = tag (self_addr m) b"
    and "word_at (heap m) (extent xs + 4) = of_nat (extent xs + 16 + blen b)"
    and "word_at (heap m) (extent xs + 8) = of_nat (last_off 0 0 xs)"
  using assms by (simp_all add: core_def)

lemma core_used:
  assumes "core m (xs @ b # ys)"
  shows "MEM_ISUSED m (addr m (extent xs)) = Some (\<not> is_free b)"
    and "MEM_POOL m (addr m (extent xs)) = Some (self_addr m)"
    and "get_next m (addr m (extent xs)) = Some (of_nat (extent xs + 16 + blen b))"
    and "get_prev m (addr m (extent xs)) = Some (of_nat (last_off 0 0 xs))"
proof -
  have p: "extent xs + 12 \<le> length (heap m)" using assms by (simp add: core_def)
  note f = field_access [OF p core_small [OF assms]] core_block [OF assms]
  have s: "self_addr m AND MEM_MASK = self_addr m" using assms by (simp add: core_def)
  show "MEM_ISUSED m (addr m (extent xs)) = Some (\<not> is_free b)" by (simp add: MEM_ISUSED_def f tag_bits)
  show "MEM_POOL m (addr m (extent xs)) = Some (self_addr m)" by (simp add: MEM_POOL_def f tag_bits s)
  show "get_next m (addr m (extent xs)) = Some (of_nat (extent xs + 16 + blen b))" by (simp add: f)
  show "get_prev m (addr m (extent xs)) = Some (of_nat (last_off 0 0 xs))" by (simp add: f)
qed

lemma core_end:
  assumes "core m bs"
  shows "MEM_ISUSED m (addr m (extent bs)) = Some True" and "MEM_POOL m (addr m (extent bs)) = Some (self_addr m)"
proof -
  have p: "extent bs + 12 \<le> length (heap m)" using assms by (simp add: core_def)
  have w: "word_at (heap m) (extent bs) = tag (self_addr m) (Used [])" using assms by (simp add: core_def)
  have s: "self_addr m AND MEM_MASK = self_addr m" using assms by (simp add: core_def)
  show "MEM_ISUSED m (addr m (extent bs)) = Some True"
    using tag_bits [of "self_addr m" "Used []"] by (simp add: MEM_ISUSED_def field_access [OF p core_small [OF assms]] w del: tag.simps)
  show "MEM_POOL m (addr m (extent bs)) = Some (self_addr m)"
    using tag_bits [of "self_addr m" "Used []"] by (simp add: MEM_POOL_def field_access [OF p core_small [OF assms]] w s del: tag.simps)
qed

text \<open>Offsets and addresses are the same thing inside the heap.\<close>

lemma addr_order:
  assumes "unat (heap_ptr m) + p < 2 ^ 32" and "unat (heap_ptr m) + q < 2 ^ 32"
  shows "addr m p = addr m q \<longleftrightarrow> p = q" "addr m p < addr m q \<longleftrightarrow> p < q" "addr m p \<le> addr m q \<longleftrightarrow> p \<le> q"
proof -
  have u: "unat (addr m r) = unat (heap_ptr m) + r" if "unat (heap_ptr m) + r < 2 ^ 32" for r
    using that by (simp add: unat_add_small unat_of_nat32)
  show "addr m p < addr m q \<longleftrightarrow> p < q" "addr m p \<le> addr m q \<longleftrightarrow> p \<le> q"
    unfolding word_cmp using assms by (simp_all only: u add_less_cancel_left add_le_cancel_left)
  show "addr m p = addr m q \<longleftrightarrow> p = q"
    unfolding word_unat_eq_iff using assms by (simp only: u add_left_cancel)
qed

lemma core_addr:
  assumes "core m bs" and "p < extent bs + 16"
  shows "unat (heap_ptr m) + p < 2 ^ 32"
  using assms by (simp add: core_def)

section \<open>Splitting and joining blocks\<close>

fun trunc :: "nat \<Rightarrow> block \<Rightarrow> block" where
  "trunc n (Used d) = Used (take n d)"
| "trunc n (Free k) = Free n"

lemma trunc_simps [simp]: "n \<le> blen b \<Longrightarrow> blen (trunc n b) = n" "tag s (trunc n b) = tag s b" "is_free (trunc n b) = is_free b"
  by (cases b; simp)+

lemma data_at_trunc:
  assumes "n \<le> blen b" and "data_at h p b"
  shows "data_at h p (trunc n b)"
proof (cases b)
  case (Used d)
  then have "take n d = take n (take (length d) (drop p h))" using assms(2) by simp
  then show ?thesis using Used assms(1) by (simp add: min_def)
qed simp

lemma of_nat_eq_small:
  assumes "a < 2 ^ 32" and "b < 2 ^ 32"
  shows "of_nat a = (of_nat b :: u32) \<longleftrightarrow> a = b"
proof
  assume "of_nat a = (of_nat b :: u32)"
  then have "unat (of_nat a :: u32) = unat (of_nat b :: u32)" by (rule arg_cong)
  moreover have "a < 4294967296" "b < 4294967296" using assms by simp_all
  ultimately show "a = b" by (simp only: unat_of_nat32)
qed simp

lemma split_item_law:
  assumes lay: "lay (heap m) (self_addr m) 0 0 (xs @ b # ys)"
    and len: "length (heap m) = extent (xs @ b # ys) + 16" "length (heap m) < 2 ^ 32"
    and sz: "unat (mem_size_aligned m) + 16 = extent (xs @ b # ys)" and n: "n + 16 \<le> blen b"
  shows "\<exists>h. split_item (addr m (extent xs)) (of_nat (extent xs)) (of_nat (extent xs + 16 + n)) m = Some (m\<lparr>heap := h\<rparr>)
    \<and> length h = length (heap m) \<and> lay h (self_addr m) 0 0 (xs @ [trunc n b, Free (blen b - n - 16)] @ ys)
    \<and> word_at h (extent (xs @ b # ys)) = word_at (heap m) (extent (xs @ b # ys))"
proof -
  define P where "P = extent xs"
  define Q where "Q = P + 16 + n"
  define R where "R = P + 16 + blen b"
  have l: "lay (heap m) (self_addr m) 0 0 xs" "word_at (heap m) P = tag (self_addr m) b" "word_at (heap m) (P + 4) = of_nat R"
    "word_at (heap m) (P + 8) = of_nat (last_off 0 0 xs)" "data_at (heap m) (P + 16) b" "lay (heap m) (self_addr m) R P ys"
    using lay by (simp_all add: P_def R_def)
  have RE: "R + extent ys = extent (xs @ b # ys)" by (simp add: R_def P_def)
  have le: "P + 32 + n \<le> R" "Q + 16 \<le> R" "R + 16 \<le> length (heap m)" using n len RE by (auto simp: R_def Q_def)
  define h1 where "h1 = hput (heap m) Q (MEM_FREED (self_addr m))"
  define h2 where "h2 = hput h1 (Q + 4) (of_nat R)"
  define h3 where "h3 = hput h2 (Q + 8) (of_nat P)"
  define h4 where "h4 = hput h3 (P + 4) (of_nat Q)"
  define h5 where "h5 = (if ys = [] then h4 else hput h4 (R + 8) (of_nat Q))"
  have len': "length h1 = length (heap m)" "length h2 = length (heap m)" "length h3 = length (heap m)" "length h4 = length (heap m)"
    "length h5 = length (heap m)" using le by (simp_all add: h1_def h2_def h3_def h4_def h5_def)
  have w: "word_at h1 (P + 4) = of_nat R" "word_at h4 (Q + 4) = of_nat R"
    using l le by (simp_all add: h1_def h2_def h3_def h4_def word_at_hput Q_def)
  have sz': "mem_size_aligned m + 16 = of_nat (extent (xs @ b # ys))"
    using arg_cong [OF sz, of "of_nat :: nat \<Rightarrow> u32"] by (simp del: extent_simps)
  have "of_nat R = (of_nat (extent (xs @ b # ys)) :: u32) \<longleftrightarrow> R = extent (xs @ b # ys)"
    using len by (intro of_nat_eq_small) (simp_all add: R_def P_def)
  then have last: "of_nat R = mem_size_aligned m + 16 \<longleftrightarrow> ys = []"
    unfolding sz' RE [symmetric] by (cases ys) simp_all
  have acc: "p + 12 \<le> length (heap m) \<Longrightarrow> length (heap m') = length (heap m) \<Longrightarrow> p + 12 \<le> length (heap m') \<and> length (heap m') < 2 ^ 32" for p m'
    using len by simp
  have step: "split_item (addr m P) (of_nat P) (of_nat Q) m = Some (m\<lparr>heap := h5\<rparr>)"
  proof -
    note f = field_access [where p = P] field_access [where p = Q] field_access [where p = R]
    have b: "P + 12 \<le> length (heap m)" "Q + 12 \<le> length (heap m)" "R + 12 \<le> length (heap m)" using le by auto
    have 1: "set_pool (addr m Q) (MEM_FREED (self_addr m)) m = Some (m\<lparr>heap := h1\<rparr>)"
      using f(10) [of m] b len by (simp add: h1_def)
    have 2: "get_next (m\<lparr>heap := h1\<rparr>) (addr m P) = Some (of_nat R)"
      using f(2) [of "m\<lparr>heap := h1\<rparr>"] b len len' w by simp
    have 3: "set_next (addr m Q) (of_nat R) (m\<lparr>heap := h1\<rparr>) = Some (m\<lparr>heap := h2\<rparr>)"
      using f(11) [of "m\<lparr>heap := h1\<rparr>"] b len len' by (simp add: h2_def)
    have 4: "set_prev (addr m Q) (of_nat P) (m\<lparr>heap := h2\<rparr>) = Some (m\<lparr>heap := h3\<rparr>)"
      using f(12) [of "m\<lparr>heap := h2\<rparr>"] b len len' by (simp add: h3_def)
    have 5: "set_next (addr m P) (of_nat Q) (m\<lparr>heap := h3\<rparr>) = Some (m\<lparr>heap := h4\<rparr>)"
      using f(5) [of "m\<lparr>heap := h3\<rparr>"] b len len' by (simp add: h4_def)
    have 6: "get_next (m\<lparr>heap := h4\<rparr>) (addr m Q) = Some (of_nat R)"
      using f(8) [of "m\<lparr>heap := h4\<rparr>"] b len len' w by simp
    have 7: "set_prev (addr m R) (of_nat Q) (m\<lparr>heap := h4\<rparr>) = Some (m\<lparr>heap := hput h4 (R + 8) (of_nat Q)\<rparr>)"
      using f(18) [of "m\<lparr>heap := h4\<rparr>"] b len len' by simp
    show ?thesis
      by (simp add: split_item_def item_at_def Let_def 1 2 3 4 5 6 7 last h5_def del: of_nat_add)
  qed
  have ys5: "lay h5 (self_addr m) R Q ys"
  proof -
    have "lay h4 (self_addr m) R P ys"
      using l le len' by (simp add: h1_def h2_def h3_def h4_def lay_hput Q_def)
    then show ?thesis using lay_prev [of R h4 "self_addr m" P ys Q] le len' by (cases ys) (simp_all add: h5_def)
  qed
  have other: "word_at h5 r = word_at (heap m) r" if "r + 4 \<le> P + 4 \<or> P + 8 \<le> r \<and> r + 4 \<le> Q \<or> R + 12 \<le> r" for r
    using that le len' by (auto simp: h1_def h2_def h3_def h4_def h5_def word_at_hput Q_def)
  have Qw: "word_at h5 Q = MEM_FREED (self_addr m)" "word_at h5 (Q + 4) = of_nat R" "word_at h5 (Q + 8) = of_nat P"
      "word_at h5 (P + 4) = of_nat Q" using le len' by (simp_all add: h1_def h2_def h3_def h4_def h5_def word_at_hput Q_def)
  have dat: "data_at h5 (P + 16) (trunc n b)"
  proof -
    have "data_at (heap m) (P + 16) (trunc n b)" using data_at_trunc l n by simp
    then show ?thesis using le len' n by (simp add: h1_def h2_def h3_def h4_def h5_def data_at_hput Q_def)
  qed
  have xs5: "lay h5 (self_addr m) 0 0 xs"
    using l(1) le len' P_def by (simp add: h1_def h2_def h3_def h4_def h5_def lay_hput Q_def)
  have eqs: "Q + 16 + (blen b - n - 16) = R" "P + 16 + n = Q" "n \<le> blen b" using n by (simp_all add: Q_def R_def)
  have fin: "word_at h5 (extent (xs @ b # ys)) = word_at (heap m) (extent (xs @ b # ys))"
  proof (cases "ys = []")
    case True
    then show ?thesis using RE le len' by (simp add: h1_def h2_def h3_def h4_def h5_def word_at_hput Q_def)
  next
    case False
    then have "R + 12 \<le> extent (xs @ b # ys)" using RE [symmetric] by (cases ys) simp_all
    then show ?thesis by (simp add: other)
  qed
  have "lay h5 (self_addr m) P (last_off 0 0 xs) (trunc n b # Free (blen b - n - 16) # ys)"
    unfolding lay.simps trunc_simps(1) [OF eqs(3)] trunc_simps(2) blen.simps eqs(1,2)
    using l other [of P] other [of "P + 8"] Qw ys5 dat by (simp del: of_nat_add add: Q_def)
  then have "lay h5 (self_addr m) 0 0 (xs @ [trunc n b, Free (blen b - n - 16)] @ ys)"
    using xs5 by (simp del: lay.simps add: P_def)
  then show ?thesis
    using step len' fin unfolding P_def [symmetric] Q_def [symmetric] by blast
qed

text \<open>Joining the items at \<open>P\<close> and \<open>Q\<close>, as both halves of \<open>plug_holes\<close> do it; \<open>R\<close> is the item after them.\<close>

definition join_items :: "nat \<Rightarrow> nat \<Rightarrow> nat \<Rightarrow> bytes \<Rightarrow> bytes" where
  "join_items P Q R h = hput (hput (hput h Q 0) (P + 4) (of_nat R)) (R + 8) (of_nat P)"

lemma join_items_law:
  assumes lay: "lay h s 0 0 (xs @ Free k # Free j # ys)" and len: "length h = extent (xs @ Free k # Free j # ys) + 16"
    and P: "P = extent xs" and Q: "Q = P + 16 + k" and R: "R = Q + 16 + j"
  shows "length (join_items P Q R h) = length h" and "lay (join_items P Q R h) s 0 0 (xs @ Free (k + 16 + j) # ys)"
    and "word_at (join_items P Q R h) (R + extent ys) = word_at h (R + extent ys)"
proof -
  have le: "Q + 16 \<le> R" "P + 16 \<le> Q" "R + extent ys + 16 = length h" using P Q R len by auto
  define h1 where "h1 = hput h Q 0"
  define h2 where "h2 = hput h1 (P + 4) (of_nat R)"
  define h3 where "h3 = hput h2 (R + 8) (of_nat P)"
  have j: "join_items P Q R h = h3" by (simp add: join_items_def h1_def h2_def h3_def)
  have len': "length h1 = length h" "length h2 = length h" "length h3 = length h" using le by (simp_all add: h1_def h2_def h3_def)
  then show "length (join_items P Q R h) = length h" by (simp add: j)
  have l: "lay h s 0 0 xs" "word_at h P = MEM_FREED s" "word_at h (P + 8) = of_nat (last_off 0 0 xs)" "lay h s R Q ys"
    using lay by (simp_all add: P Q R add.assoc)
  have "lay h2 s R Q ys" using l le len' by (simp add: h1_def h2_def lay_hput)
  then have "lay h3 s R P ys" using lay_prev [of R h2 s Q ys P] le len' by (simp add: h3_def)
  moreover have "lay h3 s 0 0 xs" using l le len' P by (simp add: h1_def h2_def h3_def lay_hput)
  moreover have "word_at h3 P = MEM_FREED s" "word_at h3 (P + 8) = of_nat (last_off 0 0 xs)" "word_at h3 (P + 4) = of_nat R"
    using l le len' by (simp_all add: h1_def h2_def h3_def word_at_hput)
  moreover have "P + 16 + (k + 16 + j) = R" by (simp add: Q R)
  ultimately show "lay (join_items P Q R h) s 0 0 (xs @ Free (k + 16 + j) # ys)"
    unfolding j lay_append lay.simps blen.simps add_0 P [symmetric] by simp
  show "word_at (join_items P Q R h) (R + extent ys) = word_at h (R + extent ys)"
  proof (cases ys)
    case Nil
    then show ?thesis unfolding j using le len' by (simp add: h1_def h2_def h3_def word_at_hput)
  next
    case (Cons y zs)
    then have "R + 12 \<le> R + extent ys" by simp
    then show ?thesis unfolding j using le len' by (simp add: h1_def h2_def h3_def word_at_hput)
  qed
qed

lemma core_joined:
  assumes c: "core m (xs @ Free k # Free j # ys)" and "P = extent xs" "Q = P + 16 + k" "R = Q + 16 + j"
  shows "core (m\<lparr>heap := join_items P Q R (heap m), lfree := addr m (free_off (xs @ Free (k + 16 + j) # ys))\<rparr>) (xs @ Free (k + 16 + j) # ys)"
proof -
  have "lay (heap m) (self_addr m) 0 0 (xs @ Free k # Free j # ys)" "length (heap m) = extent (xs @ Free k # Free j # ys) + 16"
    using c by (simp_all add: core_def)
  note j = join_items_law [OF this assms(2-4)]
  have e: "extent (xs @ Free k # Free j # ys) = extent (xs @ Free (k + 16 + j) # ys)" "R + extent ys = extent (xs @ Free k # Free j # ys)"
    using assms by simp_all
  show ?thesis
    using c j e(2) unfolding core_def e(1)
    by (simp del: lay_append extent_simps)
qed

text \<open>What \<open>plug_holes\<close> makes of a block that has become free between \<open>xs\<close> and \<open>ys\<close>.\<close>

definition join_back :: "block list \<Rightarrow> nat \<Rightarrow> block list" where
  "join_back xs k =
     (if xs \<noteq> [] \<and> is_free (last xs) then butlast xs @ [Free (blen (last xs) + 16 + k)] else xs @ [Free k])"

fun plug :: "block list \<Rightarrow> nat \<Rightarrow> block list \<Rightarrow> block list" where
  "plug xs k (Free j # ys) = join_back xs (k + 16 + j) @ ys"
| "plug xs k ys = join_back xs k @ ys"

lemma core_less:
  assumes "core m (xs @ b # ys)"
  shows "addr m (extent xs) < heap_end m" and "heap_ptr m \<le> addr m (extent xs)" and "addr m (extent xs) \<noteq> heap_end m"
proof -
  have "unat (heap_ptr m) + extent (xs @ b # ys) < 2 ^ 32" by (rule core_addr [OF assms]) simp
  then have "addr m (extent xs) < addr m (extent (xs @ b # ys))" "addr m 0 \<le> addr m (extent xs)"
    by (subst addr_order; simp)+
  then show "addr m (extent xs) < heap_end m" "heap_ptr m \<le> addr m (extent xs)" "addr m (extent xs) \<noteq> heap_end m"
    using assms by (auto simp: core_def)
qed

lemma core_distinct:
  assumes "core m bs" and "p \<le> extent bs" and "q \<le> extent bs"
  shows "addr m p = addr m q \<longleftrightarrow> p = q" "addr m p < addr m q \<longleftrightarrow> p < q"
  using assms core_addr [OF assms(1), of p] core_addr [OF assms(1), of q] by (simp_all only: addr_order)

lemma join_exec:
  assumes len: "R + 16 \<le> length (heap m)" "length (heap m) < 2 ^ 32" and ord: "P + 16 \<le> Q" "Q + 16 \<le> R"
    and nx: "get_next m (addr m Q) = Some (of_nat R)"
  shows "do { m' \<leftarrow> set_pool (addr m Q) 0 m; nn \<leftarrow> get_next m' (addr m Q); m' \<leftarrow> set_next (addr m P) nn m';
      nn \<leftarrow> get_next m' (addr m Q); set_prev (item_at m' nn) (addr m P - heap_ptr m') m' }
    = Some (m\<lparr>heap := join_items P Q R (heap m)\<rparr>)"
proof -
  define h1 where "h1 = hput (heap m) Q 0"
  define h2 where "h2 = hput h1 (P + 4) (of_nat R)"
  have len': "length h1 = length (heap m)" "length h2 = length (heap m)" using len ord by (simp_all add: h1_def h2_def)
  have w: "word_at (heap m) (Q + 4) = of_nat R" using nx field_access(2) [of Q m] len ord by simp
  then have w': "word_at h1 (Q + 4) = of_nat R" "word_at h2 (Q + 4) = of_nat R" using len ord by (simp_all add: h1_def h2_def word_at_hput)
  have 1: "set_pool (addr m Q) 0 m = Some (m\<lparr>heap := h1\<rparr>)" using field_access [of Q m] len ord by (simp add: h1_def)
  have 2: "get_next (m\<lparr>heap := h1\<rparr>) (addr m Q) = Some (of_nat R)"
    using field_access(2) [of Q "m\<lparr>heap := h1\<rparr>"] len len' w' ord by simp
  have 3: "set_next (addr m P) (of_nat R) (m\<lparr>heap := h1\<rparr>) = Some (m\<lparr>heap := h2\<rparr>)"
    using field_access(5) [of P "m\<lparr>heap := h1\<rparr>"] len len' ord by (simp add: h2_def)
  have 4: "get_next (m\<lparr>heap := h2\<rparr>) (addr m Q) = Some (of_nat R)"
    using field_access(2) [of Q "m\<lparr>heap := h2\<rparr>"] len len' w' ord by simp
  have 5: "set_prev (addr m R) (of_nat P) (m\<lparr>heap := h2\<rparr>) = Some (m\<lparr>heap := join_items P Q R (heap m)\<rparr>)"
    using field_access(6) [of R "m\<lparr>heap := h2\<rparr>"] len len' by (simp add: join_items_def h1_def h2_def)
  show ?thesis by (simp add: 1 2 3 4 5 item_at_def)
qed

lemma plug_forward_law:
  assumes c: "core m (xs @ Free k # ys)"
  shows "\<exists>m'. plug_forward (addr m (extent xs)) m = Some m' \<and> same_heap m m' \<and> mem_used m' = mem_used m \<and> mem_max m' = mem_max m
    \<and> core m' (xs @ (case ys of Free j # zs \<Rightarrow> Free (k + 16 + j) # zs | _ \<Rightarrow> Free k # ys))"
proof -
  define P where "P = extent xs"
  define Q where "Q = P + 16 + k"
  have nx: "get_next m (addr m P) = Some (of_nat Q)" using core_used(3) [OF c] by (simp add: P_def Q_def)
  have PQ: "addr m P \<noteq> addr m Q" using core_distinct(1) [OF c, of P Q] by (simp add: P_def Q_def)
  have Qx: "extent (xs @ [Free k]) = Q" by (simp add: P_def Q_def)
  have idle: ?thesis if "MEM_ISUSED m (addr m Q) = Some True" and "\<nexists>j zs. ys = Free j # zs"
    using that c PQ by (auto simp: plug_forward_def nx item_at_def P_def [symmetric] simp del: of_nat_add split: list.split block.split)
  consider (free) j zs where "ys = Free j # zs" | (used) d zs where "ys = Used d # zs" | (nil) "ys = []"
    by (cases ys rule: list.exhaust) (auto intro: block.exhaust)
  then show ?thesis
  proof cases
    case free
    define R where "R = Q + 16 + j"
    have c': "core m ((xs @ [Free k]) @ Free j # zs)" using c free by simp
    note cq = core_used [OF c', unfolded Qx] core_less [OF c', unfolded Qx]
    have nn: "get_next m (addr m Q) = Some (of_nat R)" using cq(3) by (simp add: R_def)
    have len: "R + 16 \<le> length (heap m)" "length (heap m) < 2 ^ 32" using c free by (auto simp: core_def P_def Q_def R_def)
    have "free_off (xs @ Free k # ys) < Q" using free_off_append [of xs "Free k # ys"] free_off_le [of xs] by (auto simp: P_def Q_def)
    then have lf: "lfree m \<noteq> addr m Q"
      using core_distinct(1) [OF c, of "free_off (xs @ Free k # ys)" Q] free_off_le [of "xs @ Free k # ys"] c
      by (auto simp: core_def free P_def Q_def)
    have lf': "lfree m = addr m (free_off (xs @ Free (k + 16 + j) # zs))" using c by (simp add: core_def free_off_append)
    have ord: "P + 16 \<le> Q" "Q + 16 \<le> R" by (simp_all add: Q_def R_def)
    note ex = join_exec [OF len ord nn]
    have "plug_forward (addr m P) m = Some (m\<lparr>heap := join_items P Q R (heap m)\<rparr>)"
      using PQ cq(1,7) ex by (simp add: plug_forward_def nx item_at_def lf)
    moreover have "core (m\<lparr>heap := join_items P Q R (heap m), lfree := lfree m\<rparr>) (xs @ Free (k + 16 + j) # zs)"
      unfolding lf' using c free by (intro core_joined) (simp_all add: P_def Q_def R_def)
    ultimately show ?thesis using free by (simp add: P_def)
  next
    case used
    then have "core m ((xs @ [Free k]) @ Used d # zs)" using c by simp
    from core_used(1) [OF this, unfolded Qx] used show ?thesis by (intro idle) simp_all
  next
    case nil
    from core_end(1) [OF c [unfolded nil], unfolded Qx] nil show ?thesis by (intro idle) simp_all
  qed
qed

lemma plug_backward_law:
  assumes c: "core m (xs @ Free k # ys)"
  shows "\<exists>m'. plug_backward (addr m (extent xs)) m = Some m' \<and> same_heap m m' \<and> mem_used m' = mem_used m \<and> mem_max m' = mem_max m
    \<and> core m' (join_back xs k @ ys)"
proof (cases xs rule: rev_exhaust)
  case Nil
  then have "get_prev m (addr m 0) = Some 0" using core_used(4) [OF c] by simp
  then show ?thesis using c Nil by (simp add: plug_backward_def item_at_def join_back_def)
next
  case (snoc zs b)
  define P where "P = extent zs"
  define Q where "Q = extent xs"
  have pv: "get_prev m (addr m Q) = Some (of_nat P)" using core_used(4) [OF c] snoc by (simp add: P_def Q_def)
  have PQ: "addr m P \<noteq> addr m Q" using core_distinct(1) [OF c, of P Q] snoc by (simp add: P_def Q_def)
  have c': "core m (zs @ b # Free k # ys)" using c snoc by simp
  have us: "MEM_ISUSED m (addr m P) = Some (\<not> is_free b)" using core_used(1) [OF c'] by (simp add: P_def)
  show ?thesis
  proof (cases b)
    case (Used d)
    then have "plug_backward (addr m Q) m = Some m" using us PQ pv by (simp add: plug_backward_def item_at_def)
    moreover have "join_back xs k @ ys = xs @ Free k # ys" using snoc Used by (simp add: join_back_def)
    ultimately show ?thesis using c by (simp add: Q_def)
  next
    case (Free j)
    define R where "R = Q + 16 + k"
    have Q: "Q = P + 16 + j" using snoc Free by (simp add: P_def Q_def)
    have nx: "get_next m (addr m Q) = Some (of_nat R)" using core_used(3) [OF c] by (simp add: R_def Q_def)
    have len: "R + 16 \<le> length (heap m)" "length (heap m) < 2 ^ 32" using c by (auto simp: core_def Q_def R_def)
    have "free_off (xs @ Free k # ys) < Q" using free_off_append [of zs "b # Free k # ys"] free_off_le [of zs] snoc Free by (auto simp: P_def Q)
    then have lf: "lfree m \<noteq> addr m Q"
      using core_distinct(1) [OF c, of "free_off (xs @ Free k # ys)" Q] free_off_le [of "xs @ Free k # ys"] c
      by (auto simp: core_def Q_def)
    have lf': "lfree m = addr m (free_off (zs @ Free (j + 16 + k) # ys))" using c snoc Free by (simp add: core_def free_off_append)
    have ord: "P + 16 \<le> Q" "Q + 16 \<le> R" by (simp_all add: Q R_def)
    note ex = join_exec [OF len ord nx]
    have "plug_backward (addr m Q) m = Some (m\<lparr>heap := join_items P Q R (heap m)\<rparr>)"
      using PQ us Free ex by (simp add: plug_backward_def pv item_at_def lf)
    moreover have "core (m\<lparr>heap := join_items P Q R (heap m), lfree := lfree m\<rparr>) (zs @ Free (j + 16 + k) # ys)"
      unfolding lf' using c' Free Q by (intro core_joined) (simp_all add: P_def R_def)
    ultimately show ?thesis using snoc Free by (simp add: Q_def join_back_def)
  qed
qed

lemma plug_holes_law:
  assumes c: "core m (xs @ Free k # ys)"
  shows "\<exists>m'. plug_holes (addr m (extent xs)) m = Some m' \<and> same_heap m m' \<and> mem_used m' = mem_used m \<and> mem_max m' = mem_max m
    \<and> core m' (plug xs k ys)"
proof -
  obtain m1 where m1: "plug_forward (addr m (extent xs)) m = Some m1" "same_heap m m1" "mem_used m1 = mem_used m" "mem_max m1 = mem_max m"
    "core m1 (xs @ (case ys of Free j # zs \<Rightarrow> Free (k + 16 + j) # zs | _ \<Rightarrow> Free k # ys))"
    using plug_forward_law [OF c] by blast
  obtain k' ys' where k': "(case ys of Free j # zs \<Rightarrow> Free (k + 16 + j) # zs | _ \<Rightarrow> Free k # ys) = Free k' # ys'"
    "plug xs k ys = join_back xs k' @ ys'"
    by (cases "(xs, k, ys)" rule: plug.cases) auto
  obtain m2 where "plug_backward (addr m1 (extent xs)) m1 = Some m2" "same_heap m1 m2" "mem_used m2 = mem_used m1" "mem_max m2 = mem_max m1"
    "core m2 (plug xs k ys)"
    using plug_backward_law [OF m1(5) [unfolded k'(1)]] k'(2) by auto
  moreover have "heap_ptr m1 = heap_ptr m" using m1(2) by (simp add: same_heap_def)
  ultimately show ?thesis using m1 core_less [OF c] same_heap_trans by (auto simp: plug_holes_def)
qed

end
