(* ===== verification/Small_Mem_Ops.thy ===== *)
theory Small_Mem_Ops
  imports Small_Mem_Laws
begin

text \<open>
  The effect of \<open>rt_smem_alloc\<close>, \<open>rt_smem_free\<close> and \<open>rt_smem_realloc\<close> on the list of blocks.
\<close>

unbundle bit_operations_syntax

section \<open>Alignment\<close>

lemma addr_aligned:
  assumes "heap_ptr m AND 7 = 0" and "8 dvd p"
  shows "addr m p AND 7 = 0" and "addr m p mod 8 = 0"
proof -
  have "unat (of_nat p :: u32) mod 8 = p mod 8" by (simp add: unat_of_nat mod_mod_cancel)
  then have "unat (addr m p) mod 8 = 0"
    using assms unat_add_mod8 [of "heap_ptr m" "of_nat p"] by (simp add: and7_zero mod_add_eq [symmetric] mod_eq_0_iff_dvd)
  then show "addr m p AND 7 = 0" by (simp add: and7_zero mod_eq_0_iff_dvd)
  have "addr m p mod 8 = take_bit 3 (addr m p)" by (simp add: take_bit_eq_mod)
  then show "addr m p mod 8 = 0" using \<open>addr m p AND 7 = 0\<close> by (simp only: and7)
qed

section \<open>Changes of one block\<close>

lemma lfree_free [simp]:
  "MEM_ISUSED (m\<lparr>lfree := x\<rparr>) a = MEM_ISUSED m a" "get_next (m\<lparr>lfree := x\<rparr>) a = get_next m a"
  by (simp_all add: MEM_ISUSED_def get_pool_def get_next_def get32_def)

lemma core_retag:
  assumes c: "core m (xs @ b # ys)" and b': "blen b' = blen b" "data_at (heap m) (extent xs + 16) b'"
  shows "set_pool (addr m (extent xs)) (tag (self_addr m) b') m = Some (m\<lparr>heap := hput (heap m) (extent xs) (tag (self_addr m) b')\<rparr>)"
    and "core (m\<lparr>heap := hput (heap m) (extent xs) (tag (self_addr m) b'), lfree := addr m (free_off (xs @ b' # ys))\<rparr>) (xs @ b' # ys)"
proof -
  have le: "extent xs + 16 \<le> length (heap m)" using c by (simp add: core_def)
  then show "set_pool (addr m (extent xs)) (tag (self_addr m) b') m = Some (m\<lparr>heap := hput (heap m) (extent xs) (tag (self_addr m) b')\<rparr>)"
    using field_access(4) [of "extent xs" m] core_small [OF c] by simp
  have "data_at (hput (heap m) (extent xs) w) (extent xs + 16) b'" for w using b' le by (simp add: data_at_hput)
  moreover have "lay (hput (heap m) (extent xs) w) (self_addr m) 0 0 xs" for w using c le by (simp add: core_def lay_hput)
  moreover have "lay (hput (heap m) (extent xs) w) (self_addr m) (extent xs + 16 + blen b) (extent xs) ys" for w
    using c le by (simp add: core_def lay_hput)
  ultimately have "lay (hput (heap m) (extent xs) (tag (self_addr m) b')) (self_addr m) 0 0 (xs @ b' # ys)"
    using c le b' by (simp add: core_def word_at_hput)
  moreover have "word_at (hput (heap m) (extent xs) w) (extent (xs @ b # ys)) = word_at (heap m) (extent (xs @ b # ys))" for w
    using le by (simp add: word_at_hput)
  moreover have "extent (xs @ b' # ys) = extent (xs @ b # ys)" using b' by simp
  moreover have "\<forall>c \<in> set (xs @ b' # ys). 8 dvd blen c \<and> 0 < blen c" using c b' by (simp add: core_def)
  ultimately show "core (m\<lparr>heap := hput (heap m) (extent xs) (tag (self_addr m) b'), lfree := addr m (free_off (xs @ b' # ys))\<rparr>) (xs @ b' # ys)"
    using c le by (simp add: core_def del: lay_append extent_simps)
qed

lemma core_split:
  assumes c: "core m (xs @ b # ys)" and n: "8 dvd n" "0 < n" "n + 16 < blen b"
  shows "\<exists>h. split_item (addr m (extent xs)) (of_nat (extent xs)) (of_nat (extent xs + 16 + n)) m = Some (m\<lparr>heap := h\<rparr>)
    \<and> core (m\<lparr>heap := h, lfree := addr m (free_off (xs @ [trunc n b, Free (blen b - n - 16)] @ ys))\<rparr>)
        (xs @ [trunc n b, Free (blen b - n - 16)] @ ys)"
proof -
  obtain h where h: "split_item (addr m (extent xs)) (of_nat (extent xs)) (of_nat (extent xs + 16 + n)) m = Some (m\<lparr>heap := h\<rparr>)"
    "length h = length (heap m)" "lay h (self_addr m) 0 0 (xs @ [trunc n b, Free (blen b - n - 16)] @ ys)"
    "word_at h (extent (xs @ b # ys)) = word_at (heap m) (extent (xs @ b # ys))"
    using split_item_law [of m xs b ys n] c n by (auto simp: core_def simp del: lay_append extent_simps)
  have e: "extent (xs @ [trunc n b, Free (blen b - n - 16)] @ ys) = extent (xs @ b # ys)" using n by simp
  have "8 dvd blen b" using c by (simp add: core_def)
  then have "8 dvd blen b - n - 16" using n(1) by (simp add: dvd_diff_nat)
  then have "\<forall>c \<in> set (xs @ [trunc n b, Free (blen b - n - 16)] @ ys). 8 dvd blen c \<and> 0 < blen c"
    using c n by (auto simp: core_def)
  then have "core (m\<lparr>heap := h, lfree := addr m (free_off (xs @ [trunc n b, Free (blen b - n - 16)] @ ys))\<rparr>)
        (xs @ [trunc n b, Free (blen b - n - 16)] @ ys)"
    using c h n unfolding core_def e by (simp del: lay_append extent_simps append.simps)
  then show ?thesis using h(1) by blast
qed

lemma lfree_loop_law:
  assumes "core (m\<lparr>lfree := x\<rparr>) (xs @ ys)" and "lfree m = addr m (extent xs)"
  shows "lfree_loop m = Some (m\<lparr>lfree := addr m (extent xs + free_off ys)\<rparr>)"
  using assms
proof (induction ys arbitrary: xs m)
  case Nil
  then have "heap_end m = lfree m" by (simp add: core_def)
  moreover have "MEM_ISUSED m (lfree m) = Some True" using core_end(1) [OF Nil(1)] Nil(2) by simp
  ultimately show ?case using Nil(2) by (subst lfree_loop.simps) simp
next
  case (Cons b ys)
  note cu = core_used [OF Cons.prems(1)]
  show ?case
  proof (cases b)
    case (Free k)
    then show ?thesis using cu(1) Cons.prems(2) by (subst lfree_loop.simps) simp
  next
    case (Used d)
    let ?m = "m\<lparr>lfree := addr m (extent (xs @ [b]))\<rparr>"
    have "lfree m \<noteq> heap_end m" using core_less(3) [OF Cons.prems(1)] Cons.prems(2) by simp
    moreover have "get_next m (lfree m) = Some (of_nat (extent (xs @ [b])))" using cu(3) Cons.prems(2) by simp
    ultimately have "lfree_loop m = lfree_loop ?m"
      using cu(1) Used Cons.prems(2) by (subst lfree_loop.simps) (simp add: item_at_def)
    also have "\<dots> = Some (?m\<lparr>lfree := addr ?m (extent (xs @ [b]) + free_off ys)\<rparr>)"
      using Cons.prems(1) by (intro Cons.IH) simp_all
    finally show ?thesis using Used by (simp add: add.assoc)
  qed
qed

section \<open>Free\<close>

lemma core_counters [simp]:
  "core (m\<lparr>mem_used := u\<rparr>) bs = core m bs" "core (m\<lparr>mem_max := u\<rparr>) bs = core m bs"
  by (simp_all add: core_def)

lemma core_dvd: "core m (xs @ ys) \<Longrightarrow> 8 dvd extent xs"
proof -
  assume "core m (xs @ ys)"
  then have "\<forall>b \<in> set xs. 8 dvd blen b" by (simp add: core_def)
  then show ?thesis by (induction xs) (auto intro!: dvd_add)
qed

lemma core_pool: "core m (xs @ ys) \<Longrightarrow> MEM_POOL m (addr m (extent xs)) = Some (self_addr m)"
  by (cases ys) (use core_end(2) [of m xs] core_used(2) [of m xs] in auto)

lemma block_addr:
  assumes c: "core m (xs @ b # ys)"
  shows "addr m (extent xs + 16) AND 7 = 0" "addr m (extent xs + 16) mod 8 = 0" "heap_ptr m \<le> addr m (extent xs + 16)"
    "addr m (extent xs + 16) < heap_end m" "addr m (extent xs + 16) - 16 = addr m (extent xs)"
    "addr m (extent xs + 16) \<noteq> 0"
proof -
  have "8 dvd extent xs + 16" using core_dvd [OF c] by simp
  moreover have "heap_ptr m AND 7 = 0" using c by (simp add: core_def)
  ultimately show "addr m (extent xs + 16) AND 7 = 0" "addr m (extent xs + 16) mod 8 = 0" using addr_aligned by blast+
  have "0 < blen b" using c by (simp add: core_def)
  then have lt: "extent xs + 16 < extent (xs @ b # ys)" by simp
  have bd: "unat (heap_ptr m) + extent (xs @ b # ys) < 2 ^ 32" by (rule core_addr [OF c]) simp
  then show "addr m (extent xs + 16) < heap_end m" using lt c addr_order(2) [of m "extent xs + 16" "extent (xs @ b # ys)"] by (simp add: core_def)
  show "heap_ptr m \<le> addr m (extent xs + 16)" using bd lt addr_order(3) [of m 0 "extent xs + 16"] by simp
  show "addr m (extent xs + 16) - 16 = addr m (extent xs)" by simp
  have "unat (addr m (extent xs + 16)) = unat (heap_ptr m) + (extent xs + 16)"
    using bd lt by (simp add: unat_add_small unat_of_nat32 del: of_nat_add)
  then show "addr m (extent xs + 16) \<noteq> 0" by (metis add_eq_0_iff_both_eq_0 unat_0 zero_neq_numeral)
qed

lemma no_adj_plug:
  assumes "no_adj (xs @ Used d # ys)"
  shows "no_adj (plug xs k ys)"
  using assms
  by (cases xs rule: rev_exhaust; cases "(xs, k, ys)" rule: plug.cases)
    (auto simp: no_adj_def join_back_def successively_append_iff successively_Cons)

lemma used_size_plug [simp]: "used_size (plug xs k ys) = used_size xs + used_size ys"
proof -
  have "used_size (join_back xs j) = used_size xs" for j
    by (cases xs rule: rev_exhaust) (auto simp: join_back_def elim!: is_free.elims)
  then show ?thesis by (cases "(xs, k, ys)" rule: plug.cases) auto
qed

lemma free_lfree:
  assumes c: "core m (xs @ Used d # ys)" and "0 < length d"
  shows "(if addr m (extent xs) < lfree m then addr m (extent xs) else lfree m) = addr m (free_off (xs @ Free k # ys))"
proof -
  define f where "f = free_off (xs @ Used d # ys)"
  have "addr m (extent xs) < addr m f \<longleftrightarrow> extent xs < f"
    using free_off_le [of "xs @ Used d # ys"] by (intro core_distinct(2) [OF c]) (simp_all add: f_def)
  then have lt: "addr m (extent xs) < lfree m \<longleftrightarrow> extent xs < f" using c by (simp add: core_def f_def)
  show ?thesis
  proof (cases "\<exists>b \<in> set xs. is_free b")
    case True
    then have "f = free_off xs" "free_off (xs @ Free k # ys) = free_off xs" by (simp_all add: f_def free_off_append)
    moreover have "\<not> extent xs < f" using calculation free_off_le [of xs] by simp
    ultimately show ?thesis using lt c by (simp add: core_def f_def)
  next
    case False
    then have "extent xs < f" "free_off (xs @ Free k # ys) = extent xs" by (simp_all add: f_def free_off_append)
    then show ?thesis using lt by simp
  qed
qed

lemma free_law:
  assumes inv: "smem_inv m (xs @ Used d # ys)"
  shows "\<exists>m'. rt_smem_free (Some (addr m (extent xs + 16))) m = Some m' \<and> same_heap m m' \<and> mem_max m' = mem_max m
    \<and> smem_inv m' (plug xs (length d) ys)"
proof -
  have c: "core m (xs @ Used d # ys)" and na: "no_adj (xs @ Used d # ys)" and cnt: "counted m (xs @ Used d # ys)"
    using inv by (simp_all add: smem_inv_def)
  define P where "P = extent xs"
  define Q where "Q = P + 16 + length d"
  note ba = block_addr [OF c, folded P_def] and cu = core_used [OF c, folded P_def]
  have d: "0 < length d" "self_addr m \<noteq> 0" "is_object m" using c by (simp_all add: core_def)
  have "MEM_POOL m (addr m Q) = Some (self_addr m)"
    using core_pool [of m "xs @ [Used d]" ys] c by (simp add: P_def Q_def add.assoc)
  then have pq: "MEM_POOL m (item_at m (of_nat Q)) = Some (self_addr m)" by (simp add: item_at_def)
  have nx: "get_next m (addr m P) = Some (of_nat Q)" using cu(3) by (simp add: Q_def)
  define h where "h = hput (heap m) P (MEM_FREED (self_addr m))"
  have sp: "set_pool (addr m P) (MEM_FREED (self_addr m)) m = Some (m\<lparr>heap := h\<rparr>)"
    and c1: "core (m\<lparr>heap := h, lfree := addr m (free_off (xs @ Free (length d) # ys))\<rparr>) (xs @ Free (length d) # ys)"
    using core_retag [OF c, of "Free (length d)"] by (simp_all add: h_def P_def)
  define u where "u = mem_used m - (of_nat Q - of_nat P)"
  define m2 where "m2 = m\<lparr>heap := h, lfree := addr m (free_off (xs @ Free (length d) # ys)), mem_used := u\<rparr>"
  have c2: "core m2 (xs @ Free (length d) # ys)" using c1 by (simp add: m2_def)
  have nx2: "get_next (m\<lparr>heap := h\<rparr>) (addr m P) = Some (of_nat Q)" using core_used(3) [OF c1] by (simp add: P_def Q_def)
  obtain m' where m': "plug_holes (addr m P) m2 = Some m'" "same_heap m2 m'" "mem_used m' = u" "mem_max m' = mem_max m"
    "core m' (plug xs (length d) ys)"
    using plug_holes_law [OF c2] by (auto simp: m2_def P_def)
  have "rt_smem_free (Some (addr m (P + 16))) m = plug_holes (addr m P)
      (let m = (if addr m P < lfree m then m\<lparr>heap := h, lfree := addr m P\<rparr> else m\<lparr>heap := h\<rparr>) in m\<lparr>mem_used := mem_used m - (of_nat Q - of_nat P)\<rparr>)"
    using ba cu(1,2) d pq nx sp nx2 by (simp add: rt_smem_free_def Let_def item_at_def)
  also have "(let m = (if addr m P < lfree m then m\<lparr>heap := h, lfree := addr m P\<rparr> else m\<lparr>heap := h\<rparr>) in m\<lparr>mem_used := mem_used m - (of_nat Q - of_nat P)\<rparr>) = m2"
    using free_lfree [OF c d(1), of "length d"] by (auto simp: m2_def u_def P_def Let_def)
  finally have "rt_smem_free (Some (addr m (P + 16))) m = Some m'" using m'(1) by simp
  moreover have "counted m' (plug xs (length d) ys)"
  proof -
    have "of_nat Q - of_nat P = (of_nat (16 + length d) :: u32)" by (simp add: Q_def)
    moreover have "unat (of_nat (16 + length d) :: u32) = 16 + length d" using c core_small [OF c] by (intro unat_of_nat32) (simp add: core_def)
    ultimately have "unat u = used_size xs + used_size ys" using cnt by (simp add: u_def counted_def unat_minus_le)
    moreover from this have "u \<le> mem_max m" using cnt by (simp add: counted_def word_le_nat_alt)
    ultimately show ?thesis using m' by (simp add: counted_def)
  qed
  moreover have "same_heap m m'" using m'(2) by (auto simp: m2_def same_heap_def)
  ultimately show ?thesis using m' no_adj_plug [OF na] by (auto simp: smem_inv_def P_def)
qed

section \<open>Allocation\<close>

lemma add_used_simps [simp]:
  "heap (add_used n m) = heap m" "heap_ptr (add_used n m) = heap_ptr m" "heap_end (add_used n m) = heap_end m"
  "self_addr (add_used n m) = self_addr m" "lfree (add_used n m) = lfree m" "same_heap m (add_used n m)"
  "core (add_used n m) bs = core m bs" "mem_used (add_used n m) = mem_used m + n" "mem_used (add_used n m) \<le> mem_max (add_used n m)"
  by (auto simp: add_used_def Let_def core_def same_heap_def)

lemma core_lfree_ok:
  assumes "core m bs"
  shows "\<exists>u. MEM_ISUSED m (lfree m) = Some u \<and> (lfree m = heap_end m \<or> \<not> u)"
proof -
  have lf: "lfree m = addr m (free_off bs)" using assms by (simp add: core_def)
  show ?thesis
  proof (cases "\<exists>b \<in> set bs. is_free b")
    case True
    then obtain xs k ys where bs: "bs = xs @ Free k # ys" "\<forall>b \<in> set xs. \<not> is_free b"
      using split_list_first_prop [of bs is_free] by (metis is_free.elims(2))
    then have "free_off bs = extent xs" by (auto simp: free_off_append)
    then show ?thesis using core_used(1) [OF assms [unfolded bs(1)]] lf by auto
  next
    case False
    then have "free_off bs = extent bs" using free_off_append [of bs "[]"] by auto
    then show ?thesis using core_end(1) [OF assms] lf assms by (auto simp: core_def)
  qed
qed

text \<open>Marking a free block as used, with \<open>lfree\<close> moved on when it was the first one.\<close>

lemma take_block:
  assumes c: "core m (xs @ Free k # ys)" and P: "P = extent xs"
  shows "\<exists>m3 m' d. set_pool (addr m P) (MEM_USED (self_addr m)) m = Some m3 \<and>
      (if addr m P = lfree m3
       then do { m \<leftarrow> lfree_loop m3; used \<leftarrow> MEM_ISUSED m (lfree m); if lfree m = heap_end m \<or> \<not> used then Some m else None }
       else Some m3) = Some m'
    \<and> length d = k \<and> core m' (xs @ Used d # ys) \<and> same_heap m m' \<and> mem_used m' = mem_used m \<and> mem_max m' = mem_max m"
proof -
  define d where "d = take k (drop (P + 16) (heap m))"
  have len: "length d = k" using c by (simp add: d_def core_def P)
  define h where "h = hput (heap m) P (MEM_USED (self_addr m))"
  define m3 where "m3 = m\<lparr>heap := h\<rparr>"
  define m4 where "m4 = m3\<lparr>lfree := addr m (free_off (xs @ Used d # ys))\<rparr>"
  have sp: "set_pool (addr m P) (MEM_USED (self_addr m)) m = Some m3" and c4: "core m4 (xs @ Used d # ys)"
    using core_retag [OF c, of "Used d"] len by (simp_all add: h_def m3_def m4_def P d_def)
  have lf: "lfree m3 = addr m (free_off (xs @ Free k # ys))" using c by (simp add: core_def m3_def)
  have rest: "(if addr m P = lfree m3
      then do { m \<leftarrow> lfree_loop m3; used \<leftarrow> MEM_ISUSED m (lfree m); if lfree m = heap_end m \<or> \<not> used then Some m else None }
      else Some m3) = Some m4"
  proof (cases "\<exists>b \<in> set xs. is_free b")
    case True
    then have "free_off (xs @ Free k # ys) = free_off xs" "free_off xs < P" "free_off (xs @ Used d # ys) = free_off xs"
      using free_off_less by (simp_all add: free_off_append P)
    moreover have "addr m P = addr m (free_off xs) \<longleftrightarrow> P = free_off xs"
      using calculation(2) by (intro core_distinct(1) [OF c]) (simp_all add: P)
    ultimately show ?thesis using lf by (simp add: m4_def m3_def)
  next
    case False
    then have f: "free_off (xs @ Free k # ys) = P" "free_off (xs @ Used d # ys) = extent xs + free_off (Used d # ys)"
      by (simp_all add: free_off_append P)
    have "lfree_loop m3 = Some (m3\<lparr>lfree := addr m3 (extent xs + free_off (Used d # ys))\<rparr>)"
      using c4 lf f(1) by (intro lfree_loop_law) (simp_all add: m4_def m3_def P)
    then have "lfree_loop m3 = Some m4" using f(2) by (simp add: m4_def m3_def)
    then show ?thesis using core_lfree_ok [OF c4] lf f(1) by auto
  qed
  have "same_heap m m4" "mem_used m4 = mem_used m" "mem_max m4 = mem_max m" by (simp_all add: m4_def m3_def same_heap_def)
  then show ?thesis using sp rest len c4 by (intro exI [of _ m3] exI [of _ m4] exI [of _ d]) simp
qed

definition carve :: "nat \<Rightarrow> nat \<Rightarrow> bytes \<Rightarrow> block list" where
  "carve k n d = (if n + 32 \<le> k then [Used d, Free (k - n - 16)] else [Used d])"

lemma alloc_item_law:
  assumes inv: "smem_inv m (xs @ Free k # ys)" and n: "n = unat sz" "8 dvd n" "0 < n" "n \<le> k"
  shows "\<exists>m' d. alloc_item sz (of_nat (extent xs)) m = Some (m', addr m (extent xs + 16)) \<and> same_heap m m'
    \<and> smem_inv m' (xs @ carve k n d @ ys) \<and> length d = (if n + 32 \<le> k then n else k)"
proof -
  have c: "core m (xs @ Free k # ys)" and na: "no_adj (xs @ Free k # ys)" and cnt: "counted m (xs @ Free k # ys)"
    using inv by (simp_all add: smem_inv_def)
  define P where "P = extent xs"
  have nx: "get_next m (addr m P) = Some (of_nat (P + 16 + k))" using core_used(3) [OF c] by (simp add: P_def)
  have small: "k + 32 < 2 ^ 32" using c by (simp add: core_def)
  have diff: "of_nat (P + 16 + k) - (of_nat P + 16) = (of_nat k :: u32)" by simp
  have diff': "of_nat (P + 16 + k) - (addr m P - heap_ptr m) = (of_nat (16 + k) :: u32)" by simp
  have "unat (32 + sz) = n + 32" "unat (of_nat k :: u32) = k" using n small by (simp_all add: unat_of_nat32 unat_add_small)
  then have big: "sz + 16 + 16 \<le> of_nat k \<longleftrightarrow> n + 32 \<le> k" by (simp add: word_le_nat_alt)
  define k1 where "k1 = (if n + 32 \<le> k then n else k)"
  define ys1 where "ys1 = (if n + 32 \<le> k then Free (k - n - 16) # ys else ys)"
  obtain m1 where m1: "(if sz + 16 + 16 \<le> (of_nat k :: u32)
        then map_option (add_used (sz + 16)) (split_item (addr m P) (of_nat P) (of_nat P + 16 + sz) m)
        else Some (add_used (of_nat (16 + k)) m)) = Some (add_used (of_nat (16 + k1)) m1)"
    "core m1 (xs @ Free k1 # ys1)" "same_heap m m1" "mem_used m1 = mem_used m"
  proof (cases "n + 32 \<le> k")
    case True
    obtain h where h: "split_item (addr m P) (of_nat P) (of_nat (P + 16 + n)) m = Some (m\<lparr>heap := h\<rparr>)"
      "core (m\<lparr>heap := h, lfree := addr m (free_off (xs @ [Free n, Free (k - n - 16)] @ ys))\<rparr>) (xs @ [Free n, Free (k - n - 16)] @ ys)"
      using core_split [OF c, of n] n True by (auto simp: P_def simp del: of_nat_add)
    have "lfree m = addr m (free_off (xs @ [Free n, Free (k - n - 16)] @ ys))" using c by (simp add: core_def free_off_append)
    then have "core (m\<lparr>heap := h, lfree := lfree m\<rparr>) (xs @ [Free n, Free (k - n - 16)] @ ys)" using h(2) by (simp only:)
    moreover have "of_nat (P + 16 + n) = of_nat P + 16 + sz" "of_nat (16 + n) = sz + 16" using n(1) by (simp_all add: add.commute)
    ultimately show ?thesis using that [of "m\<lparr>heap := h\<rparr>"] True h(1) big by (simp add: k1_def ys1_def add.commute [of sz])
  next
    case False
    then show ?thesis using that [of m] c big by (simp add: k1_def ys1_def)
  qed
  define m2 where "m2 = add_used (of_nat (16 + k1)) m1"
  have c2: "core m2 (xs @ Free k1 # ys1)" and s2: "same_heap m m2" using m1 same_heap_trans by (auto simp: m2_def)
  have hp: "heap_ptr m2 = heap_ptr m" "self_addr m2 = self_addr m" "heap_end m2 = heap_end m" using s2 by (simp_all add: same_heap_def)
  obtain m3 m' d where m3: "set_pool (addr m P) (MEM_USED (self_addr m)) m2 = Some m3"
    "(if addr m P = lfree m3
       then do { m \<leftarrow> lfree_loop m3; used \<leftarrow> MEM_ISUSED m (lfree m); if lfree m = heap_end m \<or> \<not> used then Some m else None }
       else Some m3) = Some m'"
    and m': "length d = k1" "core m' (xs @ Used d # ys1)" "same_heap m2 m'" "mem_used m' = mem_used m2" "mem_max m' = mem_max m2"
    using take_block [OF c2 P_def] hp by auto
  have "heap_end m' = heap_end m" using m'(3) hp by (simp add: same_heap_def)
  moreover have "addr m P + 16 + sz \<le> heap_end m"
  proof -
    have "unat (heap_ptr m) + extent (xs @ Free k # ys) < 2 ^ 32" by (rule core_addr [OF c]) simp
    then have "addr m (P + 16 + n) \<le> addr m (extent (xs @ Free k # ys))" using n(4) by (subst addr_order) (simp_all add: P_def)
    then show ?thesis using c n(1) by (simp add: core_def add.assoc)
  qed
  moreover have "addr m P AND 7 = 0" "(addr m P + 16) mod 8 = 0" using c core_dvd [OF c] addr_aligned [of m P] block_addr(2) [OF c]
    by (simp_all add: P_def core_def add.assoc)
  ultimately have "alloc_item sz (of_nat P) m = Some (m', addr m P + 16)"
    unfolding alloc_item_def item_at_def Let_def nx Option.bind.bind_lunit smem_consts diff diff' m1(1) m2_def [symmetric] hp m3
    by simp
  moreover have "xs @ carve k n d @ ys = xs @ Used d # ys1" by (simp add: carve_def ys1_def)
  moreover have "smem_inv m' (xs @ Used d # ys1)"
  proof -
    have us: "used_size (xs @ Used d # ys1) = used_size (xs @ Free k # ys) + (16 + k1)" using m'(1) by (simp add: ys1_def)
    moreover have lt: "extent (xs @ Used d # ys1) < 2 ^ 32" using m'(2) by (simp add: core_def)
    ultimately have bd: "used_size (xs @ Free k # ys) + (16 + k1) < 2 ^ 32" using used_size_le [of "xs @ Used d # ys1"] by simp
    then have "unat (of_nat (16 + k1) :: u32) = 16 + k1" by (intro unat_of_nat32) simp
    then have "unat (mem_used m2) = used_size (xs @ Used d # ys1)"
      using cnt us bd m1(4) by (simp add: m2_def counted_def unat_add_small del: of_nat_add)
    moreover have "mem_used m2 \<le> mem_max m2" unfolding m2_def by (rule add_used_simps)
    ultimately have "counted m' (xs @ Used d # ys1)" using m'(4,5) by (simp add: counted_def)
    moreover have "no_adj (xs @ Used d # ys1)"
      using na by (auto simp: no_adj_def ys1_def successively_append_iff successively_Cons)
    ultimately show ?thesis using m'(2) by (simp add: smem_inv_def)
  qed
  moreover have "same_heap m m'" using same_heap_trans [OF s2 m'(3)] .
  ultimately show ?thesis using m'(1) by (intro exI [of _ m'] exI [of _ d]) (simp add: P_def k1_def add.assoc)
qed

text \<open>The blocks that the search passes over.\<close>

fun fits :: "nat \<Rightarrow> block \<Rightarrow> bool" where
  "fits n (Used _) = False"
| "fits n (Free k) \<longleftrightarrow> n \<le> k"

lemma alloc_loop_skip:
  assumes c: "core m (xs @ b # ys)" and n: "n = unat sz" "unat sz \<le> unat (mem_size_aligned m)" and fit: "\<not> fits n b"
  shows "alloc_loop sz (of_nat (extent xs)) m
    = (if extent xs + n \<le> unat (mem_size_aligned m) then alloc_loop sz (of_nat (extent (xs @ [b]))) m else Some (m, None))"
proof -
  have e: "unat (of_nat (extent xs) :: u32) = extent xs" "unat (of_nat (blen b) :: u32) = blen b"
    using c by (auto intro!: unat_of_nat32 simp: core_def)
  have "of_nat (extent xs) \<le> mem_size_aligned m - sz \<longleftrightarrow> extent xs + n \<le> unat (mem_size_aligned m)"
    using n e by (auto simp: word_le_nat_alt unat_minus_le)
  moreover have "of_nat (extent xs + 16 + blen b) - (of_nat (extent xs) + 16) = (of_nat (blen b) :: u32)" by simp
  moreover have "is_free b \<Longrightarrow> \<not> sz \<le> (of_nat (blen b) :: u32)" using fit n e by (cases b) (simp_all add: word_le_nat_alt)
  ultimately show ?thesis
    using core_used [OF c] by (subst alloc_loop.simps) (auto simp: item_at_def add.assoc simp del: of_nat_add)
qed

lemma alloc_loop_none:
  assumes "core m (xs @ ys)" and n: "n = unat sz" "unat sz \<le> unat (mem_size_aligned m)" "0 < n" and "\<forall>b \<in> set ys. \<not> fits n b"
  shows "alloc_loop sz (of_nat (extent xs)) m = Some (m, None)"
  using assms(1,5)
proof (induction ys arbitrary: xs)
  case Nil
  then have "extent xs = unat (mem_size_aligned m) + 16" "extent xs < 2 ^ 32" by (simp_all add: core_def)
  moreover from this have "unat (of_nat (extent xs) :: u32) = extent xs" by (intro unat_of_nat32) simp
  ultimately have "\<not> of_nat (extent xs) \<le> mem_size_aligned m - sz" using n by (simp only: word_le_nat_alt unat_minus_le)
  then show ?case by (subst alloc_loop.simps) simp
next
  case (Cons b ys)
  then have "alloc_loop sz (of_nat (extent (xs @ [b]))) m = Some (m, None)" by (intro Cons.IH) simp_all
  then show ?case using alloc_loop_skip [OF Cons.prems(1) n(1,2)] Cons.prems(2) by simp
qed

lemma alloc_loop_found:
  assumes "core m (xs @ zs @ Free k # ys)" and n: "n = unat sz" "n \<le> k" and "\<forall>b \<in> set zs. \<not> fits n b"
  shows "alloc_loop sz (of_nat (extent xs)) m = map_option (\<lambda>(m, a). (m, Some a)) (alloc_item sz (of_nat (extent (xs @ zs))) m)"
  using assms(1,4)
proof (induction zs arbitrary: xs)
  case Nil
  then have c: "core m (xs @ Free k # ys)" by simp
  have e: "unat (of_nat (extent xs) :: u32) = extent xs" "unat (of_nat k :: u32) = k"
    using c by (auto intro!: unat_of_nat32 simp: core_def)
  have "of_nat (extent xs) \<le> mem_size_aligned m - sz" using c n e by (auto simp: word_le_nat_alt unat_minus_le core_def)
  moreover have "of_nat (extent xs + 16 + k) - (of_nat (extent xs) + 16) = (of_nat k :: u32)" by simp
  moreover have "sz \<le> (of_nat k :: u32)" using n e by (simp add: word_le_nat_alt)
  ultimately have "alloc_loop sz (of_nat (extent xs)) m = do { (m, a) \<leftarrow> alloc_item sz (of_nat (extent xs)) m; Some (m, Some a) }"
    using core_used [OF c] by (subst alloc_loop.simps) (simp add: item_at_def del: of_nat_add)
  then show ?case by (cases "alloc_item sz (of_nat (extent xs)) m") auto
next
  case (Cons b zs)
  have sz: "extent xs + n \<le> unat (mem_size_aligned m)" using Cons.prems(1) n by (simp add: core_def)
  have "alloc_loop sz (of_nat (extent (xs @ [b]))) m = map_option (\<lambda>(m, a). (m, Some a)) (alloc_item sz (of_nat (extent ((xs @ [b]) @ zs))) m)"
    using Cons.prems by (intro Cons.IH) simp_all
  then show ?case using alloc_loop_skip [of m xs b "zs @ Free k # ys" n sz] Cons.prems n(1) sz by simp
qed

definition req :: "u32 \<Rightarrow> nat" where
  "req sz = max 16 (round8 (unat sz))"

lemma req_pos: "0 < req sz" "16 \<le> req sz" "unat sz \<le> req sz"
  using round8(2) [of "unat sz"] by (auto simp: req_def)

lemma alloc_enter:
  assumes "core m bs" and "sz \<noteq> 0" and "unat sz + 7 < 2 ^ 32"
  shows "rt_smem_alloc sz m =
    (if req sz \<le> unat (mem_size_aligned m) then alloc_loop (of_nat (req sz)) (of_nat (free_off bs)) m else Some (m, None))"
    and "unat (of_nat (req sz) :: u32) = req sz" and "8 dvd req sz"
proof -
  have r: "round8 (unat sz) < 2 ^ 32" using assms(3) unat_RT_ALIGN [of sz] unat_bound32 [of "RT_ALIGN sz 8"] by simp
  then show u: "unat (of_nat (req sz) :: u32) = req sz" by (intro unat_of_nat32) (simp add: req_def)
  show "8 dvd req sz" using round8(1) [of "unat sz"] by (simp add: req_def max_def)
  have "unat (if RT_ALIGN sz 8 < 16 then 16 else RT_ALIGN sz 8) = req sz"
    using unat_RT_ALIGN [OF assms(3)] by (simp add: req_def word_less_nat_alt max_def)
  then have "(if RT_ALIGN sz 8 < 16 then 16 else RT_ALIGN sz 8) = of_nat (req sz)" by (rule unat_eq_of_nat)
  moreover have "lfree m - heap_ptr m = of_nat (free_off bs)" "is_object m" using assms(1) by (simp_all add: core_def)
  moreover have "(of_nat (req sz) > mem_size_aligned m) = (\<not> req sz \<le> unat (mem_size_aligned m))" by (auto simp: word_less_nat_alt u)
  ultimately show "rt_smem_alloc sz m =
    (if req sz \<le> unat (mem_size_aligned m) then alloc_loop (of_nat (req sz)) (of_nat (free_off bs)) m else Some (m, None))"
    using assms(2) unfolding rt_smem_alloc_def smem_consts Let_def by simp
qed

lemma alloc_none:
  assumes "core m bs" and "sz \<noteq> 0" and "unat sz + 7 < 2 ^ 32" and "\<forall>b \<in> set bs. \<not> fits (req sz) b"
  shows "rt_smem_alloc sz m = Some (m, None)"
proof (cases "req sz \<le> unat (mem_size_aligned m)")
  case True
  let ?us = "takeWhile (\<lambda>b. \<not> is_free b) bs" and ?vs = "dropWhile (\<lambda>b. \<not> is_free b) bs"
  have "alloc_loop (of_nat (req sz)) (of_nat (extent ?us)) m = Some (m, None)"
    using assms True alloc_enter(2) [OF assms(1-3)]
    by (intro alloc_loop_none [where ys = ?vs and n = "req sz"]) (auto simp: req_def dest: set_dropWhileD)
  then show ?thesis using alloc_enter(1) [OF assms(1-3)] True by (simp add: free_off_def)
qed (simp add: alloc_enter(1) [OF assms(1-3)])

lemma alloc_some:
  assumes inv: "smem_inv m (xs @ Free k # ys)" and "sz \<noteq> 0" and "unat sz + 7 < 2 ^ 32"
    and fit: "\<forall>b \<in> set xs. \<not> fits (req sz) b" "req sz \<le> k"
  shows "\<exists>m' d. rt_smem_alloc sz m = Some (m', Some (addr m (extent xs + 16))) \<and> same_heap m m'
    \<and> smem_inv m' (xs @ carve k (req sz) d @ ys) \<and> length d = (if req sz + 32 \<le> k then req sz else k)"
proof -
  have c: "core m (xs @ Free k # ys)" using inv by (simp add: smem_inv_def)
  note en = alloc_enter [OF c assms(2,3)]
  have le: "req sz \<le> unat (mem_size_aligned m)" using c fit(2) by (simp add: core_def)
  let ?us = "takeWhile (\<lambda>b. \<not> is_free b) xs" and ?vs = "dropWhile (\<lambda>b. \<not> is_free b) xs"
  have off: "free_off (xs @ Free k # ys) = extent ?us"
    unfolding free_off_append by (auto simp: free_off_def takeWhile_eq_all_conv [THEN iffD2])
  have "core m (?us @ ?vs @ Free k # ys)" using c by (simp flip: append_assoc)
  then have "alloc_loop (of_nat (req sz)) (of_nat (extent ?us)) m
      = map_option (\<lambda>(m, a). (m, Some a)) (alloc_item (of_nat (req sz)) (of_nat (extent (?us @ ?vs))) m)"
    using fit en(2) by (intro alloc_loop_found [where n = "req sz" and ys = ys and k = k]) (auto dest: set_dropWhileD)
  moreover obtain m' d where "alloc_item (of_nat (req sz)) (of_nat (extent xs)) m = Some (m', addr m (extent xs + 16))" "same_heap m m'"
    "smem_inv m' (xs @ carve k (req sz) d @ ys)" "length d = (if req sz + 32 \<le> k then req sz else k)"
    using alloc_item_law [OF inv en(2) [symmetric] en(3) req_pos(1) fit(2)] by blast
  ultimately show ?thesis using en(1) le off by auto
qed

end
