(* ===== verification/Small_Mem_Main.thy ===== *)
theory Small_Mem_Main
  imports Small_Mem_Ops
begin

text \<open>
  The heap as its callers see it: a map from the offsets of the allocated objects to their bytes, and what
  allocation, release, reallocation, initialisation and a write into an object do to this map.
\<close>

unbundle bit_operations_syntax

section \<open>The allocated objects\<close>

fun objs_of :: "nat \<Rightarrow> block list \<Rightarrow> nat \<Rightarrow> bytes option" where
  "objs_of p [] = Map.empty"
| "objs_of p (Used d # bs) = (objs_of (p + 16 + length d) bs)(p + 16 \<mapsto> d)"
| "objs_of p (Free k # bs) = objs_of (p + 16 + k) bs"

lemma objs_of_low: "a < p + 16 \<Longrightarrow> objs_of p bs a = None"
  by (induction p bs rule: objs_of.induct) auto

lemma objs_of_append: "objs_of p (xs @ ys) a = (if a < p + extent xs + 16 then objs_of p xs a else objs_of (p + extent xs) ys a)"
proof (induction p xs rule: objs_of.induct)
  case (1 p)
  then show ?case by (simp add: objs_of_low)
next
  case (2 p d bs)
  then show ?case by (auto simp: add.assoc objs_of_low)
next
  case (3 p k bs)
  then show ?case by (auto simp: add.assoc objs_of_low)
qed

lemma objs_of_cong: "objs_of (p + extent xs) us = objs_of (p + extent xs) vs \<Longrightarrow> objs_of p (xs @ us) = objs_of p (xs @ vs)"
  by (rule ext) (simp add: objs_of_append)

lemma objs_of_used: "objs_of p (xs @ Used d # ys) = (objs_of p (xs @ Free (length d) # ys))(p + extent xs + 16 \<mapsto> d)"
  by (rule ext) (auto simp: objs_of_append)

lemma objs_of_gap: "objs_of p (xs @ Free k # ys) (p + extent xs + 16) = None"
  by (simp add: objs_of_append objs_of_low)

lemma objs_of_plug: "objs_of 0 (plug xs k ys) = objs_of 0 (xs @ Free k # ys)"
proof -
  have jb: "objs_of 0 (join_back xs j @ zs) = objs_of 0 (xs @ Free j # zs)" for j zs
  proof (cases xs rule: rev_exhaust)
    case (snoc us b)
    then show ?thesis by (cases b) (auto simp: join_back_def add.assoc intro!: objs_of_cong)
  qed (simp add: join_back_def)
  show ?thesis using jb [of k "[]"] by (cases "(xs, k, ys)" rule: plug.cases) (auto simp: jb add.assoc intro!: objs_of_cong)
qed

lemma objs_of_carve:
  assumes "length d = (if n + 32 \<le> k then n else k)"
  shows "objs_of 0 (xs @ carve k n d @ ys) = (objs_of 0 (xs @ Free k # ys))(extent xs + 16 \<mapsto> d)"
proof -
  have "objs_of 0 (xs @ carve k n d @ ys) = objs_of 0 (xs @ Used d # (if n + 32 \<le> k then [Free (k - n - 16)] else []) @ ys)"
    by (simp add: carve_def)
  also have "\<dots> = (objs_of 0 (xs @ Free (length d) # (if n + 32 \<le> k then [Free (k - n - 16)] else []) @ ys))(extent xs + 16 \<mapsto> d)"
    by (simp add: objs_of_used)
  also have "objs_of 0 (xs @ Free (length d) # (if n + 32 \<le> k then [Free (k - n - 16)] else []) @ ys) = objs_of 0 (xs @ Free k # ys)"
    using assms by (intro objs_of_cong) (simp add: ac_simps)
  finally show ?thesis .
qed

lemma objs_of_split:
  "objs_of p bs a = Some d \<Longrightarrow> \<exists>xs ys. bs = xs @ Used d # ys \<and> a = p + extent xs + 16"
proof (induction p bs rule: objs_of.induct)
  case (2 p e bs)
  show ?case
  proof (cases "a = p + 16")
    case True
    then show ?thesis using 2 by (intro exI [of _ "[]"] exI [of _ bs]) simp
  next
    case False
    then obtain xs ys where "bs = xs @ Used d # ys" "a = p + 16 + length e + extent xs + 16" using 2 by auto
    then show ?thesis by (intro exI [of _ "Used e # xs"] exI [of _ ys]) simp
  qed
next
  case (3 p k bs)
  then obtain xs ys where "bs = xs @ Used d # ys" "a = p + 16 + k + extent xs + 16" by auto
  then show ?case by (intro exI [of _ "Free k # xs"] exI [of _ ys]) simp
qed simp

definition heap_rel :: "rt_small_mem \<Rightarrow> (nat \<Rightarrow> bytes option) \<Rightarrow> bool" where
  "heap_rel m ob \<longleftrightarrow> (\<exists>bs. smem_inv m bs \<and> objs_of 0 bs = ob)"

lemma heap_rel_split:
  assumes "heap_rel m ob" and "ob a = Some d"
  obtains xs ys where "smem_inv m (xs @ Used d # ys)" "a = extent xs + 16" "ob = objs_of 0 (xs @ Used d # ys)"
proof -
  obtain bs where bs: "smem_inv m bs" "objs_of 0 bs = ob" using assms(1) by (auto simp: heap_rel_def)
  then obtain xs ys where "bs = xs @ Used d # ys" "a = extent xs + 16" using objs_of_split [of 0 bs a d] assms(2) by auto
  then show thesis using that bs by blast
qed

text \<open>The objects lie in the heap, are aligned and do not overlap.\<close>

lemma heap_rel_inside:
  assumes "heap_rel m ob" and "ob a = Some d"
  shows "8 dvd a" "16 \<le> a" "a + length d + 16 \<le> length (heap m)" "take (length d) (drop a (heap m)) = d" "length (heap m) < 2 ^ 32"
proof -
  obtain xs ys where x: "smem_inv m (xs @ Used d # ys)" "a = extent xs + 16" using heap_rel_split [OF assms] .
  then have c: "core m (xs @ Used d # ys)" by (simp add: smem_inv_def)
  then show "8 dvd a" using core_dvd [OF c] x(2) by simp
  show "16 \<le> a" "a + length d + 16 \<le> length (heap m)" "take (length d) (drop a (heap m)) = d" "length (heap m) < 2 ^ 32"
    using c x(2) by (simp_all add: core_def)
qed

lemma heap_rel_disjoint:
  assumes "heap_rel m ob" and "ob a = Some d" and "ob b = Some e" and "a < b"
  shows "a + length d + 16 \<le> b"
proof -
  obtain xs ys where x: "a = extent xs + 16" "ob = objs_of 0 (xs @ Used d # ys)" using heap_rel_split [OF assms(1,2)] .
  then have "objs_of (a + length d) ys b = Some e" using assms(3,4) by (simp add: objs_of_append)
  then show ?thesis using objs_of_low [of b "a + length d" ys] by (cases "b < a + length d + 16") auto
qed

section \<open>The operations on the objects\<close>

lemma first_fit:
  assumes "\<exists>b \<in> set bs. fits n b"
  obtains xs k ys where "bs = xs @ Free k # ys" "n \<le> k" "\<forall>b \<in> set xs. \<not> fits n b"
proof -
  obtain xs b ys where "bs = xs @ b # ys" "fits n b" "\<forall>c \<in> set xs. \<not> fits n c" using split_list_first_prop [OF assms] by blast
  then show thesis using that by (cases b) auto
qed

lemma heap_alloc_law:
  assumes rel: "heap_rel m ob" and sz: "sz \<noteq> 0" "unat sz + 7 < 2 ^ 32"
  shows "rt_smem_alloc sz m = Some (m, None) \<and> (\<forall>bs. smem_inv m bs \<longrightarrow> (\<forall>b \<in> set bs. \<not> fits (req sz) b))
    \<or> (\<exists>m' a d. rt_smem_alloc sz m = Some (m', Some (addr m a)) \<and> same_heap m m' \<and> heap_rel m' (ob(a \<mapsto> d))
          \<and> ob a = None \<and> unat sz \<le> length d \<and> 16 \<le> length d \<and> length d < req sz + 32)"
proof -
  obtain bs where bs: "smem_inv m bs" "objs_of 0 bs = ob" using rel by (auto simp: heap_rel_def)
  show ?thesis
  proof (cases "\<exists>b \<in> set bs. fits (req sz) b")
    case True
    then obtain xs k ys where k: "bs = xs @ Free k # ys" "req sz \<le> k" "\<forall>c \<in> set xs. \<not> fits (req sz) c" by (rule first_fit)
    then obtain m' d where m': "rt_smem_alloc sz m = Some (m', Some (addr m (extent xs + 16)))" "same_heap m m'"
      "smem_inv m' (xs @ carve k (req sz) d @ ys)" and d: "length d = (if req sz + 32 \<le> k then req sz else k)"
      using alloc_some [of m xs k ys sz] bs(1) sz by blast
    have "heap_rel m' (ob(extent xs + 16 \<mapsto> d))" using m'(3) objs_of_carve [OF d, of xs ys] k(1) bs(2) by (auto simp: heap_rel_def)
    moreover have "ob (extent xs + 16) = None" using objs_of_gap [of 0 xs k ys] k(1) bs(2) by simp
    moreover have "req sz \<le> length d" using d k(2) by simp
    then have "unat sz \<le> length d" "16 \<le> length d" using req_pos(2,3) [of sz] by simp_all
    moreover have "length d < req sz + 32" using d by simp
    ultimately show ?thesis using m'(1,2) by blast
  next
    case False
    then have none: "rt_smem_alloc sz m = Some (m, None)" using alloc_none [of m bs sz] bs(1) sz by (auto simp: smem_inv_def)
    have "\<forall>b \<in> set cs. \<not> fits (req sz) b" if "smem_inv m cs" for cs
    proof (rule ccontr)
      assume "\<not> (\<forall>b \<in> set cs. \<not> fits (req sz) b)"
      then obtain xs k ys where "cs = xs @ Free k # ys" "req sz \<le> k" "\<forall>c \<in> set xs. \<not> fits (req sz) c"
        using first_fit [of cs "req sz"] by blast
      then show False using alloc_some [of m xs k ys sz] \<open>smem_inv m cs\<close> sz none by auto
    qed
    then show ?thesis using none by blast
  qed
qed

lemma heap_free_law:
  assumes "heap_rel m ob" and "ob a = Some d"
  shows "\<exists>m'. rt_smem_free (Some (addr m a)) m = Some m' \<and> same_heap m m' \<and> heap_rel m' (ob(a := None))"
proof -
  obtain xs ys where x: "smem_inv m (xs @ Used d # ys)" "a = extent xs + 16" "ob = objs_of 0 (xs @ Used d # ys)"
    using heap_rel_split [OF assms] .
  obtain m' where "rt_smem_free (Some (addr m a)) m = Some m'" "same_heap m m'" "smem_inv m' (plug xs (length d) ys)"
    using free_law [OF x(1)] x(2) by blast
  moreover have "objs_of 0 (plug xs (length d) ys) = ob(a := None)"
    using objs_of_gap [of 0 xs "length d" ys] by (auto simp: objs_of_plug x(2,3) objs_of_used)
  ultimately show ?thesis by (auto simp: heap_rel_def)
qed

text \<open>A caller that writes inside its object.\<close>

lemma slice_patch_in:
  assumes "off + length ws \<le> n" and "a + n \<le> length h"
  shows "take n (drop a (patch_at h (a + off) ws)) = patch_at (take n (drop a h)) off ws"
proof (rule nth_equalityI)
  show "length (take n (drop a (patch_at h (a + off) ws))) = length (patch_at (take n (drop a h)) off ws)" using assms by simp
next
  fix i
  assume "i < length (take n (drop a (patch_at h (a + off) ws)))"
  then have i: "i < n" "a + i < length h" using assms by auto
  have "patch_at h (a + off) ws ! (a + i) = (if off \<le> i \<and> i < off + length ws then ws ! (i - off) else h ! (a + i))"
    using nth_patch_at [of "a + off" ws h "a + i"] assms i by auto
  moreover have "patch_at (take n (drop a h)) off ws ! i = (if off \<le> i \<and> i < off + length ws then ws ! (i - off) else h ! (a + i))"
    using nth_patch_at [of off ws "take n (drop a h)" i] assms i by auto
  ultimately show "take n (drop a (patch_at h (a + off) ws)) ! i = patch_at (take n (drop a h)) off ws ! i" using assms i by simp
qed

lemma core_store:
  assumes c: "core m (xs @ Used d # ys)" and off: "off + length ws \<le> length d"
  shows "core (m\<lparr>heap := patch_at (heap m) (extent xs + 16 + off) ws\<rparr>) (xs @ Used (patch_at d off ws) # ys)"
proof -
  define a where "a = extent xs + 16 + off"
  define h where "h = patch_at (heap m) a ws"
  have le: "a + length ws \<le> length (heap m)" using c off by (simp add: core_def a_def)
  have w: "word_at h r = word_at (heap m) r" if "r + 4 \<le> a \<or> a + length ws \<le> r" for r
    using slice_patch [OF le that] by (simp add: word_at_def h_def)
  have "data_at h (extent xs + 16) (Used (patch_at d off ws))"
    using slice_patch_in [of off ws "length d" "extent xs + 16" "heap m"] c off by (simp add: core_def h_def a_def)
  moreover have "lay h (self_addr m) 0 0 xs" using c le by (simp add: core_def h_def lay_patch a_def)
  moreover have "lay h (self_addr m) (extent xs + 16 + length d) (extent xs) ys"
    using c le off by (simp add: core_def h_def lay_patch a_def)
  ultimately have "lay h (self_addr m) 0 0 (xs @ Used (patch_at d off ws) # ys)"
    using c off by (simp add: core_def w a_def)
  moreover have "word_at h (extent (xs @ Used d # ys)) = word_at (heap m) (extent (xs @ Used d # ys))"
    using off by (intro w) (simp add: a_def)
  moreover have "length h = length (heap m)" using le by (simp add: h_def)
  moreover have "extent (xs @ Used (patch_at d off ws) # ys) = extent (xs @ Used d # ys)" using off by simp
  moreover have "free_off (xs @ Used (patch_at d off ws) # ys) = free_off (xs @ Used d # ys)" using off by (simp add: free_off_append)
  moreover have "\<forall>b \<in> set (xs @ Used (patch_at d off ws) # ys). 8 dvd blen b \<and> 0 < blen b" using c off by (simp add: core_def)
  ultimately show ?thesis
    using c unfolding core_def h_def [symmetric] a_def [symmetric] by (simp del: lay_append extent_simps)
qed

lemma heap_store_law:
  assumes "heap_rel m ob" and "ob a = Some d" and "off + length ws \<le> length d"
  shows "mem_write (heap m) (a + off) ws = Some (patch_at (heap m) (a + off) ws)"
    and "heap_rel (m\<lparr>heap := patch_at (heap m) (a + off) ws\<rparr>) (ob(a \<mapsto> patch_at d off ws))"
proof -
  obtain xs ys where x: "smem_inv m (xs @ Used d # ys)" "a = extent xs + 16" "ob = objs_of 0 (xs @ Used d # ys)"
    using heap_rel_split [OF assms(1,2)] .
  have "a + off + length ws \<le> length (heap m)" using heap_rel_inside(3) [OF assms(1,2)] assms(3) by simp
  then show "mem_write (heap m) (a + off) ws = Some (patch_at (heap m) (a + off) ws)" by (simp add: mem_simps)
  define e where "e = patch_at d off ws"
  have e: "length e = length d" using assms(3) by (simp add: e_def)
  have "core (m\<lparr>heap := patch_at (heap m) (a + off) ws\<rparr>) (xs @ Used e # ys)"
    using core_store [of m xs d ys off ws] x(1,2) assms(3) by (simp add: smem_inv_def e_def)
  moreover have "no_adj (xs @ Used e # ys)" using x(1) by (simp add: smem_inv_def no_adj_def successively_append_iff successively_Cons)
  moreover have "counted (m\<lparr>heap := patch_at (heap m) (a + off) ws\<rparr>) (xs @ Used e # ys)" using x(1) e by (simp add: smem_inv_def counted_def)
  moreover have "objs_of 0 (xs @ Used e # ys) = ob(a \<mapsto> e)" unfolding x(2,3) objs_of_used e by simp
  ultimately show "heap_rel (m\<lparr>heap := patch_at (heap m) (a + off) ws\<rparr>) (ob(a \<mapsto> patch_at d off ws))"
    by (auto simp: heap_rel_def smem_inv_def e_def)
qed

section \<open>Reallocation\<close>

text \<open>Cutting the end off an object: the rest becomes free and is joined with its neighbour.\<close>

lemma shrink_law:
  assumes inv: "smem_inv m (xs @ Used d # ys)" and n: "8 dvd n" "0 < n" "n + 32 \<le> length d" and P: "P = extent xs"
  shows "\<exists>m' h. split_item (addr m P) (of_nat P) (of_nat (P + 16 + n)) (m\<lparr>mem_used := mem_used m - of_nat (length d - n)\<rparr>)
        = Some (m\<lparr>mem_used := mem_used m - of_nat (length d - n), heap := h\<rparr>)
    \<and> plug_holes (addr m (P + 16 + n)) (m\<lparr>mem_used := mem_used m - of_nat (length d - n), heap := h,
        lfree := (if addr m (P + 16 + n) < lfree m then addr m (P + 16 + n) else lfree m)\<rparr>) = Some m'
    \<and> same_heap m m' \<and> smem_inv m' (plug (xs @ [Used (take n d)]) (length d - n - 16) ys)"
proof -
  have c: "core m (xs @ Used d # ys)" and na: "no_adj (xs @ Used d # ys)" and cnt: "counted m (xs @ Used d # ys)"
    using inv by (simp_all add: smem_inv_def)
  define u where "u = mem_used m - of_nat (length d - n)"
  define new where "new = xs @ [Used (take n d), Free (length d - n - 16)] @ ys"
  have c1: "core (m\<lparr>mem_used := u\<rparr>) (xs @ Used d # ys)" using c by simp
  obtain h where h: "split_item (addr m P) (of_nat P) (of_nat (P + 16 + n)) (m\<lparr>mem_used := u\<rparr>) = Some (m\<lparr>mem_used := u, heap := h\<rparr>)"
    "core (m\<lparr>mem_used := u, heap := h, lfree := addr m (free_off new)\<rparr>) new"
    using core_split [OF c1, of n] n by (auto simp: P new_def simp del: of_nat_add)
  have lf: "(if addr m (P + 16 + n) < lfree m then addr m (P + 16 + n) else lfree m) = addr m (free_off new)"
  proof -
    define f where "f = free_off (xs @ Used d # ys)"
    have "addr m (P + 16 + n) < addr m f \<longleftrightarrow> P + 16 + n < f"
      using free_off_le [of "xs @ Used d # ys"] n by (intro core_distinct(2) [OF c]) (simp_all add: f_def P)
    then have lt: "addr m (P + 16 + n) < lfree m \<longleftrightarrow> P + 16 + n < f" using c by (simp add: core_def f_def)
    show ?thesis
    proof (cases "\<exists>b \<in> set xs. is_free b")
      case True
      then have "f = free_off new" "f \<le> P" using free_off_le [of xs] by (simp_all add: f_def new_def free_off_append P)
      then show ?thesis using lt c by (simp add: core_def f_def)
    next
      case False
      then have "P + 16 + n < f" "free_off new = P + 16 + n" using n by (simp_all add: f_def new_def free_off_append P)
      then show ?thesis using lt by simp
    qed
  qed
  have new: "new = (xs @ [Used (take n d)]) @ Free (length d - n - 16) # ys" "extent (xs @ [Used (take n d)]) = P + 16 + n"
    using n by (simp_all add: new_def P)
  obtain m' where m': "plug_holes (addr m (P + 16 + n)) (m\<lparr>mem_used := u, heap := h, lfree := addr m (free_off new)\<rparr>) = Some m'"
    "same_heap (m\<lparr>mem_used := u, heap := h, lfree := addr m (free_off new)\<rparr>) m'" "mem_used m' = u" "mem_max m' = mem_max m"
    "core m' (plug (xs @ [Used (take n d)]) (length d - n - 16) ys)"
    using plug_holes_law [OF h(2) [unfolded new(1)]] unfolding new(2) new(1) [symmetric] by auto
  have "counted m' (plug (xs @ [Used (take n d)]) (length d - n - 16) ys)"
  proof -
    have "length d < 4294967296" using c by (simp add: core_def)
    then have "unat (of_nat (length d - n) :: u32) = length d - n" by (intro unat_of_nat32) simp
    then have "unat u = used_size (xs @ [Used (take n d)]) + used_size ys" using cnt n by (simp add: u_def counted_def unat_minus_le)
    moreover from this have "u \<le> mem_max m" using cnt n by (simp add: counted_def word_le_nat_alt)
    ultimately show ?thesis using m' by (simp add: counted_def)
  qed
  moreover have "no_adj (plug (xs @ [Used (take n d)]) (length d - n - 16) ys)"
    using na by (intro no_adj_plug [where d = d]) (auto simp: no_adj_def successively_append_iff successively_Cons)
  moreover have "same_heap m m'" using m'(2) by (simp add: same_heap_def)
  ultimately show ?thesis using h(1) m'(1,5) lf unfolding u_def [symmetric] by (auto simp: smem_inv_def)
qed

lemma objs_of_shrink:
  assumes "n + 16 \<le> length d"
  shows "objs_of 0 (plug (xs @ [Used (take n d)]) (length d - n - 16) ys) = (objs_of 0 (xs @ Used d # ys))(extent xs + 16 \<mapsto> take n d)"
proof -
  have "objs_of 0 (plug (xs @ [Used (take n d)]) (length d - n - 16) ys) = objs_of 0 (xs @ Used (take n d) # Free (length d - n - 16) # ys)"
    by (simp add: objs_of_plug)
  also have "\<dots> = (objs_of 0 (xs @ Free n # Free (length d - n - 16) # ys))(extent xs + 16 \<mapsto> take n d)"
    using assms by (simp add: objs_of_used)
  also have "objs_of 0 (xs @ Free n # Free (length d - n - 16) # ys) = objs_of 0 (xs @ Free (length d) # ys)"
    using assms by (intro objs_of_cong) (simp add: ac_simps)
  finally show ?thesis unfolding objs_of_used [of 0 xs d ys] by (auto simp: fun_upd_def)
qed

lemma realloc_enter:
  assumes inv: "smem_inv m (xs @ Used d # ys)" and a: "a = extent xs + 16"
    and n: "unat newsize + 7 < 2 ^ 32" "n = round8 (unat newsize)" "0 < n" "n \<le> unat (mem_size_aligned m)"
  shows "rt_smem_realloc (Some (addr m a)) newsize m =
    (if length d = n then Some (m, Some (addr m a))
     else if n + 28 < length d
     then do {
       m1 \<leftarrow> split_item (addr m (extent xs)) (of_nat (extent xs)) (of_nat (extent xs + 16 + n)) (m\<lparr>mem_used := mem_used m - of_nat (length d - n)\<rparr>);
       let mem2 = item_at m1 (of_nat (extent xs + 16 + n));
       m1 \<leftarrow> plug_holes mem2 (if mem2 < lfree m1 then m1\<lparr>lfree := mem2\<rparr> else m1);
       Some (m1, Some (addr m a)) }
     else do {
       (m1, nmem) \<leftarrow> rt_smem_alloc (of_nat n) m;
       (case nmem of
          None \<Rightarrow> Some (m1, None)
        | Some b \<Rightarrow> do {
            ws \<leftarrow> mem_read (heap m1) (unat (addr m a - heap_ptr m1)) (min (length d) n);
            h \<leftarrow> mem_write (heap m1) (unat (b - heap_ptr m1)) ws;
            m1 \<leftarrow> rt_smem_free (Some (addr m a)) (m1\<lparr>heap := h\<rparr>);
            Some (m1, Some b) }) })"
proof -
  have c: "core m (xs @ Used d # ys)" using inv by (simp add: smem_inv_def)
  note ba = block_addr [OF c, folded a]
  have al: "RT_ALIGN newsize 8 = of_nat n" using unat_RT_ALIGN [OF n(1)] n(2) by (intro unat_eq_of_nat) simp
  have un: "unat (of_nat n :: u32) = n" using unat_RT_ALIGN [OF n(1)] n(2) al by simp
  have lt: "n + 32 < 2 ^ 32" using c n(4) by (simp add: core_def)
  have ud: "unat (of_nat (length d) :: u32) = length d" using c by (intro unat_of_nat32) (simp add: core_def)
  have g: "\<not> mem_size_aligned m < of_nat n" "of_nat n \<noteq> (0 :: u32)" "is_object m"
    using n un c by (auto simp: word_less_nat_alt core_def)
  have eq: "(of_nat (length d) = (of_nat n :: u32)) = (length d = n)" using c lt by (intro of_nat_eq_small) (simp_all add: core_def)
  have u28: "unat (of_nat n + 16 + 12 :: u32) = n + 28" using un lt by (simp add: unat_add_small)
  have cmp: "(of_nat n + 16 + 12 < (of_nat (length d) :: u32)) = (n + 28 < length d)" unfolding word_less_nat_alt u28 ud ..
  have mn: "unat (if of_nat (length d) < (of_nat n :: u32) then of_nat (length d) else of_nat n :: u32) = min (length d) n"
    using ud un by (auto simp: word_less_nat_alt)
  have sub: "n \<le> length d \<Longrightarrow> of_nat (length d) - of_nat n = (of_nat (length d - n) :: u32)" by (simp add: of_nat_diff)
  have nx: "get_next m (addr m (extent xs)) = Some (of_nat (extent xs + 16 + length d))" using core_used(3) [OF c] by simp
  have df: "of_nat (extent xs + 16 + length d) - of_nat (extent xs) - 16 = (of_nat (length d) :: u32)" by simp
  have p2: "addr m (extent xs) - heap_ptr m = of_nat (extent xs)" "of_nat (extent xs) + 16 + of_nat n = (of_nat (extent xs + 16 + n) :: u32)" by simp_all
  have "rt_smem_realloc (Some (addr m a)) newsize m =
    (if length d = n then Some (m, Some (addr m a))
     else if n + 28 < length d
     then do {
       m1 \<leftarrow> split_item (addr m (extent xs)) (of_nat (extent xs)) (of_nat (extent xs + 16 + n)) (m\<lparr>mem_used := mem_used m - (of_nat (length d) - of_nat n)\<rparr>);
       m1 \<leftarrow> plug_holes (item_at m1 (of_nat (extent xs + 16 + n)))
         (if item_at m1 (of_nat (extent xs + 16 + n)) < lfree m1 then m1\<lparr>lfree := item_at m1 (of_nat (extent xs + 16 + n))\<rparr> else m1);
       Some (m1, Some (addr m a)) }
     else do {
       (m1, nmem) \<leftarrow> rt_smem_alloc (of_nat n) m;
       (case nmem of
          None \<Rightarrow> Some (m1, None)
        | Some b \<Rightarrow> do {
            ws \<leftarrow> mem_read (heap m1) (unat (addr m a - heap_ptr m1)) (min (length d) n);
            h \<leftarrow> mem_write (heap m1) (unat (b - heap_ptr m1)) ws;
            m1 \<leftarrow> rt_smem_free (Some (addr m a)) (m1\<lparr>heap := h\<rparr>);
            Some (m1, Some b) }) })"
    using g ba(1,3,4)
    unfolding rt_smem_realloc_def smem_consts al Let_def option.case ba(5) nx Option.bind.bind_lunit df p2 eq cmp mn
    by (simp only: simp_thms if_False if_True not_False_eq_True if_not_P if_P) simp
  then show ?thesis using sub by (simp add: Let_def del: of_nat_add)
qed

lemma heap_move_law:
  assumes rel: "heap_rel m ob" and a: "ob a = Some d" and n: "n \<noteq> 0" "unat (of_nat n :: u32) = n" "n + 7 < 2 ^ 32"
  shows "\<exists>m' r. do {
       (m1, nmem) \<leftarrow> rt_smem_alloc (of_nat n) m;
       (case nmem of
          None \<Rightarrow> Some (m1, None)
        | Some b \<Rightarrow> do {
            ws \<leftarrow> mem_read (heap m1) (unat (addr m a - heap_ptr m1)) (min (length d) n);
            h \<leftarrow> mem_write (heap m1) (unat (b - heap_ptr m1)) ws;
            m1 \<leftarrow> rt_smem_free (Some (addr m a)) (m1\<lparr>heap := h\<rparr>);
            Some (m1, Some b) }) } = Some (m', r) \<and> same_heap m m'
    \<and> (r = None \<and> m' = m \<or> (\<exists>b e. r = Some (addr m b) \<and> heap_rel m' ((ob(a := None))(b \<mapsto> e)) \<and> ob b = None
          \<and> n \<le> length e \<and> take (min (length d) n) e = take (min (length d) n) d))"
proof -
  have "of_nat n \<noteq> (0 :: u32)" "unat (of_nat n :: u32) + 7 < 2 ^ 32" using n by auto
  then consider (none) "rt_smem_alloc (of_nat n) m = Some (m, None)"
    | (some) m1 b e where "rt_smem_alloc (of_nat n) m = Some (m1, Some (addr m b))" "same_heap m m1" "heap_rel m1 (ob(b \<mapsto> e))"
        "ob b = None" "n \<le> length e"
    using heap_alloc_law [OF rel, of "of_nat n"] n(2) by auto
  then show ?thesis
  proof cases
    case none
    then show ?thesis by (intro exI [of _ m] exI [of _ None]) simp
  next
    case some
    have hp: "heap_ptr m1 = heap_ptr m" using some(2) by (simp add: same_heap_def)
    have ab: "a \<noteq> b" using a some(4) by auto
    then have a1: "(ob(b \<mapsto> e)) a = Some d" using a by simp
    define ws where "ws = take (min (length d) n) d"
    define e' where "e' = patch_at e 0 ws"
    have wl: "0 + length ws \<le> length e" using some(5) by (simp add: ws_def)
    note ia = heap_rel_inside [OF some(3) a1]
    have ib: "b + length e + 16 \<le> length (heap m1)" using heap_rel_inside(3) [OF some(3), of b e] by simp
    have ua: "unat (addr m a - heap_ptr m1) = a" "unat (addr m b - heap_ptr m1) = b"
      using ia ib by (auto simp: hp unat_of_nat32)
    have "mem_read (heap m1) a (min (length d) n) = Some (take (min (length d) n) (drop a (heap m1)))" using ia(3) by (simp add: mem_simps)
    also have "take (min (length d) n) (drop a (heap m1)) = take (min (length d) n) (take (length d) (drop a (heap m1)))" by simp
    also have "\<dots> = ws" unfolding ia(4) ws_def ..
    finally have rd: "mem_read (heap m1) a (min (length d) n) = Some ws" .
    note st = heap_store_law [OF some(3) _ wl, of b, unfolded add_0_right, folded e'_def]
    define m2 where "m2 = m1\<lparr>heap := patch_at (heap m1) b ws\<rparr>"
    have wr: "mem_write (heap m1) b ws = Some (patch_at (heap m1) b ws)" using st(1) by simp
    have r2: "heap_rel m2 (ob(b \<mapsto> e'))" using st(2) by (simp add: m2_def)
    have "(ob(b \<mapsto> e')) a = Some d" using a ab by simp
    from heap_free_law [OF r2 this] obtain m3 where m3: "rt_smem_free (Some (addr m2 a)) m2 = Some m3" "same_heap m2 m3"
      "heap_rel m3 ((ob(b \<mapsto> e'))(a := None))" by blast
    have "same_heap m m3" using some(2) m3(2) by (simp add: same_heap_def m2_def)
    moreover have "(ob(b \<mapsto> e'))(a := None) = (ob(a := None))(b \<mapsto> e')" using ab by (simp add: fun_upd_twist)
    moreover have "length e' = length e" "take (min (length d) n) e' = take (min (length d) n) d"
      using wl by (simp_all add: e'_def patch_at_0 ws_def)
    moreover have "addr m2 a = addr m a" by (simp add: m2_def hp)
    ultimately show ?thesis
      using some(1,4,5) m3(1,3) by (intro exI [of _ m3] exI [of _ "Some (addr m b)"]) (auto simp: ua rd wr m2_def [symmetric] intro!: exI [of _ b] exI [of _ e'])
  qed
qed

lemma heap_shrink_law:
  assumes x: "smem_inv m (xs @ Used d # ys)" "a = extent xs + 16" and n: "n = round8 (unat sz)" "0 < n" "n \<le> unat (mem_size_aligned m)"
    and sz: "unat sz + 7 < 2 ^ 32" and lt: "n + 28 < length d"
  shows "\<exists>m'. rt_smem_realloc (Some (addr m a)) sz m = Some (m', Some (addr m a)) \<and> same_heap m m'
    \<and> heap_rel m' ((objs_of 0 (xs @ Used d # ys))(a \<mapsto> take n d))"
proof -
  have c: "core m (xs @ Used d # ys)" using x(1) by (simp add: smem_inv_def)
  have n8: "8 dvd n" using round8(1) n(1) by simp
  have "8 dvd length d" using c by (simp add: core_def)
  then have n32: "n + 32 \<le> length d" using lt n8 by presburger
  obtain m' h where m': "split_item (addr m (extent xs)) (of_nat (extent xs)) (of_nat (extent xs + 16 + n)) (m\<lparr>mem_used := mem_used m - of_nat (length d - n)\<rparr>)
      = Some (m\<lparr>mem_used := mem_used m - of_nat (length d - n), heap := h\<rparr>)"
    "plug_holes (addr m (extent xs + 16 + n)) (m\<lparr>mem_used := mem_used m - of_nat (length d - n), heap := h,
      lfree := (if addr m (extent xs + 16 + n) < lfree m then addr m (extent xs + 16 + n) else lfree m)\<rparr>) = Some m'"
    "same_heap m m'" "smem_inv m' (plug (xs @ [Used (take n d)]) (length d - n - 16) ys)"
    using shrink_law [OF x(1) n8 n(2) n32 refl] by blast
  define m1 where "m1 = m\<lparr>mem_used := mem_used m - of_nat (length d - n), heap := h\<rparr>"
  define q where "q = addr m (extent xs + 16 + n)"
  have s1: "lfree m1 = lfree m" "item_at m1 (of_nat (extent xs + 16 + n)) = q" by (simp_all add: m1_def q_def item_at_def)
  have "plug_holes q (m1\<lparr>lfree := (if q < lfree m then q else lfree m)\<rparr>) = Some m'" using m'(2) unfolding m1_def q_def .
  moreover have "m1\<lparr>lfree := (if q < lfree m then q else lfree m)\<rparr> = (if q < lfree m then m1\<lparr>lfree := q\<rparr> else m1)" using s1(1) by simp
  ultimately have ph: "plug_holes q (if q < lfree m then m1\<lparr>lfree := q\<rparr> else m1) = Some m'" by simp
  have "rt_smem_realloc (Some (addr m a)) sz m = Some (m', Some (addr m a))"
    unfolding realloc_enter [OF x sz n] m'(1) m1_def [symmetric] Option.bind.bind_lunit s1 Let_def ph using lt by simp
  moreover have "objs_of 0 (plug (xs @ [Used (take n d)]) (length d - n - 16) ys) = (objs_of 0 (xs @ Used d # ys))(a \<mapsto> take n d)"
    using objs_of_shrink [of n d xs ys] n32 x(2) by simp
  ultimately show ?thesis using m'(3,4) by (auto simp: heap_rel_def)
qed

lemma heap_realloc_law:
  assumes rel: "heap_rel m ob" and a: "ob a = Some d" and sz: "sz \<noteq> 0" "unat sz + 7 < 2 ^ 32"
  shows "\<exists>m' r. rt_smem_realloc (Some (addr m a)) sz m = Some (m', r) \<and> same_heap m m'
    \<and> (r = None \<and> m' = m \<or> (\<exists>b e. r = Some (addr m b) \<and> heap_rel m' ((ob(a := None))(b \<mapsto> e)) \<and> (b = a \<or> ob b = None)
          \<and> unat sz \<le> length e \<and> take (min (length d) (unat sz)) e = take (min (length d) (unat sz)) d))"
proof -
  define n where "n = round8 (unat sz)"
  have n: "0 < n" "unat sz \<le> n" "8 dvd n" using round8 [of "unat sz"] sz(1) word_neq_0_unat [of sz] by (auto simp: n_def)
  have un: "unat (RT_ALIGN sz 8) = n" using unat_RT_ALIGN [OF sz(2)] by (simp add: n_def)
  then have al: "RT_ALIGN sz 8 = of_nat n" by (rule unat_eq_of_nat)
  obtain xs ys where x: "smem_inv m (xs @ Used d # ys)" "a = extent xs + 16" "ob = objs_of 0 (xs @ Used d # ys)"
    using heap_rel_split [OF rel a] .
  have c: "core m (xs @ Used d # ys)" using x(1) by (simp add: smem_inv_def)
  show ?thesis
  proof (cases "n \<le> unat (mem_size_aligned m)")
    case False
    then have "mem_size_aligned m < of_nat n" using un al by (simp add: word_less_nat_alt)
    then have "rt_smem_realloc (Some (addr m a)) sz m = Some (m, None)" using c by (simp add: rt_smem_realloc_def al core_def)
    then show ?thesis by auto
  next
    case True
    note en = realloc_enter [OF x(1,2) sz(2) n_def n(1) True]
    consider (same) "length d = n" | (shrink) "length d \<noteq> n" "n + 28 < length d" | (move) "length d \<noteq> n" "\<not> n + 28 < length d" by blast
    then show ?thesis
    proof cases
      case same
      have "(ob(a := None))(a \<mapsto> d) = ob" using a by auto
      then show ?thesis using en same rel n(2) by (intro exI [of _ m] exI [of _ "Some (addr m a)"]) (auto intro!: exI [of _ a] exI [of _ d])
    next
      case shrink
      obtain m' where m': "rt_smem_realloc (Some (addr m a)) sz m = Some (m', Some (addr m a))" "same_heap m m'"
        "heap_rel m' (ob(a \<mapsto> take n d))"
        using heap_shrink_law [OF x(1,2) n_def n(1) True sz(2) shrink(2)] x(3) by auto
      moreover have "(ob(a := None))(a \<mapsto> take n d) = ob(a \<mapsto> take n d)" by simp
      moreover have "unat sz \<le> length (take n d)" "take (min (length d) (unat sz)) (take n d) = take (min (length d) (unat sz)) d"
        using shrink(2) n(2) by (simp_all add: min_def)
      ultimately show ?thesis by (metis (no_types, lifting))
    next
      case move
      have "n + 7 < 2 ^ 32" "unat (of_nat n :: u32) = n" using c True un al by (auto simp: core_def)
      then obtain m' r where m': "rt_smem_realloc (Some (addr m a)) sz m = Some (m', r)" "same_heap m m'"
        "r = None \<and> m' = m \<or> (\<exists>b e. r = Some (addr m b) \<and> heap_rel m' ((ob(a := None))(b \<mapsto> e)) \<and> ob b = None
          \<and> n \<le> length e \<and> take (min (length d) n) e = take (min (length d) n) d)"
        unfolding en using heap_move_law [OF rel a, of n] move n(1) by auto
      have tk: "unat sz \<le> length e \<and> take (min (length d) (unat sz)) e = take (min (length d) (unat sz)) d"
        if "n \<le> length e" "take (min (length d) n) e = take (min (length d) n) d" for e
        using that(1) arg_cong [OF that(2), of "take (min (length d) (unat sz))"] n(2) by (simp add: min_absorb1)
      from m'(3) show ?thesis
      proof
        assume "r = None \<and> m' = m"
        then show ?thesis using m'(1,2) by blast
      next
        assume "\<exists>b e. r = Some (addr m b) \<and> heap_rel m' ((ob(a := None))(b \<mapsto> e)) \<and> ob b = None
          \<and> n \<le> length e \<and> take (min (length d) n) e = take (min (length d) n) d"
        then show ?thesis using m'(1,2) tk by blast
      qed
    qed
  qed
qed

section \<open>Initialisation\<close>

lemma even_mask:
  assumes "8 dvd unat (x :: u32)"
  shows "x AND MEM_MASK = x"
proof -
  have "take_bit 3 x = 0" using assms and7_zero [of x] by (simp only: and7)
  then have "\<not> bit (take_bit 3 x) 0" by simp
  then have "\<not> bit x 0" unfolding bit_take_bit_iff by simp
  have mm: "MEM_MASK = NOT (1 :: u32)" by (simp add: MEM_MASK_def)
  have "bit MEM_MASK n \<longleftrightarrow> n \<noteq> 0" if "n < 32" for n using that unfolding mm bit_not_iff bit_1_iff by simp
  then show ?thesis using \<open>\<not> bit x 0\<close> by (intro bit_word_eqI) (auto simp: bit_and_iff intro: ccontr)
qed

text \<open>The two items of a heap without objects.\<close>

lemma init_items:
  assumes "length h = n + 32"
  shows "lay (hput (hput (hput (hput (hput (hput h 0 (MEM_FREED s)) 4 (of_nat (16 + n))) 8 0) (16 + n) (MEM_USED s)) (16 + n + 4) w) (16 + n + 8) w') s 0 0 [Free n]"
    and "word_at (hput (hput (hput (hput (hput (hput h 0 (MEM_FREED s)) 4 (of_nat (16 + n))) 8 0) (16 + n) (MEM_USED s)) (16 + n + 4) w) (16 + n + 8) w') (16 + n) = MEM_USED s"
  using assms by (simp_all add: word_at_hput)

text \<open>The allocator after its initialisation at address \<open>b\<close>, with \<open>n\<close> bytes to give away.\<close>

definition init_mem :: "u32 \<Rightarrow> nat \<Rightarrow> bytes \<Rightarrow> rt_small_mem" where
  "init_mem b n h = \<lparr>self_addr = b, is_object = True, mem_address = b + 56, mem_total = of_nat n, mem_used = 0, mem_max = 0,
     heap_ptr = b + 56, heap_end = b + 56 + of_nat (16 + n), lfree = b + 56, mem_size_aligned = of_nat n,
     heap = hput (hput (hput (hput (hput (hput h 0 (MEM_FREED b)) 4 (of_nat (16 + n))) 8 0) (16 + n) (MEM_USED b))
       (16 + n + 4) (of_nat (16 + n))) (16 + n + 8) (of_nat (16 + n))\<rparr>"

lemma init_mem_inv:
  assumes "8 dvd unat b" "b \<noteq> 0" "8 dvd n" "0 < n" "unat b + n + 88 < 2 ^ 32" "length h = n + 32"
  shows "smem_inv (init_mem b n h) [Free n]"
proof -
  have u: "unat (b + 56) = unat b + 56" using assms by (simp add: unat_add_small)
  have "(b + 56) AND 7 = 0" using assms(1) by (simp add: and7_zero u)
  moreover have "unat (of_nat n :: u32) = n" using assms by (intro unat_of_nat32) simp
  ultimately show ?thesis
    using init_items [OF assms(6)] assms u
    by (simp add: smem_inv_def core_def no_adj_def counted_def init_mem_def even_mask del: lay.simps)
qed

lemma init_exec:
  assumes n: "unat sz = n + 88" and al: "RT_ALIGN begin_addr 8 = begin_addr" "RT_ALIGN (begin_addr + 56) 8 = begin_addr + 56"
      "RT_ALIGN_DOWN (begin_addr + sz) 8 = begin_addr + sz"
    and cond: "2 * 16 < begin_addr + sz" "begin_addr + 56 \<le> begin_addr + sz - 2 * 16"
    and h: "mem_read ram 56 (n + 32) = Some h" "length h = n + 32"
  shows "rt_smem_init begin_addr sz ram = Some (Some (init_mem begin_addr n h))"
proof -
  have "sz = of_nat (n + 88)" by (rule unat_eq_of_nat) (simp add: n)
  then have ms: "of_nat (n + 32) - 2 * 16 = (of_nat n :: u32)" "begin_addr + sz - (begin_addr + 56) = of_nat (n + 32)" by simp_all
  have un: "unat (of_nat n :: u32) = n" "unat (of_nat (n + 32) :: u32) = n + 32" using n unat_bound32 [of sz] by (intro unat_of_nat32; simp)+
  define m0 where "m0 x = \<lparr>self_addr = begin_addr, is_object = True, mem_address = begin_addr + 56, mem_total = of_nat n,
           mem_used = 0, mem_max = 0, heap_ptr = begin_addr + 56, heap_end = 0, lfree = 0, mem_size_aligned = of_nat n, heap = x\<rparr>" for x
  define m1 where "m1 x = (m0 x)\<lparr>heap_end := begin_addr + 56 + of_nat (16 + n)\<rparr>" for x
  have lo: "length x = n + 32 \<Longrightarrow> set_pool (begin_addr + 56) w (m0 x) = Some (m0 (hput x 0 w))"
    "length x = n + 32 \<Longrightarrow> set_next (begin_addr + 56) w (m0 x) = Some (m0 (hput x 4 w))"
    "length x = n + 32 \<Longrightarrow> set_prev (begin_addr + 56) w (m0 x) = Some (m0 (hput x 8 w))"
    "length x = n + 32 \<Longrightarrow> get_next (m0 x) (begin_addr + 56) = Some (word_at x 4)" for x w
    using field_access(4-6) [of 0 "m0 x" w] field_access(2) [of 0 "m0 x"] n un unat_bound32 [of sz] by (simp_all add: m0_def)
  have hi: "length x = n + 32 \<Longrightarrow> set_pool (begin_addr + 56 + of_nat (16 + n)) w (m1 x) = Some (m1 (hput x (16 + n) w))"
    "length x = n + 32 \<Longrightarrow> set_next (begin_addr + 56 + of_nat (16 + n)) w (m1 x) = Some (m1 (hput x (16 + n + 4) w))"
    "length x = n + 32 \<Longrightarrow> set_prev (begin_addr + 56 + of_nat (16 + n)) w (m1 x) = Some (m1 (hput x (16 + n + 8) w))" for x w
    using field_access(4-6) [of "16 + n" "m1 x" w] n un unat_bound32 [of sz] by (simp_all add: m0_def m1_def del: of_nat_add add.assoc)
  define x3 where "x3 = hput (hput (hput h 0 (MEM_FREED begin_addr)) 4 (of_nat (16 + n))) 8 0"
  have x3: "word_at x3 4 = of_nat (16 + n)" "length x3 = n + 32" using h(2) by (simp_all add: x3_def word_at_hput)
  have o: "unat (begin_addr + 56 - begin_addr) = 56" "of_nat n + 16 = (of_nat (16 + n) :: u32)" by simp_all
  have "rt_smem_init begin_addr sz ram = do {
      m \<leftarrow> set_pool (begin_addr + 56) (MEM_FREED begin_addr) (m0 h);
      m \<leftarrow> set_next (begin_addr + 56) (of_nat (16 + n)) m;
      m \<leftarrow> set_prev (begin_addr + 56) 0 m;
      nx \<leftarrow> get_next m (begin_addr + 56);
      let m = m\<lparr>heap_end := item_at m nx\<rparr>;
      m \<leftarrow> set_pool (heap_end m) (MEM_USED begin_addr) m;
      m \<leftarrow> set_next (heap_end m) (of_nat (16 + n)) m;
      m \<leftarrow> set_prev (heap_end m) (of_nat (16 + n)) m;
      Some (Some (m\<lparr>lfree := heap_ptr m\<rparr>)) }"
    using cond unfolding rt_smem_init_def smem_consts al Let_def ms o un h(1) Option.bind.bind_lunit m0_def rt_small_mem.simps
    by (simp only: simp_thms if_True)
  also have "\<dots> = do {
      m \<leftarrow> set_pool (heap_end (m1 x3)) (MEM_USED begin_addr) (m1 x3);
      m \<leftarrow> set_next (heap_end m) (of_nat (16 + n)) m;
      m \<leftarrow> set_prev (heap_end m) (of_nat (16 + n)) m;
      Some (Some (m\<lparr>lfree := heap_ptr m\<rparr>)) }"
  proof -
    have "item_at (m0 x3) (of_nat (16 + n)) = begin_addr + 56 + of_nat (16 + n)" by (simp add: item_at_def m0_def)
    then show ?thesis using h(2) x3 by (simp add: lo x3_def [symmetric] m1_def Let_def del: of_nat_add)
  qed
  also have "\<dots> = Some (Some (init_mem begin_addr n h))"
  proof -
    have e: "heap_end (m1 x) = begin_addr + 56 + of_nat (16 + n)" "heap_ptr (m1 x) = begin_addr + 56" for x by (simp_all add: m1_def m0_def)
    show ?thesis using x3(2) unfolding e
      by (simp add: hi e del: of_nat_add) (simp add: m1_def m0_def init_mem_def x3_def)
  qed
  finally show ?thesis .
qed

lemma smem_init_law:
  assumes b: "8 dvd unat begin_addr" "begin_addr \<noteq> 0" and sz: "8 dvd unat sz" "96 \<le> unat sz" "unat begin_addr + unat sz + 16 < 2 ^ 32"
    and ram: "unat sz \<le> length ram"
  shows "\<exists>m. rt_smem_init begin_addr sz ram = Some (Some m) \<and> smem_inv m [Free (unat sz - 88)]
    \<and> heap_ptr m = begin_addr + 56 \<and> unat (mem_size_aligned m) = unat sz - 88 \<and> mem_total m = mem_size_aligned m"
proof -
  define n where "n = unat sz - 88"
  have n: "unat sz = n + 88" "0 < n" "8 dvd n" using sz by (auto simp: n_def dvd_diff_nat)
  have ends: "unat (begin_addr + sz) = unat begin_addr + unat sz" using sz(3) by (simp add: unat_add_small)
  have u56: "unat (begin_addr + 56) = unat begin_addr + 56" using sz by (simp add: unat_add_small)
  have al: "RT_ALIGN begin_addr 8 = begin_addr" "RT_ALIGN (begin_addr + 56) 8 = begin_addr + 56" "RT_ALIGN_DOWN (begin_addr + sz) 8 = begin_addr + sz"
    using b sz by (auto intro!: align_id align_down_id simp: ends u56)
  have cond: "2 * 16 < begin_addr + sz" "begin_addr + 56 \<le> begin_addr + sz - 2 * 16"
    using ends u56 n by (simp_all add: word_less_nat_alt word_le_nat_alt unat_minus_le)
  obtain h where h: "mem_read ram 56 (n + 32) = Some h" "length h = n + 32" using ram n by (simp add: mem_simps)
  have "smem_inv (init_mem begin_addr n h) [Free n]" using b sz n h(2) by (intro init_mem_inv) simp_all
  moreover have "unat (of_nat n :: u32) = n" using n(1) unat_bound32 [of sz] by (intro unat_of_nat32) simp
  ultimately show ?thesis
    using init_exec [OF n(1) al cond h] unfolding n_def [symmetric] by (intro exI [of _ "init_mem begin_addr n h"]) (simp add: init_mem_def)
qed

end
