(* ===== verification/System_Heap.thy ===== *)
theory System_Heap
  imports Small_Mem_Main
begin

text \<open>
  The system heap and the parts of the firmware that use it. A client holds a table of pointers with the sizes it asked
  for, calls the functions of \<open>kservice.c\<close> and writes into its objects. The locale \<open>object_heap\<close> is the contract between
  the two, with the refinement of every such client to a list of byte strings that only the client changes; the
  interpretation discharges the contract for \<open>rt_malloc\<close>, \<open>rt_calloc\<close>, \<open>rt_realloc\<close> and \<open>rt_free\<close>.
\<close>

unbundle bit_operations_syntax

section \<open>Clients\<close>

record 'h heap_ops =
  op_malloc :: "u32 \<Rightarrow> 'h \<Rightarrow> ('h \<times> u32 option) option"
  op_calloc :: "u32 \<Rightarrow> u32 \<Rightarrow> 'h \<Rightarrow> ('h \<times> u32 option) option"
  op_realloc :: "u32 option \<Rightarrow> u32 \<Rightarrow> 'h \<Rightarrow> ('h \<times> u32 option) option"
  op_free :: "u32 option \<Rightarrow> 'h \<Rightarrow> 'h option"
  op_store :: "u32 \<Rightarrow> bytes \<Rightarrow> 'h \<Rightarrow> 'h option"
  op_load :: "u32 \<Rightarrow> nat \<Rightarrow> 'h \<Rightarrow> bytes option"

datatype heap_call = Malloc u32 | Calloc u32 u32 | Realloc nat u32 | Release nat | Store nat nat bytes

type_synonym ptr_table = "(u32 \<times> u32) option list"

fun client_step :: "'h heap_ops \<Rightarrow> heap_call \<Rightarrow> 'h \<times> ptr_table \<Rightarrow> ('h \<times> ptr_table) option" where
  "client_step ops (Malloc sz) (h, tab) = do {
     (h, p) \<leftarrow> op_malloc ops sz h;
     Some (h, tab @ [map_option (\<lambda>p. (p, sz)) p]) }"
| "client_step ops (Calloc cnt sz) (h, tab) = do {
     (h, p) \<leftarrow> op_calloc ops cnt sz h;
     Some (h, tab @ [map_option (\<lambda>p. (p, cnt * sz)) p]) }"
| "client_step ops (Realloc k sz) (h, tab) =
     (if k < length tab
      then do {
        (h, p) \<leftarrow> op_realloc ops (map_option fst (tab ! k)) sz h;
        Some (h, if sz = 0 then tab[k := None]
                 else (case p of None \<Rightarrow> tab | Some q \<Rightarrow> tab[k := Some (q, sz)])) }
      else Some (h, tab))"
| "client_step ops (Release k) (h, tab) =
     (if k < length tab
      then do { h \<leftarrow> op_free ops (map_option fst (tab ! k)) h; Some (h, tab[k := None]) }
      else Some (h, tab))"
| "client_step ops (Store k off ws) (h, tab) =
     (if k < length tab
      then (case tab ! k of
              Some (p, n) \<Rightarrow>
                if off + length ws \<le> unat n then do { h \<leftarrow> op_store ops (p + of_nat off) ws h; Some (h, tab) } else Some (h, tab)
            | None \<Rightarrow> Some (h, tab))
      else Some (h, tab))"

fun client_run :: "'h heap_ops \<Rightarrow> heap_call list \<Rightarrow> 'h \<times> ptr_table \<Rightarrow> ('h \<times> ptr_table) option" where
  "client_run ops [] c = Some c"
| "client_run ops (x # xs) c = do { c \<leftarrow> client_step ops x c; client_run ops xs c }"

text \<open>What the client reads through its pointers.\<close>

fun client_view :: "'h heap_ops \<Rightarrow> 'h \<Rightarrow> ptr_table \<Rightarrow> bytes option list option" where
  "client_view ops h [] = Some []"
| "client_view ops h (None # tab) = map_option (\<lambda>vs. None # vs) (client_view ops h tab)"
| "client_view ops h (Some (p, n) # tab) = do { v \<leftarrow> op_load ops p (unat n) h; vs \<leftarrow> client_view ops h tab; Some (Some v # vs) }"

text \<open>A size whose alignment does not wrap around.\<close>

definition size_ok :: "u32 \<Rightarrow> bool" where
  "size_ok sz \<longleftrightarrow> unat sz + 7 < 2 ^ 32"

fun call_ok :: "heap_call \<Rightarrow> bool" where
  "call_ok (Malloc sz) = size_ok sz"
| "call_ok (Calloc cnt sz) = (unat cnt * unat sz + 7 < 2 ^ 32)"
| "call_ok (Realloc k sz) = size_ok sz"
| "call_ok (Release k) = True"
| "call_ok (Store k off ws) = True"

text \<open>
  The specification: a list of byte strings, \<open>None\<close> where the client holds no object. A request may fail, and the
  contents of a new object are arbitrary, except after \<open>Calloc\<close>.
\<close>

inductive spec_step :: "heap_call \<Rightarrow> bytes option list \<Rightarrow> bytes option list \<Rightarrow> bool" where
  malloc_none: "spec_step (Malloc sz) vs (vs @ [None])"
| malloc_some: "0 < length v \<Longrightarrow> length v = unat sz \<Longrightarrow> spec_step (Malloc sz) vs (vs @ [Some v])"
| calloc_none: "spec_step (Calloc cnt sz) vs (vs @ [None])"
| calloc_some: "0 < unat cnt * unat sz \<Longrightarrow> spec_step (Calloc cnt sz) vs (vs @ [Some (replicate (unat cnt * unat sz) 0)])"
| realloc_null: "k < length vs \<Longrightarrow> vs ! k = None \<Longrightarrow> length v = unat sz \<Longrightarrow> spec_step (Realloc k sz) vs (vs[k := Some v])"
| realloc_fail: "sz \<noteq> 0 \<Longrightarrow> spec_step (Realloc k sz) vs vs"
| realloc_zero: "spec_step (Realloc k 0) vs (vs[k := None])"
| realloc_some: "k < length vs \<Longrightarrow> vs ! k = Some v \<Longrightarrow> length v' = unat sz \<Longrightarrow>
    take (min (length v) (unat sz)) v' = take (min (length v) (unat sz)) v \<Longrightarrow> spec_step (Realloc k sz) vs (vs[k := Some v'])"
| realloc_skip: "length vs \<le> k \<Longrightarrow> spec_step (Realloc k sz) vs vs"
| release_any: "spec_step (Release k) vs (vs[k := None])"
| store_some: "k < length vs \<Longrightarrow> vs ! k = Some v \<Longrightarrow> off + length ws \<le> length v \<Longrightarrow>
    spec_step (Store k off ws) vs (vs[k := Some (patch_at v off ws)])"
| store_skip: "(\<forall>v. k < length vs \<longrightarrow> vs ! k = Some v \<longrightarrow> length v < off + length ws) \<Longrightarrow> spec_step (Store k off ws) vs vs"

inductive spec_run :: "heap_call list \<Rightarrow> bytes option list \<Rightarrow> bytes option list \<Rightarrow> bool" where
  run_nil: "spec_run [] vs vs"
| run_cons: "spec_step x vs us \<Longrightarrow> spec_run xs us ws \<Longrightarrow> spec_run (x # xs) vs ws"

section \<open>Tables and objects\<close>

text \<open>The live objects are exactly those in the table, each once.\<close>

definition tab_rel :: "(u32 \<Rightarrow> bytes option) \<Rightarrow> ptr_table \<Rightarrow> bool" where
  "tab_rel ob tab \<longleftrightarrow>
     (\<forall>k p n. k < length tab \<longrightarrow> tab ! k = Some (p, n) \<longrightarrow>
        (\<exists>d. ob p = Some d \<and> unat n \<le> length d) \<and> (\<forall>j q. j < length tab \<longrightarrow> tab ! j = Some (p, q) \<longrightarrow> j = k))
     \<and> (\<forall>p d. ob p = Some d \<longrightarrow> (\<exists>k n. k < length tab \<and> tab ! k = Some (p, n)))"

definition vals :: "(u32 \<Rightarrow> bytes option) \<Rightarrow> ptr_table \<Rightarrow> bytes option list" where
  "vals ob tab = map (map_option (\<lambda>(p, n). take (unat n) (the (ob p)))) tab"

lemma length_vals [simp]: "length (vals ob tab) = length tab"
  by (simp add: vals_def)

lemma vals_nth: "k < length tab \<Longrightarrow> vals ob tab ! k = map_option (\<lambda>(p, n). take (unat n) (the (ob p))) (tab ! k)"
  by (simp add: vals_def)

lemma tab_put:
  assumes t: "tab_rel ob tab" and k: "k < length tab" "tab ! k = None" and p: "ob p = None" and n: "unat n \<le> length d"
  shows "tab_rel (ob(p \<mapsto> d)) (tab[k := Some (p, n)])" and "vals (ob(p \<mapsto> d)) (tab[k := Some (p, n)]) = (vals ob tab)[k := Some (take (unat n) d)]"
proof -
  have ne: "q \<noteq> p" if "j < length tab" "tab ! j = Some (q, m)" for j q m
    using t p that unfolding tab_rel_def by fastforce
  show "tab_rel (ob(p \<mapsto> d)) (tab[k := Some (p, n)])"
    using t k n ne unfolding tab_rel_def by (auto simp: nth_list_update) (metis option.distinct(1))
  show "vals (ob(p \<mapsto> d)) (tab[k := Some (p, n)]) = (vals ob tab)[k := Some (take (unat n) d)]"
    using k ne by (intro nth_equalityI) (auto simp: vals_nth nth_list_update map_option_case split: option.split)
qed

lemma tab_drop:
  assumes t: "tab_rel ob tab" and k: "k < length tab" "tab ! k = Some (p, n)"
  shows "tab_rel (ob(p := None)) (tab[k := None])" and "vals (ob(p := None)) (tab[k := None]) = (vals ob tab)[k := None]"
proof -
  have ne: "q \<noteq> p" if "j < length tab" "j \<noteq> k" "tab ! j = Some (q, m)" for j q m
    using t k that unfolding tab_rel_def by blast
  have "\<exists>j m. j < length (tab[k := None]) \<and> tab[k := None] ! j = Some (q, m)" if "(ob(p := None)) q = Some d" for q d
  proof -
    have "q \<noteq> p" "ob q = Some d" using that by (auto split: if_splits)
    then obtain j m where "j < length tab" "tab ! j = Some (q, m)" using t unfolding tab_rel_def by blast
    moreover have "j \<noteq> k" using calculation \<open>q \<noteq> p\<close> k by auto
    ultimately show ?thesis by (intro exI [of _ j] exI [of _ m]) simp
  qed
  then show "tab_rel (ob(p := None)) (tab[k := None])"
    using t k ne unfolding tab_rel_def by (auto simp: nth_list_update)
  show "vals (ob(p := None)) (tab[k := None]) = (vals ob tab)[k := None]"
    using k ne by (intro nth_equalityI) (auto simp: vals_nth nth_list_update map_option_case split: option.split)
qed

lemma tab_change:
  assumes t: "tab_rel ob tab" and k: "k < length tab" "tab ! k = Some (p, n)" and n: "unat n \<le> length d"
  shows "tab_rel (ob(p \<mapsto> d)) tab" and "vals (ob(p \<mapsto> d)) tab = (vals ob tab)[k := Some (take (unat n) d)]"
proof -
  have id: "tab[k := Some (p, n)] = tab" using k(2) list_update_id [of tab k] by simp
  have 1: "k < length (tab[k := None])" "tab[k := None] ! k = None" "(ob(p := None)) p = None" using k by simp_all
  note put = tab_put [OF tab_drop(1) [OF t k] 1 n, unfolded tab_drop(2) [OF t k]]
  show "tab_rel (ob(p \<mapsto> d)) tab" "vals (ob(p \<mapsto> d)) tab = (vals ob tab)[k := Some (take (unat n) d)]"
    using put unfolding list_update_overwrite id fun_upd_upd by simp_all
qed

lemma tab_snoc: "tab_rel ob tab \<Longrightarrow> tab_rel ob (tab @ [None])" "vals ob (tab @ [None]) = vals ob tab @ [None]"
  by (auto simp: tab_rel_def vals_def nth_append split: if_splits) (metis less_Suc_eq)

section \<open>The contract of an allocator\<close>

text \<open>The client holds the values \<open>vs\<close>: simulation relation for a heap with the objects \<open>ob\<close>.\<close>

definition client_sim :: "('h \<Rightarrow> (u32 \<Rightarrow> bytes option) \<Rightarrow> bool) \<Rightarrow> 'h \<times> ptr_table \<Rightarrow> bytes option list \<Rightarrow> bool" where
  "client_sim rel c vs \<longleftrightarrow> (\<exists>ob. rel (fst c) ob \<and> tab_rel ob (snd c) \<and> vals ob (snd c) = vs)"

locale object_heap =
  fixes ops :: "'h heap_ops" and rel :: "'h \<Rightarrow> (u32 \<Rightarrow> bytes option) \<Rightarrow> bool"
  assumes malloc_zero: "rel h ob \<Longrightarrow> op_malloc ops 0 h = Some (h, None)"
    and malloc_law: "rel h ob \<Longrightarrow> sz \<noteq> 0 \<Longrightarrow> size_ok sz \<Longrightarrow> op_malloc ops sz h = Some (h, None)
      \<or> (\<exists>h' p d. op_malloc ops sz h = Some (h', Some p) \<and> rel h' (ob(p \<mapsto> d)) \<and> ob p = None \<and> unat sz \<le> length d)"
    and calloc_law: "rel h ob \<Longrightarrow> unat cnt * unat sz + 7 < 2 ^ 32 \<Longrightarrow> op_calloc ops cnt sz h = Some (h, None)
      \<or> (\<exists>h' p d. op_calloc ops cnt sz h = Some (h', Some p) \<and> rel h' (ob(p \<mapsto> d)) \<and> ob p = None \<and> 0 < unat cnt * unat sz
          \<and> unat cnt * unat sz \<le> length d \<and> take (unat cnt * unat sz) d = replicate (unat cnt * unat sz) 0)"
    and realloc_new: "rel h ob \<Longrightarrow> sz \<noteq> 0 \<Longrightarrow> size_ok sz \<Longrightarrow> op_realloc ops None sz h = Some (h, None)
      \<or> (\<exists>h' p d. op_realloc ops None sz h = Some (h', Some p) \<and> rel h' (ob(p \<mapsto> d)) \<and> ob p = None \<and> unat sz \<le> length d)"
    and realloc_nothing: "rel h ob \<Longrightarrow> op_realloc ops None 0 h = Some (h, None)"
    and realloc_free: "rel h ob \<Longrightarrow> ob p = Some d \<Longrightarrow> \<exists>h'. op_realloc ops (Some p) 0 h = Some (h', None) \<and> rel h' (ob(p := None))"
    and realloc_law: "rel h ob \<Longrightarrow> ob p = Some d \<Longrightarrow> sz \<noteq> 0 \<Longrightarrow> size_ok sz \<Longrightarrow> op_realloc ops (Some p) sz h = Some (h, None)
      \<or> (\<exists>h' q e. op_realloc ops (Some p) sz h = Some (h', Some q) \<and> rel h' ((ob(p := None))(q \<mapsto> e)) \<and> (q = p \<or> ob q = None)
          \<and> unat sz \<le> length e \<and> take (min (length d) (unat sz)) e = take (min (length d) (unat sz)) d)"
    and free_null: "op_free ops None h = Some h"
    and free_law: "rel h ob \<Longrightarrow> ob p = Some d \<Longrightarrow> \<exists>h'. op_free ops (Some p) h = Some h' \<and> rel h' (ob(p := None))"
    and store_law: "rel h ob \<Longrightarrow> ob p = Some d \<Longrightarrow> off + length ws \<le> length d \<Longrightarrow>
      \<exists>h'. op_store ops (p + of_nat off) ws h = Some h' \<and> rel h' (ob(p \<mapsto> patch_at d off ws))"
    and load_law: "rel h ob \<Longrightarrow> ob p = Some d \<Longrightarrow> n \<le> length d \<Longrightarrow> op_load ops p n h = Some (take n d)"
begin

lemma view_vals:
  assumes "rel h ob" and "\<forall>(p, n) \<in> set (List.map_filter id tab). \<exists>d. ob p = Some d \<and> unat n \<le> length d"
  shows "client_view ops h tab = Some (vals ob tab)"
  using assms(2)
proof (induction tab)
  case (Cons e tab)
  then have IH: "client_view ops h tab = Some (vals ob tab)" by (cases e) (auto simp: map_filter_simps)
  show ?case
  proof (cases e)
    case (Some pn)
    then obtain p n d where "e = Some (p, n)" "ob p = Some d" "unat n \<le> length d"
      using Cons.prems by (cases pn) (auto simp: map_filter_simps)
    then show ?thesis using load_law [OF assms(1)] IH by (simp add: vals_def)
  qed (simp add: IH, simp add: vals_def)
qed (simp add: vals_def)

lemma view_rel:
  assumes "rel h ob" and "tab_rel ob tab"
  shows "client_view ops h tab = Some (vals ob tab)"
proof (rule view_vals [OF assms(1)], clarify)
  fix p n
  assume "(p, n) \<in> set (List.map_filter id tab)"
  then have "Some (p, n) \<in> set tab" by (auto simp: map_filter_def)
  then obtain k where "k < length tab" "tab ! k = Some (p, n)" by (auto simp: in_set_conv_nth)
  then show "\<exists>d. ob p = Some d \<and> unat n \<le> length d" using assms(2) unfolding tab_rel_def by blast
qed

text \<open>A new object at the end of the table.\<close>

lemma tab_new:
  assumes "tab_rel ob tab" and "ob p = None" and "unat n \<le> length d"
  shows "tab_rel (ob(p \<mapsto> d)) (tab @ [Some (p, n)])" and "vals (ob(p \<mapsto> d)) (tab @ [Some (p, n)]) = vals ob tab @ [Some (take (unat n) d)]"
  using tab_put [OF tab_snoc(1) [OF assms(1)], of "length tab" p n d] assms(2,3) by (simp_all add: tab_snoc(2) list_update_append)

lemma client_new:
  assumes "rel h ob" "tab_rel ob tab" and "f = Some (h, None) \<or> (\<exists>h' p d. f = Some (h', Some p) \<and> rel h' (ob(p \<mapsto> d)) \<and> ob p = None \<and> unat n \<le> length d \<and> P (take (unat n) d))"
    and "S (vals ob tab @ [None])" and "\<And>v. length v = unat n \<Longrightarrow> P v \<Longrightarrow> S (vals ob tab @ [Some v])"
  shows "\<exists>c' vs'. do { (h, p) \<leftarrow> f; Some (h, tab @ [map_option (\<lambda>p. (p, n)) p]) } = Some c' \<and> S vs' \<and> client_sim rel c' vs'"
  using assms(3)
proof
  assume "f = Some (h, None)"
  then show ?thesis using assms(1,2,4) tab_snoc [of ob tab] by (auto simp: client_sim_def)
next
  assume "\<exists>h' p d. f = Some (h', Some p) \<and> rel h' (ob(p \<mapsto> d)) \<and> ob p = None \<and> unat n \<le> length d \<and> P (take (unat n) d)"
  then obtain h' p d where f: "f = Some (h', Some p)" "rel h' (ob(p \<mapsto> d))" "ob p = None" "unat n \<le> length d" "P (take (unat n) d)" by blast
  note new = tab_new [OF assms(2) f(3,4)]
  have "client_sim rel (h', tab @ [Some (p, n)]) (vals ob tab @ [Some (take (unat n) d)])" using f(2) new by (auto simp: client_sim_def)
  moreover have "S (vals ob tab @ [Some (take (unat n) d)])" using f(4,5) by (intro assms(5)) simp_all
  ultimately show ?thesis using f(1) by auto
qed

lemma step_malloc:
  assumes "rel h ob" "tab_rel ob tab" and "size_ok sz"
  shows "\<exists>c' vs'. client_step ops (Malloc sz) (h, tab) = Some c' \<and> spec_step (Malloc sz) (vals ob tab) vs' \<and> client_sim rel c' vs'"
proof (cases "sz = 0")
  case True
  then show ?thesis using malloc_zero [OF assms(1)] assms tab_snoc [of ob tab] by (auto simp: client_sim_def intro: malloc_none)
next
  case False
  have new: "spec_step (Malloc sz) (vals ob tab) (vals ob tab @ [Some v])" if "length v = unat sz" for v
    using that False word_neq_0_unat [of sz] by (intro malloc_some) auto
  have "op_malloc ops sz h = Some (h, None) \<or> (\<exists>h' p d. op_malloc ops sz h = Some (h', Some p) \<and> rel h' (ob(p \<mapsto> d)) \<and> ob p = None \<and> unat sz \<le> length d \<and> True)"
    using malloc_law [OF assms(1) False assms(3)] by blast
  from client_new [OF assms(1,2) this malloc_none new] show ?thesis by simp
qed

lemma step_calloc:
  assumes "rel h ob" "tab_rel ob tab" and "unat cnt * unat sz + 7 < 2 ^ 32"
  shows "\<exists>c' vs'. client_step ops (Calloc cnt sz) (h, tab) = Some c' \<and> spec_step (Calloc cnt sz) (vals ob tab) vs' \<and> client_sim rel c' vs'"
proof -
  define P where "P v \<longleftrightarrow> v = replicate (unat cnt * unat sz) (0 :: u8) \<and> 0 < unat cnt * unat sz" for v
  have u: "unat (cnt * sz) = unat cnt * unat sz" using assms(3) by (simp add: unat_mult_lem [THEN iffD1])
  have new: "spec_step (Calloc cnt sz) (vals ob tab) (vals ob tab @ [Some v])" if "P v" for v
    using that calloc_some [of cnt sz] by (simp add: P_def)
  have "op_calloc ops cnt sz h = Some (h, None) \<or> (\<exists>h' p d. op_calloc ops cnt sz h = Some (h', Some p) \<and> rel h' (ob(p \<mapsto> d)) \<and> ob p = None
      \<and> unat (cnt * sz) \<le> length d \<and> P (take (unat (cnt * sz)) d))"
    unfolding u P_def using calloc_law [OF assms(1,3)] by blast
  from client_new [OF assms(1,2) this calloc_none new] show ?thesis by simp
qed

lemma step_realloc_null:
  assumes "rel h ob" "tab_rel ob tab" and sz: "size_ok sz" and k: "k < length tab" "tab ! k = None"
  shows "\<exists>c' vs'. client_step ops (Realloc k sz) (h, tab) = Some c' \<and> spec_step (Realloc k sz) (vals ob tab) vs' \<and> client_sim rel c' vs'"
proof (cases "sz = 0")
  case True
  have "tab[k := None] = tab" "(vals ob tab)[k := None] = vals ob tab"
    using k list_update_id [of tab k] list_update_id [of "vals ob tab" k] by (simp_all add: vals_nth)
  then show ?thesis
    using realloc_nothing [OF assms(1)] assms(1,2) k True realloc_zero [of k "vals ob tab"] by (auto simp: client_sim_def)
next
  case False
  from realloc_new [OF assms(1) False sz] show ?thesis
  proof
    assume "op_realloc ops None sz h = Some (h, None)"
    then show ?thesis using assms(1,2) k False realloc_fail [of sz k "vals ob tab"] by (auto simp: client_sim_def)
  next
    assume "\<exists>h' p d. op_realloc ops None sz h = Some (h', Some p) \<and> rel h' (ob(p \<mapsto> d)) \<and> ob p = None \<and> unat sz \<le> length d"
    then obtain h' p d where f: "op_realloc ops None sz h = Some (h', Some p)" "rel h' (ob(p \<mapsto> d))" "ob p = None" "unat sz \<le> length d" by blast
    note put = tab_put [OF assms(2) k f(3,4)]
    have "client_sim rel (h', tab[k := Some (p, sz)]) ((vals ob tab)[k := Some (take (unat sz) d)])" using f(2) put by (auto simp: client_sim_def)
    moreover have "spec_step (Realloc k sz) (vals ob tab) ((vals ob tab)[k := Some (take (unat sz) d)])"
      using k f(4) by (intro realloc_null) (simp_all add: vals_nth)
    moreover have "client_step ops (Realloc k sz) (h, tab) = Some (h', tab[k := Some (p, sz)])" using f(1) k False by simp
    ultimately show ?thesis by blast
  qed
qed

lemma step_realloc_some:
  assumes "rel h ob" "tab_rel ob tab" and sz: "size_ok sz" and k: "k < length tab" "tab ! k = Some (p, n)"
  shows "\<exists>c' vs'. client_step ops (Realloc k sz) (h, tab) = Some c' \<and> spec_step (Realloc k sz) (vals ob tab) vs' \<and> client_sim rel c' vs'"
proof -
  obtain d where d: "ob p = Some d" "unat n \<le> length d" using assms(2) k unfolding tab_rel_def by blast
  have v: "vals ob tab ! k = Some (take (unat n) d)" using k d by (simp add: vals_nth)
  show ?thesis
  proof (cases "sz = 0")
    case True
    obtain h' where h': "op_realloc ops (Some p) 0 h = Some (h', None)" "rel h' (ob(p := None))" using realloc_free [OF assms(1) d(1)] by blast
    have "client_sim rel (h', tab[k := None]) ((vals ob tab)[k := None])" using h'(2) tab_drop [OF assms(2) k] by (auto simp: client_sim_def)
    moreover have "client_step ops (Realloc k sz) (h, tab) = Some (h', tab[k := None])" using h'(1) k True by simp
    ultimately show ?thesis using realloc_zero [of k "vals ob tab"] True by blast
  next
    case False
    from realloc_law [OF assms(1) d(1) False sz] show ?thesis
    proof
      assume "op_realloc ops (Some p) sz h = Some (h, None)"
      then show ?thesis using assms(1,2) k False realloc_fail [of sz k "vals ob tab"] by (auto simp: client_sim_def)
    next
      assume "\<exists>h' q e. op_realloc ops (Some p) sz h = Some (h', Some q) \<and> rel h' ((ob(p := None))(q \<mapsto> e)) \<and> (q = p \<or> ob q = None)
          \<and> unat sz \<le> length e \<and> take (min (length d) (unat sz)) e = take (min (length d) (unat sz)) d"
      then obtain h' q e where f: "op_realloc ops (Some p) sz h = Some (h', Some q)" "rel h' ((ob(p := None))(q \<mapsto> e))" "q = p \<or> ob q = None"
          "unat sz \<le> length e" "take (min (length d) (unat sz)) e = take (min (length d) (unat sz)) d" by blast
      have 1: "k < length (tab[k := None])" "tab[k := None] ! k = None" "(ob(p := None)) q = None" using k f(3) by auto
      note put = tab_put [OF tab_drop(1) [OF assms(2) k] 1 f(4), unfolded tab_drop(2) [OF assms(2) k] list_update_overwrite]
      have "client_sim rel (h', tab[k := Some (q, sz)]) ((vals ob tab)[k := Some (take (unat sz) e)])"
        unfolding client_sim_def fst_conv snd_conv using f(2) put by blast
      moreover have "take (min (unat n) (unat sz)) e = take (min (unat n) (unat sz)) d"
        using arg_cong [OF f(5), of "take (min (unat n) (unat sz))"] d(2) by (simp add: min_def split: if_splits)
      then have "spec_step (Realloc k sz) (vals ob tab) ((vals ob tab)[k := Some (take (unat sz) e)])"
        using k f(4) d(2) by (intro realloc_some [OF _ v]) (auto simp: min_def split: if_splits)
      moreover have "client_step ops (Realloc k sz) (h, tab) = Some (h', tab[k := Some (q, sz)])" using f(1) k False by simp
      ultimately show ?thesis by blast
    qed
  qed
qed

lemma step_release:
  assumes "rel h ob" "tab_rel ob tab"
  shows "\<exists>c' vs'. client_step ops (Release k) (h, tab) = Some c' \<and> spec_step (Release k) (vals ob tab) vs' \<and> client_sim rel c' vs'"
proof (cases "k < length tab")
  case False
  then have "(vals ob tab)[k := None] = vals ob tab" by (simp add: list_update_beyond)
  then show ?thesis using assms False release_any [of k "vals ob tab"] by (auto simp: client_sim_def)
next
  case k: True
  show ?thesis
  proof (cases "tab ! k")
    case None
    have "tab[k := None] = tab" "(vals ob tab)[k := None] = vals ob tab"
      using k None list_update_id [of tab k] list_update_id [of "vals ob tab" k] by (simp_all add: vals_nth)
    then show ?thesis using assms k None free_null release_any [of k "vals ob tab"] by (auto simp: client_sim_def)
  next
    case (Some pn)
    then obtain p n where pn: "tab ! k = Some (p, n)" by (cases pn) simp
    then obtain d where "ob p = Some d" using assms(2) k unfolding tab_rel_def by blast
    then obtain h' where h': "op_free ops (Some p) h = Some h'" "rel h' (ob(p := None))" using free_law [OF assms(1)] by blast
    have "client_sim rel (h', tab[k := None]) ((vals ob tab)[k := None])"
      unfolding client_sim_def fst_conv snd_conv using h'(2) tab_drop [OF assms(2) k pn] by blast
    moreover have "client_step ops (Release k) (h, tab) = Some (h', tab[k := None])" using h'(1) k pn by simp
    ultimately show ?thesis using release_any [of k "vals ob tab"] by blast
  qed
qed

lemma step_store:
  assumes "rel h ob" "tab_rel ob tab"
  shows "\<exists>c' vs'. client_step ops (Store k off ws) (h, tab) = Some c' \<and> spec_step (Store k off ws) (vals ob tab) vs' \<and> client_sim rel c' vs'"
proof (cases "\<exists>p n. k < length tab \<and> tab ! k = Some (p, n) \<and> off + length ws \<le> unat n")
  case True
  then obtain p n where k: "k < length tab" "tab ! k = Some (p, n)" and le: "off + length ws \<le> unat n" by blast
  then obtain d where d: "ob p = Some d" "unat n \<le> length d" using assms(2) unfolding tab_rel_def by blast
  obtain h' where h': "op_store ops (p + of_nat off) ws h = Some h'" "rel h' (ob(p \<mapsto> patch_at d off ws))"
    using store_law [OF assms(1) d(1), of off ws] le d(2) by auto
  have ln: "unat n \<le> length (patch_at d off ws)" using le d(2) by simp
  note ch = tab_change [OF assms(2) k ln]
  have "client_sim rel (h', tab) ((vals ob tab)[k := Some (take (unat n) (patch_at d off ws))])"
    unfolding client_sim_def fst_conv snd_conv using h'(2) ch by blast
  moreover have "take (unat n) (patch_at d off ws) = patch_at (take (unat n) d) off ws"
    using slice_patch_in [of off ws "unat n" 0 d] le d(2) by simp
  moreover have "vals ob tab ! k = Some (take (unat n) d)" using k d by (simp add: vals_nth)
  then have "spec_step (Store k off ws) (vals ob tab) ((vals ob tab)[k := Some (patch_at (take (unat n) d) off ws)])"
    using k le d(2) by (intro store_some) simp_all
  moreover have "client_step ops (Store k off ws) (h, tab) = Some (h', tab)" using h'(1) k le by simp
  ultimately show ?thesis by auto
next
  case False
  then have "client_step ops (Store k off ws) (h, tab) = Some (h, tab)" by (auto split: option.split)
  moreover have "length v < off + length ws" if kv: "k < length (vals ob tab)" "vals ob tab ! k = Some v" for v
  proof -
    have k: "k < length tab" using kv(1) by simp
    then obtain p n where pn: "tab ! k = Some (p, n)" "v = take (unat n) (the (ob p))" using kv(2) by (auto simp: vals_nth)
    then show ?thesis using False k by auto
  qed
  then have "spec_step (Store k off ws) (vals ob tab) (vals ob tab)" by (intro store_skip) blast
  ultimately show ?thesis using assms by (auto simp: client_sim_def)
qed

lemma step_sim:
  assumes "client_sim rel c vs" and "call_ok x"
  shows "\<exists>c' vs'. client_step ops x c = Some c' \<and> spec_step x vs vs' \<and> client_sim rel c' vs'"
proof -
  obtain h tab ob where c: "c = (h, tab)" "rel h ob" "tab_rel ob tab" "vs = vals ob tab" using assms(1) by (cases c) (auto simp: client_sim_def)
  show ?thesis
  proof (cases x)
    case (Realloc k sz)
    consider "k < length tab" "tab ! k = None" | p n where "k < length tab" "tab ! k = Some (p, n)" | "length tab \<le> k"
      by (cases "tab ! k") (auto simp: not_less [symmetric])
    then show ?thesis
    proof cases
      case 3
      then have "client_step ops x c = Some c" "spec_step x vs vs" using c Realloc by (auto intro: realloc_skip)
      then show ?thesis using assms(1) by blast
    qed (use c Realloc assms(2) step_realloc_null step_realloc_some in \<open>simp_all del: client_step.simps\<close>)
  qed (use c assms(2) step_malloc step_calloc step_release step_store in \<open>simp_all del: client_step.simps\<close>)
qed

lemma run_sim:
  assumes "client_sim rel c vs" and "list_all call_ok xs"
  shows "\<exists>c' vs'. client_run ops xs c = Some c' \<and> spec_run xs vs vs' \<and> client_sim rel c' vs'"
  using assms
proof (induction xs arbitrary: c vs)
  case Nil
  then show ?case by (auto intro: run_nil)
next
  case (Cons x xs)
  then obtain c1 us where 1: "client_step ops x c = Some c1" "spec_step x vs us" "client_sim rel c1 us" using step_sim [of c vs x] by auto
  then obtain c' vs' where "client_run ops xs c1 = Some c'" "spec_run xs us vs'" "client_sim rel c' vs'"
    using Cons.IH [OF 1(3)] Cons.prems(2) by auto
  then show ?case using 1 by (auto intro: run_cons)
qed

text \<open>Every client runs to its end and reads what the specification says.\<close>

lemma client_refines:
  assumes "rel h Map.empty" and "list_all call_ok xs"
  shows "\<exists>h' tab vs. client_run ops xs (h, []) = Some (h', tab) \<and> client_view ops h' tab = Some vs \<and> spec_run xs [] vs
    \<and> (\<exists>ob. rel h' ob \<and> tab_rel ob tab)"
proof -
  have "client_sim rel (h, []) []" using assms(1) by (auto simp: client_sim_def tab_rel_def vals_def)
  then obtain c' vs where "client_run ops xs (h, []) = Some c'" "spec_run xs [] vs" "client_sim rel c' vs" using run_sim assms(2) by blast
  then show ?thesis using view_rel by (cases c') (fastforce simp: client_sim_def)
qed

end

end
