(* ===== verification/System_Heap_Main.thy ===== *)
theory System_Heap_Main
  imports System_Heap
begin

text \<open>
  The system heap of the firmware as an instance of \<open>object_heap\<close>, and the properties of its clients.
\<close>

unbundle bit_operations_syntax

section \<open>The interpretation\<close>

text \<open>The accesses of a client through a pointer.\<close>

definition heap_store :: "u32 \<Rightarrow> bytes \<Rightarrow> rt_small_mem \<Rightarrow> rt_small_mem option" where
  "heap_store p ws m = map_option (\<lambda>h. m\<lparr>heap := h\<rparr>) (mem_write (heap m) (unat (p - heap_ptr m)) ws)"

definition heap_load :: "u32 \<Rightarrow> nat \<Rightarrow> rt_small_mem \<Rightarrow> bytes option" where
  "heap_load p n m = mem_read (heap m) (unat (p - heap_ptr m)) n"

definition rt_heap :: "rt_small_mem heap_ops" where
  "rt_heap = \<lparr>op_malloc = rt_malloc, op_calloc = rt_calloc, op_realloc = rt_realloc, op_free = rt_free,
     op_store = heap_store, op_load = heap_load\<rparr>"

definition at_ptr :: "u32 \<Rightarrow> (nat \<Rightarrow> bytes option) \<Rightarrow> u32 \<Rightarrow> bytes option" where
  "at_ptr base ob p = ob (unat (p - base))"

text \<open>A heap with the objects \<open>ob\<close> that has come from \<open>m0\<close>.\<close>

definition heap_objs :: "rt_small_mem \<Rightarrow> rt_small_mem \<Rightarrow> (u32 \<Rightarrow> bytes option) \<Rightarrow> bool" where
  "heap_objs m0 m ob \<longleftrightarrow> same_heap m0 m \<and> (\<exists>ob'. heap_rel m ob' \<and> ob = at_ptr (heap_ptr m) ob')"

lemma at_ptr_upd:
  assumes "a < 2 ^ 32"
  shows "at_ptr base (ob(a := x)) = (at_ptr base ob)(base + of_nat a := x)"
proof
  fix p
  have "unat (p - base) = a \<longleftrightarrow> p = base + of_nat a"
    using assms by (auto simp: unat_of_nat32)
  then show "at_ptr base (ob(a := x)) p = ((at_ptr base ob)(base + of_nat a := x)) p" by (auto simp: at_ptr_def)
qed

lemma at_ptr_addr: "p = base + of_nat (unat (p - base))" for p :: u32
  by simp

lemma heap_objs_upd:
  assumes "same_heap m0 m" and "same_heap m m'" and "heap_rel m' (ob(a := x))" and "a < 2 ^ 32"
  shows "heap_objs m0 m' ((at_ptr (heap_ptr m) ob)(addr m a := x))"
proof -
  have "heap_ptr m' = heap_ptr m" "same_heap m0 m'" using assms(1,2) by (simp_all add: same_heap_def)
  then show ?thesis using assms(3) at_ptr_upd [OF assms(4), of "heap_ptr m" ob x] by (auto simp: heap_objs_def)
qed

lemma heap_objsD:
  assumes "heap_objs m0 m ob" and "ob p = Some d"
  obtains ob' a where "same_heap m0 m" "heap_rel m ob'" "ob = at_ptr (heap_ptr m) ob'" "p = addr m a" "ob' a = Some d" "a + length d < 2 ^ 32"
proof -
  obtain ob' where sh: "same_heap m0 m" and ob': "heap_rel m ob'" "ob = at_ptr (heap_ptr m) ob'" using assms(1) by (auto simp: heap_objs_def)
  moreover have "ob' (unat (p - heap_ptr m)) = Some d" using assms(2) ob'(2) by (simp add: at_ptr_def)
  moreover have "unat (p - heap_ptr m) + length d < 2 ^ 32" using heap_rel_inside(3,5) [OF ob'(1) calculation(4)] by simp
  ultimately show thesis using that [of ob' "unat (p - heap_ptr m)"] at_ptr_addr [of p "heap_ptr m"] by blast
qed

lemma heap_objs_malloc_sized:
  assumes "heap_objs m0 m ob" and "sz \<noteq> 0" and "size_ok sz"
  shows "rt_smem_alloc sz m = Some (m, None)
    \<or> (\<exists>m' p d. rt_smem_alloc sz m = Some (m', Some p) \<and> heap_objs m0 m' (ob(p \<mapsto> d)) \<and> ob p = None \<and> unat sz \<le> length d
          \<and> 16 \<le> length d \<and> length d < req sz + 32)"
proof -
  obtain ob' where sh: "same_heap m0 m" and ob': "heap_rel m ob'" "ob = at_ptr (heap_ptr m) ob'" using assms(1) by (auto simp: heap_objs_def)
  from heap_alloc_law [OF ob'(1) assms(2)] assms(3) consider "rt_smem_alloc sz m = Some (m, None)"
    | m' a d where "rt_smem_alloc sz m = Some (m', Some (addr m a))" "same_heap m m'" "heap_rel m' (ob'(a \<mapsto> d))" "ob' a = None" "unat sz \<le> length d"
      "16 \<le> length d" "length d < req sz + 32"
    unfolding size_ok_def by blast
  then show ?thesis
  proof cases
    case 2
    have a: "a < 2 ^ 32" using heap_rel_inside(3,5) [OF 2(3), of a d] by simp
    then have "unat (addr m a - heap_ptr m) = a" by (simp add: unat_of_nat32)
    then have "ob (addr m a) = None" using 2(4) ob'(2) by (simp add: at_ptr_def)
    then show ?thesis using 2(1,5-7) heap_objs_upd [OF sh 2(2,3) a] ob'(2) by blast
  qed simp
qed

lemma heap_objs_malloc:
  assumes "heap_objs m0 m ob" and "sz \<noteq> 0" and "size_ok sz"
  shows "rt_smem_alloc sz m = Some (m, None)
    \<or> (\<exists>m' p d. rt_smem_alloc sz m = Some (m', Some p) \<and> heap_objs m0 m' (ob(p \<mapsto> d)) \<and> ob p = None \<and> unat sz \<le> length d)"
  using heap_objs_malloc_sized [OF assms] by blast

lemma heap_objs_store:
  assumes "heap_objs m0 m ob" and "ob p = Some d" and "off + length ws \<le> length d"
  shows "\<exists>m'. heap_store (p + of_nat off) ws m = Some m' \<and> heap_objs m0 m' (ob(p \<mapsto> patch_at d off ws))"
proof -
  obtain ob' a where sh: "same_heap m0 m" and o: "heap_rel m ob'" "ob = at_ptr (heap_ptr m) ob'" "p = addr m a" "ob' a = Some d" "a + length d < 2 ^ 32"
    using heap_objsD [OF assms(1,2)] .
  note st = heap_store_law [OF o(1,4) assms(3)]
  have "unat (of_nat (a + off) :: u32) = a + off" using o(5) assms(3) by (intro unat_of_nat32) simp
  then have "unat (p + of_nat off - heap_ptr m) = a + off" using o(3) by (simp add: add.assoc)
  then have "heap_store (p + of_nat off) ws m = Some (m\<lparr>heap := patch_at (heap m) (a + off) ws\<rparr>)" using st(1) by (simp add: heap_store_def)
  moreover have "heap_objs m0 (m\<lparr>heap := patch_at (heap m) (a + off) ws\<rparr>) (ob(p \<mapsto> patch_at d off ws))"
    unfolding o(2,3) using o(5) by (intro heap_objs_upd [OF sh _ st(2)]) simp_all
  ultimately show ?thesis by simp
qed

lemma heap_objs_free:
  assumes "heap_objs m0 m ob" and "ob p = Some d"
  shows "\<exists>m'. rt_smem_free (Some p) m = Some m' \<and> heap_objs m0 m' (ob(p := None))"
proof -
  obtain ob' a where sh: "same_heap m0 m" and o: "heap_rel m ob'" "ob = at_ptr (heap_ptr m) ob'" "p = addr m a" "ob' a = Some d" "a + length d < 2 ^ 32"
    using heap_objsD [OF assms] .
  obtain m' where "rt_smem_free (Some (addr m a)) m = Some m'" "same_heap m m'" "heap_rel m' (ob'(a := None))"
    using heap_free_law [OF o(1,4)] by blast
  then show ?thesis using heap_objs_upd [of m0 m m' ob' a None] sh o by auto
qed

lemma heap_objs_calloc:
  assumes "heap_objs m0 m ob" and "unat cnt * unat sz + 7 < 2 ^ 32"
  shows "rt_calloc cnt sz m = Some (m, None)
    \<or> (\<exists>m' p d. rt_calloc cnt sz m = Some (m', Some p) \<and> heap_objs m0 m' (ob(p \<mapsto> d)) \<and> ob p = None \<and> 0 < unat cnt * unat sz
        \<and> unat cnt * unat sz \<le> length d \<and> take (unat cnt * unat sz) d = replicate (unat cnt * unat sz) 0)"
proof (cases "cnt * sz = 0")
  case True
  then show ?thesis by (simp add: rt_calloc_def rt_malloc_def rt_smem_alloc_def)
next
  case False
  have u: "unat (cnt * sz) = unat cnt * unat sz" using assms(2) by (simp add: unat_mult_lem [THEN iffD1])
  have "size_ok (cnt * sz)" using assms(2) u by (simp add: size_ok_def)
  from heap_objs_malloc [OF assms(1) False this] consider "rt_smem_alloc (cnt * sz) m = Some (m, None)"
    | m1 p d where "rt_smem_alloc (cnt * sz) m = Some (m1, Some p)" "heap_objs m0 m1 (ob(p \<mapsto> d))" "ob p = None" "unat cnt * unat sz \<le> length d"
    unfolding u by blast
  then show ?thesis
  proof cases
    case 1
    then show ?thesis by (simp add: rt_calloc_def rt_malloc_def)
  next
    case 2
    define ws where "ws = replicate (unat cnt * unat sz) (0 :: u8)"
    obtain m' where m': "heap_store p ws m1 = Some m'" "heap_objs m0 m' (ob(p \<mapsto> patch_at d 0 ws))"
      using heap_objs_store [OF 2(2), of p d 0 ws] 2(4) by (auto simp: ws_def)
    moreover have "rt_calloc cnt sz m = map_option (\<lambda>m. (m, Some p)) (heap_store p ws m1)"
      using 2(1) by (simp add: rt_calloc_def rt_malloc_def heap_store_def u ws_def map_option_case split: option.split)
    moreover have "take (unat cnt * unat sz) (patch_at d 0 ws) = ws" using 2(4) by (simp add: patch_at_0 ws_def)
    moreover have "0 < unat cnt * unat sz" using False u word_neq_0_unat [of "cnt * sz"] by simp
    moreover have "unat cnt * unat sz \<le> length (patch_at d 0 ws)" using 2(4) by (simp add: ws_def)
    ultimately show ?thesis using 2(3) unfolding ws_def by (metis (no_types, lifting) option.simps(9))
  qed
qed

lemma size_ok_align:
  assumes "size_ok sz"
  shows "RT_ALIGN sz 8 = of_nat (round8 (unat sz))" and "unat (of_nat (round8 (unat sz)) :: u32) = round8 (unat sz)"
    and "RT_ALIGN sz 8 = 0 \<longleftrightarrow> sz = 0"
proof -
  have u: "unat (RT_ALIGN sz 8) = round8 (unat sz)" using assms unat_RT_ALIGN by (simp add: size_ok_def)
  then show "RT_ALIGN sz 8 = of_nat (round8 (unat sz))" by (rule unat_eq_of_nat)
  then show "unat (of_nat (round8 (unat sz)) :: u32) = round8 (unat sz)" using u by simp
  have "round8 (unat sz) = 0 \<longleftrightarrow> unat sz = 0" using round8(2) [of "unat sz"] by (auto simp: round8_def)
  then show "RT_ALIGN sz 8 = 0 \<longleftrightarrow> sz = 0" using u by (simp add: word_unat_eq_iff)
qed

lemma heap_objs_realloc_new:
  assumes "heap_objs m0 m ob" and "sz \<noteq> 0" and "size_ok sz"
  shows "rt_smem_realloc None sz m = Some (m, None)
    \<or> (\<exists>m' p d. rt_smem_realloc None sz m = Some (m', Some p) \<and> heap_objs m0 m' (ob(p \<mapsto> d)) \<and> ob p = None \<and> unat sz \<le> length d)"
proof -
  obtain bs where c: "core m bs" using assms(1) by (auto simp: heap_objs_def heap_rel_def smem_inv_def)
  define n where "n = RT_ALIGN sz 8"
  have un: "unat n = round8 (unat sz)" using size_ok_align [OF assms(3)] by (simp add: n_def)
  have n: "n \<noteq> 0" "unat sz \<le> unat n" using size_ok_align(3) [OF assms(3)] assms(2) round8(2) un by (simp_all add: n_def)
  show ?thesis
  proof (cases "mem_size_aligned m < n")
    case True
    then show ?thesis using c by (simp add: rt_smem_realloc_def n_def core_def)
  next
    case False
    have "unat (mem_size_aligned m) + 7 < 2 ^ 32" using c by (simp add: core_def)
    then have "size_ok n" using False by (simp add: size_ok_def word_less_nat_alt)
    moreover have "rt_smem_realloc None sz m = rt_smem_alloc n m" using c False n(1) by (simp add: rt_smem_realloc_def n_def core_def)
    ultimately show ?thesis using heap_objs_malloc [OF assms(1) n(1)] n(2) by (metis order_trans)
  qed
qed

lemma heap_objs_realloc:
  assumes "heap_objs m0 m ob" and "ob p = Some d" and "sz \<noteq> 0" and "size_ok sz"
  shows "rt_smem_realloc (Some p) sz m = Some (m, None)
    \<or> (\<exists>m' q e. rt_smem_realloc (Some p) sz m = Some (m', Some q) \<and> heap_objs m0 m' ((ob(p := None))(q \<mapsto> e)) \<and> (q = p \<or> ob q = None)
        \<and> unat sz \<le> length e \<and> take (min (length d) (unat sz)) e = take (min (length d) (unat sz)) d)"
proof -
  obtain ob' a where sh: "same_heap m0 m" and o: "heap_rel m ob'" "ob = at_ptr (heap_ptr m) ob'" "p = addr m a" "ob' a = Some d" "a + length d < 2 ^ 32"
    using heap_objsD [OF assms(1,2)] .
  obtain m' r where m': "rt_smem_realloc (Some p) sz m = Some (m', r)" "same_heap m m'"
    "r = None \<and> m' = m \<or> (\<exists>b e. r = Some (addr m b) \<and> heap_rel m' ((ob'(a := None))(b \<mapsto> e)) \<and> (b = a \<or> ob' b = None)
          \<and> unat sz \<le> length e \<and> take (min (length d) (unat sz)) e = take (min (length d) (unat sz)) d)"
    using heap_realloc_law [OF o(1,4) assms(3)] assms(4) o(3) unfolding size_ok_def by blast
  from m'(3) show ?thesis
  proof
    assume "\<exists>b e. r = Some (addr m b) \<and> heap_rel m' ((ob'(a := None))(b \<mapsto> e)) \<and> (b = a \<or> ob' b = None)
          \<and> unat sz \<le> length e \<and> take (min (length d) (unat sz)) e = take (min (length d) (unat sz)) d"
    then obtain b e where b: "r = Some (addr m b)" "heap_rel m' ((ob'(a := None))(b \<mapsto> e))" "b = a \<or> ob' b = None"
      "unat sz \<le> length e" "take (min (length d) (unat sz)) e = take (min (length d) (unat sz)) d" by blast
    have lt: "b < 2 ^ 32" using heap_rel_inside(3,5) [OF b(2), of b e] by simp
    have "at_ptr (heap_ptr m) (ob'(a := None)) = ob(p := None)" using o(2,3,5) by (simp add: at_ptr_upd)
    then have "heap_objs m0 m' ((ob(p := None))(addr m b \<mapsto> e))" using heap_objs_upd [OF sh m'(2) b(2) lt] by simp
    moreover have "addr m b = p \<or> ob (addr m b) = None" using b(3) o(2,3) lt by (auto simp: at_ptr_def unat_of_nat32)
    ultimately show ?thesis using m'(1) b(1,4,5) by blast
  qed (use m'(1) in blast)
qed

interpretation sys: object_heap rt_heap "heap_objs m0" for m0
proof unfold_locales
  fix m ob and sz cnt :: u32 and p d n off ws
  assume rel: "heap_objs m0 m ob"
  then have obj: "is_object m" by (auto simp: heap_objs_def heap_rel_def smem_inv_def core_def)
  show "op_malloc rt_heap 0 m = Some (m, None)" by (simp add: rt_heap_def rt_malloc_def rt_smem_alloc_def)
  have z: "RT_ALIGN 0 8 = (0 :: u32)" by (simp add: RT_ALIGN_def)
  show "op_realloc rt_heap None 0 m = Some (m, None)" using obj z by (simp add: rt_heap_def rt_realloc_def rt_smem_realloc_def rt_smem_free_def)
  show "unat cnt * unat sz + 7 < 2 ^ 32 \<Longrightarrow> op_calloc rt_heap cnt sz m = Some (m, None)
    \<or> (\<exists>h' p d. op_calloc rt_heap cnt sz m = Some (h', Some p) \<and> heap_objs m0 h' (ob(p \<mapsto> d)) \<and> ob p = None \<and> 0 < unat cnt * unat sz
        \<and> unat cnt * unat sz \<le> length d \<and> take (unat cnt * unat sz) d = replicate (unat cnt * unat sz) 0)"
    using heap_objs_calloc [OF rel] by (simp add: rt_heap_def)
  show "ob p = Some d \<Longrightarrow> n \<le> length d \<Longrightarrow> op_load rt_heap p n m = Some (take n d)"
  proof -
    assume p: "ob p = Some d" "n \<le> length d"
    obtain ob' a where sh: "same_heap m0 m" and o: "heap_rel m ob'" "p = addr m a" "ob' a = Some d" "a + length d < 2 ^ 32" using heap_objsD [OF rel p(1)] .
    note i = heap_rel_inside [OF o(1,3)]
    have "mem_read (heap m) a n = Some (take n (take (length d) (drop a (heap m))))" using i(3) p(2) by (simp add: mem_simps min_def)
    then show "op_load rt_heap p n m = Some (take n d)" using o(2,4) unfolding i(4) by (simp add: rt_heap_def heap_load_def unat_of_nat32)
  qed
  assume pd: "ob p = Some d"
  show "\<exists>h'. op_free rt_heap (Some p) m = Some h' \<and> heap_objs m0 h' (ob(p := None))"
    using heap_objs_free [OF rel pd] by (simp add: rt_heap_def rt_free_def)
  show "\<exists>h'. op_realloc rt_heap (Some p) 0 m = Some (h', None) \<and> heap_objs m0 h' (ob(p := None))"
    using heap_objs_free [OF rel pd] obj z by (auto simp: rt_heap_def rt_realloc_def rt_smem_realloc_def)
  show "off + length ws \<le> length d \<Longrightarrow> \<exists>h'. op_store rt_heap (p + of_nat off) ws m = Some h' \<and> heap_objs m0 h' (ob(p \<mapsto> patch_at d off ws))"
    using heap_objs_store [OF rel pd] by (auto simp: rt_heap_def)
qed (unfold rt_heap_def heap_ops.simps rt_malloc_def rt_realloc_def rt_free_def,
  simp_all only: heap_objs_malloc heap_objs_realloc_new heap_objs_realloc simp_thms if_True)

section \<open>Initialisation\<close>

text \<open>A memory region that is not at address 0, does not reach the end of the address space and has room for one block.\<close>

definition heap_region :: "u32 \<Rightarrow> u32 \<Rightarrow> bytes \<Rightarrow> bool" where
  "heap_region b e ram \<longleftrightarrow> b \<noteq> 0 \<and> unat b + 128 \<le> unat e \<and> unat e + 16 < 2 ^ 32 \<and> length ram = unat e - unat b"

lemma heap_init_law:
  assumes "heap_region b e ram"
  shows "\<exists>m n. rt_system_heap_init b e ram = Some (Some m) \<and> smem_inv m [Free n] \<and> 16 \<le> n
    \<and> unat (mem_size_aligned m) = n \<and> mem_total m = mem_size_aligned m"
proof -
  have r: "b \<noteq> 0" "unat b + 128 \<le> unat e" "unat e + 16 < 2 ^ 32" "length ram = unat e - unat b" using assms by (simp_all add: heap_region_def)
  define b8 where "b8 = RT_ALIGN b 8"
  define e8 where "e8 = RT_ALIGN_DOWN e 8"
  have ub: "unat b8 = round8 (unat b)" using r by (simp add: b8_def unat_RT_ALIGN)
  have ue: "unat e8 = unat e div 8 * 8" by (simp add: e8_def unat_RT_ALIGN_DOWN)
  have bd: "unat b \<le> unat b8" "unat b8 < unat b + 8" "8 dvd unat b8" using round8 [of "unat b"] ub by simp_all
  have ed: "unat e8 \<le> unat e" "unat e < unat e8 + 8" "8 dvd unat e8" unfolding ue by auto
  have sz: "unat (e8 - b8) = unat e8 - unat b8" using bd ed r by (intro unat_minus_le) linarith
  have "0 < unat b" using r(1) word_neq_0_unat by auto
  then have "b8 \<noteq> 0" using bd(1) by auto
  moreover have "8 dvd unat (e8 - b8)" using bd(3) ed(3) sz by (simp add: dvd_diff_nat)
  moreover have "unat b8 + unat (e8 - b8) + 16 < 2 ^ 32" "104 \<le> unat (e8 - b8)" using sz bd ed r by linarith+
  moreover have "unat (e8 - b8) \<le> length (drop (unat (b8 - b)) ram)" using sz bd ed r(4) by (simp add: unat_minus_le)
  ultimately obtain m where "rt_smem_init b8 (e8 - b8) (drop (unat (b8 - b)) ram) = Some (Some m)" "smem_inv m [Free (unat (e8 - b8) - 88)]"
    "unat (mem_size_aligned m) = unat (e8 - b8) - 88" "mem_total m = mem_size_aligned m"
    using smem_init_law [of b8 "e8 - b8" "drop (unat (b8 - b)) ram"] bd(3) by auto
  moreover have "b8 < e8" using bd ed r by (simp add: word_less_nat_alt)
  ultimately show ?thesis
    using \<open>104 \<le> unat (e8 - b8)\<close> by (auto simp: rt_system_heap_init_def b8_def [symmetric] e8_def [symmetric])
qed

lemma heap_init_objs:
  assumes "heap_region b e ram"
  obtains m where "rt_system_heap_init b e ram = Some (Some m)" "heap_objs m m Map.empty" "16 \<le> unat (mem_size_aligned m)" "mem_total m = mem_size_aligned m"
proof -
  obtain m n where m: "rt_system_heap_init b e ram = Some (Some m)" "smem_inv m [Free n]" "16 \<le> n" "unat (mem_size_aligned m) = n" "mem_total m = mem_size_aligned m"
    using heap_init_law [OF assms] by blast
  have "heap_rel m Map.empty" using m(2) unfolding heap_rel_def by (intro exI [of _ "[Free n]"]) simp
  then have "heap_objs m m Map.empty" unfolding heap_objs_def by (intro conjI exI [of _ Map.empty]) (simp_all add: at_ptr_def fun_eq_iff)
  then show thesis using that m by simp
qed

text \<open>Without objects the heap is one free block.\<close>

lemma free_blocks:
  assumes "objs_of p bs = Map.empty"
  shows "\<forall>b \<in> set bs. is_free b"
  using assms by (induction p bs rule: objs_of.induct) auto

lemma heap_empty:
  assumes "heap_objs m0 m Map.empty"
  shows "smem_inv m [Free (unat (mem_size_aligned m))]"
proof -
  obtain ob' where ob': "heap_rel m ob'" "Map.empty = at_ptr (heap_ptr m) ob'" using assms by (auto simp: heap_objs_def)
  have "ob' = Map.empty"
  proof (rule ccontr)
    assume "ob' \<noteq> Map.empty"
    then obtain a d where ad: "ob' a = Some d" by (auto simp: fun_eq_iff)
    then have "a < 2 ^ 32" using heap_rel_inside(3,5) [OF ob'(1) ad] by simp
    then have "at_ptr (heap_ptr m) ob' (addr m a) = Some d" using ad by (simp add: at_ptr_def unat_of_nat32)
    then show False using ob'(2) by (metis option.distinct(1))
  qed
  then obtain bs where bs: "smem_inv m bs" "objs_of 0 bs = Map.empty" using ob'(1) by (auto simp: heap_rel_def)
  have fr: "\<forall>b \<in> set bs. is_free b" using free_blocks [OF bs(2)] .
  have na: "successively (\<lambda>a b. \<not> (is_free a \<and> is_free b)) bs" and c: "core m bs" using bs(1) by (auto simp: smem_inv_def no_adj_def)
  have "extent bs \<noteq> 0" using c by (simp add: core_def)
  then obtain b cs where b: "bs = b # cs" by (cases bs) auto
  have "cs = []" using na fr b by (cases cs) auto
  moreover obtain n where "b = Free n" using fr b by (cases b) auto
  moreover have "n = unat (mem_size_aligned m)" using c b calculation by (simp add: core_def)
  ultimately show ?thesis using bs(1) b by simp
qed

lemma tab_rel_empty: "tab_rel ob tab \<Longrightarrow> list_all (\<lambda>e. e = None) tab \<Longrightarrow> ob = Map.empty"
  unfolding tab_rel_def by (rule ext, rule ccontr) (force simp: list_all_length)

lemma req_le:
  assumes "unat sz \<le> n" and "8 dvd n" and "16 \<le> n"
  shows "req sz \<le> n"
proof -
  obtain k where "n = 8 * k" using assms(2) by (rule dvdE)
  then have "round8 (unat sz) \<le> n" using assms(1) unfolding round8_def by auto
  then show ?thesis using assms(3) by (simp add: req_def)
qed

section \<open>Properties\<close>

lemma demo_region: "heap_region 0x20000000 0x20000100 (replicate 256 0)"
  by (simp add: heap_region_def)

text \<open>
  C3: the system heap refines a list of independent byte strings. On every memory region that can hold a heap the
  initialisation succeeds, and every sequence of \<open>rt_malloc\<close>, \<open>rt_calloc\<close>, \<open>rt_realloc\<close>, \<open>rt_free\<close> and writes inside the
  requested sizes then runs to its end: no assertion fails, no access leaves the heap, no search for a free block
  runs forever. What the client reads through its pointers afterwards is what the specification allows: an object changes only by
  a write to it, keeps its front part through \<open>rt_realloc\<close>, and is zero after \<open>rt_calloc\<close>.
\<close>

theorem heap_client_refines:
  assumes "heap_region b e ram" and "list_all call_ok calls"
  shows "\<exists>m m' tab vs. rt_system_heap_init b e ram = Some (Some m) \<and> client_run rt_heap calls (m, []) = Some (m', tab)
    \<and> client_view rt_heap m' tab = Some vs \<and> spec_run calls [] vs"
proof -
  obtain m where "rt_system_heap_init b e ram = Some (Some m)" "heap_objs m m Map.empty" using heap_init_objs [OF assms(1)] .
  then show ?thesis using sys.client_refines [of m m calls] assms(2) by blast
qed

theorem heap_client_refines_witness:
  "\<exists>m m' tab vs. rt_system_heap_init 0x20000000 0x20000100 (replicate 256 0) = Some (Some m)
    \<and> client_run rt_heap [Malloc 24, Store 0 2 [7, 8], Calloc 2 8, Realloc 0 40, Release 1] (m, []) = Some (m', tab)
    \<and> client_view rt_heap m' tab = Some vs \<and> spec_run [Malloc 24, Store 0 2 [7, 8], Calloc 2 8, Realloc 0 40, Release 1] [] vs"
  by (rule heap_client_refines [OF demo_region]) (simp add: size_ok_def)

text \<open>
  C10: no memory is lost and no fragments remain. When a client has returned all its objects, in whatever order, the heap
  counts no used byte and can again give away all of its memory in one piece.
\<close>

theorem heap_no_leak:
  assumes "heap_region b e ram" and "list_all call_ok calls" and "rt_system_heap_init b e ram = Some (Some m)"
    and "client_run rt_heap calls (m, []) = Some (m', tab)" and "list_all (\<lambda>p. p = None) tab"
    and "sz \<noteq> 0" and "sz \<le> fst (rt_memory_info m)"
  shows "fst (snd (rt_memory_info m')) = 0 \<and> (\<exists>m'' p. rt_malloc sz m' = Some (m'', Some p))"
proof -
  have m: "heap_objs m m Map.empty" "16 \<le> unat (mem_size_aligned m)" "mem_total m = mem_size_aligned m"
    using heap_init_objs [OF assms(1)] assms(3) by auto
  obtain ob where ob: "heap_objs m m' ob" "tab_rel ob tab" using sys.client_refines [OF m(1) assms(2)] assms(4) by auto
  have "heap_objs m m' Map.empty" using tab_rel_empty [OF ob(2) assms(5)] ob(1) by simp
  note inv = heap_empty [OF this]
  have mm: "mem_size_aligned m' = mem_size_aligned m" using ob(1) by (simp add: heap_objs_def same_heap_def)
  define n where "n = unat (mem_size_aligned m')"
  have n: "8 dvd n" "16 \<le> n" "n + 7 < 2 ^ 32" using inv m(2) mm by (auto simp: smem_inv_def core_def n_def)
  have sz: "unat sz \<le> n" using assms(7) m(3) mm by (simp add: rt_memory_info_def word_le_nat_alt n_def)
  have "mem_used m' = 0" using inv by (simp add: smem_inv_def counted_def word_unat_eq_iff)
  moreover have "\<exists>m'' p. rt_smem_alloc sz m' = Some (m'', Some p)"
    using alloc_some [of m' "[]" n "[]" sz] inv assms(6) sz n req_le [OF sz n(1,2)] by (auto simp: n_def)
  ultimately show ?thesis by (simp add: rt_memory_info_def rt_malloc_def)
qed

theorem heap_no_leak_witness:
  "\<exists>m m'. rt_system_heap_init 0x20000000 0x20000100 (replicate 256 0) = Some (Some m)
    \<and> client_run rt_heap [Malloc 24, Release 0] (m, []) = Some (m', [None])
    \<and> fst (snd (rt_memory_info m')) = 0"
proof -
  let ?ram = "replicate 256 0 :: bytes" and ?xs = "[Malloc 24, Release 0]"
  have ok: "list_all call_ok ?xs" by (simp add: size_ok_def)
  obtain m where m: "rt_system_heap_init 0x20000000 0x20000100 ?ram = Some (Some m)" "heap_objs m m Map.empty" "16 \<le> unat (mem_size_aligned m)"
    "mem_total m = mem_size_aligned m" using heap_init_objs [OF demo_region] .
  obtain m' tab where run: "client_run rt_heap ?xs (m, []) = Some (m', tab)" using sys.client_refines [OF m(2) ok] by blast
  then have tab: "tab = [None]" by (auto simp: bind_eq_Some_conv)
  have "1 \<le> fst (rt_memory_info m)" using m(3,4) by (simp add: rt_memory_info_def word_le_nat_alt)
  then have "fst (snd (rt_memory_info m')) = 0"
    using heap_no_leak [OF demo_region ok m(1) run, of 1] tab by simp
  then show ?thesis using m(1) run tab by blast
qed

lemma demo_object:
  obtains m0 m p d where "rt_system_heap_init 0x20000000 0x20000100 (replicate 256 0) = Some (Some m0)"
    and "rt_malloc 16 m0 = Some (m, Some p)" and "heap_objs m0 m [p \<mapsto> d]"
proof -
  obtain m where m: "rt_system_heap_init 0x20000000 0x20000100 (replicate 256 0) = Some (Some m)" "heap_objs m m Map.empty"
    "16 \<le> unat (mem_size_aligned m)" using heap_init_objs [OF demo_region] .
  have "req 16 = 16" by (simp add: req_def round8_def)
  then obtain m1 q where q: "rt_smem_alloc 16 m = Some (m1, Some q)"
    using alloc_some [of m "[]" _ "[]" 16, simplified, OF heap_empty [OF m(2)]] m(3) by auto
  then show thesis using heap_objs_malloc [OF m(2), of 16] m(1) that by (auto simp: rt_malloc_def size_ok_def)
qed

text \<open>
  C38: a request for one of the seven largest sizes wraps around: the rounding to multiples of eight makes it zero.
  \<open>rt_malloc\<close> then answers as to a request for one byte: where that succeeds, the caller that asked for almost
  4 GiB is given a block of at least 16 and less than 48 bytes. \<open>rt_realloc\<close> releases the object and returns no pointer,
  where a request that cannot be met must leave the object alone.
\<close>

theorem heap_huge_request:
  assumes "heap_objs m0 m ob" and "ob p = Some d" and "2 ^ 32 \<le> unat sz + 7"
  shows "rt_malloc sz m = rt_malloc 1 m
    \<and> (rt_malloc sz m = Some (m, None)
      \<or> (\<exists>m' q e. rt_malloc sz m = Some (m', Some q) \<and> heap_objs m0 m' (ob(q \<mapsto> e)) \<and> ob q = None
          \<and> 16 \<le> length e \<and> length e < 48))
    \<and> (\<exists>m'. rt_realloc (Some p) sz m = Some (m', None) \<and> heap_objs m0 m' (ob(p := None)))"
proof -
  have "unat (sz + 7) = unat sz + 7 - 2 ^ 32" using assms(3) unat_bound32 [of sz] by (simp add: unat_word_ariths mod_if)
  then have "unat (sz + 7) < 8" using unat_bound32 [of sz] by simp
  then have "unat (RT_ALIGN sz 8) = 0" by (simp add: RT_ALIGN_eq unat_RT_ALIGN_DOWN)
  then have z: "RT_ALIGN sz 8 = 0" by (simp add: word_unat_eq_iff)
  have "sz \<noteq> 0" using assms(3) by auto
  moreover have "RT_ALIGN 1 8 = (8 :: u32)" "RT_ALIGN 0 8 = (0 :: u32)" by (simp_all add: RT_ALIGN_def)
  ultimately have eq: "rt_malloc sz m = rt_malloc 1 m" "rt_realloc (Some p) sz m = rt_realloc (Some p) 0 m"
    using z by (simp_all add: rt_malloc_def rt_realloc_def rt_smem_alloc_def rt_smem_realloc_def)
  have "req 1 = 16" by (simp add: req_def round8_def)
  then show ?thesis
    using heap_objs_malloc_sized [OF assms(1), of 1] sys.realloc_free [OF assms(1,2)] unfolding eq
    by (auto simp: rt_malloc_def size_ok_def rt_heap_def)
qed

theorem heap_huge_request_witness:
  "\<exists>m0 m p m'. rt_system_heap_init 0x20000000 0x20000100 (replicate 256 0) = Some (Some m0)
    \<and> rt_malloc 16 m0 = Some (m, Some p) \<and> rt_malloc 0xFFFFFFFF m = rt_malloc 1 m
    \<and> rt_realloc (Some p) 0xFFFFFFFF m = Some (m', None) \<and> heap_objs m0 m' Map.empty"
proof -
  obtain m0 m p d where "rt_system_heap_init 0x20000000 0x20000100 (replicate 256 0) = Some (Some m0)"
    "rt_malloc 16 m0 = Some (m, Some p)" and ob: "heap_objs m0 m [p \<mapsto> d]" by (rule demo_object)
  then show ?thesis using heap_huge_request [OF ob, of p d "0xFFFFFFFF"] by auto
qed

end
