(* ===== verification/Spec2Isabelle.thy ===== *)
theory Spec2Isabelle
  imports Lwrb_Spsc Ringbuffer Rs485 Mqtt_Transport Fal_Port Params System_Heap_Main
begin

text \<open>
  Verification of the firmware of an HC32F460 board (Cortex-M4, RT-Thread 5.1.0). All paths are below \<open>src/project\<close>.

  \<^bold>\<open>The program.\<close> The firmware is an RT-Thread application. Its own code is the RS485 driver and the parameter store;
  the rest are packages and parts of the kernel, as they are configured by \<open>rtconfig.h\<close>.

  \<^item> \<open>applications/rs485.c\<close> talks to a half-duplex bus. Its receive interrupt puts bytes into an LwRB ring buffer
    (\<open>lwrb/\<close>), its threads take them out. The serial drivers, pipes and the AT client use the ring buffer of
    RT-Thread (\<open>rt-thread/components/drivers/ipc/ringbuffer.c\<close>).
  \<^item> \<open>applications/params.c\<close> and \<open>applications/flash_param.c\<close> keep the parameters of the board. They store them with
    FlashDB (\<open>packages/FlashDB-v2.1.0\<close>) in a partition of the flash abstraction layer (\<open>rt-thread/components/fal\<close>), which
    lies on the serial flash (\<open>board/ports/fal\<close>, the driver SFUD in \<open>rt-thread/components/drivers/spi/sfud\<close>); the
    second device of that layer is the on-chip flash (\<open>libraries/hc32_drivers/drv_flash\<close>, \<open>hc32_ll_efm.c\<close>).
  \<^item> \<open>packages/pahomqtt/MQTTPacket\<close> encodes and decodes the packets of the MQTT client.
  \<^item> All of them take memory from the heap of the kernel (\<open>rt-thread/src/mem.c\<close>, \<open>kservice.c\<close>).

  \<^bold>\<open>Conventions.\<close> Integers have the width of the target where wrap-around can matter, otherwise they are natural numbers
  or integers and the theory says so. Objects in memory are lists of bytes with checked accesses. The result \<open>None\<close> of
  a function that models code means undefined behaviour, a failed assertion or a loop that never ends, so that every
  \<open>Some\<close> in the conclusion of a theorem excludes them. Error codes of the code are ordinary results. Hardware, device
  drivers below the modelled ones, callbacks and the two floating point conversions are parameters; where a theorem
  relies on their behaviour this is a named hypothesis with an instance that satisfies it.

  \<^bold>\<open>Theories.\<close>

  \<^item> \<open>Board_Prelude\<close>, \<open>Le_Words\<close>, \<open>C_Strings\<close>, \<open>Rt_Align\<close>, \<open>Rt_Errors\<close>: machine types, checked memory, circular storage,
    little-endian words, the string functions of the C library, the alignment macros and error codes of the kernel.
  \<^item> \<open>Byte_Fifo\<close>: the locale of a bounded byte queue; over any sequence of puts and gets it refines a list of bytes of
    bounded length. It is interpreted on both ring buffers.
  \<^item> \<open>Lwrb\<close> (\<open>lwrb.c\<close>, \<open>lwrb_ex.c\<close>), \<open>Lwrb_Spsc\<close>: every function with its result on every branch; the queue is a FIFO,
    searching and moving are correct and end, and a reader that is interrupted by the writer at any of its accesses to
    shared variables still delivers the right bytes.
  \<^item> \<open>Ringbuffer\<close> (\<open>ringbuffer.c\<close>, \<open>ringbuffer.h\<close>): positions with mirror bits, FIFO order, forced puts keep the newest bytes.
  \<^item> \<open>Rs485\<close> (\<open>rs485.c\<close>): the calls of the driver as a trace of actions on pin, UART and clock. The direction pin is
    raised before and lowered after every frame. Up to 428 bytes the time it is held for is short of the transmission by less
    than one tick of the kernel at most, and not at all up to 10000 baud; from 429 to 857 bytes the 32-bit product has wrapped
    and the bus is released at least 400 bytes early.
  \<^item> \<open>Mqtt_Packet\<close>, \<open>Mqtt_Messages\<close>, \<open>Mqtt_Roundtrip\<close>, \<open>Mqtt_Transport\<close> (\<open>MQTTPacket/src\<close>): serializers and deserializers on
    checked buffers, round trips for the packet types, bounds, the places where a size check is missing, and the blocking
    and the resumable packet reader.
  \<^item> \<open>Nor_Flash\<close>: what a NOR flash is; the interface between the drivers and the database.
  \<^item> \<open>Sfud\<close>, \<open>Sfud_Refinement\<close> (\<open>sfud.c\<close>, \<open>sfud_sfdp.c\<close>): the serial flash driver over SPI transfers implements a NOR flash
    on every chip that satisfies \<open>spi_nor\<close>.
  \<^item> \<open>Efm_Flash\<close> (\<open>drv_flash_f4.c\<close>, \<open>hc32_ll_efm.c\<close>): the on-chip flash with the assertions of the low-level driver, which
    are active in this build; its read-back, and an erase that goes one sector too far.
  \<^item> \<open>Fal\<close>, \<open>Fal_Port\<close> (\<open>fal.c\<close>, \<open>fal_flash.c\<close>, \<open>fal_partition.c\<close>, the ports): partitions as NOR flashes of their own through all
    layers, and the bound checks.
  \<^item> \<open>Fdb_Utils\<close> (\<open>fdb_utils.c\<close>, \<open>fdb_low_lvl.h\<close>): CRC-32, status bits, search for erased flash.
  \<^item> \<open>Fdb_Kvdb\<close>, \<open>Fdb_Kvdb_Ops\<close>, \<open>Fdb_Kvdb_Write\<close> (\<open>fdb_kvdb.c\<close>, \<open>fdb.c\<close>): the model of the key-value database, in the order of
    the source. \<open>Fdb_Flash_Ops\<close>, \<open>Fdb_Kvdb_Record\<close>, \<open>_Safety\<close>: one record, and power failures at any moment of its creation
    or replacement. \<open>_Layout\<close>, \<open>_Sectors\<close>, \<open>_Find\<close>, \<open>_Cache\<close>, \<open>_Alloc\<close>, \<open>_Change\<close>, \<open>_Map\<close>: well-formed databases and the effect of
    every operation on them. \<open>_Store\<close>: the locale of a key-value store, interpreted on the database. \<open>_Load\<close>, \<open>_Main\<close>:
    restart, and the main theorems: the database refines a map.
  \<^item> \<open>Flash_Param\<close>, \<open>Flash_Param_Laws\<close>, \<open>Flash_Param_Main\<close> (\<open>flash_param.c\<close>), \<open>Params\<close> (\<open>params.c\<close>): the parameter manager on the
    model of the database, what setting and restarting do, the lock discipline, and the table of the board.
  \<^item> \<open>Small_Mem\<close>, \<open>Small_Mem_Laws\<close>, \<open>Small_Mem_Ops\<close>, \<open>Small_Mem_Main\<close> (\<open>mem.c\<close>), \<open>System_Heap\<close>, \<open>System_Heap_Main\<close> (\<open>kservice.c\<close>): the
    allocator on the bytes of the heap, block headers included; the locale \<open>object_heap\<close>, whose clients see separate objects
    that nobody else changes, and its interpretation on the functions of the kernel.

  \<^bold>\<open>Loops.\<close> Loops that end by their shape are recursive functions with a termination proof. The loops whose end
  depends on data (the searches for a free block and for a byte string in a ring buffer, the recovery of the database) are partial functions;
  the theorems about them state that they return, under the invariant of the component. Polling of the serial flash is bounded
  by the retry count of the source. There is no fuel anywhere in the models.

  \<^bold>\<open>Not modelled.\<close> Register accesses, start-up code and peripheral drivers (they are assignments to hardware); the
  kernel's threads, object system and communication primitives; the socket layers, the AT client and
  the network packages, whose behaviour is that of a remote device; console, log and file system code; the time series part
  of FlashDB, which is not compiled. Of the modelled parts: the garbage collection of the database, its recovery
  of half-written records and its first start on flash that was never formatted are in the model but no correctness theorem covers
  them; \<open>rt_malloc_align\<close> and \<open>rt_free_align\<close> are in the model without a law; \<open>rt_ringbuffer_destroy\<close> is not in the model.
\<close>

end
